(* ===== verification/Prelude.thy ===== *)
theory Prelude
  imports Main "HOL-Library.Monad_Syntax"
begin

text \<open>
  The Java layer every component of the development is written in.

  \<^item> A Java \<open>int\<close> is an \<open>int\<close>. Where the code adds distances, which can leave the
    32-bit range, the addition is \<open>jadd\<close>, with the wrap-around of the JVM written out.
    Index arithmetic stays inside the bounds of an allocated array and is plain \<open>int\<close>.
  \<^item> An array is a list. \<open>aget\<close>, \<open>aset\<close>, \<open>arraycopy\<close>, \<open>copyOf\<close> and
    \<open>fillRange\<close> are the JVM's array accesses and \<open>System.arraycopy\<close>,
    \<open>Arrays.copyOf\<close> and \<open>Arrays.fill\<close>; an access outside the array is an uncaught
    exception of the source, the value \<open>None\<close>. A method that can throw returns an
    \<open>option\<close> and is composed with the \<open>do\<close> notation.
  \<^item> \<open>binarySearch\<close> is the loop of \<open>Arrays.binarySearch\<close> with its encoding of a
    missing key, \<open>-(insertion point) - 1\<close>.
  The collection \<open>java\<close> holds the evaluation rules of these operations inside their
  bounds; the component proofs use it through \<open>simp add: java\<close>.
\<close>

named_theorems java \<open>array operations inside their bounds\<close>

section \<open>Integers\<close>

definition MAX_VALUE :: int where
  "MAX_VALUE = 2147483647"

definition wrap32 :: "int \<Rightarrow> int" where
  "wrap32 x = (x + 2147483648) mod 4294967296 - 2147483648"

definition jadd :: "int \<Rightarrow> int \<Rightarrow> int" where
  "jadd a b = wrap32 (a + b)"

lemma wrap32_id: "- 2147483648 \<le> x \<Longrightarrow> x \<le> MAX_VALUE \<Longrightarrow> wrap32 x = x"
  by (simp add: wrap32_def MAX_VALUE_def)

lemma wrap32_bounds: "- 2147483648 \<le> wrap32 x \<and> wrap32 x \<le> MAX_VALUE"
proof -
  have "0 \<le> (x + 2147483648) mod 4294967296" "(x + 2147483648) mod 4294967296 < 4294967296"
    by simp_all
  then show ?thesis by (simp add: wrap32_def MAX_VALUE_def del: pos_mod_sign pos_mod_bound)
qed

lemma jadd_exact: "0 \<le> a \<Longrightarrow> 0 \<le> b \<Longrightarrow> a + b \<le> MAX_VALUE \<Longrightarrow> jadd a b = a + b"
  by (simp add: jadd_def wrap32_id)

section \<open>Arrays\<close>

definition aget :: "'a list \<Rightarrow> int \<Rightarrow> 'a option" where
  "aget xs i = (if 0 \<le> i \<and> i < int (length xs) then Some (xs ! nat i) else None)"

definition aset :: "'a list \<Rightarrow> int \<Rightarrow> 'a \<Rightarrow> 'a list option" where
  "aset xs i v = (if 0 \<le> i \<and> i < int (length xs) then Some (xs[nat i := v]) else None)"

definition newArray :: "int \<Rightarrow> 'a \<Rightarrow> 'a list option" where
  "newArray n d = (if n < 0 then None else Some (replicate (nat n) d))"

definition arraycopy :: "'a list \<Rightarrow> int \<Rightarrow> 'a list \<Rightarrow> int \<Rightarrow> int \<Rightarrow> 'a list option" where
  "arraycopy src sp dst dp len =
     (if sp < 0 \<or> dp < 0 \<or> len < 0 \<or> sp + len > int (length src) \<or> dp + len > int (length dst)
      then None
      else Some (take (nat dp) dst @ take (nat len) (drop (nat sp) src) @
                 drop (nat (dp + len)) dst))"

definition copyOf :: "'a list \<Rightarrow> int \<Rightarrow> 'a \<Rightarrow> 'a list option" where
  "copyOf xs n d =
     (if n < 0 then None else Some (take (nat n) xs @ replicate (nat n - length xs) d))"

definition fillRange :: "'a list \<Rightarrow> int \<Rightarrow> int \<Rightarrow> 'a \<Rightarrow> 'a list option" where
  "fillRange xs lo hi v =
     (if lo > hi \<or> lo < 0 \<or> hi > int (length xs) then None
      else Some (take (nat lo) xs @ replicate (nat (hi - lo)) v @ drop (nat hi) xs))"

definition fillAll :: "'a list \<Rightarrow> 'a \<Rightarrow> 'a list" where
  "fillAll xs v = replicate (length xs) v"

lemma aget_int [java]: "i < length xs \<Longrightarrow> aget xs (int i) = Some (xs ! i)"
  by (simp add: aget_def)

lemma aget_nat [java]: "0 \<le> i \<Longrightarrow> i < int (length xs) \<Longrightarrow> aget xs i = Some (xs ! nat i)"
  by (simp add: aget_def)

lemma aget_Some_iff: "aget xs i = Some x \<longleftrightarrow> 0 \<le> i \<and> i < int (length xs) \<and> x = xs ! nat i"
  by (auto simp: aget_def)

lemma aget_0 [java]: "xs \<noteq> [] \<Longrightarrow> aget xs 0 = Some (xs ! 0)"
  by (simp add: aget_def)

lemma aset_int [java]: "i < length xs \<Longrightarrow> aset xs (int i) v = Some (xs[i := v])"
  by (simp add: aset_def)

lemma aset_nat [java]: "0 \<le> i \<Longrightarrow> i < int (length xs) \<Longrightarrow> aset xs i v = Some (xs[nat i := v])"
  by (simp add: aset_def)

lemma aset_0 [java]: "xs \<noteq> [] \<Longrightarrow> aset xs 0 v = Some (xs[0 := v])"
  by (simp add: aset_def)

lemma aset_Some_iff: "aset xs i v = Some ys \<longleftrightarrow> 0 \<le> i \<and> i < int (length xs) \<and> ys = xs[nat i := v]"
  by (auto simp: aset_def)

lemma aget_out_of_bounds: "i < 0 \<or> int (length xs) \<le> i \<Longrightarrow> aget xs i = None"
  by (auto simp: aget_def)

lemma length_fillAll [simp]: "length (fillAll xs v) = length xs"
  by (simp add: fillAll_def)

lemma nth_fillAll [simp]: "i < length xs \<Longrightarrow> fillAll xs v ! i = v"
  by (simp add: fillAll_def)

lemma copyOf_grow [java]:
  "0 \<le> k \<Longrightarrow> copyOf xs (int (length xs) + k) d = Some (xs @ replicate (nat k) d)"
  by (simp add: copyOf_def nat_add_distrib)

lemma fillRange_tail [java]:
  "fillRange (xs @ ys) (int (length xs)) (int (length xs + length ys)) v
     = Some (xs @ replicate (length ys) v)"
  by (simp add: fillRange_def)

text \<open>Opening a gap at \<open>i\<close> in the first \<open>n\<close> slots, as every sorted insertion does.\<close>

lemma arraycopy_gap:
  assumes "i \<le> n" "n < length a"
  shows "arraycopy a (int i) a (int i + 1) (int n - int i)
           = Some (take (Suc i) a @ take (n - i) (drop i a) @ drop (Suc n) a)"
proof -
  have eqs: "nat (int i + 1) = Suc i" "nat (int n - int i) = n - i"
    "nat (int i + 1 + (int n - int i)) = Suc n"
    using assms by simp_all
  show ?thesis using assms unfolding arraycopy_def eqs by simp
qed

lemma arraycopy_gap_update:
  assumes "i \<le> n" "n < length a"
  shows "(take (Suc i) a @ take (n - i) (drop i a) @ drop (Suc n) a)[i := x]
           = take i a @ x # take (n - i) (drop i a) @ drop (Suc n) a"
  using assms by (simp add: list_update_append upd_conv_take_nth_drop min_def)

text \<open>Closing the gap at \<open>i\<close>, as every indexed removal does.\<close>

lemma arraycopy_close:
  assumes "i \<le> n" "n < length a"
  shows "arraycopy a (int i + 1) a (int i) (int n - int i)
           = Some (take i a @ take (n - i) (drop (Suc i) a) @ drop n a)"
proof -
  have eqs: "nat (int i + 1) = Suc i" "nat (int n - int i) = n - i"
    "nat (int i + (int n - int i)) = n"
    using assms by simp_all
  show ?thesis using assms unfolding arraycopy_def eqs by simp
qed

section \<open>Loops\<close>

text \<open>
  A \<open>for\<close> loop over a list, or over the indices \<open>lo, ..., hi - 1\<close>, whose body may throw.
\<close>

primrec for_list :: "'a list \<Rightarrow> ('a \<Rightarrow> 's \<Rightarrow> 's option) \<Rightarrow> 's \<Rightarrow> 's option" where
  "for_list [] f s = Some s"
| "for_list (x # xs) f s = do { s' \<leftarrow> f x s; for_list xs f s' }"

definition for_range :: "int \<Rightarrow> int \<Rightarrow> (int \<Rightarrow> 's \<Rightarrow> 's option) \<Rightarrow> 's \<Rightarrow> 's option" where
  "for_range lo hi f s = for_list [lo..hi - 1] f s"

lemma for_list_rule:
  assumes "I 0 s"
    and "\<And>k s. k < length xs \<Longrightarrow> I k s \<Longrightarrow> \<exists>s'. f (xs ! k) s = Some s' \<and> I (Suc k) s'"
  shows "\<exists>s'. for_list xs f s = Some s' \<and> I (length xs) s'"
  using assms
proof (induction xs arbitrary: s I)
  case Nil
  then show ?case by simp
next
  case (Cons x xs)
  obtain s1 where s1: "f x s = Some s1" "I 1 s1" using Cons.prems(2)[of 0 s] Cons.prems(1) by auto
  have "\<exists>s'. for_list xs f s1 = Some s' \<and> (\<lambda>k. I (Suc k)) (length xs) s'"
  proof (rule Cons.IH)
    show "I (Suc 0) s1" using s1 by simp
    show "\<exists>s'. f (xs ! k) s = Some s' \<and> I (Suc (Suc k)) s'" if "k < length xs" "I (Suc k) s" for k s
      using Cons.prems(2)[of "Suc k" s] that by simp
  qed
  then show ?case using s1 by simp
qed

lemma for_range_rule:
  assumes "lo \<le> hi" and "I lo s"
    and "\<And>i s. lo \<le> i \<Longrightarrow> i < hi \<Longrightarrow> I i s \<Longrightarrow> \<exists>s'. f i s = Some s' \<and> I (i + 1) s'"
  shows "\<exists>s'. for_range lo hi f s = Some s' \<and> I hi s'"
proof -
  have nth: "[lo..hi - 1] ! k = lo + int k" if "k < nat (hi - lo)" for k
    using that by simp
  have "\<exists>s'. for_list [lo..hi - 1] f s = Some s' \<and> I (lo + int (length [lo..hi - 1])) s'"
  proof (rule for_list_rule[where I = "\<lambda>k. I (lo + int k)"])
    show "\<exists>s'. f ([lo..hi - 1] ! k) s = Some s' \<and> I (lo + int (Suc k)) s'"
      if "k < length [lo..hi - 1]" "I (lo + int k) s" for k s
      using assms(3)[of "lo + int k" s] that nth[of k] by (simp add: add.assoc add.commute[of 1])
  qed (use assms in simp)
  then show ?thesis using assms(1) by (simp add: for_range_def)
qed

text \<open>What a loop that ends has kept.\<close>

lemma for_list_inv:
  assumes "for_list xs f s = Some s'" "I 0 s" "\<And>k s s'. k < length xs \<Longrightarrow> I k s \<Longrightarrow> f (xs ! k) s = Some s' \<Longrightarrow> I (Suc k) s'"
  shows "I (length xs) s'"
  using assms
proof (induction xs arbitrary: s I)
  case (Cons x xs)
  obtain s1 where s1: "f x s = Some s1" "for_list xs f s1 = Some s'" using Cons.prems(1) by (auto simp: bind_eq_Some_conv)
  have "I 1 s1" using Cons.prems(3)[of 0 s s1] Cons.prems(2) s1(1) by simp
  moreover have "I (Suc (Suc k)) b" if "k < length xs" "I (Suc k) a" "f (xs ! k) a = Some b" for k a b
    using Cons.prems(3)[of "Suc k" a b] that by simp
  ultimately show ?case using Cons.IH[OF s1(2), of "\<lambda>k. I (Suc k)"] by simp
qed simp

lemma for_range_inv:
  assumes "for_range lo hi f s = Some s'" "lo \<le> hi" "I lo s" "\<And>i s s'. lo \<le> i \<Longrightarrow> i < hi \<Longrightarrow> I i s \<Longrightarrow> f i s = Some s' \<Longrightarrow> I (i + 1) s'"
  shows "I hi s'"
proof -
  have nth: "[lo..hi - 1] ! k = lo + int k" if "k < nat (hi - lo)" for k using that by simp
  have "(\<lambda>k. I (lo + int k)) (length [lo..hi - 1]) s'"
  proof (rule for_list_inv[where I = "\<lambda>k. I (lo + int k)"])
    show "for_list [lo..hi - 1] f s = Some s'" using assms(1) by (simp add: for_range_def)
    show "I (lo + int (Suc k)) s'" if "k < length [lo..hi - 1]" "I (lo + int k) s" "f ([lo..hi - 1] ! k) s = Some s'" for k s s'
      using assms(4)[of "lo + int k" s s'] that nth[of k] by (simp add: add.assoc add.commute[of 1])
  qed (use assms(3) in simp)
  then show ?thesis using assms(2) by simp
qed

section \<open>Binary search\<close>

function bsearch_loop :: "int list \<Rightarrow> int \<Rightarrow> int \<Rightarrow> int \<Rightarrow> int option" where
  "bsearch_loop a key low high =
     (if low \<le> high then
        (let mid = (low + high) div 2 in
         case aget a mid of
           None \<Rightarrow> None
         | Some midVal \<Rightarrow>
             if midVal < key then bsearch_loop a key (mid + 1) high
             else if midVal > key then bsearch_loop a key low (mid - 1)
             else Some mid)
      else Some (- (low + 1)))"
  by pat_completeness auto
termination
  by (relation "measure (\<lambda>(a, key, low, high). nat (high + 1 - low))") auto

declare bsearch_loop.simps [simp del]

definition binarySearchRange :: "int list \<Rightarrow> int \<Rightarrow> int \<Rightarrow> int \<Rightarrow> int option" where
  "binarySearchRange a fromIndex toIndex key =
     (if fromIndex > toIndex \<or> fromIndex < 0 \<or> toIndex > int (length a) then None
      else bsearch_loop a key fromIndex (toIndex - 1))"

definition binarySearch :: "int list \<Rightarrow> int \<Rightarrow> int option" where
  "binarySearch a key = bsearch_loop a key 0 (int (length a) - 1)"

text \<open>
  The result on a segment that is sorted: a position holding the key, or the encoded
  insertion point, which separates the smaller elements from the larger ones.
\<close>

definition search_result :: "int list \<Rightarrow> nat \<Rightarrow> nat \<Rightarrow> int \<Rightarrow> int \<Rightarrow> bool" where
  "search_result a lo hi key r \<longleftrightarrow>
     (if 0 \<le> r then lo \<le> nat r \<and> nat r < hi \<and> a ! nat r = key
      else lo \<le> nat (- r - 1) \<and> nat (- r - 1) \<le> hi \<and>
           (\<forall>i. lo \<le> i \<and> i < nat (- r - 1) \<longrightarrow> a ! i < key) \<and>
           (\<forall>i. nat (- r - 1) \<le> i \<and> i < hi \<longrightarrow> key < a ! i))"

lemma bsearch_loop_result:
  assumes "\<And>i j. lo \<le> i \<Longrightarrow> i \<le> j \<Longrightarrow> j < hi \<Longrightarrow> a ! i \<le> a ! j"
    and "hi \<le> length a" and "lo \<le> l" and "l \<le> h" and "h \<le> hi"
    and "\<forall>i. lo \<le> i \<and> i < l \<longrightarrow> a ! i < key" and "\<forall>i. h \<le> i \<and> i < hi \<longrightarrow> key < a ! i"
  shows "\<exists>r. bsearch_loop a key (int l) (int h - 1) = Some r \<and> search_result a lo hi key r"
  using assms
proof (induction "h - l" arbitrary: l h rule: less_induct)
  case less
  show ?case
  proof (cases "l < h")
    case False
    with less.prems have "h = l" by simp
    with less.prems show ?thesis
      by (auto simp: bsearch_loop.simps[of a key "int l"] search_result_def)
  next
    case True
    obtain m where mid: "(int l + (int h - 1)) div 2 = int m" and m: "l \<le> m" "m < h"
    proof
      show "(int l + (int h - 1)) div 2 = int ((l + h - 1) div 2)"
        using True by (simp add: zdiv_int of_nat_diff)
    qed (use True in auto)
    have get: "aget a (int m) = Some (a ! m)" using less.prems m by (simp add: java)
    consider (lt) "a ! m < key" | (gt) "a ! m > key" | (eq) "a ! m = key" by linarith
    then show ?thesis
    proof cases
      case lt
      have "\<forall>i. lo \<le> i \<and> i < Suc m \<longrightarrow> a ! i < key"
        using lt less.prems(1)[of _ m] m less.prems(5) by (force simp: less_Suc_eq_le)
      then have "\<exists>r. bsearch_loop a key (int (Suc m)) (int h - 1) = Some r \<and> search_result a lo hi key r"
        using less.prems m by (intro less.hyps) auto
      then show ?thesis
        using True lt by (subst bsearch_loop.simps) (simp add: Let_def mid get add.commute)
    next
      case gt
      have "\<forall>i. m \<le> i \<and> i < hi \<longrightarrow> key < a ! i"
        using gt less.prems(1)[of m] m less.prems(3) by force
      then have "\<exists>r. bsearch_loop a key (int l) (int m - 1) = Some r \<and> search_result a lo hi key r"
        using less.prems m by (intro less.hyps) auto
      then show ?thesis
        using True gt by (subst bsearch_loop.simps) (simp add: Let_def mid get)
    next
      case eq
      then show ?thesis using True m less.prems
        by (subst bsearch_loop.simps) (simp add: Let_def mid get search_result_def)
    qed
  qed
qed

lemma binarySearch_sorted:
  assumes "sorted a"
  shows "\<exists>r. binarySearch a key = Some r \<and> search_result a 0 (length a) key r"
  using bsearch_loop_result[of 0 "length a" a 0 "length a" key] assms
  by (auto simp: binarySearch_def sorted_nth_mono)

section \<open>Padded sorted arrays\<close>

text \<open>
  Several classes keep a strictly increasing sequence in the first slots of an array and
  fill the rest with \<open>Integer.MAX_VALUE\<close>, so that \<open>Arrays.binarySearch\<close> can run over
  the whole array. \<open>padded a p\<close> says that \<open>a\<close> holds the contents \<open>p\<close> in this way;
  \<open>lpos p x\<close> is the index of \<open>x\<close>, or the index where it has to be inserted.
\<close>

definition padded :: "int list \<Rightarrow> int list \<Rightarrow> bool" where
  "padded a p \<longleftrightarrow> length p \<le> length a \<and> a = p @ replicate (length a - length p) MAX_VALUE \<and>
     sorted_wrt (<) p \<and> (\<forall>x \<in> set p. x < MAX_VALUE)"

definition lpos :: "int list \<Rightarrow> int \<Rightarrow> nat" where
  "lpos p x = length (takeWhile (\<lambda>y. y < x) p)"

lemma lpos_le: "lpos p x \<le> length p"
  by (simp add: lpos_def length_takeWhile_le)

lemma lpos_eqI:
  assumes "i \<le> length p" "\<And>j. j < i \<Longrightarrow> p ! j < x" "i < length p \<Longrightarrow> x \<le> p ! i"
  shows "lpos p x = i"
proof -
  have "takeWhile (\<lambda>y. y < x) p = take i p"
    using assms by (intro takeWhile_eq_take_P_nth) auto
  with assms(1) show ?thesis by (simp add: lpos_def)
qed

lemma lpos_nth:
  assumes "sorted_wrt (<) p" "i < length p"
  shows "lpos p (p ! i) = i"
  using assms by (intro lpos_eqI) (auto simp: sorted_wrt_nth_less)

lemma lpos_mem:
  assumes "sorted_wrt (<) p" "x \<in> set p"
  shows "lpos p x < length p" "p ! lpos p x = x"
  using assms by (auto simp: in_set_conv_nth lpos_nth)

lemma lpos_take_less: "y \<in> set (take (lpos p x) p) \<Longrightarrow> y < x"
  by (metis lpos_def set_takeWhileD takeWhile_eq_take)

lemma lpos_drop_greater:
  assumes "sorted_wrt (<) p" "x \<notin> set p" "y \<in> set (drop (lpos p x) p)"
  shows "x < y"
proof -
  let ?i = "lpos p x"
  obtain j where j: "?i + j < length p" "y = p ! (?i + j)"
    using assms(3) by (auto simp: in_set_conv_nth less_diff_conv add.commute)
  then have "\<not> p ! ?i < x" using nth_length_takeWhile[of "\<lambda>y. y < x" p] by (simp add: lpos_def)
  moreover have "p ! ?i \<noteq> x" using assms(2) j by (metis add_lessD1 nth_mem)
  moreover have "p ! ?i \<le> y"
    using assms(1) j by (cases "j = 0") (auto simp: sorted_wrt_nth_less less_imp_le)
  ultimately show ?thesis by simp
qed

lemma padded_length: "padded a p \<Longrightarrow> length p \<le> length a"
  by (simp add: padded_def)

lemma padded_take: "padded a p \<Longrightarrow> take (length p) a = p"
  unfolding padded_def by (metis append_eq_conv_conj)

lemma padded_nth: "padded a p \<Longrightarrow> i < length p \<Longrightarrow> a ! i = p ! i"
  unfolding padded_def by (metis nth_append)

lemma padded_rest: "padded a p \<Longrightarrow> length p \<le> i \<Longrightarrow> i < length a \<Longrightarrow> a ! i = MAX_VALUE"
  unfolding padded_def by (metis add_diff_cancel_left' diff_less_mono le_add_diff_inverse nth_append_length_plus nth_replicate)

lemma padded_sorted:
  assumes "padded a p" shows "sorted a"
proof -
  have "sorted p" using assms by (auto simp: padded_def intro: sorted_wrt_mono_rel[rotated])
  moreover have "\<forall>x \<in> set p. x \<le> MAX_VALUE" using assms by (auto simp: padded_def less_imp_le)
  ultimately have "sorted (p @ replicate (length a - length p) MAX_VALUE)"
    by (auto simp: sorted_append)
  moreover have "a = p @ replicate (length a - length p) MAX_VALUE" using assms by (simp add: padded_def)
  ultimately show ?thesis by metis
qed

lemma padded_fillAll [simp]: "padded (fillAll a MAX_VALUE) []"
  by (simp add: padded_def fillAll_def)

lemma padded_replicate [simp]: "padded (replicate n MAX_VALUE) []"
  by (simp add: padded_def)

lemma padded_grow: "padded a p \<Longrightarrow> padded (a @ replicate k MAX_VALUE) p"
  unfolding padded_def
  by (metis append_assoc diff_add_assoc2 length_append length_replicate replicate_add trans_le_add1)

lemma padded_search:
  assumes "padded a p" "key < MAX_VALUE"
  shows "binarySearch a key =
           Some (if key \<in> set p then int (lpos p key) else - int (lpos p key) - 1)"
proof -
  have sp: "sorted_wrt (<) p" using assms by (simp add: padded_def)
  obtain r where r: "binarySearch a key = Some r" and res: "search_result a 0 (length a) key r"
    using binarySearch_sorted[OF padded_sorted[OF assms(1)]] by blast
  show ?thesis
  proof (cases "0 \<le> r")
    case True
    with res have i: "nat r < length a" "a ! nat r = key" by (auto simp: search_result_def)
    then have "nat r < length p" using assms padded_rest by (metis less_irrefl not_le)
    then have "key = p ! nat r" "nat r < length p" using i padded_nth[OF assms(1)] by auto
    then show ?thesis using r True by (simp add: lpos_nth[OF sp])
  next
    case False
    define i where "i = nat (- r - 1)"
    have r': "r = - int i - 1" using False by (simp add: i_def)
    have le: "i \<le> length a" and lo: "\<And>j. j < i \<Longrightarrow> a ! j < key"
      and hi: "\<And>j. i \<le> j \<Longrightarrow> j < length a \<Longrightarrow> key < a ! j"
      using res False by (auto simp: search_result_def i_def[symmetric])
    have ip: "i \<le> length p"
    proof (rule ccontr)
      assume "\<not> i \<le> length p"
      then have "length p < length a" "a ! length p < key" using le lo by auto
      with padded_rest[OF assms(1), of "length p"] assms(2) show False by simp
    qed
    have "lpos p key = i"
    proof (rule lpos_eqI[OF ip])
      show "j < i \<Longrightarrow> p ! j < key" for j using lo[of j] ip padded_nth[OF assms(1), of j] by simp
      show "i < length p \<Longrightarrow> key \<le> p ! i"
        using hi[of i] padded_nth[OF assms(1), of i] padded_length[OF assms(1)] by simp
    qed
    moreover have "key \<notin> set p"
    proof
      assume "key \<in> set p"
      then have "a ! i = key" "i < length a"
        using lpos_mem[OF sp, of key] \<open>lpos p key = i\<close> padded_nth[OF assms(1)] padded_length[OF assms(1)]
        by auto
      with hi[of i] show False by simp
    qed
    ultimately show ?thesis using r r' by simp
  qed
qed

definition insert_pos :: "'a list \<Rightarrow> nat \<Rightarrow> 'a \<Rightarrow> 'a list" where
  "insert_pos p i x = take i p @ x # drop i p"

definition delete_pos :: "'a list \<Rightarrow> nat \<Rightarrow> 'a list" where
  "delete_pos p i = take i p @ drop (Suc i) p"

lemma length_insert_pos [simp]: "i \<le> length p \<Longrightarrow> length (insert_pos p i x) = Suc (length p)"
  by (simp add: insert_pos_def)

lemma length_delete_pos [simp]: "i < length p \<Longrightarrow> length (delete_pos p i) = length p - 1"
  by (simp add: delete_pos_def)

lemma set_insert_pos [simp]: "set (insert_pos p i x) = insert x (set p)"
  unfolding insert_pos_def by (metis append_take_drop_id insert_commute list.simps(15) set_append Un_insert_right)

lemma sorted_insert_pos:
  assumes "sorted_wrt (<) p" "x \<notin> set p"
  shows "sorted_wrt (<) (insert_pos p (lpos p x) x)"
proof -
  have "sorted_wrt (<) (take (lpos p x) p @ drop (lpos p x) p)" using assms(1) by simp
  then show ?thesis
    using lpos_take_less[of _ p x] lpos_drop_greater[OF assms]
    by (auto simp: insert_pos_def sorted_wrt_append simp del: append_take_drop_id)
qed

lemma padded_insert:
  assumes "padded a p" "x \<notin> set p" "x < MAX_VALUE" "length p < length a"
  shows "padded (take (lpos p x) a @ x # take (length p - lpos p x) (drop (lpos p x) a) @ drop (Suc (length p)) a)
           (insert_pos p (lpos p x) x)"
proof -
  let ?i = "lpos p x"
  have i: "?i \<le> length p" by (rule lpos_le)
  have a: "a = p @ replicate (length a - length p) MAX_VALUE" using assms(1) by (simp add: padded_def)
  have "take ?i a = take ?i p" "take (length p - ?i) (drop ?i a) = drop ?i p"
    "drop (Suc (length p)) a = replicate (length a - Suc (length p)) MAX_VALUE"
    by (subst a; use i assms(4) in simp)+
  then show ?thesis
    using i assms sorted_insert_pos[of p x]
    by (auto simp: padded_def insert_pos_def dest: in_set_takeD in_set_dropD)
qed

text \<open>
  The two array operations of every insertion (shift, then store) and of every removal, as
  they act on the first \<open>n\<close> slots.
\<close>

lemma array_insert:
  assumes "i \<le> n" "n < length a"
  obtains g a' where "arraycopy a (int i) a (int i + 1) (int n - int i) = Some g"
    "length g = length a" "aset g (int i) x = Some a'" "length a' = length a"
    "take (Suc n) a' = insert_pos (take n a) i x" "drop (Suc n) a' = drop (Suc n) a"
    "a' = take i a @ x # take (n - i) (drop i a) @ drop (Suc n) a"
proof -
  let ?g = "take (Suc i) a @ take (n - i) (drop i a) @ drop (Suc n) a"
  let ?a = "take i a @ x # take (n - i) (drop i a) @ drop (Suc n) a"
  have len: "length ?g = length a" using assms by simp
  have l: "min (length a) i = i" "Suc n - i = Suc (n - i)" "min (length a - i) (n - i) = n - i"
    using assms by simp_all
  have st: "aset ?g (int i) x = Some ?a"
    unfolding aset_int[OF order.strict_trans1[OF assms, folded len]] arraycopy_gap_update[OF assms] ..
  have tk: "take (Suc n) ?a = insert_pos (take n a) i x"
    using assms by (simp add: insert_pos_def drop_take l)
  have dr: "drop (Suc n) ?a = drop (Suc n) a"
    using assms by (simp add: l)
  have la: "length ?a = length a" using assms by simp
  show thesis by (rule that[OF arraycopy_gap[OF assms] len st la tk dr refl])
qed

lemma array_insert_padded:
  assumes "padded a p" "x \<notin> set p" "x < MAX_VALUE" "length p < length a"
  obtains g a' where
    "arraycopy a (int (lpos p x)) a (int (lpos p x) + 1) (int (length p) - int (lpos p x)) = Some g"
    "aset g (int (lpos p x)) x = Some a'" "length a' = length a"
    "padded a' (insert_pos p (lpos p x) x)"
proof -
  let ?i = "lpos p x" let ?n = "length p"
  obtain g a' where g: "arraycopy a (int ?i) a (int ?i + 1) (int ?n - int ?i) = Some g"
    "length g = length a" "aset g (int ?i) x = Some a'" "length a' = length a"
    "take (Suc ?n) a' = insert_pos (take ?n a) ?i x" "drop (Suc ?n) a' = drop (Suc ?n) a"
    "a' = take ?i a @ x # take (?n - ?i) (drop ?i a) @ drop (Suc ?n) a"
    by (rule array_insert[OF lpos_le assms(4)])
  show thesis using that[OF g(1,3,4)] padded_insert[OF assms] g(7) by simp
qed

lemma array_delete:
  assumes "i \<le> n" "n < length a"
  obtains a' where "arraycopy a (int i + 1) a (int i) (int n - int i) = Some a'"
    "length a' = length a" "take n a' = delete_pos (take (Suc n) a) i" "drop n a' = drop n a"
proof -
  let ?a = "take i a @ take (n - i) (drop (Suc i) a) @ drop n a"
  have "take n ?a = delete_pos (take (Suc n) a) i" "drop n ?a = drop n a" "length ?a = length a"
    using assms by (auto simp: delete_pos_def min_def drop_take)
  with arraycopy_close[OF assms] that show thesis by blast
qed

lemma set_delete_pos: "set (delete_pos p i) \<subseteq> set p"
  by (auto simp: delete_pos_def dest: in_set_takeD in_set_dropD)

lemma sorted_delete_pos:
  assumes "sorted_wrt (<) p"
  shows "sorted_wrt (<) (delete_pos p i)"
proof -
  have "sorted_wrt (<) (take i p @ drop i p)" using assms by simp
  then have "sorted_wrt (<) (take i p)" "sorted_wrt (<) (drop i p)" "\<forall>x \<in> set (take i p). \<forall>y \<in> set (drop i p). x < y"
    unfolding sorted_wrt_append by blast+
  moreover have "drop (Suc i) p = tl (drop i p)" by (simp add: drop_Suc tl_drop)
  ultimately show ?thesis
    by (cases "drop i p") (auto simp: delete_pos_def sorted_wrt_append)
qed

lemma padded_delete:
  assumes "padded a p" "i < length p"
  shows "padded ((take i a @ take (length p - 1 - i) (drop (Suc i) a) @ drop (length p - 1) a)[length p - 1 := MAX_VALUE])
           (delete_pos p i)"
proof -
  let ?n = "length p - 1" let ?R = "replicate (length a - length p) MAX_VALUE"
  have a: "a = p @ ?R" and le: "length p \<le> length a" using assms(1) by (simp_all add: padded_def)
  have t: "take i a = take i p" by (subst a) (use assms(2) in simp)
  have d: "take (?n - i) (drop (Suc i) a) = drop (Suc i) p" by (subst a) (use assms(2) in simp)
  have l: "drop ?n a = p ! ?n # ?R"
    by (subst a) (use assms(2) Cons_nth_drop_Suc[of ?n p] in simp)
  have len: "length (delete_pos p i) = ?n" using assms(2) by simp
  have "(take i a @ take (?n - i) (drop (Suc i) a) @ drop ?n a)[?n := MAX_VALUE]
          = (delete_pos p i @ p ! ?n # ?R)[?n := MAX_VALUE]"
    unfolding t d l delete_pos_def by simp
  also have "\<dots> = delete_pos p i @ MAX_VALUE # ?R"
    using list_update_length[of "delete_pos p i" "p ! ?n" ?R MAX_VALUE] len by simp
  also have "\<dots> = delete_pos p i @ replicate (length a - ?n) MAX_VALUE"
  proof -
    have "length a - ?n = Suc (length a - length p)" using le assms(2) by simp
    then show ?thesis by simp
  qed
  finally show ?thesis
    using assms(1) set_delete_pos[of p i] sorted_delete_pos[of p i] len le assms(2)
    unfolding padded_def by (auto simp: subset_iff)
qed

section \<open>Parallel arrays\<close>

text \<open>
  A sorted array of keys with further arrays whose entry for a key is at the key's index.
  Inserting, respectively deleting, at the same index in all of them is an update of the
  map from keys to entries.
\<close>

lemma nth_insert_pos:
  "i \<le> length p \<Longrightarrow> insert_pos p i x ! j = (if j < i then p ! j else if j = i then x else p ! (j - 1))"
  by (auto simp: insert_pos_def nth_append nth_Cons' min_def)

lemma nth_delete_pos:
  "i < length p \<Longrightarrow> delete_pos p i ! j = (if j < i then p ! j else p ! Suc j)"
  by (auto simp: delete_pos_def nth_append min_def)

lemma lpos_insert_pos:
  assumes p: "sorted_wrt (<) p" "x \<notin> set p" and y: "y \<in> insert x (set p)"
  shows "lpos (insert_pos p (lpos p x) x) y =
    (if y = x then lpos p x else if lpos p y < lpos p x then lpos p y else Suc (lpos p y))"
proof -
  let ?i = "lpos p x" let ?q = "insert_pos p ?i x"
  have q: "sorted_wrt (<) ?q" "length ?q = Suc (length p)" "?i \<le> length p"
    using sorted_insert_pos[OF p] lpos_le[of p x] by simp_all
  have at: "lpos ?q y = j" if "j \<le> length p" "?q ! j = y" for j
    using lpos_nth[OF q(1), of j] q(2) that by simp
  show ?thesis
  proof (cases "y = x")
    case True
    then show ?thesis using at[OF q(3)] q(3) by (simp add: nth_insert_pos)
  next
    case False
    then have m: "lpos p y < length p" "p ! lpos p y = y" using lpos_mem[OF p(1)] y by auto
    then show ?thesis using False q(3) by (auto intro!: at simp: nth_insert_pos)
  qed
qed

lemma parallel_insert:
  assumes "sorted_wrt (<) p" "x \<notin> set p" "length ds = length p" "y \<in> insert x (set p)"
  shows "insert_pos ds (lpos p x) d ! lpos (insert_pos p (lpos p x) x) y = (if y = x then d else ds ! lpos p y)"
proof -
  have "lpos p x \<le> length ds" using lpos_le[of p x] assms(3) by simp
  then show ?thesis unfolding lpos_insert_pos[OF assms(1,2,4)] by (auto simp: nth_insert_pos)
qed

lemma lpos_delete_pos:
  assumes p: "sorted_wrt (<) p" "i < length p" and y: "y \<in> set p" "y \<noteq> p ! i"
  shows "lpos (delete_pos p i) y = (if lpos p y < i then lpos p y else lpos p y - 1)"
proof -
  have q: "sorted_wrt (<) (delete_pos p i)" using sorted_delete_pos[OF p(1)] .
  have m: "lpos p y < length p" "p ! lpos p y = y" using lpos_mem[OF p(1) y(1)] by auto
  then have ne: "lpos p y \<noteq> i" using y(2) by auto
  let ?j = "if lpos p y < i then lpos p y else lpos p y - 1"
  have "?j < length (delete_pos p i)" "delete_pos p i ! ?j = y"
    using m ne p(2) by (auto simp: nth_delete_pos)
  then show ?thesis using lpos_nth[OF q] by metis
qed

lemma parallel_delete:
  assumes "sorted_wrt (<) p" "i < length p" "length ds = length p" "y \<in> set p" "y \<noteq> p ! i"
  shows "delete_pos ds i ! lpos (delete_pos p i) y = ds ! lpos p y"
proof -
  have "lpos p y \<noteq> i" using lpos_mem[OF assms(1,4)] assms(5) by auto
  then show ?thesis unfolding lpos_delete_pos[OF assms(1,2,4,5)]
    using assms(2,3) by (auto simp: nth_delete_pos)
qed

lemma set_delete_distinct:
  assumes "sorted_wrt (<) (p :: int list)" "i < length p"
  shows "set (delete_pos p i) = set p - {p ! i}"
proof -
  have "set p = set (take i p @ p ! i # drop (Suc i) p)" using id_take_nth_drop[OF assms(2)] by simp
  moreover have "distinct (take i p @ p ! i # drop (Suc i) p)"
    unfolding id_take_nth_drop[OF assms(2), symmetric] using assms(1) by (simp add: strict_sorted_iff)
  ultimately show ?thesis by (auto simp: delete_pos_def)
qed

end
