(* ===== verification/HubLabelData.thy ===== *)
theory HubLabelData
  imports Complex_Main Prelude
begin

text \<open>
  The label store the hub label router reads: \<open>hublabeldata/HubLNodes.java\<close> and
  \<open>hublabeldata/HubLEdges.java\<close>, two classes of static arrays, and
  \<open>hublabeldata/HubLStore.java\<close>, the object they are written to and read from a file as.
  The static fields of a class are a record. A field whose \<open>null\<close> is tested in the code
  (\<open>longitudes\<close>) is an option. A Java \<open>double\<close> is a \<open>real\<close>; rounding is not modelled.
\<close>

section \<open>HubLNodes\<close>

record HubLNodes =
  hn_hlLevel :: int
  hn_levels :: "int list"
  hn_longitudes :: "real list option"
  hn_latitudes :: "real list option"
  hn_edgesOffset :: "int list"
  hn_edges :: "int list"
  hn_labelOffset :: "int list"
  hn_labelNode :: "int list"
  hn_labelEdge :: "int list"
  hn_labelDist :: "int list"

definition HubLNodes_getNumOfNodes :: "HubLNodes \<Rightarrow> int option" where
  "HubLNodes_getNumOfNodes ns = map_option (\<lambda>l. int (length l)) (hn_longitudes ns)"

definition HubLNodes_getLat :: "HubLNodes \<Rightarrow> int \<Rightarrow> real option" where
  "HubLNodes_getLat ns nodeID = do { l \<leftarrow> hn_latitudes ns; aget l nodeID }"

definition HubLNodes_getLong :: "HubLNodes \<Rightarrow> int \<Rightarrow> real option" where
  "HubLNodes_getLong ns nodeID = do { l \<leftarrow> hn_longitudes ns; aget l nodeID }"

definition HubLNodes_getLabelNode :: "HubLNodes \<Rightarrow> int \<Rightarrow> int option" where
  "HubLNodes_getLabelNode ns idx = aget (hn_labelNode ns) idx"

definition HubLNodes_getLabelEdge :: "HubLNodes \<Rightarrow> int \<Rightarrow> int option" where
  "HubLNodes_getLabelEdge ns idx = aget (hn_labelEdge ns) idx"

definition HubLNodes_getLabelDist :: "HubLNodes \<Rightarrow> int \<Rightarrow> int option" where
  "HubLNodes_getLabelDist ns idx = aget (hn_labelDist ns) idx"

definition HubLNodes_nodeHasLabels :: "HubLNodes \<Rightarrow> int \<Rightarrow> bool option" where
  "HubLNodes_nodeHasLabels ns nodeId = do { l \<leftarrow> aget (hn_levels ns) nodeId; Some (l \<ge> hn_hlLevel ns) }"

definition HubLNodes_getLabelOffset :: "HubLNodes \<Rightarrow> int \<Rightarrow> int option" where
  "HubLNodes_getLabelOffset ns nodeId = aget (hn_labelOffset ns) nodeId"

definition HubLNodes_getEdgeOffset :: "HubLNodes \<Rightarrow> int \<Rightarrow> int option" where
  "HubLNodes_getEdgeOffset ns nodeId = aget (hn_edgesOffset ns) nodeId"

definition HubLNodes_getEdge :: "HubLNodes \<Rightarrow> int \<Rightarrow> int option" where
  "HubLNodes_getEdge ns idx = aget (hn_edges ns) idx"

definition HubLNodes_initHlLvl :: "HubLNodes \<Rightarrow> int \<Rightarrow> HubLNodes" where
  "HubLNodes_initHlLvl ns lvl = ns\<lparr>hn_hlLevel := lvl\<rparr>"

section \<open>HubLEdges\<close>

record HubLEdges =
  he_dest :: "int list"
  he_dist :: "int list"
  he_firstShortcutIdx :: int
  he_shortcutParts :: "int list"

definition HubLEdges_getDest :: "HubLEdges \<Rightarrow> int \<Rightarrow> int option" where
  "HubLEdges_getDest es edgeId = aget (he_dest es) edgeId"

definition HubLEdges_getDist :: "HubLEdges \<Rightarrow> int \<Rightarrow> int option" where
  "HubLEdges_getDist es edgeId = aget (he_dist es) edgeId"

definition HubLEdges_isShortcut :: "HubLEdges \<Rightarrow> int \<Rightarrow> bool" where
  "HubLEdges_isShortcut es edgeId \<longleftrightarrow> edgeId \<ge> he_firstShortcutIdx es"

definition HubLEdges_getSecondShortcut :: "HubLEdges \<Rightarrow> int \<Rightarrow> int option" where
  "HubLEdges_getSecondShortcut es edgeId =
     aget (he_shortcutParts es) ((edgeId - he_firstShortcutIdx es) * 2)"

definition HubLEdges_getFirstShortcut :: "HubLEdges \<Rightarrow> int \<Rightarrow> int option" where
  "HubLEdges_getFirstShortcut es edgeId =
     aget (he_shortcutParts es) ((edgeId - he_firstShortcutIdx es) * 2 + 1)"

section \<open>HubLStore\<close>

text \<open>
  The object the two classes are serialized as. \<open>HubLStore_storeData\<close> is the object
  written to the file and \<open>HubLStore_readData\<close> takes the file's contents, \<open>None\<close> when the
  file does not exist; the byte format is the JVM's object serialization.
\<close>

record HubLStore =
  hs_hlLevel :: int
  hs_longitudes :: "real list option"
  hs_latitudes :: "real list option"
  hs_levels :: "int list"
  hs_edgesOffset :: "int list"
  hs_edges :: "int list"
  hs_labelOffset :: "int list"
  hs_labelNode :: "int list"
  hs_labelEdge :: "int list"
  hs_labelDist :: "int list"
  hs_dest :: "int list"
  hs_dist :: "int list"
  hs_firstShortcutIdx :: int
  hs_shortcutParts :: "int list"

definition HubLStore_new :: "HubLNodes \<Rightarrow> HubLEdges \<Rightarrow> HubLStore" where
  "HubLStore_new ns es =
     \<lparr>hs_hlLevel = hn_hlLevel ns, hs_longitudes = hn_longitudes ns, hs_latitudes = hn_latitudes ns,
      hs_levels = hn_levels ns, hs_edgesOffset = hn_edgesOffset ns, hs_edges = hn_edges ns,
      hs_labelOffset = hn_labelOffset ns, hs_labelNode = hn_labelNode ns,
      hs_labelEdge = hn_labelEdge ns, hs_labelDist = hn_labelDist ns,
      hs_dest = he_dest es, hs_dist = he_dist es, hs_firstShortcutIdx = he_firstShortcutIdx es,
      hs_shortcutParts = he_shortcutParts es\<rparr>"

definition HubLStore_setData :: "HubLStore \<Rightarrow> HubLNodes \<times> HubLEdges \<Rightarrow> HubLNodes \<times> HubLEdges" where
  "HubLStore_setData d w = (case w of (ns, es) \<Rightarrow>
     (ns\<lparr>hn_hlLevel := hs_hlLevel d, hn_longitudes := hs_longitudes d, hn_latitudes := hs_latitudes d,
         hn_levels := hs_levels d, hn_edgesOffset := hs_edgesOffset d, hn_edges := hs_edges d,
         hn_labelOffset := hs_labelOffset d, hn_labelNode := hs_labelNode d,
         hn_labelEdge := hs_labelEdge d, hn_labelDist := hs_labelDist d\<rparr>,
      es\<lparr>he_dest := hs_dest d, he_dist := hs_dist d, he_firstShortcutIdx := hs_firstShortcutIdx d,
         he_shortcutParts := hs_shortcutParts d\<rparr>))"

definition HubLStore_storeData :: "HubLNodes \<times> HubLEdges \<Rightarrow> HubLStore option" where
  "HubLStore_storeData w = (case w of (ns, es) \<Rightarrow> Some (HubLStore_new ns es))"

definition HubLStore_readData :: "HubLStore option \<Rightarrow> HubLNodes \<times> HubLEdges \<Rightarrow> bool \<times> HubLNodes \<times> HubLEdges" where
  "HubLStore_readData file w = (case file of None \<Rightarrow> (False, w) | Some d \<Rightarrow> (True, HubLStore_setData d w))"

text \<open>
  Storing the data of one run and reading it in another restores both classes completely.
\<close>

lemma store_read:
  "HubLStore_readData (HubLStore_storeData (ns, es)) w = (True, ns, es)"
  by (cases w) (simp add: HubLStore_readData_def HubLStore_storeData_def HubLStore_setData_def HubLStore_new_def)

section \<open>Properties\<close>


end
