(* ===== verification/Graphs.thy ===== *)
theory Graphs
  imports Prelude
begin

text \<open>
  Weighted graphs given by their adjacency lists, as the routing algorithms of the program
  see them: \<open>adj u\<close> lists the pairs (destination, distance) of the edges leaving \<open>u\<close>.

  \<open>walk\<close> is the specification the routers are measured against. The locale
  \<open>best_first\<close> holds the argument of Dijkstra's algorithm: an invariant on the distance
  map, the predecessor map, the settled nodes (latest first) and the frontier, its
  preservation by settling a nearest frontier node and by relaxing an edge, and what it
  gives at the end. The array program of \<open>DijkstraRouter.java\<close> is related to it in the
  theory of the router.
\<close>

type_synonym adjacency = "int \<Rightarrow> (int \<times> int) list"

inductive walk :: "adjacency \<Rightarrow> int \<Rightarrow> int list \<Rightarrow> int \<Rightarrow> bool" for adj s where
  walk_start: "walk adj s [s] 0"
| walk_step: "walk adj s p c \<Longrightarrow> (v, w) \<in> set (adj (last p)) \<Longrightarrow> walk adj s (p @ [v]) (c + w)"

inductive_cases walk_snocE: "walk adj s (p @ [v]) c"

lemma walk_nonempty: "walk adj s p c \<Longrightarrow> p \<noteq> [] \<and> hd p = s"
  by (induction rule: walk.induct) auto

lemma walk_single [simp]: "walk adj s [x] c \<longleftrightarrow> x = s \<and> c = 0"
proof
  assume "walk adj s [x] c"
  then show "x = s \<and> c = 0"
    by (cases rule: walk.cases) (auto dest: walk_nonempty)
qed (auto intro: walk_start)

lemma walk_snoc:
  "p \<noteq> [] \<Longrightarrow> walk adj s (p @ [v]) c \<longleftrightarrow> (\<exists>w. (v, w) \<in> set (adj (last p)) \<and> walk adj s p (c - w))"
  using walk_step[of adj s p _ v] by (auto elim!: walk_snocE) (metis diff_add_cancel)

lemma walk_append:
  assumes p: "walk adj s p c" and q: "walk adj (last p) q d"
  shows "walk adj s (p @ tl q) (c + d)"
  using q
proof (induction rule: walk.induct)
  case walk_start
  then show ?case using p by simp
next
  case (walk_step q d v w)
  have ne: "q \<noteq> []" "hd q = last p" using walk_nonempty[OF walk_step(1)] by auto
  then have "last (p @ tl q) = last q" by (cases q) auto
  then have "walk adj s ((p @ tl q) @ [v]) (c + d + w)"
    using walk.walk_step[OF walk_step(3), of v w] walk_step(2) by simp
  then show ?case using ne by (simp add: add.assoc)
qed

lemma walk_edge: "(v, w) \<in> set (adj u) \<Longrightarrow> walk adj u [u, v] w"
  using walk.walk_step[OF walk.walk_start, of v w adj u] by simp

lemma walk_rev:
  assumes "walk adj s p c" and sym: "\<And>u v w. (v, w) \<in> set (adj u) \<Longrightarrow> (u, w) \<in> set (adj v)"
  shows "walk adj (last p) (rev p) c"
  using assms(1)
proof (induction rule: walk.induct)
  case walk_start
  then show ?case by (simp add: walk.walk_start)
next
  case (walk_step p c v w)
  have "walk adj v [v, last p] w" using walk_edge sym[OF walk_step(2)] by blast
  from walk_append[OF this, of "rev p" c] walk_step(3) walk_nonempty[OF walk_step(1)]
  have "walk adj v ([v, last p] @ tl (rev p)) (c + w)" by (simp add: add.commute)
  moreover have "rev p = last p # tl (rev p)"
    using walk_nonempty[OF walk_step(1)] by (metis hd_rev list.collapse rev_is_Nil_conv)
  ultimately show ?case by simp
qed

definition reachable :: "adjacency \<Rightarrow> int \<Rightarrow> int \<Rightarrow> bool" where
  "reachable adj s v \<longleftrightarrow> (\<exists>p c. walk adj s p c \<and> last p = v)"

definition shortest_walk :: "adjacency \<Rightarrow> int \<Rightarrow> int \<Rightarrow> int list \<Rightarrow> int \<Rightarrow> bool" where
  "shortest_walk adj s t p c \<longleftrightarrow> walk adj s p c \<and> last p = t \<and>
     (\<forall>p' c'. walk adj s p' c' \<and> last p' = t \<longrightarrow> c \<le> c')"

text \<open>
  Distances stay below \<open>Integer.MAX_VALUE\<close>, the mark of an unknown distance: each node that
  can be reached has a walk that can be extended by any of its edges without getting there.
\<close>

definition distances_fit :: "adjacency \<Rightarrow> int \<Rightarrow> bool" where
  "distances_fit adj s \<longleftrightarrow> (\<forall>u. reachable adj s u \<longrightarrow>
     (\<exists>p c. walk adj s p c \<and> last p = u \<and> (\<forall>(v, w) \<in> set (adj u). c + w < MAX_VALUE)))"

text \<open>
  A sufficient condition one can compute: a node that can be reached is reached by a walk
  without repetition, so a bound on the edges bounds the distances.
\<close>

lemma walk_prefix: "walk adj s (p @ q) c \<Longrightarrow> p \<noteq> [] \<Longrightarrow> \<exists>c'. walk adj s p c'"
proof (induction q arbitrary: c rule: rev_induct)
  case (snoc x q)
  then have "\<exists>w. walk adj s (p @ q) (c - w)"
    using walk_snoc[of "p @ q" adj s x c] by auto
  then show ?case using snoc by blast
qed auto

lemma distinct_walk: "walk adj s p c \<Longrightarrow> \<exists>p' c'. walk adj s p' c' \<and> last p' = last p \<and> distinct p'"
proof (induction rule: walk.induct)
  case walk_start
  then show ?case by (intro exI[of _ "[s]"]) auto
next
  case (walk_step p c v w)
  then obtain p' c' where p: "walk adj s p' c'" "last p' = last p" "distinct p'" by blast
  show ?case
  proof (cases "v \<in> set p'")
    case True
    then obtain xs ys where "p' = (xs @ [v]) @ ys" using split_list by force
    with p walk_prefix[of adj s "xs @ [v]" ys c'] show ?thesis
      by (intro exI[of _ "xs @ [v]"]) auto
  next
    case False
    with p walk_step.hyps walk.walk_step[of adj s p' c' v w] show ?thesis
      by (intro exI[of _ "p' @ [v]"] exI[of _ "c' + w"]) auto
  qed
qed

lemma walk_inside:
  assumes "walk adj s p c" "s \<in> V" "\<And>u v w. u \<in> V \<Longrightarrow> (v, w) \<in> set (adj u) \<Longrightarrow> v \<in> V \<and> w \<le> W"
  shows "set p \<subseteq> V \<and> c \<le> (int (length p) - 1) * W"
  using assms(1)
proof induction
  case (walk_step p c v w)
  have "last p \<in> V" using walk_step walk_nonempty[OF walk_step.hyps(1)] by auto
  then have "v \<in> V" "w \<le> W" using assms(3) walk_step.hyps(2) by blast+
  then show ?case using walk_step.IH by (simp add: algebra_simps)
qed (use assms(2) in simp)

lemma distances_fit_bound:
  assumes "finite V" "s \<in> V" "\<And>u v w. u \<in> V \<Longrightarrow> (v, w) \<in> set (adj u) \<Longrightarrow> v \<in> V \<and> w \<le> W"
    and "0 \<le> W" "int (card V) * W < MAX_VALUE"
  shows "distances_fit adj s"
  unfolding distances_fit_def
proof (intro allI impI)
  fix u assume "reachable adj s u"
  then obtain p c where p: "walk adj s p c" "last p = u" "distinct p"
    unfolding reachable_def using distinct_walk by metis
  have in_V: "set p \<subseteq> V" and c: "c \<le> (int (length p) - 1) * W" using walk_inside[OF p(1) assms(2,3)] by auto
  have "length p \<le> card V" using card_mono[OF assms(1) in_V] distinct_card[OF p(3)] by simp
  then have le: "int (length p) * W \<le> int (card V) * W" using assms(4) by (simp add: mult_right_mono)
  have uV: "u \<in> V" using p in_V walk_nonempty[OF p(1)] by auto
  have "c + w < MAX_VALUE" if "(v, w) \<in> set (adj u)" for v w
    using assms(3)[OF uV that] c le assms(5) by (simp add: algebra_simps)
  then show "\<exists>p c. walk adj s p c \<and> last p = u \<and> (\<forall>(v, w) \<in> set (adj u). c + w < MAX_VALUE)"
    using p by blast
qed

text \<open>
  The settled nodes, latest first: each is the start or was reached from an earlier one.
\<close>

fun settle_order :: "(int \<Rightarrow> int) \<Rightarrow> int \<Rightarrow> int list \<Rightarrow> bool" where
  "settle_order P s [] \<longleftrightarrow> True"
| "settle_order P s (x # S) \<longleftrightarrow> (x = s \<or> P x \<in> set S) \<and> settle_order P s S"

lemma settle_order_cong:
  "(\<And>x. x \<in> set S \<Longrightarrow> P x = P' x) \<Longrightarrow> settle_order P s S = settle_order P' s S"
  by (induction S) auto

definition search_inv :: "adjacency \<Rightarrow> int set \<Rightarrow> int \<Rightarrow> (int \<Rightarrow> int) \<Rightarrow> (int \<Rightarrow> int) \<Rightarrow> int list \<Rightarrow>
    int set \<Rightarrow> (int \<times> int) list \<Rightarrow> bool" where
  "search_inv adj V s D P S Q todo \<longleftrightarrow>
     distinct S \<and> set S \<inter> Q = {} \<and> set S \<union> Q \<subseteq> V \<and> s \<in> set S \<union> Q \<and> D s = 0 \<and>
     (\<forall>v \<in> V. 0 \<le> D v \<and> D v \<le> MAX_VALUE \<and> (D v < MAX_VALUE \<longleftrightarrow> v \<in> set S \<union> Q)) \<and>
     (\<forall>v \<in> set S \<union> Q. v = s \<or>
        (P v \<in> set S \<and> (\<exists>w. (v, w) \<in> set (adj (P v)) \<and> D v = D (P v) + w))) \<and>
     settle_order P s S \<and>
     (\<forall>u \<in> set S. \<forall>v \<in> Q. D u \<le> D v) \<and> (\<forall>u \<in> set S. D u \<le> D (hd S)) \<and>
     (\<forall>u \<in> set S. \<forall>(v, w) \<in> set (adj u). D u + w < MAX_VALUE \<and>
        (D v \<le> D u + w \<or> u = hd S \<and> (v, w) \<in> set todo))"

lemma search_invI:
  assumes "distinct S" "set S \<inter> Q = {}" "set S \<union> Q \<subseteq> V" "s \<in> set S \<union> Q" "D s = 0"
    "\<And>v. v \<in> V \<Longrightarrow> 0 \<le> D v \<and> D v \<le> MAX_VALUE \<and> (D v < MAX_VALUE \<longleftrightarrow> v \<in> set S \<union> Q)"
    "\<And>v. v \<in> set S \<union> Q \<Longrightarrow> v \<noteq> s \<Longrightarrow>
        P v \<in> set S \<and> (\<exists>w. (v, w) \<in> set (adj (P v)) \<and> D v = D (P v) + w)"
    "settle_order P s S"
    "\<And>u v. u \<in> set S \<Longrightarrow> v \<in> Q \<Longrightarrow> D u \<le> D v" "\<And>u. u \<in> set S \<Longrightarrow> D u \<le> D (hd S)"
    "\<And>u v w. u \<in> set S \<Longrightarrow> (v, w) \<in> set (adj u) \<Longrightarrow> D u + w < MAX_VALUE"
    "\<And>u v w. u \<in> set S \<Longrightarrow> (v, w) \<in> set (adj u) \<Longrightarrow> D v \<le> D u + w \<or> u = hd S \<and> (v, w) \<in> set todo"
  shows "search_inv adj V s D P S Q todo"
proof -
  have a: "\<forall>v \<in> V. 0 \<le> D v \<and> D v \<le> MAX_VALUE \<and> (D v < MAX_VALUE \<longleftrightarrow> v \<in> set S \<union> Q)"
    by (rule ballI) (rule assms(6))
  have b: "\<forall>v \<in> set S \<union> Q. v = s \<or>
        (P v \<in> set S \<and> (\<exists>w. (v, w) \<in> set (adj (P v)) \<and> D v = D (P v) + w))"
    by (rule ballI) (use assms(7) in metis)
  have c: "\<forall>u \<in> set S. \<forall>v \<in> Q. D u \<le> D v" "\<forall>u \<in> set S. D u \<le> D (hd S)"
    by (intro ballI, rule assms(9), assumption+) (intro ballI, rule assms(10), assumption)
  have d: "\<forall>u \<in> set S. \<forall>(v, w) \<in> set (adj u). D u + w < MAX_VALUE \<and>
        (D v \<le> D u + w \<or> u = hd S \<and> (v, w) \<in> set todo)"
    by (intro ballI, clarify) (intro conjI, rule assms(11), assumption+, rule assms(12), assumption+)
  show ?thesis unfolding search_inv_def
    by (intro conjI) (fact assms(1-5,8) a b c d)+
qed

lemma search_invD:
  assumes "search_inv adj V s D P S Q todo"
  shows "distinct S" "set S \<inter> Q = {}" "set S \<union> Q \<subseteq> V" "s \<in> set S \<union> Q" "D s = 0"
    "\<And>v. v \<in> V \<Longrightarrow> 0 \<le> D v \<and> D v \<le> MAX_VALUE \<and> (D v < MAX_VALUE \<longleftrightarrow> v \<in> set S \<union> Q)"
    "\<And>v. v \<in> set S \<union> Q \<Longrightarrow> v \<noteq> s \<Longrightarrow>
        P v \<in> set S \<and> (\<exists>w. (v, w) \<in> set (adj (P v)) \<and> D v = D (P v) + w)"
    "settle_order P s S"
    "\<And>u v. u \<in> set S \<Longrightarrow> v \<in> Q \<Longrightarrow> D u \<le> D v" "\<And>u. u \<in> set S \<Longrightarrow> D u \<le> D (hd S)"
    "\<And>u v w. u \<in> set S \<Longrightarrow> (v, w) \<in> set (adj u) \<Longrightarrow> D u + w < MAX_VALUE"
    "\<And>u v w. u \<in> set S \<Longrightarrow> (v, w) \<in> set (adj u) \<Longrightarrow> D v \<le> D u + w \<or> u = hd S \<and> (v, w) \<in> set todo"
  using assms unfolding search_inv_def by blast+

locale best_first =
  fixes adj :: adjacency and V :: "int set" and s :: int
  assumes closed: "u \<in> V \<Longrightarrow> (v, w) \<in> set (adj u) \<Longrightarrow> v \<in> V \<and> 0 \<le> w"
    and start: "s \<in> V"
    and fits: "distances_fit adj s"
begin

lemma initial:
  assumes "D s = 0" "\<And>v. v \<in> V \<Longrightarrow> v \<noteq> s \<Longrightarrow> D v = MAX_VALUE"
  shows "search_inv adj V s D P [] {s} []"
proof (rule search_invI)
  fix v assume "v \<in> V"
  then show "0 \<le> D v \<and> D v \<le> MAX_VALUE \<and> (D v < MAX_VALUE \<longleftrightarrow> v \<in> set [] \<union> {s})"
    using assms(1) assms(2)[of v] by (cases "v = s") (auto simp: MAX_VALUE_def)
qed (use assms start in auto)

text \<open>A walk either stays among settled nodes or has passed a frontier node.\<close>

lemma frontier:
  assumes inv: "search_inv adj V s D P S Q []" and w: "walk adj s p c"
  shows "0 \<le> c \<and> last p \<in> V \<and> (last p \<in> set S \<and> D (last p) \<le> c \<or> (\<exists>x \<in> Q. D x \<le> c))"
  using w
proof induction
  case walk_start
  have "s \<in> set S \<and> D s \<le> 0 \<or> (\<exists>x \<in> Q. D x \<le> 0)" using search_invD(4,5)[OF inv] by force
  then show ?case using start by simp
next
  case (walk_step p c v w)
  note I = search_invD[OF inv]
  have vw: "v \<in> V" "0 \<le> w" using closed walk_step by blast+
  from walk_step.IH consider "last p \<in> set S" "D (last p) \<le> c" | x where "x \<in> Q" "D x \<le> c" by blast
  then show ?case
  proof cases
    case 1
    have lt: "D (last p) + w < MAX_VALUE" and le: "D v \<le> D (last p) + w"
      using I(11)[OF 1(1) walk_step.hyps(2)] I(12)[OF 1(1) walk_step.hyps(2)] by auto
    then have "v \<in> set S \<union> Q" using I(6)[OF vw(1)] by auto
    moreover have "D v \<le> c + w" using le 1(2) by simp
    ultimately show ?thesis using vw walk_step.IH by (auto 0 3)
  next
    case 2
    then have "\<exists>x \<in> Q. D x \<le> c + w" using vw(2) by (intro bexI[of _ x]) auto
    then show ?thesis using vw walk_step.IH by simp
  qed
qed

lemma settle:
  assumes inv: "search_inv adj V s D P S Q []" and x: "x \<in> Q" and min: "\<And>y. y \<in> Q \<Longrightarrow> D x \<le> D y"
    and reach: "reachable adj s x"
  shows "search_inv adj V s D P (x # S) (Q - {x}) (adj x)"
    and "\<And>p c. walk adj s p c \<Longrightarrow> last p = x \<Longrightarrow> D x \<le> c"
proof -
  note I = search_invD[OF inv]
  show opt: "D x \<le> c" if "walk adj s p c" "last p = x" for p c
    using frontier[OF inv that(1)] that(2) x min I(2) by (auto intro: order_trans)
  obtain p c where "walk adj s p c" "last p = x" "\<forall>(v, w) \<in> set (adj x). c + w < MAX_VALUE"
    using fits reach unfolding distances_fit_def by blast
  with opt have fit: "D x + w < MAX_VALUE" if "(v, w) \<in> set (adj x)" for v w
    using that by fastforce
  show "search_inv adj V s D P (x # S) (Q - {x}) (adj x)"
  proof (rule search_invI)
    show "settle_order P s (x # S)" using I(7)[of x] I(8) x by auto
    show "P v \<in> set (x # S) \<and> (\<exists>w. (v, w) \<in> set (adj (P v)) \<and> D v = D (P v) + w)"
      if "v \<in> set (x # S) \<union> (Q - {x})" "v \<noteq> s" for v
      using I(7)[of v] that x by auto
    show "D v \<le> D u + w \<or> u = hd (x # S) \<and> (v, w) \<in> set (adj x)"
      if "u \<in> set (x # S)" "(v, w) \<in> set (adj u)" for u v w
      using I(12)[of u v w] that by auto
    show "D u \<le> D v" if "u \<in> set (x # S)" "v \<in> Q - {x}" for u v
      using that I(9) min by auto
    show "D u \<le> D (hd (x # S))" if "u \<in> set (x # S)" for u
      using that I(9) x by auto
  qed (use I x fit in auto)
qed

text \<open>Relaxing one edge of the node settled last: the three cases of the loop body.\<close>

lemma relax_keep:
  assumes inv: "search_inv adj V s D P (u # S) Q ((v, w) # todo)"
    and vw: "(v, w) \<in> set (adj u)" and c: "v \<in> set (u # S) \<or> D v \<le> D u + w"
  shows "search_inv adj V s D P (u # S) Q todo"
proof (rule search_invI)
  note I = search_invD[OF inv]
  have "0 \<le> w" using closed vw I(3) by auto
  then have le: "D v \<le> D u + w" using c I(10)[of v] by auto
  show "D v' \<le> D u' + w' \<or> u' = hd (u # S) \<and> (v', w') \<in> set todo"
    if "u' \<in> set (u # S)" "(v', w') \<in> set (adj u')" for u' v' w'
    using I(12)[OF that] le by auto
qed (use search_invD[OF inv] in blast)+

lemma relax_update:
  assumes inv: "search_inv adj V s D P (u # S) Q ((v, w) # todo)"
    and vw: "(v, w) \<in> set (adj u)" and v: "v \<notin> set (u # S)" and lt: "D u + w < D v"
  shows "search_inv adj V s (D(v := D u + w)) (P(v := u)) (u # S) (insert v Q) todo"
proof (rule search_invI)
  note I = search_invD[OF inv]
  let ?D = "D(v := D u + w)" let ?P = "P(v := u)"
  have uV: "u \<in> V" using I(3) by auto
  have vV: "v \<in> V" and w: "0 \<le> w" using closed[OF uV vw] by auto
  have u0: "0 \<le> D u" using I(6)[OF uV] by simp
  have vs: "v \<noteq> s" using I(5) lt u0 w by auto
  have vu: "v \<noteq> u" using v by auto
  have D: "?D x = D x" if "x \<in> set (u # S)" for x using that v by auto
  show "distinct (u # S)" by (rule I(1))
  show "set (u # S) \<inter> insert v Q = {}" using I(2) v by auto
  show "set (u # S) \<union> insert v Q \<subseteq> V" using I(3) vV by auto
  show "s \<in> set (u # S) \<union> insert v Q" using I(4) by auto
  show "?D s = 0" using I(5) vs by simp
  show "0 \<le> ?D x \<and> ?D x \<le> MAX_VALUE \<and> (?D x < MAX_VALUE \<longleftrightarrow> x \<in> set (u # S) \<union> insert v Q)"
    if "x \<in> V" for x
    using I(6)[OF that] I(11)[of u v w] vw u0 w by (cases "x = v") auto
  show "?P x \<in> set (u # S) \<and> (\<exists>w. (x, w) \<in> set (adj (?P x)) \<and> ?D x = ?D (?P x) + w)"
    if x: "x \<in> set (u # S) \<union> insert v Q" "x \<noteq> s" for x
  proof (cases "x = v")
    case True
    then show ?thesis using vw vu by auto
  next
    case False
    then have "P x \<in> set (u # S) \<and> (\<exists>w. (x, w) \<in> set (adj (P x)) \<and> D x = D (P x) + w)" using I(7)[of x] x by auto
    then show ?thesis using False D[of "P x"] v by auto
  qed
  show "settle_order ?P s (u # S)"
    using I(8) settle_order_cong[of "u # S" P ?P s] v by (metis fun_upd_apply)
  show "?D x \<le> ?D y" if "x \<in> set (u # S)" "y \<in> insert v Q" for x y
  proof (cases "y = v")
    case True
    then show ?thesis using D[OF that(1)] I(10)[OF that(1)] w by simp
  next
    case False
    then show ?thesis using D[OF that(1)] I(9)[OF that(1)] that(2) by simp
  qed
  show "?D x \<le> ?D (hd (u # S))" if "x \<in> set (u # S)" for x
    using that I(10)[OF that] D[OF that] D[of u] by simp
  show "?D x + w' < MAX_VALUE" if "x \<in> set (u # S)" "(v', w') \<in> set (adj x)" for x v' w'
    using I(11)[OF that] D[OF that(1)] by simp
  show "?D v' \<le> ?D x + w' \<or> x = hd (u # S) \<and> (v', w') \<in> set todo"
    if "x \<in> set (u # S)" "(v', w') \<in> set (adj x)" for x v' w'
    using I(12)[OF that] D[OF that(1)] lt by auto
qed

text \<open>The predecessors of a settled node lead back to the start along a walk of its distance.\<close>

lemma settled_walk:
  assumes "settle_order P s S" "x \<in> set S"
    and "\<And>v. v \<in> set S \<Longrightarrow> v \<noteq> s \<Longrightarrow> \<exists>w. (v, w) \<in> set (adj (P v)) \<and> D v = D (P v) + w" and "D s = 0"
  shows "\<exists>p. walk adj s p (D x) \<and> last p = x"
  using assms
proof (induction S arbitrary: x)
  case (Cons y S)
  have IH: "\<exists>p. walk adj s p (D z) \<and> last p = z" if "z \<in> set S" for z
    using Cons.IH[OF _ that] Cons.prems by simp
  show ?case
  proof (cases "x = y \<and> x \<noteq> s")
    case True
    then have "P x \<in> set S" using Cons.prems(1) by simp
    then obtain p where p: "walk adj s p (D (P x))" "last p = P x" using IH by blast
    obtain w where "(x, w) \<in> set (adj (P x))" "D x = D (P x) + w"
      using Cons.prems(3)[OF Cons.prems(2)] True by blast
    with walk_step[OF p(1), of x w] p(2) show ?thesis by (auto intro!: exI[of _ "p @ [x]"])
  next
    case False
    show ?thesis
    proof (cases "x = s")
      case True
      then show ?thesis using Cons.prems(4) by (intro exI[of _ "[s]"]) (auto intro: walk_start)
    next
      case ne: False
      then show ?thesis using False Cons.prems(2) IH by simp
    qed
  qed
qed simp

lemma frontier_reachable:
  assumes inv: "search_inv adj V s D P S Q todo" and x: "x \<in> set S \<union> Q"
  shows "reachable adj s x"
proof (cases "x = s")
  case True
  then show ?thesis using walk_start[of adj s] unfolding reachable_def by fastforce
next
  case False
  note I = search_invD[OF inv]
  obtain w where w: "P x \<in> set S" "(x, w) \<in> set (adj (P x))" using I(7)[OF x False] by blast
  obtain p where "walk adj s p (D (P x))" "last p = P x"
    using settled_walk[of P S "P x" D] I(5,7,8) w(1) by auto
  with w(2) walk_step[of adj s p "D (P x)" x w] show ?thesis
    unfolding reachable_def by (metis last_snoc)
qed

lemma exhausted:
  assumes inv: "search_inv adj V s D P S {} []" and "reachable adj s v"
  shows "v \<in> set S"
  using assms(2) frontier[OF inv] unfolding reachable_def by auto

end

end
