(* ===== verification/GridData.thy ===== *)
theory GridData
  imports HubLabelData Graphs
begin

text \<open>
  The grid graph the Dijkstra router works on: \<open>dijkstragrid/Node.java\<close>,
  \<open>dijkstragrid/Edge.java\<close> and \<open>dijkstragrid/Grid.java\<close>, static arrays with an offset
  array that groups the edges by their start node, and the import and export of the
  \<open>.fmi\<close> format.

  A file is a list of lines, a line a list of tokens; the text of a number is not modelled
  below the level of a token. \<open>HashMap.entrySet\<close> has no specified order: it is the
  parameter \<open>entryOrder\<close> of the import.
\<close>

section \<open>Node and Edge\<close>

record Node =
  nd_latitude :: "real list"
  nd_longitude :: "real list"

definition Node_getLatitude :: "Node \<Rightarrow> int \<Rightarrow> real option" where
  "Node_getLatitude nd i = aget (nd_latitude nd) i"

definition Node_getLongitude :: "Node \<Rightarrow> int \<Rightarrow> real option" where
  "Node_getLongitude nd i = aget (nd_longitude nd) i"

definition Node_getSize :: "Node \<Rightarrow> int" where
  "Node_getSize nd = int (length (nd_latitude nd))"

record Edge =
  ed_startNode :: "int list"
  ed_destNode :: "int list"
  ed_dist :: "int list"

definition Edge_getSize :: "Edge \<Rightarrow> int" where
  "Edge_getSize ed = int (length (ed_startNode ed))"

definition Edge_getStart :: "Edge \<Rightarrow> int \<Rightarrow> int option" where
  "Edge_getStart ed i = aget (ed_startNode ed) i"

definition Edge_getDest :: "Edge \<Rightarrow> int \<Rightarrow> int option" where
  "Edge_getDest ed i = aget (ed_destNode ed) i"

definition Edge_getDist :: "Edge \<Rightarrow> int \<Rightarrow> int option" where
  "Edge_getDist ed i = aget (ed_dist ed) i"

text \<open>The static state of the package; \<open>offset\<close> is null until a grid is imported.\<close>

record Grid =
  gr_node :: Node
  gr_edge :: Edge
  gr_offset :: "int list option"

definition Grid_offsetAt :: "Grid \<Rightarrow> int \<Rightarrow> int option" where
  "Grid_offsetAt g i = do { off \<leftarrow> gr_offset g; aget off i }"

section \<open>The offset array\<close>

definition Grid_countEdges :: "Edge \<Rightarrow> int list \<Rightarrow> int list option" where
  "Grid_countEdges ed offs = for_range 0 (Edge_getSize ed) (\<lambda>i offs. do {
     st \<leftarrow> Edge_getStart ed i;
     c \<leftarrow> aget offs (st + 1);
     aset offs (st + 1) (c + 1)
   }) offs"

definition Grid_prefixSums :: "int list \<Rightarrow> int list option" where
  "Grid_prefixSums offs = for_range 1 (int (length offs)) (\<lambda>i offs. do {
     a \<leftarrow> aget offs i;
     b \<leftarrow> aget offs (i - 1);
     aset offs i (a + b)
   }) offs"

definition Grid_buildOffset :: "Node \<Rightarrow> Edge \<Rightarrow> int list option" where
  "Grid_buildOffset nd ed = do {
     offs \<leftarrow> newArray (Node_getSize nd + 1) 0;
     offs \<leftarrow> Grid_countEdges ed offs;
     Grid_prefixSums offs
   }"

definition count_below :: "int list \<Rightarrow> int \<Rightarrow> int" where
  "count_below xs k = int (length (filter (\<lambda>x. x < k) xs))"

lemma count_below_step:
  "count_below xs k = int (length (filter (\<lambda>x. x + 1 = k) xs)) + count_below xs (k - 1)"
  by (induction xs) (auto simp: count_below_def)

lemma Grid_countEdges_ok:
  assumes "\<forall>x \<in> set (ed_startNode ed). 0 \<le> x \<and> x < int n"
  shows "\<exists>offs. Grid_countEdges ed (replicate (Suc n) 0) = Some offs \<and> length offs = Suc n \<and>
    (\<forall>k \<le> n. offs ! k = int (length (filter (\<lambda>x. x + 1 = int k) (ed_startNode ed))))"
proof -
  let ?S = "ed_startNode ed"
  let ?cnt = "\<lambda>i k. int (length (filter (\<lambda>x. x + 1 = int k) (take (nat i) ?S)))"
  have "\<exists>offs. Grid_countEdges ed (replicate (Suc n) 0) = Some offs \<and>
       length offs = Suc n \<and> (\<forall>k \<le> n. offs ! k = ?cnt (Edge_getSize ed) k)"
    unfolding Grid_countEdges_def
  proof (rule for_range_rule[where I = "\<lambda>i offs. length offs = Suc n \<and> (\<forall>k \<le> n. offs ! k = ?cnt i k)"])
    fix i offs assume i: "0 \<le> i" "i < Edge_getSize ed"
      and I: "length offs = Suc n \<and> (\<forall>k \<le> n. offs ! k = ?cnt i k)"
    let ?x = "?S ! nat i"
    have len: "nat i < length ?S" using i by (simp add: Edge_getSize_def)
    then have x: "0 \<le> ?x" "?x < int n" using assms by auto
    have tk: "take (nat (i + 1)) ?S = take (nat i) ?S @ [?x]"
      using i len by (simp add: nat_add_distrib take_Suc_conv_app_nth)
    have nx: "nat (?x + 1) = Suc (nat ?x)" using x by simp
    have "(offs[nat (?x + 1) := offs ! nat (?x + 1) + 1]) ! k = ?cnt (i + 1) k" if "k \<le> n" for k
      using that I x unfolding tk nx by (auto simp: nth_list_update)
    then show "\<exists>offs'. (do {
         st \<leftarrow> Edge_getStart ed i;
         c \<leftarrow> aget offs (st + 1);
         aset offs (st + 1) (c + 1)
       }) = Some offs' \<and> length offs' = Suc n \<and> (\<forall>k \<le> n. offs' ! k = ?cnt (i + 1) k)"
      using I i x len by (simp add: Edge_getStart_def Edge_getSize_def java)
  qed (auto simp: Edge_getSize_def simp del: replicate_Suc)
  then show ?thesis by (auto simp: Edge_getSize_def)
qed

lemma Grid_prefixSums_ok:
  assumes len: "length offs = Suc n" and zero: "offs ! 0 = f 0"
    and step: "\<And>k. 0 < k \<Longrightarrow> k \<le> n \<Longrightarrow> f k = offs ! k + f (k - 1)"
  shows "Grid_prefixSums offs = Some (map f [0..<Suc n])"
proof -
  have "\<exists>offs'. Grid_prefixSums offs = Some offs' \<and> length offs' = Suc n \<and>
       (\<forall>k \<le> n. offs' ! k = (if int k < int (length offs) then f k else offs ! k))"
    unfolding Grid_prefixSums_def
  proof (rule for_range_rule[where I = "\<lambda>i offs'. length offs' = Suc n \<and>
       (\<forall>k \<le> n. offs' ! k = (if int k < i then f k else offs ! k))"])
    fix i offs' assume i: "1 \<le> i" "i < int (length offs)" and I: "length offs' = Suc n \<and>
       (\<forall>k \<le> n. offs' ! k = (if int k < i then f k else offs ! k))"
    define j where "j = nat i"
    have ij: "i = int j" "1 \<le> j" "j \<le> n" using i len by (auto simp: j_def)
    have v: "offs' ! j + offs' ! nat (i - 1) = f j"
      using I ij step[of j] by (simp add: nat_diff_distrib)
    have "offs'[j := f j] ! k = (if int k < i + 1 then f k else offs ! k)" if "k \<le> n" for k
      using that I ij by (auto simp: nth_list_update)
    moreover have "aget offs' i = Some (offs' ! j)" "aget offs' (i - 1) = Some (offs' ! nat (i - 1))"
      "aset offs' i (f j) = Some (offs'[j := f j])"
      using I i len ij(1) by (simp_all add: java)
    ultimately show "\<exists>offs''. (do {
         a \<leftarrow> aget offs' i;
         b \<leftarrow> aget offs' (i - 1);
         aset offs' i (a + b)
       }) = Some offs'' \<and> length offs'' = Suc n \<and>
       (\<forall>k \<le> n. offs'' ! k = (if int k < i + 1 then f k else offs ! k))"
      using I v by simp
  qed (use len zero in \<open>auto simp: less_Suc_eq_0_disj\<close>)
  then obtain offs' where "Grid_prefixSums offs = Some offs'" "length offs' = Suc n" "\<forall>k \<le> n. offs' ! k = f k"
    using len by auto
  moreover from this have "offs' = map f [0..<Suc n]"
    by (intro nth_equalityI) (simp_all del: upt_Suc)
  ultimately show ?thesis by simp
qed

lemma Grid_buildOffset_counts:
  assumes "\<forall>x \<in> set (ed_startNode ed). 0 \<le> x \<and> x < Node_getSize nd"
  shows "Grid_buildOffset nd ed =
    Some (map (\<lambda>k. count_below (ed_startNode ed) (int k)) [0..<Suc (length (nd_latitude nd))])"
proof -
  let ?n = "length (nd_latitude nd)" let ?S = "ed_startNode ed"
  obtain offs where offs: "Grid_countEdges ed (replicate (Suc ?n) 0) = Some offs" "length offs = Suc ?n"
    "\<forall>k \<le> ?n. offs ! k = int (length (filter (\<lambda>x. x + 1 = int k) ?S))"
    using Grid_countEdges_ok[of ed ?n] assms by (auto simp: Node_getSize_def)
  have "Grid_prefixSums offs = Some (map (\<lambda>k. count_below ?S (int k)) [0..<Suc ?n])"
  proof (rule Grid_prefixSums_ok[OF offs(2)])
    have "filter (\<lambda>x. x + 1 = 0) ?S = []" "filter (\<lambda>x. x < 0) ?S = []"
      using assms by (force simp: filter_empty_conv)+
    then show "offs ! 0 = count_below ?S (int 0)"
      using offs(3) by (simp add: count_below_def)
    show "count_below ?S (int k) = offs ! k + count_below ?S (int (k - 1))" if "0 < k" "k \<le> ?n" for k
      using that offs(3) count_below_step[of ?S "int k"] by (simp add: of_nat_diff)
  qed
  moreover have "newArray (Node_getSize nd + 1) (0::int) = Some (replicate (Suc ?n) 0)"
    by (simp add: newArray_def Node_getSize_def nat_add_distrib)
  ultimately show ?thesis using offs(1) unfolding Grid_buildOffset_def by simp
qed

text \<open>In a sorted array, the positions of a value are those between its two counts.\<close>

lemma sorted_count_below:
  assumes "sorted xs" "i < length xs"
  shows "count_below xs k \<le> int i \<longleftrightarrow> k \<le> xs ! i"
  using assms
proof (induction xs arbitrary: i)
  case (Cons x xs)
  show ?case
  proof (cases "x < k")
    case True
    then show ?thesis using Cons by (cases i) (auto simp: count_below_def)
  next
    case False
    then have "filter (\<lambda>y. y < k) (x # xs) = []" using Cons.prems(1) by (auto simp: filter_empty_conv)
    moreover have "x \<le> (x # xs) ! i" using Cons.prems by (cases i) auto
    then have "k \<le> (x # xs) ! i" using False by simp
    ultimately show ?thesis by (simp add: count_below_def)
  qed
qed simp

lemma sorted_count_range:
  assumes "sorted xs" "i < length xs"
  shows "count_below xs k \<le> int i \<and> int i < count_below xs (k + 1) \<longleftrightarrow> xs ! i = k"
  using sorted_count_below[OF assms, of k] sorted_count_below[OF assms, of "k + 1"] by auto

section \<open>The graph of a grid\<close>

text \<open>
  \<open>Grid_adj\<close> reads the edges leaving a node as the router's loop does, from the offset of
  the node to the offset of the next one.
\<close>

definition Grid_range :: "Grid \<Rightarrow> int \<Rightarrow> int list" where
  "Grid_range g u = (case gr_offset g of None \<Rightarrow> [] | Some off \<Rightarrow> [off ! nat u..off ! nat (u + 1) - 1])"

definition Grid_adj :: "Grid \<Rightarrow> adjacency" where
  "Grid_adj g u = map (\<lambda>e. (ed_destNode (gr_edge g) ! nat e, ed_dist (gr_edge g) ! nat e)) (Grid_range g u)"

definition Grid_nodes :: "Grid \<Rightarrow> int set" where
  "Grid_nodes g = {0..<Node_getSize (gr_node g)}"

text \<open>A grid the router can work on.\<close>

definition Grid_wf :: "Grid \<Rightarrow> bool" where
  "Grid_wf g \<longleftrightarrow>
     length (nd_longitude (gr_node g)) = length (nd_latitude (gr_node g)) \<and>
     length (ed_destNode (gr_edge g)) = length (ed_startNode (gr_edge g)) \<and>
     length (ed_dist (gr_edge g)) = length (ed_startNode (gr_edge g)) \<and>
     (\<forall>v \<in> set (ed_destNode (gr_edge g)). 0 \<le> v \<and> v < Node_getSize (gr_node g)) \<and>
     (\<forall>d \<in> set (ed_dist (gr_edge g)). 0 \<le> d) \<and>
     (case gr_offset g of None \<Rightarrow> False
      | Some off \<Rightarrow> length off = Suc (length (nd_latitude (gr_node g))) \<and>
          (\<forall>k \<in> set off. 0 \<le> k \<and> k \<le> Edge_getSize (gr_edge g)))"

lemma Grid_wf_edges:
  assumes "Grid_wf g" "u \<in> Grid_nodes g"
  obtains lo hi where "Grid_offsetAt g u = Some lo" "Grid_offsetAt g (u + 1) = Some hi"
    "Grid_range g u = [lo..hi - 1]" "0 \<le> lo" "hi \<le> Edge_getSize (gr_edge g)"
proof -
  obtain off where off: "gr_offset g = Some off" "length off = Suc (length (nd_latitude (gr_node g)))"
    "\<forall>k \<in> set off. 0 \<le> k \<and> k \<le> Edge_getSize (gr_edge g)"
    using assms(1) by (auto simp: Grid_wf_def split: option.splits)
  have u: "0 \<le> u" "nat u < length off" "nat (u + 1) < length off"
    using assms(2) off(2) by (auto simp: Grid_nodes_def Node_getSize_def)
  show thesis
  proof
    show "Grid_offsetAt g u = Some (off ! nat u)" "Grid_offsetAt g (u + 1) = Some (off ! nat (u + 1))"
      using u off(1) by (simp_all add: Grid_offsetAt_def aget_def)
    show "Grid_range g u = [off ! nat u..off ! nat (u + 1) - 1]" using off(1) by (simp add: Grid_range_def)
    show "0 \<le> off ! nat u" "off ! nat (u + 1) \<le> Edge_getSize (gr_edge g)" using off(3) u by auto
  qed
qed

lemma Grid_wf_edge:
  assumes "Grid_wf g" "u \<in> Grid_nodes g" "e \<in> set (Grid_range g u)"
  shows "\<exists>v w. Edge_getDest (gr_edge g) e = Some v \<and> Edge_getDist (gr_edge g) e = Some w \<and>
    v \<in> Grid_nodes g \<and> 0 \<le> w \<and> v = ed_destNode (gr_edge g) ! nat e \<and> w = ed_dist (gr_edge g) ! nat e"
proof -
  obtain lo hi where r: "Grid_range g u = [lo..hi - 1]" "0 \<le> lo" "hi \<le> Edge_getSize (gr_edge g)"
    using Grid_wf_edges[OF assms(1,2)] by metis
  then have e: "0 \<le> e" "e < int (length (ed_destNode (gr_edge g)))" "e < int (length (ed_dist (gr_edge g)))"
    using assms(1,3) by (auto simp: Grid_wf_def Edge_getSize_def)
  then have "nat e < length (ed_destNode (gr_edge g))" "nat e < length (ed_dist (gr_edge g))" by auto
  then show ?thesis using e assms(1)
    by (auto simp: Edge_getDest_def Edge_getDist_def java Grid_wf_def Grid_nodes_def)
qed

lemma Grid_adj_closed:
  assumes "Grid_wf g" "u \<in> Grid_nodes g" "(v, w) \<in> set (Grid_adj g u)"
  shows "v \<in> Grid_nodes g \<and> 0 \<le> w"
  using Grid_wf_edge[OF assms(1,2)] assms(3) by (auto simp: Grid_adj_def)

section \<open>Properties\<close>

text \<open>
  C29. The offset array built after an import indexes the edges by start node: for edges that
  are sorted by their start node, the positions between the offset of a node and the offset
  of the next one are exactly the positions of the edges that start at the node.
\<close>

theorem offset_indexes_edges:
  assumes "\<forall>x \<in> set (ed_startNode ed). 0 \<le> x \<and> x < Node_getSize nd" and "sorted (ed_startNode ed)"
  shows "\<exists>offs. Grid_buildOffset nd ed = Some offs \<and> length offs = Suc (length (nd_latitude nd)) \<and>
    (\<forall>u i. u < length (nd_latitude nd) \<and> i < length (ed_startNode ed) \<longrightarrow>
       (offs ! u \<le> int i \<and> int i < offs ! Suc u \<longleftrightarrow> ed_startNode ed ! i = int u))"
  unfolding Grid_buildOffset_counts[OF assms(1)]
proof (intro exI conjI allI impI)
  let ?offs = "map (\<lambda>k. count_below (ed_startNode ed) (int k)) [0..<Suc (length (nd_latitude nd))]"
  show "length ?offs = Suc (length (nd_latitude nd))" by simp
  fix u i assume ui: "u < length (nd_latitude nd) \<and> i < length (ed_startNode ed)"
  then have "?offs ! u = count_below (ed_startNode ed) (int u)"
    "?offs ! Suc u = count_below (ed_startNode ed) (int u + 1)"
    by (simp_all del: upt_Suc add: add.commute)
  then show "?offs ! u \<le> int i \<and> int i < ?offs ! Suc u \<longleftrightarrow> ed_startNode ed ! i = int u"
    using sorted_count_range[OF assms(2)] ui by simp
qed rule

theorem offset_indexes_edges_witness:
  "\<exists>offs. Grid_buildOffset \<lparr>nd_latitude = [1, 2, 3], nd_longitude = [1, 2, 3]\<rparr>
     \<lparr>ed_startNode = [0, 0, 2], ed_destNode = [1, 2, 0], ed_dist = [5, 6, 6]\<rparr> = Some offs \<and>
     length offs = 4 \<and> offs ! 0 \<le> 1 \<and> 1 < offs ! 1"
proof -
  let ?nd = "\<lparr>nd_latitude = [1, 2, 3], nd_longitude = [1, 2, 3]\<rparr>"
  let ?ed = "\<lparr>ed_startNode = [0, 0, 2], ed_destNode = [1, 2, 0], ed_dist = [5, 6, 6]\<rparr>"
  have a: "\<forall>x \<in> set (ed_startNode ?ed). 0 \<le> x \<and> x < Node_getSize ?nd" "sorted (ed_startNode ?ed)"
    by (simp_all add: Node_getSize_def)
  obtain offs where o: "Grid_buildOffset ?nd ?ed = Some offs" "length offs = Suc (length (nd_latitude ?nd))"
    "\<forall>u i. u < length (nd_latitude ?nd) \<and> i < length (ed_startNode ?ed) \<longrightarrow>
       (offs ! u \<le> int i \<and> int i < offs ! Suc u \<longleftrightarrow> ed_startNode ?ed ! i = int u)"
    using offset_indexes_edges[OF a] by blast
  from o(3)[rule_format, of 0 1] have "offs ! 0 \<le> 1 \<and> 1 < offs ! 1" by simp
  with o(1,2) show ?thesis by simp
qed

end
