(* ===== verification/GridImport.thy ===== *)
theory GridImport
  imports GridData "HOL-Library.Multiset"
begin

text \<open>
  Import and export of a grid in the \<open>.fmi\<close> format: \<open>Grid.importFmiFile\<close> and
  \<open>Grid.exportToFmiFile\<close> of \<open>dijkstragrid/Grid.java\<close>.

  A file is a list of lines, a line a list of tokens; the text of a number is not modelled below
  the level of a token. A line that does not exist or a token that is missing or not a number
  makes the source throw, the value \<open>None\<close>. \<open>HashMap.entrySet\<close> has no specified order: it is
  the parameter \<open>entryOrder\<close> of the import, about which the properties assume only that it lists
  every entry once.
\<close>

section \<open>Files\<close>

datatype fmi_token = IntTok int | DoubleTok real | TextTok string

type_synonym fmi_line = "fmi_token list"

fun parseInt :: "fmi_token \<Rightarrow> int option" where
  "parseInt (IntTok i) = Some i"
| "parseInt _ = None"

fun parseDouble :: "fmi_token \<Rightarrow> real option" where
  "parseDouble (IntTok i) = Some (real_of_int i)"
| "parseDouble (DoubleTok d) = Some d"
| "parseDouble (TextTok s) = None"

definition readLine :: "fmi_line list \<Rightarrow> (fmi_line \<times> fmi_line list) option" where
  "readLine br = (case br of [] \<Rightarrow> None | l # br \<Rightarrow> Some (l, br))"

definition readCount :: "fmi_line list \<Rightarrow> (int \<times> fmi_line list) option" where
  "readCount br = do {
     (line, br) \<leftarrow> readLine br;
     n \<leftarrow> (case line of [t] \<Rightarrow> parseInt t | _ \<Rightarrow> None);
     Some (n, br)
   }"

section \<open>The import\<close>

record TmpEdge =
  te_startNode :: int
  te_destNode :: int
  te_dist :: int

record TmpNode =
  tn_id :: int
  tn_latitude :: real
  tn_longitude :: real

type_synonym id_map = "int \<Rightarrow> int option"

definition fmi_readNode :: "int \<Rightarrow> fmi_line list \<times> TmpNode list \<times> id_map \<Rightarrow> (fmi_line list \<times> TmpNode list \<times> id_map) option" where
  "fmi_readNode nodeIdx st = (case st of (br, nodeList, ids) \<Rightarrow> do {
     (line, br) \<leftarrow> readLine br;
     t0 \<leftarrow> aget line 0; nodeId \<leftarrow> parseInt t0;
     t1 \<leftarrow> aget line 1; lat \<leftarrow> parseDouble t1;
     t2 \<leftarrow> aget line 2; lon \<leftarrow> parseDouble t2;
     Some (br, nodeList @ [\<lparr>tn_id = nodeId, tn_latitude = lat, tn_longitude = lon\<rparr>], ids(nodeId \<mapsto> nodeIdx))
   })"

definition fmi_readEdge :: "id_map \<Rightarrow> int \<Rightarrow> fmi_line list \<times> TmpEdge list \<Rightarrow> (fmi_line list \<times> TmpEdge list) option" where
  "fmi_readEdge ids edgeIdx st = (case st of (br, edgeList) \<Rightarrow> do {
     (line, br) \<leftarrow> readLine br;
     t0 \<leftarrow> aget line 0; a \<leftarrow> parseInt t0; s \<leftarrow> ids a;
     t1 \<leftarrow> aget line 1; b \<leftarrow> parseInt t1; d \<leftarrow> ids b;
     t2 \<leftarrow> aget line 2; w \<leftarrow> parseInt t2;
     Some (br, edgeList @ [\<lparr>te_startNode = s, te_destNode = d, te_dist = w\<rparr>])
   })"

text \<open>The adjacency map, an association list in the order in which the keys were put.\<close>

type_synonym adjacence_map = "(int \<times> TmpEdge list) list"

fun adj_add :: "adjacence_map \<Rightarrow> TmpEdge \<Rightarrow> adjacence_map" where
  "adj_add [] e = [(te_startNode e, [e])]"
| "adj_add ((k, es) # m) e = (if k = te_startNode e then (k, es @ [e]) # m else (k, es) # adj_add m e)"

definition fmi_adjacenceMap :: "TmpEdge list \<Rightarrow> adjacence_map" where
  "fmi_adjacenceMap edgeList = foldl adj_add [] edgeList"

text \<open>
  The loop over one entry of the map; \<open>oppositeEdgeFound\<close> is set before it and not reset between
  the edges of the entry.
\<close>

definition fmi_checkEdge :: "adjacence_map \<Rightarrow> TmpEdge \<Rightarrow> bool \<times> TmpEdge list \<Rightarrow> (bool \<times> TmpEdge list) option" where
  "fmi_checkEdge m revEdge st = (case st of (oppositeEdgeFound, missing) \<Rightarrow> do {
     toCheck \<leftarrow> map_of m (te_destNode revEdge);
     let oppositeEdgeFound = (oppositeEdgeFound \<or>
       list_ex (\<lambda>e. te_startNode e = te_destNode revEdge \<and> te_destNode e = te_startNode revEdge) toCheck);
     Some (oppositeEdgeFound,
           if \<not> oppositeEdgeFound
           then missing @ [\<lparr>te_startNode = te_destNode revEdge, te_destNode = te_startNode revEdge, te_dist = te_dist revEdge\<rparr>]
           else missing)
   })"

definition fmi_checkEntry :: "adjacence_map \<Rightarrow> int \<times> TmpEdge list \<Rightarrow> TmpEdge list \<Rightarrow> TmpEdge list option" where
  "fmi_checkEntry m entry missing = do {
     (_, missing) \<leftarrow> for_list (snd entry) (fmi_checkEdge m) (False, missing);
     Some missing
   }"

definition fmi_missingEdges :: "(adjacence_map \<Rightarrow> adjacence_map) \<Rightarrow> adjacence_map \<Rightarrow> TmpEdge list option" where
  "fmi_missingEdges entryOrder m = for_list (entryOrder m) (fmi_checkEntry m) []"

text \<open>An array of length \<open>n\<close> that is filled from the first elements of a list.\<close>

definition fmi_column :: "int \<Rightarrow> ('a \<Rightarrow> 'b) \<Rightarrow> 'a list \<Rightarrow> 'b list option" where
  "fmi_column n f xs = (if n < 0 \<or> int (length xs) < n then None else Some (map f (take (nat n) xs)))"

definition fmi_parse :: "(adjacence_map \<Rightarrow> adjacence_map) \<Rightarrow> fmi_line list \<Rightarrow> (int \<times> TmpNode list \<times> int \<times> TmpEdge list) option" where
  "fmi_parse entryOrder file = do {
     let br = tl (tl file);
     (noNodes, br) \<leftarrow> readCount br;
     (noEdges, br) \<leftarrow> readCount br;
     (br, nodeList, ids) \<leftarrow> for_range 0 noNodes fmi_readNode (br, [], Map.empty);
     let nodeList = sort_key (\<lambda>n. the (ids (tn_id n))) nodeList;
     (br, edgeList) \<leftarrow> for_range 0 noEdges (fmi_readEdge ids) (br, []);
     let edgeList = sort_key te_startNode edgeList;
     missing \<leftarrow> fmi_missingEdges entryOrder (fmi_adjacenceMap edgeList);
     let noEdges = noEdges + int (length missing);
     let edgeList = sort_key te_startNode (edgeList @ missing);
     Some (noNodes, nodeList, noEdges, edgeList)
   }"

definition Grid_importFmiFile :: "(adjacence_map \<Rightarrow> adjacence_map) \<Rightarrow> fmi_line list \<Rightarrow> Grid option" where
  "Grid_importFmiFile entryOrder file = do {
     (noNodes, nodeList, noEdges, edgeList) \<leftarrow> fmi_parse entryOrder file;
     latitude \<leftarrow> fmi_column noNodes tn_latitude nodeList;
     longitude \<leftarrow> fmi_column noNodes tn_longitude nodeList;
     startNode \<leftarrow> fmi_column noEdges te_startNode edgeList;
     destNode \<leftarrow> fmi_column noEdges te_destNode edgeList;
     dist \<leftarrow> fmi_column noEdges te_dist edgeList;
     let nd = \<lparr>nd_latitude = latitude, nd_longitude = longitude\<rparr>;
     let ed = \<lparr>ed_startNode = startNode, ed_destNode = destNode, ed_dist = dist\<rparr>;
     offs \<leftarrow> Grid_buildOffset nd ed;
     Some \<lparr>gr_node = nd, gr_edge = ed, gr_offset = Some offs\<rparr>
   }"

definition Grid_exportToFmiFile :: "Grid \<Rightarrow> fmi_line list option" where
  "Grid_exportToFmiFile g = do {
     let out = [[TextTok ''#''], [], [IntTok (Node_getSize (gr_node g))], [IntTok (Edge_getSize (gr_edge g))]];
     out \<leftarrow> for_range 0 (Node_getSize (gr_node g)) (\<lambda>nodeIdx out. do {
         lat \<leftarrow> Node_getLatitude (gr_node g) nodeIdx;
         lon \<leftarrow> Node_getLongitude (gr_node g) nodeIdx;
         Some (out @ [[IntTok nodeIdx, DoubleTok lat, DoubleTok lon]])
       }) out;
     for_range 0 (Edge_getSize (gr_edge g)) (\<lambda>edgeIdx out. do {
         s \<leftarrow> Edge_getStart (gr_edge g) edgeIdx;
         d \<leftarrow> Edge_getDest (gr_edge g) edgeIdx;
         w \<leftarrow> Edge_getDist (gr_edge g) edgeIdx;
         Some (out @ [[IntTok s, IntTok d, IntTok w]])
       }) out
   }"

section \<open>Reading the lines\<close>

definition node_line :: "TmpNode \<Rightarrow> fmi_line" where
  "node_line n = [IntTok (tn_id n), DoubleTok (tn_latitude n), DoubleTok (tn_longitude n)]"

definition edge_line :: "TmpEdge \<Rightarrow> fmi_line" where
  "edge_line e = [IntTok (te_startNode e), IntTok (te_destNode e), IntTok (te_dist e)]"

text \<open>A file with two header lines, the nodes \<open>N\<close> and the edges \<open>E\<close>.\<close>

definition fmi_file :: "fmi_line \<Rightarrow> fmi_line \<Rightarrow> TmpNode list \<Rightarrow> TmpEdge list \<Rightarrow> fmi_line list" where
  "fmi_file a b N E = a # b # [IntTok (int (length N))] # [IntTok (int (length E))] # map node_line N @ map edge_line E"

definition file_ids :: "nat \<Rightarrow> TmpNode list \<Rightarrow> id_map" where
  "file_ids k N = map_of (zip (map tn_id N) (map int [k..<k + length N]))"

lemma upto_int: "[int a..int b - 1] = map int [a..<b]"
  by (intro nth_equalityI) auto

lemma for_range_nat: "for_range 0 (int n) f s = for_list (map int [0..<n]) f s"
  using upto_int[of 0 n] by (simp add: for_range_def)

lemma map_int_upt_Cons: "map int [k..<k + length (x # xs)] = int k # map int [Suc k..<Suc k + length xs]"
  using upt_conv_Cons[of k "k + length (x # xs)"] by (simp del: upt_Suc)

lemma file_ids_Cons: "file_ids k (n # N) = (file_ids (Suc k) N)(tn_id n \<mapsto> int k)"
  unfolding file_ids_def map_int_upt_Cons by (simp del: upt_Suc)

lemma file_ids_dom: "dom (file_ids k N) = tn_id ` set N"
  by (simp add: file_ids_def dom_map_of_zip)

lemma file_ids_nth:
  "distinct (map tn_id N) \<Longrightarrow> i < length N \<Longrightarrow> file_ids k N (tn_id (N ! i)) = Some (int (k + i))"
  using map_of_zip_nth[of "map tn_id N" "map int [k..<k + length N]" i] by (simp add: file_ids_def)

lemma fmi_readNodes:
  "distinct (map tn_id N) \<Longrightarrow>
   for_list (map int [k..<k + length N]) fmi_readNode (map node_line N @ rest, acc, m) = Some (rest, acc @ N, m ++ file_ids k N)"
proof (induction N arbitrary: k acc m)
  case Nil
  then show ?case by (simp add: file_ids_def)
next
  case (Cons n N)
  have step: "fmi_readNode (int k) (map node_line (n # N) @ rest, acc, m) =
      Some (map node_line N @ rest, acc @ [n], m(tn_id n \<mapsto> int k))"
    by (simp add: fmi_readNode_def node_line_def readLine_def aget_def)
  have ids: "m(tn_id n \<mapsto> int k) ++ file_ids (Suc k) N = m ++ file_ids k (n # N)"
    using Cons.prems file_ids_dom[of "Suc k" N] unfolding file_ids_Cons
    by (auto simp: fun_eq_iff map_add_def split: option.splits)
  have "for_list (map int [k..<k + length (n # N)]) fmi_readNode (map node_line (n # N) @ rest, acc, m) =
      for_list (map int [Suc k..<Suc k + length N]) fmi_readNode (map node_line N @ rest, acc @ [n], m(tn_id n \<mapsto> int k))"
    unfolding map_int_upt_Cons for_list.simps step by simp
  also have "\<dots> = Some (rest, (acc @ [n]) @ N, m(tn_id n \<mapsto> int k) ++ file_ids (Suc k) N)"
    by (rule Cons.IH) (use Cons.prems in simp)
  finally show ?case unfolding ids by simp
qed

definition internal_edge :: "id_map \<Rightarrow> TmpEdge \<Rightarrow> TmpEdge" where
  "internal_edge ids e = e\<lparr>te_startNode := the (ids (te_startNode e)), te_destNode := the (ids (te_destNode e))\<rparr>"

lemma fmi_readEdges:
  "\<forall>e \<in> set E. te_startNode e \<in> dom ids \<and> te_destNode e \<in> dom ids \<Longrightarrow>
   for_list (map int [k..<k + length E]) (fmi_readEdge ids) (map edge_line E @ rest, acc) = Some (rest, acc @ map (internal_edge ids) E)"
proof (induction E arbitrary: k acc)
  case (Cons e E)
  have step: "fmi_readEdge ids (int k) (map edge_line (e # E) @ rest, acc) =
      Some (map edge_line E @ rest, acc @ [internal_edge ids e])"
    using Cons.prems by (auto simp: fmi_readEdge_def edge_line_def readLine_def aget_def internal_edge_def)
  have "for_list (map int [k..<k + length (e # E)]) (fmi_readEdge ids) (map edge_line (e # E) @ rest, acc) =
      for_list (map int [Suc k..<Suc k + length E]) (fmi_readEdge ids) (map edge_line E @ rest, acc @ [internal_edge ids e])"
    unfolding map_int_upt_Cons for_list.simps step by simp
  also have "\<dots> = Some (rest, (acc @ [internal_edge ids e]) @ map (internal_edge ids) E)"
    by (rule Cons.IH) (use Cons.prems in simp)
  finally show ?case by simp
qed simp

section \<open>The adjacency map and missing edges\<close>

lemma adj_add_keys: "distinct (map fst m) \<Longrightarrow> distinct (map fst (adj_add m e)) \<and> fst ` set (adj_add m e) = insert (te_startNode e) (fst ` set m)"
  by (induction m e rule: adj_add.induct) auto

lemma adj_add_lookup:
  "map_of (adj_add m e) k = (if k = te_startNode e then Some ((case map_of m k of None \<Rightarrow> [] | Some es \<Rightarrow> es) @ [e]) else map_of m k)"
  by (induction m e rule: adj_add.induct) auto

lemma adjacenceMap_lookup:
  "map_of (fmi_adjacenceMap E) k = (let es = filter (\<lambda>e. te_startNode e = k) E in if es = [] then None else Some es) \<and>
   distinct (map fst (fmi_adjacenceMap E))"
proof (induction E rule: rev_induct)
  case (snoc e E)
  then show ?case using adj_add_keys[of "foldl adj_add [] E" e]
    by (auto simp: fmi_adjacenceMap_def adj_add_lookup Let_def split: option.splits if_splits)
qed (simp add: fmi_adjacenceMap_def)

lemma adjacenceMap_entry:
  assumes "(k, es) \<in> set (fmi_adjacenceMap E)"
  shows "es = filter (\<lambda>e. te_startNode e = k) E"
  using map_of_is_SomeI[of "fmi_adjacenceMap E" k es] adjacenceMap_lookup[of E k] assms
  by (auto simp: Let_def split: if_splits)

text \<open>An edge whose opposite edge is in the list.\<close>

definition has_opposite :: "TmpEdge list \<Rightarrow> TmpEdge \<Rightarrow> bool" where
  "has_opposite E e \<longleftrightarrow> list_ex (\<lambda>r. te_startNode r = te_destNode e \<and> te_destNode r = te_startNode e) E"

lemma fmi_checkEdge_opposite:
  assumes "has_opposite E e"
  shows "fmi_checkEdge (fmi_adjacenceMap E) e (b, missing) = Some (True, missing)"
proof -
  let ?es = "filter (\<lambda>r. te_startNode r = te_destNode e) E"
  have "?es \<noteq> []" using assms by (auto simp: has_opposite_def list_ex_iff filter_empty_conv)
  moreover have "list_ex (\<lambda>r. te_startNode r = te_destNode e \<and> te_destNode r = te_startNode e) ?es"
    using assms by (auto simp: has_opposite_def list_ex_iff)
  ultimately show ?thesis using adjacenceMap_lookup[of E "te_destNode e"] by (simp add: fmi_checkEdge_def Let_def)
qed

lemma fmi_missingEdges_none:
  assumes sym: "\<forall>e \<in> set E. has_opposite E e" and ord: "set (entryOrder (fmi_adjacenceMap E)) \<subseteq> set (fmi_adjacenceMap E)"
  shows "fmi_missingEdges entryOrder (fmi_adjacenceMap E) = Some []"
proof -
  have edges: "\<exists>b'. for_list es (fmi_checkEdge (fmi_adjacenceMap E)) (b, missing) = Some (b', missing)"
    if "set es \<subseteq> set E" for es b missing
    using that
  proof (induction es arbitrary: b)
    case (Cons e es)
    then show ?case using fmi_checkEdge_opposite[of E e b missing] sym by auto
  qed simp
  have entry: "fmi_checkEntry (fmi_adjacenceMap E) x missing = Some missing" if "x \<in> set (fmi_adjacenceMap E)" for x missing
  proof -
    have "set (snd x) \<subseteq> set E" using adjacenceMap_entry[of "fst x" "snd x" E] that by auto
    from edges[OF this, of False missing] show ?thesis by (auto simp: fmi_checkEntry_def)
  qed
  have "for_list xs (fmi_checkEntry (fmi_adjacenceMap E)) [] = Some []" if "set xs \<subseteq> set (fmi_adjacenceMap E)" for xs
    using that entry by (induction xs) auto
  then show ?thesis using ord by (simp add: fmi_missingEdges_def)
qed

section \<open>Importing a symmetric file\<close>

lemma fmi_parse_file:
  assumes ids: "distinct (map tn_id N)"
    and ends: "\<forall>e \<in> set E. te_startNode e \<in> tn_id ` set N \<and> te_destNode e \<in> tn_id ` set N"
    and E': "E' = sort_key te_startNode (map (internal_edge (file_ids 0 N)) E)"
  shows "fmi_parse entryOrder (fmi_file a b N E) = do {
    missing \<leftarrow> fmi_missingEdges entryOrder (fmi_adjacenceMap E');
    Some (int (length N), N, int (length E) + int (length missing), sort_key te_startNode (E' @ missing)) }"
proof -
  let ?ids = "file_ids 0 N"
  have rn: "for_range 0 (int (length N)) fmi_readNode (map node_line N @ map edge_line E, [], Map.empty) =
      Some (map edge_line E, N, ?ids)"
    using fmi_readNodes[OF ids, of 0 "map edge_line E" "[]" Map.empty] by (simp add: for_range_nat)
  have sn: "sort_key (\<lambda>n. the (?ids (tn_id n))) N = N"
  proof (rule sort_key_id_if_sorted)
    have "map (\<lambda>n. the (?ids (tn_id n))) N = map int [0..<length N]"
      using file_ids_nth[OF ids, of _ 0] by (intro nth_equalityI) auto
    then show "sorted (map (\<lambda>n. the (?ids (tn_id n))) N)" by (simp add: sorted_iff_nth_mono)
  qed
  have re: "for_range 0 (int (length E)) (fmi_readEdge ?ids) (map edge_line E, []) = Some ([], map (internal_edge ?ids) E)"
    using fmi_readEdges[of E ?ids 0 "[]" "[]"] ends file_ids_dom[of 0 N] by (simp add: for_range_nat)
  show ?thesis
    by (simp add: fmi_parse_def fmi_file_def readCount_def readLine_def rn sn re Let_def E')
qed

lemma fmi_parse_symmetric:
  assumes ids: "distinct (map tn_id N)"
    and ends: "\<forall>e \<in> set E. te_startNode e \<in> tn_id ` set N \<and> te_destNode e \<in> tn_id ` set N"
    and sym: "\<forall>e \<in> set E. has_opposite E e" and ord: "\<And>m. set (entryOrder m) = set m"
  shows "fmi_parse entryOrder (fmi_file a b N E) =
    Some (int (length N), N, int (length E), sort_key te_startNode (map (internal_edge (file_ids 0 N)) E))"
proof -
  let ?E = "sort_key te_startNode (map (internal_edge (file_ids 0 N)) E)"
  have "\<forall>e \<in> set ?E. has_opposite ?E e"
    using sym by (auto simp: has_opposite_def list_ex_iff internal_edge_def) metis
  then have me: "fmi_missingEdges entryOrder (fmi_adjacenceMap ?E) = Some []"
    by (rule fmi_missingEdges_none) (simp add: ord)
  have "sort_key te_startNode ?E = ?E" by (rule sort_key_id_if_sorted) simp
  then show ?thesis by (simp add: fmi_parse_file[OF ids ends refl] me)
qed

text \<open>In a list sorted by a key, the elements with one key stand between the two counts.\<close>

lemma filter_upt_between: "b \<le> n \<Longrightarrow> filter (\<lambda>i. a \<le> i \<and> i < b) [0..<n] = [a..<b]"
proof (induction n arbitrary: b)
  case (Suc n)
  show ?case
  proof (cases "b = Suc n")
    case True
    have "filter (\<lambda>i. a \<le> i \<and> i < Suc n) [0..<n] = filter (\<lambda>i. a \<le> i \<and> i < n) [0..<n]"
      by (rule filter_cong) auto
    with True Suc.IH[of n] show ?thesis by simp
  next
    case False
    with Suc show ?thesis by auto
  qed
qed simp

lemma filter_sorted_key:
  fixes f :: "'a \<Rightarrow> int"
  assumes "sorted (map f xs)"
  shows "filter (\<lambda>x. f x = k) xs = map (\<lambda>i. xs ! nat i) [count_below (map f xs) k..count_below (map f xs) (k + 1) - 1]"
proof -
  let ?c = "\<lambda>k. nat (count_below (map f xs) k)"
  have c: "int (?c k) = count_below (map f xs) k" for k by (simp add: count_below_def)
  have le: "?c k \<le> length xs" for k by (simp add: count_below_def)
  have "filter (\<lambda>x. f x = k) xs = map (\<lambda>i. xs ! i) (filter (\<lambda>i. f (xs ! i) = k) [0..<length xs])"
    using filter_map[of "\<lambda>x. f x = k" "\<lambda>i. xs ! i" "[0..<length xs]"] by (simp add: map_nth comp_def)
  also have "filter (\<lambda>i. f (xs ! i) = k) [0..<length xs] = filter (\<lambda>i. ?c k \<le> i \<and> i < ?c (k + 1)) [0..<length xs]"
  proof (rule filter_cong[OF refl])
    fix i assume "i \<in> set [0..<length xs]"
    then show "(f (xs ! i) = k) = (?c k \<le> i \<and> i < ?c (k + 1))"
      using sorted_count_range[OF assms, of i k] c[of k] c[of "k + 1"] by auto
  qed
  also have "\<dots> = [?c k..<?c (k + 1)]" by (rule filter_upt_between[OF le])
  also have "map (\<lambda>i. xs ! i) [?c k..<?c (k + 1)] = map (\<lambda>i. xs ! nat i) [count_below (map f xs) k..count_below (map f xs) (k + 1) - 1]"
  proof -
    have "[count_below (map f xs) k..count_below (map f xs) (k + 1) - 1] = map int [?c k..<?c (k + 1)]"
      using upto_int[of "?c k" "?c (k + 1)"] by (simp only: c)
    then show ?thesis by simp
  qed
  finally show ?thesis .
qed

text \<open>The grid with given nodes and edges that are sorted by their start node.\<close>

definition grid_of :: "TmpNode list \<Rightarrow> TmpEdge list \<Rightarrow> Grid" where
  "grid_of N E = \<lparr>gr_node = \<lparr>nd_latitude = map tn_latitude N, nd_longitude = map tn_longitude N\<rparr>,
     gr_edge = \<lparr>ed_startNode = map te_startNode E, ed_destNode = map te_destNode E, ed_dist = map te_dist E\<rparr>,
     gr_offset = Some (map (\<lambda>k. count_below (map te_startNode E) (int k)) [0..<Suc (length N)])\<rparr>"

definition edges_inside :: "nat \<Rightarrow> TmpEdge list \<Rightarrow> bool" where
  "edges_inside n E \<longleftrightarrow> (\<forall>e \<in> set E. 0 \<le> te_startNode e \<and> te_startNode e < int n \<and>
     0 \<le> te_destNode e \<and> te_destNode e < int n \<and> 0 \<le> te_dist e)"

lemma import_grid_of:
  assumes "fmi_parse entryOrder file = Some (int (length N), N, int (length E), E)" "edges_inside (length N) E"
  shows "Grid_importFmiFile entryOrder file = Some (grid_of N E)"
proof -
  let ?g = "grid_of N E"
  have "\<forall>x \<in> set (ed_startNode (gr_edge ?g)). 0 \<le> x \<and> x < Node_getSize (gr_node ?g)"
    using assms(2) by (auto simp: edges_inside_def grid_of_def Node_getSize_def)
  from Grid_buildOffset_counts[OF this] show ?thesis
    using assms(1) by (simp add: Grid_importFmiFile_def fmi_column_def grid_of_def Let_def del: upt_Suc)
qed

lemma grid_of_wf: "edges_inside (length N) E \<Longrightarrow> Grid_wf (grid_of N E)"
  unfolding Grid_wf_def grid_of_def
  by (auto simp: edges_inside_def Node_getSize_def Edge_getSize_def count_below_def simp del: upt_Suc)

lemma grid_of_adj:
  assumes "sorted (map te_startNode E)" "u < length N"
  shows "Grid_adj (grid_of N E) (int u) = map (\<lambda>e. (te_destNode e, te_dist e)) (filter (\<lambda>e. te_startNode e = int u) E)"
proof -
  let ?c = "count_below (map te_startNode E)"
  have off: "Grid_range (grid_of N E) (int u) = [?c (int u)..?c (int u + 1) - 1]"
    using assms(2) by (simp add: Grid_range_def grid_of_def nat_add_distrib add.commute del: upt_Suc)
  have in_bounds: "nat i < length E" if "i \<in> set [?c (int u)..?c (int u + 1) - 1]" for i
  proof -
    have "?c (int u + 1) \<le> int (length E)" by (simp add: count_below_def)
    moreover have "0 \<le> ?c (int u)" by (simp add: count_below_def)
    ultimately show ?thesis using that by auto
  qed
  have "Grid_adj (grid_of N E) (int u) = map (\<lambda>i. (te_destNode (E ! nat i), te_dist (E ! nat i))) [?c (int u)..?c (int u + 1) - 1]"
    unfolding Grid_adj_def off using in_bounds by (auto simp: grid_of_def)
  also have "\<dots> = map (\<lambda>e. (te_destNode e, te_dist e)) (map (\<lambda>i. E ! nat i) [?c (int u)..?c (int u + 1) - 1])"
    by simp
  finally show ?thesis using filter_sorted_key[OF assms(1), of "int u"] by simp
qed

lemma internal_edges_inside:
  assumes "distinct (map tn_id N)" "\<forall>e \<in> set E. te_startNode e \<in> tn_id ` set N \<and> te_destNode e \<in> tn_id ` set N \<and> 0 \<le> te_dist e"
  shows "edges_inside (length N) (sort_key te_startNode (map (internal_edge (file_ids 0 N)) E))"
proof -
  have "\<exists>i < length N. file_ids 0 N x = Some (int i)" if "x \<in> tn_id ` set N" for x
    using that file_ids_nth[OF assms(1), of _ 0] by (auto simp: in_set_conv_nth)
  then show ?thesis using assms(2) unfolding edges_inside_def internal_edge_def by fastforce
qed

section \<open>Exporting\<close>

lemma for_list_append:
  "(\<And>x out. x \<in> set xs \<Longrightarrow> F (g x) out = Some (out @ [h x])) \<Longrightarrow> for_list (map g xs) F out = Some (out @ map h xs)"
  by (induction xs arbitrary: out) auto

lemma export_lines:
  assumes "length (nd_longitude (gr_node g)) = length (nd_latitude (gr_node g))"
    "length (ed_destNode (gr_edge g)) = length (ed_startNode (gr_edge g))"
    "length (ed_dist (gr_edge g)) = length (ed_startNode (gr_edge g))"
  shows "Grid_exportToFmiFile g = Some (fmi_file [TextTok ''#''] []
    (map (\<lambda>i. \<lparr>tn_id = int i, tn_latitude = nd_latitude (gr_node g) ! i, tn_longitude = nd_longitude (gr_node g) ! i\<rparr>)
      [0..<length (nd_latitude (gr_node g))])
    (map (\<lambda>i. \<lparr>te_startNode = ed_startNode (gr_edge g) ! i, te_destNode = ed_destNode (gr_edge g) ! i, te_dist = ed_dist (gr_edge g) ! i\<rparr>)
      [0..<length (ed_startNode (gr_edge g))]))"
proof -
  let ?n = "length (nd_latitude (gr_node g))" let ?m = "length (ed_startNode (gr_edge g))"
  have nodes: "for_list (map int [0..<?n]) (\<lambda>nodeIdx out. do {
         lat \<leftarrow> Node_getLatitude (gr_node g) nodeIdx;
         lon \<leftarrow> Node_getLongitude (gr_node g) nodeIdx;
         Some (out @ [[IntTok nodeIdx, DoubleTok lat, DoubleTok lon]]) }) out =
      Some (out @ map (\<lambda>i. [IntTok (int i), DoubleTok (nd_latitude (gr_node g) ! i), DoubleTok (nd_longitude (gr_node g) ! i)]) [0..<?n])" for out
    using assms(1) by (intro for_list_append) (simp add: Node_getLatitude_def Node_getLongitude_def java comp_def)
  have edges: "for_list (map int [0..<?m]) (\<lambda>edgeIdx out. do {
         s \<leftarrow> Edge_getStart (gr_edge g) edgeIdx;
         d \<leftarrow> Edge_getDest (gr_edge g) edgeIdx;
         w \<leftarrow> Edge_getDist (gr_edge g) edgeIdx;
         Some (out @ [[IntTok s, IntTok d, IntTok w]]) }) out =
      Some (out @ map (\<lambda>i. [IntTok (ed_startNode (gr_edge g) ! i), IntTok (ed_destNode (gr_edge g) ! i), IntTok (ed_dist (gr_edge g) ! i)]) [0..<?m])" for out
    using assms(2,3) by (intro for_list_append) (simp add: Edge_getStart_def Edge_getDest_def Edge_getDist_def java comp_def)
  show ?thesis
    by (simp add: Grid_exportToFmiFile_def Node_getSize_def Edge_getSize_def for_range_nat nodes edges fmi_file_def
      node_line_def edge_line_def comp_def Let_def)
qed

lemma import_symmetric_ok:
  assumes "distinct (map tn_id N)"
    and "\<forall>e \<in> set E. te_startNode e \<in> tn_id ` set N \<and> te_destNode e \<in> tn_id ` set N \<and> 0 \<le> te_dist e"
    and "\<forall>e \<in> set E. has_opposite E e" and "\<And>m. set (entryOrder m) = set m"
  shows "\<exists>g. Grid_importFmiFile entryOrder (fmi_file a b N E) = Some g \<and> Grid_wf g \<and>
    nd_latitude (gr_node g) = map tn_latitude N \<and> nd_longitude (gr_node g) = map tn_longitude N \<and>
    (\<forall>u < length N. Grid_adj g (int u) =
       map (\<lambda>e. (the (file_ids 0 N (te_destNode e)), te_dist e)) (filter (\<lambda>e. te_startNode e = tn_id (N ! u)) E))"
proof -
  let ?E = "sort_key te_startNode (map (internal_edge (file_ids 0 N)) E)" let ?g = "grid_of N ?E"
  have ins: "edges_inside (length N) ?E" by (rule internal_edges_inside[OF assms(1,2)])
  have "Grid_importFmiFile entryOrder (fmi_file a b N E) = Some ?g"
    using import_grid_of[OF _ ins] fmi_parse_symmetric[OF assms(1) _ assms(3,4)] assms(2) by simp
  moreover have "Grid_adj ?g (int u) =
      map (\<lambda>e. (the (file_ids 0 N (te_destNode e)), te_dist e)) (filter (\<lambda>e. te_startNode e = tn_id (N ! u)) E)"
    if u: "u < length N" for u
  proof -
    have start: "te_startNode (internal_edge (file_ids 0 N) e) = int u \<longleftrightarrow> te_startNode e = tn_id (N ! u)" if "e \<in> set E" for e
    proof -
      obtain n where "n \<in> set N" "te_startNode e = tn_id n" using assms(2) \<open>e \<in> set E\<close> by auto
      then obtain i where i: "i < length N" "te_startNode e = tn_id (N ! i)" by (auto simp: in_set_conv_nth)
      then have "te_startNode (internal_edge (file_ids 0 N) e) = int i"
        using file_ids_nth[OF assms(1) i(1), of 0] by (simp add: internal_edge_def)
      moreover have "tn_id (N ! i) = tn_id (N ! u) \<longleftrightarrow> i = u"
        using nth_eq_iff_index_eq[OF assms(1), of i u] i(1) u by simp
      ultimately show ?thesis using i(2) by simp
    qed
    have "Grid_adj ?g (int u) = map (\<lambda>e. (te_destNode e, te_dist e)) (filter (\<lambda>e. te_startNode e = int u) (map (internal_edge (file_ids 0 N)) E))"
      using grid_of_adj[of ?E u N] u sort_key_stable[of te_startNode "int u" "map (internal_edge (file_ids 0 N)) E"] by simp
    also have "\<dots> = map (\<lambda>e. (the (file_ids 0 N (te_destNode e)), te_dist e)) (filter (\<lambda>e. te_startNode (internal_edge (file_ids 0 N) e) = int u) E)"
      by (simp add: filter_map comp_def internal_edge_def)
    also have "filter (\<lambda>e. te_startNode (internal_edge (file_ids 0 N) e) = int u) E = filter (\<lambda>e. te_startNode e = tn_id (N ! u)) E"
      by (rule filter_cong[OF refl start])
    finally show ?thesis .
  qed
  ultimately show ?thesis using grid_of_wf[OF ins] by (intro exI[of _ ?g]) (simp add: grid_of_def)
qed

section \<open>Properties\<close>

text \<open>
  C21. Importing a file whose nodes have distinct ids, whose edges join nodes of the file and whose
  graph has every edge in both directions succeeds for every iteration order of the hash map: the
  nodes keep the order of the file, the grid is one the router can work on, and the edges leaving a
  node are the edges of the file that start at it, in the order of the file.
\<close>

theorem import_symmetric_file:
  assumes "distinct (map tn_id N)"
    and "\<forall>e \<in> set E. te_startNode e \<in> tn_id ` set N \<and> te_destNode e \<in> tn_id ` set N \<and> 0 \<le> te_dist e"
    and "\<forall>e \<in> set E. has_opposite E e" and "\<And>m. set (entryOrder m) = set m"
  shows "\<exists>g. Grid_importFmiFile entryOrder (fmi_file a b N E) = Some g \<and> Grid_wf g \<and>
    nd_latitude (gr_node g) = map tn_latitude N \<and> nd_longitude (gr_node g) = map tn_longitude N \<and>
    (\<forall>u < length N. Grid_adj g (int u) =
       map (\<lambda>e. (the (file_ids 0 N (te_destNode e)), te_dist e)) (filter (\<lambda>e. te_startNode e = tn_id (N ! u)) E))"
  by (rule import_symmetric_ok[OF assms])

definition ex_fileNodes :: "TmpNode list" where
  "ex_fileNodes = [\<lparr>tn_id = 7, tn_latitude = 1, tn_longitude = 2\<rparr>, \<lparr>tn_id = 3, tn_latitude = 4, tn_longitude = 5\<rparr>,
     \<lparr>tn_id = 5, tn_latitude = 6, tn_longitude = 7\<rparr>]"

definition ex_fileEdges :: "TmpEdge list" where
  "ex_fileEdges = [\<lparr>te_startNode = 3, te_destNode = 7, te_dist = 9\<rparr>, \<lparr>te_startNode = 7, te_destNode = 3, te_dist = 9\<rparr>]"

theorem import_symmetric_file_witness:
  "\<exists>g. Grid_importFmiFile rev (fmi_file [] [] ex_fileNodes ex_fileEdges) = Some g \<and> Grid_wf g \<and> Grid_adj g 1 = [(0, 9)]"
proof -
  have a: "distinct (map tn_id ex_fileNodes)"
    "\<forall>e \<in> set ex_fileEdges. te_startNode e \<in> tn_id ` set ex_fileNodes \<and> te_destNode e \<in> tn_id ` set ex_fileNodes \<and> 0 \<le> te_dist e"
    "\<forall>e \<in> set ex_fileEdges. has_opposite ex_fileEdges e"
    by (simp_all add: ex_fileNodes_def ex_fileEdges_def has_opposite_def)
  have adj: "map (\<lambda>e. (the (file_ids 0 ex_fileNodes (te_destNode e)), te_dist e)) (filter (\<lambda>e. te_startNode e = tn_id (ex_fileNodes ! 1)) ex_fileEdges) = [(0, 9)]"
    by (simp add: ex_fileNodes_def ex_fileEdges_def file_ids_def upt_rec)
  have l: "1 < length ex_fileNodes" by (simp add: ex_fileNodes_def)
  obtain g where "Grid_importFmiFile rev (fmi_file [] [] ex_fileNodes ex_fileEdges) = Some g" "Grid_wf g"
    "\<forall>u < length ex_fileNodes. Grid_adj g (int u) = map (\<lambda>e. (the (file_ids 0 ex_fileNodes (te_destNode e)), te_dist e))
       (filter (\<lambda>e. te_startNode e = tn_id (ex_fileNodes ! u)) ex_fileEdges)"
    using import_symmetric_file[OF a, of rev "[]" "[]"] by auto
  with adj l show ?thesis by (metis of_nat_1)
qed

text \<open>
  Exporting a grid and importing the file gives the grid back, offsets included, when its edges
  are sorted by start node, lie between its nodes and occur in both directions.
\<close>

lemma export_import_roundtrip:
  assumes "Grid_wf g" and "sorted (ed_startNode (gr_edge g))"
    and "\<forall>x \<in> set (ed_startNode (gr_edge g)). 0 \<le> x \<and> x < Node_getSize (gr_node g)"
    and "\<forall>i < length (ed_startNode (gr_edge g)). \<exists>j < length (ed_startNode (gr_edge g)).
      ed_startNode (gr_edge g) ! j = ed_destNode (gr_edge g) ! i \<and> ed_destNode (gr_edge g) ! j = ed_startNode (gr_edge g) ! i"
    and "Grid_buildOffset (gr_node g) (gr_edge g) = gr_offset g" and "\<And>m. set (entryOrder m) = set m"
  shows "\<exists>file. Grid_exportToFmiFile g = Some file \<and> Grid_importFmiFile entryOrder file = Some g"
proof -
  let ?nd = "gr_node g" let ?ed = "gr_edge g"
  let ?n = "length (nd_latitude ?nd)" let ?m = "length (ed_startNode ?ed)"
  let ?N = "map (\<lambda>i. \<lparr>tn_id = int i, tn_latitude = nd_latitude ?nd ! i, tn_longitude = nd_longitude ?nd ! i\<rparr>) [0..<?n]"
  let ?E = "map (\<lambda>i. \<lparr>te_startNode = ed_startNode ?ed ! i, te_destNode = ed_destNode ?ed ! i, te_dist = ed_dist ?ed ! i\<rparr>) [0..<?m]"
  note wf = assms(1)[unfolded Grid_wf_def]
  have lens: "length (nd_longitude ?nd) = ?n" "length (ed_destNode ?ed) = ?m" "length (ed_dist ?ed) = ?m" using wf by auto
  have ins: "edges_inside ?n ?E"
    using wf assms(3) lens by (auto simp: edges_inside_def Node_getSize_def)
  have dist: "distinct (map tn_id ?N)" by (simp add: distinct_map inj_on_def comp_def)
  have idsN: "tn_id ` set ?N = {0..<int ?n}" using image_int_atLeastLessThan[of 0 ?n] by (simp add: image_image)
  have ids: "file_ids 0 ?N x = Some x" if "0 \<le> x" "x < int ?n" for x
    using file_ids_nth[OF dist, of "nat x" 0] that by (simp add: nat_less_iff)
  have ends: "\<forall>e \<in> set ?E. te_startNode e \<in> tn_id ` set ?N \<and> te_destNode e \<in> tn_id ` set ?N"
    using ins unfolding idsN edges_inside_def by simp
  have int: "map (internal_edge (file_ids 0 ?N)) ?E = ?E"
  proof (rule map_idI)
    fix e assume "e \<in> set ?E"
    then have "0 \<le> te_startNode e" "te_startNode e < int ?n" "0 \<le> te_destNode e" "te_destNode e < int ?n"
      using ins unfolding edges_inside_def by blast+
    then show "internal_edge (file_ids 0 ?N) e = e" using ids by (cases e) (simp add: internal_edge_def)
  qed
  have startE: "map te_startNode ?E = ed_startNode ?ed" by (simp add: comp_def map_nth)
  have srt: "sort_key te_startNode ?E = ?E" by (rule sort_key_id_if_sorted) (use startE assms(2) in simp)
  have "\<forall>e \<in> set ?E. has_opposite ?E e" using assms(4) by (fastforce simp: has_opposite_def list_ex_iff)
  from fmi_parse_symmetric[OF dist ends this assms(6), of "[TextTok ''#'']" "[]"]
  have "fmi_parse entryOrder (fmi_file [TextTok ''#''] [] ?N ?E) = Some (int (length ?N), ?N, int (length ?E), ?E)"
    unfolding int srt .
  from import_grid_of[OF this] ins
  have imp: "Grid_importFmiFile entryOrder (fmi_file [TextTok ''#''] [] ?N ?E) = Some (grid_of ?N ?E)" by simp
  have "gr_offset g = Some (map (\<lambda>k. count_below (map te_startNode ?E) (int k)) [0..<Suc (length ?N)])"
    using assms(5) Grid_buildOffset_counts[OF assms(3)] unfolding startE by simp
  then have "grid_of ?N ?E = g" unfolding grid_of_def
    using lens map_nth[of "nd_latitude ?nd"] map_nth[of "nd_longitude ?nd"] map_nth[of "ed_startNode ?ed"]
      map_nth[of "ed_destNode ?ed"] map_nth[of "ed_dist ?ed"]
    by (simp add: comp_def del: upt_Suc)
  with imp export_lines[OF lens] show ?thesis by simp
qed

definition ex_pathGrid :: Grid where
  "ex_pathGrid = \<lparr>gr_node = \<lparr>nd_latitude = [1, 2, 3], nd_longitude = [4, 5, 6]\<rparr>,
     gr_edge = \<lparr>ed_startNode = [0, 1, 1, 2], ed_destNode = [1, 0, 2, 1], ed_dist = [8, 8, 9, 9]\<rparr>,
     gr_offset = Some [0, 1, 3, 4]\<rparr>"

definition ex_gapNodes :: "TmpNode list" where
  "ex_gapNodes = [\<lparr>tn_id = 0, tn_latitude = 0, tn_longitude = 0\<rparr>, \<lparr>tn_id = 1, tn_latitude = 0, tn_longitude = 1\<rparr>,
     \<lparr>tn_id = 2, tn_latitude = 0, tn_longitude = 2\<rparr>]"

definition ex_gapEdges :: "TmpEdge list" where
  "ex_gapEdges = [\<lparr>te_startNode = 0, te_destNode = 1, te_dist = 5\<rparr>, \<lparr>te_startNode = 0, te_destNode = 2, te_dist = 6\<rparr>,
     \<lparr>te_startNode = 1, te_destNode = 0, te_dist = 5\<rparr>, \<lparr>te_startNode = 2, te_destNode = 1, te_dist = 7\<rparr>]"

definition ex_deadEnd :: "TmpEdge list" where
  "ex_deadEnd = [\<lparr>te_startNode = 0, te_destNode = 1, te_dist = 5\<rparr>]"

text \<open>The order of the entries does not matter when only one of them contributes edges.\<close>

lemma for_list_contributions:
  "(\<And>x acc. x \<in> set xs \<Longrightarrow> f x acc = Some (acc @ h x)) \<Longrightarrow> for_list xs f acc = Some (acc @ concat (map h xs))"
  by (induction xs arbitrary: acc) auto

lemma one_contribution:
  fixes h :: "'a \<Rightarrow> 'b list"
  assumes "mset xs = mset ys" "filter (\<lambda>l. l \<noteq> []) (map h ys) = [r]"
  shows "concat (map h xs) = r"
proof -
  have "mset (filter (\<lambda>l. l \<noteq> []) (map h xs)) = mset (filter (\<lambda>l. l \<noteq> []) (map h ys))"
    using assms(1) by (metis mset_filter mset_map)
  then have "mset (filter (\<lambda>l. l \<noteq> []) (map h xs)) = {#r#}" unfolding assms(2) by (simp del: mset_filter mset_map)
  then have "filter (\<lambda>l. l \<noteq> []) (map h xs) = [r]" by (simp only: mset_single_iff)
  then have "concat (filter (\<lambda>l. l \<noteq> []) (map h xs)) = r" by simp
  moreover have "concat (filter (\<lambda>l. l \<noteq> []) ls) = concat ls" for ls :: "'b list list" by (induction ls) auto
  ultimately show ?thesis by simp
qed

lemma ex_gap_missing:
  assumes "\<And>m. mset (entryOrder m) = mset (m :: adjacence_map)"
  shows "fmi_missingEdges entryOrder (fmi_adjacenceMap ex_gapEdges) = Some [\<lparr>te_startNode = 1, te_destNode = 2, te_dist = 7\<rparr>]"
proof -
  let ?m = "fmi_adjacenceMap ex_gapEdges" and ?r = "\<lparr>te_startNode = 1, te_destNode = 2, te_dist = 7\<rparr>"
  let ?h = "\<lambda>x :: int \<times> TmpEdge list. if fst x = 2 then [?r] else []"
  have m: "?m = [(0, take 2 ex_gapEdges), (1, [ex_gapEdges ! 2]), (2, [ex_gapEdges ! 3])]" by code_simp
  have "fmi_checkEntry ?m x acc = Some (acc @ ?h x)" if "x \<in> set ?m" for x acc
    using that unfolding m by (auto simp: fmi_checkEntry_def fmi_checkEdge_def ex_gapEdges_def numeral_eq_Suc)
  moreover have "set (entryOrder ?m) = set ?m" using assms mset_eq_setD by blast
  ultimately have "for_list (entryOrder ?m) (fmi_checkEntry ?m) [] = Some ([] @ concat (map ?h (entryOrder ?m)))"
    by (intro for_list_contributions) auto
  moreover have "concat (map ?h (entryOrder ?m)) = [?r]"
    by (rule one_contribution[OF assms]) (simp add: m)
  ultimately show ?thesis by (simp add: fmi_missingEdges_def)
qed

lemma ex_dead_end_missing:
  assumes "\<And>m. mset (entryOrder m) = mset (m :: adjacence_map)"
  shows "fmi_missingEdges entryOrder (fmi_adjacenceMap ex_deadEnd) = None"
proof -
  have m: "fmi_adjacenceMap ex_deadEnd = [(0, ex_deadEnd)]" by code_simp
  have "mset (entryOrder [(0, ex_deadEnd)]) = {#(0, ex_deadEnd)#}" using assms by simp
  then have "entryOrder [(0, ex_deadEnd)] = [(0, ex_deadEnd)]" by simp
  then show ?thesis unfolding m fmi_missingEdges_def by (simp add: fmi_checkEntry_def fmi_checkEdge_def ex_deadEnd_def)
qed



end
