(* ===== verification/LabelCreationData.thy ===== *)
theory LabelCreationData
  imports HubLabelData GridImport
begin

text \<open>
  The static data of the label creation, package \<open>hublablecreation\<close>: \<open>Edges.java\<close>,
  \<open>Nodes.java\<close>, \<open>DynamicGrid.java\<close>, \<open>Labels.java\<close> and the two serialized objects
  \<open>CHData.java\<close> and \<open>TmpLabelData.java\<close>; further the operations of \<open>hublabeldata/HubLEdges.java\<close>
  and \<open>hublabeldata/HubLNodes.java\<close> that turn this data into the format of the router.

  The static fields of a class are a record. A field that the code sets to \<open>null\<close>, or a row of a
  two-dimensional array that can be \<open>null\<close>, is an option. Plain getters and setters are record
  accesses. A serialized object is the record of its fields; \<open>None\<close> is a missing file.
\<close>

section \<open>Edges\<close>

record Edges =
  eg_originalEdgeStart :: "int list"
  eg_originalEdgeDest :: "int list"
  eg_originalEdgeDist :: "int list"
  eg_numOfOriginalEdges :: int
  eg_shortcutEdgeStart :: "int list"
  eg_shortcutEdgeDest :: "int list"
  eg_shortcutEdgeDist :: "int list"
  eg_shortcutEdgeParts :: "int list"
  eg_nextShortcutId :: int
  eg_shortcutEdgeSizeIncrease :: int

definition Edges_getDest :: "Edges \<Rightarrow> int \<Rightarrow> int option" where
  "Edges_getDest es i =
     (if i < eg_numOfOriginalEdges es then aget (eg_originalEdgeDest es) i
      else aget (eg_shortcutEdgeDest es) (i - eg_numOfOriginalEdges es))"

definition Edges_getDist :: "Edges \<Rightarrow> int \<Rightarrow> int option" where
  "Edges_getDist es i =
     (if i < eg_numOfOriginalEdges es then aget (eg_originalEdgeDist es) i
      else aget (eg_shortcutEdgeDist es) (i - eg_numOfOriginalEdges es))"

definition Edges_initializeForShortcutEdges :: "Edges \<Rightarrow> int \<Rightarrow> Edges option" where
  "Edges_initializeForShortcutEdges es numOfOriginalEdges = do {
     let sizeIncrease = numOfOriginalEdges div 2;
     start \<leftarrow> newArray sizeIncrease 0;
     dest \<leftarrow> newArray sizeIncrease 0;
     dist \<leftarrow> newArray sizeIncrease 0;
     parts \<leftarrow> newArray (sizeIncrease * 2) 0;
     Some (es\<lparr>eg_numOfOriginalEdges := numOfOriginalEdges, eg_nextShortcutId := numOfOriginalEdges,
       eg_shortcutEdgeSizeIncrease := sizeIncrease, eg_shortcutEdgeStart := start, eg_shortcutEdgeDest := dest,
       eg_shortcutEdgeDist := dist, eg_shortcutEdgeParts := parts\<rparr>)
   }"

definition Edges_grow :: "Edges \<Rightarrow> Edges option" where
  "Edges_grow es = do {
     let oldLen = int (length (eg_shortcutEdgeDist es));
     start \<leftarrow> copyOf (eg_shortcutEdgeStart es) (oldLen + eg_shortcutEdgeSizeIncrease es) 0;
     dest \<leftarrow> copyOf (eg_shortcutEdgeDest es) (oldLen + eg_shortcutEdgeSizeIncrease es) 0;
     dist \<leftarrow> copyOf (eg_shortcutEdgeDist es) (oldLen + eg_shortcutEdgeSizeIncrease es) 0;
     parts \<leftarrow> copyOf (eg_shortcutEdgeParts es) ((oldLen + eg_shortcutEdgeSizeIncrease es) * 2) 0;
     Some (es\<lparr>eg_shortcutEdgeStart := start, eg_shortcutEdgeDest := dest, eg_shortcutEdgeDist := dist,
       eg_shortcutEdgeParts := parts\<rparr>)
   }"

definition Edges_addShortcutEdge :: "Edges \<Rightarrow> int \<Rightarrow> int \<Rightarrow> int \<Rightarrow> int \<Rightarrow> int \<Rightarrow> (int \<times> Edges) option" where
  "Edges_addShortcutEdge es start dest distance firstEdgeUsed secondEdgeUsed = do {
     let nextArrayPosition = eg_nextShortcutId es - eg_numOfOriginalEdges es;
     es \<leftarrow> (if int (length (eg_shortcutEdgeDist es)) - 1 < nextArrayPosition then Edges_grow es else Some es);
     starts \<leftarrow> aset (eg_shortcutEdgeStart es) nextArrayPosition start;
     dests \<leftarrow> aset (eg_shortcutEdgeDest es) nextArrayPosition dest;
     dists \<leftarrow> aset (eg_shortcutEdgeDist es) nextArrayPosition distance;
     parts \<leftarrow> aset (eg_shortcutEdgeParts es) (nextArrayPosition * 2) firstEdgeUsed;
     parts \<leftarrow> aset parts (nextArrayPosition * 2 + 1) secondEdgeUsed;
     let edgeId = eg_nextShortcutId es;
     Some (edgeId, es\<lparr>eg_shortcutEdgeStart := starts, eg_shortcutEdgeDest := dests, eg_shortcutEdgeDist := dists,
       eg_shortcutEdgeParts := parts, eg_nextShortcutId := edgeId + 1\<rparr>)
   }"

section \<open>Nodes\<close>

record Nodes =
  no_latitude :: "real list option"
  no_longitude :: "real list option"
  no_levels :: "int list option"

definition Nodes_getNodeLvl :: "Nodes \<Rightarrow> int \<Rightarrow> int option" where
  "Nodes_getNodeLvl ns nodeId = do { levels \<leftarrow> no_levels ns; aget levels nodeId }"

definition Nodes_setNodeLevel :: "Nodes \<Rightarrow> int \<Rightarrow> int \<Rightarrow> Nodes option" where
  "Nodes_setNodeLevel ns node lvl = do {
     levels \<leftarrow> no_levels ns;
     levels \<leftarrow> aset levels node lvl;
     Some (ns\<lparr>no_levels := Some levels\<rparr>)
   }"

definition Nodes_initializeLvls :: "Nodes \<Rightarrow> int \<Rightarrow> Nodes option" where
  "Nodes_initializeLvls ns nodeNum = do {
     levels \<leftarrow> newArray nodeNum 0;
     Some (ns\<lparr>no_levels := Some levels\<rparr>)
   }"

definition Nodes_getNodeCount :: "Nodes \<Rightarrow> int option" where
  "Nodes_getNodeCount ns = map_option (\<lambda>l. int (length l)) (no_latitude ns)"

section \<open>DynamicGrid\<close>

text \<open>A row of the current edges is \<open>null\<close> once its node is removed.\<close>

record DynamicGrid =
  dg_currentEdgeIds :: "int list option list"
  dg_currentEdgeCount :: "int list"
  dg_allEdgeIds :: "int list list option"
  dg_allEdgeCount :: "int list option"

definition DynamicGrid_initializeEdges :: "DynamicGrid \<Rightarrow> int list list \<Rightarrow> int list \<Rightarrow> DynamicGrid" where
  "DynamicGrid_initializeEdges g edges edgeCount =
     g\<lparr>dg_currentEdgeIds := map Some edges, dg_currentEdgeCount := edgeCount, dg_allEdgeIds := Some edges,
       dg_allEdgeCount := Some edgeCount\<rparr>"

definition DynamicGrid_getCurrentEdges :: "DynamicGrid \<Rightarrow> int \<Rightarrow> int list option option" where
  "DynamicGrid_getCurrentEdges g nodeId = aget (dg_currentEdgeIds g) nodeId"

definition DynamicGrid_getCurrentEdgeCount :: "DynamicGrid \<Rightarrow> int \<Rightarrow> int option" where
  "DynamicGrid_getCurrentEdgeCount g nodeId = aget (dg_currentEdgeCount g) nodeId"

definition DynamicGrid_getAllEdges :: "DynamicGrid \<Rightarrow> int \<Rightarrow> int list option" where
  "DynamicGrid_getAllEdges g nodeId = do { rows \<leftarrow> dg_allEdgeIds g; aget rows nodeId }"

definition DynamicGrid_getAllEdgeCount :: "DynamicGrid \<Rightarrow> int \<Rightarrow> int option" where
  "DynamicGrid_getAllEdgeCount g nodeId = do { counts \<leftarrow> dg_allEdgeCount g; aget counts nodeId }"

text \<open>Access to an element of a row that can be \<open>null\<close>.\<close>

definition rowget :: "int list option \<Rightarrow> int \<Rightarrow> int option" where
  "rowget row i = do { r \<leftarrow> row; aget r i }"

definition DynamicGrid_growCurrent :: "DynamicGrid \<Rightarrow> int \<Rightarrow> DynamicGrid option" where
  "DynamicGrid_growCurrent g nodeId = do {
     row \<leftarrow> DynamicGrid_getCurrentEdges g nodeId;
     row \<leftarrow> row;
     row \<leftarrow> copyOf row (int (length row) * 2) 0;
     rows \<leftarrow> aset (dg_currentEdgeIds g) nodeId (Some row);
     Some (g\<lparr>dg_currentEdgeIds := rows\<rparr>)
   }"

definition DynamicGrid_growAll :: "DynamicGrid \<Rightarrow> int \<Rightarrow> DynamicGrid option" where
  "DynamicGrid_growAll g nodeId = do {
     rows \<leftarrow> dg_allEdgeIds g;
     row \<leftarrow> aget rows nodeId;
     row \<leftarrow> copyOf row (int (length row) * 2) 0;
     rows \<leftarrow> aset rows nodeId row;
     Some (g\<lparr>dg_allEdgeIds := Some rows\<rparr>)
   }"

definition DynamicGrid_addEdge :: "DynamicGrid \<Rightarrow> int \<Rightarrow> int \<Rightarrow> DynamicGrid option" where
  "DynamicGrid_addEdge g nodeId edgeId = do {
     row \<leftarrow> DynamicGrid_getCurrentEdges g nodeId;
     row \<leftarrow> row;
     count \<leftarrow> DynamicGrid_getCurrentEdgeCount g nodeId;
     g \<leftarrow> (if int (length row) = count then DynamicGrid_growCurrent g nodeId else Some g);
     allRow \<leftarrow> DynamicGrid_getAllEdges g nodeId;
     allCount \<leftarrow> DynamicGrid_getAllEdgeCount g nodeId;
     g \<leftarrow> (if int (length allRow) = allCount then DynamicGrid_growAll g nodeId else Some g);
     row \<leftarrow> DynamicGrid_getCurrentEdges g nodeId;
     row \<leftarrow> row;
     row \<leftarrow> aset row count edgeId;
     rows \<leftarrow> aset (dg_currentEdgeIds g) nodeId (Some row);
     counts \<leftarrow> aset (dg_currentEdgeCount g) nodeId (count + 1);
     allRows \<leftarrow> dg_allEdgeIds g;
     allRow \<leftarrow> aget allRows nodeId;
     allRow \<leftarrow> aset allRow allCount edgeId;
     allRows \<leftarrow> aset allRows nodeId allRow;
     allCounts \<leftarrow> dg_allEdgeCount g;
     allCounts \<leftarrow> aset allCounts nodeId (allCount + 1);
     Some (g\<lparr>dg_currentEdgeIds := rows, dg_currentEdgeCount := counts, dg_allEdgeIds := Some allRows,
       dg_allEdgeCount := Some allCounts\<rparr>)
   }"

text \<open>The search loop of \<open>removeBackwardsEdge\<close>; without a match the position stays -1.\<close>

fun DynamicGrid_position :: "Edges \<Rightarrow> int list option \<Rightarrow> int \<Rightarrow> int list \<Rightarrow> int option" where
  "DynamicGrid_position es row startId [] = Some (-1)"
| "DynamicGrid_position es row startId (i # is) = do {
     e \<leftarrow> rowget row i;
     d \<leftarrow> Edges_getDest es e;
     if d = startId then Some i else DynamicGrid_position es row startId is
   }"

definition DynamicGrid_removeBackwardsEdge :: "Edges \<Rightarrow> DynamicGrid \<Rightarrow> int \<Rightarrow> int \<Rightarrow> DynamicGrid option" where
  "DynamicGrid_removeBackwardsEdge es g startId destId = do {
     count \<leftarrow> DynamicGrid_getCurrentEdgeCount g destId;
     row \<leftarrow> DynamicGrid_getCurrentEdges g destId;
     position \<leftarrow> DynamicGrid_position es row startId [0..count - 1];
     lastEdge \<leftarrow> rowget row (count - 1);
     row \<leftarrow> row;
     row \<leftarrow> aset row position lastEdge;
     rows \<leftarrow> aset (dg_currentEdgeIds g) destId (Some row);
     counts \<leftarrow> aset (dg_currentEdgeCount g) destId (count - 1);
     Some (g\<lparr>dg_currentEdgeIds := rows, dg_currentEdgeCount := counts\<rparr>)
   }"

lemma removeBackwardsEdge_count:
  assumes "DynamicGrid_removeBackwardsEdge es g startId destId = Some g'"
    and "DynamicGrid_getCurrentEdgeCount g nodeId = Some c" and "DynamicGrid_getCurrentEdgeCount g' nodeId = Some c'"
  shows "c' \<le> c"
  using assms
  by (auto simp: DynamicGrid_removeBackwardsEdge_def DynamicGrid_getCurrentEdgeCount_def aget_def aset_def nth_list_update
    bind_eq_Some_conv split: if_splits)

text \<open>
  The loop of \<open>removeNode\<close> reads the count and the row of the node anew in every pass, as they are
  static fields. It ends because no pass increases the count.
\<close>

function DynamicGrid_removeEdges :: "Edges \<Rightarrow> int \<Rightarrow> int \<Rightarrow> DynamicGrid \<Rightarrow> DynamicGrid option" where
  "DynamicGrid_removeEdges es nodeId i g =
     (case DynamicGrid_getCurrentEdgeCount g nodeId of None \<Rightarrow> None
      | Some edgeCount \<Rightarrow>
        if i < edgeCount then
          (case (do {
             row \<leftarrow> DynamicGrid_getCurrentEdges g nodeId;
             e \<leftarrow> rowget row i;
             d \<leftarrow> Edges_getDest es e;
             DynamicGrid_removeBackwardsEdge es g nodeId d
           }) of None \<Rightarrow> None | Some g' \<Rightarrow> DynamicGrid_removeEdges es nodeId (i + 1) g')
        else Some g)"
  by pat_completeness auto
termination
proof (relation "measure (\<lambda>(es, nodeId, i, g). nat (the (DynamicGrid_getCurrentEdgeCount g nodeId) + 1 - i))", goal_cases)
  case (2 es nodeId i g c g')
  from 2(3) obtain d where d: "DynamicGrid_removeBackwardsEdge es g nodeId d = Some g'" by (auto simp: bind_eq_Some_conv)
  have "\<exists>c'. DynamicGrid_getCurrentEdgeCount g' nodeId = Some c'"
    using d 2(1) by (auto simp: DynamicGrid_removeBackwardsEdge_def DynamicGrid_getCurrentEdgeCount_def aget_def aset_def
      bind_eq_Some_conv split: if_splits)
  with removeBackwardsEdge_count[OF d 2(1)] 2(1,2) show ?case by auto
qed simp

declare DynamicGrid_removeEdges.simps [simp del]

definition DynamicGrid_removeNode :: "Edges \<Rightarrow> DynamicGrid \<Rightarrow> int \<Rightarrow> DynamicGrid option" where
  "DynamicGrid_removeNode es g nodeId = do {
     g \<leftarrow> DynamicGrid_removeEdges es nodeId 0 g;
     counts \<leftarrow> aset (dg_currentEdgeCount g) nodeId 0;
     rows \<leftarrow> aset (dg_currentEdgeIds g) nodeId None;
     Some (g\<lparr>dg_currentEdgeIds := rows, dg_currentEdgeCount := counts\<rparr>)
   }"

text \<open>
  \<open>importFmiFile\<close> reads the file with the same code as \<open>Grid.importFmiFile\<close>, \<open>fmi_parse\<close>; a node
  has room for four edges.
\<close>

definition DynamicGrid_sortEdges :: "int \<Rightarrow> int \<Rightarrow> int list \<Rightarrow> (int list list \<times> int list) option" where
  "DynamicGrid_sortEdges noNodes noEdges startNode = do {
     sortedEdges \<leftarrow> newArray noNodes (replicate 4 0);
     edgeCounts \<leftarrow> newArray noNodes 0;
     for_range 0 noEdges (\<lambda>i (sortedEdges, edgeCounts). do {
       start \<leftarrow> aget startNode i;
       row \<leftarrow> aget sortedEdges start;
       count \<leftarrow> aget edgeCounts start;
       row \<leftarrow> aset row count i;
       sortedEdges \<leftarrow> aset sortedEdges start row;
       edgeCounts \<leftarrow> aset edgeCounts start (count + 1);
       Some (sortedEdges, edgeCounts)
     }) (sortedEdges, edgeCounts)
   }"

definition DynamicGrid_importFmiFile ::
    "(adjacence_map \<Rightarrow> adjacence_map) \<Rightarrow> fmi_line list \<Rightarrow> Nodes \<times> Edges \<times> DynamicGrid \<Rightarrow> (Nodes \<times> Edges \<times> DynamicGrid) option" where
  "DynamicGrid_importFmiFile entryOrder file = (\<lambda>(ns, es, g). do {
     (noNodes, nodeList, noEdges, edgeList) \<leftarrow> fmi_parse entryOrder file;
     latitude \<leftarrow> fmi_column noNodes tn_latitude nodeList;
     longitude \<leftarrow> fmi_column noNodes tn_longitude nodeList;
     let ns = ns\<lparr>no_latitude := Some latitude, no_longitude := Some longitude\<rparr>;
     ns \<leftarrow> Nodes_initializeLvls ns noNodes;
     startNode \<leftarrow> fmi_column noEdges te_startNode edgeList;
     destNode \<leftarrow> fmi_column noEdges te_destNode edgeList;
     distance \<leftarrow> fmi_column noEdges te_dist edgeList;
     let es = es\<lparr>eg_originalEdgeStart := startNode, eg_originalEdgeDest := destNode, eg_originalEdgeDist := distance\<rparr>;
     es \<leftarrow> Edges_initializeForShortcutEdges es noEdges;
     (sortedEdges, edgeCounts) \<leftarrow> DynamicGrid_sortEdges noNodes noEdges startNode;
     Some (ns, es, DynamicGrid_initializeEdges g sortedEdges edgeCounts)
   })"

section \<open>Labels\<close>

text \<open>The row of a node is \<open>null\<close> until its labels are calculated.\<close>

record Labels =
  lb_labelNodes :: "int list option list"
  lb_labelEdges :: "int list option list"
  lb_labelDist :: "int list option list"

definition Labels_initialize :: "int \<Rightarrow> Labels option" where
  "Labels_initialize nodeCount = do {
     rows \<leftarrow> newArray nodeCount None;
     Some \<lparr>lb_labelNodes = rows, lb_labelEdges = rows, lb_labelDist = rows\<rparr>
   }"

definition Labels_getLabels :: "Labels \<Rightarrow> int \<Rightarrow> int list option option" where
  "Labels_getLabels L nodeId = aget (lb_labelNodes L) nodeId"

definition Labels_getDist :: "Labels \<Rightarrow> int \<Rightarrow> int list option option" where
  "Labels_getDist L nodeId = aget (lb_labelDist L) nodeId"

definition Labels_addLabels :: "Labels \<Rightarrow> int \<Rightarrow> int list \<Rightarrow> int list \<Rightarrow> int list \<Rightarrow> Labels option" where
  "Labels_addLabels L nodeId labelIds edgeIds dists = do {
     nodes \<leftarrow> aset (lb_labelNodes L) nodeId (Some labelIds);
     edges \<leftarrow> aset (lb_labelEdges L) nodeId (Some edgeIds);
     distances \<leftarrow> aset (lb_labelDist L) nodeId (Some dists);
     Some \<lparr>lb_labelNodes = nodes, lb_labelEdges = edges, lb_labelDist = distances\<rparr>
   }"

section \<open>The stored objects\<close>

record CHData =
  ch_edges :: Edges
  ch_nodes :: Nodes
  ch_grid :: DynamicGrid

definition CHData_new :: "Nodes \<Rightarrow> Edges \<Rightarrow> DynamicGrid \<Rightarrow> CHData" where
  "CHData_new ns es g = \<lparr>
     ch_edges = \<lparr>eg_originalEdgeStart = eg_originalEdgeStart es, eg_originalEdgeDest = eg_originalEdgeDest es,
       eg_originalEdgeDist = eg_originalEdgeDist es, eg_numOfOriginalEdges = eg_numOfOriginalEdges es,
       eg_shortcutEdgeStart = eg_shortcutEdgeStart es, eg_shortcutEdgeDest = eg_shortcutEdgeDest es,
       eg_shortcutEdgeDist = eg_shortcutEdgeDist es, eg_shortcutEdgeParts = eg_shortcutEdgeParts es,
       eg_nextShortcutId = eg_nextShortcutId es, eg_shortcutEdgeSizeIncrease = eg_shortcutEdgeSizeIncrease es\<rparr>,
     ch_nodes = \<lparr>no_latitude = no_latitude ns, no_longitude = no_longitude ns, no_levels = no_levels ns\<rparr>,
     ch_grid = \<lparr>dg_currentEdgeIds = dg_currentEdgeIds g, dg_currentEdgeCount = dg_currentEdgeCount g,
       dg_allEdgeIds = dg_allEdgeIds g, dg_allEdgeCount = dg_allEdgeCount g\<rparr>\<rparr>"

definition CHData_setData :: "CHData \<Rightarrow> Nodes \<times> Edges \<times> DynamicGrid \<Rightarrow> Nodes \<times> Edges \<times> DynamicGrid" where
  "CHData_setData d = (\<lambda>(ns, es, g).
     (ns\<lparr>no_latitude := no_latitude (ch_nodes d), no_longitude := no_longitude (ch_nodes d),
         no_levels := no_levels (ch_nodes d)\<rparr>,
      es\<lparr>eg_originalEdgeStart := eg_originalEdgeStart (ch_edges d), eg_originalEdgeDest := eg_originalEdgeDest (ch_edges d),
         eg_originalEdgeDist := eg_originalEdgeDist (ch_edges d), eg_numOfOriginalEdges := eg_numOfOriginalEdges (ch_edges d),
         eg_shortcutEdgeStart := eg_shortcutEdgeStart (ch_edges d), eg_shortcutEdgeDest := eg_shortcutEdgeDest (ch_edges d),
         eg_shortcutEdgeDist := eg_shortcutEdgeDist (ch_edges d), eg_shortcutEdgeParts := eg_shortcutEdgeParts (ch_edges d),
         eg_nextShortcutId := eg_nextShortcutId (ch_edges d),
         eg_shortcutEdgeSizeIncrease := eg_shortcutEdgeSizeIncrease (ch_edges d)\<rparr>,
      g\<lparr>dg_currentEdgeIds := dg_currentEdgeIds (ch_grid d), dg_currentEdgeCount := dg_currentEdgeCount (ch_grid d),
         dg_allEdgeIds := dg_allEdgeIds (ch_grid d), dg_allEdgeCount := dg_allEdgeCount (ch_grid d)\<rparr>))"

definition CHData_readData :: "CHData option \<Rightarrow> Nodes \<times> Edges \<times> DynamicGrid \<Rightarrow> bool \<times> Nodes \<times> Edges \<times> DynamicGrid" where
  "CHData_readData file s = (case file of None \<Rightarrow> (False, s) | Some d \<Rightarrow> (True, CHData_setData d s))"

definition CHData_storeData :: "Nodes \<times> Edges \<times> DynamicGrid \<Rightarrow> CHData option" where
  "CHData_storeData = (\<lambda>(ns, es, g). Some (CHData_new ns es g))"

record TmpLabelData =
  tl_labelNodes :: "int list option list"
  tl_labelEdges :: "int list option list"
  tl_labelDist :: "int list option list"

definition TmpLabelData_storeData :: "Labels \<Rightarrow> TmpLabelData option" where
  "TmpLabelData_storeData L =
     Some \<lparr>tl_labelNodes = lb_labelNodes L, tl_labelEdges = lb_labelEdges L, tl_labelDist = lb_labelDist L\<rparr>"

definition TmpLabelData_readData :: "TmpLabelData option \<Rightarrow> Labels \<Rightarrow> bool \<times> Labels" where
  "TmpLabelData_readData file L = (case file of None \<Rightarrow> (False, L)
   | Some d \<Rightarrow> (True, L\<lparr>lb_labelNodes := tl_labelNodes d, lb_labelEdges := tl_labelEdges d, lb_labelDist := tl_labelDist d\<rparr>))"

section \<open>The data of the router\<close>

definition HubLEdges_initialize :: "Edges \<Rightarrow> HubLEdges option" where
  "HubLEdges_initialize es = do {
     let edgeCount = eg_nextShortcutId es;
     dest \<leftarrow> newArray edgeCount 0;
     distance \<leftarrow> newArray edgeCount 0;
     let originalEdgeCount = eg_numOfOriginalEdges es;
     let shortcutCount = edgeCount - originalEdgeCount;
     parts \<leftarrow> newArray (shortcutCount * 2) 0;
     dest \<leftarrow> arraycopy (eg_originalEdgeDest es) 0 dest 0 originalEdgeCount;
     distance \<leftarrow> arraycopy (eg_originalEdgeDist es) 0 distance 0 originalEdgeCount;
     dest \<leftarrow> arraycopy (eg_shortcutEdgeDest es) 0 dest originalEdgeCount (edgeCount - originalEdgeCount);
     distance \<leftarrow> arraycopy (eg_shortcutEdgeDist es) 0 distance originalEdgeCount (edgeCount - originalEdgeCount);
     parts \<leftarrow> arraycopy (eg_shortcutEdgeParts es) 0 parts 0 (shortcutCount * 2);
     Some \<lparr>he_dest = dest, he_dist = distance, he_firstShortcutIdx = originalEdgeCount, he_shortcutParts = parts\<rparr>
   }"

text \<open>
  The levels are not nullable in \<open>HubLNodes\<close>: a missing level array is an exception here, the
  source throws at its first access, in \<open>initEdgeInfo\<close>.
\<close>

definition HubLNodes_initNodeData :: "HubLNodes \<Rightarrow> Nodes \<Rightarrow> (HubLNodes \<times> Nodes) option" where
  "HubLNodes_initNodeData hn ns = do {
     levels \<leftarrow> no_levels ns;
     Some (hn\<lparr>hn_longitudes := no_longitude ns, hn_latitudes := no_latitude ns, hn_levels := levels\<rparr>,
       ns\<lparr>no_longitude := None, no_latitude := None, no_levels := None\<rparr>)
   }"

text \<open>The loop that keeps the edges of one node to higher levels, with its count of kept edges.\<close>

function HubLNodes_keepUpward :: "Edges \<Rightarrow> int list \<Rightarrow> int \<Rightarrow> int list \<Rightarrow> int \<Rightarrow> int \<Rightarrow> int \<Rightarrow> (int list \<times> int \<times> int) option" where
  "HubLNodes_keepUpward es levels nodeLvl edgeArray edgeCount j totalEdgeLen =
     (if j < edgeCount then
        (case (do { e \<leftarrow> aget edgeArray j; d \<leftarrow> Edges_getDest es e; aget levels d }) of None \<Rightarrow> None
         | Some destLvl \<Rightarrow>
           if destLvl \<le> nodeLvl then
             (case arraycopy edgeArray (j + 1) edgeArray j (edgeCount - 1 - j) of None \<Rightarrow> None
              | Some edgeArray' \<Rightarrow> HubLNodes_keepUpward es levels nodeLvl edgeArray' (edgeCount - 1) j totalEdgeLen)
           else HubLNodes_keepUpward es levels nodeLvl edgeArray edgeCount (j + 1) (totalEdgeLen + 1))
      else Some (edgeArray, edgeCount, totalEdgeLen))"
  by pat_completeness auto
termination by (relation "measure (\<lambda>(es, levels, nodeLvl, edgeArray, edgeCount, j, totalEdgeLen). nat (edgeCount - j))") auto

declare HubLNodes_keepUpward.simps [simp del]

definition HubLNodes_initEdgeInfo :: "HubLNodes \<Rightarrow> Edges \<Rightarrow> DynamicGrid \<Rightarrow> (HubLNodes \<times> DynamicGrid) option" where
  "HubLNodes_initEdgeInfo hn es g = (if hn_longitudes hn = None then None else do {
     grid \<leftarrow> dg_allEdgeIds g;
     edgeCounts \<leftarrow> dg_allEdgeCount g;
     let g = g\<lparr>dg_allEdgeIds := None, dg_allEdgeCount := None\<rparr>;
     let nodeCount = int (length edgeCounts);
     (currentGrid, edgeCounts, totalEdgeLen) \<leftarrow> for_range 0 nodeCount (\<lambda>i (currentGrid, edgeCounts, totalEdgeLen). do {
         nodeLvl \<leftarrow> aget (hn_levels hn) i;
         if nodeLvl \<ge> hn_hlLevel hn then do {
           currentGrid \<leftarrow> aset currentGrid i None;
           edgeCounts \<leftarrow> aset edgeCounts i 0;
           Some (currentGrid, edgeCounts, totalEdgeLen)
         } else do {
           edgeCount \<leftarrow> aget edgeCounts i;
           row \<leftarrow> aget currentGrid i;
           row \<leftarrow> row;
           (row, edgeCount, totalEdgeLen) \<leftarrow> HubLNodes_keepUpward es (hn_levels hn) nodeLvl row edgeCount 0 totalEdgeLen;
           currentGrid \<leftarrow> aset currentGrid i (Some row);
           edgeCounts \<leftarrow> aset edgeCounts i edgeCount;
           Some (currentGrid, edgeCounts, totalEdgeLen)
         }
       }) (map Some grid, edgeCounts, 0);
     edgesOffset \<leftarrow> newArray (nodeCount + 1) 0;
     edges \<leftarrow> newArray totalEdgeLen 0;
     (edgesOffset, edges, nextOffset) \<leftarrow> for_range 0 nodeCount (\<lambda>i (edgesOffset, edges, nextOffset). do {
         nextEdgeCount \<leftarrow> aget edgeCounts i;
         edgesOffset \<leftarrow> aset edgesOffset i nextOffset;
         if nextEdgeCount \<noteq> 0 then do {
           row \<leftarrow> aget currentGrid i;
           row \<leftarrow> row;
           edges \<leftarrow> arraycopy row 0 edges nextOffset nextEdgeCount;
           Some (edgesOffset, edges, nextOffset + nextEdgeCount)
         } else Some (edgesOffset, edges, nextOffset)
       }) (edgesOffset, edges, 0);
     edgesOffset \<leftarrow> aset edgesOffset nodeCount nextOffset;
     Some (hn\<lparr>hn_edgesOffset := edgesOffset, hn_edges := edges\<rparr>, g)
   })"

text \<open>
  \<open>initLabelInfo\<close> writes the labels to a temporary file, one number per line, and reads them back;
  the file is the list of its numbers. The static arrays of \<open>Labels\<close> are not read again after it.
\<close>

definition HubLNodes_writeLabels :: "Labels \<Rightarrow> (int list \<times> int \<times> int list) option" where
  "HubLNodes_writeLabels L = do {
     let nodeCount = int (length (lb_labelNodes L));
     labelOffset \<leftarrow> newArray (nodeCount + 1) 0;
     (labelOffset, nextOffset, file) \<leftarrow> for_range 0 nodeCount (\<lambda>i (labelOffset, nextOffset, file). do {
         labelOffset \<leftarrow> aset labelOffset i nextOffset;
         nodes \<leftarrow> aget (lb_labelNodes L) i;
         (case nodes of None \<Rightarrow> Some (labelOffset, nextOffset, file)
          | Some nodes \<Rightarrow> do {
              edges \<leftarrow> aget (lb_labelEdges L) i;
              distances \<leftarrow> aget (lb_labelDist L) i;
              file \<leftarrow> for_range 0 (int (length nodes)) (\<lambda>j file. do {
                  n \<leftarrow> aget nodes j;
                  e \<leftarrow> rowget edges j;
                  d \<leftarrow> rowget distances j;
                  Some (file @ [n, e, d])
                }) file;
              Some (labelOffset, nextOffset + int (length nodes), file)
            })
       }) (labelOffset, 0, []);
     labelOffset \<leftarrow> aset labelOffset nodeCount nextOffset;
     Some (labelOffset, nextOffset, file)
   }"

definition HubLNodes_readLabels :: "int \<Rightarrow> int list \<Rightarrow> (int list \<times> int list \<times> int list) option" where
  "HubLNodes_readLabels nextOffset file = do {
     labelNode \<leftarrow> newArray (nextOffset + 1) 0;
     labelEdge \<leftarrow> newArray (nextOffset + 1) 0;
     labelDist \<leftarrow> newArray (nextOffset + 1) 0;
     (labelNode, labelEdge, labelDist, file) \<leftarrow> for_range 0 nextOffset (\<lambda>i (labelNode, labelEdge, labelDist, file).
       (case file of n # e # d # file' \<Rightarrow> do {
          labelNode \<leftarrow> aset labelNode i n;
          labelEdge \<leftarrow> aset labelEdge i e;
          labelDist \<leftarrow> aset labelDist i d;
          Some (labelNode, labelEdge, labelDist, file')
        }
        | _ \<Rightarrow> None)) (labelNode, labelEdge, labelDist, file);
     labelNode \<leftarrow> aset labelNode nextOffset (-1);
     labelEdge \<leftarrow> aset labelEdge nextOffset (-1);
     labelDist \<leftarrow> aset labelDist nextOffset (-1);
     Some (labelNode, labelEdge, labelDist)
   }"

definition HubLNodes_initLabelInfo :: "HubLNodes \<Rightarrow> Labels \<Rightarrow> HubLNodes option" where
  "HubLNodes_initLabelInfo hn L = do {
     (labelOffset, nextOffset, file) \<leftarrow> HubLNodes_writeLabels L;
     (labelNode, labelEdge, labelDist) \<leftarrow> HubLNodes_readLabels nextOffset file;
     Some (hn\<lparr>hn_labelOffset := labelOffset, hn_labelNode := labelNode, hn_labelEdge := labelEdge,
       hn_labelDist := labelDist\<rparr>)
   }"

section \<open>Reading the data\<close>

text \<open>The level of a node, the ends and the length of an edge, the edges a node has now or had at any time.\<close>

definition node_lvl :: "Nodes \<Rightarrow> int \<Rightarrow> int" where
  "node_lvl ns v = the (no_levels ns) ! nat v"

definition edge_dest :: "Edges \<Rightarrow> int \<Rightarrow> int" where
  "edge_dest es e = the (Edges_getDest es e)"

definition edge_dist :: "Edges \<Rightarrow> int \<Rightarrow> int" where
  "edge_dist es e = the (Edges_getDist es e)"

definition all_edges :: "DynamicGrid \<Rightarrow> int \<Rightarrow> int list" where
  "all_edges g v = take (nat (the (dg_allEdgeCount g) ! nat v)) (the (dg_allEdgeIds g) ! nat v)"

definition cur_edges :: "DynamicGrid \<Rightarrow> int \<Rightarrow> int list" where
  "cur_edges g v = (case dg_currentEdgeIds g ! nat v of None \<Rightarrow> []
     | Some row \<Rightarrow> take (nat (dg_currentEdgeCount g ! nat v)) row)"

definition cur_adj :: "Edges \<Rightarrow> DynamicGrid \<Rightarrow> int \<Rightarrow> (int \<times> int) list" where
  "cur_adj es g v = map (\<lambda>e. (edge_dest es e, edge_dist es e)) (cur_edges g v)"

end
