(* ===== verification/IntCollections.thy ===== *)
theory IntCollections
  imports Prelude
begin

text \<open>
  The collections of primitive ints under \<open>utils/\<close>: \<open>IntArrayList\<close>, \<open>IntStack\<close>,
  \<open>IntArraySet\<close> and \<open>OrderedIntSet\<close>. Each class is a record of its fields and one
  definition per method, growth of the backing array included; a method that reads or
  writes the array returns an \<open>option\<close>, \<open>None\<close> for the exception the JVM throws.

  The interfaces the rest of the program relies on are the locales \<open>int_store\<close> (an
  append-only indexed store), \<open>int_deque\<close> (a stack that can also be emptied from its
  bottom) and \<open>int_set\<close>; the classes are interpreted in them.
\<close>

section \<open>The interfaces\<close>

text \<open>A growing store of ints: the contract of \<open>add\<close>, \<open>get\<close>, the length and \<open>clear\<close>.\<close>

locale int_store =
  fixes inv :: "'s \<Rightarrow> bool"
    and contents :: "'s \<Rightarrow> int list"
    and add :: "'s \<Rightarrow> int \<Rightarrow> 's option"
    and get :: "'s \<Rightarrow> int \<Rightarrow> int option"
    and len :: "'s \<Rightarrow> int"
    and clear :: "'s \<Rightarrow> 's"
  assumes add_ok: "inv s \<Longrightarrow> \<exists>s'. add s x = Some s' \<and> inv s' \<and> contents s' = contents s @ [x]"
    and get_eq: "inv s \<Longrightarrow> get s i = aget (contents s) i"
    and len_eq: "inv s \<Longrightarrow> len s = int (length (contents s))"
    and clear_ok: "inv s \<Longrightarrow> inv (clear s) \<and> contents (clear s) = []"
begin

lemma add_all:
  assumes "inv s"
  shows "\<exists>s'. for_list xs (\<lambda>x s. add s x) s = Some s' \<and> inv s' \<and> contents s' = contents s @ xs"
  using assms
proof (induction xs arbitrary: s)
  case Nil
  then show ?case by simp
next
  case (Cons x xs)
  obtain s1 where s1: "add s x = Some s1" "inv s1" "contents s1 = contents s @ [x]"
    using add_ok[OF Cons.prems] by blast
  with Cons.IH[of s1] show ?case by auto
qed

lemma get_after_add:
  assumes "inv s" "add s x = Some s'"
  shows "get s' (int (length (contents s))) = Some x"
    and "\<And>i. i < int (length (contents s)) \<Longrightarrow> get s' i = get s i"
  using add_ok[OF assms(1), of x] assms
  by (auto simp: get_eq aget_def nth_append nat_less_iff)

lemma get_after_clear: "inv s \<Longrightarrow> get (clear s) i = None"
  using clear_ok[of s] by (simp add: get_eq aget_def)

end

text \<open>A stack that is also read from its bottom, as \<open>IntStack\<close> is.\<close>

locale int_deque =
  fixes inv :: "'s \<Rightarrow> bool"
    and contents :: "'s \<Rightarrow> int list"
    and push :: "'s \<Rightarrow> int \<Rightarrow> 's option"
    and pop :: "'s \<Rightarrow> (int \<times> 's) option"
    and popFifo :: "'s \<Rightarrow> (int \<times> 's) option"
    and isEmpty :: "'s \<Rightarrow> bool"
    and clear :: "'s \<Rightarrow> 's"
  assumes push_ok: "inv s \<Longrightarrow> \<exists>s'. push s x = Some s' \<and> inv s' \<and> contents s' = contents s @ [x]"
    and pop_ok: "inv s \<Longrightarrow> contents s = xs @ [x] \<Longrightarrow>
          \<exists>s'. pop s = Some (x, s') \<and> inv s' \<and> contents s' = xs"
    and popFifo_ok: "inv s \<Longrightarrow> contents s = x # xs \<Longrightarrow>
          \<exists>s'. popFifo s = Some (x, s') \<and> inv s' \<and> contents s' = xs"
    and isEmpty_iff: "inv s \<Longrightarrow> isEmpty s \<longleftrightarrow> contents s = []"
    and clear_ok: "inv s \<Longrightarrow> inv (clear s) \<and> contents (clear s) = []"
begin

lemma push_pop:
  assumes "inv s"
  shows "\<exists>s' s''. push s x = Some s' \<and> pop s' = Some (x, s'') \<and> inv s'' \<and> contents s'' = contents s"
  using push_ok[OF assms, of x] pop_ok by blast

lemma push_all:
  assumes "inv s"
  shows "\<exists>s'. for_list xs (\<lambda>x s. push s x) s = Some s' \<and> inv s' \<and> contents s' = contents s @ xs"
  using assms
proof (induction xs arbitrary: s)
  case Nil
  then show ?case by simp
next
  case (Cons x xs)
  obtain s1 where s1: "push s x = Some s1" "inv s1" "contents s1 = contents s @ [x]"
    using push_ok[OF Cons.prems] by blast
  with Cons.IH[of s1] show ?case by auto
qed

end

text \<open>A set of ints below \<open>Integer.MAX_VALUE\<close>.\<close>

locale int_set =
  fixes inv :: "'s \<Rightarrow> bool"
    and elems :: "'s \<Rightarrow> int set"
    and contains :: "'s \<Rightarrow> int \<Rightarrow> bool option"
    and add :: "'s \<Rightarrow> int \<Rightarrow> 's option"
  assumes contains_eq: "inv s \<Longrightarrow> x < MAX_VALUE \<Longrightarrow> contains s x = Some (x \<in> elems s)"
    and add_ok: "inv s \<Longrightarrow> x < MAX_VALUE \<Longrightarrow>
          \<exists>s'. add s x = Some s' \<and> inv s' \<and> elems s' = insert x (elems s)"
begin

lemma contains_after_add:
  assumes "inv s" "x < MAX_VALUE" "y < MAX_VALUE" "add s x = Some s'"
  shows "contains s' y = Some (y = x \<or> y \<in> elems s)"
  using add_ok[OF assms(1,2)] assms contains_eq by auto

end

section \<open>IntArrayList\<close>

record IntArrayList =
  al_elements :: "int list"
  al_elementCount :: int
  al_sizeIncrease :: int

definition IntArrayList_new :: "int \<Rightarrow> IntArrayList option" where
  "IntArrayList_new sz = do {
     elements \<leftarrow> newArray sz 0;
     Some \<lparr>al_elements = elements, al_elementCount = 0, al_sizeIncrease = sz\<rparr>
   }"

definition IntArrayList_get :: "IntArrayList \<Rightarrow> int \<Rightarrow> int option" where
  "IntArrayList_get s idx =
     (if idx \<ge> al_elementCount s then None else aget (al_elements s) idx)"

definition IntArrayList_grow :: "IntArrayList \<Rightarrow> IntArrayList option" where
  "IntArrayList_grow s = do {
     let oldLen = int (length (al_elements s));
     elements \<leftarrow> copyOf (al_elements s) (oldLen + al_sizeIncrease s) 0;
     Some (s\<lparr>al_elements := elements\<rparr>)
   }"

definition IntArrayList_add :: "IntArrayList \<Rightarrow> int \<Rightarrow> IntArrayList option" where
  "IntArrayList_add s toAdd = do {
     s \<leftarrow> (if al_elementCount s = int (length (al_elements s)) then IntArrayList_grow s else Some s);
     elements \<leftarrow> aset (al_elements s) (al_elementCount s) toAdd;
     Some (s\<lparr>al_elements := elements, al_elementCount := al_elementCount s + 1\<rparr>)
   }"

definition IntArrayList_getLen :: "IntArrayList \<Rightarrow> int" where
  "IntArrayList_getLen s = al_elementCount s"

definition IntArrayList_clear :: "IntArrayList \<Rightarrow> IntArrayList" where
  "IntArrayList_clear s = s\<lparr>al_elementCount := 0\<rparr>"

definition al_inv :: "IntArrayList \<Rightarrow> bool" where
  "al_inv s \<longleftrightarrow> 0 \<le> al_elementCount s \<and> al_elementCount s \<le> int (length (al_elements s)) \<and>
     0 < al_sizeIncrease s"

definition al_contents :: "IntArrayList \<Rightarrow> int list" where
  "al_contents s = take (nat (al_elementCount s)) (al_elements s)"

text \<open>Writing the next free slot, the step shared by every append.\<close>

lemma take_append_slot:
  assumes "n < length xs"
  shows "take (Suc n) (xs[n := x]) = take n xs @ [x]"
  using assms by (simp add: take_Suc_conv_app_nth)

lemma IntArrayList_new_ok:
  "0 < n \<Longrightarrow> \<exists>s. IntArrayList_new n = Some s \<and> al_inv s \<and> al_contents s = []"
  by (simp add: IntArrayList_new_def newArray_def al_inv_def al_contents_def)

lemma IntArrayList_grow_ok:
  assumes "al_inv s"
  shows "\<exists>s'. IntArrayList_grow s = Some s' \<and> al_inv s' \<and> al_contents s' = al_contents s \<and>
     al_elementCount s' = al_elementCount s \<and> length (al_elements s) < length (al_elements s')"
  using assms by (auto simp: IntArrayList_grow_def java al_inv_def al_contents_def Let_def)

lemma IntArrayList_add_ok:
  assumes "al_inv s"
  shows "\<exists>s'. IntArrayList_add s x = Some s' \<and> al_inv s' \<and> al_contents s' = al_contents s @ [x]"
proof -
  obtain s1 where s1: "(if al_elementCount s = int (length (al_elements s)) then IntArrayList_grow s else Some s) = Some s1"
    "al_inv s1" "al_contents s1 = al_contents s" "al_elementCount s1 < int (length (al_elements s1))"
  proof (cases "al_elementCount s = int (length (al_elements s))")
    case True
    then show thesis using that IntArrayList_grow_ok[OF assms] by auto
  next
    case False
    then show thesis using that[of s] assms by (simp add: al_inv_def)
  qed
  define n where "n = nat (al_elementCount s1)"
  have n: "al_elementCount s1 = int n" "n < length (al_elements s1)"
    using s1 by (auto simp: n_def al_inv_def)
  then have "take (Suc n) ((al_elements s1)[n := x]) = take n (al_elements s1) @ [x]"
    by (simp add: take_append_slot)
  with s1 n show ?thesis
    by (simp add: IntArrayList_add_def java al_inv_def al_contents_def nat_add_distrib)
qed

lemma IntArrayList_get_eq: "al_inv s \<Longrightarrow> IntArrayList_get s i = aget (al_contents s) i"
  by (auto simp: IntArrayList_get_def aget_def al_inv_def al_contents_def)

lemma IntArrayList_getLen_eq: "al_inv s \<Longrightarrow> IntArrayList_getLen s = int (length (al_contents s))"
  by (auto simp: IntArrayList_getLen_def al_inv_def al_contents_def)

lemma IntArrayList_clear_ok:
  "al_inv s \<Longrightarrow> al_inv (IntArrayList_clear s) \<and> al_contents (IntArrayList_clear s) = []"
  by (simp add: IntArrayList_clear_def al_inv_def al_contents_def)

interpretation arrayList: int_store al_inv al_contents IntArrayList_add IntArrayList_get
  IntArrayList_getLen IntArrayList_clear
  by unfold_locales
    (simp_all add: IntArrayList_add_ok IntArrayList_get_eq IntArrayList_getLen_eq IntArrayList_clear_ok)

section \<open>IntStack\<close>

record IntStack =
  st_elements :: "int list"
  st_nextIdx :: int
  st_fifoIdx :: int
  st_sizeIncrease :: int

definition IntStack_new :: "int \<Rightarrow> IntStack option" where
  "IntStack_new sz = do {
     elements \<leftarrow> newArray sz 0;
     Some \<lparr>st_elements = elements, st_nextIdx = 0, st_fifoIdx = 0, st_sizeIncrease = sz\<rparr>
   }"

definition IntStack_clear :: "IntStack \<Rightarrow> IntStack" where
  "IntStack_clear s = s\<lparr>st_nextIdx := 0, st_fifoIdx := 0\<rparr>"

definition IntStack_popFifo :: "IntStack \<Rightarrow> (int \<times> IntStack) option" where
  "IntStack_popFifo s = do {
     retVal \<leftarrow> aget (st_elements s) (st_fifoIdx s);
     Some (retVal, s\<lparr>st_fifoIdx := st_fifoIdx s + 1\<rparr>)
   }"

definition IntStack_pop :: "IntStack \<Rightarrow> (int \<times> IntStack) option" where
  "IntStack_pop s = do {
     let s = s\<lparr>st_nextIdx := st_nextIdx s - 1\<rparr>;
     retVal \<leftarrow> aget (st_elements s) (st_nextIdx s);
     Some (retVal, s)
   }"

definition IntStack_grow :: "IntStack \<Rightarrow> IntStack option" where
  "IntStack_grow s = do {
     let oldLen = int (length (st_elements s));
     elements \<leftarrow> copyOf (st_elements s) (oldLen + st_sizeIncrease s) 0;
     Some (s\<lparr>st_elements := elements\<rparr>)
   }"

definition IntStack_push :: "IntStack \<Rightarrow> int \<Rightarrow> IntStack option" where
  "IntStack_push s toAdd = do {
     s \<leftarrow> (if st_nextIdx s = int (length (st_elements s)) then IntStack_grow s else Some s);
     elements \<leftarrow> aset (st_elements s) (st_nextIdx s) toAdd;
     Some (s\<lparr>st_elements := elements, st_nextIdx := st_nextIdx s + 1\<rparr>)
   }"

definition IntStack_isEmpty :: "IntStack \<Rightarrow> bool" where
  "IntStack_isEmpty s \<longleftrightarrow> st_nextIdx s = st_fifoIdx s"

definition st_inv :: "IntStack \<Rightarrow> bool" where
  "st_inv s \<longleftrightarrow> 0 \<le> st_fifoIdx s \<and> st_fifoIdx s \<le> st_nextIdx s \<and>
     st_nextIdx s \<le> int (length (st_elements s)) \<and> 0 < st_sizeIncrease s"

definition st_contents :: "IntStack \<Rightarrow> int list" where
  "st_contents s = drop (nat (st_fifoIdx s)) (take (nat (st_nextIdx s)) (st_elements s))"

lemma IntStack_new_ok:
  "0 < n \<Longrightarrow> \<exists>s. IntStack_new n = Some s \<and> st_inv s \<and> st_contents s = []"
  by (simp add: IntStack_new_def newArray_def st_inv_def st_contents_def)

lemma length_st_contents:
  "st_inv s \<Longrightarrow> length (st_contents s) = nat (st_nextIdx s) - nat (st_fifoIdx s)"
  by (auto simp: st_inv_def st_contents_def)

lemma IntStack_push_ok:
  assumes "st_inv s"
  shows "\<exists>s'. IntStack_push s x = Some s' \<and> st_inv s' \<and> st_contents s' = st_contents s @ [x]"
proof -
  obtain s1 where s1: "(if st_nextIdx s = int (length (st_elements s)) then IntStack_grow s else Some s) = Some s1"
    "st_inv s1" "st_contents s1 = st_contents s" "st_nextIdx s1 < int (length (st_elements s1))"
    using assms by (cases "st_nextIdx s = int (length (st_elements s))")
      (auto simp: IntStack_grow_def java st_inv_def st_contents_def Let_def)
  define n where "n = nat (st_nextIdx s1)"
  have n: "st_nextIdx s1 = int n" "n < length (st_elements s1)" "nat (st_fifoIdx s1) \<le> n"
    using s1 by (auto simp: n_def st_inv_def)
  then have "take (Suc n) ((st_elements s1)[n := x]) = take n (st_elements s1) @ [x]"
    by (simp add: take_append_slot)
  with s1 n show ?thesis
    by (auto simp: IntStack_push_def java st_inv_def st_contents_def nat_add_distrib)
qed

lemma IntStack_pop_ok:
  assumes "st_inv s" "st_contents s = xs @ [x]"
  shows "\<exists>s'. IntStack_pop s = Some (x, s') \<and> st_inv s' \<and> st_contents s' = xs"
proof -
  define n where "n = nat (st_nextIdx s) - 1"
  define f where "f = nat (st_fifoIdx s)"
  have len: "length (st_contents s) = Suc (length xs)" using assms(2) by simp
  have n: "st_nextIdx s = int n + 1" "st_fifoIdx s = int f" "f \<le> n" "n < length (st_elements s)"
    using assms(1) len length_st_contents[OF assms(1)] by (auto simp: n_def f_def st_inv_def)
  have "st_contents s = drop f (take n (st_elements s)) @ [st_elements s ! n]"
    using n by (simp add: st_contents_def take_Suc_conv_app_nth nat_add_distrib)
  then have "xs = drop f (take n (st_elements s))" "x = st_elements s ! n" using assms(2) by auto
  then show ?thesis
    using n assms(1) by (simp add: IntStack_pop_def java Let_def st_inv_def st_contents_def)
qed

lemma IntStack_popFifo_ok:
  assumes "st_inv s" "st_contents s = x # xs"
  shows "\<exists>s'. IntStack_popFifo s = Some (x, s') \<and> st_inv s' \<and> st_contents s' = xs"
proof -
  define n where "n = nat (st_nextIdx s)"
  define f where "f = nat (st_fifoIdx s)"
  have len: "length (st_contents s) = Suc (length xs)" using assms(2) by simp
  have n: "st_nextIdx s = int n" "st_fifoIdx s = int f" "f < n" "n \<le> length (st_elements s)"
    using assms(1) len length_st_contents[OF assms(1)] by (auto simp: n_def f_def st_inv_def)
  have "st_contents s = st_elements s ! f # drop (Suc f) (take n (st_elements s))"
    using n by (simp add: st_contents_def flip: Cons_nth_drop_Suc)
  then have "x = st_elements s ! f" "xs = drop (Suc f) (take n (st_elements s))" using assms(2) by auto
  then show ?thesis
    using n assms(1) by (simp add: IntStack_popFifo_def java st_inv_def st_contents_def nat_add_distrib)
qed

lemma IntStack_isEmpty_iff: "st_inv s \<Longrightarrow> IntStack_isEmpty s \<longleftrightarrow> st_contents s = []"
  by (auto simp: IntStack_isEmpty_def st_inv_def st_contents_def)

lemma IntStack_clear_ok: "st_inv s \<Longrightarrow> st_inv (IntStack_clear s) \<and> st_contents (IntStack_clear s) = []"
  by (simp add: IntStack_clear_def st_inv_def st_contents_def)

interpretation intStack: int_deque st_inv st_contents IntStack_push IntStack_pop IntStack_popFifo
  IntStack_isEmpty IntStack_clear
  by unfold_locales
    (simp_all add: IntStack_push_ok IntStack_pop_ok IntStack_popFifo_ok IntStack_isEmpty_iff
      IntStack_clear_ok)

section \<open>IntArraySet\<close>

record IntArraySet =
  as_elements :: "int list"
  as_elementCount :: int
  as_sizeIncrease :: int

definition IntArraySet_new :: "int \<Rightarrow> int \<Rightarrow> IntArraySet option" where
  "IntArraySet_new sz sizeIncrease = do {
     elements \<leftarrow> newArray sz 0;
     let elements = fillAll elements MAX_VALUE;
     Some \<lparr>as_elements = elements, as_elementCount = 0, as_sizeIncrease = sizeIncrease\<rparr>
   }"

definition IntArraySet_contains :: "IntArraySet \<Rightarrow> int \<Rightarrow> bool option" where
  "IntArraySet_contains s element = do {
     r \<leftarrow> binarySearch (as_elements s) element;
     Some (r \<ge> 0)
   }"

definition IntArraySet_grow :: "IntArraySet \<Rightarrow> IntArraySet option" where
  "IntArraySet_grow s = do {
     let oldLen = int (length (as_elements s));
     elements \<leftarrow> copyOf (as_elements s) (oldLen + as_sizeIncrease s) 0;
     elements \<leftarrow> fillRange elements oldLen (int (length elements)) MAX_VALUE;
     Some (s\<lparr>as_elements := elements\<rparr>)
   }"

definition IntArraySet_add :: "IntArraySet \<Rightarrow> int \<Rightarrow> IntArraySet option" where
  "IntArraySet_add s toAdd = do {
     idx \<leftarrow> binarySearch (as_elements s) toAdd;
     if idx \<ge> 0 then Some s
     else do {
       s \<leftarrow> (if as_elementCount s = int (length (as_elements s)) then IntArraySet_grow s else Some s);
       let idx = (idx + 1) * (-1);
       elements \<leftarrow> arraycopy (as_elements s) idx (as_elements s) (idx + 1) (as_elementCount s - idx);
       elements \<leftarrow> aset elements idx toAdd;
       Some (s\<lparr>as_elements := elements, as_elementCount := as_elementCount s + 1\<rparr>)
     }
   }"

definition as_contents :: "IntArraySet \<Rightarrow> int list" where
  "as_contents s = take (nat (as_elementCount s)) (as_elements s)"

definition as_inv :: "IntArraySet \<Rightarrow> bool" where
  "as_inv s \<longleftrightarrow> 0 \<le> as_elementCount s \<and> as_elementCount s \<le> int (length (as_elements s)) \<and>
     0 < as_sizeIncrease s \<and> padded (as_elements s) (as_contents s)"

abbreviation as_elems :: "IntArraySet \<Rightarrow> int set" where
  "as_elems s \<equiv> set (as_contents s)"

lemma grow_padded:
  assumes "0 \<le> k"
  shows "copyOf a (int (length a) + k) 0 = Some (a @ replicate (nat k) 0)"
    and "fillRange (a @ replicate (nat k) 0) (int (length a)) (int (length (a @ replicate (nat k) (0::int)))) MAX_VALUE
           = Some (a @ replicate (nat k) MAX_VALUE)"
  using assms fillRange_tail[of a "replicate (nat k) (0::int)" MAX_VALUE] by (simp_all add: copyOf_grow)

lemma IntArraySet_new_ok:
  "0 \<le> n \<Longrightarrow> 0 < k \<Longrightarrow> \<exists>s. IntArraySet_new n k = Some s \<and> as_inv s \<and> as_contents s = []"
  by (simp add: IntArraySet_new_def newArray_def as_inv_def as_contents_def Let_def)

lemma as_contents_length: "as_inv s \<Longrightarrow> as_elementCount s = int (length (as_contents s))"
  by (auto simp: as_inv_def as_contents_def)

lemma IntArraySet_grow_ok:
  assumes "as_inv s"
  shows "\<exists>s'. IntArraySet_grow s = Some s' \<and> as_inv s' \<and> as_contents s' = as_contents s \<and>
     length (as_elements s) < length (as_elements s')"
proof -
  have "as_elementCount s \<le> int (length (as_elements s))" "0 \<le> as_elementCount s"
    using assms by (simp_all add: as_inv_def)
  then show ?thesis
    using assms grow_padded[of "as_sizeIncrease s" "as_elements s"]
    by (auto simp: IntArraySet_grow_def Let_def as_inv_def as_contents_def padded_grow)
qed

lemma as_inv_search:
  "as_inv s \<Longrightarrow> x < MAX_VALUE \<Longrightarrow> binarySearch (as_elements s) x =
     Some (if x \<in> as_elems s then int (lpos (as_contents s) x) else - int (lpos (as_contents s) x) - 1)"
  by (rule padded_search) (simp_all add: as_inv_def)

lemma IntArraySet_contains_eq:
  "as_inv s \<Longrightarrow> x < MAX_VALUE \<Longrightarrow> IntArraySet_contains s x = Some (x \<in> as_elems s)"
  by (simp add: IntArraySet_contains_def as_inv_search)

lemma IntArraySet_add_ok:
  assumes "as_inv s" "x < MAX_VALUE"
  shows "\<exists>s'. IntArraySet_add s x = Some s' \<and> as_inv s' \<and> as_elems s' = insert x (as_elems s)"
proof (cases "x \<in> as_elems s")
  case True
  then show ?thesis
    using assms by (auto simp: IntArraySet_add_def as_inv_search)
next
  case False
  obtain s1 where s1: "(if as_elementCount s = int (length (as_elements s)) then IntArraySet_grow s else Some s) = Some s1"
    "as_inv s1" "as_contents s1 = as_contents s" "as_elementCount s1 < int (length (as_elements s1))"
  proof (cases "as_elementCount s = int (length (as_elements s))")
    case True
    obtain s' where "IntArraySet_grow s = Some s'" "as_inv s'" "as_contents s' = as_contents s"
      "length (as_elements s) < length (as_elements s')" using IntArraySet_grow_ok[OF assms(1)] by blast
    then show thesis
      using True that[of s'] as_contents_length[of s'] as_contents_length[OF assms(1)] by simp
  next
    case False
    then show thesis using that[of s] assms by (simp add: as_inv_def)
  qed
  let ?p = "as_contents s" let ?i = "lpos ?p x"
  have cnt: "as_elementCount s1 = int (length ?p)" using as_contents_length[OF s1(2)] s1(3) by simp
  have pad: "padded (as_elements s1) ?p" using s1 by (simp add: as_inv_def)
  have srch: "binarySearch (as_elements s) x = Some (- int ?i - 1)"
    using False assms by (simp add: as_inv_search)
  obtain g a' where g: "arraycopy (as_elements s1) (int ?i) (as_elements s1) (int ?i + 1) (int (length ?p) - int ?i) = Some g"
    "aset g (int ?i) x = Some a'" "length a' = length (as_elements s1)" "padded a' (insert_pos ?p ?i x)"
    using array_insert_padded[OF pad False assms(2)] s1(4) cnt by auto
  let ?s = "s1\<lparr>as_elements := a', as_elementCount := int (length ?p) + 1\<rparr>"
  have "as_contents ?s = insert_pos ?p ?i x"
    using padded_take[OF g(4)] lpos_le[of ?p x] by (simp add: as_contents_def nat_add_distrib)
  moreover have "IntArraySet_add s x = Some ?s"
    using srch s1(1) g cnt by (simp add: IntArraySet_add_def Let_def)
  ultimately show ?thesis using s1 g cnt by (auto simp: as_inv_def)
qed

interpretation arraySet: int_set as_inv as_elems IntArraySet_contains IntArraySet_add
  by unfold_locales (simp_all add: IntArraySet_contains_eq IntArraySet_add_ok)

section \<open>OrderedIntSet\<close>

text \<open>
  The class has two variants. In the ordered one (\<open>orderedBySorting\<close>) the free slots hold
  \<open>Integer.MAX_VALUE\<close> and the elements increase; the unordered one is a plain list whose
  positions are kept in step with an ordered one.
\<close>

record OrderedIntSet =
  os_orderedBySorting :: bool
  os_elements :: "int list"
  os_elementCount :: int
  os_sizeIncrease :: int

definition OrderedIntSet_new :: "bool \<Rightarrow> int \<Rightarrow> int \<Rightarrow> OrderedIntSet option" where
  "OrderedIntSet_new orderedBySorting initialSize sizeIncrease = do {
     elements \<leftarrow> newArray initialSize 0;
     let elements = (if orderedBySorting then fillAll elements MAX_VALUE else elements);
     Some \<lparr>os_orderedBySorting = orderedBySorting, os_elements = elements,
           os_elementCount = 0, os_sizeIncrease = sizeIncrease\<rparr>
   }"

definition OrderedIntSet_grow :: "OrderedIntSet \<Rightarrow> OrderedIntSet option" where
  "OrderedIntSet_grow s = do {
     let oldLen = int (length (os_elements s));
     elements \<leftarrow> copyOf (os_elements s) (oldLen + os_sizeIncrease s) 0;
     elements \<leftarrow> (if os_orderedBySorting s
                  then fillRange elements oldLen (int (length elements)) MAX_VALUE
                  else Some elements);
     Some (s\<lparr>os_elements := elements\<rparr>)
   }"

definition OrderedIntSet_insertTail :: "OrderedIntSet \<Rightarrow> int \<Rightarrow> OrderedIntSet option" where
  "OrderedIntSet_insertTail s toAdd = do {
     s \<leftarrow> (if os_elementCount s = int (length (os_elements s)) then OrderedIntSet_grow s else Some s);
     elements \<leftarrow> aset (os_elements s) (os_elementCount s) toAdd;
     Some (s\<lparr>os_elements := elements, os_elementCount := os_elementCount s + 1\<rparr>)
   }"

definition OrderedIntSet_removeAtIdx :: "OrderedIntSet \<Rightarrow> int \<Rightarrow> OrderedIntSet option" where
  "OrderedIntSet_removeAtIdx s idx = do {
     let elementCount = os_elementCount s - 1;
     elements \<leftarrow> arraycopy (os_elements s) (idx + 1) (os_elements s) idx (elementCount - idx);
     elements \<leftarrow> aset elements elementCount MAX_VALUE;
     Some (s\<lparr>os_elements := elements, os_elementCount := elementCount\<rparr>)
   }"

definition OrderedIntSet_insertAtIdx :: "OrderedIntSet \<Rightarrow> int \<Rightarrow> int \<Rightarrow> OrderedIntSet option" where
  "OrderedIntSet_insertAtIdx s toAdd idx = do {
     s \<leftarrow> (if os_elementCount s = int (length (os_elements s)) then OrderedIntSet_grow s else Some s);
     elements \<leftarrow> arraycopy (os_elements s) idx (os_elements s) (idx + 1) (os_elementCount s - idx);
     elements \<leftarrow> aset elements idx toAdd;
     Some (s\<lparr>os_elements := elements, os_elementCount := os_elementCount s + 1\<rparr>)
   }"

definition OrderedIntSet_insertSorted :: "OrderedIntSet \<Rightarrow> int \<Rightarrow> (int \<times> OrderedIntSet) option" where
  "OrderedIntSet_insertSorted s toAdd = do {
     s \<leftarrow> (if os_elementCount s = int (length (os_elements s)) then OrderedIntSet_grow s else Some s);
     idx \<leftarrow> binarySearch (os_elements s) toAdd;
     if idx \<ge> 0 then Some (-1, s)
     else do {
       let idx = (idx + 1) * (-1);
       elements \<leftarrow> arraycopy (os_elements s) idx (os_elements s) (idx + 1) (os_elementCount s - idx);
       elements \<leftarrow> aset elements idx toAdd;
       Some (idx, s\<lparr>os_elements := elements, os_elementCount := os_elementCount s + 1\<rparr>)
     }
   }"

definition OrderedIntSet_get :: "OrderedIntSet \<Rightarrow> int \<Rightarrow> int option" where
  "OrderedIntSet_get s idx = (if idx \<ge> os_elementCount s then None else aget (os_elements s) idx)"

definition OrderedIntSet_size :: "OrderedIntSet \<Rightarrow> int" where
  "OrderedIntSet_size s = os_elementCount s"

definition OrderedIntSet_getIdx :: "OrderedIntSet \<Rightarrow> int \<Rightarrow> int option" where
  "OrderedIntSet_getIdx s element = binarySearch (os_elements s) element"

definition OrderedIntSet_updateValue :: "OrderedIntSet \<Rightarrow> int \<Rightarrow> int \<Rightarrow> OrderedIntSet option" where
  "OrderedIntSet_updateValue s newVal idx = do {
     elements \<leftarrow> aset (os_elements s) idx newVal;
     Some (s\<lparr>os_elements := elements\<rparr>)
   }"

definition OrderedIntSet_makeSpace :: "OrderedIntSet \<Rightarrow> int \<Rightarrow> OrderedIntSet option" where
  "OrderedIntSet_makeSpace s numOfElements = do {
     let oldLen = int (length (os_elements s));
     let freeElements = oldLen - os_elementCount s;
     if freeElements < numOfElements then do {
       elements \<leftarrow> copyOf (os_elements s) (int (length (os_elements s)) + numOfElements) 0;
       elements \<leftarrow> (if os_orderedBySorting s
                    then fillRange elements oldLen (int (length elements)) MAX_VALUE
                    else Some elements);
       Some (s\<lparr>os_elements := elements\<rparr>)
     } else Some s
   }"

definition OrderedIntSet_clear :: "OrderedIntSet \<Rightarrow> OrderedIntSet" where
  "OrderedIntSet_clear s =
     (let s = s\<lparr>os_elementCount := 0\<rparr> in
      if os_orderedBySorting s then s\<lparr>os_elements := fillAll (os_elements s) MAX_VALUE\<rparr> else s)"

definition OrderedIntSet_toArray :: "OrderedIntSet \<Rightarrow> int list option" where
  "OrderedIntSet_toArray s = do {
     asArray \<leftarrow> newArray (os_elementCount s) 0;
     arraycopy (os_elements s) 0 asArray 0 (os_elementCount s)
   }"

text \<open>
  \<open>os_inv\<close> is what every method keeps; \<open>os_sorted\<close> is the extra invariant of the ordered
  variant, in which the insertion points of \<open>getIdx\<close> are meaningful.
\<close>

definition os_contents :: "OrderedIntSet \<Rightarrow> int list" where
  "os_contents s = take (nat (os_elementCount s)) (os_elements s)"

definition os_inv :: "OrderedIntSet \<Rightarrow> bool" where
  "os_inv s \<longleftrightarrow> 0 \<le> os_elementCount s \<and> os_elementCount s \<le> int (length (os_elements s)) \<and>
     0 < os_sizeIncrease s"

definition os_sorted :: "OrderedIntSet \<Rightarrow> bool" where
  "os_sorted s \<longleftrightarrow> os_inv s \<and> os_orderedBySorting s \<and> padded (os_elements s) (os_contents s)"

lemma os_contents_length: "os_inv s \<Longrightarrow> os_elementCount s = int (length (os_contents s))"
  by (auto simp: os_inv_def os_contents_def)

lemma os_sorted_inv: "os_sorted s \<Longrightarrow> os_inv s"
  by (simp add: os_sorted_def)

lemma OrderedIntSet_new_ok:
  "0 \<le> n \<Longrightarrow> 0 < k \<Longrightarrow>
     \<exists>s. OrderedIntSet_new b n k = Some s \<and> os_inv s \<and> os_contents s = [] \<and>
         os_orderedBySorting s = b \<and> (b \<longrightarrow> os_sorted s)"
  by (auto simp: OrderedIntSet_new_def newArray_def os_inv_def os_contents_def os_sorted_def Let_def)

lemma OrderedIntSet_grow_ok:
  assumes "os_inv s"
  shows "\<exists>s'. OrderedIntSet_grow s = Some s' \<and> os_inv s' \<and> os_contents s' = os_contents s \<and>
     os_orderedBySorting s' = os_orderedBySorting s \<and> (os_sorted s \<longrightarrow> os_sorted s') \<and>
     length (os_elements s) < length (os_elements s')"
proof -
  have "os_elementCount s \<le> int (length (os_elements s))" "0 \<le> os_elementCount s"
    using assms by (simp_all add: os_inv_def)
  then show ?thesis
    using assms grow_padded[of "os_sizeIncrease s" "os_elements s"]
    by (auto simp: OrderedIntSet_grow_def Let_def os_inv_def os_contents_def os_sorted_def padded_grow)
qed

lemma OrderedIntSet_room:
  assumes "os_inv s"
  obtains s1 where
    "(if os_elementCount s = int (length (os_elements s)) then OrderedIntSet_grow s else Some s) = Some s1"
    "os_inv s1" "os_contents s1 = os_contents s" "os_orderedBySorting s1 = os_orderedBySorting s"
    "os_sorted s \<longrightarrow> os_sorted s1" "length (os_contents s) < length (os_elements s1)"
proof (cases "os_elementCount s = int (length (os_elements s))")
  case True
  obtain s' where "OrderedIntSet_grow s = Some s'" "os_inv s'" "os_contents s' = os_contents s"
    "os_orderedBySorting s' = os_orderedBySorting s" "os_sorted s \<longrightarrow> os_sorted s'"
    "length (os_elements s) < length (os_elements s')" using OrderedIntSet_grow_ok[OF assms] by blast
  then show thesis
    using True that[of s'] os_contents_length[OF assms] by simp
next
  case False
  then show thesis using that[of s] assms os_contents_length[OF assms] by (simp add: os_inv_def)
qed

lemma OrderedIntSet_insertTail_ok:
  assumes "os_inv s"
  shows "\<exists>s'. OrderedIntSet_insertTail s x = Some s' \<and> os_inv s' \<and>
     os_contents s' = os_contents s @ [x] \<and> os_orderedBySorting s' = os_orderedBySorting s"
proof -
  obtain s1 where s1: "(if os_elementCount s = int (length (os_elements s)) then OrderedIntSet_grow s else Some s) = Some s1"
    "os_inv s1" "os_contents s1 = os_contents s" "os_orderedBySorting s1 = os_orderedBySorting s"
    "os_sorted s \<longrightarrow> os_sorted s1" "length (os_contents s) < length (os_elements s1)"
    by (rule OrderedIntSet_room[OF assms])
  let ?n = "length (os_contents s)"
  have n: "os_elementCount s1 = int ?n" using os_contents_length[OF s1(2)] s1(3) by simp
  have "take (Suc ?n) ((os_elements s1)[?n := x]) = os_contents s @ [x]"
    using s1 n by (simp add: take_append_slot os_contents_def)
  then show ?thesis
    using s1 n by (auto simp: OrderedIntSet_insertTail_def java os_inv_def os_contents_def nat_add_distrib)
qed

lemma OrderedIntSet_insertAtIdx_ok:
  assumes "os_inv s" "i \<le> length (os_contents s)"
  shows "\<exists>s'. OrderedIntSet_insertAtIdx s x (int i) = Some s' \<and> os_inv s' \<and>
     os_contents s' = insert_pos (os_contents s) i x \<and> os_orderedBySorting s' = os_orderedBySorting s \<and>
     (os_sorted s \<longrightarrow> x \<notin> set (os_contents s) \<longrightarrow> x < MAX_VALUE \<longrightarrow> i = lpos (os_contents s) x \<longrightarrow> os_sorted s')"
proof -
  obtain s1 where s1: "(if os_elementCount s = int (length (os_elements s)) then OrderedIntSet_grow s else Some s) = Some s1"
    "os_inv s1" "os_contents s1 = os_contents s" "os_orderedBySorting s1 = os_orderedBySorting s"
    "os_sorted s \<longrightarrow> os_sorted s1" "length (os_contents s) < length (os_elements s1)"
    by (rule OrderedIntSet_room[OF assms(1)])
  let ?p = "os_contents s" let ?n = "length ?p"
  have n: "os_elementCount s1 = int ?n" using os_contents_length[OF s1(2)] s1(3) by simp
  obtain g a' where g: "arraycopy (os_elements s1) (int i) (os_elements s1) (int i + 1) (int ?n - int i) = Some g"
    "length g = length (os_elements s1)" "aset g (int i) x = Some a'" "length a' = length (os_elements s1)"
    "take (Suc ?n) a' = insert_pos (take ?n (os_elements s1)) i x"
    "drop (Suc ?n) a' = drop (Suc ?n) (os_elements s1)"
    "a' = take i (os_elements s1) @ x # take (?n - i) (drop i (os_elements s1)) @ drop (Suc ?n) (os_elements s1)"
    by (rule array_insert[OF assms(2) s1(6)])
  let ?s = "s1\<lparr>os_elements := a', os_elementCount := int ?n + 1\<rparr>"
  have tk: "take ?n (os_elements s1) = ?p" using s1(3) n by (simp add: os_contents_def)
  have c: "os_contents ?s = insert_pos ?p i x"
    using g(5) tk by (simp add: os_contents_def nat_add_distrib)
  have srt: "os_sorted ?s" if "os_sorted s" "x \<notin> set ?p" "x < MAX_VALUE" "i = lpos ?p x"
  proof -
    have "padded (os_elements s1) ?p" using s1 that(1) by (simp add: os_sorted_def)
    from padded_insert[OF this that(2,3) s1(6)] have "padded a' (insert_pos ?p i x)"
      using g(7) that(4) by simp
    then show ?thesis using c s1 g(4) that(1) by (auto simp: os_sorted_def os_inv_def)
  qed
  have "OrderedIntSet_insertAtIdx s x (int i) = Some ?s"
    using s1(1) n g by (simp add: OrderedIntSet_insertAtIdx_def)
  then show ?thesis using c srt s1 g(4) by (auto simp: os_inv_def)
qed

lemma os_sorted_search:
  "os_sorted s \<Longrightarrow> x < MAX_VALUE \<Longrightarrow> OrderedIntSet_getIdx s x =
     Some (if x \<in> set (os_contents s) then int (lpos (os_contents s) x)
           else - int (lpos (os_contents s) x) - 1)"
  unfolding OrderedIntSet_getIdx_def by (rule padded_search) (simp_all add: os_sorted_def)

lemma os_sorted_increasing: "os_sorted s \<Longrightarrow> sorted_wrt (<) (os_contents s)"
  by (simp add: os_sorted_def padded_def)

lemma OrderedIntSet_insertSorted_new:
  assumes "os_sorted s" "x < MAX_VALUE" "x \<notin> set (os_contents s)"
  shows "\<exists>s'. OrderedIntSet_insertSorted s x = Some (int (lpos (os_contents s) x), s') \<and> os_sorted s' \<and>
     os_contents s' = insert_pos (os_contents s) (lpos (os_contents s) x) x"
proof -
  obtain s1 where s1: "(if os_elementCount s = int (length (os_elements s)) then OrderedIntSet_grow s else Some s) = Some s1"
    "os_inv s1" "os_contents s1 = os_contents s" "os_orderedBySorting s1 = os_orderedBySorting s"
    "os_sorted s \<longrightarrow> os_sorted s1" "length (os_contents s) < length (os_elements s1)"
    by (rule OrderedIntSet_room[OF os_sorted_inv[OF assms(1)]])
  let ?p = "os_contents s" let ?i = "lpos ?p x"
  have srt: "os_sorted s1" using s1 assms by simp
  have n: "os_elementCount s1 = int (length ?p)" using os_contents_length[OF s1(2)] s1(3) by simp
  have pad: "padded (os_elements s1) ?p" using srt s1(3) by (simp add: os_sorted_def)
  have srch: "binarySearch (os_elements s1) x = Some (- int ?i - 1)"
    using padded_search[OF pad assms(2)] assms(3) by simp
  obtain g a' where g: "arraycopy (os_elements s1) (int ?i) (os_elements s1) (int ?i + 1) (int (length ?p) - int ?i) = Some g"
    "aset g (int ?i) x = Some a'" "length a' = length (os_elements s1)" "padded a' (insert_pos ?p ?i x)"
    by (rule array_insert_padded[OF pad assms(3,2) s1(6)])
  let ?s = "s1\<lparr>os_elements := a', os_elementCount := int (length ?p) + 1\<rparr>"
  have "os_contents ?s = insert_pos ?p ?i x"
    using padded_take[OF g(4)] lpos_le[of ?p x] by (simp add: os_contents_def nat_add_distrib)
  moreover have "OrderedIntSet_insertSorted s x = Some (int ?i, ?s)"
    using s1(1) n srch g by (simp add: OrderedIntSet_insertSorted_def Let_def)
  ultimately show ?thesis using srt s1(6) g(3,4) by (auto simp: os_sorted_def os_inv_def)
qed

lemma OrderedIntSet_insertSorted_present:
  assumes "os_sorted s" "x < MAX_VALUE" "x \<in> set (os_contents s)"
  shows "\<exists>s'. OrderedIntSet_insertSorted s x = Some (-1, s') \<and> os_sorted s' \<and> os_contents s' = os_contents s"
proof -
  obtain s1 where s1: "(if os_elementCount s = int (length (os_elements s)) then OrderedIntSet_grow s else Some s) = Some s1"
    "os_inv s1" "os_contents s1 = os_contents s" "os_orderedBySorting s1 = os_orderedBySorting s"
    "os_sorted s \<longrightarrow> os_sorted s1" "length (os_contents s) < length (os_elements s1)"
    by (rule OrderedIntSet_room[OF os_sorted_inv[OF assms(1)]])
  have "padded (os_elements s1) (os_contents s)" using s1 assms(1) by (simp add: os_sorted_def)
  then have "binarySearch (os_elements s1) x = Some (int (lpos (os_contents s) x))"
    using padded_search[of "os_elements s1" "os_contents s" x] assms by simp
  then show ?thesis using s1 assms by (simp add: OrderedIntSet_insertSorted_def)
qed

lemma OrderedIntSet_get_eq: "os_inv s \<Longrightarrow> OrderedIntSet_get s i = aget (os_contents s) i"
  by (auto simp: OrderedIntSet_get_def aget_def os_inv_def os_contents_def)

lemma OrderedIntSet_size_eq: "os_inv s \<Longrightarrow> OrderedIntSet_size s = int (length (os_contents s))"
  using os_contents_length[of s] by (simp add: OrderedIntSet_size_def)

lemma OrderedIntSet_clear_ok:
  "os_inv s \<Longrightarrow> os_inv (OrderedIntSet_clear s) \<and> os_contents (OrderedIntSet_clear s) = [] \<and>
     os_orderedBySorting (OrderedIntSet_clear s) = os_orderedBySorting s \<and>
     (os_orderedBySorting s \<longrightarrow> os_sorted (OrderedIntSet_clear s))"
  by (simp add: OrderedIntSet_clear_def Let_def os_inv_def os_contents_def os_sorted_def)

lemma OrderedIntSet_updateValue_ok:
  assumes "os_inv s" "i < length (os_contents s)"
  shows "\<exists>s'. OrderedIntSet_updateValue s v (int i) = Some s' \<and> os_inv s' \<and>
     os_contents s' = (os_contents s)[i := v] \<and> os_orderedBySorting s' = os_orderedBySorting s"
proof -
  have "i < length (os_elements s)" "i < nat (os_elementCount s)"
    using assms os_contents_length[OF assms(1)] by (auto simp: os_inv_def)
  then show ?thesis
    using assms(1)
    by (auto simp: OrderedIntSet_updateValue_def java os_inv_def os_contents_def take_update_swap)
qed

lemma OrderedIntSet_makeSpace_ok:
  assumes "os_inv s"
  shows "\<exists>s'. OrderedIntSet_makeSpace s n = Some s' \<and> os_inv s' \<and> os_contents s' = os_contents s \<and>
     os_orderedBySorting s' = os_orderedBySorting s \<and> (os_sorted s \<longrightarrow> os_sorted s') \<and>
     int (length (os_contents s')) + n \<le> int (length (os_elements s'))"
proof (cases "int (length (os_elements s)) - os_elementCount s < n")
  case True
  have "os_elementCount s \<le> int (length (os_elements s))" "0 \<le> os_elementCount s" "0 \<le> n"
    using assms True by (simp_all add: os_inv_def)
  then show ?thesis
    using assms True grow_padded[of n "os_elements s"]
    by (auto simp: OrderedIntSet_makeSpace_def Let_def os_inv_def os_contents_def os_sorted_def padded_grow)
next
  case False
  then show ?thesis using assms os_contents_length[OF assms]
    by (simp add: OrderedIntSet_makeSpace_def Let_def)
qed

lemma OrderedIntSet_toArray_eq: "os_inv s \<Longrightarrow> OrderedIntSet_toArray s = Some (os_contents s)"
  by (simp add: OrderedIntSet_toArray_def newArray_def arraycopy_def os_inv_def os_contents_def)

lemma OrderedIntSet_removeAtIdx_ok:
  assumes "os_inv s" "i < length (os_contents s)"
  shows "\<exists>s'. OrderedIntSet_removeAtIdx s (int i) = Some s' \<and> os_inv s' \<and>
     os_contents s' = delete_pos (os_contents s) i \<and> os_orderedBySorting s' = os_orderedBySorting s \<and>
     (os_sorted s \<longrightarrow> os_sorted s')"
proof -
  let ?a = "os_elements s" let ?p = "os_contents s"
  define n where "n = length ?p - 1"
  have len: "length ?p = Suc n" using assms(2) by (simp add: n_def)
  have cnt: "os_elementCount s = int (Suc n)" using os_contents_length[OF assms(1)] len by simp
  have i: "i \<le> n" using assms(2) len by simp
  have n: "n < length ?a" using assms(1) cnt by (simp add: os_inv_def)
  have p: "?p = take (Suc n) ?a" unfolding os_contents_def cnt by (simp del: of_nat_Suc)
  obtain b where b: "arraycopy ?a (int i + 1) ?a (int i) (int n - int i) = Some b"
    "length b = length ?a" "take n b = delete_pos (take (Suc n) ?a) i" "drop n b = drop n ?a"
    by (rule array_delete[OF i n])
  let ?s = "s\<lparr>os_elements := b[n := MAX_VALUE], os_elementCount := int n\<rparr>"
  have c: "os_contents ?s = delete_pos ?p i" using b(3) p by (simp add: os_contents_def)
  have srt: "os_sorted ?s" if "os_sorted s"
  proof -
    have "padded ?a ?p" using that by (simp add: os_sorted_def)
    from padded_delete[OF this assms(2)] have "padded (b[n := MAX_VALUE]) (delete_pos ?p i)"
      using arraycopy_close[OF i n] b(1) len by simp
    then show ?thesis using that c b(2) n by (simp add: os_sorted_def os_inv_def)
  qed
  have "OrderedIntSet_removeAtIdx s (int i) = Some ?s"
    using cnt b(1,2) n by (simp add: OrderedIntSet_removeAtIdx_def java)
  then show ?thesis using c srt assms(1) b(2) n by (simp add: os_inv_def)
qed

interpretation orderedSet: int_store os_inv os_contents OrderedIntSet_insertTail OrderedIntSet_get
  OrderedIntSet_size OrderedIntSet_clear
  by unfold_locales
    (use OrderedIntSet_insertTail_ok in blast,
      simp_all add: OrderedIntSet_get_eq OrderedIntSet_size_eq OrderedIntSet_clear_ok)

section \<open>Properties\<close>

text \<open>
  Inserting into an ordered \<open>OrderedIntSet\<close>: the elements stay strictly increasing, a
  new value is inserted at the reported index and a present one is reported as -1 and
  changes nothing. Growth of the backing array is not visible.
\<close>

lemma ordered_set_insert_sorted:
  assumes "os_sorted s" and "x < MAX_VALUE"
  shows "\<exists>i s'. OrderedIntSet_insertSorted s x = Some (i, s') \<and> os_sorted s' \<and>
    (if x \<in> set (os_contents s) then i = -1 \<and> os_contents s' = os_contents s
     else i = int (lpos (os_contents s) x) \<and> os_contents s' = insert_pos (os_contents s) (nat i) x) \<and>
    sorted_wrt (<) (os_contents s') \<and> set (os_contents s') = insert x (set (os_contents s))"
proof (cases "x \<in> set (os_contents s)")
  case True
  then obtain s' where "OrderedIntSet_insertSorted s x = Some (-1, s')" "os_sorted s'" "os_contents s' = os_contents s"
    using OrderedIntSet_insertSorted_present[OF assms] by blast
  with True os_sorted_increasing[of s'] show ?thesis by (auto simp: insert_absorb)
next
  case False
  then obtain s' where "OrderedIntSet_insertSorted s x = Some (int (lpos (os_contents s) x), s')" "os_sorted s'"
    "os_contents s' = insert_pos (os_contents s) (lpos (os_contents s) x) x"
    using OrderedIntSet_insertSorted_new[OF assms] by blast
  with False os_sorted_increasing[of s'] show ?thesis by auto
qed

text \<open>
  The order of \<open>IntStack\<close>: after pushing the values \<open>xs @ [x]\<close> on an empty stack,
  \<open>pop\<close> returns the last value pushed and \<open>popFifo\<close> the first one, and each leaves the
  other values.
\<close>

lemma int_stack_both_ends:
  assumes "st_inv s" and "st_contents s = []"
  shows "\<exists>s'. for_list (xs @ [x]) (\<lambda>y s. IntStack_push s y) s = Some s' \<and>
    (\<exists>t. IntStack_pop s' = Some (x, t) \<and> st_inv t \<and> st_contents t = xs) \<and>
    (\<exists>t. IntStack_popFifo s' = Some (hd (xs @ [x]), t) \<and> st_inv t \<and> st_contents t = tl (xs @ [x]))"
proof -
  obtain s' where s': "for_list (xs @ [x]) (\<lambda>y s. IntStack_push s y) s = Some s'" "st_inv s'" "st_contents s' = xs @ [x]"
    using intStack.push_all[OF assms(1), of "xs @ [x]"] assms(2) by auto
  have "st_contents s' = hd (xs @ [x]) # tl (xs @ [x])" using s'(3) by (cases xs) auto
  from intStack.popFifo_ok[OF s'(2) this] intStack.pop_ok[OF s'(2,3)] s'(1) show ?thesis by blast
qed

end
