(* ===== verification/HubLabelling.thy ===== *)
theory HubLabelling
  imports Graphs
begin

text \<open>
  Hub labels of a hierarchy, without the data structures of the program. The nodes have levels and
  each node has edges to nodes of higher levels only. \<open>labelling\<close> states what the label creation
  establishes for a set of nodes that is closed upwards: a label is the length of an upward walk, a
  label is left out only for a common label with a higher node, and no redundant label is kept.
  From this follow the two facts the router relies on: two nodes with a common upper node have a
  common label that is at least as good (\<open>common_hub\<close>), and the first edge of a label leads to a node
  that has the rest of the label (\<open>label_continues\<close>).
\<close>

section \<open>Upward walks\<close>

inductive up_walk :: "adjacency \<Rightarrow> int \<Rightarrow> int \<Rightarrow> int \<Rightarrow> bool" for up where
  up_walk_refl: "up_walk up v v 0"
| up_walk_step: "(n, w) \<in> set (up v) \<Longrightarrow> up_walk up n h d \<Longrightarrow> up_walk up v h (w + d)"

lemma up_walk_trans:
  assumes "up_walk up u v a" "up_walk up v h b"
  shows "up_walk up u h (a + b)"
  using assms
proof induction
  case (up_walk_step n w v h d)
  then show ?case using up_walk.up_walk_step[of n w up v] by (simp add: add.assoc)
qed simp

lemma up_walk_edge: "(n, w) \<in> set (up v) \<Longrightarrow> up_walk up v n w"
  using up_walk_step[OF _ up_walk_refl, of n w up v] by simp

lemma up_walk_cong:
  assumes "up_walk up v h d" "v \<in> S" "\<And>v n w. v \<in> S \<Longrightarrow> (n, w) \<in> set (up v) \<Longrightarrow> n \<in> S \<and> (n, w) \<in> set (up' v)"
  shows "up_walk up' v h d"
  using assms(1,2)
proof induction
  case (up_walk_step n w v h d)
  then show ?case using assms(3) up_walk.up_walk_step by blast
qed (rule up_walk_refl)

section \<open>Labellings\<close>

definition labelling :: "int set \<Rightarrow> (int \<Rightarrow> int) \<Rightarrow> adjacency \<Rightarrow> (int \<Rightarrow> int \<rightharpoonup> int) \<Rightarrow> bool" where
  "labelling S lvl up lab \<longleftrightarrow> finite S \<and>
     (\<forall>v \<in> S. \<forall>n w. (n, w) \<in> set (up v) \<longrightarrow> n \<in> S \<and> lvl v < lvl n \<and> 0 \<le> w) \<and>
     (\<forall>v \<in> S. lab v v = Some 0) \<and>
     (\<forall>v \<in> S. \<forall>h d. lab v h = Some d \<longrightarrow> up_walk up v h d) \<and>
     (\<forall>v \<in> S. \<forall>n w h d'. (n, w) \<in> set (up v) \<and> lab n h = Some d' \<longrightarrow>
        (\<exists>d \<le> w + d'. lab v h = Some d) \<or>
        (\<exists>x d1 d2. x \<noteq> h \<and> lab h x = Some d2 \<and> up_walk up v x d1 \<and> d1 + d2 \<le> w + d')) \<and>
     (\<forall>v \<in> S. \<forall>n w h d d'. (n, w) \<in> set (up v) \<and> lab n h = Some d' \<and> lab v h = Some d \<longrightarrow> d \<le> w + d') \<and>
     (\<forall>v \<in> S. \<forall>h d x d1 d2. h \<noteq> v \<and> x \<noteq> h \<and> lab v h = Some d \<and> lab v x = Some d1 \<and> lab h x = Some d2 \<longrightarrow> d < d1 + d2)"

lemma labellingD:
  assumes "labelling S lvl up lab" "v \<in> S"
  shows "(n, w) \<in> set (up v) \<Longrightarrow> n \<in> S \<and> lvl v < lvl n \<and> 0 \<le> w"
    and "lab v v = Some 0"
    and "lab v h = Some d \<Longrightarrow> up_walk up v h d"
    and "(n, w) \<in> set (up v) \<Longrightarrow> lab n h = Some d' \<Longrightarrow> (\<exists>d \<le> w + d'. lab v h = Some d) \<or>
        (\<exists>x d1 d2. x \<noteq> h \<and> lab h x = Some d2 \<and> up_walk up v x d1 \<and> d1 + d2 \<le> w + d')"
    and "(n, w) \<in> set (up v) \<Longrightarrow> lab n h = Some d' \<Longrightarrow> lab v h = Some d \<Longrightarrow> d \<le> w + d'"
    and "h \<noteq> v \<Longrightarrow> x \<noteq> h \<Longrightarrow> lab v h = Some d \<Longrightarrow> lab v x = Some d1 \<Longrightarrow> lab h x = Some d2 \<Longrightarrow> d < d1 + d2"
proof -
  note L = assms(1)[unfolded labelling_def]
  show "(n, w) \<in> set (up v) \<Longrightarrow> n \<in> S \<and> lvl v < lvl n \<and> 0 \<le> w" using L[THEN conjunct2, THEN conjunct1] assms(2) by blast
  note L = L[THEN conjunct2, THEN conjunct2]
  show "lab v v = Some 0" using L[THEN conjunct1] assms(2) by blast
  note L = L[THEN conjunct2]
  show "lab v h = Some d \<Longrightarrow> up_walk up v h d" using L[THEN conjunct1] assms(2) by blast
  note L = L[THEN conjunct2]
  show "(n, w) \<in> set (up v) \<Longrightarrow> lab n h = Some d' \<Longrightarrow> (\<exists>d \<le> w + d'. lab v h = Some d) \<or>
        (\<exists>x d1 d2. x \<noteq> h \<and> lab h x = Some d2 \<and> up_walk up v x d1 \<and> d1 + d2 \<le> w + d')"
    using L[THEN conjunct1, rule_format, OF assms(2), of n w h d'] by blast
  note L = L[THEN conjunct2]
  show "(n, w) \<in> set (up v) \<Longrightarrow> lab n h = Some d' \<Longrightarrow> lab v h = Some d \<Longrightarrow> d \<le> w + d'"
    using L[THEN conjunct1, rule_format, OF assms(2), of n w h d' d] by blast
  show "h \<noteq> v \<Longrightarrow> x \<noteq> h \<Longrightarrow> lab v h = Some d \<Longrightarrow> lab v x = Some d1 \<Longrightarrow> lab h x = Some d2 \<Longrightarrow> d < d1 + d2"
    using L[THEN conjunct2, rule_format, OF assms(2), of h x d d1 d2] by blast
qed

lemma up_walk_inside:
  assumes "labelling S lvl up lab" "up_walk up v h d" "v \<in> S"
  shows "h \<in> S \<and> 0 \<le> d \<and> lvl v \<le> lvl h \<and> (h \<noteq> v \<longrightarrow> lvl v < lvl h)"
  using assms(2,3)
proof induction
  case (up_walk_step n w v h d)
  note e = labellingD(1)[OF assms(1) up_walk_step.prems up_walk_step.hyps(1)]
  from up_walk_step.IH e show ?case by auto
qed simp

text \<open>An upper node is a label, or a still higher node is on an equally good way.\<close>

lemma hub_or_higher:
  assumes L: "labelling S lvl up lab" and "up_walk up v h a" "v \<in> S"
  shows "(\<exists>d \<le> a. lab v h = Some d) \<or>
    (\<exists>x d1 d2. lvl h < lvl x \<and> up_walk up v x d1 \<and> up_walk up h x d2 \<and> d1 + d2 \<le> a)"
  using assms(2,3)
proof induction
  case (up_walk_refl v)
  then show ?case using labellingD(2)[OF L] by auto
next
  case (up_walk_step n w v h a)
  note v = up_walk_step.prems and e = up_walk_step.hyps(1)
  have n: "n \<in> S" using labellingD(1)[OF L v e] by simp
  have h: "h \<in> S" using up_walk_inside[OF L up_walk_step.hyps(2) n] by simp
  from up_walk_step.IH[OF n] consider (hub) d where "d \<le> a" "lab n h = Some d"
    | (higher) x d1 d2 where "lvl h < lvl x" "up_walk up n x d1" "up_walk up h x d2" "d1 + d2 \<le> a" by blast
  then show ?case
  proof cases
    case hub
    from labellingD(4)[OF L v e hub(2)] consider (kept) d' where "d' \<le> w + d" "lab v h = Some d'"
      | (pruned) x d1 d2 where "x \<noteq> h" "lab h x = Some d2" "up_walk up v x d1" "d1 + d2 \<le> w + d" by blast
    then show ?thesis
    proof cases
      case kept
      then show ?thesis using hub(1) by (intro disjI1 exI[of _ d']) simp
    next
      case pruned
      have "up_walk up h x d2" by (rule labellingD(3)[OF L h pruned(2)])
      moreover from this have "lvl h < lvl x" using up_walk_inside[OF L _ h] pruned(1) by blast
      ultimately show ?thesis using pruned(3,4) hub(1) by (intro disjI2 exI[of _ x] exI[of _ d1] exI[of _ d2]) simp
    qed
  next
    case higher
    have "up_walk up v x (w + d1)" by (rule up_walk.up_walk_step[OF e higher(2)])
    then show ?thesis using higher by (intro disjI2 exI[of _ x] exI[of _ "w + d1"] exI[of _ d2]) simp
  qed
qed

lemma common_hub:
  assumes L: "labelling S lvl up lab" and "up_walk up s h a" "s \<in> S" "up_walk up t h b" "t \<in> S"
  shows "\<exists>x d1 d2. lab s x = Some d1 \<and> lab t x = Some d2 \<and> d1 + d2 \<le> a + b \<and> lvl h \<le> lvl x"
proof -
  have fin: "finite (lvl ` S)" using L by (simp add: labelling_def)
  have inS: "h \<in> S" using up_walk_inside[OF L assms(2,3)] by simp
  show ?thesis
    using assms(2,4) inS
  proof (induction "nat (Max (lvl ` S) - lvl h)" arbitrary: h a b rule: less_induct)
    case less
    have bound: "lvl x \<le> Max (lvl ` S)" if "x \<in> S" for x using fin that by simp
    have climb: "\<exists>y e1 e2. lab s y = Some e1 \<and> lab t y = Some e2 \<and> e1 + e2 \<le> a + b \<and> lvl h \<le> lvl y"
      if x: "lvl h < lvl x" "up_walk up s x a'" "up_walk up t x b'" "a' + b' \<le> a + b" for x a' b'
    proof -
      have "x \<in> S" using up_walk_inside[OF L x(2) assms(3)] by simp
      moreover have "nat (Max (lvl ` S) - lvl x) < nat (Max (lvl ` S) - lvl h)" using bound[OF \<open>x \<in> S\<close>] x(1) by simp
      ultimately obtain y e1 e2 where "lab s y = Some e1" "lab t y = Some e2" "e1 + e2 \<le> a' + b'" "lvl x \<le> lvl y"
        using less.hyps[OF _ x(2,3)] by blast
      then show ?thesis using x(1,4) by (intro exI[of _ y] exI[of _ e1] exI[of _ e2]) simp
    qed
    from hub_or_higher[OF L less.prems(1) assms(3)] hub_or_higher[OF L less.prems(2) assms(5)]
    consider (both) d d' where "d \<le> a" "lab s h = Some d" "d' \<le> b" "lab t h = Some d'"
      | (left) x d1 d2 where "lvl h < lvl x" "up_walk up s x d1" "up_walk up h x d2" "d1 + d2 \<le> a"
      | (right) x d1 d2 where "lvl h < lvl x" "up_walk up t x d1" "up_walk up h x d2" "d1 + d2 \<le> b" by blast
    then show ?case
    proof cases
      case both
      then show ?thesis by (intro exI[of _ h] exI[of _ d] exI[of _ d']) simp
    next
      case left
      show ?thesis by (rule climb[OF left(1,2) up_walk_trans[OF less.prems(2) left(3)]]) (use left(4) in simp)
    next
      case right
      show ?thesis by (rule climb[OF right(1) up_walk_trans[OF less.prems(1) right(3)] right(2)]) (use right(4) in simp)
    qed
  qed
qed

text \<open>The rest of a label, after its first edge, is a label of the node the edge leads to.\<close>

lemma label_continues:
  assumes L: "labelling S lvl up lab" and v: "v \<in> S" and "lab v h = Some d" "h \<noteq> v" "(n, w) \<in> set (up v)" "up_walk up n h (d - w)"
  shows "lab n h = Some (d - w)"
proof -
  have n: "n \<in> S" using labellingD(1)[OF L v assms(5)] by simp
  have h: "h \<in> S" using up_walk_inside[OF L assms(6) n] by simp
  obtain x d1 d2 where x: "lab n x = Some d1" "lab h x = Some d2" "d1 + d2 \<le> d - w" "lvl h \<le> lvl x"
    using common_hub[OF L assms(6) n up_walk_refl h] by auto
  have walks: "up_walk up n x d1" "up_walk up h x d2" by (rule labellingD(3)[OF L n x(1)], rule labellingD(3)[OF L h x(2)])
  have "0 \<le> d2" using up_walk_inside[OF L walks(2) h] by simp
  show ?thesis
  proof (cases "x = h")
    case True
    have "lab n h = Some d1" "d \<le> w + d1" using x(1) labellingD(5)[OF L v assms(5) _ assms(3), of d1] True by auto
    with x(3) \<open>0 \<le> d2\<close> show ?thesis by simp
  next
    case False
    have "up_walk up v x (w + d1)" by (rule up_walk_step[OF assms(5) walks(1)])
    from common_hub[OF L this v walks(2) h] obtain y e1 e2 where
      y: "lab v y = Some e1" "lab h y = Some e2" "e1 + e2 \<le> w + d1 + d2" "lvl x \<le> lvl y" by blast
    have "lvl h < lvl x" using up_walk_inside[OF L walks(2) h] False by simp
    then have "y \<noteq> h" using y(4) by auto
    from labellingD(6)[OF L v assms(4) this assms(3) y(1,2)] y(3) x(3) show ?thesis by simp
  qed
qed

text \<open>Labels for one more node, below all nodes that have labels.\<close>

lemma labelling_insert:
  assumes L: "labelling S lvl up lab" and new: "v \<notin> S"
    and ups: "\<And>n w. (n, w) \<in> set (up v) \<Longrightarrow> n \<in> S \<and> lvl v < lvl n \<and> 0 \<le> w"
    and self: "row v = Some 0" and sound: "\<And>h d. row h = Some d \<Longrightarrow> up_walk up v h d"
    and kept: "\<And>n w h d'. (n, w) \<in> set (up v) \<Longrightarrow> lab n h = Some d' \<Longrightarrow> (\<exists>d \<le> w + d'. row h = Some d) \<or>
        (\<exists>x d1 d2. x \<noteq> h \<and> lab h x = Some d2 \<and> up_walk up v x d1 \<and> d1 + d2 \<le> w + d')"
    and least: "\<And>n w h d' d. (n, w) \<in> set (up v) \<Longrightarrow> lab n h = Some d' \<Longrightarrow> row h = Some d \<Longrightarrow> d \<le> w + d'"
    and needed: "\<And>h x d d1 d2. h \<noteq> v \<Longrightarrow> x \<noteq> h \<Longrightarrow> row h = Some d \<Longrightarrow> row x = Some d1 \<Longrightarrow> lab h x = Some d2 \<Longrightarrow> d < d1 + d2"
  shows "labelling (insert v S) lvl up (lab(v := row))"
proof -
  have fin: "finite S" using L by (simp add: labelling_def)
  have hub: "h \<noteq> v" if "u \<in> S" "lab u h = Some d" for u h d
    using up_walk_inside[OF L labellingD(3)[OF L that] that(1)] new by auto
  have up_ne: "n \<noteq> v" if "(n, w) \<in> set (up v)" for n w using ups[OF that] new by auto
  have up_ne': "n \<noteq> v" if "u \<in> S" "(n, w) \<in> set (up u)" for u n w using labellingD(1)[OF L that] new by auto
  show ?thesis unfolding labelling_def
  proof (intro conjI ballI allI impI)
    show "finite (insert v S)" using fin by simp
  next
    fix u assume "u \<in> insert v S"
    then show "(lab(v := row)) u u = Some 0" using self labellingD(2)[OF L] by auto
  next
    fix u n w assume "u \<in> insert v S" "(n, w) \<in> set (up u)"
    then show "n \<in> insert v S" "lvl u < lvl n" "0 \<le> w" using ups labellingD(1)[OF L] by blast+
  next
    fix u h d assume "u \<in> insert v S" "(lab(v := row)) u h = Some d"
    then show "up_walk up u h d" using sound labellingD(3)[OF L] by (auto split: if_splits)
  next
    fix u n w h d' assume u: "u \<in> insert v S" and e: "(n, w) \<in> set (up u) \<and> (lab(v := row)) n h = Some d'"
    have nv: "n \<noteq> v" using u e up_ne up_ne' by blast
    then have n: "lab n h = Some d'" "n \<in> S" using e u ups labellingD(1)[OF L] by auto
    have hv: "h \<noteq> v" by (rule hub[OF n(2,1)])
    show "(\<exists>d \<le> w + d'. (lab(v := row)) u h = Some d) \<or>
        (\<exists>x d1 d2. x \<noteq> h \<and> (lab(v := row)) h x = Some d2 \<and> up_walk up u x d1 \<and> d1 + d2 \<le> w + d')"
    proof (cases "u = v")
      case True
      then show ?thesis using kept[of n w h d'] e n(1) hv by simp
    next
      case False
      then have "u \<in> S" using u by simp
      from labellingD(4)[OF L this _ n(1), of w] e False hv show ?thesis by simp
    qed
  next
    fix u n w h d d' assume u: "u \<in> insert v S"
      and e: "(n, w) \<in> set (up u) \<and> (lab(v := row)) n h = Some d' \<and> (lab(v := row)) u h = Some d"
    have "n \<noteq> v" using u e up_ne up_ne' by blast
    then have n: "lab n h = Some d'" using e by simp
    show "d \<le> w + d'"
      using least[of n w h d' d] labellingD(5)[OF L _ _ n, of u w d] u e n by (auto split: if_splits)
  next
    fix u h d x d1 d2 assume u: "u \<in> insert v S"
      and e: "h \<noteq> u \<and> x \<noteq> h \<and> (lab(v := row)) u h = Some d \<and> (lab(v := row)) u x = Some d1 \<and> (lab(v := row)) h x = Some d2"
    show "d < d1 + d2"
    proof (cases "u = v")
      case True
      then show ?thesis using needed[of h x d d1 d2] e by (auto split: if_splits)
    next
      case False
      then have uS: "u \<in> S" using u by simp
      have "lab u h = Some d" "lab u x = Some d1" using e False by simp_all
      moreover have "lab h x = Some d2" using e hub[OF uS \<open>lab u h = Some d\<close>] by simp
      ultimately show ?thesis using labellingD(6)[OF L uS, of h x d d1 d2] e by blast
    qed
  qed
qed

end
