(* ===== verification/HLDijkstra.thy ===== *)
theory HLDijkstra
  imports LabelCreationData IntCollections HubLabelling
begin

text \<open>
  The calculation of the labels of one node: \<open>hublablecreation/HLDijkstra.java\<close> and the test
  \<open>isRedundant\<close> of \<open>hublablecreation/Labels.java\<close>.

  A thread keeps three \<open>OrderedIntSet\<close> objects in step: the label nodes, their distances and their
  first edges. \<open>HLDijkstra_table\<close> reads them as one map from label nodes to distance and edge; the
  lemmas of the operations are about this map.
\<close>

section \<open>Redundant labels\<close>

function Labels_isRedundantLoop ::
    "int \<Rightarrow> int \<Rightarrow> int list \<Rightarrow> int list option \<Rightarrow> OrderedIntSet \<Rightarrow> OrderedIntSet \<Rightarrow> int \<Rightarrow> int \<Rightarrow> bool option" where
  "Labels_isRedundantLoop toCheck checkDist checkLabels checkRow labels checkDists checkIdx labelIdx =
     (if checkIdx < int (length checkLabels) \<and> labelIdx < OrderedIntSet_size labels then do {
        checkNode \<leftarrow> aget checkLabels checkIdx;
        labelNode \<leftarrow> OrderedIntSet_get labels labelIdx;
        if checkNode = labelNode then do {
          d1 \<leftarrow> OrderedIntSet_get checkDists labelIdx;
          d2 \<leftarrow> rowget checkRow checkIdx;
          if jadd d1 d2 \<le> checkDist \<and> checkNode \<noteq> toCheck then Some True
          else Labels_isRedundantLoop toCheck checkDist checkLabels checkRow labels checkDists (checkIdx + 1) (labelIdx + 1)
        }
        else if checkNode < labelNode then
          Labels_isRedundantLoop toCheck checkDist checkLabels checkRow labels checkDists (checkIdx + 1) labelIdx
        else Labels_isRedundantLoop toCheck checkDist checkLabels checkRow labels checkDists checkIdx (labelIdx + 1)
      } else Some False)"
  by pat_completeness auto
termination
  by (relation "measure (\<lambda>(toCheck, checkDist, checkLabels, checkRow, labels, checkDists, checkIdx, labelIdx).
      nat (int (length checkLabels) - checkIdx) + nat (OrderedIntSet_size labels - labelIdx))") auto

declare Labels_isRedundantLoop.simps [simp del]

definition Labels_isRedundant :: "Labels \<Rightarrow> int \<Rightarrow> int \<Rightarrow> OrderedIntSet \<Rightarrow> OrderedIntSet \<Rightarrow> bool option" where
  "Labels_isRedundant L toCheck checkDist labels checkDists = do {
     checkLabels \<leftarrow> aget (lb_labelNodes L) toCheck;
     checkLabels \<leftarrow> checkLabels;
     checkRow \<leftarrow> aget (lb_labelDist L) toCheck;
     Labels_isRedundantLoop toCheck checkDist checkLabels checkRow labels checkDists 0 0
   }"

section \<open>The thread\<close>

record HLDijkstra =
  hl_calcOrder :: "int list"
  hl_startNodeIdx :: int
  hl_endNodeIdx :: int
  hl_foundIds :: OrderedIntSet
  hl_distances :: OrderedIntSet
  hl_firstEdgeId :: OrderedIntSet

definition HLDijkstra_new :: "int \<Rightarrow> int \<Rightarrow> int list \<Rightarrow> HLDijkstra option" where
  "HLDijkstra_new startNodeIdx endNodeIdx calcOrder = do {
     foundIds \<leftarrow> OrderedIntSet_new True 1000 2000;
     distances \<leftarrow> OrderedIntSet_new False 1000 2000;
     firstEdgeId \<leftarrow> OrderedIntSet_new False 1000 2000;
     Some \<lparr>hl_calcOrder = calcOrder, hl_startNodeIdx = startNodeIdx, hl_endNodeIdx = endNodeIdx,
       hl_foundIds = foundIds, hl_distances = distances, hl_firstEdgeId = firstEdgeId\<rparr>
   }"

text \<open>The three sets are changed at one index.\<close>

definition HLDijkstra_insert :: "HLDijkstra \<Rightarrow> int \<Rightarrow> int \<Rightarrow> int \<Rightarrow> int \<Rightarrow> HLDijkstra option" where
  "HLDijkstra_insert h node distance edge idx = do {
     foundIds \<leftarrow> OrderedIntSet_insertAtIdx (hl_foundIds h) node idx;
     distances \<leftarrow> OrderedIntSet_insertAtIdx (hl_distances h) distance idx;
     firstEdgeId \<leftarrow> OrderedIntSet_insertAtIdx (hl_firstEdgeId h) edge idx;
     Some (h\<lparr>hl_foundIds := foundIds, hl_distances := distances, hl_firstEdgeId := firstEdgeId\<rparr>)
   }"

definition HLDijkstra_addNeighbour ::
    "Nodes \<Rightarrow> Edges \<Rightarrow> int \<Rightarrow> int list \<Rightarrow> int \<Rightarrow> HLDijkstra \<times> int list \<times> int \<Rightarrow> (HLDijkstra \<times> int list \<times> int) option" where
  "HLDijkstra_addNeighbour ns es nodeLvl edgeIds i = (\<lambda>(h, neighbourIds, realNeighbourCount). do {
     edgeId \<leftarrow> aget edgeIds i;
     destNode \<leftarrow> Edges_getDest es edgeId;
     lvl \<leftarrow> Nodes_getNodeLvl ns destNode;
     if lvl < nodeLvl then Some (h, neighbourIds, realNeighbourCount)
     else do {
       edgeDist \<leftarrow> Edges_getDist es edgeId;
       neighbourIds \<leftarrow> aset neighbourIds realNeighbourCount destNode;
       insertIdx \<leftarrow> OrderedIntSet_getIdx (hl_foundIds h) destNode;
       h \<leftarrow> (if insertIdx < 0 then HLDijkstra_insert h destNode edgeDist edgeId ((insertIdx + 1) * (-1)) else Some h);
       Some (h, neighbourIds, realNeighbourCount + 1)
     }
   })"

definition HLDijkstra_addLabel ::
    "int list \<Rightarrow> int list option \<Rightarrow> int \<Rightarrow> int \<Rightarrow> int \<Rightarrow> HLDijkstra \<Rightarrow> HLDijkstra option" where
  "HLDijkstra_addLabel labels dist' baseDist baseEdge i h = do {
     currLabelNode \<leftarrow> aget labels i;
     currLabelIdx \<leftarrow> OrderedIntSet_getIdx (hl_foundIds h) currLabelNode;
     d \<leftarrow> rowget dist' i;
     let newDistance = jadd baseDist d;
     if currLabelIdx < 0 then HLDijkstra_insert h currLabelNode newDistance baseEdge ((currLabelIdx + 1) * (-1))
     else do {
       oldDistance \<leftarrow> OrderedIntSet_get (hl_distances h) currLabelIdx;
       if oldDistance > newDistance then do {
         distances \<leftarrow> OrderedIntSet_updateValue (hl_distances h) newDistance currLabelIdx;
         firstEdgeId \<leftarrow> OrderedIntSet_updateValue (hl_firstEdgeId h) baseEdge currLabelIdx;
         Some (h\<lparr>hl_distances := distances, hl_firstEdgeId := firstEdgeId\<rparr>)
       } else Some h
     }
   }"

definition HLDijkstra_addLabelsOf :: "Labels \<Rightarrow> int list \<Rightarrow> int \<Rightarrow> HLDijkstra \<Rightarrow> HLDijkstra option" where
  "HLDijkstra_addLabelsOf L neighbourIds j h = do {
     baseNodeId \<leftarrow> aget neighbourIds j;
     baseIdx \<leftarrow> OrderedIntSet_getIdx (hl_foundIds h) baseNodeId;
     baseDist \<leftarrow> OrderedIntSet_get (hl_distances h) baseIdx;
     baseEdge \<leftarrow> OrderedIntSet_get (hl_firstEdgeId h) baseIdx;
     labels \<leftarrow> Labels_getLabels L baseNodeId;
     labels \<leftarrow> labels;
     dist' \<leftarrow> Labels_getDist L baseNodeId;
     for_range 0 (int (length labels)) (HLDijkstra_addLabel labels dist' baseDist baseEdge) h
   }"

text \<open>The loop of \<open>removeRedundancies\<close>: an index is left out or the sets get shorter.\<close>

partial_function (option) HLDijkstra_removeLoop :: "Labels \<Rightarrow> int \<Rightarrow> int \<Rightarrow> HLDijkstra \<Rightarrow> HLDijkstra option" where
  "HLDijkstra_removeLoop L nodeId idx h =
     (if idx < OrderedIntSet_size (hl_foundIds h) then do {
        labelNode \<leftarrow> OrderedIntSet_get (hl_foundIds h) idx;
        redundant \<leftarrow> (if labelNode \<noteq> nodeId then do {
            d \<leftarrow> OrderedIntSet_get (hl_distances h) idx;
            Labels_isRedundant L labelNode d (hl_foundIds h) (hl_distances h)
          } else Some False);
        if redundant then do {
          foundIds \<leftarrow> OrderedIntSet_removeAtIdx (hl_foundIds h) idx;
          distances \<leftarrow> OrderedIntSet_removeAtIdx (hl_distances h) idx;
          firstEdgeId \<leftarrow> OrderedIntSet_removeAtIdx (hl_firstEdgeId h) idx;
          HLDijkstra_removeLoop L nodeId idx (h\<lparr>hl_foundIds := foundIds, hl_distances := distances, hl_firstEdgeId := firstEdgeId\<rparr>)
        }
        else HLDijkstra_removeLoop L nodeId (idx + 1) h
      } else Some h)"

declare HLDijkstra_removeLoop.simps [code]

definition HLDijkstra_removeRedundancies :: "Labels \<Rightarrow> HLDijkstra \<Rightarrow> int \<Rightarrow> HLDijkstra option" where
  "HLDijkstra_removeRedundancies L h nodeId = HLDijkstra_removeLoop L nodeId 0 h"

definition HLDijkstra_addLabels :: "HLDijkstra \<Rightarrow> Labels \<Rightarrow> int \<Rightarrow> (HLDijkstra \<times> Labels) option" where
  "HLDijkstra_addLabels h L nodeId = do {
     h \<leftarrow> HLDijkstra_removeRedundancies L h nodeId;
     ids \<leftarrow> OrderedIntSet_toArray (hl_foundIds h);
     edges \<leftarrow> OrderedIntSet_toArray (hl_firstEdgeId h);
     distances \<leftarrow> OrderedIntSet_toArray (hl_distances h);
     L \<leftarrow> Labels_addLabels L nodeId ids edges distances;
     Some (h, L)
   }"

definition HLDijkstra_start :: "HLDijkstra \<Rightarrow> int \<Rightarrow> HLDijkstra option" where
  "HLDijkstra_start h nodeId = do {
     (_, foundIds) \<leftarrow> OrderedIntSet_insertSorted (OrderedIntSet_clear (hl_foundIds h)) nodeId;
     distances \<leftarrow> OrderedIntSet_insertTail (OrderedIntSet_clear (hl_distances h)) 0;
     firstEdgeId \<leftarrow> OrderedIntSet_insertTail (OrderedIntSet_clear (hl_firstEdgeId h)) (-1);
     Some (h\<lparr>hl_foundIds := foundIds, hl_distances := distances, hl_firstEdgeId := firstEdgeId\<rparr>)
   }"

definition HLDijkstra_calcLabels ::
    "Nodes \<Rightarrow> Edges \<Rightarrow> DynamicGrid \<Rightarrow> int \<Rightarrow> HLDijkstra \<times> Labels \<Rightarrow> (HLDijkstra \<times> Labels) option" where
  "HLDijkstra_calcLabels ns es g nodeId = (\<lambda>(h, L). do {
     h \<leftarrow> HLDijkstra_start h nodeId;
     edgeCount \<leftarrow> DynamicGrid_getAllEdgeCount g nodeId;
     edgeIds \<leftarrow> DynamicGrid_getAllEdges g nodeId;
     nodeLvl \<leftarrow> Nodes_getNodeLvl ns nodeId;
     neighbourIds \<leftarrow> newArray edgeCount 0;
     (h, neighbourIds, realNeighbourCount) \<leftarrow>
       for_range 0 edgeCount (HLDijkstra_addNeighbour ns es nodeLvl edgeIds) (h, neighbourIds, 0);
     h \<leftarrow> for_range 0 realNeighbourCount (HLDijkstra_addLabelsOf L neighbourIds) h;
     HLDijkstra_addLabels h L nodeId
   })"

definition HLDijkstra_run :: "Nodes \<Rightarrow> Edges \<Rightarrow> DynamicGrid \<Rightarrow> HLDijkstra \<Rightarrow> Labels \<Rightarrow> (HLDijkstra \<times> Labels) option" where
  "HLDijkstra_run ns es g h L = for_range (hl_startNodeIdx h) (hl_endNodeIdx h) (\<lambda>nodeIdx (h, L). do {
     nodeId \<leftarrow> aget (hl_calcOrder h) nodeIdx;
     HLDijkstra_calcLabels ns es g nodeId (h, L)
   }) (h, L)"

section \<open>The merge that finds redundant labels\<close>

text \<open>Merging two increasing lists of nodes visits every common node.\<close>

lemma isRedundantLoop_ok:
  assumes "os_inv labels" "sorted_wrt (<) (os_contents labels)" "os_inv dists" "length (os_contents dists) = length (os_contents labels)"
    and "sorted_wrt (<) check" "length row = length check" "i \<le> length check" "j \<le> length (os_contents labels)"
    and "\<And>a b. a < length check \<Longrightarrow> b < length (os_contents labels) \<Longrightarrow> jadd (os_contents dists ! b) (row ! a) = os_contents dists ! b + row ! a"
  shows "Labels_isRedundantLoop toCheck d check (Some row) labels dists (int i) (int j) =
    Some (\<exists>a b. i \<le> a \<and> a < length check \<and> j \<le> b \<and> b < length (os_contents labels) \<and> check ! a = os_contents labels ! b \<and>
      check ! a \<noteq> toCheck \<and> os_contents dists ! b + row ! a \<le> d)"
  using assms(7,8)
proof (induction "(length check - i) + (length (os_contents labels) - j)" arbitrary: i j rule: less_induct)
  case less
  let ?p = "os_contents labels" let ?d = "os_contents dists"
  let ?Q = "\<lambda>i j. \<exists>a b. i \<le> a \<and> a < length check \<and> j \<le> b \<and> b < length ?p \<and> check ! a = ?p ! b \<and>
      check ! a \<noteq> toCheck \<and> ?d ! b + row ! a \<le> d"
  have sz: "OrderedIntSet_size labels = int (length ?p)" using assms(1) by (simp add: OrderedIntSet_size_eq)
  show ?case
  proof (cases "i < length check \<and> j < length ?p")
    case False
    then have "\<not> ?Q i j" using less.prems by auto
    then show ?thesis using False sz by (subst Labels_isRedundantLoop.simps) auto
  next
    case True
    have IH: "Labels_isRedundantLoop toCheck d check (Some row) labels dists (int i') (int j') = Some (?Q i' j')"
      if "i \<le> i'" "j \<le> j'" "i' \<le> Suc i" "j' \<le> Suc j" "i < i' \<or> j < j'" for i' j'
      by (rule less.hyps) (use that True in auto)
    have rd: "aget check (int i) = Some (check ! i)" "OrderedIntSet_get labels (int j) = Some (?p ! j)"
      "OrderedIntSet_get dists (int j) = Some (?d ! j)" "rowget (Some row) (int i) = Some (row ! i)"
      "jadd (?d ! j) (row ! i) = ?d ! j + row ! i"
      using True assms by (simp_all add: java OrderedIntSet_get_eq rowget_def)
    have succ: "int i + 1 = int (Suc i)" "int j + 1 = int (Suc j)" by simp_all
    note step = Labels_isRedundantLoop.simps[of toCheck d check "Some row" labels dists "int i" "int j"]
    have less_i: "check ! i < check ! a" if "i < a" "a < length check" for a using sorted_wrt_nth_less[OF assms(5) that] .
    have less_j: "?p ! j < ?p ! b" if "j < b" "b < length ?p" for b using sorted_wrt_nth_less[OF assms(2) that] .
    consider (eq) "check ! i = ?p ! j" | (lt) "check ! i < ?p ! j" | (gt) "?p ! j < check ! i" by linarith
    then show ?thesis
    proof cases
      case eq
      show ?thesis
      proof (cases "?d ! j + row ! i \<le> d \<and> check ! i \<noteq> toCheck")
        case hit: True
        then have "?Q i j" using True eq by blast
        then show ?thesis using True eq hit by (subst step) (simp add: rd sz)
      next
        case miss: False
        have "?Q i j \<longleftrightarrow> ?Q (Suc i) (Suc j)"
        proof
          assume "?Q i j"
          then obtain a b where q: "i \<le> a" "a < length check" "j \<le> b" "b < length ?p" "check ! a = ?p ! b" "check ! a \<noteq> toCheck"
            "?d ! b + row ! a \<le> d" by blast
          have "i < a" using q miss eq less_j[of b] by (cases "i = a"; cases "j = b") auto
          moreover have "j < b" using q miss eq less_i[of a] by (cases "i = a"; cases "j = b") auto
          ultimately show "?Q (Suc i) (Suc j)" using q by (meson Suc_leI)
        qed (meson Suc_leD)
        then show ?thesis using True eq miss IH[of "Suc i" "Suc j"] by (subst step) (simp add: rd sz succ del: of_nat_Suc; blast)
      qed
    next
      case lt
      have "?Q i j \<longleftrightarrow> ?Q (Suc i) j"
      proof
        assume "?Q i j"
        then obtain a b where q: "i \<le> a" "a < length check" "j \<le> b" "b < length ?p" "check ! a = ?p ! b" "check ! a \<noteq> toCheck"
          "?d ! b + row ! a \<le> d" by blast
        have "i < a" using q lt less_j[of b] by (cases "i = a"; cases "j = b") auto
        then show "?Q (Suc i) j" using q by (meson Suc_leI)
      qed (meson Suc_leD)
      then show ?thesis using True lt IH[of "Suc i" j] by (subst step) (simp add: rd sz succ del: of_nat_Suc)
    next
      case gt
      have "?Q i j \<longleftrightarrow> ?Q i (Suc j)"
      proof
        assume "?Q i j"
        then obtain a b where q: "i \<le> a" "a < length check" "j \<le> b" "b < length ?p" "check ! a = ?p ! b" "check ! a \<noteq> toCheck"
          "?d ! b + row ! a \<le> d" by blast
        have "j < b" using q gt less_i[of a] by (cases "i = a"; cases "j = b") auto
        then show "?Q i (Suc j)" using q by (meson Suc_leI)
      qed (meson Suc_leD)
      then show ?thesis using True gt IH[of i "Suc j"] by (subst step) (simp add: rd sz succ del: of_nat_Suc)
    qed
  qed
qed

section \<open>The three sets as one table\<close>

definition HLDijkstra_inv :: "HLDijkstra \<Rightarrow> bool" where
  "HLDijkstra_inv h \<longleftrightarrow> os_sorted (hl_foundIds h) \<and> os_inv (hl_distances h) \<and> os_inv (hl_firstEdgeId h) \<and>
     length (os_contents (hl_distances h)) = length (os_contents (hl_foundIds h)) \<and>
     length (os_contents (hl_firstEdgeId h)) = length (os_contents (hl_foundIds h))"

definition label_table :: "int list \<Rightarrow> int list \<Rightarrow> int list \<Rightarrow> int \<rightharpoonup> int \<times> int" where
  "label_table ids ds es = map_of (zip ids (zip ds es))"

definition HLDijkstra_table :: "HLDijkstra \<Rightarrow> int \<rightharpoonup> int \<times> int" where
  "HLDijkstra_table h = label_table (os_contents (hl_foundIds h)) (os_contents (hl_distances h)) (os_contents (hl_firstEdgeId h))"

lemma zip_insert_pos:
  "length a = length b \<Longrightarrow> zip (insert_pos a i x) (insert_pos b i y) = insert_pos (zip a b) i (x, y)"
  by (simp add: insert_pos_def take_zip drop_zip zip_append)

lemma zip_delete_pos:
  "length a = length b \<Longrightarrow> zip (delete_pos a i) (delete_pos b i) = delete_pos (zip a b) i"
  by (simp add: delete_pos_def take_zip drop_zip zip_append)

lemma map_of_insert_pos:
  assumes "x \<notin> fst ` set ps"
  shows "map_of (insert_pos ps i (x, v)) = (map_of ps)(x \<mapsto> v)"
proof -
  have "map_of ps = map_of (drop i ps) ++ map_of (take i ps)" by (metis append_take_drop_id map_of_append)
  moreover have "x \<notin> dom (map_of (take i ps))" using assms by (auto simp: dom_map_of_conv_image_fst dest: in_set_takeD)
  ultimately show ?thesis by (auto simp: insert_pos_def fun_eq_iff map_add_def split: option.splits)
qed

lemma map_of_delete_pos:
  assumes "distinct (map fst ps)" "i < length ps"
  shows "map_of (delete_pos ps i) = (map_of ps)(fst (ps ! i) := None)"
proof -
  have ps: "ps = take i ps @ ps ! i # drop (Suc i) ps" using assms(2) by (simp add: id_take_nth_drop)
  have d: "distinct (map fst (take i ps @ ps ! i # drop (Suc i) ps))" using assms(1) ps by simp
  then have n: "fst (ps ! i) \<notin> dom (map_of (take i ps))" "fst (ps ! i) \<notin> dom (map_of (drop (Suc i) ps))"
    by (auto simp: dom_map_of_conv_image_fst)
  have "map_of ps = (map_of (drop (Suc i) ps))(fst (ps ! i) \<mapsto> snd (ps ! i)) ++ map_of (take i ps)"
    by (subst ps) (cases "ps ! i"; simp)
  then show ?thesis using n by (auto simp: delete_pos_def fun_eq_iff map_add_def split: option.splits)
qed

lemma label_table_nth:
  assumes "sorted_wrt (<) ids" "length ds = length ids" "length es = length ids" "i < length ids"
  shows "label_table ids ds es (ids ! i) = Some (ds ! i, es ! i)"
  using assms strict_sorted_iff[of ids] map_of_zip_nth[of ids "zip ds es" i] by (simp add: label_table_def)

lemma label_table_dom: "length ds = length ids \<Longrightarrow> length es = length ids \<Longrightarrow> dom (label_table ids ds es) = set ids"
  by (simp add: label_table_def dom_map_of_zip)

lemma label_table_insert:
  assumes "length ds = length ids" "length es = length ids" "x \<notin> set ids"
  shows "label_table (insert_pos ids i x) (insert_pos ds i d) (insert_pos es i e) = (label_table ids ds es)(x \<mapsto> (d, e))"
proof -
  have "x \<notin> fst ` set (zip ids (zip ds es))" using assms(3) by (auto dest: set_zip_leftD)
  from map_of_insert_pos[OF this, of i "(d, e)"] assms(1,2) show ?thesis by (simp add: label_table_def zip_insert_pos)
qed

lemma label_table_delete:
  assumes "sorted_wrt (<) ids" "length ds = length ids" "length es = length ids" "i < length ids"
  shows "label_table (delete_pos ids i) (delete_pos ds i) (delete_pos es i) = (label_table ids ds es)(ids ! i := None)"
  unfolding label_table_def
  using assms strict_sorted_iff[of ids] map_of_delete_pos[of "zip ids (zip ds es)" i]
  by (simp add: zip_delete_pos)

lemma label_table_update:
  assumes "sorted_wrt (<) ids" "length ds = length ids" "length es = length ids" "i < length ids"
  shows "label_table ids (ds[i := d]) (es[i := e]) = (label_table ids ds es)(ids ! i \<mapsto> (d, e))"
proof
  fix x
  have dist: "distinct ids" using assms(1) strict_sorted_iff by blast
  show "label_table ids (ds[i := d]) (es[i := e]) x = ((label_table ids ds es)(ids ! i \<mapsto> (d, e))) x"
  proof (cases "x \<in> set ids")
    case True
    then obtain j where j: "j < length ids" "x = ids ! j" by (auto simp: in_set_conv_nth)
    then show ?thesis using assms dist label_table_nth[OF assms(1), of "ds[i := d]" "es[i := e]" j]
        label_table_nth[OF assms(1), of ds es j]
      by (auto simp: nth_list_update nth_eq_iff_index_eq)
  next
    case False
    then have "label_table ids (ds[i := d]) (es[i := e]) x = None" "label_table ids ds es x = None" "x \<noteq> ids ! i"
      using label_table_dom[of "ds[i := d]" ids "es[i := e]"] label_table_dom[of ds ids es] assms by (auto simp: domIff)
    then show ?thesis by simp
  qed
qed

text \<open>The operations of the thread on the table.\<close>

lemma HLDijkstra_invD:
  assumes "HLDijkstra_inv h"
  shows "os_sorted (hl_foundIds h)" "os_inv (hl_foundIds h)" "os_inv (hl_distances h)" "os_inv (hl_firstEdgeId h)"
    "length (os_contents (hl_distances h)) = length (os_contents (hl_foundIds h))"
    "length (os_contents (hl_firstEdgeId h)) = length (os_contents (hl_foundIds h))"
    "sorted_wrt (<) (os_contents (hl_foundIds h))"
    "dom (HLDijkstra_table h) = set (os_contents (hl_foundIds h))"
  using assms os_sorted_inv os_sorted_increasing
  by (auto simp: HLDijkstra_inv_def HLDijkstra_table_def label_table_dom)

lemma HLDijkstra_lookup:
  assumes "HLDijkstra_inv h" "x < MAX_VALUE"
  obtains (found) i d e where "HLDijkstra_table h x = Some (d, e)" "i < length (os_contents (hl_foundIds h))"
      "os_contents (hl_foundIds h) ! i = x" "OrderedIntSet_getIdx (hl_foundIds h) x = Some (int i)"
      "OrderedIntSet_get (hl_distances h) (int i) = Some d" "OrderedIntSet_get (hl_firstEdgeId h) (int i) = Some e"
  | (missing) i where "HLDijkstra_table h x = None" "i = lpos (os_contents (hl_foundIds h)) x" "i \<le> length (os_contents (hl_foundIds h))"
      "OrderedIntSet_getIdx (hl_foundIds h) x = Some (- int i - 1)" "x \<notin> set (os_contents (hl_foundIds h))"
proof -
  let ?p = "os_contents (hl_foundIds h)" let ?i = "lpos ?p x"
  note I = HLDijkstra_invD[OF assms(1)]
  have s: "OrderedIntSet_getIdx (hl_foundIds h) x = Some (if x \<in> set ?p then int ?i else - int ?i - 1)"
    by (rule os_sorted_search[OF I(1) assms(2)])
  show thesis
  proof (cases "x \<in> set ?p")
    case True
    then have i: "?i < length ?p" "?p ! ?i = x" using lpos_mem[OF I(7)] by auto
    have "HLDijkstra_table h x = Some (os_contents (hl_distances h) ! ?i, os_contents (hl_firstEdgeId h) ! ?i)"
      using label_table_nth[OF I(7,5,6) i(1)] i(2) by (simp add: HLDijkstra_table_def)
    then show thesis using i s I True by (intro found[of _ _ ?i]) (auto simp: OrderedIntSet_get_eq java)
  next
    case False
    then have "HLDijkstra_table h x = None" using I(8) by auto
    then show thesis using s False lpos_le[of ?p x] by (intro missing[of ?i]) auto
  qed
qed

lemma HLDijkstra_insert_ok:
  assumes "HLDijkstra_inv h" "x < MAX_VALUE" "x \<notin> set (os_contents (hl_foundIds h))" "i = lpos (os_contents (hl_foundIds h)) x"
  shows "\<exists>h'. HLDijkstra_insert h x d e (int i) = Some h' \<and> HLDijkstra_inv h' \<and>
    HLDijkstra_table h' = (HLDijkstra_table h)(x \<mapsto> (d, e)) \<and> hl_calcOrder h' = hl_calcOrder h"
proof -
  note I = HLDijkstra_invD[OF assms(1)]
  have i: "i \<le> length (os_contents (hl_foundIds h))" using assms(4) lpos_le by simp
  obtain f where f: "OrderedIntSet_insertAtIdx (hl_foundIds h) x (int i) = Some f" "os_sorted f"
    "os_contents f = insert_pos (os_contents (hl_foundIds h)) i x"
    using OrderedIntSet_insertAtIdx_ok[OF I(2) i] I(1) assms by blast
  obtain d' where d': "OrderedIntSet_insertAtIdx (hl_distances h) d (int i) = Some d'" "os_inv d'"
    "os_contents d' = insert_pos (os_contents (hl_distances h)) i d"
    using OrderedIntSet_insertAtIdx_ok[OF I(3), of i d] i I(5) by auto
  obtain e' where e': "OrderedIntSet_insertAtIdx (hl_firstEdgeId h) e (int i) = Some e'" "os_inv e'"
    "os_contents e' = insert_pos (os_contents (hl_firstEdgeId h)) i e"
    using OrderedIntSet_insertAtIdx_ok[OF I(4), of i e] i I(6) by auto
  have "HLDijkstra_inv (h\<lparr>hl_foundIds := f, hl_distances := d', hl_firstEdgeId := e'\<rparr>)"
    using f(2) d'(2) e'(2) i I(5,6) by (simp add: HLDijkstra_inv_def f(3) d'(3) e'(3))
  moreover have "HLDijkstra_table (h\<lparr>hl_foundIds := f, hl_distances := d', hl_firstEdgeId := e'\<rparr>) = (HLDijkstra_table h)(x \<mapsto> (d, e))"
    using label_table_insert[OF I(5,6) assms(3)] by (simp add: HLDijkstra_table_def f(3) d'(3) e'(3))
  ultimately show ?thesis by (simp add: HLDijkstra_insert_def f(1) d'(1) e'(1))
qed

lemma HLDijkstra_start_ok:
  assumes "HLDijkstra_inv h" "v < MAX_VALUE"
  shows "\<exists>h'. HLDijkstra_start h v = Some h' \<and> HLDijkstra_inv h' \<and> HLDijkstra_table h' = [v \<mapsto> (0, -1)] \<and> hl_calcOrder h' = hl_calcOrder h"
proof -
  note I = HLDijkstra_invD[OF assms(1)]
  have o: "os_orderedBySorting (hl_foundIds h)" using I(1) by (simp add: os_sorted_def)
  have c: "os_sorted (OrderedIntSet_clear (hl_foundIds h))" "os_contents (OrderedIntSet_clear (hl_foundIds h)) = []"
    using OrderedIntSet_clear_ok[OF I(2)] o by auto
  obtain i f where f: "OrderedIntSet_insertSorted (OrderedIntSet_clear (hl_foundIds h)) v = Some (i, f)" "os_sorted f"
    "os_contents f = [v]"
    using OrderedIntSet_insertSorted_new[OF c(1) assms(2)] c(2) by (auto simp: insert_pos_def)
  obtain d where d: "OrderedIntSet_insertTail (OrderedIntSet_clear (hl_distances h)) 0 = Some d" "os_inv d" "os_contents d = [0]"
    using OrderedIntSet_insertTail_ok[of "OrderedIntSet_clear (hl_distances h)" 0] OrderedIntSet_clear_ok[OF I(3)] by auto
  obtain e where e: "OrderedIntSet_insertTail (OrderedIntSet_clear (hl_firstEdgeId h)) (-1) = Some e" "os_inv e" "os_contents e = [-1]"
    using OrderedIntSet_insertTail_ok[of "OrderedIntSet_clear (hl_firstEdgeId h)" "-1"] OrderedIntSet_clear_ok[OF I(4)] by auto
  show ?thesis using f d e
    by (simp add: HLDijkstra_start_def HLDijkstra_inv_def HLDijkstra_table_def label_table_def)
qed

section \<open>The rows of the labels\<close>

text \<open>The labels of a node as a map from label nodes to distances, once they are calculated.\<close>

definition Labels_lab :: "Labels \<Rightarrow> int \<Rightarrow> int \<rightharpoonup> int" where
  "Labels_lab L v = (if v < 0 then Map.empty else (case (lb_labelNodes L ! nat v, lb_labelDist L ! nat v) of
     (Some ids, Some ds) \<Rightarrow> map_of (zip ids ds) | _ \<Rightarrow> Map.empty))"

definition Labels_sized :: "nat \<Rightarrow> Labels \<Rightarrow> bool" where
  "Labels_sized n L \<longleftrightarrow> length (lb_labelNodes L) = n \<and> length (lb_labelEdges L) = n \<and> length (lb_labelDist L) = n"

text \<open>A calculated row: three arrays in step, the label nodes increasing.\<close>

definition Labels_row :: "Labels \<Rightarrow> int \<Rightarrow> int list \<Rightarrow> int list \<Rightarrow> int list \<Rightarrow> bool" where
  "Labels_row L v ids es ds \<longleftrightarrow> 0 \<le> v \<and> v < int (length (lb_labelNodes L)) \<and> v < int (length (lb_labelDist L)) \<and>
     lb_labelNodes L ! nat v = Some ids \<and> lb_labelEdges L ! nat v = Some es \<and> lb_labelDist L ! nat v = Some ds \<and>
     sorted_wrt (<) ids \<and> length es = length ids \<and> length ds = length ids"

lemma Labels_lab_row:
  assumes "Labels_row L v ids es ds"
  shows "Labels_lab L v = map_of (zip ids ds)" "dom (Labels_lab L v) = set ids"
    "i < length ids \<Longrightarrow> Labels_lab L v (ids ! i) = Some (ds ! i)"
  using assms strict_sorted_iff[of ids] map_of_zip_nth[of ids ds i]
  by (auto simp: Labels_row_def Labels_lab_def dom_map_of_zip)

lemma Labels_lab_Some:
  assumes "Labels_row L v ids es ds" "Labels_lab L v x = Some d"
  obtains i where "i < length ids" "ids ! i = x" "ds ! i = d"
proof -
  have "x \<in> set ids" using Labels_lab_row(2)[OF assms(1)] assms(2) by blast
  then obtain i where i: "i < length ids" "ids ! i = x" by (auto simp: in_set_conv_nth)
  with Labels_lab_row(3)[OF assms(1) i(1)] assms(2) that show thesis by simp
qed

text \<open>A label of a table is redundant when another label of it is also a label of the label node.\<close>

definition redundant :: "(int \<Rightarrow> int \<rightharpoonup> int) \<Rightarrow> (int \<rightharpoonup> int \<times> int) \<Rightarrow> int \<Rightarrow> int \<Rightarrow> bool" where
  "redundant lab T x d \<longleftrightarrow> (\<exists>y d1 e d2. y \<noteq> x \<and> T y = Some (d1, e) \<and> lab x y = Some d2 \<and> d1 + d2 \<le> d)"

text \<open>All distances are small enough for the sum of two of them to be exact.\<close>

definition small :: "int \<Rightarrow> bool" where
  "small d \<longleftrightarrow> 0 \<le> d \<and> d \<le> 1073741823"

lemma jadd_small: "small a \<Longrightarrow> small b \<Longrightarrow> jadd a b = a + b"
  by (simp add: small_def jadd_exact MAX_VALUE_def)

lemma HLDijkstra_table_Some:
  assumes "HLDijkstra_inv h" "HLDijkstra_table h x = Some (d, e)"
  obtains i where "i < length (os_contents (hl_foundIds h))" "os_contents (hl_foundIds h) ! i = x"
    "os_contents (hl_distances h) ! i = d" "os_contents (hl_firstEdgeId h) ! i = e"
proof -
  note I = HLDijkstra_invD[OF assms(1)]
  have "x \<in> set (os_contents (hl_foundIds h))" using I(8) assms(2) by blast
  then obtain i where i: "i < length (os_contents (hl_foundIds h))" "os_contents (hl_foundIds h) ! i = x"
    by (auto simp: in_set_conv_nth)
  with label_table_nth[OF I(7,5,6) i(1)] assms(2) that show thesis by (simp add: HLDijkstra_table_def)
qed

lemma HLDijkstra_table_nth:
  assumes "HLDijkstra_inv h" "i < length (os_contents (hl_foundIds h))"
  shows "HLDijkstra_table h (os_contents (hl_foundIds h) ! i) =
    Some (os_contents (hl_distances h) ! i, os_contents (hl_firstEdgeId h) ! i)"
  using label_table_nth[OF HLDijkstra_invD(7,5,6)[OF assms(1)] assms(2)] by (simp add: HLDijkstra_table_def)

lemma Labels_isRedundant_ok:
  assumes h: "HLDijkstra_inv h" and row: "Labels_row L x ids es ds" and "\<forall>d \<in> set ds. small d"
    and T: "\<And>y d e. HLDijkstra_table h y = Some (d, e) \<Longrightarrow> small d"
  shows "Labels_isRedundant L x d (hl_foundIds h) (hl_distances h) = Some (redundant (Labels_lab L) (HLDijkstra_table h) x d)"
proof -
  note I = HLDijkstra_invD[OF h]
  let ?p = "os_contents (hl_foundIds h)" let ?d = "os_contents (hl_distances h)"
  have r: "sorted_wrt (<) ids" "length ds = length ids" "aget (lb_labelNodes L) x = Some (Some ids)"
    "aget (lb_labelDist L) x = Some (Some ds)" using row by (auto simp: Labels_row_def java)
  have sm: "jadd (?d ! b) (ds ! a) = ?d ! b + ds ! a" if "a < length ids" "b < length ?p" for a b
    using T[OF HLDijkstra_table_nth[OF h that(2)]] assms(3) that r(2) by (intro jadd_small) auto
  have "Labels_isRedundantLoop x d ids (Some ds) (hl_foundIds h) (hl_distances h) (int 0) (int 0) =
      Some (\<exists>a b. 0 \<le> a \<and> a < length ids \<and> 0 \<le> b \<and> b < length ?p \<and> ids ! a = ?p ! b \<and> ids ! a \<noteq> x \<and> ?d ! b + ds ! a \<le> d)"
    by (rule isRedundantLoop_ok[OF I(2,7,3,5) r(1,2)]) (auto intro: sm)
  moreover have "(\<exists>a b. 0 \<le> a \<and> a < length ids \<and> 0 \<le> b \<and> b < length ?p \<and> ids ! a = ?p ! b \<and> ids ! a \<noteq> x \<and> ?d ! b + ds ! a \<le> d)
      \<longleftrightarrow> redundant (Labels_lab L) (HLDijkstra_table h) x d"
  proof
    assume "\<exists>a b. 0 \<le> a \<and> a < length ids \<and> 0 \<le> b \<and> b < length ?p \<and> ids ! a = ?p ! b \<and> ids ! a \<noteq> x \<and> ?d ! b + ds ! a \<le> d"
    then obtain a b where ab: "a < length ids" "b < length ?p" "ids ! a = ?p ! b" "ids ! a \<noteq> x" "?d ! b + ds ! a \<le> d" by blast
    then show "redundant (Labels_lab L) (HLDijkstra_table h) x d" unfolding redundant_def
      using Labels_lab_row(3)[OF row ab(1)] HLDijkstra_table_nth[OF h ab(2)]
      by (intro exI[of _ "ids ! a"] exI[of _ "?d ! b"] exI[of _ "os_contents (hl_firstEdgeId h) ! b"] exI[of _ "ds ! a"]) simp
  next
    assume "redundant (Labels_lab L) (HLDijkstra_table h) x d"
    then obtain y d1 e d2 where y: "y \<noteq> x" "HLDijkstra_table h y = Some (d1, e)" "Labels_lab L x y = Some d2" "d1 + d2 \<le> d"
      unfolding redundant_def by blast
    obtain b where "b < length ?p" "?p ! b = y" "?d ! b = d1" by (rule HLDijkstra_table_Some[OF h y(2)])
    moreover obtain a where "a < length ids" "ids ! a = y" "ds ! a = d2" by (rule Labels_lab_Some[OF row y(3)])
    ultimately show "\<exists>a b. 0 \<le> a \<and> a < length ids \<and> 0 \<le> b \<and> b < length ?p \<and> ids ! a = ?p ! b \<and> ids ! a \<noteq> x \<and> ?d ! b + ds ! a \<le> d"
      using y(1,4) by (intro exI[of _ a] exI[of _ b]) simp
  qed
  ultimately show ?thesis unfolding Labels_isRedundant_def using r(3,4) by simp
qed

section \<open>Removing redundant labels\<close>

text \<open>
  The table \<open>R\<close> is what remains of \<open>T\<close>: every label that is gone was redundant in \<open>T\<close>, and none that
  is left is redundant in \<open>R\<close>.
\<close>

definition pruned :: "(int \<Rightarrow> int \<rightharpoonup> int) \<Rightarrow> int \<Rightarrow> (int \<rightharpoonup> int \<times> int) \<Rightarrow> (int \<rightharpoonup> int \<times> int) \<Rightarrow> bool" where
  "pruned lab v T R \<longleftrightarrow> R \<subseteq>\<^sub>m T \<and> R v = T v \<and>
     (\<forall>x d e. T x = Some (d, e) \<and> R x = None \<longrightarrow> redundant lab T x d) \<and>
     (\<forall>x d e. x \<noteq> v \<and> R x = Some (d, e) \<longrightarrow> \<not> redundant lab R x d)"

lemma redundant_mono: "R \<subseteq>\<^sub>m T \<Longrightarrow> redundant lab R x d \<Longrightarrow> redundant lab T x d"
  unfolding redundant_def by (metis domIff map_le_def option.distinct(1))

lemma HLDijkstra_remove_ok:
  assumes h: "HLDijkstra_inv h" and k: "k < length (os_contents (hl_foundIds h))"
  shows "\<exists>f d e. OrderedIntSet_removeAtIdx (hl_foundIds h) (int k) = Some f \<and>
    OrderedIntSet_removeAtIdx (hl_distances h) (int k) = Some d \<and> OrderedIntSet_removeAtIdx (hl_firstEdgeId h) (int k) = Some e \<and>
    HLDijkstra_inv (h\<lparr>hl_foundIds := f, hl_distances := d, hl_firstEdgeId := e\<rparr>) \<and>
    os_contents f = delete_pos (os_contents (hl_foundIds h)) k \<and>
    HLDijkstra_table (h\<lparr>hl_foundIds := f, hl_distances := d, hl_firstEdgeId := e\<rparr>) =
      (HLDijkstra_table h)(os_contents (hl_foundIds h) ! k := None)"
proof -
  note I = HLDijkstra_invD[OF h]
  obtain f where f: "OrderedIntSet_removeAtIdx (hl_foundIds h) (int k) = Some f" "os_sorted f"
    "os_contents f = delete_pos (os_contents (hl_foundIds h)) k"
    using OrderedIntSet_removeAtIdx_ok[OF I(2) k] I(1) by blast
  obtain d where d: "OrderedIntSet_removeAtIdx (hl_distances h) (int k) = Some d" "os_inv d"
    "os_contents d = delete_pos (os_contents (hl_distances h)) k"
    using OrderedIntSet_removeAtIdx_ok[OF I(3), of k] k I(5) by auto
  obtain e where e: "OrderedIntSet_removeAtIdx (hl_firstEdgeId h) (int k) = Some e" "os_inv e"
    "os_contents e = delete_pos (os_contents (hl_firstEdgeId h)) k"
    using OrderedIntSet_removeAtIdx_ok[OF I(4), of k] k I(6) by auto
  show ?thesis
    using f d e k I(5,6) label_table_delete[OF I(7,5,6) k] by (simp add: HLDijkstra_inv_def HLDijkstra_table_def)
qed

text \<open>What the loop needs of the labels of the nodes in the table.\<close>

definition Labels_readable :: "Labels \<Rightarrow> int \<Rightarrow> bool" where
  "Labels_readable L x \<longleftrightarrow> (\<exists>ids es ds. Labels_row L x ids es ds \<and> (\<forall>d \<in> set ds. small d))"

lemma HLDijkstra_removeLoop_ok:
  assumes "HLDijkstra_inv h" and "k \<le> length (os_contents (hl_foundIds h))"
    and "\<And>x. x \<in> dom (HLDijkstra_table h) \<Longrightarrow> x \<noteq> v \<Longrightarrow> Labels_readable L x"
    and "\<And>y d e. HLDijkstra_table h y = Some (d, e) \<Longrightarrow> small d"
    and "\<And>j d e. j < k \<Longrightarrow> os_contents (hl_foundIds h) ! j \<noteq> v \<Longrightarrow>
      \<not> redundant (Labels_lab L) (HLDijkstra_table h) (os_contents (hl_foundIds h) ! j) (os_contents (hl_distances h) ! j)"
  shows "\<exists>h'. HLDijkstra_removeLoop L v (int k) h = Some h' \<and> HLDijkstra_inv h' \<and> hl_calcOrder h' = hl_calcOrder h \<and>
    pruned (Labels_lab L) v (HLDijkstra_table h) (HLDijkstra_table h')"
  using assms
proof (induction "length (os_contents (hl_foundIds h)) - k" arbitrary: h k rule: less_induct)
  case less
  let ?p = "os_contents (hl_foundIds h)" let ?T = "HLDijkstra_table h" let ?d = "os_contents (hl_distances h)"
  note h = less.prems(1) note I = HLDijkstra_invD[OF h]
  have sz: "OrderedIntSet_size (hl_foundIds h) = int (length ?p)" using I(2) by (simp add: OrderedIntSet_size_eq)
  show ?case
  proof (cases "k < length ?p")
    case False
    have "\<not> redundant (Labels_lab L) ?T x d" if x: "x \<noteq> v" "?T x = Some (d, e)" for x d e
    proof -
      obtain i where "i < length ?p" "?p ! i = x" "?d ! i = d" by (rule HLDijkstra_table_Some[OF h x(2)])
      then show ?thesis using less.prems(5)[of i] False x(1) by auto
    qed
    then have "pruned (Labels_lab L) v ?T ?T" by (auto simp: pruned_def)
    then show ?thesis using False sz h by (subst HLDijkstra_removeLoop.simps) simp
  next
    case True
    let ?x = "?p ! k"
    have T: "?T ?x = Some (?d ! k, os_contents (hl_firstEdgeId h) ! k)" by (rule HLDijkstra_table_nth[OF h True])
    have rd: "OrderedIntSet_get (hl_foundIds h) (int k) = Some ?x" "OrderedIntSet_get (hl_distances h) (int k) = Some (?d ! k)"
      using True I by (simp_all add: OrderedIntSet_get_eq java)
    have test: "(if ?x \<noteq> v then do { d \<leftarrow> OrderedIntSet_get (hl_distances h) (int k);
          Labels_isRedundant L ?x d (hl_foundIds h) (hl_distances h) } else Some False) =
        Some (?x \<noteq> v \<and> redundant (Labels_lab L) ?T ?x (?d ! k))"
    proof (cases "?x = v")
      case False
      then obtain ids es ds where "Labels_row L ?x ids es ds" "\<forall>d \<in> set ds. small d"
        using less.prems(3)[of ?x] T by (auto simp: Labels_readable_def)
      from Labels_isRedundant_ok[OF h this less.prems(4)] False show ?thesis by (simp add: rd)
    qed simp
    show ?thesis
    proof (cases "?x \<noteq> v \<and> redundant (Labels_lab L) ?T ?x (?d ! k)")
      case red: True
      obtain f d e where rm: "OrderedIntSet_removeAtIdx (hl_foundIds h) (int k) = Some f"
        "OrderedIntSet_removeAtIdx (hl_distances h) (int k) = Some d" "OrderedIntSet_removeAtIdx (hl_firstEdgeId h) (int k) = Some e"
        "HLDijkstra_inv (h\<lparr>hl_foundIds := f, hl_distances := d, hl_firstEdgeId := e\<rparr>)"
        "os_contents f = delete_pos ?p k"
        "HLDijkstra_table (h\<lparr>hl_foundIds := f, hl_distances := d, hl_firstEdgeId := e\<rparr>) = ?T(?x := None)"
        using HLDijkstra_remove_ok[OF h True] by blast
      let ?h = "h\<lparr>hl_foundIds := f, hl_distances := d, hl_firstEdgeId := e\<rparr>"
      have le: "?T(?x := None) \<subseteq>\<^sub>m ?T" by (simp add: map_le_def)
      have at: "os_contents f ! j = ?p ! j" "os_contents d ! j = ?d ! j" if "j < k" for j
      proof -
        show 1: "os_contents f ! j = ?p ! j" using rm(5) that True by (simp add: delete_pos_def nth_append)
        have "j < length (os_contents f)" using rm(5) that True by simp
        from HLDijkstra_table_nth[OF rm(4), of j] this 
        have "HLDijkstra_table ?h (?p ! j) = Some (os_contents d ! j, os_contents e ! j)" using 1 by simp
        moreover have "?p ! j \<noteq> ?x" using sorted_wrt_nth_less[OF I(7), of j k] that True by auto
        ultimately show "os_contents d ! j = ?d ! j" using HLDijkstra_table_nth[OF h, of j] that True by (simp add: rm(6))
      qed
      have "\<exists>h'. HLDijkstra_removeLoop L v (int k) ?h = Some h' \<and> HLDijkstra_inv h' \<and> hl_calcOrder h' = hl_calcOrder ?h \<and>
          pruned (Labels_lab L) v (HLDijkstra_table ?h) (HLDijkstra_table h')"
      proof (rule less.hyps)
        show "length (os_contents (hl_foundIds ?h)) - k < length ?p - k" using rm(5) True by simp
        show "HLDijkstra_inv ?h" by (rule rm(4))
        show "k \<le> length (os_contents (hl_foundIds ?h))" using rm(5) True by simp
        show "Labels_readable L x" if "x \<in> dom (HLDijkstra_table ?h)" "x \<noteq> v" for x
          using that less.prems(3)[of x] unfolding rm(6) by (auto split: if_splits)
        show "small d'" if "HLDijkstra_table ?h y = Some (d', e')" for y d' e'
          using that less.prems(4) unfolding rm(6) by (auto split: if_splits)
        show "\<not> redundant (Labels_lab L) (HLDijkstra_table ?h) (os_contents (hl_foundIds ?h) ! j) (os_contents (hl_distances ?h) ! j)"
          if "j < k" "os_contents (hl_foundIds ?h) ! j \<noteq> v" for j
          using less.prems(5)[OF that(1)] that redundant_mono[OF le] at[OF that(1)] unfolding rm(6) by auto
      qed
      then obtain h' where h': "HLDijkstra_removeLoop L v (int k) ?h = Some h'" "HLDijkstra_inv h'" "hl_calcOrder h' = hl_calcOrder h"
        "pruned (Labels_lab L) v (?T(?x := None)) (HLDijkstra_table h')" unfolding rm(6) by auto
      have "HLDijkstra_removeLoop L v (int k) h = Some h'"
        using True sz test red rm(1-3) h'(1) rd(1) by (subst HLDijkstra_removeLoop.simps) simp
      moreover have "pruned (Labels_lab L) v ?T (HLDijkstra_table h')"
      proof -
        note P = h'(4)[unfolded pruned_def]
        have gone: "redundant (Labels_lab L) ?T y d'" if "?T y = Some (d', e')" "HLDijkstra_table h' y = None" for y d' e'
        proof (cases "y = ?x")
          case True
          then show ?thesis using red T that(1) by simp
        next
          case False
          then have "redundant (Labels_lab L) (?T(?x := None)) y d'" using P that by (metis fun_upd_other)
          then show ?thesis by (rule redundant_mono[OF le])
        qed
        have "HLDijkstra_table h' \<subseteq>\<^sub>m ?T" using P map_le_trans[OF _ le] by blast
        moreover have "HLDijkstra_table h' v = ?T v" using P red by simp
        ultimately show ?thesis using P gone unfolding pruned_def by blast
      qed
      ultimately show ?thesis using h'(2,3) by blast
    next
      case keep: False
      have "\<exists>h'. HLDijkstra_removeLoop L v (int (Suc k)) h = Some h' \<and> HLDijkstra_inv h' \<and> hl_calcOrder h' = hl_calcOrder h \<and>
          pruned (Labels_lab L) v ?T (HLDijkstra_table h')"
      proof (rule less.hyps)
        show "\<not> redundant (Labels_lab L) ?T (?p ! j) (?d ! j)" if "j < Suc k" "?p ! j \<noteq> v" for j
          using that less.prems(5)[of j] keep by (cases "j = k") auto
      qed (use True less.prems in auto)
      then obtain h' where h': "HLDijkstra_removeLoop L v (int k + 1) h = Some h'" "HLDijkstra_inv h'" "hl_calcOrder h' = hl_calcOrder h"
        "pruned (Labels_lab L) v ?T (HLDijkstra_table h')" by (auto simp: add.commute)
      moreover have "HLDijkstra_removeLoop L v (int k) h = Some h'"
        using True sz test keep h'(1) rd(1) by (subst HLDijkstra_removeLoop.simps) simp
      ultimately show ?thesis by blast
    qed
  qed
qed

section \<open>The hierarchy the labels are calculated for\<close>

definition up_edges :: "Nodes \<Rightarrow> Edges \<Rightarrow> DynamicGrid \<Rightarrow> int \<Rightarrow> int list" where
  "up_edges ns es g v = filter (\<lambda>e. node_lvl ns v \<le> node_lvl ns (edge_dest es e)) (all_edges g v)"

definition up_adj :: "Nodes \<Rightarrow> Edges \<Rightarrow> DynamicGrid \<Rightarrow> adjacency" where
  "up_adj ns es g v = map (\<lambda>e. (edge_dest es e, edge_dist es e)) (up_edges ns es g v)"

text \<open>
  What the contraction leaves behind: arrays for \<open>n\<close> nodes, edges between nodes of different levels,
  upward walks with small lengths, and of parallel upward edges the first is the shortest.
\<close>

definition hierarchy_ok :: "nat \<Rightarrow> Nodes \<Rightarrow> Edges \<Rightarrow> DynamicGrid \<Rightarrow> bool" where
  "hierarchy_ok n ns es g \<longleftrightarrow> int n \<le> MAX_VALUE \<and>
     (\<exists>lv. no_levels ns = Some lv \<and> length lv = n) \<and>
     (\<exists>rows counts. dg_allEdgeIds g = Some rows \<and> dg_allEdgeCount g = Some counts \<and> length rows = n \<and> length counts = n \<and>
        (\<forall>v < n. 0 \<le> counts ! v \<and> counts ! v \<le> int (length (rows ! v)))) \<and>
     (\<forall>v. 0 \<le> v \<and> v < int n \<longrightarrow> (\<forall>e \<in> set (all_edges g v).
        Edges_getDest es e = Some (edge_dest es e) \<and> 0 \<le> edge_dest es e \<and> edge_dest es e < int n \<and>
        Edges_getDist es e = Some (edge_dist es e) \<and> 0 \<le> edge_dist es e \<and> node_lvl ns (edge_dest es e) \<noteq> node_lvl ns v)) \<and>
     (\<forall>v h d. 0 \<le> v \<and> v < int n \<and> up_walk (up_adj ns es g) v h d \<longrightarrow> small d) \<and>
     (\<forall>v. 0 \<le> v \<and> v < int n \<longrightarrow>
        sorted_wrt (\<lambda>e e'. edge_dest es e = edge_dest es e' \<longrightarrow> edge_dist es e \<le> edge_dist es e') (up_edges ns es g v))"

lemma hierarchy_okD:
  assumes "hierarchy_ok n ns es g"
  shows "int n \<le> MAX_VALUE"
    and "0 \<le> v \<Longrightarrow> v < int n \<Longrightarrow> Nodes_getNodeLvl ns v = Some (node_lvl ns v)"
    and "0 \<le> v \<Longrightarrow> v < int n \<Longrightarrow> DynamicGrid_getAllEdgeCount g v = Some (int (length (all_edges g v)))"
    and "0 \<le> v \<Longrightarrow> v < int n \<Longrightarrow> \<exists>row. DynamicGrid_getAllEdges g v = Some row \<and>
       length (all_edges g v) \<le> length row \<and> (\<forall>i < length (all_edges g v). row ! i = all_edges g v ! i)"
    and "0 \<le> v \<Longrightarrow> v < int n \<Longrightarrow> e \<in> set (all_edges g v) \<Longrightarrow> Edges_getDest es e = Some (edge_dest es e) \<and>
       0 \<le> edge_dest es e \<and> edge_dest es e < int n \<and> Edges_getDist es e = Some (edge_dist es e) \<and> 0 \<le> edge_dist es e \<and>
       node_lvl ns (edge_dest es e) \<noteq> node_lvl ns v"
    and "0 \<le> v \<Longrightarrow> v < int n \<Longrightarrow> up_walk (up_adj ns es g) v h d \<Longrightarrow> small d"
    and "0 \<le> v \<Longrightarrow> v < int n \<Longrightarrow>
       sorted_wrt (\<lambda>e e'. edge_dest es e = edge_dest es e' \<longrightarrow> edge_dist es e \<le> edge_dist es e') (up_edges ns es g v)"
proof -
  note H = assms[unfolded hierarchy_ok_def]
  show "int n \<le> MAX_VALUE" using H by blast
  show "Nodes_getNodeLvl ns v = Some (node_lvl ns v)" if "0 \<le> v" "v < int n"
    using H that by (auto simp: Nodes_getNodeLvl_def node_lvl_def java)
  obtain rows counts where rc: "dg_allEdgeIds g = Some rows" "dg_allEdgeCount g = Some counts" "length rows = n" "length counts = n"
    "\<And>v. v < n \<Longrightarrow> 0 \<le> counts ! v \<and> counts ! v \<le> int (length (rows ! v))" using H by blast
  show "DynamicGrid_getAllEdgeCount g v = Some (int (length (all_edges g v)))" if "0 \<le> v" "v < int n"
    using rc(1-4) rc(5)[of "nat v"] that by (auto simp: DynamicGrid_getAllEdgeCount_def all_edges_def java nat_less_iff)
  show "\<exists>row. DynamicGrid_getAllEdges g v = Some row \<and>
       length (all_edges g v) \<le> length row \<and> (\<forall>i < length (all_edges g v). row ! i = all_edges g v ! i)" if "0 \<le> v" "v < int n"
    using rc(1-4) that by (auto simp: DynamicGrid_getAllEdges_def all_edges_def java)
  show "Edges_getDest es e = Some (edge_dest es e) \<and>
       0 \<le> edge_dest es e \<and> edge_dest es e < int n \<and> Edges_getDist es e = Some (edge_dist es e) \<and> 0 \<le> edge_dist es e \<and>
       node_lvl ns (edge_dest es e) \<noteq> node_lvl ns v" if "0 \<le> v" "v < int n" "e \<in> set (all_edges g v)"
    using H that by blast
  show "small d" if "0 \<le> v" "v < int n" "up_walk (up_adj ns es g) v h d" using H that by blast
  show "sorted_wrt (\<lambda>e e'. edge_dest es e = edge_dest es e' \<longrightarrow> edge_dist es e \<le> edge_dist es e') (up_edges ns es g v)"
    if "0 \<le> v" "v < int n" using H that by blast
qed

section \<open>The candidates\<close>

text \<open>
  The table of candidates of a node \<open>v\<close>: \<open>v\<close> itself, and nodes that an upward walk reaches whose
  first edge is recorded. Loops only \<open>improve\<close> a table.
\<close>

definition cand :: "Edges \<Rightarrow> adjacency \<Rightarrow> int list \<Rightarrow> int \<Rightarrow> (int \<rightharpoonup> int \<times> int) \<Rightarrow> bool" where
  "cand es up E v T \<longleftrightarrow> T v = Some (0, -1) \<and>
     (\<forall>x d e. x \<noteq> v \<and> T x = Some (d, e) \<longrightarrow> e \<in> set E \<and> up_walk up (edge_dest es e) x (d - edge_dist es e))"

definition at_most :: "(int \<rightharpoonup> int \<times> int) \<Rightarrow> int \<Rightarrow> int \<Rightarrow> bool" where
  "at_most T x d \<longleftrightarrow> (\<exists>d' e. T x = Some (d', e) \<and> d' \<le> d)"

definition improves :: "(int \<rightharpoonup> int \<times> int) \<Rightarrow> (int \<rightharpoonup> int \<times> int) \<Rightarrow> bool" where
  "improves T T' \<longleftrightarrow> (\<forall>x d. at_most T x d \<longrightarrow> at_most T' x d)"

lemma improves_refl [simp]: "improves T T"
  by (simp add: improves_def)

lemma improves_trans: "improves T T' \<Longrightarrow> improves T' T'' \<Longrightarrow> improves T T''"
  by (simp add: improves_def)

lemma at_most_mono: "at_most T x d \<Longrightarrow> d \<le> d' \<Longrightarrow> at_most T x d'"
  unfolding at_most_def by (meson order_trans)

lemma HLDijkstra_addNeighbour_ok:
  assumes H: "hierarchy_ok n ns es g" and v: "0 \<le> v" "v < int n" and k: "k < length (all_edges g v)"
    and row: "\<forall>i < length (all_edges g v). row ! i = all_edges g v ! i" "length (all_edges g v) \<le> length row"
    and h: "HLDijkstra_inv h" and nb: "length nb = length (all_edges g v)"
    and E: "E = filter (\<lambda>e. node_lvl ns v \<le> node_lvl ns (edge_dest es e)) (take k (all_edges g v))"
    and E': "E' = filter (\<lambda>e. node_lvl ns v \<le> node_lvl ns (edge_dest es e)) (take (Suc k) (all_edges g v))"
    and c: "cand es (up_adj ns es g) E v (HLDijkstra_table h)"
    and first: "\<And>x d e. x \<noteq> v \<Longrightarrow> HLDijkstra_table h x = Some (d, e) \<Longrightarrow> edge_dest es e = x \<and> d = edge_dist es e"
    and cov: "\<And>e. e \<in> set E \<Longrightarrow> at_most (HLDijkstra_table h) (edge_dest es e) (edge_dist es e)"
    and tk: "take (length E) nb = map (edge_dest es) E"
  shows "\<exists>h' nb'. HLDijkstra_addNeighbour ns es (node_lvl ns v) row (int k) (h, nb, int (length E)) = Some (h', nb', int (length E')) \<and>
    HLDijkstra_inv h' \<and> hl_calcOrder h' = hl_calcOrder h \<and> length nb' = length nb \<and> cand es (up_adj ns es g) E' v (HLDijkstra_table h') \<and>
    (\<forall>x d e. x \<noteq> v \<longrightarrow> HLDijkstra_table h' x = Some (d, e) \<longrightarrow> edge_dest es e = x \<and> d = edge_dist es e) \<and>
    (\<forall>e \<in> set E'. at_most (HLDijkstra_table h') (edge_dest es e) (edge_dist es e)) \<and>
    take (length E') nb' = map (edge_dest es) E'"
proof -
  let ?e = "all_edges g v ! k" let ?x = "edge_dest es ?e" let ?T = "HLDijkstra_table h"
  have e: "Edges_getDest es ?e = Some ?x" "0 \<le> ?x" "?x < int n" "Edges_getDist es ?e = Some (edge_dist es ?e)"
    "node_lvl ns ?x \<noteq> node_lvl ns v" "0 \<le> edge_dist es ?e"
    using hierarchy_okD(5)[OF H v, of ?e] k by simp_all
  have rd: "aget row (int k) = Some ?e" "Nodes_getNodeLvl ns ?x = Some (node_lvl ns ?x)"
    using k row hierarchy_okD(2)[OF H e(2,3)] by (simp_all add: java)
  have tkS: "take (Suc k) (all_edges g v) = take k (all_edges g v) @ [?e]" using k by (simp add: take_Suc_conv_app_nth)
  show ?thesis
  proof (cases "node_lvl ns ?x < node_lvl ns v")
    case True
    then have EE: "E' = E" using E E' tkS by simp
    have run: "HLDijkstra_addNeighbour ns es (node_lvl ns v) row (int k) (h, nb, int (length E)) = Some (h, nb, int (length E))"
      using True e(1) rd by (simp add: HLDijkstra_addNeighbour_def)
    show ?thesis unfolding EE
      by (rule exI[of _ h], rule exI[of _ nb]) (use run h c first cov tk in auto)
  next
    case False
    then have EE: "E' = E @ [?e]" using E E' tkS by simp
    have xv: "?x \<noteq> v" using e(5) by auto
    have "length E \<le> k" using E length_filter_le[of _ "take k (all_edges g v)"] k by (metis length_take min.absorb4 min_def)
    then have Ek: "length E < length nb" using k nb by simp
    define nb' where "nb' = nb[length E := ?x]"
    have set': "aset nb (int (length E)) ?x = Some nb'" using Ek by (simp add: java nb'_def)
    have tk': "take (length E') nb' = map (edge_dest es) E'" "length nb' = length nb"
      using tk Ek by (simp_all add: EE nb'_def take_append_slot)
    have "?x < MAX_VALUE" using e(3) hierarchy_okD(1)[OF H] by simp
    from h this show ?thesis
    proof (cases rule: HLDijkstra_lookup)
      case (found i d' e')
      have "e' \<in> set E" "edge_dest es e' = ?x" "d' = edge_dist es e'"
        using c first[OF xv found(1)] found(1) xv by (auto simp: cand_def)
      moreover have "sorted_wrt (\<lambda>e e'. edge_dest es e = edge_dest es e' \<longrightarrow> edge_dist es e \<le> edge_dist es e') (E @ [?e])"
      proof -
        have "up_edges ns es g v = E' @ filter (\<lambda>e. node_lvl ns v \<le> node_lvl ns (edge_dest es e)) (drop (Suc k) (all_edges g v))"
          unfolding up_edges_def E' by (metis append_take_drop_id filter_append)
        then show ?thesis using hierarchy_okD(7)[OF H v] unfolding EE by (simp add: sorted_wrt_append)
      qed
      ultimately have "d' \<le> edge_dist es ?e" by (auto simp: sorted_wrt_append)
      then have am: "at_most ?T ?x (edge_dist es ?e)" using found(1) by (auto simp: at_most_def)
      have run: "HLDijkstra_addNeighbour ns es (node_lvl ns v) row (int k) (h, nb, int (length E)) = Some (h, nb', int (length E'))"
        using False e rd found(4) set' by (simp add: HLDijkstra_addNeighbour_def EE)
      have "cand es (up_adj ns es g) E' v ?T" using c by (auto simp: cand_def EE)
      moreover have "\<forall>e \<in> set E'. at_most ?T (edge_dest es e) (edge_dist es e)" using cov am by (simp add: EE)
      ultimately show ?thesis using run h first tk' by blast
    next
      case (missing i)
      obtain h' where h': "HLDijkstra_insert h ?x (edge_dist es ?e) ?e (int i) = Some h'" "HLDijkstra_inv h'"
        "HLDijkstra_table h' = ?T(?x \<mapsto> (edge_dist es ?e, ?e))" "hl_calcOrder h' = hl_calcOrder h"
        using HLDijkstra_insert_ok[OF h \<open>?x < MAX_VALUE\<close> missing(5,2)] by blast
      have run: "HLDijkstra_addNeighbour ns es (node_lvl ns v) row (int k) (h, nb, int (length E)) = Some (h', nb', int (length E'))"
        using False e rd missing(4) set' h'(1) by (simp add: HLDijkstra_addNeighbour_def EE)
      have "cand es (up_adj ns es g) E' v (HLDijkstra_table h')"
        using c xv up_walk_refl by (auto simp: cand_def EE h'(3))
      moreover have "edge_dest es e \<noteq> ?x" if "e \<in> set E" for e using cov[OF that] missing(1) by (auto simp: at_most_def)
      then have "\<forall>e \<in> set E'. at_most (HLDijkstra_table h') (edge_dest es e) (edge_dist es e)"
        using cov by (auto simp: EE h'(3) at_most_def)
      moreover have "\<forall>x d e. x \<noteq> v \<longrightarrow> HLDijkstra_table h' x = Some (d, e) \<longrightarrow> edge_dest es e = x \<and> d = edge_dist es e"
        using first by (auto simp: h'(3))
      ultimately show ?thesis using run h'(2,4) tk' by blast
    qed
  qed
qed

lemma HLDijkstra_neighbours_ok:
  assumes H: "hierarchy_ok n ns es g" and v: "0 \<le> v" "v < int n"
    and row: "\<forall>i < length (all_edges g v). row ! i = all_edges g v ! i" "length (all_edges g v) \<le> length row"
    and h: "HLDijkstra_inv h" "HLDijkstra_table h = [v \<mapsto> (0, -1)]"
  shows "\<exists>h' nb. for_range 0 (int (length (all_edges g v))) (HLDijkstra_addNeighbour ns es (node_lvl ns v) row)
      (h, replicate (length (all_edges g v)) 0, 0) = Some (h', nb, int (length (up_edges ns es g v))) \<and>
    HLDijkstra_inv h' \<and> hl_calcOrder h' = hl_calcOrder h \<and> length (up_edges ns es g v) \<le> length nb \<and>
    (\<forall>i < length (up_edges ns es g v). nb ! i = edge_dest es (up_edges ns es g v ! i)) \<and>
    cand es (up_adj ns es g) (up_edges ns es g v) v (HLDijkstra_table h') \<and>
    (\<forall>e \<in> set (up_edges ns es g v). at_most (HLDijkstra_table h') (edge_dest es e) (edge_dist es e))"
proof -
  let ?m = "length (all_edges g v)"
  let ?E = "\<lambda>k. filter (\<lambda>e. node_lvl ns v \<le> node_lvl ns (edge_dest es e)) (take (nat k) (all_edges g v))"
  define I where "I k s \<longleftrightarrow> (case s of (h', nb, c) \<Rightarrow> c = int (length (?E k)) \<and> HLDijkstra_inv h' \<and>
      hl_calcOrder h' = hl_calcOrder h \<and> length nb = ?m \<and> cand es (up_adj ns es g) (?E k) v (HLDijkstra_table h') \<and>
      (\<forall>x d e. x \<noteq> v \<longrightarrow> HLDijkstra_table h' x = Some (d, e) \<longrightarrow> edge_dest es e = x \<and> d = edge_dist es e) \<and>
      (\<forall>e \<in> set (?E k). at_most (HLDijkstra_table h') (edge_dest es e) (edge_dist es e)) \<and>
      take (length (?E k)) nb = map (edge_dest es) (?E k))" for k s
  have "\<exists>s. for_range 0 (int ?m) (HLDijkstra_addNeighbour ns es (node_lvl ns v) row) (h, replicate ?m 0, 0) = Some s \<and> I (int ?m) s"
  proof (rule for_range_rule[where I = I])
    show "I 0 (h, replicate ?m 0, 0)" using h by (simp add: cand_def I_def)
    fix i s assume i: "0 \<le> i" "i < int ?m" and Is: "I i s"
    obtain h1 nb c where s: "s = (h1, nb, c)" by (cases s) auto
    note J = Is[unfolded I_def s, simplified]
    have k: "nat i < ?m" "int (nat i) = i" "nat (i + 1) = Suc (nat i)" using i by auto
    have "\<exists>h' nb'. HLDijkstra_addNeighbour ns es (node_lvl ns v) row (int (nat i)) (h1, nb, int (length (?E i))) =
          Some (h', nb', int (length (?E (i + 1)))) \<and>
        HLDijkstra_inv h' \<and> hl_calcOrder h' = hl_calcOrder h1 \<and> length nb' = length nb \<and>
        cand es (up_adj ns es g) (?E (i + 1)) v (HLDijkstra_table h') \<and>
        (\<forall>x d e. x \<noteq> v \<longrightarrow> HLDijkstra_table h' x = Some (d, e) \<longrightarrow> edge_dest es e = x \<and> d = edge_dist es e) \<and>
        (\<forall>e \<in> set (?E (i + 1)). at_most (HLDijkstra_table h') (edge_dest es e) (edge_dist es e)) \<and>
        take (length (?E (i + 1))) nb' = map (edge_dest es) (?E (i + 1))"
      by (rule HLDijkstra_addNeighbour_ok[OF H v k(1) row, of h1 nb "?E i" "?E (i + 1)"]) (use J k in auto)
    then obtain h' nb' where "HLDijkstra_addNeighbour ns es (node_lvl ns v) row i (h1, nb, int (length (?E i))) =
          Some (h', nb', int (length (?E (i + 1))))" "I (i + 1) (h', nb', int (length (?E (i + 1))))"
      using J unfolding k(2) I_def by auto
    then show "\<exists>s'. HLDijkstra_addNeighbour ns es (node_lvl ns v) row i s = Some s' \<and> I (i + 1) s'"
      using J unfolding s by auto
  qed simp
  then obtain h' nb c where r: "for_range 0 (int ?m) (HLDijkstra_addNeighbour ns es (node_lvl ns v) row) (h, replicate ?m 0, 0) = Some (h', nb, c)"
    "I (int ?m) (h', nb, c)" by auto
  have E: "?E (int ?m) = up_edges ns es g v" by (simp add: up_edges_def)
  have q: "c = int (length (up_edges ns es g v))" "HLDijkstra_inv h' \<and> hl_calcOrder h' = hl_calcOrder h \<and> length nb = ?m"
    "cand es (up_adj ns es g) (up_edges ns es g v) v (HLDijkstra_table h')"
    "take (length (up_edges ns es g v)) nb = map (edge_dest es) (up_edges ns es g v)"
    "\<forall>e \<in> set (up_edges ns es g v). at_most (HLDijkstra_table h') (edge_dest es e) (edge_dist es e)"
    using r(2)[unfolded I_def E] by auto
  have "nb ! i = edge_dest es (up_edges ns es g v ! i)" if "i < length (up_edges ns es g v)" for i
    using q(4) that by (metis nth_map nth_take)
  moreover have "length (up_edges ns es g v) \<le> ?m" by (simp add: up_edges_def)
  ultimately show ?thesis using r(1) q by auto
qed

lemma HLDijkstra_update_ok:
  assumes h: "HLDijkstra_inv h" and i: "i < length (os_contents (hl_foundIds h))"
  shows "\<exists>ds fs. OrderedIntSet_updateValue (hl_distances h) d (int i) = Some ds \<and>
    OrderedIntSet_updateValue (hl_firstEdgeId h) e (int i) = Some fs \<and>
    HLDijkstra_inv (h\<lparr>hl_distances := ds, hl_firstEdgeId := fs\<rparr>) \<and>
    HLDijkstra_table (h\<lparr>hl_distances := ds, hl_firstEdgeId := fs\<rparr>) = (HLDijkstra_table h)(os_contents (hl_foundIds h) ! i \<mapsto> (d, e))"
proof -
  note I = HLDijkstra_invD[OF h]
  obtain ds where ds: "OrderedIntSet_updateValue (hl_distances h) d (int i) = Some ds" "os_inv ds"
    "os_contents ds = (os_contents (hl_distances h))[i := d]"
    using OrderedIntSet_updateValue_ok[OF I(3), of i d] i I(5) by auto
  obtain fs where fs: "OrderedIntSet_updateValue (hl_firstEdgeId h) e (int i) = Some fs" "os_inv fs"
    "os_contents fs = (os_contents (hl_firstEdgeId h))[i := e]"
    using OrderedIntSet_updateValue_ok[OF I(4), of i e] i I(6) by auto
  show ?thesis using ds fs I label_table_update[OF I(7,5,6) i] by (simp add: HLDijkstra_inv_def HLDijkstra_table_def)
qed

lemma HLDijkstra_addLabel_ok:
  assumes h: "HLDijkstra_inv h" and c: "cand es up E v (HLDijkstra_table h)"
    and lab: "aget ids i = Some x" "rowget row i = Some d'" "x < MAX_VALUE" "x \<noteq> v" "up_walk up base x d'" "small d'"
    and base: "be \<in> set E" "up_walk up (edge_dest es be) base (bd - edge_dist es be)" "small bd"
  shows "\<exists>h'. HLDijkstra_addLabel ids row bd be i h = Some h' \<and> HLDijkstra_inv h' \<and> hl_calcOrder h' = hl_calcOrder h \<and>
    cand es up E v (HLDijkstra_table h') \<and> improves (HLDijkstra_table h) (HLDijkstra_table h') \<and>
    at_most (HLDijkstra_table h') x (bd + d')"
proof -
  let ?T = "HLDijkstra_table h"
  have sum: "jadd bd d' = bd + d'" by (rule jadd_small[OF base(3) lab(6)])
  have "bd - edge_dist es be + d' = bd + d' - edge_dist es be" by simp
  with up_walk_trans[OF base(2) lab(5)] have w: "up_walk up (edge_dest es be) x (bd + d' - edge_dist es be)" by metis
  have put: "cand es up E v (?T(x \<mapsto> (bd + d', be)))" using c w base(1) lab(4) by (auto simp: cand_def)
  from h lab(3) show ?thesis
  proof (cases rule: HLDijkstra_lookup)
    case (found k d e)
    show ?thesis
    proof (cases "bd + d' < d")
      case True
      obtain ds fs where u: "OrderedIntSet_updateValue (hl_distances h) (bd + d') (int k) = Some ds"
        "OrderedIntSet_updateValue (hl_firstEdgeId h) be (int k) = Some fs"
        "HLDijkstra_inv (h\<lparr>hl_distances := ds, hl_firstEdgeId := fs\<rparr>)"
        "HLDijkstra_table (h\<lparr>hl_distances := ds, hl_firstEdgeId := fs\<rparr>) = ?T(x \<mapsto> (bd + d', be))"
        using HLDijkstra_update_ok[OF h found(2), of "bd + d'" be] unfolding found(3) by blast
      have "HLDijkstra_addLabel ids row bd be i h = Some (h\<lparr>hl_distances := ds, hl_firstEdgeId := fs\<rparr>)"
        using lab(1,2) found True u(1,2) sum by (simp add: HLDijkstra_addLabel_def)
      moreover have "improves ?T (?T(x \<mapsto> (bd + d', be)))"
        using found(1) True by (auto simp: improves_def at_most_def)
      moreover have "at_most (?T(x \<mapsto> (bd + d', be))) x (bd + d')" by (simp add: at_most_def)
      ultimately show ?thesis using put u(3) unfolding u(4)[symmetric] by (intro exI[of _ "h\<lparr>hl_distances := ds, hl_firstEdgeId := fs\<rparr>"]) simp
    next
      case False
      then have "HLDijkstra_addLabel ids row bd be i h = Some h"
        using lab(1,2) found sum by (simp add: HLDijkstra_addLabel_def)
      moreover have "at_most ?T x (bd + d')" using found(1) False by (auto simp: at_most_def)
      ultimately show ?thesis using h c by auto
    qed
  next
    case (missing k)
    obtain h' where h': "HLDijkstra_insert h x (bd + d') be (int k) = Some h'" "HLDijkstra_inv h'"
      "HLDijkstra_table h' = ?T(x \<mapsto> (bd + d', be))" "hl_calcOrder h' = hl_calcOrder h"
      using HLDijkstra_insert_ok[OF h lab(3) missing(5,2)] by blast
    have "HLDijkstra_addLabel ids row bd be i h = Some h'"
      using lab(1,2) missing(4) h'(1) sum by (simp add: HLDijkstra_addLabel_def)
    moreover have "improves ?T (?T(x \<mapsto> (bd + d', be)))" using missing(1) by (auto simp: improves_def at_most_def)
    moreover have "at_most (?T(x \<mapsto> (bd + d', be))) x (bd + d')" by (simp add: at_most_def)
    ultimately show ?thesis using put h' by auto
  qed
qed

text \<open>
  The labels calculated so far, for a set \<open>S\<close> of nodes. \<open>Labels_steps\<close>: the first edge of a label
  leads to a node that has the rest of the label.
\<close>

definition Labels_steps :: "Nodes \<Rightarrow> Edges \<Rightarrow> DynamicGrid \<Rightarrow> Labels \<Rightarrow> int \<Rightarrow> bool" where
  "Labels_steps ns es g L v \<longleftrightarrow> (\<forall>ids fs ds i. Labels_row L v ids fs ds \<and> i < length ids \<and> ids ! i \<noteq> v \<longrightarrow>
     fs ! i \<in> set (up_edges ns es g v) \<and>
     Labels_lab L (edge_dest es (fs ! i)) (ids ! i) = Some (ds ! i - edge_dist es (fs ! i)))"

definition Labels_for :: "nat \<Rightarrow> Nodes \<Rightarrow> Edges \<Rightarrow> DynamicGrid \<Rightarrow> int set \<Rightarrow> Labels \<Rightarrow> bool" where
  "Labels_for n ns es g S L \<longleftrightarrow> Labels_sized n L \<and> S \<subseteq> {0..<int n} \<and>
     labelling S (node_lvl ns) (up_adj ns es g) (Labels_lab L) \<and>
     (\<forall>x \<in> S. Labels_readable L x \<and> Labels_steps ns es g L x)"

lemma Labels_for_row:
  assumes H: "hierarchy_ok n ns es g" and L: "Labels_for n ns es g S L" and x: "x \<in> S"
  obtains ids fs ds where "Labels_row L x ids fs ds" "\<forall>d \<in> set ds. small d"
    "\<And>i. i < length ids \<Longrightarrow> ids ! i \<in> S \<and> up_walk (up_adj ns es g) x (ids ! i) (ds ! i) \<and> Labels_lab L x (ids ! i) = Some (ds ! i)"
proof -
  have lab: "labelling S (node_lvl ns) (up_adj ns es g) (Labels_lab L)" using L by (simp add: Labels_for_def)
  obtain ids fs ds where r: "Labels_row L x ids fs ds" "\<forall>d \<in> set ds. small d"
    using L x unfolding Labels_for_def Labels_readable_def by blast
  show thesis
  proof (rule that[OF r])
    fix i assume "i < length ids"
    then have l: "Labels_lab L x (ids ! i) = Some (ds ! i)" by (rule Labels_lab_row(3)[OF r(1)])
    from labellingD(3)[OF lab x l] have "up_walk (up_adj ns es g) x (ids ! i) (ds ! i)" .
    with up_walk_inside[OF lab this x] l
    show "ids ! i \<in> S \<and> up_walk (up_adj ns es g) x (ids ! i) (ds ! i) \<and> Labels_lab L x (ids ! i) = Some (ds ! i)" by blast
  qed
qed

lemma HLDijkstra_addLabelsOf_ok:
  assumes H: "hierarchy_ok n ns es g" and L: "Labels_for n ns es g S L" and v: "0 \<le> v" "v < int n" "v \<notin> S"
    and h: "HLDijkstra_inv h" and c: "cand es (up_adj ns es g) (up_edges ns es g v) v (HLDijkstra_table h)"
    and b: "aget nb (int j) = Some base" "base \<in> S" "at_most (HLDijkstra_table h) base w"
  shows "\<exists>h'. HLDijkstra_addLabelsOf L nb (int j) h = Some h' \<and> HLDijkstra_inv h' \<and> hl_calcOrder h' = hl_calcOrder h \<and>
    cand es (up_adj ns es g) (up_edges ns es g v) v (HLDijkstra_table h') \<and> improves (HLDijkstra_table h) (HLDijkstra_table h') \<and>
    (\<forall>x d'. Labels_lab L base x = Some d' \<longrightarrow> at_most (HLDijkstra_table h') x (w + d'))"
proof -
  let ?up = "up_adj ns es g" let ?E = "up_edges ns es g v"
  have SV: "x < MAX_VALUE \<and> x \<noteq> v \<and> 0 \<le> x \<and> x < int n" if "x \<in> S" for x
    using L v(3) that hierarchy_okD(1)[OF H] by (auto simp: Labels_for_def)
  obtain ids fs ds where r: "Labels_row L base ids fs ds" "\<forall>d \<in> set ds. small d"
    "\<And>i. i < length ids \<Longrightarrow> ids ! i \<in> S \<and> up_walk ?up base (ids ! i) (ds ! i) \<and> Labels_lab L base (ids ! i) = Some (ds ! i)"
    using Labels_for_row[OF H L b(2)] by blast
  have rd: "Labels_getLabels L base = Some (Some ids)" "Labels_getDist L base = Some (Some ds)" "length ds = length ids"
    using r(1) by (auto simp: Labels_row_def Labels_getLabels_def Labels_getDist_def java)
  have "base < MAX_VALUE" "base \<noteq> v" using SV[OF b(2)] by auto
  obtain k bd be where t: "HLDijkstra_table h base = Some (bd, be)" "OrderedIntSet_getIdx (hl_foundIds h) base = Some (int k)"
    "OrderedIntSet_get (hl_distances h) (int k) = Some bd" "OrderedIntSet_get (hl_firstEdgeId h) (int k) = Some be"
    using h \<open>base < MAX_VALUE\<close> b(3) by (cases rule: HLDijkstra_lookup) (auto simp: at_most_def)
  have be: "be \<in> set ?E" "up_walk ?up (edge_dest es be) base (bd - edge_dist es be)" "bd \<le> w"
    using c t(1) b(3) \<open>base \<noteq> v\<close> by (auto simp: cand_def at_most_def)
  have "(edge_dest es be, edge_dist es be) \<in> set (?up v)" using be(1) by (auto simp: up_adj_def)
  from up_walk_step[OF this be(2)] have "up_walk ?up v base bd" by simp
  then have bds: "small bd" by (rule hierarchy_okD(6)[OF H v(1,2)])
  define I where "I i s \<longleftrightarrow> HLDijkstra_inv s \<and> hl_calcOrder s = hl_calcOrder h \<and> cand es ?up ?E v (HLDijkstra_table s) \<and>
      improves (HLDijkstra_table h) (HLDijkstra_table s) \<and> (\<forall>a < nat i. at_most (HLDijkstra_table s) (ids ! a) (bd + ds ! a))" for i s
  have "\<exists>s. for_range 0 (int (length ids)) (HLDijkstra_addLabel ids (Some ds) bd be) h = Some s \<and> I (int (length ids)) s"
  proof (rule for_range_rule[where I = I])
    show "I 0 h" using h c by (simp add: I_def)
    fix i s assume i: "0 \<le> i" "i < int (length ids)" and Is: "I i s"
    note J = Is[unfolded I_def]
    let ?x = "ids ! nat i" let ?d = "ds ! nat i"
    have x: "?x \<in> S" "up_walk ?up base ?x ?d" "small ?d" using r(2) r(3)[of "nat i"] i rd(3) by auto
    obtain s' where s': "HLDijkstra_addLabel ids (Some ds) bd be i s = Some s'" "HLDijkstra_inv s'" "hl_calcOrder s' = hl_calcOrder s"
      "cand es ?up ?E v (HLDijkstra_table s')" "improves (HLDijkstra_table s) (HLDijkstra_table s')"
      "at_most (HLDijkstra_table s') ?x (bd + ?d)"
      using HLDijkstra_addLabel_ok[of s es ?up ?E v ids i ?x "Some ds" ?d base be bd] J i rd(3) SV[OF x(1)] x be bds
      by (auto simp: java rowget_def)
    have "I (i + 1) s'" unfolding I_def
    proof (intro conjI allI impI)
      fix a assume a: "a < nat (i + 1)"
      show "at_most (HLDijkstra_table s') (ids ! a) (bd + ds ! a)"
      proof (cases "a = nat i")
        case False
        then have "a < nat i" using a i by simp
        then show ?thesis using J s'(5) by (simp add: improves_def)
      qed (use s'(6) in simp)
    qed (use s' J improves_trans in auto)
    then show "\<exists>s'. HLDijkstra_addLabel ids (Some ds) bd be i s = Some s' \<and> I (i + 1) s'" using s'(1) by blast
  qed simp
  then obtain s where s: "for_range 0 (int (length ids)) (HLDijkstra_addLabel ids (Some ds) bd be) h = Some s" "I (int (length ids)) s" by blast
  have "at_most (HLDijkstra_table s) x (w + d')" if x: "Labels_lab L base x = Some d'" for x d'
  proof -
    obtain a where "a < length ids" "ids ! a = x" "ds ! a = d'" by (rule Labels_lab_Some[OF r(1) x])
    then show ?thesis using s(2) be(3) at_most_mono[of "HLDijkstra_table s" x "bd + d'" "w + d'"] by (auto simp: I_def)
  qed
  moreover have "HLDijkstra_addLabelsOf L nb (int j) h = Some s"
    using b(1) t(2-4) rd s(1) by (simp add: HLDijkstra_addLabelsOf_def)
  ultimately show ?thesis using s(2) by (auto simp: I_def)
qed

lemma HLDijkstra_candidates_ok:
  assumes H: "hierarchy_ok n ns es g" and L: "Labels_for n ns es g S L" and v: "0 \<le> v" "v < int n" "v \<notin> S"
    and ups: "\<And>e. e \<in> set (up_edges ns es g v) \<Longrightarrow> edge_dest es e \<in> S"
    and h: "HLDijkstra_inv h" and c: "cand es (up_adj ns es g) (up_edges ns es g v) v (HLDijkstra_table h)"
    and cov: "\<forall>e \<in> set (up_edges ns es g v). at_most (HLDijkstra_table h) (edge_dest es e) (edge_dist es e)"
    and nb: "length (up_edges ns es g v) \<le> length nb" "\<forall>i < length (up_edges ns es g v). nb ! i = edge_dest es (up_edges ns es g v ! i)"
  shows "\<exists>h'. for_range 0 (int (length (up_edges ns es g v))) (HLDijkstra_addLabelsOf L nb) h = Some h' \<and> HLDijkstra_inv h' \<and>
    hl_calcOrder h' = hl_calcOrder h \<and> cand es (up_adj ns es g) (up_edges ns es g v) v (HLDijkstra_table h') \<and>
    (\<forall>e \<in> set (up_edges ns es g v). \<forall>x d'. Labels_lab L (edge_dest es e) x = Some d' \<longrightarrow> at_most (HLDijkstra_table h') x (edge_dist es e + d'))"
proof -
  let ?up = "up_adj ns es g" let ?E = "up_edges ns es g v"
  define I where "I j s \<longleftrightarrow> HLDijkstra_inv s \<and> hl_calcOrder s = hl_calcOrder h \<and> cand es ?up ?E v (HLDijkstra_table s) \<and>
      improves (HLDijkstra_table h) (HLDijkstra_table s) \<and>
      (\<forall>a < nat j. \<forall>x d'. Labels_lab L (edge_dest es (?E ! a)) x = Some d' \<longrightarrow> at_most (HLDijkstra_table s) x (edge_dist es (?E ! a) + d'))" for j s
  have "\<exists>s. for_range 0 (int (length ?E)) (HLDijkstra_addLabelsOf L nb) h = Some s \<and> I (int (length ?E)) s"
  proof (rule for_range_rule[where I = I])
    show "I 0 h" using h c by (simp add: I_def)
    fix j s assume j: "0 \<le> j" "j < int (length ?E)" and Is: "I j s"
    note J = Is[unfolded I_def]
    let ?e = "?E ! nat j"
    have e: "?e \<in> set ?E" using j by simp
    have base: "aget nb (int (nat j)) = Some (edge_dest es ?e)" using j nb by (simp add: java)
    have am: "at_most (HLDijkstra_table s) (edge_dest es ?e) (edge_dist es ?e)" using J cov e by (simp add: improves_def)
    obtain s' where s': "HLDijkstra_addLabelsOf L nb (int (nat j)) s = Some s'" "HLDijkstra_inv s'" "hl_calcOrder s' = hl_calcOrder s"
      "cand es ?up ?E v (HLDijkstra_table s')" "improves (HLDijkstra_table s) (HLDijkstra_table s')"
      "\<forall>x d'. Labels_lab L (edge_dest es ?e) x = Some d' \<longrightarrow> at_most (HLDijkstra_table s') x (edge_dist es ?e + d')"
      using HLDijkstra_addLabelsOf_ok[OF H L v _ _ base ups[OF e] am] J by blast
    have "I (j + 1) s'" unfolding I_def
    proof (intro conjI allI impI)
      fix a x d' assume a: "a < nat (j + 1)" and x: "Labels_lab L (edge_dest es (?E ! a)) x = Some d'"
      show "at_most (HLDijkstra_table s') x (edge_dist es (?E ! a) + d')"
      proof (cases "a = nat j")
        case False
        then have "a < nat j" using a j by simp
        then show ?thesis using J s'(5) x by (simp add: improves_def)
      qed (use s'(6) x in simp)
    qed (use s' J improves_trans in auto)
    then show "\<exists>s'. HLDijkstra_addLabelsOf L nb j s = Some s' \<and> I (j + 1) s'" using s'(1) j by auto
  qed simp
  then show ?thesis by (auto simp: I_def in_set_conv_nth)
qed

text \<open>The table that remains of the candidates extends the labelling.\<close>

lemma pruned_labelling:
  assumes H: "hierarchy_ok n ns es g" and lab: "labelling S (node_lvl ns) (up_adj ns es g) lab" and v: "0 \<le> v" "v < int n" "v \<notin> S"
    and ups: "\<And>e. e \<in> set (up_edges ns es g v) \<Longrightarrow> edge_dest es e \<in> S"
    and c: "cand es (up_adj ns es g) (up_edges ns es g v) v T"
    and cov: "\<forall>e \<in> set (up_edges ns es g v). \<forall>x d'. lab (edge_dest es e) x = Some d' \<longrightarrow> at_most T x (edge_dist es e + d')"
    and P: "pruned lab v T R" and row: "\<And>x. row x = map_option fst (R x)"
  shows "labelling (insert v S) (node_lvl ns) (up_adj ns es g) (lab(v := row))"
proof (rule labelling_insert[OF lab v(3)])
  let ?up = "up_adj ns es g"
  have R: "T x = Some (d, e)" if "R x = Some (d, e)" for x d e using P that by (metis domI map_le_def pruned_def)
  have walk: "up_walk ?up v x d" if "T x = Some (d, e)" for x d e
  proof (cases "x = v")
    case True
    then show ?thesis using c that up_walk_refl by (auto simp: cand_def)
  next
    case False
    then have "e \<in> set (up_edges ns es g v)" "up_walk ?up (edge_dest es e) x (d - edge_dist es e)" using c that by (auto simp: cand_def)
    then show ?thesis using up_walk_step[of "edge_dest es e" "edge_dist es e" ?up v x "d - edge_dist es e"] by (auto simp: up_adj_def)
  qed
  have rowD: "\<exists>e. R x = Some (d, e)" if "row x = Some d" for x d using that by (auto simp: row)
  show "m \<in> S \<and> node_lvl ns v < node_lvl ns m \<and> 0 \<le> w" if "(m, w) \<in> set (?up v)" for m w
  proof -
    obtain e where e: "e \<in> set (up_edges ns es g v)" "m = edge_dest es e" "w = edge_dist es e" using \<open>(m, w) \<in> set (?up v)\<close> by (auto simp: up_adj_def)
    have "e \<in> set (all_edges g v)" "node_lvl ns v \<le> node_lvl ns m" using e by (auto simp: up_edges_def)
    with hierarchy_okD(5)[OF H v(1,2), of e] ups[OF e(1)] e show ?thesis by auto
  qed
  show "row v = Some 0" using P c by (simp add: row pruned_def cand_def)
  show "up_walk ?up v x d" if "row x = Some d" for x d using rowD[OF that] R walk by blast
  show "(\<exists>d \<le> w + d'. row x = Some d) \<or> (\<exists>y d1 d2. y \<noteq> x \<and> lab x y = Some d2 \<and> up_walk ?up v y d1 \<and> d1 + d2 \<le> w + d')"
    if "(m, w) \<in> set (?up v)" "lab m x = Some d'" for m w x d'
  proof -
    have "at_most T x (w + d')" using that cov by (auto simp: up_adj_def)
    then obtain d e where t: "T x = Some (d, e)" "d \<le> w + d'" by (auto simp: at_most_def)
    show ?thesis
    proof (cases "R x")
      case None
      then have "redundant lab T x d" using P t(1) unfolding pruned_def by blast
      then obtain y d1 f d2 where "y \<noteq> x" "T y = Some (d1, f)" "lab x y = Some d2" "d1 + d2 \<le> d"
        unfolding redundant_def by blast
      then show ?thesis using walk t(2) by (intro disjI2 exI[of _ y] exI[of _ d1] exI[of _ d2]) auto
    next
      case (Some r)
      then show ?thesis using R t by (cases r) (auto simp: row)
    qed
  qed
  show "d \<le> w + d'" if "(m, w) \<in> set (?up v)" "lab m x = Some d'" "row x = Some d" for m w x d' d
  proof -
    have "at_most T x (w + d')" using that cov by (auto simp: up_adj_def)
    then show ?thesis using rowD[OF that(3)] R by (auto simp: at_most_def)
  qed
  show "d < d1 + d2" if xy: "x \<noteq> v" "y \<noteq> x" "row x = Some d" "row y = Some d1" "lab x y = Some d2" for x y d d1 d2
  proof -
    obtain e f where "R x = Some (d, e)" "R y = Some (d1, f)" using rowD[OF xy(3)] rowD[OF xy(4)] by blast
    then have "\<not> redundant lab R x d" using P xy(1) unfolding pruned_def by blast
    then show ?thesis using \<open>R y = Some (d1, f)\<close> xy(2,5) unfolding redundant_def by (meson not_le)
  qed
qed

lemma Labels_addLabels_ok:
  assumes L: "Labels_sized n L" and v: "0 \<le> v" "v < int n" and "sorted_wrt (<) ids" "length fs = length ids" "length ds = length ids"
  shows "\<exists>L'. Labels_addLabels L v ids fs ds = Some L' \<and> Labels_sized n L' \<and>
    (\<forall>i f d. Labels_row L' v i f d \<longleftrightarrow> i = ids \<and> f = fs \<and> d = ds) \<and>
    (\<forall>x i f d. x \<noteq> v \<longrightarrow> Labels_row L' x i f d = Labels_row L x i f d) \<and>
    Labels_lab L' = (Labels_lab L)(v := map_of (zip ids ds))"
proof -
  let ?L = "\<lparr>lb_labelNodes = (lb_labelNodes L)[nat v := Some ids], lb_labelEdges = (lb_labelEdges L)[nat v := Some fs],
     lb_labelDist = (lb_labelDist L)[nat v := Some ds]\<rparr>"
  have run: "Labels_addLabels L v ids fs ds = Some ?L" using L v by (simp add: Labels_addLabels_def Labels_sized_def java)
  have sized: "Labels_sized n ?L" using L by (simp add: Labels_sized_def)
  have row: "\<forall>i f d. Labels_row ?L v i f d \<longleftrightarrow> i = ids \<and> f = fs \<and> d = ds"
    using assms by (auto simp: Labels_row_def Labels_sized_def)
  have ne: "nat x \<noteq> nat v" if "x \<noteq> v" "0 \<le> x" for x using that v by simp
  have other: "Labels_row ?L x i f d = Labels_row L x i f d" if "x \<noteq> v" for x i f d
    using v ne[OF that] by (cases "0 \<le> x") (simp_all add: Labels_row_def)
  have "Labels_lab ?L x = ((Labels_lab L)(v := map_of (zip ids ds))) x" for x
    using v L ne[of x] by (cases "x = v") (auto simp: Labels_lab_def Labels_sized_def)
  then have "Labels_lab ?L = (Labels_lab L)(v := map_of (zip ids ds))" by (rule ext)
  with run sized row other show ?thesis by (intro exI[of _ ?L]) simp
qed

lemma HLDijkstra_calcLabels_ok:
  assumes H: "hierarchy_ok n ns es g" and L: "Labels_for n ns es g S L" and v: "0 \<le> v" "v < int n" "v \<notin> S"
    and ups: "\<And>e. e \<in> set (up_edges ns es g v) \<Longrightarrow> edge_dest es e \<in> S" and h: "HLDijkstra_inv h"
  shows "\<exists>h' L'. HLDijkstra_calcLabels ns es g v (h, L) = Some (h', L') \<and> HLDijkstra_inv h' \<and> hl_calcOrder h' = hl_calcOrder h \<and>
    Labels_for n ns es g (insert v S) L' \<and> (\<forall>x i f d. x \<noteq> v \<longrightarrow> Labels_row L' x i f d = Labels_row L x i f d)"
proof -
  let ?up = "up_adj ns es g" let ?E = "up_edges ns es g v" let ?A = "all_edges g v"
  have lab: "labelling S (node_lvl ns) ?up (Labels_lab L)" and sized: "Labels_sized n L" and SV: "S \<subseteq> {0..<int n}"
    using L by (simp_all add: Labels_for_def)
  have "v < MAX_VALUE" using v hierarchy_okD(1)[OF H] by simp
  then obtain h1 where h1: "HLDijkstra_start h v = Some h1" "HLDijkstra_inv h1" "HLDijkstra_table h1 = [v \<mapsto> (0, -1)]" "hl_calcOrder h1 = hl_calcOrder h"
    using HLDijkstra_start_ok[OF h] by blast
  obtain row where row: "DynamicGrid_getAllEdges g v = Some row" "length ?A \<le> length row" "\<forall>i < length ?A. row ! i = ?A ! i"
    using hierarchy_okD(4)[OF H v(1,2)] by blast
  obtain h2 nb where h2: "for_range 0 (int (length ?A)) (HLDijkstra_addNeighbour ns es (node_lvl ns v) row) (h1, replicate (length ?A) 0, 0) =
      Some (h2, nb, int (length ?E))" "HLDijkstra_inv h2" "hl_calcOrder h2 = hl_calcOrder h1" "length ?E \<le> length nb"
      "\<forall>i < length ?E. nb ! i = edge_dest es (?E ! i)" "cand es ?up ?E v (HLDijkstra_table h2)"
      "\<forall>e \<in> set ?E. at_most (HLDijkstra_table h2) (edge_dest es e) (edge_dist es e)"
    using HLDijkstra_neighbours_ok[OF H v(1,2) row(3,2) h1(2,3)] by blast
  obtain h3 where h3: "for_range 0 (int (length ?E)) (HLDijkstra_addLabelsOf L nb) h2 = Some h3" "HLDijkstra_inv h3"
    "hl_calcOrder h3 = hl_calcOrder h2" "cand es ?up ?E v (HLDijkstra_table h3)"
    "\<forall>e \<in> set ?E. \<forall>x d'. Labels_lab L (edge_dest es e) x = Some d' \<longrightarrow> at_most (HLDijkstra_table h3) x (edge_dist es e + d')"
    using HLDijkstra_candidates_ok[OF H L v ups h2(2,6,7,4,5)] by blast
  let ?T = "HLDijkstra_table h3"
  have T: "x \<in> S \<and> up_walk ?up v x d" if "x \<noteq> v" "?T x = Some (d, e)" for x d e
  proof -
    have e: "e \<in> set ?E" "up_walk ?up (edge_dest es e) x (d - edge_dist es e)" using h3(4) that by (auto simp: cand_def)
    have "up_walk ?up v x d" using up_walk_step[of "edge_dest es e" "edge_dist es e" ?up v x "d - edge_dist es e"] e by (auto simp: up_adj_def)
    with up_walk_inside[OF lab e(2) ups[OF e(1)]] show ?thesis by simp
  qed
  have small: "small d" if "?T x = Some (d, e)" for x d e
    using T[OF _ that] hierarchy_okD(6)[OF H v(1,2)] h3(4) that by (cases "x = v") (auto simp: cand_def small_def)
  have "\<exists>h'. HLDijkstra_removeLoop L v (int 0) h3 = Some h' \<and> HLDijkstra_inv h' \<and> hl_calcOrder h' = hl_calcOrder h3 \<and>
      pruned (Labels_lab L) v ?T (HLDijkstra_table h')"
  proof (rule HLDijkstra_removeLoop_ok[OF h3(2)])
    show "Labels_readable L x" if x: "x \<in> dom ?T" "x \<noteq> v" for x
    proof -
      obtain d e where "?T x = Some (d, e)" using x(1) by auto
      then have "x \<in> S" using T[OF x(2)] by blast
      then show ?thesis using L by (simp add: Labels_for_def)
    qed
  qed (use small in auto)
  then obtain h4 where h4: "HLDijkstra_removeRedundancies L h3 v = Some h4" "HLDijkstra_inv h4" "hl_calcOrder h4 = hl_calcOrder h3"
    "pruned (Labels_lab L) v ?T (HLDijkstra_table h4)" by (auto simp: HLDijkstra_removeRedundancies_def)
  note I = HLDijkstra_invD[OF h4(2)]
  let ?ids = "os_contents (hl_foundIds h4)" let ?fs = "os_contents (hl_firstEdgeId h4)" let ?ds = "os_contents (hl_distances h4)"
  have R: "?T x = Some (d, e)" if "HLDijkstra_table h4 x = Some (d, e)" for x d e using h4(4) that by (metis domI map_le_def pruned_def)
  obtain L' where L': "Labels_addLabels L v ?ids ?fs ?ds = Some L'" "Labels_sized n L'"
    "\<And>i f d. Labels_row L' v i f d \<longleftrightarrow> i = ?ids \<and> f = ?fs \<and> d = ?ds"
    "\<And>x i f d. x \<noteq> v \<Longrightarrow> Labels_row L' x i f d = Labels_row L x i f d"
    "Labels_lab L' = (Labels_lab L)(v := map_of (zip ?ids ?ds))"
    using Labels_addLabels_ok[OF sized v(1,2) I(7,6,5)] by metis
  have nth: "HLDijkstra_table h4 (?ids ! i) = Some (?ds ! i, ?fs ! i)" if "i < length ?ids" for i
    by (rule HLDijkstra_table_nth[OF h4(2) that])
  have rowR: "map_of (zip ?ids ?ds) x = map_option fst (HLDijkstra_table h4 x)" for x
  proof (cases "x \<in> set ?ids")
    case True
    then obtain i where i: "i < length ?ids" "?ids ! i = x" by (auto simp: in_set_conv_nth)
    moreover have "Labels_row L' v ?ids ?fs ?ds" using L'(3) by simp
    ultimately show ?thesis using nth Labels_lab_row(1,3)[of L' v ?ids ?fs ?ds] by auto
  next
    case False
    then have "HLDijkstra_table h4 x = None" using I(8) by auto
    then show ?thesis using False I(5) by (simp add: map_of_zip_is_None)
  qed
  have lab': "labelling (insert v S) (node_lvl ns) ?up (Labels_lab L')" unfolding L'(5)
    by (rule pruned_labelling[OF H lab v ups h3(4,5) h4(4) rowR])
  have smallR: "\<forall>d \<in> set ?ds. small d"
    using small R nth I(5) by (metis in_set_conv_nth)
  have "Labels_steps ns es g L' v" unfolding Labels_steps_def
  proof (intro allI impI)
    fix ids fs ds i assume "Labels_row L' v ids fs ds \<and> i < length ids \<and> ids ! i \<noteq> v"
    then have i: "ids = ?ids" "fs = ?fs" "ds = ?ds" "i < length ?ids" "?ids ! i \<noteq> v" using L'(3) by auto
    have e: "?fs ! i \<in> set ?E" "up_walk ?up (edge_dest es (?fs ! i)) (?ids ! i) (?ds ! i - edge_dist es (?fs ! i))"
      using h3(4) R[OF nth[OF i(4)]] i(5) by (auto simp: cand_def)
    have "Labels_lab L' v (?ids ! i) = Some (?ds ! i)" using nth[OF i(4)] rowR by (simp add: L'(5))
    from label_continues[OF lab' insertI1 this i(5) _ e(2)] e(1)
    show "fs ! i \<in> set ?E \<and> Labels_lab L' (edge_dest es (fs ! i)) (ids ! i) = Some (ds ! i - edge_dist es (fs ! i))"
      unfolding i by (auto simp: up_adj_def)
  qed
  moreover have "Labels_steps ns es g L' x" if x: "x \<in> S" for x unfolding Labels_steps_def
  proof (intro allI impI)
    fix ids fs ds i assume r: "Labels_row L' x ids fs ds \<and> i < length ids \<and> ids ! i \<noteq> x"
    have xv: "x \<noteq> v" using x v(3) by auto
    have old: "fs ! i \<in> set (up_edges ns es g x)" "Labels_lab L (edge_dest es (fs ! i)) (ids ! i) = Some (ds ! i - edge_dist es (fs ! i))"
      using L x r L'(4)[OF xv] by (auto simp: Labels_for_def Labels_steps_def)
    have "(edge_dest es (fs ! i), edge_dist es (fs ! i)) \<in> set (?up x)" using old(1) by (auto simp: up_adj_def)
    then have "edge_dest es (fs ! i) \<noteq> v" using labellingD(1)[OF lab x] v(3) by auto
    then show "fs ! i \<in> set (up_edges ns es g x) \<and> Labels_lab L' (edge_dest es (fs ! i)) (ids ! i) = Some (ds ! i - edge_dist es (fs ! i))"
      using old by (simp add: L'(5))
  qed
  moreover have "Labels_readable L' v" unfolding Labels_readable_def using L'(3) smallR by blast
  moreover have "Labels_readable L' x" if "x \<in> S" for x
    using L that v(3) L'(4)[of x] unfolding Labels_for_def Labels_readable_def by metis
  ultimately have "Labels_for n ns es g (insert v S) L'" unfolding Labels_for_def
    using L'(2) SV v lab' by auto
  moreover have "HLDijkstra_addLabels h3 L v = Some (h4, L')"
    using h4(1) L'(1) I by (simp add: HLDijkstra_addLabels_def OrderedIntSet_toArray_eq)
  then have "HLDijkstra_calcLabels ns es g v (h, L) = Some (h4, L')"
    using h1(1) row(1) h2(1) h3(1) hierarchy_okD(2,3)[OF H v(1,2)] by (simp add: HLDijkstra_calcLabels_def newArray_def)
  ultimately show ?thesis using h4(2,3) h3(3) h2(3) h1(4) L'(4) by auto
qed

end
