(* ===== verification/LabelCreator.thy ===== *)
theory LabelCreator
  imports HLDijkstra
begin

text \<open>
  The label creation for a contracted graph: \<open>createHLCalcOrder\<close>, \<open>calcLabels\<close> and
  \<open>serializeHubLData\<close> of \<open>hublablecreation/LabelCreator.java\<close>.

  The threads of one level write the labels of different nodes and read labels of higher levels,
  which are complete; they run one after the other here, in an order that is a parameter.
\<close>

section \<open>The order of the nodes\<close>

definition NUM_OF_THREADS :: int where
  "NUM_OF_THREADS = 16"

definition NUM_OF_NO_LABEL_LVLS :: int where
  "NUM_OF_NO_LABEL_LVLS = 0"

definition LabelCreator_bubble :: "Nodes \<Rightarrow> int \<Rightarrow> int list \<Rightarrow> int list option" where
  "LabelCreator_bubble ns j calcOrder = do {
     a \<leftarrow> aget calcOrder (j - 1);
     b \<leftarrow> aget calcOrder j;
     la \<leftarrow> Nodes_getNodeLvl ns a;
     lb \<leftarrow> Nodes_getNodeLvl ns b;
     if la < lb then do {
       calcOrder \<leftarrow> aset calcOrder (j - 1) b;
       aset calcOrder j a
     } else Some calcOrder
   }"

definition LabelCreator_sortByLevel :: "Nodes \<Rightarrow> int list \<Rightarrow> int list option" where
  "LabelCreator_sortByLevel ns calcOrder = (let n = int (length calcOrder) in
     for_range 0 n (\<lambda>i. for_range 1 (n - i) (LabelCreator_bubble ns)) calcOrder)"

definition LabelCreator_changeIndices :: "Nodes \<Rightarrow> int list \<Rightarrow> OrderedIntSet option" where
  "LabelCreator_changeIndices ns calcOrder = do {
     changeIndices \<leftarrow> OrderedIntSet_new False 650 10;
     changeIndices \<leftarrow> OrderedIntSet_insertTail changeIndices 0;
     (_, changeIndices) \<leftarrow> for_range 0 (int (length calcOrder)) (\<lambda>i (prevLvl, changeIndices). do {
         node \<leftarrow> aget calcOrder i;
         currLvl \<leftarrow> Nodes_getNodeLvl ns node;
         changeIndices \<leftarrow> (if currLvl < prevLvl then OrderedIntSet_insertTail changeIndices i else Some changeIndices);
         Some (currLvl, changeIndices)
       }) (0, changeIndices);
     OrderedIntSet_insertTail changeIndices (int (length calcOrder))
   }"

definition LabelCreator_createHLCalcOrder :: "Nodes \<Rightarrow> (int list \<times> OrderedIntSet) option" where
  "LabelCreator_createHLCalcOrder ns = do {
     n \<leftarrow> Nodes_getNodeCount ns;
     calcOrder \<leftarrow> LabelCreator_sortByLevel ns [0..n - 1];
     changeIndices \<leftarrow> LabelCreator_changeIndices ns calcOrder;
     Some (calcOrder, changeIndices)
   }"

section \<open>The labels of all nodes\<close>

text \<open>The threads of one iteration: blocks of the nodes between two change indices.\<close>

definition LabelCreator_threads :: "int list \<Rightarrow> int \<Rightarrow> int \<Rightarrow> HLDijkstra list option" where
  "LabelCreator_threads calcOrder startIdx endIdx = (let minThreadNum = endIdx - startIdx in
     if minThreadNum > NUM_OF_THREADS then do {
       let numOfNodes = minThreadNum div NUM_OF_THREADS;
       (threadList, threadStartIdx) \<leftarrow> for_range 1 NUM_OF_THREADS (\<lambda>j (threadList, threadStartIdx). do {
           let threadEndIdx = threadStartIdx + numOfNodes;
           thread \<leftarrow> HLDijkstra_new threadStartIdx threadEndIdx calcOrder;
           Some (threadList @ [thread], threadEndIdx)
         }) ([], startIdx);
       thread \<leftarrow> HLDijkstra_new threadStartIdx endIdx calcOrder;
       Some (threadList @ [thread])
     } else for_range startIdx endIdx (\<lambda>j threadList. do {
         thread \<leftarrow> HLDijkstra_new j (j + 1) calcOrder;
         Some (threadList @ [thread])
       }) [])"

definition LabelCreator_runThreads :: "Nodes \<Rightarrow> Edges \<Rightarrow> DynamicGrid \<Rightarrow> HLDijkstra list \<Rightarrow> Labels \<Rightarrow> Labels option" where
  "LabelCreator_runThreads ns es g threadList L = for_list threadList (\<lambda>thread L. do {
     (_, L) \<leftarrow> HLDijkstra_run ns es g thread L;
     Some L
   }) L"

definition LabelCreator_calcLabels ::
    "(HLDijkstra list \<Rightarrow> HLDijkstra list) \<Rightarrow> Nodes \<Rightarrow> Edges \<Rightarrow> DynamicGrid \<Rightarrow> Labels \<Rightarrow> Labels option" where
  "LabelCreator_calcLabels threadOrder ns es g L = do {
     (calcOrder, changeIndices) \<leftarrow> LabelCreator_createHLCalcOrder ns;
     let maxCalcIdx = OrderedIntSet_size changeIndices - (NUM_OF_NO_LABEL_LVLS + 1);
     for_range 0 maxCalcIdx (\<lambda>i L. do {
       startIdx \<leftarrow> OrderedIntSet_get changeIndices i;
       endIdx \<leftarrow> OrderedIntSet_get changeIndices (i + 1);
       threadList \<leftarrow> LabelCreator_threads calcOrder startIdx endIdx;
       LabelCreator_runThreads ns es g (threadOrder threadList) L
     }) L
   }"

text \<open>The data of the router, made from the labels, as it is stored.\<close>

definition LabelCreator_serializeHubLData ::
    "Nodes \<Rightarrow> Edges \<Rightarrow> DynamicGrid \<Rightarrow> Labels \<Rightarrow> HubLNodes \<Rightarrow> HubLStore option" where
  "LabelCreator_serializeHubLData ns es g L hn = do {
     he \<leftarrow> HubLEdges_initialize es;
     let hn = HubLNodes_initHlLvl hn NUM_OF_NO_LABEL_LVLS;
     (hn, ns) \<leftarrow> HubLNodes_initNodeData hn ns;
     (hn, g) \<leftarrow> HubLNodes_initEdgeInfo hn es g;
     hn \<leftarrow> HubLNodes_initLabelInfo hn L;
     HubLStore_storeData (hn, he)
   }"

section \<open>Sorting by level\<close>

definition levels_known :: "Nodes \<Rightarrow> nat \<Rightarrow> bool" where
  "levels_known ns n \<longleftrightarrow> (\<exists>lv. no_levels ns = Some lv \<and> length lv = n)"

lemma levels_known_lvl:
  "levels_known ns n \<Longrightarrow> 0 \<le> v \<Longrightarrow> v < int n \<Longrightarrow> Nodes_getNodeLvl ns v = Some (node_lvl ns v)"
  by (auto simp: levels_known_def Nodes_getNodeLvl_def node_lvl_def java)

text \<open>
  \<open>tail_ok c m\<close>: the elements of \<open>c\<close> from position \<open>m\<close> on are in their place, below all before them.
\<close>

definition tail_ok :: "(int \<Rightarrow> int) \<Rightarrow> int list \<Rightarrow> nat \<Rightarrow> bool" where
  "tail_ok lvl c m \<longleftrightarrow> (\<forall>p q. p < q \<and> m \<le> q \<and> q < length c \<longrightarrow> lvl (c ! q) \<le> lvl (c ! p))"

lemma LabelCreator_bubble_ok:
  assumes "levels_known ns n" "set c \<subseteq> {0..<int n}" "0 < j" "j < m" "m \<le> length c" "tail_ok (node_lvl ns) c m"
    and "\<forall>p < j. node_lvl ns (c ! (j - 1)) \<le> node_lvl ns (c ! p)"
  shows "\<exists>c'. LabelCreator_bubble ns (int j) c = Some c' \<and> mset c' = mset c \<and> tail_ok (node_lvl ns) c' m \<and>
    (\<forall>p < Suc j. node_lvl ns (c' ! j) \<le> node_lvl ns (c' ! p))"
proof -
  let ?l = "node_lvl ns" let ?a = "c ! (j - 1)" let ?b = "c ! j"
  have "?a \<in> set c" "?b \<in> set c" using assms(3-5) by simp_all
  then have lv: "Nodes_getNodeLvl ns ?a = Some (?l ?a)" "Nodes_getNodeLvl ns ?b = Some (?l ?b)"
    using levels_known_lvl[OF assms(1)] assms(2) by auto
  have rd: "aget c (int j - 1) = Some ?a" "aget c (int j) = Some ?b" using assms(3-5) by (auto simp: aget_def nat_diff_distrib')
  show ?thesis
  proof (cases "?l ?a < ?l ?b")
    case False
    then have "LabelCreator_bubble ns (int j) c = Some c" using lv rd by (simp add: LabelCreator_bubble_def)
    moreover have "?l ?b \<le> ?l (c ! p)" if "p < Suc j" for p
    proof (cases "p = j")
      case ne: False
      then have "?l ?a \<le> ?l (c ! p)" using assms(7) that by simp
      with False show ?thesis by simp
    qed simp
    ultimately show ?thesis using assms(6) by auto
  next
    case True
    let ?c = "c[j - 1 := ?b, j := ?a]"
    have run: "LabelCreator_bubble ns (int j) c = Some ?c"
      using True lv rd assms(3-5) by (auto simp: LabelCreator_bubble_def aset_def nat_diff_distrib')
    have ms: "mset ?c = mset c" using assms(3-5) mset_swap[of j c "j - 1"] by simp
    have nth: "?c ! p = (if p = j then ?a else if p = j - 1 then ?b else c ! p)" if "p < length c" for p
      using that assms(3-5) by (auto simp: nth_list_update)
    have "?l (?c ! q) \<le> ?l (?c ! p)" if q: "p < q" "m \<le> q" "q < length c" for p q
    proof -
      have "?l (c ! q) \<le> ?l (c ! p')" if "p' < q" for p' using assms(6) q that by (simp add: tail_ok_def)
      moreover have "j < q" "j - 1 < q" using q assms(4) by simp_all
      ultimately show ?thesis using nth[of p] nth[of q] q by auto
    qed
    then have "tail_ok ?l ?c m" by (simp add: tail_ok_def)
    moreover have "?l (?c ! j) \<le> ?l (?c ! p)" if "p < Suc j" for p
      using nth[of p] nth[of j] assms(3-5,7) True that by (cases "p = j"; cases "p = j - 1") auto
    ultimately show ?thesis using run ms by blast
  qed
qed

lemma LabelCreator_pass_ok:
  assumes "levels_known ns n" "set c \<subseteq> {0..<int n}" "0 < m" "m \<le> length c" "tail_ok (node_lvl ns) c m"
  shows "\<exists>c'. for_range 1 (int m) (LabelCreator_bubble ns) c = Some c' \<and> mset c' = mset c \<and> tail_ok (node_lvl ns) c' (m - 1)"
proof -
  define I where "I j d \<longleftrightarrow> mset d = mset c \<and> tail_ok (node_lvl ns) d m \<and>
      (\<forall>p < nat j. node_lvl ns (d ! (nat j - 1)) \<le> node_lvl ns (d ! p))" for j d
  have "\<exists>d. for_range 1 (int m) (LabelCreator_bubble ns) c = Some d \<and> I (int m) d"
  proof (rule for_range_rule[where I = I])
    show "I 1 c" using assms(5) by (simp add: I_def)
    fix j d assume j: "1 \<le> j" "j < int m" and Id: "I j d"
    have d: "mset d = mset c" "tail_ok (node_lvl ns) d m" "\<forall>p < nat j. node_lvl ns (d ! (nat j - 1)) \<le> node_lvl ns (d ! p)"
      using Id by (auto simp: I_def)
    have "set d \<subseteq> {0..<int n}" "length d = length c" "nat j < m" using d(1) assms(2) mset_eq_setD mset_eq_length j by (metis, metis, simp)
    then obtain d' where "LabelCreator_bubble ns (int (nat j)) d = Some d'" "mset d' = mset d" "tail_ok (node_lvl ns) d' m"
      "\<forall>p < Suc (nat j). node_lvl ns (d' ! nat j) \<le> node_lvl ns (d' ! p)"
      using LabelCreator_bubble_ok[OF assms(1), of d "nat j" m] d(2,3) j assms(4) by auto
    moreover have "int (nat j) = j" "nat (j + 1) = Suc (nat j)" using j by simp_all
    ultimately show "\<exists>d'. LabelCreator_bubble ns j d = Some d' \<and> I (j + 1) d'" using d(1) by (auto simp: I_def)
  qed (use assms(3) in simp)
  then obtain d where d: "for_range 1 (int m) (LabelCreator_bubble ns) c = Some d" "mset d = mset c" "tail_ok (node_lvl ns) d m"
    "\<forall>p < m. node_lvl ns (d ! (m - 1)) \<le> node_lvl ns (d ! p)" by (auto simp: I_def)
  have "node_lvl ns (d ! q) \<le> node_lvl ns (d ! p)" if "p < q" "m - 1 \<le> q" "q < length d" for p q
    using d(3,4) that assms(3) by (cases "m \<le> q") (auto simp: tail_ok_def not_le less_Suc_eq dest!: le_antisym)
  then have "tail_ok (node_lvl ns) d (m - 1)" by (simp add: tail_ok_def)
  with d show ?thesis by blast
qed

lemma LabelCreator_sortByLevel_ok:
  assumes "levels_known ns n" "set c \<subseteq> {0..<int n}"
  shows "\<exists>c'. LabelCreator_sortByLevel ns c = Some c' \<and> mset c' = mset c \<and>
    sorted_wrt (\<lambda>a b. node_lvl ns b \<le> node_lvl ns a) c'"
proof -
  let ?n = "length c"
  define I where "I i d \<longleftrightarrow> mset d = mset c \<and> tail_ok (node_lvl ns) d (?n - nat i)" for i d
  have "\<exists>d. for_range 0 (int ?n) (\<lambda>i. for_range 1 (int ?n - i) (LabelCreator_bubble ns)) c = Some d \<and> I (int ?n) d"
  proof (rule for_range_rule[where I = I])
    show "I 0 c" by (simp add: I_def tail_ok_def)
    fix i d assume i: "0 \<le> i" "i < int ?n" and Id: "I i d"
    have d: "mset d = mset c" "tail_ok (node_lvl ns) d (?n - nat i)" using Id by (auto simp: I_def)
    have "set d \<subseteq> {0..<int n}" "length d = ?n" "nat i < ?n" using d(1) assms(2) mset_eq_setD mset_eq_length i by (metis, metis, simp)
    then obtain d' where "for_range 1 (int (?n - nat i)) (LabelCreator_bubble ns) d = Some d'" "mset d' = mset d"
      "tail_ok (node_lvl ns) d' (?n - nat i - 1)"
      using LabelCreator_pass_ok[OF assms(1), of d "?n - nat i"] d(2) i by auto
    moreover have "int (?n - nat i) = int ?n - i" "?n - nat (i + 1) = ?n - nat i - 1" using i by auto
    ultimately show "\<exists>d'. for_range 1 (int ?n - i) (LabelCreator_bubble ns) d = Some d' \<and> I (i + 1) d'" using d(1) by (simp add: I_def)
  qed simp
  then obtain d where d: "LabelCreator_sortByLevel ns c = Some d" "mset d = mset c" "tail_ok (node_lvl ns) d 0"
    by (auto simp: I_def LabelCreator_sortByLevel_def Let_def)
  then show ?thesis by (auto simp: tail_ok_def sorted_wrt_iff_nth_less)
qed

section \<open>The segments of equal level\<close>

definition change_points :: "(int \<Rightarrow> int) \<Rightarrow> int list \<Rightarrow> nat list" where
  "change_points lvl c = filter (\<lambda>i. 0 < i \<and> lvl (c ! i) < lvl (c ! (i - 1))) [0..<length c]"

lemma LabelCreator_changeIndices_ok:
  assumes "levels_known ns n" "set c \<subseteq> {0..<int n}" "\<And>v. v \<in> set c \<Longrightarrow> 0 \<le> node_lvl ns v"
  shows "\<exists>s. LabelCreator_changeIndices ns c = Some s \<and> os_inv s \<and>
    os_contents s = map int (0 # change_points (node_lvl ns) c @ [length c])"
proof -
  let ?l = "node_lvl ns"
  let ?P = "\<lambda>k. filter (\<lambda>i. 0 < i \<and> ?l (c ! i) < ?l (c ! (i - 1))) [0..<k]"
  obtain s0 where s0: "OrderedIntSet_new False 650 10 = Some s0" "os_inv s0" "os_contents s0 = []"
    using OrderedIntSet_new_ok[of 650 10 False] by auto
  obtain s1 where s1: "OrderedIntSet_insertTail s0 0 = Some s1" "os_inv s1" "os_contents s1 = [0]"
    using OrderedIntSet_insertTail_ok[OF s0(2), of 0] s0(3) by auto
  let ?step = "\<lambda>i (prevLvl, changeIndices). do {
         node \<leftarrow> aget c i;
         currLvl \<leftarrow> Nodes_getNodeLvl ns node;
         changeIndices \<leftarrow> (if currLvl < prevLvl then OrderedIntSet_insertTail changeIndices i else Some changeIndices);
         Some (currLvl, changeIndices) }"
  define I where "I i st \<longleftrightarrow> os_inv (snd st) \<and> os_contents (snd st) = map int (0 # ?P (nat i)) \<and>
      fst st = (if i = 0 then 0 else ?l (c ! (nat i - 1)))" for i :: int and st
  have "\<exists>st. for_range 0 (int (length c)) ?step (0, s1) = Some st \<and> I (int (length c)) st"
  proof (rule for_range_rule[where I = I])
    show "I 0 (0, s1)" using s1 by (simp add: I_def)
    fix i st assume i: "0 \<le> i" "i < int (length c)" and Ist: "I i st"
    obtain pl ci where st: "st = (pl, ci)" by (cases st)
    have J: "os_inv ci" "os_contents ci = map int (0 # ?P (nat i))" "pl = (if i = 0 then 0 else ?l (c ! (nat i - 1)))"
      using Ist by (auto simp: I_def st)
    have m: "c ! nat i \<in> set c" using i by simp
    have rd: "aget c i = Some (c ! nat i)" "Nodes_getNodeLvl ns (c ! nat i) = Some (?l (c ! nat i))"
      using i levels_known_lvl[OF assms(1), of "c ! nat i"] subsetD[OF assms(2) m] by (auto simp: java)
    have suc: "nat (i + 1) = Suc (nat i)" "i + 1 \<noteq> 0" using i by simp_all
    have test: "?l (c ! nat i) < pl \<longleftrightarrow> 0 < nat i \<and> ?l (c ! nat i) < ?l (c ! (nat i - 1))"
      using J(3) assms(3)[OF m] i by auto
    show "\<exists>st'. ?step i st = Some st' \<and> I (i + 1) st'"
    proof (cases "?l (c ! nat i) < pl")
      case True
      obtain ci' where "OrderedIntSet_insertTail ci i = Some ci'" "os_inv ci'" "os_contents ci' = os_contents ci @ [i]"
        using OrderedIntSet_insertTail_ok[OF J(1), of i] by auto
      then show ?thesis using rd True test J(2) i by (simp add: st I_def suc)
    next
      case False
      then have "?P (Suc (nat i)) = ?P (nat i)" using test by simp
      then show ?thesis using rd False J(1,2) by (simp add: st I_def suc del: upt_Suc)
    qed
  qed simp
  then obtain pl s2 where s2: "for_range 0 (int (length c)) ?step (0, s1) = Some (pl, s2)" "os_inv s2"
    "os_contents s2 = map int (0 # ?P (length c))" by (auto simp: I_def)
  obtain s3 where "OrderedIntSet_insertTail s2 (int (length c)) = Some s3" "os_inv s3" "os_contents s3 = os_contents s2 @ [int (length c)]"
    using OrderedIntSet_insertTail_ok[OF s2(2), of "int (length c)"] by auto
  then show ?thesis using s0(1) s1(1) s2 by (simp add: LabelCreator_changeIndices_def change_points_def)
qed

lemma segments:
  fixes lvl :: "int \<Rightarrow> int"
  assumes srt: "sorted_wrt (\<lambda>a b. lvl b \<le> lvl a) c" and B: "B = 0 # change_points lvl c @ [length c]" and i: "Suc i < length B"
  shows "B ! i \<le> B ! Suc i" "B ! Suc i \<le> length c"
    and "B ! i \<le> q \<Longrightarrow> q < B ! Suc i \<Longrightarrow> r < length c \<Longrightarrow> lvl (c ! q) < lvl (c ! r) \<Longrightarrow> r < B ! i"
proof -
  let ?P = "change_points lvl c"
  have P: "sorted_wrt (<) ?P" "\<forall>k \<in> set ?P. 0 < k \<and> k < length c"
    by (auto simp: change_points_def sorted_wrt_filter)
  have srtB: "sorted B" using P by (auto simp: B sorted_append less_imp_le strict_sorted_iff)
  show "B ! i \<le> B ! Suc i" using sorted_nth_mono[OF srtB, of i "Suc i"] i by simp
  show fin: "B ! Suc i \<le> length c" using nth_mem[OF i] P(2) by (auto simp: B)
  assume q: "B ! i \<le> q" "q < B ! Suc i" and r: "r < length c" "lvl (c ! q) < lvl (c ! r)"
  have none: "k \<notin> set ?P" if "B ! i < k" "k < B ! Suc i" for k
  proof
    assume "k \<in> set ?P"
    then obtain m where m: "m < length B" "B ! m = k" unfolding B by (metis in_set_conv_nth list.set_intros(2) in_set_conv_decomp Un_iff set_append)
    then show False using sorted_nth_mono[OF srtB, of m i] sorted_nth_mono[OF srtB, of "Suc i" m] i that
      by (cases "m \<le> i") auto
  qed
  have flat: "lvl (c ! (B ! i + k)) = lvl (c ! (B ! i))" if "B ! i + k < B ! Suc i" for k
    using that
  proof (induction k)
    case (Suc k)
    let ?j = "Suc (B ! i + k)"
    have "?j \<notin> set ?P" using none[of ?j] Suc.prems by simp
    then have "\<not> lvl (c ! ?j) < lvl (c ! (B ! i + k))" using Suc.prems fin by (auto simp: change_points_def)
    moreover have "lvl (c ! ?j) \<le> lvl (c ! (B ! i + k))"
      using sorted_wrt_nth_less[OF srt, of "B ! i + k" ?j] Suc.prems fin by simp
    ultimately show ?case using Suc by simp
  qed simp
  show "r < B ! i"
  proof (rule ccontr)
    assume "\<not> r < B ! i"
    then consider (le) "B ! i \<le> r" "r \<le> q" | (gt) "q < r" by linarith
    then show False
    proof cases
      case le
      then show False using flat[of "r - B ! i"] flat[of "q - B ! i"] q r(2) by simp
    next
      case gt
      then show False using sorted_wrt_nth_less[OF srt gt r(1)] r(2) by simp
    qed
  qed
qed

section \<open>The threads\<close>

definition thread_block :: "HLDijkstra \<Rightarrow> nat list" where
  "thread_block t = [nat (hl_startNodeIdx t)..<nat (hl_endNodeIdx t)]"

definition thread_ok :: "int list \<Rightarrow> HLDijkstra \<Rightarrow> bool" where
  "thread_ok c t \<longleftrightarrow> HLDijkstra_inv t \<and> hl_calcOrder t = c \<and> 0 \<le> hl_startNodeIdx t \<and> hl_startNodeIdx t \<le> hl_endNodeIdx t \<and>
     hl_endNodeIdx t \<le> int (length c)"

lemma HLDijkstra_new_ok:
  assumes "a \<le> b" "b \<le> length c"
  shows "\<exists>t. HLDijkstra_new (int a) (int b) c = Some t \<and> thread_ok c t \<and> thread_block t = [a..<b]"
proof -
  obtain f where f: "OrderedIntSet_new True 1000 2000 = Some f" "os_sorted f" "os_contents f = []"
    using OrderedIntSet_new_ok[of 1000 2000 True] by auto
  obtain d where d: "OrderedIntSet_new False 1000 2000 = Some d" "os_inv d" "os_contents d = []"
    using OrderedIntSet_new_ok[of 1000 2000 False] by auto
  show ?thesis using f d assms by (simp add: HLDijkstra_new_def thread_ok_def thread_block_def HLDijkstra_inv_def)
qed

lemma LabelCreator_threads_ok:
  assumes "a \<le> b" "b \<le> length c"
  shows "\<exists>ts. LabelCreator_threads c (int a) (int b) = Some ts \<and> (\<forall>t \<in> set ts. thread_ok c t) \<and>
    concat (map thread_block ts) = [a..<b]"
proof (cases "int b - int a > NUM_OF_THREADS")
  case True
  define k where "k = (b - a) div 16"
  have k: "(int b - int a) div NUM_OF_THREADS = int k" using assms(1) by (simp add: k_def NUM_OF_THREADS_def zdiv_int of_nat_diff)
  have k16: "k * 16 \<le> b - a" by (simp add: k_def)
  let ?step = "\<lambda>j (threadList, threadStartIdx). do {
           let threadEndIdx = threadStartIdx + int k;
           thread \<leftarrow> HLDijkstra_new threadStartIdx threadEndIdx c;
           Some (threadList @ [thread], threadEndIdx) }"
  define I where "I j st \<longleftrightarrow> (\<forall>t \<in> set (fst st). thread_ok c t) \<and> snd st = int (a + k * nat (j - 1)) \<and>
      concat (map thread_block (fst st)) = [a..<a + k * nat (j - 1)]" for j :: int and st :: "HLDijkstra list \<times> int"
  have "\<exists>st. for_range 1 NUM_OF_THREADS ?step ([], int a) = Some st \<and> I NUM_OF_THREADS st"
  proof (rule for_range_rule[where I = I])
    show "I 1 ([], int a)" by (simp add: I_def)
    fix j st assume j: "1 \<le> j" "j < NUM_OF_THREADS" and Ist: "I j st"
    let ?p = "a + k * nat (j - 1)"
    have "k * Suc (nat (j - 1)) \<le> k * 16" using j by (intro mult_le_mono2) (simp add: NUM_OF_THREADS_def)
    then have "k * nat (j - 1) + k \<le> b - a" using k16 by (simp only: mult_Suc_right)
    then have q: "?p \<le> ?p + k" "?p + k \<le> length c" using assms by simp_all
    obtain t where t: "HLDijkstra_new (int ?p) (int (?p + k)) c = Some t" "thread_ok c t" "thread_block t = [?p..<?p + k]"
      using HLDijkstra_new_ok[OF q] by blast
    have "nat (j + 1 - 1) = Suc (nat (j - 1))" using j by simp
    moreover have "[a..<?p] @ [?p..<?p + k] = [a..<?p + k]" using upt_add_eq_append[of a ?p k] by simp
    ultimately show "\<exists>st'. ?step j st = Some st' \<and> I (j + 1) st'"
      using Ist t by (cases st) (simp add: I_def Let_def add.assoc add.commute[of k])
  qed (simp add: NUM_OF_THREADS_def)
  then obtain ts where ts: "for_range 1 NUM_OF_THREADS ?step ([], int a) = Some (ts, int (a + k * 15))" "\<forall>t \<in> set ts. thread_ok c t"
    "concat (map thread_block ts) = [a..<a + k * 15]" by (auto simp: I_def NUM_OF_THREADS_def)
  have le: "a + k * 15 \<le> b" using k16 assms(1) by simp
  obtain t where t: "HLDijkstra_new (int (a + k * 15)) (int b) c = Some t" "thread_ok c t" "thread_block t = [a + k * 15..<b]"
    using HLDijkstra_new_ok[OF le assms(2)] by blast
  have "[a..<a + k * 15] @ [a + k * 15..<b] = [a..<b]" using le upt_add_eq_append[of a "a + k * 15" "b - (a + k * 15)"] by simp
  then show ?thesis using True ts t by (simp add: LabelCreator_threads_def Let_def k)
next
  case False
  let ?step = "\<lambda>j threadList. do { thread \<leftarrow> HLDijkstra_new j (j + 1) c; Some (threadList @ [thread]) }"
  define I where "I j ts \<longleftrightarrow> (\<forall>t \<in> set ts. thread_ok c t) \<and> concat (map thread_block ts) = [a..<nat j]" for j :: int and ts
  have "\<exists>ts. for_range (int a) (int b) ?step [] = Some ts \<and> I (int b) ts"
  proof (rule for_range_rule[where I = I])
    show "I (int a) []" by (simp add: I_def)
    fix j ts assume j: "int a \<le> j" "j < int b" and Its: "I j ts"
    have jc: "nat j \<le> Suc (nat j)" "Suc (nat j) \<le> length c" using assms j by auto
    obtain t where "HLDijkstra_new (int (nat j)) (int (Suc (nat j))) c = Some t" "thread_ok c t" "thread_block t = [nat j..<Suc (nat j)]"
      using HLDijkstra_new_ok[OF jc] by blast
    then show "\<exists>ts'. ?step j ts = Some ts' \<and> I (j + 1) ts'" using Its j
      by (simp add: I_def nat_add_distrib add.commute[of 1])
  qed (use assms in simp)
  then show ?thesis using False by (auto simp: LabelCreator_threads_def I_def)
qed

lemma HLDijkstra_run_ok:
  assumes H: "hierarchy_ok n ns es g" and L: "Labels_for n ns es g S L" and t: "thread_ok c t" and c: "set c \<subseteq> {0..<int n}" "distinct c"
    and S0: "S0 \<subseteq> S" and new: "\<And>q. q \<in> set (thread_block t) \<Longrightarrow> c ! q \<notin> S"
    and ups: "\<And>q e. q \<in> set (thread_block t) \<Longrightarrow> e \<in> set (up_edges ns es g (c ! q)) \<Longrightarrow> edge_dest es e \<in> S0"
  shows "\<exists>t' L'. HLDijkstra_run ns es g t L = Some (t', L') \<and> Labels_for n ns es g (S \<union> (\<lambda>q. c ! q) ` set (thread_block t)) L'"
proof -
  let ?a = "hl_startNodeIdx t" let ?b = "hl_endNodeIdx t"
  have ab: "0 \<le> ?a" "?a \<le> ?b" "?b \<le> int (length c)" "HLDijkstra_inv t" "hl_calcOrder t = c" using t by (auto simp: thread_ok_def)
  let ?step = "\<lambda>nodeIdx (h, L). do { nodeId \<leftarrow> aget (hl_calcOrder h) nodeIdx; HLDijkstra_calcLabels ns es g nodeId (h, L) }"
  define I where "I k st \<longleftrightarrow> HLDijkstra_inv (fst st) \<and> hl_calcOrder (fst st) = c \<and>
      Labels_for n ns es g (S \<union> (\<lambda>q. c ! q) ` {nat ?a..<nat k}) (snd st)" for k st
  have "\<exists>st. for_range ?a ?b ?step (t, L) = Some st \<and> I ?b st"
  proof (rule for_range_rule[where I = I])
    show "I ?a (t, L)" using L ab by (simp add: I_def)
    fix k st assume k: "?a \<le> k" "k < ?b" and Ist: "I k st"
    obtain h L1 where st: "st = (h, L1)" by (cases st)
    let ?S = "S \<union> (\<lambda>q. c ! q) ` {nat ?a..<nat k}" let ?v = "c ! nat k"
    have J: "HLDijkstra_inv h" "hl_calcOrder h = c" "Labels_for n ns es g ?S L1" using Ist by (auto simp: I_def st)
    have kb: "nat k \<in> set (thread_block t)" "nat k < length c" using k ab by (auto simp: thread_block_def nat_less_iff)
    then have vc: "?v \<in> set c" by simp
    have v: "0 \<le> ?v" "?v < int n" using subsetD[OF c(1) vc] by auto
    have "c ! q \<noteq> ?v" if "q < nat k" for q using c(2) kb(2) that by (simp add: nth_eq_iff_index_eq)
    then have vS: "?v \<notin> ?S" using new[OF kb(1)] by (auto simp: image_iff) metis
    have up: "edge_dest es e \<in> ?S" if "e \<in> set (up_edges ns es g ?v)" for e using ups[OF kb(1) that] S0 by auto
    obtain h' L' where r: "HLDijkstra_calcLabels ns es g ?v (h, L1) = Some (h', L')" "HLDijkstra_inv h'" "hl_calcOrder h' = hl_calcOrder h"
      "Labels_for n ns es g (insert ?v ?S) L'"
      using HLDijkstra_calcLabels_ok[OF H J(3) v vS up J(1)] by blast
    have "insert ?v ?S = S \<union> (\<lambda>q. c ! q) ` {nat ?a..<nat (k + 1)}"
      using k ab by (auto simp: nat_add_distrib atLeastLessThanSuc)
    then show "\<exists>st'. ?step k st = Some st' \<and> I (k + 1) st'" using r J(2) kb k ab by (auto simp: st I_def java)
  qed (rule ab(2))
  then show ?thesis using ab by (auto simp: HLDijkstra_run_def I_def thread_block_def)
qed

lemma LabelCreator_runThreads_ok:
  assumes H: "hierarchy_ok n ns es g" and c: "set c \<subseteq> {0..<int n}" "distinct c"
    and L: "Labels_for n ns es g S L" and ts: "\<And>t. t \<in> set ts \<Longrightarrow> thread_ok c t" and S0: "S0 \<subseteq> S"
    and dist: "distinct (concat (map thread_block ts))"
    and new: "\<And>q. q \<in> set (concat (map thread_block ts)) \<Longrightarrow> c ! q \<notin> S"
    and ups: "\<And>q e. q \<in> set (concat (map thread_block ts)) \<Longrightarrow> e \<in> set (up_edges ns es g (c ! q)) \<Longrightarrow> edge_dest es e \<in> S0"
  shows "\<exists>L'. LabelCreator_runThreads ns es g ts L = Some L' \<and>
    Labels_for n ns es g (S \<union> (\<lambda>q. c ! q) ` set (concat (map thread_block ts))) L'"
  using L ts S0 dist new ups
proof (induction ts arbitrary: S L)
  case Nil
  then show ?case by (simp add: LabelCreator_runThreads_def)
next
  case (Cons t ts)
  let ?N = "(\<lambda>q. c ! q) ` set (thread_block t)"
  have t: "thread_ok c t" using Cons.prems(2) by simp
  obtain t' L1 where r: "HLDijkstra_run ns es g t L = Some (t', L1)" "Labels_for n ns es g (S \<union> ?N) L1"
    using HLDijkstra_run_ok[OF H Cons.prems(1) t c Cons.prems(3), of] Cons.prems(5,6)
    by (metis (no_types, lifting) UN_iff concat.simps(2) list.simps(9) set_append UnI1)
  have len: "q < length c" if "t0 \<in> set (t # ts)" "q \<in> set (thread_block t0)" for t0 q
    using Cons.prems(2)[OF that(1)] that(2) by (auto simp: thread_ok_def thread_block_def nat_less_iff)
  have "\<exists>L'. LabelCreator_runThreads ns es g ts L1 = Some L' \<and>
      Labels_for n ns es g (S \<union> ?N \<union> (\<lambda>q. c ! q) ` set (concat (map thread_block ts))) L'"
  proof (rule Cons.IH[OF r(2)])
    show "S0 \<subseteq> S \<union> ?N" using Cons.prems(3) by blast
    show "c ! q \<notin> S \<union> ?N" if q: "q \<in> set (concat (map thread_block ts))" for q
    proof -
      obtain t0 where t0: "t0 \<in> set ts" "q \<in> set (thread_block t0)" using q by auto
      have "q \<notin> set (thread_block t)" using Cons.prems(4) q by auto
      then have "c ! q \<noteq> c ! q'" if "q' \<in> set (thread_block t)" for q'
        using that nth_eq_iff_index_eq[OF c(2), of q q'] len[of t0 q] len[of t q'] t0 by auto
      then show ?thesis using Cons.prems(5)[of q] q by auto
    qed
    show "edge_dest es e \<in> S0" if "q \<in> set (concat (map thread_block ts))" "e \<in> set (up_edges ns es g (c ! q))" for q e
      using Cons.prems(6)[of q e] that by simp
  qed (use Cons.prems(2,4) in auto)
  then show ?case using r(1) by (auto simp: LabelCreator_runThreads_def Un_assoc image_Un)
qed

section \<open>All labels\<close>

lemma Labels_initialize_ok:
  "\<exists>L. Labels_initialize (int n) = Some L \<and> Labels_for n ns es g {} L"
  by (simp add: Labels_initialize_def newArray_def Labels_for_def Labels_sized_def labelling_def)

lemma mset_concat_blocks: "mset xs = mset ys \<Longrightarrow> mset (concat (map f xs)) = mset (concat (map f ys))"
proof -
  have "mset (concat (map f zs)) = sum_mset (image_mset (\<lambda>z. mset (f z)) (mset zs))" for zs by (induction zs) auto
  then show "mset xs = mset ys \<Longrightarrow> mset (concat (map f xs)) = mset (concat (map f ys))" by simp
qed

lemma LabelCreator_calcLabels_ok:
  assumes H: "hierarchy_ok n ns es g" and cnt: "Nodes_getNodeCount ns = Some (int n)"
    and pos: "\<And>v. 0 \<le> v \<Longrightarrow> v < int n \<Longrightarrow> 0 \<le> node_lvl ns v"
    and order: "\<And>ts. mset (threadOrder ts) = mset ts" and L: "Labels_for n ns es g {} L"
  shows "\<exists>L'. LabelCreator_calcLabels threadOrder ns es g L = Some L' \<and> Labels_for n ns es g {0..<int n} L'"
proof -
  let ?l = "node_lvl ns"
  have lv: "levels_known ns n" using H by (auto simp: hierarchy_ok_def levels_known_def)
  have sub: "set [0..int n - 1] \<subseteq> {0..<int n}" by auto
  obtain c where c: "LabelCreator_sortByLevel ns [0..int n - 1] = Some c" "mset c = mset [0..int n - 1]"
    "sorted_wrt (\<lambda>a b. ?l b \<le> ?l a) c"
    using LabelCreator_sortByLevel_ok[OF lv sub] by blast
  have "set c = set [0..int n - 1]" by (rule mset_eq_setD[OF c(2)])
  then have setc: "set c = {0..<int n}" by (simp add: atLeastLessThanPlusOne_atLeastAtMost_int[symmetric])
  have distc: "distinct c" using mset_eq_imp_distinct_iff[OF c(2)] by simp
  have lenc: "length c = n" using mset_eq_length[OF c(2)] by simp
  define B where "B = 0 # change_points ?l c @ [length c]"
  obtain s where s: "LabelCreator_changeIndices ns c = Some s" "os_inv s" "os_contents s = map int B"
    using LabelCreator_changeIndices_ok[OF lv, of c] setc pos unfolding B_def by auto
  have order': "LabelCreator_createHLCalcOrder ns = Some (c, s)" by (simp add: LabelCreator_createHLCalcOrder_def cnt c(1) s(1))
  let ?m = "length B - 1"
  have size: "OrderedIntSet_size s - (NUM_OF_NO_LABEL_LVLS + 1) = int ?m"
    using s(2,3) by (simp add: OrderedIntSet_size_eq NUM_OF_NO_LABEL_LVLS_def B_def)
  let ?step = "\<lambda>i L. do {
       startIdx \<leftarrow> OrderedIntSet_get s i;
       endIdx \<leftarrow> OrderedIntSet_get s (i + 1);
       threadList \<leftarrow> LabelCreator_threads c startIdx endIdx;
       LabelCreator_runThreads ns es g (threadOrder threadList) L }"
  define I where "I i L \<longleftrightarrow> Labels_for n ns es g (set (take (B ! nat i) c)) L" for i L
  have "\<exists>L'. for_range 0 (int ?m) ?step L = Some L' \<and> I (int ?m) L'"
  proof (rule for_range_rule[where I = I])
    show "I 0 L" using L by (simp add: I_def B_def)
    fix i L1 assume i: "0 \<le> i" "i < int ?m" and IL: "I i L1"
    let ?i = "nat i" let ?a = "B ! ?i" let ?b = "B ! Suc ?i" let ?S = "set (take ?a c)"
    have si: "Suc ?i < length B" using i by simp
    note seg = segments[OF c(3) B_def si]
    have rd: "OrderedIntSet_get s i = Some (int ?a)" "OrderedIntSet_get s (i + 1) = Some (int ?b)"
      using s(2,3) i si by (simp_all add: OrderedIntSet_get_eq aget_def nat_add_distrib)
    obtain ts where ts: "LabelCreator_threads c (int ?a) (int ?b) = Some ts" "\<forall>t \<in> set ts. thread_ok c t"
      "concat (map thread_block ts) = [?a..<?b]" using LabelCreator_threads_ok[OF seg(1,2)] by blast
    let ?ts = "threadOrder ts"
    have ms: "mset (concat (map thread_block ?ts)) = mset [?a..<?b]" using mset_concat_blocks[OF order, of thread_block ts] ts(3) by simp
    have blk: "set (concat (map thread_block ?ts)) = {?a..<?b}" using mset_eq_setD[OF ms] by simp
    have up: "edge_dest es e \<in> ?S" if q: "q \<in> {?a..<?b}" "e \<in> set (up_edges ns es g (c ! q))" for q e
    proof -
      have ql: "q < length c" using q(1) seg(2) by simp
      then have v: "0 \<le> c ! q" "c ! q < int n" using nth_mem[OF ql] setc by auto
      have "e \<in> set (all_edges g (c ! q))" "?l (c ! q) \<le> ?l (edge_dest es e)" using q(2) by (auto simp: up_edges_def)
      with hierarchy_okD(5)[OF H v, of e] have d: "edge_dest es e \<in> set c" "?l (c ! q) < ?l (edge_dest es e)" using setc by auto
      then obtain r where r: "r < length c" "c ! r = edge_dest es e" by (auto simp: in_set_conv_nth)
      then have "r < ?a" using seg(3)[of q r] q(1) d(2) by auto
      then show ?thesis using r by (auto simp: in_set_conv_nth intro!: exI[of _ r])
    qed
    have "\<exists>L'. LabelCreator_runThreads ns es g ?ts L1 = Some L' \<and>
        Labels_for n ns es g (?S \<union> (\<lambda>q. c ! q) ` set (concat (map thread_block ?ts))) L'"
    proof (rule LabelCreator_runThreads_ok[OF H _ distc, of ?S L1 ?ts ?S])
      show "thread_ok c t" if "t \<in> set ?ts" for t using that ts(2) mset_eq_setD[OF order] by blast
      show "distinct (concat (map thread_block ?ts))" using mset_eq_imp_distinct_iff[OF ms] by simp
      show "c ! q \<notin> ?S" if "q \<in> set (concat (map thread_block ?ts))" for q
        using that seg(2) distc unfolding blk by (auto simp: in_set_conv_nth nth_eq_iff_index_eq)
      show "edge_dest es e \<in> ?S" if "q \<in> set (concat (map thread_block ?ts))" "e \<in> set (up_edges ns es g (c ! q))" for q e
        using that up unfolding blk by blast
    qed (use IL setc in \<open>auto simp: I_def\<close>)
    moreover have "?S \<union> (\<lambda>q. c ! q) ` {?a..<?b} = set (take ?b c)"
    proof -
      have "?S = (\<lambda>q. c ! q) ` {0..<?a}" "set (take ?b c) = (\<lambda>q. c ! q) ` {0..<?b}"
        using nth_image[of ?a c] nth_image[of ?b c] seg(1,2) by simp_all
      then show ?thesis using seg(1) by (simp only: image_Un[symmetric] ivl_disj_un_two(3) zero_le)
    qed
    ultimately obtain L' where "LabelCreator_runThreads ns es g ?ts L1 = Some L'" "Labels_for n ns es g (set (take ?b c)) L'"
      unfolding blk by auto
    then show "\<exists>L'. ?step i L1 = Some L' \<and> I (i + 1) L'" using rd ts(1) i by (simp add: I_def nat_add_distrib)
  qed simp
  moreover have "set (take (B ! ?m) c) = {0..<int n}" using setc by (simp add: B_def nth_append)
  ultimately show ?thesis using order' by (auto simp: LabelCreator_calcLabels_def size I_def)
qed

end
