(* ===== verification/BinaryHeap.thy ===== *)
theory BinaryHeap
  imports Prelude "HOL-Library.Multiset"
begin

text \<open>
  The binary heap both priority queues of the program (\<open>DijkstraHeap\<close> and
  \<open>DistanceHeap\<close>) are built on.

  The first part is the reference: sifting down and up on a list whose elements are
  compared by a key function, and that it restores the heap order. The second part is the
  locale \<open>array_heap\<close>: the two classes contain the same methods \<open>heapifyTopDown\<close> and
  \<open>heapifyBottomUp\<close> over their own \<open>compareValues\<close> and \<open>swap\<close>; from the laws of these
  two and the recursion equations of the methods, the methods refine the reference.
\<close>

section \<open>Heap order on lists\<close>

definition swap_list :: "'a list \<Rightarrow> nat \<Rightarrow> nat \<Rightarrow> 'a list" where
  "swap_list xs i j = xs[i := xs ! j, j := xs ! i]"

definition heap_ordered :: "('a \<Rightarrow> int) \<Rightarrow> 'a list \<Rightarrow> bool" where
  "heap_ordered key xs \<longleftrightarrow>
     (\<forall>i. 0 < i \<and> i < length xs \<longrightarrow> key (xs ! ((i - 1) div 2)) \<le> key (xs ! i))"

definition smallest_of :: "('a \<Rightarrow> int) \<Rightarrow> 'a list \<Rightarrow> nat \<Rightarrow> nat" where
  "smallest_of key xs root =
     (let smallest = (if 2 * root + 1 < length xs \<and> key (xs ! (2 * root + 1)) < key (xs ! root)
                      then 2 * root + 1 else root)
      in if 2 * root + 2 < length xs \<and> key (xs ! (2 * root + 2)) < key (xs ! smallest)
         then 2 * root + 2 else smallest)"

lemma length_swap_list [simp]: "length (swap_list xs i j) = length xs"
  by (simp add: swap_list_def)

lemma mset_swap_list: "i < length xs \<Longrightarrow> j < length xs \<Longrightarrow> mset (swap_list xs i j) = mset xs"
  by (simp add: swap_list_def mset_swap)

lemma nth_swap_list:
  "i < length xs \<Longrightarrow> j < length xs \<Longrightarrow> k < length xs \<Longrightarrow>
     swap_list xs i j ! k = (if k = i then xs ! j else if k = j then xs ! i else xs ! k)"
  by (auto simp: swap_list_def nth_list_update)

lemma take_swap_list:
  "i < n \<Longrightarrow> j < n \<Longrightarrow> n \<le> length xs \<Longrightarrow> take n (swap_list xs i j) = swap_list (take n xs) i j"
  by (simp add: swap_list_def take_update_swap)

lemma drop_swap_list: "i < n \<Longrightarrow> j < n \<Longrightarrow> drop n (swap_list xs i j) = drop n xs"
  by (simp add: swap_list_def drop_update_cancel)

lemma smallest_of_bounds:
  "smallest_of key xs r \<noteq> r \<Longrightarrow> smallest_of key xs r < length xs \<and> r < smallest_of key xs r \<and>
     (smallest_of key xs r = 2 * r + 1 \<or> smallest_of key xs r = 2 * r + 2)"
  by (auto simp: smallest_of_def Let_def split: if_splits)

lemma smallest_of_min:
  "c = 2 * r + 1 \<or> c = 2 * r + 2 \<Longrightarrow> c < length xs \<Longrightarrow>
     key (xs ! smallest_of key xs r) \<le> key (xs ! c)"
  by (auto simp: smallest_of_def Let_def)

lemma smallest_of_less:
  "smallest_of key xs r \<noteq> r \<Longrightarrow> key (xs ! smallest_of key xs r) < key (xs ! r)"
  by (auto simp: smallest_of_def Let_def split: if_splits)

function sift_down :: "('a \<Rightarrow> int) \<Rightarrow> 'a list \<Rightarrow> nat \<Rightarrow> 'a list" where
  "sift_down key xs root =
     (let smallest = smallest_of key xs root in
      if smallest \<noteq> root then sift_down key (swap_list xs root smallest) smallest else xs)"
  by pat_completeness auto
termination
proof (relation "measure (\<lambda>(key, xs, r). length xs - r)")
  fix key :: "'a \<Rightarrow> int" and xs root x
  assume "x = smallest_of key xs root" "x \<noteq> root"
  then show "((key, swap_list xs root x, x), (key, xs, root)) \<in> measure (\<lambda>(key, xs, r). length xs - r)"
    using smallest_of_bounds[of key xs root] by auto
qed simp

function sift_up :: "('a \<Rightarrow> int) \<Rightarrow> 'a list \<Rightarrow> nat \<Rightarrow> 'a list" where
  "sift_up key xs i =
     (if i = 0 then xs
      else if key (xs ! i) < key (xs ! ((i - 1) div 2))
           then sift_up key (swap_list xs i ((i - 1) div 2)) ((i - 1) div 2) else xs)"
  by pat_completeness auto
termination by (relation "measure (\<lambda>(key, xs, i). i)") auto

declare sift_down.simps [simp del] sift_up.simps [simp del]

lemma sift_down_mset:
  "r < length xs \<Longrightarrow> mset (sift_down key xs r) = mset xs"
proof (induction key xs r rule: sift_down.induct)
  case (1 key xs r)
  then show ?case
    using smallest_of_bounds[of key xs r]
    by (subst sift_down.simps) (auto simp: Let_def mset_swap_list)
qed

lemma sift_up_mset:
  "i < length xs \<Longrightarrow> mset (sift_up key xs i) = mset xs"
proof (induction key xs i rule: sift_up.induct)
  case (1 key xs i)
  then show ?case
    by (subst sift_up.simps) (auto simp: mset_swap_list)
qed

lemma length_sift_down: "r < length xs \<Longrightarrow> length (sift_down key xs r) = length xs"
  using sift_down_mset[of r xs key] mset_eq_length by metis

lemma length_sift_up: "i < length xs \<Longrightarrow> length (sift_up key xs i) = length xs"
  using sift_up_mset[of i xs key] mset_eq_length by metis

text \<open>The order holds everywhere except below, respectively above, one position.\<close>

definition hole_below :: "('a \<Rightarrow> int) \<Rightarrow> 'a list \<Rightarrow> nat \<Rightarrow> bool" where
  "hole_below key xs r \<longleftrightarrow>
     (\<forall>i. 0 < i \<and> i < length xs \<longrightarrow>
        ((i - 1) div 2 \<noteq> r \<longrightarrow> key (xs ! ((i - 1) div 2)) \<le> key (xs ! i)) \<and>
        ((i - 1) div 2 = r \<and> 0 < r \<longrightarrow> key (xs ! ((r - 1) div 2)) \<le> key (xs ! i)))"

definition hole_above :: "('a \<Rightarrow> int) \<Rightarrow> 'a list \<Rightarrow> nat \<Rightarrow> bool" where
  "hole_above key xs r \<longleftrightarrow>
     (\<forall>i. 0 < i \<and> i < length xs \<longrightarrow>
        (i \<noteq> r \<longrightarrow> key (xs ! ((i - 1) div 2)) \<le> key (xs ! i)) \<and>
        ((i - 1) div 2 = r \<and> 0 < r \<longrightarrow> key (xs ! ((r - 1) div 2)) \<le> key (xs ! i)))"

lemma half_child: "(i - 1) div 2 = r \<Longrightarrow> 0 < i \<Longrightarrow> i = 2 * r + 1 \<or> i = 2 * r + 2" for i :: nat
  by arith

lemma half_less: "0 < i \<Longrightarrow> (i - 1) div 2 < i" for i :: nat
  by arith

lemma sift_down_step:
  assumes hole: "hole_below key xs r" and r: "r < length xs" and ne: "smallest_of key xs r \<noteq> r"
  shows "hole_below key (swap_list xs r (smallest_of key xs r)) (smallest_of key xs r)"
proof -
  define s where "s = smallest_of key xs r"
  have s: "s < length xs" "r < s" "s = 2 * r + 1 \<or> s = 2 * r + 2" and lt: "key (xs ! s) < key (xs ! r)"
    using smallest_of_bounds[OF ne] smallest_of_less[OF ne] by (auto simp: s_def)
  have ps: "(s - 1) div 2 = r" using s(3) by auto
  have min: "key (xs ! s) \<le> key (xs ! i)" if "(i - 1) div 2 = r" "0 < i" "i < length xs" for i
    using half_child[OF that(1,2)] smallest_of_min[of i r xs key] that by (simp add: s_def)
  note nth = nth_swap_list[OF r s(1)]
  show ?thesis unfolding s_def[symmetric] hole_below_def length_swap_list
  proof (intro allI impI conjI)
    fix i assume i: "0 < i \<and> i < length xs"
    then have p: "(i - 1) div 2 < length xs" "(i - 1) div 2 < i" by auto
    have old: "(i - 1) div 2 \<noteq> r \<Longrightarrow> key (xs ! ((i - 1) div 2)) \<le> key (xs ! i)"
      using hole i by (simp add: hole_below_def)
    have up: "key (xs ! ((r - 1) div 2)) \<le> key (xs ! s)" if "0 < r"
      using hole s ps that unfolding hole_below_def by (metis gr_implies_not0 not_gr_zero)
    show "key (swap_list xs r s ! ((i - 1) div 2)) \<le> key (swap_list xs r s ! i)" if "(i - 1) div 2 \<noteq> s"
    proof (cases "(i - 1) div 2 = r")
      case True
      then show ?thesis using i p lt min[of i] nth by (cases "i = s") auto
    next
      case False
      then have "i \<noteq> s" using ps by auto
      then show ?thesis using False that i p old up nth by (cases "i = r") auto
    qed
    show "key (swap_list xs r s ! ((s - 1) div 2)) \<le> key (swap_list xs r s ! i)"
      if "(i - 1) div 2 = s \<and> 0 < s"
    proof -
      have "i \<noteq> r" "i \<noteq> s" using that p s(2) by auto
      then show ?thesis using that old ps i r s nth by auto
    qed
  qed
qed

lemma sift_down_heap:
  "hole_below key xs r \<Longrightarrow> r < length xs \<Longrightarrow> heap_ordered key (sift_down key xs r)"
proof (induction key xs r rule: sift_down.induct)
  case (1 key xs r)
  show ?case
  proof (cases "smallest_of key xs r = r")
    case True
    have "heap_ordered key xs" unfolding heap_ordered_def
    proof (intro allI impI)
      fix i assume i: "0 < i \<and> i < length xs"
      show "key (xs ! ((i - 1) div 2)) \<le> key (xs ! i)"
      proof (cases "(i - 1) div 2 = r")
        case c: True
        then show ?thesis using half_child[OF c] smallest_of_min[of i r xs key] i True by simp
      next
        case False
        then show ?thesis using i "1.prems" by (simp add: hole_below_def)
      qed
    qed
    then show ?thesis using True by (subst sift_down.simps) simp
  next
    case False
    then show ?thesis
      using 1 smallest_of_bounds[OF False] sift_down_step[of key xs r]
      by (subst sift_down.simps) (simp add: Let_def)
  qed
qed

lemma sift_up_step:
  assumes hole: "hole_above key xs i" and i: "0 < i" "i < length xs"
    and lt: "key (xs ! i) < key (xs ! ((i - 1) div 2))"
  shows "hole_above key (swap_list xs i ((i - 1) div 2)) ((i - 1) div 2)"
proof -
  define p where "p = (i - 1) div 2"
  have p: "p < i" "p < length xs" using i by (auto simp: p_def)
  note nth = nth_swap_list[OF i(2) p(2)]
  show ?thesis unfolding p_def[symmetric] hole_above_def length_swap_list
  proof (intro allI impI conjI)
    fix j assume j: "0 < j \<and> j < length xs"
    then have q: "(j - 1) div 2 < length xs" "(j - 1) div 2 < j" by auto
    have old: "j \<noteq> i \<Longrightarrow> key (xs ! ((j - 1) div 2)) \<le> key (xs ! j)"
      and below: "(j - 1) div 2 = i \<Longrightarrow> key (xs ! p) \<le> key (xs ! j)"
      using hole j i by (auto simp: hole_above_def p_def)
    show "key (swap_list xs i p ! ((j - 1) div 2)) \<le> key (swap_list xs i p ! j)" if "j \<noteq> p"
    proof (cases "j = i")
      case True
      then show ?thesis using lt i p nth by (simp add: p_def)
    next
      case False
      have "key (xs ! i) \<le> key (xs ! p)" using lt by (simp add: p_def)
      moreover have "(j - 1) div 2 = p \<Longrightarrow> key (xs ! p) \<le> key (xs ! j)" using old False by auto
      ultimately show ?thesis using False that old below j q nth by auto
    qed
    show "key (swap_list xs i p ! ((p - 1) div 2)) \<le> key (swap_list xs i p ! j)"
      if c: "(j - 1) div 2 = p \<and> 0 < p"
    proof -
      have pp: "(p - 1) div 2 < p" using half_less c by blast
      then have pi: "(p - 1) div 2 \<noteq> i" using p by linarith
      have "key (xs ! ((p - 1) div 2)) \<le> key (xs ! p)" using hole c p by (auto simp: hole_above_def)
      moreover have "key (xs ! p) \<le> key (xs ! j)" if "j \<noteq> i" using old that c by auto
      moreover have "j \<noteq> p" using c q by auto
      ultimately show ?thesis using pp pi p j nth by auto
    qed
  qed
qed

lemma sift_up_heap:
  "hole_above key xs i \<Longrightarrow> i < length xs \<Longrightarrow> heap_ordered key (sift_up key xs i)"
proof (induction key xs i rule: sift_up.induct)
  case (1 key xs i)
  show ?case
  proof (cases "0 < i \<and> key (xs ! i) < key (xs ! ((i - 1) div 2))")
    case True
    then show ?thesis
      using 1 sift_up_step[of key xs i] by (subst sift_up.simps) auto
  next
    case False
    then have "heap_ordered key xs"
      using "1.prems" unfolding heap_ordered_def hole_above_def by (metis not_less)
    then show ?thesis using False by (subst sift_up.simps) auto
  qed
qed

lemma heap_ordered_root:
  assumes "heap_ordered key xs" "i < length xs"
  shows "key (xs ! 0) \<le> key (xs ! i)"
  using assms(2)
proof (induction i rule: less_induct)
  case (less i)
  show ?case
  proof (cases "i = 0")
    case False
    then have "key (xs ! 0) \<le> key (xs ! ((i - 1) div 2))" using less by auto
    also have "\<dots> \<le> key (xs ! i)" using assms(1) less.prems False by (simp add: heap_ordered_def)
    finally show ?thesis .
  qed simp
qed

text \<open>Filling the root from the last slot leaves the order violated below the root only.\<close>

lemma hole_below_root:
  assumes "heap_ordered key xs" "0 < n" "n < length xs" "ys = take n (xs[0 := xs ! n])"
  shows "hole_below key ys 0"
  using assms by (auto simp: hole_below_def heap_ordered_def)

lemma mset_replace_root:
  assumes "0 < n" "n < length xs"
  shows "add_mset (xs ! 0) (mset (take n (xs[0 := xs ! n]))) = mset (take (Suc n) xs)"
proof -
  obtain x ys where xs: "xs = x # ys" using assms by (cases xs) auto
  obtain m where n: "n = Suc m" using assms by (cases n) auto
  show ?thesis using assms unfolding xs n by (simp add: take_Suc_conv_app_nth)
qed

text \<open>
  A decreased key, or a new last element, leaves the order violated above that element only.
\<close>

lemma hole_above_decrease:
  assumes "heap_ordered key xs" "distinct xs" "i < length xs"
    and "key' (xs ! i) \<le> key (xs ! i)" "\<And>x. x \<in> set xs \<Longrightarrow> x \<noteq> xs ! i \<Longrightarrow> key' x = key x"
  shows "hole_above key' xs i"
  unfolding hole_above_def
proof (intro allI impI conjI)
  fix j assume j: "0 < j \<and> j < length xs"
  let ?p = "(j - 1) div 2"
  have p: "?p < length xs" "?p < j" using j by auto
  have k: "key' (xs ! l) = key (xs ! l)" if "l < length xs" "l \<noteq> i" for l
    using assms(5)[of "xs ! l"] that assms(2,3) by (simp add: nth_eq_iff_index_eq)
  have h: "key (xs ! ?p) \<le> key (xs ! j)" using assms(1) j by (simp add: heap_ordered_def)
  show "key' (xs ! ?p) \<le> key' (xs ! j)" if "j \<noteq> i"
    using that h k[of j] k[of ?p] j p assms(4) by (cases "?p = i") auto
  show "key' (xs ! ((i - 1) div 2)) \<le> key' (xs ! j)" if c: "?p = i \<and> 0 < i"
  proof -
    have "(i - 1) div 2 \<noteq> i" "j \<noteq> i" "(i - 1) div 2 < length xs" using c p half_less[of i] assms(3) by auto
    moreover have "key (xs ! ((i - 1) div 2)) \<le> key (xs ! i)"
      using assms(1,3) c by (simp add: heap_ordered_def)
    ultimately show ?thesis using k[of j] k[of "(i - 1) div 2"] h c j by auto
  qed
qed

lemma hole_above_snoc:
  assumes "heap_ordered key xs"
  shows "hole_above key (xs @ [x]) (length xs)"
  using assms by (auto simp: hole_above_def heap_ordered_def nth_append)

lemma heap_ordered_cong:
  assumes "\<And>x. x \<in> set xs \<Longrightarrow> key' x = key x"
  shows "heap_ordered key' xs = heap_ordered key xs"
proof -
  have "0 < i \<and> i < length xs \<Longrightarrow> key' (xs ! ((i - 1) div 2)) = key (xs ! ((i - 1) div 2)) \<and> key' (xs ! i) = key (xs ! i)" for i
    using assms[OF nth_mem] half_less[of i] by (meson less_trans)
  then show ?thesis unfolding heap_ordered_def by metis
qed

section \<open>The heapify methods refine sifting\<close>

text \<open>
  The interface of the shared methods. \<open>ok n s\<close>: the first \<open>n\<close> slots of the heap array
  are in step with the class's position index. \<open>frame\<close> is what sifting leaves alone.
\<close>

locale array_heap =
  fixes ok :: "nat \<Rightarrow> 's \<Rightarrow> bool"
    and arr :: "'s \<Rightarrow> int list"
    and key :: "'s \<Rightarrow> int \<Rightarrow> int"
    and frame :: "'s \<Rightarrow> 'f"
    and compareValues :: "'s \<Rightarrow> int \<Rightarrow> int \<Rightarrow> int option"
    and swap :: "'s \<Rightarrow> int \<Rightarrow> int \<Rightarrow> 's option"
    and heapifyTopDown :: "'s \<Rightarrow> int \<Rightarrow> int \<Rightarrow> 's option"
    and heapifyBottomUp :: "'s \<Rightarrow> int \<Rightarrow> 's option"
  assumes ok_length: "ok n s \<Longrightarrow> n \<le> length (arr s)"
    and compareValues_eq: "ok n s \<Longrightarrow> i < n \<Longrightarrow> j < n \<Longrightarrow>
      compareValues s (int i) (int j) =
        Some (if key s (arr s ! i) = key s (arr s ! j) then 0
              else if key s (arr s ! i) > key s (arr s ! j) then 1 else -1)"
    and swap_ok: "ok n s \<Longrightarrow> i < n \<Longrightarrow> j < n \<Longrightarrow> \<exists>s'. swap s (int i) (int j) = Some s' \<and> ok n s' \<and>
      arr s' = swap_list (arr s) i j \<and> key s' = key s \<and> frame s' = frame s"
    and heapifyTopDown_eq: "heapifyTopDown s sz root = do {
      let leftChild = 2 * root + 1;
      let rightChild = 2 * root + 2;
      smallest \<leftarrow> (if leftChild < sz then do {
          c \<leftarrow> compareValues s leftChild root;
          Some (if c < 0 then leftChild else root)
        } else Some root);
      smallest \<leftarrow> (if rightChild < sz then do {
          c \<leftarrow> compareValues s rightChild smallest;
          Some (if c < 0 then rightChild else smallest)
        } else Some smallest);
      if smallest \<noteq> root then do {
        s \<leftarrow> swap s root smallest;
        heapifyTopDown s sz smallest
      } else Some s
    }"
    and heapifyBottomUp_eq: "heapifyBottomUp s nodeID =
      (if nodeID \<le> 0 then Some s
       else do {
         let parent = (nodeID - 1) div 2;
         c \<leftarrow> compareValues s nodeID parent;
         if c < 0 then do {
           s \<leftarrow> swap s nodeID parent;
           heapifyBottomUp s parent
         } else Some s
       })"
begin

abbreviation heap_list :: "nat \<Rightarrow> 's \<Rightarrow> int list" where
  "heap_list n s \<equiv> take n (arr s)"

lemma compare_negative:
  assumes "ok n s" "i < n" "j < n"
  shows "\<exists>c. compareValues s (int i) (int j) = Some c \<and>
           (c < 0 \<longleftrightarrow> key s (heap_list n s ! i) < key s (heap_list n s ! j))"
  using compareValues_eq[OF assms] assms by auto

lemma heapifyTopDown_refines:
  assumes "ok n s" "r < n"
  shows "\<exists>s'. heapifyTopDown s (int n) (int r) = Some s' \<and> ok n s' \<and> key s' = key s \<and>
     frame s' = frame s \<and> heap_list n s' = sift_down (key s) (heap_list n s) r \<and>
     drop n (arr s') = drop n (arr s)"
  using assms
proof (induction "n - r" arbitrary: r s rule: less_induct)
  case less
  let ?xs = "heap_list n s" let ?k = "key s"
  let ?l = "2 * r + 1" let ?r = "2 * r + 2"
  define s1 where "s1 = (if ?l < n \<and> ?k (?xs ! ?l) < ?k (?xs ! r) then ?l else r)"
  define sm where "sm = (if ?r < n \<and> ?k (?xs ! ?r) < ?k (?xs ! s1) then ?r else s1)"
  have len: "length ?xs = n" using ok_length[OF less.prems(1)] by simp
  have sm: "sm = smallest_of ?k ?xs r" unfolding smallest_of_def Let_def sm_def s1_def len ..
  have ints: "2 * int r + 1 = int ?l" "2 * int r + 2 = int ?r" by simp_all
  have s1n: "s1 < n" using less.prems by (simp add: s1_def)
  have c1: "(if int ?l < int n then do {
          c \<leftarrow> compareValues s (int ?l) (int r);
          Some (if c < 0 then int ?l else int r)
        } else Some (int r)) = Some (int s1)"
    using compare_negative[OF less.prems(1), of ?l r] less.prems by (auto simp: s1_def)
  have c2: "(if int ?r < int n then do {
          c \<leftarrow> compareValues s (int ?r) (int s1);
          Some (if c < 0 then int ?r else int s1)
        } else Some (int s1)) = Some (int sm)"
  proof (cases "?r < n")
    case True
    obtain c where "compareValues s (int ?r) (int s1) = Some c"
      "c < 0 \<longleftrightarrow> ?k (?xs ! ?r) < ?k (?xs ! s1)"
      using compare_negative[OF less.prems(1) True s1n] by blast
    then show ?thesis using True unfolding sm_def by (simp del: of_nat_Suc of_nat_add nth_take)
  qed (simp add: sm_def)
  have unf: "heapifyTopDown s (int n) (int r) =
      (if sm \<noteq> r then do { s \<leftarrow> swap s (int r) (int sm); heapifyTopDown s (int n) (int sm) } else Some s)"
    unfolding heapifyTopDown_eq[of s "int n" "int r"] ints Let_def c1 Option.bind_lunit c2 by simp
  show ?case
  proof (cases "sm = r")
    case True
    then show ?thesis using unf less.prems sm by (subst sift_down.simps) simp
  next
    case False
    then have b: "sm < n" "r < sm" using smallest_of_bounds[of ?k ?xs r] len by (auto simp: sm)
    obtain t where t: "swap s (int r) (int sm) = Some t" "ok n t"
      "arr t = swap_list (arr s) r sm" "key t = key s" "frame t = frame s"
      using swap_ok[OF less.prems b(1)] by blast
    have ht: "heap_list n t = swap_list ?xs r sm"
      using t(3) less.prems(2) b(1) ok_length[OF less.prems(1)] by (simp add: take_swap_list)
    obtain s' where s': "heapifyTopDown t (int n) (int sm) = Some s'" "ok n s'" "key s' = key t"
      "frame s' = frame t" "heap_list n s' = sift_down (key t) (heap_list n t) sm"
      "drop n (arr s') = drop n (arr t)"
      using less.hyps[OF diff_less_mono2[OF b(2) less.prems(2)] t(2) b(1)] by blast
    have "sift_down ?k ?xs r = sift_down ?k (swap_list ?xs r sm) sm"
      using False by (subst sift_down.simps) (simp add: sm[symmetric] Let_def)
    moreover have "drop n (arr t) = drop n (arr s)"
      using t(3) less.prems(2) b(1) by (simp add: drop_swap_list)
    ultimately show ?thesis using unf False t s' ht by simp
  qed
qed

lemma heapifyBottomUp_refines:
  assumes "ok n s" "i < n"
  shows "\<exists>s'. heapifyBottomUp s (int i) = Some s' \<and> ok n s' \<and> key s' = key s \<and>
     frame s' = frame s \<and> heap_list n s' = sift_up (key s) (heap_list n s) i \<and>
     drop n (arr s') = drop n (arr s)"
  using assms
proof (induction i arbitrary: s rule: less_induct)
  case (less i)
  let ?xs = "heap_list n s" let ?k = "key s" let ?p = "(i - 1) div 2"
  show ?case
  proof (cases "i = 0")
    case True
    then show ?thesis using less.prems by (subst heapifyBottomUp_eq) (simp add: sift_up.simps)
  next
    case False
    have p: "?p < i" "?p < n" using half_less[of i] False less.prems by auto
    have ints: "(int i - 1) div 2 = int ?p" using False by (simp add: zdiv_int of_nat_diff)
    obtain c where c: "compareValues s (int i) (int ?p) = Some c" "c < 0 \<longleftrightarrow> ?k (?xs ! i) < ?k (?xs ! ?p)"
      using compare_negative[OF less.prems p(2)] by blast
    have unf: "heapifyBottomUp s (int i) =
        (if c < 0 then do { s \<leftarrow> swap s (int i) (int ?p); heapifyBottomUp s (int ?p) } else Some s)"
      using False unfolding heapifyBottomUp_eq[of s "int i"] Let_def ints c(1) by simp
    show ?thesis
    proof (cases "c < 0")
      case lt: True
      obtain t where t: "swap s (int i) (int ?p) = Some t" "ok n t"
        "arr t = swap_list (arr s) i ?p" "key t = key s" "frame t = frame s"
        using swap_ok[OF less.prems p(2)] by blast
      have ht: "heap_list n t = swap_list ?xs i ?p"
        using t(3) less.prems(2) p(2) ok_length[OF less.prems(1)] by (simp add: take_swap_list)
      obtain s' where s': "heapifyBottomUp t (int ?p) = Some s'" "ok n s'" "key s' = key t"
        "frame s' = frame t" "heap_list n s' = sift_up (key t) (heap_list n t) ?p"
        "drop n (arr s') = drop n (arr t)"
        using less.IH[OF p(1) t(2) p(2)] by blast
      have "sift_up ?k ?xs i = sift_up ?k (swap_list ?xs i ?p) ?p"
        using lt c(2) False by (subst sift_up.simps) simp
      moreover have "drop n (arr t) = drop n (arr s)"
        using t(3) less.prems(2) p(2) by (simp add: drop_swap_list)
      ultimately show ?thesis using unf lt t s' ht by simp
    next
      case nlt: False
      then have "sift_up ?k ?xs i = ?xs" using c(2) by (subst sift_up.simps) simp
      then show ?thesis using unf nlt less.prems by simp
    qed
  qed
qed

end

end
