(* ===== verification/DistanceHeap.thy ===== *)
theory DistanceHeap
  imports BinaryHeap
begin

text \<open>
  The class \<open>utils/DistanceHeap.java\<close>: a binary heap of ids that stores the distances
  itself. The ids on the heap are kept once more in the sorted array \<open>containedIds\<close>, padded
  with \<open>Integer.MAX_VALUE\<close>; \<open>distances\<close> and \<open>heapPosition\<close> are parallel to it, so every
  access is a binary search.

  The class implements a priority queue on a finite map from ids to distances
  (\<open>DistanceHeap_map\<close>): the locale \<open>dist_queue\<close>, interpreted as \<open>distanceHeap\<close>.
\<close>

record DistanceHeap =
  dq_SIZE_INCREASE :: int
  dq_containedIds :: "int list"
  dq_distances :: "int list"
  dq_heapPosition :: "int list"
  dq_idHeapArray :: "int list"
  dq_currentSize :: int

definition DistanceHeap_new :: "int \<Rightarrow> int \<Rightarrow> DistanceHeap option" where
  "DistanceHeap_new initialSize sizeIncrease = do {
     heapPosition \<leftarrow> newArray initialSize 0;
     idHeapArray \<leftarrow> newArray initialSize 0;
     containedIds \<leftarrow> newArray initialSize 0;
     distances \<leftarrow> newArray initialSize 0;
     Some \<lparr>dq_SIZE_INCREASE = sizeIncrease, dq_containedIds = fillAll containedIds MAX_VALUE,
           dq_distances = distances, dq_heapPosition = heapPosition, dq_idHeapArray = idHeapArray,
           dq_currentSize = 0\<rparr>
   }"

definition DistanceHeap_newDefault :: "DistanceHeap option" where
  "DistanceHeap_newDefault = DistanceHeap_new 10 5"

definition DistanceHeap_reset :: "DistanceHeap \<Rightarrow> DistanceHeap" where
  "DistanceHeap_reset h =
     h\<lparr>dq_currentSize := 0, dq_containedIds := fillAll (dq_containedIds h) MAX_VALUE\<rparr>"

definition DistanceHeap_isEmpty :: "DistanceHeap \<Rightarrow> bool" where
  "DistanceHeap_isEmpty h \<longleftrightarrow> dq_currentSize h = 0"

definition DistanceHeap_compareValues :: "DistanceHeap \<Rightarrow> int \<Rightarrow> int \<Rightarrow> int option" where
  "DistanceHeap_compareValues h firstID secondID = do {
     a \<leftarrow> aget (dq_idHeapArray h) firstID;
     positionIdx1 \<leftarrow> binarySearch (dq_containedIds h) a;
     b \<leftarrow> aget (dq_idHeapArray h) secondID;
     positionIdx2 \<leftarrow> binarySearch (dq_containedIds h) b;
     d1 \<leftarrow> aget (dq_distances h) positionIdx1;
     d2 \<leftarrow> aget (dq_distances h) positionIdx2;
     Some (if d1 = d2 then 0 else if d1 > d2 then 1 else -1)
   }"

definition DistanceHeap_swap :: "DistanceHeap \<Rightarrow> int \<Rightarrow> int \<Rightarrow> DistanceHeap option" where
  "DistanceHeap_swap h i j = do {
     tmp \<leftarrow> aget (dq_idHeapArray h) i;
     y \<leftarrow> aget (dq_idHeapArray h) j;
     arr \<leftarrow> aset (dq_idHeapArray h) i y;
     arr \<leftarrow> aset arr j tmp;
     a \<leftarrow> aget arr i;
     positionIdxI \<leftarrow> binarySearch (dq_containedIds h) a;
     b \<leftarrow> aget arr j;
     positionIdxJ \<leftarrow> binarySearch (dq_containedIds h) b;
     tmp \<leftarrow> aget (dq_heapPosition h) positionIdxI;
     pj \<leftarrow> aget (dq_heapPosition h) positionIdxJ;
     pos \<leftarrow> aset (dq_heapPosition h) positionIdxI pj;
     pos \<leftarrow> aset pos positionIdxJ tmp;
     Some (h\<lparr>dq_idHeapArray := arr, dq_heapPosition := pos\<rparr>)
   }"

partial_function (option) DistanceHeap_heapifyTopDown ::
    "DistanceHeap \<Rightarrow> int \<Rightarrow> int \<Rightarrow> DistanceHeap option" where
  "DistanceHeap_heapifyTopDown h n root = do {
     let leftChild = 2 * root + 1;
     let rightChild = 2 * root + 2;
     smallest \<leftarrow> (if leftChild < n then do {
         c \<leftarrow> DistanceHeap_compareValues h leftChild root;
         Some (if c < 0 then leftChild else root)
       } else Some root);
     smallest \<leftarrow> (if rightChild < n then do {
         c \<leftarrow> DistanceHeap_compareValues h rightChild smallest;
         Some (if c < 0 then rightChild else smallest)
       } else Some smallest);
     if smallest \<noteq> root then do {
       h \<leftarrow> DistanceHeap_swap h root smallest;
       DistanceHeap_heapifyTopDown h n smallest
     } else Some h
   }"

partial_function (option) DistanceHeap_heapifyBottomUp ::
    "DistanceHeap \<Rightarrow> int \<Rightarrow> DistanceHeap option" where
  "DistanceHeap_heapifyBottomUp h nodeID =
     (if nodeID \<le> 0 then Some h
      else do {
        let parent = (nodeID - 1) div 2;
        c \<leftarrow> DistanceHeap_compareValues h nodeID parent;
        if c < 0 then do {
          h \<leftarrow> DistanceHeap_swap h nodeID parent;
          DistanceHeap_heapifyBottomUp h parent
        } else Some h
      })"

declare DistanceHeap_heapifyTopDown.simps [code] DistanceHeap_heapifyBottomUp.simps [code]

definition DistanceHeap_grow :: "DistanceHeap \<Rightarrow> DistanceHeap option" where
  "DistanceHeap_grow h = do {
     let oldLen = int (length (dq_idHeapArray h));
     arr \<leftarrow> copyOf (dq_idHeapArray h) (oldLen + dq_SIZE_INCREASE h) 0;
     ds \<leftarrow> copyOf (dq_distances h) (oldLen + dq_SIZE_INCREASE h) 0;
     cid \<leftarrow> copyOf (dq_containedIds h) (oldLen + dq_SIZE_INCREASE h) 0;
     cid \<leftarrow> fillRange cid oldLen (int (length cid)) MAX_VALUE;
     pos \<leftarrow> copyOf (dq_heapPosition h) (oldLen + dq_SIZE_INCREASE h) 0;
     cid \<leftarrow> fillRange cid oldLen (int (length cid)) MAX_VALUE;
     Some (h\<lparr>dq_idHeapArray := arr, dq_distances := ds, dq_containedIds := cid, dq_heapPosition := pos\<rparr>)
   }"

definition DistanceHeap_getNext :: "DistanceHeap \<Rightarrow> (int \<times> DistanceHeap) option" where
  "DistanceHeap_getNext h = do {
     returnValue \<leftarrow> aget (dq_idHeapArray h) 0;
     deleteIdx \<leftarrow> binarySearch (dq_containedIds h) returnValue;
     let currentSize = dq_currentSize h - 1;
     lastId \<leftarrow> aget (dq_idHeapArray h) currentSize;
     arr \<leftarrow> aset (dq_idHeapArray h) 0 lastId;
     first \<leftarrow> aget arr 0;
     positionIdx \<leftarrow> binarySearch (dq_containedIds h) first;
     pos \<leftarrow> aset (dq_heapPosition h) positionIdx 0;
     h \<leftarrow> DistanceHeap_heapifyTopDown
            (h\<lparr>dq_currentSize := currentSize, dq_idHeapArray := arr, dq_heapPosition := pos\<rparr>) currentSize 0;
     h \<leftarrow> (if deleteIdx < currentSize then do {
         cid \<leftarrow> arraycopy (dq_containedIds h) (deleteIdx + 1) (dq_containedIds h) deleteIdx (currentSize - deleteIdx);
         ds \<leftarrow> arraycopy (dq_distances h) (deleteIdx + 1) (dq_distances h) deleteIdx (currentSize - deleteIdx);
         pos \<leftarrow> arraycopy (dq_heapPosition h) (deleteIdx + 1) (dq_heapPosition h) deleteIdx (currentSize - deleteIdx);
         Some (h\<lparr>dq_containedIds := cid, dq_distances := ds, dq_heapPosition := pos\<rparr>)
       } else Some h);
     cid \<leftarrow> aset (dq_containedIds h) currentSize MAX_VALUE;
     Some (returnValue, h\<lparr>dq_containedIds := cid\<rparr>)
   }"

definition DistanceHeap_add :: "DistanceHeap \<Rightarrow> int \<Rightarrow> int \<Rightarrow> DistanceHeap option" where
  "DistanceHeap_add h x distance = do {
     idx \<leftarrow> binarySearch (dq_containedIds h) x;
     if idx \<ge> 0 then do {
       ds \<leftarrow> aset (dq_distances h) idx distance;
       p \<leftarrow> aget (dq_heapPosition h) idx;
       DistanceHeap_heapifyBottomUp (h\<lparr>dq_distances := ds\<rparr>) p
     } else do {
       h \<leftarrow> (if dq_currentSize h = int (length (dq_idHeapArray h)) then DistanceHeap_grow h else Some h);
       let insertIdx = (idx + 1) * (-1);
       let cnt = dq_currentSize h - insertIdx;
       cid \<leftarrow> arraycopy (dq_containedIds h) insertIdx (dq_containedIds h) (insertIdx + 1) cnt;
       cid \<leftarrow> aset cid insertIdx x;
       ds \<leftarrow> arraycopy (dq_distances h) insertIdx (dq_distances h) (insertIdx + 1) cnt;
       ds \<leftarrow> aset ds insertIdx distance;
       arr \<leftarrow> aset (dq_idHeapArray h) (dq_currentSize h) x;
       pos \<leftarrow> arraycopy (dq_heapPosition h) insertIdx (dq_heapPosition h) (insertIdx + 1) cnt;
       pos \<leftarrow> aset pos insertIdx (dq_currentSize h);
       h \<leftarrow> DistanceHeap_heapifyBottomUp
              (h\<lparr>dq_containedIds := cid, dq_distances := ds, dq_idHeapArray := arr, dq_heapPosition := pos\<rparr>)
              (dq_currentSize h);
       Some (h\<lparr>dq_currentSize := dq_currentSize h + 1\<rparr>)
     }
   }"

section \<open>Invariant\<close>

text \<open>
  \<open>dq_index p n h\<close>: the arrays parallel to the sorted ids \<open>p\<close> have the same length, and the
  first \<open>n\<close> heap slots hold ids of \<open>p\<close> whose recorded position is their slot. While
  \<open>getNext\<close> runs, \<open>p\<close> holds one id more than the heap.
\<close>

definition dq_ids :: "DistanceHeap \<Rightarrow> int list" where
  "dq_ids h = takeWhile (\<lambda>x. x < MAX_VALUE) (dq_containedIds h)"

definition dq_key :: "DistanceHeap \<Rightarrow> int \<Rightarrow> int" where
  "dq_key h x = dq_distances h ! lpos (dq_ids h) x"

definition dq_index :: "nat \<Rightarrow> DistanceHeap \<Rightarrow> bool" where
  "dq_index n h \<longleftrightarrow> 0 < dq_SIZE_INCREASE h \<and> padded (dq_containedIds h) (dq_ids h) \<and>
     length (dq_distances h) = length (dq_containedIds h) \<and>
     length (dq_heapPosition h) = length (dq_containedIds h) \<and>
     length (dq_idHeapArray h) = length (dq_containedIds h) \<and> n \<le> length (dq_ids h) \<and>
     (\<forall>i < n. dq_idHeapArray h ! i \<in> set (dq_ids h) \<and>
        dq_heapPosition h ! lpos (dq_ids h) (dq_idHeapArray h ! i) = int i)"

definition dq_inv :: "DistanceHeap \<Rightarrow> bool" where
  "dq_inv h \<longleftrightarrow> dq_currentSize h = int (length (dq_ids h)) \<and> dq_index (length (dq_ids h)) h \<and>
     heap_ordered (dq_key h) (take (length (dq_ids h)) (dq_idHeapArray h))"

definition DistanceHeap_map :: "DistanceHeap \<Rightarrow> int \<Rightarrow> int option" where
  "DistanceHeap_map h x = (if x \<in> set (dq_ids h) then Some (dq_key h x) else None)"

lemma padded_ids: "padded a p \<Longrightarrow> takeWhile (\<lambda>x. x < MAX_VALUE) a = p"
proof -
  assume a: "padded a p"
  then have "\<forall>x \<in> set p. x < MAX_VALUE" by (simp add: padded_def)
  then have "takeWhile (\<lambda>x. x < MAX_VALUE) (p @ replicate (length a - length p) MAX_VALUE) = p"
    by (simp add: takeWhile_append2)
  moreover have "a = p @ replicate (length a - length p) MAX_VALUE" using a by (simp add: padded_def)
  ultimately show ?thesis by metis
qed

lemma dq_index_ids:
  assumes "dq_index n h"
  shows "sorted_wrt (<) (dq_ids h)" "\<forall>x \<in> set (dq_ids h). x < MAX_VALUE" "length (dq_ids h) \<le> length (dq_containedIds h)"
  using assms by (auto simp: dq_index_def padded_def)

lemma dq_search:
  assumes "dq_index n h" "x < MAX_VALUE"
  shows "binarySearch (dq_containedIds h) x =
    Some (if x \<in> set (dq_ids h) then int (lpos (dq_ids h) x) else - int (lpos (dq_ids h) x) - 1)"
  using assms by (intro padded_search) (auto simp: dq_index_def)

lemma dq_slot:
  assumes "dq_index n h" "i < n"
  shows "dq_idHeapArray h ! i \<in> set (dq_ids h)" "lpos (dq_ids h) (dq_idHeapArray h ! i) < length (dq_containedIds h)"
    "dq_heapPosition h ! lpos (dq_ids h) (dq_idHeapArray h ! i) = int i"
    "binarySearch (dq_containedIds h) (dq_idHeapArray h ! i) = Some (int (lpos (dq_ids h) (dq_idHeapArray h ! i)))"
    "i < length (dq_idHeapArray h)"
proof -
  show m: "dq_idHeapArray h ! i \<in> set (dq_ids h)" using assms by (simp add: dq_index_def)
  show "lpos (dq_ids h) (dq_idHeapArray h ! i) < length (dq_containedIds h)"
    using lpos_mem(1)[OF dq_index_ids(1)[OF assms(1)] m] dq_index_ids(3)[OF assms(1)] by simp
  show "dq_heapPosition h ! lpos (dq_ids h) (dq_idHeapArray h ! i) = int i" using assms by (simp add: dq_index_def)
  show "binarySearch (dq_containedIds h) (dq_idHeapArray h ! i) = Some (int (lpos (dq_ids h) (dq_idHeapArray h ! i)))"
    using dq_search[OF assms(1)] m dq_index_ids(2)[OF assms(1)] by simp
  show "i < length (dq_idHeapArray h)" using assms dq_index_ids(3)[OF assms(1)] by (simp add: dq_index_def)
qed

lemma dq_slot_inj:
  assumes "dq_index n h" "i < n" "j < n"
  shows "lpos (dq_ids h) (dq_idHeapArray h ! i) = lpos (dq_ids h) (dq_idHeapArray h ! j) \<longleftrightarrow> i = j"
  using dq_slot(3)[OF assms(1,2)] dq_slot(3)[OF assms(1,3)] by (metis of_nat_eq_iff)

lemma dq_distinct:
  assumes "dq_index n h"
  shows "distinct (take n (dq_idHeapArray h))"
  unfolding distinct_conv_nth
proof (intro allI impI)
  fix i j assume "i < length (take n (dq_idHeapArray h))" "j < length (take n (dq_idHeapArray h))" "i \<noteq> j"
  then show "take n (dq_idHeapArray h) ! i \<noteq> take n (dq_idHeapArray h) ! j"
    using dq_slot_inj[OF assms, of i j] by auto
qed

lemma dq_compare:
  assumes "dq_index n h" "i < n" "j < n"
  shows "DistanceHeap_compareValues h (int i) (int j) =
    Some (if dq_key h (dq_idHeapArray h ! i) = dq_key h (dq_idHeapArray h ! j) then 0
          else if dq_key h (dq_idHeapArray h ! i) > dq_key h (dq_idHeapArray h ! j) then 1 else -1)"
proof -
  have "length (dq_distances h) = length (dq_containedIds h)" using assms by (simp add: dq_index_def)
  then show ?thesis
    using dq_slot[OF assms(1,2)] dq_slot[OF assms(1,3)]
    by (simp add: DistanceHeap_compareValues_def java dq_key_def)
qed

lemma dq_swap_ok:
  assumes "dq_index n h" "i < n" "j < n"
  shows "\<exists>h'. DistanceHeap_swap h (int i) (int j) = Some h' \<and> dq_index n h' \<and>
    dq_idHeapArray h' = swap_list (dq_idHeapArray h) i j \<and> dq_key h' = dq_key h \<and>
    (dq_currentSize h', dq_containedIds h', dq_distances h') = (dq_currentSize h, dq_containedIds h, dq_distances h)"
proof -
  let ?a = "dq_idHeapArray h" let ?p = "dq_heapPosition h" let ?L = "lpos (dq_ids h)"
  let ?x = "?L (?a ! i)" let ?y = "?L (?a ! j)"
  let ?a' = "swap_list ?a i j" let ?p' = "?p[?y := int i, ?x := int j]"
  note si = dq_slot[OF assms(1,2)] and sj = dq_slot[OF assms(1,3)]
  have lp: "length ?p = length (dq_containedIds h)" using assms by (simp add: dq_index_def)
  have gi: "?a[i := ?a ! j, j := ?a ! i] ! i = ?a ! j" and gj: "?a[i := ?a ! j, j := ?a ! i] ! j = ?a ! i"
    using si(5) sj(5) by (auto simp: nth_list_update)
  let ?h = "h\<lparr>dq_idHeapArray := ?a', dq_heapPosition := ?p'\<rparr>"
  have run: "DistanceHeap_swap h (int i) (int j) = Some ?h"
    using si sj lp by (simp add: DistanceHeap_swap_def java gi gj swap_list_def)
  have ids: "dq_ids ?h = dq_ids h" by (simp add: dq_ids_def)
  have "?a' ! k \<in> set (dq_ids h) \<and> ?p' ! ?L (?a' ! k) = int k" if k: "k < n" for k
  proof -
    note sk = dq_slot[OF assms(1) k]
    have sw: "?a' ! k = (if k = i then ?a ! j else if k = j then ?a ! i else ?a ! k)"
      by (rule nth_swap_list[OF si(5) sj(5) sk(5)])
    show ?thesis
    proof (cases "k = i \<or> k = j")
      case True
      then show ?thesis using sw si sj lp dq_slot_inj[OF assms(1,3,2)] by (cases "i = j") auto
    next
      case False
      then show ?thesis
        using sw sk dq_slot_inj[OF assms(1,2) k] dq_slot_inj[OF assms(1,3) k] by simp
    qed
  qed
  then have "dq_index n ?h" using assms(1) unfolding dq_index_def ids by simp
  moreover have "dq_key ?h = dq_key h" by (simp add: dq_key_def fun_eq_iff ids)
  ultimately show ?thesis using run by simp
qed

interpretation distHeap: array_heap dq_index dq_idHeapArray dq_key
  "\<lambda>h. (dq_currentSize h, dq_containedIds h, dq_distances h)"
  DistanceHeap_compareValues DistanceHeap_swap DistanceHeap_heapifyTopDown DistanceHeap_heapifyBottomUp
proof unfold_locales
  show "\<And>n h. dq_index n h \<Longrightarrow> n \<le> length (dq_idHeapArray h)"
    by (auto simp: dq_index_def dest: padded_length)
qed (use dq_compare dq_swap_ok DistanceHeap_heapifyTopDown.simps DistanceHeap_heapifyBottomUp.simps in \<open>auto\<close>)

section \<open>The operations\<close>

lemma dq_inv_unfold:
  assumes "dq_inv h"
  shows "dq_currentSize h = int (length (dq_ids h))" "dq_index (length (dq_ids h)) h"
    "heap_ordered (dq_key h) (take (length (dq_ids h)) (dq_idHeapArray h))"
    "set (take (length (dq_ids h)) (dq_idHeapArray h)) = set (dq_ids h)"
    "length (dq_ids h) \<le> length (dq_idHeapArray h)"
proof -
  let ?p = "dq_ids h" let ?xs = "take (length ?p) (dq_idHeapArray h)"
  show idx: "dq_index (length ?p) h" and "dq_currentSize h = int (length ?p)"
    and "heap_ordered (dq_key h) ?xs" using assms by (simp_all add: dq_inv_def)
  show len: "length ?p \<le> length (dq_idHeapArray h)" by (rule distHeap.ok_length[OF idx])
  show "set ?xs = set ?p"
  proof (rule card_subset_eq)
    show "set ?xs \<subseteq> set ?p" using dq_slot(1)[OF idx] by (auto simp: in_set_conv_nth)
    show "card (set ?xs) = card (set ?p)"
      using distinct_card[OF dq_distinct[OF idx]] dq_index_ids(1)[OF idx] len
      by (simp add: strict_sorted_iff distinct_card)
  qed simp
qed

lemma DistanceHeap_reset_ok:
  assumes "dq_index n h"
  shows "dq_inv (DistanceHeap_reset h) \<and> DistanceHeap_map (DistanceHeap_reset h) = Map.empty"
proof -
  have ids: "dq_ids (DistanceHeap_reset h) = []"
    using padded_ids[OF padded_fillAll] by (simp add: dq_ids_def DistanceHeap_reset_def)
  then show ?thesis using assms
    by (auto simp: dq_inv_def dq_index_def DistanceHeap_reset_def heap_ordered_def DistanceHeap_map_def fun_eq_iff)
qed

lemma DistanceHeap_new_ok:
  assumes "0 \<le> initialSize" "0 < sizeIncrease"
  shows "\<exists>h. DistanceHeap_new initialSize sizeIncrease = Some h \<and> dq_inv h \<and> DistanceHeap_map h = Map.empty"
proof -
  obtain h where h: "DistanceHeap_new initialSize sizeIncrease = Some h" "h = DistanceHeap_reset h"
    "length (dq_distances h) = length (dq_containedIds h)" "length (dq_heapPosition h) = length (dq_containedIds h)"
    "length (dq_idHeapArray h) = length (dq_containedIds h)" "0 < dq_SIZE_INCREASE h"
    using assms by (auto simp: DistanceHeap_new_def newArray_def DistanceHeap_reset_def fillAll_def)
  have c: "dq_containedIds h = fillAll (dq_containedIds h) MAX_VALUE"
    using arg_cong[OF h(2), of dq_containedIds] by (simp add: DistanceHeap_reset_def)
  have "dq_ids h = []" unfolding dq_ids_def by (subst c) (rule padded_ids, simp)
  moreover from this have "padded (dq_containedIds h) (dq_ids h)" by (subst c) simp
  ultimately have "dq_index 0 h" using h by (simp add: dq_index_def)
  with DistanceHeap_reset_ok[of 0 h] h(1,2) show ?thesis by metis
qed

lemma DistanceHeap_isEmpty_iff:
  assumes "dq_inv h"
  shows "DistanceHeap_isEmpty h \<longleftrightarrow> DistanceHeap_map h = Map.empty"
  using dq_inv_unfold(1)[OF assms] by (cases "dq_ids h") (auto simp: DistanceHeap_isEmpty_def DistanceHeap_map_def fun_eq_iff)

text \<open>Removing the entry at one index from the three parallel arrays.\<close>

definition close_gap :: "nat \<Rightarrow> nat \<Rightarrow> int list \<Rightarrow> int list" where
  "close_gap n d a = take d a @ take (n - d) (drop (Suc d) a) @ drop n a"

lemma close_gap:
  assumes "d \<le> n" "n < length a"
  shows "length (close_gap n d a) = length a" "take n (close_gap n d a) = delete_pos (take (Suc n) a) d"
    "d = n \<Longrightarrow> close_gap n d a = a"
    "arraycopy a (int d + 1) a (int d) (int n - int d) = Some (close_gap n d a)"
  using assms arraycopy_close[OF assms] by (auto simp: close_gap_def delete_pos_def min_def drop_take)

lemma dq_close:
  assumes idx: "dq_index n h" and len: "length (dq_ids h) = Suc n" and d: "d \<le> n"
    and notin: "dq_ids h ! d \<notin> set (take n (dq_idHeapArray h))"
    and ord: "heap_ordered (dq_key h) (take n (dq_idHeapArray h))" and sz: "dq_currentSize h = int n"
  defines "h' \<equiv> h\<lparr>dq_containedIds := (close_gap n d (dq_containedIds h))[n := MAX_VALUE],
    dq_distances := close_gap n d (dq_distances h), dq_heapPosition := close_gap n d (dq_heapPosition h)\<rparr>"
  shows "dq_inv h'" "dq_ids h' = delete_pos (dq_ids h) d"
    "\<And>y. y \<in> set (dq_ids h) \<Longrightarrow> y \<noteq> dq_ids h ! d \<Longrightarrow> dq_key h' y = dq_key h y"
proof -
  let ?p = "dq_ids h"
  have srt: "sorted_wrt (<) ?p" and cl: "length ?p \<le> length (dq_containedIds h)" using dq_index_ids[OF idx] by auto
  have L: "n < length (dq_containedIds h)" "length (dq_distances h) = length (dq_containedIds h)"
    "length (dq_heapPosition h) = length (dq_containedIds h)" "length (dq_idHeapArray h) = length (dq_containedIds h)"
    using idx len cl by (auto simp: dq_index_def)
  have pad: "padded (dq_containedIds h') (delete_pos ?p d)"
    using padded_delete[of "dq_containedIds h" ?p d] idx d len
    by (simp add: h'_def close_gap_def dq_index_def)
  show ids: "dq_ids h' = delete_pos ?p d" unfolding dq_ids_def[of h'] by (rule padded_ids[OF pad])
  have n: "length (dq_ids h') = n" using ids len d by simp
  have par: "close_gap n d a ! lpos (delete_pos ?p d) y = a ! lpos ?p y"
    if "y \<in> set ?p" "y \<noteq> ?p ! d" "length a = length (dq_containedIds h)" for a :: "int list" and y
  proof -
    have la: "n < length a" using L that(3) by simp
    have lt: "lpos (delete_pos ?p d) y < n" "lpos ?p y < Suc n"
    proof -
      have "y \<in> set (delete_pos ?p d)" using set_delete_distinct[OF srt, of d] that d len by simp
      then show "lpos (delete_pos ?p d) y < n" using lpos_mem(1)[OF sorted_delete_pos[OF srt]] n ids by metis
      show "lpos ?p y < Suc n" using lpos_mem(1)[OF srt that(1)] len by simp
    qed
    have "close_gap n d a ! lpos (delete_pos ?p d) y = take n (close_gap n d a) ! lpos (delete_pos ?p d) y"
      using lt(1) by simp
    also have "\<dots> = take (Suc n) a ! lpos ?p y"
      unfolding close_gap(2)[OF d la] using parallel_delete[OF srt _ _ that(1,2), of "take (Suc n) a"] d len la by simp
    finally show ?thesis using lt(2) by simp
  qed
  show key: "dq_key h' y = dq_key h y" if "y \<in> set ?p" "y \<noteq> ?p ! d" for y
    using par[OF that L(2)] by (simp add: dq_key_def ids) (simp add: h'_def)
  have in_p: "dq_idHeapArray h ! i \<in> set ?p \<and> dq_idHeapArray h ! i \<noteq> ?p ! d" if "i < n" for i
    using dq_slot(1,5)[OF idx that] notin that by (metis in_set_conv_nth length_take min_less_iff_conj nth_take)
  have idx': "dq_index n h'"
    unfolding dq_index_def
  proof (intro conjI allI impI)
    fix i assume i: "i < n"
    show "dq_idHeapArray h' ! i \<in> set (dq_ids h')"
      using in_p[OF i] set_delete_distinct[OF srt, of d] d len by (simp add: ids) (simp add: h'_def)
    have "close_gap n d (dq_heapPosition h) ! lpos (delete_pos ?p d) (dq_idHeapArray h ! i) = int i"
      using par[OF _ _ L(3)] in_p[OF i] dq_slot(3)[OF idx i] by simp
    then show "dq_heapPosition h' ! lpos (dq_ids h') (dq_idHeapArray h' ! i) = int i"
      by (simp add: ids) (simp add: h'_def)
  next
    show "padded (dq_containedIds h') (dq_ids h')" using pad ids by simp
  qed (use idx L d n close_gap(1)[OF d] in \<open>simp_all add: h'_def dq_index_def\<close>)
  have "heap_ordered (dq_key h') (take n (dq_idHeapArray h'))"
  proof -
    have "dq_key h' x = dq_key h x" if "x \<in> set (take n (dq_idHeapArray h))" for x
      using that key in_p by (auto simp: in_set_conv_nth)
    then show ?thesis using ord heap_ordered_cong[of "take n (dq_idHeapArray h)" "dq_key h'" "dq_key h"]
      by (simp add: h'_def)
  qed
  with idx' n sz show "dq_inv h'" by (simp add: dq_inv_def) (simp add: h'_def)
qed

text \<open>Moving the last element to the root and sifting it down.\<close>

lemma dq_move_last:
  assumes idx: "dq_index (Suc n) h" and n: "length (dq_ids h) = Suc n"
  shows "dq_index n (h\<lparr>dq_currentSize := c, dq_idHeapArray := (dq_idHeapArray h)[0 := dq_idHeapArray h ! n],
    dq_heapPosition := (dq_heapPosition h)[lpos (dq_ids h) (dq_idHeapArray h ! n) := 0]\<rparr>)" (is "dq_index n ?h")
proof -
  let ?p = "dq_ids h" let ?a = "dq_idHeapArray h"
  have ids: "dq_ids ?h = ?p" by (simp add: dq_ids_def)
  note sn = dq_slot[OF idx lessI]
  have L: "length (dq_heapPosition h) = length (dq_containedIds h)" using idx by (simp add: dq_index_def)
  show ?thesis unfolding dq_index_def ids
  proof (intro conjI allI impI)
    fix i assume i: "i < n"
    note si = dq_slot[OF idx less_SucI[OF i]]
    have "?a[0 := ?a ! n] ! i = (if i = 0 then ?a ! n else ?a ! i)" using si(5) by (cases "i = 0") auto
    moreover have "lpos ?p (?a ! n) \<noteq> lpos ?p (?a ! i)"
      using dq_slot_inj[OF idx lessI less_SucI[OF i]] i by simp
    ultimately show "dq_idHeapArray ?h ! i \<in> set ?p" "dq_heapPosition ?h ! lpos ?p (dq_idHeapArray ?h ! i) = int i"
      using si sn L by auto
  qed (use idx n in \<open>simp_all add: dq_index_def\<close>)
qed

lemma dq_sift_root:
  assumes idx: "dq_index n h1" and sn: "n < length a" and a: "dq_idHeapArray h1 = a[0 := a ! n]"
    and ord: "heap_ordered (dq_key h1) (take (Suc n) a)"
  shows "\<exists>h2. DistanceHeap_heapifyTopDown h1 (int n) 0 = Some h2 \<and> dq_index n h2 \<and> dq_key h2 = dq_key h1 \<and>
      dq_currentSize h2 = dq_currentSize h1 \<and> dq_containedIds h2 = dq_containedIds h1 \<and>
      dq_distances h2 = dq_distances h1 \<and> heap_ordered (dq_key h1) (take n (dq_idHeapArray h2)) \<and>
      add_mset (a ! 0) (mset (take n (dq_idHeapArray h2))) = mset (take (Suc n) a)"
proof (cases "n = 0")
  case True
  have "DistanceHeap_heapifyTopDown h1 (int n) 0 = Some h1"
    using True by (subst DistanceHeap_heapifyTopDown.simps) simp
  moreover have "take (Suc n) a = [a ! 0]" using True sn by (cases a) auto
  ultimately show ?thesis using idx True by (simp add: heap_ordered_def)
next
  case False
  obtain h2 where h2: "DistanceHeap_heapifyTopDown h1 (int n) (int 0) = Some h2" "dq_index n h2" "dq_key h2 = dq_key h1"
    "dq_currentSize h2 = dq_currentSize h1" "dq_containedIds h2 = dq_containedIds h1" "dq_distances h2 = dq_distances h1"
    "take n (dq_idHeapArray h2) = sift_down (dq_key h1) (take n (a[0 := a ! n])) 0"
    using distHeap.heapifyTopDown_refines[OF idx, of 0] False a by auto
  have "hole_below (dq_key h1) (take n (a[0 := a ! n])) 0"
  proof (rule hole_below_root[OF ord])
    show "take n (a[0 := a ! n]) = take n ((take (Suc n) a)[0 := take (Suc n) a ! n])"
      by (simp add: take_update_swap)
  qed (use False sn in simp_all)
  moreover have nn: "0 < length (take n (a[0 := a ! n]))" using False sn by simp
  ultimately have "heap_ordered (dq_key h1) (take n (dq_idHeapArray h2))"
    unfolding h2(7) by (rule sift_down_heap)
  moreover have "mset (take n (dq_idHeapArray h2)) = mset (take n (a[0 := a ! n]))"
    unfolding h2(7) by (rule sift_down_mset[OF nn])
  ultimately show ?thesis using h2 mset_replace_root[of n a] False sn by simp
qed

lemma DistanceHeap_getNext_ok:
  assumes inv: "dq_inv h" and ne: "DistanceHeap_map h \<noteq> Map.empty"
  shows "\<exists>x d h'. DistanceHeap_getNext h = Some (x, h') \<and> dq_inv h' \<and> DistanceHeap_map h x = Some d \<and>
    (\<forall>y e. DistanceHeap_map h y = Some e \<longrightarrow> d \<le> e) \<and> DistanceHeap_map h' = (DistanceHeap_map h)(x := None)"
proof -
  note I = dq_inv_unfold[OF inv]
  let ?p = "dq_ids h" let ?a = "dq_idHeapArray h" let ?x = "?a ! 0" let ?d = "lpos ?p ?x"
  obtain n where n: "length ?p = Suc n"
    using ne by (cases ?p) (auto simp: DistanceHeap_map_def fun_eq_iff)
  note idx = I(2)[unfolded n]
  have srt: "sorted_wrt (<) ?p" using dq_index_ids[OF idx] by simp
  note s0 = dq_slot[OF idx zero_less_Suc] and sn = dq_slot[OF idx lessI]
  have L: "length (dq_distances h) = length (dq_containedIds h)" "length (dq_heapPosition h) = length (dq_containedIds h)"
    "length ?a = length (dq_containedIds h)" "n < length (dq_containedIds h)"
    using idx sn(5) by (auto simp: dq_index_def)
  have dl: "?d \<le> n" "?p ! ?d = ?x" using lpos_mem[OF srt s0(1)] n by auto
  let ?h = "h\<lparr>dq_currentSize := int n, dq_idHeapArray := ?a[0 := ?a ! n], dq_heapPosition := (dq_heapPosition h)[lpos ?p (?a ! n) := 0]\<rparr>"
  have key: "dq_key ?h = dq_key h" by (simp add: dq_key_def fun_eq_iff dq_ids_def)
  obtain h2 where h2: "DistanceHeap_heapifyTopDown ?h (int n) 0 = Some h2" "dq_index n h2" "dq_key h2 = dq_key h"
    "dq_currentSize h2 = int n" "dq_containedIds h2 = dq_containedIds h" "dq_distances h2 = dq_distances h"
    "heap_ordered (dq_key h2) (take n (dq_idHeapArray h2))"
    "add_mset ?x (mset (take n (dq_idHeapArray h2))) = mset (take (Suc n) ?a)"
    using dq_sift_root[OF dq_move_last[OF idx n] sn(5), of "int n"] I(3) n key by auto
  have ids2: "dq_ids h2 = ?p" "length (dq_ids h2) = Suc n" using h2(5) n by (simp_all add: dq_ids_def)
  have notin: "dq_ids h2 ! ?d \<notin> set (take n (dq_idHeapArray h2))"
    using h2(8) dq_distinct[OF idx] dl ids2 by (metis distinct.simps(2) mset.simps(2) mset_eq_imp_distinct_iff)
  let ?h' = "h2\<lparr>dq_containedIds := (close_gap n ?d (dq_containedIds h2))[n := MAX_VALUE],
    dq_distances := close_gap n ?d (dq_distances h2), dq_heapPosition := close_gap n ?d (dq_heapPosition h2)\<rparr>"
  have fin: "dq_inv ?h'" "dq_ids ?h' = delete_pos ?p ?d"
    and fkey: "\<And>y. y \<in> set ?p \<Longrightarrow> y \<noteq> ?p ! ?d \<Longrightarrow> dq_key ?h' y = dq_key h y"
    using dq_close[OF h2(2) ids2(2) dl(1) notin h2(7) h2(4)] ids2 h2(3) by simp_all
  have c: "arraycopy a (int ?d + 1) a (int ?d) (int n - int ?d) = Some (close_gap n ?d a)"
    "length (close_gap n ?d a) = length a" "?d = n \<Longrightarrow> close_gap n ?d a = a"
    if "length a = length (dq_containedIds h)" for a using close_gap[OF dl(1), of a] L(4) that by auto
  have "length (dq_heapPosition h2) = length (dq_containedIds h)" using h2(2,5) by (simp add: dq_index_def)
  moreover have "dq_currentSize h = 1 + int n" using I(1) n by simp
  ultimately have run: "DistanceHeap_getNext h = Some (?x, ?h')"
    using s0 sn L h2(1,5,6) dl(1) c by (cases "?d = n") (simp_all add: DistanceHeap_getNext_def java Let_def)
  have min: "dq_key h ?x \<le> dq_key h y" if y: "y \<in> set ?p" for y
  proof -
    obtain i where "i < Suc n" "?a ! i = y" using y I(4) n by (force simp: in_set_conv_nth)
    then show ?thesis using heap_ordered_root[OF I(3), of i] n L by simp
  qed
  have "DistanceHeap_map ?h' = (DistanceHeap_map h)(?x := None)"
    using set_delete_distinct[OF srt, of ?d] fin(2) fkey dl n by (auto simp: DistanceHeap_map_def fun_eq_iff)
  moreover have "DistanceHeap_map h ?x = Some (dq_key h ?x)" using s0(1) by (simp add: DistanceHeap_map_def)
  moreover have "\<forall>y e. DistanceHeap_map h y = Some e \<longrightarrow> dq_key h ?x \<le> e"
    using min by (auto simp: DistanceHeap_map_def split: if_splits)
  ultimately show ?thesis using run fin(1) by blast
qed

lemma DistanceHeap_add_update:
  assumes inv: "dq_inv h" and x: "x \<in> set (dq_ids h)" and d: "d \<le> dq_key h x"
  shows "\<exists>h'. DistanceHeap_add h x d = Some h' \<and> dq_inv h' \<and> DistanceHeap_map h' = (DistanceHeap_map h)(x \<mapsto> d)"
proof -
  note I = dq_inv_unfold[OF inv]
  let ?p = "dq_ids h" let ?n = "length ?p" let ?a = "dq_idHeapArray h" let ?l = "lpos ?p x"
  let ?h = "h\<lparr>dq_distances := (dq_distances h)[?l := d]\<rparr>"
  have srt: "sorted_wrt (<) ?p" and xm: "x < MAX_VALUE" using dq_index_ids[OF I(2)] x by auto
  obtain i where i: "i < ?n" "?a ! i = x" using x I(4) by (force simp: in_set_conv_nth)
  note si = dq_slot[OF I(2) i(1), unfolded i(2)]
  have L: "length (dq_distances h) = length (dq_containedIds h)" "length (dq_heapPosition h) = length (dq_containedIds h)"
    using I(2) by (auto simp: dq_index_def)
  have ids: "dq_ids ?h = ?p" by (simp add: dq_ids_def)
  have idx: "dq_index ?n ?h" using I(2) unfolding dq_index_def ids by simp
  have key: "dq_key ?h y = (if y = x then d else dq_key h y)" if "y \<in> set ?p" for y
  proof -
    have "lpos ?p y = ?l \<longleftrightarrow> y = x" using lpos_mem(2)[OF srt that] lpos_mem(2)[OF srt x] by metis
    then show ?thesis using si(2) L by (auto simp: dq_key_def ids)
  qed
  obtain h' where h': "DistanceHeap_heapifyBottomUp ?h (int i) = Some h'" "dq_index ?n h'" "dq_key h' = dq_key ?h"
    "dq_currentSize h' = dq_currentSize h" "dq_containedIds h' = dq_containedIds h"
    "take ?n (dq_idHeapArray h') = sift_up (dq_key ?h) (take ?n ?a) i"
    using distHeap.heapifyBottomUp_refines[OF idx i(1)] by auto
  have ids': "dq_ids h' = ?p" using h'(5) by (simp add: dq_ids_def)
  have il: "i < length (take ?n ?a)" using i I(5) by simp
  have "hole_above (dq_key ?h) (take ?n ?a) i"
  proof (rule hole_above_decrease[OF I(3) dq_distinct[OF I(2)] il])
    show "dq_key ?h (take ?n ?a ! i) \<le> dq_key h (take ?n ?a ! i)" using key[OF x] d i by simp
    show "dq_key ?h y = dq_key h y" if "y \<in> set (take ?n ?a)" "y \<noteq> take ?n ?a ! i" for y
      using key[of y] that i I(4) by simp
  qed
  then have "heap_ordered (dq_key h') (take ?n (dq_idHeapArray h'))"
    unfolding h'(3,6) by (rule sift_up_heap[OF _ il])
  then have "dq_inv h'" using h'(2,4) ids' I(1) by (simp add: dq_inv_def)
  moreover have "DistanceHeap_add h x d = Some h'"
    using si x dq_search[OF I(2) xm] h'(1) L by (simp add: DistanceHeap_add_def java)
  moreover have "DistanceHeap_map h' = (DistanceHeap_map h)(x \<mapsto> d)"
    using key x by (auto simp: DistanceHeap_map_def ids' h'(3) fun_eq_iff)
  ultimately show ?thesis by blast
qed

text \<open>Room for one more entry, after growing when the arrays are full.\<close>

lemma DistanceHeap_room:
  assumes inv: "dq_inv h"
  obtains h1 where
    "(if dq_currentSize h = int (length (dq_idHeapArray h)) then DistanceHeap_grow h else Some h) = Some h1"
    "dq_inv h1" "dq_ids h1 = dq_ids h" "\<forall>x \<in> set (dq_ids h). dq_key h1 x = dq_key h x"
    "length (dq_ids h) < length (dq_containedIds h1)"
proof (cases "dq_currentSize h = int (length (dq_idHeapArray h))")
  case False
  then show thesis
    using that[of h] inv dq_inv_unfold[OF inv] by (auto simp: dq_index_def)
next
  case True
  note I = dq_inv_unfold[OF inv]
  let ?k = "nat (dq_SIZE_INCREASE h)"
  let ?h = "h\<lparr>dq_idHeapArray := dq_idHeapArray h @ replicate ?k 0, dq_distances := dq_distances h @ replicate ?k 0,
    dq_containedIds := dq_containedIds h @ replicate ?k MAX_VALUE, dq_heapPosition := dq_heapPosition h @ replicate ?k 0\<rparr>"
  have L: "length (dq_distances h) = length (dq_containedIds h)" "length (dq_heapPosition h) = length (dq_containedIds h)"
    "length (dq_idHeapArray h) = length (dq_containedIds h)" "0 < dq_SIZE_INCREASE h"
    using I(2) by (auto simp: dq_index_def)
  have f: "fillRange (dq_containedIds h @ replicate ?k v) (int (length (dq_containedIds h)))
      (int (length (dq_containedIds h)) + dq_SIZE_INCREASE h) MAX_VALUE = Some (dq_containedIds h @ replicate ?k MAX_VALUE)" for v
    using fillRange_tail[of "dq_containedIds h" "replicate ?k v" MAX_VALUE] L(4) by simp
  have cp: "copyOf xs (int (length (dq_containedIds h)) + dq_SIZE_INCREASE h) 0 = Some (xs @ replicate ?k (0::int))"
    if "length xs = length (dq_containedIds h)" for xs
    using copyOf_grow[of "dq_SIZE_INCREASE h" xs 0] L(4) that by simp
  have run: "DistanceHeap_grow h = Some ?h"
    using L by (simp add: DistanceHeap_grow_def cp f Let_def)
  have pad: "padded (dq_containedIds ?h) (dq_ids h)"
    using I(2) by (simp add: dq_index_def padded_grow)
  have ids: "dq_ids ?h = dq_ids h" unfolding dq_ids_def[of ?h] by (rule padded_ids[OF pad])
  have lt: "lpos (dq_ids h) x < length (dq_containedIds h)" if "x \<in> set (dq_ids h)" for x
    using lpos_mem(1)[OF dq_index_ids(1)[OF I(2)] that] dq_index_ids(3)[OF I(2)] by simp
  have key: "dq_key ?h x = dq_key h x" if "x \<in> set (dq_ids h)" for x
    using lt[OF that] L by (simp add: dq_key_def ids nth_append)
  have ids_len: "length (dq_ids h) \<le> length (dq_idHeapArray h)" by (rule I(5))
  have slots: "dq_idHeapArray ?h ! i = dq_idHeapArray h ! i" if "i < length (dq_ids h)" for i
    using that ids_len by (simp add: nth_append)
  have "dq_index (length (dq_ids h)) ?h"
    unfolding dq_index_def ids
  proof (intro conjI allI impI)
    fix i assume i: "i < length (dq_ids h)"
    show "dq_idHeapArray ?h ! i \<in> set (dq_ids h)" using slots[OF i] dq_slot(1)[OF I(2) i] by simp
    show "dq_heapPosition ?h ! lpos (dq_ids h) (dq_idHeapArray ?h ! i) = int i"
      unfolding slots[OF i] using dq_slot[OF I(2) i] L by (simp add: nth_append)
  qed (use L pad in auto)
  moreover have "heap_ordered (dq_key ?h) (take (length (dq_ids h)) (dq_idHeapArray ?h))"
    using heap_ordered_cong[of "take (length (dq_ids h)) (dq_idHeapArray h)" "dq_key ?h" "dq_key h"] key I(3,4) ids_len
    by simp
  ultimately have "dq_inv ?h" using I(1) ids by (simp add: dq_inv_def)
  moreover have "length (dq_ids h) < length (dq_containedIds ?h)" using I(1) True L by simp
  ultimately show thesis using that[of ?h] run True ids key by simp
qed

text \<open>Opening a gap in the three parallel arrays for a new id, which takes the next heap slot.\<close>

lemma dq_open:
  assumes inv: "dq_inv h" and x: "x \<notin> set (dq_ids h)" "x < MAX_VALUE" and room: "length (dq_ids h) < length (dq_containedIds h)"
  obtains cg c dg ds pg ps where
    "arraycopy (dq_containedIds h) (int (lpos (dq_ids h) x)) (dq_containedIds h) (int (lpos (dq_ids h) x) + 1)
       (int (length (dq_ids h)) - int (lpos (dq_ids h) x)) = Some cg" "aset cg (int (lpos (dq_ids h) x)) x = Some c"
    "arraycopy (dq_distances h) (int (lpos (dq_ids h) x)) (dq_distances h) (int (lpos (dq_ids h) x) + 1)
       (int (length (dq_ids h)) - int (lpos (dq_ids h) x)) = Some dg" "aset dg (int (lpos (dq_ids h) x)) d = Some ds"
    "arraycopy (dq_heapPosition h) (int (lpos (dq_ids h) x)) (dq_heapPosition h) (int (lpos (dq_ids h) x) + 1)
       (int (length (dq_ids h)) - int (lpos (dq_ids h) x)) = Some pg"
    "aset pg (int (lpos (dq_ids h) x)) (int (length (dq_ids h))) = Some ps"
    "dq_index (Suc (length (dq_ids h))) (h\<lparr>dq_containedIds := c, dq_distances := ds,
       dq_idHeapArray := (dq_idHeapArray h)[length (dq_ids h) := x], dq_heapPosition := ps\<rparr>)"
    "takeWhile (\<lambda>x. x < MAX_VALUE) c = insert_pos (dq_ids h) (lpos (dq_ids h) x) x"
    "\<forall>y \<in> insert x (set (dq_ids h)). ds ! lpos (insert_pos (dq_ids h) (lpos (dq_ids h) x) x) y =
       (if y = x then d else dq_key h y)"
proof -
  note I = dq_inv_unfold[OF inv]
  let ?p = "dq_ids h" let ?n = "length ?p" let ?i = "lpos ?p x" let ?q = "insert_pos ?p ?i x"
  have srt: "sorted_wrt (<) ?p" using dq_index_ids[OF I(2)] by simp
  have L: "length (dq_distances h) = length (dq_containedIds h)" "length (dq_heapPosition h) = length (dq_containedIds h)"
    "length (dq_idHeapArray h) = length (dq_containedIds h)" "0 < dq_SIZE_INCREASE h" "padded (dq_containedIds h) ?p"
    using I(2) by (auto simp: dq_index_def)
  obtain cg c where c: "arraycopy (dq_containedIds h) (int ?i) (dq_containedIds h) (int ?i + 1) (int ?n - int ?i) = Some cg"
    "aset cg (int ?i) x = Some c" "length c = length (dq_containedIds h)" "padded c ?q"
    by (rule array_insert_padded[OF L(5) x room])
  have open_gap: "\<exists>g a'. arraycopy a (int ?i) a (int ?i + 1) (int ?n - int ?i) = Some g \<and> aset g (int ?i) v = Some a' \<and>
      length a' = length a \<and> (\<forall>y \<in> insert x (set ?p). a' ! lpos ?q y = (if y = x then v else a ! lpos ?p y))"
    if la: "length a = length (dq_containedIds h)" for a :: "int list" and v
  proof -
    have nl: "?n < length a" using room la by simp
    obtain g a' where g: "arraycopy a (int ?i) a (int ?i + 1) (int ?n - int ?i) = Some g" "length g = length a"
      "aset g (int ?i) v = Some a'" "length a' = length a" "take (Suc ?n) a' = insert_pos (take ?n a) ?i v"
      "drop (Suc ?n) a' = drop (Suc ?n) a" "a' = take ?i a @ v # take (?n - ?i) (drop ?i a) @ drop (Suc ?n) a"
      by (rule array_insert[OF lpos_le nl])
    have "a' ! lpos ?q y = (if y = x then v else a ! lpos ?p y)" if y: "y \<in> insert x (set ?p)" for y
    proof -
      have lq: "lpos ?q y < Suc ?n" using lpos_mem(1)[OF sorted_insert_pos[OF srt x(1)], of y] y lpos_le[of ?p x] by simp
      then have "a' ! lpos ?q y = insert_pos (take ?n a) ?i v ! lpos ?q y" using g(5) by (metis nth_take)
      also have "\<dots> = (if y = x then v else take ?n a ! lpos ?p y)"
        using parallel_insert[OF srt x(1) _ y, of "take ?n a" v] nl by simp
      finally show ?thesis using lpos_mem(1)[OF srt, of y] y by auto
    qed
    with g show ?thesis by blast
  qed
  obtain dg ds where d: "arraycopy (dq_distances h) (int ?i) (dq_distances h) (int ?i + 1) (int ?n - int ?i) = Some dg"
    "aset dg (int ?i) d = Some ds" "length ds = length (dq_containedIds h)"
    "\<forall>y \<in> insert x (set ?p). ds ! lpos ?q y = (if y = x then d else dq_distances h ! lpos ?p y)"
    using open_gap[OF L(1), of d] L(1) by auto
  obtain pg ps where ps: "arraycopy (dq_heapPosition h) (int ?i) (dq_heapPosition h) (int ?i + 1) (int ?n - int ?i) = Some pg"
    "aset pg (int ?i) (int ?n) = Some ps" "length ps = length (dq_containedIds h)"
    "\<forall>y \<in> insert x (set ?p). ps ! lpos ?q y = (if y = x then int ?n else dq_heapPosition h ! lpos ?p y)"
    using open_gap[OF L(2), of "int ?n"] L(2) by auto
  let ?h = "h\<lparr>dq_containedIds := c, dq_distances := ds, dq_idHeapArray := (dq_idHeapArray h)[?n := x], dq_heapPosition := ps\<rparr>"
  have q: "takeWhile (\<lambda>x. x < MAX_VALUE) c = ?q" by (rule padded_ids[OF c(4)])
  have slot: "(dq_idHeapArray h)[?n := x] ! k = (if k = ?n then x else dq_idHeapArray h ! k)" if "k < Suc ?n" for k
    using that room L(3) by (auto simp: nth_list_update)
  have "dq_index (Suc ?n) ?h" unfolding dq_index_def
  proof (intro conjI allI impI)
    fix k assume k: "k < Suc ?n"
    have m: "(dq_idHeapArray h)[?n := x] ! k \<in> insert x (set ?p)"
      unfolding slot[OF k] using dq_slot(1)[OF I(2), of k] k by auto
    then show "dq_idHeapArray ?h ! k \<in> set (dq_ids ?h)" by (simp add: dq_ids_def q)
    have "ps ! lpos ?q ((dq_idHeapArray h)[?n := x] ! k) = int k"
      using ps(4)[rule_format, OF m] dq_slot(1,3)[OF I(2), of k] k x(1) unfolding slot[OF k] by (auto split: if_splits)
    then show "dq_heapPosition ?h ! lpos (dq_ids ?h) (dq_idHeapArray ?h ! k) = int k" by (simp add: dq_ids_def q)
  qed (use c(3,4) d(3) ps(3) L lpos_le[of ?p x] in \<open>simp_all add: dq_ids_def q\<close>)
  then show thesis using that[OF c(1,2) d(1,2) ps(1,2)] q d(4) by (simp add: dq_key_def)
qed

lemma dq_currentSize_irrelevant [simp]:
  "dq_ids (h\<lparr>dq_currentSize := c\<rparr>) = dq_ids h"
  "dq_key (h\<lparr>dq_currentSize := c\<rparr>) = dq_key h"
  "dq_index n (h\<lparr>dq_currentSize := c\<rparr>) = dq_index n h"
  by (simp_all add: dq_ids_def dq_key_def dq_index_def fun_eq_iff)

lemma DistanceHeap_add_new:
  assumes inv: "dq_inv h" and x: "x \<notin> set (dq_ids h)" "x < MAX_VALUE"
  shows "\<exists>h'. DistanceHeap_add h x d = Some h' \<and> dq_inv h' \<and> DistanceHeap_map h' = (DistanceHeap_map h)(x \<mapsto> d)"
proof -
  obtain h1 where h1: "(if dq_currentSize h = int (length (dq_idHeapArray h)) then DistanceHeap_grow h else Some h) = Some h1"
    "dq_inv h1" "dq_ids h1 = dq_ids h" "\<forall>x \<in> set (dq_ids h). dq_key h1 x = dq_key h x"
    "length (dq_ids h) < length (dq_containedIds h1)"
    by (rule DistanceHeap_room[OF inv])
  note I = dq_inv_unfold[OF h1(2)]
  let ?p = "dq_ids h1" let ?n = "length ?p" let ?i = "lpos ?p x" let ?q = "insert_pos ?p ?i x" let ?a = "dq_idHeapArray h1"
  have x1: "x \<notin> set ?p" "?n < length (dq_containedIds h1)" "?n < length ?a" using x h1(3,5) I(2) by (auto simp: dq_index_def)
  obtain cg c dg ds pg ps where o: "arraycopy (dq_containedIds h1) (int ?i) (dq_containedIds h1) (int ?i + 1) (int ?n - int ?i) = Some cg"
    "aset cg (int ?i) x = Some c"
    "arraycopy (dq_distances h1) (int ?i) (dq_distances h1) (int ?i + 1) (int ?n - int ?i) = Some dg" "aset dg (int ?i) d = Some ds"
    "arraycopy (dq_heapPosition h1) (int ?i) (dq_heapPosition h1) (int ?i + 1) (int ?n - int ?i) = Some pg"
    "aset pg (int ?i) (int ?n) = Some ps"
    "dq_index (Suc ?n) (h1\<lparr>dq_containedIds := c, dq_distances := ds, dq_idHeapArray := ?a[?n := x], dq_heapPosition := ps\<rparr>)"
    "takeWhile (\<lambda>x. x < MAX_VALUE) c = ?q"
    "\<forall>y \<in> insert x (set ?p). ds ! lpos ?q y = (if y = x then d else dq_key h1 y)"
    by (rule dq_open[OF h1(2) x1(1) x(2) x1(2)])
  let ?h = "h1\<lparr>dq_containedIds := c, dq_distances := ds, dq_idHeapArray := ?a[?n := x], dq_heapPosition := ps\<rparr>"
  have key: "dq_key ?h y = (if y = x then d else dq_key h1 y)" if "y \<in> insert x (set ?p)" for y
  proof -
    have "dq_ids ?h = ?q" using o(8) by (simp add: dq_ids_def[of ?h])
    then have "dq_key ?h y = ds ! lpos ?q y" by (simp add: dq_key_def[of ?h])
    then show ?thesis using o(9) that by metis
  qed
  obtain h' where h': "DistanceHeap_heapifyBottomUp ?h (int ?n) = Some h'" "dq_index (Suc ?n) h'" "dq_key h' = dq_key ?h"
    "dq_currentSize h' = dq_currentSize h1" "dq_containedIds h' = c"
    "take (Suc ?n) (dq_idHeapArray h') = sift_up (dq_key ?h) (take (Suc ?n) (?a[?n := x])) ?n"
    using distHeap.heapifyBottomUp_refines[OF o(7) lessI] by auto
  let ?h' = "h'\<lparr>dq_currentSize := dq_currentSize h' + 1\<rparr>"
  have ids': "dq_ids h' = ?q" using h'(5) o(8) by (simp add: dq_ids_def)
  have tk: "take (Suc ?n) (?a[?n := x]) = take ?n ?a @ [x]" using x1(3) by (simp add: take_Suc_conv_app_nth)
  have len: "length (take ?n ?a) = ?n" using x1(3) by simp
  have "heap_ordered (dq_key ?h) (take ?n ?a)"
  proof -
    have "dq_key ?h y = dq_key h1 y" if "y \<in> set (take ?n ?a)" for y
      using key[of y] that I(4) x1(1) by auto
    then show ?thesis using I(3) heap_ordered_cong by blast
  qed
  then have hole: "hole_above (dq_key ?h) (take ?n ?a @ [x]) ?n" using hole_above_snoc len by metis
  have "heap_ordered (dq_key h') (take (Suc ?n) (dq_idHeapArray h'))"
    unfolding h'(3,6) tk by (rule sift_up_heap[OF hole]) (use len in simp)
  then have "dq_inv ?h'"
    using h'(2,4) I(1) ids' lpos_le[of ?p x] by (simp add: dq_inv_def)
  moreover have "DistanceHeap_add h x d = Some ?h'"
  proof -
    have "binarySearch (dq_containedIds h) x = Some (- int ?i - 1)"
      using dq_search[OF dq_inv_unfold(2)[OF inv] x(2)] x(1) h1(3) by simp
    then show ?thesis using h1(1) I(1) o(1-6) h'(1) x1(3) by (simp add: DistanceHeap_add_def Let_def java)
  qed
  moreover have "DistanceHeap_map ?h' = (DistanceHeap_map h)(x \<mapsto> d)"
    using key h1(3,4) x(1) lpos_le[of ?p x] by (auto simp: DistanceHeap_map_def ids' h'(3) fun_eq_iff)
  ultimately show ?thesis by blast
qed

section \<open>The queue interface\<close>

text \<open>A queue of ids with their distances: what the label computation relies on.\<close>

locale dist_queue =
  fixes qinv :: "'q \<Rightarrow> bool"
    and qmap :: "'q \<Rightarrow> int \<Rightarrow> int option"
    and reset :: "'q \<Rightarrow> 'q"
    and isEmpty :: "'q \<Rightarrow> bool"
    and getNext :: "'q \<Rightarrow> (int \<times> 'q) option"
    and add :: "'q \<Rightarrow> int \<Rightarrow> int \<Rightarrow> 'q option"
  assumes reset_law: "qinv q \<Longrightarrow> qinv (reset q) \<and> qmap (reset q) = Map.empty"
    and isEmpty_law: "qinv q \<Longrightarrow> isEmpty q \<longleftrightarrow> qmap q = Map.empty"
    and finite_law: "qinv q \<Longrightarrow> finite (dom (qmap q)) \<and> (\<forall>x \<in> dom (qmap q). x < MAX_VALUE)"
    and getNext_law: "qinv q \<Longrightarrow> qmap q \<noteq> Map.empty \<Longrightarrow> \<exists>x d q'. getNext q = Some (x, q') \<and> qinv q' \<and>
      qmap q x = Some d \<and> (\<forall>y e. qmap q y = Some e \<longrightarrow> d \<le> e) \<and> qmap q' = (qmap q)(x := None)"
    and add_law: "qinv q \<Longrightarrow> x < MAX_VALUE \<Longrightarrow> (\<forall>e. qmap q x = Some e \<longrightarrow> d \<le> e) \<Longrightarrow>
      \<exists>q'. add q x d = Some q' \<and> qinv q' \<and> qmap q' = (qmap q)(x \<mapsto> d)"
begin

text \<open>Adding to an empty queue and taking the next element gives the element back.\<close>

lemma add_getNext:
  assumes "qinv q" "qmap q = Map.empty" "x < MAX_VALUE"
  shows "\<exists>q1 q2. add q x d = Some q1 \<and> getNext q1 = Some (x, q2) \<and> qinv q2 \<and> isEmpty q2"
proof -
  obtain q1 where q1: "add q x d = Some q1" "qinv q1" "qmap q1 = [x \<mapsto> d]"
    using add_law[OF assms(1,3)] assms(2) by auto
  have "qmap q1 \<noteq> Map.empty" using q1(3) by auto
  from getNext_law[OF q1(2) this] obtain y e q2 where y: "getNext q1 = Some (y, q2)" "qinv q2" "qmap q1 y = Some e"
    "qmap q2 = (qmap q1)(y := None)" by blast
  have "y = x" using y(3) q1(3) by (auto split: if_splits)
  moreover have "qmap q2 = Map.empty" using y(4) q1(3) \<open>y = x\<close> by auto
  ultimately show ?thesis using q1(1) y(1,2) isEmpty_law[OF y(2)] by auto
qed

end

interpretation distanceHeap: dist_queue dq_inv DistanceHeap_map DistanceHeap_reset DistanceHeap_isEmpty
  DistanceHeap_getNext DistanceHeap_add
proof unfold_locales
  show "dq_inv (DistanceHeap_reset q) \<and> DistanceHeap_map (DistanceHeap_reset q) = Map.empty" if "dq_inv q" for q
    using DistanceHeap_reset_ok[OF dq_inv_unfold(2)[OF that]] .
  show "finite (dom (DistanceHeap_map q)) \<and> (\<forall>x \<in> dom (DistanceHeap_map q). x < MAX_VALUE)" if "dq_inv q" for q
  proof -
    have "dom (DistanceHeap_map q) = set (dq_ids q)" by (auto simp: DistanceHeap_map_def split: if_splits)
    then show ?thesis using dq_index_ids(2)[OF dq_inv_unfold(2)[OF that]] by simp
  qed
  show "\<exists>q'. DistanceHeap_add q x d = Some q' \<and> dq_inv q' \<and> DistanceHeap_map q' = (DistanceHeap_map q)(x \<mapsto> d)"
    if "dq_inv q" "x < MAX_VALUE" "\<forall>e. DistanceHeap_map q x = Some e \<longrightarrow> d \<le> e" for q x d
    using that DistanceHeap_add_new[OF that(1) _ that(2)] DistanceHeap_add_update[OF that(1)]
    by (cases "x \<in> set (dq_ids q)") (auto simp: DistanceHeap_map_def)
qed (use DistanceHeap_isEmpty_iff DistanceHeap_getNext_ok in \<open>blast+\<close>)

section \<open>Properties\<close>

text \<open>
  C30. \<open>DistanceHeap\<close> is a priority queue on a map from ids to distances: \<open>add\<close> of a new id,
  or of a queued id with a distance that is not larger, updates the map, and \<open>getNext\<close> on a
  non-empty queue returns an id of smallest distance and removes exactly it. The sorted id
  array, the parallel arrays and the heap stay consistent, growth included.
\<close>

theorem distance_heap_queue:
  assumes "dq_inv h" and "x < MAX_VALUE" and "\<forall>e. DistanceHeap_map h x = Some e \<longrightarrow> d \<le> e"
  shows "\<exists>h1 y e h2. DistanceHeap_add h x d = Some h1 \<and> dq_inv h1 \<and>
    DistanceHeap_map h1 = (DistanceHeap_map h)(x \<mapsto> d) \<and>
    DistanceHeap_getNext h1 = Some (y, h2) \<and> dq_inv h2 \<and> DistanceHeap_map h1 y = Some e \<and>
    (\<forall>z f. DistanceHeap_map h1 z = Some f \<longrightarrow> e \<le> f) \<and>
    DistanceHeap_map h2 = (DistanceHeap_map h1)(y := None)"
proof -
  obtain h1 where h1: "DistanceHeap_add h x d = Some h1" "dq_inv h1" "DistanceHeap_map h1 = (DistanceHeap_map h)(x \<mapsto> d)"
    using distanceHeap.add_law[OF assms] by blast
  have "DistanceHeap_map h1 \<noteq> Map.empty" using h1(3) by (metis fun_upd_same option.distinct(1))
  from distanceHeap.getNext_law[OF h1(2) this] h1 show ?thesis by blast
qed

theorem distance_heap_queue_witness:
  "\<exists>h h1 y h2. DistanceHeap_new 0 5 = Some h \<and> DistanceHeap_add h 7 3 = Some h1 \<and>
     DistanceHeap_getNext h1 = Some (y, h2) \<and> DistanceHeap_map h1 = [7 \<mapsto> 3] \<and> y = 7"
proof -
  obtain h where h: "DistanceHeap_new 0 5 = Some h" "dq_inv h" "DistanceHeap_map h = Map.empty"
    using DistanceHeap_new_ok[of 0 5] by auto
  obtain h1 y e h2 where "DistanceHeap_add h 7 3 = Some h1" "DistanceHeap_map h1 = [7 \<mapsto> 3]"
    "DistanceHeap_getNext h1 = Some (y, h2)" "DistanceHeap_map h1 y = Some e"
    using distance_heap_queue[OF h(2), of 7 3] h(3) by (auto simp: MAX_VALUE_def)
  with h(1) show ?thesis by (auto split: if_splits)
qed

end
