(* ===== verification/RoutingResult.thy ===== *)
theory RoutingResult
  imports GridData
begin

text \<open>
  The answer of a routing request: \<open>router/RoutingResult.java\<close>. The static flag
  \<open>useHubLabelRouter\<close> selects the class the coordinates of the path are read from; it and
  the two classes are arguments. Fields that a constructor does not set keep Java's default,
  \<open>None\<close> for a list.
\<close>

record RoutingResult =
  rr_path :: "int list option"
  rr_pathCoordinates :: "real list list option"
  rr_overallDistance :: int
  rr_calculationTimeInMs :: real
  rr_routeFound :: bool

definition RoutingResult_default :: RoutingResult where
  "RoutingResult_default = \<lparr>rr_path = None, rr_pathCoordinates = None, rr_overallDistance = 0,
     rr_calculationTimeInMs = 0, rr_routeFound = False\<rparr>"

definition RoutingResult_coord :: "bool \<Rightarrow> Node \<Rightarrow> HubLNodes \<Rightarrow> int \<Rightarrow> real list option" where
  "RoutingResult_coord useHL nd hn nodeIdx =
     (if \<not> useHL then do {
        lat \<leftarrow> Node_getLatitude nd nodeIdx;
        lon \<leftarrow> Node_getLongitude nd nodeIdx;
        Some [lat, lon]
      } else do {
        lat \<leftarrow> HubLNodes_getLat hn nodeIdx;
        lon \<leftarrow> HubLNodes_getLong hn nodeIdx;
        Some [lat, lon]
      })"

definition RoutingResult_setPath ::
    "bool \<Rightarrow> Node \<Rightarrow> HubLNodes \<Rightarrow> RoutingResult \<Rightarrow> int list \<Rightarrow> RoutingResult option" where
  "RoutingResult_setPath useHL nd hn res path = do {
     coords \<leftarrow> for_list path (\<lambda>nodeIdx acc. do {
         coord \<leftarrow> RoutingResult_coord useHL nd hn nodeIdx;
         Some (acc @ [coord])
       }) [];
     Some (res\<lparr>rr_path := Some path, rr_pathCoordinates := Some coords\<rparr>)
   }"

definition RoutingResult_ofPath ::
    "bool \<Rightarrow> Node \<Rightarrow> HubLNodes \<Rightarrow> int list \<Rightarrow> int \<Rightarrow> real \<Rightarrow> RoutingResult option" where
  "RoutingResult_ofPath useHL nd hn path overallDistance time = do {
     res \<leftarrow> RoutingResult_setPath useHL nd hn RoutingResult_default path;
     Some (res\<lparr>rr_overallDistance := overallDistance, rr_calculationTimeInMs := time, rr_routeFound := True\<rparr>)
   }"

definition RoutingResult_ofTime :: "real \<Rightarrow> bool \<Rightarrow> RoutingResult" where
  "RoutingResult_ofTime time routeFound =
     RoutingResult_default\<lparr>rr_calculationTimeInMs := time, rr_routeFound := routeFound\<rparr>"

definition RoutingResult_empty :: RoutingResult where
  "RoutingResult_empty = RoutingResult_default\<lparr>rr_routeFound := False, rr_calculationTimeInMs := -1\<rparr>"

definition RoutingResult_ofPathFound ::
    "bool \<Rightarrow> Node \<Rightarrow> HubLNodes \<Rightarrow> int list \<Rightarrow> int \<Rightarrow> bool \<Rightarrow> RoutingResult option" where
  "RoutingResult_ofPathFound useHL nd hn path overallDistance routeFound = do {
     res \<leftarrow> RoutingResult_setPath useHL nd hn RoutingResult_default path;
     Some (res\<lparr>rr_overallDistance := overallDistance, rr_routeFound := routeFound\<rparr>)
   }"

definition RoutingResult_getOverallDistance :: "RoutingResult \<Rightarrow> int" where
  "RoutingResult_getOverallDistance res = (if \<not> rr_routeFound res then -1 else rr_overallDistance res)"

text \<open>The coordinates are those of the path's nodes, in order, whenever all nodes exist.\<close>

lemma for_list_append_map:
  "(\<And>x. x \<in> set xs \<Longrightarrow> f x = Some (h x)) \<Longrightarrow>
     for_list xs (\<lambda>x acc. do { y \<leftarrow> f x; Some (acc @ [y]) }) acc = Some (acc @ map h xs)"
  by (induction xs arbitrary: acc) auto

lemma RoutingResult_setPath_ok:
  assumes "\<And>x. x \<in> set path \<Longrightarrow> RoutingResult_coord useHL nd hn x = Some (h x)"
  shows "RoutingResult_setPath useHL nd hn res path =
    Some (res\<lparr>rr_path := Some path, rr_pathCoordinates := Some (map h path)\<rparr>)"
  using for_list_append_map[of path "RoutingResult_coord useHL nd hn" h "[]"] assms
  by (simp add: RoutingResult_setPath_def)

lemma RoutingResult_coord_grid:
  assumes "0 \<le> x" "x < int (length (nd_latitude nd))" "length (nd_longitude nd) = length (nd_latitude nd)"
  shows "RoutingResult_coord False nd hn x = Some [nd_latitude nd ! nat x, nd_longitude nd ! nat x]"
  using assms by (simp add: RoutingResult_coord_def Node_getLatitude_def Node_getLongitude_def java)

end
