(* ===== verification/HubLRouter.thy ===== *)
theory HubLRouter
  imports DistanceHeap IntCollections RoutingResult Graphs
begin

text \<open>
  The hub label router, \<open>router/HubLRouter.java\<close>. Nodes of the two lowest levels of the
  contraction hierarchy have no labels; for them \<open>calcTempLabels\<close> computes temporary labels
  by a search over the upward edges. A request merges the sorted labels of both ends, takes the
  common label node with the smallest sum of distances, and unfolds the edges on both sides of it.

  The fields of the class are the record \<open>HubLRouter\<close>; the static classes \<open>HubLNodes\<close> and
  \<open>HubLEdges\<close> are arguments. The loops of the source that need not end on arbitrary data are
  partial functions; sums of distances wrap around as the JVM's do.
\<close>

section \<open>The class\<close>

record HubLRouter =
  hr_resultNodes :: IntStack
  hr_edgesRight :: IntStack
  hr_edgesLeft :: IntStack
  hr_edgeCalcStack :: IntStack
  hr_heap :: DistanceHeap
  hr_labelHeap :: DistanceHeap
  hr_labelLeft :: OrderedIntSet
  hr_distLeft :: OrderedIntSet
  hr_edgeLeft :: OrderedIntSet
  hr_addInfoLeft :: OrderedIntSet
  hr_labelRight :: OrderedIntSet
  hr_distRight :: OrderedIntSet
  hr_edgeRight :: OrderedIntSet
  hr_addInfoRight :: OrderedIntSet

definition HubLRouter_reset :: "HubLRouter \<Rightarrow> HubLRouter" where
  "HubLRouter_reset r = r\<lparr>
     hr_heap := DistanceHeap_reset (hr_heap r),
     hr_resultNodes := IntStack_clear (hr_resultNodes r),
     hr_edgesRight := IntStack_clear (hr_edgesRight r),
     hr_edgesLeft := IntStack_clear (hr_edgesLeft r),
     hr_edgeCalcStack := IntStack_clear (hr_edgeCalcStack r),
     hr_labelLeft := OrderedIntSet_clear (hr_labelLeft r),
     hr_distLeft := OrderedIntSet_clear (hr_distLeft r),
     hr_edgeLeft := OrderedIntSet_clear (hr_edgeLeft r),
     hr_labelRight := OrderedIntSet_clear (hr_labelRight r),
     hr_distRight := OrderedIntSet_clear (hr_distRight r),
     hr_edgeRight := OrderedIntSet_clear (hr_edgeRight r),
     hr_addInfoLeft := OrderedIntSet_clear (hr_addInfoLeft r),
     hr_addInfoRight := OrderedIntSet_clear (hr_addInfoRight r)\<rparr>"

definition HubLRouter_new :: "HubLRouter option" where
  "HubLRouter_new = do {
     heap \<leftarrow> DistanceHeap_new 1000 1000;
     labelHeap \<leftarrow> DistanceHeap_new 1000 1000;
     resultNodes \<leftarrow> IntStack_new 5000;
     edgesRight \<leftarrow> IntStack_new 500;
     edgesLeft \<leftarrow> IntStack_new 500;
     edgeCalcStack \<leftarrow> IntStack_new 10;
     labelLeft \<leftarrow> OrderedIntSet_new True 1000 1000;
     distLeft \<leftarrow> OrderedIntSet_new False 1000 1000;
     edgeLeft \<leftarrow> OrderedIntSet_new False 1000 1000;
     addInfoLeft \<leftarrow> OrderedIntSet_new False 1000 1000;
     labelRight \<leftarrow> OrderedIntSet_new True 1000 1000;
     distRight \<leftarrow> OrderedIntSet_new False 1000 1000;
     edgeRight \<leftarrow> OrderedIntSet_new False 1000 1000;
     addInfoRight \<leftarrow> OrderedIntSet_new False 1000 1000;
     Some \<lparr>hr_resultNodes = resultNodes, hr_edgesRight = edgesRight, hr_edgesLeft = edgesLeft,
           hr_edgeCalcStack = edgeCalcStack, hr_heap = heap, hr_labelHeap = labelHeap,
           hr_labelLeft = labelLeft, hr_distLeft = distLeft, hr_edgeLeft = edgeLeft,
           hr_addInfoLeft = addInfoLeft, hr_labelRight = labelRight, hr_distRight = distRight,
           hr_edgeRight = edgeRight, hr_addInfoRight = addInfoRight\<rparr>
   }"

text \<open>
  The local variables \<open>label\<close>, \<open>dist\<close>, \<open>edge\<close> and \<open>addInfo\<close> of \<open>addEdges\<close> and
  \<open>calcTempLabels\<close>, which refer to the structures of the left or of the right side.
\<close>

record TempLabels =
  tl_label :: OrderedIntSet
  tl_dist :: OrderedIntSet
  tl_edge :: OrderedIntSet
  tl_addInfo :: OrderedIntSet

definition HubLRouter_side :: "HubLRouter \<Rightarrow> bool \<Rightarrow> TempLabels" where
  "HubLRouter_side r isLeftNode =
     (if isLeftNode
      then \<lparr>tl_label = hr_labelLeft r, tl_dist = hr_distLeft r, tl_edge = hr_edgeLeft r, tl_addInfo = hr_addInfoLeft r\<rparr>
      else \<lparr>tl_label = hr_labelRight r, tl_dist = hr_distRight r, tl_edge = hr_edgeRight r, tl_addInfo = hr_addInfoRight r\<rparr>)"

definition HubLRouter_setSide :: "HubLRouter \<Rightarrow> bool \<Rightarrow> TempLabels \<Rightarrow> HubLRouter" where
  "HubLRouter_setSide r isLeftNode t =
     (if isLeftNode
      then r\<lparr>hr_labelLeft := tl_label t, hr_distLeft := tl_dist t, hr_edgeLeft := tl_edge t, hr_addInfoLeft := tl_addInfo t\<rparr>
      else r\<lparr>hr_labelRight := tl_label t, hr_distRight := tl_dist t, hr_edgeRight := tl_edge t, hr_addInfoRight := tl_addInfo t\<rparr>)"

section \<open>The merge of two label lists\<close>

text \<open>
  The loop that finds the best common label occurs in the four routing methods, over the
  label arrays of \<open>HubLNodes\<close> or over temporary labels; the accesses are its arguments. The
  node variables are read one position ahead, so the loop reads the slot after the last label.
\<close>

record CommonLabel =
  cl_highestLvlNode :: int
  cl_currDistance :: int
  cl_idxA :: int
  cl_idxB :: int

definition CommonLabel_none :: CommonLabel where
  "CommonLabel_none = \<lparr>cl_highestLvlNode = -1, cl_currDistance = MAX_VALUE, cl_idxA = -1, cl_idxB = -1\<rparr>"

function HubLRouter_merge ::
    "(int \<Rightarrow> int option) \<Rightarrow> (int \<Rightarrow> int option) \<Rightarrow> (int \<Rightarrow> int option) \<Rightarrow> (int \<Rightarrow> int option) \<Rightarrow>
     int \<Rightarrow> int \<Rightarrow> int \<Rightarrow> int \<Rightarrow> int \<Rightarrow> int \<Rightarrow> CommonLabel \<Rightarrow> CommonLabel option" where
  "HubLRouter_merge nodeAtA distAtA nodeAtB distAtB endA endB a b nodeA nodeB best =
     (if a < endA \<and> b < endB then
        if nodeA = nodeB then do {
          dA \<leftarrow> distAtA a;
          dB \<leftarrow> distAtB b;
          let tmpDist = jadd dA dB;
          let best = (if tmpDist < cl_currDistance best
                      then \<lparr>cl_highestLvlNode = nodeA, cl_currDistance = tmpDist, cl_idxA = a, cl_idxB = b\<rparr>
                      else best);
          nodeA \<leftarrow> nodeAtA (a + 1);
          nodeB \<leftarrow> nodeAtB (b + 1);
          HubLRouter_merge nodeAtA distAtA nodeAtB distAtB endA endB (a + 1) (b + 1) nodeA nodeB best
        }
        else if nodeA > nodeB then do {
          nodeB \<leftarrow> nodeAtB (b + 1);
          HubLRouter_merge nodeAtA distAtA nodeAtB distAtB endA endB a (b + 1) nodeA nodeB best
        }
        else do {
          nodeA \<leftarrow> nodeAtA (a + 1);
          HubLRouter_merge nodeAtA distAtA nodeAtB distAtB endA endB (a + 1) b nodeA nodeB best
        }
      else Some best)"
  by pat_completeness auto
termination
  by (relation "measure (\<lambda>(_, _, _, _, endA, endB, a, b, _). nat (endA - a) + nat (endB - b))") auto

declare HubLRouter_merge.simps [simp del]

section \<open>Unfolding the path\<close>

partial_function (option) HubLRouter_getEdges ::
    "HubLNodes \<Rightarrow> HubLEdges \<Rightarrow> int \<Rightarrow> int \<Rightarrow> IntStack \<Rightarrow> IntStack option" where
  "HubLRouter_getEdges hn he currentNode highestLvlNode edgeStack =
     (if currentNode = highestLvlNode then Some edgeStack
      else do {
        startIdx \<leftarrow> HubLNodes_getLabelOffset hn currentNode;
        endIdx \<leftarrow> HubLNodes_getLabelOffset hn (currentNode + 1);
        labelIdx \<leftarrow> binarySearchRange (hn_labelNode hn) startIdx endIdx highestLvlNode;
        edgeId \<leftarrow> HubLNodes_getLabelEdge hn labelIdx;
        currentNode \<leftarrow> HubLEdges_getDest he edgeId;
        edgeStack \<leftarrow> IntStack_push edgeStack edgeId;
        HubLRouter_getEdges hn he currentNode highestLvlNode edgeStack
      })"

text \<open>
  The inner loop of \<open>calculateRoute\<close>: it unfolds the shortcuts on \<open>edgeCalcStack\<close>. On the left
  side the first part of a shortcut is pushed last, on the right side the second part.
\<close>

partial_function (option) HubLRouter_expand ::
    "HubLEdges \<Rightarrow> bool \<Rightarrow> IntStack \<Rightarrow> IntStack \<Rightarrow> (IntStack \<times> IntStack) option" where
  "HubLRouter_expand he left edgeCalcStack resultNodes =
     (if IntStack_isEmpty edgeCalcStack then Some (edgeCalcStack, resultNodes)
      else do {
        (currentEdge, edgeCalcStack) \<leftarrow> IntStack_pop edgeCalcStack;
        if HubLEdges_isShortcut he currentEdge then do {
          p \<leftarrow> (if left then HubLEdges_getSecondShortcut he currentEdge
               else HubLEdges_getFirstShortcut he currentEdge);
          edgeCalcStack \<leftarrow> IntStack_push edgeCalcStack p;
          q \<leftarrow> (if left then HubLEdges_getFirstShortcut he currentEdge
               else HubLEdges_getSecondShortcut he currentEdge);
          edgeCalcStack \<leftarrow> IntStack_push edgeCalcStack q;
          HubLRouter_expand he left edgeCalcStack resultNodes
        } else do {
          d \<leftarrow> HubLEdges_getDest he currentEdge;
          resultNodes \<leftarrow> IntStack_push resultNodes d;
          HubLRouter_expand he left edgeCalcStack resultNodes
        }
      })"

partial_function (option) HubLRouter_unfoldLeft ::
    "HubLEdges \<Rightarrow> IntStack \<Rightarrow> IntStack \<Rightarrow> IntStack \<Rightarrow> (IntStack \<times> IntStack \<times> IntStack) option" where
  "HubLRouter_unfoldLeft he edgesLeft edgeCalcStack resultNodes =
     (if IntStack_isEmpty edgesLeft then Some (edgesLeft, edgeCalcStack, resultNodes)
      else do {
        (e, edgesLeft) \<leftarrow> IntStack_popFifo edgesLeft;
        edgeCalcStack \<leftarrow> IntStack_push edgeCalcStack e;
        (edgeCalcStack, resultNodes) \<leftarrow> HubLRouter_expand he True edgeCalcStack resultNodes;
        HubLRouter_unfoldLeft he edgesLeft edgeCalcStack resultNodes
      })"

partial_function (option) HubLRouter_unfoldRight ::
    "HubLEdges \<Rightarrow> IntStack \<Rightarrow> IntStack \<Rightarrow> IntStack \<Rightarrow> (IntStack \<times> IntStack \<times> IntStack) option" where
  "HubLRouter_unfoldRight he edgesRight edgeCalcStack resultNodes =
     (if IntStack_isEmpty edgesRight then Some (edgesRight, edgeCalcStack, resultNodes)
      else do {
        (e, edgesRight) \<leftarrow> IntStack_pop edgesRight;
        edgeCalcStack \<leftarrow> IntStack_push edgeCalcStack e;
        (edgeCalcStack, resultNodes) \<leftarrow> HubLRouter_expand he False edgeCalcStack resultNodes;
        HubLRouter_unfoldRight he edgesRight edgeCalcStack resultNodes
      })"

definition HubLRouter_calculateRoute :: "HubLEdges \<Rightarrow> HubLRouter \<Rightarrow> int \<Rightarrow> int \<Rightarrow> HubLRouter option" where
  "HubLRouter_calculateRoute he r start dest = do {
     resultNodes \<leftarrow> IntStack_push (hr_resultNodes r) start;
     (edgesLeft, edgeCalcStack, resultNodes) \<leftarrow>
       HubLRouter_unfoldLeft he (hr_edgesLeft r) (hr_edgeCalcStack r) resultNodes;
     (_, resultNodes) \<leftarrow> IntStack_pop resultNodes;
     (edgesRight, edgeCalcStack, resultNodes) \<leftarrow>
       HubLRouter_unfoldRight he (hr_edgesRight r) edgeCalcStack resultNodes;
     resultNodes \<leftarrow> IntStack_push resultNodes dest;
     Some (r\<lparr>hr_edgesLeft := edgesLeft, hr_edgesRight := edgesRight, hr_edgeCalcStack := edgeCalcStack,
             hr_resultNodes := resultNodes\<rparr>)
   }"

partial_function (option) HubLRouter_drain :: "IntStack \<Rightarrow> int list \<Rightarrow> (int list \<times> IntStack) option" where
  "HubLRouter_drain resultNodes path =
     (if IntStack_isEmpty resultNodes then Some (path, resultNodes)
      else do {
        (x, resultNodes) \<leftarrow> IntStack_popFifo resultNodes;
        HubLRouter_drain resultNodes (path @ [x])
      })"

declare HubLRouter_getEdges.simps [code] HubLRouter_expand.simps [code] HubLRouter_unfoldLeft.simps [code]
  HubLRouter_unfoldRight.simps [code] HubLRouter_drain.simps [code]

text \<open>The end of the four routing methods: the nodes of the path and the result object.\<close>

definition HubLRouter_finish ::
    "bool \<Rightarrow> Node \<Rightarrow> HubLNodes \<Rightarrow> HubLEdges \<Rightarrow> HubLRouter \<Rightarrow> int \<Rightarrow> int \<Rightarrow> int \<Rightarrow> (RoutingResult \<times> HubLRouter) option" where
  "HubLRouter_finish useHL nd hn he r startId destId currDistance = do {
     r \<leftarrow> HubLRouter_calculateRoute he r startId destId;
     (path, resultNodes) \<leftarrow> HubLRouter_drain (hr_resultNodes r) [];
     result \<leftarrow> RoutingResult_ofPathFound useHL nd hn path currDistance True;
     Some (result, r\<lparr>hr_resultNodes := resultNodes\<rparr>)
   }"

text \<open>The edges from a node with labels up to the highest node of the path.\<close>

definition HubLRouter_labelEdges ::
    "HubLNodes \<Rightarrow> HubLEdges \<Rightarrow> int \<Rightarrow> int \<Rightarrow> int \<Rightarrow> IntStack \<Rightarrow> IntStack option" where
  "HubLRouter_labelEdges hn he nodeId highestLvlNode labelIdx stack =
     (if nodeId \<noteq> highestLvlNode then do {
        nextEdge \<leftarrow> HubLNodes_getLabelEdge hn labelIdx;
        nextNode \<leftarrow> HubLEdges_getDest he nextEdge;
        stack \<leftarrow> IntStack_push stack nextEdge;
        HubLRouter_getEdges hn he nextNode highestLvlNode stack
      } else Some stack)"

definition HubLRouter_route2Lbl ::
    "bool \<Rightarrow> Node \<Rightarrow> HubLNodes \<Rightarrow> HubLEdges \<Rightarrow> HubLRouter \<Rightarrow> int \<Rightarrow> int \<Rightarrow> (RoutingResult \<times> HubLRouter) option" where
  "HubLRouter_route2Lbl useHL nd hn he r startId destId = do {
     currOffsetA \<leftarrow> HubLNodes_getLabelOffset hn startId;
     currOffsetB \<leftarrow> HubLNodes_getLabelOffset hn destId;
     endOffsetA \<leftarrow> HubLNodes_getLabelOffset hn (startId + 1);
     endOffsetB \<leftarrow> HubLNodes_getLabelOffset hn (destId + 1);
     if currOffsetA = endOffsetA \<or> currOffsetB = endOffsetB then Some (RoutingResult_empty, r)
     else do {
       nodeA \<leftarrow> HubLNodes_getLabelNode hn currOffsetA;
       nodeB \<leftarrow> HubLNodes_getLabelNode hn currOffsetB;
       best \<leftarrow> HubLRouter_merge (HubLNodes_getLabelNode hn) (HubLNodes_getLabelDist hn)
                 (HubLNodes_getLabelNode hn) (HubLNodes_getLabelDist hn)
                 endOffsetA endOffsetB currOffsetA currOffsetB nodeA nodeB CommonLabel_none;
       if cl_highestLvlNode best = -1 then Some (RoutingResult_empty, r)
       else do {
         edgesRight \<leftarrow> HubLRouter_labelEdges hn he destId (cl_highestLvlNode best) (cl_idxB best) (hr_edgesRight r);
         edgesLeft \<leftarrow> HubLRouter_labelEdges hn he startId (cl_highestLvlNode best) (cl_idxA best) (hr_edgesLeft r);
         HubLRouter_finish useHL nd hn he (r\<lparr>hr_edgesRight := edgesRight, hr_edgesLeft := edgesLeft\<rparr>)
           startId destId (cl_currDistance best)
       }
     }
   }"

section \<open>Temporary labels\<close>

partial_function (option) HubLRouter_traceBack :: "TempLabels \<Rightarrow> int \<Rightarrow> int \<Rightarrow> IntStack \<Rightarrow> IntStack option" where
  "HubLRouter_traceBack t nodeId stopId tmpStack =
     (if nodeId = stopId then Some tmpStack
      else do {
        nodeIdx \<leftarrow> OrderedIntSet_getIdx (tl_label t) nodeId;
        e \<leftarrow> OrderedIntSet_get (tl_edge t) nodeIdx;
        tmpStack \<leftarrow> IntStack_push tmpStack e;
        nodeId \<leftarrow> OrderedIntSet_get (tl_addInfo t) nodeIdx;
        HubLRouter_traceBack t nodeId stopId tmpStack
      })"

partial_function (option) HubLRouter_moveAll :: "IntStack \<Rightarrow> IntStack \<Rightarrow> IntStack option" where
  "HubLRouter_moveAll tmpStack resultStack =
     (if IntStack_isEmpty tmpStack then Some resultStack
      else do {
        (e, tmpStack) \<leftarrow> IntStack_popFifo tmpStack;
        resultStack \<leftarrow> IntStack_push resultStack e;
        HubLRouter_moveAll tmpStack resultStack
      })"

declare HubLRouter_traceBack.simps [code] HubLRouter_moveAll.simps [code]

definition HubLRouter_addEdges :: "HubLRouter \<Rightarrow> IntStack \<Rightarrow> int \<Rightarrow> int \<Rightarrow> bool \<Rightarrow> IntStack option" where
  "HubLRouter_addEdges r resultStack nodeId stopId isLeftNode = do {
     tmpStack \<leftarrow> IntStack_new 20;
     tmpStack \<leftarrow> HubLRouter_traceBack (HubLRouter_side r isLeftNode) nodeId stopId tmpStack;
     HubLRouter_moveAll tmpStack resultStack
   }"

text \<open>
  The branch on \<open>addInfo\<close> that three routing methods take for a side without labels:
  \<open>sideId\<close> is the start or destination node, \<open>idx\<close> the position of the common label.
\<close>

definition HubLRouter_tempEdges ::
    "HubLNodes \<Rightarrow> HubLEdges \<Rightarrow> HubLRouter \<Rightarrow> int \<Rightarrow> int \<Rightarrow> int \<Rightarrow> bool \<Rightarrow> IntStack \<Rightarrow> IntStack option" where
  "HubLRouter_tempEdges hn he r sideId highestLvlNode idx isLeftNode stack = do {
     let t = HubLRouter_side r isLeftNode;
     info \<leftarrow> OrderedIntSet_get (tl_addInfo t) idx;
     if info < -1 then do {
       let info = (info + 2) * (-1);
       stack \<leftarrow> HubLRouter_addEdges r stack info sideId isLeftNode;
       firstEdge \<leftarrow> OrderedIntSet_get (tl_edge t) idx;
       stack \<leftarrow> IntStack_push stack firstEdge;
       d \<leftarrow> HubLEdges_getDest he firstEdge;
       HubLRouter_getEdges hn he d highestLvlNode stack
     }
     else if info \<noteq> -1 then HubLRouter_addEdges r stack info sideId isLeftNode
     else Some stack
   }"

definition HubLRouter_insertTemp :: "TempLabels \<Rightarrow> int \<Rightarrow> int \<Rightarrow> int \<Rightarrow> int \<Rightarrow> int \<Rightarrow> TempLabels option" where
  "HubLRouter_insertTemp t l d e info idx = do {
     label \<leftarrow> OrderedIntSet_insertAtIdx (tl_label t) l idx;
     dist \<leftarrow> OrderedIntSet_insertAtIdx (tl_dist t) d idx;
     edge \<leftarrow> OrderedIntSet_insertAtIdx (tl_edge t) e idx;
     addInfo \<leftarrow> OrderedIntSet_insertAtIdx (tl_addInfo t) info idx;
     Some \<lparr>tl_label = label, tl_dist = dist, tl_edge = edge, tl_addInfo = addInfo\<rparr>
   }"

definition HubLRouter_updateTemp :: "TempLabels \<Rightarrow> int \<Rightarrow> int \<Rightarrow> int \<Rightarrow> int \<Rightarrow> TempLabels option" where
  "HubLRouter_updateTemp t d e info idx = do {
     dist \<leftarrow> OrderedIntSet_updateValue (tl_dist t) d idx;
     edge \<leftarrow> OrderedIntSet_updateValue (tl_edge t) e idx;
     addInfo \<leftarrow> OrderedIntSet_updateValue (tl_addInfo t) info idx;
     Some (t\<lparr>tl_dist := dist, tl_edge := edge, tl_addInfo := addInfo\<rparr>)
   }"

text \<open>
  The state of the search loop of \<open>calcTempLabels\<close>: the two heaps, the temporary labels and
  \<open>maxNumOfLabels\<close>. One iteration of the inner loop relaxes one upward edge.
\<close>

type_synonym temp_search = "DistanceHeap \<times> DistanceHeap \<times> TempLabels \<times> int"

definition HubLRouter_relaxUp ::
    "HubLNodes \<Rightarrow> HubLEdges \<Rightarrow> int \<Rightarrow> int \<Rightarrow> int \<Rightarrow> temp_search \<Rightarrow> temp_search option" where
  "HubLRouter_relaxUp hn he currNode currNodeDist i st = (case st of (heap, labelHeap, t, maxNum) \<Rightarrow> do {
     edgeId \<leftarrow> HubLNodes_getEdge hn i;
     destNode \<leftarrow> HubLEdges_getDest he edgeId;
     edgeDist \<leftarrow> HubLEdges_getDist he edgeId;
     insertIdx \<leftarrow> OrderedIntSet_getIdx (tl_label t) destNode;
     if insertIdx < 0 then do {
       let initialDist = jadd currNodeDist edgeDist;
       hasLabels \<leftarrow> HubLNodes_nodeHasLabels hn destNode;
       (heap, labelHeap, maxNum) \<leftarrow> (if hasLabels then do {
           labelHeap \<leftarrow> DistanceHeap_add labelHeap destNode initialDist;
           o1 \<leftarrow> HubLNodes_getLabelOffset hn (destNode + 1);
           o0 \<leftarrow> HubLNodes_getLabelOffset hn destNode;
           Some (heap, labelHeap, maxNum + (o1 - o0))
         } else do {
           heap \<leftarrow> DistanceHeap_add heap destNode initialDist;
           Some (heap, labelHeap, maxNum)
         });
       t \<leftarrow> HubLRouter_insertTemp t destNode initialDist edgeId currNode ((insertIdx + 1) * (-1));
       Some (heap, labelHeap, t, maxNum)
     } else do {
       prevDist \<leftarrow> OrderedIntSet_get (tl_dist t) insertIdx;
       let newDist = jadd currNodeDist edgeDist;
       if prevDist > newDist then do {
         hasLabels \<leftarrow> HubLNodes_nodeHasLabels hn destNode;
         (heap, labelHeap) \<leftarrow> (if hasLabels then do {
             labelHeap \<leftarrow> DistanceHeap_add labelHeap destNode newDist;
             Some (heap, labelHeap)
           } else do {
             heap \<leftarrow> DistanceHeap_add heap destNode newDist;
             Some (heap, labelHeap)
           });
         t \<leftarrow> HubLRouter_updateTemp t newDist edgeId currNode insertIdx;
         Some (heap, labelHeap, t, maxNum)
       } else Some (heap, labelHeap, t, maxNum)
     }
   })"

partial_function (option) HubLRouter_searchUp ::
    "HubLNodes \<Rightarrow> HubLEdges \<Rightarrow> temp_search \<Rightarrow> temp_search option" where
  "HubLRouter_searchUp hn he st = (case st of (heap, labelHeap, t, maxNum) \<Rightarrow>
     if DistanceHeap_isEmpty heap then Some st
     else do {
       (currNode, heap) \<leftarrow> DistanceHeap_getNext heap;
       currNodeIdx \<leftarrow> OrderedIntSet_getIdx (tl_label t) currNode;
       currNodeDist \<leftarrow> OrderedIntSet_get (tl_dist t) currNodeIdx;
       edgesStart \<leftarrow> HubLNodes_getEdgeOffset hn currNode;
       edgesStop \<leftarrow> HubLNodes_getEdgeOffset hn (currNode + 1);
       st \<leftarrow> for_range edgesStart edgesStop (HubLRouter_relaxUp hn he currNode currNodeDist)
              (heap, labelHeap, t, maxNum);
       HubLRouter_searchUp hn he st
     })"

definition HubLRouter_mergeLabel :: "HubLNodes \<Rightarrow> int \<Rightarrow> int \<Rightarrow> int \<Rightarrow> TempLabels \<Rightarrow> TempLabels option" where
  "HubLRouter_mergeLabel hn labelNode nodeDist currIdx t = do {
     currLabelNode \<leftarrow> HubLNodes_getLabelNode hn currIdx;
     currLabelIdx \<leftarrow> OrderedIntSet_getIdx (tl_label t) currLabelNode;
     if currLabelIdx < 0 then do {
       let currLabelIdx = (currLabelIdx + 1) * (-1);
       ld \<leftarrow> HubLNodes_getLabelDist hn currIdx;
       le \<leftarrow> HubLNodes_getLabelEdge hn currIdx;
       HubLRouter_insertTemp t currLabelNode (jadd nodeDist ld) le ((labelNode * (-1)) - 2) currLabelIdx
     } else do {
       ld \<leftarrow> HubLNodes_getLabelDist hn currIdx;
       let newDistance = jadd nodeDist ld;
       oldDistance \<leftarrow> OrderedIntSet_get (tl_dist t) currLabelIdx;
       if oldDistance > newDistance then do {
         le \<leftarrow> HubLNodes_getLabelEdge hn currIdx;
         HubLRouter_updateTemp t newDistance le ((labelNode * (-1)) - 2) currLabelIdx
       } else Some t
     }
   }"

partial_function (option) HubLRouter_addLabels ::
    "HubLNodes \<Rightarrow> DistanceHeap \<Rightarrow> TempLabels \<Rightarrow> (DistanceHeap \<times> TempLabels) option" where
  "HubLRouter_addLabels hn labelHeap t =
     (if DistanceHeap_isEmpty labelHeap then Some (labelHeap, t)
      else do {
        (labelNode, labelHeap) \<leftarrow> DistanceHeap_getNext labelHeap;
        idx \<leftarrow> OrderedIntSet_getIdx (tl_label t) labelNode;
        nodeDist \<leftarrow> OrderedIntSet_get (tl_dist t) idx;
        endIdx \<leftarrow> HubLNodes_getLabelOffset hn (labelNode + 1);
        startIdx \<leftarrow> HubLNodes_getLabelOffset hn labelNode;
        t \<leftarrow> for_range startIdx endIdx (HubLRouter_mergeLabel hn labelNode nodeDist) t;
        HubLRouter_addLabels hn labelHeap t
      })"

declare HubLRouter_searchUp.simps [code] HubLRouter_addLabels.simps [code]

definition HubLRouter_calcTempLabels ::
    "HubLNodes \<Rightarrow> HubLEdges \<Rightarrow> HubLRouter \<Rightarrow> int \<Rightarrow> bool \<Rightarrow> HubLRouter option" where
  "HubLRouter_calcTempLabels hn he r nodeId isLeftNode = do {
     let labelHeap = DistanceHeap_reset (hr_labelHeap r);
     let heap = DistanceHeap_reset (hr_heap r);
     let t = HubLRouter_side r isLeftNode;
     label \<leftarrow> OrderedIntSet_insertTail (tl_label t) nodeId;
     dist \<leftarrow> OrderedIntSet_insertTail (tl_dist t) 0;
     edge \<leftarrow> OrderedIntSet_insertTail (tl_edge t) (-1);
     addInfo \<leftarrow> OrderedIntSet_insertTail (tl_addInfo t) (-1);
     heap \<leftarrow> DistanceHeap_add heap nodeId 0;
     (heap, labelHeap, t, maxNumOfLabels) \<leftarrow> HubLRouter_searchUp hn he
       (heap, labelHeap, \<lparr>tl_label = label, tl_dist = dist, tl_edge = edge, tl_addInfo = addInfo\<rparr>, 0);
     label \<leftarrow> OrderedIntSet_makeSpace (tl_label t) maxNumOfLabels;
     dist \<leftarrow> OrderedIntSet_makeSpace (tl_dist t) maxNumOfLabels;
     edge \<leftarrow> OrderedIntSet_makeSpace (tl_edge t) maxNumOfLabels;
     addInfo \<leftarrow> OrderedIntSet_makeSpace (tl_addInfo t) maxNumOfLabels;
     (labelHeap, t) \<leftarrow> HubLRouter_addLabels hn labelHeap
       \<lparr>tl_label = label, tl_dist = dist, tl_edge = edge, tl_addInfo = addInfo\<rparr>;
     Some (HubLRouter_setSide (r\<lparr>hr_heap := heap, hr_labelHeap := labelHeap\<rparr>) isLeftNode t)
   }"

section \<open>The routing methods\<close>

definition HubLRouter_routeLeftLbl ::
    "bool \<Rightarrow> Node \<Rightarrow> HubLNodes \<Rightarrow> HubLEdges \<Rightarrow> HubLRouter \<Rightarrow> int \<Rightarrow> int \<Rightarrow> (RoutingResult \<times> HubLRouter) option" where
  "HubLRouter_routeLeftLbl useHL nd hn he r startId destId = do {
     r \<leftarrow> HubLRouter_calcTempLabels hn he r destId False;
     leftIdx \<leftarrow> HubLNodes_getLabelOffset hn startId;
     leftMaxIdx \<leftarrow> HubLNodes_getLabelOffset hn (startId + 1);
     let rightSize = OrderedIntSet_size (hr_labelRight r);
     if leftIdx = leftMaxIdx \<or> rightSize = 0 then Some (RoutingResult_empty, r)
     else do {
       labelRight \<leftarrow> OrderedIntSet_insertTail (hr_labelRight r) MAX_VALUE;
       let r = r\<lparr>hr_labelRight := labelRight\<rparr>;
       leftNode \<leftarrow> HubLNodes_getLabelNode hn leftIdx;
       rightNode \<leftarrow> OrderedIntSet_get labelRight 0;
       best \<leftarrow> HubLRouter_merge (HubLNodes_getLabelNode hn) (HubLNodes_getLabelDist hn)
                 (OrderedIntSet_get labelRight) (OrderedIntSet_get (hr_distRight r))
                 leftMaxIdx rightSize leftIdx 0 leftNode rightNode CommonLabel_none;
       if cl_highestLvlNode best = -1 then Some (RoutingResult_empty, r)
       else do {
         edgesLeft \<leftarrow> HubLRouter_labelEdges hn he startId (cl_highestLvlNode best) (cl_idxA best) (hr_edgesLeft r);
         edgesRight \<leftarrow> HubLRouter_tempEdges hn he r destId (cl_highestLvlNode best) (cl_idxB best) False (hr_edgesRight r);
         HubLRouter_finish useHL nd hn he (r\<lparr>hr_edgesLeft := edgesLeft, hr_edgesRight := edgesRight\<rparr>)
           startId destId (cl_currDistance best)
       }
     }
   }"

definition HubLRouter_routeRightLbl ::
    "bool \<Rightarrow> Node \<Rightarrow> HubLNodes \<Rightarrow> HubLEdges \<Rightarrow> HubLRouter \<Rightarrow> int \<Rightarrow> int \<Rightarrow> (RoutingResult \<times> HubLRouter) option" where
  "HubLRouter_routeRightLbl useHL nd hn he r startId destId = do {
     r \<leftarrow> HubLRouter_calcTempLabels hn he r startId True;
     rightIdx \<leftarrow> HubLNodes_getLabelOffset hn destId;
     rightMaxIdx \<leftarrow> HubLNodes_getLabelOffset hn (destId + 1);
     let leftSize = OrderedIntSet_size (hr_labelLeft r);
     if rightIdx = rightMaxIdx \<or> leftSize = 0 then Some (RoutingResult_empty, r)
     else do {
       labelLeft \<leftarrow> OrderedIntSet_insertTail (hr_labelLeft r) MAX_VALUE;
       let r = r\<lparr>hr_labelLeft := labelLeft\<rparr>;
       rightNode \<leftarrow> HubLNodes_getLabelNode hn rightIdx;
       leftNode \<leftarrow> OrderedIntSet_get labelLeft 0;
       best \<leftarrow> HubLRouter_merge (OrderedIntSet_get labelLeft) (OrderedIntSet_get (hr_distLeft r))
                 (HubLNodes_getLabelNode hn) (HubLNodes_getLabelDist hn)
                 leftSize rightMaxIdx 0 rightIdx leftNode rightNode CommonLabel_none;
       if cl_highestLvlNode best = -1 then Some (RoutingResult_empty, r)
       else do {
         edgesRight \<leftarrow> HubLRouter_labelEdges hn he destId (cl_highestLvlNode best) (cl_idxB best) (hr_edgesRight r);
         edgesLeft \<leftarrow> HubLRouter_tempEdges hn he r startId (cl_highestLvlNode best) (cl_idxA best) True (hr_edgesLeft r);
         HubLRouter_finish useHL nd hn he (r\<lparr>hr_edgesLeft := edgesLeft, hr_edgesRight := edgesRight\<rparr>)
           startId destId (cl_currDistance best)
       }
     }
   }"

definition HubLRouter_route0Lbl ::
    "bool \<Rightarrow> Node \<Rightarrow> HubLNodes \<Rightarrow> HubLEdges \<Rightarrow> HubLRouter \<Rightarrow> int \<Rightarrow> int \<Rightarrow> (RoutingResult \<times> HubLRouter) option" where
  "HubLRouter_route0Lbl useHL nd hn he r startId destId = do {
     r \<leftarrow> HubLRouter_calcTempLabels hn he r startId True;
     r \<leftarrow> HubLRouter_calcTempLabels hn he r destId False;
     let leftSize = OrderedIntSet_size (hr_labelLeft r);
     let rightSize = OrderedIntSet_size (hr_labelRight r);
     if leftSize = 0 \<or> rightSize = 0 then Some (RoutingResult_empty, r)
     else do {
       labelLeft \<leftarrow> OrderedIntSet_insertTail (hr_labelLeft r) MAX_VALUE;
       labelRight \<leftarrow> OrderedIntSet_insertTail (hr_labelRight r) MAX_VALUE;
       let r = r\<lparr>hr_labelLeft := labelLeft, hr_labelRight := labelRight\<rparr>;
       leftNode \<leftarrow> OrderedIntSet_get labelLeft 0;
       rightNode \<leftarrow> OrderedIntSet_get labelRight 0;
       best \<leftarrow> HubLRouter_merge (OrderedIntSet_get labelLeft) (OrderedIntSet_get (hr_distLeft r))
                 (OrderedIntSet_get labelRight) (OrderedIntSet_get (hr_distRight r))
                 leftSize rightSize 0 0 leftNode rightNode CommonLabel_none;
       if cl_highestLvlNode best = -1 then Some (RoutingResult_empty, r)
       else do {
         edgesLeft \<leftarrow> HubLRouter_tempEdges hn he r startId (cl_highestLvlNode best) (cl_idxA best) True (hr_edgesLeft r);
         edgesRight \<leftarrow> HubLRouter_tempEdges hn he r destId (cl_highestLvlNode best) (cl_idxB best) False (hr_edgesRight r);
         HubLRouter_finish useHL nd hn he (r\<lparr>hr_edgesLeft := edgesLeft, hr_edgesRight := edgesRight\<rparr>)
           startId destId (cl_currDistance best)
       }
     }
   }"

definition HubLRouter_routeGeneral ::
    "bool \<Rightarrow> Node \<Rightarrow> HubLNodes \<Rightarrow> HubLEdges \<Rightarrow> HubLRouter \<Rightarrow> int \<Rightarrow> int \<Rightarrow> (RoutingResult \<times> HubLRouter) option" where
  "HubLRouter_routeGeneral useHL nd hn he r startNodeIdx destNodeIdx = do {
     let r = HubLRouter_reset r;
     startHasLabels \<leftarrow> HubLNodes_nodeHasLabels hn startNodeIdx;
     destHasLabels \<leftarrow> HubLNodes_nodeHasLabels hn destNodeIdx;
     if startHasLabels \<and> destHasLabels then HubLRouter_route2Lbl useHL nd hn he r startNodeIdx destNodeIdx
     else if \<not> startHasLabels \<and> \<not> destHasLabels then HubLRouter_route0Lbl useHL nd hn he r startNodeIdx destNodeIdx
     else if startHasLabels then HubLRouter_routeLeftLbl useHL nd hn he r startNodeIdx destNodeIdx
     else HubLRouter_routeRightLbl useHL nd hn he r startNodeIdx destNodeIdx
   }"

text \<open>The public method; the two readings of the clock (in nanoseconds) are arguments.\<close>

definition HubLRouter_route ::
    "bool \<Rightarrow> Node \<Rightarrow> HubLNodes \<Rightarrow> HubLEdges \<Rightarrow> int \<Rightarrow> int \<Rightarrow> HubLRouter \<Rightarrow> int \<Rightarrow> int \<Rightarrow>
     (RoutingResult \<times> HubLRouter) option" where
  "HubLRouter_route useHL nd hn he startTime stopTime r startNodeId destNodeId = do {
     (result, r) \<leftarrow> HubLRouter_routeGeneral useHL nd hn he r startNodeId destNodeId;
     Some (result\<lparr>rr_calculationTimeInMs := real_of_int (stopTime - startTime) / 1000000\<rparr>, r)
   }"

end
