(* ===== verification/LabelRouting.thy ===== *)
theory LabelRouting
  imports HubLRouter
begin

text \<open>
  Correctness of the hub label router for requests between nodes with labels
  (\<open>HubLRouter.route2Lbl\<close> with the unfolding of the path).

  \<open>HubLEdges_wf\<close> and \<open>HubLNodes_wf\<close> say what the stored data has to satisfy: a shortcut
  joins two edges with smaller ids, a label of a node carries the first edge of a way to the
  label node, whose end has a higher level and a label for the same node. The start nodes of
  the edges, which the store does not hold, are the argument \<open>src\<close>. \<open>label_cover\<close> is the
  promise of hub labelling: two nodes have a common label node on a shortest walk.
\<close>

section \<open>Edges and shortcuts\<close>

definition HubLEdges_wf :: "int list \<Rightarrow> int \<Rightarrow> HubLEdges \<Rightarrow> bool" where
  "HubLEdges_wf src n he \<longleftrightarrow>
     length src = length (he_dest he) \<and> length (he_dist he) = length (he_dest he) \<and>
     0 \<le> he_firstShortcutIdx he \<and> he_firstShortcutIdx he \<le> int (length (he_dest he)) \<and>
     int (length (he_shortcutParts he)) = 2 * (int (length (he_dest he)) - he_firstShortcutIdx he) \<and>
     list_all (\<lambda>e. 0 \<le> src ! e \<and> src ! e < n \<and> 0 \<le> he_dest he ! e \<and> he_dest he ! e < n \<and> 0 \<le> he_dist he ! e)
       [0..<length (he_dest he)] \<and>
     list_all (\<lambda>e. let k = 2 * (e - nat (he_firstShortcutIdx he));
                       s = he_shortcutParts he ! k; f = he_shortcutParts he ! (k + 1) in
         0 \<le> f \<and> f < int e \<and> 0 \<le> s \<and> s < int e \<and>
         src ! nat f = src ! e \<and> he_dest he ! nat f = src ! nat s \<and> he_dest he ! nat s = he_dest he ! e \<and>
         he_dist he ! e = he_dist he ! nat f + he_dist he ! nat s)
       [nat (he_firstShortcutIdx he)..<length (he_dest he)]"

definition HubLEdges_adj :: "int list \<Rightarrow> HubLEdges \<Rightarrow> adjacency" where
  "HubLEdges_adj src he u = map (\<lambda>e. (he_dest he ! e, he_dist he ! e))
     (filter (\<lambda>e. src ! e = u) [0..<nat (he_firstShortcutIdx he)])"

fun trail :: "int list \<Rightarrow> HubLEdges \<Rightarrow> int \<Rightarrow> int list \<Rightarrow> int \<Rightarrow> bool" where
  "trail src he u [] v \<longleftrightarrow> u = v"
| "trail src he u (e # es) v \<longleftrightarrow> 0 \<le> e \<and> e < int (length (he_dest he)) \<and> src ! nat e = u \<and>
     trail src he (he_dest he ! nat e) es v"

definition trail_cost :: "HubLEdges \<Rightarrow> int list \<Rightarrow> int" where
  "trail_cost he es = sum_list (map (\<lambda>e. he_dist he ! nat e) es)"

lemma trail_append: "trail src he u (es @ fs) v \<longleftrightarrow> (\<exists>m. trail src he u es m \<and> trail src he m fs v)"
  by (induction es arbitrary: u) auto

lemma trail_cost_simps [simp]:
  "trail_cost he [] = 0"
  "trail_cost he (e # es) = he_dist he ! nat e + trail_cost he es"
  "trail_cost he (es @ fs) = trail_cost he es + trail_cost he fs"
  by (simp_all add: trail_cost_def)

lemma trail_valid: "trail src he u es v \<Longrightarrow> e \<in> set es \<Longrightarrow> 0 \<le> e \<and> e < int (length (he_dest he))"
  by (induction es arbitrary: u) auto

text \<open>The original edges an edge stands for.\<close>

function base_edges :: "HubLEdges \<Rightarrow> int \<Rightarrow> int list" where
  "base_edges he e =
     (case (HubLEdges_isShortcut he e, HubLEdges_getFirstShortcut he e, HubLEdges_getSecondShortcut he e) of
        (True, Some f, Some s) \<Rightarrow> if f < e \<and> s < e \<and> 0 \<le> f \<and> 0 \<le> s then base_edges he f @ base_edges he s else []
      | _ \<Rightarrow> [e])"
  by pat_completeness auto
termination
  by (relation "measure (\<lambda>(_, e). nat e)") auto

declare base_edges.simps [simp del]

lemma HubLEdges_wf_edge:
  assumes "HubLEdges_wf src n he" "0 \<le> e" "e < int (length (he_dest he))"
  shows "0 \<le> src ! nat e" "src ! nat e < n" "0 \<le> he_dest he ! nat e" "he_dest he ! nat e < n"
    "0 \<le> he_dist he ! nat e" "HubLEdges_getDest he e = Some (he_dest he ! nat e)"
  using assms by (auto simp: HubLEdges_wf_def list_all_iff HubLEdges_getDest_def java)

lemma HubLEdges_wf_shortcut:
  assumes wf: "HubLEdges_wf src n he" and e: "e < int (length (he_dest he))" "HubLEdges_isShortcut he e"
  obtains f s where "HubLEdges_getFirstShortcut he e = Some f" "HubLEdges_getSecondShortcut he e = Some s"
    "0 \<le> f" "f < e" "0 \<le> s" "s < e" "src ! nat f = src ! nat e" "he_dest he ! nat f = src ! nat s"
    "he_dest he ! nat s = he_dest he ! nat e" "he_dist he ! nat e = he_dist he ! nat f + he_dist he ! nat s"
proof -
  let ?b = "he_firstShortcutIdx he"
  let ?k = "2 * (nat e - nat ?b)"
  let ?s = "he_shortcutParts he ! ?k" let ?f = "he_shortcutParts he ! (?k + 1)"
  have b: "0 \<le> ?b" "?b \<le> e" using wf e(2) by (auto simp: HubLEdges_wf_def HubLEdges_isShortcut_def)
  have k: "int ?k = (e - ?b) * 2" using b by (simp add: of_nat_diff)
  have len: "int (length (he_shortcutParts he)) = 2 * (int (length (he_dest he)) - ?b)" using wf by (simp add: HubLEdges_wf_def)
  have "int ?k + 1 < int (length (he_shortcutParts he))" unfolding k len using e(1) by (simp add: algebra_simps)
  then have get: "HubLEdges_getFirstShortcut he e = Some ?f" "HubLEdges_getSecondShortcut he e = Some ?s"
    unfolding HubLEdges_getFirstShortcut_def HubLEdges_getSecondShortcut_def k[symmetric]
    by (simp_all add: aget_def nat_add_distrib nat_mult_distrib)
  obtain m where m: "e = int m" "nat ?b \<le> m" "m < length (he_dest he)"
    using b e(1) by (metis nonneg_int_cases order_trans nat_le_iff of_nat_less_iff)
  have "0 \<le> ?f \<and> ?f < e \<and> 0 \<le> ?s \<and> ?s < e \<and>
      src ! nat ?f = src ! nat e \<and> he_dest he ! nat ?f = src ! nat ?s \<and> he_dest he ! nat ?s = he_dest he ! nat e \<and>
      he_dist he ! nat e = he_dist he ! nat ?f + he_dist he ! nat ?s"
    using wf m(2,3) unfolding m(1) by (auto simp: HubLEdges_wf_def list_all_iff Let_def)
  with get that show thesis by blast
qed

lemma base_edges_trail:
  assumes wf: "HubLEdges_wf src n he"
  shows "0 \<le> e \<Longrightarrow> e < int (length (he_dest he)) \<Longrightarrow>
    trail src he (src ! nat e) (base_edges he e) (he_dest he ! nat e) \<and>
    trail_cost he (base_edges he e) = he_dist he ! nat e \<and>
    (\<forall>x \<in> set (base_edges he e). \<not> HubLEdges_isShortcut he x)"
proof (induction "nat e" arbitrary: e rule: less_induct)
  case less
  show ?case
  proof (cases "HubLEdges_isShortcut he e")
    case True
    from HubLEdges_wf_shortcut[OF wf less.prems(2) True]
    obtain f s where fs: "HubLEdges_getFirstShortcut he e = Some f" "HubLEdges_getSecondShortcut he e = Some s"
      "0 \<le> f" "f < e" "0 \<le> s" "s < e" "src ! nat f = src ! nat e" "he_dest he ! nat f = src ! nat s"
      "he_dest he ! nat s = he_dest he ! nat e" "he_dist he ! nat e = he_dist he ! nat f + he_dist he ! nat s" .
    have split: "base_edges he e = base_edges he f @ base_edges he s"
      using True fs by (subst base_edges.simps) simp
    show ?thesis unfolding split using less.hyps[of f] less.hyps[of s] fs less.prems by (auto simp: trail_append)
  next
    case False
    then have "base_edges he e = [e]" by (subst base_edges.simps) simp
    with less.prems False show ?thesis by simp
  qed
qed

lemma trail_base:
  assumes wf: "HubLEdges_wf src n he" and "trail src he u es v"
  shows "trail src he u (concat (map (base_edges he) es)) v \<and>
    trail_cost he (concat (map (base_edges he) es)) = trail_cost he es \<and>
    (\<forall>x \<in> set (concat (map (base_edges he) es)). \<not> HubLEdges_isShortcut he x)"
  using assms(2)
proof (induction es arbitrary: u)
  case (Cons e es)
  then show ?case using base_edges_trail[OF wf, of e] by (auto simp: trail_append)
qed simp

text \<open>A trail of original edges is a walk of the graph.\<close>

lemma trail_walk:
  assumes wf: "HubLEdges_wf src n he" and "trail src he u es v" "\<forall>e \<in> set es. \<not> HubLEdges_isShortcut he e"
  shows "walk (HubLEdges_adj src he) u (u # map (\<lambda>e. he_dest he ! nat e) es) (trail_cost he es) \<and>
    last (u # map (\<lambda>e. he_dest he ! nat e) es) = v"
  using assms(2,3)
proof (induction es arbitrary: u)
  case Nil
  then show ?case by (auto intro: walk.walk_start)
next
  case (Cons e es)
  let ?m = "he_dest he ! nat e"
  have e: "0 \<le> e" "e < he_firstShortcutIdx he" "src ! nat e = u"
    using Cons.prems by (auto simp: HubLEdges_isShortcut_def)
  then have "(?m, he_dist he ! nat e) \<in> set (HubLEdges_adj src he u)"
    by (force simp: HubLEdges_adj_def image_iff intro!: bexI[of _ "nat e"])
  then have w: "walk (HubLEdges_adj src he) u [u, ?m] (he_dist he ! nat e)" by (rule walk_edge)
  show ?case using walk_append[OF w, of "?m # map (\<lambda>e. he_dest he ! nat e) es"] Cons by auto
qed

section \<open>The unfolding loops\<close>

definition dests :: "HubLEdges \<Rightarrow> int list \<Rightarrow> int list" where
  "dests he es = map (\<lambda>e. he_dest he ! nat e) es"

lemma dests_simps [simp]: "dests he [] = []" "dests he (es @ fs) = dests he es @ dests he fs"
  by (simp_all add: dests_def)

definition side_order :: "bool \<Rightarrow> 'a list \<Rightarrow> 'a list" where
  "side_order left xs = (if left then xs else rev xs)"

text \<open>One edge on top of the stack is replaced by the nodes its original edges lead to.\<close>

lemma HubLRouter_expand_edge:
  assumes wf: "HubLEdges_wf src n he"
  shows "0 \<le> e \<Longrightarrow> e < int (length (he_dest he)) \<Longrightarrow> st_inv c \<Longrightarrow> st_inv r \<Longrightarrow> st_contents c = xs @ [e] \<Longrightarrow>
    \<exists>c' r'. HubLRouter_expand he left c r = HubLRouter_expand he left c' r' \<and> st_inv c' \<and> st_inv r' \<and>
      st_contents c' = xs \<and> st_contents r' = st_contents r @ dests he (side_order left (base_edges he e))"
proof (induction "nat e" arbitrary: e c r xs rule: less_induct)
  case less
  obtain c1 where c1: "IntStack_pop c = Some (e, c1)" "st_inv c1" "st_contents c1 = xs"
    using intStack.pop_ok[OF less.prems(3,5)] by blast
  have ne: "\<not> IntStack_isEmpty c" using intStack.isEmpty_iff[OF less.prems(3)] less.prems(5) by simp
  show ?case
  proof (cases "HubLEdges_isShortcut he e")
    case False
    then have be: "base_edges he e = [e]" by (subst base_edges.simps) simp
    obtain r1 where r1: "IntStack_push r (he_dest he ! nat e) = Some r1" "st_inv r1"
      "st_contents r1 = st_contents r @ [he_dest he ! nat e]"
      using intStack.push_ok[OF less.prems(4)] by blast
    have "HubLRouter_expand he left c r = HubLRouter_expand he left c1 r1"
      by (subst HubLRouter_expand.simps) (simp add: ne c1(1) False HubLEdges_wf_edge(6)[OF wf less.prems(1,2)] r1(1))
    then show ?thesis using c1 r1 be by (auto simp: dests_def side_order_def)
  next
    case True
    from HubLEdges_wf_shortcut[OF wf less.prems(2) True]
    obtain f s where fs: "HubLEdges_getFirstShortcut he e = Some f" "HubLEdges_getSecondShortcut he e = Some s"
      "0 \<le> f" "f < e" "0 \<le> s" "s < e" .
    define p where "p = (if left then s else f)"
    define q where "q = (if left then f else s)"
    have pq: "0 \<le> p" "p < e" "0 \<le> q" "q < e" using fs by (auto simp: p_def q_def)
    obtain c2 where c2: "IntStack_push c1 p = Some c2" "st_inv c2" "st_contents c2 = xs @ [p]"
      using intStack.push_ok[OF c1(2)] c1(3) by auto
    obtain c3 where c3: "IntStack_push c2 q = Some c3" "st_inv c3" "st_contents c3 = (xs @ [p]) @ [q]"
      using intStack.push_ok[OF c2(2)] c2(3) by auto
    have step: "HubLRouter_expand he left c r = HubLRouter_expand he left c3 r"
      using c2(1) c3(1)
      by (subst HubLRouter_expand.simps) (simp add: ne c1(1) True fs(1,2) p_def q_def split: if_splits)
    obtain c4 r4 where c4: "HubLRouter_expand he left c3 r = HubLRouter_expand he left c4 r4" "st_inv c4" "st_inv r4"
      "st_contents c4 = xs @ [p]" "st_contents r4 = st_contents r @ dests he (side_order left (base_edges he q))"
      using less.hyps[OF _ pq(3) _ c3(2) less.prems(4) c3(3)] pq less.prems(1,2) by auto
    obtain c5 r5 where c5: "HubLRouter_expand he left c4 r4 = HubLRouter_expand he left c5 r5" "st_inv c5" "st_inv r5"
      "st_contents c5 = xs" "st_contents r5 = st_contents r4 @ dests he (side_order left (base_edges he p))"
      using less.hyps[OF _ pq(1) _ c4(2,3) c4(4)] pq less.prems(1,2) by auto
    have "base_edges he e = base_edges he f @ base_edges he s"
      using True fs by (subst base_edges.simps) simp
    then have "side_order left (base_edges he e) = side_order left (base_edges he q) @ side_order left (base_edges he p)"
      by (simp add: side_order_def p_def q_def)
    then show ?thesis using step c4 c5 by auto
  qed
qed

lemma HubLRouter_expand_one:
  assumes wf: "HubLEdges_wf src n he" and e: "0 \<le> e" "e < int (length (he_dest he))"
    and c: "st_inv c" "st_contents c = []" and r: "st_inv r"
  shows "\<exists>c1 c' r'. IntStack_push c e = Some c1 \<and> HubLRouter_expand he left c1 r = Some (c', r') \<and> st_inv c' \<and>
    st_contents c' = [] \<and> st_inv r' \<and> st_contents r' = st_contents r @ dests he (side_order left (base_edges he e))"
proof -
  obtain c1 where c1: "IntStack_push c e = Some c1" "st_inv c1" "st_contents c1 = [] @ [e]"
    using intStack.push_ok[OF c(1)] c(2) by auto
  from HubLRouter_expand_edge[OF wf e c1(2) r c1(3), of left]
  obtain c' r' where x: "HubLRouter_expand he left c1 r = HubLRouter_expand he left c' r'" "st_inv c'" "st_inv r'"
      "st_contents c' = []" "st_contents r' = st_contents r @ dests he (side_order left (base_edges he e))" by blast
  have "HubLRouter_expand he left c' r' = Some (c', r')"
    using x intStack.isEmpty_iff[OF x(2)] by (subst HubLRouter_expand.simps) simp
  with x c1 show ?thesis by auto
qed

text \<open>The left edges are unfolded first to last, the right edges last to first.\<close>

lemma HubLRouter_unfoldLeft_ok:
  assumes wf: "HubLEdges_wf src n he"
  shows "\<lbrakk>\<forall>e \<in> set es. 0 \<le> e \<and> e < int (length (he_dest he)); st_inv l; st_contents l = es; st_inv c; st_contents c = [];
     st_inv r\<rbrakk> \<Longrightarrow> \<exists>l' c' r'. HubLRouter_unfoldLeft he l c r = Some (l', c', r') \<and> st_inv l' \<and> st_contents l' = [] \<and>
       st_inv c' \<and> st_contents c' = [] \<and> st_inv r' \<and>
       st_contents r' = st_contents r @ dests he (concat (map (base_edges he) es))"
proof (induction es arbitrary: l c r)
  case Nil
  then show ?case using intStack.isEmpty_iff[of l] by (subst HubLRouter_unfoldLeft.simps) simp
next
  case (Cons e es)
  obtain l1 where l1: "IntStack_popFifo l = Some (e, l1)" "st_inv l1" "st_contents l1 = es"
    using intStack.popFifo_ok[OF Cons.prems(2,3)] by blast
  have e: "0 \<le> e" "e < int (length (he_dest he))" using Cons.prems(1) by auto
  from HubLRouter_expand_one[OF wf e Cons.prems(4,5,6), of True]
  obtain c1 c2 r2 where x: "IntStack_push c e = Some c1" "HubLRouter_expand he True c1 r = Some (c2, r2)" "st_inv c2"
    "st_contents c2 = []" "st_inv r2" "st_contents r2 = st_contents r @ dests he (base_edges he e)"
    by (auto simp: side_order_def)
  have "HubLRouter_unfoldLeft he l c r = HubLRouter_unfoldLeft he l1 c2 r2"
    using intStack.isEmpty_iff[OF Cons.prems(2)] Cons.prems(3)
    by (subst HubLRouter_unfoldLeft.simps) (simp add: l1(1) x(1,2))
  with Cons.IH[OF _ l1(2,3) x(3,4,5)] Cons.prems(1) x(6) show ?case by auto
qed

lemma HubLRouter_unfoldRight_ok:
  assumes wf: "HubLEdges_wf src n he"
  shows "\<lbrakk>\<forall>e \<in> set es. 0 \<le> e \<and> e < int (length (he_dest he)); st_inv l; st_contents l = es; st_inv c; st_contents c = [];
     st_inv r\<rbrakk> \<Longrightarrow> \<exists>l' c' r'. HubLRouter_unfoldRight he l c r = Some (l', c', r') \<and> st_inv l' \<and> st_contents l' = [] \<and>
       st_inv c' \<and> st_contents c' = [] \<and> st_inv r' \<and>
       st_contents r' = st_contents r @ dests he (rev (concat (map (base_edges he) es)))"
proof (induction es arbitrary: l c r rule: rev_induct)
  case Nil
  then show ?case using intStack.isEmpty_iff[of l] by (subst HubLRouter_unfoldRight.simps) simp
next
  case (snoc e es)
  obtain l1 where l1: "IntStack_pop l = Some (e, l1)" "st_inv l1" "st_contents l1 = es"
    using intStack.pop_ok[OF snoc.prems(2,3)] by blast
  have e: "0 \<le> e" "e < int (length (he_dest he))" using snoc.prems(1) by auto
  from HubLRouter_expand_one[OF wf e snoc.prems(4,5,6), of False]
  obtain c1 c2 r2 where x: "IntStack_push c e = Some c1" "HubLRouter_expand he False c1 r = Some (c2, r2)" "st_inv c2"
    "st_contents c2 = []" "st_inv r2" "st_contents r2 = st_contents r @ dests he (rev (base_edges he e))"
    by (auto simp: side_order_def)
  have "HubLRouter_unfoldRight he l c r = HubLRouter_unfoldRight he l1 c2 r2"
    using intStack.isEmpty_iff[OF snoc.prems(2)] snoc.prems(3)
    by (subst HubLRouter_unfoldRight.simps) (simp add: l1(1) x(1,2))
  with snoc.IH[OF _ l1(2,3) x(3,4,5)] snoc.prems(1) x(6) show ?case by auto
qed

lemma HubLRouter_drain_ok:
  "st_inv r \<Longrightarrow> st_contents r = xs \<Longrightarrow>
     \<exists>r'. HubLRouter_drain r path = Some (path @ xs, r') \<and> st_inv r' \<and> st_contents r' = []"
proof (induction xs arbitrary: r path)
  case Nil
  then show ?case using intStack.isEmpty_iff[of r] by (subst HubLRouter_drain.simps) simp
next
  case (Cons x xs)
  obtain r1 where r1: "IntStack_popFifo r = Some (x, r1)" "st_inv r1" "st_contents r1 = xs"
    using intStack.popFifo_ok[OF Cons.prems] by blast
  have "HubLRouter_drain r path = HubLRouter_drain r1 (path @ [x])"
    using intStack.isEmpty_iff[OF Cons.prems(1)] Cons.prems(2) by (subst HubLRouter_drain.simps) (simp add: r1(1))
  with Cons.IH[OF r1(2,3), of "path @ [x]"] show ?case by simp
qed

section \<open>The path of a request\<close>

text \<open>The stacks of a router between two requests.\<close>

definition HubLRouter_ready :: "HubLRouter \<Rightarrow> bool" where
  "HubLRouter_ready r \<longleftrightarrow> st_inv (hr_resultNodes r) \<and> st_inv (hr_edgesRight r) \<and> st_inv (hr_edgesLeft r) \<and>
     st_inv (hr_edgeCalcStack r)"

lemma HubLRouter_new_ready: "\<exists>r. HubLRouter_new = Some r \<and> HubLRouter_ready r"
  by (simp add: HubLRouter_new_def DistanceHeap_new_def IntStack_new_def OrderedIntSet_new_def newArray_def
    HubLRouter_ready_def st_inv_def)

text \<open>
  The two sides meet at the node \<open>h\<close>; the original graph has every edge in both directions.
\<close>

lemma HubLRouter_calculateRoute_walk:
  assumes wf: "HubLEdges_wf src n he"
    and sym: "\<And>u v w. (v, w) \<in> set (HubLEdges_adj src he u) \<Longrightarrow> (u, w) \<in> set (HubLEdges_adj src he v)"
    and l: "trail src he s L h" and r: "trail src he t R h"
    and rt: "st_inv (hr_resultNodes r)" "st_contents (hr_resultNodes r) = []"
      "st_inv (hr_edgeCalcStack r)" "st_contents (hr_edgeCalcStack r) = []"
      "st_inv (hr_edgesLeft r)" "st_contents (hr_edgesLeft r) = L"
      "st_inv (hr_edgesRight r)" "st_contents (hr_edgesRight r) = R"
  shows "\<exists>r' p. HubLRouter_calculateRoute he r s t = Some r' \<and> HubLRouter_ready r' \<and>
    st_contents (hr_resultNodes r') = p \<and> walk (HubLEdges_adj src he) s p (trail_cost he L + trail_cost he R) \<and> last p = t"
proof -
  let ?b = "\<lambda>es. concat (map (base_edges he) es)"
  have valid: "\<forall>e \<in> set L. 0 \<le> e \<and> e < int (length (he_dest he))" "\<forall>e \<in> set R. 0 \<le> e \<and> e < int (length (he_dest he))"
    using trail_valid l r by blast+
  have wl: "walk (HubLEdges_adj src he) s (s # dests he (?b L)) (trail_cost he L)" "last (s # dests he (?b L)) = h"
    using trail_walk[OF wf, of s "?b L" h] trail_base[OF wf l] by (auto simp: dests_def)
  have wr: "walk (HubLEdges_adj src he) t (t # dests he (?b R)) (trail_cost he R)" "last (t # dests he (?b R)) = h"
    using trail_walk[OF wf, of t "?b R" h] trail_base[OF wf r] by (auto simp: dests_def)
  have wr': "walk (HubLEdges_adj src he) h (rev (t # dests he (?b R))) (trail_cost he R)"
    using walk_rev[OF wr(1) sym] wr(2) by simp
  have rv: "rev (dests he (?b R)) = dests he (rev (?b R))" by (simp add: dests_def rev_map)
  let ?p = "butlast (s # dests he (?b L)) @ dests he (rev (?b R)) @ [t]"
  have "(s # dests he (?b L)) @ tl (dests he (rev (?b R)) @ [t]) = ?p"
  proof -
    have "s # dests he (?b L) = butlast (s # dests he (?b L)) @ [h]" using wl(2) by (metis append_butlast_last_id list.distinct(1))
    moreover have "dests he (rev (?b R)) @ [t] = h # tl (dests he (rev (?b R)) @ [t])"
      using walk_nonempty[OF wr'] rv by (cases "dests he (rev (?b R)) @ [t]") auto
    ultimately show ?thesis by (metis append.assoc append_Cons append_Nil)
  qed
  then have walk: "walk (HubLEdges_adj src he) s ?p (trail_cost he L + trail_cost he R)"
    using walk_append[OF wl(1), of "dests he (rev (?b R)) @ [t]"] wl(2) wr' rv by simp
  obtain n1 where n1: "IntStack_push (hr_resultNodes r) s = Some n1" "st_inv n1" "st_contents n1 = [s]"
    using intStack.push_ok[OF rt(1)] rt(2) by auto
  obtain l' c' n2 where x: "HubLRouter_unfoldLeft he (hr_edgesLeft r) (hr_edgeCalcStack r) n1 = Some (l', c', n2)" "st_inv l'"
    "st_inv c'" "st_contents c' = []" "st_inv n2" "st_contents n2 = s # dests he (?b L)"
    using HubLRouter_unfoldLeft_ok[OF wf valid(1) rt(5,6) rt(3,4) n1(2)] n1(3) by auto
  have "st_contents n2 = butlast (s # dests he (?b L)) @ [h]" using x(6) wl(2) by (metis append_butlast_last_id list.distinct(1))
  from intStack.pop_ok[OF x(5) this] obtain n3 where n3: "IntStack_pop n2 = Some (h, n3)" "st_inv n3"
    "st_contents n3 = butlast (s # dests he (?b L))" by blast
  obtain r' c'' n4 where y: "HubLRouter_unfoldRight he (hr_edgesRight r) c' n3 = Some (r', c'', n4)" "st_inv r'"
    "st_inv c''" "st_inv n4" "st_contents n4 = butlast (s # dests he (?b L)) @ dests he (rev (?b R))"
    using HubLRouter_unfoldRight_ok[OF wf valid(2) rt(7,8) x(3,4) n3(2)] n3(3) by auto
  obtain n5 where n5: "IntStack_push n4 t = Some n5" "st_inv n5" "st_contents n5 = ?p"
    using intStack.push_ok[OF y(4)] y(5) by auto
  show ?thesis using walk n5 y x n3(1) n1(1)
    by (simp add: HubLRouter_calculateRoute_def HubLRouter_ready_def del: butlast.simps)
qed

section \<open>The best common label\<close>

text \<open>
  A label list as the merge loop sees it: nodes \<open>N\<close> and distances \<open>D\<close> at the positions from
  \<open>a\<close> to \<open>e\<close>, with one more node to read at \<open>e\<close>.
\<close>

definition label_list :: "(int \<Rightarrow> int option) \<Rightarrow> (int \<Rightarrow> int option) \<Rightarrow> (int \<Rightarrow> int) \<Rightarrow> (int \<Rightarrow> int) \<Rightarrow> int \<Rightarrow> int \<Rightarrow> bool" where
  "label_list nodeAt distAt N D a e \<longleftrightarrow>
     (\<forall>i. a \<le> i \<and> i \<le> e \<longrightarrow> nodeAt i = Some (N i)) \<and>
     (\<forall>i. a \<le> i \<and> i < e \<longrightarrow> distAt i = Some (D i) \<and> 0 \<le> D i \<and> D i \<le> 1073741823) \<and>
     (\<forall>i j. a \<le> i \<and> i < j \<and> j < e \<longrightarrow> N i < N j)"

lemma label_list_Suc: "label_list nodeAt distAt N D a e \<Longrightarrow> label_list nodeAt distAt N D (a + 1) e"
  by (simp add: label_list_def)

text \<open>
  \<open>common_best\<close>: \<open>best\<close> is \<open>old\<close> or a common label, at most \<open>old\<close>, and no common label at the
  positions from \<open>a\<close> and \<open>b\<close> on is better.
\<close>

definition common_best where
  "common_best N1 D1 N2 D2 e1 e2 a b old best \<longleftrightarrow>
     cl_currDistance best \<le> cl_currDistance old \<and>
     (\<forall>i j. a \<le> i \<and> i < e1 \<and> b \<le> j \<and> j < e2 \<and> N1 i = N2 j \<longrightarrow> cl_currDistance best \<le> D1 i + D2 j) \<and>
     (best = old \<or> (\<exists>i j. a \<le> i \<and> i < e1 \<and> b \<le> j \<and> j < e2 \<and> N1 i = N2 j \<and>
        best = \<lparr>cl_highestLvlNode = N1 i, cl_currDistance = D1 i + D2 j, cl_idxA = i, cl_idxB = j\<rparr>))"

lemma common_best_skipB:
  assumes "\<And>i. a \<le> i \<Longrightarrow> i < e1 \<Longrightarrow> N1 i \<noteq> N2 b" "common_best N1 D1 N2 D2 e1 e2 a (b + 1) old best"
  shows "common_best N1 D1 N2 D2 e1 e2 a b old best"
proof -
  have "b + 1 \<le> j" if "a \<le> i" "i < e1" "b \<le> j" "N1 i = N2 j" for i j using assms(1)[of i] that by (cases "b = j") auto
  moreover have "b \<le> j" if "b + 1 \<le> j" for j using that by simp
  ultimately show ?thesis using assms(2) unfolding common_best_def by blast
qed

lemma common_best_skipA:
  assumes "\<And>j. b \<le> j \<Longrightarrow> j < e2 \<Longrightarrow> N2 j \<noteq> N1 a" "common_best N1 D1 N2 D2 e1 e2 (a + 1) b old best"
  shows "common_best N1 D1 N2 D2 e1 e2 a b old best"
proof -
  have "a + 1 \<le> i" if "b \<le> j" "j < e2" "a \<le> i" "N1 i = N2 j" for i j using assms(1)[of j] that by (cases "a = i") auto
  moreover have "a \<le> i" if "a + 1 \<le> i" for i using that by simp
  ultimately show ?thesis using assms(2) unfolding common_best_def by blast
qed

lemma HubLRouter_merge_ok:
  "label_list n1 d1 N1 D1 a e1 \<Longrightarrow> label_list n2 d2 N2 D2 b e2 \<Longrightarrow> a \<le> e1 \<Longrightarrow> b \<le> e2 \<Longrightarrow>
   \<exists>best. HubLRouter_merge n1 d1 n2 d2 e1 e2 a b (N1 a) (N2 b) old = Some best \<and>
     common_best N1 D1 N2 D2 e1 e2 a b old best"
proof (induction "nat (e1 - a) + nat (e2 - b)" arbitrary: a b old rule: less_induct)
  case less
  note A = less.prems(1)[unfolded label_list_def] and B = less.prems(2)[unfolded label_list_def]
  show ?case
  proof (cases "a < e1 \<and> b < e2")
    case False
    then have "HubLRouter_merge n1 d1 n2 d2 e1 e2 a b (N1 a) (N2 b) old = Some old"
      by (subst HubLRouter_merge.simps) auto
    moreover have "common_best N1 D1 N2 D2 e1 e2 a b old old" using False by (auto simp: common_best_def)
    ultimately show ?thesis by blast
  next
    case True
    have rdA: "n1 (a + 1) = Some (N1 (a + 1))" "d1 a = Some (D1 a)" "0 \<le> D1 a" "D1 a \<le> 1073741823"
      and rdB: "n2 (b + 1) = Some (N2 (b + 1))" "d2 b = Some (D2 b)" "0 \<le> D2 b" "D2 b \<le> 1073741823"
      using A B True by auto
    have sum: "jadd (D1 a) (D2 b) = D1 a + D2 b" using rdA rdB by (intro jadd_exact) (auto simp: MAX_VALUE_def)
    have m: "nat (e1 - (a + 1)) + nat (e2 - (b + 1)) < nat (e1 - a) + nat (e2 - b)"
      "nat (e1 - a) + nat (e2 - (b + 1)) < nat (e1 - a) + nat (e2 - b)"
      "nat (e1 - (a + 1)) + nat (e2 - b) < nat (e1 - a) + nat (e2 - b)" using True by linarith+
    have up: "N1 a < N1 i" if "a < i" "i < e1" for i using A that by auto
    have up': "N2 b < N2 j" if "b < j" "j < e2" for j using B that by auto
    consider (eq) "N1 a = N2 b" | (gt) "N1 a > N2 b" | (lt) "N1 a < N2 b" by linarith
    then show ?thesis
    proof cases
      case eq
      define new where "new = (if D1 a + D2 b < cl_currDistance old
        then \<lparr>cl_highestLvlNode = N1 a, cl_currDistance = D1 a + D2 b, cl_idxA = a, cl_idxB = b\<rparr> else old)"
      obtain best where best: "HubLRouter_merge n1 d1 n2 d2 e1 e2 (a+1) (b+1) (N1 (a+1)) (N2 (b+1)) new = Some best"
        "common_best N1 D1 N2 D2 e1 e2 (a+1) (b+1) new best"
        using less.hyps[OF m(1) label_list_Suc[OF less.prems(1)] label_list_Suc[OF less.prems(2)], of new] True by auto
      have "HubLRouter_merge n1 d1 n2 d2 e1 e2 a b (N1 a) (N2 b) old = Some best"
        using best(1) by (subst HubLRouter_merge.simps) (simp add: True rdA rdB sum new_def Let_def eq[symmetric] split: if_splits)
      moreover have "common_best N1 D1 N2 D2 e1 e2 a b old best" unfolding common_best_def
      proof (intro conjI allI impI)
        show "cl_currDistance best \<le> cl_currDistance old" using best(2) by (auto simp: common_best_def new_def split: if_splits)
        fix i j assume ij: "a \<le> i \<and> i < e1 \<and> b \<le> j \<and> j < e2 \<and> N1 i = N2 j"
        have "i = a \<longleftrightarrow> j = b" using ij up[of i] up'[of j] eq by (metis less_irrefl order_le_less)
        then show "cl_currDistance best \<le> D1 i + D2 j"
          using best(2) ij by (cases "i = a") (auto simp: common_best_def new_def split: if_splits)
      next
        consider "best = new" | i j where "a + 1 \<le> i" "i < e1" "b + 1 \<le> j" "j < e2" "N1 i = N2 j"
            "best = \<lparr>cl_highestLvlNode = N1 i, cl_currDistance = D1 i + D2 j, cl_idxA = i, cl_idxB = j\<rparr>"
          using best(2) unfolding common_best_def by blast
        then show "best = old \<or> (\<exists>i j. a \<le> i \<and> i < e1 \<and> b \<le> j \<and> j < e2 \<and> N1 i = N2 j \<and>
          best = \<lparr>cl_highestLvlNode = N1 i, cl_currDistance = D1 i + D2 j, cl_idxA = i, cl_idxB = j\<rparr>)"
        proof cases
          case 1
          then show ?thesis using True eq by (auto simp: new_def)
        next
          case (2 i j)
          then show ?thesis by (intro disjI2 exI[of _ i] exI[of _ j]) simp
        qed
      qed
      ultimately show ?thesis by blast
    next
      case gt
      obtain best where best: "HubLRouter_merge n1 d1 n2 d2 e1 e2 a (b+1) (N1 a) (N2 (b+1)) old = Some best"
        "common_best N1 D1 N2 D2 e1 e2 a (b+1) old best"
        using less.hyps[OF m(2) less.prems(1) label_list_Suc[OF less.prems(2)], of old] True by auto
      have "HubLRouter_merge n1 d1 n2 d2 e1 e2 a b (N1 a) (N2 b) old = Some best"
        using best(1) gt by (subst HubLRouter_merge.simps) (simp add: True rdB)
      moreover have "N1 i \<noteq> N2 b" if "a \<le> i" "i < e1" for i using up[of i] that gt by (cases "i = a") auto
      then have "common_best N1 D1 N2 D2 e1 e2 a b old best" using best(2) common_best_skipB[of a e1 N1 N2 b] by blast
      ultimately show ?thesis by blast
    next
      case lt
      obtain best where best: "HubLRouter_merge n1 d1 n2 d2 e1 e2 (a+1) b (N1 (a+1)) (N2 b) old = Some best"
        "common_best N1 D1 N2 D2 e1 e2 (a+1) b old best"
        using less.hyps[OF m(3) label_list_Suc[OF less.prems(1)] less.prems(2), of old] True by auto
      have "HubLRouter_merge n1 d1 n2 d2 e1 e2 a b (N1 a) (N2 b) old = Some best"
        using best(1) lt by (subst HubLRouter_merge.simps) (simp add: True rdA)
      moreover have "N2 j \<noteq> N1 a" if "b \<le> j" "j < e2" for j using up'[of j] that lt by (cases "j = b") auto
      then have "common_best N1 D1 N2 D2 e1 e2 a b old best" using best(2) common_best_skipA[of b e2 N2 N1 a] by blast
      ultimately show ?thesis by blast
    qed
  qed
qed

section \<open>The label store\<close>

text \<open>
  \<open>is_label hn v p\<close>: position \<open>p\<close> holds a label of node \<open>v\<close>. \<open>label_step\<close>: the label at
  \<open>p\<close> of \<open>v\<close> is \<open>v\<close> itself with distance 0, or its edge starts at \<open>v\<close> and leads to a node of
  a higher level that has a label for the same node, whose distance is smaller by the edge.
\<close>

definition label_positions :: "HubLNodes \<Rightarrow> nat \<Rightarrow> nat list" where
  "label_positions hn v = [nat (hn_labelOffset hn ! v)..<nat (hn_labelOffset hn ! Suc v)]"

definition label_step :: "int list \<Rightarrow> HubLNodes \<Rightarrow> HubLEdges \<Rightarrow> nat \<Rightarrow> nat \<Rightarrow> bool" where
  "label_step src hn he v p \<longleftrightarrow> (let h = hn_labelNode hn ! p; e = hn_labelEdge hn ! p; d = hn_labelDist hn ! p in
     0 \<le> h \<and> 0 \<le> d \<and> d \<le> 1073741823 \<and>
     (if h = int v then d = 0
      else 0 \<le> e \<and> e < int (length (he_dest he)) \<and> src ! nat e = int v \<and>
        hn_levels hn ! v < hn_levels hn ! nat (he_dest he ! nat e) \<and>
        list_ex (\<lambda>q. hn_labelNode hn ! q = h \<and> hn_labelDist hn ! q + he_dist he ! nat e = d)
          (label_positions hn (nat (he_dest he ! nat e)))))"

definition HubLNodes_wf :: "int list \<Rightarrow> HubLNodes \<Rightarrow> HubLEdges \<Rightarrow> bool" where
  "HubLNodes_wf src hn he \<longleftrightarrow> (let n = length (hn_levels hn) in
     length (hn_labelOffset hn) = n + 1 \<and> hn_labelOffset hn ! 0 = 0 \<and>
     list_all (\<lambda>v. hn_labelOffset hn ! v \<le> hn_labelOffset hn ! Suc v) [0..<n] \<and>
     hn_labelOffset hn ! n < int (length (hn_labelNode hn)) \<and>
     length (hn_labelEdge hn) = length (hn_labelNode hn) \<and> length (hn_labelDist hn) = length (hn_labelNode hn) \<and>
     list_all (\<lambda>v. sorted_wrt (<) (map (\<lambda>p. hn_labelNode hn ! p) (label_positions hn v)) \<and>
       list_all (label_step src hn he v) (label_positions hn v)) [0..<n])"

definition label_of :: "HubLNodes \<Rightarrow> int \<Rightarrow> int \<Rightarrow> int \<Rightarrow> bool" where
  "label_of hn v h d \<longleftrightarrow> (\<exists>p \<in> set (label_positions hn (nat v)). hn_labelNode hn ! p = h \<and> hn_labelDist hn ! p = d)"

definition label_cover :: "adjacency \<Rightarrow> HubLNodes \<Rightarrow> bool" where
  "label_cover adj hn \<longleftrightarrow> (\<forall>s t p c. 0 \<le> s \<and> s < int (length (hn_levels hn)) \<and> hn_levels hn ! nat s \<ge> hn_hlLevel hn \<and>
     0 \<le> t \<and> t < int (length (hn_levels hn)) \<and> hn_levels hn ! nat t \<ge> hn_hlLevel hn \<and>
     walk adj s p c \<and> last p = t \<longrightarrow> (\<exists>h a b. label_of hn s h a \<and> label_of hn t h b \<and> a + b \<le> c))"

lemma HubLNodes_wf_offset_mono:
  assumes wf: "HubLNodes_wf src hn he" and "i \<le> j" "j \<le> length (hn_levels hn)"
  shows "hn_labelOffset hn ! i \<le> hn_labelOffset hn ! j"
  using assms(2,3)
proof (induction j)
  case (Suc j)
  then show ?case using wf by (cases "i = Suc j") (auto simp: HubLNodes_wf_def Let_def list_all_iff intro: order_trans)
qed simp

lemma HubLNodes_wf_offset:
  assumes wf: "HubLNodes_wf src hn he" and v: "v < length (hn_levels hn)"
  shows "HubLNodes_getLabelOffset hn (int v) = Some (hn_labelOffset hn ! v)"
    "HubLNodes_getLabelOffset hn (int v + 1) = Some (hn_labelOffset hn ! Suc v)"
    "0 \<le> hn_labelOffset hn ! v" "hn_labelOffset hn ! v \<le> hn_labelOffset hn ! Suc v"
    "hn_labelOffset hn ! Suc v < int (length (hn_labelNode hn))"
proof -
  have len: "length (hn_labelOffset hn) = length (hn_levels hn) + 1" "hn_labelOffset hn ! 0 = 0"
    "hn_labelOffset hn ! length (hn_levels hn) < int (length (hn_labelNode hn))"
    using wf by (simp_all add: HubLNodes_wf_def Let_def)
  show "HubLNodes_getLabelOffset hn (int v) = Some (hn_labelOffset hn ! v)"
    "HubLNodes_getLabelOffset hn (int v + 1) = Some (hn_labelOffset hn ! Suc v)"
    using len v by (simp_all add: HubLNodes_getLabelOffset_def java nat_add_distrib)
  show "0 \<le> hn_labelOffset hn ! v" "hn_labelOffset hn ! v \<le> hn_labelOffset hn ! Suc v"
    "hn_labelOffset hn ! Suc v < int (length (hn_labelNode hn))"
    using HubLNodes_wf_offset_mono[OF wf, of 0 v] HubLNodes_wf_offset_mono[OF wf, of v "Suc v"]
      HubLNodes_wf_offset_mono[OF wf, of "Suc v" "length (hn_levels hn)"] len v by auto
qed

lemma label_positions_iff:
  assumes "HubLNodes_wf src hn he" "v < length (hn_levels hn)"
  shows "p \<in> set (label_positions hn v) \<longleftrightarrow> hn_labelOffset hn ! v \<le> int p \<and> int p < hn_labelOffset hn ! Suc v"
  using HubLNodes_wf_offset(3,4)[OF assms] by (auto simp: label_positions_def nat_le_iff zless_nat_eq_int_zless)

lemma HubLNodes_wf_label:
  assumes wf: "HubLNodes_wf src hn he" and v: "v < length (hn_levels hn)" and p: "p \<in> set (label_positions hn v)"
  shows "p < length (hn_labelNode hn)" "label_step src hn he v p"
    "HubLNodes_getLabelNode hn (int p) = Some (hn_labelNode hn ! p)"
    "HubLNodes_getLabelEdge hn (int p) = Some (hn_labelEdge hn ! p)"
    "HubLNodes_getLabelDist hn (int p) = Some (hn_labelDist hn ! p)"
proof -
  show p': "p < length (hn_labelNode hn)" using p HubLNodes_wf_offset(5)[OF wf v] label_positions_iff[OF wf v] by auto
  have len: "length (hn_labelEdge hn) = length (hn_labelNode hn)" "length (hn_labelDist hn) = length (hn_labelNode hn)"
    using wf by (simp_all add: HubLNodes_wf_def Let_def)
  show "label_step src hn he v p" using wf v p by (simp add: HubLNodes_wf_def Let_def list_all_iff)
  show "HubLNodes_getLabelNode hn (int p) = Some (hn_labelNode hn ! p)"
    "HubLNodes_getLabelEdge hn (int p) = Some (hn_labelEdge hn ! p)"
    "HubLNodes_getLabelDist hn (int p) = Some (hn_labelDist hn ! p)"
    using p' len by (simp_all add: HubLNodes_getLabelNode_def HubLNodes_getLabelEdge_def HubLNodes_getLabelDist_def java)
qed

lemma HubLNodes_wf_increasing:
  assumes wf: "HubLNodes_wf src hn he" and v: "v < length (hn_levels hn)"
    and pq: "p \<in> set (label_positions hn v)" "q \<in> set (label_positions hn v)" "p < q"
  shows "hn_labelNode hn ! p < hn_labelNode hn ! q"
proof -
  let ?f = "\<lambda>p. hn_labelNode hn ! p"
  let ?a = "nat (hn_labelOffset hn ! v)" let ?b = "nat (hn_labelOffset hn ! Suc v)"
  have "sorted_wrt (<) (map ?f [?a..<?b])" using wf v by (simp add: HubLNodes_wf_def Let_def list_all_iff label_positions_def)
  moreover have b: "?a \<le> p" "p < q" "q < ?b" using pq by (auto simp: label_positions_def)
  then have "p - ?a < q - ?a" "q - ?a < length (map ?f [?a..<?b])" by simp_all
  ultimately have "map ?f [?a..<?b] ! (p - ?a) < map ?f [?a..<?b] ! (q - ?a)" by (rule sorted_wrt_nth_less)
  then show ?thesis using b by simp
qed

text \<open>The binary search of \<open>getEdges\<close> finds the label for a node.\<close>

lemma HubLNodes_search:
  assumes wf: "HubLNodes_wf src hn he" and v: "v < length (hn_levels hn)" and p: "p \<in> set (label_positions hn v)"
  shows "binarySearchRange (hn_labelNode hn) (hn_labelOffset hn ! v) (hn_labelOffset hn ! Suc v) (hn_labelNode hn ! p) = Some (int p)"
proof -
  let ?a = "nat (hn_labelOffset hn ! v)" let ?b = "nat (hn_labelOffset hn ! Suc v)" let ?x = "hn_labelNode hn"
  have ab: "int ?a = hn_labelOffset hn ! v" "int ?b = hn_labelOffset hn ! Suc v" "?a \<le> ?b" "?b \<le> length ?x"
    using HubLNodes_wf_offset(3-5)[OF wf v] by auto
  have inc: "?x ! i < ?x ! j" if "?a \<le> i" "i < j" "j < ?b" for i j
    using HubLNodes_wf_increasing[OF wf v, of i j] that by (auto simp: label_positions_def)
  then have mono: "?x ! i \<le> ?x ! j" if "?a \<le> i" "i \<le> j" "j < ?b" for i j using that by (cases "i = j") (auto simp: less_imp_le)
  obtain r where r: "bsearch_loop ?x (?x ! p) (int ?a) (int ?b - 1) = Some r" "search_result ?x ?a ?b (?x ! p) r"
    using bsearch_loop_result[of ?a ?b ?x ?a ?b "?x ! p"] mono ab by auto
  have p': "?a \<le> p" "p < ?b" using p by (auto simp: label_positions_def)
  have "0 \<le> r"
  proof (rule ccontr)
    assume "\<not> 0 \<le> r"
    then have "(\<forall>i. ?a \<le> i \<and> i < nat (- r - 1) \<longrightarrow> ?x ! i < ?x ! p) \<and> (\<forall>i. nat (- r - 1) \<le> i \<and> i < ?b \<longrightarrow> ?x ! p < ?x ! i)"
      using r(2) by (simp add: search_result_def)
    then show False using p' by (metis less_irrefl not_le)
  qed
  then have "?a \<le> nat r" "nat r < ?b" "?x ! nat r = ?x ! p" using r(2) by (auto simp: search_result_def)
  then have "nat r = p" using inc[of "nat r" p] inc[of p "nat r"] p' by (metis less_irrefl linorder_less_linear)
  then have "r = int p" using \<open>0 \<le> r\<close> by auto
  then show ?thesis using r(1) ab(1,2) HubLNodes_wf_offset(3-5)[OF wf v] by (simp add: binarySearchRange_def)
qed

text \<open>\<open>getEdges\<close> ends and collects a trail from the node to the label node.\<close>

lemma HubLRouter_getEdges_ok:
  assumes we: "HubLEdges_wf src (int (length (hn_levels hn))) he" and wf: "HubLNodes_wf src hn he"
  shows "v < length (hn_levels hn) \<Longrightarrow> p \<in> set (label_positions hn v) \<Longrightarrow> hn_labelNode hn ! p = h \<Longrightarrow> st_inv k \<Longrightarrow>
    \<exists>k' L. HubLRouter_getEdges hn he (int v) h k = Some k' \<and> st_inv k' \<and> st_contents k' = st_contents k @ L \<and>
      trail src he (int v) L h \<and> trail_cost he L = hn_labelDist hn ! p"
proof (induction "nat (Max (set (hn_levels hn)) - hn_levels hn ! v)" arbitrary: v p k rule: less_induct)
  case less
  note step = HubLNodes_wf_label(2)[OF wf less.prems(1,2), unfolded label_step_def Let_def]
  show ?case
  proof (cases "int v = h")
    case True
    have "HubLRouter_getEdges hn he (int v) h k = Some k" using True by (subst HubLRouter_getEdges.simps) simp
    then show ?thesis using step less.prems True by (intro exI[of _ k] exI[of _ "[]"]) auto
  next
    case False
    let ?e = "hn_labelEdge hn ! p"
    define w where "w = nat (he_dest he ! nat ?e)"
    have e: "0 \<le> ?e" "?e < int (length (he_dest he))" "src ! nat ?e = int v" "hn_levels hn ! v < hn_levels hn ! w"
      using step False less.prems(3) by (auto simp: w_def)
    obtain q where q: "q \<in> set (label_positions hn w)" "hn_labelNode hn ! q = h"
      "hn_labelDist hn ! q + he_dist he ! nat ?e = hn_labelDist hn ! p"
      using step False less.prems(3) by (auto simp: w_def list_ex_iff)
    note ew = HubLEdges_wf_edge[OF we e(1,2)]
    have w: "he_dest he ! nat ?e = int w" "w < length (hn_levels hn)" using ew(3,4) by (auto simp: w_def)
    have "hn_levels hn ! w \<le> Max (set (hn_levels hn))" using w(2) by (intro Max_ge) auto
    then have dec: "nat (Max (set (hn_levels hn)) - hn_levels hn ! w) < nat (Max (set (hn_levels hn)) - hn_levels hn ! v)"
      using e(4) by linarith
    obtain k1 where k1: "IntStack_push k ?e = Some k1" "st_inv k1" "st_contents k1 = st_contents k @ [?e]"
      using intStack.push_ok[OF less.prems(4)] by blast
    obtain k' L where k': "HubLRouter_getEdges hn he (int w) h k1 = Some k'" "st_inv k'" "st_contents k' = st_contents k1 @ L"
      "trail src he (int w) L h" "trail_cost he L = hn_labelDist hn ! q"
      using less.hyps[OF dec w(2) q(1,2) k1(2)] by blast
    have "HubLRouter_getEdges hn he (int v) h k = HubLRouter_getEdges hn he (int w) h k1"
      using HubLNodes_search[OF wf less.prems(1,2)] less.prems(3) False
      by (subst HubLRouter_getEdges.simps)
        (simp add: HubLNodes_wf_offset(1,2)[OF wf less.prems(1)] HubLNodes_wf_label(4)[OF wf less.prems(1,2)] ew(6) k1(1) w(1))
    moreover have "trail src he (int v) (?e # L) h" using e k'(4) w(1) by simp
    ultimately show ?thesis using k' k1(3) q(3) by (intro exI[of _ k'] exI[of _ "?e # L"]) auto
  qed
qed

lemma HubLRouter_labelEdges_ok:
  assumes we: "HubLEdges_wf src (int (length (hn_levels hn))) he" and wf: "HubLNodes_wf src hn he"
    and v: "v < length (hn_levels hn)" and p: "p \<in> set (label_positions hn v)" and k: "st_inv k" "st_contents k = []"
  shows "\<exists>k' L. HubLRouter_labelEdges hn he (int v) (hn_labelNode hn ! p) (int p) k = Some k' \<and> st_inv k' \<and>
    st_contents k' = L \<and> trail src he (int v) L (hn_labelNode hn ! p) \<and> trail_cost he L = hn_labelDist hn ! p"
proof -
  let ?h = "hn_labelNode hn ! p"
  obtain k' L where g: "HubLRouter_getEdges hn he (int v) ?h k = Some k'" "st_inv k'" "st_contents k' = L"
      "trail src he (int v) L ?h" "trail_cost he L = hn_labelDist hn ! p"
    using HubLRouter_getEdges_ok[OF we wf v p refl k(1)] k(2) by auto
  have "HubLRouter_labelEdges hn he (int v) ?h (int p) k = HubLRouter_getEdges hn he (int v) ?h k"
  proof (cases "int v = ?h")
    case True
    then show ?thesis by (subst HubLRouter_getEdges.simps) (simp add: HubLRouter_labelEdges_def)
  next
    case False
    have "\<exists>d. HubLEdges_getDest he (hn_labelEdge hn ! p) = Some d"
      using False HubLNodes_wf_label(2)[OF wf v p] by (auto simp: label_step_def Let_def HubLEdges_getDest_def java)
    then show ?thesis using False HubLNodes_search[OF wf v p]
      by (subst HubLRouter_getEdges.simps)
        (auto simp: HubLRouter_labelEdges_def HubLNodes_wf_offset(1,2)[OF wf v] HubLNodes_wf_label(4)[OF wf v p])
  qed
  with g show ?thesis by auto
qed

section \<open>A request between nodes with labels\<close>

definition HubLNodes_located :: "HubLNodes \<Rightarrow> bool" where
  "HubLNodes_located hn \<longleftrightarrow> (case (hn_latitudes hn, hn_longitudes hn) of
     (Some la, Some lo) \<Rightarrow> length la = length (hn_levels hn) \<and> length lo = length (hn_levels hn)
   | _ \<Rightarrow> False)"

definition HubLNodes_coord :: "HubLNodes \<Rightarrow> int \<Rightarrow> real list" where
  "HubLNodes_coord hn x = [the (hn_latitudes hn) ! nat x, the (hn_longitudes hn) ! nat x]"

lemma HubLNodes_coord_ok:
  assumes "HubLNodes_located hn" "0 \<le> x" "x < int (length (hn_levels hn))"
  shows "RoutingResult_coord True nd hn x = Some (HubLNodes_coord hn x)"
  using assms
  by (auto simp: HubLNodes_located_def RoutingResult_coord_def HubLNodes_getLat_def HubLNodes_getLong_def HubLNodes_coord_def
    java split: option.splits)

text \<open>The stacks after \<open>reset\<close> are empty.\<close>

definition HubLRouter_clean :: "HubLRouter \<Rightarrow> bool" where
  "HubLRouter_clean r \<longleftrightarrow> HubLRouter_ready r \<and> st_contents (hr_resultNodes r) = [] \<and> st_contents (hr_edgesRight r) = [] \<and>
     st_contents (hr_edgesLeft r) = [] \<and> st_contents (hr_edgeCalcStack r) = []"

lemma HubLRouter_reset_clean: "HubLRouter_ready r \<Longrightarrow> HubLRouter_clean (HubLRouter_reset r)"
  by (simp add: HubLRouter_ready_def HubLRouter_clean_def HubLRouter_reset_def IntStack_clear_ok)

lemma adj_inside:
  assumes "HubLEdges_wf src n he" "(v, w) \<in> set (HubLEdges_adj src he u)"
  shows "0 \<le> v" "v < n" "0 \<le> w"
proof -
  obtain e where e: "v = he_dest he ! e" "w = he_dist he ! e" "e < nat (he_firstShortcutIdx he)"
    using assms(2) by (auto simp: HubLEdges_adj_def)
  then have "int e < int (length (he_dest he))" using assms(1) by (auto simp: HubLEdges_wf_def)
  then show "0 \<le> v" "v < n" "0 \<le> w" using HubLEdges_wf_edge[OF assms(1), of "int e"] e by auto
qed

lemma label_walk_nodes:
  assumes "HubLEdges_wf src n he" "walk (HubLEdges_adj src he) s p c" "0 \<le> s" "s < n"
  shows "x \<in> set p \<Longrightarrow> 0 \<le> x \<and> x < n"
  using assms(2)
proof (induction arbitrary: x rule: walk.induct)
  case (walk_step p c v w)
  then show ?case using adj_inside[OF assms(1) walk_step(2)] by auto
qed (use assms in auto)

lemma HubLRouter_finish_ok:
  assumes we: "HubLEdges_wf src (int (length (hn_levels hn))) he"
    and sym: "\<And>u v w. (v, w) \<in> set (HubLEdges_adj src he u) \<Longrightarrow> (u, w) \<in> set (HubLEdges_adj src he v)"
    and loc: "HubLNodes_located hn" and s: "0 \<le> s" "s < int (length (hn_levels hn))"
    and tr: "trail src he s L h" "trail src he t R h"
    and r: "HubLRouter_clean r" and k: "st_inv l" "st_contents l = L" "st_inv k" "st_contents k = R"
  shows "\<exists>res r' p. HubLRouter_finish True nd hn he (r\<lparr>hr_edgesRight := k, hr_edgesLeft := l\<rparr>) s t d = Some (res, r') \<and>
    HubLRouter_ready r' \<and> rr_routeFound res \<and> rr_path res = Some p \<and> rr_overallDistance res = d \<and>
    rr_pathCoordinates res = Some (map (HubLNodes_coord hn) p) \<and>
    walk (HubLEdges_adj src he) s p (trail_cost he L + trail_cost he R) \<and> last p = t"
proof -
  let ?r = "r\<lparr>hr_edgesRight := k, hr_edgesLeft := l\<rparr>"
  have c: "st_inv (hr_resultNodes ?r)" "st_contents (hr_resultNodes ?r) = []" "st_inv (hr_edgeCalcStack ?r)"
    "st_contents (hr_edgeCalcStack ?r) = []" "st_inv (hr_edgesLeft ?r)" "st_contents (hr_edgesLeft ?r) = L"
    "st_inv (hr_edgesRight ?r)" "st_contents (hr_edgesRight ?r) = R"
    using r k by (auto simp: HubLRouter_clean_def HubLRouter_ready_def)
  obtain r1 p where r1: "HubLRouter_calculateRoute he ?r s t = Some r1" "HubLRouter_ready r1" "st_contents (hr_resultNodes r1) = p"
    "walk (HubLEdges_adj src he) s p (trail_cost he L + trail_cost he R)" "last p = t"
    using HubLRouter_calculateRoute_walk[OF we sym tr c] by blast
  obtain n1 where n1: "HubLRouter_drain (hr_resultNodes r1) [] = Some (p, n1)" "st_inv n1"
    using HubLRouter_drain_ok[of "hr_resultNodes r1" p "[]"] r1(2,3) by (auto simp: HubLRouter_ready_def)
  have "RoutingResult_setPath True nd hn RoutingResult_default p =
      Some (RoutingResult_default\<lparr>rr_path := Some p, rr_pathCoordinates := Some (map (HubLNodes_coord hn) p)\<rparr>)"
    using label_walk_nodes[OF we r1(4) s] HubLNodes_coord_ok[OF loc] by (intro RoutingResult_setPath_ok) auto
  with r1 n1 show ?thesis
    by (auto simp: HubLRouter_finish_def RoutingResult_ofPathFound_def HubLRouter_ready_def)
qed

lemma HubLNodes_label_list:
  assumes wf: "HubLNodes_wf src hn he" and v: "v < length (hn_levels hn)"
  shows "label_list (HubLNodes_getLabelNode hn) (HubLNodes_getLabelDist hn) (\<lambda>i. hn_labelNode hn ! nat i)
    (\<lambda>i. hn_labelDist hn ! nat i) (hn_labelOffset hn ! v) (hn_labelOffset hn ! Suc v)"
proof -
  note o = HubLNodes_wf_offset(3-5)[OF wf v]
  have pos: "nat i \<in> set (label_positions hn v)" "int (nat i) = i"
    if "hn_labelOffset hn ! v \<le> i" "i < hn_labelOffset hn ! Suc v" for i
    using that o by (auto simp: label_positions_iff[OF wf v])
  have 1: "HubLNodes_getLabelNode hn i = Some (hn_labelNode hn ! nat i)"
    if "hn_labelOffset hn ! v \<le> i" "i \<le> hn_labelOffset hn ! Suc v" for i
    using that o by (simp add: HubLNodes_getLabelNode_def java)
  have 2: "HubLNodes_getLabelDist hn i = Some (hn_labelDist hn ! nat i) \<and> 0 \<le> hn_labelDist hn ! nat i \<and>
      hn_labelDist hn ! nat i \<le> 1073741823"
    if "hn_labelOffset hn ! v \<le> i" "i < hn_labelOffset hn ! Suc v" for i
    using HubLNodes_wf_label(2,5)[OF wf v pos(1)[OF that]] pos(2)[OF that] by (auto simp: label_step_def Let_def)
  have 3: "hn_labelNode hn ! nat i < hn_labelNode hn ! nat j"
    if "hn_labelOffset hn ! v \<le> i" "i < j" "j < hn_labelOffset hn ! Suc v" for i j
    using HubLNodes_wf_increasing[OF wf v pos(1) pos(1), of i j] that o by auto
  show ?thesis unfolding label_list_def using 1 2 3 by blast
qed

lemma label_of_iff:
  assumes "HubLNodes_wf src hn he" "v < length (hn_levels hn)"
  shows "label_of hn (int v) h d \<longleftrightarrow> (\<exists>i. hn_labelOffset hn ! v \<le> i \<and> i < hn_labelOffset hn ! Suc v \<and>
    hn_labelNode hn ! nat i = h \<and> hn_labelDist hn ! nat i = d)"
proof
  assume "label_of hn (int v) h d"
  then obtain p where "p \<in> set (label_positions hn v)" "hn_labelNode hn ! p = h" "hn_labelDist hn ! p = d"
    by (auto simp: label_of_def)
  then show "\<exists>i. hn_labelOffset hn ! v \<le> i \<and> i < hn_labelOffset hn ! Suc v \<and> hn_labelNode hn ! nat i = h \<and> hn_labelDist hn ! nat i = d"
    by (intro exI[of _ "int p"]) (simp add: label_positions_iff[OF assms])
next
  assume "\<exists>i. hn_labelOffset hn ! v \<le> i \<and> i < hn_labelOffset hn ! Suc v \<and> hn_labelNode hn ! nat i = h \<and> hn_labelDist hn ! nat i = d"
  then obtain i where i: "hn_labelOffset hn ! v \<le> i" "i < hn_labelOffset hn ! Suc v" "hn_labelNode hn ! nat i = h"
    "hn_labelDist hn ! nat i = d" by blast
  then have "nat i \<in> set (label_positions hn v)" using HubLNodes_wf_offset(3)[OF assms] by (simp add: label_positions_iff[OF assms])
  then show "label_of hn (int v) h d" using i by (auto simp: label_of_def)
qed

text \<open>
  What \<open>route2Lbl\<close> returns, independently of the cover property: a walk over the common label
  with the smallest sum of distances, or no route when there is no common label.
\<close>

lemma HubLRouter_route2Lbl_ok:
  assumes we: "HubLEdges_wf src (int (length (hn_levels hn))) he" and wf: "HubLNodes_wf src hn he"
    and sym: "\<And>u v w. (v, w) \<in> set (HubLEdges_adj src he u) \<Longrightarrow> (u, w) \<in> set (HubLEdges_adj src he v)"
    and loc: "HubLNodes_located hn" and s: "s < length (hn_levels hn)" and t: "t < length (hn_levels hn)"
    and r: "HubLRouter_clean r"
  shows "\<exists>res r'. HubLRouter_route2Lbl True nd hn he r (int s) (int t) = Some (res, r') \<and> HubLRouter_ready r' \<and>
    (if rr_routeFound res then \<exists>p. rr_path res = Some p \<and> rr_pathCoordinates res = Some (map (HubLNodes_coord hn) p) \<and>
        walk (HubLEdges_adj src he) (int s) p (rr_overallDistance res) \<and> last p = int t \<and>
        (\<forall>h a b. label_of hn (int s) h a \<and> label_of hn (int t) h b \<longrightarrow> rr_overallDistance res \<le> a + b)
     else rr_path res = None \<and> (\<forall>h a b. label_of hn (int s) h a \<longrightarrow> \<not> label_of hn (int t) h b))"
proof -
  let ?N = "\<lambda>i. hn_labelNode hn ! nat i" let ?D = "\<lambda>i. hn_labelDist hn ! nat i" let ?o = "\<lambda>v. hn_labelOffset hn ! v"
  note os = HubLNodes_wf_offset[OF wf s] and ot = HubLNodes_wf_offset[OF wf t]
  have rdy: "HubLRouter_ready r" using r by (simp add: HubLRouter_clean_def)
  have none: "rr_routeFound RoutingResult_empty = False" "rr_path RoutingResult_empty = None"
    by (simp_all add: RoutingResult_empty_def RoutingResult_default_def)
  show ?thesis
  proof (cases "?o s = ?o (Suc s) \<or> ?o t = ?o (Suc t)")
    case True
    then have "HubLRouter_route2Lbl True nd hn he r (int s) (int t) = Some (RoutingResult_empty, r)"
      by (simp add: HubLRouter_route2Lbl_def os(1,2) ot(1,2))
    moreover have "\<forall>h a b. label_of hn (int s) h a \<longrightarrow> \<not> label_of hn (int t) h b"
      using True by (auto simp: label_of_iff[OF wf s] label_of_iff[OF wf t])
    ultimately show ?thesis using rdy none by auto
  next
    case False
    obtain best where best: "HubLRouter_merge (HubLNodes_getLabelNode hn) (HubLNodes_getLabelDist hn)
        (HubLNodes_getLabelNode hn) (HubLNodes_getLabelDist hn) (?o (Suc s)) (?o (Suc t)) (?o s) (?o t)
        (?N (?o s)) (?N (?o t)) CommonLabel_none = Some best"
      "common_best ?N ?D ?N ?D (?o (Suc s)) (?o (Suc t)) (?o s) (?o t) CommonLabel_none best"
      using HubLRouter_merge_ok[OF HubLNodes_label_list[OF wf s] HubLNodes_label_list[OF wf t] os(4) ot(4)] by blast
    have rd: "HubLNodes_getLabelNode hn (?o s) = Some (?N (?o s))" "HubLNodes_getLabelNode hn (?o t) = Some (?N (?o t))"
      using os(3-5) ot(3-5) by (simp_all add: HubLNodes_getLabelNode_def java)
    have minim: "cl_currDistance best \<le> a + b" if ab: "label_of hn (int s) h a" "label_of hn (int t) h b" for h a b
    proof -
      obtain i where i: "?o s \<le> i" "i < ?o (Suc s)" "?N i = h" "?D i = a" using ab(1) label_of_iff[OF wf s] by blast
      obtain j where j: "?o t \<le> j" "j < ?o (Suc t)" "?N j = h" "?D j = b" using ab(2) label_of_iff[OF wf t] by blast
      show ?thesis using best(2) i j unfolding common_best_def by metis
    qed
    note run = HubLRouter_route2Lbl_def os(1,2) ot(1,2) False rd best(1)
    consider (no) "best = CommonLabel_none" | (yes) i j where "?o s \<le> i" "i < ?o (Suc s)" "?o t \<le> j" "j < ?o (Suc t)" "?N i = ?N j"
      "best = \<lparr>cl_highestLvlNode = ?N i, cl_currDistance = ?D i + ?D j, cl_idxA = i, cl_idxB = j\<rparr>"
      using best(2) unfolding common_best_def by blast
    then show ?thesis
    proof cases
      case no
      have "\<not> label_of hn (int t) h b" if a: "label_of hn (int s) h a" for h a b
      proof
        assume b: "label_of hn (int t) h b"
        have "a \<le> 1073741823" "b \<le> 1073741823"
          using a b HubLNodes_wf_label(2)[OF wf s] HubLNodes_wf_label(2)[OF wf t] by (auto simp: label_of_def label_step_def Let_def)
        then show False using minim[OF a b] no by (simp add: CommonLabel_none_def MAX_VALUE_def)
      qed
      moreover have "HubLRouter_route2Lbl True nd hn he r (int s) (int t) = Some (RoutingResult_empty, r)"
        using False by (simp add: run no) (simp add: CommonLabel_none_def)
      ultimately show ?thesis using rdy none by auto
    next
      case (yes i j)
      have pi: "nat i \<in> set (label_positions hn s)" "int (nat i) = i" and pj: "nat j \<in> set (label_positions hn t)" "int (nat j) = j"
        using yes os(3) ot(3) by (auto simp: label_positions_iff[OF wf s] label_positions_iff[OF wf t])
      have hi: "?N i \<noteq> -1" using HubLNodes_wf_label(2)[OF wf s pi(1)] by (auto simp: label_step_def Let_def)
      have st: "st_inv (hr_edgesRight r)" "st_contents (hr_edgesRight r) = []" "st_inv (hr_edgesLeft r)" "st_contents (hr_edgesLeft r) = []"
        using r by (auto simp: HubLRouter_clean_def HubLRouter_ready_def)
      obtain k R where k: "HubLRouter_labelEdges hn he (int t) (?N j) j (hr_edgesRight r) = Some k" "st_inv k" "st_contents k = R"
        "trail src he (int t) R (?N j)" "trail_cost he R = ?D j"
        using HubLRouter_labelEdges_ok[OF we wf t pj(1) st(1,2)] pj(2) by auto
      obtain l L where l: "HubLRouter_labelEdges hn he (int s) (?N i) i (hr_edgesLeft r) = Some l" "st_inv l" "st_contents l = L"
        "trail src he (int s) L (?N i)" "trail_cost he L = ?D i"
        using HubLRouter_labelEdges_ok[OF we wf s pi(1) st(3,4)] pi(2) by auto
      have s': "0 \<le> int s" "int s < int (length (hn_levels hn))" using s by auto
      obtain res r' p where f: "HubLRouter_finish True nd hn he (r\<lparr>hr_edgesRight := k, hr_edgesLeft := l\<rparr>) (int s) (int t) (?D i + ?D j) = Some (res, r')"
        "HubLRouter_ready r'" "rr_routeFound res" "rr_path res = Some p" "rr_overallDistance res = ?D i + ?D j"
        "rr_pathCoordinates res = Some (map (HubLNodes_coord hn) p)"
        "walk (HubLEdges_adj src he) (int s) p (trail_cost he L + trail_cost he R)" "last p = int t"
        using HubLRouter_finish_ok[OF we sym loc s' l(4)[unfolded yes(5)] k(4) r l(2,3) k(2,3), of nd "?D i + ?D j"] by auto
      have "HubLRouter_route2Lbl True nd hn he r (int s) (int t) = Some (res, r')"
        using False hi k(1) l(1) f(1) yes(5) by (simp add: run yes(6))
      then show ?thesis using f l(5) k(5) minim yes(6) by auto
    qed
  qed
qed

text \<open>A lower bound for walks: a node potential that no edge increases by more than its length.\<close>

lemma walk_potential:
  assumes "walk adj s p c" "f s \<le> 0" "\<And>u v w. (v, w) \<in> set (adj u) \<Longrightarrow> f v \<le> f u + w"
  shows "f (last p) \<le> (c :: int)"
  using assms(1)
proof (induction rule: walk.induct)
  case (walk_step p c v w)
  then show ?case using assms(3)[OF walk_step(2)] by simp
qed (use assms(2) in simp)

text \<open>The whole request, with the cover property.\<close>

lemma label_route_ok:
  assumes "HubLEdges_wf src (int (length (hn_levels hn))) he" and "HubLNodes_wf src hn he"
    and "\<And>u v w. (v, w) \<in> set (HubLEdges_adj src he u) \<Longrightarrow> (u, w) \<in> set (HubLEdges_adj src he v)"
    and "HubLNodes_located hn" and "label_cover (HubLEdges_adj src he) hn"
    and "0 \<le> s" "HubLNodes_nodeHasLabels hn s = Some True" and "0 \<le> t" "HubLNodes_nodeHasLabels hn t = Some True"
    and "HubLRouter_ready r"
  shows "\<exists>res r'. HubLRouter_route True nd hn he t0 t1 r s t = Some (res, r') \<and> HubLRouter_ready r' \<and>
    (rr_routeFound res \<longleftrightarrow> reachable (HubLEdges_adj src he) s t) \<and>
    (if rr_routeFound res then \<exists>p. rr_path res = Some p \<and>
        shortest_walk (HubLEdges_adj src he) s t p (RoutingResult_getOverallDistance res) \<and>
        rr_pathCoordinates res = Some (map (HubLNodes_coord hn) p)
     else rr_path res = None \<and> RoutingResult_getOverallDistance res = -1)"
proof -
  let ?adj = "HubLEdges_adj src he"
  have lv: "s < int (length (hn_levels hn))" "hn_levels hn ! nat s \<ge> hn_hlLevel hn"
    "t < int (length (hn_levels hn))" "hn_levels hn ! nat t \<ge> hn_hlLevel hn"
    using assms(7,9) by (auto simp: HubLNodes_nodeHasLabels_def aget_def split: if_splits)
  have cov: "\<exists>h a b. label_of hn s h a \<and> label_of hn t h b \<and> a + b \<le> c" if "walk ?adj s p c" "last p = t" for p c
    using assms(5)[unfolded label_cover_def] assms(6,8) lv that by blast
  have st: "int (nat s) = s" "int (nat t) = t" "nat s < length (hn_levels hn)" "nat t < length (hn_levels hn)"
    using assms(6,8) lv by auto
  obtain res r' where res: "HubLRouter_route2Lbl True nd hn he (HubLRouter_reset r) s t = Some (res, r')" "HubLRouter_ready r'"
    "if rr_routeFound res then \<exists>p. rr_path res = Some p \<and> rr_pathCoordinates res = Some (map (HubLNodes_coord hn) p) \<and>
        walk ?adj s p (rr_overallDistance res) \<and> last p = t \<and>
        (\<forall>h a b. label_of hn s h a \<and> label_of hn t h b \<longrightarrow> rr_overallDistance res \<le> a + b)
     else rr_path res = None \<and> (\<forall>h a b. label_of hn s h a \<longrightarrow> \<not> label_of hn t h b)"
    using HubLRouter_route2Lbl_ok[OF assms(1-4) st(3,4) HubLRouter_reset_clean[OF assms(10)], of nd] unfolding st by blast
  have run: "HubLRouter_route True nd hn he t0 t1 r s t =
      Some (res\<lparr>rr_calculationTimeInMs := real_of_int (t1 - t0) / 1000000\<rparr>, r')"
    using res(1) by (simp add: HubLRouter_route_def HubLRouter_routeGeneral_def assms(7,9) Let_def)
  show ?thesis
  proof (cases "rr_routeFound res")
    case True
    then obtain p where p: "rr_path res = Some p" "rr_pathCoordinates res = Some (map (HubLNodes_coord hn) p)"
      "walk ?adj s p (rr_overallDistance res)" "last p = t"
      "\<And>h a b. label_of hn s h a \<Longrightarrow> label_of hn t h b \<Longrightarrow> rr_overallDistance res \<le> a + b"
      using res(3) by auto
    have "shortest_walk ?adj s t p (rr_overallDistance res)" unfolding shortest_walk_def
      using p(3,4) cov p(5) by (meson order_trans)
    moreover have "reachable ?adj s t" unfolding reachable_def using p(3,4) by blast
    ultimately show ?thesis using run res(2) True p(1,2) by (simp add: RoutingResult_getOverallDistance_def)
  next
    case False
    then have "\<not> reachable ?adj s t" unfolding reachable_def using res(3) cov by (metis (full_types))
    then show ?thesis using run res(2,3) False by (simp add: RoutingResult_getOverallDistance_def)
  qed
qed

section \<open>Properties\<close>

text \<open>
  C9. On well-formed label data over a graph that has every edge in both directions, and whose
  labels have the cover property, a request between two nodes with labels always returns: it
  reports a route exactly when the destination can be reached, the path is a shortest walk over
  original edges (all shortcuts are unfolded), the distance is its length and the coordinates are
  those of its nodes; without a route there is no path and the distance is -1.
\<close>

theorem label_route_shortest:
  assumes "HubLEdges_wf src (int (length (hn_levels hn))) he" and "HubLNodes_wf src hn he"
    and "\<And>u v w. (v, w) \<in> set (HubLEdges_adj src he u) \<Longrightarrow> (u, w) \<in> set (HubLEdges_adj src he v)"
    and "HubLNodes_located hn" and "label_cover (HubLEdges_adj src he) hn"
    and "0 \<le> s" "HubLNodes_nodeHasLabels hn s = Some True" and "0 \<le> t" "HubLNodes_nodeHasLabels hn t = Some True"
    and "HubLRouter_ready r"
  shows "\<exists>res r'. HubLRouter_route True nd hn he t0 t1 r s t = Some (res, r') \<and> HubLRouter_ready r' \<and>
    (rr_routeFound res \<longleftrightarrow> reachable (HubLEdges_adj src he) s t) \<and>
    (if rr_routeFound res then \<exists>p. rr_path res = Some p \<and>
        shortest_walk (HubLEdges_adj src he) s t p (RoutingResult_getOverallDistance res) \<and>
        rr_pathCoordinates res = Some (map (HubLNodes_coord hn) p)
     else rr_path res = None \<and> RoutingResult_getOverallDistance res = -1)"
  by (rule label_route_ok[OF assms])

text \<open>
  The store of a path of three nodes: node 1 lies in the middle and is contracted first, which
  gives the shortcuts 4 (from 0 to 2) and 5 (from 2 to 0).
\<close>

definition ex_src :: "int list" where
  "ex_src = [0, 1, 1, 2, 0, 2]"

definition ex_hubEdges :: HubLEdges where
  "ex_hubEdges = \<lparr>he_dest = [1, 0, 2, 1, 2, 0], he_dist = [3, 3, 4, 4, 7, 7], he_firstShortcutIdx = 4,
     he_shortcutParts = [2, 0, 1, 3]\<rparr>"

definition ex_labels :: HubLNodes where
  "ex_labels = \<lparr>hn_hlLevel = 0, hn_levels = [1, 0, 2], hn_longitudes = Some [5, 6, 7], hn_latitudes = Some [1, 2, 3],
     hn_edgesOffset = [0, 0, 0, 0], hn_edges = [], hn_labelOffset = [0, 2, 5, 6],
     hn_labelNode = [0, 2, 0, 1, 2, 2, -1], hn_labelEdge = [-1, 4, 1, -1, 2, -1, -1], hn_labelDist = [0, 7, 3, 0, 4, 0, -1]\<rparr>"

lemma ex_labels_wf: "HubLEdges_wf ex_src (int (length (hn_levels ex_labels))) ex_hubEdges" "HubLNodes_wf ex_src ex_labels ex_hubEdges"
  "HubLNodes_located ex_labels"
  by code_simp+

lemma ex_labels_adj_iff:
  "(v, w) \<in> set (HubLEdges_adj ex_src ex_hubEdges u) \<longleftrightarrow>
     (u, v, w) \<in> {(0, 1, 3), (1, 0, 3), (1, 2, 4), (2, 1, 4)}"
  by (auto simp: HubLEdges_adj_def ex_src_def ex_hubEdges_def upt_rec split: if_splits)

lemma ex_labels_cover: "label_cover (HubLEdges_adj ex_src ex_hubEdges) ex_labels"
  unfolding label_cover_def
proof (intro allI impI, elim conjE)
  fix s t p c
  assume st: "0 \<le> s" "s < int (length (hn_levels ex_labels))" "0 \<le> t" "t < int (length (hn_levels ex_labels))"
    and w: "walk (HubLEdges_adj ex_src ex_hubEdges) s p c" "last p = t"
  have st': "s \<in> {0, 1, 2}" "t \<in> {0, 1, 2}" using st by (auto simp: ex_labels_def)
  define x :: "int \<Rightarrow> int" where "x = (\<lambda>v. if v = 0 then 0 else if v = 1 then 3 else 7)"
  have "x t - x s \<le> c"
    using walk_potential[OF w(1), of "\<lambda>v. x v - x s"] w(2) by (force simp: ex_labels_adj_iff x_def)
  moreover have "x s - x t \<le> c"
    using walk_potential[OF w(1), of "\<lambda>v. x s - x v"] w(2) by (force simp: ex_labels_adj_iff x_def)
  ultimately have b: "\<bar>x t - x s\<bar> \<le> c" by linarith
  have l: "label_of ex_labels 0 0 0" "label_of ex_labels 0 2 7" "label_of ex_labels 1 0 3" "label_of ex_labels 1 1 0"
    "label_of ex_labels 1 2 4" "label_of ex_labels 2 2 0"
    by (simp_all add: label_of_def label_positions_def ex_labels_def upt_rec)
  show "\<exists>h a b. label_of ex_labels s h a \<and> label_of ex_labels t h b \<and> a + b \<le> c"
    using st' b l by (auto simp: x_def) (metis add.right_neutral add.left_neutral)+
qed

theorem label_route_shortest_witness:
  "\<exists>r res r' p. HubLRouter_new = Some r \<and>
     HubLRouter_route True \<lparr>nd_latitude = [], nd_longitude = []\<rparr> ex_labels ex_hubEdges 0 5 r 0 2 = Some (res, r') \<and>
     rr_routeFound res \<and> rr_path res = Some p \<and>
     shortest_walk (HubLEdges_adj ex_src ex_hubEdges) 0 2 p (RoutingResult_getOverallDistance res)"
proof -
  obtain r where r: "HubLRouter_new = Some r" "HubLRouter_ready r" using HubLRouter_new_ready by blast
  have sym: "(u, w) \<in> set (HubLEdges_adj ex_src ex_hubEdges v)" if "(v, w) \<in> set (HubLEdges_adj ex_src ex_hubEdges u)" for u v w
    using that by (auto simp: ex_labels_adj_iff)
  have lab: "HubLNodes_nodeHasLabels ex_labels 0 = Some True" "HubLNodes_nodeHasLabels ex_labels 2 = Some True" by code_simp+
  have "walk (HubLEdges_adj ex_src ex_hubEdges) 0 ([0, 1] @ [2]) (3 + 4)"
    by (rule walk.walk_step[OF walk_edge]) (simp_all add: ex_labels_adj_iff)
  then have "reachable (HubLEdges_adj ex_src ex_hubEdges) 0 2" unfolding reachable_def by (intro exI conjI) auto
  with label_route_shortest[OF ex_labels_wf(1,2) sym ex_labels_wf(3) ex_labels_cover order_refl lab(1) _ lab(2) r(2),
      of "\<lparr>nd_latitude = [], nd_longitude = []\<rparr>" 0 5] r(1)
  show ?thesis by (auto split: if_splits)
qed

section \<open>Requests that use temporary labels\<close>

text \<open>
  Two stores on paths of three and four nodes. In the first only node 1 has labels; in the second
  the nodes 2 and 3 have labels and node 0 reaches them over node 1. \<open>ex_labelRouter\<close> is a router
  with small arrays.
\<close>

definition ex_stack :: IntStack where
  "ex_stack = \<lparr>st_elements = [0, 0, 0], st_nextIdx = 0, st_fifoIdx = 0, st_sizeIncrease = 3\<rparr>"

definition ex_distHeap :: DistanceHeap where
  "ex_distHeap = \<lparr>dq_SIZE_INCREASE = 3, dq_containedIds = replicate 3 MAX_VALUE, dq_distances = [0, 0, 0],
     dq_heapPosition = [0, 0, 0], dq_idHeapArray = [0, 0, 0], dq_currentSize = 0\<rparr>"

definition ex_set :: "bool \<Rightarrow> OrderedIntSet" where
  "ex_set b = \<lparr>os_orderedBySorting = b, os_elements = replicate 3 (if b then MAX_VALUE else 0), os_elementCount = 0, os_sizeIncrease = 3\<rparr>"

definition ex_labelRouter :: HubLRouter where
  "ex_labelRouter = \<lparr>hr_resultNodes = ex_stack, hr_edgesRight = ex_stack, hr_edgesLeft = ex_stack, hr_edgeCalcStack = ex_stack,
     hr_heap = ex_distHeap, hr_labelHeap = ex_distHeap, hr_labelLeft = ex_set True, hr_distLeft = ex_set False,
     hr_edgeLeft = ex_set False, hr_addInfoLeft = ex_set False, hr_labelRight = ex_set True, hr_distRight = ex_set False,
     hr_edgeRight = ex_set False, hr_addInfoRight = ex_set False\<rparr>"

definition ex_middleNodes :: HubLNodes where
  "ex_middleNodes = \<lparr>hn_hlLevel = 1, hn_levels = [0, 1, 0], hn_longitudes = Some [5, 6, 7], hn_latitudes = Some [1, 2, 3],
     hn_edgesOffset = [0, 1, 1, 2], hn_edges = [0, 3], hn_labelOffset = [0, 0, 1, 1],
     hn_labelNode = [1, -1], hn_labelEdge = [-1, -1], hn_labelDist = [0, -1]\<rparr>"

definition ex_middleEdges :: HubLEdges where
  "ex_middleEdges = \<lparr>he_dest = [1, 0, 2, 1], he_dist = [3, 3, 4, 4], he_firstShortcutIdx = 4, he_shortcutParts = []\<rparr>"

definition ex_chainNodes :: HubLNodes where
  "ex_chainNodes = \<lparr>hn_hlLevel = 2, hn_levels = [0, 1, 2, 3], hn_longitudes = Some [5, 6, 7, 8], hn_latitudes = Some [1, 2, 3, 4],
     hn_edgesOffset = [0, 1, 2, 2, 2], hn_edges = [0, 2], hn_labelOffset = [0, 0, 0, 2, 3],
     hn_labelNode = [2, 3, 3, -1], hn_labelEdge = [-1, 4, -1, -1], hn_labelDist = [0, 5, 0, -1]\<rparr>"

definition ex_chainEdges :: HubLEdges where
  "ex_chainEdges = \<lparr>he_dest = [1, 0, 2, 1, 3, 2], he_dist = [3, 3, 4, 4, 5, 5], he_firstShortcutIdx = 6, he_shortcutParts = []\<rparr>"

lemma ex_middle_adj_iff:
  "(v, w) \<in> set (HubLEdges_adj [0, 1, 1, 2] ex_middleEdges u) \<longleftrightarrow>
     (u, v, w) \<in> {(0, 1, 3), (1, 0, 3), (1, 2, 4), (2, 1, 4)}"
  by (auto simp: HubLEdges_adj_def ex_middleEdges_def upt_rec split: if_splits)

lemma ex_chain_adj_iff:
  "(v, w) \<in> set (HubLEdges_adj [0, 1, 1, 2, 2, 3] ex_chainEdges u) \<longleftrightarrow>
     (u, v, w) \<in> {(0, 1, 3), (1, 0, 3), (1, 2, 4), (2, 1, 4), (2, 3, 5), (3, 2, 5)}"
  by (auto simp: HubLEdges_adj_def ex_chainEdges_def upt_rec split: if_splits)

lemma ex_middle_shortest: "shortest_walk (HubLEdges_adj [0, 1, 1, 2] ex_middleEdges) 0 2 [0, 1, 2] 7"
  unfolding shortest_walk_def
proof (intro conjI allI impI)
  have "walk (HubLEdges_adj [0, 1, 1, 2] ex_middleEdges) 0 ([0, 1] @ [2]) (3 + 4)"
    by (rule walk.walk_step[OF walk_edge]) (simp_all add: ex_middle_adj_iff)
  then show "walk (HubLEdges_adj [0, 1, 1, 2] ex_middleEdges) 0 [0, 1, 2] 7" by simp
  define x :: "int \<Rightarrow> int" where "x = (\<lambda>v. if v = 0 then 0 else if v = 1 then 3 else 7)"
  fix p c assume p: "walk (HubLEdges_adj [0, 1, 1, 2] ex_middleEdges) 0 p c \<and> last p = 2"
  then have "x (last p) \<le> c" by (intro walk_potential[of _ 0 p c x]) (auto simp: ex_middle_adj_iff x_def)
  with p show "7 \<le> c" by (simp add: x_def)
qed simp


end
