(* ===== verification/LabelFormat.thy ===== *)
theory LabelFormat
  imports LabelCreator LabelRouting
begin

text \<open>
  From the data of the label creation to the data of the router: \<open>HubLEdges.initialize\<close>,
  \<open>HubLNodes.initEdgeInfo\<close>, \<open>HubLNodes.initLabelInfo\<close> and their composition in
  \<open>LabelCreator.serializeHubLData\<close>. The labels calculated for a contracted graph satisfy everything
  the correctness of the hub label router asks of its data.
\<close>

section \<open>The edges\<close>

definition edge_start :: "Edges \<Rightarrow> int \<Rightarrow> int" where
  "edge_start es e = (if e < eg_numOfOriginalEdges es then eg_originalEdgeStart es ! nat e
     else eg_shortcutEdgeStart es ! nat (e - eg_numOfOriginalEdges es))"

definition edge_starts :: "Edges \<Rightarrow> int list" where
  "edge_starts es = map (\<lambda>e. edge_start es (int e)) [0..<nat (eg_nextShortcutId es)]"

definition second_part :: "Edges \<Rightarrow> int \<Rightarrow> int" where
  "second_part es e = eg_shortcutEdgeParts es ! nat ((e - eg_numOfOriginalEdges es) * 2)"

definition first_part :: "Edges \<Rightarrow> int \<Rightarrow> int" where
  "first_part es e = eg_shortcutEdgeParts es ! nat ((e - eg_numOfOriginalEdges es) * 2 + 1)"

text \<open>
  The arrays have the sizes they are kept at, edges join nodes, and a shortcut consists of two
  earlier edges. The part added first is the second edge of the way.
\<close>

definition Edges_sized :: "Edges \<Rightarrow> bool" where
  "Edges_sized es \<longleftrightarrow> 0 \<le> eg_numOfOriginalEdges es \<and> eg_numOfOriginalEdges es \<le> eg_nextShortcutId es \<and>
     int (length (eg_originalEdgeStart es)) = eg_numOfOriginalEdges es \<and>
     int (length (eg_originalEdgeDest es)) = eg_numOfOriginalEdges es \<and>
     int (length (eg_originalEdgeDist es)) = eg_numOfOriginalEdges es \<and>
     eg_nextShortcutId es - eg_numOfOriginalEdges es \<le> int (length (eg_shortcutEdgeDist es)) \<and>
     length (eg_shortcutEdgeStart es) = length (eg_shortcutEdgeDist es) \<and>
     length (eg_shortcutEdgeDest es) = length (eg_shortcutEdgeDist es) \<and>
     length (eg_shortcutEdgeParts es) = 2 * length (eg_shortcutEdgeDist es)"

definition Edges_wf :: "nat \<Rightarrow> Edges \<Rightarrow> bool" where
  "Edges_wf n es \<longleftrightarrow> Edges_sized es \<and>
     (\<forall>e. 0 \<le> e \<and> e < eg_nextShortcutId es \<longrightarrow> 0 \<le> edge_start es e \<and> edge_start es e < int n \<and>
        0 \<le> edge_dest es e \<and> edge_dest es e < int n \<and> 0 \<le> edge_dist es e) \<and>
     (\<forall>e. eg_numOfOriginalEdges es \<le> e \<and> e < eg_nextShortcutId es \<longrightarrow>
        0 \<le> first_part es e \<and> first_part es e < e \<and> 0 \<le> second_part es e \<and> second_part es e < e \<and>
        edge_start es (first_part es e) = edge_start es e \<and> edge_dest es (first_part es e) = edge_start es (second_part es e) \<and>
        edge_dest es (second_part es e) = edge_dest es e \<and>
        edge_dist es e = edge_dist es (first_part es e) + edge_dist es (second_part es e))"

lemma Edges_sized_get:
  assumes "Edges_sized es" "0 \<le> e" "e < eg_nextShortcutId es"
  shows "Edges_getDest es e = Some (edge_dest es e)" "Edges_getDist es e = Some (edge_dist es e)"
  using assms by (auto simp: Edges_sized_def Edges_getDest_def Edges_getDist_def edge_dest_def edge_dist_def java)

definition original_adj :: "Edges \<Rightarrow> adjacency" where
  "original_adj es u = map (\<lambda>e. (edge_dest es (int e), edge_dist es (int e)))
     (filter (\<lambda>e. edge_start es (int e) = u) [0..<nat (eg_numOfOriginalEdges es)])"

lemma arraycopy_front: "int k \<le> int (length xs) \<Longrightarrow> k \<le> m \<Longrightarrow>
    arraycopy xs 0 (replicate m d) 0 (int k) = Some (take k xs @ replicate (m - k) d)"
  by (simp add: arraycopy_def)

lemma arraycopy_back: "k \<le> length ys \<Longrightarrow> length xs + k = m \<Longrightarrow>
    arraycopy ys 0 (xs @ replicate k d) (int (length xs)) (int k) = Some (xs @ take k ys)"
  by (simp add: arraycopy_def flip: of_nat_add)

lemma HubLEdges_initialize_ok:
  assumes "Edges_sized es"
  shows "\<exists>he. HubLEdges_initialize es = Some he \<and> he_firstShortcutIdx he = eg_numOfOriginalEdges es \<and>
    int (length (he_dest he)) = eg_nextShortcutId es \<and> int (length (he_dist he)) = eg_nextShortcutId es \<and>
    he_shortcutParts he = take (nat ((eg_nextShortcutId es - eg_numOfOriginalEdges es) * 2)) (eg_shortcutEdgeParts es) \<and>
    (\<forall>e. 0 \<le> e \<and> e < eg_nextShortcutId es \<longrightarrow> he_dest he ! nat e = edge_dest es e \<and> he_dist he ! nat e = edge_dist es e)"
proof -
  define m where "m = nat (eg_numOfOriginalEdges es)"
  define k where "k = nat (eg_nextShortcutId es - eg_numOfOriginalEdges es)"
  have sz: "eg_numOfOriginalEdges es = int m" "eg_nextShortcutId es = int (m + k)" "length (eg_originalEdgeDest es) = m"
    "length (eg_originalEdgeDist es) = m" "k \<le> length (eg_shortcutEdgeDest es)" "k \<le> length (eg_shortcutEdgeDist es)"
    "k * 2 \<le> length (eg_shortcutEdgeParts es)"
    using assms by (auto simp: Edges_sized_def m_def k_def)
  have diff: "int (m + k) - int m = int k" "int k * 2 = int (k * 2)" by simp_all
  let ?dest = "eg_originalEdgeDest es @ take k (eg_shortcutEdgeDest es)" let ?dist = "eg_originalEdgeDist es @ take k (eg_shortcutEdgeDist es)"
  have new: "newArray (int (m + k)) (0::int) = Some (replicate (m + k) 0)" "newArray (int (k * 2)) (0::int) = Some (replicate (k * 2) 0)"
    by (simp_all only: newArray_def nat_int of_nat_less_0_iff if_False)
  have c1: "arraycopy (eg_originalEdgeDest es) 0 (replicate (m + k) 0) 0 (int m) = Some (eg_originalEdgeDest es @ replicate k 0)"
    "arraycopy (eg_originalEdgeDist es) 0 (replicate (m + k) 0) 0 (int m) = Some (eg_originalEdgeDist es @ replicate k 0)"
    using arraycopy_front[of m "eg_originalEdgeDest es" "m + k"] arraycopy_front[of m "eg_originalEdgeDist es" "m + k"] sz(3,4) by simp_all
  have c2: "arraycopy (eg_shortcutEdgeDest es) 0 (eg_originalEdgeDest es @ replicate k 0) (int m) (int k) = Some ?dest"
    "arraycopy (eg_shortcutEdgeDist es) 0 (eg_originalEdgeDist es @ replicate k 0) (int m) (int k) = Some ?dist"
    using arraycopy_back[OF sz(5), of "eg_originalEdgeDest es"] arraycopy_back[OF sz(6), of "eg_originalEdgeDist es"] sz(3,4) by simp_all
  have c3: "arraycopy (eg_shortcutEdgeParts es) 0 (replicate (k * 2) 0) 0 (int (k * 2)) = Some (take (k * 2) (eg_shortcutEdgeParts es))"
    using arraycopy_front[of "k * 2" "eg_shortcutEdgeParts es" "k * 2" 0] sz(7) by (simp del: of_nat_mult)
  have run: "HubLEdges_initialize es = Some \<lparr>he_dest = ?dest, he_dist = ?dist, he_firstShortcutIdx = int m,
      he_shortcutParts = take (k * 2) (eg_shortcutEdgeParts es)\<rparr>"
    unfolding HubLEdges_initialize_def Let_def sz(1,2) diff new Option.bind.simps c1 c2 c3 ..
  have at: "?dest ! nat e = edge_dest es e \<and> ?dist ! nat e = edge_dist es e" if "0 \<le> e" "e < int (m + k)" for e
  proof (cases "e < int m")
    case True
    then show ?thesis using that sz
      by (simp add: edge_dest_def edge_dist_def Edges_getDest_def Edges_getDist_def aget_def nth_append nat_less_iff)
  next
    case False
    define j where "j = nat (e - int m)"
    have j: "e = int (m + j)" "j < k" using that False by (auto simp: j_def)
    have "?dest ! nat e = eg_shortcutEdgeDest es ! j" "?dist ! nat e = eg_shortcutEdgeDist es ! j"
      using j sz(3-6) by (simp_all add: nth_append nat_add_distrib)
    moreover have "edge_dest es e = eg_shortcutEdgeDest es ! j" "edge_dist es e = eg_shortcutEdgeDist es ! j"
      using j sz(1,5,6) by (simp_all add: edge_dest_def edge_dist_def Edges_getDest_def Edges_getDist_def aget_def)
    ultimately show ?thesis by simp
  qed
  let ?he = "\<lparr>he_dest = ?dest, he_dist = ?dist, he_firstShortcutIdx = int m, he_shortcutParts = take (k * 2) (eg_shortcutEdgeParts es)\<rparr>"
  have two: "nat (int k * 2) = k * 2" by simp
  show ?thesis unfolding sz(1,2) diff(1) two
  proof (intro exI[of _ ?he] conjI)
    show "HubLEdges_initialize es = Some ?he" by (rule run)
    show "int (length (he_dest ?he)) = int (m + k)" "int (length (he_dist ?he)) = int (m + k)" using sz(3-6) by simp_all
    show "\<forall>e. 0 \<le> e \<and> e < int (m + k) \<longrightarrow> he_dest ?he ! nat e = edge_dest es e \<and> he_dist ?he ! nat e = edge_dist es e"
      using at by (simp only: HubLEdges.simps) blast
  qed simp_all
qed

lemma HubLEdges_initialize_wf:
  assumes wf: "Edges_wf n es" and "HubLEdges_initialize es = Some he"
  shows "HubLEdges_wf (edge_starts es) (int n) he" "HubLEdges_adj (edge_starts es) he = original_adj es"
proof -
  let ?m = "eg_numOfOriginalEdges es" let ?k = "eg_nextShortcutId es"
  have sz: "Edges_sized es" using wf by (simp add: Edges_wf_def)
  have he: "he_firstShortcutIdx he = ?m" "length (he_dest he) = nat ?k" "length (he_dist he) = nat ?k"
    "he_shortcutParts he = take (nat ((?k - ?m) * 2)) (eg_shortcutEdgeParts es)"
    "\<And>e. e < nat ?k \<Longrightarrow> he_dest he ! e = edge_dest es (int e) \<and> he_dist he ! e = edge_dist es (int e)"
  proof -
    obtain he' where h: "HubLEdges_initialize es = Some he'" "he_firstShortcutIdx he' = ?m" "int (length (he_dest he')) = ?k"
      "int (length (he_dist he')) = ?k" "he_shortcutParts he' = take (nat ((?k - ?m) * 2)) (eg_shortcutEdgeParts es)"
      "\<forall>e. 0 \<le> e \<and> e < ?k \<longrightarrow> he_dest he' ! nat e = edge_dest es e \<and> he_dist he' ! nat e = edge_dist es e"
      using HubLEdges_initialize_ok[OF sz] by blast
    have "he' = he" using h(1) assms(2) by simp
    note h = h[unfolded this]
    show "he_firstShortcutIdx he = ?m" "length (he_dest he) = nat ?k" "length (he_dist he) = nat ?k"
      "he_shortcutParts he = take (nat ((?k - ?m) * 2)) (eg_shortcutEdgeParts es)" using h by simp_all
    show "he_dest he ! e = edge_dest es (int e) \<and> he_dist he ! e = edge_dist es (int e)" if "e < nat ?k" for e
      using h(6)[rule_format, of "int e"] that by auto
  qed
  have src: "length (edge_starts es) = nat ?k" "\<And>e. e < nat ?k \<Longrightarrow> edge_starts es ! e = edge_start es (int e)"
    by (simp_all add: edge_starts_def)
  have mk: "0 \<le> ?m" "?m \<le> ?k" "int (length (eg_shortcutEdgeParts es)) \<ge> (?k - ?m) * 2" using sz by (auto simp: Edges_sized_def)
  have E: "0 \<le> edge_start es e \<and> edge_start es e < int n \<and> 0 \<le> edge_dest es e \<and> edge_dest es e < int n \<and> 0 \<le> edge_dist es e"
    if "0 \<le> e" "e < ?k" for e using wf that by (simp add: Edges_wf_def)
  show "HubLEdges_wf (edge_starts es) (int n) he" unfolding HubLEdges_wf_def
  proof (intro conjI)
    show "list_all (\<lambda>e. 0 \<le> edge_starts es ! e \<and> edge_starts es ! e < int n \<and> 0 \<le> he_dest he ! e \<and> he_dest he ! e < int n \<and>
        0 \<le> he_dist he ! e) [0..<length (he_dest he)]"
      using he src E by (auto simp: list_all_iff)
    show "list_all (\<lambda>e. let k = 2 * (e - nat (he_firstShortcutIdx he)); s = he_shortcutParts he ! k; f = he_shortcutParts he ! (k + 1) in
         0 \<le> f \<and> f < int e \<and> 0 \<le> s \<and> s < int e \<and>
         edge_starts es ! nat f = edge_starts es ! e \<and> he_dest he ! nat f = edge_starts es ! nat s \<and> he_dest he ! nat s = he_dest he ! e \<and>
         he_dist he ! e = he_dist he ! nat f + he_dist he ! nat s)
       [nat (he_firstShortcutIdx he)..<length (he_dest he)]"
      unfolding list_all_iff Let_def
    proof
      fix e assume "e \<in> set [nat (he_firstShortcutIdx he)..<length (he_dest he)]"
      then have e: "?m \<le> int e" "e < nat ?k" using he mk by auto
      let ?j = "2 * (e - nat (he_firstShortcutIdx he))"
      have j: "?j = nat ((int e - ?m) * 2)" "?j + 1 = nat ((int e - ?m) * 2 + 1)" "?j + 1 < nat ((?k - ?m) * 2)"
        using e mk he(1) by (auto simp: nat_mult_distrib nat_diff_distrib nat_add_distrib)
      have parts: "he_shortcutParts he ! ?j = second_part es (int e)" "he_shortcutParts he ! (?j + 1) = first_part es (int e)"
        unfolding he(4) second_part_def first_part_def using j by simp_all
      have p: "0 \<le> first_part es (int e) \<and> first_part es (int e) < int e \<and> 0 \<le> second_part es (int e) \<and> second_part es (int e) < int e \<and>
        edge_start es (first_part es (int e)) = edge_start es (int e) \<and> edge_dest es (first_part es (int e)) = edge_start es (second_part es (int e)) \<and>
        edge_dest es (second_part es (int e)) = edge_dest es (int e) \<and>
        edge_dist es (int e) = edge_dist es (first_part es (int e)) + edge_dist es (second_part es (int e))"
        using wf e by (auto simp: Edges_wf_def)
      have lt: "nat (first_part es (int e)) < nat ?k" "nat (second_part es (int e)) < nat ?k" using p e by auto
      show "0 \<le> he_shortcutParts he ! (?j + 1) \<and> he_shortcutParts he ! (?j + 1) < int e \<and> 0 \<le> he_shortcutParts he ! ?j \<and>
         he_shortcutParts he ! ?j < int e \<and>
         edge_starts es ! nat (he_shortcutParts he ! (?j + 1)) = edge_starts es ! e \<and>
         he_dest he ! nat (he_shortcutParts he ! (?j + 1)) = edge_starts es ! nat (he_shortcutParts he ! ?j) \<and>
         he_dest he ! nat (he_shortcutParts he ! ?j) = he_dest he ! e \<and>
         he_dist he ! e = he_dist he ! nat (he_shortcutParts he ! (?j + 1)) + he_dist he ! nat (he_shortcutParts he ! ?j)"
        unfolding parts using p lt e(2) he(5) src(2) by simp
    qed
  qed (use he src mk in auto)
  show "HubLEdges_adj (edge_starts es) he = original_adj es"
  proof
    fix u
    have "filter (\<lambda>e. edge_starts es ! e = u) [0..<nat ?m] = filter (\<lambda>e. edge_start es (int e) = u) [0..<nat ?m]"
      using src(2) mk by (intro filter_cong) auto
    then show "HubLEdges_adj (edge_starts es) he u = original_adj es u"
      unfolding HubLEdges_adj_def original_adj_def he(1) using he(5) mk by (auto intro!: map_cong)
  qed
qed

section \<open>The labels\<close>

text \<open>The labels of a node as triples, and all labels one after the other.\<close>

definition row_triples :: "Labels \<Rightarrow> nat \<Rightarrow> (int \<times> int \<times> int) list" where
  "row_triples L v = zip (the (lb_labelNodes L ! v)) (zip (the (lb_labelEdges L ! v)) (the (lb_labelDist L ! v)))"

definition all_triples :: "Labels \<Rightarrow> nat \<Rightarrow> (int \<times> int \<times> int) list" where
  "all_triples L n = concat (map (row_triples L) [0..<n])"

definition label_offset :: "Labels \<Rightarrow> nat \<Rightarrow> nat" where
  "label_offset L v = length (all_triples L v)"

definition Labels_complete :: "nat \<Rightarrow> Labels \<Rightarrow> bool" where
  "Labels_complete n L \<longleftrightarrow> Labels_sized n L \<and> (\<forall>v < n. \<exists>ids fs ds. Labels_row L (int v) ids fs ds)"

lemma all_triples_Suc: "all_triples L (Suc v) = all_triples L v @ row_triples L v"
  by (simp add: all_triples_def)

lemma label_offset_Suc: "label_offset L (Suc v) = label_offset L v + length (row_triples L v)"
  by (simp add: label_offset_def all_triples_Suc)

lemma label_offset_mono: "u \<le> v \<Longrightarrow> label_offset L u \<le> label_offset L v"
  by (induction v) (auto simp: label_offset_Suc le_Suc_eq)

lemma all_triples_nth:
  assumes "v < n" "i < length (row_triples L v)"
  shows "label_offset L v + i < label_offset L n" "all_triples L n ! (label_offset L v + i) = row_triples L v ! i"
proof -
  have "label_offset L (Suc v) \<le> label_offset L n" by (rule label_offset_mono) (use assms in simp)
  then show "label_offset L v + i < label_offset L n" using assms(2) by (simp add: label_offset_Suc)
  have "[0..<n] = [0..<Suc v] @ [Suc v..<n]" using assms(1) upt_add_eq_append[of 0 "Suc v" "n - Suc v"] by simp
  then have "all_triples L n = all_triples L v @ row_triples L v @ concat (map (row_triples L) [Suc v..<n])"
    by (simp add: all_triples_def)
  then show "all_triples L n ! (label_offset L v + i) = row_triples L v ! i"
    using assms(2) by (simp add: label_offset_def nth_append)
qed

lemma row_triples_eq: "Labels_row L (int v) ids fs ds \<Longrightarrow> row_triples L v = zip ids (zip fs ds) \<and> length (row_triples L v) = length ids"
  by (simp add: Labels_row_def row_triples_def)

lemma label_offset_row: "Labels_row L (int v) ids fs ds \<Longrightarrow> label_offset L (Suc v) = label_offset L v + length ids"
  unfolding label_offset_Suc using row_triples_eq[THEN conjunct2] by simp

definition triple_lines :: "(int \<times> int \<times> int) list \<Rightarrow> int list" where
  "triple_lines ts = concat (map (\<lambda>(x, e, d). [x, e, d]) ts)"

lemma HubLNodes_writeRow_ok:
  assumes "length fs = length ids" "length ds = length ids"
  shows "for_range 0 (int (length ids)) (\<lambda>j file. do {
      n \<leftarrow> aget ids j; e \<leftarrow> rowget (Some fs) j; d \<leftarrow> rowget (Some ds) j; Some (file @ [n, e, d]) }) file =
    Some (file @ triple_lines (zip ids (zip fs ds)))"
proof -
  let ?z = "zip ids (zip fs ds)"
  define I where "I j f \<longleftrightarrow> f = file @ triple_lines (take (nat j) ?z)" for j f
  have "\<exists>f. for_range 0 (int (length ids)) (\<lambda>j file. do {
      n \<leftarrow> aget ids j; e \<leftarrow> rowget (Some fs) j; d \<leftarrow> rowget (Some ds) j; Some (file @ [n, e, d]) }) file = Some f \<and> I (int (length ids)) f"
  proof (rule for_range_rule[where I = I])
    show "I 0 file" by (simp add: I_def triple_lines_def)
    fix j f assume j: "0 \<le> j" "j < int (length ids)" and If: "I j f"
    have nj: "nat j < length ?z" "nat (j + 1) = Suc (nat j)" using j assms by auto
    then have "take (Suc (nat j)) ?z = take (nat j) ?z @ [(ids ! nat j, fs ! nat j, ds ! nat j)]"
      using assms by (simp add: take_Suc_conv_app_nth)
    then show "\<exists>f'. do { n \<leftarrow> aget ids j; e \<leftarrow> rowget (Some fs) j; d \<leftarrow> rowget (Some ds) j; Some (f @ [n, e, d]) } = Some f' \<and> I (j + 1) f'"
      using j assms If nj(2) by (simp add: java rowget_def I_def triple_lines_def)
  qed simp
  then show ?thesis using assms by (simp add: I_def)
qed

lemma HubLNodes_writeLabels_ok:
  assumes "Labels_complete n L"
  shows "HubLNodes_writeLabels L = Some (map (\<lambda>v. int (label_offset L v)) [0..<Suc n], int (label_offset L n), triple_lines (all_triples L n))"
proof -
  let ?step = "\<lambda>i (labelOffset, nextOffset, file). do {
         labelOffset \<leftarrow> aset labelOffset i nextOffset;
         nodes \<leftarrow> aget (lb_labelNodes L) i;
         (case nodes of None \<Rightarrow> Some (labelOffset, nextOffset, file)
          | Some nodes \<Rightarrow> do {
              edges \<leftarrow> aget (lb_labelEdges L) i;
              distances \<leftarrow> aget (lb_labelDist L) i;
              file \<leftarrow> for_range 0 (int (length nodes)) (\<lambda>j file. do {
                  n \<leftarrow> aget nodes j;
                  e \<leftarrow> rowget edges j;
                  d \<leftarrow> rowget distances j;
                  Some (file @ [n, e, d])
                }) file;
              Some (labelOffset, nextOffset + int (length nodes), file)
            }) }"
  have len: "length (lb_labelNodes L) = n" "length (lb_labelEdges L) = n" "length (lb_labelDist L) = n"
    using assms by (auto simp: Labels_complete_def Labels_sized_def)
  define I where "I i st \<longleftrightarrow> st = (map (\<lambda>v. int (label_offset L v)) [0..<nat i] @ replicate (Suc n - nat i) 0, int (label_offset L (nat i)),
      triple_lines (all_triples L (nat i)))" for i st
  have "\<exists>st. for_range 0 (int n) ?step (replicate (Suc n) 0, 0, []) = Some st \<and> I (int n) st"
  proof (rule for_range_rule[where I = I])
    show "I 0 (replicate (Suc n) 0, 0, [])" by (simp add: I_def label_offset_def all_triples_def triple_lines_def)
    fix i st assume i: "0 \<le> i" "i < int n" and Ist: "I i st"
    let ?i = "nat i"
    have "?i < n" using i by simp
    then obtain ids fs ds where r: "Labels_row L (int ?i) ids fs ds" using assms unfolding Labels_complete_def by blast
    have rd: "aget (lb_labelNodes L) i = Some (Some ids)" "aget (lb_labelEdges L) i = Some (Some fs)" "aget (lb_labelDist L) i = Some (Some ds)"
      "length fs = length ids" "length ds = length ids" using r i len by (auto simp: Labels_row_def java)
    have si: "nat (i + 1) = Suc ?i" "Suc n - ?i = Suc (Suc n - Suc ?i)" using i by auto
    have upd: "aset (map (\<lambda>v. int (label_offset L v)) [0..<?i] @ replicate (Suc n - ?i) 0) i (int (label_offset L ?i)) =
        Some (map (\<lambda>v. int (label_offset L v)) [0..<Suc ?i] @ replicate (Suc n - Suc ?i) 0)"
      unfolding si(2) using i by (simp add: aset_def list_update_append)
    have lines: "triple_lines (all_triples L (Suc ?i)) = triple_lines (all_triples L ?i) @ triple_lines (zip ids (zip fs ds))"
      using row_triples_eq[OF r] by (simp add: all_triples_Suc triple_lines_def)
    have off: "label_offset L (Suc ?i) = label_offset L ?i + length ids" by (rule label_offset_row[OF r])
    have "?step i st = Some (map (\<lambda>v. int (label_offset L v)) [0..<Suc ?i] @ replicate (Suc n - Suc ?i) 0, int (label_offset L ?i) + int (length ids),
        triple_lines (all_triples L ?i) @ triple_lines (zip ids (zip fs ds)))"
      using Ist upd rd HubLNodes_writeRow_ok[OF rd(4,5), of "triple_lines (all_triples L ?i)"] by (simp add: I_def del: upt_Suc)
    then show "\<exists>st'. ?step i st = Some st' \<and> I (i + 1) st'" by (simp add: I_def si(1) lines off del: upt_Suc)
  qed simp
  then have run: "for_range 0 (int n) ?step (replicate (Suc n) 0, 0, []) =
      Some (map (\<lambda>v. int (label_offset L v)) [0..<n] @ [0], int (label_offset L n), triple_lines (all_triples L n))"
    by (simp add: I_def)
  have fin: "aset (map (\<lambda>v. int (label_offset L v)) [0..<n] @ [0]) (int n) (int (label_offset L n)) =
      Some (map (\<lambda>v. int (label_offset L v)) [0..<Suc n])" by (simp add: aset_def list_update_append)
  have new: "newArray (int n + 1) (0::int) = Some (replicate (Suc n) 0)" by (simp add: newArray_def nat_add_distrib del: replicate_Suc)
  show ?thesis unfolding HubLNodes_writeLabels_def Let_def len(1) using run fin by (simp add: new del: replicate_Suc upt_Suc)
qed

lemma HubLNodes_readLabels_ok:
  "HubLNodes_readLabels (int (length ts)) (triple_lines ts) =
    Some (map fst ts @ [-1], map (\<lambda>t. fst (snd t)) ts @ [-1], map (\<lambda>t. snd (snd t)) ts @ [-1])"
proof -
  let ?m = "length ts"
  let ?step = "\<lambda>i (labelNode, labelEdge, labelDist, file). (case file of n # e # d # file' \<Rightarrow> do {
          labelNode \<leftarrow> aset labelNode i n;
          labelEdge \<leftarrow> aset labelEdge i e;
          labelDist \<leftarrow> aset labelDist i d;
          Some (labelNode, labelEdge, labelDist, file')
        }
        | _ \<Rightarrow> None)"
  let ?col = "\<lambda>f i. map f (take i ts) @ replicate (Suc ?m - i) (0::int)"
  define I where "I i st \<longleftrightarrow> st = (?col fst (nat i), ?col (\<lambda>t. fst (snd t)) (nat i), ?col (\<lambda>t. snd (snd t)) (nat i), triple_lines (drop (nat i) ts))" for i :: int and st
  have "\<exists>st. for_range 0 (int ?m) ?step (replicate (Suc ?m) 0, replicate (Suc ?m) 0, replicate (Suc ?m) 0, triple_lines ts) = Some st \<and> I (int ?m) st"
  proof (rule for_range_rule[where I = I])
    show "I 0 (replicate (Suc ?m) 0, replicate (Suc ?m) 0, replicate (Suc ?m) 0, triple_lines ts)" by (simp add: I_def)
    fix i st assume i: "0 \<le> i" "i < int ?m" and Ist: "I i st"
    let ?i = "nat i"
    have si: "nat (i + 1) = Suc ?i" "Suc ?m - ?i = Suc (Suc ?m - Suc ?i)" "?i < ?m" using i by auto
    obtain n e d where t: "ts ! ?i = (n, e, d)" by (cases "ts ! ?i")
    have dr: "drop ?i ts = (n, e, d) # drop (Suc ?i) ts" using si(3) t by (metis Cons_nth_drop_Suc)
    have tk: "take (Suc ?i) ts = take ?i ts @ [(n, e, d)]" using si(3) t by (simp add: take_Suc_conv_app_nth)
    have upd: "aset (?col f ?i) i (f (n, e, d)) = Some (?col f (Suc ?i))" for f
      unfolding si(2) tk using i by (simp add: aset_def list_update_append)
    show "\<exists>st'. ?step i st = Some st' \<and> I (i + 1) st'"
      using Ist upd[of fst] upd[of "\<lambda>t. fst (snd t)"] upd[of "\<lambda>t. snd (snd t)"] dr
      by (simp add: I_def si(1) triple_lines_def del: replicate_Suc)
  qed simp
  then have run: "for_range 0 (int ?m) ?step (replicate (Suc ?m) 0, replicate (Suc ?m) 0, replicate (Suc ?m) 0, triple_lines ts) =
      Some (map fst ts @ [0], map (\<lambda>t. fst (snd t)) ts @ [0], map (\<lambda>t. snd (snd t)) ts @ [0], [])"
    by (simp add: I_def triple_lines_def)
  have new: "newArray (int ?m + 1) (0::int) = Some (replicate (Suc ?m) 0)" by (simp add: newArray_def nat_add_distrib del: replicate_Suc)
  have fin: "aset (map f ts @ [0]) (int ?m) (-1) = Some (map f ts @ [-1])" for f :: "int \<times> int \<times> int \<Rightarrow> int"
    by (simp add: aset_def list_update_append)
  show ?thesis unfolding HubLNodes_readLabels_def using run by (simp add: new fin del: replicate_Suc)
qed

lemma HubLNodes_initLabelInfo_ok:
  assumes "Labels_complete n L"
  shows "HubLNodes_initLabelInfo hn L = Some (hn\<lparr>hn_labelOffset := map (\<lambda>v. int (label_offset L v)) [0..<Suc n],
    hn_labelNode := map fst (all_triples L n) @ [-1], hn_labelEdge := map (\<lambda>t. fst (snd t)) (all_triples L n) @ [-1],
    hn_labelDist := map (\<lambda>t. snd (snd t)) (all_triples L n) @ [-1]\<rparr>)"
  using HubLNodes_readLabels_ok[of "all_triples L n"]
  by (simp add: HubLNodes_initLabelInfo_def HubLNodes_writeLabels_ok[OF assms] label_offset_def[of L n] del: upt_Suc)

text \<open>With every node above the label level no edges are stored.\<close>

lemma HubLNodes_initEdgeInfo_ok:
  assumes lon: "hn_longitudes hn \<noteq> None" and g: "dg_allEdgeIds g = Some rows" "dg_allEdgeCount g = Some counts"
    and len: "length rows = n" "length counts = n" "length (hn_levels hn) = n" and lv: "\<forall>l \<in> set (hn_levels hn). hn_hlLevel hn \<le> l"
  shows "HubLNodes_initEdgeInfo hn es g = Some (hn\<lparr>hn_edgesOffset := replicate (Suc n) 0, hn_edges := []\<rparr>,
    g\<lparr>dg_allEdgeIds := None, dg_allEdgeCount := None\<rparr>)"
proof -
  let ?f = "\<lambda>i (currentGrid, edgeCounts, totalEdgeLen). do {
         nodeLvl \<leftarrow> aget (hn_levels hn) i;
         if nodeLvl \<ge> hn_hlLevel hn then do {
           currentGrid \<leftarrow> aset currentGrid i None;
           edgeCounts \<leftarrow> aset edgeCounts i 0;
           Some (currentGrid, edgeCounts, totalEdgeLen)
         } else do {
           edgeCount \<leftarrow> aget edgeCounts i;
           row \<leftarrow> aget currentGrid i;
           row \<leftarrow> row;
           (row, edgeCount, totalEdgeLen) \<leftarrow> HubLNodes_keepUpward es (hn_levels hn) nodeLvl row edgeCount 0 totalEdgeLen;
           currentGrid \<leftarrow> aset currentGrid i (Some row);
           edgeCounts \<leftarrow> aset edgeCounts i edgeCount;
           Some (currentGrid, edgeCounts, totalEdgeLen)
         } }"
  define I where "I i st \<longleftrightarrow> (\<exists>G c. st = (G, c, 0) \<and> length G = n \<and> length c = n \<and> (\<forall>k < nat i. c ! k = 0))"
    for i :: int and st :: "int list option list \<times> int list \<times> int"
  have "\<exists>st. for_range 0 (int n) ?f (map Some rows, counts, 0) = Some st \<and> I (int n) st"
  proof (rule for_range_rule[where I = I])
    show "I 0 (map Some rows, counts, 0)" using len by (simp add: I_def)
    fix i st assume i: "0 \<le> i" "i < int n" and "I i st"
    then obtain G c where st: "st = (G, c, 0)" "length G = n" "length c = n" "\<forall>k < nat i. c ! k = 0" by (auto simp: I_def)
    have "hn_hlLevel hn \<le> hn_levels hn ! nat i" using lv len(3) i by (simp add: nat_less_iff)
    then have "?f i st = Some (G[nat i := None], c[nat i := 0], 0)" using i len(3) st(1-3) by (simp add: java)
    moreover have "I (i + 1) (G[nat i := None], c[nat i := 0], 0)"
      using st(2-4) i by (auto simp: I_def nth_list_update nat_add_distrib less_Suc_eq)
    ultimately show "\<exists>st'. ?f i st = Some st' \<and> I (i + 1) st'" by blast
  qed simp
  then obtain G c where run: "for_range 0 (int n) ?f (map Some rows, counts, 0) = Some (G, c, 0)"
    and "length c = n" "\<forall>k < n. c ! k = 0" unfolding I_def by (simp only: nat_int) blast
  then have c: "c = replicate n 0" by (auto intro!: nth_equalityI)
  let ?h = "\<lambda>i (edgesOffset, edges, nextOffset). do {
         nextEdgeCount \<leftarrow> aget c i;
         edgesOffset \<leftarrow> aset edgesOffset i nextOffset;
         if nextEdgeCount \<noteq> 0 then do {
           row \<leftarrow> aget G i;
           row \<leftarrow> row;
           edges \<leftarrow> arraycopy row 0 edges nextOffset nextEdgeCount;
           Some (edgesOffset, edges, nextOffset + nextEdgeCount)
         } else Some (edgesOffset, edges, nextOffset) }"
  have "\<exists>st. for_range 0 (int n) ?h (replicate (Suc n) 0, [], 0) = Some st \<and> st = (replicate (Suc n) 0, [], 0)"
    by (rule for_range_rule[where I = "\<lambda>i st. st = (replicate (Suc n) 0, [], 0)"])
      (auto simp: c java list_update_same_conv nth_Cons' simp flip: replicate_Suc)
  then have run': "for_range 0 (int n) ?h (replicate (Suc n) 0, [], 0) = Some (replicate (Suc n) 0, [], 0)" by simp
  have new: "newArray (int n + 1) (0::int) = Some (replicate (Suc n) 0)" "newArray 0 (0::int) = Some []"
    by (simp_all add: newArray_def nat_add_distrib del: replicate_Suc)
  have fin: "aset (replicate (Suc n) (0::int)) (int n) 0 = Some (replicate (Suc n) 0)"
    by (simp add: aset_def list_update_same_conv del: replicate_Suc)
  show ?thesis unfolding HubLNodes_initEdgeInfo_def Let_def g Option.bind.simps len(2) run split new run' fin
    using lon by simp
qed

text \<open>The labels of a node are at the positions between its offsets.\<close>

definition stores_labels :: "nat \<Rightarrow> Labels \<Rightarrow> HubLNodes \<Rightarrow> bool" where
  "stores_labels n L hn \<longleftrightarrow> hn_labelOffset hn = map (\<lambda>v. int (label_offset L v)) [0..<Suc n] \<and>
     hn_labelNode hn = map fst (all_triples L n) @ [-1] \<and> hn_labelEdge hn = map (\<lambda>t. fst (snd t)) (all_triples L n) @ [-1] \<and>
     hn_labelDist hn = map (\<lambda>t. snd (snd t)) (all_triples L n) @ [-1]"

lemma stores_labels_positions:
  assumes "stores_labels n L hn" "v < n"
  shows "label_positions hn v = [label_offset L v..<label_offset L (Suc v)]"
  using assms by (simp add: stores_labels_def label_positions_def del: upt_Suc)

lemma stores_labels_nth:
  assumes "stores_labels n L hn" "v < n" "Labels_row L (int v) ids fs ds" "i < length ids"
  shows "hn_labelNode hn ! (label_offset L v + i) = ids ! i" "hn_labelEdge hn ! (label_offset L v + i) = fs ! i"
    "hn_labelDist hn ! (label_offset L v + i) = ds ! i"
proof -
  have r: "row_triples L v = zip ids (zip fs ds)" "i < length (row_triples L v)" "length fs = length ids" "length ds = length ids"
    using row_triples_eq[OF assms(3)] assms(3,4) by (auto simp: Labels_row_def)
  have "row_triples L v ! i = (ids ! i, fs ! i, ds ! i)" using r assms(4) by simp
  moreover note all_triples_nth[OF assms(2) r(2)]
  ultimately show "hn_labelNode hn ! (label_offset L v + i) = ids ! i" "hn_labelEdge hn ! (label_offset L v + i) = fs ! i"
    "hn_labelDist hn ! (label_offset L v + i) = ds ! i"
    using assms(1) by (simp_all add: stores_labels_def nth_append label_offset_def)
qed

lemma stores_labels_map:
  assumes "stores_labels n L hn" "v < n" "Labels_row L (int v) ids fs ds"
  shows "map (\<lambda>p. hn_labelNode hn ! p) (label_positions hn v) = ids"
    "p \<in> set (label_positions hn v) \<longleftrightarrow> (\<exists>i < length ids. p = label_offset L v + i)"
proof -
  have off: "label_offset L (Suc v) = label_offset L v + length ids" by (rule label_offset_row[OF assms(3)])
  show "map (\<lambda>p. hn_labelNode hn ! p) (label_positions hn v) = ids"
    using stores_labels_nth(1)[OF assms] by (auto simp: stores_labels_positions[OF assms(1,2)] off intro!: nth_equalityI)
  show "p \<in> set (label_positions hn v) \<longleftrightarrow> (\<exists>i < length ids. p = label_offset L v + i)"
    by (auto simp: stores_labels_positions[OF assms(1,2)] off intro!: exI[of _ "p - label_offset L v"])
qed

lemma stores_labels_of:
  assumes S: "stores_labels n L hn" and v: "0 \<le> v" "v < int n" and r: "Labels_row L v ids fs ds"
  shows "label_of hn v h d \<longleftrightarrow> Labels_lab L v h = Some d"
proof -
  have nv: "nat v < n" "Labels_row L (int (nat v)) ids fs ds" using v r by simp_all
  note at = stores_labels_nth[OF S nv] and pos = stores_labels_map(2)[OF S nv]
  have "label_of hn v h d \<longleftrightarrow> (\<exists>i < length ids. ids ! i = h \<and> ds ! i = d)"
    unfolding label_of_def using pos at by (metis (no_types, lifting))
  also have "\<dots> \<longleftrightarrow> Labels_lab L v h = Some d"
    using Labels_lab_row(3)[OF r] Labels_lab_Some[OF r, of h d] by blast
  finally show ?thesis .
qed

section \<open>The stored data is what the router asks for\<close>

text \<open>
  \<open>grid_edges_ok\<close>: the edges listed for a node are edges that start there. \<open>up_cover\<close>: a walk over
  original edges has upward walks from its ends that meet and are together not longer.
\<close>

definition grid_edges_ok :: "nat \<Rightarrow> Edges \<Rightarrow> DynamicGrid \<Rightarrow> bool" where
  "grid_edges_ok n es g \<longleftrightarrow> (\<forall>v. 0 \<le> v \<and> v < int n \<longrightarrow> (\<forall>e \<in> set (all_edges g v).
     0 \<le> e \<and> e < eg_nextShortcutId es \<and> edge_start es e = v))"

definition up_cover :: "nat \<Rightarrow> adjacency \<Rightarrow> adjacency \<Rightarrow> bool" where
  "up_cover n up adj \<longleftrightarrow> (\<forall>s p c. 0 \<le> s \<and> s < int n \<and> walk adj s p c \<longrightarrow>
     (\<exists>h a b. up_walk up s h a \<and> up_walk up (last p) h b \<and> a + b \<le> c))"

lemma Labels_for_complete:
  assumes "Labels_for n ns es g {0..<int n} L"
  shows "Labels_complete n L"
  using assms unfolding Labels_complete_def Labels_for_def Labels_readable_def by fastforce

lemma stored_labels_wf:
  assumes H: "hierarchy_ok n ns es g" and L: "Labels_for n ns es g {0..<int n} L" and E: "Edges_wf n es" and G: "grid_edges_ok n es g"
    and S: "stores_labels n L hn" and lv: "no_levels ns = Some (hn_levels hn)" and he: "HubLEdges_initialize es = Some he"
  shows "HubLNodes_wf (edge_starts es) hn he"
proof -
  have n: "length (hn_levels hn) = n" using H lv by (auto simp: hierarchy_ok_def)
  have lab: "labelling {0..<int n} (node_lvl ns) (up_adj ns es g) (Labels_lab L)" using L by (simp add: Labels_for_def)
  have sz: "Edges_sized es" using E by (simp add: Edges_wf_def)
  have hed: "length (he_dest he) = nat (eg_nextShortcutId es)"
    "\<And>e. 0 \<le> e \<Longrightarrow> e < eg_nextShortcutId es \<Longrightarrow> he_dest he ! nat e = edge_dest es e \<and> he_dist he ! nat e = edge_dist es e"
    using HubLEdges_initialize_ok[OF sz] he by auto
  have mono: "label_offset L v \<le> label_offset L (Suc v)" for v by (rule label_offset_mono) simp
  have offs: "hn_labelOffset hn ! v = int (label_offset L v)" if "v \<le> n" for v
    using S that by (simp add: stores_labels_def del: upt_Suc)
  have row: "sorted_wrt (<) (map (\<lambda>p. hn_labelNode hn ! p) (label_positions hn v)) \<and>
      list_all (label_step (edge_starts es) hn he v) (label_positions hn v)" if v: "v < n" for v
  proof -
    have vS: "int v \<in> {0..<int n}" using v by simp
    obtain ids fs ds where r: "Labels_row L (int v) ids fs ds" "\<forall>d \<in> set ds. small d"
      "\<And>i. i < length ids \<Longrightarrow> ids ! i \<in> {0..<int n} \<and> up_walk (up_adj ns es g) (int v) (ids ! i) (ds ! i) \<and>
        Labels_lab L (int v) (ids ! i) = Some (ds ! i)" using Labels_for_row[OF H L vS] by blast
    have len: "length ds = length ids" using r(1) by (simp add: Labels_row_def)
    have "label_step (edge_starts es) hn he v p" if p: "p \<in> set (label_positions hn v)" for p
    proof -
      obtain i where i: "i < length ids" "p = label_offset L v + i" using stores_labels_map(2)[OF S v r(1)] p by blast
      note at = stores_labels_nth[OF S v r(1) i(1), folded i(2)]
      have b: "0 \<le> ids ! i" "small (ds ! i)" using r(2) r(3)[OF i(1)] i(1) len by auto
      show ?thesis
      proof (cases "ids ! i = int v")
        case True
        then have "ds ! i = 0" using r(3)[OF i(1)] labellingD(2)[OF lab vS] by simp
        then show ?thesis using b True by (simp add: label_step_def Let_def at small_def)
      next
        case False
        have "Labels_steps ns es g L (int v)" using L vS by (simp add: Labels_for_def)
        then have st: "fs ! i \<in> set (up_edges ns es g (int v))"
          "Labels_lab L (edge_dest es (fs ! i)) (ids ! i) = Some (ds ! i - edge_dist es (fs ! i))"
          using r(1) i(1) False unfolding Labels_steps_def by blast+
        let ?e = "fs ! i" let ?d = "edge_dest es ?e"
        have a: "?e \<in> set (all_edges g (int v))" "node_lvl ns (int v) \<le> node_lvl ns ?d" using st(1) by (auto simp: up_edges_def)
        have e: "0 \<le> ?e" "?e < eg_nextShortcutId es" "edge_start es ?e = int v"
          using G[unfolded grid_edges_ok_def, rule_format, OF _ a(1)] vS by auto
        have d: "0 \<le> ?d" "?d < int n" "node_lvl ns ?d \<noteq> node_lvl ns (int v)" using hierarchy_okD(5)[OF H _ _ a(1)] vS by auto
        have up: "hn_levels hn ! v < hn_levels hn ! nat ?d" using a(2) d(3) lv by (simp add: node_lvl_def)
        have dS: "?d \<in> {0..<int n}" using d by simp
        obtain ids' fs' ds' where r': "Labels_row L ?d ids' fs' ds'" by (rule Labels_for_row[OF H L dS])
        have "label_of hn ?d (ids ! i) (ds ! i - edge_dist es ?e)" using stores_labels_of[OF S d(1,2) r'] st(2) by simp
        then have ex: "list_ex (\<lambda>q. hn_labelNode hn ! q = ids ! i \<and> hn_labelDist hn ! q + edge_dist es ?e = ds ! i) (label_positions hn (nat ?d))"
          by (auto simp: label_of_def list_ex_iff)
        have "edge_starts es ! nat ?e = int v" "he_dest he ! nat ?e = ?d" "he_dist he ! nat ?e = edge_dist es ?e"
          using e hed(2)[OF e(1,2)] by (simp_all add: edge_starts_def nat_less_iff)
        then show ?thesis using b False e hed(1) up ex by (simp add: label_step_def Let_def at small_def)
      qed
    qed
    then show ?thesis using r(1) by (simp add: stores_labels_map(1)[OF S v r(1)] Labels_row_def list_all_iff)
  qed
  have len: "length (hn_labelOffset hn) = Suc n" "length (hn_labelNode hn) = Suc (label_offset L n)"
    "length (hn_labelEdge hn) = Suc (label_offset L n)" "length (hn_labelDist hn) = Suc (label_offset L n)"
    using S by (simp_all add: stores_labels_def label_offset_def)
  show ?thesis unfolding HubLNodes_wf_def Let_def n
    using len offs mono row by (simp add: list_all_iff label_offset_def[of L 0] all_triples_def[of L 0])
qed

lemma stored_labels_cover:
  assumes H: "hierarchy_ok n ns es g" and L: "Labels_for n ns es g {0..<int n} L" and S: "stores_labels n L hn"
    and n: "length (hn_levels hn) = n" and U: "up_cover n (up_adj ns es g) adj"
  shows "label_cover adj hn"
  unfolding label_cover_def n
proof (intro allI impI)
  fix s t p c
  assume a: "0 \<le> s \<and> s < int n \<and> hn_hlLevel hn \<le> hn_levels hn ! nat s \<and> 0 \<le> t \<and> t < int n \<and>
    hn_hlLevel hn \<le> hn_levels hn ! nat t \<and> walk adj s p c \<and> last p = t"
  then obtain h a' b' where up: "up_walk (up_adj ns es g) s h a'" "up_walk (up_adj ns es g) t h b'" "a' + b' \<le> c"
    using U unfolding up_cover_def by blast
  have lab: "labelling {0..<int n} (node_lvl ns) (up_adj ns es g) (Labels_lab L)" using L by (simp add: Labels_for_def)
  have st: "s \<in> {0..<int n}" "t \<in> {0..<int n}" using a by auto
  obtain x d1 d2 where x: "Labels_lab L s x = Some d1" "Labels_lab L t x = Some d2" "d1 + d2 \<le> a' + b'"
    using common_hub[OF lab up(1) st(1) up(2) st(2)] by blast
  obtain i1 f1 e1 where r1: "Labels_row L s i1 f1 e1" by (rule Labels_for_row[OF H L st(1)])
  obtain i2 f2 e2 where r2: "Labels_row L t i2 f2 e2" by (rule Labels_for_row[OF H L st(2)])
  have "label_of hn s x d1" "label_of hn t x d2" using a stores_labels_of[OF S _ _ r1] stores_labels_of[OF S _ _ r2] x by auto
  then show "\<exists>h a b. label_of hn s h a \<and> label_of hn t h b \<and> a + b \<le> c" using x(3) up(3)
    by (intro exI[of _ x] exI[of _ d1] exI[of _ d2]) simp
qed

text \<open>What the label creation needs of a contracted graph with \<open>n\<close> nodes.\<close>

definition contracted :: "nat \<Rightarrow> Nodes \<Rightarrow> Edges \<Rightarrow> DynamicGrid \<Rightarrow> bool" where
  "contracted n ns es g \<longleftrightarrow> hierarchy_ok n ns es g \<and> Edges_wf n es \<and> grid_edges_ok n es g \<and>
     (\<exists>la lo. no_latitude ns = Some la \<and> no_longitude ns = Some lo \<and> length la = n \<and> length lo = n) \<and>
     (\<forall>v. 0 \<le> v \<and> v < int n \<longrightarrow> 0 \<le> node_lvl ns v) \<and>
     (\<forall>u v d. (v, d) \<in> set (original_adj es u) \<longrightarrow> (u, d) \<in> set (original_adj es v)) \<and>
     up_cover n (up_adj ns es g) (original_adj es)"

lemma contracted_labels:
  assumes "contracted n ns es g" "\<And>ts. mset (threadOrder ts) = mset ts" "Labels_initialize (int n) = Some L"
  shows "\<exists>L'. LabelCreator_calcLabels threadOrder ns es g L = Some L' \<and> Labels_for n ns es g {0..<int n} L'"
proof (rule LabelCreator_calcLabels_ok[OF _ _ _ assms(2)])
  show "hierarchy_ok n ns es g" "Nodes_getNodeCount ns = Some (int n)" "\<And>v. 0 \<le> v \<Longrightarrow> v < int n \<Longrightarrow> 0 \<le> node_lvl ns v"
    using assms(1) by (auto simp: contracted_def Nodes_getNodeCount_def)
  show "Labels_for n ns es g {} L" using Labels_initialize_ok[of n ns es g] assms(3) by auto
qed

lemma serializeHubLData_ok:
  assumes C: "contracted n ns es g" and L: "Labels_for n ns es g {0..<int n} L"
  shows "\<exists>hn he. LabelCreator_serializeHubLData ns es g L hn0 = HubLStore_storeData (hn, he) \<and>
    hn_latitudes hn = no_latitude ns \<and> hn_longitudes hn = no_longitude ns \<and> no_levels ns = Some (hn_levels hn) \<and>
    length (hn_levels hn) = n \<and> hn_hlLevel hn = NUM_OF_NO_LABEL_LVLS \<and>
    HubLEdges_wf (edge_starts es) (int n) he \<and> HubLNodes_wf (edge_starts es) hn he \<and> HubLNodes_located hn \<and>
    (\<forall>l \<in> set (hn_levels hn). hn_hlLevel hn \<le> l) \<and> HubLEdges_adj (edge_starts es) he = original_adj es \<and>
    label_cover (original_adj es) hn"
proof -
  have H: "hierarchy_ok n ns es g" "Edges_wf n es" "grid_edges_ok n es g" "up_cover n (up_adj ns es g) (original_adj es)"
    using C by (simp_all add: contracted_def)
  obtain la lo lv rows counts where c: "no_latitude ns = Some la" "no_longitude ns = Some lo" "length la = n" "length lo = n"
    "no_levels ns = Some lv" "length lv = n" "dg_allEdgeIds g = Some rows" "dg_allEdgeCount g = Some counts" "length rows = n" "length counts = n"
    using C by (auto simp: contracted_def hierarchy_ok_def)
  have pos: "\<forall>l \<in> set lv. 0 \<le> l"
    using C c(5,6) by (auto simp: contracted_def node_lvl_def in_set_conv_nth) (metis nat_int of_nat_0_le_iff of_nat_less_iff)
  have sz: "Edges_sized es" using H(2) by (simp add: Edges_wf_def)
  obtain he where he: "HubLEdges_initialize es = Some he" using HubLEdges_initialize_ok[OF sz] by blast
  define h1 where "h1 = (HubLNodes_initHlLvl hn0 NUM_OF_NO_LABEL_LVLS)\<lparr>hn_longitudes := Some lo, hn_latitudes := Some la, hn_levels := lv\<rparr>"
  define h2 where "h2 = h1\<lparr>hn_edgesOffset := replicate (Suc n) 0, hn_edges := []\<rparr>"
  define hn where "hn = h2\<lparr>hn_labelOffset := map (\<lambda>v. int (label_offset L v)) [0..<Suc n],
    hn_labelNode := map fst (all_triples L n) @ [-1], hn_labelEdge := map (\<lambda>t. fst (snd t)) (all_triples L n) @ [-1],
    hn_labelDist := map (\<lambda>t. snd (snd t)) (all_triples L n) @ [-1]\<rparr>"
  have f: "hn_latitudes hn = Some la" "hn_longitudes hn = Some lo" "hn_levels hn = lv" "hn_hlLevel hn = 0" "stores_labels n L hn"
    by (simp_all add: hn_def h2_def h1_def HubLNodes_initHlLvl_def NUM_OF_NO_LABEL_LVLS_def stores_labels_def)
  have "HubLNodes_initEdgeInfo h1 es g = Some (h2, g\<lparr>dg_allEdgeIds := None, dg_allEdgeCount := None\<rparr>)"
    unfolding h2_def by (rule HubLNodes_initEdgeInfo_ok[OF _ c(7-10)])
      (use c(6) pos in \<open>auto simp: h1_def HubLNodes_initHlLvl_def NUM_OF_NO_LABEL_LVLS_def\<close>)
  moreover have "HubLNodes_initLabelInfo h2 L = Some hn" unfolding hn_def by (rule HubLNodes_initLabelInfo_ok[OF Labels_for_complete[OF L]])
  ultimately have run: "LabelCreator_serializeHubLData ns es g L hn0 = HubLStore_storeData (hn, he)"
    by (simp add: LabelCreator_serializeHubLData_def he HubLNodes_initNodeData_def c(1,2,5) h1_def)
  note ed = HubLEdges_initialize_wf[OF H(2) he]
  have "HubLNodes_wf (edge_starts es) hn he" by (rule stored_labels_wf[OF H(1) L H(2,3) f(5) _ he]) (simp add: c(5) f(3))
  moreover have "label_cover (original_adj es) hn" by (rule stored_labels_cover[OF H(1) L f(5) _ H(4)]) (simp add: c(6) f(3))
  moreover have "HubLNodes_located hn" using c by (simp add: HubLNodes_located_def f)
  ultimately show ?thesis using run ed f c pos
    by (intro exI[of _ hn] exI[of _ he]) (simp add: NUM_OF_NO_LABEL_LVLS_def)
qed

end
