(* ===== verification/Contraction.thy ===== *)
theory Contraction
  imports HubLabelling
begin

text \<open>
  Contraction of a graph, without the data structures of the program. A state of the contraction
  consists of the contracted nodes, the edges they had to nodes contracted later and the current
  graph on the other nodes. \<open>contraction\<close> is the invariant: the current edges are shortest ways of
  the original graph, the current graph has the original distances, and each original way has upward
  ways from its ends to nodes that are the same or still connected. \<open>contract_step\<close>: an independent
  set of nodes can be contracted when an edge is added for each shortest way over one of them.
\<close>

section \<open>Ways\<close>

abbreviation way :: "adjacency \<Rightarrow> int \<Rightarrow> int \<Rightarrow> int \<Rightarrow> bool" where
  "way adj \<equiv> up_walk adj"

lemma way_snoc: "way adj u v c \<Longrightarrow> (x, w) \<in> set (adj v) \<Longrightarrow> way adj u x (c + w)"
  by (rule up_walk_trans[OF _ up_walk_edge])

lemma walk_way: "walk adj u p c \<Longrightarrow> way adj u (last p) c"
proof (induction rule: walk.induct)
  case (walk_step p c v w)
  then show ?case using way_snoc[of adj u "last p" c v w] by simp
qed (simp add: up_walk_refl)

lemma way_walk: "way adj u v c \<Longrightarrow> \<exists>p. walk adj u p c \<and> last p = v"
proof (induction rule: up_walk.induct)
  case (up_walk_refl v)
  show ?case by (rule exI[of _ "[v]"]) (simp add: walk_start)
next
  case (up_walk_step n w v h d)
  then obtain p where p: "walk adj n p d" "last p = h" by blast
  have "walk adj v ([v, n] @ tl p) (w + d)"
    using walk_append[OF walk_edge[of n w adj v], of p d] up_walk_step(1) p(1) by simp
  moreover have "last ([v, n] @ tl p) = h" using p walk_nonempty[OF p(1)] by (cases p) auto
  ultimately show ?case by blast
qed

lemma way_cases_last:
  assumes "way adj u v c"
  obtains "v = u" "c = 0" | m w where "way adj u m (c - w)" "(v, w) \<in> set (adj m)"
proof -
  obtain p where p: "walk adj u p c" "last p = v" using way_walk[OF assms] by blast
  from p(1) show thesis
  proof cases
    case walk_start
    then show ?thesis using that(1) p(2) by simp
  next
    case (walk_step q d x w)
    then show ?thesis using that(2)[of "last q" w] walk_way[of adj u q d] p(2) by simp
  qed
qed

definition least :: "adjacency \<Rightarrow> int \<Rightarrow> int \<Rightarrow> int \<Rightarrow> bool" where
  "least adj u v c \<longleftrightarrow> way adj u v c \<and> (\<forall>c'. way adj u v c' \<longrightarrow> c \<le> c')"

lemma leastD: "least adj u v c \<Longrightarrow> way adj u v c" "least adj u v c \<Longrightarrow> way adj u v c' \<Longrightarrow> c \<le> c'"
  by (simp_all add: least_def)

lemma least_unique: "least adj u v c \<Longrightarrow> least adj u v d \<Longrightarrow> c = d"
  by (meson leastD order_antisym)

lemma least_exists:
  assumes "way adj u v c" "\<And>d. way adj u v d \<Longrightarrow> 0 \<le> d"
  obtains d where "least adj u v d" "d \<le> c"
proof -
  define k where "k = (LEAST k. way adj u v (int k))"
  have ex: "way adj u v (int (nat c))" using assms by simp
  then have "way adj u v (int k)" unfolding k_def by (rule LeastI)
  moreover have "int k \<le> d" if "way adj u v d" for d
    using Least_le[of "\<lambda>k. way adj u v (int k)" "nat d"] that assms(2)[OF that] by (simp add: k_def le_nat_iff)
  ultimately show thesis using that assms(1) by (auto simp: least_def)
qed

text \<open>A part of a shortest way is a shortest way.\<close>

lemma least_prefix: "least adj u v (a + b) \<Longrightarrow> way adj u m a \<Longrightarrow> way adj m v b \<Longrightarrow> least adj u m a"
  unfolding least_def using up_walk_trans by fastforce

lemma least_suffix: "least adj u v (a + b) \<Longrightarrow> way adj u m a \<Longrightarrow> way adj m v b \<Longrightarrow> least adj m v b"
  unfolding least_def using up_walk_trans by fastforce

section \<open>The invariant\<close>

definition covered :: "int set \<Rightarrow> adjacency \<Rightarrow> adjacency \<Rightarrow> int \<Rightarrow> int \<Rightarrow> int \<Rightarrow> bool" where
  "covered R up cur s t c \<longleftrightarrow> (\<exists>x y a b d. way up s x a \<and> way up t y b \<and> a + b + d \<le> c \<and>
     (x = y \<and> d = 0 \<or> x \<in> R \<and> y \<in> R \<and> way cur x y d))"

definition contraction :: "int set \<Rightarrow> adjacency \<Rightarrow> int set \<Rightarrow> adjacency \<Rightarrow> adjacency \<Rightarrow> bool" where
  "contraction V adj X up cur \<longleftrightarrow> X \<subseteq> V \<and>
     (\<forall>u \<in> V - X. \<forall>v w. (v, w) \<in> set (cur u) \<longrightarrow> v \<in> V - X \<and> 0 < w \<and> (u, w) \<in> set (cur v) \<and> least adj u v w) \<and>
     (\<forall>u \<in> V - X. \<forall>v \<in> V - X. \<forall>c. way adj u v c \<longrightarrow> (\<exists>c' \<le> c. way cur u v c')) \<and>
     (\<forall>s \<in> V. \<forall>t c. way adj s t c \<longrightarrow> covered (V - X) up cur s t c)"

lemma contractionD:
  assumes "contraction V adj X up cur"
  shows "X \<subseteq> V"
    and "u \<in> V - X \<Longrightarrow> (v, w) \<in> set (cur u) \<Longrightarrow> v \<in> V - X \<and> 0 < w \<and> (u, w) \<in> set (cur v) \<and> least adj u v w"
    and "u \<in> V - X \<Longrightarrow> v \<in> V - X \<Longrightarrow> way adj u v c \<Longrightarrow> \<exists>c' \<le> c. way cur u v c'"
    and "s \<in> V \<Longrightarrow> way adj s t c \<Longrightarrow> covered (V - X) up cur s t c"
proof -
  note C = assms[unfolded contraction_def]
  show "X \<subseteq> V" using C by (rule conjunct1)
  note C = C[THEN conjunct2]
  show "v \<in> V - X \<and> 0 < w \<and> (u, w) \<in> set (cur v) \<and> least adj u v w" if "u \<in> V - X" "(v, w) \<in> set (cur u)"
    using C[THEN conjunct1, rule_format, OF that] .
  note C = C[THEN conjunct2]
  show "\<exists>c' \<le> c. way cur u v c'" if "u \<in> V - X" "v \<in> V - X" "way adj u v c"
    using C[THEN conjunct1, rule_format, OF that] .
  show "covered (V - X) up cur s t c" if "s \<in> V" "way adj s t c"
    using C[THEN conjunct2, rule_format, OF that] .
qed

lemma contraction_way:
  assumes C: "contraction V adj X up cur" and "way cur u v c" "u \<in> V - X"
  shows "v \<in> V - X \<and> 0 \<le> c \<and> way adj u v c \<and> way cur v u c \<and> (v \<noteq> u \<longrightarrow> 0 < c)"
  using assms(2,3)
proof induction
  case (up_walk_step n w v h d)
  note e = contractionD(2)[OF C up_walk_step.prems up_walk_step.hyps(1)]
  have n: "n \<in> V - X" using e by simp
  note IH = up_walk_step.IH[OF n]
  have "way adj v h (w + d)" using e IH up_walk_trans leastD(1) by blast
  moreover have "way cur h v (w + d)" using way_snoc[of cur h n d v w] IH e by (simp add: add.commute)
  ultimately show ?case using e IH by auto
qed (simp add: up_walk_refl)

lemma contraction_least:
  assumes C: "contraction V adj X up cur" and u: "u \<in> V - X" and v: "v \<in> V - X"
  shows "least cur u v c \<longleftrightarrow> least adj u v c"
proof
  assume l: "least cur u v c"
  have "way adj u v c" using contraction_way[OF C leastD(1)[OF l] u] by simp
  moreover have "c \<le> c'" if "way adj u v c'" for c'
    using contractionD(3)[OF C u v that] leastD(2)[OF l] by (meson order_trans)
  ultimately show "least adj u v c" by (simp add: least_def)
next
  assume l: "least adj u v c"
  obtain c' where c: "c' \<le> c" "way cur u v c'" using contractionD(3)[OF C u v leastD(1)[OF l]] by blast
  have le: "c \<le> d" if "way cur u v d" for d using contraction_way[OF C that u] leastD(2)[OF l] by simp
  then have "c' = c" using c by force
  then show "least cur u v c" using c(2) le by (simp add: least_def)
qed

lemma contraction_edge_least: "contraction V adj X up cur \<Longrightarrow> u \<in> V - X \<Longrightarrow> (v, w) \<in> set (cur u) \<Longrightarrow> least cur u v w"
  using contraction_least contractionD(2) by blast

lemma contraction_least_rev:
  assumes C: "contraction V adj X up cur" and u: "u \<in> V - X" and l: "least cur u v c"
  shows "least cur v u c"
proof -
  note r = contraction_way[OF C leastD(1)[OF l] u]
  have "c \<le> d" if "way cur v u d" for d using contraction_way[OF C that] r leastD(2)[OF l] by simp
  then show ?thesis using r by (simp add: least_def)
qed

section \<open>One step\<close>

definition independent :: "int set \<Rightarrow> adjacency \<Rightarrow> bool" where
  "independent I cur \<longleftrightarrow> (\<forall>u \<in> I. \<forall>v w. (v, w) \<in> set (cur u) \<longrightarrow> v \<notin> I)"

lemma independentD: "independent I cur \<Longrightarrow> u \<in> I \<Longrightarrow> (v, w) \<in> set (cur u) \<Longrightarrow> v \<notin> I"
  unfolding independent_def by blast

text \<open>
  The set \<open>I\<close> is contracted. The new current graph keeps the edges between other nodes and gets new
  edges for shortest ways of two edges over a node of \<open>I\<close>, for each such way unless there is one.
\<close>

definition contracts :: "int set \<Rightarrow> int set \<Rightarrow> adjacency \<Rightarrow> adjacency \<Rightarrow> bool" where
  "contracts R I cur cur' \<longleftrightarrow>
     (\<forall>u \<in> R - I. \<forall>v w. (v, w) \<in> set (cur u) \<and> v \<notin> I \<longrightarrow> (v, w) \<in> set (cur' u)) \<and>
     (\<forall>u \<in> R - I. \<forall>v w. (v, w) \<in> set (cur' u) \<longrightarrow> v \<notin> I \<and> ((v, w) \<in> set (cur u) \<or>
        (\<exists>m w1 w2. m \<in> I \<and> (m, w1) \<in> set (cur u) \<and> (v, w2) \<in> set (cur m) \<and> w = w1 + w2 \<and> v \<noteq> u \<and> least cur u v w))) \<and>
     (\<forall>u \<in> R - I. \<forall>m \<in> I. \<forall>v w1 w2. (m, w1) \<in> set (cur u) \<and> (v, w2) \<in> set (cur m) \<and> v \<noteq> u \<and> least cur u v (w1 + w2) \<longrightarrow>
        (v, w1 + w2) \<in> set (cur' u))"

lemma contractsD:
  assumes "contracts R I cur cur'" "u \<in> R - I"
  shows "(v, w) \<in> set (cur u) \<Longrightarrow> v \<notin> I \<Longrightarrow> (v, w) \<in> set (cur' u)"
    and "(v, w) \<in> set (cur' u) \<Longrightarrow> v \<notin> I \<and> ((v, w) \<in> set (cur u) \<or>
        (\<exists>m w1 w2. m \<in> I \<and> (m, w1) \<in> set (cur u) \<and> (v, w2) \<in> set (cur m) \<and> w = w1 + w2 \<and> v \<noteq> u \<and> least cur u v w))"
    and "m \<in> I \<Longrightarrow> (m, w1) \<in> set (cur u) \<Longrightarrow> (v, w2) \<in> set (cur m) \<Longrightarrow> v \<noteq> u \<Longrightarrow> least cur u v (w1 + w2) \<Longrightarrow>
        (v, w1 + w2) \<in> set (cur' u)"
  using assms unfolding contracts_def by blast+

lemma contracts_least:
  assumes C: "contraction V adj X up cur" and K: "contracts (V - X) I cur cur'"
    and ind: "independent I cur"
    and u: "u \<in> V - X - I"
  shows "least cur u v c \<Longrightarrow> v \<notin> I \<Longrightarrow> way cur' u v c"
proof (induction "nat c" arbitrary: v c rule: less_induct)
  case less
  have uR: "u \<in> V - X" using u by simp
  from leastD(1)[OF less.prems(1)] show ?case
  proof (cases rule: way_cases_last)
    case 1
    then show ?thesis by (simp add: up_walk_refl)
  next
    case (2 m w)
    have m: "m \<in> V - X" "0 \<le> c - w" using contraction_way[OF C 2(1) uR] by auto
    note e = contractionD(2)[OF C m(1) 2(2)]
    have lm: "least cur u m (c - w)" using least_prefix[of cur u v "c - w" w m] less.prems(1) 2 up_walk_edge[of v w cur m] by simp
    show ?thesis
    proof (cases "m \<in> I")
      case False
      have "way cur' u m (c - w)" by (rule less.hyps[OF _ lm False]) (use e m in simp)
      moreover have "(v, w) \<in> set (cur' m)" using contractsD(1)[OF K _ 2(2)] m(1) False less.prems(2) by simp
      ultimately show ?thesis using way_snoc[of cur' u m "c - w" v w] by simp
    next
      case True
      then have mu: "m \<noteq> u" using u by auto
      from 2(1) obtain a w' where a: "way cur u a (c - w - w')" "(m, w') \<in> set (cur a)"
        by (cases rule: way_cases_last) (use mu in auto)
      have aR: "a \<in> V - X" "0 \<le> c - w - w'" using contraction_way[OF C a(1) uR] by auto
      note e' = contractionD(2)[OF C aR(1) a(2)]
      have aI: "a \<notin> I" using independentD[OF ind, of m a w'] True e' by auto
      have two: "way cur a v (w' + w)" by (rule up_walk_trans[OF up_walk_edge[of _ _ cur] up_walk_edge[of _ _ cur]]) (fact a(2) 2(2))+
      have c: "c = (c - w - w') + (w' + w)" by simp
      have la: "least cur u a (c - w - w')" by (rule least_prefix[OF _ a(1) two]) (use less.prems(1) c in simp)
      have lv: "least cur a v (w' + w)" by (rule least_suffix[OF _ a(1) two]) (use less.prems(1) c in simp)
      have "v \<noteq> a" using leastD(2)[OF lv, of 0] up_walk_refl[of cur a] e e' by auto
      then have "(v, w' + w) \<in> set (cur' a)" using contractsD(3)[OF K _ True a(2) 2(2)] lv aR aI by simp
      moreover have "way cur' u a (c - w - w')" by (rule less.hyps[OF _ la aI]) (use e e' aR in simp)
      ultimately show ?thesis using way_snoc[of cur' u a "c - w - w'" v "w' + w"] by simp
    qed
  qed
qed

lemma contracts_distances:
  assumes C: "contraction V adj X up cur" and K: "contracts (V - X) I cur cur'"
    and ind: "independent I cur"
    and u: "u \<in> V - X - I" and v: "v \<notin> I" and w: "way cur u v c"
  shows "\<exists>c' \<le> c. way cur' u v c'"
proof -
  have "0 \<le> d" if "way cur u v d" for d using contraction_way[OF C that] u by simp
  with w obtain d where "least cur u v d" "d \<le> c" by (rule least_exists)
  with contracts_least[OF C K ind u _ v] show ?thesis by blast
qed

lemma contract_step:
  assumes C: "contraction V adj X up cur" and K: "contracts (V - X) I cur cur'" and I: "I \<subseteq> V - X"
    and ind: "independent I cur"
    and up: "\<And>v. set (up v) \<subseteq> set (up' v)" "\<And>v. v \<in> I \<Longrightarrow> set (cur v) \<subseteq> set (up' v)"
  shows "contraction V adj (X \<union> I) up' cur'"
  unfolding contraction_def
proof (intro conjI ballI allI impI)
  have R: "V - (X \<union> I) = V - X - I" by blast
  show "X \<union> I \<subseteq> V" using I contractionD(1)[OF C] by blast
  have edge: "v \<in> V - X - I \<and> 0 < w \<and> least cur u v w" if u: "u \<in> V - X - I" and e: "(v, w) \<in> set (cur' u)" for u v w
  proof -
    have uR: "u \<in> V - X" using u by simp
    from contractsD(2)[OF K u e] consider "v \<notin> I" "(v, w) \<in> set (cur u)" | m w1 w2 where "v \<notin> I" "m \<in> I" "(m, w1) \<in> set (cur u)"
      "(v, w2) \<in> set (cur m)" "w = w1 + w2" "least cur u v w" by blast
    then show ?thesis
    proof cases
      case 1
      then show ?thesis using contractionD(2)[OF C uR 1(2)] contraction_edge_least[OF C uR 1(2)] by simp
    next
      case 2
      have "m \<in> V - X" using 2(2) I by blast
      from contractionD(2)[OF C this 2(4)] contractionD(2)[OF C uR 2(3)] 2 show ?thesis by simp
    qed
  qed
  fix u assume u: "u \<in> V - (X \<union> I)"
  then have uI: "u \<in> V - X - I" "u \<in> V - X" by blast+
  {
    fix v w assume e: "(v, w) \<in> set (cur' u)"
    note ev = edge[OF uI(1) e]
    then show "v \<in> V - (X \<union> I)" "0 < w" by auto
    have vR: "v \<in> V - X" using ev by simp
    show "least adj u v w" using contraction_least[OF C uI(2) vR] ev by simp
    have rev: "least cur v u w" using contraction_least_rev[OF C uI(2)] ev by blast
    from contractsD(2)[OF K uI(1) e] consider "(v, w) \<in> set (cur u)" | m w1 w2 where "m \<in> I" "(m, w1) \<in> set (cur u)"
      "(v, w2) \<in> set (cur m)" "w = w1 + w2" "v \<noteq> u" by blast
    then show "(u, w) \<in> set (cur' v)"
    proof cases
      case 1
      then show ?thesis using contractsD(1)[OF K] contractionD(2)[OF C uI(2) 1] ev uI by blast
    next
      case 2
      have m: "m \<in> V - X" using 2(1) I by blast
      have "(m, w2) \<in> set (cur v)" "(u, w1) \<in> set (cur m)"
        using contractionD(2)[OF C m 2(3)] contractionD(2)[OF C uI(2) 2(2)] by simp_all
      from contractsD(3)[OF K _ 2(1) this] ev rev 2 show ?thesis by (simp add: add.commute)
    qed
  }
  fix v c assume v: "v \<in> V - (X \<union> I)" and w: "way adj u v c"
  have vI: "v \<in> V - X" "v \<notin> I" using v by blast+
  obtain d where "d \<le> c" "way cur u v d" using contractionD(3)[OF C uI(2) vI(1) w] by blast
  with contracts_distances[OF C K ind uI(1) vI(2)] show "\<exists>c' \<le> c. way cur' u v c'" by (meson order_trans)
next
  have upw: "way up' s x a" if "way up s x a" for s x a by (rule up_walk_cong[OF that, of UNIV]) (use up(1) in auto)
  have climb: "\<exists>x' a d'. way up' x x' a \<and> x' \<in> V - X - I \<and> way cur x' y d' \<and> a + d' = d"
    if xy: "x \<in> V - X" "way cur x y d" "x \<noteq> y" for x y d
  proof (cases "x \<in> I")
    case True
    from xy(2) show ?thesis
    proof cases
      case (up_walk_step n w d')
      have "n \<in> V - X - I" using contractionD(2)[OF C xy(1) up_walk_step(2)] independentD[OF ind True up_walk_step(2)] by blast
      moreover have "way up' x n w" using up(2)[OF True] up_walk_step(2) by (intro up_walk_edge) blast
      ultimately show ?thesis using up_walk_step(1,3) by blast
    qed (use xy(3) in simp)
  next
    case False
    then show ?thesis using xy up_walk_refl[of up' x] by (intro exI[of _ x] exI[of _ 0] exI[of _ d]) simp
  qed
  fix s t c assume s: "s \<in> V" and w: "way adj s t c"
  obtain x y a b d where xy: "way up s x a" "way up t y b" "a + b + d \<le> c"
    "x = y \<and> d = 0 \<or> x \<in> V - X \<and> y \<in> V - X \<and> way cur x y d"
    using contractionD(4)[OF C s w] unfolding covered_def by blast
  have x: "way up' s x a" "way up' t y b" using xy(1,2) upw by blast+
  have R: "V - (X \<union> I) = V - X - I" by blast
  show "covered (V - (X \<union> I)) up' cur' s t c"
  proof (cases "x = y")
    case True
    have "0 \<le> d" using xy(4) contraction_way[OF C, of x y d] by auto
    then show ?thesis unfolding covered_def using x xy(3) True
      by (intro exI[of _ x] exI[of _ y] exI[of _ a] exI[of _ b] exI[of _ 0]) simp
  next
    case False
    then have xR: "x \<in> V - X" "y \<in> V - X" "way cur x y d" using xy(4) by auto
    obtain x' a' d' where x': "way up' x x' a'" "x' \<in> V - X - I" "way cur x' y d'" "a' + d' = d"
      using climb[OF xR(1,3) False] by blast
    have yx': "way cur y x' d'" "x' \<in> V - X" using contraction_way[OF C x'(3)] x'(2) by auto
    show ?thesis
    proof (cases "y = x'")
      case True
      have "0 \<le> d'" using contraction_way[OF C yx'(1) xR(2)] by simp
      then show ?thesis unfolding covered_def using up_walk_trans[OF x(1) x'(1)] x(2) True xy(3) x'(4)
        by (intro exI[of _ x'] exI[of _ y] exI[of _ "a + a'"] exI[of _ b] exI[of _ 0]) simp
    next
      case False
      obtain y' b' e where y': "way up' y y' b'" "y' \<in> V - X - I" "way cur y' x' e" "b' + e = d'"
        using climb[OF xR(2) yx'(1) False] by blast
      have "way cur x' y' e" using contraction_way[OF C y'(3)] y'(2) by blast
      then obtain e' where e': "e' \<le> e" "way cur' x' y' e'" using contracts_distances[OF C K ind x'(2) _] y'(2) by blast
      show ?thesis unfolding covered_def R
        using up_walk_trans[OF x(1) x'(1)] up_walk_trans[OF x(2) y'(1)] xy(3) x'(2,4) y'(2,4) e'
        by (intro exI[of _ x'] exI[of _ y'] exI[of _ "a + a'"] exI[of _ "b + b'"] exI[of _ e']) simp
    qed
  qed
qed

section \<open>Start and end\<close>

lemma contraction_initial:
  assumes adj: "\<And>u v w. u \<in> V \<Longrightarrow> (v, w) \<in> set (adj u) \<Longrightarrow> v \<in> V \<and> 0 < w \<and> (u, w) \<in> set (adj v) \<and> least adj u v w"
    and cur: "\<And>u. u \<in> V \<Longrightarrow> cur u = adj u"
  shows "contraction V adj {} up cur"
proof -
  have step: "v \<in> V \<and> (v, w) \<in> set (cur u)" if "u \<in> V" "(v, w) \<in> set (adj u)" for u v w using adj[OF that] cur[OF that(1)] that(2) by simp
  have same: "way cur u v c" if "way adj u v c" "u \<in> V" for u v c by (rule up_walk_cong[OF that step])
  have inV: "v \<in> V" if "way adj u v c" "u \<in> V" for u v c using that by induction (use adj in blast)+
  have cov: "covered V up cur s t c" if "s \<in> V" "way adj s t c" for s t c
    unfolding covered_def using that inV[OF that(2,1)] same[OF that(2,1)] up_walk_refl[of up]
    by (intro exI[of _ s] exI[of _ t] exI[of _ 0] exI[of _ 0] exI[of _ c]) simp
  have "v \<in> V \<and> 0 < w \<and> (u, w) \<in> set (cur v) \<and> least adj u v w" if "u \<in> V" "(v, w) \<in> set (cur u)" for u v w
  proof -
    have e: "(v, w) \<in> set (adj u)" using that cur[OF that(1)] by simp
    from adj[OF that(1) e] show ?thesis using cur[of v] by simp
  qed
  moreover have "\<exists>c' \<le> c. way cur u v c'" if "u \<in> V" "way adj u v c" for u v c using same[OF that(2,1)] by blast
  ultimately show ?thesis unfolding contraction_def Diff_empty using cov by blast
qed

lemma contraction_complete:
  assumes "contraction V adj V up cur" "s \<in> V" "way adj s t c"
  shows "\<exists>h a b. way up s h a \<and> way up t h b \<and> a + b \<le> c"
  using contractionD(4)[OF assms] unfolding covered_def by fastforce

text \<open>A shortest way is not longer than a way without repetition can be.\<close>

lemma least_bound:
  assumes l: "least adj u v c" and u: "u \<in> V" and V: "finite V" "\<And>u v w. u \<in> V \<Longrightarrow> (v, w) \<in> set (adj u) \<Longrightarrow> v \<in> V \<and> w \<le> W" "0 \<le> W"
  shows "c \<le> int (card V) * W"
proof -
  obtain p where p: "walk adj u p c" "last p = v" using way_walk[OF leastD(1)[OF l]] by blast
  obtain q d where q: "walk adj u q d" "last q = v" "distinct q" using distinct_walk[OF p(1)] p(2) by blast
  have "c \<le> d" using leastD(2)[OF l] walk_way[OF q(1)] q(2) by simp
  also have in_V: "set q \<subseteq> V \<and> d \<le> (int (length q) - 1) * W" by (rule walk_inside[OF q(1) u V(2)])
  then have "d \<le> int (length q) * W" using V(3) by (simp add: algebra_simps)
  also have "\<dots> \<le> int (card V) * W"
    using card_mono[OF V(1), of "set q"] in_V distinct_card[OF q(3)] V(3) by (intro mult_right_mono) auto
  finally show ?thesis .
qed

text \<open>When all edges are equally long, each is a shortest way between its ends.\<close>

lemma way_uniform:
  assumes "way adj u v c" "\<And>u v w. (v, w) \<in> set (adj u) \<Longrightarrow> w = W" "0 \<le> W"
  shows "0 \<le> c \<and> (u \<noteq> v \<longrightarrow> W \<le> c)"
  using assms(1)
proof induction
  case (up_walk_step x w u v c)
  have "w = W" using assms(2) up_walk_step(1) by blast
  then show ?case using up_walk_step.IH assms(3) by auto
qed simp

lemma least_uniform:
  assumes e: "(v, w) \<in> set (adj u)" and ne: "u \<noteq> v" and W: "\<And>u v w. (v, w) \<in> set (adj u) \<Longrightarrow> w = W" "0 \<le> W"
  shows "least adj u v w"
proof -
  have "w = W" using W(1) e by blast
  moreover have "W \<le> c" if "way adj u v c" for c using way_uniform[OF that, of W] W ne by blast
  ultimately show ?thesis using up_walk_edge[of v w adj u] e by (simp add: least_def)
qed

end
