(* ===== verification/CHDijkstra.thy ===== *)
theory CHDijkstra
  imports Contraction LabelCreationData IntCollections DistanceHeap
begin

text \<open>
  The thread that finds the shortcuts of a contraction: \<open>hublablecreation/CHDijkstra.java\<close>, with its
  sorted array of found nodes and the arrays parallel to it.

  A search from a neighbour of the contracted node is the algorithm of the locale \<open>best_first\<close> with
  one change: of equally long ways the one over the contracted node is preferred. The lemmas show
  that a shortcut is recorded exactly for the shortest ways of two edges over the contracted node.
\<close>

section \<open>The thread\<close>

definition CHDijkstra_INITIAL_ARRAY_SIZE :: int where
  "CHDijkstra_INITIAL_ARRAY_SIZE = 10"

definition CHDijkstra_SIZE_INCREASE :: int where
  "CHDijkstra_SIZE_INCREASE = 5"

definition CHDijkstra_MULTIPLE_STEP_NUMBER :: nat where
  "CHDijkstra_MULTIPLE_STEP_NUMBER = 10"

text \<open>The field \<open>neighbours\<close> is \<open>null\<close> before the first search.\<close>

record CHDijkstra =
  cd_foundIds :: "int list"
  cd_foundIdCount :: int
  cd_previousNodes :: "int list"
  cd_previousEdges :: "int list"
  cd_distances :: "int list"
  cd_finalDistance :: "bool list"
  cd_neighbours :: "int list option"
  cd_initialNode :: int
  cd_shortcuts :: IntArrayList
  cd_heap :: DistanceHeap
  cd_nodeIdsToCalc :: IntArrayList

definition CHDijkstra_new :: "CHDijkstra option" where
  "CHDijkstra_new = do {
     foundIds \<leftarrow> newArray CHDijkstra_INITIAL_ARRAY_SIZE 0;
     distances \<leftarrow> newArray CHDijkstra_INITIAL_ARRAY_SIZE 0;
     finalDistance \<leftarrow> newArray CHDijkstra_INITIAL_ARRAY_SIZE False;
     previousNodes \<leftarrow> newArray CHDijkstra_INITIAL_ARRAY_SIZE 0;
     previousEdges \<leftarrow> newArray CHDijkstra_INITIAL_ARRAY_SIZE 0;
     shortcuts \<leftarrow> IntArrayList_new (CHDijkstra_INITIAL_ARRAY_SIZE * 4);
     heap \<leftarrow> DistanceHeap_newDefault;
     nodeIdsToCalc \<leftarrow> IntArrayList_new 5000;
     Some \<lparr>cd_foundIds = foundIds, cd_foundIdCount = 0, cd_previousNodes = previousNodes, cd_previousEdges = previousEdges,
       cd_distances = distances, cd_finalDistance = finalDistance, cd_neighbours = None, cd_initialNode = 0,
       cd_shortcuts = shortcuts, cd_heap = heap, cd_nodeIdsToCalc = nodeIdsToCalc\<rparr>
   }"

definition CHDijkstra_addNodeId :: "CHDijkstra \<Rightarrow> int \<Rightarrow> CHDijkstra option" where
  "CHDijkstra_addNodeId h nodeId = do {
     l \<leftarrow> IntArrayList_add (cd_nodeIdsToCalc h) nodeId;
     Some (h\<lparr>cd_nodeIdsToCalc := l\<rparr>)
   }"

definition CHDijkstra_grow :: "CHDijkstra \<Rightarrow> CHDijkstra option" where
  "CHDijkstra_grow h = do {
     let oldLen = int (length (cd_foundIds h));
     foundIds \<leftarrow> copyOf (cd_foundIds h) (oldLen + CHDijkstra_SIZE_INCREASE) 0;
     foundIds \<leftarrow> fillRange foundIds oldLen (int (length foundIds)) MAX_VALUE;
     distances \<leftarrow> copyOf (cd_distances h) (oldLen + CHDijkstra_SIZE_INCREASE) 0;
     finalDistance \<leftarrow> copyOf (cd_finalDistance h) (oldLen + CHDijkstra_SIZE_INCREASE) False;
     previousNodes \<leftarrow> copyOf (cd_previousNodes h) (oldLen + CHDijkstra_SIZE_INCREASE) 0;
     previousEdges \<leftarrow> copyOf (cd_previousEdges h) (oldLen + CHDijkstra_SIZE_INCREASE) 0;
     Some (h\<lparr>cd_foundIds := foundIds, cd_distances := distances, cd_finalDistance := finalDistance,
       cd_previousNodes := previousNodes, cd_previousEdges := previousEdges\<rparr>)
   }"

definition CHDijkstra_addNodeIfNecessary :: "CHDijkstra \<Rightarrow> int \<Rightarrow> (int \<times> CHDijkstra) option" where
  "CHDijkstra_addNodeIfNecessary h nodeId = do {
     nodeIdx \<leftarrow> binarySearch (cd_foundIds h) nodeId;
     if nodeIdx < 0 then do {
       h \<leftarrow> (if int (length (cd_foundIds h)) = cd_foundIdCount h then CHDijkstra_grow h else Some h);
       let nodeIdx = (nodeIdx + 1) * (-1);
       foundIds \<leftarrow> arraycopy (cd_foundIds h) nodeIdx (cd_foundIds h) (nodeIdx + 1) (cd_foundIdCount h - nodeIdx);
       foundIds \<leftarrow> aset foundIds nodeIdx nodeId;
       distances \<leftarrow> arraycopy (cd_distances h) nodeIdx (cd_distances h) (nodeIdx + 1) (cd_foundIdCount h - nodeIdx);
       finalDistance \<leftarrow> arraycopy (cd_finalDistance h) nodeIdx (cd_finalDistance h) (nodeIdx + 1) (cd_foundIdCount h - nodeIdx);
       finalDistance \<leftarrow> aset finalDistance nodeIdx False;
       distances \<leftarrow> aset distances nodeIdx (-1);
       previousNodes \<leftarrow> arraycopy (cd_previousNodes h) nodeIdx (cd_previousNodes h) (nodeIdx + 1) (cd_foundIdCount h - nodeIdx);
       previousEdges \<leftarrow> arraycopy (cd_previousEdges h) nodeIdx (cd_previousEdges h) (nodeIdx + 1) (cd_foundIdCount h - nodeIdx);
       Some (nodeIdx, h\<lparr>cd_foundIds := foundIds, cd_distances := distances, cd_finalDistance := finalDistance,
         cd_previousNodes := previousNodes, cd_previousEdges := previousEdges, cd_foundIdCount := cd_foundIdCount h + 1\<rparr>)
     } else Some (nodeIdx, h)
   }"

fun CHDijkstra_allNodesFound :: "CHDijkstra \<Rightarrow> int list \<Rightarrow> bool option" where
  "CHDijkstra_allNodesFound h [] = Some True"
| "CHDijkstra_allNodesFound h (nodeId # nodes) = do {
     idx \<leftarrow> binarySearch (cd_foundIds h) nodeId;
     if idx < 0 then Some False
     else do {
       final \<leftarrow> aget (cd_finalDistance h) idx;
       if \<not> final then Some False else CHDijkstra_allNodesFound h nodes
     }
   }"

text \<open>A shorter way was found, or an equally long one over the preferred node.\<close>

definition CHDijkstra_update :: "CHDijkstra \<Rightarrow> int \<Rightarrow> int \<Rightarrow> int \<Rightarrow> int \<Rightarrow> int \<Rightarrow> CHDijkstra option" where
  "CHDijkstra_update h destNodeIdx destNode nodeId edgeId newDistance = do {
     distances \<leftarrow> aset (cd_distances h) destNodeIdx newDistance;
     previousNodes \<leftarrow> aset (cd_previousNodes h) destNodeIdx nodeId;
     previousEdges \<leftarrow> aset (cd_previousEdges h) destNodeIdx edgeId;
     heap \<leftarrow> DistanceHeap_add (cd_heap h) destNode newDistance;
     Some (h\<lparr>cd_distances := distances, cd_previousNodes := previousNodes, cd_previousEdges := previousEdges, cd_heap := heap\<rparr>)
   }"

definition CHDijkstra_relax :: "Edges \<Rightarrow> int \<Rightarrow> int \<Rightarrow> int list option \<Rightarrow> int \<Rightarrow> CHDijkstra \<Rightarrow> CHDijkstra option" where
  "CHDijkstra_relax es preferredNode nodeId edgeIds i h = do {
     edgeId \<leftarrow> rowget edgeIds i;
     destNode \<leftarrow> Edges_getDest es edgeId;
     (destNodeIdx, h) \<leftarrow> CHDijkstra_addNodeIfNecessary h destNode;
     nodeIdx \<leftarrow> binarySearch (cd_foundIds h) nodeId;
     finalDistance \<leftarrow> aset (cd_finalDistance h) nodeIdx True;
     let h = h\<lparr>cd_finalDistance := finalDistance\<rparr>;
     nodeDist \<leftarrow> aget (cd_distances h) nodeIdx;
     edgeDist \<leftarrow> Edges_getDist es edgeId;
     let newDistance = jadd nodeDist edgeDist;
     destDist \<leftarrow> aget (cd_distances h) destNodeIdx;
     if destDist = -1 \<or> newDistance < destDist then CHDijkstra_update h destNodeIdx destNode nodeId edgeId newDistance
     else if nodeId = preferredNode \<and> newDistance = destDist then CHDijkstra_update h destNodeIdx destNode nodeId edgeId newDistance
     else Some h
   }"

definition CHDijkstra_nextStep :: "Edges \<Rightarrow> DynamicGrid \<Rightarrow> int \<Rightarrow> CHDijkstra \<Rightarrow> (bool \<times> CHDijkstra) option" where
  "CHDijkstra_nextStep es g preferredNode h =
     (if DistanceHeap_isEmpty (cd_heap h) then Some (False, h)
      else do {
        (nodeId, heap) \<leftarrow> DistanceHeap_getNext (cd_heap h);
        let h = h\<lparr>cd_heap := heap\<rparr>;
        edgeCount \<leftarrow> DynamicGrid_getCurrentEdgeCount g nodeId;
        edgeIds \<leftarrow> DynamicGrid_getCurrentEdges g nodeId;
        h \<leftarrow> for_range 0 edgeCount (CHDijkstra_relax es preferredNode nodeId edgeIds) h;
        Some (True, h)
      })"

primrec CHDijkstra_steps :: "Edges \<Rightarrow> DynamicGrid \<Rightarrow> int \<Rightarrow> nat \<Rightarrow> CHDijkstra \<Rightarrow> CHDijkstra option" where
  "CHDijkstra_steps es g preferredNode 0 h = Some h"
| "CHDijkstra_steps es g preferredNode (Suc k) h = do {
     (more, h) \<leftarrow> CHDijkstra_nextStep es g preferredNode h;
     if more then CHDijkstra_steps es g preferredNode k h else Some h
   }"

definition CHDijkstra_multipleNextSteps :: "Edges \<Rightarrow> DynamicGrid \<Rightarrow> int \<Rightarrow> CHDijkstra \<Rightarrow> CHDijkstra option" where
  "CHDijkstra_multipleNextSteps es g preferredNode h = CHDijkstra_steps es g preferredNode CHDijkstra_MULTIPLE_STEP_NUMBER h"

partial_function (option) CHDijkstra_search :: "Edges \<Rightarrow> DynamicGrid \<Rightarrow> int \<Rightarrow> int list \<Rightarrow> CHDijkstra \<Rightarrow> CHDijkstra option" where
  "CHDijkstra_search es g preferredNode neighbours h = do {
     found \<leftarrow> CHDijkstra_allNodesFound h neighbours;
     if \<not> found \<and> \<not> DistanceHeap_isEmpty (cd_heap h) then do {
       h \<leftarrow> CHDijkstra_multipleNextSteps es g preferredNode h;
       CHDijkstra_search es g preferredNode neighbours h
     } else Some h
   }"

declare CHDijkstra_search.simps [code]

definition CHDijkstra_nextCalc :: "Edges \<Rightarrow> DynamicGrid \<Rightarrow> int \<Rightarrow> int list \<Rightarrow> int \<Rightarrow> CHDijkstra \<Rightarrow> CHDijkstra option" where
  "CHDijkstra_nextCalc es g initialNode neighbours preferredNode h = do {
     foundIds \<leftarrow> aset (fillAll (cd_foundIds h) MAX_VALUE) 0 initialNode;
     distances \<leftarrow> aset (fillAll (cd_distances h) 0) 0 0;
     heap \<leftarrow> DistanceHeap_add (DistanceHeap_reset (cd_heap h)) initialNode 0;
     CHDijkstra_search es g preferredNode neighbours (h\<lparr>cd_neighbours := Some neighbours, cd_initialNode := initialNode,
       cd_foundIds := foundIds, cd_distances := distances, cd_foundIdCount := 1, cd_heap := heap\<rparr>)
   }"

definition CHDijkstra_addShortcut :: "int \<Rightarrow> int \<Rightarrow> int \<Rightarrow> CHDijkstra \<Rightarrow> CHDijkstra option" where
  "CHDijkstra_addShortcut nodeId nodeIdx neighbourId h = do {
     neighbourIdx \<leftarrow> binarySearch (cd_foundIds h) neighbourId;
     if neighbourId = cd_initialNode h then Some h
     else do {
       previous \<leftarrow> aget (cd_previousNodes h) neighbourIdx;
       if previous = nodeId then do {
         shortcuts \<leftarrow> IntArrayList_add (cd_shortcuts h) (cd_initialNode h);
         shortcuts \<leftarrow> IntArrayList_add shortcuts neighbourId;
         distance \<leftarrow> aget (cd_distances h) neighbourIdx;
         shortcuts \<leftarrow> IntArrayList_add shortcuts distance;
         secondEdge \<leftarrow> aget (cd_previousEdges h) neighbourIdx;
         shortcuts \<leftarrow> IntArrayList_add shortcuts secondEdge;
         firstEdge \<leftarrow> aget (cd_previousEdges h) nodeIdx;
         shortcuts \<leftarrow> IntArrayList_add shortcuts firstEdge;
         Some (h\<lparr>cd_shortcuts := shortcuts\<rparr>)
       } else Some h
     }
   }"

definition CHDijkstra_addShortcuts :: "int \<Rightarrow> CHDijkstra \<Rightarrow> CHDijkstra option" where
  "CHDijkstra_addShortcuts nodeId h = do {
     nodeIdx \<leftarrow> binarySearch (cd_foundIds h) nodeId;
     if nodeIdx < 0 then Some h
     else do {
       previous \<leftarrow> aget (cd_previousNodes h) nodeIdx;
       if previous \<noteq> cd_initialNode h then Some h
       else do {
         neighbours \<leftarrow> cd_neighbours h;
         for_list neighbours (CHDijkstra_addShortcut nodeId nodeIdx) h
       }
     }
   }"

definition CHDijkstra_contract :: "Edges \<Rightarrow> DynamicGrid \<Rightarrow> int \<Rightarrow> CHDijkstra \<Rightarrow> CHDijkstra option" where
  "CHDijkstra_contract es g currentNode h = do {
     edgeCount \<leftarrow> DynamicGrid_getCurrentEdgeCount g currentNode;
     if edgeCount < 2 then Some h
     else do {
       edges \<leftarrow> DynamicGrid_getCurrentEdges g currentNode;
       neighbours \<leftarrow> newArray edgeCount 0;
       neighbours \<leftarrow> for_range 0 edgeCount (\<lambda>i neighbours. do {
           e \<leftarrow> rowget edges i;
           d \<leftarrow> Edges_getDest es e;
           aset neighbours i d
         }) neighbours;
       for_list neighbours (\<lambda>neighbourId h. do {
         h \<leftarrow> CHDijkstra_nextCalc es g neighbourId neighbours currentNode h;
         CHDijkstra_addShortcuts currentNode h
       }) h
     }
   }"

definition CHDijkstra_run :: "Edges \<Rightarrow> DynamicGrid \<Rightarrow> CHDijkstra \<Rightarrow> CHDijkstra option" where
  "CHDijkstra_run es g h = do {
     let h = h\<lparr>cd_shortcuts := IntArrayList_clear (cd_shortcuts h)\<rparr>;
     h \<leftarrow> for_range 0 (IntArrayList_getLen (cd_nodeIdsToCalc h)) (\<lambda>nodeIdx h. do {
         currentNode \<leftarrow> IntArrayList_get (cd_nodeIdsToCalc h) nodeIdx;
         CHDijkstra_contract es g currentNode h
       }) h;
     Some (h\<lparr>cd_nodeIdsToCalc := IntArrayList_clear (cd_nodeIdsToCalc h)\<rparr>)
   }"

section \<open>The found nodes and the arrays beside them\<close>

definition cd_ids :: "CHDijkstra \<Rightarrow> int list" where
  "cd_ids h = takeWhile (\<lambda>x. x < MAX_VALUE) (cd_foundIds h)"

definition cd_inv :: "CHDijkstra \<Rightarrow> bool" where
  "cd_inv h \<longleftrightarrow> padded (cd_foundIds h) (cd_ids h) \<and> cd_foundIdCount h = int (length (cd_ids h)) \<and>
     length (cd_distances h) = length (cd_foundIds h) \<and> length (cd_finalDistance h) = length (cd_foundIds h) \<and>
     length (cd_previousNodes h) = length (cd_foundIds h) \<and> length (cd_previousEdges h) = length (cd_foundIds h) \<and>
     0 < length (cd_foundIds h) \<and> dq_inv (cd_heap h)"

definition cd_at :: "CHDijkstra \<Rightarrow> 'a list \<Rightarrow> int \<Rightarrow> 'a" where
  "cd_at h a x = a ! lpos (cd_ids h) x"

lemma cd_invD:
  assumes "cd_inv h"
  shows "padded (cd_foundIds h) (cd_ids h)" "sorted_wrt (<) (cd_ids h)" "cd_foundIdCount h = int (length (cd_ids h))"
    "length (cd_distances h) = length (cd_foundIds h)" "length (cd_finalDistance h) = length (cd_foundIds h)"
    "length (cd_previousNodes h) = length (cd_foundIds h)" "length (cd_previousEdges h) = length (cd_foundIds h)"
    "0 < length (cd_foundIds h)" "dq_inv (cd_heap h)" "length (cd_ids h) \<le> length (cd_foundIds h)"
  using assms by (auto simp: cd_inv_def padded_def)

lemma cd_lookup:
  assumes "cd_inv h" "x \<in> set (cd_ids h)"
  shows "binarySearch (cd_foundIds h) x = Some (int (lpos (cd_ids h) x))" "lpos (cd_ids h) x < length (cd_foundIds h)"
    "length a = length (cd_foundIds h) \<Longrightarrow> aget a (int (lpos (cd_ids h) x)) = Some (cd_at h a x)"
proof -
  note I = cd_invD[OF assms(1)]
  have "x < MAX_VALUE" using I(1) assms(2) by (simp add: padded_def)
  then show "binarySearch (cd_foundIds h) x = Some (int (lpos (cd_ids h) x))" using padded_search[OF I(1)] assms(2) by simp
  show "lpos (cd_ids h) x < length (cd_foundIds h)" using lpos_mem(1)[OF I(2) assms(2)] I(10) by simp
  then show "length a = length (cd_foundIds h) \<Longrightarrow> aget a (int (lpos (cd_ids h) x)) = Some (cd_at h a x)"
    by (simp add: aget_def cd_at_def)
qed

lemma cd_lookup_new:
  assumes "cd_inv h" "x \<notin> set (cd_ids h)" "x < MAX_VALUE"
  shows "binarySearch (cd_foundIds h) x = Some (- int (lpos (cd_ids h) x) - 1)"
  using padded_search[OF cd_invD(1)[OF assms(1)] assms(3)] assms(2) by simp

lemma cd_at_update:
  assumes "cd_inv h" "x \<in> set (cd_ids h)" "y \<in> set (cd_ids h)" "length a = length (cd_foundIds h)"
  shows "a[lpos (cd_ids h) x := v] ! lpos (cd_ids h) y = (if y = x then v else a ! lpos (cd_ids h) y)"
proof -
  note I = cd_invD[OF assms(1)]
  have "lpos (cd_ids h) x = lpos (cd_ids h) y \<longleftrightarrow> x = y" using lpos_mem(2)[OF I(2)] assms(2,3) by metis
  then show ?thesis using cd_lookup(2)[OF assms(1,2)] assms(4) by (auto simp: nth_list_update)
qed

lemma copyOf_SIZE_INCREASE: "length a = n \<Longrightarrow> copyOf a (int n + CHDijkstra_SIZE_INCREASE) d = Some (a @ replicate 5 d)"
  by (simp add: copyOf_def CHDijkstra_SIZE_INCREASE_def nat_add_distrib)

lemma CHDijkstra_grow_ok:
  assumes "cd_inv h"
  shows "\<exists>h'. CHDijkstra_grow h = Some h' \<and> cd_inv h' \<and> cd_ids h' = cd_ids h \<and> length (cd_ids h) < length (cd_foundIds h') \<and>
    cd_foundIdCount h' = cd_foundIdCount h \<and> cd_heap h' = cd_heap h \<and> cd_neighbours h' = cd_neighbours h \<and>
    cd_initialNode h' = cd_initialNode h \<and> cd_shortcuts h' = cd_shortcuts h \<and> cd_nodeIdsToCalc h' = cd_nodeIdsToCalc h \<and>
    (\<forall>x \<in> set (cd_ids h). cd_at h' (cd_distances h') x = cd_at h (cd_distances h) x \<and>
       cd_at h' (cd_finalDistance h') x = cd_at h (cd_finalDistance h) x \<and>
       cd_at h' (cd_previousNodes h') x = cd_at h (cd_previousNodes h) x \<and> cd_at h' (cd_previousEdges h') x = cd_at h (cd_previousEdges h) x)"
proof -
  note I = cd_invD[OF assms]
  let ?n = "length (cd_foundIds h)"
  have f: "fillRange (cd_foundIds h @ replicate 5 0) (int ?n) (int (length (cd_foundIds h @ replicate 5 0))) MAX_VALUE =
      Some (cd_foundIds h @ replicate 5 MAX_VALUE)" by (simp add: fillRange_def)
  let ?h = "h\<lparr>cd_foundIds := cd_foundIds h @ replicate 5 MAX_VALUE, cd_distances := cd_distances h @ replicate 5 0,
    cd_finalDistance := cd_finalDistance h @ replicate 5 False, cd_previousNodes := cd_previousNodes h @ replicate 5 0,
    cd_previousEdges := cd_previousEdges h @ replicate 5 0\<rparr>"
  have run: "CHDijkstra_grow h = Some ?h" unfolding CHDijkstra_grow_def Let_def
    using f I(4-7) by (simp add: copyOf_SIZE_INCREASE[OF refl] copyOf_SIZE_INCREASE)
  have p: "padded (cd_foundIds ?h) (cd_ids h)" using padded_grow[OF I(1)] by simp
  have ids: "cd_ids ?h = cd_ids h" unfolding cd_ids_def[of ?h] by (rule padded_ids[OF p])
  have "cd_inv ?h" using I p by (simp add: cd_inv_def ids)
  then show ?thesis using run ids I by (intro exI[of _ ?h]) (simp add: cd_at_def nth_append cd_lookup(2)[OF assms])
qed

lemma array_shift:
  assumes "i \<le> n" "n < length a"
  obtains g x where "arraycopy a (int i) a (int i + 1) (int n - int i) = Some g" "length g = length a"
    "take (Suc n) g = insert_pos (take n a) i x"
proof -
  let ?g = "take (Suc i) a @ take (n - i) (drop i a) @ drop (Suc n) a"
  obtain g a' where g: "arraycopy a (int i) a (int i + 1) (int n - int i) = Some g" "length g = length a"
    "aset g (int i) (?g ! i) = Some a'" "take (Suc n) a' = insert_pos (take n a) i (?g ! i)"
    by (rule array_insert[OF assms, of "?g ! i"])
  have "g = ?g" using g(1) arraycopy_gap[OF assms] by simp
  then have "a' = g" using g(3) by (simp add: aset_def split: if_splits)
  then show thesis using that g by blast
qed

lemma parallel_take:
  assumes "sorted_wrt (<) p" "x \<notin> set p" "length p \<le> length a" "take (Suc (length p)) b = insert_pos (take (length p) a) (lpos p x) d"
    "y \<in> insert x (set p)" "length p < length b"
  shows "b ! lpos (insert_pos p (lpos p x) x) y = (if y = x then d else a ! lpos p y)"
proof -
  let ?q = "insert_pos p (lpos p x) x"
  have q: "lpos ?q y \<le> length p" "y \<noteq> x \<Longrightarrow> lpos p y < length p"
    using lpos_mem(1)[OF sorted_insert_pos[OF assms(1,2)], of y] lpos_mem(1)[OF assms(1), of y] assms(5) lpos_le[of p x] by auto
  have "b ! lpos ?q y = take (Suc (length p)) b ! lpos ?q y" using q(1) by simp
  also have "\<dots> = (if y = x then d else take (length p) a ! lpos p y)"
    unfolding assms(4) by (rule parallel_insert) (use assms in auto)
  finally show ?thesis using q(2) by auto
qed

text \<open>A node is added with the distance -1.\<close>

lemma CHDijkstra_addNode_new:
  assumes inv: "cd_inv h" and x: "x \<notin> set (cd_ids h)" "x < MAX_VALUE"
  shows "\<exists>h'. CHDijkstra_addNodeIfNecessary h x = Some (int (lpos (cd_ids h') x), h') \<and> cd_inv h' \<and> set (cd_ids h') = insert x (set (cd_ids h)) \<and>
    cd_heap h' = cd_heap h \<and> cd_neighbours h' = cd_neighbours h \<and>
    cd_initialNode h' = cd_initialNode h \<and> cd_shortcuts h' = cd_shortcuts h \<and> cd_nodeIdsToCalc h' = cd_nodeIdsToCalc h \<and>
    cd_at h' (cd_distances h') x = -1 \<and> \<not> cd_at h' (cd_finalDistance h') x \<and>
    (\<forall>y \<in> set (cd_ids h). cd_at h' (cd_distances h') y = cd_at h (cd_distances h) y \<and>
       cd_at h' (cd_finalDistance h') y = cd_at h (cd_finalDistance h) y \<and>
       cd_at h' (cd_previousNodes h') y = cd_at h (cd_previousNodes h) y \<and> cd_at h' (cd_previousEdges h') y = cd_at h (cd_previousEdges h) y)"
proof -
  let ?p = "cd_ids h" let ?i = "lpos ?p x" let ?n = "length ?p" let ?q = "insert_pos ?p ?i x"
  obtain h1 where h1: "(if int (length (cd_foundIds h)) = cd_foundIdCount h then CHDijkstra_grow h else Some h) = Some h1" "cd_inv h1"
    "cd_ids h1 = ?p" "?n < length (cd_foundIds h1)" "cd_foundIdCount h1 = cd_foundIdCount h" "cd_heap h1 = cd_heap h"
    "cd_neighbours h1 = cd_neighbours h" "cd_initialNode h1 = cd_initialNode h" "cd_shortcuts h1 = cd_shortcuts h"
    "cd_nodeIdsToCalc h1 = cd_nodeIdsToCalc h"
    "\<forall>y \<in> set ?p. cd_distances h1 ! lpos ?p y = cd_at h (cd_distances h) y \<and>
       cd_finalDistance h1 ! lpos ?p y = cd_at h (cd_finalDistance h) y \<and>
       cd_previousNodes h1 ! lpos ?p y = cd_at h (cd_previousNodes h) y \<and> cd_previousEdges h1 ! lpos ?p y = cd_at h (cd_previousEdges h) y"
  proof (cases "int (length (cd_foundIds h)) = cd_foundIdCount h")
    case True
    obtain h1 where g: "CHDijkstra_grow h = Some h1" "cd_inv h1" "cd_ids h1 = ?p" "?n < length (cd_foundIds h1)"
      "cd_foundIdCount h1 = cd_foundIdCount h" "cd_heap h1 = cd_heap h"
      "cd_neighbours h1 = cd_neighbours h" "cd_initialNode h1 = cd_initialNode h" "cd_shortcuts h1 = cd_shortcuts h"
      "cd_nodeIdsToCalc h1 = cd_nodeIdsToCalc h"
      "\<forall>y \<in> set ?p. cd_at h1 (cd_distances h1) y = cd_at h (cd_distances h) y \<and>
       cd_at h1 (cd_finalDistance h1) y = cd_at h (cd_finalDistance h) y \<and>
       cd_at h1 (cd_previousNodes h1) y = cd_at h (cd_previousNodes h) y \<and> cd_at h1 (cd_previousEdges h1) y = cd_at h (cd_previousEdges h) y"
      using CHDijkstra_grow_ok[OF inv] by blast
    show thesis by (rule that[of h1]) (use True g in \<open>simp_all add: cd_at_def\<close>)
  next
    case False
    then have "?n < length (cd_foundIds h)" using cd_invD(3,10)[OF inv] by simp
    then show thesis using that[of h] False inv by (simp add: cd_at_def)
  qed
  note I = cd_invD[OF h1(2), unfolded h1(3)]
  have pad: "padded (cd_foundIds h1) ?p" and srt: "sorted_wrt (<) ?p" using I by simp_all
  have le: "?i \<le> ?n" by (rule lpos_le)
  obtain fg f where f: "arraycopy (cd_foundIds h1) (int ?i) (cd_foundIds h1) (int ?i + 1) (int ?n - int ?i) = Some fg"
    "aset fg (int ?i) x = Some f" "length f = length (cd_foundIds h1)" "padded f ?q"
    by (rule array_insert_padded[OF pad x h1(4)])
  have len: "?n < length (cd_distances h1)" "?n < length (cd_finalDistance h1)" "?n < length (cd_previousNodes h1)" "?n < length (cd_previousEdges h1)"
    using h1(4) I by simp_all
  obtain dg d where d: "arraycopy (cd_distances h1) (int ?i) (cd_distances h1) (int ?i + 1) (int ?n - int ?i) = Some dg"
    "aset dg (int ?i) (-1) = Some d" "length d = length (cd_distances h1)" "take (Suc ?n) d = insert_pos (take ?n (cd_distances h1)) ?i (-1)"
    by (rule array_insert[OF le len(1), of "-1"])
  obtain bg b where b: "arraycopy (cd_finalDistance h1) (int ?i) (cd_finalDistance h1) (int ?i + 1) (int ?n - int ?i) = Some bg"
    "aset bg (int ?i) False = Some b" "length b = length (cd_finalDistance h1)" "take (Suc ?n) b = insert_pos (take ?n (cd_finalDistance h1)) ?i False"
    by (rule array_insert[OF le len(2), of False])
  obtain pn u where pn: "arraycopy (cd_previousNodes h1) (int ?i) (cd_previousNodes h1) (int ?i + 1) (int ?n - int ?i) = Some pn"
    "length pn = length (cd_previousNodes h1)" "take (Suc ?n) pn = insert_pos (take ?n (cd_previousNodes h1)) ?i u"
    by (rule array_shift[OF le len(3)])
  obtain pe u' where pe: "arraycopy (cd_previousEdges h1) (int ?i) (cd_previousEdges h1) (int ?i + 1) (int ?n - int ?i) = Some pe"
    "length pe = length (cd_previousEdges h1)" "take (Suc ?n) pe = insert_pos (take ?n (cd_previousEdges h1)) ?i u'"
    by (rule array_shift[OF le len(4)])
  let ?h = "h1\<lparr>cd_foundIds := f, cd_distances := d, cd_finalDistance := b, cd_previousNodes := pn, cd_previousEdges := pe,
    cd_foundIdCount := cd_foundIdCount h1 + 1\<rparr>"
  have neg: "(- int ?i - 1 + 1) * (-1) = int ?i" by simp
  have ids: "cd_ids ?h = ?q" unfolding cd_ids_def[of ?h] using padded_ids[OF f(4)] by simp
  have li: "lpos ?q x = ?i" using lpos_insert_pos[OF srt x(1), of x] by simp
  have run: "CHDijkstra_addNodeIfNecessary h x = Some (int ?i, ?h)"
    unfolding CHDijkstra_addNodeIfNecessary_def
    using cd_lookup_new[OF inv x] h1(1) f(1,2) d(1,2) b(1,2) pn(1) pe(1) I(3) by (simp add: Let_def neg)
  have "cd_inv ?h" unfolding cd_inv_def ids using f(3,4) d(3) b(3) pn(2) pe(2) I le by simp
  moreover have at: "d ! lpos ?q y = (if y = x then -1 else cd_distances h1 ! lpos ?p y)"
    "b ! lpos ?q y = (if y = x then False else cd_finalDistance h1 ! lpos ?p y)"
    "y \<noteq> x \<Longrightarrow> pn ! lpos ?q y = cd_previousNodes h1 ! lpos ?p y" "y \<noteq> x \<Longrightarrow> pe ! lpos ?q y = cd_previousEdges h1 ! lpos ?p y"
    if "y \<in> insert x (set ?p)" for y
    using parallel_take[OF srt x(1) _ d(4) that] parallel_take[OF srt x(1) _ b(4) that] parallel_take[OF srt x(1) _ pn(3) that]
      parallel_take[OF srt x(1) _ pe(3) that] len d(3) b(3) pn(2) pe(2) by simp_all
  have ne: "y \<noteq> x" if "y \<in> set ?p" for y using that x(1) by auto
  ultimately show ?thesis using run h1(6-11) at[of x] at ne
    by (intro exI[of _ ?h]) (simp add: ids li cd_at_def)
qed

lemma CHDijkstra_addNode_old:
  assumes "cd_inv h" "x \<in> set (cd_ids h)"
  shows "CHDijkstra_addNodeIfNecessary h x = Some (int (lpos (cd_ids h) x), h)"
  using cd_lookup(1)[OF assms] by (simp add: CHDijkstra_addNodeIfNecessary_def)

section \<open>Relaxing an edge\<close>

definition cd_D :: "CHDijkstra \<Rightarrow> int \<Rightarrow> int" where
  "cd_D h x = (if x \<in> set (cd_ids h) then cd_at h (cd_distances h) x else MAX_VALUE)"

definition cd_P :: "CHDijkstra \<Rightarrow> int \<Rightarrow> int" where
  "cd_P h x = cd_at h (cd_previousNodes h) x"

definition cd_E :: "CHDijkstra \<Rightarrow> int \<Rightarrow> int" where
  "cd_E h x = cd_at h (cd_previousEdges h) x"

definition cd_F :: "CHDijkstra \<Rightarrow> int \<Rightarrow> bool" where
  "cd_F h x \<longleftrightarrow> x \<in> set (cd_ids h) \<and> cd_at h (cd_finalDistance h) x"

text \<open>The parts of the thread a search does not change.\<close>

definition cd_frame :: "CHDijkstra \<Rightarrow> CHDijkstra \<Rightarrow> bool" where
  "cd_frame h h' \<longleftrightarrow> cd_neighbours h' = cd_neighbours h \<and> cd_initialNode h' = cd_initialNode h \<and> cd_shortcuts h' = cd_shortcuts h \<and>
     cd_nodeIdsToCalc h' = cd_nodeIdsToCalc h"

lemma cd_frame_refl [simp]: "cd_frame h h"
  by (simp add: cd_frame_def)

lemma cd_frame_trans: "cd_frame h h' \<Longrightarrow> cd_frame h' h'' \<Longrightarrow> cd_frame h h''"
  by (simp add: cd_frame_def)

lemma CHDijkstra_addNode_ok:
  assumes inv: "cd_inv h" and x: "x < MAX_VALUE"
  shows "\<exists>h'. CHDijkstra_addNodeIfNecessary h x = Some (int (lpos (cd_ids h') x), h') \<and> cd_inv h' \<and> set (cd_ids h') = insert x (set (cd_ids h)) \<and>
    cd_heap h' = cd_heap h \<and> cd_frame h h' \<and> cd_D h' x = (if x \<in> set (cd_ids h) then cd_D h x else -1) \<and>
    (\<forall>y \<in> set (cd_ids h). cd_D h' y = cd_D h y \<and> cd_P h' y = cd_P h y \<and> cd_E h' y = cd_E h y) \<and> (\<forall>y. cd_F h' y \<longrightarrow> cd_F h y)"
proof (cases "x \<in> set (cd_ids h)")
  case True
  then show ?thesis using CHDijkstra_addNode_old[OF inv True] inv by (intro exI[of _ h]) auto
next
  case False
  obtain h' where h: "CHDijkstra_addNodeIfNecessary h x = Some (int (lpos (cd_ids h') x), h')" "cd_inv h'" "set (cd_ids h') = insert x (set (cd_ids h))"
    "cd_heap h' = cd_heap h" "cd_frame h h'" "cd_at h' (cd_distances h') x = -1" "\<not> cd_at h' (cd_finalDistance h') x"
    "\<forall>y \<in> set (cd_ids h). cd_at h' (cd_distances h') y = cd_at h (cd_distances h) y \<and>
       cd_at h' (cd_finalDistance h') y = cd_at h (cd_finalDistance h) y \<and>
       cd_at h' (cd_previousNodes h') y = cd_at h (cd_previousNodes h) y \<and> cd_at h' (cd_previousEdges h') y = cd_at h (cd_previousEdges h) y"
    using CHDijkstra_addNode_new[OF inv False x] unfolding cd_frame_def by blast
  then show ?thesis using False by (intro exI[of _ h']) (auto simp: cd_D_def cd_P_def cd_E_def cd_F_def)
qed

lemma CHDijkstra_update_ok:
  assumes inv: "cd_inv h" and v: "v \<in> set (cd_ids h)" and le: "\<forall>e. DistanceHeap_map (cd_heap h) v = Some e \<longrightarrow> d \<le> e"
  shows "\<exists>h'. CHDijkstra_update h (int (lpos (cd_ids h) v)) v u f d = Some h' \<and> cd_inv h' \<and> cd_ids h' = cd_ids h \<and> cd_frame h h' \<and>
    (\<forall>y \<in> set (cd_ids h). cd_D h' y = (if y = v then d else cd_D h y) \<and> cd_P h' y = (if y = v then u else cd_P h y) \<and>
      cd_E h' y = (if y = v then f else cd_E h y)) \<and> cd_F h' = cd_F h \<and> DistanceHeap_map (cd_heap h') = (DistanceHeap_map (cd_heap h))(v \<mapsto> d)"
proof -
  note I = cd_invD[OF inv]
  have "v < MAX_VALUE" using I(1) v by (simp add: padded_def)
  then obtain q where q: "DistanceHeap_add (cd_heap h) v d = Some q" "dq_inv q" "DistanceHeap_map q = (DistanceHeap_map (cd_heap h))(v \<mapsto> d)"
    using distanceHeap.add_law[OF I(9) _ le] by blast
  let ?l = "lpos (cd_ids h) v"
  let ?h = "h\<lparr>cd_distances := (cd_distances h)[?l := d], cd_previousNodes := (cd_previousNodes h)[?l := u],
    cd_previousEdges := (cd_previousEdges h)[?l := f], cd_heap := q\<rparr>"
  have run: "CHDijkstra_update h (int ?l) v u f d = Some ?h"
    unfolding CHDijkstra_update_def using cd_lookup(2)[OF inv v] I(4-7) q(1) by (simp add: aset_def)
  have ids: "cd_ids ?h = cd_ids h" by (simp add: cd_ids_def)
  have "cd_inv ?h" using I q(2) by (simp add: cd_inv_def ids)
  then show ?thesis using run ids q(3) cd_at_update[OF inv v _ I(4)] cd_at_update[OF inv v _ I(6)] cd_at_update[OF inv v _ I(7)]
    by (intro exI[of _ ?h]) (simp add: cd_frame_def cd_D_def cd_P_def cd_E_def cd_F_def cd_at_def fun_eq_iff)
qed

lemma cd_final_ok:
  assumes inv: "cd_inv h" and u: "u \<in> set (cd_ids h)"
  shows "\<exists>b. aset (cd_finalDistance h) (int (lpos (cd_ids h) u)) True = Some b \<and> (let h' = h\<lparr>cd_finalDistance := b\<rparr> in
    cd_inv h' \<and> cd_ids h' = cd_ids h \<and> cd_D h' = cd_D h \<and> cd_P h' = cd_P h \<and> cd_E h' = cd_E h \<and> (\<forall>x. cd_F h' x \<longrightarrow> x = u \<or> cd_F h x))"
proof -
  note I = cd_invD[OF inv]
  let ?b = "(cd_finalDistance h)[lpos (cd_ids h) u := True]" let ?h = "h\<lparr>cd_finalDistance := ?b\<rparr>"
  have ids: "cd_ids ?h = cd_ids h" by (simp add: cd_ids_def)
  have "aset (cd_finalDistance h) (int (lpos (cd_ids h) u)) True = Some ?b" using cd_lookup(2)[OF inv u] I(5) by (simp add: aset_def)
  moreover have "cd_inv ?h" using I by (simp add: cd_inv_def ids)
  moreover have "\<forall>x. cd_F ?h x \<longrightarrow> x = u \<or> cd_F h x"
    using cd_at_update[OF inv u _ I(5)] by (auto simp: cd_F_def cd_at_def ids split: if_splits)
  ultimately show ?thesis by (auto simp: Let_def ids cd_D_def cd_P_def cd_E_def cd_at_def fun_eq_iff)
qed

definition better :: "CHDijkstra \<Rightarrow> int \<Rightarrow> int \<Rightarrow> int \<Rightarrow> int \<Rightarrow> bool" where
  "better h m u v w \<longleftrightarrow> cd_D h u + w < cd_D h v \<or> u = m \<and> cd_D h u + w = cd_D h v"

lemma CHDijkstra_relax_ok:
  assumes inv: "cd_inv h" and e: "rowget row i = Some e" "Edges_getDest es e = Some v" "Edges_getDist es e = Some w"
    and u: "u \<in> set (cd_ids h)" and b: "0 \<le> w" "0 \<le> cd_D h u" "0 \<le> cd_D h v" "cd_D h u + w < MAX_VALUE" "v < MAX_VALUE"
    and q: "\<forall>x d. DistanceHeap_map (cd_heap h) x = Some d \<longrightarrow> x \<in> set (cd_ids h) \<and> d = cd_D h x"
  shows "\<exists>h'. CHDijkstra_relax es m u row i h = Some h' \<and> cd_inv h' \<and> cd_frame h h' \<and> set (cd_ids h') = insert v (set (cd_ids h)) \<and>
    (\<forall>x. cd_F h' x \<longrightarrow> x = u \<or> cd_F h x) \<and>
    (\<forall>x \<in> set (cd_ids h'). cd_D h' x = (if x = v \<and> better h m u v w then cd_D h u + w else cd_D h x) \<and>
       cd_P h' x = (if x = v \<and> better h m u v w then u else cd_P h x) \<and> cd_E h' x = (if x = v \<and> better h m u v w then e else cd_E h x)) \<and>
    DistanceHeap_map (cd_heap h') = (if better h m u v w then (DistanceHeap_map (cd_heap h))(v \<mapsto> cd_D h u + w) else DistanceHeap_map (cd_heap h))"
proof -
  obtain h1 where h1: "CHDijkstra_addNodeIfNecessary h v = Some (int (lpos (cd_ids h1) v), h1)" "cd_inv h1" "set (cd_ids h1) = insert v (set (cd_ids h))"
    "cd_heap h1 = cd_heap h" "cd_frame h h1" "cd_D h1 v = (if v \<in> set (cd_ids h) then cd_D h v else -1)"
    "\<forall>y \<in> set (cd_ids h). cd_D h1 y = cd_D h y \<and> cd_P h1 y = cd_P h y \<and> cd_E h1 y = cd_E h y" "\<forall>y. cd_F h1 y \<longrightarrow> cd_F h y"
    using CHDijkstra_addNode_ok[OF inv b(5)] by blast
  have u1: "u \<in> set (cd_ids h1)" "v \<in> set (cd_ids h1)" using u h1(3) by auto
  obtain bs where "aset (cd_finalDistance h1) (int (lpos (cd_ids h1) u)) True = Some bs \<and> (let h' = h1\<lparr>cd_finalDistance := bs\<rparr> in
    cd_inv h' \<and> cd_ids h' = cd_ids h1 \<and> cd_D h' = cd_D h1 \<and> cd_P h' = cd_P h1 \<and> cd_E h' = cd_E h1 \<and> (\<forall>x. cd_F h' x \<longrightarrow> x = u \<or> cd_F h1 x))"
    using cd_final_ok[OF h1(2) u1(1)] by blast
  moreover define h2 where "h2 = h1\<lparr>cd_finalDistance := bs\<rparr>"
  ultimately have h2: "aset (cd_finalDistance h1) (int (lpos (cd_ids h1) u)) True = Some bs" "cd_inv h2" "cd_ids h2 = cd_ids h1"
    "cd_D h2 = cd_D h1" "cd_P h2 = cd_P h1" "cd_E h2 = cd_E h1" "\<forall>x. cd_F h2 x \<longrightarrow> x = u \<or> cd_F h1 x"
    by (simp_all add: Let_def)
  have fr: "cd_frame h h2" "cd_heap h2 = cd_heap h" using h1(4,5) by (simp_all add: h2_def cd_frame_def)
  note I2 = cd_invD[OF h2(2)]
  have u2: "u \<in> set (cd_ids h2)" "v \<in> set (cd_ids h2)" using u1 h2(3) by auto
  have rd: "binarySearch (cd_foundIds h1) u = Some (int (lpos (cd_ids h1) u))" by (rule cd_lookup(1)[OF h1(2) u1(1)])
  have du: "aget (cd_distances h2) (int (lpos (cd_ids h1) u)) = Some (cd_D h u)"
    using cd_lookup(3)[OF h2(2) u2(1) I2(4)] h1(7) u h2(3,4) u2(1) by (metis cd_D_def)
  have dv: "aget (cd_distances h2) (int (lpos (cd_ids h1) v)) = Some (if v \<in> set (cd_ids h) then cd_D h v else -1)"
    using cd_lookup(3)[OF h2(2) u2(2) I2(4)] h1(6) h2(3,4) u2(2) by (metis cd_D_def)
  have new: "jadd (cd_D h u) w = cd_D h u + w" using b by (intro jadd_exact) auto
  have vD: "v \<notin> set (cd_ids h) \<Longrightarrow> cd_D h v = MAX_VALUE" by (simp add: cd_D_def)
  let ?c = "(if v \<in> set (cd_ids h) then cd_D h v else -1) = -1 \<or> cd_D h u + w < (if v \<in> set (cd_ids h) then cd_D h v else -1)"
  let ?t = "u = m \<and> cd_D h u + w = (if v \<in> set (cd_ids h) then cd_D h v else -1)"
  have bt: "better h m u v w \<longleftrightarrow> ?c \<or> ?t" using vD b by (auto simp: better_def)
  have run: "CHDijkstra_relax es m u row i h = (if better h m u v w then CHDijkstra_update h2 (int (lpos (cd_ids h2) v)) v u e (cd_D h u + w) else Some h2)"
    unfolding CHDijkstra_relax_def e(1,2) h1(1) Option.bind.simps split rd h2(1) Let_def h2_def[symmetric] du e(3) new dv bt h2(3)
    by (simp only: if_bool_eq_disj split: if_split) blast
  show ?thesis
  proof (cases "better h m u v w")
    case True
    have le: "\<forall>d. DistanceHeap_map (cd_heap h2) v = Some d \<longrightarrow> cd_D h u + w \<le> d" using q True by (auto simp: fr(2) better_def)
    obtain h' where h': "CHDijkstra_update h2 (int (lpos (cd_ids h2) v)) v u e (cd_D h u + w) = Some h'" "cd_inv h'" "cd_ids h' = cd_ids h2" "cd_frame h2 h'"
      "\<forall>y \<in> set (cd_ids h2). cd_D h' y = (if y = v then cd_D h u + w else cd_D h2 y) \<and> cd_P h' y = (if y = v then u else cd_P h2 y) \<and>
        cd_E h' y = (if y = v then e else cd_E h2 y)" "cd_F h' = cd_F h2"
      "DistanceHeap_map (cd_heap h') = (DistanceHeap_map (cd_heap h2))(v \<mapsto> cd_D h u + w)"
      using CHDijkstra_update_ok[OF h2(2) u2(2) le, of u e] by blast
    show ?thesis using run True h' h1(3,7,8) h2(3-7) cd_frame_trans[OF fr(1) h'(4)] fr(2)
      by (intro exI[of _ h']) auto
  next
    case False
    then have vi: "v \<in> set (cd_ids h)" using bt by (auto split: if_splits)
    then have "set (cd_ids h2) = set (cd_ids h)" using h1(3) h2(3) by auto
    then show ?thesis using run False vi h1(3,7,8) h2(2-7) fr by (intro exI[of _ h2]) auto
  qed
qed

section \<open>The search\<close>

lemma search_inv_cong:
  assumes inv: "search_inv adj V s D P S Q todo" and D: "\<And>x. x \<in> V \<Longrightarrow> D' x = D x" and P: "\<And>x. x \<in> set S \<union> Q \<Longrightarrow> P' x = P x"
    and cl: "\<And>u v w. u \<in> V \<Longrightarrow> (v, w) \<in> set (adj u) \<Longrightarrow> v \<in> V"
  shows "search_inv adj V s D' P' S Q todo"
proof (rule search_invI)
  note I = search_invD[OF inv]
  have inV: "x \<in> V" if "x \<in> set S \<union> Q" for x using I(3) that by blast
  show "distinct S" "set S \<inter> Q = {}" "set S \<union> Q \<subseteq> V" "s \<in> set S \<union> Q" by (fact I(1-4))+
  show "D' s = 0" using I(4,5) D inV by metis
  show "0 \<le> D' v \<and> D' v \<le> MAX_VALUE \<and> (D' v < MAX_VALUE \<longleftrightarrow> v \<in> set S \<union> Q)" if "v \<in> V" for v using I(6)[OF that] D[OF that] by simp
  show "P' v \<in> set S \<and> (\<exists>w. (v, w) \<in> set (adj (P' v)) \<and> D' v = D' (P' v) + w)" if "v \<in> set S \<union> Q" "v \<noteq> s" for v
  proof -
    have "P v \<in> V" using I(7)[OF that] inV by blast
    then show ?thesis using I(7)[OF that] P[OF that(1)] D[OF inV[OF that(1)]] D[of "P v"] by simp
  qed
  show "settle_order P' s S" using I(8) settle_order_cong[of S P' P s] P by simp
  show "D' u \<le> D' v" if "u \<in> set S" "v \<in> Q" for u v using I(9)[OF that] D inV that by simp
  show "D' u \<le> D' (hd S)" if "u \<in> set S" for u using I(10)[OF that] D inV that by (cases S) auto
  show "D' u + w < MAX_VALUE" if "u \<in> set S" "(v, w) \<in> set (adj u)" for u v w using I(11)[OF that] D inV that by simp
  show "D' v \<le> D' u + w \<or> u = hd S \<and> (v, w) \<in> set todo" if "u \<in> set S" "(v, w) \<in> set (adj u)" for u v w
    using I(12)[OF that] D[OF inV, of u] D[OF cl[OF inV that(2)]] that(1) by simp
qed

lemma search_tie:
  assumes inv: "search_inv adj V s D P (u # S) Q ((v, w) # todo)" and e: "(v, w) \<in> set (adj u)"
    and v: "v \<in> Q" "v \<noteq> s" "D v = D u + w"
  shows "search_inv adj V s D (P(v := u)) (u # S) Q todo"
proof (rule search_invI)
  note I = search_invD[OF inv]
  have vS: "v \<notin> set (u # S)" using I(2) v(1) by blast
  show "(P(v := u)) x \<in> set (u # S) \<and> (\<exists>w. (x, w) \<in> set (adj ((P(v := u)) x)) \<and> D x = D ((P(v := u)) x) + w)"
    if "x \<in> set (u # S) \<union> Q" "x \<noteq> s" for x using I(7)[OF that] e v(3) by auto
  show "settle_order (P(v := u)) s (u # S)"
    using I(8) settle_order_cong[of "u # S" P "P(v := u)" s] vS by (metis fun_upd_apply)
  show "D y \<le> D x + w' \<or> x = hd (u # S) \<and> (y, w') \<in> set todo" if "x \<in> set (u # S)" "(y, w') \<in> set (adj x)" for x y w'
    using I(12)[OF that] v(3) by auto
qed (use search_invD[OF inv] in blast)+

lemma settle_order_start: "settle_order P s S \<Longrightarrow> S \<noteq> [] \<Longrightarrow> s \<in> set S"
proof (induction S)
  case (Cons x S)
  then show ?case by (cases S) auto
qed simp

text \<open>The nodes that are not contracted yet, with their rows of edges.\<close>

definition cur_ok :: "int set \<Rightarrow> Edges \<Rightarrow> DynamicGrid \<Rightarrow> bool" where
  "cur_ok R es g \<longleftrightarrow> finite R \<and> (\<forall>v \<in> R. v < MAX_VALUE \<and>
     DynamicGrid_getCurrentEdgeCount g v = Some (int (length (cur_edges g v))) \<and>
     (\<exists>row. DynamicGrid_getCurrentEdges g v = Some (Some row) \<and> take (length (cur_edges g v)) row = cur_edges g v) \<and>
     (\<forall>e \<in> set (cur_edges g v). Edges_getDest es e = Some (edge_dest es e) \<and> Edges_getDist es e = Some (edge_dist es e) \<and>
        edge_dest es e \<in> R \<and> 0 < edge_dist es e))"

lemma cur_okD:
  assumes "cur_ok R es g" "v \<in> R"
  shows "v < MAX_VALUE" "DynamicGrid_getCurrentEdgeCount g v = Some (int (length (cur_edges g v)))"
    "\<exists>row. DynamicGrid_getCurrentEdges g v = Some (Some row) \<and> take (length (cur_edges g v)) row = cur_edges g v"
    "e \<in> set (cur_edges g v) \<Longrightarrow> Edges_getDest es e = Some (edge_dest es e) \<and> Edges_getDist es e = Some (edge_dist es e) \<and>
        edge_dest es e \<in> R \<and> 0 < edge_dist es e"
    "(x, w) \<in> set (cur_adj es g v) \<Longrightarrow> x \<in> R \<and> 0 < w"
  using assms by (auto simp: cur_ok_def cur_adj_def)

definition ch_search :: "int set \<Rightarrow> Edges \<Rightarrow> DynamicGrid \<Rightarrow> int \<Rightarrow> int \<Rightarrow> CHDijkstra \<Rightarrow> int list \<Rightarrow> int set \<Rightarrow> (int \<times> int) list \<Rightarrow> bool" where
  "ch_search R es g a m h S Q todo \<longleftrightarrow> cd_inv h \<and> search_inv (cur_adj es g) R a (cd_D h) (cd_P h) S Q todo \<and>
     set (cd_ids h) = set S \<union> Q \<and>
     (\<forall>x. DistanceHeap_map (cd_heap h) x = (if x \<in> Q then Some (cd_D h x) else None)) \<and>
     (\<forall>x. cd_F h x \<and> x \<noteq> a \<longrightarrow> x \<in> set S) \<and>
     (\<forall>x \<in> set S \<union> Q. x \<noteq> a \<longrightarrow> cd_E h x \<in> set (cur_edges g (cd_P h x)) \<and> edge_dest es (cd_E h x) = x \<and>
        cd_D h x = cd_D h (cd_P h x) + edge_dist es (cd_E h x)) \<and>
     (\<forall>b w. m \<in> set S \<and> (b, w) \<in> set (cur_adj es g m) \<and> cd_D h b = cd_D h m + w \<and> \<not> (m = hd S \<and> (b, w) \<in> set todo) \<longrightarrow> cd_P h b = m) \<and>
     (\<forall>w. a \<in> set S \<and> (m, w) \<in> set (cur_adj es g a) \<and> cd_D h m = w \<and> \<not> (a = hd S \<and> (m, w) \<in> set todo) \<longrightarrow> cd_P h m = a)"

lemma ch_searchD:
  assumes "ch_search R es g a m h S Q todo"
  shows "cd_inv h" "search_inv (cur_adj es g) R a (cd_D h) (cd_P h) S Q todo" "set (cd_ids h) = set S \<union> Q"
    "DistanceHeap_map (cd_heap h) x = (if x \<in> Q then Some (cd_D h x) else None)"
    "cd_F h x \<Longrightarrow> x \<noteq> a \<Longrightarrow> x \<in> set S"
    "x \<in> set S \<union> Q \<Longrightarrow> x \<noteq> a \<Longrightarrow> cd_E h x \<in> set (cur_edges g (cd_P h x)) \<and> edge_dest es (cd_E h x) = x \<and>
        cd_D h x = cd_D h (cd_P h x) + edge_dist es (cd_E h x)"
    "m \<in> set S \<Longrightarrow> (b, w) \<in> set (cur_adj es g m) \<Longrightarrow> cd_D h b = cd_D h m + w \<Longrightarrow> \<not> (m = hd S \<and> (b, w) \<in> set todo) \<Longrightarrow> cd_P h b = m"
    "a \<in> set S \<Longrightarrow> (m, w) \<in> set (cur_adj es g a) \<Longrightarrow> cd_D h m = w \<Longrightarrow> \<not> (a = hd S \<and> (m, w) \<in> set todo) \<Longrightarrow> cd_P h m = a"
  using assms unfolding ch_search_def by blast+

lemma ch_search_relax:
  assumes ok: "cur_ok R es g" and bf: "best_first (cur_adj es g) R a" and am: "a \<noteq> m"
    and rel: "ch_search R es g a m h (u # S) Q ((v, w) # todo)"
    and e: "e \<in> set (cur_edges g u)" "edge_dest es e = v" "edge_dist es e = w" "rowget row i = Some e"
  shows "\<exists>h' Q'. CHDijkstra_relax es m u row i h = Some h' \<and> cd_frame h h' \<and> ch_search R es g a m h' (u # S) Q' todo"
proof -
  note C = ch_searchD[OF rel] and I = search_invD[OF ch_searchD(2)[OF rel]]
  let ?adj = "cur_adj es g" let ?D = "cd_D h" let ?P = "cd_P h"
  have uR: "u \<in> R" using I(3) by auto
  have eu: "Edges_getDest es e = Some v" "Edges_getDist es e = Some w" "v \<in> R" "0 < w" using cur_okD(4)[OF ok uR e(1)] e(2,3) by auto
  have vw: "(v, w) \<in> set (?adj u)" using e(1-3) by (auto simp: cur_adj_def)
  have cl: "v \<in> R" if "u \<in> R" "(v, w) \<in> set (?adj u)" for u v w using cur_okD(5)[OF ok that] by simp
  have D: "0 \<le> ?D u" "0 \<le> ?D v" "?D u + w < MAX_VALUE" using I(6)[OF uR] I(6)[OF eu(3)] I(11)[of u v w] vw by auto
  have ui: "u \<in> set (cd_ids h)" using C(3) by simp
  have q: "\<forall>x d. DistanceHeap_map (cd_heap h) x = Some d \<longrightarrow> x \<in> set (cd_ids h) \<and> d = ?D x"
    using C(3,4) by (auto split: if_splits)
  obtain h' where r: "CHDijkstra_relax es m u row i h = Some h'" "cd_inv h'" "cd_frame h h'" "set (cd_ids h') = insert v (set (cd_ids h))"
    "\<forall>x. cd_F h' x \<longrightarrow> x = u \<or> cd_F h x"
    "\<forall>x \<in> set (cd_ids h'). cd_D h' x = (if x = v \<and> better h m u v w then ?D u + w else ?D x) \<and>
       cd_P h' x = (if x = v \<and> better h m u v w then u else ?P x) \<and> cd_E h' x = (if x = v \<and> better h m u v w then e else cd_E h x)"
    "DistanceHeap_map (cd_heap h') = (if better h m u v w then (DistanceHeap_map (cd_heap h))(v \<mapsto> ?D u + w) else DistanceHeap_map (cd_heap h))"
    using CHDijkstra_relax_ok[OF C(1) e(4) eu(1,2) ui _ D(1,2,3) cur_okD(1)[OF ok eu(3)] q, of m] eu(4) by auto
  have fin: "\<forall>x. cd_F h' x \<and> x \<noteq> a \<longrightarrow> x \<in> set (u # S)" using r(5) C(5) by auto
  show ?thesis
  proof (cases "better h m u v w")
    case True
    have vS: "v \<notin> set (u # S)" using I(10)[of v] True eu(4) by (auto simp: better_def)
    have D': "cd_D h' = ?D(v := ?D u + w)"
    proof
      fix x
      show "cd_D h' x = (?D(v := ?D u + w)) x"
        using r(4,6) True by (cases "x \<in> set (cd_ids h')") (auto simp: cd_D_def)
    qed
    have PE: "cd_P h' x = (?P(v := u)) x" "cd_E h' x = ((cd_E h)(v := e)) x" if "x \<in> set (u # S) \<union> insert v Q" for x
      using r(4,6) C(3) True that by auto
    have inv: "search_inv ?adj R a (?D(v := ?D u + w)) (?P(v := u)) (u # S) (insert v Q) todo"
    proof (cases "?D u + w < ?D v")
      case lt: True
      show ?thesis by (rule best_first.relax_update[OF bf C(2) vw vS lt])
    next
      case False
      then have eq: "?D v = ?D u + w" using True by (auto simp: better_def)
      have vQ: "v \<in> Q" using I(6)[OF eu(3)] eq D(3) vS by auto
      have "v \<noteq> a" using eq I(5) D(1) eu(4) by auto
      from search_tie[OF C(2) vw vQ this eq] eq vQ show ?thesis by (simp add: insert_absorb fun_upd_idem)
    qed
    then have inv': "search_inv ?adj R a (cd_D h') (cd_P h') (u # S) (insert v Q) todo"
      by (rule search_inv_cong) (use D' PE cl in auto)
    have strict: "?D u + w < ?D v" if "u \<noteq> m" using True that by (simp add: better_def)
    have "ch_search R es g a m h' (u # S) (insert v Q) todo" unfolding ch_search_def
    proof (intro conjI allI ballI impI)
      show "cd_inv h'" by (rule r(2))
      show "search_inv ?adj R a (cd_D h') (cd_P h') (u # S) (insert v Q) todo" by (rule inv')
      show "set (cd_ids h') = set (u # S) \<union> insert v Q" using r(4) C(3) by auto
      show "DistanceHeap_map (cd_heap h') x = (if x \<in> insert v Q then Some (cd_D h' x) else None)" for x
        using r(7) True C(4) by (auto simp: D')
      show "x \<in> set (u # S)" if "cd_F h' x \<and> x \<noteq> a" for x using fin that by blast
    next
      fix x assume x: "x \<in> set (u # S) \<union> insert v Q" "x \<noteq> a"
      have "cd_E h' x \<in> set (cur_edges g (cd_P h' x)) \<and> edge_dest es (cd_E h' x) = x \<and> cd_D h' x = cd_D h' (cd_P h' x) + edge_dist es (cd_E h' x)"
      proof (cases "x = v")
        case True
        then show ?thesis using PE[OF x(1)] e(1-3) vS by (auto simp: D')
      next
        case False
        then have xS: "x \<in> set (u # S) \<union> Q" using x(1) by auto
        have "?P x \<noteq> v" using I(7)[OF xS x(2)] vS by auto
        then show ?thesis using PE[OF x(1)] False C(6)[OF xS x(2)] by (simp add: D')
      qed
      then show "cd_E h' x \<in> set (cur_edges g (cd_P h' x))" "edge_dest es (cd_E h' x) = x"
        "cd_D h' x = cd_D h' (cd_P h' x) + edge_dist es (cd_E h' x)" by blast+
    next
      fix b w' assume b: "m \<in> set (u # S) \<and> (b, w') \<in> set (?adj m) \<and> cd_D h' b = cd_D h' m + w' \<and> \<not> (m = hd (u # S) \<and> (b, w') \<in> set todo)"
      have mv: "m \<noteq> v" using b vS by auto
      have bD: "b = v \<and> ?D u + w = ?D m + w' \<or> b \<noteq> v \<and> ?D b = ?D m + w'" using b mv by (auto simp: D' split: if_splits)
      show "cd_P h' b = m"
      proof (cases "b = v")
        case True
        have "u = m"
        proof (rule ccontr)
          assume um: "u \<noteq> m"
          have "?D v \<le> ?D m + w'" using I(12)[of m v w'] b True um by auto
          with strict[OF um] bD True show False by simp
        qed
        then show ?thesis using PE(1)[of v] True by simp
      next
        case False
        have bP: "?P b = m" by (rule C(7)) (use b bD False in auto)
        have "m \<in> R" using b I(3) by auto
        then have bR: "b \<in> R" using cl b by blast
        have "?D b < MAX_VALUE" using I(11)[of m b w'] b bD False by auto
        then have "b \<in> set (u # S) \<union> Q" using I(6)[OF bR] by simp
        then show ?thesis using PE(1)[of b] bP False by auto
      qed
    next
      fix w' assume b: "a \<in> set (u # S) \<and> (m, w') \<in> set (?adj a) \<and> cd_D h' m = w' \<and> \<not> (a = hd (u # S) \<and> (m, w') \<in> set todo)"
      have am': "(m, w') \<in> set (?adj a)" "a \<in> set (u # S)" using b by auto
      show "cd_P h' m = a"
      proof (cases "m = v")
        case True
        have "u = a"
        proof (rule ccontr)
          assume ua: "u \<noteq> a"
          have "u \<noteq> m" using True vS by auto
          have "?D m \<le> ?D a + w'" using I(12)[OF am'(2,1)] ua by simp
          with strict[OF \<open>u \<noteq> m\<close>] b True I(5) show False by (simp add: D')
        qed
        then show ?thesis using PE(1)[of v] True by simp
      next
        case False
        have mD: "?D m = w'" using b False by (simp add: D')
        have mP: "?P m = a" by (rule C(8)[OF am'(2,1) mD]) (use b False in auto)
        have "m \<in> R" using cl[OF _ am'(1)] am'(2) I(3) by auto
        then have "m \<in> set (u # S) \<union> Q" using I(6) I(11)[OF am'(2,1)] mD I(5) by auto
        then show ?thesis using PE(1)[of m] mP False by auto
      qed
    qed
    then show ?thesis using r(1,3) by blast
  next
    case False
    then have le: "?D v \<le> ?D u + w" by (auto simp: better_def)
    then have vi: "v \<in> set (u # S) \<union> Q" using I(6)[OF eu(3)] D(3) by auto
    have ids: "set (cd_ids h') = set (u # S) \<union> Q" using r(4) C(3) vi by auto
    have D': "cd_D h' = ?D"
    proof
      fix x
      show "cd_D h' x = ?D x" using r(4,6) False by (cases "x \<in> set (cd_ids h')") (auto simp: cd_D_def)
    qed
    have PE: "cd_P h' x = ?P x" "cd_E h' x = cd_E h x" if "x \<in> set (u # S) \<union> Q" for x using r(6) False that unfolding ids by auto
    have "search_inv ?adj R a ?D ?P (u # S) Q todo" by (rule best_first.relax_keep[OF bf C(2) vw]) (use le in simp)
    then have inv': "search_inv ?adj R a (cd_D h') (cd_P h') (u # S) Q todo" by (rule search_inv_cong) (use D' PE cl in auto)
    have "ch_search R es g a m h' (u # S) Q todo" unfolding ch_search_def
    proof (intro conjI allI ballI impI)
      show "cd_inv h'" by (rule r(2))
      show "search_inv ?adj R a (cd_D h') (cd_P h') (u # S) Q todo" by (rule inv')
      show "set (cd_ids h') = set (u # S) \<union> Q" by (rule ids)
      show "DistanceHeap_map (cd_heap h') x = (if x \<in> Q then Some (cd_D h' x) else None)" for x
        using r(7) False C(4) by (simp add: D')
      show "x \<in> set (u # S)" if "cd_F h' x \<and> x \<noteq> a" for x using fin that by blast
    next
      fix x assume x: "x \<in> set (u # S) \<union> Q" "x \<noteq> a"
      then show "cd_E h' x \<in> set (cur_edges g (cd_P h' x))" "edge_dest es (cd_E h' x) = x"
        "cd_D h' x = cd_D h' (cd_P h' x) + edge_dist es (cd_E h' x)" using PE[OF x(1)] C(6)[OF x] by (simp_all add: D')
    next
      fix b w' assume b: "m \<in> set (u # S) \<and> (b, w') \<in> set (?adj m) \<and> cd_D h' b = cd_D h' m + w' \<and> \<not> (m = hd (u # S) \<and> (b, w') \<in> set todo)"
      have bD: "?D b = ?D m + w'" using b by (simp add: D')
      have "\<not> (m = u \<and> (b, w') = (v, w))" using bD False by (auto simp: better_def)
      then have bP: "?P b = m" using C(7)[of b w'] b bD by auto
      have mR: "m \<in> R" using b I(3) by auto
      have "b \<in> set (u # S) \<union> Q" using I(6)[OF cl[OF mR, of b w']] I(11)[of m b w'] b bD by auto
      then show "cd_P h' b = m" using PE(1) bP by simp
    next
      fix w' assume b: "a \<in> set (u # S) \<and> (m, w') \<in> set (?adj a) \<and> cd_D h' m = w' \<and> \<not> (a = hd (u # S) \<and> (m, w') \<in> set todo)"
      have am': "a \<in> set (u # S)" "(m, w') \<in> set (?adj a)" "?D m = w'" using b by (auto simp: D')
      have aR: "a \<in> R" using am'(1) I(3) by auto
      have mi: "m \<in> set (u # S) \<union> Q" using I(6)[OF cl[OF aR am'(2)]] I(11)[OF am'(1,2)] am'(3) I(5) by auto
      have "?P m = a"
      proof (cases "a = u")
        case True
        then have "S = []" using settle_order_start[of ?P a S] I(1,8) by (cases S) auto
        then show ?thesis using I(7)[OF mi] am True by auto
      next
        case False
        then show ?thesis using C(8)[OF am'] by simp
      qed
      then show "cd_P h' m = a" using PE(1)[OF mi] by simp
    qed
    then show ?thesis using r(1,3) by blast
  qed
qed

text \<open>One step settles one more node.\<close>

lemma ch_search_edges:
  assumes ok: "cur_ok R es g" and bf: "best_first (cur_adj es g) R a" and am: "a \<noteq> m"
    and rel: "ch_search R es g a m h (u # S) Q (cur_adj es g u)" and row: "take (length (cur_edges g u)) row = cur_edges g u"
  shows "\<exists>h' Q'. for_range 0 (int (length (cur_edges g u))) (CHDijkstra_relax es m u (Some row)) h = Some h' \<and> cd_frame h h' \<and>
    ch_search R es g a m h' (u # S) Q' []"
proof -
  let ?n = "length (cur_edges g u)"
  have len: "?n \<le> length row" using row by (metis length_take min.cobounded1 min_def)
  define I where "I i h' \<longleftrightarrow> cd_frame h h' \<and> (\<exists>Q'. ch_search R es g a m h' (u # S) Q' (drop (nat i) (cur_adj es g u)))" for i :: int and h'
  have "\<exists>h'. for_range 0 (int ?n) (CHDijkstra_relax es m u (Some row)) h = Some h' \<and> I (int ?n) h'"
  proof (rule for_range_rule[where I = I])
    show "I 0 h" using rel by (auto simp: I_def)
    fix i h1 assume i: "0 \<le> i" "i < int ?n" and "I i h1"
    then obtain Q1 where h1: "cd_frame h h1" "ch_search R es g a m h1 (u # S) Q1 (drop (nat i) (cur_adj es g u))" by (auto simp: I_def)
    let ?e = "cur_edges g u ! nat i"
    have ni: "nat i < ?n" "nat (i + 1) = Suc (nat i)" using i by auto
    have dr: "drop (nat i) (cur_adj es g u) = (edge_dest es ?e, edge_dist es ?e) # drop (Suc (nat i)) (cur_adj es g u)"
      using ni(1) Cons_nth_drop_Suc[of "nat i" "cur_adj es g u"] by (simp add: cur_adj_def)
    have "row ! nat i = ?e" using ni(1) row by (metis nth_take)
    then have rd: "rowget (Some row) i = Some ?e" using i ni(1) len by (simp add: rowget_def aget_def)
    have em: "?e \<in> set (cur_edges g u)" using ni(1) by simp
    obtain h2 Q2 where "CHDijkstra_relax es m u (Some row) i h1 = Some h2" "cd_frame h1 h2"
      "ch_search R es g a m h2 (u # S) Q2 (drop (Suc (nat i)) (cur_adj es g u))"
      using ch_search_relax[OF ok bf am h1(2)[unfolded dr] em refl refl rd] by blast
    then show "\<exists>h'. CHDijkstra_relax es m u (Some row) i h1 = Some h' \<and> I (i + 1) h'"
      using cd_frame_trans[OF h1(1)] ni(2) by (auto simp: I_def)
  qed simp
  then show ?thesis by (auto simp: I_def cur_adj_def)
qed

lemma ch_search_step:
  assumes ok: "cur_ok R es g" and bf: "best_first (cur_adj es g) R a" and am: "a \<noteq> m"
    and rel: "ch_search R es g a m h S Q []" and ne: "Q \<noteq> {}"
  shows "\<exists>h' x Q'. CHDijkstra_nextStep es g m h = Some (True, h') \<and> cd_frame h h' \<and> ch_search R es g a m h' (x # S) Q' []"
proof -
  note C = ch_searchD[OF rel] and I = search_invD[OF ch_searchD(2)[OF rel]]
  have hm: "DistanceHeap_map (cd_heap h) \<noteq> Map.empty" using ne C(4) by (metis all_not_in_conv option.distinct(1))
  have dq: "dq_inv (cd_heap h)" using cd_invD(9)[OF C(1)] .
  obtain x d q where x: "DistanceHeap_getNext (cd_heap h) = Some (x, q)" "dq_inv q" "DistanceHeap_map (cd_heap h) x = Some d"
    "\<forall>y e. DistanceHeap_map (cd_heap h) y = Some e \<longrightarrow> d \<le> e" "DistanceHeap_map q = (DistanceHeap_map (cd_heap h))(x := None)"
    using DistanceHeap_getNext_ok[OF dq hm] by blast
  have xQ: "x \<in> Q" "d = cd_D h x" using x(3) C(4) by (auto split: if_splits)
  have min: "cd_D h x \<le> cd_D h y" if "y \<in> Q" for y using x(4) C(4)[of y] that xQ(2) by auto
  have xR: "x \<in> R" using I(3) xQ(1) by auto
  let ?h = "h\<lparr>cd_heap := q\<rparr>"
  have ids: "cd_ids ?h = cd_ids h" by (simp add: cd_ids_def)
  have f: "cd_D ?h = cd_D h" "cd_P ?h = cd_P h" "cd_E ?h = cd_E h" "cd_F ?h = cd_F h"
    by (simp_all add: fun_eq_iff cd_D_def cd_P_def cd_E_def cd_F_def cd_at_def ids)
  have inv: "cd_inv ?h" using C(1) x(2) by (simp add: cd_inv_def ids)
  have reach: "reachable (cur_adj es g) a x" by (rule best_first.frontier_reachable[OF bf C(2)]) (use xQ(1) in simp)
  have si: "search_inv (cur_adj es g) R a (cd_D h) (cd_P h) (x # S) (Q - {x}) (cur_adj es g x)"
    by (rule best_first.settle(1)[OF bf C(2) xQ(1) min reach])
  have rel': "ch_search R es g a m ?h (x # S) (Q - {x}) (cur_adj es g x)" unfolding ch_search_def f ids
  proof (intro conjI allI ballI impI)
    show "cd_inv ?h" by (rule inv)
    show "search_inv (cur_adj es g) R a (cd_D h) (cd_P h) (x # S) (Q - {x}) (cur_adj es g x)" by (rule si)
    show "set (cd_ids h) = set (x # S) \<union> (Q - {x})" using C(3) xQ(1) by auto
    show "DistanceHeap_map (cd_heap ?h) y = (if y \<in> Q - {x} then Some (cd_D h y) else None)" for y using x(5) C(4) by simp
    show "y \<in> set (x # S)" if "cd_F h y \<and> y \<noteq> a" for y using C(5) that by simp
  next
    fix y assume y: "y \<in> set (x # S) \<union> (Q - {x})" "y \<noteq> a"
    then have "y \<in> set S \<union> Q" using xQ(1) by auto
    from C(6)[OF this y(2)] show "cd_E h y \<in> set (cur_edges g (cd_P h y))" "edge_dest es (cd_E h y) = y"
      "cd_D h y = cd_D h (cd_P h y) + edge_dist es (cd_E h y)" by blast+
  next
    fix b w assume "m \<in> set (x # S) \<and> (b, w) \<in> set (cur_adj es g m) \<and> cd_D h b = cd_D h m + w \<and> \<not> (m = hd (x # S) \<and> (b, w) \<in> set (cur_adj es g x))"
    then show "cd_P h b = m" using C(7)[of b w] by auto
  next
    fix w assume "a \<in> set (x # S) \<and> (m, w) \<in> set (cur_adj es g a) \<and> cd_D h m = w \<and> \<not> (a = hd (x # S) \<and> (m, w) \<in> set (cur_adj es g x))"
    then show "cd_P h m = a" using C(8)[of w] by auto
  qed
  obtain row where row: "DynamicGrid_getCurrentEdges g x = Some (Some row)" "take (length (cur_edges g x)) row = cur_edges g x"
    using cur_okD(3)[OF ok xR] by blast
  obtain h' Q' where h': "for_range 0 (int (length (cur_edges g x))) (CHDijkstra_relax es m x (Some row)) ?h = Some h'" "cd_frame ?h h'"
    "ch_search R es g a m h' (x # S) Q' []" using ch_search_edges[OF ok bf am rel' row(2)] by blast
  have "\<not> DistanceHeap_isEmpty (cd_heap h)" using DistanceHeap_isEmpty_iff[OF dq] hm by simp
  then have "CHDijkstra_nextStep es g m h = Some (True, h')"
    unfolding CHDijkstra_nextStep_def using x(1) cur_okD(2)[OF ok xR] row(1) h'(1) by simp
  moreover have "cd_frame h h'" using h'(2) by (simp add: cd_frame_def)
  ultimately show ?thesis using h'(3) by blast
qed

lemma ch_search_isEmpty:
  assumes "ch_search R es g a m h S Q todo"
  shows "DistanceHeap_isEmpty (cd_heap h) \<longleftrightarrow> Q = {}"
proof -
  have "DistanceHeap_map (cd_heap h) = (\<lambda>x. if x \<in> Q then Some (cd_D h x) else None)" using ch_searchD(4)[OF assms] by (rule ext)
  then show ?thesis using DistanceHeap_isEmpty_iff[OF cd_invD(9)[OF ch_searchD(1)[OF assms]]] by (auto simp: fun_eq_iff)
qed

lemma ch_search_steps:
  assumes ok: "cur_ok R es g" and bf: "best_first (cur_adj es g) R a" and am: "a \<noteq> m"
  shows "ch_search R es g a m h S Q [] \<Longrightarrow> \<exists>h' S' Q'. CHDijkstra_steps es g m k h = Some h' \<and> cd_frame h h' \<and>
    ch_search R es g a m h' S' Q' [] \<and> length S \<le> length S' \<and> (0 < k \<and> Q \<noteq> {} \<longrightarrow> length S < length S')"
proof (induction k arbitrary: h S Q)
  case 0
  then show ?case by (intro exI[of _ h] exI[of _ S] exI[of _ Q]) simp
next
  case (Suc k)
  show ?case
  proof (cases "Q = {}")
    case True
    then have "CHDijkstra_nextStep es g m h = Some (False, h)" using ch_search_isEmpty[OF Suc.prems] by (simp add: CHDijkstra_nextStep_def)
    then show ?thesis using Suc.prems True by (intro exI[of _ h] exI[of _ S] exI[of _ Q]) simp
  next
    case False
    obtain h1 x Q1 where h1: "CHDijkstra_nextStep es g m h = Some (True, h1)" "cd_frame h h1" "ch_search R es g a m h1 (x # S) Q1 []"
      using ch_search_step[OF ok bf am Suc.prems False] by blast
    obtain h2 S2 Q2 where h2: "CHDijkstra_steps es g m k h1 = Some h2" "cd_frame h1 h2" "ch_search R es g a m h2 S2 Q2 []" "length (x # S) \<le> length S2"
      using Suc.IH[OF h1(3)] by blast
    show ?thesis using h1(1) h2 cd_frame_trans[OF h1(2) h2(2)]
      by (intro exI[of _ h2] exI[of _ S2] exI[of _ Q2]) simp
  qed
qed

lemma CHDijkstra_allNodesFound_ok:
  assumes "cd_inv h" "\<forall>x \<in> set nb. x < MAX_VALUE"
  shows "\<exists>f. CHDijkstra_allNodesFound h nb = Some f \<and> (f \<longrightarrow> (\<forall>x \<in> set nb. cd_F h x))"
  using assms(2)
proof (induction nb)
  case (Cons x nb)
  have xM: "x < MAX_VALUE" "\<forall>x \<in> set nb. x < MAX_VALUE" using Cons.prems by simp_all
  obtain f where IH: "CHDijkstra_allNodesFound h nb = Some f" "f \<longrightarrow> (\<forall>x \<in> set nb. cd_F h x)" using Cons.IH xM(2) by blast
  show ?case
  proof (cases "x \<in> set (cd_ids h)")
    case True
    then show ?thesis using cd_lookup(1)[OF assms(1) True] cd_lookup(3)[OF assms(1) True cd_invD(5)[OF assms(1)]] IH
      by (cases "cd_at h (cd_finalDistance h) x") (auto simp: cd_F_def)
  next
    case False
    then show ?thesis using cd_lookup_new[OF assms(1) False xM(1)] by (intro exI[of _ False]) simp
  qed
qed (intro exI[of _ True], simp)

lemma ch_search_loop:
  assumes ok: "cur_ok R es g" and bf: "best_first (cur_adj es g) R a" and am: "a \<noteq> m" and nb: "set nb \<subseteq> R"
  shows "ch_search R es g a m h S Q [] \<Longrightarrow> \<exists>h' S' Q'. CHDijkstra_search es g m nb h = Some h' \<and> cd_frame h h' \<and>
    ch_search R es g a m h' S' Q' [] \<and> (Q' = {} \<or> set nb - {a} \<subseteq> set S')"
proof (induction "card R - length S" arbitrary: h S Q rule: less_induct)
  case less
  note C = ch_searchD[OF less.prems] and I = search_invD[OF ch_searchD(2)[OF less.prems]]
  have nbM: "\<forall>x \<in> set nb. x < MAX_VALUE" using nb cur_okD(1)[OF ok] by blast
  obtain f where f: "CHDijkstra_allNodesFound h nb = Some f" "f \<longrightarrow> (\<forall>x \<in> set nb. cd_F h x)"
    using CHDijkstra_allNodesFound_ok[OF C(1) nbM] by blast
  show ?case
  proof (cases "f \<or> Q = {}")
    case True
    then have "CHDijkstra_search es g m nb h = Some h" using f(1) ch_search_isEmpty[OF less.prems]
      by (subst CHDijkstra_search.simps) auto
    moreover have "set nb - {a} \<subseteq> set S" if f using f(2) that C(5) by auto
    ultimately show ?thesis using True less.prems by (intro exI[of _ h] exI[of _ S] exI[of _ Q]) auto
  next
    case False
    obtain h1 S1 Q1 where h1: "CHDijkstra_steps es g m CHDijkstra_MULTIPLE_STEP_NUMBER h = Some h1" "cd_frame h h1" "ch_search R es g a m h1 S1 Q1 []"
      "length S < length S1"
      using ch_search_steps[OF ok bf am less.prems, of CHDijkstra_MULTIPLE_STEP_NUMBER] False by (auto simp: CHDijkstra_MULTIPLE_STEP_NUMBER_def)
    note I1 = search_invD[OF ch_searchD(2)[OF h1(3)]]
    have "length S1 \<le> card R" using card_mono[of R "set S1"] ok I1(1,3) distinct_card[OF I1(1)] by (simp add: cur_ok_def)
    then have "card R - length S1 < card R - length S" using h1(4) by simp
    from less.hyps[OF this h1(3)] obtain h2 S2 Q2 where h2: "CHDijkstra_search es g m nb h1 = Some h2" "cd_frame h1 h2"
      "ch_search R es g a m h2 S2 Q2 []" "Q2 = {} \<or> set nb - {a} \<subseteq> set S2" by blast
    have "CHDijkstra_search es g m nb h = CHDijkstra_search es g m nb h1" using f(1) False ch_search_isEmpty[OF less.prems] h1(1)
      by (subst CHDijkstra_search.simps) (simp add: CHDijkstra_multipleNextSteps_def)
    then show ?thesis using h2 cd_frame_trans[OF h1(2) h2(2)] by (intro exI[of _ h2] exI[of _ S2] exI[of _ Q2]) simp
  qed
qed

section \<open>The search from a neighbour\<close>

text \<open>What a thread has between two searches.\<close>

definition cd_ready :: "CHDijkstra \<Rightarrow> bool" where
  "cd_ready h \<longleftrightarrow> length (cd_distances h) = length (cd_foundIds h) \<and> length (cd_finalDistance h) = length (cd_foundIds h) \<and>
     length (cd_previousNodes h) = length (cd_foundIds h) \<and> length (cd_previousEdges h) = length (cd_foundIds h) \<and>
     0 < length (cd_foundIds h) \<and> dq_inv (cd_heap h)"

lemma cd_inv_ready: "cd_inv h \<Longrightarrow> cd_ready h"
  by (simp add: cd_inv_def cd_ready_def)

lemma CHDijkstra_nextCalc_ok:
  assumes ok: "cur_ok R es g" and bf: "best_first (cur_adj es g) R a" and am: "a \<noteq> m" and nb: "set nb \<subseteq> R" and h: "cd_ready h" and aR: "a \<in> R"
  shows "\<exists>h' S Q. CHDijkstra_nextCalc es g a nb m h = Some h' \<and> cd_neighbours h' = Some nb \<and> cd_initialNode h' = a \<and>
    cd_shortcuts h' = cd_shortcuts h \<and> cd_nodeIdsToCalc h' = cd_nodeIdsToCalc h \<and>
    ch_search R es g a m h' S Q [] \<and> (Q = {} \<or> set nb - {a} \<subseteq> set S)"
proof -
  have len: "length (cd_distances h) = length (cd_foundIds h)" "length (cd_finalDistance h) = length (cd_foundIds h)"
    "length (cd_previousNodes h) = length (cd_foundIds h)" "length (cd_previousEdges h) = length (cd_foundIds h)"
    "0 < length (cd_foundIds h)" "dq_inv (cd_heap h)" using h by (simp_all add: cd_ready_def)
  have aM: "a < MAX_VALUE" by (rule cur_okD(1)[OF ok aR])
  have "dq_index (length (dq_ids (cd_heap h))) (cd_heap h)" using len(6) by (simp add: dq_inv_def)
  from DistanceHeap_reset_ok[OF this] have rs: "dq_inv (DistanceHeap_reset (cd_heap h))" "DistanceHeap_map (DistanceHeap_reset (cd_heap h)) = Map.empty" by auto
  obtain q where q: "DistanceHeap_add (DistanceHeap_reset (cd_heap h)) a 0 = Some q" "dq_inv q" "DistanceHeap_map q = [a \<mapsto> 0]"
    using distanceHeap.add_law[OF rs(1) aM, of 0] rs(2) by auto
  let ?f = "(fillAll (cd_foundIds h) MAX_VALUE)[0 := a]" let ?d = "(fillAll (cd_distances h) 0)[0 := 0]"
  define h0 where "h0 = h\<lparr>cd_neighbours := Some nb, cd_initialNode := a, cd_foundIds := ?f, cd_distances := ?d, cd_foundIdCount := 1, cd_heap := q\<rparr>"
  have h0: "cd_foundIds h0 = ?f" "cd_distances h0 = ?d" "cd_finalDistance h0 = cd_finalDistance h" "cd_previousNodes h0 = cd_previousNodes h"
    "cd_previousEdges h0 = cd_previousEdges h" "cd_foundIdCount h0 = 1" "cd_heap h0 = q" by (simp_all add: h0_def)
  have pad: "padded ?f [a]" using aM len(5) by (cases "cd_foundIds h") (simp_all add: padded_def fillAll_def)
  have ids: "cd_ids h0 = [a]" unfolding cd_ids_def h0 by (rule padded_ids[OF pad])
  have inv: "cd_inv h0" using len q(2) pad by (simp add: cd_inv_def ids h0)
  have D: "cd_D h0 x = (if x = a then 0 else MAX_VALUE)" for x
    using len(1,5) by (simp add: cd_D_def cd_at_def ids lpos_def h0 fillAll_def)
  have "search_inv (cur_adj es g) R a (cd_D h0) (cd_P h0) [] {a} []"
    by (rule best_first.initial[OF bf]) (simp_all add: D)
  then have "ch_search R es g a m h0 [] {a} []"
    using inv q(3) by (simp add: ch_search_def ids D h0) (auto simp: cd_F_def ids)
  then obtain h' S Q where h': "CHDijkstra_search es g m nb h0 = Some h'" "cd_frame h0 h'" "ch_search R es g a m h' S Q []"
    "Q = {} \<or> set nb - {a} \<subseteq> set S" using ch_search_loop[OF ok bf am nb] by blast
  have "CHDijkstra_nextCalc es g a nb m h = Some h'" unfolding CHDijkstra_nextCalc_def using len(1,5) q(1) h'(1) by (simp add: aset_def h0_def)
  then show ?thesis using h' by (intro exI[of _ h'] exI[of _ S] exI[of _ Q]) (simp add: cd_frame_def h0_def)
qed

text \<open>The distances of settled nodes are least, and those of all found nodes are lengths of ways.\<close>

lemma ch_search_way:
  assumes ok: "cur_ok R es g" and bf: "best_first (cur_adj es g) R a" and rel: "ch_search R es g a m h S Q []"
  shows "x \<in> set S \<union> Q \<Longrightarrow> way (cur_adj es g) a x (cd_D h x)"
    and "x \<in> set S \<Longrightarrow> least (cur_adj es g) a x (cd_D h x)"
proof -
  note C = ch_searchD[OF rel] and I = search_invD[OF ch_searchD(2)[OF rel]]
  have settled: "\<exists>p. walk (cur_adj es g) a p (cd_D h x) \<and> last p = x" if "x \<in> set S" for x
    by (rule best_first.settled_walk[OF bf I(8) that]) (use I(5,7) in auto)
  show w: "way (cur_adj es g) a x (cd_D h x)" if "x \<in> set S \<union> Q" for x
  proof (cases "x = a")
    case True
    then show ?thesis using I(5) by (simp add: up_walk_refl)
  next
    case False
    from I(7)[OF that False] obtain w where w: "cd_P h x \<in> set S" "(x, w) \<in> set (cur_adj es g (cd_P h x))" "cd_D h x = cd_D h (cd_P h x) + w" by blast
    obtain p where "walk (cur_adj es g) a p (cd_D h (cd_P h x))" "last p = cd_P h x" using settled[OF w(1)] by blast
    with walk_way have "way (cur_adj es g) a (cd_P h x) (cd_D h (cd_P h x))" by fastforce
    from way_snoc[OF this, of x w] w(2,3) show ?thesis by simp
  qed
  show "least (cur_adj es g) a x (cd_D h x)" if x: "x \<in> set S"
  proof -
    have "cd_D h x \<le> c" if "way (cur_adj es g) a x c" for c
    proof -
      from way_walk[OF that] obtain p where p: "walk (cur_adj es g) a p c" "last p = x" by blast
      from best_first.frontier[OF bf C(2) p(1)] p(2) consider "cd_D h x \<le> c" | y where "y \<in> Q" "cd_D h y \<le> c" by auto
      then show ?thesis using I(9)[OF x] by cases force+
    qed
    then show ?thesis using w x by (simp add: least_def)
  qed
qed

lemma ch_search_preferred:
  assumes ok: "cur_ok R es g" and bf: "best_first (cur_adj es g) R a" and am: "a \<noteq> m" and rel: "ch_search R es g a m h S Q []"
    and a: "a \<in> set S" and e: "(m, w1) \<in> set (cur_adj es g a)" "(b, w2) \<in> set (cur_adj es g m)"
    and l: "least (cur_adj es g) a b (w1 + w2)" and b: "b \<in> set S" "a \<in> R"
  shows "cd_P h m = a" "cd_P h b = m" "m \<in> set S"
proof -
  note C = ch_searchD[OF rel] and I = search_invD[OF ch_searchD(2)[OF rel]]
  have mR: "m \<in> R" using cur_okD(5)[OF ok b(2) e(1)] by simp
  have w2: "0 < w2" using cur_okD(5)[OF ok mR e(2)] by simp
  have Dm: "cd_D h m \<le> w1" "w1 < MAX_VALUE" using I(12)[OF a e(1)] I(11)[OF a e(1)] I(5) by simp_all
  have mi: "m \<in> set S \<union> Q" using I(6)[OF mR] Dm by simp
  have "w1 + w2 \<le> cd_D h m + w2" by (rule leastD(2)[OF l way_snoc[OF ch_search_way(1)[OF ok bf rel mi] e(2)]])
  then have eq: "cd_D h m = w1" using Dm by simp
  have "cd_D h b = w1 + w2" by (rule least_unique[OF ch_search_way(2)[OF ok bf rel b(1)] l])
  then have Db: "cd_D h b = cd_D h m + w2" using eq by simp
  show mS: "m \<in> set S" using mi I(9)[OF b(1), of m] Db w2 by auto
  show "cd_P h m = a" by (rule C(8)[OF a e(1) eq]) simp
  show "cd_P h b = m" by (rule C(7)[OF mS e(2) Db]) simp
qed

section \<open>The shortcuts\<close>

text \<open>
  A shortcut in the list of the thread: start, destination, distance, second and first edge. For a
  contracted node \<open>m\<close> and a start \<open>a\<close> the list gets the tuples of a list of shortcuts that are
  sound and complete for the destinations \<open>nb\<close>.
\<close>

type_synonym shortcut = "int \<times> int \<times> int \<times> int \<times> int"

fun shortcut_row :: "shortcut \<Rightarrow> int list" where
  "shortcut_row (a, b, d, e2, e1) = [a, b, d, e2, e1]"

definition shortcut_rows :: "shortcut list \<Rightarrow> int list" where
  "shortcut_rows ss = concat (map shortcut_row ss)"

fun shortcut_ok :: "Edges \<Rightarrow> DynamicGrid \<Rightarrow> int \<Rightarrow> shortcut \<Rightarrow> bool" where
  "shortcut_ok es g m (a, b, d, e2, e1) \<longleftrightarrow> b \<noteq> a \<and> e1 \<in> set (cur_edges g a) \<and> edge_dest es e1 = m \<and>
     e2 \<in> set (cur_edges g m) \<and> edge_dest es e2 = b \<and> d = edge_dist es e1 + edge_dist es e2 \<and> least (cur_adj es g) a b d"

definition has_shortcut :: "shortcut list \<Rightarrow> int \<Rightarrow> int \<Rightarrow> bool" where
  "has_shortcut ss a b \<longleftrightarrow> (\<exists>d e2 e1. (a, b, d, e2, e1) \<in> set ss)"

definition needs_shortcut :: "Edges \<Rightarrow> DynamicGrid \<Rightarrow> int \<Rightarrow> int \<Rightarrow> int \<Rightarrow> bool" where
  "needs_shortcut es g m a b \<longleftrightarrow> b \<noteq> a \<and> (\<exists>w1 w2. (m, w1) \<in> set (cur_adj es g a) \<and> (b, w2) \<in> set (cur_adj es g m) \<and>
     least (cur_adj es g) a b (w1 + w2))"

lemma shortcut_rows_simps [simp]: "shortcut_rows [] = []" "shortcut_rows (s # ss) = shortcut_row s @ shortcut_rows ss"
  "shortcut_rows (ss @ ts) = shortcut_rows ss @ shortcut_rows ts"
  by (simp_all add: shortcut_rows_def)

lemma IntArrayList_add5:
  assumes "al_inv l"
  shows "\<exists>l1 l2 l3 l4 l5. IntArrayList_add l a = Some l1 \<and> IntArrayList_add l1 b = Some l2 \<and> IntArrayList_add l2 c = Some l3 \<and>
    IntArrayList_add l3 d = Some l4 \<and> IntArrayList_add l4 e = Some l5 \<and> al_inv l5 \<and> al_contents l5 = al_contents l @ [a, b, c, d, e]"
proof -
  obtain l1 where 1: "IntArrayList_add l a = Some l1" "al_inv l1" "al_contents l1 = al_contents l @ [a]" using IntArrayList_add_ok[OF assms] by blast
  obtain l2 where 2: "IntArrayList_add l1 b = Some l2" "al_inv l2" "al_contents l2 = al_contents l1 @ [b]" using IntArrayList_add_ok[OF 1(2)] by blast
  obtain l3 where 3: "IntArrayList_add l2 c = Some l3" "al_inv l3" "al_contents l3 = al_contents l2 @ [c]" using IntArrayList_add_ok[OF 2(2)] by blast
  obtain l4 where 4: "IntArrayList_add l3 d = Some l4" "al_inv l4" "al_contents l4 = al_contents l3 @ [d]" using IntArrayList_add_ok[OF 3(2)] by blast
  obtain l5 where 5: "IntArrayList_add l4 e = Some l5" "al_inv l5" "al_contents l5 = al_contents l4 @ [e]" using IntArrayList_add_ok[OF 4(2)] by blast
  show ?thesis using 1 2 3 4 5 by simp
qed

lemma CHDijkstra_addShortcut_ok:
  assumes inv: "cd_inv h" and al: "al_inv (cd_shortcuts h)" and m: "m \<in> set (cd_ids h)"
    and b: "b < MAX_VALUE" "b \<noteq> cd_initialNode h \<Longrightarrow> b \<in> set (cd_ids h)"
  shows "\<exists>l. CHDijkstra_addShortcut m (int (lpos (cd_ids h) m)) b h = Some (h\<lparr>cd_shortcuts := l\<rparr>) \<and> al_inv l \<and>
    al_contents l = al_contents (cd_shortcuts h) @ (if b \<noteq> cd_initialNode h \<and> cd_P h b = m then
      shortcut_row (cd_initialNode h, b, cd_D h b, cd_E h b, cd_E h m) else [])"
proof (cases "b = cd_initialNode h")
  case True
  have "\<exists>i. binarySearch (cd_foundIds h) b = Some i" using padded_search[OF cd_invD(1)[OF inv] b(1)] by simp
  then show ?thesis using True al by (intro exI[of _ "cd_shortcuts h"]) (auto simp: CHDijkstra_addShortcut_def)
next
  case False
  note bi = b(2)[OF False] and I = cd_invD[OF inv]
  note rd = cd_lookup(1)[OF inv bi] cd_lookup(3)[OF inv bi I(4)] cd_lookup(3)[OF inv bi I(6)] cd_lookup(3)[OF inv bi I(7)] cd_lookup(3)[OF inv m I(7)]
  show ?thesis
  proof (cases "cd_P h b = m")
    case True
    obtain l1 l2 l3 l4 l5 where l: "IntArrayList_add (cd_shortcuts h) (cd_initialNode h) = Some l1" "IntArrayList_add l1 b = Some l2"
      "IntArrayList_add l2 (cd_D h b) = Some l3" "IntArrayList_add l3 (cd_E h b) = Some l4" "IntArrayList_add l4 (cd_E h m) = Some l5" "al_inv l5"
      "al_contents l5 = al_contents (cd_shortcuts h) @ [cd_initialNode h, b, cd_D h b, cd_E h b, cd_E h m]"
      using IntArrayList_add5[OF al] by blast
    then show ?thesis using True False rd bi by (intro exI[of _ l5]) (simp add: CHDijkstra_addShortcut_def cd_P_def cd_D_def cd_E_def)
  next
    case ne: False
    then show ?thesis using False rd al by (intro exI[of _ "cd_shortcuts h"]) (simp add: CHDijkstra_addShortcut_def cd_P_def)
  qed
qed

lemma CHDijkstra_addShortcut_loop:
  assumes inv: "cd_inv h" and m: "m \<in> set (cd_ids h)"
  shows "al_inv (cd_shortcuts h) \<Longrightarrow> (\<And>b. b \<in> set nb \<Longrightarrow> b < MAX_VALUE \<and> (b \<noteq> cd_initialNode h \<longrightarrow> b \<in> set (cd_ids h))) \<Longrightarrow>
    \<exists>l. for_list nb (CHDijkstra_addShortcut m (int (lpos (cd_ids h) m))) h = Some (h\<lparr>cd_shortcuts := l\<rparr>) \<and> al_inv l \<and>
      al_contents l = al_contents (cd_shortcuts h) @
        shortcut_rows (map (\<lambda>b. (cd_initialNode h, b, cd_D h b, cd_E h b, cd_E h m)) (filter (\<lambda>b. b \<noteq> cd_initialNode h \<and> cd_P h b = m) nb))"
  using inv m
proof (induction nb arbitrary: h)
  case Nil
  then show ?case by (intro exI[of _ "cd_shortcuts h"]) simp
next
  case (Cons b nb)
  have b: "b < MAX_VALUE" "b \<noteq> cd_initialNode h \<Longrightarrow> b \<in> set (cd_ids h)" using Cons.prems(2)[of b] by auto
  obtain l where l: "CHDijkstra_addShortcut m (int (lpos (cd_ids h) m)) b h = Some (h\<lparr>cd_shortcuts := l\<rparr>)" "al_inv l"
    "al_contents l = al_contents (cd_shortcuts h) @ (if b \<noteq> cd_initialNode h \<and> cd_P h b = m then
      shortcut_row (cd_initialNode h, b, cd_D h b, cd_E h b, cd_E h m) else [])"
    using CHDijkstra_addShortcut_ok[OF Cons.prems(3,1,4) b] by blast
  let ?h = "h\<lparr>cd_shortcuts := l\<rparr>"
  have ids: "cd_ids ?h = cd_ids h" by (simp add: cd_ids_def)
  have f: "cd_D ?h = cd_D h" "cd_P ?h = cd_P h" "cd_E ?h = cd_E h" "cd_initialNode ?h = cd_initialNode h" "cd_shortcuts ?h = l"
    by (simp_all add: fun_eq_iff cd_D_def cd_P_def cd_E_def cd_at_def ids)
  have inv: "cd_inv ?h" using Cons.prems(3) by (simp add: cd_inv_def ids)
  obtain l' where l': "for_list nb (CHDijkstra_addShortcut m (int (lpos (cd_ids ?h) m))) ?h = Some (?h\<lparr>cd_shortcuts := l'\<rparr>)" "al_inv l'"
    "al_contents l' = al_contents (cd_shortcuts ?h) @
        shortcut_rows (map (\<lambda>b. (cd_initialNode ?h, b, cd_D ?h b, cd_E ?h b, cd_E ?h m)) (filter (\<lambda>b. b \<noteq> cd_initialNode ?h \<and> cd_P ?h b = m) nb))"
    using Cons.IH[of ?h] inv Cons.prems(2,4) l(2) unfolding ids f by auto
  show ?case using l l' unfolding ids f by (intro exI[of _ l']) simp
qed

lemma CHDijkstra_addShortcuts_ok:
  assumes ok: "cur_ok R es g" and bf: "best_first (cur_adj es g) R a" and am: "a \<noteq> m" and aR: "a \<in> R"
    and rel: "ch_search R es g a m h S Q []" and over: "Q = {} \<or> set nb - {a} \<subseteq> set S"
    and h: "cd_neighbours h = Some nb" "cd_initialNode h = a" "al_inv (cd_shortcuts h)"
    and nb: "set nb \<subseteq> R" "\<And>b. b \<in> set nb \<Longrightarrow> \<exists>w. (b, w) \<in> set (cur_adj es g m)" and ma: "(m, w0) \<in> set (cur_adj es g a)"
  shows "\<exists>l ss. CHDijkstra_addShortcuts m h = Some (h\<lparr>cd_shortcuts := l\<rparr>) \<and> al_inv l \<and> al_contents l = al_contents (cd_shortcuts h) @ shortcut_rows ss \<and>
    (\<forall>s \<in> set ss. shortcut_ok es g m s \<and> fst s = a) \<and> (\<forall>b \<in> set nb. needs_shortcut es g m a b \<longrightarrow> has_shortcut ss a b)"
proof -
  note C = ch_searchD[OF rel] and I = search_invD[OF ch_searchD(2)[OF rel]]
  let ?adj = "cur_adj es g"
  have mR: "m \<in> R" using cur_okD(5)[OF ok aR ma] by simp
  have mM: "m < MAX_VALUE" by (rule cur_okD(1)[OF ok mR])
  have hsame: "h\<lparr>cd_shortcuts := cd_shortcuts h\<rparr> = h" by simp
  have bS: "b \<in> set S" if "b \<in> set nb" "b \<noteq> a" for b
  proof (cases "Q = {}")
    case True
    from nb(2)[OF that(1)] obtain w where "(b, w) \<in> set (?adj m)" by blast
    then have "walk ?adj a ([a, m] @ [b]) (w0 + w)" using walk_step[OF walk_edge[of m w0 ?adj a]] ma by simp
    then have "reachable ?adj a b" unfolding reachable_def by (intro exI[of _ "[a, m] @ [b]"]) auto
    then show ?thesis using best_first.exhausted[OF bf] C(2) True by simp
  next
    case False
    then show ?thesis using over that by blast
  qed
  have aS: "a \<in> set S" if "S \<noteq> []" using settle_order_start[OF I(8) that] .
  show ?thesis
  proof (cases "m \<in> set (cd_ids h)")
    case False
    have "a \<notin> set S"
    proof
      assume a: "a \<in> set S"
      have "cd_D h m < MAX_VALUE" using I(11,12)[OF a ma] by simp
      then show False using I(6)[OF mR] C(3) False by simp
    qed
    then have "S = []" using aS by blast
    then have "\<forall>b \<in> set nb. b = a" using bS by auto
    moreover have "CHDijkstra_addShortcuts m h = Some (h\<lparr>cd_shortcuts := cd_shortcuts h\<rparr>)"
      using cd_lookup_new[OF C(1) False mM] by (simp add: CHDijkstra_addShortcuts_def)
    ultimately show ?thesis using h(3)
      by (intro exI[of _ "cd_shortcuts h"] exI[of _ "[]"]) (auto simp: needs_shortcut_def)
  next
    case True
    note rd = cd_lookup(1)[OF C(1) True] cd_lookup(3)[OF C(1) True cd_invD(6)[OF C(1)]]
    have pref: "cd_P h m = a \<and> cd_P h b = m" if "b \<in> set nb" "needs_shortcut es g m a b" for b
    proof -
      from that(2) obtain w1 w2 where w: "b \<noteq> a" "(m, w1) \<in> set (?adj a)" "(b, w2) \<in> set (?adj m)" "least ?adj a b (w1 + w2)"
        unfolding needs_shortcut_def by blast
      have b: "b \<in> set S" using bS[OF that(1) w(1)] .
      then have "S \<noteq> []" by auto
      from ch_search_preferred[OF ok bf am rel aS[OF this] w(2-4) b aR] show ?thesis by blast
    qed
    show ?thesis
    proof (cases "cd_P h m = a")
      case False
      have "CHDijkstra_addShortcuts m h = Some (h\<lparr>cd_shortcuts := cd_shortcuts h\<rparr>)"
        using rd False h(2) by (simp add: CHDijkstra_addShortcuts_def cd_P_def)
      then show ?thesis using h(3) pref False by (intro exI[of _ "cd_shortcuts h"] exI[of _ "[]"]) auto
    next
      case Pm: True
      let ?ss = "map (\<lambda>b. (a, b, cd_D h b, cd_E h b, cd_E h m)) (filter (\<lambda>b. b \<noteq> a \<and> cd_P h b = m) nb)"
      have nbi: "b < MAX_VALUE \<and> (b \<noteq> cd_initialNode h \<longrightarrow> b \<in> set (cd_ids h))" if "b \<in> set nb" for b
        using cur_okD(1)[OF ok] nb(1) bS[OF that] C(3) h(2) that by auto
      obtain l where l: "for_list nb (CHDijkstra_addShortcut m (int (lpos (cd_ids h) m))) h = Some (h\<lparr>cd_shortcuts := l\<rparr>)" "al_inv l"
        "al_contents l = al_contents (cd_shortcuts h) @ shortcut_rows ?ss"
        using CHDijkstra_addShortcut_loop[OF C(1) True h(3) nbi] unfolding h(2) by blast
      have run: "CHDijkstra_addShortcuts m h = Some (h\<lparr>cd_shortcuts := l\<rparr>)"
        using rd Pm h(1,2) l(1) by (simp add: CHDijkstra_addShortcuts_def cd_P_def)
      have "shortcut_ok es g m (a, b, cd_D h b, cd_E h b, cd_E h m)" if b: "b \<in> set nb" "b \<noteq> a" "cd_P h b = m" for b
      proof -
        have bs: "b \<in> set S" by (rule bS[OF b(1,2)])
        have "cd_E h b \<in> set (cur_edges g m) \<and> edge_dest es (cd_E h b) = b \<and> cd_D h b = cd_D h m + edge_dist es (cd_E h b)"
          using C(6)[of b] bs b by simp
        moreover have "cd_E h m \<in> set (cur_edges g a) \<and> edge_dest es (cd_E h m) = m \<and> cd_D h m = edge_dist es (cd_E h m)"
          using C(6)[of m] True C(3) am Pm I(5) by auto
        ultimately show ?thesis using ch_search_way(2)[OF ok bf rel bs] b(2) by simp
      qed
      then have "\<forall>s \<in> set ?ss. shortcut_ok es g m s \<and> fst s = a" by (auto simp del: shortcut_ok.simps)
      moreover have "\<forall>b \<in> set nb. needs_shortcut es g m a b \<longrightarrow> has_shortcut ?ss a b"
        using pref unfolding has_shortcut_def needs_shortcut_def by force
      ultimately show ?thesis using run l(2,3) by blast
    qed
  qed
qed

section \<open>All shortcuts of a contracted node\<close>

definition cur_graph :: "int set \<Rightarrow> Edges \<Rightarrow> DynamicGrid \<Rightarrow> bool" where
  "cur_graph R es g \<longleftrightarrow> cur_ok R es g \<and> (\<forall>a \<in> R. best_first (cur_adj es g) R a) \<and>
     (\<forall>u \<in> R. \<forall>v w. (v, w) \<in> set (cur_adj es g u) \<longrightarrow> v \<noteq> u \<and> (u, w) \<in> set (cur_adj es g v))"

lemma cur_graphD:
  assumes "cur_graph R es g"
  shows "cur_ok R es g" "a \<in> R \<Longrightarrow> best_first (cur_adj es g) R a"
    "u \<in> R \<Longrightarrow> (v, w) \<in> set (cur_adj es g u) \<Longrightarrow> v \<in> R \<and> v \<noteq> u \<and> (u, w) \<in> set (cur_adj es g v) \<and> 0 < w"
  using assms cur_okD(5)[of R es g u v w] unfolding cur_graph_def by auto

definition cd_idle :: "CHDijkstra \<Rightarrow> bool" where
  "cd_idle h \<longleftrightarrow> cd_ready h \<and> al_inv (cd_shortcuts h) \<and> al_inv (cd_nodeIdsToCalc h)"

lemma CHDijkstra_neighbours_ok:
  assumes ok: "cur_ok R es g" and m: "m \<in> R" and row: "take (length (cur_edges g m)) row = cur_edges g m"
  shows "do { neighbours \<leftarrow> newArray (int (length (cur_edges g m))) 0;
      for_range 0 (int (length (cur_edges g m))) (\<lambda>i neighbours. do {
           e \<leftarrow> rowget (Some row) i;
           d \<leftarrow> Edges_getDest es e;
           aset neighbours i d
         }) neighbours } = Some (map (edge_dest es) (cur_edges g m))"
proof -
  let ?es = "cur_edges g m" let ?n = "length ?es"
  let ?step = "\<lambda>i nb. do { e \<leftarrow> rowget (Some row) i; d \<leftarrow> Edges_getDest es e; aset nb i d }"
  have len: "?n \<le> length row" using row by (metis length_take min.cobounded1 min_def)
  define I where "I i nb \<longleftrightarrow> nb = map (edge_dest es) (take (nat i) ?es) @ replicate (?n - nat i) 0" for i :: int and nb
  have "\<exists>nb. for_range 0 (int ?n) ?step (replicate ?n 0) = Some nb \<and> I (int ?n) nb"
  proof (rule for_range_rule[where I = I])
    show "I 0 (replicate ?n 0)" by (simp add: I_def)
    fix i nb assume i: "0 \<le> i" "i < int ?n" and nb: "I i nb"
    have ni: "nat i < ?n" "nat (i + 1) = Suc (nat i)" "?n - nat i = Suc (?n - Suc (nat i))" using i by auto
    have "row ! nat i = ?es ! nat i" using ni(1) row by (metis nth_take)
    then have "rowget (Some row) i = Some (?es ! nat i)" using i ni(1) len by (simp add: rowget_def aget_def)
    moreover have "Edges_getDest es (?es ! nat i) = Some (edge_dest es (?es ! nat i))" using cur_okD(4)[OF ok m, of "?es ! nat i"] ni(1) by simp
    moreover have "aset nb i (edge_dest es (?es ! nat i)) = Some (map (edge_dest es) (take (Suc (nat i)) ?es) @ replicate (?n - Suc (nat i)) 0)"
      using i ni nb unfolding I_def ni(3) by (simp add: aset_def list_update_append take_Suc_conv_app_nth min_def)
    ultimately show "\<exists>nb'. ?step i nb = Some nb' \<and> I (i + 1) nb'" by (simp add: I_def ni(2))
  qed simp
  then show ?thesis by (simp add: I_def newArray_def)
qed

lemma CHDijkstra_neighbour_loop:
  assumes G: "cur_graph R es g" and m: "m \<in> R" and nb: "nb = map (edge_dest es) (cur_edges g m)"
  shows "set as \<subseteq> set nb \<Longrightarrow> cd_idle h \<Longrightarrow> \<exists>h' ss.
    for_list as (\<lambda>neighbourId h. do { h \<leftarrow> CHDijkstra_nextCalc es g neighbourId nb m h; CHDijkstra_addShortcuts m h }) h = Some h' \<and>
    cd_idle h' \<and> cd_nodeIdsToCalc h' = cd_nodeIdsToCalc h \<and> al_contents (cd_shortcuts h') = al_contents (cd_shortcuts h) @ shortcut_rows ss \<and>
    (\<forall>s \<in> set ss. shortcut_ok es g m s \<and> fst s \<in> R) \<and> (\<forall>a \<in> set as. \<forall>b \<in> set nb. needs_shortcut es g m a b \<longrightarrow> has_shortcut ss a b)"
proof (induction as arbitrary: h)
  case Nil
  then show ?case by (intro exI[of _ h] exI[of _ "[]"]) simp
next
  case (Cons a as)
  note ok = cur_graphD(1)[OF G]
  have adj: "\<exists>w. (b, w) \<in> set (cur_adj es g m)" if "b \<in> set nb" for b using that by (auto simp: nb cur_adj_def)
  have nbR: "set nb \<subseteq> R" using adj cur_graphD(3)[OF G m] by blast
  obtain w0 where "(a, w0) \<in> set (cur_adj es g m)" using adj[of a] Cons.prems(1) by auto
  from cur_graphD(3)[OF G m this] have a: "a \<in> R" "a \<noteq> m" "(m, w0) \<in> set (cur_adj es g a)" by auto
  note bf = cur_graphD(2)[OF G a(1)]
  have ready: "cd_ready h" "al_inv (cd_shortcuts h)" "al_inv (cd_nodeIdsToCalc h)" using Cons.prems(2) by (simp_all add: cd_idle_def)
  obtain h1 S Q where h1: "CHDijkstra_nextCalc es g a nb m h = Some h1" "cd_neighbours h1 = Some nb" "cd_initialNode h1 = a"
    "cd_shortcuts h1 = cd_shortcuts h" "cd_nodeIdsToCalc h1 = cd_nodeIdsToCalc h" "ch_search R es g a m h1 S Q []"
    "Q = {} \<or> set nb - {a} \<subseteq> set S"
    using CHDijkstra_nextCalc_ok[OF ok bf a(2) nbR ready(1) a(1)] by blast
  obtain l s1 where l: "CHDijkstra_addShortcuts m h1 = Some (h1\<lparr>cd_shortcuts := l\<rparr>)" "al_inv l"
    "al_contents l = al_contents (cd_shortcuts h1) @ shortcut_rows s1" "\<forall>s \<in> set s1. shortcut_ok es g m s \<and> fst s = a"
    "\<forall>b \<in> set nb. needs_shortcut es g m a b \<longrightarrow> has_shortcut s1 a b"
    using CHDijkstra_addShortcuts_ok[OF ok bf a(2,1) h1(6,7,2,3) _ nbR adj a(3)] h1(4) ready(2) by auto
  let ?h = "h1\<lparr>cd_shortcuts := l\<rparr>"
  have "cd_ready ?h" using cd_inv_ready[OF ch_searchD(1)[OF h1(6)]] by (simp add: cd_ready_def)
  then have "cd_idle ?h" using l(2) h1(5) ready(3) by (simp add: cd_idle_def)
  moreover have "set as \<subseteq> set nb" using Cons.prems(1) by simp
  ultimately obtain h' ss where h': "for_list as (\<lambda>neighbourId h. do { h \<leftarrow> CHDijkstra_nextCalc es g neighbourId nb m h; CHDijkstra_addShortcuts m h }) ?h = Some h'"
    "cd_idle h'" "cd_nodeIdsToCalc h' = cd_nodeIdsToCalc ?h" "al_contents (cd_shortcuts h') = al_contents (cd_shortcuts ?h) @ shortcut_rows ss"
    "\<forall>s \<in> set ss. shortcut_ok es g m s \<and> fst s \<in> R" "\<forall>a \<in> set as. \<forall>b \<in> set nb. needs_shortcut es g m a b \<longrightarrow> has_shortcut ss a b"
    using Cons.IH by blast
  have has: "has_shortcut (s1 @ ss) x y \<longleftrightarrow> has_shortcut s1 x y \<or> has_shortcut ss x y" for x y by (auto simp: has_shortcut_def)
  have run: "for_list (a # as) (\<lambda>neighbourId h. do { h \<leftarrow> CHDijkstra_nextCalc es g neighbourId nb m h; CHDijkstra_addShortcuts m h }) h = Some h'"
    using h1(1) l(1) h'(1) by simp
  have sound: "\<forall>s \<in> set (s1 @ ss). shortcut_ok es g m s \<and> fst s \<in> R" using l(4) h'(5) a(1) by auto
  have comp: "\<forall>x \<in> set (a # as). \<forall>b \<in> set nb. needs_shortcut es g m x b \<longrightarrow> has_shortcut (s1 @ ss) x b" using l(5) h'(6) has by auto
  show ?case using run h'(2,3,4) l(3) h1(4,5) sound comp by (intro exI[of _ h'] exI[of _ "s1 @ ss"]) simp
qed

lemma CHDijkstra_contract_ok:
  assumes G: "cur_graph R es g" and m: "m \<in> R" and h: "cd_idle h"
  shows "\<exists>h' ss. CHDijkstra_contract es g m h = Some h' \<and> cd_idle h' \<and> cd_nodeIdsToCalc h' = cd_nodeIdsToCalc h \<and>
    al_contents (cd_shortcuts h') = al_contents (cd_shortcuts h) @ shortcut_rows ss \<and> (\<forall>s \<in> set ss. shortcut_ok es g m s \<and> fst s \<in> R) \<and>
    (\<forall>a \<in> R. \<forall>b. needs_shortcut es g m a b \<longrightarrow> has_shortcut ss a b)"
proof -
  note ok = cur_graphD(1)[OF G] and cnt = cur_okD(2)[OF cur_graphD(1)[OF G] m]
  let ?nb = "map (edge_dest es) (cur_edges g m)"
  have ends: "a \<in> set ?nb \<and> b \<in> set ?nb \<and> b \<noteq> a" if "a \<in> R" "needs_shortcut es g m a b" for a b
  proof -
    from that(2) obtain w1 w2 where w: "(m, w1) \<in> set (cur_adj es g a)" "(b, w2) \<in> set (cur_adj es g m)" "b \<noteq> a"
      unfolding needs_shortcut_def by blast
    have "(a, w1) \<in> set (cur_adj es g m)" using cur_graphD(3)[OF G that(1) w(1)] by simp
    then show ?thesis using w(2,3) by (auto simp: cur_adj_def)
  qed
  show ?thesis
  proof (cases "length (cur_edges g m) < 2")
    case True
    have "\<not> needs_shortcut es g m a b" if "a \<in> R" for a b
    proof
      assume "needs_shortcut es g m a b"
      from ends[OF that this] have "{a, b} \<subseteq> set ?nb" "card {a, b} = 2" by simp_all
      then have "2 \<le> card (set ?nb)" using card_mono[OF finite_set[of ?nb], of "{a, b}"] by simp
      then show False using card_length[of ?nb] True by simp
    qed
    then show ?thesis using cnt True h by (intro exI[of _ h] exI[of _ "[]"]) (simp add: CHDijkstra_contract_def)
  next
    case False
    obtain row where row: "DynamicGrid_getCurrentEdges g m = Some (Some row)" "take (length (cur_edges g m)) row = cur_edges g m"
      using cur_okD(3)[OF ok m] by blast
    obtain h' ss where h': "for_list ?nb (\<lambda>neighbourId h. do { h \<leftarrow> CHDijkstra_nextCalc es g neighbourId ?nb m h; CHDijkstra_addShortcuts m h }) h = Some h'"
      "cd_idle h'" "cd_nodeIdsToCalc h' = cd_nodeIdsToCalc h" "al_contents (cd_shortcuts h') = al_contents (cd_shortcuts h) @ shortcut_rows ss"
      "\<forall>s \<in> set ss. shortcut_ok es g m s \<and> fst s \<in> R" "\<forall>a \<in> set ?nb. \<forall>b \<in> set ?nb. needs_shortcut es g m a b \<longrightarrow> has_shortcut ss a b"
      using CHDijkstra_neighbour_loop[OF G m refl subset_refl h] by blast
    have "CHDijkstra_contract es g m h = Some h'"
      unfolding CHDijkstra_contract_def using cnt row(1) False CHDijkstra_neighbours_ok[OF ok m row(2)] h'(1) by (simp add: bind_eq_Some_conv) blast
    moreover have "\<forall>a \<in> R. \<forall>b. needs_shortcut es g m a b \<longrightarrow> has_shortcut ss a b" using ends h'(6) by blast
    ultimately show ?thesis using h'(2-5) by blast
  qed
qed

lemma CHDijkstra_run_ok:
  assumes G: "cur_graph R es g" and ms: "set (al_contents (cd_nodeIdsToCalc h)) \<subseteq> R" and h: "cd_idle h"
  shows "\<exists>h' ss. CHDijkstra_run es g h = Some h' \<and> al_inv (cd_shortcuts h') \<and> al_contents (cd_shortcuts h') = shortcut_rows ss \<and>
    (\<forall>s \<in> set ss. fst s \<in> R \<and> (\<exists>m \<in> set (al_contents (cd_nodeIdsToCalc h)). shortcut_ok es g m s)) \<and>
    (\<forall>m \<in> set (al_contents (cd_nodeIdsToCalc h)). \<forall>a \<in> R. \<forall>b. needs_shortcut es g m a b \<longrightarrow> has_shortcut ss a b)"
proof -
  let ?ms = "al_contents (cd_nodeIdsToCalc h)" let ?h = "h\<lparr>cd_shortcuts := IntArrayList_clear (cd_shortcuts h)\<rparr>"
  have al: "al_inv (cd_nodeIdsToCalc h)" "al_inv (cd_shortcuts h)" "cd_ready h" using h by (simp_all add: cd_idle_def)
  have h0: "cd_idle ?h" "al_contents (cd_shortcuts ?h) = []" "cd_nodeIdsToCalc ?h = cd_nodeIdsToCalc h"
    using al IntArrayList_clear_ok[OF al(2)] by (simp_all add: cd_idle_def cd_ready_def)
  let ?step = "\<lambda>nodeIdx h. do { currentNode \<leftarrow> IntArrayList_get (cd_nodeIdsToCalc h) nodeIdx; CHDijkstra_contract es g currentNode h }"
  define I where "I i h1 \<longleftrightarrow> cd_idle h1 \<and> cd_nodeIdsToCalc h1 = cd_nodeIdsToCalc h \<and> (\<exists>ss. al_contents (cd_shortcuts h1) = shortcut_rows ss \<and>
    (\<forall>s \<in> set ss. fst s \<in> R \<and> (\<exists>m \<in> set ?ms. shortcut_ok es g m s)) \<and>
    (\<forall>m \<in> set (take (nat i) ?ms). \<forall>a \<in> R. \<forall>b. needs_shortcut es g m a b \<longrightarrow> has_shortcut ss a b))" for i :: int and h1
  have "\<exists>h1. for_range 0 (int (length ?ms)) ?step ?h = Some h1 \<and> I (int (length ?ms)) h1"
  proof (rule for_range_rule[where I = I])
    show "I 0 ?h" using h0 by (auto simp: I_def intro!: exI[of _ "[]"])
    fix i h1 assume i: "0 \<le> i" "i < int (length ?ms)" and "I i h1"
    then obtain ss where h1: "cd_idle h1" "cd_nodeIdsToCalc h1 = cd_nodeIdsToCalc h" "al_contents (cd_shortcuts h1) = shortcut_rows ss"
      "\<forall>s \<in> set ss. fst s \<in> R \<and> (\<exists>m \<in> set ?ms. shortcut_ok es g m s)"
      "\<forall>m \<in> set (take (nat i) ?ms). \<forall>a \<in> R. \<forall>b. needs_shortcut es g m a b \<longrightarrow> has_shortcut ss a b" by (auto simp: I_def)
    let ?m = "?ms ! nat i"
    have ni: "nat i < length ?ms" "nat (i + 1) = Suc (nat i)" using i by auto
    have rd: "IntArrayList_get (cd_nodeIdsToCalc h1) i = Some ?m" using h1(2) IntArrayList_get_eq[OF al(1)] i by (simp add: aget_def)
    have mR: "?m \<in> R" "?m \<in> set ?ms" using ms ni(1) nth_mem by blast+
    obtain h2 s2 where h2: "CHDijkstra_contract es g ?m h1 = Some h2" "cd_idle h2" "cd_nodeIdsToCalc h2 = cd_nodeIdsToCalc h1"
      "al_contents (cd_shortcuts h2) = al_contents (cd_shortcuts h1) @ shortcut_rows s2" "\<forall>s \<in> set s2. shortcut_ok es g ?m s \<and> fst s \<in> R"
      "\<forall>a \<in> R. \<forall>b. needs_shortcut es g ?m a b \<longrightarrow> has_shortcut s2 a b" using CHDijkstra_contract_ok[OF G mR(1) h1(1)] by blast
    have has: "has_shortcut (ss @ s2) x y \<longleftrightarrow> has_shortcut ss x y \<or> has_shortcut s2 x y" for x y by (auto simp: has_shortcut_def)
    have "I (i + 1) h2" unfolding I_def ni(2) take_Suc_conv_app_nth[OF ni(1)]
    proof (intro conjI exI[of _ "ss @ s2"])
      show "\<forall>s \<in> set (ss @ s2). fst s \<in> R \<and> (\<exists>m \<in> set ?ms. shortcut_ok es g m s)" using h1(4) h2(5) mR(2) by auto
      show "\<forall>m \<in> set (take (nat i) ?ms @ [?m]). \<forall>a \<in> R. \<forall>b. needs_shortcut es g m a b \<longrightarrow> has_shortcut (ss @ s2) a b"
        using h1(5) h2(6) has by auto
    qed (use h1 h2 in auto)
    then show "\<exists>h'. ?step i h1 = Some h' \<and> I (i + 1) h'" using rd h2(1) by simp
  qed simp
  then obtain h1 where run: "for_range 0 (int (length ?ms)) ?step ?h = Some h1" and I1: "I (int (length ?ms)) h1" by blast
  have "CHDijkstra_run es g h = Some (h1\<lparr>cd_nodeIdsToCalc := IntArrayList_clear (cd_nodeIdsToCalc h1)\<rparr>)"
    unfolding CHDijkstra_run_def using run h0(3) IntArrayList_getLen_eq[OF al(1)] by simp
  then show ?thesis using I1 by (auto simp: I_def cd_idle_def)
qed

lemma CHDijkstra_new_ok: "\<exists>h. CHDijkstra_new = Some h \<and> cd_idle h \<and> al_contents (cd_nodeIdsToCalc h) = []"
proof -
  obtain q where q: "DistanceHeap_newDefault = Some q" "dq_inv q" using DistanceHeap_new_ok[of 10 5] by (auto simp: DistanceHeap_newDefault_def)
  obtain l1 l2 where l: "IntArrayList_new 40 = Some l1" "al_inv l1" "IntArrayList_new 5000 = Some l2" "al_inv l2" "al_contents l2 = []"
    using IntArrayList_new_ok[of 40] IntArrayList_new_ok[of 5000] by auto
  show ?thesis unfolding CHDijkstra_new_def q(1) using q(2) l
    by (simp add: newArray_def CHDijkstra_INITIAL_ARRAY_SIZE_def cd_idle_def cd_ready_def)
qed

lemma CHDijkstra_addNodeId_ok:
  assumes "cd_idle h"
  shows "\<exists>h'. CHDijkstra_addNodeId h x = Some h' \<and> cd_idle h' \<and> al_contents (cd_nodeIdsToCalc h') = al_contents (cd_nodeIdsToCalc h) @ [x]"
proof -
  have "al_inv (cd_nodeIdsToCalc h)" using assms by (simp add: cd_idle_def)
  from IntArrayList_add_ok[OF this, of x] show ?thesis using assms by (auto simp: CHDijkstra_addNodeId_def cd_idle_def cd_ready_def)
qed

end
