(* ===== verification/DynamicGraph.thy ===== *)
theory DynamicGraph
  imports LabelFormat CHDijkstra
begin

text \<open>
  The changes of the current graph during a contraction: adding a shortcut (\<open>Edges.addShortcutEdge\<close>
  and \<open>DynamicGrid.addEdge\<close>) and removing a node (\<open>DynamicGrid.removeNode\<close>), as operations on the
  edges of the nodes that are not contracted yet.
\<close>

section \<open>Adding a shortcut to the edges\<close>

text \<open>The arrays of the shortcuts can grow as soon as there is a shortcut.\<close>

definition Edges_growable :: "Edges \<Rightarrow> bool" where
  "Edges_growable es \<longleftrightarrow> eg_shortcutEdgeSizeIncrease es = eg_numOfOriginalEdges es div 2 \<and>
     (2 \<le> eg_numOfOriginalEdges es \<or> eg_nextShortcutId es = eg_numOfOriginalEdges es)"

text \<open>The later state has the edges of the earlier one.\<close>

definition Edges_extends :: "Edges \<Rightarrow> Edges \<Rightarrow> bool" where
  "Edges_extends es es' \<longleftrightarrow> eg_numOfOriginalEdges es' = eg_numOfOriginalEdges es \<and> eg_nextShortcutId es \<le> eg_nextShortcutId es' \<and>
     (\<forall>e. 0 \<le> e \<and> e < eg_nextShortcutId es \<longrightarrow> edge_start es' e = edge_start es e \<and> edge_dest es' e = edge_dest es e \<and>
        edge_dist es' e = edge_dist es e)"

lemma Edges_extends_refl [simp]: "Edges_extends es es"
  by (simp add: Edges_extends_def)

lemma Edges_extends_trans: "Edges_extends es es' \<Longrightarrow> Edges_extends es' es'' \<Longrightarrow> Edges_extends es es''"
  unfolding Edges_extends_def by (metis order_less_le_trans order_trans)

lemma Edges_extends_adj:
  assumes "Edges_extends es es'" "Edges_sized es"
  shows "original_adj es' = original_adj es"
proof
  fix u
  have n: "eg_numOfOriginalEdges es' = eg_numOfOriginalEdges es" "eg_numOfOriginalEdges es \<le> eg_nextShortcutId es"
    using assms by (simp_all add: Edges_extends_def Edges_sized_def)
  have "edge_start es' (int e) = edge_start es (int e)" "edge_dest es' (int e) = edge_dest es (int e)" "edge_dist es' (int e) = edge_dist es (int e)"
    if "e < nat (eg_numOfOriginalEdges es)" for e
    using assms(1) n(2) that by (auto simp: Edges_extends_def)
  then show "original_adj es' u = original_adj es u" unfolding original_adj_def n(1)
    by (auto intro!: map_cong filter_cong)
qed

lemma Edges_room:
  assumes sz: "Edges_sized es" and inc: "0 < eg_shortcutEdgeSizeIncrease es"
  obtains e1 where "(if int (length (eg_shortcutEdgeDist es)) - 1 < eg_nextShortcutId es - eg_numOfOriginalEdges es then Edges_grow es else Some es) = Some e1"
    "Edges_sized e1" "eg_nextShortcutId e1 - eg_numOfOriginalEdges e1 < int (length (eg_shortcutEdgeDist e1))"
    "eg_numOfOriginalEdges e1 = eg_numOfOriginalEdges es" "eg_nextShortcutId e1 = eg_nextShortcutId es"
    "eg_shortcutEdgeSizeIncrease e1 = eg_shortcutEdgeSizeIncrease es" "eg_originalEdgeStart e1 = eg_originalEdgeStart es"
    "eg_originalEdgeDest e1 = eg_originalEdgeDest es" "eg_originalEdgeDist e1 = eg_originalEdgeDist es"
    "\<And>i. i < length (eg_shortcutEdgeDist es) \<Longrightarrow> eg_shortcutEdgeStart e1 ! i = eg_shortcutEdgeStart es ! i \<and>
       eg_shortcutEdgeDest e1 ! i = eg_shortcutEdgeDest es ! i \<and> eg_shortcutEdgeDist e1 ! i = eg_shortcutEdgeDist es ! i"
    "\<And>i. i < length (eg_shortcutEdgeParts es) \<Longrightarrow> eg_shortcutEdgeParts e1 ! i = eg_shortcutEdgeParts es ! i"
proof (cases "int (length (eg_shortcutEdgeDist es)) - 1 < eg_nextShortcutId es - eg_numOfOriginalEdges es")
  case False
  then show thesis using that[of es] sz by auto
next
  case True
  let ?l = "length (eg_shortcutEdgeDist es)" let ?k = "nat (eg_shortcutEdgeSizeIncrease es)"
  have len: "length (eg_shortcutEdgeStart es) = ?l" "length (eg_shortcutEdgeDest es) = ?l" "length (eg_shortcutEdgeParts es) = 2 * ?l"
    using sz by (simp_all add: Edges_sized_def)
  have c: "copyOf a (int ?l + eg_shortcutEdgeSizeIncrease es) 0 = Some (a @ replicate ?k 0)" if "length a = ?l" for a :: "int list"
    using that inc by (simp add: copyOf_def nat_add_distrib)
  have c2: "copyOf a ((int ?l + eg_shortcutEdgeSizeIncrease es) * 2) 0 = Some (a @ replicate (2 * ?k) 0)" if "length a = 2 * ?l" for a :: "int list"
    using that inc by (simp add: copyOf_def nat_add_distrib nat_mult_distrib)
  let ?e = "es\<lparr>eg_shortcutEdgeStart := eg_shortcutEdgeStart es @ replicate ?k 0, eg_shortcutEdgeDest := eg_shortcutEdgeDest es @ replicate ?k 0,
    eg_shortcutEdgeDist := eg_shortcutEdgeDist es @ replicate ?k 0, eg_shortcutEdgeParts := eg_shortcutEdgeParts es @ replicate (2 * ?k) 0\<rparr>"
  have run: "Edges_grow es = Some ?e" unfolding Edges_grow_def Let_def c[OF len(1)] c[OF len(2)] c[OF refl] c2[OF len(3)] by simp
  have "Edges_sized ?e" using sz by (simp add: Edges_sized_def)
  moreover have "eg_nextShortcutId es - eg_numOfOriginalEdges es \<le> int ?l" using sz by (simp add: Edges_sized_def)
  ultimately show thesis using that[of ?e] True run inc len by (simp add: nth_append)
qed

lemma edge_at_shortcut:
  assumes "Edges_sized es" "eg_numOfOriginalEdges es \<le> e" "e < eg_nextShortcutId es"
  shows "edge_dest es e = eg_shortcutEdgeDest es ! nat (e - eg_numOfOriginalEdges es)"
    "edge_dist es e = eg_shortcutEdgeDist es ! nat (e - eg_numOfOriginalEdges es)"
  using assms by (simp_all add: edge_dest_def edge_dist_def Edges_getDest_def Edges_getDist_def aget_def Edges_sized_def)

lemma edge_at_original:
  assumes "Edges_sized es" "0 \<le> e" "e < eg_numOfOriginalEdges es"
  shows "edge_dest es e = eg_originalEdgeDest es ! nat e" "edge_dist es e = eg_originalEdgeDist es ! nat e"
  using assms by (simp_all add: edge_dest_def edge_dist_def Edges_getDest_def Edges_getDist_def aget_def Edges_sized_def)

lemma Edges_addShortcutEdge_ok:
  assumes wf: "Edges_wf n es" and gr: "Edges_growable es"
    and e1: "0 \<le> e1" "e1 < eg_nextShortcutId es" "edge_start es e1 = a" "edge_dest es e1 = m"
    and e2: "0 \<le> e2" "e2 < eg_nextShortcutId es" "edge_start es e2 = m" "edge_dest es e2 = b" and am: "a \<noteq> m"
    and d: "d = edge_dist es e1 + edge_dist es e2"
  shows "\<exists>es'. Edges_addShortcutEdge es a b d e2 e1 = Some (eg_nextShortcutId es, es') \<and> Edges_wf n es' \<and> Edges_growable es' \<and>
    Edges_extends es es' \<and> eg_nextShortcutId es' = eg_nextShortcutId es + 1 \<and>
    edge_start es' (eg_nextShortcutId es) = a \<and> edge_dest es' (eg_nextShortcutId es) = b \<and> edge_dist es' (eg_nextShortcutId es) = d"
proof -
  let ?num = "eg_numOfOriginalEdges es" let ?nx = "eg_nextShortcutId es" let ?p = "?nx - ?num"
  have sz: "Edges_sized es" using wf by (simp add: Edges_wf_def)
  have num: "0 \<le> ?num" "?num \<le> ?nx" using sz by (simp_all add: Edges_sized_def)
  have "e1 \<noteq> e2" using e1(3) e2(3) am by auto
  then have two: "2 \<le> ?num" using gr e1(1,2) e2(1,2) by (auto simp: Edges_growable_def)
  have inc: "0 < eg_shortcutEdgeSizeIncrease es" using gr two by (simp add: Edges_growable_def)
  obtain s where s: "(if int (length (eg_shortcutEdgeDist es)) - 1 < ?p then Edges_grow es else Some es) = Some s"
    "Edges_sized s" "eg_nextShortcutId s - eg_numOfOriginalEdges s < int (length (eg_shortcutEdgeDist s))"
    "eg_numOfOriginalEdges s = ?num" "eg_nextShortcutId s = ?nx" "eg_shortcutEdgeSizeIncrease s = eg_shortcutEdgeSizeIncrease es"
    "eg_originalEdgeStart s = eg_originalEdgeStart es" "eg_originalEdgeDest s = eg_originalEdgeDest es" "eg_originalEdgeDist s = eg_originalEdgeDist es"
    "\<And>i. i < length (eg_shortcutEdgeDist es) \<Longrightarrow> eg_shortcutEdgeStart s ! i = eg_shortcutEdgeStart es ! i \<and>
       eg_shortcutEdgeDest s ! i = eg_shortcutEdgeDest es ! i \<and> eg_shortcutEdgeDist s ! i = eg_shortcutEdgeDist es ! i"
    "\<And>i. i < length (eg_shortcutEdgeParts es) \<Longrightarrow> eg_shortcutEdgeParts s ! i = eg_shortcutEdgeParts es ! i"
    using Edges_room[OF sz inc] by blast
  define k where "k = nat ?p"
  have k: "?p = int k" "k < length (eg_shortcutEdgeDist s)" "k \<le> length (eg_shortcutEdgeDist es)" "?nx = ?num + int k"
    using num s(3,4,5) sz by (auto simp: k_def Edges_sized_def)
  have len: "length (eg_shortcutEdgeStart s) = length (eg_shortcutEdgeDist s)" "length (eg_shortcutEdgeDest s) = length (eg_shortcutEdgeDist s)"
    "length (eg_shortcutEdgeParts s) = 2 * length (eg_shortcutEdgeDist s)" "length (eg_shortcutEdgeParts es) = 2 * length (eg_shortcutEdgeDist es)"
    using s(2) sz by (simp_all add: Edges_sized_def)
  define s' where "s' = s\<lparr>eg_shortcutEdgeStart := (eg_shortcutEdgeStart s)[k := a], eg_shortcutEdgeDest := (eg_shortcutEdgeDest s)[k := b],
    eg_shortcutEdgeDist := (eg_shortcutEdgeDist s)[k := d], eg_shortcutEdgeParts := (eg_shortcutEdgeParts s)[2 * k := e2, 2 * k + 1 := e1],
    eg_nextShortcutId := ?nx + 1\<rparr>"
  have ix: "nat (int k * 2) = 2 * k" "nat (int k * 2 + 1) = 2 * k + 1" by simp_all
  have run: "Edges_addShortcutEdge es a b d e2 e1 = Some (?nx, s')"
    unfolding Edges_addShortcutEdge_def Let_def s(1) Option.bind.simps unfolding k(1)
    using k(2) len by (simp add: aset_def ix s(5) s'_def)
  have f: "eg_numOfOriginalEdges s' = ?num" "eg_nextShortcutId s' = ?nx + 1" "eg_shortcutEdgeSizeIncrease s' = eg_shortcutEdgeSizeIncrease es"
    "eg_originalEdgeStart s' = eg_originalEdgeStart es" "eg_originalEdgeDest s' = eg_originalEdgeDest es" "eg_originalEdgeDist s' = eg_originalEdgeDist es"
    "eg_shortcutEdgeStart s' = (eg_shortcutEdgeStart s)[k := a]" "eg_shortcutEdgeDest s' = (eg_shortcutEdgeDest s)[k := b]"
    "eg_shortcutEdgeDist s' = (eg_shortcutEdgeDist s)[k := d]" "eg_shortcutEdgeParts s' = (eg_shortcutEdgeParts s)[2 * k := e2, 2 * k + 1 := e1]"
    using s(4-9) by (simp_all add: s'_def)
  have sz': "Edges_sized s'" using s(2,4,5,7-9) k num len by (simp add: Edges_sized_def f)
  have old: "edge_start s' e = edge_start es e \<and> edge_dest s' e = edge_dest es e \<and> edge_dist s' e = edge_dist es e" if e: "0 \<le> e" "e < ?nx" for e
  proof (cases "e < ?num")
    case True
    then show ?thesis using edge_at_original[OF sz e(1) True] edge_at_original[OF sz' e(1)] by (simp add: edge_start_def f)
  next
    case False
    let ?i = "nat (e - ?num)"
    have i: "?i < k" using False e(2) k(4) by simp
    then have "?i < length (eg_shortcutEdgeDist es)" using k(3) by simp
    then show ?thesis using edge_at_shortcut[OF sz _ e(2)] edge_at_shortcut[OF sz', of e] s(10)[of ?i] False e i by (simp add: edge_start_def f)
  qed
  have new: "edge_start s' ?nx = a" "edge_dest s' ?nx = b" "edge_dist s' ?nx = d"
    using edge_at_shortcut[OF sz', of ?nx] k len num by (simp_all add: edge_start_def f)
  have wfD: "0 \<le> edge_start es e \<and> edge_start es e < int n \<and> 0 \<le> edge_dest es e \<and> edge_dest es e < int n \<and> 0 \<le> edge_dist es e"
    if "0 \<le> e" "e < ?nx" for e using wf that by (simp add: Edges_wf_def)
  have parts: "first_part s' e = (if e = ?nx then e1 else first_part es e)" "second_part s' e = (if e = ?nx then e2 else second_part es e)"
    if e: "?num \<le> e" "e < ?nx + 1" for e
  proof -
    define j where "j = nat (e - ?num)"
    have j: "e - ?num = int j" "j \<le> k" "e = ?nx \<longleftrightarrow> j = k" using e k(4) by (auto simp: j_def)
    have "eg_shortcutEdgeParts s' ! (2 * j) = (if j = k then e2 else eg_shortcutEdgeParts s ! (2 * j))"
      "eg_shortcutEdgeParts s' ! (2 * j + 1) = (if j = k then e1 else eg_shortcutEdgeParts s ! (2 * j + 1))"
      using j(2) k(2) len(3) by (auto simp: f nth_list_update)
    moreover have "nat (int j * 2) = 2 * j" "nat (int j * 2 + 1) = 2 * j + 1" by simp_all
    moreover have "eg_shortcutEdgeParts s ! (2 * j) = eg_shortcutEdgeParts es ! (2 * j) \<and> eg_shortcutEdgeParts s ! (2 * j + 1) = eg_shortcutEdgeParts es ! (2 * j + 1)"
      if "j \<noteq> k" using s(11)[of "2 * j"] s(11)[of "2 * j + 1"] that j(2) k(3) len(4) by auto
    ultimately show "first_part s' e = (if e = ?nx then e1 else first_part es e)" "second_part s' e = (if e = ?nx then e2 else second_part es e)"
      using j(1,3) by (simp_all add: first_part_def second_part_def f)
  qed
  have "Edges_wf n s'" unfolding Edges_wf_def f
  proof (intro conjI allI impI)
    show "Edges_sized s'" by (rule sz')
    fix e
    { assume e: "0 \<le> e \<and> e < ?nx + 1"
      show "0 \<le> edge_start s' e" "edge_start s' e < int n" "0 \<le> edge_dest s' e" "edge_dest s' e < int n" "0 \<le> edge_dist s' e"
        using e old[of e] wfD[of e] wfD[OF e1(1,2)] wfD[OF e2(1,2)] e1(3) e2(4) d new by (cases "e = ?nx"; simp)+ }
    assume e: "?num \<le> e \<and> e < ?nx + 1"
    note p = parts[of e] and num
    have oldp: "0 \<le> first_part es e \<and> first_part es e < e \<and> 0 \<le> second_part es e \<and> second_part es e < e \<and>
        edge_start es (first_part es e) = edge_start es e \<and> edge_dest es (first_part es e) = edge_start es (second_part es e) \<and>
        edge_dest es (second_part es e) = edge_dest es e \<and> edge_dist es e = edge_dist es (first_part es e) + edge_dist es (second_part es e)"
      if "e \<noteq> ?nx" using wf that e by (simp add: Edges_wf_def)
    have "0 \<le> first_part s' e \<and> first_part s' e < e \<and> 0 \<le> second_part s' e \<and> second_part s' e < e \<and>
        edge_start s' (first_part s' e) = edge_start s' e \<and> edge_dest s' (first_part s' e) = edge_start s' (second_part s' e) \<and>
        edge_dest s' (second_part s' e) = edge_dest s' e \<and> edge_dist s' e = edge_dist s' (first_part s' e) + edge_dist s' (second_part s' e)"
    proof (cases "e = ?nx")
      case True
      then show ?thesis using p e new old[OF e1(1,2)] old[OF e2(1,2)] e1 e2 d by simp
    next
      case False
      have "0 \<le> e" "e < ?nx" using e False num by auto
      moreover have "first_part es e < ?nx" "second_part es e < ?nx" using oldp[OF False] \<open>e < ?nx\<close> by auto
      ultimately show ?thesis using p e False oldp[OF False] old[of e] old[of "first_part es e"] old[of "second_part es e"] by simp
    qed
    then show "0 \<le> first_part s' e" "first_part s' e < e" "0 \<le> second_part s' e" "second_part s' e < e"
      "edge_start s' (first_part s' e) = edge_start s' e" "edge_dest s' (first_part s' e) = edge_start s' (second_part s' e)"
      "edge_dest s' (second_part s' e) = edge_dest s' e" "edge_dist s' e = edge_dist s' (first_part s' e) + edge_dist s' (second_part s' e)" by blast+
  qed
  moreover have "Edges_growable s'" using gr two by (simp add: Edges_growable_def f)
  moreover have "Edges_extends es s'" using old by (simp add: Edges_extends_def f)
  ultimately show ?thesis using run new f(2) by blast
qed

section \<open>Adding an edge to the rows of a node\<close>

definition rows_ok :: "nat \<Rightarrow> int set \<Rightarrow> DynamicGrid \<Rightarrow> bool" where
  "rows_ok n R g \<longleftrightarrow> length (dg_currentEdgeIds g) = n \<and> length (dg_currentEdgeCount g) = n \<and>
     (\<forall>v \<in> R. 0 \<le> v \<and> v < int n \<and> (\<exists>row. dg_currentEdgeIds g ! nat v = Some row \<and> row \<noteq> [] \<and>
        0 \<le> dg_currentEdgeCount g ! nat v \<and> dg_currentEdgeCount g ! nat v \<le> int (length row))) \<and>
     (\<exists>rows counts. dg_allEdgeIds g = Some rows \<and> dg_allEdgeCount g = Some counts \<and> length rows = n \<and> length counts = n \<and>
        (\<forall>v < n. rows ! v \<noteq> [] \<and> 0 \<le> counts ! v \<and> counts ! v \<le> int (length (rows ! v))))"

lemma cur_edges_cong:
  "dg_currentEdgeIds g' ! nat v = dg_currentEdgeIds g ! nat v \<Longrightarrow> dg_currentEdgeCount g' ! nat v = dg_currentEdgeCount g ! nat v \<Longrightarrow>
    cur_edges g' v = cur_edges g v"
  by (cases "dg_currentEdgeIds g ! nat v") (simp_all add: cur_edges_def)

lemma rows_okD:
  assumes "rows_ok n R g" "v \<in> R"
  obtains row where "0 \<le> v" "v < int n" "dg_currentEdgeIds g ! nat v = Some row" "row \<noteq> []"
    "dg_currentEdgeCount g ! nat v = int (length (cur_edges g v))" "length (cur_edges g v) \<le> length row"
    "take (length (cur_edges g v)) row = cur_edges g v" "DynamicGrid_getCurrentEdges g v = Some (Some row)"
    "DynamicGrid_getCurrentEdgeCount g v = Some (int (length (cur_edges g v)))"
proof -
  obtain row where r: "0 \<le> v" "v < int n" "dg_currentEdgeIds g ! nat v = Some row" "row \<noteq> []"
    "0 \<le> dg_currentEdgeCount g ! nat v" "dg_currentEdgeCount g ! nat v \<le> int (length row)"
    "length (dg_currentEdgeIds g) = n" "length (dg_currentEdgeCount g) = n"
    using assms unfolding rows_ok_def by blast
  have c: "cur_edges g v = take (nat (dg_currentEdgeCount g ! nat v)) row" using r(3) by (simp add: cur_edges_def)
  have l: "int (length (cur_edges g v)) = dg_currentEdgeCount g ! nat v" "length (cur_edges g v) \<le> length row"
    "take (length (cur_edges g v)) row = cur_edges g v" unfolding c using r(5,6) by (auto simp: min_def)
  have "DynamicGrid_getCurrentEdges g v = Some (Some row)" "DynamicGrid_getCurrentEdgeCount g v = Some (int (length (cur_edges g v)))"
    using r l(1) by (simp_all add: DynamicGrid_getCurrentEdges_def DynamicGrid_getCurrentEdgeCount_def aget_def)
  then show thesis by (rule that[OF r(1-4) l(1)[symmetric] l(2,3)])
qed

text \<open>A full row is doubled before an element is written behind its elements.\<close>

lemma row_append:
  fixes row :: "int list"
  assumes "row \<noteq> []" "0 \<le> c" "c \<le> int (length row)"
  obtains row1 row2 where "(if int (length row) = c then copyOf row (int (length row) * 2) 0 else Some row) = Some row1"
    "aset row1 c e = Some row2" "row2 \<noteq> []" "c + 1 \<le> int (length row2)" "take (nat (c + 1)) row2 = take (nat c) row @ [e]"
proof -
  let ?row1 = "if int (length row) = c then row @ replicate (length row) (0::int) else row" let ?row2 = "?row1[nat c := e]"
  have len: "nat c < length ?row1" using assms by (auto simp: nat_less_iff)
  have dbl: "nat (int (length row) * 2) = length row + length row" by (simp add: nat_mult_distrib)
  have "copyOf row (int (length row) * 2) 0 = Some (row @ replicate (length row) 0)" by (simp add: copyOf_def dbl)
  then have 1: "(if int (length row) = c then copyOf row (int (length row) * 2) 0 else Some row) = Some ?row1" by (cases "int (length row) = c") simp_all
  have 2: "aset ?row1 c e = Some ?row2" using assms(2) len by (simp only: aset_def) (simp add: nat_less_iff)
  have sc: "nat (c + 1) = Suc (nat c)" using assms(2) by simp
  have "take (nat c) ?row1 = take (nat c) row" using assms(3) by auto
  moreover have "take (Suc (nat c)) ?row2 = take (nat c) ?row2 @ [?row2 ! nat c]" by (rule take_Suc_conv_app_nth) (use len in simp)
  ultimately have "take (nat (c + 1)) ?row2 = take (nat c) row @ [e]" unfolding sc using len by (simp only: take_update_cancel[OF order_refl] nth_list_update_eq)
  moreover have "?row2 \<noteq> []" "c + 1 \<le> int (length ?row2)" using len assms(1) by auto
  ultimately show thesis using that[OF 1 2] by blast
qed

lemma DynamicGrid_addEdge_ok:
  assumes ok: "rows_ok n R g" and a: "a \<in> R"
  shows "\<exists>g'. DynamicGrid_addEdge g a e = Some g' \<and> rows_ok n R g' \<and>
    (\<forall>v \<in> R. cur_edges g' v = cur_edges g v @ (if v = a then [e] else [])) \<and>
    (\<forall>v. 0 \<le> v \<and> v < int n \<longrightarrow> all_edges g' v = all_edges g v @ (if v = a then [e] else []))"
proof -
  obtain row where r: "0 \<le> a" "a < int n" "dg_currentEdgeIds g ! nat a = Some row" "row \<noteq> []"
    "dg_currentEdgeCount g ! nat a = int (length (cur_edges g a))" "length (cur_edges g a) \<le> length row"
    "take (length (cur_edges g a)) row = cur_edges g a" "DynamicGrid_getCurrentEdges g a = Some (Some row)"
    "DynamicGrid_getCurrentEdgeCount g a = Some (int (length (cur_edges g a)))" by (rule rows_okD[OF ok a])
  obtain rows counts where all: "dg_allEdgeIds g = Some rows" "dg_allEdgeCount g = Some counts" "length rows = n" "length counts = n"
    "\<forall>v < n. rows ! v \<noteq> [] \<and> 0 \<le> counts ! v \<and> counts ! v \<le> int (length (rows ! v))"
    and len: "length (dg_currentEdgeIds g) = n" "length (dg_currentEdgeCount g) = n" using ok unfolding rows_ok_def by blast
  let ?i = "nat a" let ?c = "int (length (cur_edges g a))" let ?ac = "counts ! ?i" let ?ar = "rows ! ?i"
  have i: "?i < n" "int ?i = a" using r(1,2) by auto
  have ar: "?ar \<noteq> []" "0 \<le> ?ac" "?ac \<le> int (length ?ar)" using all(5) i(1) by auto
  obtain row1 row2 where w: "(if int (length row) = ?c then copyOf row (int (length row) * 2) 0 else Some row) = Some row1"
    "aset row1 ?c e = Some row2" "row2 \<noteq> []" "?c + 1 \<le> int (length row2)" "take (nat (?c + 1)) row2 = take (nat ?c) row @ [e]"
    by (rule row_append[of row ?c e]) (use r(4,6) in auto)
  obtain ar1 ar2 where aw: "(if int (length ?ar) = ?ac then copyOf ?ar (int (length ?ar) * 2) 0 else Some ?ar) = Some ar1"
    "aset ar1 ?ac e = Some ar2" "ar2 \<noteq> []" "?ac + 1 \<le> int (length ar2)" "take (nat (?ac + 1)) ar2 = take (nat ?ac) ?ar @ [e]"
    by (rule row_append[OF ar])
  let ?g1 = "g\<lparr>dg_currentEdgeIds := (dg_currentEdgeIds g)[?i := Some row1]\<rparr>"
  let ?g2 = "?g1\<lparr>dg_allEdgeIds := Some (rows[?i := ar1])\<rparr>"
  have g1: "(if int (length row) = ?c then DynamicGrid_growCurrent g a else Some g) = Some ?g1"
  proof (cases "int (length row) = ?c")
    case False
    then have "(dg_currentEdgeIds g)[?i := Some row1] = dg_currentEdgeIds g" using w(1) r(3) list_update_id[of "dg_currentEdgeIds g" ?i] by simp
    then show ?thesis using False by simp
  qed (use w(1) r(1,2,8) len i(1) in \<open>simp add: DynamicGrid_growCurrent_def aset_def\<close>)
  have rd: "DynamicGrid_getAllEdges ?g1 a = Some ?ar" "DynamicGrid_getAllEdgeCount ?g1 a = Some ?ac"
    using all(1-4) r(1,2) by (simp_all add: DynamicGrid_getAllEdges_def DynamicGrid_getAllEdgeCount_def aget_def)
  have g2: "(if int (length ?ar) = ?ac then DynamicGrid_growAll ?g1 a else Some ?g1) = Some ?g2"
  proof (cases "int (length ?ar) = ?ac")
    case False
    then have "rows[?i := ar1] = rows" using aw(1) list_update_id[of rows ?i] by simp
    then show ?thesis using False all(1) by simp
  qed (use aw(1) all(1,3) r(1,2) i(1) in \<open>simp add: DynamicGrid_growAll_def aget_def aset_def\<close>)
  have rd2: "DynamicGrid_getCurrentEdges ?g2 a = Some (Some row1)" using len r(1,2) i(1) by (simp add: DynamicGrid_getCurrentEdges_def aget_def)
  let ?g3 = "?g2\<lparr>dg_currentEdgeIds := (dg_currentEdgeIds g)[?i := Some row2], dg_currentEdgeCount := (dg_currentEdgeCount g)[?i := ?c + 1],
    dg_allEdgeIds := Some (rows[?i := ar2]), dg_allEdgeCount := Some (counts[?i := ?ac + 1])\<rparr>"
  have run: "DynamicGrid_addEdge g a e = Some ?g3"
    unfolding DynamicGrid_addEdge_def r(8,9) Option.bind.simps g1 rd g2 rd2 w(2)
    using len all aw(2) r(1,2) i(1) by (simp add: aset_def aget_def)
  have cur: "cur_edges ?g3 v = cur_edges g v @ (if v = a then [e] else [])" if v: "v \<in> R" for v
  proof -
    have vn: "0 \<le> v" "v < int n" using ok v unfolding rows_ok_def by blast+
    show ?thesis
    proof (cases "v = a")
      case True
      have "cur_edges ?g3 a = take (nat (?c + 1)) row2" unfolding cur_edges_def[of ?g3] using len i(1) by simp
      then show ?thesis using w(5) r(7) True by simp
    next
      case False
      then have "nat v \<noteq> ?i" using vn r(1) by (simp add: nat_eq_iff)
      then have "cur_edges ?g3 v = cur_edges g v" by (intro cur_edges_cong) simp_all
      then show ?thesis using False by simp
    qed
  qed
  have alle: "all_edges ?g3 v = all_edges g v @ (if v = a then [e] else [])" if v: "0 \<le> v" "v < int n" for v
  proof (cases "v = a")
    case True
    then show ?thesis using aw(5) all(1-4) i by (simp add: all_edges_def)
  next
    case False
    then have "nat v \<noteq> ?i" using v r(1) by (simp add: nat_eq_iff)
    then show ?thesis using False all(1,2) by (simp add: all_edges_def)
  qed
  have "rows_ok n R ?g3" unfolding rows_ok_def
  proof (intro conjI ballI)
    fix v assume v: "v \<in> R"
    obtain row' where r': "0 \<le> v" "v < int n" "dg_currentEdgeIds g ! nat v = Some row'" "row' \<noteq> []"
      "dg_currentEdgeCount g ! nat v = int (length (cur_edges g v))" "length (cur_edges g v) \<le> length row'" by (rule rows_okD[OF ok v])
    show "0 \<le> v" "v < int n" by (fact r')+
    show "\<exists>row. dg_currentEdgeIds ?g3 ! nat v = Some row \<and> row \<noteq> [] \<and> 0 \<le> dg_currentEdgeCount ?g3 ! nat v \<and>
        dg_currentEdgeCount ?g3 ! nat v \<le> int (length row)"
      using r' w(3,4) len i by (cases "nat v = ?i") auto
  next
    show "\<exists>rows counts. dg_allEdgeIds ?g3 = Some rows \<and> dg_allEdgeCount ?g3 = Some counts \<and> length rows = n \<and> length counts = n \<and>
        (\<forall>v < n. rows ! v \<noteq> [] \<and> 0 \<le> counts ! v \<and> counts ! v \<le> int (length (rows ! v)))"
      using all(3-5) aw(3,4) ar(2) i(1) by (auto simp: nth_list_update)
  qed (use len in simp_all)
  then show ?thesis using run cur alle by blast
qed

section \<open>Removing a node\<close>

lemma position_found:
  assumes "\<And>j. j < length xs \<Longrightarrow> rowget row (int (k + j)) = Some (xs ! j) \<and> Edges_getDest es (xs ! j) = Some (edge_dest es (xs ! j))"
    and "v \<in> edge_dest es ` set xs"
  shows "\<exists>j < length xs. DynamicGrid_position es row v (map (\<lambda>j. int (k + j)) [0..<length xs]) = Some (int (k + j)) \<and> edge_dest es (xs ! j) = v"
  using assms
proof (induction xs arbitrary: k)
  case (Cons x xs)
  have up: "map (\<lambda>j. int (k + j)) [0..<length (x # xs)] = int k # map (\<lambda>j. int (Suc k + j)) [0..<length xs]"
    by (simp add: upt_conv_Cons map_Suc_upt[symmetric] del: upt_Suc)
  have hd: "rowget row (int k) = Some x" "Edges_getDest es x = Some (edge_dest es x)" using Cons.prems(1)[of 0] by simp_all
  show ?case
  proof (cases "edge_dest es x = v")
    case True
    then show ?thesis unfolding up using hd by (intro exI[of _ 0]) simp
  next
    case False
    have "\<exists>j < length xs. DynamicGrid_position es row v (map (\<lambda>j. int (Suc k + j)) [0..<length xs]) = Some (int (Suc k + j)) \<and> edge_dest es (xs ! j) = v"
      by (rule Cons.IH) (use Cons.prems(1)[of "Suc _"] Cons.prems(2) False in auto)
    then obtain j where "j < length xs" "DynamicGrid_position es row v (map (\<lambda>j. int (Suc k + j)) [0..<length xs]) = Some (int (Suc k + j))"
      "edge_dest es (xs ! j) = v" by blast
    then show ?thesis unfolding up using hd False by (intro exI[of _ "Suc j"]) simp
  qed
qed simp

lemma upto_int_upt: "[0..int n - 1] = map int [0..<n]"
  by (induction n) (simp_all add: upto_rec2 add.commute)

lemma remove_swap:
  assumes "j < length xs"
  shows "mset (take (length xs - 1) (xs[j := last xs])) = mset xs - {#xs ! j#}"
proof -
  have ne: "xs \<noteq> []" using assms by auto
  show ?thesis
  proof (cases "j = length xs - 1")
    case True
    then have "take (length xs - 1) (xs[j := last xs]) = butlast xs" by (simp add: butlast_conv_take)
    moreover have "xs ! j = last xs" using True ne by (simp add: last_conv_nth)
    moreover have "mset xs = add_mset (last xs) (mset (butlast xs))" using ne by (metis append_butlast_last_id mset.simps(2) mset_append union_mset_add_mset_right add_cancel_left_right mset.simps(1))
    ultimately show ?thesis by simp
  next
    case False
    then have j: "j < length (butlast xs)" using assms by simp
    have "take (length xs - 1) (xs[j := last xs]) = (butlast xs)[j := last xs]" by (simp add: butlast_conv_take take_update_swap)
    moreover have "mset ((butlast xs)[j := last xs]) = add_mset (last xs) (mset (butlast xs) - {#butlast xs ! j#})" by (rule mset_update[OF j])
    moreover have "mset xs = add_mset (last xs) (mset (butlast xs))" using ne by (metis append_butlast_last_id mset.simps(2) mset_append union_mset_add_mset_right add_cancel_left_right mset.simps(1))
    moreover have "butlast xs ! j = xs ! j" "butlast xs ! j \<in># mset (butlast xs)" using nth_mem[OF j] by (simp_all add: nth_butlast[OF j])
    ultimately show ?thesis by simp
  qed
qed

lemma DynamicGrid_removeBackwardsEdge_ok:
  assumes ok: "rows_ok n R g" and u: "u \<in> R" and v: "v \<in> edge_dest es ` set (cur_edges g u)"
    and e: "\<And>e. e \<in> set (cur_edges g u) \<Longrightarrow> Edges_getDest es e = Some (edge_dest es e)"
  shows "\<exists>g' x. DynamicGrid_removeBackwardsEdge es g v u = Some g' \<and> rows_ok n R g' \<and> x \<in> set (cur_edges g u) \<and> edge_dest es x = v \<and>
    mset (cur_edges g' u) = mset (cur_edges g u) - {#x#} \<and> (\<forall>w \<in> R. w \<noteq> u \<longrightarrow> cur_edges g' w = cur_edges g w) \<and>
    dg_allEdgeIds g' = dg_allEdgeIds g \<and> dg_allEdgeCount g' = dg_allEdgeCount g"
proof -
  obtain row where r: "0 \<le> u" "u < int n" "dg_currentEdgeIds g ! nat u = Some row" "row \<noteq> []"
    "dg_currentEdgeCount g ! nat u = int (length (cur_edges g u))" "length (cur_edges g u) \<le> length row"
    "take (length (cur_edges g u)) row = cur_edges g u" "DynamicGrid_getCurrentEdges g u = Some (Some row)"
    "DynamicGrid_getCurrentEdgeCount g u = Some (int (length (cur_edges g u)))" by (rule rows_okD[OF ok u])
  let ?xs = "cur_edges g u" let ?k = "length ?xs" let ?i = "nat u"
  have len: "length (dg_currentEdgeIds g) = n" "length (dg_currentEdgeCount g) = n" and i: "?i < n" using ok r(1,2) unfolding rows_ok_def by auto
  have at: "row ! j = ?xs ! j" if "j < ?k" for j using r(7) that by (metis nth_take)
  have rd: "rowget (Some row) (int j) = Some (?xs ! j)" if "j < ?k" for j using at[OF that] that r(6) by (simp add: rowget_def aget_def)
  obtain j where j: "j < ?k" "DynamicGrid_position es (Some row) v [0..int ?k - 1] = Some (int j)" "edge_dest es (?xs ! j) = v"
    using position_found[of ?xs "Some row" 0 es v] rd e v by (auto simp: upto_int_upt)
  have k0: "0 < ?k" using j(1) by linarith
  have last: "rowget (Some row) (int ?k - 1) = Some (last ?xs)"
    using rd[of "?k - 1"] k0 by (simp add: last_conv_nth of_nat_diff)
  let ?row = "row[j := last ?xs]"
  let ?g = "g\<lparr>dg_currentEdgeIds := (dg_currentEdgeIds g)[?i := Some ?row], dg_currentEdgeCount := (dg_currentEdgeCount g)[?i := int ?k - 1]\<rparr>"
  have run: "DynamicGrid_removeBackwardsEdge es g v u = Some ?g"
    unfolding DynamicGrid_removeBackwardsEdge_def r(8,9) Option.bind.simps j(2) last
    using j(1) r(1,2,6) len i by (auto simp: aset_def)
  have cur: "cur_edges ?g u = take (?k - 1) (?xs[j := last ?xs])"
  proof -
    have "nat (int ?k - 1) = ?k - 1" using k0 by simp
    then have "cur_edges ?g u = take (?k - 1) ?row" using len i by (simp add: cur_edges_def)
    also have "\<dots> = take (?k - 1) (take ?k ?row)" by (simp add: min_def)
    also have "take ?k ?row = ?xs[j := last ?xs]" using r(7) by (simp add: take_update_swap)
    finally show ?thesis .
  qed
  have other: "cur_edges ?g w = cur_edges g w" if "w \<in> R" "w \<noteq> u" for w
  proof -
    have "0 \<le> w" using ok that(1) unfolding rows_ok_def by blast
    then have "nat w \<noteq> ?i" using that(2) r(1) by (simp add: nat_eq_iff)
    then show ?thesis by (intro cur_edges_cong) simp_all
  qed
  have "rows_ok n R ?g" unfolding rows_ok_def
  proof (intro conjI ballI)
    fix w assume w: "w \<in> R"
    obtain row' where r': "0 \<le> w" "w < int n" "dg_currentEdgeIds g ! nat w = Some row'" "row' \<noteq> []"
      "dg_currentEdgeCount g ! nat w = int (length (cur_edges g w))" "length (cur_edges g w) \<le> length row'" by (rule rows_okD[OF ok w])
    show "0 \<le> w" "w < int n" by (fact r')+
    show "\<exists>row. dg_currentEdgeIds ?g ! nat w = Some row \<and> row \<noteq> [] \<and> 0 \<le> dg_currentEdgeCount ?g ! nat w \<and>
        dg_currentEdgeCount ?g ! nat w \<le> int (length row)"
      using r' r(4,6) k0 len i by (cases "nat w = ?i") auto
  next
    show "\<exists>rows counts. dg_allEdgeIds ?g = Some rows \<and> dg_allEdgeCount ?g = Some counts \<and> length rows = n \<and> length counts = n \<and>
        (\<forall>v < n. rows ! v \<noteq> [] \<and> 0 \<le> counts ! v \<and> counts ! v \<le> int (length (rows ! v)))"
      using ok unfolding rows_ok_def by simp
  qed (use len in simp_all)
  moreover have "mset (cur_edges ?g u) = mset ?xs - {#?xs ! j#}" unfolding cur by (rule remove_swap[OF j(1)])
  ultimately show ?thesis using run j(1,3) other by (intro exI[of _ ?g] exI[of _ "?xs ! j"]) simp
qed

text \<open>
  The current edges of all nodes can be read, there are no loops, and two nodes have equally many
  edges in both directions.
\<close>

definition balanced :: "int set \<Rightarrow> Edges \<Rightarrow> DynamicGrid \<Rightarrow> bool" where
  "balanced R es g \<longleftrightarrow> (\<forall>u \<in> R. \<forall>e \<in> set (cur_edges g u). Edges_getDest es e = Some (edge_dest es e) \<and> edge_dest es e \<in> R - {u}) \<and>
     (\<forall>u \<in> R. \<forall>v \<in> R. count (mset (map (edge_dest es) (cur_edges g u))) v = count (mset (map (edge_dest es) (cur_edges g v))) u)"

lemma balancedD:
  assumes "balanced R es g" "u \<in> R"
  shows "e \<in> set (cur_edges g u) \<Longrightarrow> Edges_getDest es e = Some (edge_dest es e) \<and> edge_dest es e \<in> R \<and> edge_dest es e \<noteq> u"
    "v \<in> R \<Longrightarrow> count (mset (map (edge_dest es) (cur_edges g u))) v = count (mset (map (edge_dest es) (cur_edges g v))) u"
  using assms unfolding balanced_def by blast+

definition removing :: "int set \<Rightarrow> Edges \<Rightarrow> DynamicGrid \<Rightarrow> int \<Rightarrow> nat \<Rightarrow> DynamicGrid \<Rightarrow> bool" where
  "removing R es g v i g' \<longleftrightarrow> cur_edges g' v = cur_edges g v \<and> dg_allEdgeIds g' = dg_allEdgeIds g \<and> dg_allEdgeCount g' = dg_allEdgeCount g \<and>
     (\<forall>u \<in> R. u \<noteq> v \<longrightarrow> mset (filter (\<lambda>e. edge_dest es e \<noteq> v) (cur_edges g' u)) = mset (filter (\<lambda>e. edge_dest es e \<noteq> v) (cur_edges g u)) \<and>
        mset (cur_edges g' u) \<subseteq># mset (cur_edges g u) \<and>
        count (mset (map (edge_dest es) (cur_edges g' u))) v = count (mset (map (edge_dest es) (drop i (cur_edges g v)))) u)"

lemma DynamicGrid_removeEdges_ok:
  assumes bal: "balanced R es g" and v: "v \<in> R"
  shows "rows_ok n R g1 \<Longrightarrow> removing R es g v i g1 \<Longrightarrow> i \<le> length (cur_edges g v) \<Longrightarrow>
    \<exists>g'. DynamicGrid_removeEdges es v (int i) g1 = Some g' \<and> rows_ok n R g' \<and> removing R es g v (length (cur_edges g v)) g'"
proof (induction "length (cur_edges g v) - i" arbitrary: i g1)
  case 0
  then have i: "i = length (cur_edges g v)" by simp
  obtain row where r: "DynamicGrid_getCurrentEdgeCount g1 v = Some (int (length (cur_edges g1 v)))" by (rule rows_okD[OF 0(2) v])
  have "DynamicGrid_removeEdges es v (int i) g1 = Some g1"
    using r 0(3) i by (subst DynamicGrid_removeEdges.simps) (simp add: removing_def)
  then show ?case using 0(2,3) i by blast
next
  case (Suc k)
  let ?E = "cur_edges g v" let ?u = "edge_dest es (?E ! i)"
  note M = Suc.prems(2)[unfolded removing_def]
  have i: "i < length ?E" using Suc.hyps(2) by simp
  have eE: "?E ! i \<in> set ?E" using i by simp
  note e = balancedD(1)[OF bal v eE]
  obtain row where r: "length (cur_edges g1 v) \<le> length row" "take (length (cur_edges g1 v)) row = cur_edges g1 v"
    "DynamicGrid_getCurrentEdges g1 v = Some (Some row)" "DynamicGrid_getCurrentEdgeCount g1 v = Some (int (length (cur_edges g1 v)))"
    by (rule rows_okD[OF Suc.prems(1) v])
  have cv: "cur_edges g1 v = ?E" using M by blast
  have "row ! i = ?E ! i" using r(2) i by (metis cv nth_take)
  then have rd: "rowget (Some row) (int i) = Some (?E ! i)" using i r(1) cv by (simp add: rowget_def aget_def)
  have dr: "drop i ?E = ?E ! i # drop (Suc i) ?E" using i by (simp add: Cons_nth_drop_Suc)
  have u: "?u \<in> R" "?u \<noteq> v" using e by auto
  have Mu: "mset (filter (\<lambda>e. edge_dest es e \<noteq> v) (cur_edges g1 w)) = mset (filter (\<lambda>e. edge_dest es e \<noteq> v) (cur_edges g w))"
    "mset (cur_edges g1 w) \<subseteq># mset (cur_edges g w)"
    "count (mset (map (edge_dest es) (cur_edges g1 w))) v = count (mset (map (edge_dest es) (drop i ?E))) w" if "w \<in> R" "w \<noteq> v" for w
    using M that by blast+
  have "0 < count (mset (map (edge_dest es) (cur_edges g1 ?u))) v" using Mu(3)[OF u] dr by simp
  then have vu: "v \<in> edge_dest es ` set (cur_edges g1 ?u)" by (metis count_greater_zero_iff image_set set_mset_mset)
  have sub: "set (cur_edges g1 ?u) \<subseteq> set (cur_edges g ?u)" using set_mset_mono[OF Mu(2)[OF u]] by simp
  obtain g2 x where g2: "DynamicGrid_removeBackwardsEdge es g1 v ?u = Some g2" "rows_ok n R g2" "x \<in> set (cur_edges g1 ?u)" "edge_dest es x = v"
    "mset (cur_edges g2 ?u) = mset (cur_edges g1 ?u) - {#x#}" "\<forall>w \<in> R. w \<noteq> ?u \<longrightarrow> cur_edges g2 w = cur_edges g1 w"
    "dg_allEdgeIds g2 = dg_allEdgeIds g1" "dg_allEdgeCount g2 = dg_allEdgeCount g1"
    using DynamicGrid_removeBackwardsEdge_ok[OF Suc.prems(1) u(1) vu] balancedD(1)[OF bal u(1)] sub by blast
  have step: "DynamicGrid_removeEdges es v (int i) g1 = DynamicGrid_removeEdges es v (int (Suc i)) g2"
    using r(3,4) cv i rd e g2(1) by (subst DynamicGrid_removeEdges.simps) (simp add: add.commute)
  have "removing R es g v (Suc i) g2" unfolding removing_def
  proof (intro conjI ballI impI)
    show "cur_edges g2 v = ?E" using g2(6) v u(2) cv by metis
    show "dg_allEdgeIds g2 = dg_allEdgeIds g" "dg_allEdgeCount g2 = dg_allEdgeCount g" using g2(7,8) M by simp_all
    fix w assume w: "w \<in> R" "w \<noteq> v"
    show "mset (filter (\<lambda>e. edge_dest es e \<noteq> v) (cur_edges g2 w)) = mset (filter (\<lambda>e. edge_dest es e \<noteq> v) (cur_edges g w))"
      using Mu(1)[OF w] g2(4,5,6) w(1) by (cases "w = ?u") (simp_all add: mset_filter)
    show "mset (cur_edges g2 w) \<subseteq># mset (cur_edges g w)"
      using Mu(2)[OF w] g2(5,6) w(1) by (cases "w = ?u") (auto intro: subset_mset.order_trans[OF diff_subset_eq_self])
    have "count (mset (map (edge_dest es) (cur_edges g2 ?u))) v + 1 = count (mset (map (edge_dest es) (cur_edges g1 ?u))) v"
    proof -
      have "mset (cur_edges g1 ?u) = add_mset x (mset (cur_edges g2 ?u))" using g2(3,5) by simp
      then show ?thesis using g2(4) by simp
    qed
    then show "count (mset (map (edge_dest es) (cur_edges g2 w))) v = count (mset (map (edge_dest es) (drop (Suc i) ?E))) w"
      using Mu(3)[OF w] dr g2(6) w(1) by (cases "w = ?u") auto
  qed
  then show ?case unfolding step using Suc.hyps(1)[of "Suc i" g2] Suc.hyps(2) g2(2) i by simp
qed

lemma DynamicGrid_removeNode_ok:
  assumes ok: "rows_ok n R g" and bal: "balanced R es g" and v: "v \<in> R"
  shows "\<exists>g'. DynamicGrid_removeNode es g v = Some g' \<and> rows_ok n (R - {v}) g' \<and> balanced (R - {v}) es g' \<and>
    (\<forall>u \<in> R - {v}. mset (cur_edges g' u) = mset (filter (\<lambda>e. edge_dest es e \<noteq> v) (cur_edges g u))) \<and>
    dg_allEdgeIds g' = dg_allEdgeIds g \<and> dg_allEdgeCount g' = dg_allEdgeCount g"
proof -
  let ?k = "length (cur_edges g v)"
  have "removing R es g v 0 g" using balancedD(2)[OF bal _ v] by (simp add: removing_def)
  then obtain g1 where g1: "DynamicGrid_removeEdges es v 0 g = Some g1" "rows_ok n R g1" "removing R es g v ?k g1"
    using DynamicGrid_removeEdges_ok[OF bal v ok, of 0] by auto
  note M = g1(3)[unfolded removing_def]
  obtain row where r: "0 \<le> v" "v < int n" by (rule rows_okD[OF ok v])
  have len: "length (dg_currentEdgeIds g1) = n" "length (dg_currentEdgeCount g1) = n" using g1(2) unfolding rows_ok_def by auto
  let ?g = "g1\<lparr>dg_currentEdgeIds := (dg_currentEdgeIds g1)[nat v := None], dg_currentEdgeCount := (dg_currentEdgeCount g1)[nat v := 0]\<rparr>"
  have run: "DynamicGrid_removeNode es g v = Some ?g" using g1(1) len r by (simp add: DynamicGrid_removeNode_def aset_def)
  have ne: "nat u \<noteq> nat v" "cur_edges ?g u = cur_edges g1 u" if "u \<in> R - {v}" for u
  proof -
    have "0 \<le> u" using ok that unfolding rows_ok_def by blast
    then show "nat u \<noteq> nat v" using that r(1) by (simp add: nat_eq_iff)
    then show "cur_edges ?g u = cur_edges g1 u" by (intro cur_edges_cong) simp_all
  qed
  have cur: "mset (cur_edges ?g u) = mset (filter (\<lambda>e. edge_dest es e \<noteq> v) (cur_edges g u))" if u: "u \<in> R - {v}" for u
  proof -
    have "count (mset (map (edge_dest es) (cur_edges g1 u))) v = 0" using M u by simp
    then have "filter (\<lambda>e. edge_dest es e \<noteq> v) (cur_edges g1 u) = cur_edges g1 u" by (auto simp: count_eq_zero_iff intro!: filter_True)
    moreover have "mset (filter (\<lambda>e. edge_dest es e \<noteq> v) (cur_edges g1 u)) = mset (filter (\<lambda>e. edge_dest es e \<noteq> v) (cur_edges g u))"
      using M u by blast
    ultimately show ?thesis unfolding ne(2)[OF u] by metis
  qed
  have setc: "set (cur_edges ?g u) = {e \<in> set (cur_edges g u). edge_dest es e \<noteq> v}" if "u \<in> R - {v}" for u
    using mset_eq_setD[OF cur[OF that]] by auto
  have cnt: "count (mset (map (edge_dest es) (cur_edges ?g u))) x = count (mset (map (edge_dest es) (cur_edges g u))) x"
    if "u \<in> R - {v}" "x \<noteq> v" for u x
  proof -
    have "count (mset (map (edge_dest es) (filter (\<lambda>e. edge_dest es e \<noteq> v) xs))) x = count (mset (map (edge_dest es) xs)) x" for xs
      using that(2) by (induction xs) auto
    then show ?thesis using cur[OF that(1)] by (metis mset_map)
  qed
  have "rows_ok n (R - {v}) ?g" unfolding rows_ok_def
  proof (intro conjI ballI)
    fix u assume u: "u \<in> R - {v}"
    then obtain row' where r': "0 \<le> u" "u < int n" "dg_currentEdgeIds g1 ! nat u = Some row'" "row' \<noteq> []"
      "dg_currentEdgeCount g1 ! nat u = int (length (cur_edges g1 u))" "length (cur_edges g1 u) \<le> length row'" by (auto elim!: rows_okD[OF g1(2)])
    show "0 \<le> u" "u < int n" by (fact r')+
    show "\<exists>row. dg_currentEdgeIds ?g ! nat u = Some row \<and> row \<noteq> [] \<and> 0 \<le> dg_currentEdgeCount ?g ! nat u \<and>
        dg_currentEdgeCount ?g ! nat u \<le> int (length row)" using r' ne(1)[OF u] by simp
  next
    show "\<exists>rows counts. dg_allEdgeIds ?g = Some rows \<and> dg_allEdgeCount ?g = Some counts \<and> length rows = n \<and> length counts = n \<and>
        (\<forall>v < n. rows ! v \<noteq> [] \<and> 0 \<le> counts ! v \<and> counts ! v \<le> int (length (rows ! v)))"
      using g1(2) unfolding rows_ok_def by simp
  qed (use len in simp_all)
  moreover have "balanced (R - {v}) es ?g" unfolding balanced_def
  proof (intro conjI ballI)
    fix u e assume u: "u \<in> R - {v}" "e \<in> set (cur_edges ?g u)"
    then show "Edges_getDest es e = Some (edge_dest es e)" "edge_dest es e \<in> R - {v} - {u}"
      using setc[OF u(1)] balancedD(1)[OF bal, of u e] by auto
  next
    fix u w assume "u \<in> R - {v}" "w \<in> R - {v}"
    then show "count (mset (map (edge_dest es) (cur_edges ?g u))) w = count (mset (map (edge_dest es) (cur_edges ?g w))) u"
      using cnt[of u w] cnt[of w u] balancedD(2)[OF bal, of u w] by simp
  qed
  ultimately show ?thesis using run cur M by (intro exI[of _ ?g]) simp
qed

end
