(* ===== verification/ContractionHierarchy.thy ===== *)
theory ContractionHierarchy
  imports DynamicGraph
begin

text \<open>
  The contraction of the graph: \<open>calcNextLvl\<close>, \<open>calculateCH\<close> and \<open>main\<close> of
  \<open>hublablecreation/LabelCreator.java\<close>. Each level contracts an independent set of nodes; every level
  contracts at least one node, and at the end the data is \<open>contracted\<close>, what the label creation
  asks for.

  The threads of a level only read the graph, so they run one after the other here. The numbers
  drawn by \<open>java.util.Random\<close> are a parameter, of which only the documented range is used.
\<close>

section \<open>The program\<close>

record LabelCreator =
  lc_contracted :: "bool list"
  lc_isNeighbour :: "bool list"
  lc_alreadyShortcut :: "IntArraySet list"
  lc_calcOrder :: "int list"
  lc_nodesToCalc :: IntArrayList
  lc_nonContractedNum :: int
  lc_nodeCount :: int

definition LabelCreator_markNeighbours :: "Edges \<Rightarrow> int list option \<Rightarrow> int \<Rightarrow> bool list \<Rightarrow> bool list option" where
  "LabelCreator_markNeighbours es edges edgeCount isNeighbour = for_range 0 edgeCount (\<lambda>j isNeighbour. do {
     e \<leftarrow> rowget edges j;
     d \<leftarrow> Edges_getDest es e;
     aset isNeighbour d True
   }) isNeighbour"

definition LabelCreator_select ::
    "Edges \<Rightarrow> DynamicGrid \<Rightarrow> int \<Rightarrow> int \<Rightarrow> LabelCreator \<times> Nodes \<Rightarrow> (LabelCreator \<times> Nodes) option" where
  "LabelCreator_select es g lvl i = (\<lambda>(lc, ns). do {
     nodeId \<leftarrow> aget (lc_calcOrder lc) i;
     isContracted \<leftarrow> aget (lc_contracted lc) nodeId;
     isMarked \<leftarrow> (if \<not> isContracted then aget (lc_isNeighbour lc) nodeId else Some True);
     if \<not> isContracted \<and> \<not> isMarked then do {
       contracted \<leftarrow> aset (lc_contracted lc) nodeId True;
       isNeighbour \<leftarrow> aset (lc_isNeighbour lc) nodeId True;
       edgeCount \<leftarrow> DynamicGrid_getCurrentEdgeCount g nodeId;
       edges \<leftarrow> DynamicGrid_getCurrentEdges g nodeId;
       isNeighbour \<leftarrow> LabelCreator_markNeighbours es edges edgeCount isNeighbour;
       nodesToCalc \<leftarrow> IntArrayList_add (lc_nodesToCalc lc) nodeId;
       ns \<leftarrow> Nodes_setNodeLevel ns nodeId lvl;
       Some (lc\<lparr>lc_contracted := contracted, lc_isNeighbour := isNeighbour, lc_nodesToCalc := nodesToCalc,
         lc_nonContractedNum := lc_nonContractedNum lc - 1\<rparr>, ns)
     } else Some (lc, ns)
   })"

text \<open>The nodes of the level are dealt out to new threads.\<close>

definition LabelCreator_newThreads :: "CHDijkstra list option" where
  "LabelCreator_newThreads = for_range 0 NUM_OF_THREADS (\<lambda>i threads. do { t \<leftarrow> CHDijkstra_new; Some (threads @ [t]) }) []"

definition LabelCreator_distribute :: "IntArrayList \<Rightarrow> CHDijkstra list \<Rightarrow> CHDijkstra list option" where
  "LabelCreator_distribute nodesToCalc threads = for_range 0 (IntArrayList_getLen nodesToCalc) (\<lambda>i threads. do {
     t \<leftarrow> aget threads (i mod NUM_OF_THREADS);
     nodeId \<leftarrow> IntArrayList_get nodesToCalc i;
     t \<leftarrow> CHDijkstra_addNodeId t nodeId;
     aset threads (i mod NUM_OF_THREADS) t
   }) threads"

primrec LabelCreator_runCH :: "Edges \<Rightarrow> DynamicGrid \<Rightarrow> CHDijkstra list \<Rightarrow> CHDijkstra list option" where
  "LabelCreator_runCH es g [] = Some []"
| "LabelCreator_runCH es g (t # ts) = do {
     t \<leftarrow> CHDijkstra_run es g t;
     ts \<leftarrow> LabelCreator_runCH es g ts;
     Some (t # ts)
   }"

definition LabelCreator_addShortcut ::
    "IntArrayList \<Rightarrow> int \<Rightarrow> LabelCreator \<times> Edges \<times> DynamicGrid \<Rightarrow> (LabelCreator \<times> Edges \<times> DynamicGrid) option" where
  "LabelCreator_addShortcut shortcuts j = (\<lambda>(lc, es, g). do {
     let idx = j * 5;
     startIdx \<leftarrow> IntArrayList_get shortcuts idx;
     destIdx \<leftarrow> IntArrayList_get shortcuts (idx + 1);
     already \<leftarrow> aget (lc_alreadyShortcut lc) startIdx;
     c \<leftarrow> IntArraySet_contains already destIdx;
     if c then Some (lc, es, g)
     else do {
       distance \<leftarrow> IntArrayList_get shortcuts (idx + 2);
       edge1 \<leftarrow> IntArrayList_get shortcuts (idx + 3);
       edge2 \<leftarrow> IntArrayList_get shortcuts (idx + 4);
       (firstEdgeId, es) \<leftarrow> Edges_addShortcutEdge es startIdx destIdx distance edge1 edge2;
       g \<leftarrow> DynamicGrid_addEdge g startIdx firstEdgeId;
       already \<leftarrow> IntArraySet_add already destIdx;
       alreadyShortcut \<leftarrow> aset (lc_alreadyShortcut lc) startIdx already;
       Some (lc\<lparr>lc_alreadyShortcut := alreadyShortcut\<rparr>, es, g)
     }
   })"

definition LabelCreator_addShortcuts ::
    "CHDijkstra \<Rightarrow> LabelCreator \<times> Edges \<times> DynamicGrid \<Rightarrow> (LabelCreator \<times> Edges \<times> DynamicGrid) option" where
  "LabelCreator_addShortcuts thread st =
     for_range 0 (IntArrayList_getLen (cd_shortcuts thread) div 5) (LabelCreator_addShortcut (cd_shortcuts thread)) st"

definition LabelCreator_removeNodes :: "Edges \<Rightarrow> IntArrayList \<Rightarrow> DynamicGrid \<Rightarrow> DynamicGrid option" where
  "LabelCreator_removeNodes es nodesToCalc g = for_list (rev [0..IntArrayList_getLen nodesToCalc - 1]) (\<lambda>i g. do {
     nodeId \<leftarrow> IntArrayList_get nodesToCalc i;
     DynamicGrid_removeNode es g nodeId
   }) g"

definition LabelCreator_calcNextLvl ::
    "int \<Rightarrow> LabelCreator \<times> Nodes \<times> Edges \<times> DynamicGrid \<Rightarrow> (LabelCreator \<times> Nodes \<times> Edges \<times> DynamicGrid) option" where
  "LabelCreator_calcNextLvl lvl = (\<lambda>(lc, ns, es, g). do {
     let lc = lc\<lparr>lc_nodesToCalc := IntArrayList_clear (lc_nodesToCalc lc), lc_isNeighbour := fillAll (lc_isNeighbour lc) False\<rparr>;
     (lc, ns) \<leftarrow> for_range 0 (lc_nodeCount lc) (LabelCreator_select es g lvl) (lc, ns);
     threads \<leftarrow> LabelCreator_newThreads;
     threads \<leftarrow> LabelCreator_distribute (lc_nodesToCalc lc) threads;
     threads \<leftarrow> LabelCreator_runCH es g threads;
     (lc, es, g) \<leftarrow> for_list threads LabelCreator_addShortcuts (lc, es, g);
     g \<leftarrow> LabelCreator_removeNodes es (lc_nodesToCalc lc) g;
     Some (lc, ns, es, g)
   })"

text \<open>
  \<open>rnd bound i\<close> is the number that call \<open>i\<close> of \<open>nextInt(bound)\<close> returns; the call throws for a bound
  that is not positive.
\<close>

definition LabelCreator_shuffle :: "(int \<Rightarrow> int \<Rightarrow> int) \<Rightarrow> int \<Rightarrow> int list \<Rightarrow> int list option" where
  "LabelCreator_shuffle rnd nodeCount calcOrder = for_range 0 nodeCount (\<lambda>i calcOrder. do {
     index \<leftarrow> (if nodeCount - 1 \<le> 0 then None else Some (rnd (nodeCount - 1) i));
     tmp \<leftarrow> aget calcOrder index;
     c \<leftarrow> aget calcOrder i;
     calcOrder \<leftarrow> aset calcOrder index c;
     aset calcOrder i tmp
   }) calcOrder"

partial_function (option) LabelCreator_levels ::
    "int \<Rightarrow> LabelCreator \<times> Nodes \<times> Edges \<times> DynamicGrid \<Rightarrow> (LabelCreator \<times> Nodes \<times> Edges \<times> DynamicGrid) option" where
  "LabelCreator_levels lvl st = (if lc_nonContractedNum (fst st) > 0 then do {
     st \<leftarrow> LabelCreator_calcNextLvl lvl st;
     LabelCreator_levels (lvl + 1) st
   } else Some st)"

declare LabelCreator_levels.simps [code]

definition LabelCreator_calculateCH ::
    "(int \<Rightarrow> int \<Rightarrow> int) \<Rightarrow> Nodes \<times> Edges \<times> DynamicGrid \<Rightarrow> (Nodes \<times> Edges \<times> DynamicGrid) option" where
  "LabelCreator_calculateCH rnd = (\<lambda>(ns, es, g). do {
     nodeCount \<leftarrow> Nodes_getNodeCount ns;
     s \<leftarrow> IntArraySet_new 1 20;
     alreadyShortcut \<leftarrow> newArray nodeCount s;
     calcOrder \<leftarrow> LabelCreator_shuffle rnd nodeCount [0..nodeCount - 1];
     contracted \<leftarrow> newArray nodeCount False;
     isNeighbour \<leftarrow> newArray nodeCount False;
     nodesToCalc \<leftarrow> IntArrayList_new 50000;
     (lc, ns, es, g) \<leftarrow> LabelCreator_levels 0 (\<lparr>lc_contracted = contracted, lc_isNeighbour = isNeighbour,
       lc_alreadyShortcut = alreadyShortcut, lc_calcOrder = calcOrder, lc_nodesToCalc = nodesToCalc,
       lc_nonContractedNum = nodeCount, lc_nodeCount = nodeCount\<rparr>, ns, es, g);
     Some (ns, es, g)
   })"

text \<open>
  \<open>main\<close> on the files of earlier runs and the grid file; a missing grid file ends the program. The
  result are the files that are there afterwards.
\<close>

definition LabelCreator_main ::
    "(int \<Rightarrow> int \<Rightarrow> int) \<Rightarrow> (HLDijkstra list \<Rightarrow> HLDijkstra list) \<Rightarrow> (adjacence_map \<Rightarrow> adjacence_map) \<Rightarrow>
     CHData option \<Rightarrow> TmpLabelData option \<Rightarrow> fmi_line list option \<Rightarrow> Nodes \<times> Edges \<times> DynamicGrid \<Rightarrow> Labels \<Rightarrow> HubLNodes \<Rightarrow>
     (CHData option \<times> TmpLabelData option \<times> HubLStore option) option" where
  "LabelCreator_main rnd threadOrder entryOrder chFile labelFile gridFile s L hn = do {
     let (found, s) = CHData_readData chFile s;
     (s, chFile) \<leftarrow> (if found then Some (s, chFile)
       else do {
         file \<leftarrow> gridFile;
         s \<leftarrow> DynamicGrid_importFmiFile entryOrder file s;
         s \<leftarrow> LabelCreator_calculateCH rnd s;
         Some (s, CHData_storeData s)
       });
     let (ns, es, g) = s;
     let (found, L) = TmpLabelData_readData labelFile L;
     (L, labelFile) \<leftarrow> (if found then Some (L, labelFile)
       else do {
         n \<leftarrow> Nodes_getNodeCount ns;
         L \<leftarrow> Labels_initialize n;
         L \<leftarrow> LabelCreator_calcLabels threadOrder ns es g L;
         Some (L, TmpLabelData_storeData L)
       });
     store \<leftarrow> LabelCreator_serializeHubLData ns es g L hn;
     Some (chFile, labelFile, Some store)
   }"

section \<open>Selecting the nodes of a level\<close>

lemma LabelCreator_markNeighbours_ok:
  assumes row: "take (length xs) row = xs" and xs: "\<And>e. e \<in> set xs \<Longrightarrow> Edges_getDest es e = Some (edge_dest es e) \<and> 0 \<le> edge_dest es e \<and> edge_dest es e < int n"
    and len: "length nb = n"
  shows "\<exists>nb'. LabelCreator_markNeighbours es (Some row) (int (length xs)) nb = Some nb' \<and> length nb' = n \<and>
    (\<forall>v < n. nb' ! v \<longleftrightarrow> nb ! v \<or> int v \<in> edge_dest es ` set xs)"
proof -
  let ?step = "\<lambda>j nb. do { e \<leftarrow> rowget (Some row) j; d \<leftarrow> Edges_getDest es e; aset nb d True }"
  have lr: "length xs \<le> length row" using row by (metis length_take min.cobounded1 min_def)
  define I where "I j b \<longleftrightarrow> length b = n \<and> (\<forall>v < n. b ! v \<longleftrightarrow> nb ! v \<or> int v \<in> edge_dest es ` set (take (nat j) xs))" for j :: int and b
  have "\<exists>b. for_range 0 (int (length xs)) ?step nb = Some b \<and> I (int (length xs)) b"
  proof (rule for_range_rule[where I = I])
    show "I 0 nb" using len by (simp add: I_def)
    fix j b assume j: "0 \<le> j" "j < int (length xs)" and b: "I j b"
    let ?e = "xs ! nat j"
    have nj: "nat j < length xs" "nat (j + 1) = Suc (nat j)" using j by auto
    have "row ! nat j = ?e" using row nj(1) by (metis nth_take)
    then have rd: "rowget (Some row) j = Some ?e" using j nj(1) lr by (simp add: rowget_def aget_def)
    have e: "Edges_getDest es ?e = Some (edge_dest es ?e)" "0 \<le> edge_dest es ?e" "edge_dest es ?e < int n" using xs[of ?e] nj(1) by auto
    have bl: "length b = n" using b by (simp add: I_def)
    have "?step j b = Some (b[nat (edge_dest es ?e) := True])" using rd e bl by (simp add: aset_def)
    moreover have "I (j + 1) (b[nat (edge_dest es ?e) := True])" unfolding I_def nj(2) take_Suc_conv_app_nth[OF nj(1)]
      using b bl e(2,3) by (auto simp: I_def nth_list_update nat_eq_iff)
    ultimately show "\<exists>b'. ?step j b = Some b' \<and> I (j + 1) b'" by blast
  qed simp
  then show ?thesis by (simp add: LabelCreator_markNeighbours_def I_def)
qed

text \<open>The state of the selection after some nodes of the order have been looked at.\<close>

definition selecting :: "nat \<Rightarrow> int set \<Rightarrow> Edges \<Rightarrow> DynamicGrid \<Rightarrow> int \<Rightarrow> LabelCreator \<Rightarrow> Nodes \<Rightarrow> int list \<Rightarrow> LabelCreator \<times> Nodes \<Rightarrow> bool" where
  "selecting n X es g lvl lc0 ns0 sel st \<longleftrightarrow> (\<exists>c b l lv. st = (lc0\<lparr>lc_contracted := c, lc_isNeighbour := b, lc_nodesToCalc := l,
       lc_nonContractedNum := lc_nonContractedNum lc0 - int (length sel)\<rparr>, ns0\<lparr>no_levels := Some lv\<rparr>) \<and>
     length c = n \<and> length b = n \<and> length lv = n \<and> al_inv l \<and> al_contents l = sel \<and> distinct sel \<and> set sel \<subseteq> {0..<int n} - X \<and>
     independent (set sel) (cur_adj es g) \<and>
     (\<forall>v < n. (c ! v \<longleftrightarrow> int v \<in> X \<union> set sel) \<and> (b ! v \<longleftrightarrow> int v \<in> set sel \<or> (\<exists>u \<in> set sel. \<exists>w. (int v, w) \<in> set (cur_adj es g u))) \<and>
        lv ! v = (if int v \<in> set sel then lvl else the (no_levels ns0) ! v)))"

lemma LabelCreator_select_ok:
  assumes G: "cur_graph ({0..<int n} - X) es g" and sel: "selecting n X es g lvl lc0 ns0 sel st"
    and v: "aget (lc_calcOrder lc0) i = Some v" "0 \<le> v" "v < int n"
  shows "\<exists>st' sel'. LabelCreator_select es g lvl i st = Some st' \<and> selecting n X es g lvl lc0 ns0 (sel @ sel') st' \<and>
    (v \<notin> X \<longrightarrow> sel @ sel' \<noteq> [])"
proof -
  let ?R = "{0..<int n} - X" let ?adj = "cur_adj es g"
  obtain c b l lv where st: "st = (lc0\<lparr>lc_contracted := c, lc_isNeighbour := b, lc_nodesToCalc := l,
       lc_nonContractedNum := lc_nonContractedNum lc0 - int (length sel)\<rparr>, ns0\<lparr>no_levels := Some lv\<rparr>)"
    and J: "length c = n" "length b = n" "length lv = n" "al_inv l" "al_contents l = sel" "distinct sel" "set sel \<subseteq> ?R" "independent (set sel) ?adj"
    "\<And>v. v < n \<Longrightarrow> (c ! v \<longleftrightarrow> int v \<in> X \<union> set sel) \<and> (b ! v \<longleftrightarrow> int v \<in> set sel \<or> (\<exists>u \<in> set sel. \<exists>w. (int v, w) \<in> set (?adj u))) \<and>
        lv ! v = (if int v \<in> set sel then lvl else the (no_levels ns0) ! v)"
    using sel unfolding selecting_def by blast
  have nv: "nat v < n" "int (nat v) = v" using v by auto
  have rdc: "aget c v = Some (v \<in> X \<union> set sel)" "aget b v = Some (v \<in> set sel \<or> (\<exists>u \<in> set sel. \<exists>w. (v, w) \<in> set (?adj u)))"
    using J(1,2) J(9)[OF nv(1)] v(2,3) unfolding nv(2) by (simp_all add: aget_def)
  show ?thesis
  proof (cases "v \<in> X \<union> set sel \<or> (\<exists>u \<in> set sel. \<exists>w. (v, w) \<in> set (?adj u))")
    case True
    then have "LabelCreator_select es g lvl i st = Some st" unfolding LabelCreator_select_def st using v(1) rdc by auto
    moreover have "sel \<noteq> []" if "v \<notin> X" using True that by auto
    ultimately show ?thesis using sel by (intro exI[of _ st] exI[of _ "[]"]) auto
  next
    case False
    then have vR: "v \<in> ?R" "v \<notin> set sel" and notnb: "\<And>u w. u \<in> set sel \<Longrightarrow> (v, w) \<notin> set (?adj u)" using v by auto
    note ok = cur_graphD(1)[OF G]
    obtain row where row: "DynamicGrid_getCurrentEdges g v = Some (Some row)" "take (length (cur_edges g v)) row = cur_edges g v"
      using cur_okD(3)[OF ok vR(1)] by blast
    have es: "Edges_getDest es e = Some (edge_dest es e) \<and> 0 \<le> edge_dest es e \<and> edge_dest es e < int n" if "e \<in> set (cur_edges g v)" for e
      using cur_okD(4)[OF ok vR(1) that] by auto
    obtain b' where b': "LabelCreator_markNeighbours es (Some row) (int (length (cur_edges g v))) (b[nat v := True]) = Some b'" "length b' = n"
      "\<forall>x < n. b' ! x \<longleftrightarrow> b[nat v := True] ! x \<or> int x \<in> edge_dest es ` set (cur_edges g v)"
      using LabelCreator_markNeighbours_ok[OF row(2) es, of "b[nat v := True]"] J(2) by auto
    obtain l' where l': "IntArrayList_add l v = Some l'" "al_inv l'" "al_contents l' = sel @ [v]" using IntArrayList_add_ok[OF J(4)] J(5) by blast
    let ?c = "c[nat v := True]" let ?lv = "lv[nat v := lvl]"
    let ?st = "(lc0\<lparr>lc_contracted := ?c, lc_isNeighbour := b', lc_nodesToCalc := l', lc_nonContractedNum := lc_nonContractedNum lc0 - int (length (sel @ [v]))\<rparr>,
      ns0\<lparr>no_levels := Some ?lv\<rparr>)"
    have run: "LabelCreator_select es g lvl i st = Some ?st"
      unfolding LabelCreator_select_def st using v rdc False J(1-3) cur_okD(2)[OF ok vR(1)] row(1) b'(1) l'(1)
      by (simp add: aset_def Nodes_setNodeLevel_def algebra_simps)
    have nb: "(\<exists>w. (x, w) \<in> set (?adj v)) \<longleftrightarrow> x \<in> edge_dest es ` set (cur_edges g v)" for x by (auto simp: cur_adj_def)
    have ind: "independent (set (sel @ [v])) ?adj" unfolding independent_def
    proof (intro ballI allI impI)
      fix u x w assume u: "u \<in> set (sel @ [v])" and e: "(x, w) \<in> set (?adj u)"
      have uR: "u \<in> ?R" using u J(7) vR(1) by auto
      note xe = cur_graphD(3)[OF G uR e]
      show "x \<notin> set (sel @ [v])"
      proof
        assume "x \<in> set (sel @ [v])"
        then consider "x \<in> set sel" | "x = v" by auto
        then show False
        proof cases
          case 1
          then show ?thesis using u e xe independentD[OF J(8)] notnb by auto
        next
          case 2
          then show ?thesis using u e xe notnb by auto
        qed
      qed
    qed
    have st': "selecting n X es g lvl lc0 ns0 (sel @ [v]) ?st" unfolding selecting_def
    proof (rule exI[of _ ?c], rule exI[of _ b'], rule exI[of _ l'], rule exI[of _ ?lv], intro conjI allI impI)
      fix x assume x: "x < n"
      have xv: "int x = v \<longleftrightarrow> x = nat v" using v(2) by auto
      show "?c ! x \<longleftrightarrow> int x \<in> X \<union> set (sel @ [v])" using J(9)[OF x] J(1) nv(1) xv by (auto simp: nth_list_update)
      show "b' ! x \<longleftrightarrow> int x \<in> set (sel @ [v]) \<or> (\<exists>u \<in> set (sel @ [v]). \<exists>w. (int x, w) \<in> set (?adj u))"
        using b'(3) x J(9)[OF x] J(2) nv(1) xv nb[of "int x"] by (auto simp: nth_list_update)
      show "?lv ! x = (if int x \<in> set (sel @ [v]) then lvl else the (no_levels ns0) ! x)"
        using J(9)[OF x] J(3) nv(1) xv by (auto simp: nth_list_update)
    qed (use J b' l' vR ind in auto)
    show ?thesis using run st' by blast
  qed
qed

lemma LabelCreator_selection_ok:
  assumes G: "cur_graph ({0..<int n} - X) es g" and lc: "length (lc_contracted lc) = n" "length (lc_isNeighbour lc) = n" "al_inv (lc_nodesToCalc lc)"
    "\<And>v. v < n \<Longrightarrow> lc_contracted lc ! v \<longleftrightarrow> int v \<in> X" "no_levels ns = Some lv" "length lv = n" "lc_nodeCount lc = int n"
    and ord: "length (lc_calcOrder lc) = n" "set (lc_calcOrder lc) = {0..<int n}"
  shows "\<exists>st sel. for_range 0 (int n) (LabelCreator_select es g lvl)
      (lc\<lparr>lc_nodesToCalc := IntArrayList_clear (lc_nodesToCalc lc), lc_isNeighbour := fillAll (lc_isNeighbour lc) False\<rparr>, ns) = Some st \<and>
    selecting n X es g lvl lc ns sel st \<and> (\<not> {0..<int n} \<subseteq> X \<longrightarrow> sel \<noteq> [])"
proof -
  let ?st0 = "(lc\<lparr>lc_nodesToCalc := IntArrayList_clear (lc_nodesToCalc lc), lc_isNeighbour := fillAll (lc_isNeighbour lc) False\<rparr>, ns)"
  have start: "selecting n X es g lvl lc ns [] ?st0" unfolding selecting_def
    by (rule exI[of _ "lc_contracted lc"], rule exI[of _ "fillAll (lc_isNeighbour lc) False"],
        rule exI[of _ "IntArrayList_clear (lc_nodesToCalc lc)"], rule exI[of _ lv])
      (use lc IntArrayList_clear_ok[OF lc(3)] in \<open>auto simp: independent_def fillAll_def\<close>)
  define I where "I i st \<longleftrightarrow> (\<exists>sel. selecting n X es g lvl lc ns sel st \<and> (\<not> set (take (nat i) (lc_calcOrder lc)) \<subseteq> X \<longrightarrow> sel \<noteq> []))"
    for i :: int and st
  have "\<exists>st. for_range 0 (int n) (LabelCreator_select es g lvl) ?st0 = Some st \<and> I (int n) st"
  proof (rule for_range_rule[where I = I])
    show "I 0 ?st0" using start by (auto simp: I_def)
    fix i st assume i: "0 \<le> i" "i < int n" and "I i st"
    then obtain sel where s: "selecting n X es g lvl lc ns sel st" "\<not> set (take (nat i) (lc_calcOrder lc)) \<subseteq> X \<longrightarrow> sel \<noteq> []" by (auto simp: I_def)
    let ?v = "lc_calcOrder lc ! nat i"
    have ni: "nat i < length (lc_calcOrder lc)" "nat (i + 1) = Suc (nat i)" using i ord(1) by auto
    have v: "aget (lc_calcOrder lc) i = Some ?v" "0 \<le> ?v" "?v < int n" using i ord nth_mem[OF ni(1)] by (simp_all add: aget_def)
    obtain st' sel' where st': "LabelCreator_select es g lvl i st = Some st'" "selecting n X es g lvl lc ns (sel @ sel') st'" "?v \<notin> X \<longrightarrow> sel @ sel' \<noteq> []"
      using LabelCreator_select_ok[OF G s(1) v] by blast
    have "I (i + 1) st'" unfolding I_def ni(2) take_Suc_conv_app_nth[OF ni(1)]
      using st'(2,3) s(2) by (intro exI[of _ "sel @ sel'"]) auto
    then show "\<exists>st'. LabelCreator_select es g lvl i st = Some st' \<and> I (i + 1) st'" using st'(1) by blast
  qed simp
  then show ?thesis using ord by (auto simp: I_def)
qed

section \<open>Dealing out the nodes\<close>

definition idle_threads :: "CHDijkstra list \<Rightarrow> int set \<Rightarrow> bool" where
  "idle_threads ts M \<longleftrightarrow> int (length ts) = NUM_OF_THREADS \<and> (\<forall>t \<in> set ts. cd_idle t) \<and>
     (\<Union>t \<in> set ts. set (al_contents (cd_nodeIdsToCalc t))) = M"

lemma LabelCreator_newThreads_ok: "\<exists>ts. LabelCreator_newThreads = Some ts \<and> idle_threads ts {}"
proof -
  obtain h where h: "CHDijkstra_new = Some h" "cd_idle h" "al_contents (cd_nodeIdsToCalc h) = []" using CHDijkstra_new_ok by blast
  let ?step = "\<lambda>i threads. do { t \<leftarrow> CHDijkstra_new; Some (threads @ [t]) }"
  have "\<exists>ts. for_range 0 NUM_OF_THREADS ?step [] = Some ts \<and> ts = replicate (nat NUM_OF_THREADS) h"
  proof (rule for_range_rule[where I = "\<lambda>i ts. ts = replicate (nat i) h"])
    fix i ts assume "0 \<le> i" "i < NUM_OF_THREADS" "ts = replicate (nat i) h"
    then show "\<exists>ts'. ?step i ts = Some ts' \<and> ts' = replicate (nat (i + 1)) h" unfolding h(1)
      by (simp add: nat_add_distrib replicate_append_same)
  qed (simp_all add: NUM_OF_THREADS_def)
  then show ?thesis using h by (auto simp: LabelCreator_newThreads_def idle_threads_def NUM_OF_THREADS_def)
qed

lemma UN_list_update:
  assumes "k < length ts" "set (f t) = insert x (set (f (ts ! k)))"
  shows "(\<Union>t \<in> set (ts[k := t]). set (f t)) = insert x (\<Union>t \<in> set ts. set (f t))"
proof -
  have "set (ts[k := t]) = insert t (set (take k ts) \<union> set (drop (Suc k) ts))" "set ts = insert (ts ! k) (set (take k ts) \<union> set (drop (Suc k) ts))"
    using assms(1) id_take_nth_drop[OF assms(1)] by (simp_all add: upd_conv_take_nth_drop) (metis insert_commute set_append list.simps(15) Un_insert_right)
  then show ?thesis using assms(2) by auto
qed

lemma LabelCreator_distribute_ok:
  assumes l: "al_inv l" and ts: "idle_threads ts {}"
  shows "\<exists>ts'. LabelCreator_distribute l ts = Some ts' \<and> idle_threads ts' (set (al_contents l))"
proof -
  let ?xs = "al_contents l"
  let ?step = "\<lambda>i threads. do { t \<leftarrow> aget threads (i mod NUM_OF_THREADS); nodeId \<leftarrow> IntArrayList_get l i; t \<leftarrow> CHDijkstra_addNodeId t nodeId;
     aset threads (i mod NUM_OF_THREADS) t }"
  define I where "I i ts \<longleftrightarrow> idle_threads ts (set (take (nat i) ?xs))" for i :: int and ts
  have "\<exists>ts'. for_range 0 (int (length ?xs)) ?step ts = Some ts' \<and> I (int (length ?xs)) ts'"
  proof (rule for_range_rule[where I = I])
    show "I 0 ts" using ts by (simp add: I_def)
    fix i ts assume i: "0 \<le> i" "i < int (length ?xs)" and "I i ts"
    then have T: "idle_threads ts (set (take (nat i) ?xs))" by (simp add: I_def)
    let ?k = "i mod NUM_OF_THREADS" let ?x = "?xs ! nat i"
    have ni: "nat i < length ?xs" "nat (i + 1) = Suc (nat i)" using i by auto
    have k: "0 \<le> ?k" "?k < int (length ts)" "nat ?k < length ts" using T by (auto simp: idle_threads_def NUM_OF_THREADS_def)
    have rd: "aget ts ?k = Some (ts ! nat ?k)" "IntArrayList_get l i = Some ?x" using k i IntArrayList_get_eq[OF l] by (simp_all add: aget_def)
    have "cd_idle (ts ! nat ?k)" using T nth_mem[OF k(3)] by (auto simp: idle_threads_def)
    then obtain t where t: "CHDijkstra_addNodeId (ts ! nat ?k) ?x = Some t" "cd_idle t"
      "al_contents (cd_nodeIdsToCalc t) = al_contents (cd_nodeIdsToCalc (ts ! nat ?k)) @ [?x]" using CHDijkstra_addNodeId_ok by blast
    let ?ts = "ts[nat ?k := t]"
    have "(\<Union>t \<in> set ?ts. set (al_contents (cd_nodeIdsToCalc t))) = insert ?x (\<Union>t \<in> set ts. set (al_contents (cd_nodeIdsToCalc t)))"
      by (rule UN_list_update[OF k(3)]) (simp add: t(3))
    moreover have "\<forall>t \<in> set ?ts. cd_idle t" using T t(2) set_update_subset_insert[of ts "nat ?k" t] by (auto simp: idle_threads_def)
    ultimately have "I (i + 1) ?ts" unfolding I_def ni(2) take_Suc_conv_app_nth[OF ni(1)] using T by (simp add: idle_threads_def)
    moreover have "?step i ts = Some ?ts" using rd t(1) k by (simp add: aset_def)
    ultimately show "\<exists>ts'. ?step i ts = Some ts' \<and> I (i + 1) ts'" by blast
  qed simp
  then show ?thesis using IntArrayList_getLen_eq[OF l] by (simp add: LabelCreator_distribute_def I_def)
qed

section \<open>The shortcuts of a level\<close>

text \<open>The threads together find the shortcuts of the nodes that were dealt out.\<close>

definition thread_shortcuts :: "CHDijkstra list \<Rightarrow> shortcut list list \<Rightarrow> bool" where
  "thread_shortcuts ts sss \<longleftrightarrow> list_all2 (\<lambda>t ss. al_inv (cd_shortcuts t) \<and> al_contents (cd_shortcuts t) = shortcut_rows ss) ts sss"

lemma has_shortcut_append [simp]: "has_shortcut (ss @ ts) a b \<longleftrightarrow> has_shortcut ss a b \<or> has_shortcut ts a b"
  by (auto simp: has_shortcut_def)

lemma LabelCreator_runCH_ok:
  assumes G: "cur_graph R es g"
  shows "\<forall>t \<in> set ts. cd_idle t \<and> set (al_contents (cd_nodeIdsToCalc t)) \<subseteq> R \<Longrightarrow>
    \<exists>ts' sss. LabelCreator_runCH es g ts = Some ts' \<and> thread_shortcuts ts' sss \<and>
    (\<forall>s \<in> set (concat sss). fst s \<in> R \<and> (\<exists>m \<in> \<Union>t \<in> set ts. set (al_contents (cd_nodeIdsToCalc t)). shortcut_ok es g m s)) \<and>
    (\<forall>m \<in> \<Union>t \<in> set ts. set (al_contents (cd_nodeIdsToCalc t)). \<forall>a \<in> R. \<forall>b. needs_shortcut es g m a b \<longrightarrow> has_shortcut (concat sss) a b)"
proof (induction ts)
  case Nil
  show ?case by (intro exI[of _ "[]"]) (simp add: thread_shortcuts_def)
next
  case (Cons t ts)
  from Cons.prems have t: "set (al_contents (cd_nodeIdsToCalc t)) \<subseteq> R" "cd_idle t" by simp_all
  obtain t' ss where r: "CHDijkstra_run es g t = Some t'" "al_inv (cd_shortcuts t')" "al_contents (cd_shortcuts t') = shortcut_rows ss"
    "\<forall>s \<in> set ss. fst s \<in> R \<and> (\<exists>m \<in> set (al_contents (cd_nodeIdsToCalc t)). shortcut_ok es g m s)"
    "\<forall>m \<in> set (al_contents (cd_nodeIdsToCalc t)). \<forall>a \<in> R. \<forall>b. needs_shortcut es g m a b \<longrightarrow> has_shortcut ss a b"
    using CHDijkstra_run_ok[OF G t] by blast
  have "\<forall>t \<in> set ts. cd_idle t \<and> set (al_contents (cd_nodeIdsToCalc t)) \<subseteq> R" using Cons.prems by simp
  from Cons.IH[OF this] obtain ts' sss where q: "LabelCreator_runCH es g ts = Some ts'" "thread_shortcuts ts' sss"
    "\<forall>s \<in> set (concat sss). fst s \<in> R \<and> (\<exists>m \<in> \<Union>t \<in> set ts. set (al_contents (cd_nodeIdsToCalc t)). shortcut_ok es g m s)"
    "\<forall>m \<in> \<Union>t \<in> set ts. set (al_contents (cd_nodeIdsToCalc t)). \<forall>a \<in> R. \<forall>b. needs_shortcut es g m a b \<longrightarrow> has_shortcut (concat sss) a b" by blast
  show ?case
  proof (intro exI[of _ "t' # ts'"] exI[of _ "ss # sss"] conjI)
    show "LabelCreator_runCH es g (t # ts) = Some (t' # ts')" using r(1) q(1) by simp
    show "thread_shortcuts (t' # ts') (ss # sss)" using r(2,3) q(2) by (simp add: thread_shortcuts_def)
    show "\<forall>s \<in> set (concat (ss # sss)). fst s \<in> R \<and> (\<exists>m \<in> \<Union>t \<in> set (t # ts). set (al_contents (cd_nodeIdsToCalc t)). shortcut_ok es g m s)"
    proof
      fix s assume "s \<in> set (concat (ss # sss))"
      then consider "s \<in> set ss" | "s \<in> set (concat sss)" by auto
      then show "fst s \<in> R \<and> (\<exists>m \<in> \<Union>t \<in> set (t # ts). set (al_contents (cd_nodeIdsToCalc t)). shortcut_ok es g m s)"
      proof cases
        case 1
        then show ?thesis using r(4) by auto
      next
        case 2
        from q(3)[rule_format, OF this] show ?thesis by auto
      qed
    qed
    show "\<forall>m \<in> \<Union>t \<in> set (t # ts). set (al_contents (cd_nodeIdsToCalc t)). \<forall>a \<in> R. \<forall>b. needs_shortcut es g m a b \<longrightarrow>
        has_shortcut (concat (ss # sss)) a b"
    proof (intro ballI allI impI)
      fix m a b assume m: "m \<in> (\<Union>t \<in> set (t # ts). set (al_contents (cd_nodeIdsToCalc t)))" and a: "a \<in> R" and ns: "needs_shortcut es g m a b"
      from m consider "m \<in> set (al_contents (cd_nodeIdsToCalc t))" | "m \<in> (\<Union>t \<in> set ts. set (al_contents (cd_nodeIdsToCalc t)))" by auto
      then show "has_shortcut (concat (ss # sss)) a b"
      proof cases
        case 1
        from r(5)[rule_format, OF 1 a ns] show ?thesis by simp
      next
        case 2
        from q(4)[rule_format, OF 2 a ns] show ?thesis by simp
      qed
    qed
  qed
qed

section \<open>Adding the shortcuts\<close>

lemma shortcut_row_length [simp]: "length (shortcut_row s) = 5"
  by (cases s) simp

lemma shortcut_rows_length [simp]: "length (shortcut_rows ss) = 5 * length ss"
  by (induction ss) simp_all

lemma shortcut_rows_nth: "j < length ss \<Longrightarrow> k < 5 \<Longrightarrow> shortcut_rows ss ! (5 * j + k) = shortcut_row (ss ! j) ! k"
proof (induction ss arbitrary: j)
  case (Cons s ss)
  then show ?case by (cases j) (simp_all add: nth_append)
qed simp

lemma shortcut_read:
  assumes l: "al_inv l" "al_contents l = shortcut_rows ss" and j: "0 \<le> j" "j < int (length ss)" and s: "ss ! nat j = (a, b, d, e2, e1)"
  shows "IntArrayList_get l (j * 5) = Some a" "IntArrayList_get l (j * 5 + 1) = Some b" "IntArrayList_get l (j * 5 + 2) = Some d"
    "IntArrayList_get l (j * 5 + 3) = Some e2" "IntArrayList_get l (j * 5 + 4) = Some e1"
proof -
  have nj: "nat j < length ss" using j by simp
  have "IntArrayList_get l (j * 5 + int k) = Some (shortcut_row (ss ! nat j) ! k)" if "k < 5" for k
  proof -
    have "nat (j * 5 + int k) = 5 * nat j + k" using j(1) by (simp add: nat_add_distrib nat_mult_distrib)
    moreover have "j * 5 + int k < int (length (shortcut_rows ss))" using j that by simp
    ultimately show ?thesis using IntArrayList_get_eq[OF l(1)] l(2) j shortcut_rows_nth[OF nj that] by (simp add: aget_def)
  qed
  from this[of 0] this[of 1] this[of 2] this[of 3] this[of 4] show "IntArrayList_get l (j * 5) = Some a" "IntArrayList_get l (j * 5 + 1) = Some b" "IntArrayList_get l (j * 5 + 2) = Some d"
    "IntArrayList_get l (j * 5 + 3) = Some e2" "IntArrayList_get l (j * 5 + 4) = Some e1" using s by simp_all
qed

text \<open>A shortcut that can be added to the edges: its parts are edges over a common node.\<close>

fun shortcut_valid :: "nat \<Rightarrow> int set \<Rightarrow> Edges \<Rightarrow> shortcut \<Rightarrow> bool" where
  "shortcut_valid n R es (a, b, d, e2, e1) \<longleftrightarrow> a \<in> R \<and> 0 \<le> b \<and> b < int n \<and> 0 \<le> e1 \<and> e1 < eg_nextShortcutId es \<and> edge_start es e1 = a \<and>
     0 \<le> e2 \<and> e2 < eg_nextShortcutId es \<and> edge_start es e2 = edge_dest es e1 \<and> edge_dest es e2 = b \<and> edge_dest es e1 \<noteq> a \<and>
     d = edge_dist es e1 + edge_dist es e2"

definition already :: "LabelCreator \<Rightarrow> int \<Rightarrow> int set" where
  "already lc v = as_elems (lc_alreadyShortcut lc ! nat v)"

definition already_ok :: "nat \<Rightarrow> LabelCreator \<Rightarrow> bool" where
  "already_ok n lc \<longleftrightarrow> length (lc_alreadyShortcut lc) = n \<and> (\<forall>s \<in> set (lc_alreadyShortcut lc). as_inv s)"

text \<open>The edges added for the shortcuts \<open>ss\<close>, one for each pair of ends that did not have a shortcut before.\<close>

definition new_edges :: "Edges \<Rightarrow> (int \<Rightarrow> int set) \<Rightarrow> shortcut list \<Rightarrow> (int \<Rightarrow> int list) \<Rightarrow> bool" where
  "new_edges es A ss new \<longleftrightarrow> (\<forall>v. distinct (map (edge_dest es) (new v)) \<and> edge_dest es ` set (new v) = {b. has_shortcut ss v b} - A v \<and>
     (\<forall>e \<in> set (new v). 0 \<le> e \<and> e < eg_nextShortcutId es \<and> edge_start es e = v \<and> (\<exists>e2 e1. (v, edge_dest es e, edge_dist es e, e2, e1) \<in> set ss)))"

definition adding ::
    "nat \<Rightarrow> int set \<Rightarrow> LabelCreator \<Rightarrow> Edges \<Rightarrow> DynamicGrid \<Rightarrow> shortcut list \<Rightarrow> (int \<Rightarrow> int list) \<Rightarrow> LabelCreator \<times> Edges \<times> DynamicGrid \<Rightarrow> bool" where
  "adding n R lc0 es0 g0 ss new = (\<lambda>(lc, es, g). Edges_wf n es \<and> Edges_growable es \<and> Edges_extends es0 es \<and> rows_ok n R g \<and>
     already_ok n lc \<and> (\<exists>al. lc = lc0\<lparr>lc_alreadyShortcut := al\<rparr>) \<and>
     (\<forall>v. 0 \<le> v \<and> v < int n \<longrightarrow> already lc v = already lc0 v \<union> {b. has_shortcut ss v b}) \<and>
     (\<forall>v \<in> R. cur_edges g v = cur_edges g0 v @ new v) \<and> (\<forall>v. 0 \<le> v \<and> v < int n \<longrightarrow> all_edges g v = all_edges g0 v @ new v) \<and>
     new_edges es (already lc0) ss new)"

lemma has_shortcut_snoc: "has_shortcut (ss @ [(a, b, d, e2, e1)]) u v \<longleftrightarrow> has_shortcut ss u v \<or> u = a \<and> v = b"
  by (auto simp: has_shortcut_def)

lemma new_edges_skip:
  assumes "new_edges es A ss new" "b \<in> A a \<union> {b. has_shortcut ss a b}"
  shows "new_edges es A (ss @ [(a, b, d, e2, e1)]) new"
  unfolding new_edges_def
proof (intro allI conjI ballI)
  fix v
  note N = assms(1)[unfolded new_edges_def, rule_format, of v]
  show "distinct (map (edge_dest es) (new v))" using N by simp
  show "edge_dest es ` set (new v) = {x. has_shortcut (ss @ [(a, b, d, e2, e1)]) v x} - A v"
    using N assms(2) unfolding has_shortcut_snoc by auto
  fix e assume "e \<in> set (new v)"
  then show "0 \<le> e" "e < eg_nextShortcutId es" "edge_start es e = v"
    "\<exists>f2 f1. (v, edge_dest es e, edge_dist es e, f2, f1) \<in> set (ss @ [(a, b, d, e2, e1)])" using N unfolding set_append by blast+
qed

lemma new_edges_add:
  assumes N: "new_edges es A ss new" and x: "Edges_extends es es'" "eg_nextShortcutId es' = eg_nextShortcutId es + 1" "0 \<le> eg_nextShortcutId es"
    "edge_start es' (eg_nextShortcutId es) = a" "edge_dest es' (eg_nextShortcutId es) = b" "edge_dist es' (eg_nextShortcutId es) = d"
    and b: "b \<notin> A a \<union> {b. has_shortcut ss a b}"
  shows "new_edges es' A (ss @ [(a, b, d, e2, e1)]) (\<lambda>v. new v @ (if v = a then [eg_nextShortcutId es] else []))"
  unfolding new_edges_def
proof (intro allI conjI ballI)
  fix v
  let ?x = "eg_nextShortcutId es"
  note Nv = N[unfolded new_edges_def, rule_format, of v]
  have old: "edge_dest es' e = edge_dest es e" "edge_dist es' e = edge_dist es e" "edge_start es' e = edge_start es e" "0 \<le> e" "e < ?x" if "e \<in> set (new v)" for e
    using x(1) Nv that by (simp_all add: Edges_extends_def)
  have m: "map (edge_dest es') (new v) = map (edge_dest es) (new v)" using old(1) by simp
  have i: "edge_dest es' ` set (new v) = {b. has_shortcut ss v b} - A v" using Nv m by (metis list.set_map)
  have "distinct (map (edge_dest es') (new v))" unfolding m using Nv by simp
  then show "distinct (map (edge_dest es') (new v @ (if v = a then [?x] else [])))" using i b x(5) by auto
  show "edge_dest es' ` set (new v @ (if v = a then [?x] else [])) = {y. has_shortcut (ss @ [(a, b, d, e2, e1)]) v y} - A v"
    unfolding has_shortcut_snoc using i b x(5) by auto
  fix e assume e: "e \<in> set (new v @ (if v = a then [?x] else []))"
  then consider "e \<in> set (new v)" | "e = ?x" "v = a" by (auto split: if_splits)
  then have "0 \<le> e \<and> e < ?x + 1 \<and> edge_start es' e = v \<and> (\<exists>f2 f1. (v, edge_dest es' e, edge_dist es' e, f2, f1) \<in> set (ss @ [(a, b, d, e2, e1)]))"
  proof cases
    case 1
    from Nv 1 obtain f2 f1 where "(v, edge_dest es e, edge_dist es e, f2, f1) \<in> set ss" "edge_start es e = v" by blast
    then show ?thesis unfolding set_append old(1-3)[OF 1] using old(4,5)[OF 1] by auto
  next
    case 2
    then show ?thesis using x by auto
  qed
  then show "0 \<le> e" "e < eg_nextShortcutId es'" "edge_start es' e = v" "\<exists>f2 f1. (v, edge_dest es' e, edge_dist es' e, f2, f1) \<in> set (ss @ [(a, b, d, e2, e1)])"
    unfolding x(2) by blast+
qed

lemma LabelCreator_addShortcut_ok:
  assumes st: "adding n R lc0 es0 g0 ss new (lc, es, g)" and v: "shortcut_valid n R es0 (a, b, d, e2, e1)" and n: "int n \<le> MAX_VALUE"
    and rd: "IntArrayList_get l (j * 5) = Some a" "IntArrayList_get l (j * 5 + 1) = Some b" "IntArrayList_get l (j * 5 + 2) = Some d"
    "IntArrayList_get l (j * 5 + 3) = Some e2" "IntArrayList_get l (j * 5 + 4) = Some e1"
  shows "\<exists>st' new'. LabelCreator_addShortcut l j (lc, es, g) = Some st' \<and> adding n R lc0 es0 g0 (ss @ [(a, b, d, e2, e1)]) new' st'"
proof -
  note st = st[unfolded adding_def prod.case]
  have I: "Edges_wf n es" "Edges_growable es" "Edges_extends es0 es" "rows_ok n R g" "already_ok n lc"
    and lc: "\<exists>al. lc = lc0\<lparr>lc_alreadyShortcut := al\<rparr>"
    and A: "\<And>v. 0 \<le> v \<Longrightarrow> v < int n \<Longrightarrow> already lc v = already lc0 v \<union> {b. has_shortcut ss v b}"
    and cur: "\<And>v. v \<in> R \<Longrightarrow> cur_edges g v = cur_edges g0 v @ new v" and all: "\<And>v. 0 \<le> v \<Longrightarrow> v < int n \<Longrightarrow> all_edges g v = all_edges g0 v @ new v"
    and N: "new_edges es (already lc0) ss new" using st by blast+
  have s: "a \<in> R" "0 \<le> b" "b < int n" "0 \<le> e1" "e1 < eg_nextShortcutId es0" "edge_start es0 e1 = a" "0 \<le> e2" "e2 < eg_nextShortcutId es0"
    "edge_start es0 e2 = edge_dest es0 e1" "edge_dest es0 e2 = b" "edge_dest es0 e1 \<noteq> a" "d = edge_dist es0 e1 + edge_dist es0 e2" using v by auto
  have a: "0 \<le> a" "a < int n" "nat a < n" using I(4) s(1) unfolding rows_ok_def by auto
  let ?al = "lc_alreadyShortcut lc" let ?s = "?al ! nat a"
  have al: "length ?al = n" "as_inv ?s" "\<And>s. s \<in> set ?al \<Longrightarrow> as_inv s" using I(5) a(3) by (auto simp: already_ok_def)
  have bM: "b < MAX_VALUE" using s(3) n by simp
  have c: "aget ?al a = Some ?s" "IntArraySet_contains ?s b = Some (b \<in> already lc a)" using a al IntArraySet_contains_eq[OF al(2) bM] by (simp_all add: aget_def already_def)
  show ?thesis
  proof (cases "b \<in> already lc a")
    case True
    have "LabelCreator_addShortcut l j (lc, es, g) = Some (lc, es, g)" using rd c True by (simp add: LabelCreator_addShortcut_def)
    moreover have bA: "b \<in> already lc0 a \<union> {b. has_shortcut ss a b}" using True A[OF a(1,2)] by simp
    have "already lc v = already lc0 v \<union> {y. has_shortcut (ss @ [(a, b, d, e2, e1)]) v y}" if "0 \<le> v" "v < int n" for v
      unfolding A[OF that] has_shortcut_snoc using bA by auto
    then have "adding n R lc0 es0 g0 (ss @ [(a, b, d, e2, e1)]) new (lc, es, g)" unfolding adding_def prod.case
      using I lc cur all new_edges_skip[OF N bA] by blast
    ultimately show ?thesis by blast
  next
    case False
    have x: "edge_start es e1 = a" "edge_dest es e1 = edge_dest es0 e1" "edge_start es e2 = edge_dest es0 e1" "edge_dest es e2 = b" "d = edge_dist es e1 + edge_dist es e2"
      "e1 < eg_nextShortcutId es" "e2 < eg_nextShortcutId es" using I(3) s by (auto simp: Edges_extends_def)
    let ?x = "eg_nextShortcutId es"
    obtain es' where e': "Edges_addShortcutEdge es a b d e2 e1 = Some (?x, es')" "Edges_wf n es'" "Edges_growable es'"
      "Edges_extends es es'" "eg_nextShortcutId es' = ?x + 1" "edge_start es' ?x = a" "edge_dest es' ?x = b" "edge_dist es' ?x = d"
      using Edges_addShortcutEdge_ok[OF I(1,2) s(4) x(6,1,2) s(7) x(7,3,4) s(11)[symmetric] x(5)] by blast
    have x0: "0 \<le> ?x" using s(4) x(6) by simp
    obtain g' where g': "DynamicGrid_addEdge g a ?x = Some g'" "rows_ok n R g'" "\<forall>v \<in> R. cur_edges g' v = cur_edges g v @ (if v = a then [?x] else [])"
      "\<forall>v. 0 \<le> v \<and> v < int n \<longrightarrow> all_edges g' v = all_edges g v @ (if v = a then [?x] else [])" using DynamicGrid_addEdge_ok[OF I(4) s(1), of ?x] by blast
    obtain s' where s': "IntArraySet_add ?s b = Some s'" "as_inv s'" "as_elems s' = insert b (as_elems ?s)" using IntArraySet_add_ok[OF al(2) bM] by blast
    let ?lc = "lc\<lparr>lc_alreadyShortcut := ?al[nat a := s']\<rparr>" let ?new = "\<lambda>v. new v @ (if v = a then [?x] else [])"
    have run: "LabelCreator_addShortcut l j (lc, es, g) = Some (?lc, es', g')"
      using rd c False e'(1) g'(1) s'(1) a al(1) by (simp add: LabelCreator_addShortcut_def aset_def)
    have "already_ok n ?lc" using al s'(2) set_update_subset_insert[of ?al "nat a" s'] by (auto simp: already_ok_def)
    moreover have "already ?lc v = already lc0 v \<union> {y. has_shortcut (ss @ [(a, b, d, e2, e1)]) v y}" if "0 \<le> v" "v < int n" for v
    proof (cases "v = a")
      case True
      have "already ?lc v = insert b (already lc v)" using True al(1) a(3) s'(3) by (simp add: already_def)
      then show ?thesis unfolding A[OF that] has_shortcut_snoc using True by auto
    next
      case False
      have "already ?lc v = already lc v" using False that a(1) by (simp add: already_def nat_eq_iff)
      then show ?thesis unfolding A[OF that] has_shortcut_snoc using False by auto
    qed
    moreover have bA: "b \<notin> already lc0 a \<union> {b. has_shortcut ss a b}" using False A[OF a(1,2)] by simp
    moreover have "new_edges es' (already lc0) (ss @ [(a, b, d, e2, e1)]) ?new" by (rule new_edges_add[OF N e'(4,5) x0 e'(6-8) bA])
    moreover have "\<exists>al. ?lc = lc0\<lparr>lc_alreadyShortcut := al\<rparr>" using lc by auto
    moreover have "\<forall>v \<in> R. cur_edges g' v = cur_edges g0 v @ ?new v" using g'(3) cur by simp
    moreover have "\<forall>v. 0 \<le> v \<and> v < int n \<longrightarrow> all_edges g' v = all_edges g0 v @ ?new v" using g'(4) all by simp
    ultimately have "adding n R lc0 es0 g0 (ss @ [(a, b, d, e2, e1)]) ?new (?lc, es', g')" unfolding adding_def prod.case
      using e'(2,3) g'(2) Edges_extends_trans[OF I(3) e'(4)] by blast
    then show ?thesis using run by blast
  qed
qed

lemma LabelCreator_addShortcuts_ok:
  assumes l: "al_inv (cd_shortcuts t)" "al_contents (cd_shortcuts t) = shortcut_rows ts" and ts: "\<forall>s \<in> set ts. shortcut_valid n R es0 s"
    and st: "adding n R lc0 es0 g0 ss new st" and n: "int n \<le> MAX_VALUE"
  shows "\<exists>st' new'. LabelCreator_addShortcuts t st = Some st' \<and> adding n R lc0 es0 g0 (ss @ ts) new' st'"
proof -
  define I where "I j st \<longleftrightarrow> (\<exists>new. adding n R lc0 es0 g0 (ss @ take (nat j) ts) new st)" for j :: int and st
  have "\<exists>st'. for_range 0 (int (length ts)) (LabelCreator_addShortcut (cd_shortcuts t)) st = Some st' \<and> I (int (length ts)) st'"
  proof (rule for_range_rule[where I = I])
    show "I 0 st" using st by (auto simp: I_def)
    fix j st assume j: "0 \<le> j" "j < int (length ts)" and "I j st"
    then obtain new where st: "adding n R lc0 es0 g0 (ss @ take (nat j) ts) new st" by (auto simp: I_def)
    obtain lc es g where st': "st = (lc, es, g)" by (cases st)
    obtain a b d e2 e1 where s: "ts ! nat j = (a, b, d, e2, e1)" by (metis prod_cases5)
    have nj: "nat j < length ts" "nat (j + 1) = Suc (nat j)" using j by auto
    have v: "shortcut_valid n R es0 (a, b, d, e2, e1)" using ts nth_mem[OF nj(1)] s by auto
    from LabelCreator_addShortcut_ok[OF st[unfolded st'] v n shortcut_read[OF l j s]] obtain st1 new1 where
      "LabelCreator_addShortcut (cd_shortcuts t) j st = Some st1" "adding n R lc0 es0 g0 ((ss @ take (nat j) ts) @ [(a, b, d, e2, e1)]) new1 st1"
      unfolding st' by blast
    moreover have "(ss @ take (nat j) ts) @ [(a, b, d, e2, e1)] = ss @ take (nat (j + 1)) ts" unfolding nj(2) take_Suc_conv_app_nth[OF nj(1)] s by simp
    ultimately show "\<exists>st'. LabelCreator_addShortcut (cd_shortcuts t) j st = Some st' \<and> I (j + 1) st'" unfolding I_def by metis
  qed simp
  moreover have "IntArrayList_getLen (cd_shortcuts t) div 5 = int (length ts)" using IntArrayList_getLen_eq[OF l(1)] l(2) by simp
  ultimately show ?thesis by (auto simp: LabelCreator_addShortcuts_def I_def)
qed

lemma LabelCreator_addAll_ok:
  assumes n: "int n \<le> MAX_VALUE"
  shows "thread_shortcuts ts sss \<Longrightarrow> \<forall>s \<in> set (concat sss). shortcut_valid n R es0 s \<Longrightarrow> adding n R lc0 es0 g0 ss new st \<Longrightarrow>
    \<exists>st' new'. for_list ts LabelCreator_addShortcuts st = Some st' \<and> adding n R lc0 es0 g0 (ss @ concat sss) new' st'"
  unfolding thread_shortcuts_def
proof (induction ts sss arbitrary: ss new st rule: list_all2_induct)
  case Nil
  then show ?case by auto
next
  case (Cons t ts x sss)
  have v: "\<forall>s \<in> set x. shortcut_valid n R es0 s" "\<forall>s \<in> set (concat sss). shortcut_valid n R es0 s" using Cons.prems(1) by auto
  obtain st1 new1 where 1: "LabelCreator_addShortcuts t st = Some st1" "adding n R lc0 es0 g0 (ss @ x) new1 st1"
    using LabelCreator_addShortcuts_ok[OF _ _ v(1) Cons.prems(2) n] Cons.hyps(1) by blast
  from Cons.IH[OF v(2) 1(2)] show ?case using 1(1) by simp
qed

section \<open>Removing the nodes of a level\<close>

lemma for_list_map: "for_list (map f xs) h s = for_list xs (\<lambda>x. h (f x)) s"
  by (induction xs arbitrary: s) simp_all

lemma for_list_cong: "(\<And>x s. x \<in> set xs \<Longrightarrow> h x s = h' x s) \<Longrightarrow> for_list xs h s = for_list xs h' s"
proof (induction xs arbitrary: s)
  case (Cons x xs)
  have "h x s = h' x s" "\<And>s. for_list xs h s = for_list xs h' s" using Cons by simp_all
  then show ?case by simp
qed simp

lemma LabelCreator_removeNodes_eq:
  assumes "al_inv l"
  shows "LabelCreator_removeNodes es l g = for_list (rev (al_contents l)) (\<lambda>v g. DynamicGrid_removeNode es g v) g"
proof -
  let ?xs = "al_contents l" let ?n = "length ?xs"
  have "LabelCreator_removeNodes es l g = for_list (rev [0..<?n]) (\<lambda>i g. do { v \<leftarrow> IntArrayList_get l (int i); DynamicGrid_removeNode es g v }) g"
    unfolding LabelCreator_removeNodes_def IntArrayList_getLen_eq[OF assms] upto_int_upt rev_map for_list_map ..
  also have "\<dots> = for_list (rev [0..<?n]) (\<lambda>i g. DynamicGrid_removeNode es g (?xs ! i)) g"
    by (rule for_list_cong) (simp add: IntArrayList_get_eq[OF assms] aget_def)
  also have "\<dots> = for_list (map (\<lambda>i. ?xs ! i) (rev [0..<?n])) (\<lambda>v g. DynamicGrid_removeNode es g v) g" unfolding for_list_map ..
  also have "map (\<lambda>i. ?xs ! i) (rev [0..<?n]) = rev ?xs" unfolding rev_map[symmetric] map_nth ..
  finally show ?thesis .
qed

lemma removeNode_list_ok:
  assumes "rows_ok n R g" "balanced R es g" "distinct vs" "set vs \<subseteq> R"
  shows "\<exists>g'. for_list vs (\<lambda>v g. DynamicGrid_removeNode es g v) g = Some g' \<and> rows_ok n (R - set vs) g' \<and> balanced (R - set vs) es g' \<and>
    (\<forall>u \<in> R - set vs. mset (cur_edges g' u) = mset (filter (\<lambda>e. edge_dest es e \<notin> set vs) (cur_edges g u))) \<and>
    dg_allEdgeIds g' = dg_allEdgeIds g \<and> dg_allEdgeCount g' = dg_allEdgeCount g"
  using assms
proof (induction vs arbitrary: R g)
  case (Cons v vs)
  obtain g1 where 1: "DynamicGrid_removeNode es g v = Some g1" "rows_ok n (R - {v}) g1" "balanced (R - {v}) es g1"
    "\<And>u. u \<in> R - {v} \<Longrightarrow> mset (cur_edges g1 u) = mset (filter (\<lambda>e. edge_dest es e \<noteq> v) (cur_edges g u))"
    "dg_allEdgeIds g1 = dg_allEdgeIds g" "dg_allEdgeCount g1 = dg_allEdgeCount g"
    using DynamicGrid_removeNode_ok[OF Cons.prems(1,2), of v] Cons.prems(4) by auto
  have "distinct vs" "set vs \<subseteq> R - {v}" using Cons.prems(3,4) by auto
  from Cons.IH[OF 1(2,3) this] obtain g2 where 2: "for_list vs (\<lambda>v g. DynamicGrid_removeNode es g v) g1 = Some g2"
    "rows_ok n (R - {v} - set vs) g2" "balanced (R - {v} - set vs) es g2"
    "\<And>u. u \<in> R - {v} - set vs \<Longrightarrow> mset (cur_edges g2 u) = mset (filter (\<lambda>e. edge_dest es e \<notin> set vs) (cur_edges g1 u))"
    "dg_allEdgeIds g2 = dg_allEdgeIds g1" "dg_allEdgeCount g2 = dg_allEdgeCount g1" by blast
  have R: "R - set (v # vs) = R - {v} - set vs" by auto
  have "mset (cur_edges g2 u) = mset (filter (\<lambda>e. edge_dest es e \<notin> set (v # vs)) (cur_edges g u))" if u: "u \<in> R - {v} - set vs" for u
  proof -
    have "mset (cur_edges g2 u) = filter_mset (\<lambda>e. edge_dest es e \<notin> set vs) (mset (cur_edges g1 u))" using 2(4)[OF u] by simp
    also have "mset (cur_edges g1 u) = mset (filter (\<lambda>e. edge_dest es e \<noteq> v) (cur_edges g u))" using 1(4) u by blast
    finally show ?thesis by (simp add: filter_filter_mset conj_commute)
  qed
  then show ?case unfolding R using 1(1,5,6) 2 by auto
qed auto

lemma LabelCreator_removeNodes_ok:
  assumes "al_inv l" "rows_ok n R g" "balanced R es g" "distinct (al_contents l)" "set (al_contents l) \<subseteq> R"
  shows "\<exists>g'. LabelCreator_removeNodes es l g = Some g' \<and> rows_ok n (R - set (al_contents l)) g' \<and> balanced (R - set (al_contents l)) es g' \<and>
    (\<forall>u \<in> R - set (al_contents l). mset (cur_edges g' u) = mset (filter (\<lambda>e. edge_dest es e \<notin> set (al_contents l)) (cur_edges g u))) \<and>
    dg_allEdgeIds g' = dg_allEdgeIds g \<and> dg_allEdgeCount g' = dg_allEdgeCount g"
  using removeNode_list_ok[OF assms(2,3), of "rev (al_contents l)"] assms(4,5) LabelCreator_removeNodes_eq[OF assms(1)] by simp

end
