(* ===== verification/ContractionLevels.thy ===== *)
theory ContractionLevels
  imports ContractionHierarchy
begin

text \<open>
  The invariant of the contraction from level to level, and that \<open>calcNextLvl\<close> keeps it: the graph
  \<open>calculateCH\<close> leaves behind is \<open>contracted\<close>. The bound \<open>D\<close> is one on the distances of the
  original graph.
\<close>

section \<open>The graph between two levels\<close>

text \<open>The edges of the contracted nodes to nodes that are not contracted or have a higher level.\<close>

definition chup :: "int set \<Rightarrow> (int \<Rightarrow> int) \<Rightarrow> Edges \<Rightarrow> DynamicGrid \<Rightarrow> adjacency" where
  "chup X lvl es g v = (if v \<in> X then map (\<lambda>e. (edge_dest es e, edge_dist es e))
     (filter (\<lambda>e. edge_dest es e \<notin> X \<or> lvl v < lvl (edge_dest es e)) (all_edges g v)) else [])"

definition ch_edge :: "adjacency \<Rightarrow> Edges \<Rightarrow> int \<Rightarrow> int \<Rightarrow> bool" where
  "ch_edge adj es v e \<longleftrightarrow> 0 \<le> e \<and> e < eg_nextShortcutId es \<and> edge_start es e = v \<and> edge_dest es e \<noteq> v \<and> 0 < edge_dist es e \<and>
     least adj v (edge_dest es e) (edge_dist es e)"

definition ch_graph :: "nat \<Rightarrow> adjacency \<Rightarrow> int \<Rightarrow> int set \<Rightarrow> (int \<Rightarrow> int) \<Rightarrow> (int \<Rightarrow> int set) \<Rightarrow> Edges \<Rightarrow> DynamicGrid \<Rightarrow> bool" where
  "ch_graph n adj L X lvl A es g \<longleftrightarrow> Edges_wf n es \<and> Edges_growable es \<and> original_adj es = adj \<and>
     rows_ok n ({0..<int n} - X) g \<and> balanced ({0..<int n} - X) es g \<and>
     contraction {0..<int n} adj X (chup X lvl es g) (cur_adj es g) \<and>
     (\<forall>v \<in> {0..<int n} - X. set (cur_edges g v) = {e \<in> set (all_edges g v). edge_dest es e \<notin> X}) \<and>
     (\<forall>v \<in> {0..<int n}. \<forall>e \<in> set (all_edges g v). ch_edge adj es v e) \<and>
     (\<forall>u \<in> {0..<int n} - X. \<forall>v \<in> {0..<int n} - X. v \<in> A u \<longrightarrow> u \<in> A v \<and> v \<in> edge_dest es ` set (cur_edges g u)) \<and>
     (\<forall>v \<in> X. 0 \<le> lvl v \<and> lvl v < L \<and> (\<forall>e \<in> set (all_edges g v). edge_dest es e \<in> X \<longrightarrow> lvl (edge_dest es e) \<noteq> lvl v))"

lemma ch_graphD:
  assumes "ch_graph n adj L X lvl A es g"
  shows "Edges_wf n es" "Edges_growable es" "original_adj es = adj" "rows_ok n ({0..<int n} - X) g" "balanced ({0..<int n} - X) es g"
    "contraction {0..<int n} adj X (chup X lvl es g) (cur_adj es g)"
    "v \<in> {0..<int n} - X \<Longrightarrow> set (cur_edges g v) = {e \<in> set (all_edges g v). edge_dest es e \<notin> X}"
    "v \<in> {0..<int n} \<Longrightarrow> e \<in> set (all_edges g v) \<Longrightarrow> ch_edge adj es v e"
    "u \<in> {0..<int n} - X \<Longrightarrow> v \<in> {0..<int n} - X \<Longrightarrow> v \<in> A u \<Longrightarrow> u \<in> A v \<and> v \<in> edge_dest es ` set (cur_edges g u)"
    "v \<in> X \<Longrightarrow> 0 \<le> lvl v \<and> lvl v < L" "v \<in> X \<Longrightarrow> e \<in> set (all_edges g v) \<Longrightarrow> edge_dest es e \<in> X \<Longrightarrow> lvl (edge_dest es e) \<noteq> lvl v"
  using assms unfolding ch_graph_def by blast+

lemma ch_graph_cur:
  assumes "ch_graph n adj L X lvl A es g" "v \<in> {0..<int n} - X" "e \<in> set (cur_edges g v)"
  shows "ch_edge adj es v e" "e \<in> set (all_edges g v)" "edge_dest es e \<in> {0..<int n} - X"
    "Edges_getDest es e = Some (edge_dest es e)" "Edges_getDist es e = Some (edge_dist es e)"
proof -
  show a: "e \<in> set (all_edges g v)" using ch_graphD(7)[OF assms(1,2)] assms(3) by blast
  show c: "ch_edge adj es v e" using ch_graphD(8)[OF assms(1) _ a] assms(2) by blast
  show "edge_dest es e \<in> {0..<int n} - X" using balancedD(1)[OF ch_graphD(5)[OF assms(1)] assms(2,3)] by blast
  have "Edges_sized es" using ch_graphD(1)[OF assms(1)] by (simp add: Edges_wf_def)
  then show "Edges_getDest es e = Some (edge_dest es e)" "Edges_getDist es e = Some (edge_dist es e)"
    using c by (auto simp: ch_edge_def intro: Edges_sized_get)
qed

text \<open>All distances are at most \<open>D\<close>; two of them can be added.\<close>

definition distances_below :: "nat \<Rightarrow> adjacency \<Rightarrow> int \<Rightarrow> bool" where
  "distances_below n adj D \<longleftrightarrow> 0 \<le> D \<and> (\<forall>u \<in> {0..<int n}. \<forall>v c. least adj u v c \<longrightarrow> c \<le> D) \<and> 2 * D < MAX_VALUE"

lemma ch_graph_fits:
  assumes G: "ch_graph n adj L X lvl A es g" and D: "distances_below n adj D" and a: "a \<in> {0..<int n} - X"
  shows "distances_fit (cur_adj es g) a"
  unfolding distances_fit_def
proof (intro allI impI)
  let ?cur = "cur_adj es g" let ?R = "{0..<int n} - X"
  note C = ch_graphD(6)[OF G]
  fix u assume "reachable ?cur a u"
  then obtain p c where p: "walk ?cur a p c" "last p = u" unfolding reachable_def by blast
  have w: "way ?cur a u c" using walk_way[OF p(1)] p(2) by simp
  have uR: "u \<in> ?R" using contraction_way[OF C w a] by blast
  have "0 \<le> d" if "way ?cur a u d" for d using contraction_way[OF C that a] by blast
  with w obtain d where d: "least ?cur a u d" by (rule least_exists)
  have "least adj a u d" using contraction_least[OF C a uR] d by blast
  then have dD: "d \<le> D" using D a unfolding distances_below_def by blast
  obtain q where q: "walk ?cur a q d" "last q = u" using way_walk[OF leastD(1)[OF d]] by blast
  have "d + w < MAX_VALUE" if "(v, w) \<in> set (?cur u)" for v w
  proof -
    have "least adj u v w" using contractionD(2)[OF C uR that] by blast
    then have "w \<le> D" using D uR unfolding distances_below_def by blast
    then show ?thesis using dD D by (simp add: distances_below_def)
  qed
  then show "\<exists>p c. walk ?cur a p c \<and> last p = u \<and> (\<forall>(v, w) \<in> set (?cur u). c + w < MAX_VALUE)" using q by blast
qed

lemma ch_graph_cur_graph:
  assumes G: "ch_graph n adj L X lvl A es g" and D: "distances_below n adj D" and n: "int n \<le> MAX_VALUE"
  shows "cur_graph ({0..<int n} - X) es g"
  unfolding cur_graph_def
proof (intro conjI ballI allI impI)
  let ?R = "{0..<int n} - X"
  note C = ch_graphD(6)[OF G]
  show ok: "cur_ok ?R es g" unfolding cur_ok_def
  proof (intro conjI ballI)
    show "finite ?R" by simp
    fix v assume v: "v \<in> ?R"
    show "v < MAX_VALUE" using v n by auto
    obtain row where r: "take (length (cur_edges g v)) row = cur_edges g v" "DynamicGrid_getCurrentEdges g v = Some (Some row)"
      "DynamicGrid_getCurrentEdgeCount g v = Some (int (length (cur_edges g v)))" using rows_okD[OF ch_graphD(4)[OF G] v] by blast
    show "DynamicGrid_getCurrentEdgeCount g v = Some (int (length (cur_edges g v)))"
      "\<exists>row. DynamicGrid_getCurrentEdges g v = Some (Some row) \<and> take (length (cur_edges g v)) row = cur_edges g v" using r by blast+
    fix e assume e: "e \<in> set (cur_edges g v)"
    show "Edges_getDest es e = Some (edge_dest es e)" "Edges_getDist es e = Some (edge_dist es e)" "edge_dest es e \<in> ?R" by (rule ch_graph_cur[OF G v e])+
    show "0 < edge_dist es e" using ch_graph_cur(1)[OF G v e] by (simp add: ch_edge_def)
  qed
  fix a assume a: "a \<in> ?R"
  show "best_first (cur_adj es g) ?R a"
  proof
    show "v \<in> ?R \<and> 0 \<le> w" if "u \<in> ?R" "(v, w) \<in> set (cur_adj es g u)" for u v w using contractionD(2)[OF C that] by simp
  qed (use a ch_graph_fits[OF G D a] in auto)
next
  fix u v w assume u: "u \<in> {0..<int n} - X" and e: "(v, w) \<in> set (cur_adj es g u)"
  show "(u, w) \<in> set (cur_adj es g v)" using contractionD(2)[OF ch_graphD(6)[OF G] u e] by blast
  show "v \<noteq> u" using e ch_graph_cur(1)[OF G u] by (auto simp: cur_adj_def ch_edge_def)
qed

section \<open>One level\<close>

text \<open>The shortcuts of the nodes \<open>I\<close> have been added, and the nodes not removed yet.\<close>

definition level_step ::
    "nat \<Rightarrow> adjacency \<Rightarrow> int \<Rightarrow> int set \<Rightarrow> (int \<Rightarrow> int) \<Rightarrow> (int \<Rightarrow> int set) \<Rightarrow> Edges \<Rightarrow> DynamicGrid \<Rightarrow> int set \<Rightarrow> shortcut list \<Rightarrow>
     (int \<Rightarrow> int list) \<Rightarrow> Edges \<Rightarrow> DynamicGrid \<Rightarrow> bool" where
  "level_step n adj L X lvl A es g I ss new es' g' \<longleftrightarrow> ch_graph n adj L X lvl A es g \<and> I \<subseteq> {0..<int n} - X \<and> independent I (cur_adj es g) \<and>
     (\<forall>s \<in> set ss. fst s \<in> {0..<int n} - X \<and> (\<exists>m \<in> I. shortcut_ok es g m s)) \<and>
     (\<forall>m \<in> I. \<forall>a \<in> {0..<int n} - X. \<forall>b. needs_shortcut es g m a b \<longrightarrow> has_shortcut ss a b) \<and>
     Edges_wf n es' \<and> Edges_growable es' \<and> Edges_extends es es' \<and> rows_ok n ({0..<int n} - X) g' \<and>
     (\<forall>v \<in> {0..<int n} - X. cur_edges g' v = cur_edges g v @ new v) \<and> (\<forall>v. 0 \<le> v \<and> v < int n \<longrightarrow> all_edges g' v = all_edges g v @ new v) \<and>
     new_edges es' A ss new"

lemma level_stepD:
  assumes "level_step n adj L X lvl A es g I ss new es' g'"
  shows "ch_graph n adj L X lvl A es g" "I \<subseteq> {0..<int n} - X" "independent I (cur_adj es g)"
    "s \<in> set ss \<Longrightarrow> fst s \<in> {0..<int n} - X \<and> (\<exists>m \<in> I. shortcut_ok es g m s)"
    "m \<in> I \<Longrightarrow> a \<in> {0..<int n} - X \<Longrightarrow> needs_shortcut es g m a b \<Longrightarrow> has_shortcut ss a b"
    "Edges_wf n es'" "Edges_growable es'" "Edges_extends es es'" "rows_ok n ({0..<int n} - X) g'"
    "v \<in> {0..<int n} - X \<Longrightarrow> cur_edges g' v = cur_edges g v @ new v" "v \<in> {0..<int n} \<Longrightarrow> all_edges g' v = all_edges g v @ new v"
    "new_edges es' A ss new"
  using assms unfolding level_step_def by auto

text \<open>The edges there were before are unchanged.\<close>

lemma extends_edge:
  assumes "Edges_extends es es'" "ch_edge adj es v e"
  shows "edge_dest es' e = edge_dest es e" "edge_dist es' e = edge_dist es e" "ch_edge adj es' v e"
  using assms by (auto simp: Edges_extends_def ch_edge_def)

lemma level_shortcut:
  assumes S: "level_step n adj L X lvl A es g I ss new es' g'" and s: "(a, b, d, e2, e1) \<in> set ss"
  obtains m w1 w2 where "m \<in> I" "(m, w1) \<in> set (cur_adj es g a)" "(b, w2) \<in> set (cur_adj es g m)" "d = w1 + w2" "b \<noteq> a"
    "least (cur_adj es g) a b d" "a \<in> {0..<int n} - X - I" "b \<in> {0..<int n} - X - I" "0 < d"
proof -
  let ?R = "{0..<int n} - X" let ?cur = "cur_adj es g"
  note G = level_stepD(1)[OF S] and C = ch_graphD(6)[OF level_stepD(1)[OF S]]
  obtain m where m: "a \<in> ?R" "m \<in> I" "shortcut_ok es g m (a, b, d, e2, e1)" using level_stepD(4)[OF S s] by auto
  let ?w1 = "edge_dist es e1" let ?w2 = "edge_dist es e2"
  from m(3) have e: "(m, ?w1) \<in> set (?cur a)" "(b, ?w2) \<in> set (?cur m)" "d = ?w1 + ?w2" "b \<noteq> a" "least ?cur a b d" by (auto simp: cur_adj_def)
  have mR: "m \<in> ?R" using m(2) level_stepD(2)[OF S] by blast
  note c1 = contractionD(2)[OF C m(1) e(1)] and c2 = contractionD(2)[OF C mR e(2)]
  have "a \<notin> I" using independentD[OF level_stepD(3)[OF S] m(2), of a] c1 by blast
  moreover have "b \<notin> I" using independentD[OF level_stepD(3)[OF S] m(2) e(2)] .
  ultimately show thesis using that[OF m(2) e] m(1) c1 c2 e(3) by simp
qed

lemma level_symmetric:
  assumes S: "level_step n adj L X lvl A es g I ss new es' g'" and h: "has_shortcut ss a b"
  shows "has_shortcut ss b a" "a \<in> {0..<int n} - X - I" "b \<in> {0..<int n} - X - I" "b \<noteq> a"
proof -
  let ?cur = "cur_adj es g"
  note C = ch_graphD(6)[OF level_stepD(1)[OF S]]
  from h obtain d e2 e1 where s: "(a, b, d, e2, e1) \<in> set ss" unfolding has_shortcut_def by blast
  obtain m w1 w2 where m: "m \<in> I" "(m, w1) \<in> set (?cur a)" "(b, w2) \<in> set (?cur m)" "d = w1 + w2" "b \<noteq> a"
    "least ?cur a b d" "a \<in> {0..<int n} - X - I" "b \<in> {0..<int n} - X - I" by (rule level_shortcut[OF S s])
  show "a \<in> {0..<int n} - X - I" "b \<in> {0..<int n} - X - I" "b \<noteq> a" by (fact m)+
  have R: "a \<in> {0..<int n} - X" "m \<in> {0..<int n} - X" "b \<in> {0..<int n} - X" using m(1,7,8) level_stepD(2)[OF S] by blast+
  have "(m, w2) \<in> set (?cur b)" "(a, w1) \<in> set (?cur m)" using contractionD(2)[OF C R(2) m(3)] contractionD(2)[OF C R(1) m(2)] by blast+
  moreover have "least ?cur b a (w2 + w1)" using contraction_least_rev[OF C R(1) m(6)] m(4) by (simp add: add.commute)
  ultimately have "needs_shortcut es g m b a" unfolding needs_shortcut_def using m(5) by blast
  then show "has_shortcut ss b a" by (rule level_stepD(5)[OF S m(1) R(3)])
qed

lemma level_new:
  assumes S: "level_step n adj L X lvl A es g I ss new es' g'" and e: "e \<in> set (new v)"
  shows "ch_edge adj es' v e" "has_shortcut ss v (edge_dest es' e)" "edge_dest es' e \<notin> A v" "least (cur_adj es g) v (edge_dest es' e) (edge_dist es' e)"
    "v \<in> {0..<int n} - X - I" "edge_dest es' e \<in> {0..<int n} - X - I"
    "\<exists>m w1 w2. m \<in> I \<and> (m, w1) \<in> set (cur_adj es g v) \<and> (edge_dest es' e, w2) \<in> set (cur_adj es g m) \<and> edge_dist es' e = w1 + w2"
proof -
  let ?b = "edge_dest es' e" let ?d = "edge_dist es' e"
  note N = level_stepD(12)[OF S, unfolded new_edges_def, rule_format, of v]
  from N e obtain e2 e1 where s: "(v, ?b, ?d, e2, e1) \<in> set ss" and x: "0 \<le> e" "e < eg_nextShortcutId es'" "edge_start es' e = v" by blast
  have "?b \<in> {b. has_shortcut ss v b} - A v" using N e by blast
  then show h: "has_shortcut ss v ?b" "?b \<notin> A v" by blast+
  obtain m w1 w2 where m: "m \<in> I" "(m, w1) \<in> set (cur_adj es g v)" "(?b, w2) \<in> set (cur_adj es g m)" "?d = w1 + w2" "?b \<noteq> v"
    "least (cur_adj es g) v ?b ?d" "v \<in> {0..<int n} - X - I" "?b \<in> {0..<int n} - X - I" "0 < ?d" by (rule level_shortcut[OF S s])
  show "least (cur_adj es g) v ?b ?d" "v \<in> {0..<int n} - X - I" "?b \<in> {0..<int n} - X - I" by (fact m)+
  show "\<exists>m w1 w2. m \<in> I \<and> (m, w1) \<in> set (cur_adj es g v) \<and> (?b, w2) \<in> set (cur_adj es g m) \<and> ?d = w1 + w2" using m by blast
  have R: "v \<in> {0..<int n} - X" "?b \<in> {0..<int n} - X" using m(7,8) by blast+
  have "least adj v ?b ?d" using contraction_least[OF ch_graphD(6)[OF level_stepD(1)[OF S]] R] m(6) by blast
  then show "ch_edge adj es' v e" using x m(5,9) by (simp add: ch_edge_def)
qed

lemma level_old:
  assumes S: "level_step n adj L X lvl A es g I ss new es' g'" and v: "v \<in> {0..<int n} - X" and e: "e \<in> set (cur_edges g v)"
  shows "edge_dest es' e = edge_dest es e" "edge_dist es' e = edge_dist es e" "ch_edge adj es' v e" "edge_dest es e \<in> {0..<int n} - X"
  using extends_edge[OF level_stepD(8)[OF S] ch_graph_cur(1)[OF level_stepD(1)[OF S] v e]] ch_graph_cur(3)[OF level_stepD(1)[OF S] v e] by auto

lemma count_distinct: "distinct xs \<Longrightarrow> count (mset xs) x = (if x \<in> set xs then 1 else 0)"
  by (induction xs) auto

lemma level_balanced:
  assumes S: "level_step n adj L X lvl A es g I ss new es' g'"
  shows "balanced ({0..<int n} - X) es' g'"
  unfolding balanced_def
proof (intro conjI ballI)
  let ?R = "{0..<int n} - X"
  note G = level_stepD(1)[OF S] and bal = ch_graphD(5)[OF level_stepD(1)[OF S]]
  have sz: "Edges_sized es'" using level_stepD(6)[OF S] by (simp add: Edges_wf_def)
  fix u assume u: "u \<in> ?R"
  {
    fix e assume "e \<in> set (cur_edges g' u)"
    then consider "e \<in> set (cur_edges g u)" | "e \<in> set (new u)" unfolding level_stepD(10)[OF S u] by auto
    then have "ch_edge adj es' u e \<and> edge_dest es' e \<in> ?R"
    proof cases
      case 1
      then show ?thesis using level_old[OF S u 1] by simp
    next
      case 2
      then show ?thesis using level_new[OF S 2] by simp
    qed
    then show "Edges_getDest es' e = Some (edge_dest es' e)" "edge_dest es' e \<in> ?R - {u}"
      using Edges_sized_get(1)[OF sz] by (auto simp: ch_edge_def)
  }
  fix v assume v: "v \<in> ?R"
  let ?c = "\<lambda>u v. count (mset (map (edge_dest es) (cur_edges g u))) v" let ?k = "\<lambda>u v. count (mset (map (edge_dest es') (new u))) v"
  have split: "count (mset (map (edge_dest es') (cur_edges g' u))) v = ?c u v + ?k u v" if "u \<in> ?R" for u v
  proof -
    have m: "map (edge_dest es') (cur_edges g u) = map (edge_dest es) (cur_edges g u)" using level_old(1)[OF S that] by simp
    show ?thesis unfolding level_stepD(10)[OF S that] map_append m mset_append by simp
  qed
  have k: "?k u v = (if has_shortcut ss u v \<and> v \<notin> A u then 1 else 0)" for u v
    using level_stepD(12)[OF S, unfolded new_edges_def, rule_format, of u] count_distinct[of "map (edge_dest es') (new u)" v] by simp
  have "has_shortcut ss u v \<longleftrightarrow> has_shortcut ss v u" using level_symmetric(1)[OF S] by blast
  moreover have "v \<in> A u \<longleftrightarrow> u \<in> A v" using ch_graphD(9)[OF G] u v by blast
  ultimately have "?k u v = ?k v u" unfolding k by simp
  then show "count (mset (map (edge_dest es') (cur_edges g' u))) v = count (mset (map (edge_dest es') (cur_edges g' v))) u"
    unfolding split[OF u] split[OF v] using balancedD(2)[OF bal u v] by simp
qed

text \<open>The nodes have been removed.\<close>

definition level_removed :: "nat \<Rightarrow> int set \<Rightarrow> int set \<Rightarrow> Edges \<Rightarrow> DynamicGrid \<Rightarrow> DynamicGrid \<Rightarrow> bool" where
  "level_removed n R I es g g' \<longleftrightarrow> rows_ok n (R - I) g' \<and> balanced (R - I) es g' \<and>
    (\<forall>u \<in> R - I. mset (cur_edges g' u) = mset (filter (\<lambda>e. edge_dest es e \<notin> I) (cur_edges g u))) \<and>
    dg_allEdgeIds g' = dg_allEdgeIds g \<and> dg_allEdgeCount g' = dg_allEdgeCount g"

lemma level_removedD:
  assumes "level_removed n R I es g g'"
  shows "rows_ok n (R - I) g'" "balanced (R - I) es g'" "all_edges g' v = all_edges g v"
    "u \<in> R - I \<Longrightarrow> set (cur_edges g' u) = {e \<in> set (cur_edges g u). edge_dest es e \<notin> I}"
  using assms by (auto simp: level_removed_def all_edges_def dest!: bspec arg_cong[of _ _ set_mset])

lemma level_cur:
  assumes S: "level_step n adj L X lvl A es g I ss new es' g'" and M: "level_removed n ({0..<int n} - X) I es' g' g2" and u: "u \<in> {0..<int n} - X - I"
  shows "e \<in> set (cur_edges g2 u) \<longleftrightarrow> e \<in> set (cur_edges g u) \<and> edge_dest es e \<notin> I \<or> e \<in> set (new u)"
proof -
  have uR: "u \<in> {0..<int n} - X" using u by blast
  have "e \<in> set (cur_edges g2 u) \<longleftrightarrow> (e \<in> set (cur_edges g u) \<or> e \<in> set (new u)) \<and> edge_dest es' e \<notin> I"
    unfolding level_removedD(4)[OF M u] level_stepD(10)[OF S uR] by auto
  then show ?thesis using level_old(1)[OF S uR] level_new(6)[OF S] by fastforce
qed

lemma level_adj:
  assumes S: "level_step n adj L X lvl A es g I ss new es' g'" and M: "level_removed n ({0..<int n} - X) I es' g' g2" and u: "u \<in> {0..<int n} - X - I"
  shows "(v, w) \<in> set (cur_adj es' g2 u) \<longleftrightarrow> (v, w) \<in> set (cur_adj es g u) \<and> v \<notin> I \<or> (\<exists>e \<in> set (new u). edge_dest es' e = v \<and> edge_dist es' e = w)"
proof -
  have uR: "u \<in> {0..<int n} - X" using u by blast
  have "(v, w) \<in> set (cur_adj es' g2 u) \<longleftrightarrow> (\<exists>e. e \<in> set (cur_edges g2 u) \<and> edge_dest es' e = v \<and> edge_dist es' e = w)" by (auto simp: cur_adj_def)
  also have "\<dots> \<longleftrightarrow> (\<exists>e \<in> set (cur_edges g u). edge_dest es e \<notin> I \<and> edge_dest es e = v \<and> edge_dist es e = w) \<or>
      (\<exists>e \<in> set (new u). edge_dest es' e = v \<and> edge_dist es' e = w)"
    unfolding level_cur[OF S M u] using level_old(1,2)[OF S uR] by (metis (no_types, lifting))
  also have "(\<exists>e \<in> set (cur_edges g u). edge_dest es e \<notin> I \<and> edge_dest es e = v \<and> edge_dist es e = w) \<longleftrightarrow> (v, w) \<in> set (cur_adj es g u) \<and> v \<notin> I"
    by (auto simp: cur_adj_def)
  finally show ?thesis .
qed

lemma level_contracts:
  assumes S: "level_step n adj L X lvl A es g I ss new es' g'" and M: "level_removed n ({0..<int n} - X) I es' g' g2"
  shows "contracts ({0..<int n} - X) I (cur_adj es g) (cur_adj es' g2)"
  unfolding contracts_def
proof (intro conjI ballI allI impI; (elim conjE)?)
  let ?R = "{0..<int n} - X" let ?cur = "cur_adj es g"
  note G = level_stepD(1)[OF S] and C = ch_graphD(6)[OF level_stepD(1)[OF S]]
  fix u assume u: "u \<in> ?R - I"
  then have uR: "u \<in> ?R" by blast
  note adj = level_adj[OF S M u]
  show "(v, w) \<in> set (cur_adj es' g2 u)" if "(v, w) \<in> set (?cur u)" "v \<notin> I" for v w using adj that by blast
  show "v \<notin> I" if "(v, w) \<in> set (cur_adj es' g2 u)" for v w using that level_new(6)[OF S] unfolding adj by blast
  show "(v, w) \<in> set (?cur u) \<or> (\<exists>m w1 w2. m \<in> I \<and> (m, w1) \<in> set (?cur u) \<and> (v, w2) \<in> set (?cur m) \<and> w = w1 + w2 \<and> v \<noteq> u \<and> least ?cur u v w)"
    if e: "(v, w) \<in> set (cur_adj es' g2 u)" for v w
  proof (cases "(v, w) \<in> set (?cur u)")
    case False
    then obtain e where x: "e \<in> set (new u)" "edge_dest es' e = v" "edge_dist es' e = w" using e unfolding adj by blast
    have "v \<noteq> u" using level_new(1)[OF S x(1)] x(2) by (simp add: ch_edge_def)
    then show ?thesis using level_new(4,7)[OF S x(1)] unfolding x(2,3) by blast
  qed blast
  show "(v, w1 + w2) \<in> set (cur_adj es' g2 u)" if m: "m \<in> I" "(m, w1) \<in> set (?cur u)" "(v, w2) \<in> set (?cur m)" "v \<noteq> u" "least ?cur u v (w1 + w2)" for m v w1 w2
  proof -
    have "needs_shortcut es g m u v" unfolding needs_shortcut_def using m by blast
    then have h: "has_shortcut ss u v" by (rule level_stepD(5)[OF S m(1) uR])
    note v = level_symmetric(3)[OF S h]
    show ?thesis
    proof (cases "v \<in> A u")
      case True
      then have "v \<in> edge_dest es ` set (cur_edges g u)" using ch_graphD(9)[OF G uR] v by blast
      then obtain w where w: "(v, w) \<in> set (?cur u)" by (auto simp: cur_adj_def)
      have "w = w1 + w2" by (rule least_unique[OF contraction_edge_least[OF C uR w] m(5)])
      then show ?thesis using w v unfolding adj by blast
    next
      case False
      then have "v \<in> edge_dest es' ` set (new u)" using level_stepD(12)[OF S, unfolded new_edges_def, rule_format, of u] h by blast
      then obtain e where e: "e \<in> set (new u)" "edge_dest es' e = v" by blast
      have "edge_dist es' e = w1 + w2" using least_unique[OF level_new(4)[OF S e(1)]] m(5) e(2) by blast
      then show ?thesis using e unfolding adj by blast
    qed
  qed
qed

lemma level_up:
  assumes S: "level_step n adj L X lvl A es g I ss new es' g'" and M: "level_removed n ({0..<int n} - X) I es' g' g2"
    and l: "\<And>v. v \<in> {0..<int n} \<Longrightarrow> lvl' v = (if v \<in> I then L else lvl v)"
  shows "set (chup X lvl es g v) \<subseteq> set (chup (X \<union> I) lvl' es' g2 v)" "v \<in> I \<Longrightarrow> set (cur_adj es g v) \<subseteq> set (chup (X \<union> I) lvl' es' g2 v)"
proof -
  note G = level_stepD(1)[OF S]
  have XV: "X \<subseteq> {0..<int n}" using contractionD(1)[OF ch_graphD(6)[OF G]] .
  have all: "set (all_edges g v) \<subseteq> set (all_edges g2 v)" if "v \<in> {0..<int n}" for v
    unfolding level_removedD(3)[OF M] level_stepD(11)[OF S that] by simp
  show "set (chup X lvl es g v) \<subseteq> set (chup (X \<union> I) lvl' es' g2 v)"
  proof (cases "v \<in> X")
    case True
    then have v: "v \<in> {0..<int n}" "v \<notin> I" using XV level_stepD(2)[OF S] by blast+
    show ?thesis
    proof
      fix p assume "p \<in> set (chup X lvl es g v)"
      then obtain e where e: "e \<in> set (all_edges g v)" "edge_dest es e \<notin> X \<or> lvl v < lvl (edge_dest es e)" "p = (edge_dest es e, edge_dist es e)"
        using True by (auto simp: chup_def)
      note ce = ch_graphD(8)[OF G v(1) e(1)]
      note x = extends_edge(1,2)[OF level_stepD(8)[OF S] ce]
      have dV: "edge_dest es e \<in> {0..<int n}" using ch_graphD(1)[OF G] ce by (auto simp: Edges_wf_def ch_edge_def)
      have "edge_dest es e \<notin> X \<union> I \<or> lvl' v < lvl' (edge_dest es e)"
      proof (cases "edge_dest es e \<in> I")
        case True
        then show ?thesis using l[OF dV] l[OF v(1)] v(2) ch_graphD(10)[OF G \<open>v \<in> X\<close>] by simp
      next
        case False
        then show ?thesis using l[OF dV] l[OF v(1)] v(2) e(2) by simp
      qed
      then show "p \<in> set (chup (X \<union> I) lvl' es' g2 v)" using True all[OF v(1)] e(1,3) x by (force simp: chup_def)
    qed
  qed (simp add: chup_def)
  assume vI: "v \<in> I"
  then have v: "v \<in> {0..<int n} - X" using level_stepD(2)[OF S] by blast
  show "set (cur_adj es g v) \<subseteq> set (chup (X \<union> I) lvl' es' g2 v)"
  proof
    fix p assume p: "p \<in> set (cur_adj es g v)"
    then obtain e where e: "e \<in> set (cur_edges g v)" "p = (edge_dest es e, edge_dist es e)" by (auto simp: cur_adj_def)
    have "edge_dest es e \<notin> I" using independentD[OF level_stepD(3)[OF S] vI, of "edge_dest es e" "edge_dist es e"] p e(2) by simp
    then have "edge_dest es' e \<notin> X \<union> I" "p = (edge_dest es' e, edge_dist es' e)" using level_old[OF S v e(1)] e(2) by simp_all
    moreover have "e \<in> set (all_edges g2 v)" using all[of v] v ch_graph_cur(2)[OF G v e(1)] by blast
    ultimately show "p \<in> set (chup (X \<union> I) lvl' es' g2 v)" using vI by (force simp: chup_def)
  qed
qed

lemma level_all_edges:
  assumes S: "level_step n adj L X lvl A es g I ss new es' g'" and M: "level_removed n ({0..<int n} - X) I es' g' g2" and v: "v \<in> {0..<int n}"
    and e: "e \<in> set (all_edges g2 v)"
  shows "ch_edge adj es' v e"
proof -
  from e consider "e \<in> set (all_edges g v)" | "e \<in> set (new v)" unfolding level_removedD(3)[OF M] level_stepD(11)[OF S v] by auto
  then show ?thesis
  proof cases
    case 1
    then show ?thesis using extends_edge(3)[OF level_stepD(8)[OF S] ch_graphD(8)[OF level_stepD(1)[OF S] v 1]] by simp
  qed (rule level_new(1)[OF S])
qed

text \<open>An edge between two nodes contracted so far was there before, and is none within the level.\<close>

lemma level_levels:
  assumes S: "level_step n adj L X lvl A es g I ss new es' g'" and M: "level_removed n ({0..<int n} - X) I es' g' g2"
    and l: "\<And>v. v \<in> {0..<int n} \<Longrightarrow> lvl' v = (if v \<in> I then L else lvl v)"
    and v: "v \<in> X \<union> I" and e: "e \<in> set (all_edges g2 v)" and d: "edge_dest es' e \<in> X \<union> I"
  shows "lvl' (edge_dest es' e) \<noteq> lvl' v"
proof -
  note G = level_stepD(1)[OF S]
  have XV: "X \<subseteq> {0..<int n}" "I \<subseteq> {0..<int n} - X" using contractionD(1)[OF ch_graphD(6)[OF G]] level_stepD(2)[OF S] by blast+
  then have vV: "v \<in> {0..<int n}" "edge_dest es' e \<in> {0..<int n}" using v d by blast+
  have "e \<notin> set (new v)" using level_new(6)[OF S] d by blast
  then have old: "e \<in> set (all_edges g v)" using e unfolding level_removedD(3)[OF M] level_stepD(11)[OF S vV(1)] by simp
  have x: "edge_dest es' e = edge_dest es e" using extends_edge(1)[OF level_stepD(8)[OF S] ch_graphD(8)[OF G vV(1) old]] .
  have lX: "lvl y < L" if "y \<in> X" for y using ch_graphD(10)[OF G that] by simp
  show ?thesis
  proof (cases "v \<in> X")
    case True
    then have "v \<notin> I" using XV by blast
    moreover have "lvl (edge_dest es e) \<noteq> lvl v" if "edge_dest es e \<in> X" using ch_graphD(11)[OF G True old that] .
    ultimately show ?thesis using d l[OF vV(1)] l[OF vV(2)] lX[OF True] XV unfolding x by auto
  next
    case False
    then have vI: "v \<in> I" "v \<in> {0..<int n} - X" using v vV by blast+
    have "edge_dest es e \<in> X"
    proof (rule ccontr)
      assume nX: "edge_dest es e \<notin> X"
      then have "e \<in> set (cur_edges g v)" using ch_graphD(7)[OF G vI(2)] old by blast
      then have "(edge_dest es e, edge_dist es e) \<in> set (cur_adj es g v)" by (auto simp: cur_adj_def)
      from independentD[OF level_stepD(3)[OF S] vI(1) this] show False using d nX unfolding x by blast
    qed
    moreover then have "edge_dest es e \<notin> I" using XV by blast
    ultimately show ?thesis using l[OF vV(1)] l[OF vV(2)] vI(1) lX[of "edge_dest es e"] unfolding x by simp
  qed
qed

lemma level_graph:
  assumes S: "level_step n adj L X lvl A es g I ss new es' g'" and M: "level_removed n ({0..<int n} - X) I es' g' g2"
    and l: "\<And>v. v \<in> {0..<int n} \<Longrightarrow> lvl' v = (if v \<in> I then L else lvl v)" and L: "0 \<le> L"
    and A: "\<And>v. v \<in> {0..<int n} \<Longrightarrow> A' v = A v \<union> {b. has_shortcut ss v b}"
  shows "ch_graph n adj (L + 1) (X \<union> I) lvl' A' es' g2"
  unfolding ch_graph_def
proof (intro conjI ballI impI)
  let ?R = "{0..<int n} - X"
  note G = level_stepD(1)[OF S] and C = ch_graphD(6)[OF level_stepD(1)[OF S]]
  have R: "{0..<int n} - (X \<union> I) = ?R - I" by blast
  have XV: "X \<subseteq> {0..<int n}" "I \<subseteq> ?R" using contractionD(1)[OF C] level_stepD(2)[OF S] by blast+
  show "Edges_wf n es'" "Edges_growable es'" by (fact level_stepD[OF S])+
  have sz: "Edges_sized es" using ch_graphD(1)[OF G] by (simp add: Edges_wf_def)
  show "original_adj es' = adj" using Edges_extends_adj[OF level_stepD(8)[OF S] sz] ch_graphD(3)[OF G] by simp
  show "rows_ok n ({0..<int n} - (X \<union> I)) g2" "balanced ({0..<int n} - (X \<union> I)) es' g2" unfolding R by (fact level_removedD[OF M])+
  show "contraction {0..<int n} adj (X \<union> I) (chup (X \<union> I) lvl' es' g2) (cur_adj es' g2)"
    by (rule contract_step[OF C level_contracts[OF S M] XV(2) level_stepD(3)[OF S] level_up[OF S M l]])
  show "ch_edge adj es' v e" if "v \<in> {0..<int n}" "e \<in> set (all_edges g2 v)" for v e by (rule level_all_edges[OF S M that])
  show "set (cur_edges g2 v) = {e \<in> set (all_edges g2 v). edge_dest es' e \<notin> X \<union> I}" if "v \<in> {0..<int n} - (X \<union> I)" for v
  proof -
    have v: "v \<in> ?R - I" "v \<in> ?R" "v \<in> {0..<int n}" using that by blast+
    have x: "edge_dest es' e = edge_dest es e" if "e \<in> set (all_edges g v)" for e
      using extends_edge(1)[OF level_stepD(8)[OF S] ch_graphD(8)[OF G v(3) that]] .
    have "e \<in> set (cur_edges g2 v) \<longleftrightarrow> e \<in> set (all_edges g2 v) \<and> edge_dest es' e \<notin> X \<union> I" for e
      unfolding level_cur[OF S M v(1)] level_removedD(3)[OF M] level_stepD(11)[OF S v(3)] ch_graphD(7)[OF G v(2)] using x[of e] level_new(6)[OF S, of e v] by auto
    then show ?thesis by blast
  qed
  have known: "u \<in> A' v \<and> v \<in> edge_dest es' ` set (cur_edges g2 u)"
    if u: "u \<in> {0..<int n} - (X \<union> I)" and v: "v \<in> {0..<int n} - (X \<union> I)" and a: "v \<in> A' u" for u v
  proof -
    have uR: "u \<in> ?R - I" "u \<in> ?R" "v \<in> ?R" "v \<notin> I" "u \<in> {0..<int n}" "v \<in> {0..<int n}" using u v by blast+
    show ?thesis
    proof (cases "v \<in> A u")
      case True
      note o = ch_graphD(9)[OF G uR(2,3) True]
      then obtain e where e: "e \<in> set (cur_edges g u)" "edge_dest es e = v" by blast
      then have "e \<in> set (cur_edges g2 u)" "edge_dest es' e = v" using level_cur[OF S M uR(1)] level_old(1)[OF S uR(2) e(1)] uR(4) by simp_all
      then show ?thesis using o A[OF uR(6)] by blast
    next
      case False
      then have h: "has_shortcut ss u v" using a A[OF uR(5)] by blast
      then have "v \<in> edge_dest es' ` set (new u)" using level_stepD(12)[OF S, unfolded new_edges_def, rule_format, of u] False by blast
      then show ?thesis using level_symmetric(1)[OF S h] A[OF uR(6)] level_cur[OF S M uR(1)] by blast
    qed
  qed
  show "u \<in> A' v" "v \<in> edge_dest es' ` set (cur_edges g2 u)"
    if "u \<in> {0..<int n} - (X \<union> I)" "v \<in> {0..<int n} - (X \<union> I)" "v \<in> A' u" for u v using known[OF that] by blast+
  fix v assume v: "v \<in> X \<union> I"
  then have vV: "v \<in> {0..<int n}" using XV by blast
  have "0 \<le> lvl v \<and> lvl v < L" if "v \<notin> I" using ch_graphD(10)[OF G, of v] v that by blast
  then show "0 \<le> lvl' v" "lvl' v < L + 1" using l[OF vV] L by auto
  show "lvl' (edge_dest es' e) \<noteq> lvl' v" if "e \<in> set (all_edges g2 v)" "edge_dest es' e \<in> X \<union> I" for e
    by (rule level_levels[OF S M l v that])
qed

section \<open>The program from level to level\<close>

definition ch_inv :: "nat \<Rightarrow> adjacency \<Rightarrow> int \<Rightarrow> int set \<Rightarrow> LabelCreator \<times> Nodes \<times> Edges \<times> DynamicGrid \<Rightarrow> bool" where
  "ch_inv n adj L X = (\<lambda>(lc, ns, es, g). length (lc_contracted lc) = n \<and> length (lc_isNeighbour lc) = n \<and> al_inv (lc_nodesToCalc lc) \<and>
     (\<forall>v < n. lc_contracted lc ! v \<longleftrightarrow> int v \<in> X) \<and> lc_nodeCount lc = int n \<and> lc_nonContractedNum lc = int n - int (card X) \<and>
     length (lc_calcOrder lc) = n \<and> set (lc_calcOrder lc) = {0..<int n} \<and> already_ok n lc \<and>
     (\<exists>lv. no_levels ns = Some lv \<and> length lv = n) \<and> 0 \<le> L \<and> L \<le> int (card X) \<and> ch_graph n adj L X (node_lvl ns) (already lc) es g)"

lemma shortcut_ok_valid:
  assumes G: "ch_graph n adj L X lvl A es g" and m: "m \<in> {0..<int n} - X" "shortcut_ok es g m s" and a: "fst s \<in> {0..<int n} - X"
  shows "shortcut_valid n ({0..<int n} - X) es s"
proof -
  obtain a b d e2 e1 where s: "s = (a, b, d, e2, e1)" by (cases s) auto
  have aR: "a \<in> {0..<int n} - X" using a s by simp
  have e: "e1 \<in> set (cur_edges g a)" "edge_dest es e1 = m" "e2 \<in> set (cur_edges g m)" "edge_dest es e2 = b" "d = edge_dist es e1 + edge_dist es e2"
    using m(2) s by auto
  have "ch_edge adj es a e1" "ch_edge adj es m e2" "b \<in> {0..<int n} - X"
    using ch_graph_cur(1)[OF G aR e(1)] ch_graph_cur(1,3)[OF G m(1) e(3)] e(4) by simp_all
  then show ?thesis using aR e s by (auto simp: ch_edge_def)
qed

lemma adding_start:
  assumes "ch_graph n adj L X lvl A es g" "already_ok n lc"
  shows "adding n ({0..<int n} - X) lc es g [] (\<lambda>_. []) (lc, es, g)"
  using assms ch_graphD(1,2,4)[OF assms(1)] by (auto simp: adding_def new_edges_def has_shortcut_def intro: exI[of _ "lc_alreadyShortcut lc"])

lemma level_update:
  assumes "length lv = n" "\<And>v. v < n \<Longrightarrow> lv ! v = (if int v \<in> I then L else the (no_levels ns) ! v)" "v \<in> {0..<int n}"
  shows "node_lvl (ns\<lparr>no_levels := Some lv\<rparr>) v = (if v \<in> I then L else node_lvl ns v)"
  using assms(2)[of "nat v"] assms(3) by (simp add: node_lvl_def nat_less_iff)

lemma LabelCreator_calcNextLvl_ok:
  assumes inv: "ch_inv n adj L X (lc, ns, es, g)" and D: "distances_below n adj D" and n: "int n \<le> MAX_VALUE" and X: "X \<noteq> {0..<int n}"
  shows "\<exists>lc' ns' es' g' I. LabelCreator_calcNextLvl L (lc, ns, es, g) = Some (lc', ns', es', g') \<and> I \<noteq> {} \<and> I \<subseteq> {0..<int n} - X \<and>
    ch_inv n adj (L + 1) (X \<union> I) (lc', ns', es', g') \<and> no_latitude ns' = no_latitude ns \<and> no_longitude ns' = no_longitude ns"
proof -
  let ?R = "{0..<int n} - X"
  note J = inv[unfolded ch_inv_def prod.case]
  have lc: "length (lc_contracted lc) = n" "length (lc_isNeighbour lc) = n" "al_inv (lc_nodesToCalc lc)"
    "\<And>v. v < n \<Longrightarrow> lc_contracted lc ! v \<longleftrightarrow> int v \<in> X" "lc_nodeCount lc = int n" "lc_nonContractedNum lc = int n - int (card X)"
    and ord: "length (lc_calcOrder lc) = n" "set (lc_calcOrder lc) = {0..<int n}" and al: "already_ok n lc" and L: "0 \<le> L" "L \<le> int (card X)"
    and G: "ch_graph n adj L X (node_lvl ns) (already lc) es g" using J by blast+
  obtain lv where lv: "no_levels ns = Some lv" "length lv = n" using J by blast
  note cg = ch_graph_cur_graph[OF G D n]
  have XV: "X \<subseteq> {0..<int n}" using contractionD(1)[OF ch_graphD(6)[OF G]] .
  obtain st sel where st: "for_range 0 (int n) (LabelCreator_select es g L)
      (lc\<lparr>lc_nodesToCalc := IntArrayList_clear (lc_nodesToCalc lc), lc_isNeighbour := fillAll (lc_isNeighbour lc) False\<rparr>, ns) = Some st"
    "selecting n X es g L lc ns sel st" "sel \<noteq> []"
    using LabelCreator_selection_ok[OF cg lc(1-4) lv lc(5) ord, of L] X XV by blast
  from st(2) obtain c b l lv' where st': "st = (lc\<lparr>lc_contracted := c, lc_isNeighbour := b, lc_nodesToCalc := l,
       lc_nonContractedNum := lc_nonContractedNum lc - int (length sel)\<rparr>, ns\<lparr>no_levels := Some lv'\<rparr>)"
    and Q: "length c = n" "length b = n" "length lv' = n" "al_inv l" "al_contents l = sel" "distinct sel" "set sel \<subseteq> ?R" "independent (set sel) (cur_adj es g)"
    "\<And>v. v < n \<Longrightarrow> c ! v \<longleftrightarrow> int v \<in> X \<union> set sel" "\<And>v. v < n \<Longrightarrow> lv' ! v = (if int v \<in> set sel then L else the (no_levels ns) ! v)"
    unfolding selecting_def by blast
  define lc1 where "lc1 = lc\<lparr>lc_contracted := c, lc_isNeighbour := b, lc_nodesToCalc := l, lc_nonContractedNum := lc_nonContractedNum lc - int (length sel)\<rparr>"
  define ns1 where "ns1 = ns\<lparr>no_levels := Some lv'\<rparr>"
  have st1: "st = (lc1, ns1)" using st' by (simp add: lc1_def ns1_def)
  have al1: "already_ok n lc1" "already lc1 = already lc" using al by (auto simp: already_ok_def already_def lc1_def fun_eq_iff)
  obtain t0 where t0: "LabelCreator_newThreads = Some t0" "idle_threads t0 {}" using LabelCreator_newThreads_ok by blast
  obtain t1 where t1: "LabelCreator_distribute l t0 = Some t1" "idle_threads t1 (set sel)" using LabelCreator_distribute_ok[OF Q(4) t0(2)] Q(5) by auto
  have U: "(\<Union>t \<in> set t1. set (al_contents (cd_nodeIdsToCalc t))) = set sel" "\<forall>t \<in> set t1. cd_idle t \<and> set (al_contents (cd_nodeIdsToCalc t)) \<subseteq> ?R"
    using t1(2) Q(7) unfolding idle_threads_def by blast+
  obtain t2 sss where t2: "LabelCreator_runCH es g t1 = Some t2" "thread_shortcuts t2 sss"
    "\<forall>s \<in> set (concat sss). fst s \<in> ?R \<and> (\<exists>m \<in> set sel. shortcut_ok es g m s)"
    "\<forall>m \<in> set sel. \<forall>a \<in> ?R. \<forall>b. needs_shortcut es g m a b \<longrightarrow> has_shortcut (concat sss) a b"
    using LabelCreator_runCH_ok[OF cg U(2)] unfolding U(1) by blast
  have valid: "\<forall>s \<in> set (concat sss). shortcut_valid n ?R es s" using t2(3) Q(7) shortcut_ok_valid[OF G] by blast
  obtain st3 new where st3: "for_list t2 LabelCreator_addShortcuts (lc1, es, g) = Some st3" "adding n ?R lc1 es g (concat sss) new st3"
    using LabelCreator_addAll_ok[OF n t2(2) valid adding_start[OF G al1(1)]] by auto
  obtain lc3 es3 g3 where e3: "st3 = (lc3, es3, g3)" by (cases st3)
  note N = st3(2)[unfolded e3 adding_def prod.case]
  have S: "level_step n adj L X (node_lvl ns) (already lc) es g (set sel) (concat sss) new es3 g3"
    unfolding level_step_def using G Q(7,8) t2(3,4) N unfolding al1(2) by blast
  obtain a3 where l3: "lc3 = lc1\<lparr>lc_alreadyShortcut := a3\<rparr>" using N by blast
  have tc: "lc_nodesToCalc lc3 = l" by (simp add: l3 lc1_def)
  obtain g4 where g4: "LabelCreator_removeNodes es3 l g3 = Some g4" "level_removed n ?R (set sel) es3 g3 g4"
    using LabelCreator_removeNodes_ok[OF Q(4) level_stepD(9)[OF S] level_balanced[OF S]] Q(5-7) unfolding level_removed_def by auto
  have lvl: "node_lvl ns1 v = (if v \<in> set sel then L else node_lvl ns v)" if "v \<in> {0..<int n}" for v
    unfolding ns1_def by (rule level_update[OF Q(3,10) that])
  have al3: "already lc3 v = already lc v \<union> {b. has_shortcut (concat sss) v b}" if "v \<in> {0..<int n}" for v using N that unfolding al1(2) by auto
  have G4: "ch_graph n adj (L + 1) (X \<union> set sel) (node_lvl ns1) (already lc3) es3 g4" by (rule level_graph[OF S g4(2) lvl L(1) al3])
  have run: "LabelCreator_calcNextLvl L (lc, ns, es, g) = Some (lc3, ns1, es3, g4)"
    unfolding LabelCreator_calcNextLvl_def prod.case Let_def t0(1)
    using lc(5) st(1) t1(1) t2(1) st3(1) g4(1) tc unfolding st1 e3 by (simp add: lc1_def)
  have "0 < length sel" using st(3) by simp
  moreover have cX: "card (X \<union> set sel) = card X + length sel"
    using card_Un_disjoint[of X "set sel"] Q(7) finite_subset[OF XV] distinct_card[OF Q(6)] by auto
  ultimately have L4: "0 \<le> L + 1" "L + 1 \<le> int (card (X \<union> set sel))" using L by linarith+
  have al4: "already_ok n lc3" using N by blast
  have f: "lc_contracted lc3 = c" "lc_isNeighbour lc3 = b" "lc_nodeCount lc3 = int n" "lc_calcOrder lc3 = lc_calcOrder lc"
    "lc_nonContractedNum lc3 = int n - int (card (X \<union> set sel))" "no_levels ns1 = Some lv'"
    unfolding l3 lc1_def ns1_def cX using lc(5,6) by simp_all
  have "ch_inv n adj (L + 1) (X \<union> set sel) (lc3, ns1, es3, g4)" unfolding ch_inv_def prod.case f tc
    using Q(1-4,9) ord L4 al4 G4 by blast
  then show ?thesis using run st(3) Q(7)
    by (intro exI[of _ lc3] exI[of _ ns1] exI[of _ es3] exI[of _ g4] exI[of _ "set sel"]) (simp add: ns1_def)
qed

text \<open>Every level contracts a node, so there are at most as many levels as nodes.\<close>

lemma LabelCreator_levels_ok:
  assumes D: "distances_below n adj D" and n: "int n \<le> MAX_VALUE"
  shows "ch_inv n adj L X (lc, ns, es, g) \<Longrightarrow> \<exists>lc' ns' es' g' L'. LabelCreator_levels L (lc, ns, es, g) = Some (lc', ns', es', g') \<and>
    ch_inv n adj L' {0..<int n} (lc', ns', es', g') \<and> no_latitude ns' = no_latitude ns \<and> no_longitude ns' = no_longitude ns"
proof (induction "n - card X" arbitrary: L X lc ns es g rule: less_induct)
  case less
  note J = less.prems[unfolded ch_inv_def prod.case]
  have XV: "X \<subseteq> {0..<int n}" using J contractionD(1)[OF ch_graphD(6), of n adj L X] by blast
  have num: "lc_nonContractedNum lc = int n - int (card X)" using J by blast
  show ?case
  proof (cases "X = {0..<int n}")
    case True
    then have "LabelCreator_levels L (lc, ns, es, g) = Some (lc, ns, es, g)" using num by (simp add: LabelCreator_levels.simps)
    then show ?thesis using less.prems True by blast
  next
    case False
    then have "card X < n" using psubset_card_mono[of "{0..<int n}" X] XV by auto
    obtain lc1 ns1 es1 g1 I where 1: "LabelCreator_calcNextLvl L (lc, ns, es, g) = Some (lc1, ns1, es1, g1)" "I \<noteq> {}" "I \<subseteq> {0..<int n} - X"
      "ch_inv n adj (L + 1) (X \<union> I) (lc1, ns1, es1, g1)" "no_latitude ns1 = no_latitude ns" "no_longitude ns1 = no_longitude ns"
      using LabelCreator_calcNextLvl_ok[OF less.prems D n False] by blast
    have fin: "finite X" "finite I" using finite_subset[OF XV] finite_subset[OF 1(3)] by auto
    have "card (X \<union> I) = card X + card I" using card_Un_disjoint[OF fin] 1(3) by blast
    moreover have "0 < card I" using 1(2) fin(2) by (simp add: card_gt_0_iff)
    ultimately have "n - card (X \<union> I) < n - card X" using \<open>card X < n\<close> by simp
    from less.hyps[OF this 1(4)] show ?thesis using 1(1,5,6) \<open>card X < n\<close> num by (simp add: LabelCreator_levels.simps[of L])
  qed
qed

section \<open>The end of the contraction\<close>

lemma sorted_wrt_total: "(\<And>x y. x \<in> set xs \<Longrightarrow> y \<in> set xs \<Longrightarrow> P x y) \<Longrightarrow> sorted_wrt P xs"
  by (induction xs) auto

lemma up_adj_iff:
  "(x, w) \<in> set (up_adj ns es g v) \<longleftrightarrow> (\<exists>e \<in> set (all_edges g v). node_lvl ns v \<le> node_lvl ns (edge_dest es e) \<and> x = edge_dest es e \<and> w = edge_dist es e)"
  by (auto simp: up_adj_def up_edges_def)

text \<open>Along upward edges the levels increase, which bounds the length of upward walks.\<close>

lemma contracted_up_walk:
  assumes G: "ch_graph n adj L {0..<int n} (node_lvl ns) A es g" and D: "distances_below n adj D" and w: "up_walk (up_adj ns es g) v h d"
  shows "v \<in> {0..<int n} \<Longrightarrow> 0 \<le> d \<and> d \<le> (L - node_lvl ns v) * D"
  using w
proof induction
  case (up_walk_refl v)
  then show ?case using ch_graphD(10)[OF G up_walk_refl] D by (simp add: distances_below_def)
next
  case (up_walk_step x w v h d)
  then obtain e where e: "e \<in> set (all_edges g v)" "node_lvl ns v \<le> node_lvl ns x" "x = edge_dest es e" "w = edge_dist es e" unfolding up_adj_iff by blast
  note ce = ch_graphD(8)[OF G up_walk_step.prems e(1), unfolded ch_edge_def]
  have x: "x \<in> {0..<int n}" using ch_graphD(1)[OF G] ce e(3) by (auto simp: Edges_wf_def)
  then have lt: "node_lvl ns v < node_lvl ns x" using ch_graphD(11)[OF G up_walk_step.prems e(1)] e(2,3) by simp
  have wD: "0 \<le> w" "w \<le> D" using ce e(3,4) D up_walk_step.prems unfolding distances_below_def by auto
  have D0: "0 \<le> D" using D by (simp add: distances_below_def)
  have "w + d \<le> D + (L - node_lvl ns x) * D" using wD up_walk_step.IH[OF x] by simp
  also have "\<dots> = (L - node_lvl ns x + 1) * D" by (simp add: algebra_simps)
  also have "\<dots> \<le> (L - node_lvl ns v) * D" using lt D0 by (intro mult_right_mono) auto
  finally show ?case using wD up_walk_step.IH[OF x] by simp
qed

lemma ch_graph_hierarchy:
  assumes G: "ch_graph n adj L {0..<int n} (node_lvl ns) A es g" and D: "distances_below n adj D" "L * D \<le> 1073741823" and n: "int n \<le> MAX_VALUE"
    and lv: "no_levels ns = Some lv" "length lv = n"
  shows "hierarchy_ok n ns es g"
  unfolding hierarchy_ok_def
proof (intro conjI allI impI ballI)
  show "int n \<le> MAX_VALUE" "\<exists>lv. no_levels ns = Some lv \<and> length lv = n" using n lv by blast+
  have "rows_ok n {} g" using ch_graphD(4)[OF G] by simp
  then show "\<exists>rows counts. dg_allEdgeIds g = Some rows \<and> dg_allEdgeCount g = Some counts \<and> length rows = n \<and> length counts = n \<and>
      (\<forall>v < n. 0 \<le> counts ! v \<and> counts ! v \<le> int (length (rows ! v)))" unfolding rows_ok_def by blast
  have sz: "Edges_sized es" using ch_graphD(1)[OF G] by (simp add: Edges_wf_def)
  fix v assume v: "0 \<le> v \<and> v < int n"
  then have vV: "v \<in> {0..<int n}" by simp
  {
    fix e assume e: "e \<in> set (all_edges g v)"
    note ce = ch_graphD(8)[OF G vV e, unfolded ch_edge_def]
    show "Edges_getDest es e = Some (edge_dest es e)" "Edges_getDist es e = Some (edge_dist es e)" "0 \<le> edge_dist es e"
      using ce Edges_sized_get[OF sz] by auto
    show d: "0 \<le> edge_dest es e" "edge_dest es e < int n" using ch_graphD(1)[OF G] ce by (auto simp: Edges_wf_def)
    show "node_lvl ns (edge_dest es e) \<noteq> node_lvl ns v" using ch_graphD(11)[OF G vV e] d by simp
  }
  have "least adj v (edge_dest es e) (edge_dist es e)" if "e \<in> set (up_edges ns es g v)" for e
    using ch_graphD(8)[OF G vV, of e] that by (auto simp: ch_edge_def up_edges_def)
  then show "sorted_wrt (\<lambda>e e'. edge_dest es e = edge_dest es e' \<longrightarrow> edge_dist es e \<le> edge_dist es e') (up_edges ns es g v)"
    by (intro sorted_wrt_total) (metis least_unique order_refl)
next
  fix v h d assume v: "0 \<le> v \<and> v < int n \<and> up_walk (up_adj ns es g) v h d"
  then have vV: "v \<in> {0..<int n}" by simp
  have "(L - node_lvl ns v) * D \<le> L * D" using ch_graphD(10)[OF G vV] D(1) by (intro mult_right_mono) (auto simp: distances_below_def)
  then show "small d" using contracted_up_walk[OF G D(1) _ vV] v D(2) by (force simp: small_def)
qed

lemma ch_inv_contracted:
  assumes inv: "ch_inv n adj L {0..<int n} (lc, ns, es, g)" and D: "distances_below n adj D" "int n * D \<le> 1073741823" and n: "int n \<le> MAX_VALUE"
    and sym: "\<And>u v d. (v, d) \<in> set (adj u) \<Longrightarrow> (u, d) \<in> set (adj v)"
    and loc: "no_latitude ns = Some la" "no_longitude ns = Some lo" "length la = n" "length lo = n"
  shows "contracted n ns es g"
proof -
  note J = inv[unfolded ch_inv_def prod.case]
  have G: "ch_graph n adj L {0..<int n} (node_lvl ns) (already lc) es g" and L: "L \<le> int n" using J by auto
  obtain lv where lv: "no_levels ns = Some lv" "length lv = n" using J by blast
  have "L * D \<le> int n * D" using L D(1) by (intro mult_right_mono) (auto simp: distances_below_def)
  then have H: "hierarchy_ok n ns es g" using ch_graph_hierarchy[OF G D(1) _ n lv] D(2) by simp
  have ge: "grid_edges_ok n es g" unfolding grid_edges_ok_def using ch_graphD(8)[OF G] by (simp add: ch_edge_def)
  have up: "up_walk (up_adj ns es g) v h d" if "up_walk (chup {0..<int n} (node_lvl ns) es g) v h d" for v h d
  proof (rule up_walk_cong[OF that, of UNIV])
    fix v x w assume e: "(x, w) \<in> set (chup {0..<int n} (node_lvl ns) es g v)"
    then have v: "v \<in> {0..<int n}" unfolding chup_def by (auto split: if_splits)
    from e obtain e where e: "e \<in> set (all_edges g v)" "edge_dest es e \<notin> {0..<int n} \<or> node_lvl ns v < node_lvl ns (edge_dest es e)"
      "x = edge_dest es e" "w = edge_dist es e" unfolding chup_def using v by auto
    have "edge_dest es e \<in> {0..<int n}" using ch_graphD(1)[OF G] ch_graphD(8)[OF G v e(1)] by (auto simp: Edges_wf_def ch_edge_def)
    then have "node_lvl ns v \<le> node_lvl ns (edge_dest es e)" using e(2) by auto
    then show "x \<in> UNIV \<and> (x, w) \<in> set (up_adj ns es g v)" unfolding up_adj_iff using e(1,3,4) by blast
  qed simp
  have "up_cover n (up_adj ns es g) (original_adj es)" unfolding up_cover_def
  proof (intro allI impI)
    fix s p c assume s: "0 \<le> s \<and> s < int n \<and> walk (original_adj es) s p c"
    then have "way adj s (last p) c" using walk_way[of adj s p c] ch_graphD(3)[OF G] by simp
    from contraction_complete[OF ch_graphD(6)[OF G] _ this] s up
    show "\<exists>h a b. up_walk (up_adj ns es g) s h a \<and> up_walk (up_adj ns es g) (last p) h b \<and> a + b \<le> c" by (metis atLeastLessThan_iff)
  qed
  then show ?thesis unfolding contracted_def using H ge ch_graphD(1,3)[OF G] ch_graphD(10)[OF G] loc sym by simp
qed

section \<open>The start of the contraction\<close>

text \<open>
  What the contraction asks of a graph: no loops and no parallel edges, positive lengths, each edge in
  both directions and a shortest way between its ends.
\<close>

definition metric_graph :: "int set \<Rightarrow> adjacency \<Rightarrow> bool" where
  "metric_graph V adj \<longleftrightarrow> (\<forall>u \<in> V. distinct (map fst (adj u)) \<and>
     (\<forall>v w. (v, w) \<in> set (adj u) \<longrightarrow> v \<in> V \<and> v \<noteq> u \<and> 0 < w \<and> (u, w) \<in> set (adj v) \<and> least adj u v w))"

lemma metric_graphD:
  assumes "metric_graph V adj" "u \<in> V"
  shows "distinct (map fst (adj u))" "(v, w) \<in> set (adj u) \<Longrightarrow> v \<in> V \<and> v \<noteq> u \<and> 0 < w \<and> (u, w) \<in> set (adj v) \<and> least adj u v w"
  using assms unfolding metric_graph_def by blast+

text \<open>The data after the import of a grid file.\<close>

definition imported :: "nat \<Rightarrow> Nodes \<Rightarrow> Edges \<Rightarrow> DynamicGrid \<Rightarrow> bool" where
  "imported n ns es g \<longleftrightarrow> Edges_wf n es \<and> Edges_growable es \<and> eg_nextShortcutId es = eg_numOfOriginalEdges es \<and> rows_ok n {0..<int n} g \<and>
     (\<forall>v \<in> {0..<int n}. all_edges g v = map int (filter (\<lambda>e. edge_start es (int e) = v) [0..<nat (eg_numOfOriginalEdges es)]) \<and>
        cur_edges g v = all_edges g v) \<and>
     (\<exists>la lo lv. no_latitude ns = Some la \<and> no_longitude ns = Some lo \<and> no_levels ns = Some lv \<and> length la = n \<and> length lo = n \<and> length lv = n)"

lemma importedD:
  assumes "imported n ns es g"
  shows "Edges_wf n es" "Edges_growable es" "eg_nextShortcutId es = eg_numOfOriginalEdges es" "rows_ok n {0..<int n} g"
    "v \<in> {0..<int n} \<Longrightarrow> all_edges g v = map int (filter (\<lambda>e. edge_start es (int e) = v) [0..<nat (eg_numOfOriginalEdges es)])"
    "v \<in> {0..<int n} \<Longrightarrow> cur_edges g v = all_edges g v"
    "\<exists>la lo lv. no_latitude ns = Some la \<and> no_longitude ns = Some lo \<and> no_levels ns = Some lv \<and> length la = n \<and> length lo = n \<and> length lv = n"
  using assms unfolding imported_def by blast+

lemma imported_adj:
  assumes "imported n ns es g"
  shows "v \<in> {0..<int n} \<Longrightarrow> cur_adj es g v = original_adj es v" "v \<notin> {0..<int n} \<Longrightarrow> original_adj es v = []"
proof -
  show "cur_adj es g v = original_adj es v" if "v \<in> {0..<int n}"
    unfolding cur_adj_def importedD(6,5)[OF assms that] original_adj_def by simp
  have "edge_start es e \<in> {0..<int n}" if "0 \<le> e" "e < eg_numOfOriginalEdges es" for e
    using importedD(1,3)[OF assms] that by (simp add: Edges_wf_def)
  then show "original_adj es v = []" if "v \<notin> {0..<int n}" using that by (auto simp: original_adj_def filter_empty_conv)
qed

lemma metric_symmetric:
  assumes I: "imported n ns es g" and M: "metric_graph {0..<int n} (original_adj es)" and e: "(v, d) \<in> set (original_adj es u)"
  shows "(u, d) \<in> set (original_adj es v)"
proof -
  have "u \<in> {0..<int n}" using imported_adj(2)[OF I, of u] e by (cases "u \<in> {0..<int n}") auto
  then show ?thesis using metric_graphD(2)[OF M _ e] by blast
qed

lemma imported_balanced:
  assumes I: "imported n ns es g" and M: "metric_graph {0..<int n} (original_adj es)"
  shows "balanced {0..<int n} es g"
  unfolding balanced_def
proof (intro conjI ballI)
  let ?V = "{0..<int n}" let ?adj = "original_adj es"
  have dests: "map (edge_dest es) (cur_edges g u) = map fst (?adj u)" if "u \<in> ?V" for u
    unfolding imported_adj(1)[OF I that, symmetric] cur_adj_def by simp
  have sz: "Edges_sized es" using importedD(1)[OF I] by (simp add: Edges_wf_def)
  fix u assume u: "u \<in> ?V"
  {
    fix e assume e: "e \<in> set (cur_edges g u)"
    then have "(edge_dest es e, edge_dist es e) \<in> set (?adj u)" unfolding imported_adj(1)[OF I u, symmetric] cur_adj_def by auto
    then show "edge_dest es e \<in> ?V - {u}" using metric_graphD(2)[OF M u] by blast
    show "Edges_getDest es e = Some (edge_dest es e)" using e Edges_sized_get(1)[OF sz, of e] importedD(3)[OF I]
      unfolding importedD(6,5)[OF I u] by auto
  }
  fix v assume v: "v \<in> ?V"
  have "v \<in> fst ` set (?adj u) \<longleftrightarrow> u \<in> fst ` set (?adj v)" using metric_symmetric[OF I M] by force
  then show "count (mset (map (edge_dest es) (cur_edges g u))) v = count (mset (map (edge_dest es) (cur_edges g v))) u"
    unfolding dests[OF u] dests[OF v] count_distinct[OF metric_graphD(1)[OF M u]] count_distinct[OF metric_graphD(1)[OF M v]] by simp
qed

lemma ch_graph_initial:
  assumes I: "imported n ns es g" and M: "metric_graph {0..<int n} (original_adj es)"
  shows "ch_graph n (original_adj es) 0 {} lvl (\<lambda>_. {}) es g"
  unfolding ch_graph_def
proof (intro conjI ballI impI)
  let ?V = "{0..<int n}" let ?adj = "original_adj es"
  show "Edges_wf n es" "Edges_growable es" by (fact importedD[OF I])+
  show "rows_ok n (?V - {}) g" "balanced (?V - {}) es g" using importedD(4)[OF I] imported_balanced[OF I M] by simp_all
  show "contraction ?V ?adj {} (chup {} lvl es g) (cur_adj es g)"
    by (rule contraction_initial) (use metric_graphD(2)[OF M] imported_adj(1)[OF I] in blast)+
  show "set (cur_edges g v) = {e \<in> set (all_edges g v). edge_dest es e \<notin> {}}" if "v \<in> ?V - {}" for v using importedD(6)[OF I] that by simp
  fix v e assume v: "v \<in> ?V" and e: "e \<in> set (all_edges g v)"
  then have "(edge_dest es e, edge_dist es e) \<in> set (?adj v)"
    unfolding imported_adj(1)[OF I v, symmetric] cur_adj_def importedD(6)[OF I v] by auto
  from metric_graphD(2)[OF M v this] e show "ch_edge ?adj es v e" unfolding ch_edge_def importedD(5)[OF I v] importedD(3)[OF I] by auto
qed simp_all

section \<open>The order of the nodes\<close>

lemma mset_exchange: "i < length xs \<Longrightarrow> j < length xs \<Longrightarrow> mset (xs[j := xs ! i, i := xs ! j]) = mset xs"
  by (cases "i = j") (simp_all add: mset_swap)

lemma LabelCreator_shuffle_ok:
  assumes n: "2 \<le> n" and rnd: "\<And>b i. 0 < b \<Longrightarrow> 0 \<le> rnd b i \<and> rnd b i < b"
  shows "\<exists>xs. LabelCreator_shuffle rnd (int n) [0..int n - 1] = Some xs \<and> mset xs = mset [0..int n - 1]"
proof -
  let ?b = "int n - 1"
  let ?step = "\<lambda>i c. do { index \<leftarrow> (if ?b \<le> 0 then None else Some (rnd ?b i)); tmp \<leftarrow> aget c index; x \<leftarrow> aget c i; c \<leftarrow> aset c index x; aset c i tmp }"
  have "\<exists>xs. for_range 0 (int n) ?step [0..?b] = Some xs \<and> mset xs = mset [0..?b]"
  proof (rule for_range_rule[where I = "\<lambda>_ xs. mset xs = mset [0..?b]"])
    fix i xs assume i: "0 \<le> i" "i < int n" and xs: "mset xs = mset [0..?b]"
    have len: "length xs = n" using mset_eq_length[OF xs] by simp
    let ?j = "rnd ?b i"
    have j: "0 \<le> ?j" "?j < int n" using rnd[of ?b i] n by auto
    have "?step i xs = Some (xs[nat ?j := xs ! nat i, nat i := xs ! nat ?j])" using i j len n by (simp add: aget_def aset_def)
    moreover have "mset (xs[nat ?j := xs ! nat i, nat i := xs ! nat ?j]) = mset xs" by (rule mset_exchange) (use i j len in auto)
    ultimately show "\<exists>xs'. ?step i xs = Some xs' \<and> mset xs' = mset [0..?b]" using xs by auto
  qed simp_all
  then show ?thesis by (simp add: LabelCreator_shuffle_def)
qed

lemma ch_inv_initial:
  assumes I: "imported n ns es g" and M: "metric_graph {0..<int n} (original_adj es)" and s: "as_inv s" "as_contents s = []"
    and xs: "mset xs = mset [0..int n - 1]" and l: "al_inv l"
  shows "ch_inv n (original_adj es) 0 {} (\<lparr>lc_contracted = replicate n False, lc_isNeighbour = replicate n False, lc_alreadyShortcut = replicate n s,
    lc_calcOrder = xs, lc_nodesToCalc = l, lc_nonContractedNum = int n, lc_nodeCount = int n\<rparr>, ns, es, g)"
proof -
  define lc where "lc = \<lparr>lc_contracted = replicate n False, lc_isNeighbour = replicate n False, lc_alreadyShortcut = replicate n s,
    lc_calcOrder = xs, lc_nodesToCalc = l, lc_nonContractedNum = int n, lc_nodeCount = int n\<rparr>"
  have sx: "length xs = n" using mset_eq_length[OF xs] by simp
  have xsV: "set xs = {0..<int n}" using mset_eq_setD[OF xs] unfolding set_upto by (simp only: atLeastLessThanPlusOne_atLeastAtMost_int[symmetric]) simp
  have al: "already_ok n lc" using s(1) by (auto simp: already_ok_def lc_def)
  have ch: "ch_graph n (original_adj es) 0 {} (node_lvl ns) (already lc) es g"
    using ch_graph_initial[OF I M, of "node_lvl ns"] s(2) unfolding ch_graph_def by (auto simp: already_def lc_def)
  show ?thesis unfolding lc_def[symmetric] ch_inv_def prod.case using al ch importedD(7)[OF I] sx xsV l by (auto simp: lc_def)
qed

lemma LabelCreator_calculateCH_contracted:
  assumes I: "imported n ns es g" and M: "metric_graph {0..<int n} (original_adj es)" and n: "2 \<le> n" "int n \<le> MAX_VALUE"
    and D: "distances_below n (original_adj es) D" "int n * D \<le> 1073741823" and rnd: "\<And>b i. 0 < b \<Longrightarrow> 0 \<le> rnd b i \<and> rnd b i < b"
  shows "\<exists>ns' es' g'. LabelCreator_calculateCH rnd (ns, es, g) = Some (ns', es', g') \<and> contracted n ns' es' g' \<and>
    original_adj es' = original_adj es \<and> no_latitude ns' = no_latitude ns \<and> no_longitude ns' = no_longitude ns"
proof -
  obtain la lo lv where loc: "no_latitude ns = Some la" "no_longitude ns = Some lo" "no_levels ns = Some lv" "length la = n" "length lo = n" "length lv = n"
    using importedD(7)[OF I] by blast
  obtain s where s: "IntArraySet_new 1 20 = Some s" "as_inv s" "as_contents s = []" using IntArraySet_new_ok[of 1 20] by auto
  obtain xs where xs: "LabelCreator_shuffle rnd (int n) [0..int n - 1] = Some xs" "mset xs = mset [0..int n - 1]" using LabelCreator_shuffle_ok[of n rnd] n rnd by blast
  obtain l where l: "IntArrayList_new 50000 = Some l" "al_inv l" using IntArrayList_new_ok[of 50000] by auto
  define lc where "lc = \<lparr>lc_contracted = replicate n False, lc_isNeighbour = replicate n False, lc_alreadyShortcut = replicate n s,
    lc_calcOrder = xs, lc_nodesToCalc = l, lc_nonContractedNum = int n, lc_nodeCount = int n\<rparr>"
  have "ch_inv n (original_adj es) 0 {} (lc, ns, es, g)" unfolding lc_def by (rule ch_inv_initial[OF I M s(2,3) xs(2) l(2)])
  from LabelCreator_levels_ok[OF D(1) n(2) this] obtain lc' ns' es' g' L where
    r: "LabelCreator_levels 0 (lc, ns, es, g) = Some (lc', ns', es', g')" "ch_inv n (original_adj es) L {0..<int n} (lc', ns', es', g')"
      "no_latitude ns' = no_latitude ns" "no_longitude ns' = no_longitude ns" by blast
  have run: "LabelCreator_calculateCH rnd (ns, es, g) = Some (ns', es', g')"
    unfolding LabelCreator_calculateCH_def prod.case using loc s(1) xs(1) l(1) r(1) by (simp add: Nodes_getNodeCount_def newArray_def lc_def)
  have "contracted n ns' es' g'"
    by (rule ch_inv_contracted[OF r(2) D n(2) metric_symmetric[OF I M], of la lo]) (use r(3,4) loc in simp_all)
  moreover have "original_adj es' = original_adj es" using r(2) ch_graphD(3) unfolding ch_inv_def prod.case by blast
  ultimately show ?thesis using run r(3,4) by blast
qed

end
