(* ===== verification/LabelPipeline.thy ===== *)
theory LabelPipeline
  imports ContractionLevels
begin

text \<open>
  The label creation as a whole: \<open>DynamicGrid.importFmiFile\<close> gives a graph the contraction can start
  from, and \<open>LabelCreator.main\<close> turns a grid file into the file of the hub label router.
\<close>

section \<open>Importing the grid\<close>

definition positions :: "int list \<Rightarrow> nat \<Rightarrow> int \<Rightarrow> int list" where
  "positions S i v = map int (filter (\<lambda>e. S ! e = v) [0..<i])"

lemma positions_Suc: "positions S (Suc i) v = positions S i v @ (if S ! i = v then [int i] else [])"
  by (simp add: positions_def)

lemma positions_mono: "i \<le> j \<Longrightarrow> length (positions S i v) \<le> length (positions S j v)"
  by (induction j rule: dec_induct) (simp_all add: positions_Suc)

text \<open>A node has room for four edges.\<close>

lemma DynamicGrid_sortEdges_ok:
  assumes S: "\<And>x. x \<in> set S \<Longrightarrow> 0 \<le> x \<and> x < int n" and four: "\<And>v. length (positions S (length S) v) \<le> 4"
  shows "\<exists>rows counts. DynamicGrid_sortEdges (int n) (int (length S)) S = Some (rows, counts) \<and> length rows = n \<and> length counts = n \<and>
    (\<forall>v < n. length (rows ! v) = 4 \<and> counts ! v = int (length (positions S (length S) (int v))) \<and>
       take (length (positions S (length S) (int v))) (rows ! v) = positions S (length S) (int v))"
proof -
  let ?step = "\<lambda>i (sortedEdges, edgeCounts). do { start \<leftarrow> aget S i; row \<leftarrow> aget sortedEdges start; count \<leftarrow> aget edgeCounts start;
       row \<leftarrow> aset row count i; sortedEdges \<leftarrow> aset sortedEdges start row; edgeCounts \<leftarrow> aset edgeCounts start (count + 1); Some (sortedEdges, edgeCounts) }"
  define I where "I i st \<longleftrightarrow> (case st of (rows, counts) \<Rightarrow> length rows = n \<and> length counts = n \<and>
    (\<forall>v < n. length (rows ! v) = 4 \<and> counts ! v = int (length (positions S (nat i) (int v))) \<and>
       take (length (positions S (nat i) (int v))) (rows ! v) = positions S (nat i) (int v)))" for i :: int and st :: "int list list \<times> int list"
  have "\<exists>st. for_range 0 (int (length S)) ?step (replicate n (replicate 4 0), replicate n 0) = Some st \<and> I (int (length S)) st"
  proof (rule for_range_rule[where I = I])
    show "I 0 (replicate n (replicate 4 0), replicate n 0)" by (simp add: I_def positions_def)
    fix i st assume i: "0 \<le> i" "i < int (length S)" and "I i st"
    then obtain rows counts where st: "st = (rows, counts)" and len: "length rows = n" "length counts = n"
      and V: "\<And>v. v < n \<Longrightarrow> length (rows ! v) = 4 \<and> counts ! v = int (length (positions S (nat i) (int v))) \<and>
        take (length (positions S (nat i) (int v))) (rows ! v) = positions S (nat i) (int v)" by (cases st) (auto simp: I_def)
    have ni: "nat i < length S" "nat (i + 1) = Suc (nat i)" "int (nat i) = i" using i by auto
    let ?x = "S ! nat i"
    have x: "0 \<le> ?x" "?x < int n" "nat ?x < n" "int (nat ?x) = ?x" using S[OF nth_mem[OF ni(1)]] by auto
    let ?row = "rows ! nat ?x" let ?k = "length (positions S (nat i) ?x)"
    have Vx: "length ?row = 4" "counts ! nat ?x = int ?k" "take ?k ?row = positions S (nat i) ?x" using V[OF x(3)] x(4) by simp_all
    have "length (positions S (Suc (nat i)) ?x) \<le> 4" using positions_mono[of "Suc (nat i)" "length S" S ?x] ni(1) four[of ?x] by simp
    then have k: "?k < 4" by (simp add: positions_Suc)
    let ?rows = "rows[nat ?x := ?row[?k := i]]" let ?counts = "counts[nat ?x := int ?k + 1]"
    have run: "?step i st = Some (?rows, ?counts)" unfolding st using i x(1-3) len Vx k by (simp add: aget_def aset_def)
    have row: "take (Suc ?k) (?row[?k := i]) = positions S (nat i) ?x @ [i]"
      using Vx(1,3) k by (simp add: take_Suc_conv_app_nth)
    have new: "length (?rows ! v) = 4 \<and> ?counts ! v = int (length (positions S (Suc (nat i)) (int v))) \<and>
        take (length (positions S (Suc (nat i)) (int v))) (?rows ! v) = positions S (Suc (nat i)) (int v)" if v: "v < n" for v
    proof (cases "v = nat ?x")
      case True
      then have p: "positions S (Suc (nat i)) (int v) = positions S (nat i) ?x @ [i]" using x(4) ni(3) by (simp add: positions_Suc)
      have l: "length (positions S (nat i) ?x @ [i]) = Suc ?k" by simp
      show ?thesis unfolding p l using True len x(3) Vx(1) row by simp
    next
      case False
      then have p: "positions S (Suc (nat i)) (int v) = positions S (nat i) (int v)" using x(1) by (auto simp: positions_Suc)
      show ?thesis unfolding p using False V[OF v] by simp
    qed
    then have "I (i + 1) (?rows, ?counts)" unfolding I_def prod.case ni(2) using len by simp
    then show "\<exists>st'. ?step i st = Some st' \<and> I (i + 1) st'" using run by blast
  qed simp
  then show ?thesis by (auto simp: DynamicGrid_sortEdges_def newArray_def I_def)
qed

lemma DynamicGrid_sortEdges_full:
  assumes S: "\<And>x. x \<in> set S \<Longrightarrow> 0 \<le> x \<and> x < int n" and five: "4 < length (positions S (length S) v)"
  shows "DynamicGrid_sortEdges (int n) (int (length S)) S = None"
proof (rule ccontr)
  let ?step = "\<lambda>i (sortedEdges, edgeCounts). do { start \<leftarrow> aget S i; row \<leftarrow> aget sortedEdges start; count \<leftarrow> aget edgeCounts start;
       row \<leftarrow> aset row count i; sortedEdges \<leftarrow> aset sortedEdges start row; edgeCounts \<leftarrow> aset edgeCounts start (count + 1); Some (sortedEdges, edgeCounts) }"
  assume "DynamicGrid_sortEdges (int n) (int (length S)) S \<noteq> None"
  then obtain st where st: "for_range 0 (int (length S)) ?step (replicate n (replicate 4 0), replicate n 0) = Some st"
    by (auto simp: DynamicGrid_sortEdges_def newArray_def)
  define I where "I i st \<longleftrightarrow> (case st of (rows, counts) \<Rightarrow> length rows = n \<and> length counts = n \<and>
    (\<forall>v < n. length (rows ! v) = 4 \<and> counts ! v = int (length (positions S (nat i) (int v))) \<and> counts ! v \<le> 4))" for i :: int and st :: "int list list \<times> int list"
  have I: "I (int (length S)) st"
  proof (rule for_range_inv[OF st])
    show "I 0 (replicate n (replicate 4 0), replicate n 0)" by (simp add: I_def positions_def)
    fix i and st st' :: "int list list \<times> int list" assume i: "0 \<le> i" "i < int (length S)" and J: "I i st" and run: "?step i st = Some st'"
    obtain rows counts where s: "st = (rows, counts)" by (cases st)
    have V: "length rows = n" "length counts = n" "\<And>v. v < n \<Longrightarrow> length (rows ! v) = 4 \<and> counts ! v = int (length (positions S (nat i) (int v))) \<and> counts ! v \<le> 4"
      using J unfolding I_def s prod.case by blast+
    have ni: "nat i < length S" "nat (i + 1) = Suc (nat i)" using i by auto
    let ?x = "S ! nat i"
    have x: "0 \<le> ?x" "?x < int n" "nat ?x < n" "int (nat ?x) = ?x" using S[OF nth_mem[OF ni(1)]] by auto
    let ?c = "counts ! nat ?x"
    have rd: "aget S i = Some ?x" "aget rows ?x = Some (rows ! nat ?x)" "aget counts ?x = Some ?c" using i x(1-3) V(1,2) by (simp_all add: aget_def)
    obtain row where row: "aset (rows ! nat ?x) ?c i = Some row" "st' = (rows[nat ?x := row], counts[nat ?x := ?c + 1])"
      using run x(1-3) V(1,2) unfolding s by (auto simp: rd bind_eq_Some_conv aset_def[of rows] aset_def[of counts])
    have c4: "?c < 4" "length row = 4" using row(1) V(3)[OF x(3)] by (auto simp: aset_def split: if_splits)
    have "length (rows[nat ?x := row] ! u) = 4 \<and> counts[nat ?x := ?c + 1] ! u = int (length (positions S (Suc (nat i)) (int u))) \<and> counts[nat ?x := ?c + 1] ! u \<le> 4"
      if u: "u < n" for u
      using V(3)[OF u] V(1,2) x c4 u by (cases "u = nat ?x") (auto simp: positions_Suc)
    then show "I (i + 1) st'" unfolding I_def row(2) prod.case ni(2) length_list_update using V(1,2) by blast
  qed simp
  have "positions S (length S) v \<noteq> []" using five by auto
  then have "v \<in> set S" by (auto simp: positions_def filter_empty_conv)
  then have "nat v < n" "int (nat v) = v" using S[of v] by auto
  then show False using I five by (auto simp: I_def split: prod.splits)
qed

definition edges_of :: "TmpEdge list \<Rightarrow> Edges \<Rightarrow> Edges" where
  "edges_of E es = es\<lparr>eg_originalEdgeStart := map te_startNode E, eg_originalEdgeDest := map te_destNode E, eg_originalEdgeDist := map te_dist E,
     eg_numOfOriginalEdges := int (length E), eg_nextShortcutId := int (length E), eg_shortcutEdgeSizeIncrease := int (length E) div 2,
     eg_shortcutEdgeStart := replicate (length E div 2) 0, eg_shortcutEdgeDest := replicate (length E div 2) 0,
     eg_shortcutEdgeDist := replicate (length E div 2) 0, eg_shortcutEdgeParts := replicate (length E div 2 * 2) 0\<rparr>"

lemma edges_of_sel [simp]:
  "eg_numOfOriginalEdges (edges_of E es) = int (length E)" "eg_nextShortcutId (edges_of E es) = int (length E)"
  by (simp_all add: edges_of_def)

lemma edges_of_at:
  assumes "e < length E"
  shows "edge_start (edges_of E es) (int e) = te_startNode (E ! e)" "edge_dest (edges_of E es) (int e) = te_destNode (E ! e)"
    "edge_dist (edges_of E es) (int e) = te_dist (E ! e)"
  using assms by (simp_all add: edges_of_def edge_start_def edge_dest_def edge_dist_def Edges_getDest_def Edges_getDist_def aget_def)

lemma edges_of_adj: "original_adj (edges_of E es) u = map (\<lambda>e. (te_destNode e, te_dist e)) (filter (\<lambda>e. te_startNode e = u) E)"
proof -
  let ?es = "edges_of E es"
  have "filter (\<lambda>e. edge_start ?es (int e) = u) [0..<length E] = filter (\<lambda>e. te_startNode (E ! e) = u) [0..<length E]"
    by (rule filter_cong) (simp_all add: edges_of_at)
  then have "original_adj ?es u = map (\<lambda>e. (te_destNode (E ! e), te_dist (E ! e))) (filter (\<lambda>e. te_startNode (E ! e) = u) [0..<length E])"
    unfolding original_adj_def by (auto simp: edges_of_at intro!: map_cong)
  also have "\<dots> = map (\<lambda>e. (te_destNode e, te_dist e)) (filter (\<lambda>e. te_startNode e = u) (map (\<lambda>e. E ! e) [0..<length E]))"
    by (simp add: filter_map comp_def)
  finally show ?thesis by (simp add: map_nth)
qed

lemma edges_of_wf:
  assumes "edges_inside n E"
  shows "Edges_wf n (edges_of E es)" "Edges_growable (edges_of E es)"
proof -
  let ?es = "edges_of E es"
  have sz: "Edges_sized ?es" by (simp add: Edges_sized_def edges_of_def)
  have "0 \<le> edge_start ?es e \<and> edge_start ?es e < int n \<and> 0 \<le> edge_dest ?es e \<and> edge_dest ?es e < int n \<and> 0 \<le> edge_dist ?es e"
    if e: "0 \<le> e" "e < int (length E)" for e
  proof -
    have l: "nat e < length E" "int (nat e) = e" using e by auto
    have "E ! nat e \<in> set E" using l(1) by simp
    then show ?thesis using assms edges_of_at[OF l(1), of es] unfolding l(2) by (simp add: edges_inside_def)
  qed
  then show "Edges_wf n ?es" using sz by (simp add: Edges_wf_def)
  show "Edges_growable ?es" by (simp add: Edges_growable_def edges_of_def)
qed

lemma positions_starts:
  "positions (map te_startNode E) (length E) v = map int (filter (\<lambda>e. te_startNode (E ! e) = v) [0..<length E])"
  "length (positions (map te_startNode E) (length E) v) = length (filter (\<lambda>e. te_startNode e = v) E)"
proof -
  show pos: "positions (map te_startNode E) (length E) v = map int (filter (\<lambda>e. te_startNode (E ! e) = v) [0..<length E])"
    unfolding positions_def by (auto intro!: filter_cong)
  have "length (filter (\<lambda>e. te_startNode (E ! e) = v) [0..<length E]) = length (filter (\<lambda>e. te_startNode e = v) (map (\<lambda>i. E ! i) [0..<length E]))"
    by (simp add: filter_map comp_def)
  then show "length (positions (map te_startNode E) (length E) v) = length (filter (\<lambda>e. te_startNode e = v) E)" unfolding pos by (simp add: map_nth)
qed

lemma DynamicGrid_import_parsed:
  assumes p: "fmi_parse entryOrder file = Some (int (length N), N, int (length E), E)" and ins: "edges_inside (length N) E"
    and four: "\<And>v. length (filter (\<lambda>e. te_startNode e = v) E) \<le> 4"
  shows "\<exists>ns' es' g'. DynamicGrid_importFmiFile entryOrder file (ns, es, g) = Some (ns', es', g') \<and> imported (length N) ns' es' g' \<and>
    (\<forall>u. original_adj es' u = map (\<lambda>e. (te_destNode e, te_dist e)) (filter (\<lambda>e. te_startNode e = u) E)) \<and>
    no_latitude ns' = Some (map tn_latitude N) \<and> no_longitude ns' = Some (map tn_longitude N)"
proof -
  let ?S = "map te_startNode E" let ?n = "length N" let ?es = "edges_of E es"
  have Sr: "0 \<le> x \<and> x < int ?n" if "x \<in> set ?S" for x using ins that by (auto simp: edges_inside_def)
  have pos: "positions ?S (length ?S) v = map int (filter (\<lambda>e. te_startNode (E ! e) = v) [0..<length E])" for v using positions_starts(1)[of E v] by simp
  have four': "length (positions ?S (length ?S) v) \<le> 4" for v using positions_starts(2)[of E v] four[of v] by simp
  from DynamicGrid_sortEdges_ok[OF Sr four'] obtain rows counts where s: "DynamicGrid_sortEdges (int ?n) (int (length ?S)) ?S = Some (rows, counts)"
    "length rows = ?n" "length counts = ?n"
    "\<And>v. v < ?n \<Longrightarrow> length (rows ! v) = 4 \<and> counts ! v = int (length (positions ?S (length ?S) (int v))) \<and>
       take (length (positions ?S (length ?S) (int v))) (rows ! v) = positions ?S (length ?S) (int v)" by blast
  define ns' where "ns' = ns\<lparr>no_latitude := Some (map tn_latitude N), no_longitude := Some (map tn_longitude N), no_levels := Some (replicate ?n 0)\<rparr>"
  define g' where "g' = DynamicGrid_initializeEdges g rows counts"
  have half: "nat (int (length E) div 2) = length E div 2" "nat (int (length E) div 2 * 2) = length E div 2 * 2" by (simp_all add: nat_div_distrib nat_mult_distrib)
  have run: "DynamicGrid_importFmiFile entryOrder file (ns, es, g) = Some (ns', ?es, g')"
    unfolding DynamicGrid_importFmiFile_def prod.case p using s(1)
    by (simp add: fmi_column_def Nodes_initializeLvls_def newArray_def Edges_initializeForShortcutEdges_def Let_def half ns'_def g'_def edges_of_def)
  have all: "all_edges g' v = positions ?S (length ?S) v" "cur_edges g' v = positions ?S (length ?S) v" if v: "v \<in> {0..<int ?n}" for v
  proof -
    have nv: "nat v < ?n" "int (nat v) = v" using v by auto
    show "all_edges g' v = positions ?S (length ?S) v" "cur_edges g' v = positions ?S (length ?S) v"
      using s(4)[OF nv(1)] nv s(2) by (simp_all add: all_edges_def cur_edges_def g'_def DynamicGrid_initializeEdges_def)
  qed
  have rows: "rows ! v \<noteq> [] \<and> 0 \<le> counts ! v \<and> counts ! v \<le> int (length (rows ! v))" if "v < ?n" for v
    using s(4)[OF that] four'[of "int v"] by auto
  have "rows_ok ?n {0..<int ?n} g'" unfolding rows_ok_def using rows s(2,3) by (auto simp: g'_def DynamicGrid_initializeEdges_def nat_less_iff)
  moreover have "all_edges g' v = map int (filter (\<lambda>e. edge_start ?es (int e) = v) [0..<nat (eg_numOfOriginalEdges ?es)])" if "v \<in> {0..<int ?n}" for v
    unfolding all(1)[OF that] pos by (auto simp: edges_of_at intro!: filter_cong)
  ultimately have "imported ?n ns' ?es g'" unfolding imported_def using edges_of_wf[OF ins] all
    by (auto simp: ns'_def)
  then show ?thesis using run edges_of_adj by (intro exI[of _ ns'] exI[of _ ?es] exI[of _ g']) (simp add: ns'_def)
qed

text \<open>The graph of a grid file: its nodes in the order of the file.\<close>

definition file_adj :: "TmpNode list \<Rightarrow> TmpEdge list \<Rightarrow> adjacency" where
  "file_adj N E u = (if 0 \<le> u \<and> u < int (length N) then map (\<lambda>e. (the (file_ids 0 N (te_destNode e)), te_dist e))
     (filter (\<lambda>e. te_startNode e = tn_id (N ! nat u)) E) else [])"

text \<open>
  A file both routers can work on: the ids are different, the edges join nodes of the file, come in
  both directions and are at most four at a node.
\<close>

definition grid_file_ok :: "TmpNode list \<Rightarrow> TmpEdge list \<Rightarrow> bool" where
  "grid_file_ok N E \<longleftrightarrow> distinct (map tn_id N) \<and>
     (\<forall>e \<in> set E. te_startNode e \<in> tn_id ` set N \<and> te_destNode e \<in> tn_id ` set N \<and> 0 \<le> te_dist e \<and> has_opposite E e) \<and>
     (\<forall>n \<in> set N. length (filter (\<lambda>e. te_startNode e = tn_id n) E) \<le> 4)"

lemma grid_file_okD:
  assumes "grid_file_ok N E"
  shows "distinct (map tn_id N)" "\<forall>e \<in> set E. te_startNode e \<in> tn_id ` set N \<and> te_destNode e \<in> tn_id ` set N \<and> 0 \<le> te_dist e"
    "\<forall>e \<in> set E. has_opposite E e" "n \<in> set N \<Longrightarrow> length (filter (\<lambda>e. te_startNode e = tn_id n) E) \<le> 4"
  using assms unfolding grid_file_ok_def by blast+

lemma file_parsed:
  assumes f: "distinct (map tn_id N)" "\<forall>e \<in> set E. te_startNode e \<in> tn_id ` set N \<and> te_destNode e \<in> tn_id ` set N \<and> 0 \<le> te_dist e"
    "\<forall>e \<in> set E. has_opposite E e" and ord: "\<And>m. set (entryOrder m) = set m"
  obtains E' where "fmi_parse entryOrder (fmi_file a b N E) = Some (int (length N), N, int (length E'), E')" "edges_inside (length N) E'"
    "\<forall>u. map (\<lambda>e. (te_destNode e, te_dist e)) (filter (\<lambda>e. te_startNode e = u) E') = file_adj N E u"
proof -
  let ?E = "sort_key te_startNode (map (internal_edge (file_ids 0 N)) E)"
  have ends: "\<forall>e \<in> set E. te_startNode e \<in> tn_id ` set N \<and> te_destNode e \<in> tn_id ` set N" using f(2) by blast
  have ins: "edges_inside (length N) ?E" by (rule internal_edges_inside[OF f(1,2)])
  have len: "length ?E = length E" by simp
  have parse: "fmi_parse entryOrder (fmi_file a b N E) = Some (int (length N), N, int (length ?E), ?E)"
    unfolding len by (rule fmi_parse_symmetric[OF f(1) ends f(3) ord])
  obtain gr where gr: "Grid_importFmiFile entryOrder (fmi_file a b N E) = Some gr"
    "\<forall>u < length N. Grid_adj gr (int u) = map (\<lambda>e. (the (file_ids 0 N (te_destNode e)), te_dist e)) (filter (\<lambda>e. te_startNode e = tn_id (N ! u)) E)"
    using import_symmetric_ok[OF f(1-3) ord] by blast
  have "gr = grid_of N ?E" using gr(1) import_grid_of[OF parse ins] by simp
  then have inside: "map (\<lambda>e. (te_destNode e, te_dist e)) (filter (\<lambda>e. te_startNode e = int u) ?E) =
      map (\<lambda>e. (the (file_ids 0 N (te_destNode e)), te_dist e)) (filter (\<lambda>e. te_startNode e = tn_id (N ! u)) E)" if "u < length N" for u
    using gr(2) grid_of_adj[of ?E u N] that by simp
  have outside: "filter (\<lambda>e. te_startNode e = u) ?E = []" if "\<not> (0 \<le> u \<and> u < int (length N))" for u
    using ins that by (auto simp: edges_inside_def filter_empty_conv)
  have "map (\<lambda>e. (te_destNode e, te_dist e)) (filter (\<lambda>e. te_startNode e = u) ?E) = file_adj N E u" for u
  proof (cases "0 \<le> u \<and> u < int (length N)")
    case True
    then show ?thesis using inside[of "nat u"] by (simp add: file_adj_def nat_less_iff)
  next
    case False
    then show ?thesis unfolding outside[OF False] file_adj_def by auto
  qed
  then show thesis using that[OF parse ins] by blast
qed

lemma DynamicGrid_importFmiFile_ok:
  assumes F: "grid_file_ok N E" and ord: "\<And>m. set (entryOrder m) = set m"
  shows "\<exists>ns' es' g'. DynamicGrid_importFmiFile entryOrder (fmi_file a b N E) (ns, es, g) = Some (ns', es', g') \<and> imported (length N) ns' es' g' \<and>
    original_adj es' = file_adj N E \<and> no_latitude ns' = Some (map tn_latitude N) \<and> no_longitude ns' = Some (map tn_longitude N)"
proof -
  note f = grid_file_okD[OF F]
  obtain E' where E': "fmi_parse entryOrder (fmi_file a b N E) = Some (int (length N), N, int (length E'), E')" "edges_inside (length N) E'"
    "\<forall>u. map (\<lambda>e. (te_destNode e, te_dist e)) (filter (\<lambda>e. te_startNode e = u) E') = file_adj N E u"
    by (rule file_parsed[where entryOrder = entryOrder and a = a and b = b, OF f(1-3) ord])
  have four: "length (filter (\<lambda>e. te_startNode e = u) E') \<le> 4" for u
  proof -
    have "length (filter (\<lambda>e. te_startNode e = u) E') = length (file_adj N E u)" unfolding E'(3)[rule_format, symmetric] by simp
    also have "\<dots> \<le> 4" using f(4)[of "N ! nat u"] by (simp add: file_adj_def nat_less_iff)
    finally show ?thesis .
  qed
  from DynamicGrid_import_parsed[OF E'(1,2) four, of ns es g] E'(3) show ?thesis by (simp add: fun_eq_iff)
qed

section \<open>The whole label creation\<close>

text \<open>What a label file must provide for the routes in a graph with the given coordinates.\<close>

definition serves_routes :: "adjacency \<Rightarrow> real list \<Rightarrow> real list \<Rightarrow> HubLNodes \<Rightarrow> HubLEdges \<Rightarrow> bool" where
  "serves_routes adj la lo hn he \<longleftrightarrow> hn_latitudes hn = Some la \<and> hn_longitudes hn = Some lo \<and>
     (\<forall>l \<in> set (hn_levels hn). hn_hlLevel hn \<le> l) \<and> HubLNodes_located hn \<and> label_cover adj hn \<and>
     (\<exists>src. HubLEdges_wf src (int (length (hn_levels hn))) he \<and> HubLNodes_wf src hn he \<and> HubLEdges_adj src he = adj)"

lemma contracted_serves:
  assumes C: "contracted n ns es g" and L: "Labels_for n ns es g {0..<int n} L" and loc: "no_latitude ns = Some la" "no_longitude ns = Some lo"
  shows "\<exists>hn he. LabelCreator_serializeHubLData ns es g L hn0 = HubLStore_storeData (hn, he) \<and> serves_routes (original_adj es) la lo hn he"
proof -
  obtain hn he where h: "LabelCreator_serializeHubLData ns es g L hn0 = HubLStore_storeData (hn, he)"
    "hn_latitudes hn = no_latitude ns" "hn_longitudes hn = no_longitude ns" "length (hn_levels hn) = n"
    "HubLEdges_wf (edge_starts es) (int n) he" "HubLNodes_wf (edge_starts es) hn he" "HubLNodes_located hn"
    "\<forall>l \<in> set (hn_levels hn). hn_hlLevel hn \<le> l" "HubLEdges_adj (edge_starts es) he = original_adj es" "label_cover (original_adj es) hn"
    using serializeHubLData_ok[OF C L, of hn0] by blast
  have "serves_routes (original_adj es) la lo hn he" unfolding serves_routes_def using h(2-10) loc by auto
  then show ?thesis using h(1) by blast
qed

lemma LabelCreator_main_ok:
  assumes F: "grid_file_ok N E" and M: "metric_graph {0..<int (length N)} (file_adj N E)" and n: "2 \<le> length N" "int (length N) \<le> MAX_VALUE"
    and D: "distances_below (length N) (file_adj N E) D" "int (length N) * D \<le> 1073741823"
    and rnd: "\<And>b i. 0 < b \<Longrightarrow> 0 \<le> rnd b i \<and> rnd b i < b" and ord: "\<And>m. set (entryOrder m) = set m" and thr: "\<And>ts. mset (threadOrder ts) = mset ts"
  shows "\<exists>s L hn he. LabelCreator_main rnd threadOrder entryOrder None None (Some (fmi_file a b N E)) s0 L0 hn0 =
      Some (CHData_storeData s, TmpLabelData_storeData L, HubLStore_storeData (hn, he)) \<and>
    serves_routes (file_adj N E) (map tn_latitude N) (map tn_longitude N) hn he"
proof -
  let ?n = "length N"
  obtain ns0 es0 g0 where s0: "s0 = (ns0, es0, g0)" by (cases s0)
  obtain ns es g where i: "DynamicGrid_importFmiFile entryOrder (fmi_file a b N E) s0 = Some (ns, es, g)" "imported ?n ns es g"
    "original_adj es = file_adj N E" "no_latitude ns = Some (map tn_latitude N)" "no_longitude ns = Some (map tn_longitude N)"
    using DynamicGrid_importFmiFile_ok[OF F ord] unfolding s0 by blast
  obtain ns1 es1 g1 where c: "LabelCreator_calculateCH rnd (ns, es, g) = Some (ns1, es1, g1)" "contracted ?n ns1 es1 g1"
    "original_adj es1 = file_adj N E" "no_latitude ns1 = Some (map tn_latitude N)" "no_longitude ns1 = Some (map tn_longitude N)"
    using LabelCreator_calculateCH_contracted[where rnd = rnd, OF i(2) _ n _ D(2) rnd] M D(1) i(3-5) by auto
  have cnt: "Nodes_getNodeCount ns1 = Some (int ?n)" by (simp add: Nodes_getNodeCount_def c(4))
  obtain L1 where L1: "Labels_initialize (int ?n) = Some L1" using Labels_initialize_ok[of ?n ns1 es1 g1] by blast
  obtain L where L: "LabelCreator_calcLabels threadOrder ns1 es1 g1 L1 = Some L" "Labels_for ?n ns1 es1 g1 {0..<int ?n} L"
    using contracted_labels[OF c(2) thr L1] by blast
  obtain hn he where h: "LabelCreator_serializeHubLData ns1 es1 g1 L hn0 = HubLStore_storeData (hn, he)"
    "serves_routes (file_adj N E) (map tn_latitude N) (map tn_longitude N) hn he" using contracted_serves[OF c(2) L(2) c(4,5), of hn0] unfolding c(3) by blast
  obtain store where st: "HubLStore_storeData (hn, he) = Some store" by (simp add: HubLStore_storeData_def)
  have "LabelCreator_main rnd threadOrder entryOrder None None (Some (fmi_file a b N E)) s0 L0 hn0 =
      Some (CHData_storeData (ns1, es1, g1), TmpLabelData_storeData L, HubLStore_storeData (hn, he))"
    unfolding LabelCreator_main_def by (simp add: CHData_readData_def TmpLabelData_readData_def i(1) c(1) cnt L1 L(1) h(1) st)
  then show ?thesis using h(2) by blast
qed

text \<open>A run on the files an earlier run has left gives the same label file, without the grid file.\<close>

lemma stored_data_read [simp]: "CHData_readData (CHData_storeData s) s' = (True, s)" "TmpLabelData_readData (TmpLabelData_storeData L) L' = (True, L)"
  by (cases s; cases s'; simp add: CHData_readData_def CHData_storeData_def CHData_setData_def CHData_new_def)
    (simp add: TmpLabelData_readData_def TmpLabelData_storeData_def)

end
