(* ===== verification/DijkstraHeap.thy ===== *)
theory DijkstraHeap
  imports BinaryHeap
begin

text \<open>
  The class \<open>router/DijkstraHeap.java\<close>: an indexed binary heap of node ids. The keys
  are not stored in the heap; \<open>compareValues\<close> reads them from the distance array of the
  router, which is the argument \<open>dist\<close> of the operations. The array \<open>heapPosition\<close>
  gives, for each id, its slot in the heap.

  \<open>DijkstraHeap_inv\<close> is the class invariant; every operation keeps it. The locale
  \<open>id_queue\<close> is what the router relies on, and the interpretation \<open>dijkstraHeap\<close>
  proves it for the class.
\<close>

record DijkstraHeap =
  dh_heapPosition :: "int list"
  dh_idHeapArray :: "int list"
  dh_currentSize :: int

definition DijkstraHeap_INITIAL_SIZE :: int where
  "DijkstraHeap_INITIAL_SIZE = 400"

definition DijkstraHeap_SIZE_INCREASE :: int where
  "DijkstraHeap_SIZE_INCREASE = 200"

definition DijkstraHeap_new :: "int \<Rightarrow> DijkstraHeap option" where
  "DijkstraHeap_new nodeSize = do {
     pos \<leftarrow> newArray nodeSize 0;
     arr \<leftarrow> newArray DijkstraHeap_INITIAL_SIZE 0;
     Some \<lparr>dh_heapPosition = pos, dh_idHeapArray = fillAll arr (-1), dh_currentSize = 0\<rparr>
   }"

definition DijkstraHeap_resetState :: "DijkstraHeap \<Rightarrow> DijkstraHeap option" where
  "DijkstraHeap_resetState h = do {
     arr \<leftarrow> newArray DijkstraHeap_INITIAL_SIZE 0;
     Some (h\<lparr>dh_heapPosition := fillAll (dh_heapPosition h) (-1),
             dh_idHeapArray := fillAll arr (-1), dh_currentSize := 0\<rparr>)
   }"

definition DijkstraHeap_isEmpty :: "DijkstraHeap \<Rightarrow> bool" where
  "DijkstraHeap_isEmpty h \<longleftrightarrow> dh_currentSize h = 0"

definition DijkstraHeap_compareValues :: "int list \<Rightarrow> DijkstraHeap \<Rightarrow> int \<Rightarrow> int \<Rightarrow> int option" where
  "DijkstraHeap_compareValues dist h firstID secondID = do {
     a \<leftarrow> aget (dh_idHeapArray h) firstID;
     da \<leftarrow> aget dist a;
     b \<leftarrow> aget (dh_idHeapArray h) secondID;
     db \<leftarrow> aget dist b;
     Some (if da = db then 0 else if da > db then 1 else -1)
   }"

definition DijkstraHeap_swap :: "DijkstraHeap \<Rightarrow> int \<Rightarrow> int \<Rightarrow> DijkstraHeap option" where
  "DijkstraHeap_swap h i j = do {
     tmp \<leftarrow> aget (dh_idHeapArray h) i;
     y \<leftarrow> aget (dh_idHeapArray h) j;
     arr \<leftarrow> aset (dh_idHeapArray h) i y;
     arr \<leftarrow> aset arr j tmp;
     a \<leftarrow> aget arr i;
     b \<leftarrow> aget arr j;
     tmp \<leftarrow> aget (dh_heapPosition h) a;
     pb \<leftarrow> aget (dh_heapPosition h) b;
     pos \<leftarrow> aset (dh_heapPosition h) a pb;
     pos \<leftarrow> aset pos b tmp;
     Some (h\<lparr>dh_idHeapArray := arr, dh_heapPosition := pos\<rparr>)
   }"

partial_function (option) DijkstraHeap_heapifyTopDown ::
    "int list \<Rightarrow> DijkstraHeap \<Rightarrow> int \<Rightarrow> int \<Rightarrow> DijkstraHeap option" where
  "DijkstraHeap_heapifyTopDown dist h n root = do {
     let leftChild = 2 * root + 1;
     let rightChild = 2 * root + 2;
     smallest \<leftarrow> (if leftChild < n then do {
         c \<leftarrow> DijkstraHeap_compareValues dist h leftChild root;
         Some (if c < 0 then leftChild else root)
       } else Some root);
     smallest \<leftarrow> (if rightChild < n then do {
         c \<leftarrow> DijkstraHeap_compareValues dist h rightChild smallest;
         Some (if c < 0 then rightChild else smallest)
       } else Some smallest);
     if smallest \<noteq> root then do {
       h \<leftarrow> DijkstraHeap_swap h root smallest;
       DijkstraHeap_heapifyTopDown dist h n smallest
     } else Some h
   }"

partial_function (option) DijkstraHeap_heapifyBottomUp ::
    "int list \<Rightarrow> DijkstraHeap \<Rightarrow> int \<Rightarrow> DijkstraHeap option" where
  "DijkstraHeap_heapifyBottomUp dist h nodeID =
     (if nodeID \<le> 0 then Some h
      else do {
        let parent = (nodeID - 1) div 2;
        c \<leftarrow> DijkstraHeap_compareValues dist h nodeID parent;
        if c < 0 then do {
          h \<leftarrow> DijkstraHeap_swap h nodeID parent;
          DijkstraHeap_heapifyBottomUp dist h parent
        } else Some h
      })"

declare DijkstraHeap_heapifyTopDown.simps [code] DijkstraHeap_heapifyBottomUp.simps [code]

definition DijkstraHeap_grow :: "DijkstraHeap \<Rightarrow> DijkstraHeap option" where
  "DijkstraHeap_grow h = do {
     let oldLen = int (length (dh_idHeapArray h));
     arr \<leftarrow> copyOf (dh_idHeapArray h) (oldLen + DijkstraHeap_SIZE_INCREASE) 0;
     arr \<leftarrow> fillRange arr oldLen (int (length arr)) (-1);
     Some (h\<lparr>dh_idHeapArray := arr\<rparr>)
   }"

definition DijkstraHeap_getNext :: "int list \<Rightarrow> DijkstraHeap \<Rightarrow> (int \<times> DijkstraHeap) option" where
  "DijkstraHeap_getNext dist h = do {
     returnValue \<leftarrow> aget (dh_idHeapArray h) 0;
     let currentSize = dh_currentSize h - 1;
     lastId \<leftarrow> aget (dh_idHeapArray h) currentSize;
     arr \<leftarrow> aset (dh_idHeapArray h) 0 lastId;
     first \<leftarrow> aget arr 0;
     pos \<leftarrow> aset (dh_heapPosition h) first 0;
     arr \<leftarrow> aset arr currentSize (-1);
     h \<leftarrow> DijkstraHeap_heapifyTopDown dist
            (h\<lparr>dh_currentSize := currentSize, dh_idHeapArray := arr, dh_heapPosition := pos\<rparr>) currentSize 0;
     Some (returnValue, h)
   }"

definition DijkstraHeap_add :: "int list \<Rightarrow> DijkstraHeap \<Rightarrow> int \<Rightarrow> DijkstraHeap option" where
  "DijkstraHeap_add dist h x = do {
     p \<leftarrow> aget (dh_heapPosition h) x;
     if p \<noteq> -1 then DijkstraHeap_heapifyBottomUp dist h p
     else do {
       h \<leftarrow> (if dh_currentSize h = int (length (dh_idHeapArray h)) then DijkstraHeap_grow h else Some h);
       arr \<leftarrow> aset (dh_idHeapArray h) (dh_currentSize h) x;
       pos \<leftarrow> aset (dh_heapPosition h) x (dh_currentSize h);
       h \<leftarrow> DijkstraHeap_heapifyBottomUp dist (h\<lparr>dh_idHeapArray := arr, dh_heapPosition := pos\<rparr>)
              (dh_currentSize h);
       Some (h\<lparr>dh_currentSize := dh_currentSize h + 1\<rparr>)
     }
   }"

section \<open>Invariant\<close>

text \<open>
  \<open>DijkstraHeap_index dist n h\<close>: the first \<open>n\<close> slots hold ids with a distance, and
  \<open>heapPosition\<close> is the inverse of the array on them. The class invariant adds the heap
  order by distance.
\<close>

definition DijkstraHeap_index :: "int list \<Rightarrow> nat \<Rightarrow> DijkstraHeap \<Rightarrow> bool" where
  "DijkstraHeap_index dist n h \<longleftrightarrow>
     n \<le> length (dh_idHeapArray h) \<and> length (dh_heapPosition h) = length dist \<and>
     (\<forall>i < n. 0 \<le> dh_idHeapArray h ! i \<and> dh_idHeapArray h ! i < int (length dist) \<and>
        dh_heapPosition h ! nat (dh_idHeapArray h ! i) = int i)"

definition dist_key :: "int list \<Rightarrow> int \<Rightarrow> int" where
  "dist_key dist x = dist ! nat x"

definition DijkstraHeap_list :: "DijkstraHeap \<Rightarrow> int list" where
  "DijkstraHeap_list h = take (nat (dh_currentSize h)) (dh_idHeapArray h)"

definition DijkstraHeap_elems :: "DijkstraHeap \<Rightarrow> int set" where
  "DijkstraHeap_elems h = set (DijkstraHeap_list h)"

text \<open>The ids never added since the last reset.\<close>

definition DijkstraHeap_fresh :: "DijkstraHeap \<Rightarrow> int set" where
  "DijkstraHeap_fresh h = {x. 0 \<le> x \<and> x < int (length (dh_heapPosition h)) \<and> dh_heapPosition h ! nat x = -1}"

definition DijkstraHeap_inv :: "int list \<Rightarrow> DijkstraHeap \<Rightarrow> bool" where
  "DijkstraHeap_inv dist h \<longleftrightarrow> 0 \<le> dh_currentSize h \<and>
     DijkstraHeap_index dist (nat (dh_currentSize h)) h \<and>
     heap_ordered (dist_key dist) (DijkstraHeap_list h)"

lemma index_distinct:
  assumes "DijkstraHeap_index dist n h"
  shows "distinct (take n (dh_idHeapArray h))"
  unfolding distinct_conv_nth
proof (intro allI impI)
  fix i j assume "i < length (take n (dh_idHeapArray h))" "j < length (take n (dh_idHeapArray h))" "i \<noteq> j"
  then have "i < n" "j < n" by simp_all
  with assms \<open>i \<noteq> j\<close> have "dh_idHeapArray h ! i \<noteq> dh_idHeapArray h ! j"
    unfolding DijkstraHeap_index_def by (metis of_nat_eq_iff)
  with \<open>i < n\<close> \<open>j < n\<close> show "take n (dh_idHeapArray h) ! i \<noteq> take n (dh_idHeapArray h) ! j" by simp
qed

lemma index_swap:
  assumes "DijkstraHeap_index dist n h" "i < n" "j < n"
  shows "\<exists>h'. DijkstraHeap_swap h (int i) (int j) = Some h' \<and> DijkstraHeap_index dist n h' \<and>
    dh_idHeapArray h' = swap_list (dh_idHeapArray h) i j \<and>
    (dh_currentSize h', DijkstraHeap_fresh h') = (dh_currentSize h, DijkstraHeap_fresh h)"
proof -
  let ?a = "dh_idHeapArray h" let ?p = "dh_heapPosition h"
  let ?a' = "swap_list ?a i j"
  let ?x = "nat (?a ! i)" let ?y = "nat (?a ! j)"
  let ?p' = "?p[?y := int i, ?x := int j]"
  have len: "i < length ?a" "j < length ?a" and lp: "length ?p = length dist"
    using assms by (auto simp: DijkstraHeap_index_def)
  have e: "\<And>k. k < n \<Longrightarrow> 0 \<le> ?a ! k \<and> ?a ! k < int (length ?p) \<and> ?p ! nat (?a ! k) = int k"
    using assms by (auto simp: DijkstraHeap_index_def)
  have lt: "\<And>k. k < n \<Longrightarrow> nat (?a ! k) < length ?p" using e by fastforce
  have inj: "nat (?a ! k) = nat (?a ! l) \<longleftrightarrow> k = l" if "k < n" "l < n" for k l
    using e that by (metis of_nat_eq_iff)
  have gi: "?a[i := ?a ! j, j := ?a ! i] ! i = ?a ! j" and gj: "?a[i := ?a ! j, j := ?a ! i] ! j = ?a ! i"
    using len by (auto simp: nth_list_update)
  have run: "DijkstraHeap_swap h (int i) (int j) = Some (h\<lparr>dh_idHeapArray := ?a', dh_heapPosition := ?p'\<rparr>)"
    using len e[OF assms(2)] e[OF assms(3)]
    by (simp add: DijkstraHeap_swap_def java gi gj swap_list_def)
  have idx: "DijkstraHeap_index dist n (h\<lparr>dh_idHeapArray := ?a', dh_heapPosition := ?p'\<rparr>)"
    unfolding DijkstraHeap_index_def
  proof (intro conjI allI impI)
    fix k assume k: "k < n"
    then have "k < length ?a" using assms by (simp add: DijkstraHeap_index_def)
    then have sw: "?a' ! k = (if k = i then ?a ! j else if k = j then ?a ! i else ?a ! k)"
      by (rule nth_swap_list[OF len])
    have "?p' ! nat (?a' ! k) = int k"
    proof (cases "k = i \<or> k = j")
      case True
      then show ?thesis using sw lt[OF assms(2)] lt[OF assms(3)] inj[OF assms(3) assms(2)]
        by (cases "i = j") (auto simp del: int_nat_eq nat_eq_iff)
    next
      case False
      then show ?thesis using sw e[OF k] inj[OF assms(2) k] inj[OF assms(3) k] by simp
    qed
    then show "dh_heapPosition (h\<lparr>dh_idHeapArray := ?a', dh_heapPosition := ?p'\<rparr>) !
        nat (dh_idHeapArray (h\<lparr>dh_idHeapArray := ?a', dh_heapPosition := ?p'\<rparr>) ! k) = int k" by simp
  qed (use assms len e lp in \<open>auto simp: DijkstraHeap_index_def nth_swap_list\<close>)
  have "DijkstraHeap_fresh (h\<lparr>dh_idHeapArray := ?a', dh_heapPosition := ?p'\<rparr>) = DijkstraHeap_fresh h"
    using e[OF assms(2)] e[OF assms(3)] by (auto simp: DijkstraHeap_fresh_def nth_list_update split: if_splits)
  with run idx show ?thesis by simp
qed

lemma index_compare:
  assumes "DijkstraHeap_index dist n h" "i < n" "j < n"
  shows "DijkstraHeap_compareValues dist h (int i) (int j) =
    Some (if dist_key dist (dh_idHeapArray h ! i) = dist_key dist (dh_idHeapArray h ! j) then 0
          else if dist_key dist (dh_idHeapArray h ! i) > dist_key dist (dh_idHeapArray h ! j) then 1 else -1)"
  using assms by (auto simp: DijkstraHeap_compareValues_def DijkstraHeap_index_def dist_key_def java)

interpretation idHeap: array_heap "DijkstraHeap_index dist" dh_idHeapArray "\<lambda>_. dist_key dist"
  "\<lambda>h. (dh_currentSize h, DijkstraHeap_fresh h)" "DijkstraHeap_compareValues dist" DijkstraHeap_swap
  "DijkstraHeap_heapifyTopDown dist" "DijkstraHeap_heapifyBottomUp dist" for dist
proof unfold_locales
  show "\<And>n h. DijkstraHeap_index dist n h \<Longrightarrow> n \<le> length (dh_idHeapArray h)"
    by (simp add: DijkstraHeap_index_def)
qed (use index_compare index_swap DijkstraHeap_heapifyTopDown.simps DijkstraHeap_heapifyBottomUp.simps in \<open>auto\<close>)

section \<open>The operations\<close>

lemma DijkstraHeap_inv_unfold:
  assumes "DijkstraHeap_inv dist h"
  obtains n where "dh_currentSize h = int n" "DijkstraHeap_index dist n h"
    "heap_ordered (dist_key dist) (take n (dh_idHeapArray h))"
    "DijkstraHeap_elems h = set (take n (dh_idHeapArray h))"
proof
  show "dh_currentSize h = int (nat (dh_currentSize h))" using assms by (simp add: DijkstraHeap_inv_def)
qed (use assms in \<open>auto simp: DijkstraHeap_inv_def DijkstraHeap_list_def DijkstraHeap_elems_def\<close>)

lemma index_mem:
  assumes "DijkstraHeap_index dist n h" "x \<in> set (take n (dh_idHeapArray h))"
  obtains i where "i < n" "dh_idHeapArray h ! i = x" "dh_heapPosition h ! nat x = int i"
    "0 \<le> x" "x < int (length dist)"
proof -
  obtain i where "i < n" "i < length (dh_idHeapArray h)" "dh_idHeapArray h ! i = x"
    using assms(2) by (auto simp: in_set_conv_nth)
  with assms(1) that[of i] show thesis by (auto simp: DijkstraHeap_index_def)
qed

lemma DijkstraHeap_elems_valid:
  assumes "DijkstraHeap_inv dist h" "x \<in> DijkstraHeap_elems h"
  shows "0 \<le> x \<and> x < int (length dist) \<and> x \<notin> DijkstraHeap_fresh h"
proof -
  obtain n where "DijkstraHeap_index dist n h" "x \<in> set (take n (dh_idHeapArray h))"
    using assms by (auto elim: DijkstraHeap_inv_unfold)
  then show ?thesis by (rule index_mem) (simp add: DijkstraHeap_fresh_def)
qed

lemma DijkstraHeap_resetState_ok:
  assumes "length (dh_heapPosition h) = length dist"
  shows "\<exists>h'. DijkstraHeap_resetState h = Some h' \<and> DijkstraHeap_inv dist h' \<and>
    DijkstraHeap_elems h' = {} \<and> DijkstraHeap_fresh h' = {0..<int (length dist)} \<and>
    length (dh_heapPosition h') = length dist"
  using assms
  by (auto simp: DijkstraHeap_resetState_def newArray_def DijkstraHeap_INITIAL_SIZE_def DijkstraHeap_inv_def
      DijkstraHeap_index_def heap_ordered_def DijkstraHeap_list_def DijkstraHeap_elems_def DijkstraHeap_fresh_def)

lemma DijkstraHeap_isEmpty_iff:
  assumes "DijkstraHeap_inv dist h"
  shows "DijkstraHeap_isEmpty h \<longleftrightarrow> DijkstraHeap_elems h = {}"
  using assms
  by (elim DijkstraHeap_inv_unfold) (auto simp: DijkstraHeap_isEmpty_def DijkstraHeap_index_def)

lemma DijkstraHeap_getNext_ok:
  assumes inv: "DijkstraHeap_inv dist h" and ne: "DijkstraHeap_elems h \<noteq> {}"
  shows "\<exists>x h'. DijkstraHeap_getNext dist h = Some (x, h') \<and> DijkstraHeap_inv dist h' \<and>
    x \<in> DijkstraHeap_elems h \<and> DijkstraHeap_elems h' = DijkstraHeap_elems h - {x} \<and>
    DijkstraHeap_fresh h' = DijkstraHeap_fresh h \<and>
    (\<forall>y \<in> DijkstraHeap_elems h. dist ! nat x \<le> dist ! nat y)"
proof -
  obtain m where m: "dh_currentSize h = int m" "DijkstraHeap_index dist m h"
    "heap_ordered (dist_key dist) (take m (dh_idHeapArray h))"
    "DijkstraHeap_elems h = set (take m (dh_idHeapArray h))"
    using inv by (rule DijkstraHeap_inv_unfold)
  obtain n where n: "m = Suc n" using ne m by (cases m) auto
  let ?a = "dh_idHeapArray h" let ?p = "dh_heapPosition h" let ?x = "?a ! 0"
  let ?last = "?a ! n"
  let ?a' = "?a[0 := ?last, n := -1]" let ?p' = "?p[nat ?last := 0]"
  let ?h = "h\<lparr>dh_currentSize := int n, dh_idHeapArray := ?a', dh_heapPosition := ?p'\<rparr>"
  have len: "n < length ?a" "?a \<noteq> []" using m(2) n by (auto simp: DijkstraHeap_index_def)
  have e: "\<And>k. k \<le> n \<Longrightarrow> 0 \<le> ?a ! k \<and> ?a ! k < int (length ?p) \<and> ?p ! nat (?a ! k) = int k"
    and lp: "length ?p = length dist"
    using m(2) n by (auto simp: DijkstraHeap_index_def)
  have run: "DijkstraHeap_getNext dist h =
      (DijkstraHeap_heapifyTopDown dist ?h (int n) 0) \<bind> (\<lambda>h. Some (?x, h))"
    using m(1) n len e[of n] by (simp add: DijkstraHeap_getNext_def java Let_def)
  have min: "\<forall>y \<in> DijkstraHeap_elems h. dist ! nat ?x \<le> dist ! nat y"
    using heap_ordered_root[OF m(3)] len n m(4)
    by (auto simp: in_set_conv_nth dist_key_def)
  have dst: "distinct (take (Suc n) ?a)" using index_distinct[OF m(2)] n by simp
  have fr: "DijkstraHeap_fresh ?h = DijkstraHeap_fresh h"
    using e[of n] by (auto simp: DijkstraHeap_fresh_def nth_list_update split: if_splits)
  have tk: "take n ?a' = take n (?a[0 := ?last])" by simp
  have xin: "?x \<in> DijkstraHeap_elems h" using m(4) n len by (cases ?a) auto
  show ?thesis
  proof (cases "n = 0")
    case True
    have "DijkstraHeap_heapifyTopDown dist ?h (int n) 0 = Some ?h"
      using True by (subst DijkstraHeap_heapifyTopDown.simps) simp
    moreover have "DijkstraHeap_elems h = {?x}" using m(4) n True len by (cases ?a) auto
    ultimately show ?thesis using run min xin fr True lp
      by (auto simp: DijkstraHeap_inv_def DijkstraHeap_index_def heap_ordered_def DijkstraHeap_list_def
          DijkstraHeap_elems_def)
  next
    case False
    have ne0: "\<And>k. 0 < k \<Longrightarrow> k < n \<Longrightarrow> nat (?a ! k) \<noteq> nat ?last" using e by (metis less_imp_le_nat order_refl of_nat_eq_iff less_irrefl)
    have idx: "DijkstraHeap_index dist n ?h"
      unfolding DijkstraHeap_index_def
    proof (intro conjI allI impI)
      fix k assume k: "k < n"
      show "dh_heapPosition ?h ! nat (dh_idHeapArray ?h ! k) = int k"
        using e[of k] e[of n] k ne0[of k] len by (cases "k = 0") (auto simp: nth_list_update)
    qed (use e[of n] len lp e in \<open>auto simp: nth_list_update\<close>)
    obtain h' where h': "DijkstraHeap_heapifyTopDown dist ?h (int n) (int 0) = Some h'"
      "DijkstraHeap_index dist n h'" "dh_currentSize h' = int n" "DijkstraHeap_fresh h' = DijkstraHeap_fresh ?h"
      "take n (dh_idHeapArray h') = sift_down (dist_key dist) (take n ?a') 0"
      using idHeap.heapifyTopDown_refines[OF idx, of 0] False by auto
    have hole: "hole_below (dist_key dist) (take n ?a') 0"
    proof (rule hole_below_root)
      show "heap_ordered (dist_key dist) (take (Suc n) ?a)" using m(3) n by simp
      have "take n ((take (Suc n) ?a)[0 := ?last]) = take n (?a[0 := ?last])"
        by (simp add: take_update_swap)
      then show "take n ?a' = take n ((take (Suc n) ?a)[0 := take (Suc n) ?a ! n])" using tk by simp
    qed (use False len in simp_all)
    have nn: "0 < length (take n ?a')" using False len by simp
    have "add_mset ?x (mset (take n ?a')) = mset (take (Suc n) ?a)"
      using mset_replace_root[of n ?a] False len by simp
    then have mm: "add_mset ?x (mset (take n (dh_idHeapArray h'))) = mset (take (Suc n) ?a)"
      using h'(5) sift_down_mset[OF nn] by simp
    then have "insert ?x (set (take n (dh_idHeapArray h'))) = DijkstraHeap_elems h"
      unfolding m(4) n by (metis mm set_mset_add_mset_insert set_mset_mset)
    moreover have "?x \<notin> set (take n (dh_idHeapArray h'))"
      using mm dst by (metis distinct.simps(2) mset.simps(2) mset_eq_imp_distinct_iff)
    ultimately have "DijkstraHeap_elems h' = DijkstraHeap_elems h - {?x}"
      using h'(3) by (auto simp: DijkstraHeap_elems_def DijkstraHeap_list_def)
    moreover have "DijkstraHeap_inv dist h'"
      using h' sift_down_heap[OF hole nn] by (simp add: DijkstraHeap_inv_def DijkstraHeap_list_def)
    ultimately show ?thesis using run h' min xin fr by simp
  qed
qed

lemma DijkstraHeap_grow_ok:
  "\<exists>g. DijkstraHeap_grow h = Some (h\<lparr>dh_idHeapArray := dh_idHeapArray h @ g\<rparr>) \<and> g \<noteq> []"
proof -
  have "fillRange (dh_idHeapArray h @ replicate 200 0) (int (length (dh_idHeapArray h)))
      (int (length (dh_idHeapArray h @ replicate 200 0))) (-1) =
      Some (dh_idHeapArray h @ replicate 200 (-1))"
    using fillRange_tail[of "dh_idHeapArray h" "replicate 200 0" "-1"] by simp
  then show ?thesis
    by (intro exI[of _ "replicate 200 (-1)"]) (simp add: DijkstraHeap_grow_def DijkstraHeap_SIZE_INCREASE_def java)
qed

lemma DijkstraHeap_add_update:
  assumes inv: "DijkstraHeap_inv dist h" and x: "x \<in> DijkstraHeap_elems h" and d: "d \<le> dist ! nat x"
  shows "\<exists>h'. DijkstraHeap_add (dist[nat x := d]) h x = Some h' \<and> DijkstraHeap_inv (dist[nat x := d]) h' \<and>
    DijkstraHeap_elems h' = DijkstraHeap_elems h \<and> DijkstraHeap_fresh h' = DijkstraHeap_fresh h"
proof -
  let ?D = "dist[nat x := d]"
  obtain n where n: "dh_currentSize h = int n" "DijkstraHeap_index dist n h"
    "heap_ordered (dist_key dist) (take n (dh_idHeapArray h))"
    "DijkstraHeap_elems h = set (take n (dh_idHeapArray h))"
    using inv by (rule DijkstraHeap_inv_unfold)
  let ?xs = "take n (dh_idHeapArray h)"
  obtain i where i: "i < n" "dh_idHeapArray h ! i = x" "dh_heapPosition h ! nat x = int i" "0 \<le> x" "x < int (length dist)"
    using n x by (auto elim: index_mem)
  have lp: "length (dh_heapPosition h) = length dist" and len: "n \<le> length (dh_idHeapArray h)"
    using n(2) by (auto simp: DijkstraHeap_index_def)
  have idx: "DijkstraHeap_index ?D n h" using n(2) by (simp add: DijkstraHeap_index_def)
  have run: "DijkstraHeap_add ?D h x = DijkstraHeap_heapifyBottomUp ?D h (int i)"
    using i lp by (simp add: DijkstraHeap_add_def java)
  obtain h' where h': "DijkstraHeap_heapifyBottomUp ?D h (int i) = Some h'" "DijkstraHeap_index ?D n h'"
    "dh_currentSize h' = int n" "DijkstraHeap_fresh h' = DijkstraHeap_fresh h"
    "take n (dh_idHeapArray h') = sift_up (dist_key ?D) ?xs i"
    using idHeap.heapifyBottomUp_refines[OF idx i(1)] n(1) by auto
  have il: "i < length ?xs" "?xs ! i = x" using i len by simp_all
  have "hole_above (dist_key ?D) ?xs i"
  proof (rule hole_above_decrease[OF n(3) index_distinct[OF n(2)] il(1)])
    show "dist_key ?D (?xs ! i) \<le> dist_key dist (?xs ! i)" using i il d by (simp add: dist_key_def)
    show "dist_key ?D y = dist_key dist y" if "y \<in> set ?xs" "y \<noteq> ?xs ! i" for y
      using index_mem[OF n(2) that(1)] that(2) il(2) i(4)
      by (metis dist_key_def nat_eq_iff nth_list_update_neq)
  qed
  then have "heap_ordered (dist_key ?D) (take n (dh_idHeapArray h'))" unfolding h'(5) by (rule sift_up_heap[OF _ il(1)])
  moreover have "mset (take n (dh_idHeapArray h')) = mset ?xs" using h'(5) sift_up_mset[OF il(1)] by simp
  then have "set (take n (dh_idHeapArray h')) = set ?xs" by (metis set_mset_mset)
  ultimately show ?thesis using run h' n
    by (auto simp: DijkstraHeap_inv_def DijkstraHeap_list_def DijkstraHeap_elems_def)
qed

lemma DijkstraHeap_add_new:
  assumes inv: "DijkstraHeap_inv dist h" and x: "x \<in> DijkstraHeap_fresh h"
  shows "\<exists>h'. DijkstraHeap_add (dist[nat x := d]) h x = Some h' \<and> DijkstraHeap_inv (dist[nat x := d]) h' \<and>
    DijkstraHeap_elems h' = insert x (DijkstraHeap_elems h) \<and>
    DijkstraHeap_fresh h' = DijkstraHeap_fresh h - {x}"
proof -
  let ?D = "dist[nat x := d]"
  obtain n where n: "dh_currentSize h = int n" "DijkstraHeap_index dist n h"
    "heap_ordered (dist_key dist) (take n (dh_idHeapArray h))"
    "DijkstraHeap_elems h = set (take n (dh_idHeapArray h))"
    using inv by (rule DijkstraHeap_inv_unfold)
  let ?xs = "take n (dh_idHeapArray h)" let ?p = "dh_heapPosition h"
  have lp: "length ?p = length dist" and len: "n \<le> length (dh_idHeapArray h)"
    using n(2) by (auto simp: DijkstraHeap_index_def)
  have xv: "0 \<le> x" "x < int (length dist)" "?p ! nat x = -1" using x lp by (auto simp: DijkstraHeap_fresh_def)
  define g where "g = (if dh_currentSize h = int (length (dh_idHeapArray h)) then DijkstraHeap_grow h else Some h)"
  obtain r where r: "g = Some (h\<lparr>dh_idHeapArray := dh_idHeapArray h @ r\<rparr>)" "n < length (dh_idHeapArray h @ r)"
  proof (cases "n = length (dh_idHeapArray h)")
    case True
    with DijkstraHeap_grow_ok[of h] that n(1) show thesis by (auto simp: g_def)
  next
    case False
    with that[of "[]"] n(1) len show thesis by (auto simp: g_def)
  qed
  let ?a = "(dh_idHeapArray h @ r)[n := x]"
  let ?h = "h\<lparr>dh_idHeapArray := ?a, dh_heapPosition := ?p[nat x := int n]\<rparr>"
  have run: "DijkstraHeap_add ?D h x =
      (DijkstraHeap_heapifyBottomUp ?D ?h (int n)) \<bind> (\<lambda>h. Some (h\<lparr>dh_currentSize := dh_currentSize h + 1\<rparr>))"
  proof -
    have "DijkstraHeap_add ?D h x = do {
       h \<leftarrow> g;
       arr \<leftarrow> aset (dh_idHeapArray h) (dh_currentSize h) x;
       pos \<leftarrow> aset (dh_heapPosition h) x (dh_currentSize h);
       h \<leftarrow> DijkstraHeap_heapifyBottomUp ?D (h\<lparr>dh_idHeapArray := arr, dh_heapPosition := pos\<rparr>)
              (dh_currentSize h);
       Some (h\<lparr>dh_currentSize := dh_currentSize h + 1\<rparr>)
     }"
      using xv lp unfolding g_def by (simp only: DijkstraHeap_add_def) (simp add: java)
    then show ?thesis using xv lp r n(1) by (simp add: java)
  qed
  have tk: "take (Suc n) ?a = ?xs @ [x]" using r(2) len by (simp add: take_Suc_conv_app_nth)
  have old: "?a ! k = dh_idHeapArray h ! k" if "k < n" for k using that len by (simp add: nth_append)
  have neq: "nat (dh_idHeapArray h ! k) \<noteq> nat x" if "k < n" for k
    using n(2) that xv(3) unfolding DijkstraHeap_index_def by (metis of_nat_eq_iff of_nat_0_le_iff neg_0_le_iff_le not_one_le_zero)
  have idx: "DijkstraHeap_index ?D (Suc n) ?h"
    unfolding DijkstraHeap_index_def
  proof (intro conjI allI impI)
    fix k assume "k < Suc n"
    then consider "k < n" | "k = n" by linarith
    then show "0 \<le> dh_idHeapArray ?h ! k" "dh_idHeapArray ?h ! k < int (length ?D)"
      "dh_heapPosition ?h ! nat (dh_idHeapArray ?h ! k) = int k"
      using n(2) old[of k] neq[of k] xv lp r(2) by (cases; auto simp: DijkstraHeap_index_def)+
  qed (use r lp in auto)
  obtain h' where h': "DijkstraHeap_heapifyBottomUp ?D ?h (int n) = Some h'" "DijkstraHeap_index ?D (Suc n) h'"
    "dh_currentSize h' = int n" "DijkstraHeap_fresh h' = DijkstraHeap_fresh ?h"
    "take (Suc n) (dh_idHeapArray h') = sift_up (dist_key ?D) (?xs @ [x]) n"
    using idHeap.heapifyBottomUp_refines[OF idx lessI] n(1) tk by auto
  have fr: "DijkstraHeap_fresh ?h = DijkstraHeap_fresh h - {x}"
    using xv lp by (auto simp: DijkstraHeap_fresh_def nth_list_update)
  have xs: "length ?xs = n" using len by simp
  have "heap_ordered (dist_key ?D) ?xs"
  proof -
    have "dist_key ?D y = dist_key dist y" if y: "y \<in> set ?xs" for y
    proof -
      obtain k where "k < n" "dh_idHeapArray h ! k = y" using y by (auto simp: in_set_conv_nth)
      with neq[of k] show ?thesis by (simp add: dist_key_def)
    qed
    then show ?thesis using n(3) heap_ordered_cong by blast
  qed
  then have "hole_above (dist_key ?D) (?xs @ [x]) n" using hole_above_snoc xs by metis
  then have "heap_ordered (dist_key ?D) (take (Suc n) (dh_idHeapArray h'))" unfolding h'(5) by (rule sift_up_heap) (use xs in simp)
  moreover have "mset (take (Suc n) (dh_idHeapArray h')) = mset (?xs @ [x])"
    unfolding h'(5) by (rule sift_up_mset) (use xs in simp)
  from mset_eq_setD[OF this] have "set (take (Suc n) (dh_idHeapArray h')) = insert x (set ?xs)" by simp
  moreover have "nat (int n + 1) = Suc n" by simp
  ultimately show ?thesis using run h' n fr
    by (auto simp: DijkstraHeap_inv_def DijkstraHeap_index_def DijkstraHeap_list_def DijkstraHeap_elems_def
        DijkstraHeap_fresh_def)
qed

section \<open>The queue interface\<close>

text \<open>
  What a best-first search relies on: a queue of ids whose keys are kept in an array outside
  the queue. An id may be (re-)added while it is queued or when it was never queued before;
  its key may only decrease while it is queued.
\<close>

locale id_queue =
  fixes qinv :: "int list \<Rightarrow> 'q \<Rightarrow> bool"
    and qcap :: "'q \<Rightarrow> nat"
    and elems :: "'q \<Rightarrow> int set"
    and fresh :: "'q \<Rightarrow> int set"
    and reset :: "'q \<Rightarrow> 'q option"
    and isEmpty :: "'q \<Rightarrow> bool"
    and getNext :: "int list \<Rightarrow> 'q \<Rightarrow> (int \<times> 'q) option"
    and add :: "int list \<Rightarrow> 'q \<Rightarrow> int \<Rightarrow> 'q option"
  assumes reset_law: "qcap q = length dist \<Longrightarrow> \<exists>q'. reset q = Some q' \<and> qinv dist q' \<and> elems q' = {} \<and>
      fresh q' = {0..<int (length dist)} \<and> qcap q' = length dist"
    and isEmpty_law: "qinv dist q \<Longrightarrow> isEmpty q \<longleftrightarrow> elems q = {}"
    and elems_law: "qinv dist q \<Longrightarrow> x \<in> elems q \<Longrightarrow> 0 \<le> x \<and> x < int (length dist) \<and> x \<notin> fresh q"
    and getNext_law: "qinv dist q \<Longrightarrow> elems q \<noteq> {} \<Longrightarrow> \<exists>x q'. getNext dist q = Some (x, q') \<and> qinv dist q' \<and>
      x \<in> elems q \<and> elems q' = elems q - {x} \<and> fresh q' = fresh q \<and>
      (\<forall>y \<in> elems q. dist ! nat x \<le> dist ! nat y)"
    and add_law: "qinv dist q \<Longrightarrow> x \<in> elems q \<and> d \<le> dist ! nat x \<or> x \<in> fresh q \<Longrightarrow>
      \<exists>q'. add (dist[nat x := d]) q x = Some q' \<and> qinv (dist[nat x := d]) q' \<and>
        elems q' = insert x (elems q) \<and> fresh q' = fresh q - {x}"
    and qinv_cap: "qinv dist q \<Longrightarrow> qcap q = length dist"
begin

text \<open>How a search starts: after a reset and one addition, the queue holds the start only.\<close>

lemma start_queue:
  assumes "qcap q = length dist" "0 \<le> s" "s < int (length dist)"
  shows "\<exists>q1 q2. reset q = Some q1 \<and> add (dist[nat s := d]) q1 s = Some q2 \<and> qinv (dist[nat s := d]) q2 \<and>
    elems q2 = {s} \<and> fresh q2 = {0..<int (length dist)} - {s}"
proof -
  obtain q1 where q1: "reset q = Some q1" "qinv dist q1" "elems q1 = {}" "fresh q1 = {0..<int (length dist)}"
    using reset_law[OF assms(1)] by blast
  obtain q2 where "add (dist[nat s := d]) q1 s = Some q2" "qinv (dist[nat s := d]) q2"
    "elems q2 = insert s (elems q1)" "fresh q2 = fresh q1 - {s}"
    using add_law[OF q1(2), of s d] q1(4) assms by auto
  with q1 show ?thesis by auto
qed

lemma start_next:
  assumes "qcap q = length dist" "0 \<le> s" "s < int (length dist)"
  shows "\<exists>q1 q2 q3. reset q = Some q1 \<and> add (dist[nat s := d]) q1 s = Some q2 \<and>
    getNext (dist[nat s := d]) q2 = Some (s, q3) \<and> isEmpty q3"
proof -
  obtain q1 q2 where q: "reset q = Some q1" "add (dist[nat s := d]) q1 s = Some q2"
    "qinv (dist[nat s := d]) q2" "elems q2 = {s}"
    using start_queue[OF assms] by blast
  obtain x q3 where "getNext (dist[nat s := d]) q2 = Some (x, q3)" "qinv (dist[nat s := d]) q3" "x \<in> elems q2"
    "elems q3 = elems q2 - {x}"
    using getNext_law[OF q(3)] q(4) by auto
  with q isEmpty_law show ?thesis by auto
qed

end

interpretation dijkstraHeap: id_queue DijkstraHeap_inv "\<lambda>h. length (dh_heapPosition h)" DijkstraHeap_elems
  DijkstraHeap_fresh DijkstraHeap_resetState DijkstraHeap_isEmpty DijkstraHeap_getNext DijkstraHeap_add
proof unfold_locales
  show "\<exists>h'. DijkstraHeap_add (dist[nat x := d]) h x = Some h' \<and> DijkstraHeap_inv (dist[nat x := d]) h' \<and>
    DijkstraHeap_elems h' = insert x (DijkstraHeap_elems h) \<and> DijkstraHeap_fresh h' = DijkstraHeap_fresh h - {x}"
    if "DijkstraHeap_inv dist h" "x \<in> DijkstraHeap_elems h \<and> d \<le> dist ! nat x \<or> x \<in> DijkstraHeap_fresh h"
    for dist h x d
    using that(2)
  proof
    assume "x \<in> DijkstraHeap_elems h \<and> d \<le> dist ! nat x"
    then show ?thesis
      using DijkstraHeap_add_update[OF that(1), of x d] DijkstraHeap_elems_valid[OF that(1), of x]
      by (auto simp: insert_absorb)
  qed (rule DijkstraHeap_add_new[OF that(1)])
  show "length (dh_heapPosition h) = length dist" if "DijkstraHeap_inv dist h" for dist h
    using that by (simp add: DijkstraHeap_inv_def DijkstraHeap_index_def)
qed (use DijkstraHeap_resetState_ok DijkstraHeap_isEmpty_iff DijkstraHeap_elems_valid DijkstraHeap_getNext_ok in \<open>auto\<close>)

section \<open>Properties\<close>

text \<open>
  C19. \<open>getNext\<close> on a non-empty heap returns a queued id of smallest distance, removes
  exactly this id and keeps the class invariant (heap order and position index), whatever
  the distances are.
\<close>

theorem dijkstra_heap_getNext_minimum:
  assumes "DijkstraHeap_inv dist h" and "DijkstraHeap_elems h \<noteq> {}"
  shows "\<exists>x h'. DijkstraHeap_getNext dist h = Some (x, h') \<and> DijkstraHeap_inv dist h' \<and>
    x \<in> DijkstraHeap_elems h \<and> DijkstraHeap_elems h' = DijkstraHeap_elems h - {x} \<and>
    DijkstraHeap_fresh h' = DijkstraHeap_fresh h \<and>
    (\<forall>y \<in> DijkstraHeap_elems h. dist ! nat x \<le> dist ! nat y)"
  by (rule DijkstraHeap_getNext_ok[OF assms])

definition ex_heap :: DijkstraHeap where
  "ex_heap = \<lparr>dh_heapPosition = [1, -1, 0, 2], dh_idHeapArray = [2, 0, 3], dh_currentSize = 3\<rparr>"

lemma ex_heap_inv: "DijkstraHeap_inv [4, 9, 1, 6] ex_heap"
  by (auto simp: DijkstraHeap_inv_def DijkstraHeap_index_def heap_ordered_def ex_heap_def DijkstraHeap_list_def
      dist_key_def less_Suc_eq numeral_3_eq_3 numeral_2_eq_2)

lemma ex_heap_elems: "DijkstraHeap_elems ex_heap = {2, 0, 3}" "1 \<in> DijkstraHeap_fresh ex_heap"
  by (auto simp: DijkstraHeap_elems_def ex_heap_def DijkstraHeap_list_def DijkstraHeap_fresh_def)

theorem dijkstra_heap_getNext_minimum_witness:
  "DijkstraHeap_inv [4, 9, 1, 6] ex_heap \<and> DijkstraHeap_elems ex_heap \<noteq> {} \<and>
   (\<exists>h'. DijkstraHeap_getNext [4, 9, 1, 6] ex_heap = Some (2, h') \<and> DijkstraHeap_inv [4, 9, 1, 6] h' \<and>
     DijkstraHeap_elems h' = {0, 3})"
proof -
  obtain x h' where x: "DijkstraHeap_getNext [4, 9, 1, 6] ex_heap = Some (x, h')" "DijkstraHeap_inv [4, 9, 1, 6] h'"
    "x \<in> DijkstraHeap_elems ex_heap" "DijkstraHeap_elems h' = DijkstraHeap_elems ex_heap - {x}"
    "\<forall>y \<in> DijkstraHeap_elems ex_heap. [4, 9, 1, 6] ! nat x \<le> ([4, 9, 1, 6] :: int list) ! nat y"
    using dijkstra_heap_getNext_minimum[OF ex_heap_inv] ex_heap_elems(1) by blast
  have "x \<in> {2, 0, 3}" using x(3) by (simp only: ex_heap_elems)
  moreover have "[4, 9, 1, 6] ! nat x \<le> ([4, 9, 1, 6] :: int list) ! nat 2"
    using x(5) ex_heap_elems(1) by blast
  ultimately have "x = 2" by (elim insertE) simp_all
  moreover have "{2, 0, 3} - {2} = {0, 3 :: int}" by auto
  ultimately show ?thesis using x(1,2,4) ex_heap_inv ex_heap_elems(1) by simp
qed

text \<open>
  C20. \<open>add\<close> is insertion and decrease-key in one: after the router has stored a distance for
  an id that was never queued, or a smaller one for an id that is queued, \<open>add\<close> restores
  the class invariant for the new distances and the id is queued exactly once. The backing
  array grows when it is full.
\<close>

theorem dijkstra_heap_add_decrease:
  assumes "DijkstraHeap_inv dist h"
    and "x \<in> DijkstraHeap_elems h \<and> d \<le> dist ! nat x \<or> x \<in> DijkstraHeap_fresh h"
  shows "\<exists>h'. DijkstraHeap_add (dist[nat x := d]) h x = Some h' \<and> DijkstraHeap_inv (dist[nat x := d]) h' \<and>
    DijkstraHeap_elems h' = insert x (DijkstraHeap_elems h) \<and>
    DijkstraHeap_fresh h' = DijkstraHeap_fresh h - {x}"
  by (rule dijkstraHeap.add_law[OF assms])

theorem dijkstra_heap_add_decrease_witness:
  "DijkstraHeap_inv [4, 9, 1, 6] ex_heap \<and> 1 \<in> DijkstraHeap_fresh ex_heap \<and>
   (\<exists>h'. DijkstraHeap_add [4, 0, 1, 6] ex_heap 1 = Some h' \<and> DijkstraHeap_inv [4, 0, 1, 6] h' \<and>
     DijkstraHeap_elems h' = {0, 1, 2, 3})"
  using dijkstra_heap_add_decrease[OF ex_heap_inv, of 1 0] ex_heap_inv ex_heap_elems by auto

text \<open>
  The position of an id that was taken from the heap is not reset: it keeps a stale value
  although the field's comment promises -1 for ids that are not on the heap.
\<close>

lemma getNext_keeps_position:
  "DijkstraHeap_getNext [5] \<lparr>dh_heapPosition = [0], dh_idHeapArray = [0], dh_currentSize = 1\<rparr>
     = Some (0, \<lparr>dh_heapPosition = [0], dh_idHeapArray = [-1], dh_currentSize = 0\<rparr>)"
  by code_simp

end
