(* ===== verification/DijkstraRouter.thy ===== *)
theory DijkstraRouter
  imports RoutingResult DijkstraHeap
begin

text \<open>
  The class \<open>router/DijkstraRouter.java\<close>, on the heap of \<open>DijkstraHeap\<close> and the grid of
  \<open>GridData\<close>. The state keeps the three arrays and the heap; \<open>route\<close> resets it, runs the
  search until the destination is settled or the heap is empty, and reads the path off the
  predecessor array. The two readings of \<open>System.nanoTime\<close> are arguments.

  \<open>router_rel\<close> relates the arrays to the search of \<open>Graphs.best_first\<close>.
\<close>

record DijkstraRouter =
  dr_currDistanceToNode :: "int list"
  dr_previousNode :: "int list"
  dr_nodeTouched :: "bool list"
  dr_vertexHeap :: DijkstraHeap

definition DijkstraRouter_new :: "Grid \<Rightarrow> DijkstraRouter option" where
  "DijkstraRouter_new g = do {
     dist \<leftarrow> newArray (Node_getSize (gr_node g)) 0;
     prev \<leftarrow> newArray (Node_getSize (gr_node g)) 0;
     touched \<leftarrow> newArray (Node_getSize (gr_node g)) False;
     heap \<leftarrow> DijkstraHeap_new (Node_getSize (gr_node g));
     Some \<lparr>dr_currDistanceToNode = fillAll dist MAX_VALUE, dr_previousNode = fillAll prev (-1),
           dr_nodeTouched = fillAll touched False, dr_vertexHeap = heap\<rparr>
   }"

definition DijkstraRouter_resetState :: "DijkstraRouter \<Rightarrow> DijkstraRouter option" where
  "DijkstraRouter_resetState r = do {
     heap \<leftarrow> DijkstraHeap_resetState (dr_vertexHeap r);
     Some \<lparr>dr_currDistanceToNode = fillAll (dr_currDistanceToNode r) MAX_VALUE,
           dr_previousNode = fillAll (dr_previousNode r) (-1),
           dr_nodeTouched = fillAll (dr_nodeTouched r) False, dr_vertexHeap = heap\<rparr>
   }"

definition DijkstraRouter_relax :: "Grid \<Rightarrow> int \<Rightarrow> int \<Rightarrow> DijkstraRouter \<Rightarrow> DijkstraRouter option" where
  "DijkstraRouter_relax g nodeToHandleId neighbourEdgeId r = do {
     destinationVertexId \<leftarrow> Edge_getDest (gr_edge g) neighbourEdgeId;
     touched \<leftarrow> aget (dr_nodeTouched r) destinationVertexId;
     if touched then Some r
     else do {
       d \<leftarrow> aget (dr_currDistanceToNode r) nodeToHandleId;
       w \<leftarrow> Edge_getDist (gr_edge g) neighbourEdgeId;
       let newDistanceOverThisEdgeToDestVertex = jadd d w;
       old \<leftarrow> aget (dr_currDistanceToNode r) destinationVertexId;
       if newDistanceOverThisEdgeToDestVertex < old then do {
         dist \<leftarrow> aset (dr_currDistanceToNode r) destinationVertexId newDistanceOverThisEdgeToDestVertex;
         prev \<leftarrow> aset (dr_previousNode r) destinationVertexId nodeToHandleId;
         heap \<leftarrow> DijkstraHeap_add dist (dr_vertexHeap r) destinationVertexId;
         Some (r\<lparr>dr_currDistanceToNode := dist, dr_previousNode := prev, dr_vertexHeap := heap\<rparr>)
       } else Some r
     }
   }"

definition DijkstraRouter_scan :: "Grid \<Rightarrow> int \<Rightarrow> DijkstraRouter \<Rightarrow> DijkstraRouter option" where
  "DijkstraRouter_scan g nodeToHandleId r = do {
     lo \<leftarrow> Grid_offsetAt g nodeToHandleId;
     hi \<leftarrow> Grid_offsetAt g (nodeToHandleId + 1);
     for_range lo hi (DijkstraRouter_relax g nodeToHandleId) r
   }"

partial_function (option) DijkstraRouter_search ::
    "Grid \<Rightarrow> int \<Rightarrow> DijkstraRouter \<Rightarrow> (bool \<times> DijkstraRouter) option" where
  "DijkstraRouter_search g destNodeIdx r =
     (if DijkstraHeap_isEmpty (dr_vertexHeap r) then Some (False, r)
      else do {
        (nodeToHandleId, heap) \<leftarrow> DijkstraHeap_getNext (dr_currDistanceToNode r) (dr_vertexHeap r);
        touched \<leftarrow> aset (dr_nodeTouched r) nodeToHandleId True;
        let r = r\<lparr>dr_vertexHeap := heap, dr_nodeTouched := touched\<rparr>;
        if nodeToHandleId = destNodeIdx then Some (True, r)
        else do {
          r \<leftarrow> DijkstraRouter_scan g nodeToHandleId r;
          DijkstraRouter_search g destNodeIdx r
        }
      })"

partial_function (option) DijkstraRouter_collect ::
    "int list \<Rightarrow> int \<Rightarrow> int \<Rightarrow> int list \<Rightarrow> int list option" where
  "DijkstraRouter_collect previousNode startNodeIdx currNode path =
     (if currNode \<noteq> startNodeIdx then do {
        previousNodeIdx \<leftarrow> aget previousNode currNode;
        DijkstraRouter_collect previousNode startNodeIdx previousNodeIdx (path @ [previousNodeIdx])
      } else Some path)"

declare DijkstraRouter_search.simps [code] DijkstraRouter_collect.simps [code]

definition DijkstraRouter_route ::
    "Grid \<Rightarrow> bool \<Rightarrow> HubLNodes \<Rightarrow> int \<Rightarrow> int \<Rightarrow> DijkstraRouter \<Rightarrow> int \<Rightarrow> int \<Rightarrow>
     (RoutingResult \<times> DijkstraRouter) option" where
  "DijkstraRouter_route g useHL hn startTime stopTime r startNodeIdx destNodeIdx = do {
     r \<leftarrow> DijkstraRouter_resetState r;
     dist \<leftarrow> aset (dr_currDistanceToNode r) startNodeIdx 0;
     prev \<leftarrow> aset (dr_previousNode r) startNodeIdx startNodeIdx;
     heap \<leftarrow> DijkstraHeap_add dist (dr_vertexHeap r) startNodeIdx;
     (routeFound, r) \<leftarrow> DijkstraRouter_search g destNodeIdx
       (r\<lparr>dr_currDistanceToNode := dist, dr_previousNode := prev, dr_vertexHeap := heap\<rparr>);
     let time = real_of_int (stopTime - startTime) / 1000000;
     if routeFound then do {
       path \<leftarrow> DijkstraRouter_collect (dr_previousNode r) startNodeIdx destNodeIdx [destNodeIdx];
       d \<leftarrow> aget (dr_currDistanceToNode r) destNodeIdx;
       res \<leftarrow> RoutingResult_ofPath useHL (gr_node g) hn (rev path) d time;
       Some (res, r)
     } else Some (RoutingResult_ofTime time False, r)
   }"

section \<open>The arrays and the search\<close>

definition array_map :: "int list \<Rightarrow> int \<Rightarrow> int" where
  "array_map xs v = (if 0 \<le> v then xs ! nat v else MAX_VALUE)"

lemma array_map_update:
  "0 \<le> x \<Longrightarrow> x < int (length xs) \<Longrightarrow> array_map (xs[nat x := d]) = (array_map xs)(x := d)"
  by (auto simp: array_map_def fun_eq_iff nth_list_update)

lemma array_map_nth [simp]: "0 \<le> v \<Longrightarrow> array_map xs v = xs ! nat v"
  by (simp add: array_map_def)

text \<open>The sizes every router of a grid keeps between two requests.\<close>

definition DijkstraRouter_sized :: "Grid \<Rightarrow> DijkstraRouter \<Rightarrow> bool" where
  "DijkstraRouter_sized g r \<longleftrightarrow>
     length (dr_currDistanceToNode r) = length (nd_latitude (gr_node g)) \<and>
     length (dr_previousNode r) = length (nd_latitude (gr_node g)) \<and>
     length (dr_nodeTouched r) = length (nd_latitude (gr_node g)) \<and>
     length (dh_heapPosition (dr_vertexHeap r)) = length (nd_latitude (gr_node g))"

definition router_rel :: "Grid \<Rightarrow> int \<Rightarrow> DijkstraRouter \<Rightarrow> int list \<Rightarrow> (int \<times> int) list \<Rightarrow> bool" where
  "router_rel g s r S todo \<longleftrightarrow> DijkstraRouter_sized g r \<and>
     DijkstraHeap_inv (dr_currDistanceToNode r) (dr_vertexHeap r) \<and>
     search_inv (Grid_adj g) (Grid_nodes g) s (array_map (dr_currDistanceToNode r))
       (array_map (dr_previousNode r)) S (DijkstraHeap_elems (dr_vertexHeap r)) todo \<and>
     DijkstraHeap_fresh (dr_vertexHeap r) =
       Grid_nodes g - (set S \<union> DijkstraHeap_elems (dr_vertexHeap r)) \<and>
     (\<forall>v \<in> Grid_nodes g. dr_nodeTouched r ! nat v \<longleftrightarrow> v \<in> set S)"

lemma node_bounds:
  assumes "DijkstraRouter_sized g r" "v \<in> Grid_nodes g"
  shows "0 \<le> v" "nat v < length (dr_currDistanceToNode r)" "v < int (length (dr_currDistanceToNode r))"
    "nat v < length (dr_previousNode r)" "v < int (length (dr_previousNode r))"
    "nat v < length (dr_nodeTouched r)" "v < int (length (dr_nodeTouched r))"
  using assms by (auto simp: DijkstraRouter_sized_def Grid_nodes_def Node_getSize_def)

text \<open>
  A request is routable when the grid is well-formed, the start is a node and distances fit. The
  search of a request that is not is the search of an isolated node, so that the laws of
  \<open>best_first\<close> hold for every grid and start.
\<close>

definition routable :: "Grid \<Rightarrow> int \<Rightarrow> bool" where
  "routable g s \<longleftrightarrow> Grid_wf g \<and> s \<in> Grid_nodes g \<and> distances_fit (Grid_adj g) s"

definition search_adj :: "Grid \<Rightarrow> int \<Rightarrow> adjacency" where
  "search_adj g s = (if routable g s then Grid_adj g else (\<lambda>_. []))"

definition search_nodes :: "Grid \<Rightarrow> int \<Rightarrow> int set" where
  "search_nodes g s = (if routable g s then Grid_nodes g else {s})"

lemma distances_fit_isolated: "distances_fit (\<lambda>_. []) s"
  unfolding distances_fit_def reachable_def by auto

interpretation grid_search: best_first "search_adj g s" "search_nodes g s" s for g s
proof
  fix u v w assume "u \<in> search_nodes g s" "(v, w) \<in> set (search_adj g s u)"
  then show "v \<in> search_nodes g s \<and> 0 \<le> w"
    using Grid_adj_closed by (auto simp: search_nodes_def search_adj_def routable_def split: if_splits)
next
  show "s \<in> search_nodes g s" by (simp add: search_nodes_def routable_def)
  show "distances_fit (search_adj g s) s" by (simp add: search_adj_def distances_fit_isolated) (simp add: routable_def)
qed

lemma grid_best_first:
  assumes "Grid_wf g" "s \<in> Grid_nodes g" "distances_fit (Grid_adj g) s"
  shows "best_first (Grid_adj g) (Grid_nodes g) s"
  using grid_search.best_first_axioms[of g s] assms by (simp add: search_adj_def search_nodes_def routable_def)

text \<open>One pass of the inner loop is one relaxation.\<close>

lemma relax_step:
  assumes bf: "best_first (Grid_adj g) (Grid_nodes g) s" and wf: "Grid_wf g"
    and rel: "router_rel g s r (u # S) ((v, w) # todo)" and u: "u \<in> Grid_nodes g"
    and e: "e \<in> set (Grid_range g u)"
    and vw: "v = ed_destNode (gr_edge g) ! nat e" "w = ed_dist (gr_edge g) ! nat e"
  shows "\<exists>r'. DijkstraRouter_relax g u e r = Some r' \<and> router_rel g s r' (u # S) todo"
proof -
  let ?d = "dr_currDistanceToNode r" let ?q = "dr_vertexHeap r" let ?p = "dr_previousNode r"
  have sz: "DijkstraRouter_sized g r" and hinv: "DijkstraHeap_inv ?d ?q"
    and inv: "search_inv (Grid_adj g) (Grid_nodes g) s (array_map ?d) (array_map ?p) (u # S)
      (DijkstraHeap_elems ?q) ((v, w) # todo)"
    and fr: "DijkstraHeap_fresh ?q = Grid_nodes g - (set (u # S) \<union> DijkstraHeap_elems ?q)"
    and t: "\<And>x. x \<in> Grid_nodes g \<Longrightarrow> dr_nodeTouched r ! nat x \<longleftrightarrow> x \<in> set (u # S)"
    using rel by (auto simp: router_rel_def)
  have ew: "Edge_getDest (gr_edge g) e = Some v" "Edge_getDist (gr_edge g) e = Some w" "v \<in> Grid_nodes g" "0 \<le> w"
    using Grid_wf_edge[OF wf u e] vw by auto
  have vadj: "(v, w) \<in> set (Grid_adj g u)" using e vw by (auto simp: Grid_adj_def)
  note bu = node_bounds[OF sz u] and bv = node_bounds[OF sz ew(3)]
  note I = search_invD[OF inv]
  have "0 \<le> ?d ! nat u" "?d ! nat u + w < MAX_VALUE" using I(6)[OF u] I(11)[OF _ vadj] bu by auto
  then have nd: "jadd (?d ! nat u) w = ?d ! nat u + w" using ew(4) by (simp add: jadd_exact)
  have run: "DijkstraRouter_relax g u e r =
      (if v \<in> set (u # S) then Some r
       else if ?d ! nat u + w < ?d ! nat v then do {
         heap \<leftarrow> DijkstraHeap_add (?d[nat v := ?d ! nat u + w]) ?q v;
         Some (r\<lparr>dr_currDistanceToNode := ?d[nat v := ?d ! nat u + w], dr_previousNode := ?p[nat v := u], dr_vertexHeap := heap\<rparr>)
       } else Some r)"
    using t[OF ew(3)] bu bv nd by (simp add: DijkstraRouter_relax_def ew(1,2) java Let_def del: set_simps)
  show ?thesis
  proof (cases "v \<in> set (u # S) \<or> ?d ! nat v \<le> ?d ! nat u + w")
    case True
    then have "router_rel g s r (u # S) todo"
      using best_first.relax_keep[OF bf inv vadj] sz hinv fr t bu bv by (auto simp: router_rel_def)
    then show ?thesis using run True by auto
  next
    case False
    let ?D = "?d[nat v := ?d ! nat u + w]"
    have "v \<in> DijkstraHeap_elems ?q \<and> ?d ! nat u + w \<le> ?d ! nat v \<or> v \<in> DijkstraHeap_fresh ?q"
      using False fr ew(3) by auto
    then obtain q where q: "DijkstraHeap_add ?D ?q v = Some q" "DijkstraHeap_inv ?D q"
      "DijkstraHeap_elems q = insert v (DijkstraHeap_elems ?q)" "DijkstraHeap_fresh q = DijkstraHeap_fresh ?q - {v}"
      using dijkstraHeap.add_law[OF hinv] by blast
    let ?r = "r\<lparr>dr_currDistanceToNode := ?D, dr_previousNode := ?p[nat v := u], dr_vertexHeap := q\<rparr>"
    have "search_inv (Grid_adj g) (Grid_nodes g) s (array_map ?D) (array_map (?p[nat v := u])) (u # S)
      (DijkstraHeap_elems q) todo"
      using best_first.relax_update[OF bf inv vadj] False bu bv q(3)
      by (simp add: array_map_update[OF bv(1,3)] array_map_update[OF bv(1,5)] del: set_simps)
    moreover have "DijkstraRouter_sized g ?r"
      using sz q(2) by (auto simp: DijkstraRouter_sized_def dest: dijkstraHeap.qinv_cap)
    ultimately have "router_rel g s ?r (u # S) todo"
      using q fr t by (auto simp: router_rel_def)
    then show ?thesis using run False q(1) by auto
  qed
qed

lemma scan_ok:
  assumes bf: "best_first (Grid_adj g) (Grid_nodes g) s" and wf: "Grid_wf g"
    and rel: "router_rel g s r (u # S) (Grid_adj g u)" and u: "u \<in> Grid_nodes g"
  shows "\<exists>r'. DijkstraRouter_scan g u r = Some r' \<and> router_rel g s r' (u # S) []"
proof -
  obtain lo hi where r: "Grid_offsetAt g u = Some lo" "Grid_offsetAt g (u + 1) = Some hi" "Grid_range g u = [lo..hi - 1]"
    by (rule Grid_wf_edges[OF wf u])
  let ?es = "Grid_range g u"
  have "\<exists>r'. for_list ?es (DijkstraRouter_relax g u) r = Some r' \<and>
      router_rel g s r' (u # S) (drop (length ?es) (Grid_adj g u))"
  proof (rule for_list_rule[where I = "\<lambda>k r. router_rel g s r (u # S) (drop k (Grid_adj g u))"])
    fix k r assume k: "k < length ?es" and "router_rel g s r (u # S) (drop k (Grid_adj g u))"
    moreover have "drop k (Grid_adj g u) =
        (ed_destNode (gr_edge g) ! nat (?es ! k), ed_dist (gr_edge g) ! nat (?es ! k)) # drop (Suc k) (Grid_adj g u)"
      using k Cons_nth_drop_Suc[of k "Grid_adj g u"] by (simp add: Grid_adj_def)
    ultimately show "\<exists>r'. DijkstraRouter_relax g u (?es ! k) r = Some r' \<and>
        router_rel g s r' (u # S) (drop (Suc k) (Grid_adj g u))"
      using relax_step[OF bf wf _ u nth_mem[OF k] refl refl] by simp
  qed (use rel in simp)
  then show ?thesis using r by (simp add: DijkstraRouter_scan_def for_range_def Grid_adj_def)
qed

text \<open>Taking the next node from the heap settles it.\<close>

lemma next_step:
  assumes bf: "best_first (Grid_adj g) (Grid_nodes g) s"
    and rel: "router_rel g s r S []" and ne: "\<not> DijkstraHeap_isEmpty (dr_vertexHeap r)"
  obtains x q where "DijkstraHeap_getNext (dr_currDistanceToNode r) (dr_vertexHeap r) = Some (x, q)"
    "x \<in> Grid_nodes g" "x \<notin> set S"
    "aset (dr_nodeTouched r) x True = Some ((dr_nodeTouched r)[nat x := True])"
    "router_rel g s (r\<lparr>dr_vertexHeap := q, dr_nodeTouched := (dr_nodeTouched r)[nat x := True]\<rparr>) (x # S) (Grid_adj g x)"
    "\<forall>p c. walk (Grid_adj g) s p c \<and> last p = x \<longrightarrow> dr_currDistanceToNode r ! nat x \<le> c"
proof -
  let ?d = "dr_currDistanceToNode r" let ?q = "dr_vertexHeap r" let ?p = "dr_previousNode r"
  have sz: "DijkstraRouter_sized g r" and hinv: "DijkstraHeap_inv ?d ?q"
    and inv: "search_inv (Grid_adj g) (Grid_nodes g) s (array_map ?d) (array_map ?p) S (DijkstraHeap_elems ?q) []"
    and fr: "DijkstraHeap_fresh ?q = Grid_nodes g - (set S \<union> DijkstraHeap_elems ?q)"
    and t: "\<And>x. x \<in> Grid_nodes g \<Longrightarrow> dr_nodeTouched r ! nat x \<longleftrightarrow> x \<in> set S"
    using rel by (auto simp: router_rel_def)
  obtain x q where q: "DijkstraHeap_getNext ?d ?q = Some (x, q)" "DijkstraHeap_inv ?d q"
    "x \<in> DijkstraHeap_elems ?q" "DijkstraHeap_elems q = DijkstraHeap_elems ?q - {x}"
    "DijkstraHeap_fresh q = DijkstraHeap_fresh ?q" "\<forall>y \<in> DijkstraHeap_elems ?q. ?d ! nat x \<le> ?d ! nat y"
    using dijkstraHeap.getNext_law[OF hinv] dijkstraHeap.isEmpty_law[OF hinv] ne by blast
  note I = search_invD[OF inv]
  have x: "x \<in> Grid_nodes g" "x \<notin> set S" using q(3) I(2,3) by auto
  note bx = node_bounds[OF sz x(1)]
  have pos: "0 \<le> y" if "y \<in> DijkstraHeap_elems ?q" for y
    using dijkstraHeap.elems_law[OF hinv that] by simp
  have min: "array_map ?d x \<le> array_map ?d y" if "y \<in> DijkstraHeap_elems ?q" for y
    using q(6) that pos[OF that] bx by simp
  have reach: "reachable (Grid_adj g) s x"
    using best_first.frontier_reachable[OF bf inv] q(3) by simp
  have st1: "search_inv (Grid_adj g) (Grid_nodes g) s (array_map ?d) (array_map ?p) (x # S)
      (DijkstraHeap_elems ?q - {x}) (Grid_adj g x)"
    by (rule best_first.settle(1)[OF bf inv q(3) min reach])
  have st2: "array_map ?d x \<le> c" if "walk (Grid_adj g) s p c" "last p = x" for p c
    by (rule best_first.settle(2)[OF bf inv q(3) min reach that])
  let ?r = "r\<lparr>dr_vertexHeap := q, dr_nodeTouched := (dr_nodeTouched r)[nat x := True]\<rparr>"
  have "DijkstraRouter_sized g ?r"
    using sz q(2) by (auto simp: DijkstraRouter_sized_def dest: dijkstraHeap.qinv_cap)
  moreover have "dr_nodeTouched ?r ! nat v \<longleftrightarrow> v \<in> set (x # S)" if "v \<in> Grid_nodes g" for v
    using t[OF that] bx node_bounds[OF sz that] by (auto simp: nth_list_update)
  ultimately have "router_rel g s ?r (x # S) (Grid_adj g x)"
    using q st1 fr by (auto simp: router_rel_def)
  moreover have "\<forall>p c. walk (Grid_adj g) s p c \<and> last p = x \<longrightarrow> ?d ! nat x \<le> c"
    using st2 unfolding array_map_nth[OF bx(1)] by blast
  ultimately show thesis using that q(1) x bx by (simp add: java)
qed

lemma search_ok:
  assumes bf: "best_first (Grid_adj g) (Grid_nodes g) s" and wf: "Grid_wf g"
    and "router_rel g s r S []" "t \<notin> set S"
  shows "\<exists>found r'. DijkstraRouter_search g t r = Some (found, r') \<and> DijkstraRouter_sized g r' \<and>
    (if found then \<exists>S' todo. router_rel g s r' (t # S') todo \<and>
        (\<forall>p c. walk (Grid_adj g) s p c \<and> last p = t \<longrightarrow> dr_currDistanceToNode r' ! nat t \<le> c)
     else \<not> reachable (Grid_adj g) s t)"
  using assms(3,4)
proof (induction "card (Grid_nodes g - set S)" arbitrary: r S rule: less_induct)
  case less
  show ?case
  proof (cases "DijkstraHeap_isEmpty (dr_vertexHeap r)")
    case True
    have "DijkstraHeap_inv (dr_currDistanceToNode r) (dr_vertexHeap r)" using less.prems by (simp add: router_rel_def)
    then have "DijkstraHeap_elems (dr_vertexHeap r) = {}" using dijkstraHeap.isEmpty_law True by blast
    then have "\<not> reachable (Grid_adj g) s t"
      using less.prems best_first.exhausted[OF bf] by (auto simp: router_rel_def)
    moreover have "DijkstraRouter_search g t r = Some (False, r)"
      using True by (subst DijkstraRouter_search.simps) simp
    ultimately show ?thesis using less.prems
      by (intro exI[of _ False] exI[of _ r]) (simp add: router_rel_def)
  next
    case False
    let ?d = "dr_currDistanceToNode r"
    obtain x q where x: "DijkstraHeap_getNext ?d (dr_vertexHeap r) = Some (x, q)"
      "x \<in> Grid_nodes g" "x \<notin> set S"
      "aset (dr_nodeTouched r) x True = Some ((dr_nodeTouched r)[nat x := True])"
      "router_rel g s (r\<lparr>dr_vertexHeap := q, dr_nodeTouched := (dr_nodeTouched r)[nat x := True]\<rparr>) (x # S) (Grid_adj g x)"
      "\<forall>p c. walk (Grid_adj g) s p c \<and> last p = x \<longrightarrow> ?d ! nat x \<le> c"
      by (rule next_step[OF bf less.prems(1) False])
    let ?r = "r\<lparr>dr_vertexHeap := q, dr_nodeTouched := (dr_nodeTouched r)[nat x := True]\<rparr>"
    have run: "DijkstraRouter_search g t r =
        (if x = t then Some (True, ?r) else do { r \<leftarrow> DijkstraRouter_scan g x ?r; DijkstraRouter_search g t r })"
      using False x(1,4) by (subst DijkstraRouter_search.simps) simp
    show ?thesis
    proof (cases "x = t")
      case True
      have opt: "\<forall>p c. walk (Grid_adj g) s p c \<and> last p = t \<longrightarrow> dr_currDistanceToNode ?r ! nat t \<le> c"
        using x(6) unfolding True by simp
      have rel: "router_rel g s ?r (t # S) (Grid_adj g t)" using x(5) unfolding True .
      show ?thesis
      proof (intro exI[of _ True] exI[of _ ?r] conjI)
        show "DijkstraRouter_search g t r = Some (True, ?r)" using run True by simp
        show "DijkstraRouter_sized g ?r" using rel unfolding router_rel_def by blast
        show "if True then \<exists>S' todo. router_rel g s ?r (t # S') todo \<and>
            (\<forall>p c. walk (Grid_adj g) s p c \<and> last p = t \<longrightarrow> dr_currDistanceToNode ?r ! nat t \<le> c)
          else \<not> reachable (Grid_adj g) s t"
          unfolding if_True by (rule exI, rule exI, rule conjI[OF rel opt])
      qed
    next
      case ne: False
      obtain r' where r': "DijkstraRouter_scan g x ?r = Some r'" "router_rel g s r' (x # S) []"
        using scan_ok[OF bf wf x(5,2)] by blast
      have "card (Grid_nodes g - set (x # S)) < card (Grid_nodes g - set S)"
      proof -
        have "finite (Grid_nodes g - set S)" by (simp add: Grid_nodes_def)
        moreover have "Grid_nodes g - set (x # S) = (Grid_nodes g - set S) - {x}" by auto
        ultimately show ?thesis using card_Diff1_less[of "Grid_nodes g - set S" x] x(2,3) by simp
      qed
      moreover have "t \<notin> set (x # S)" using ne less.prems(2) by simp
      moreover have "DijkstraRouter_search g t r = DijkstraRouter_search g t r'" using run ne r'(1) by simp
      ultimately show ?thesis using less.hyps[OF _ r'(2)] by simp
    qed
  qed
qed

section \<open>The path\<close>

lemma collect_ok:
  assumes "settle_order (array_map prev) s S" "x \<in> set S" "\<forall>v \<in> set S. 0 \<le> v \<and> v < int (length prev)"
    and "\<And>v. v \<in> set S \<Longrightarrow> v \<noteq> s \<Longrightarrow> \<exists>w. (v, w) \<in> set (adj (array_map prev v)) \<and> D v = D (array_map prev v) + w"
    and "D s = 0"
  shows "\<exists>q. DijkstraRouter_collect prev s x path = Some (path @ q) \<and> walk adj s (rev q @ [x]) (D x)"
  using assms
proof (induction S arbitrary: x path)
  case (Cons y S)
  show ?case
  proof (cases "x = s")
    case True
    then show ?thesis using Cons.prems(5)
      by (intro exI[of _ "[]"]) (simp add: DijkstraRouter_collect.simps)
  next
    case False
    have IH: "\<exists>q. DijkstraRouter_collect prev s z path = Some (path @ q) \<and> walk adj s (rev q @ [z]) (D z)"
      if "z \<in> set S" for z path
    proof (rule Cons.IH[OF _ that])
      show "settle_order (array_map prev) s S" "\<forall>v \<in> set S. 0 \<le> v \<and> v < int (length prev)"
        using Cons.prems(1,3) by auto
      show "\<exists>w. (v, w) \<in> set (adj (array_map prev v)) \<and> D v = D (array_map prev v) + w"
        if "v \<in> set S" "v \<noteq> s" for v using Cons.prems(4)[of v] that by simp
    qed (rule Cons.prems(5))
    show ?thesis
    proof (cases "x = y")
      case xy: True
      let ?z = "array_map prev x"
      have x: "0 \<le> x" "x < int (length prev)" using Cons.prems(2,3) by auto
      have "?z \<in> set S" using Cons.prems(1) xy False by simp
      then obtain q where q: "DijkstraRouter_collect prev s ?z (path @ [?z]) = Some ((path @ [?z]) @ q)"
        "walk adj s (rev q @ [?z]) (D ?z)" using IH by blast
      obtain w where w: "(x, w) \<in> set (adj ?z)" "D x = D ?z + w"
        using Cons.prems(4)[OF Cons.prems(2) False] by blast
      have "walk adj s ((rev q @ [?z]) @ [x]) (D x)" unfolding w(2) by (rule walk_step[OF q(2)]) (use w in simp)
      moreover have "DijkstraRouter_collect prev s x path = DijkstraRouter_collect prev s ?z (path @ [?z])"
        using False x by (subst DijkstraRouter_collect.simps) (simp add: java)
      ultimately show ?thesis using q(1) by (intro exI[of _ "?z # q"]) simp
    next
      case xy: False
      then show ?thesis using IH Cons.prems(2) by simp
    qed
  qed
qed simp

lemma route_start:
  assumes sz: "DijkstraRouter_sized g r" and s: "s \<in> Grid_nodes g"
    and bf: "best_first (Grid_adj g) (Grid_nodes g) s"
  shows "\<exists>r1 q. DijkstraRouter_resetState r = Some r1 \<and>
    aset (dr_currDistanceToNode r1) s 0 = Some ((dr_currDistanceToNode r1)[nat s := 0]) \<and>
    aset (dr_previousNode r1) s s = Some ((dr_previousNode r1)[nat s := s]) \<and>
    DijkstraHeap_add ((dr_currDistanceToNode r1)[nat s := 0]) (dr_vertexHeap r1) s = Some q \<and>
    router_rel g s (r1\<lparr>dr_currDistanceToNode := (dr_currDistanceToNode r1)[nat s := 0],
      dr_previousNode := (dr_previousNode r1)[nat s := s], dr_vertexHeap := q\<rparr>) [] []"
proof -
  let ?d = "fillAll (dr_currDistanceToNode r) MAX_VALUE"
  let ?p = "fillAll (dr_previousNode r) (-1::int)" and ?t = "fillAll (dr_nodeTouched r) False"
  let ?D = "?d[nat s := 0]"
  note bs = node_bounds[OF sz s]
  have cap: "length (dh_heapPosition (dr_vertexHeap r)) = length ?d" using sz by (simp add: DijkstraRouter_sized_def)
  obtain q1 q where q: "DijkstraHeap_resetState (dr_vertexHeap r) = Some q1" "DijkstraHeap_add ?D q1 s = Some q"
    "DijkstraHeap_inv ?D q" "DijkstraHeap_elems q = {s}" "DijkstraHeap_fresh q = {0..<int (length ?d)} - {s}"
    using dijkstraHeap.start_queue[OF cap bs(1), of 0] bs by auto
  let ?r1 = "\<lparr>dr_currDistanceToNode = ?d, dr_previousNode = ?p, dr_nodeTouched = ?t, dr_vertexHeap = q1\<rparr>"
  let ?r = "?r1\<lparr>dr_currDistanceToNode := ?D, dr_previousNode := ?p[nat s := s], dr_vertexHeap := q\<rparr>"
  have reset: "DijkstraRouter_resetState r = Some ?r1" using q(1) by (simp add: DijkstraRouter_resetState_def)
  have "search_inv (Grid_adj g) (Grid_nodes g) s (array_map ?D) (array_map (?p[nat s := s])) [] {s} []"
  proof (rule best_first.initial[OF bf])
    show "array_map ?D s = 0" using bs by simp
    show "array_map ?D v = MAX_VALUE" if "v \<in> Grid_nodes g" "v \<noteq> s" for v
      using node_bounds[OF sz that(1)] bs that(2) by (simp add: nat_eq_iff)
  qed
  moreover have "DijkstraRouter_sized g ?r"
    using sz dijkstraHeap.qinv_cap[OF q(3)] by (simp add: DijkstraRouter_sized_def)
  moreover have "\<forall>v \<in> Grid_nodes g. \<not> ?t ! nat v" using node_bounds[OF sz] by simp
  moreover have "Grid_nodes g = {0..<int (length ?d)}"
    using sz by (auto simp: Grid_nodes_def Node_getSize_def DijkstraRouter_sized_def)
  ultimately have "router_rel g s ?r [] []" using q by (simp add: router_rel_def)
  with reset q(2) bs show ?thesis by (simp add: java)
qed

definition Grid_coord :: "Grid \<Rightarrow> int \<Rightarrow> real list" where
  "Grid_coord g x = [nd_latitude (gr_node g) ! nat x, nd_longitude (gr_node g) ! nat x]"

lemma walk_nodes:
  assumes "best_first (Grid_adj g) (Grid_nodes g) s" "walk (Grid_adj g) s p c"
  shows "set p \<subseteq> Grid_nodes g"
  using assms(2)
proof induction
  case (walk_step p c v w)
  then have "last p \<in> Grid_nodes g" using walk_nonempty by fastforce
  then show ?case using walk_step best_first.closed[OF assms(1)] by auto
qed (use best_first.start[OF assms(1)] in simp)

lemma route_found:
  assumes bf: "best_first (Grid_adj g) (Grid_nodes g) s" and wf: "Grid_wf g"
    and rel: "router_rel g s r (t # S) todo"
    and opt: "\<forall>p c. walk (Grid_adj g) s p c \<and> last p = t \<longrightarrow> dr_currDistanceToNode r ! nat t \<le> c"
  shows "\<exists>path d. DijkstraRouter_collect (dr_previousNode r) s t [t] = Some path \<and>
    aget (dr_currDistanceToNode r) t = Some d \<and> shortest_walk (Grid_adj g) s t (rev path) d \<and>
    RoutingResult_ofPath False (gr_node g) hn (rev path) d time =
      Some \<lparr>rr_path = Some (rev path), rr_pathCoordinates = Some (map (Grid_coord g) (rev path)),
            rr_overallDistance = d, rr_calculationTimeInMs = time, rr_routeFound = True\<rparr>"
proof -
  have sz: "DijkstraRouter_sized g r"
    and inv: "search_inv (Grid_adj g) (Grid_nodes g) s (array_map (dr_currDistanceToNode r))
      (array_map (dr_previousNode r)) (t # S) (DijkstraHeap_elems (dr_vertexHeap r)) todo"
    using rel by (auto simp: router_rel_def)
  note I = search_invD[OF inv]
  have t: "t \<in> Grid_nodes g" and b: "\<forall>v \<in> set (t # S). 0 \<le> v \<and> v < int (length (dr_previousNode r))"
    using I(3) node_bounds[OF sz] by auto
  note bt = node_bounds[OF sz t]
  obtain q where q: "DijkstraRouter_collect (dr_previousNode r) s t [t] = Some ([t] @ q)"
    "walk (Grid_adj g) s (rev q @ [t]) (array_map (dr_currDistanceToNode r) t)"
    using collect_ok[OF I(8) _ b, of t "Grid_adj g" "array_map (dr_currDistanceToNode r)" "[t]"] I(5,7)
    by auto
  have nodes: "set (rev q @ [t]) \<subseteq> Grid_nodes g" by (rule walk_nodes[OF bf q(2)])
  have "RoutingResult_coord False (gr_node g) hn x = Some (Grid_coord g x)" if "x \<in> set (rev q @ [t])" for x
    using that nodes wf RoutingResult_coord_grid[of x "gr_node g" hn]
    by (auto simp: Grid_coord_def Grid_nodes_def Node_getSize_def Grid_wf_def)
  then have "RoutingResult_setPath False (gr_node g) hn RoutingResult_default (rev q @ [t]) =
      Some (RoutingResult_default\<lparr>rr_path := Some (rev q @ [t]), rr_pathCoordinates := Some (map (Grid_coord g) (rev q @ [t]))\<rparr>)"
    by (rule RoutingResult_setPath_ok)
  then show ?thesis using q opt bt
    by (simp add: java shortest_walk_def RoutingResult_ofPath_def RoutingResult_default_def)
qed

lemma route_ok:
  assumes wf: "Grid_wf g" and sz: "DijkstraRouter_sized g r" and s: "s \<in> Grid_nodes g"
    and fit: "distances_fit (Grid_adj g) s"
  shows "\<exists>res r'. DijkstraRouter_route g False hn t0 t1 r s t = Some (res, r') \<and> DijkstraRouter_sized g r' \<and>
    (rr_routeFound res \<longleftrightarrow> reachable (Grid_adj g) s t) \<and>
    (if rr_routeFound res then \<exists>p. rr_path res = Some p \<and>
        shortest_walk (Grid_adj g) s t p (RoutingResult_getOverallDistance res) \<and>
        rr_pathCoordinates res = Some (map (Grid_coord g) p)
     else rr_path res = None \<and> RoutingResult_getOverallDistance res = -1)"
proof -
  note bf = grid_best_first[OF wf s fit]
  let ?time = "real_of_int (t1 - t0) / 1000000"
  obtain r1 q where st: "DijkstraRouter_resetState r = Some r1"
    "aset (dr_currDistanceToNode r1) s 0 = Some ((dr_currDistanceToNode r1)[nat s := 0])"
    "aset (dr_previousNode r1) s s = Some ((dr_previousNode r1)[nat s := s])"
    "DijkstraHeap_add ((dr_currDistanceToNode r1)[nat s := 0]) (dr_vertexHeap r1) s = Some q"
    "router_rel g s (r1\<lparr>dr_currDistanceToNode := (dr_currDistanceToNode r1)[nat s := 0],
      dr_previousNode := (dr_previousNode r1)[nat s := s], dr_vertexHeap := q\<rparr>) [] []"
    using route_start[OF sz s bf] by blast
  let ?r = "r1\<lparr>dr_currDistanceToNode := (dr_currDistanceToNode r1)[nat s := 0],
      dr_previousNode := (dr_previousNode r1)[nat s := s], dr_vertexHeap := q\<rparr>"
  obtain found r' where f: "DijkstraRouter_search g t ?r = Some (found, r')" "DijkstraRouter_sized g r'"
    "if found then \<exists>S' todo. router_rel g s r' (t # S') todo \<and>
        (\<forall>p c. walk (Grid_adj g) s p c \<and> last p = t \<longrightarrow> dr_currDistanceToNode r' ! nat t \<le> c)
     else \<not> reachable (Grid_adj g) s t"
    using search_ok[OF bf wf st(5), of t] by auto
  have run: "DijkstraRouter_route g False hn t0 t1 r s t =
      (if found then do {
         path \<leftarrow> DijkstraRouter_collect (dr_previousNode r') s t [t];
         d \<leftarrow> aget (dr_currDistanceToNode r') t;
         res \<leftarrow> RoutingResult_ofPath False (gr_node g) hn (rev path) d ?time;
         Some (res, r')
       } else Some (RoutingResult_ofTime ?time False, r'))"
    using f(1) by (simp add: DijkstraRouter_route_def st(1-4) Let_def)
  show ?thesis
  proof (cases found)
    case True
    then obtain S' todo where S: "router_rel g s r' (t # S') todo"
      "\<forall>p c. walk (Grid_adj g) s p c \<and> last p = t \<longrightarrow> dr_currDistanceToNode r' ! nat t \<le> c" using f(3) by auto
    obtain path d where pd: "DijkstraRouter_collect (dr_previousNode r') s t [t] = Some path"
      "aget (dr_currDistanceToNode r') t = Some d" "shortest_walk (Grid_adj g) s t (rev path) d"
      "RoutingResult_ofPath False (gr_node g) hn (rev path) d ?time =
      Some \<lparr>rr_path = Some (rev path), rr_pathCoordinates = Some (map (Grid_coord g) (rev path)),
            rr_overallDistance = d, rr_calculationTimeInMs = ?time, rr_routeFound = True\<rparr>"
      using route_found[OF bf wf S] by blast
    moreover have "reachable (Grid_adj g) s t" using pd(3) by (auto simp: shortest_walk_def reachable_def)
    ultimately show ?thesis using run True f(2) by (simp add: RoutingResult_getOverallDistance_def)
  next
    case False
    then show ?thesis using run f(2,3)
      by (simp add: RoutingResult_ofTime_def RoutingResult_default_def RoutingResult_getOverallDistance_def)
  qed
qed

section \<open>Properties\<close>

text \<open>
  C6. A request to the Dijkstra router always returns, on a router in any state left by
  earlier requests: it reports a route exactly when the destination can be reached, the
  path it reports is a shortest walk from the start to the destination in the imported
  grid, the reported distance is its length and the coordinates are those of its nodes; a
  request without a route has no path and the distance -1.
\<close>

theorem dijkstra_route_shortest:
  assumes "Grid_wf g" and "DijkstraRouter_sized g r" and "s \<in> Grid_nodes g"
    and "distances_fit (Grid_adj g) s"
  shows "\<exists>res r'. DijkstraRouter_route g False hn t0 t1 r s t = Some (res, r') \<and> DijkstraRouter_sized g r' \<and>
    (rr_routeFound res \<longleftrightarrow> reachable (Grid_adj g) s t) \<and>
    (if rr_routeFound res then \<exists>p. rr_path res = Some p \<and>
        shortest_walk (Grid_adj g) s t p (RoutingResult_getOverallDistance res) \<and>
        rr_pathCoordinates res = Some (map (Grid_coord g) p)
     else rr_path res = None \<and> RoutingResult_getOverallDistance res = -1)"
  by (rule route_ok[OF assms])

definition ex_grid :: Grid where
  "ex_grid = \<lparr>gr_node = \<lparr>nd_latitude = [1, 2, 3, 4], nd_longitude = [5, 6, 7, 8]\<rparr>,
     gr_edge = \<lparr>ed_startNode = [0, 0, 1, 1, 2], ed_destNode = [1, 2, 0, 2, 1], ed_dist = [2, 9, 2, 3, 3]\<rparr>,
     gr_offset = Some [0, 2, 4, 5, 5]\<rparr>"

definition ex_router :: DijkstraRouter where
  "ex_router = \<lparr>dr_currDistanceToNode = [7, 7, 7, 7], dr_previousNode = [0, 0, 0, 0],
     dr_nodeTouched = [True, True, True, True],
     dr_vertexHeap = \<lparr>dh_heapPosition = [0, 0, 0, 0], dh_idHeapArray = [], dh_currentSize = 0\<rparr>\<rparr>"

definition ex_hubNodes :: HubLNodes where
  "ex_hubNodes = \<lparr>hn_hlLevel = 0, hn_levels = [], hn_longitudes = None, hn_latitudes = None, hn_edgesOffset = [],
     hn_edges = [], hn_labelOffset = [], hn_labelNode = [], hn_labelEdge = [], hn_labelDist = []\<rparr>"

lemma ex_grid_nodes: "Grid_nodes ex_grid = {0, 1, 2, 3}"
  by (auto simp: Grid_nodes_def ex_grid_def Node_getSize_def)

lemma ex_grid_wf: "Grid_wf ex_grid" "DijkstraRouter_sized ex_grid ex_router"
  by (auto simp: ex_grid_def Grid_wf_def ex_router_def DijkstraRouter_sized_def Node_getSize_def Edge_getSize_def)

lemma ex_grid_adj:
  "Grid_adj ex_grid 0 = [(1, 2), (2, 9)]" "Grid_adj ex_grid 1 = [(0, 2), (2, 3)]"
  "Grid_adj ex_grid 2 = [(1, 3)]" "Grid_adj ex_grid 3 = []"
  by code_simp+

lemma ex_grid_fit: "distances_fit (Grid_adj ex_grid) 0"
proof (rule distances_fit_bound[where V = "{0, 1, 2, 3}" and W = 9])
  fix u v w assume "u \<in> {0, 1, 2, 3 :: int}" "(v, w) \<in> set (Grid_adj ex_grid u)"
  then show "v \<in> {0, 1, 2, 3} \<and> w \<le> 9"
    by (auto simp: ex_grid_adj)
qed (auto simp: MAX_VALUE_def)

theorem dijkstra_route_shortest_witness:
  "Grid_wf ex_grid \<and> DijkstraRouter_sized ex_grid ex_router \<and> 0 \<in> Grid_nodes ex_grid \<and>
   distances_fit (Grid_adj ex_grid) 0 \<and>
   (\<exists>res r'. DijkstraRouter_route ex_grid False ex_hubNodes 0 5 ex_router 0 2 = Some (res, r') \<and>
     rr_routeFound res \<and> (\<exists>p. rr_path res = Some p \<and>
       shortest_walk (Grid_adj ex_grid) 0 2 p (RoutingResult_getOverallDistance res)))"
proof -
  have s: "0 \<in> Grid_nodes ex_grid" by (simp add: ex_grid_nodes)
  have "walk (Grid_adj ex_grid) 0 [0, 2] 9"
    using walk_snoc[of "[0]" "Grid_adj ex_grid" 0 2 9]
    by (simp add: ex_grid_adj)
  then have "reachable (Grid_adj ex_grid) 0 2" unfolding reachable_def by (intro exI[of _ "[0, 2]"] exI) auto
  with dijkstra_route_shortest[OF ex_grid_wf s ex_grid_fit, of ex_hubNodes 0 5 2] s ex_grid_wf ex_grid_fit
  show ?thesis by (auto split: if_splits)
qed

end
