(* ===== verification/Sphere.thy ===== *)
theory Sphere
  imports Complex_Main
begin

text \<open>
  The spherical geometry of \<open>utils/IntersectionHelper.java\<close>. A Java \<open>double\<close> is a \<open>real\<close>:
  rounding is not modelled, and neither are signed zeros, infinities and NaN. A vector of three
  doubles is a triple. \<open>Math.atan2 y x\<close> is the argument of the point \<open>(x, y)\<close>, 0 at the origin,
  and \<open>DoubleMath.fuzzyEquals\<close> of the Guava library is documented as \<open>|a - b| <= tolerance\<close>.
  An \<open>IllegalArgumentException\<close> is \<open>None\<close>.
\<close>

section \<open>The Java mathematics library\<close>

definition atan2 :: "real \<Rightarrow> real \<Rightarrow> real" where
  "atan2 y x = Arg (Complex x y)"

definition toRadians :: "real \<Rightarrow> real" where
  "toRadians d = d / 180 * pi"

definition fuzzyEquals :: "real \<Rightarrow> real \<Rightarrow> real \<Rightarrow> bool" where
  "fuzzyEquals a b tolerance \<longleftrightarrow> \<bar>a - b\<bar> \<le> tolerance"

section \<open>Vectors\<close>

type_synonym nvector = "real \<times> real \<times> real"

definition EARTH_RADIUS_METERS :: real where
  "EARTH_RADIUS_METERS = 6371 * 1000"

definition EARTH_RADIUS :: real where
  "EARTH_RADIUS = 6371000"

definition getPositionInfoOfPointRelativeToCell ::
    "real \<Rightarrow> real \<Rightarrow> real \<Rightarrow> real \<Rightarrow> real \<Rightarrow> real \<Rightarrow> bool \<times> bool \<times> bool \<times> bool" where
  "getPositionInfoOfPointRelativeToCell lat lon west east south north =
     (lon < west, \<not> lon < west \<and> lon > east, \<not> lat < south \<and> lat > north, lat < south)"

definition latLonToVector :: "real \<Rightarrow> real \<Rightarrow> nvector" where
  "latLonToVector lat lon = (let lat = toRadians lat; lon = toRadians lon; latCos = cos lat in
     (latCos * cos lon, latCos * sin lon, sin lat))"

fun addVectors :: "nvector \<Rightarrow> nvector \<Rightarrow> nvector" where
  "addVectors (a0, a1, a2) (b0, b1, b2) = (a0 + b0, a1 + b1, a2 + b2)"

fun crossProductOfVector :: "nvector \<Rightarrow> nvector \<Rightarrow> nvector" where
  "crossProductOfVector (a0, a1, a2) (u0, u1, u2) = (a1 * u2 - a2 * u1, a2 * u0 - a0 * u2, a0 * u1 - a1 * u0)"

fun dotProductOfVector :: "nvector \<Rightarrow> nvector \<Rightarrow> real" where
  "dotProductOfVector (a0, a1, a2) (b0, b1, b2) = a0 * b0 + a1 * b1 + a2 * b2"

fun vector_length :: "nvector \<Rightarrow> real" where
  "vector_length (v0, v1, v2) = sqrt (v0 * v0 + v1 * v1 + v2 * v2)"

definition vector_distance :: "nvector \<Rightarrow> nvector \<Rightarrow> real" where
  "vector_distance v u =
     EARTH_RADIUS_METERS * atan2 (vector_length (crossProductOfVector v u)) (dotProductOfVector v u)"

section \<open>Intersection of arcs\<close>

text \<open>
  \<open>lineIntersection\<close> returns its boolean and the new contents of \<open>target\<close>, which stays as it was
  (all zero in the only call) when the lines have no single intersection.
\<close>

definition lineIntersection :: "nvector \<Rightarrow> nvector \<Rightarrow> nvector \<Rightarrow> nvector \<Rightarrow> nvector \<Rightarrow> bool \<times> nvector" where
  "lineIntersection sourceA destA sourceB destB target =
     (let c1 = crossProductOfVector sourceA destA;
          c2 = crossProductOfVector sourceB destB;
          i1 = crossProductOfVector c1 c2;
          i2 = crossProductOfVector c2 c1;
          midPoint = addVectors sourceA (addVectors destA (addVectors sourceB destB));
          d = dotProductOfVector midPoint i1
      in if d > 0 then (True, i1) else if d < 0 then (True, i2) else (False, target))"

definition isIntersectionInGreatCircleSegment :: "nvector \<Rightarrow> nvector \<Rightarrow> nvector \<Rightarrow> bool" where
  "isIntersectionInGreatCircleSegment source dest crossing =
     (let arcLength = vector_distance source dest in
      vector_distance crossing source \<le> arcLength \<and> vector_distance crossing dest \<le> arcLength)"

definition greatCircleSegmentIntersection :: "nvector \<Rightarrow> nvector \<Rightarrow> nvector \<Rightarrow> nvector \<Rightarrow> nvector \<Rightarrow> bool" where
  "greatCircleSegmentIntersection sourceA destA sourceB destB target =
     (let (intersect, target) = lineIntersection sourceA destA sourceB destB target in
      if isIntersectionInGreatCircleSegment sourceA destA target \<and> isIntersectionInGreatCircleSegment sourceB destB target
      then intersect else False)"

definition arcsIntersect :: "real \<Rightarrow> real \<Rightarrow> real \<Rightarrow> real \<Rightarrow> real \<Rightarrow> real \<Rightarrow> real \<Rightarrow> real \<Rightarrow> bool" where
  "arcsIntersect latSourceA lonSourceA latDestA lonDestA latSourceB lonSourceB latDestB lonDestB =
     (if fuzzyEquals lonSourceA lonDestA 0.0000001 \<and> fuzzyEquals lonDestA lonSourceB 0.0000001 \<and>
         fuzzyEquals lonSourceB lonDestB 0.0000001 then True
      else greatCircleSegmentIntersection (latLonToVector latSourceA lonSourceA) (latLonToVector latDestA lonDestA)
             (latLonToVector latSourceB lonSourceB) (latLonToVector latDestB lonDestB) (0, 0, 0))"

definition arcsIntersectWithException ::
    "real \<Rightarrow> real \<Rightarrow> real \<Rightarrow> real \<Rightarrow> real \<Rightarrow> real \<Rightarrow> real \<Rightarrow> real \<Rightarrow> bool option" where
  "arcsIntersectWithException latSourceA lonSourceA latDestA lonDestA latSourceB lonSourceB latDestB lonDestB =
     (if fuzzyEquals lonSourceA lonDestB 0.0000001 \<or> fuzzyEquals lonDestA lonDestB 0.0000001 then None
      else Some (arcsIntersect latSourceA lonSourceA latDestA lonDestA latSourceB lonSourceB latDestB lonDestB))"

section \<open>Crossing a latitude\<close>

definition degreeCoordinateToRadian :: "real \<Rightarrow> real" where
  "degreeCoordinateToRadian degreeCoord = degreeCoord * pi / 180"

definition coordinateBetweenValues :: "real \<Rightarrow> real \<Rightarrow> real \<Rightarrow> bool" where
  "coordinateBetweenValues c minValue maxValue =
     (if fuzzyEquals c minValue 0.0000001 \<and> fuzzyEquals minValue maxValue 0.0000001 then True
      else if maxValue > 175 \<and> minValue < -175
      then (c < 180 \<and> c > maxValue) \<or> (c > -180 \<and> c < minValue)
      else c < maxValue \<and> c > minValue)"

definition IntersectionHelper_mod :: "real \<Rightarrow> real \<Rightarrow> real" where
  "IntersectionHelper_mod y x = y - x * real_of_int \<lfloor>y / x\<rfloor>"

definition crossesLatitude :: "real \<Rightarrow> real \<Rightarrow> real \<Rightarrow> real \<Rightarrow> real \<Rightarrow> real \<Rightarrow> real \<Rightarrow> bool" where
  "crossesLatitude aLat aLon bLat bLon latToIntersect lonValStart lonValDest =
     (if fuzzyEquals aLat latToIntersect 0.0000001 \<or> fuzzyEquals bLat latToIntersect 0.0000001 then True
      else if max aLat bLat < latToIntersect \<or> min aLat bLat > latToIntersect then False
      else let
        aLat = degreeCoordinateToRadian aLat;
        bLat = degreeCoordinateToRadian bLat;
        aLon = degreeCoordinateToRadian aLon;
        bLon = degreeCoordinateToRadian bLon;
        latToIntersect = degreeCoordinateToRadian latToIntersect;
        lonValStart = degreeCoordinateToRadian lonValStart;
        lonValDest = degreeCoordinateToRadian lonValDest;
        latMax = max aLat bLat;
        latMin = min aLat bLat
      in if \<not> coordinateBetweenValues latToIntersect latMin latMax then False
      else let
        lonDiff = aLon - bLon;
        A = sin aLat * cos bLat * cos latToIntersect * sin lonDiff;
        B = sin aLat * cos bLat * cos latToIntersect * cos lonDiff - cos aLat * sin bLat * cos latToIntersect;
        C = cos aLat * cos bLat * sin latToIntersect * sin lonDiff;
        lon = atan2 B A;
        sumABsquared = sqrt (A * A + B * B)
      in if \<bar>C\<bar> > sumABsquared then False
      else let
        dlon = arccos (C / sumABsquared);
        crossLonA = IntersectionHelper_mod (aLon + dlon + lon + pi) (2 * pi) - pi;
        crossLonB = IntersectionHelper_mod (aLon - dlon + lon + pi) (2 * pi) - pi;
        maxLon = max aLon bLon;
        minLon = min aLon bLon;
        lonMax = max lonValStart lonValDest;
        lonMin = min lonValStart lonValDest;
        firstIntersectValid = coordinateBetweenValues crossLonA minLon maxLon \<and> coordinateBetweenValues crossLonA lonMin lonMax;
        secondIntersectValid = coordinateBetweenValues crossLonB minLon maxLon \<and> coordinateBetweenValues crossLonB lonMin lonMax
      in firstIntersectValid \<or> secondIntersectValid)"

definition crossesLatitudeWithException :: "real \<Rightarrow> real \<Rightarrow> real \<Rightarrow> real \<Rightarrow> real \<Rightarrow> real \<Rightarrow> real \<Rightarrow> bool option" where
  "crossesLatitudeWithException aLat aLon bLat bLon latToIntersect lonValStart lonValDest =
     (if fuzzyEquals aLat latToIntersect 0.0000001 \<or> fuzzyEquals bLat latToIntersect 0.0000001 then None
      else Some (crossesLatitude aLat aLon bLat bLon latToIntersect lonValStart lonValDest))"

section \<open>Distance of two points\<close>

definition convertToRadian :: "real \<Rightarrow> real" where
  "convertToRadian coordinate = coordinate * (pi / 180)"

definition getDistance :: "real \<Rightarrow> real \<Rightarrow> real \<Rightarrow> real \<Rightarrow> real" where
  "getDistance startLat startLong endLat endLong =
     (let radianStartLat = convertToRadian startLat;
          radianEndLat = convertToRadian endLat;
          latDifference = convertToRadian (endLat - startLat);
          longDifference = convertToRadian (endLong - startLong);
          haversine = sin (latDifference / 2) * sin (latDifference / 2) +
            cos radianStartLat * cos radianEndLat * sin (longDifference / 2) * sin (longDifference / 2);
          c = 2 * atan2 (sqrt haversine) (sqrt (1 - haversine))
      in c * EARTH_RADIUS)"

section \<open>Unit vectors and angles\<close>

lemma atan2_sin_cos: "- pi < t \<Longrightarrow> t \<le> pi \<Longrightarrow> atan2 (sin t) (cos t) = t"
  unfolding atan2_def
  by (rule cis_Arg_unique) (auto simp: complex_eq_iff sgn_div_norm norm_complex_def)

lemma latLonToVector_unit: "dotProductOfVector (latLonToVector lat lon) (latLonToVector lat lon) = 1"
proof -
  let ?a = "toRadians lat" let ?b = "toRadians lon"
  have "(cos ?a * cos ?b) * (cos ?a * cos ?b) + (cos ?a * sin ?b) * (cos ?a * sin ?b) + sin ?a * sin ?a =
      (cos ?a)\<^sup>2 * ((cos ?b)\<^sup>2 + (sin ?b)\<^sup>2) + (sin ?a)\<^sup>2"
    unfolding power2_eq_square by algebra
  also have "\<dots> = 1" by simp
  finally show ?thesis unfolding latLonToVector_def Let_def dotProductOfVector.simps .
qed

text \<open>Lagrange's identity: the length of the cross product from the dot product.\<close>

lemma cross_length:
  "vector_length (crossProductOfVector v u) =
     sqrt (dotProductOfVector v v * dotProductOfVector u u - (dotProductOfVector v u)\<^sup>2)"
proof (cases v, cases u)
  fix v0 v1 v2 u0 u1 u2 assume v: "v = (v0, v1, v2)" and u: "u = (u0, u1, u2)"
  show ?thesis unfolding v u by (simp add: power2_eq_square) (simp add: algebra_simps)
qed

text \<open>The distance of unit vectors is the angle between them.\<close>

lemma vector_distance_angle:
  assumes "dotProductOfVector v v = 1" "dotProductOfVector u u = 1" "dotProductOfVector v u = cos t" "0 \<le> t" "t \<le> pi"
  shows "vector_distance v u = EARTH_RADIUS_METERS * t"
proof -
  have "sqrt (1 - (cos t)\<^sup>2) = sin t" using assms(4,5) by (simp add: sin_ge_zero flip: sin_squared_eq)
  then have "vector_length (crossProductOfVector v u) = sin t" unfolding cross_length assms(1-3) by simp
  moreover have "atan2 (sin t) (cos t) = t" using assms(4,5) pi_gt_zero by (intro atan2_sin_cos) linarith+
  ultimately show ?thesis by (simp add: vector_distance_def assms(3))
qed

definition haversine :: "real \<Rightarrow> real \<Rightarrow> real \<Rightarrow> real \<Rightarrow> real" where
  "haversine startLat startLong endLat endLong =
     sin (convertToRadian (endLat - startLat) / 2) * sin (convertToRadian (endLat - startLat) / 2) +
     cos (convertToRadian startLat) * cos (convertToRadian endLat) * sin (convertToRadian (endLong - startLong) / 2) *
       sin (convertToRadian (endLong - startLong) / 2)"

lemma sin_half_squared: "sin (x / 2) * sin (x / 2) = (1 - cos x) / (2 :: real)"
  using cos_double_sin[of "x / 2"] by (simp add: power2_eq_square)

lemma haversine_dot: "haversine a b c d = (1 - dotProductOfVector (latLonToVector a b) (latLonToVector c d)) / 2"
proof -
  have r: "toRadians x = convertToRadian x" for x by (simp add: toRadians_def convertToRadian_def)
  have d: "convertToRadian (x - y) = convertToRadian x - convertToRadian y" for x y
    by (simp add: convertToRadian_def left_diff_distrib)
  show ?thesis unfolding haversine_def
    by (simp add: mult.assoc sin_half_squared)
      (simp add: latLonToVector_def Let_def r d cos_diff algebra_simps add_divide_distrib diff_divide_distrib)
qed

text \<open>The vector formula and the haversine formula compute the same distance.\<close>

lemma unit_dot_bounds:
  assumes "dotProductOfVector v v = 1" "dotProductOfVector u u = 1"
  shows "-1 \<le> dotProductOfVector v u" "dotProductOfVector v u \<le> 1"
proof -
  obtain v0 v1 v2 u0 u1 u2 where vu: "v = (v0, v1, v2)" "u = (u0, u1, u2)" by (cases v, cases u)
  have "0 \<le> (v0 - u0)\<^sup>2 + (v1 - u1)\<^sup>2 + (v2 - u2)\<^sup>2" "0 \<le> (v0 + u0)\<^sup>2 + (v1 + u1)\<^sup>2 + (v2 + u2)\<^sup>2"
    by simp_all
  then show "-1 \<le> dotProductOfVector v u" "dotProductOfVector v u \<le> 1"
    using assms unfolding vu by (simp_all add: power2_eq_square algebra_simps)
qed

lemma getDistance_angle:
  assumes "cos t = dotProductOfVector (latLonToVector a b) (latLonToVector c d)" "0 \<le> t" "t \<le> pi"
  shows "getDistance a b c d = EARTH_RADIUS * t"
proof -
  have h: "haversine a b c d = (sin (t / 2))\<^sup>2"
    using assms(1) sin_half_squared[of t] by (simp add: haversine_dot power2_eq_square)
  have h': "1 - haversine a b c d = (cos (t / 2))\<^sup>2" unfolding h by (simp add: sin_squared_eq)
  have pos: "0 \<le> sin (t / 2)" "0 \<le> cos (t / 2)" using assms(2,3) by (auto intro!: sin_ge_zero cos_ge_zero)
  have "sqrt (haversine a b c d) = sin (t / 2)" "sqrt (1 - haversine a b c d) = cos (t / 2)"
    unfolding h' using pos by (simp_all add: h)
  then have "atan2 (sqrt (haversine a b c d)) (sqrt (1 - haversine a b c d)) = t / 2"
    using atan2_sin_cos[of "t / 2"] assms(2,3) pi_gt_zero by simp
  moreover have "getDistance a b c d = 2 * atan2 (sqrt (haversine a b c d)) (sqrt (1 - haversine a b c d)) * EARTH_RADIUS"
    by (simp add: getDistance_def haversine_def Let_def)
  ultimately show ?thesis by simp
qed

lemma point_angle:
  obtains t where "cos t = dotProductOfVector (latLonToVector a b) (latLonToVector c d)" "0 \<le> t" "t \<le> pi"
  using unit_dot_bounds[OF latLonToVector_unit latLonToVector_unit, of a b c d]
    arccos_lbound arccos_ubound by (metis cos_arccos)

lemma getDistance_bounds: "0 \<le> getDistance a b c d" "getDistance a b c d \<le> pi * EARTH_RADIUS"
proof -
  obtain t where t: "cos t = dotProductOfVector (latLonToVector a b) (latLonToVector c d)" "0 \<le> t" "t \<le> pi"
    by (rule point_angle)
  show "0 \<le> getDistance a b c d" "getDistance a b c d \<le> pi * EARTH_RADIUS"
    using getDistance_angle[OF t] t(2,3) by (simp_all add: EARTH_RADIUS_def)
qed

section \<open>Great circles\<close>

fun neg_vector :: "nvector \<Rightarrow> nvector" where
  "neg_vector (a0, a1, a2) = (- a0, - a1, - a2)"

lemma cross_anticommute: "crossProductOfVector v u = neg_vector (crossProductOfVector u v)"
  by (cases v, cases u) simp

lemma cross_orthogonal:
  "dotProductOfVector (crossProductOfVector v u) v = 0" "dotProductOfVector (crossProductOfVector v u) u = 0"
  by (cases v, cases u, simp add: algebra_simps)+

lemma dot_neg: "dotProductOfVector v (neg_vector u) = - dotProductOfVector v u"
  by (cases v, cases u) simp

lemma dot_zero: "dotProductOfVector v (0, 0, 0) = 0"
  by (cases v) simp

text \<open>The candidate point and the answer do not depend on which arc comes first.\<close>

lemma lineIntersection_commute: "lineIntersection a b c d t = lineIntersection c d a b t"
proof -
  let ?c1 = "crossProductOfVector a b" let ?c2 = "crossProductOfVector c d"
  have m: "addVectors a (addVectors b (addVectors c d)) = addVectors c (addVectors d (addVectors a b))"
    by (cases a, cases b, cases c, cases d) (simp add: algebra_simps)
  have n: "dotProductOfVector x (crossProductOfVector ?c1 ?c2) = - dotProductOfVector x (crossProductOfVector ?c2 ?c1)" for x
    by (subst cross_anticommute) (rule dot_neg)
  show ?thesis unfolding lineIntersection_def Let_def m n by auto
qed

lemma lineIntersection_point:
  assumes "lineIntersection a b c d t = (True, x)"
  shows "x \<noteq> (0, 0, 0) \<and> dotProductOfVector x (crossProductOfVector a b) = 0 \<and> dotProductOfVector x (crossProductOfVector c d) = 0"
proof -
  let ?c1 = "crossProductOfVector a b" let ?c2 = "crossProductOfVector c d"
  let ?m = "addVectors a (addVectors b (addVectors c d))"
  have x: "x = crossProductOfVector ?c1 ?c2 \<or> x = crossProductOfVector ?c2 ?c1" "dotProductOfVector ?m (crossProductOfVector ?c1 ?c2) \<noteq> 0"
    using assms by (auto simp: lineIntersection_def Let_def split: if_splits)
  then have "crossProductOfVector ?c1 ?c2 \<noteq> (0, 0, 0)" using dot_zero by metis
  then have "x \<noteq> (0, 0, 0)" using x(1) cross_anticommute[of ?c1 ?c2] by (metis neg_vector.simps neg_0_equal_iff_equal)
  then show ?thesis using x(1) cross_orthogonal by metis
qed

lemma IntersectionHelper_mod_range:
  assumes "0 < x"
  shows "0 \<le> IntersectionHelper_mod y x" "IntersectionHelper_mod y x < x"
    "\<exists>k. IntersectionHelper_mod y x = y - x * real_of_int k"
proof -
  show "0 \<le> IntersectionHelper_mod y x" "IntersectionHelper_mod y x < x"
    using floor_divide_lower[OF assms, of y] floor_divide_upper[OF assms, of y]
    by (simp_all add: IntersectionHelper_mod_def algebra_simps)
qed (auto simp: IntersectionHelper_mod_def)

section \<open>Properties\<close>

text \<open>
  The two distance computations of the program agree: the haversine formula of \<open>getDistance\<close>
  and the vector formula \<open>distance\<close> on the n-vectors of the points give the same value, which is
  the earth radius times the angle between the points. It is symmetric, 0 exactly when the vectors
  of the points are equal, and at most half the circumference.
\<close>

lemma haversine_vector_distance:
  "getDistance a b c d = vector_distance (latLonToVector a b) (latLonToVector c d) \<and>
   getDistance a b c d = getDistance c d a b \<and>
   0 \<le> getDistance a b c d \<and> getDistance a b c d \<le> pi * EARTH_RADIUS \<and>
   (getDistance a b c d = 0 \<longleftrightarrow> latLonToVector a b = latLonToVector c d)"
proof -
  let ?v = "latLonToVector a b" let ?u = "latLonToVector c d"
  obtain t where t: "cos t = dotProductOfVector ?v ?u" "0 \<le> t" "t \<le> pi" by (rule point_angle)
  have d: "getDistance a b c d = EARTH_RADIUS * t" by (rule getDistance_angle[OF t])
  have v: "vector_distance ?v ?u = EARTH_RADIUS_METERS * t"
    by (rule vector_distance_angle) (use t in \<open>simp_all add: latLonToVector_unit\<close>)
  have "cos t = dotProductOfVector ?u ?v" using t(1) by (cases ?v; cases ?u) (simp add: mult.commute)
  from getDistance_angle[OF this t(2,3)] have s: "getDistance c d a b = EARTH_RADIUS * t" .
  have "t = 0 \<longleftrightarrow> ?v = ?u"
  proof
    assume "t = 0"
    obtain v0 v1 v2 u0 u1 u2 where vu: "?v = (v0, v1, v2)" "?u = (u0, u1, u2)" by (metis prod_cases3)
    have "(v0 - u0)\<^sup>2 + (v1 - u1)\<^sup>2 + (v2 - u2)\<^sup>2 = 0"
      using t(1) \<open>t = 0\<close> latLonToVector_unit[of a b] latLonToVector_unit[of c d] unfolding vu
      by (simp add: power2_eq_square algebra_simps)
    then have "(v0 - u0)\<^sup>2 = 0 \<and> (v1 - u1)\<^sup>2 = 0 \<and> (v2 - u2)\<^sup>2 = 0"
      by (simp add: add_nonneg_eq_0_iff)
    then show "?v = ?u" using vu by simp
  next
    assume "?v = ?u"
    then have "cos t = 1" using t(1) latLonToVector_unit[of a b] by simp
    then show "t = 0" using t(2,3) by (metis arccos_1 arccos_cos)
  qed
  then show ?thesis using d v s t(2,3) by (simp add: EARTH_RADIUS_def EARTH_RADIUS_METERS_def)
qed





end
