(* ===== verification/RoutingService.thy ===== *)
theory RoutingService
  imports DijkstraRouter HubLRouter GridImport Sphere
begin

text \<open>
  The request handler on top of the routers: the nearest grid node of a point
  (\<open>Grid.getNearestGridNodeByCoordinates\<close>), the REST controller \<open>rest/RoutingController.java\<close>
  with \<open>router/RoutingRequest.java\<close> and \<open>importdata/LatLong.java\<close>, and the start of the
  application, \<open>SearouterApplication.main\<close>.

  The static classes are one record, \<open>world\<close>; the two clock readings of a request are arguments.
\<close>

section \<open>The nearest grid node\<close>

text \<open>The cast of a \<open>double\<close> to an \<open>int\<close>: towards zero, saturating at the ends of the range.\<close>

definition to_int :: "real \<Rightarrow> int" where
  "to_int x = max (- 2147483648) (min MAX_VALUE (if 0 \<le> x then \<lfloor>x\<rfloor> else \<lceil>x\<rceil>))"

definition DOUBLE_MAX_VALUE :: real where
  "DOUBLE_MAX_VALUE = 2 ^ 1024 - 2 ^ 971"

text \<open>
  The method has the same code twice, for the nodes of \<open>HubLNodes\<close> when no grid is loaded and for
  those of \<open>Node\<close>; the accesses are the arguments of the two loops.
\<close>

definition Grid_candidateNodes ::
    "(int \<Rightarrow> real option) \<Rightarrow> (int \<Rightarrow> real option) \<Rightarrow> int \<Rightarrow> real \<Rightarrow> real \<Rightarrow> int list option" where
  "Grid_candidateNodes getLat getLong n latitude longitude = (let iLat = to_int latitude; iLong = to_int longitude in
     for_range 0 n (\<lambda>i candidateNodes. do {
       la \<leftarrow> getLat i;
       if iLat = to_int la then do {
         lo \<leftarrow> getLong i;
         Some (if iLong = to_int lo then candidateNodes @ [i] else candidateNodes)
       } else Some candidateNodes
     }) [])"

definition Grid_closest ::
    "(int \<Rightarrow> real option) \<Rightarrow> (int \<Rightarrow> real option) \<Rightarrow> real \<Rightarrow> real \<Rightarrow> int list \<Rightarrow> (real \<times> int) option" where
  "Grid_closest getLat getLong latitude longitude candidateNodes =
     for_list candidateNodes (\<lambda>nodeIdx (minDistance, minNodeIdx). do {
       la \<leftarrow> getLat nodeIdx;
       lo \<leftarrow> getLong nodeIdx;
       let currDistance = getDistance latitude longitude la lo;
       Some (if currDistance < minDistance then (currDistance, nodeIdx) else (minDistance, minNodeIdx))
     }) (DOUBLE_MAX_VALUE, 0)"

definition Grid_nearestOf ::
    "(int \<Rightarrow> real option) \<Rightarrow> (int \<Rightarrow> real option) \<Rightarrow> int \<Rightarrow> real \<Rightarrow> real \<Rightarrow> int option" where
  "Grid_nearestOf getLat getLong n latitude longitude = do {
     candidateNodes \<leftarrow> Grid_candidateNodes getLat getLong n latitude longitude;
     if length candidateNodes \<le> 0 then Some (-1)
     else do {
       (_, minNodeIdx) \<leftarrow> Grid_closest getLat getLong latitude longitude candidateNodes;
       Some minNodeIdx
     }
   }"

definition Grid_getNearestGridNodeByCoordinates :: "Grid \<Rightarrow> HubLNodes \<Rightarrow> real \<Rightarrow> real \<Rightarrow> int option" where
  "Grid_getNearestGridNodeByCoordinates g hn latitude longitude =
     (if gr_offset g = None then do {
        n \<leftarrow> HubLNodes_getNumOfNodes hn;
        Grid_nearestOf (HubLNodes_getLat hn) (HubLNodes_getLong hn) n latitude longitude
      }
      else Grid_nearestOf (Node_getLatitude (gr_node g)) (Node_getLongitude (gr_node g)) (Node_getSize (gr_node g))
             latitude longitude)"

section \<open>The controller\<close>

record LatLong =
  ll_latitude :: real
  ll_longitude :: real

record RoutingRequest =
  rq_startPoint :: LatLong
  rq_endPoint :: LatLong

record world =
  w_grid :: Grid
  w_hubNodes :: HubLNodes
  w_hubEdges :: HubLEdges
  w_useHubLabelRouter :: bool

datatype Router = ADijkstraRouter DijkstraRouter | AHubLRouter HubLRouter

fun Router_route :: "world \<Rightarrow> int \<Rightarrow> int \<Rightarrow> Router \<Rightarrow> int \<Rightarrow> int \<Rightarrow> (RoutingResult \<times> Router) option" where
  "Router_route w t0 t1 (ADijkstraRouter r) s t = do {
     (res, r) \<leftarrow> DijkstraRouter_route (w_grid w) (w_useHubLabelRouter w) (w_hubNodes w) t0 t1 r s t;
     Some (res, ADijkstraRouter r)
   }"
| "Router_route w t0 t1 (AHubLRouter r) s t = do {
     (res, r) \<leftarrow> HubLRouter_route (w_useHubLabelRouter w) (gr_node (w_grid w)) (w_hubNodes w) (w_hubEdges w) t0 t1 r s t;
     Some (res, AHubLRouter r)
   }"

record RoutingController =
  rc_useHLRouter :: bool
  rc_router :: "Router option"

datatype ResponseEntity = BAD_REQUEST string | OK RoutingResult

definition RoutingController_setHLRouterUse :: "RoutingController \<Rightarrow> bool \<Rightarrow> RoutingController" where
  "RoutingController_setHLRouterUse c useHLRouter = c\<lparr>rc_useHLRouter := useHLRouter\<rparr>"

definition RoutingController_router :: "world \<Rightarrow> RoutingController \<Rightarrow> Router option" where
  "RoutingController_router w c = (case rc_router c of
     Some r \<Rightarrow> Some r
   | None \<Rightarrow> if rc_useHLRouter c then map_option AHubLRouter HubLRouter_new
             else map_option ADijkstraRouter (DijkstraRouter_new (w_grid w)))"

definition RoutingController_nearest :: "world \<Rightarrow> LatLong \<Rightarrow> int option" where
  "RoutingController_nearest w p =
     Grid_getNearestGridNodeByCoordinates (w_grid w) (w_hubNodes w) (ll_latitude p) (ll_longitude p)"

definition RoutingController_getRoutingResult ::
    "world \<Rightarrow> int \<Rightarrow> int \<Rightarrow> RoutingController \<Rightarrow> RoutingRequest \<Rightarrow> (RoutingResult option \<times> RoutingController) option" where
  "RoutingController_getRoutingResult w t0 t1 c rq = do {
     router \<leftarrow> RoutingController_router w c;
     let c = c\<lparr>rc_router := Some router\<rparr>;
     startNodeId \<leftarrow> RoutingController_nearest w (rq_startPoint rq);
     destNodeId \<leftarrow> RoutingController_nearest w (rq_endPoint rq);
     if startNodeId < 0 then Some (None, c)
     else if destNodeId < 0 then Some (None, c)
     else if startNodeId = destNodeId then Some (Some RoutingResult_empty, c)
     else do {
       (res, router) \<leftarrow> Router_route w t0 t1 router startNodeId destNodeId;
       Some (Some res, c\<lparr>rc_router := Some router\<rparr>)
     }
   }"

definition RoutingController_getRoute ::
    "world \<Rightarrow> int \<Rightarrow> int \<Rightarrow> RoutingController \<Rightarrow> RoutingRequest \<Rightarrow> (ResponseEntity \<times> RoutingController) option" where
  "RoutingController_getRoute w t0 t1 c rq = do {
     router \<leftarrow> RoutingController_router w c;
     let c = c\<lparr>rc_router := Some router\<rparr>;
     startNodeId \<leftarrow> RoutingController_nearest w (rq_startPoint rq);
     destNodeId \<leftarrow> RoutingController_nearest w (rq_endPoint rq);
     if startNodeId < 0 then Some (BAD_REQUEST ''Start position is not on the ocean!'', c)
     else if destNodeId < 0 then Some (BAD_REQUEST ''Destination position is not on the ocean!'', c)
     else if startNodeId = destNodeId then Some (BAD_REQUEST ''Destination position is equal to start position!'', c)
     else do {
       (res, router) \<leftarrow> Router_route w t0 t1 router startNodeId destNodeId;
       Some (OK res, c\<lparr>rc_router := Some router\<rparr>)
     }
   }"

definition RoutingController_getTest :: string where
  "RoutingController_getTest = ''testSuccess''"

section \<open>The start of the application\<close>

text \<open>
  \<open>main\<close> without the test run, up to the start of the web server. The files are arguments: the
  serialized label data, and the lines of the grid file, each \<open>None\<close> when it cannot be opened (an
  \<open>IOException\<close> is caught). The controller is created by the server after \<open>main\<close> has set the flags.
\<close>

definition SearouterApplication_main ::
    "bool \<Rightarrow> (adjacence_map \<Rightarrow> adjacence_map) \<Rightarrow> HubLStore option \<Rightarrow> fmi_line list option \<Rightarrow> world \<Rightarrow>
     (world \<times> RoutingController) option" where
  "SearouterApplication_main USE_HUB_LABEL_ROUTER entryOrder labelFile gridFile w = do {
     let c = RoutingController_setHLRouterUse \<lparr>rc_useHLRouter = False, rc_router = None\<rparr> USE_HUB_LABEL_ROUTER;
     let w = w\<lparr>w_useHubLabelRouter := USE_HUB_LABEL_ROUTER\<rparr>;
     if USE_HUB_LABEL_ROUTER then do {
       let (_, ns, es) = HubLStore_readData labelFile (w_hubNodes w, w_hubEdges w);
       Some (w\<lparr>w_hubNodes := ns, w_hubEdges := es\<rparr>, c)
     } else (case gridFile of
         None \<Rightarrow> Some (w, c)
       | Some file \<Rightarrow> do {
           g \<leftarrow> Grid_importFmiFile entryOrder file;
           Some (w\<lparr>w_grid := g\<rparr>, c)
         })
   }"

section \<open>Correctness of the nearest node\<close>

definition same_cell :: "(int \<Rightarrow> real) \<Rightarrow> (int \<Rightarrow> real) \<Rightarrow> real \<Rightarrow> real \<Rightarrow> int \<Rightarrow> bool" where
  "same_cell lat lon latitude longitude i \<longleftrightarrow> to_int latitude = to_int (lat i) \<and> to_int longitude = to_int (lon i)"

lemma Grid_candidateNodes_ok:
  assumes "\<And>i. 0 \<le> i \<Longrightarrow> i < n \<Longrightarrow> getLat i = Some (lat i) \<and> getLong i = Some (lon i)"
  shows "Grid_candidateNodes getLat getLong n latitude longitude = Some (filter (same_cell lat lon latitude longitude) [0..n - 1])"
proof -
  let ?c = "same_cell lat lon latitude longitude"
  have step: "(do { la \<leftarrow> getLat i;
       if to_int latitude = to_int la then do {
         lo \<leftarrow> getLong i;
         Some (if to_int longitude = to_int lo then acc @ [i] else acc)
       } else Some acc }) = Some (acc @ (if ?c i then [i] else []))" if "i \<in> set [0..n - 1]" for i acc
    using assms[of i] that by (auto simp: same_cell_def)
  have "concat (map (\<lambda>i. if ?c i then [i] else []) xs) = filter ?c xs" for xs by (induction xs) auto
  then show ?thesis unfolding Grid_candidateNodes_def for_range_def Let_def
    using for_list_contributions[of "[0..n - 1]", OF step] by simp
qed

text \<open>The first of the candidates with the smallest distance.\<close>

definition first_closest :: "(int \<Rightarrow> real) \<Rightarrow> int list \<Rightarrow> int \<Rightarrow> bool" where
  "first_closest f xs i \<longleftrightarrow> i \<in> set xs \<and> (\<forall>j \<in> set xs. f i \<le> f j) \<and> (\<exists>ys zs. xs = ys @ i # zs \<and> (\<forall>j \<in> set ys. f i < f j))"

lemma first_closest_new: "\<forall>j \<in> set xs. f x < f j \<Longrightarrow> first_closest f (xs @ [x]) x"
  unfolding first_closest_def
  by (intro conjI exI[of _ xs] exI[of _ "[]"]) (auto intro: less_imp_le)

lemma Grid_closest_ok:
  assumes "\<And>i. i \<in> set xs \<Longrightarrow> getLat i = Some (lat i) \<and> getLong i = Some (lon i)"
    and "\<And>i. i \<in> set xs \<Longrightarrow> getDistance latitude longitude (lat i) (lon i) < DOUBLE_MAX_VALUE" and "xs \<noteq> []"
  shows "\<exists>i. Grid_closest getLat getLong latitude longitude xs = Some (getDistance latitude longitude (lat i) (lon i), i) \<and>
    first_closest (\<lambda>i. getDistance latitude longitude (lat i) (lon i)) xs i"
proof -
  let ?f = "\<lambda>i. getDistance latitude longitude (lat i) (lon i)"
  let ?step = "\<lambda>i (m, k). do { la \<leftarrow> getLat i; lo \<leftarrow> getLong i;
      let d = getDistance latitude longitude la lo; Some (if d < m then (d, i) else (m, k)) }"
  have step: "?step x s = Some (if ?f x < fst s then (?f x, x) else s)" if "x \<in> set xs" for x s
    using assms(1)[OF that] by (cases s) simp
  have "\<exists>s. for_list xs ?step (DOUBLE_MAX_VALUE, 0) = Some s \<and>
      (\<lambda>k s. if k = 0 then s = (DOUBLE_MAX_VALUE, 0) else first_closest ?f (take k xs) (snd s) \<and> fst s = ?f (snd s)) (length xs) s"
  proof (rule for_list_rule)
    fix k s assume k: "k < length xs"
      and I: "if k = 0 then s = (DOUBLE_MAX_VALUE, 0) else first_closest ?f (take k xs) (snd s) \<and> fst s = ?f (snd s)"
    let ?x = "xs ! k" let ?s' = "if ?f ?x < fst s then (?f ?x, ?x) else s"
    have x: "?x \<in> set xs" using k by simp
    have tk: "take (Suc k) xs = take k xs @ [?x]" using k by (simp add: take_Suc_conv_app_nth)
    have "first_closest ?f (take (Suc k) xs) (snd ?s') \<and> fst ?s' = ?f (snd ?s')"
    proof (cases "k = 0")
      case True
      have "first_closest ?f [?x] ?x" by (rule first_closest_new[of "[]", simplified]) 
      then show ?thesis using True I assms(2)[OF x] unfolding tk by auto
    next
      case False
      then have c: "first_closest ?f (take k xs) (snd s)" "fst s = ?f (snd s)" using I by auto
      obtain ys zs where yz: "take k xs = ys @ snd s # zs" "\<forall>j \<in> set ys. ?f (snd s) < ?f j"
        using c(1) by (auto simp: first_closest_def)
      show ?thesis
      proof (cases "?f ?x < fst s")
        case True
        then have "\<forall>j \<in> set (take k xs). ?f ?x < ?f j" using c by (fastforce simp: first_closest_def)
        then have "first_closest ?f (take k xs @ [?x]) ?x" by (rule first_closest_new)
        with True show ?thesis unfolding tk by simp
      next
        case ge: False
        have "take k xs @ [?x] = ys @ snd s # (zs @ [?x])" using yz(1) by simp
        moreover have "\<forall>j \<in> set (take k xs @ [?x]). ?f (snd s) \<le> ?f j" using c ge by (auto simp: first_closest_def)
        moreover have "snd s \<in> set (take k xs @ [?x])" using yz(1) by simp
        ultimately have "first_closest ?f (take k xs @ [?x]) (snd s)" unfolding first_closest_def using yz(2) by blast
        then show ?thesis using ge c(2) unfolding tk by simp
      qed
    qed
    then show "\<exists>s'. ?step (xs ! k) s = Some s' \<and>
        (if Suc k = 0 then s' = (DOUBLE_MAX_VALUE, 0) else first_closest ?f (take (Suc k) xs) (snd s') \<and> fst s' = ?f (snd s'))"
      using step[OF x, of s] by (intro exI[of _ ?s']) simp
  qed simp
  then obtain s where s: "for_list xs ?step (DOUBLE_MAX_VALUE, 0) = Some s" "first_closest ?f xs (snd s)" "fst s = ?f (snd s)"
    using assms(3) by auto
  then show ?thesis unfolding Grid_closest_def by (metis prod.collapse)
qed

lemma getDistance_below_max: "getDistance a b c d < DOUBLE_MAX_VALUE"
proof -
  have "getDistance a b c d \<le> pi * EARTH_RADIUS" by (rule getDistance_bounds(2))
  also have "\<dots> < 2 ^ 25 * 1" using pi_less_4 by (simp add: EARTH_RADIUS_def)
  also have "\<dots> \<le> DOUBLE_MAX_VALUE" by (simp add: DOUBLE_MAX_VALUE_def)
  finally show ?thesis .
qed

lemma Grid_nearestOf_ok:
  assumes "\<And>i. 0 \<le> i \<Longrightarrow> i < n \<Longrightarrow> getLat i = Some (lat i) \<and> getLong i = Some (lon i)"
  shows "\<exists>i. Grid_nearestOf getLat getLong n latitude longitude = Some i \<and>
    (let cell = filter (same_cell lat lon latitude longitude) [0..n - 1] in
     if cell = [] then i = -1 else first_closest (\<lambda>i. getDistance latitude longitude (lat i) (lon i)) cell i)"
proof -
  let ?cell = "filter (same_cell lat lon latitude longitude) [0..n - 1]"
  have cand: "Grid_candidateNodes getLat getLong n latitude longitude = Some ?cell"
    using assms by (rule Grid_candidateNodes_ok)
  show ?thesis
  proof (cases "?cell = []")
    case False
    obtain i where "Grid_closest getLat getLong latitude longitude ?cell = Some (getDistance latitude longitude (lat i) (lon i), i)"
      "first_closest (\<lambda>i. getDistance latitude longitude (lat i) (lon i)) ?cell i"
      using Grid_closest_ok[of ?cell getLat lat getLong lon latitude longitude] assms getDistance_below_max False by auto
    with False show ?thesis by (simp add: Grid_nearestOf_def cand Let_def)
  qed (simp add: Grid_nearestOf_def cand)
qed

text \<open>The two sources of nodes: a loaded grid, and the label data when no grid is loaded.\<close>

lemma nearest_grid:
  assumes "Grid_wf g"
  shows "Grid_getNearestGridNodeByCoordinates g hn latitude longitude =
      Grid_nearestOf (Node_getLatitude (gr_node g)) (Node_getLongitude (gr_node g)) (Node_getSize (gr_node g)) latitude longitude"
    and "0 \<le> i \<Longrightarrow> i < Node_getSize (gr_node g) \<Longrightarrow> Node_getLatitude (gr_node g) i = Some (nd_latitude (gr_node g) ! nat i) \<and>
      Node_getLongitude (gr_node g) i = Some (nd_longitude (gr_node g) ! nat i)"
  using assms by (auto simp: Grid_wf_def Grid_getNearestGridNodeByCoordinates_def Node_getLatitude_def Node_getLongitude_def
    Node_getSize_def java split: option.splits)

text \<open>Any result other than -1 is a node.\<close>

lemma Grid_nearestOf_range:
  assumes "\<And>i. 0 \<le> i \<Longrightarrow> i < n \<Longrightarrow> \<exists>la lo. getLat i = Some la \<and> getLong i = Some lo"
  shows "\<exists>i. Grid_nearestOf getLat getLong n latitude longitude = Some i \<and> (i = -1 \<or> 0 \<le> i \<and> i < n)"
proof -
  have "getLat i = Some (the (getLat i)) \<and> getLong i = Some (the (getLong i))" if "0 \<le> i" "i < n" for i
    using assms[OF that] by auto
  from Grid_nearestOf_ok[of n getLat "\<lambda>i. the (getLat i)" getLong "\<lambda>i. the (getLong i)" latitude longitude, OF this]
  show ?thesis by (auto simp: Let_def first_closest_def split: if_splits)
qed

section \<open>Properties\<close>

text \<open>
  C28. On a loaded grid the nearest-node search always returns: -1 exactly when no node lies in the
  same cell of whole degrees as the point, and otherwise the first of the nodes of this cell with
  the smallest distance to the point.
\<close>

theorem nearest_node_of_cell:
  assumes "Grid_wf g"
  shows "\<exists>i. Grid_getNearestGridNodeByCoordinates g hn latitude longitude = Some i \<and>
    (let lat = (\<lambda>i. nd_latitude (gr_node g) ! nat i); lon = (\<lambda>i. nd_longitude (gr_node g) ! nat i);
         cell = filter (same_cell lat lon latitude longitude) [0..Node_getSize (gr_node g) - 1]
     in if cell = [] then i = -1
        else first_closest (\<lambda>i. getDistance latitude longitude (lat i) (lon i)) cell i)"
proof -
  show ?thesis unfolding nearest_grid(1)[OF assms]
    using Grid_nearestOf_ok[of "Node_getSize (gr_node g)" "Node_getLatitude (gr_node g)" "\<lambda>i. nd_latitude (gr_node g) ! nat i"
      "Node_getLongitude (gr_node g)" "\<lambda>i. nd_longitude (gr_node g) ! nat i" latitude longitude] nearest_grid(2)[OF assms]
    by (simp add: Let_def)
qed

theorem nearest_node_of_cell_witness:
  "Grid_getNearestGridNodeByCoordinates ex_grid ex_hubNodes (-50) 0 = Some (-1)"
proof -
  have "filter (same_cell (\<lambda>i. nd_latitude (gr_node ex_grid) ! nat i) (\<lambda>i. nd_longitude (gr_node ex_grid) ! nat i) (-50) 0)
      [0..Node_getSize (gr_node ex_grid) - 1] = []"
    by (simp add: same_cell_def ex_grid_def Node_getSize_def to_int_def MAX_VALUE_def upto_rec1)
  with nearest_node_of_cell[OF ex_grid_wf(1), of ex_hubNodes "-50" 0] show ?thesis by (simp add: Let_def)
qed

end
