(* ===== verification/RoutingSystem.thy ===== *)
theory RoutingSystem
  imports RoutingService LabelRouting
begin

text \<open>
  The routing service as a whole. The locale \<open>route_service\<close> states what the controller needs of
  a router and of the nearest-node search; the answers of the controller, alone and in a session of
  requests that share one router object, are derived from these laws once. The locale is
  interpreted for both routers of the program.
\<close>

section \<open>What a client of the service may expect\<close>

text \<open>The result of a route request between two nodes.\<close>

definition route_answer :: "adjacency \<Rightarrow> (int \<Rightarrow> real list) \<Rightarrow> int \<Rightarrow> int \<Rightarrow> RoutingResult \<Rightarrow> bool" where
  "route_answer adj coord s t res \<longleftrightarrow>
     (rr_routeFound res \<longleftrightarrow> reachable adj s t) \<and>
     (if rr_routeFound res then \<exists>p. rr_path res = Some p \<and>
        shortest_walk adj s t p (RoutingResult_getOverallDistance res) \<and>
        rr_pathCoordinates res = Some (map coord p)
      else rr_path res = None \<and> RoutingResult_getOverallDistance res = -1)"

text \<open>The answer to a request whose points have the nearest nodes \<open>s\<close> and \<open>t\<close>; -1 is no node.\<close>

definition response_ok :: "adjacency \<Rightarrow> (int \<Rightarrow> real list) \<Rightarrow> int \<Rightarrow> int \<Rightarrow> ResponseEntity \<Rightarrow> bool" where
  "response_ok adj coord s t response \<longleftrightarrow>
     (if s = -1 then response = BAD_REQUEST ''Start position is not on the ocean!''
      else if t = -1 then response = BAD_REQUEST ''Destination position is not on the ocean!''
      else if s = t then response = BAD_REQUEST ''Destination position is equal to start position!''
      else \<exists>res. response = OK res \<and> route_answer adj coord s t res)"

text \<open>Two correct answers to the same question report the same distance.\<close>

lemma route_answer_unique:
  assumes "route_answer adj c1 s t a" and "route_answer adj c2 s t b"
  shows "rr_routeFound a = rr_routeFound b" "RoutingResult_getOverallDistance a = RoutingResult_getOverallDistance b"
proof -
  show f: "rr_routeFound a = rr_routeFound b" using assms by (simp add: route_answer_def)
  show "RoutingResult_getOverallDistance a = RoutingResult_getOverallDistance b"
  proof (cases "rr_routeFound a")
    case True
    then obtain p q where "shortest_walk adj s t p (RoutingResult_getOverallDistance a)"
      "shortest_walk adj s t q (RoutingResult_getOverallDistance b)"
      using assms f by (auto simp: route_answer_def)
    then show ?thesis unfolding shortest_walk_def by (intro order_antisym) blast+
  next
    case False
    then show ?thesis using assms f by (simp add: route_answer_def)
  qed
qed

text \<open>A session: the requests, each with its two clock readings, reach one controller in turn.\<close>

fun serve :: "world \<Rightarrow> RoutingController \<Rightarrow> (int \<times> int \<times> RoutingRequest) list \<Rightarrow>
    (ResponseEntity list \<times> RoutingController) option" where
  "serve w c [] = Some ([], c)"
| "serve w c ((t0, t1, rq) # rqs) = do {
     (response, c) \<leftarrow> RoutingController_getRoute w t0 t1 c rq;
     (responses, c) \<leftarrow> serve w c rqs;
     Some (response # responses, c)
   }"

text \<open>Each response of a session fits the nearest nodes of its request.\<close>

definition session_ok :: "world \<Rightarrow> adjacency \<Rightarrow> (int \<Rightarrow> real list) \<Rightarrow> (int \<times> int \<times> RoutingRequest) list \<Rightarrow>
    ResponseEntity list \<Rightarrow> bool" where
  "session_ok w adj coord = list_all2 (\<lambda>(t0, t1, rq) response. \<exists>s t.
     RoutingController_nearest w (rq_startPoint rq) = Some s \<and> RoutingController_nearest w (rq_endPoint rq) = Some t \<and>
     response_ok adj coord s t response)"

section \<open>The interface between the controller and a router\<close>

locale route_service =
  fixes wf :: "world \<Rightarrow> bool" and use_hl :: bool and inv :: "world \<Rightarrow> Router \<Rightarrow> bool"
    and adj :: "world \<Rightarrow> adjacency" and coord :: "world \<Rightarrow> int \<Rightarrow> real list" and nodes :: "world \<Rightarrow> int set"
  assumes created: "wf w \<Longrightarrow> \<exists>r. RoutingController_router w \<lparr>rc_useHLRouter = use_hl, rc_router = None\<rparr> = Some r \<and> inv w r"
    and answered: "wf w \<Longrightarrow> inv w r \<Longrightarrow> s \<in> nodes w \<Longrightarrow> t \<in> nodes w \<Longrightarrow>
      \<exists>res r'. Router_route w t0 t1 r s t = Some (res, r') \<and> inv w r' \<and> route_answer (adj w) (coord w) s t res"
    and located: "wf w \<Longrightarrow> \<exists>i. RoutingController_nearest w p = Some i \<and> (i = -1 \<or> i \<in> nodes w)"
    and numbered: "wf w \<Longrightarrow> i \<in> nodes w \<Longrightarrow> 0 \<le> i"
begin

text \<open>The controllers a session can be in: no router yet, or one that is ready for a request.\<close>

definition controller_inv :: "world \<Rightarrow> RoutingController \<Rightarrow> bool" where
  "controller_inv w c \<longleftrightarrow> rc_useHLRouter c = use_hl \<and> (case rc_router c of None \<Rightarrow> True | Some r \<Rightarrow> inv w r)"

lemma router_ready:
  assumes "wf w" and "controller_inv w c"
  shows "\<exists>r. RoutingController_router w c = Some r \<and> inv w r \<and> controller_inv w (c\<lparr>rc_router := Some r\<rparr>)"
proof (cases "rc_router c")
  case None
  then have "c = \<lparr>rc_useHLRouter = use_hl, rc_router = None\<rparr>" using assms(2) by (simp add: controller_inv_def)
  then show ?thesis using created[OF assms(1)] by (auto simp: controller_inv_def)
next
  case (Some r)
  then show ?thesis using assms(2) by (auto simp: RoutingController_router_def controller_inv_def)
qed

lemma getRoute_ok:
  assumes "wf w" and "controller_inv w c"
  shows "\<exists>s t response c'. RoutingController_nearest w (rq_startPoint rq) = Some s \<and>
    RoutingController_nearest w (rq_endPoint rq) = Some t \<and>
    RoutingController_getRoute w t0 t1 c rq = Some (response, c') \<and> controller_inv w c' \<and>
    response_ok (adj w) (coord w) s t response"
proof -
  obtain r where r: "RoutingController_router w c = Some r" "inv w r" "controller_inv w (c\<lparr>rc_router := Some r\<rparr>)"
    using router_ready[OF assms] by blast
  obtain s where s: "RoutingController_nearest w (rq_startPoint rq) = Some s" "s = -1 \<or> s \<in> nodes w"
    using located[OF assms(1)] by blast
  obtain t where t: "RoutingController_nearest w (rq_endPoint rq) = Some t" "t = -1 \<or> t \<in> nodes w"
    using located[OF assms(1)] by blast
  show ?thesis
  proof (cases "s = -1 \<or> t = -1 \<or> s = t")
    case True
    then show ?thesis using r s t numbered[OF assms(1), of s] 
      by (auto simp: RoutingController_getRoute_def response_ok_def)
  next
    case False
    then have n: "s \<in> nodes w" "t \<in> nodes w" "0 \<le> s" "0 \<le> t" "s \<noteq> t"
      using s t numbered[OF assms(1)] by auto
    obtain res r' where "Router_route w t0 t1 r s t = Some (res, r')" "inv w r'" "route_answer (adj w) (coord w) s t res"
      using answered[OF assms(1) r(2) n(1,2)] by blast
    then show ?thesis using r s t n
      by (auto simp: RoutingController_getRoute_def response_ok_def controller_inv_def)
  qed
qed

text \<open>The internal entry point gives the same route, \<open>null\<close> for a point off the ocean.\<close>

lemma getRoutingResult_ok:
  assumes "wf w" and "controller_inv w c"
  shows "\<exists>s t res c'. RoutingController_nearest w (rq_startPoint rq) = Some s \<and>
    RoutingController_nearest w (rq_endPoint rq) = Some t \<and>
    RoutingController_getRoutingResult w t0 t1 c rq = Some (res, c') \<and> controller_inv w c' \<and>
    (if s = -1 \<or> t = -1 then res = None
     else if s = t then res = Some RoutingResult_empty
     else \<exists>r. res = Some r \<and> route_answer (adj w) (coord w) s t r)"
proof -
  obtain r where r: "RoutingController_router w c = Some r" "inv w r" "controller_inv w (c\<lparr>rc_router := Some r\<rparr>)"
    using router_ready[OF assms] by blast
  obtain s where s: "RoutingController_nearest w (rq_startPoint rq) = Some s" "s = -1 \<or> s \<in> nodes w"
    using located[OF assms(1)] by blast
  obtain t where t: "RoutingController_nearest w (rq_endPoint rq) = Some t" "t = -1 \<or> t \<in> nodes w"
    using located[OF assms(1)] by blast
  show ?thesis
  proof (cases "s = -1 \<or> t = -1 \<or> s = t")
    case True
    then show ?thesis using r s t numbered[OF assms(1), of s]
      by (auto simp: RoutingController_getRoutingResult_def)
  next
    case False
    then have n: "s \<in> nodes w" "t \<in> nodes w" "0 \<le> s" "0 \<le> t" "s \<noteq> t"
      using s t numbered[OF assms(1)] by auto
    obtain res r' where "Router_route w t0 t1 r s t = Some (res, r')" "inv w r'" "route_answer (adj w) (coord w) s t res"
      using answered[OF assms(1) r(2) n(1,2)] by blast
    then show ?thesis using r s t n
      by (auto simp: RoutingController_getRoutingResult_def controller_inv_def)
  qed
qed

lemma serve_ok:
  assumes "wf w" and "controller_inv w c"
  shows "\<exists>responses c'. serve w c rqs = Some (responses, c') \<and> controller_inv w c' \<and>
    session_ok w (adj w) (coord w) rqs responses"
  using assms(2)
proof (induction rqs arbitrary: c)
  case (Cons x rqs)
  obtain t0 t1 rq where x: "x = (t0, t1, rq)" by (cases x) auto
  from getRoute_ok[OF assms(1) Cons.prems, of rq t0 t1] obtain s t response c1 where
    1: "RoutingController_nearest w (rq_startPoint rq) = Some s" "RoutingController_nearest w (rq_endPoint rq) = Some t"
      "RoutingController_getRoute w t0 t1 c rq = Some (response, c1)" "controller_inv w c1"
      "response_ok (adj w) (coord w) s t response" by blast
  from Cons.IH[OF 1(4)] show ?case using 1 x by (auto simp: session_ok_def)
qed (simp add: session_ok_def)

lemma fresh_controller: "controller_inv w \<lparr>rc_useHLRouter = use_hl, rc_router = None\<rparr>"
  by (simp add: controller_inv_def)

end

section \<open>Both routers provide the interface\<close>

definition dijkstra_world :: "world \<Rightarrow> bool" where
  "dijkstra_world w \<longleftrightarrow> Grid_wf (w_grid w) \<and> \<not> w_useHubLabelRouter w \<and>
     (\<forall>s \<in> Grid_nodes (w_grid w). distances_fit (Grid_adj (w_grid w)) s)"

fun dijkstra_router_inv :: "world \<Rightarrow> Router \<Rightarrow> bool" where
  "dijkstra_router_inv w (ADijkstraRouter r) = DijkstraRouter_sized (w_grid w) r"
| "dijkstra_router_inv w (AHubLRouter r) = False"

lemma DijkstraRouter_new_sized: "\<exists>r. DijkstraRouter_new g = Some r \<and> DijkstraRouter_sized g r"
  by (simp add: DijkstraRouter_new_def DijkstraHeap_new_def DijkstraHeap_INITIAL_SIZE_def newArray_def Node_getSize_def
    DijkstraRouter_sized_def fillAll_def)

interpretation dijkstra: route_service dijkstra_world False dijkstra_router_inv "\<lambda>w. Grid_adj (w_grid w)"
  "\<lambda>w. Grid_coord (w_grid w)" "\<lambda>w. Grid_nodes (w_grid w)"
proof
  fix w assume w: "dijkstra_world w"
  then have wf: "Grid_wf (w_grid w)" and u: "\<not> w_useHubLabelRouter w" by (simp_all add: dijkstra_world_def)
  show "\<exists>r. RoutingController_router w \<lparr>rc_useHLRouter = False, rc_router = None\<rparr> = Some r \<and> dijkstra_router_inv w r"
    using DijkstraRouter_new_sized[of "w_grid w"] by (auto simp: RoutingController_router_def)
  show "\<exists>i. RoutingController_nearest w p = Some i \<and> (i = -1 \<or> i \<in> Grid_nodes (w_grid w))" for p
    unfolding RoutingController_nearest_def nearest_grid(1)[OF wf]
    using Grid_nearestOf_range[of "Node_getSize (gr_node (w_grid w))" "Node_getLatitude (gr_node (w_grid w))"
      "Node_getLongitude (gr_node (w_grid w))" "ll_latitude p" "ll_longitude p"] nearest_grid(2)[OF wf]
    by (auto simp: Grid_nodes_def)
  show "0 \<le> i" if "i \<in> Grid_nodes (w_grid w)" for i using that by (simp add: Grid_nodes_def)
  show "\<exists>res r'. Router_route w t0 t1 r s t = Some (res, r') \<and> dijkstra_router_inv w r' \<and>
      route_answer (Grid_adj (w_grid w)) (Grid_coord (w_grid w)) s t res"
    if r: "dijkstra_router_inv w r" and s: "s \<in> Grid_nodes (w_grid w)" for t0 t1 r s t
  proof -
    obtain d where d: "r = ADijkstraRouter d" "DijkstraRouter_sized (w_grid w) d" using r by (cases r) auto
    have "distances_fit (Grid_adj (w_grid w)) s" using w s by (simp add: dijkstra_world_def)
    from route_ok[OF wf d(2) s this, of "w_hubNodes w" t0 t1 t] show ?thesis
      using d(1) u by (auto simp: route_answer_def)
  qed
qed

text \<open>
  The label data of the program covers every node, because \<open>NUM_OF_NO_LABEL_LVLS\<close> is 0; no grid
  is loaded. \<open>src\<close> gives the start nodes of the edges, which the label data does not keep.
\<close>

definition hub_world :: "int list \<Rightarrow> world \<Rightarrow> bool" where
  "hub_world src w \<longleftrightarrow> w_useHubLabelRouter w \<and> gr_offset (w_grid w) = None \<and>
     HubLEdges_wf src (int (length (hn_levels (w_hubNodes w)))) (w_hubEdges w) \<and>
     HubLNodes_wf src (w_hubNodes w) (w_hubEdges w) \<and> HubLNodes_located (w_hubNodes w) \<and>
     (\<forall>l \<in> set (hn_levels (w_hubNodes w)). hn_hlLevel (w_hubNodes w) \<le> l) \<and>
     (\<forall>u v d. (v, d) \<in> set (HubLEdges_adj src (w_hubEdges w) u) \<longrightarrow> (u, d) \<in> set (HubLEdges_adj src (w_hubEdges w) v)) \<and>
     label_cover (HubLEdges_adj src (w_hubEdges w)) (w_hubNodes w)"

fun hub_router_inv :: "world \<Rightarrow> Router \<Rightarrow> bool" where
  "hub_router_inv w (AHubLRouter r) = HubLRouter_ready r"
| "hub_router_inv w (ADijkstraRouter r) = False"

interpretation hub: route_service "hub_world src" True hub_router_inv "\<lambda>w. HubLEdges_adj src (w_hubEdges w)"
  "\<lambda>w. HubLNodes_coord (w_hubNodes w)" "\<lambda>w. {0..<int (length (hn_levels (w_hubNodes w)))}" for src
proof
  fix w assume w: "hub_world src w"
  let ?hn = "w_hubNodes w" let ?n = "int (length (hn_levels ?hn))"
  show "\<exists>r. RoutingController_router w \<lparr>rc_useHLRouter = True, rc_router = None\<rparr> = Some r \<and> hub_router_inv w r"
    using HubLRouter_new_ready by (auto simp: RoutingController_router_def)
  show "0 \<le> i" if "i \<in> {0..<?n}" for i using that by simp
  have loc: "HubLNodes_getNumOfNodes ?hn = Some ?n"
    "\<exists>la lo. HubLNodes_getLat ?hn i = Some la \<and> HubLNodes_getLong ?hn i = Some lo" if "0 \<le> i" "i < ?n" for i
    using w that by (auto simp: hub_world_def HubLNodes_located_def HubLNodes_getNumOfNodes_def HubLNodes_getLat_def
      HubLNodes_getLong_def aget_def split: option.splits)
  have num: "HubLNodes_getNumOfNodes ?hn = Some ?n"
    using w by (auto simp: hub_world_def HubLNodes_located_def HubLNodes_getNumOfNodes_def split: option.splits)
  show "\<exists>i. RoutingController_nearest w p = Some i \<and> (i = -1 \<or> i \<in> {0..<?n})" for p
    using Grid_nearestOf_range[of ?n "HubLNodes_getLat ?hn" "HubLNodes_getLong ?hn" "ll_latitude p" "ll_longitude p"] loc(2) w
    by (auto simp: RoutingController_nearest_def Grid_getNearestGridNodeByCoordinates_def num hub_world_def)
  show "\<exists>res r'. Router_route w t0 t1 r s t = Some (res, r') \<and> hub_router_inv w r' \<and>
      route_answer (HubLEdges_adj src (w_hubEdges w)) (HubLNodes_coord ?hn) s t res"
    if r: "hub_router_inv w r" and s: "s \<in> {0..<?n}" and t: "t \<in> {0..<?n}" for t0 t1 r s t
  proof -
    obtain d where d: "r = AHubLRouter d" "HubLRouter_ready d" using r by (cases r) auto
    have lab: "HubLNodes_nodeHasLabels ?hn v = Some True" if "v \<in> {0..<?n}" for v
      using w that by (auto simp: hub_world_def HubLNodes_nodeHasLabels_def aget_def)
    have e: "HubLEdges_wf src ?n (w_hubEdges w)" "HubLNodes_wf src ?hn (w_hubEdges w)" "HubLNodes_located ?hn"
      "label_cover (HubLEdges_adj src (w_hubEdges w)) ?hn"
      "\<And>u v d. (v, d) \<in> set (HubLEdges_adj src (w_hubEdges w) u) \<Longrightarrow> (u, d) \<in> set (HubLEdges_adj src (w_hubEdges w) v)"
      using w by (simp_all add: hub_world_def)
    have st: "0 \<le> s" "0 \<le> t" using s t by simp_all
    from label_route_ok[OF e(1,2,5,3,4) st(1) lab[OF s] st(2) lab[OF t] d(2), of "gr_node (w_grid w)" t0 t1]
    show ?thesis using d(1) w by (auto simp: route_answer_def hub_world_def)
  qed
qed

section \<open>The two routers on the same graph\<close>

text \<open>Walks from a node of a closed set depend only on the edges of this set.\<close>

lemma walk_same_edges:
  assumes "walk a s p c" and "s \<in> V" and "\<And>u v d. u \<in> V \<Longrightarrow> (v, d) \<in> set (a u) \<Longrightarrow> v \<in> V \<and> (v, d) \<in> set (b u)"
  shows "walk b s p c \<and> last p \<in> V"
  using assms(1)
proof induction
  case (walk_step p c v d)
  then show ?case using assms(3)[of "last p" v d] walk.walk_step[of b s p c v d] by auto
qed (auto intro: walk_start assms(2))

lemma route_answer_same_edges:
  assumes "s \<in> V" and "\<And>u v d. u \<in> V \<Longrightarrow> (v, d) \<in> set (a u) \<Longrightarrow> v \<in> V" and "\<And>u. u \<in> V \<Longrightarrow> set (a u) = set (b u)"
  shows "route_answer a coord s t res \<longleftrightarrow> route_answer b coord s t res"
proof -
  have w: "walk a s p c \<longleftrightarrow> walk b s p c" for p c
    using walk_same_edges[of a s p c V b] walk_same_edges[of b s p c V a] assms by blast
  show ?thesis by (simp add: route_answer_def reachable_def shortest_walk_def w)
qed

lemma response_ok_same_edges:
  assumes "s = -1 \<or> s \<in> V" and "\<And>u v d. u \<in> V \<Longrightarrow> (v, d) \<in> set (a u) \<Longrightarrow> v \<in> V" and "\<And>u. u \<in> V \<Longrightarrow> set (a u) = set (b u)"
  shows "response_ok a coord s t response \<longleftrightarrow> response_ok b coord s t response"
  using route_answer_same_edges[of s V a b coord t] assms by (auto simp: response_ok_def)

text \<open>What two answers to the same request have in common.\<close>

fun same_response :: "ResponseEntity \<Rightarrow> ResponseEntity \<Rightarrow> bool" where
  "same_response (BAD_REQUEST m) (BAD_REQUEST m') \<longleftrightarrow> m = m'"
| "same_response (OK a) (OK b) \<longleftrightarrow> rr_routeFound a = rr_routeFound b \<and>
     RoutingResult_getOverallDistance a = RoutingResult_getOverallDistance b"
| "same_response _ _ \<longleftrightarrow> False"

lemma response_ok_same:
  assumes "response_ok adj c1 s t a" and "response_ok adj c2 s t b"
  shows "same_response a b"
  using assms route_answer_unique[of adj c1 s t _ c2] by (auto simp: response_ok_def split: if_splits)

text \<open>The nearest node does not depend on where the coordinates are kept.\<close>

lemma nearest_same:
  assumes "dijkstra_world w1" and "hub_world src w2" and "hn_latitudes (w_hubNodes w2) = Some (nd_latitude (gr_node (w_grid w1)))"
    and "hn_longitudes (w_hubNodes w2) = Some (nd_longitude (gr_node (w_grid w1)))"
  shows "RoutingController_nearest w1 p = RoutingController_nearest w2 p"
proof -
  have wf: "Grid_wf (w_grid w1)" using assms(1) by (simp add: dijkstra_world_def)
  have "HubLNodes_getLat (w_hubNodes w2) = Node_getLatitude (gr_node (w_grid w1))"
    "HubLNodes_getLong (w_hubNodes w2) = Node_getLongitude (gr_node (w_grid w1))"
    by (auto simp: assms(3,4) HubLNodes_getLat_def HubLNodes_getLong_def Node_getLatitude_def Node_getLongitude_def fun_eq_iff)
  moreover have "HubLNodes_getNumOfNodes (w_hubNodes w2) = Some (Node_getSize (gr_node (w_grid w1)))"
    using wf by (simp add: assms(4) HubLNodes_getNumOfNodes_def Node_getSize_def Grid_wf_def)
  moreover have "gr_offset (w_grid w2) = None" using assms(2) by (simp add: hub_world_def)
  ultimately show ?thesis
    by (simp add: RoutingController_nearest_def nearest_grid(1)[OF wf]) (simp add: Grid_getNearestGridNodeByCoordinates_def)
qed

text \<open>A controller created at the start of the application and given one request.\<close>

definition new_controller :: "bool \<Rightarrow> RoutingController" where
  "new_controller use_hl = \<lparr>rc_useHLRouter = use_hl, rc_router = None\<rparr>"

lemma new_controller_inv:
  "dijkstra.controller_inv w (new_controller False)" "hub.controller_inv w (new_controller True)"
  by (simp_all add: new_controller_def dijkstra.controller_inv_def hub.controller_inv_def)

text \<open>The static fields before \<open>main\<close>: no grid and no label data are loaded.\<close>

definition initial_world :: world where
  "initial_world = \<lparr>w_grid = \<lparr>gr_node = \<lparr>nd_latitude = [], nd_longitude = []\<rparr>,
       gr_edge = \<lparr>ed_startNode = [], ed_destNode = [], ed_dist = []\<rparr>, gr_offset = None\<rparr>,
     w_hubNodes = \<lparr>hn_hlLevel = 0, hn_levels = [], hn_longitudes = None, hn_latitudes = None, hn_edgesOffset = [],
       hn_edges = [], hn_labelOffset = [], hn_labelNode = [], hn_labelEdge = [], hn_labelDist = []\<rparr>,
     w_hubEdges = \<lparr>he_dest = [], he_dist = [], he_firstShortcutIdx = 0, he_shortcutParts = []\<rparr>,
     w_useHubLabelRouter = False\<rparr>"

text \<open>Both configurations give a request the same answer.\<close>

lemma routers_same_response:
  assumes "dijkstra_world w1" and "hub_world src w2"
    and "hn_latitudes (w_hubNodes w2) = Some (nd_latitude (gr_node (w_grid w1)))"
    and "hn_longitudes (w_hubNodes w2) = Some (nd_longitude (gr_node (w_grid w1)))"
    and "\<And>u. u \<in> Grid_nodes (w_grid w1) \<Longrightarrow> set (Grid_adj (w_grid w1) u) = set (HubLEdges_adj src (w_hubEdges w2) u)"
  shows "\<exists>a c1 b c2. RoutingController_getRoute w1 t0 t1 (new_controller False) rq = Some (a, c1) \<and>
    RoutingController_getRoute w2 t2 t3 (new_controller True) rq = Some (b, c2) \<and> same_response a b"
proof -
  note d = dijkstra.getRoute_ok[OF assms(1) new_controller_inv(1), of rq t0 t1]
  note h = hub.getRoute_ok[OF assms(2) new_controller_inv(2), of rq t2 t3]
  obtain s t a c1 where a: "RoutingController_nearest w1 (rq_startPoint rq) = Some s"
    "RoutingController_nearest w1 (rq_endPoint rq) = Some t"
    "RoutingController_getRoute w1 t0 t1 (new_controller False) rq = Some (a, c1)"
    "response_ok (Grid_adj (w_grid w1)) (Grid_coord (w_grid w1)) s t a" using d by blast
  obtain b c2 where b: "RoutingController_getRoute w2 t2 t3 (new_controller True) rq = Some (b, c2)"
    "response_ok (HubLEdges_adj src (w_hubEdges w2)) (HubLNodes_coord (w_hubNodes w2)) s t b"
    using h a(1,2) unfolding nearest_same[OF assms(1-4)] by auto
  have "s = -1 \<or> s \<in> Grid_nodes (w_grid w1)" using dijkstra.located[OF assms(1), of "rq_startPoint rq"] a(1) by auto
  moreover have "Grid_wf (w_grid w1)" using assms(1) by (simp add: dijkstra_world_def)
  ultimately have "response_ok (HubLEdges_adj src (w_hubEdges w2)) (Grid_coord (w_grid w1)) s t a"
    using response_ok_same_edges[of s "Grid_nodes (w_grid w1)" "Grid_adj (w_grid w1)" "HubLEdges_adj src (w_hubEdges w2)"]
      a(4) assms(5) Grid_adj_closed by blast
  from response_ok_same[OF this b(2)] a(3) b(1) show ?thesis by blast
qed

section \<open>A small system\<close>

text \<open>The path of three nodes of \<open>ex_labels\<close> as label data and as a grid.\<close>

definition ex_hubWorld :: world where
  "ex_hubWorld = initial_world\<lparr>w_useHubLabelRouter := True, w_hubNodes := ex_labels, w_hubEdges := ex_hubEdges\<rparr>"

definition ex_gridWorld :: world where
  "ex_gridWorld = initial_world\<lparr>w_grid := \<lparr>gr_node = \<lparr>nd_latitude = [1, 2, 3], nd_longitude = [5, 6, 7]\<rparr>,
     gr_edge = \<lparr>ed_startNode = [0, 1, 1, 2], ed_destNode = [1, 0, 2, 1], ed_dist = [3, 3, 4, 4]\<rparr>,
     gr_offset = Some [0, 1, 3, 4]\<rparr>\<rparr>"

definition ex_request :: RoutingRequest where
  "ex_request = \<lparr>rq_startPoint = \<lparr>ll_latitude = 1, ll_longitude = 5\<rparr>, rq_endPoint = \<lparr>ll_latitude = 3, ll_longitude = 7\<rparr>\<rparr>"

lemma ex_hubWorld_ok: "hub_world ex_src ex_hubWorld"
proof -
  have "\<forall>l \<in> set (hn_levels ex_labels). hn_hlLevel ex_labels \<le> l" by code_simp
  moreover have "\<forall>u v d. (v, d) \<in> set (HubLEdges_adj ex_src ex_hubEdges u) \<longrightarrow> (u, d) \<in> set (HubLEdges_adj ex_src ex_hubEdges v)"
    by (auto simp: ex_labels_adj_iff)
  ultimately show ?thesis using ex_labels_wf ex_labels_cover
    by (simp add: hub_world_def ex_hubWorld_def initial_world_def)
qed

lemma ex_gridWorld_adj:
  "Grid_adj (w_grid ex_gridWorld) 0 = [(1, 3)]" "Grid_adj (w_grid ex_gridWorld) 1 = [(0, 3), (2, 4)]"
  "Grid_adj (w_grid ex_gridWorld) 2 = [(1, 4)]"
  by code_simp+

lemma ex_gridWorld_nodes: "Grid_nodes (w_grid ex_gridWorld) = {0, 1, 2}"
  by (auto simp: Grid_nodes_def ex_gridWorld_def Node_getSize_def)

lemma ex_gridWorld_ok: "dijkstra_world ex_gridWorld"
proof -
  have "distances_fit (Grid_adj (w_grid ex_gridWorld)) s" if "s \<in> {0, 1, 2}" for s
    by (rule distances_fit_bound[where V = "{0, 1, 2}" and W = 4])
      (use that in \<open>auto simp: ex_gridWorld_adj MAX_VALUE_def\<close>)
  moreover have "Grid_wf (w_grid ex_gridWorld)"
    by (simp add: Grid_wf_def ex_gridWorld_def Node_getSize_def Edge_getSize_def)
  ultimately show ?thesis unfolding dijkstra_world_def ex_gridWorld_nodes
    by (auto simp: ex_gridWorld_def initial_world_def)
qed

end
