(* ===== verification/LabelProperties.thy ===== *)
theory LabelProperties
  imports LabelPipeline RoutingSystem
begin

text \<open>
  The properties of the label creation, with a small grid file as their example: a path of three
  nodes with edges of the same length.
\<close>

section \<open>A small grid file\<close>

definition ex_pathNodes :: "TmpNode list" where
  "ex_pathNodes = [\<lparr>tn_id = 7, tn_latitude = 1, tn_longitude = 2\<rparr>, \<lparr>tn_id = 3, tn_latitude = 1, tn_longitude = 3\<rparr>,
     \<lparr>tn_id = 5, tn_latitude = 1, tn_longitude = 4\<rparr>]"

definition ex_pathEdges :: "TmpEdge list" where
  "ex_pathEdges = [\<lparr>te_startNode = 7, te_destNode = 3, te_dist = 6\<rparr>, \<lparr>te_startNode = 3, te_destNode = 7, te_dist = 6\<rparr>,
     \<lparr>te_startNode = 3, te_destNode = 5, te_dist = 6\<rparr>, \<lparr>te_startNode = 5, te_destNode = 3, te_dist = 6\<rparr>]"

lemma ex_path_ok: "grid_file_ok ex_pathNodes ex_pathEdges" "length ex_pathNodes = 3"
  by (simp_all add: grid_file_ok_def ex_pathNodes_def ex_pathEdges_def has_opposite_def)

lemma ex_path_adj: "file_adj ex_pathNodes ex_pathEdges u =
  (if u = 0 then [(1, 6)] else if u = 1 then [(0, 6), (2, 6)] else if u = 2 then [(1, 6)] else [])"
proof -
  have "u \<noteq> 0 \<Longrightarrow> u \<noteq> 1 \<Longrightarrow> u \<noteq> 2 \<Longrightarrow> \<not> (0 \<le> u \<and> u < 3)" by auto
  moreover have "file_adj ex_pathNodes ex_pathEdges 0 = [(1, 6)]" "file_adj ex_pathNodes ex_pathEdges 1 = [(0, 6), (2, 6)]"
    "file_adj ex_pathNodes ex_pathEdges 2 = [(1, 6)]" by (simp_all add: file_adj_def ex_pathNodes_def ex_pathEdges_def file_ids_def upt_rec)
  ultimately show ?thesis by (auto simp: file_adj_def ex_path_ok(2))
qed

lemma ex_path_edge: "(v, w) \<in> set (file_adj ex_pathNodes ex_pathEdges u) \<longleftrightarrow> w = 6 \<and> (u = 0 \<and> v = 1 \<or> u = 1 \<and> v = 0 \<or> u = 1 \<and> v = 2 \<or> u = 2 \<and> v = 1)"
  by (auto simp: ex_path_adj)

lemma ex_path_metric: "metric_graph {0..<int (length ex_pathNodes)} (file_adj ex_pathNodes ex_pathEdges)"
proof -
  have "least (file_adj ex_pathNodes ex_pathEdges) u v w" if "(v, w) \<in> set (file_adj ex_pathNodes ex_pathEdges u)" for u v w
    by (rule least_uniform[of v w "file_adj ex_pathNodes ex_pathEdges" u 6]) (use that in \<open>auto simp: ex_path_edge\<close>)
  moreover have "distinct (map fst (file_adj ex_pathNodes ex_pathEdges u))" for u by (simp add: ex_path_adj)
  ultimately show ?thesis unfolding metric_graph_def by (auto simp: ex_path_edge ex_path_ok(2))
qed

lemma ex_path_distances: "distances_below (length ex_pathNodes) (file_adj ex_pathNodes ex_pathEdges) 18"
proof -
  have "c \<le> 18" if "u \<in> {0..<3}" "least (file_adj ex_pathNodes ex_pathEdges) u v c" for u v c
  proof -
    have "c \<le> int (card {0..<3::int}) * 6" by (rule least_bound[OF that(2,1)]) (auto simp: ex_path_edge)
    then show ?thesis by simp
  qed
  then show ?thesis by (simp add: distances_below_def ex_path_ok(2) MAX_VALUE_def)
qed

text \<open>No data before the import.\<close>

definition ex_empty :: "Nodes \<times> Edges \<times> DynamicGrid" where
  "ex_empty = (\<lparr>no_latitude = None, no_longitude = None, no_levels = None\<rparr>,
     \<lparr>eg_originalEdgeStart = [], eg_originalEdgeDest = [], eg_originalEdgeDist = [], eg_numOfOriginalEdges = 0, eg_shortcutEdgeStart = [],
       eg_shortcutEdgeDest = [], eg_shortcutEdgeDist = [], eg_shortcutEdgeParts = [], eg_nextShortcutId = 0, eg_shortcutEdgeSizeIncrease = 0\<rparr>,
     \<lparr>dg_currentEdgeIds = [], dg_currentEdgeCount = [], dg_allEdgeIds = None, dg_allEdgeCount = None\<rparr>)"

lemma ex_path_imported:
  obtains ns es g where "DynamicGrid_importFmiFile rev (fmi_file [] [] ex_pathNodes ex_pathEdges) ex_empty = Some (ns, es, g)"
    "imported 3 ns es g" "original_adj es = file_adj ex_pathNodes ex_pathEdges"
  using DynamicGrid_importFmiFile_ok[OF ex_path_ok(1), of rev "[]" "[]"] unfolding ex_path_ok(2) ex_empty_def by (metis set_rev)

lemma ex_path_contracted:
  obtains s ns es g where "DynamicGrid_importFmiFile rev (fmi_file [] [] ex_pathNodes ex_pathEdges) ex_empty = Some s"
    "LabelCreator_calculateCH (\<lambda>b i. 0) s = Some (ns, es, g)" "contracted 3 ns es g" "original_adj es = file_adj ex_pathNodes ex_pathEdges"
proof -
  obtain ns es g where i: "DynamicGrid_importFmiFile rev (fmi_file [] [] ex_pathNodes ex_pathEdges) ex_empty = Some (ns, es, g)"
    "imported 3 ns es g" "original_adj es = file_adj ex_pathNodes ex_pathEdges" by (rule ex_path_imported)
  note m = ex_path_metric[unfolded ex_path_ok(2), folded i(3)] and d = ex_path_distances[unfolded ex_path_ok(2), folded i(3)]
  obtain ns' es' g' where "LabelCreator_calculateCH (\<lambda>b i. 0) (ns, es, g) = Some (ns', es', g')" "contracted 3 ns' es' g'" "original_adj es' = original_adj es"
    using LabelCreator_calculateCH_contracted[where rnd = "\<lambda>b i. 0", OF i(2) m _ _ d] by (auto simp: MAX_VALUE_def)
  then show thesis using that[OF i(1)] i(3) by simp
qed

section \<open>The contraction\<close>

text \<open>
  C10. The loop over the levels of \<open>calculateCH\<close> ends, whatever numbers the shuffle draws: for a graph
  after the import whose edges are shortest ways between their ends, it leaves a hierarchy in which
  every edge joins two levels and every walk of the graph has upward walks from its ends that meet
  and are together not longer. The graph of the original edges is unchanged.
\<close>

theorem contraction_terminates:
  assumes "imported n ns es g" and "metric_graph {0..<int n} (original_adj es)" and "2 \<le> n" and "int n \<le> MAX_VALUE"
    and "distances_below n (original_adj es) D" and "int n * D \<le> 1073741823" and "\<And>b i. 0 < b \<Longrightarrow> 0 \<le> rnd b i \<and> rnd b i < b"
  shows "\<exists>ns' es' g'. LabelCreator_calculateCH rnd (ns, es, g) = Some (ns', es', g') \<and> original_adj es' = original_adj es \<and>
    hierarchy_ok n ns' es' g' \<and> Edges_wf n es' \<and> grid_edges_ok n es' g' \<and> up_cover n (up_adj ns' es' g') (original_adj es)"
proof -
  obtain ns' es' g' where "LabelCreator_calculateCH rnd (ns, es, g) = Some (ns', es', g')" "contracted n ns' es' g'" "original_adj es' = original_adj es"
    using LabelCreator_calculateCH_contracted[where rnd = rnd, OF assms] by blast
  then show ?thesis unfolding contracted_def by auto
qed

theorem contraction_terminates_witness:
  "\<exists>ns es g ns' es' g'. DynamicGrid_importFmiFile rev (fmi_file [] [] ex_pathNodes ex_pathEdges) ex_empty = Some (ns, es, g) \<and>
     LabelCreator_calculateCH (\<lambda>b i. b - 1) (ns, es, g) = Some (ns', es', g') \<and> hierarchy_ok 3 ns' es' g'"
proof -
  obtain ns es g where i: "DynamicGrid_importFmiFile rev (fmi_file [] [] ex_pathNodes ex_pathEdges) ex_empty = Some (ns, es, g)"
    "imported 3 ns es g" "original_adj es = file_adj ex_pathNodes ex_pathEdges" by (rule ex_path_imported)
  note m = ex_path_metric[unfolded ex_path_ok(2), folded i(3)] and d = ex_path_distances[unfolded ex_path_ok(2), folded i(3)]
  have "\<exists>ns' es' g'. LabelCreator_calculateCH (\<lambda>b i. b - 1) (ns, es, g) = Some (ns', es', g') \<and> original_adj es' = original_adj es \<and>
    hierarchy_ok 3 ns' es' g' \<and> Edges_wf 3 es' \<and> grid_edges_ok 3 es' g' \<and> up_cover 3 (up_adj ns' es' g') (original_adj es)"
    by (rule contraction_terminates[OF i(2) m _ _ d]) (simp_all add: MAX_VALUE_def)
  then show ?thesis using i(1) by blast
qed

text \<open>
  Every level makes progress: as long as nodes are left, \<open>calcNextLvl\<close> contracts at least one and
  keeps the invariant of the contraction, which says that the graph on the nodes left has the
  distances of the original graph.
\<close>

lemma level_progress:
  assumes "ch_inv n adj L X (lc, ns, es, g)" and "distances_below n adj D" and "int n \<le> MAX_VALUE" and "0 < lc_nonContractedNum lc"
  shows "\<exists>lc' ns' es' g' I. LabelCreator_calcNextLvl L (lc, ns, es, g) = Some (lc', ns', es', g') \<and> I \<noteq> {} \<and> I \<subseteq> {0..<int n} - X \<and>
    lc_nonContractedNum lc' < lc_nonContractedNum lc \<and> ch_inv n adj (L + 1) (X \<union> I) (lc', ns', es', g')"
proof -
  have X: "X \<subseteq> {0..<int n}" "lc_nonContractedNum lc = int n - int (card X)"
    using assms(1) contractionD(1)[OF ch_graphD(6)] unfolding ch_inv_def prod.case by blast+
  then have "X \<noteq> {0..<int n}" using assms(4) by auto
  from LabelCreator_calcNextLvl_ok[OF assms(1-3) this] obtain lc' ns' es' g' I where
    r: "LabelCreator_calcNextLvl L (lc, ns, es, g) = Some (lc', ns', es', g')" "I \<noteq> {}" "I \<subseteq> {0..<int n} - X" "ch_inv n adj (L + 1) (X \<union> I) (lc', ns', es', g')" by blast
  have "lc_nonContractedNum lc' = int n - int (card (X \<union> I))" using r(4) unfolding ch_inv_def prod.case by blast
  moreover have "card X < card (X \<union> I)" using X(1) r(2,3) finite_subset[OF X(1)] finite_subset[OF r(3)] by (intro psubset_card_mono) auto
  ultimately show ?thesis using r X(2) by (intro exI[of _ lc'] exI[of _ ns'] exI[of _ es'] exI[of _ g'] exI[of _ I]) simp
qed

text \<open>
  C12. A thread of the contraction records a shortcut between two nodes exactly when, for one of its
  nodes \<open>m\<close>, an edge to \<open>m\<close> and one from \<open>m\<close> form a shortest way between them; each recorded
  shortcut has the length of that way and its two edges.
\<close>

theorem shortcuts_exactly_needed:
  assumes "cur_graph R es g" and "cd_idle h" and "set (al_contents (cd_nodeIdsToCalc h)) \<subseteq> R"
  shows "\<exists>h' ss. CHDijkstra_run es g h = Some h' \<and> al_contents (cd_shortcuts h') = shortcut_rows ss \<and>
    (\<forall>s \<in> set ss. \<exists>m \<in> set (al_contents (cd_nodeIdsToCalc h)). shortcut_ok es g m s) \<and>
    (\<forall>a \<in> R. \<forall>b. has_shortcut ss a b \<longleftrightarrow> (\<exists>m \<in> set (al_contents (cd_nodeIdsToCalc h)). needs_shortcut es g m a b))"
proof -
  let ?M = "set (al_contents (cd_nodeIdsToCalc h))"
  from CHDijkstra_run_ok[OF assms(1,3,2)] obtain h' ss where r: "CHDijkstra_run es g h = Some h'" "al_contents (cd_shortcuts h') = shortcut_rows ss"
    "\<forall>s \<in> set ss. fst s \<in> R \<and> (\<exists>m \<in> ?M. shortcut_ok es g m s)" "\<forall>m \<in> ?M. \<forall>a \<in> R. \<forall>b. needs_shortcut es g m a b \<longrightarrow> has_shortcut ss a b" by blast
  have "\<exists>m \<in> ?M. needs_shortcut es g m a b" if h: "has_shortcut ss a b" for a b
  proof -
    from h obtain d e2 e1 where "(a, b, d, e2, e1) \<in> set ss" unfolding has_shortcut_def by blast
    then obtain m where m: "m \<in> ?M" "shortcut_ok es g m (a, b, d, e2, e1)" using r(3) by blast
    then have "(m, edge_dist es e1) \<in> set (cur_adj es g a)" "(b, edge_dist es e2) \<in> set (cur_adj es g m)"
      "least (cur_adj es g) a b (edge_dist es e1 + edge_dist es e2)" "b \<noteq> a" by (auto simp: cur_adj_def)
    then have "needs_shortcut es g m a b" unfolding needs_shortcut_def by blast
    then show ?thesis using m(1) by blast
  qed
  then show ?thesis using r by (intro exI[of _ h'] exI[of _ ss]) blast
qed

theorem shortcuts_exactly_needed_witness:
  "\<exists>ns es g h0 h h' ss. DynamicGrid_importFmiFile rev (fmi_file [] [] ex_pathNodes ex_pathEdges) ex_empty = Some (ns, es, g) \<and>
     CHDijkstra_new = Some h0 \<and> CHDijkstra_addNodeId h0 1 = Some h \<and> CHDijkstra_run es g h = Some h' \<and>
     al_contents (cd_shortcuts h') = shortcut_rows ss \<and> has_shortcut ss 0 2 \<and> \<not> has_shortcut ss 0 1"
proof -
  obtain ns es g where i: "DynamicGrid_importFmiFile rev (fmi_file [] [] ex_pathNodes ex_pathEdges) ex_empty = Some (ns, es, g)"
    "imported 3 ns es g" "original_adj es = file_adj ex_pathNodes ex_pathEdges" by (rule ex_path_imported)
  note m = ex_path_metric[unfolded ex_path_ok(2), folded i(3)] and d = ex_path_distances[unfolded ex_path_ok(2), folded i(3)]
  have cg: "cur_graph {0..<int 3} es g" using ch_graph_cur_graph[OF ch_graph_initial[OF i(2) m, of "\<lambda>_. 0"] d] by (simp add: MAX_VALUE_def)
  obtain h0 where h0: "CHDijkstra_new = Some h0" "cd_idle h0" "al_contents (cd_nodeIdsToCalc h0) = []" using CHDijkstra_new_ok by blast
  obtain h where h: "CHDijkstra_addNodeId h0 1 = Some h" "cd_idle h" "al_contents (cd_nodeIdsToCalc h) = [1]" using CHDijkstra_addNodeId_ok[OF h0(2), of 1] h0(3) by auto
  obtain h' ss where r: "CHDijkstra_run es g h = Some h'" "al_contents (cd_shortcuts h') = shortcut_rows ss"
    "\<forall>a \<in> {0..<int 3}. \<forall>b. has_shortcut ss a b \<longleftrightarrow> (\<exists>m \<in> {1}. needs_shortcut es g m a b)"
    using shortcuts_exactly_needed[OF cg h(2)] unfolding h(3) by auto
  have adj: "cur_adj es g u = file_adj ex_pathNodes ex_pathEdges u" if "u \<in> {0..<3}" for u using imported_adj(1)[OF i(2), of u] that unfolding i(3) by simp
  have "6 * v - 6 * u \<le> c" if "way (cur_adj es g) u v c" "u \<in> {0..<3}" for u v c
    using that by induction (use adj ex_path_edge in force)+
  then have "least (cur_adj es g) 0 2 (6 + 6)" unfolding least_def
    using up_walk_trans[OF up_walk_edge[of 1 6 "cur_adj es g" 0] up_walk_edge[of 2 6 "cur_adj es g" 1]] by (force simp: adj ex_path_edge)
  then have "needs_shortcut es g 1 0 2" unfolding needs_shortcut_def by (auto simp: adj ex_path_edge)
  moreover have "\<not> needs_shortcut es g 1 0 1" unfolding needs_shortcut_def by (simp add: adj ex_path_edge)
  ultimately have "has_shortcut ss 0 2" "\<not> has_shortcut ss 0 1" using r(3) by simp_all
  then show ?thesis using i(1) h0(1) h(1) r(1,2) by blast
qed

text \<open>
  C14. \<open>removeNode\<close> takes a node out of the current graph: the edges of the other nodes that do not lead
  to it stay, those that do are gone, however often the row entries are swapped, and the lists of all
  edges are untouched.
\<close>

theorem removed_node:
  assumes "rows_ok n R g" and "balanced R es g" and "v \<in> R"
  shows "\<exists>g'. DynamicGrid_removeNode es g v = Some g' \<and> rows_ok n (R - {v}) g' \<and> balanced (R - {v}) es g' \<and>
    (\<forall>u \<in> R - {v}. mset (cur_edges g' u) = mset (filter (\<lambda>e. edge_dest es e \<noteq> v) (cur_edges g u))) \<and>
    dg_allEdgeIds g' = dg_allEdgeIds g \<and> dg_allEdgeCount g' = dg_allEdgeCount g"
  by (rule DynamicGrid_removeNode_ok[OF assms])

theorem removed_node_witness:
  "\<exists>ns es g g'. DynamicGrid_importFmiFile rev (fmi_file [] [] ex_pathNodes ex_pathEdges) ex_empty = Some (ns, es, g) \<and>
     DynamicGrid_removeNode es g 1 = Some g' \<and> cur_edges g' 0 = [] \<and> cur_edges g 0 \<noteq> []"
proof -
  obtain ns es g where i: "DynamicGrid_importFmiFile rev (fmi_file [] [] ex_pathNodes ex_pathEdges) ex_empty = Some (ns, es, g)"
    "imported 3 ns es g" "original_adj es = file_adj ex_pathNodes ex_pathEdges" by (rule ex_path_imported)
  note m = ex_path_metric[unfolded ex_path_ok(2), folded i(3)]
  have "1 \<in> {0..<int 3}" by simp
  from removed_node[OF importedD(4)[OF i(2)] imported_balanced[OF i(2) m] this] obtain g' where
    g: "DynamicGrid_removeNode es g 1 = Some g'" "mset (cur_edges g' 0) = mset (filter (\<lambda>e. edge_dest es e \<noteq> 1) (cur_edges g 0))" by auto
  have "cur_adj es g 0 = [(1, 6)]" using imported_adj(1)[OF i(2), of 0] unfolding i(3) by (simp add: ex_path_adj)
  then have "cur_edges g 0 \<noteq> []" "filter (\<lambda>e. edge_dest es e \<noteq> 1) (cur_edges g 0) = []" by (auto simp: cur_adj_def)
  then show ?thesis using i(1) g by auto
qed

text \<open>
  C15. \<open>addShortcutEdge\<close> keeps the edge arrays well-formed, growing them when they are full: the new edge
  gets the next id, start, destination and length, its parts are the two given edges in the order the
  router reads them, and no other edge changes.
\<close>

theorem shortcut_keeps_edges_wf:
  assumes "Edges_wf n es" and "Edges_growable es"
    and "0 \<le> e1" and "e1 < eg_nextShortcutId es" and "edge_start es e1 = a" and "edge_dest es e1 = m"
    and "0 \<le> e2" and "e2 < eg_nextShortcutId es" and "edge_start es e2 = m" and "edge_dest es e2 = b" and "a \<noteq> m"
    and "d = edge_dist es e1 + edge_dist es e2"
  shows "\<exists>es'. Edges_addShortcutEdge es a b d e2 e1 = Some (eg_nextShortcutId es, es') \<and> Edges_wf n es' \<and> Edges_growable es' \<and>
    Edges_extends es es' \<and> eg_nextShortcutId es' = eg_nextShortcutId es + 1 \<and>
    edge_start es' (eg_nextShortcutId es) = a \<and> edge_dest es' (eg_nextShortcutId es) = b \<and> edge_dist es' (eg_nextShortcutId es) = d"
  by (rule Edges_addShortcutEdge_ok[OF assms])

definition ex_pathData :: Edges where
  "ex_pathData = edges_of [\<lparr>te_startNode = 0, te_destNode = 1, te_dist = 6\<rparr>, \<lparr>te_startNode = 1, te_destNode = 0, te_dist = 6\<rparr>,
     \<lparr>te_startNode = 1, te_destNode = 2, te_dist = 6\<rparr>, \<lparr>te_startNode = 2, te_destNode = 1, te_dist = 6\<rparr>] (fst (snd ex_empty))"

theorem shortcut_keeps_edges_wf_witness:
  "\<exists>es. Edges_addShortcutEdge ex_pathData 0 2 12 2 0 = Some (4, es) \<and> Edges_wf 3 es \<and> edge_dest es 4 = 2 \<and> edge_dist es 4 = 12"
proof -
  have wf: "Edges_wf 3 ex_pathData" "Edges_growable ex_pathData" unfolding ex_pathData_def
    by (rule edges_of_wf[where n = 3]; simp add: edges_inside_def)+
  have n: "eg_nextShortcutId ex_pathData = 4" "edge_start ex_pathData 0 = 0" "edge_dest ex_pathData 0 = 1" "edge_start ex_pathData 2 = 1"
    "edge_dest ex_pathData 2 = 2" "12 = edge_dist ex_pathData 0 + edge_dist ex_pathData 2" by code_simp+
  have "\<exists>es'. Edges_addShortcutEdge ex_pathData 0 2 12 2 0 = Some (eg_nextShortcutId ex_pathData, es') \<and> Edges_wf 3 es' \<and> Edges_growable es' \<and>
    Edges_extends ex_pathData es' \<and> eg_nextShortcutId es' = eg_nextShortcutId ex_pathData + 1 \<and>
    edge_start es' (eg_nextShortcutId ex_pathData) = 0 \<and> edge_dest es' (eg_nextShortcutId ex_pathData) = 2 \<and> edge_dist es' (eg_nextShortcutId ex_pathData) = 12"
    by (rule shortcut_keeps_edges_wf[OF wf, of 0 0 1 2 2 12]) (simp_all add: n)
  then show ?thesis unfolding n(1) by auto
qed

section \<open>The labels\<close>

text \<open>
  C16. The merge loop of \<open>isRedundant\<close> decides what it documents: a label is redundant when another
  node of the table is a label of the label node, and the way over it is not longer.
\<close>

theorem redundancy_check:
  assumes "HLDijkstra_inv h" and "Labels_row L x ids es ds" and "\<forall>d \<in> set ds. small d"
    and "\<And>y d e. HLDijkstra_table h y = Some (d, e) \<Longrightarrow> small d"
  shows "Labels_isRedundant L x d (hl_foundIds h) (hl_distances h) = Some (\<exists>y d1 e d2. y \<noteq> x \<and>
    HLDijkstra_table h y = Some (d1, e) \<and> Labels_lab L x y = Some d2 \<and> d1 + d2 \<le> d)"
  using Labels_isRedundant_ok[OF assms] by (simp add: redundant_def)

definition ex_rowLabels :: Labels where
  "ex_rowLabels = \<lparr>lb_labelNodes = [None, Some [0, 1]], lb_labelEdges = [None, Some [3, -1]], lb_labelDist = [None, Some [5, 0]]\<rparr>"

theorem redundancy_check_witness:
  "\<exists>h0 h. HLDijkstra_new 0 1 [0] = Some h0 \<and> HLDijkstra_start h0 0 = Some h \<and>
     Labels_isRedundant ex_rowLabels 1 5 (hl_foundIds h) (hl_distances h) = Some True \<and>
     Labels_isRedundant ex_rowLabels 1 4 (hl_foundIds h) (hl_distances h) = Some False"
proof -
  obtain h0 where h0: "HLDijkstra_new 0 1 [0] = Some h0" "thread_ok [0] h0" using HLDijkstra_new_ok[of 0 1 "[0]"] by auto
  obtain h where h: "HLDijkstra_start h0 0 = Some h" "HLDijkstra_inv h" "HLDijkstra_table h = [0 \<mapsto> (0, -1)]"
    using HLDijkstra_start_ok[of h0 0] h0(2) by (auto simp: thread_ok_def MAX_VALUE_def)
  have row: "Labels_row ex_rowLabels 1 [0, 1] [3, -1] [5, 0]" by (simp add: Labels_row_def ex_rowLabels_def)
  have sm: "\<forall>d \<in> set [5, 0]. small d" "\<And>y d e. HLDijkstra_table h y = Some (d, e) \<Longrightarrow> small d" by (auto simp: small_def h(3) split: if_splits)
  have lab: "Labels_lab ex_rowLabels 1 y = (if y = 0 then Some 5 else if y = 1 then Some 0 else None)" for y
    unfolding Labels_lab_row(1)[OF row] by simp
  have "Labels_isRedundant ex_rowLabels 1 d (hl_foundIds h) (hl_distances h) = Some (\<exists>y d1 e d2. y \<noteq> 1 \<and>
      HLDijkstra_table h y = Some (d1, e) \<and> Labels_lab ex_rowLabels 1 y = Some d2 \<and> d1 + d2 \<le> d)" for d
    by (rule redundancy_check[OF h(2) row sm])
  then have "Labels_isRedundant ex_rowLabels 1 d (hl_foundIds h) (hl_distances h) = Some (5 \<le> d)" for d by (auto simp: h(3) lab)
  then have "Labels_isRedundant ex_rowLabels 1 5 (hl_foundIds h) (hl_distances h) = Some True" "Labels_isRedundant ex_rowLabels 1 4 (hl_foundIds h) (hl_distances h) = Some False"
    by simp_all
  then show ?thesis using h0(1) h(1) by blast
qed

text \<open>
  The calculation order of the labels has every node once, higher levels first; the change indices
  cut it so that a node of higher level always lies in an earlier part.
\<close>

lemma calc_order_by_level:
  assumes "Nodes_getNodeCount ns = Some (int n)" and "levels_known ns n" and "\<And>v. v \<in> {0..<int n} \<Longrightarrow> 0 \<le> node_lvl ns v"
  shows "\<exists>c s. LabelCreator_createHLCalcOrder ns = Some (c, s) \<and> mset c = mset [0..int n - 1] \<and>
    sorted_wrt (\<lambda>a b. node_lvl ns b \<le> node_lvl ns a) c \<and>
    (\<forall>i q r. Suc i < length (os_contents s) \<and> os_contents s ! i \<le> int q \<and> int q < os_contents s ! Suc i \<and> r < length c \<and>
       node_lvl ns (c ! q) < node_lvl ns (c ! r) \<longrightarrow> int r < os_contents s ! i)"
proof -
  have V: "set [0..int n - 1] = {0..<int n}" by (simp only: set_upto atLeastLessThanPlusOne_atLeastAtMost_int[symmetric]) simp
  obtain c where c: "LabelCreator_sortByLevel ns [0..int n - 1] = Some c" "mset c = mset [0..int n - 1]" "sorted_wrt (\<lambda>a b. node_lvl ns b \<le> node_lvl ns a) c"
    using LabelCreator_sortByLevel_ok[OF assms(2), of "[0..int n - 1]"] V by auto
  have cV: "set c = {0..<int n}" using mset_eq_setD[OF c(2)] V by simp
  obtain s where s: "LabelCreator_changeIndices ns c = Some s" "os_contents s = map int (0 # change_points (node_lvl ns) c @ [length c])"
    using LabelCreator_changeIndices_ok[OF assms(2), of c] cV assms(3) by auto
  have "LabelCreator_createHLCalcOrder ns = Some (c, s)" by (simp add: LabelCreator_createHLCalcOrder_def assms(1) c(1) s(1))
  moreover have "int r < os_contents s ! i" if i: "Suc i < length (os_contents s)" and q: "os_contents s ! i \<le> int q" "int q < os_contents s ! Suc i"
    and r: "r < length c" "node_lvl ns (c ! q) < node_lvl ns (c ! r)" for i q r
  proof -
    let ?B = "0 # change_points (node_lvl ns) c @ [length c]"
    have iB: "Suc i < length ?B" using i unfolding s(2) by simp
    then have at: "os_contents s ! i = int (?B ! i)" "os_contents s ! Suc i = int (?B ! Suc i)" unfolding s(2) by (simp_all only: nth_map[OF iB] nth_map[OF Suc_lessD[OF iB]])
    show ?thesis using segments(3)[OF c(3) refl iB, of q r] q r unfolding at by simp
  qed
  ultimately show ?thesis using c(2,3) by (intro exI[of _ c] exI[of _ s]) blast
qed

text \<open>
  C13. In whatever order the threads of a level run, the labels of a contracted graph answer distance
  queries: for every walk of the original graph the two ends have a common label node over which the
  way is not longer, and every label is the length of an upward walk.
\<close>

theorem labels_answer_distances:
  assumes "contracted n ns es g" and "\<And>ts. mset (threadOrder ts) = mset ts" and "Labels_initialize (int n) = Some L"
  shows "\<exists>L'. LabelCreator_calcLabels threadOrder ns es g L = Some L' \<and>
    (\<forall>s t p c. s \<in> {0..<int n} \<and> t \<in> {0..<int n} \<and> walk (original_adj es) s p c \<and> last p = t \<longrightarrow>
       (\<exists>h d1 d2. Labels_lab L' s h = Some d1 \<and> Labels_lab L' t h = Some d2 \<and> d1 + d2 \<le> c)) \<and>
    (\<forall>v h d. v \<in> {0..<int n} \<and> Labels_lab L' v h = Some d \<longrightarrow> up_walk (up_adj ns es g) v h d)"
proof -
  obtain L' where L: "LabelCreator_calcLabels threadOrder ns es g L = Some L'" "Labels_for n ns es g {0..<int n} L'" using contracted_labels[OF assms] by blast
  have lab: "labelling {0..<int n} (node_lvl ns) (up_adj ns es g) (Labels_lab L')" using L(2) by (simp add: Labels_for_def)
  have cov: "up_cover n (up_adj ns es g) (original_adj es)" using assms(1) by (simp add: contracted_def)
  have "\<exists>h d1 d2. Labels_lab L' s h = Some d1 \<and> Labels_lab L' t h = Some d2 \<and> d1 + d2 \<le> c"
    if st: "s \<in> {0..<int n}" "t \<in> {0..<int n}" "walk (original_adj es) s p c" "last p = t" for s t p c
  proof -
    obtain h a b where u: "up_walk (up_adj ns es g) s h a" "up_walk (up_adj ns es g) t h b" "a + b \<le> c"
      using cov[unfolded up_cover_def, rule_format, of s p c] st by auto
    from common_hub[OF lab u(1) st(1) u(2) st(2)] u(3) show ?thesis by (meson order_trans)
  qed
  moreover have "up_walk (up_adj ns es g) v h d" if "v \<in> {0..<int n}" "Labels_lab L' v h = Some d" for v h d
    using lab that unfolding labelling_def by blast
  ultimately show ?thesis using L(1) by blast
qed

theorem labels_answer_distances_witness:
  "\<exists>s ns es g L L' h d1 d2. DynamicGrid_importFmiFile rev (fmi_file [] [] ex_pathNodes ex_pathEdges) ex_empty = Some s \<and>
     LabelCreator_calculateCH (\<lambda>b i. 0) s = Some (ns, es, g) \<and> Labels_initialize 3 = Some L \<and> LabelCreator_calcLabels rev ns es g L = Some L' \<and>
     Labels_lab L' 0 h = Some d1 \<and> Labels_lab L' 2 h = Some d2 \<and> d1 + d2 \<le> 12"
proof -
  obtain s ns es g where c: "DynamicGrid_importFmiFile rev (fmi_file [] [] ex_pathNodes ex_pathEdges) ex_empty = Some s"
    "LabelCreator_calculateCH (\<lambda>b i. 0) s = Some (ns, es, g)" "contracted 3 ns es g" "original_adj es = file_adj ex_pathNodes ex_pathEdges"
    by (rule ex_path_contracted)
  obtain L where L: "Labels_initialize (int 3) = Some L" using Labels_initialize_ok[of 3 ns es g] by blast
  obtain L' where L': "LabelCreator_calcLabels rev ns es g L = Some L'"
    "\<forall>s t p c. s \<in> {0..<int 3} \<and> t \<in> {0..<int 3} \<and> walk (original_adj es) s p c \<and> last p = t \<longrightarrow>
       (\<exists>h d1 d2. Labels_lab L' s h = Some d1 \<and> Labels_lab L' t h = Some d2 \<and> d1 + d2 \<le> c)"
    using labels_answer_distances[where threadOrder = rev, OF c(3) _ L] by auto
  have "walk (original_adj es) 0 (([0] @ [1]) @ [2]) ((0 + 6) + 6)"
    by (intro walk_step walk_start) (simp_all add: c(4) ex_path_edge)
  then have "walk (original_adj es) 0 [0, 1, 2] 12" by simp
  then have "\<exists>h d1 d2. Labels_lab L' 0 h = Some d1 \<and> Labels_lab L' 2 h = Some d2 \<and> d1 + d2 \<le> 12"
    using L'(2)[rule_format, of 0 2 "[0, 1, 2]" 12] by simp
  then show ?thesis using c(1,2) L L'(1) by auto
qed

text \<open>
  C17. The work of an interrupted label creation is not lost and not repeated differently: a run that
  finds the two files of a successful run gives the same label file, with any thread order and any
  random numbers, and does not need the grid file.
\<close>

theorem label_creation_resumes:
  assumes "LabelCreator_main rnd threadOrder entryOrder chFile labelFile gridFile s L hn = Some (chFile', labelFile', store)"
  shows "LabelCreator_main rnd' threadOrder' entryOrder' chFile' labelFile' None s' L' hn = Some (chFile', labelFile', store)"
proof -
  obtain found s1 where r1: "CHData_readData chFile s = (found, s1)" by (meson surj_pair)
  obtain found' L1 where r2: "TmpLabelData_readData labelFile L = (found', L1)" by (meson surj_pair)
  from assms obtain ns es g L2 st where c: "(if found then Some (s1, chFile) else do { file \<leftarrow> gridFile; s \<leftarrow> DynamicGrid_importFmiFile entryOrder file s1;
       s \<leftarrow> LabelCreator_calculateCH rnd s; Some (s, CHData_storeData s) }) = Some ((ns, es, g), chFile')"
    and l: "(if found' then Some (L1, labelFile) else do { n \<leftarrow> Nodes_getNodeCount ns; L \<leftarrow> Labels_initialize n;
       L \<leftarrow> LabelCreator_calcLabels threadOrder ns es g L; Some (L, TmpLabelData_storeData L) }) = Some (L2, labelFile')"
    and st: "LabelCreator_serializeHubLData ns es g L2 hn = Some st" "store = Some st"
    unfolding LabelCreator_main_def r1 r2 Let_def prod.case bind_eq_Some_conv 
    by (auto simp: bind_eq_Some_conv[of "if found' then _ else _"] bind_eq_Some_conv[of "LabelCreator_serializeHubLData _ _ _ _ _"])
  have "CHData_readData chFile' s' = (True, ns, es, g)"
  proof (cases found)
    case True
    then obtain d where "chFile = Some d" using r1 by (cases chFile) (simp_all add: CHData_readData_def)
    then show ?thesis using r1 c True by (cases s; cases s') (auto simp: CHData_readData_def CHData_setData_def)
  next
    case False
    then have "chFile' = CHData_storeData (ns, es, g)" using c by (auto simp: bind_eq_Some_conv)
    then show ?thesis by simp
  qed
  moreover have "TmpLabelData_readData labelFile' L' = (True, L2)"
  proof (cases found')
    case True
    then obtain d where "labelFile = Some d" using r2 by (cases labelFile) (simp_all add: TmpLabelData_readData_def)
    then show ?thesis using r2 l True by (auto simp: TmpLabelData_readData_def)
  next
    case False
    then have "labelFile' = TmpLabelData_storeData L2" using l by (auto simp: bind_eq_Some_conv)
    then show ?thesis by simp
  qed
  ultimately show ?thesis unfolding LabelCreator_main_def using st by simp
qed

theorem label_creation_resumes_witness:
  "\<exists>chFile labelFile store. LabelCreator_main (\<lambda>b i. 0) rev rev None None (Some (fmi_file [] [] ex_pathNodes ex_pathEdges)) ex_empty ex_rowLabels ex_labels =
       Some (chFile, labelFile, store) \<and>
     LabelCreator_main (\<lambda>b i. 1) id id chFile labelFile None ex_empty ex_rowLabels ex_labels = Some (chFile, labelFile, store)"
proof -
  have "\<exists>s L hn he. LabelCreator_main (\<lambda>b i. 0) rev rev None None (Some (fmi_file [] [] ex_pathNodes ex_pathEdges)) ex_empty ex_rowLabels ex_labels =
      Some (CHData_storeData s, TmpLabelData_storeData L, HubLStore_storeData (hn, he)) \<and>
    serves_routes (file_adj ex_pathNodes ex_pathEdges) (map tn_latitude ex_pathNodes) (map tn_longitude ex_pathNodes) hn he"
    by (rule LabelCreator_main_ok[OF ex_path_ok(1) ex_path_metric _ _ ex_path_distances]) (simp_all add: ex_path_ok(2) MAX_VALUE_def)
  then obtain chFile labelFile store where r: "LabelCreator_main (\<lambda>b i. 0) rev rev None None (Some (fmi_file [] [] ex_pathNodes ex_pathEdges)) ex_empty ex_rowLabels ex_labels =
      Some (chFile, labelFile, store)" by blast
  from label_creation_resumes[OF r, of "\<lambda>b i. 1" id id] r show ?thesis by blast
qed

section \<open>Errors\<close>

text \<open>
  A graph of one node makes the label creation fail: the shuffle draws from an empty range, and
  \<open>nextInt(0)\<close> throws.
\<close>

lemma single_node_fails: "LabelCreator_calculateCH rnd (ns\<lparr>no_latitude := Some [la]\<rparr>, es, g) = None"
proof -
  obtain s where "IntArraySet_new 1 20 = Some s" using IntArraySet_new_ok[of 1 20] by auto
  then show ?thesis by (simp add: LabelCreator_calculateCH_def Nodes_getNodeCount_def LabelCreator_shuffle_def for_range_def newArray_def upto.simps)
qed

text \<open>
  C18. The import of the label creation has room for four edges at a node: a file with more at a node
  makes it fail with an exception, though the import of the Dijkstra router accepts the file.
\<close>

theorem five_edges_fail:
  assumes "distinct (map tn_id N)" and "\<forall>e \<in> set E. te_startNode e \<in> tn_id ` set N \<and> te_destNode e \<in> tn_id ` set N \<and> 0 \<le> te_dist e"
    and "\<forall>e \<in> set E. has_opposite E e" and "\<And>m. set (entryOrder m) = set m" and "x \<in> set N"
    and "4 < length (filter (\<lambda>e. te_startNode e = tn_id x) E)"
  shows "DynamicGrid_importFmiFile entryOrder (fmi_file a b N E) s = None \<and> Grid_importFmiFile entryOrder (fmi_file a b N E) \<noteq> None"
proof
  show "Grid_importFmiFile entryOrder (fmi_file a b N E) \<noteq> None" using import_symmetric_ok[OF assms(1-4)] by blast
  obtain E' where E': "fmi_parse entryOrder (fmi_file a b N E) = Some (int (length N), N, int (length E'), E')" "edges_inside (length N) E'"
    "\<forall>u. map (\<lambda>e. (te_destNode e, te_dist e)) (filter (\<lambda>e. te_startNode e = u) E') = file_adj N E u"
    by (rule file_parsed[where entryOrder = entryOrder and a = a and b = b, OF assms(1-4)])
  obtain u where u: "u < length N" "N ! u = x" using assms(5) by (auto simp: in_set_conv_nth)
  have "length (filter (\<lambda>e. te_startNode e = int u) E') = length (file_adj N E (int u))" unfolding E'(3)[rule_format, symmetric] by simp
  then have "4 < length (positions (map te_startNode E') (length (map te_startNode E')) (int u))"
    using positions_starts(2)[of E' "int u"] assms(6) u by (simp add: file_adj_def)
  moreover have "0 \<le> y \<and> y < int (length N)" if "y \<in> set (map te_startNode E')" for y using E'(2) that by (auto simp: edges_inside_def)
  ultimately have "DynamicGrid_sortEdges (int (length N)) (int (length (map te_startNode E'))) (map te_startNode E') = None"
    by (rule DynamicGrid_sortEdges_full[rotated])
  then show "DynamicGrid_importFmiFile entryOrder (fmi_file a b N E) s = None"
    unfolding DynamicGrid_importFmiFile_def E'(1) by (cases s) (simp add: fmi_column_def Nodes_initializeLvls_def newArray_def Edges_initializeForShortcutEdges_def Let_def)
qed

definition ex_starNodes :: "TmpNode list" where
  "ex_starNodes = map (\<lambda>i. \<lparr>tn_id = i, tn_latitude = 1, tn_longitude = 1\<rparr>) [0..5]"

definition ex_starEdges :: "TmpEdge list" where
  "ex_starEdges = concat (map (\<lambda>i. [\<lparr>te_startNode = 0, te_destNode = i, te_dist = 1\<rparr>, \<lparr>te_startNode = i, te_destNode = 0, te_dist = 1\<rparr>]) [1..5])"

theorem five_edges_fail_witness:
  "DynamicGrid_importFmiFile rev (fmi_file [] [] ex_starNodes ex_starEdges) ex_empty = None \<and> Grid_importFmiFile rev (fmi_file [] [] ex_starNodes ex_starEdges) \<noteq> None"
proof (rule five_edges_fail[where x = "\<lparr>tn_id = 0, tn_latitude = 1, tn_longitude = 1\<rparr>"])
  show "distinct (map tn_id ex_starNodes)" "\<forall>e \<in> set ex_starEdges. te_startNode e \<in> tn_id ` set ex_starNodes \<and> te_destNode e \<in> tn_id ` set ex_starNodes \<and> 0 \<le> te_dist e"
    "\<forall>e \<in> set ex_starEdges. has_opposite ex_starEdges e" "4 < length (filter (\<lambda>e. te_startNode e = tn_id \<lparr>tn_id = 0, tn_latitude = 1, tn_longitude = 1\<rparr>) ex_starEdges)"
    "\<lparr>tn_id = 0, tn_latitude = 1, tn_longitude = 1\<rparr> \<in> set ex_starNodes"
    by (simp_all add: ex_starNodes_def ex_starEdges_def has_opposite_def upto.simps)
qed simp

end
