(* ===== verification/Coastlines.thy ===== *)
theory Coastlines
  imports Prelude Complex_Main
begin

text \<open>
  The coast lines: \<open>osmimport/CoastlineImporter.java\<close>, \<open>importdata/Point.java\<close> and \<open>CoastlineWay.java\<close>,
  \<open>coastlinegrid/CoastlineWays.java\<close> and \<open>CoastlineWriter.java\<close>.

  The PBF parser is a library: a file is the sequence of the calls of the importer's handlers the
  parser makes for it, and a file that cannot be opened is \<open>None\<close>. A \<open>float\<close> is a \<open>real\<close>; the
  conversion from \<open>double\<close> is the parameter \<open>fl\<close>. The serialized object is the record of its fields.

  \<open>coast_edges\<close> is the specification of the arrays: the pairs of consecutive points of each way.
\<close>

section \<open>Points and ways\<close>

record Point =
  pt_id :: int
  pt_lat :: real
  pt_lon :: real

record CoastlineWay =
  cw_points :: "Point list"

definition CoastlineWay_getNumberOfEdges :: "CoastlineWay \<Rightarrow> int" where
  "CoastlineWay_getNumberOfEdges w = (if length (cw_points w) \<le> 1 then 0 else int (length (cw_points w)) - 1)"

definition CoastlineWay_getNumberOfPoints :: "CoastlineWay \<Rightarrow> int" where
  "CoastlineWay_getNumberOfPoints w = (if length (cw_points w) \<le> 1 then 0 else int (length (cw_points w)))"

section \<open>The import\<close>

text \<open>What the library hands over.\<close>

record osm_node =
  on_id :: int
  on_lat :: real
  on_lon :: real

record osm_way =
  ow_tags :: "string \<Rightarrow> string option"
  ow_nodes :: "int list"

datatype pbf_event = OnHeader | OnNode osm_node | OnWay osm_way | OnComplete

text \<open>\<open>allNodes\<close> is \<open>null\<close> after the import.\<close>

record CoastlineImporter =
  ci_coastLineWays :: "CoastlineWay list"
  ci_allNodes :: "(int \<Rightarrow> Point option) option"

definition CoastlineImporter_new :: CoastlineImporter where
  "CoastlineImporter_new = \<lparr>ci_coastLineWays = [], ci_allNodes = Some Map.empty\<rparr>"

definition CoastlineImporter_isCoastlineEntity :: "osm_way \<Rightarrow> bool" where
  "CoastlineImporter_isCoastlineEntity way \<longleftrightarrow> ow_tags way ''natural'' = Some ''coastline'' \<and> length (ow_nodes way) > 0 \<and>
     ow_tags way ''coastline'' \<noteq> Some ''bogus''"

definition CoastlineImporter_onCompletion :: "CoastlineImporter \<Rightarrow> CoastlineImporter" where
  "CoastlineImporter_onCompletion ci = ci\<lparr>ci_allNodes := None\<rparr>"

definition CoastlineImporter_processWay :: "osm_way \<Rightarrow> CoastlineImporter \<Rightarrow> CoastlineImporter option" where
  "CoastlineImporter_processWay way ci =
     (if CoastlineImporter_isCoastlineEntity way then do {
        cWay \<leftarrow> for_list (ow_nodes way) (\<lambda>i cWay. do {
            allNodes \<leftarrow> ci_allNodes ci;
            Some (case allNodes i of None \<Rightarrow> cWay | Some node \<Rightarrow> cWay\<lparr>cw_points := cw_points cWay @ [node]\<rparr>)
          }) \<lparr>cw_points = []\<rparr>;
        Some (ci\<lparr>ci_coastLineWays := ci_coastLineWays ci @ [cWay]\<rparr>)
      } else Some ci)"

definition CoastlineImporter_processNode :: "(real \<Rightarrow> real) \<Rightarrow> osm_node \<Rightarrow> CoastlineImporter \<Rightarrow> CoastlineImporter option" where
  "CoastlineImporter_processNode fl node ci = do {
     allNodes \<leftarrow> ci_allNodes ci;
     Some (ci\<lparr>ci_allNodes := Some (allNodes(on_id node \<mapsto> \<lparr>pt_id = on_id node, pt_lat = fl (on_lat node), pt_lon = fl (on_lon node)\<rparr>))\<rparr>)
   }"

definition CoastlineImporter_handle :: "(real \<Rightarrow> real) \<Rightarrow> pbf_event \<Rightarrow> CoastlineImporter \<Rightarrow> CoastlineImporter option" where
  "CoastlineImporter_handle fl event ci = (case event of
     OnHeader \<Rightarrow> Some ci
   | OnNode node \<Rightarrow> CoastlineImporter_processNode fl node ci
   | OnWay way \<Rightarrow> CoastlineImporter_processWay way ci
   | OnComplete \<Rightarrow> Some (CoastlineImporter_onCompletion ci))"

definition CoastlineImporter_importPBF ::
    "(real \<Rightarrow> real) \<Rightarrow> pbf_event list \<Rightarrow> CoastlineImporter \<Rightarrow> (CoastlineWay list \<times> CoastlineImporter) option" where
  "CoastlineImporter_importPBF fl events ci = do {
     let ci = ci\<lparr>ci_allNodes := Some Map.empty\<rparr>;
     ci \<leftarrow> for_list events (CoastlineImporter_handle fl) ci;
     Some (ci_coastLineWays ci, ci)
   }"

section \<open>CoastlineWays\<close>

record CoastlineWays =
  cs_edgePosStart :: "int list"
  cs_pointLon :: "real list"
  cs_pointLat :: "real list"

record CoastlineWriter =
  wr_edgePosStart :: "int list"
  wr_pointLon :: "real list"
  wr_pointLat :: "real list"

text \<open>The body of the loop over the points of a way.\<close>

definition CoastlineWays_addPoint ::
    "Point list \<Rightarrow> int \<Rightarrow> CoastlineWays \<times> int \<times> int \<Rightarrow> (CoastlineWays \<times> int \<times> int) option" where
  "CoastlineWays_addPoint currPoints pointIdx = (\<lambda>(cs, nextEdgeIdx, nextCoordIdx). do {
     currPoint \<leftarrow> aget currPoints pointIdx;
     lon \<leftarrow> aset (cs_pointLon cs) nextCoordIdx (pt_lon currPoint);
     lat \<leftarrow> aset (cs_pointLat cs) nextCoordIdx (pt_lat currPoint);
     let cs = cs\<lparr>cs_pointLon := lon, cs_pointLat := lat\<rparr>;
     if pointIdx = int (length currPoints) - 1 then Some (cs, nextEdgeIdx, nextCoordIdx + 1)
     else do {
       pos \<leftarrow> aset (cs_edgePosStart cs) nextEdgeIdx nextCoordIdx;
       Some (cs\<lparr>cs_edgePosStart := pos\<rparr>, nextEdgeIdx + 1, nextCoordIdx + 1)
     }
   })"

definition CoastlineWays_addWay :: "CoastlineWay \<Rightarrow> CoastlineWays \<times> int \<times> int \<Rightarrow> (CoastlineWays \<times> int \<times> int) option" where
  "CoastlineWays_addWay way st =
     (if length (cw_points way) \<le> 1 then Some st
      else for_range 0 (int (length (cw_points way))) (CoastlineWays_addPoint (cw_points way)) st)"

definition CoastlineWays_initEdges :: "CoastlineWay list \<Rightarrow> CoastlineWays option" where
  "CoastlineWays_initEdges importedCoastlines = do {
     let (numberOfEdges, numberOfCoordinates) = foldl (\<lambda>(e, c) w.
           (e + CoastlineWay_getNumberOfEdges w, c + CoastlineWay_getNumberOfPoints w)) (0, 0) importedCoastlines;
     edgePosStart \<leftarrow> newArray numberOfEdges 0;
     pointLon \<leftarrow> newArray numberOfCoordinates 0;
     pointLat \<leftarrow> newArray numberOfCoordinates 0;
     let cs = \<lparr>cs_edgePosStart = edgePosStart, cs_pointLon = pointLon, cs_pointLat = pointLat\<rparr>;
     (cs, _) \<leftarrow> for_list importedCoastlines CoastlineWays_addWay (cs, 0, 0);
     Some cs
   }"

definition CoastlineWays_getNumberOfEdges :: "CoastlineWays \<Rightarrow> int" where
  "CoastlineWays_getNumberOfEdges cs = int (length (cs_edgePosStart cs))"

definition CoastlineWays_getStartLatByEdgeIdx :: "CoastlineWays \<Rightarrow> int \<Rightarrow> real option" where
  "CoastlineWays_getStartLatByEdgeIdx cs edgeIdx = do { p \<leftarrow> aget (cs_edgePosStart cs) edgeIdx; aget (cs_pointLat cs) p }"

definition CoastlineWays_getDestLatByEdgeIdx :: "CoastlineWays \<Rightarrow> int \<Rightarrow> real option" where
  "CoastlineWays_getDestLatByEdgeIdx cs edgeIdx = do { p \<leftarrow> aget (cs_edgePosStart cs) edgeIdx; aget (cs_pointLat cs) (p + 1) }"

definition CoastlineWays_getStartLonByEdgeIdx :: "CoastlineWays \<Rightarrow> int \<Rightarrow> real option" where
  "CoastlineWays_getStartLonByEdgeIdx cs edgeIdx = do { p \<leftarrow> aget (cs_edgePosStart cs) edgeIdx; aget (cs_pointLon cs) p }"

definition CoastlineWays_getDestLonByEdgeIdx :: "CoastlineWays \<Rightarrow> int \<Rightarrow> real option" where
  "CoastlineWays_getDestLonByEdgeIdx cs edgeIdx = do { p \<leftarrow> aget (cs_edgePosStart cs) edgeIdx; aget (cs_pointLon cs) (p + 1) }"

section \<open>Storing\<close>

definition CoastlineWays_storeData :: "CoastlineWays \<Rightarrow> CoastlineWriter option" where
  "CoastlineWays_storeData cs =
     Some \<lparr>wr_edgePosStart = cs_edgePosStart cs, wr_pointLon = cs_pointLon cs, wr_pointLat = cs_pointLat cs\<rparr>"

definition CoastlineWays_getData :: "CoastlineWriter \<Rightarrow> CoastlineWays" where
  "CoastlineWays_getData writer =
     \<lparr>cs_edgePosStart = wr_edgePosStart writer, cs_pointLon = wr_pointLon writer, cs_pointLat = wr_pointLat writer\<rparr>"

text \<open>
  The first argument is the file of an earlier run, the second the PBF file. An \<open>IOException\<close> of the
  import is only printed; the list of the ways stays empty then. The result is the data and the file
  after the call.
\<close>

definition CoastlineWays_initCoastlineWays ::
    "(real \<Rightarrow> real) \<Rightarrow> CoastlineWriter option \<Rightarrow> pbf_event list option \<Rightarrow> (CoastlineWays \<times> CoastlineWriter option) option" where
  "CoastlineWays_initCoastlineWays fl serializationFile pbf = (case serializationFile of
     None \<Rightarrow> do {
       coastlines \<leftarrow> (case pbf of None \<Rightarrow> Some []
         | Some events \<Rightarrow> do { (ways, _) \<leftarrow> CoastlineImporter_importPBF fl events CoastlineImporter_new; Some ways });
       cs \<leftarrow> CoastlineWays_initEdges coastlines;
       Some (cs, CoastlineWays_storeData cs)
     }
   | Some writer \<Rightarrow> Some (CoastlineWays_getData writer, serializationFile))"

section \<open>The edges of the ways\<close>

definition coast_edges :: "CoastlineWay list \<Rightarrow> (Point \<times> Point) list" where
  "coast_edges ways = concat (map (\<lambda>w. zip (cw_points w) (tl (cw_points w))) ways)"

text \<open>The points of the ways with edges, and where the edges start among them.\<close>

definition coast_points :: "CoastlineWay list \<Rightarrow> Point list" where
  "coast_points ways = concat (map (\<lambda>w. if length (cw_points w) \<le> 1 then [] else cw_points w) ways)"

fun way_starts :: "nat \<Rightarrow> CoastlineWay list \<Rightarrow> int list" where
  "way_starts k [] = []"
| "way_starts k (w # ways) = (if length (cw_points w) \<le> 1 then way_starts k ways
     else map int [k..<k + length (cw_points w) - 1] @ way_starts (k + length (cw_points w)) ways)"

lemma aset_next: "n = int (length xs) \<Longrightarrow> aset (xs @ replicate (Suc m) d) n v = Some ((xs @ [v]) @ replicate m d)"
  by (simp add: aset_def list_update_append)

text \<open>The arrays while they are filled.\<close>

definition filling :: "nat \<Rightarrow> nat \<Rightarrow> int list \<Rightarrow> Point list \<Rightarrow> CoastlineWays \<times> int \<times> int" where
  "filling a b starts points =
     (\<lparr>cs_edgePosStart = starts @ replicate a 0, cs_pointLon = map pt_lon points @ replicate b 0, cs_pointLat = map pt_lat points @ replicate b 0\<rparr>,
      int (length starts), int (length points))"

lemma addPoint_filling:
  assumes "i < length ps"
  shows "Suc i = length ps \<Longrightarrow> CoastlineWays_addPoint ps (int i) (filling a (Suc b) starts points) = Some (filling a b starts (points @ [ps ! i]))"
    and "Suc i \<noteq> length ps \<Longrightarrow> CoastlineWays_addPoint ps (int i) (filling (Suc a) (Suc b) starts points) =
      Some (filling a b (starts @ [int (length points)]) (points @ [ps ! i]))"
  using assms by (auto simp: CoastlineWays_addPoint_def filling_def aget_def aset_next simp del: replicate.simps)

lemma addWay_filling:
  assumes ps: "cw_points w = ps" "1 < length ps"
  shows "CoastlineWays_addWay w (filling (length ps - 1 + a) (length ps + b) starts points) =
    Some (filling a b (starts @ map int [length points..<length points + (length ps - 1)]) (points @ ps))"
proof -
  let ?n = "length ps"
  let ?I = "\<lambda>i st. st = filling (?n - 1 - min (nat i) (?n - 1) + a) (?n - nat i + b)
      (starts @ map int [length points..<length points + min (nat i) (?n - 1)]) (points @ take (nat i) ps)"
  have "\<exists>st. for_range 0 (int ?n) (CoastlineWays_addPoint ps) (filling (?n - 1 + a) (?n + b) starts points) = Some st \<and> ?I (int ?n) st"
  proof (rule for_range_rule[where I = ?I])
    fix i st assume i: "0 \<le> i" "i < int ?n" and st: "?I i st"
    define k where "k = nat i"
    have k: "k < ?n" "i = int k" using i by (simp_all add: k_def nat_less_iff)
    show "\<exists>st'. CoastlineWays_addPoint ps i st = Some st' \<and> ?I (i + 1) st'"
    proof (cases "Suc k = ?n")
      case True
      then have m: "min k (?n - 1) = k" "?n - 1 - k = 0" "?n - k = 1" by auto
      have "st = filling a (Suc b) (starts @ map int [length points..<length points + k]) (points @ take k ps)" using st unfolding k(2) nat_int m by simp
      moreover have "?n - 1 = k" "nat (i + 1) = Suc k" using True k by simp_all
      moreover have "take k ps @ [ps ! k] = ps" using True take_Suc_conv_app_nth[OF k(1)] by simp
      ultimately show ?thesis using addPoint_filling(1)[OF k(1) True] True k by simp
    next
      case False
      then have m: "min k (?n - 1) = k" "min (Suc k) (?n - 1) = Suc k" "?n - 1 - k = Suc (?n - 1 - Suc k)" "?n - k = Suc (?n - Suc k)" using k(1) by auto
      have "st = filling (Suc (?n - 1 - Suc k + a)) (Suc (?n - Suc k + b)) (starts @ map int [length points..<length points + k]) (points @ take k ps)"
        using st unfolding k(2) nat_int m by simp
      moreover have "nat (i + 1) = Suc k" using k by simp
      ultimately show ?thesis using addPoint_filling(2)[OF k(1) False] k m by (simp add: take_Suc_conv_app_nth del: One_nat_def)
    qed
  qed simp_all
  then show ?thesis using ps by (auto simp: CoastlineWays_addWay_def)
qed

definition way_size :: "CoastlineWay \<Rightarrow> nat" where
  "way_size w = (if length (cw_points w) \<le> 1 then 0 else length (cw_points w))"

lemma addWays_filling:
  "for_list ways CoastlineWays_addWay (filling ((\<Sum>w \<leftarrow> ways. way_size w - 1) + a) ((\<Sum>w \<leftarrow> ways. way_size w) + b) starts points) =
     Some (filling a b (starts @ way_starts (length points) ways) (points @ coast_points ways))"
proof (induction ways arbitrary: starts points)
  case (Cons w ways)
  show ?case
  proof (cases "length (cw_points w) \<le> 1")
    case True
    then have "CoastlineWays_addWay w st = Some st" for st by (simp add: CoastlineWays_addWay_def)
    then show ?thesis using True Cons.IH by (simp add: way_size_def coast_points_def)
  next
    case False
    then have "1 < length (cw_points w)" by simp
    from addWay_filling[OF refl this, of "(\<Sum>w \<leftarrow> ways. way_size w - 1) + a" "(\<Sum>w \<leftarrow> ways. way_size w) + b" starts points] False
    show ?thesis using Cons.IH by (simp add: way_size_def coast_points_def add.assoc)
  qed
qed (simp add: coast_points_def)

lemma initEdges_filling:
  "CoastlineWays_initEdges ways = Some \<lparr>cs_edgePosStart = way_starts 0 ways, cs_pointLon = map pt_lon (coast_points ways),
     cs_pointLat = map pt_lat (coast_points ways)\<rparr>"
proof -
  have sizes: "foldl (\<lambda>(e, c) w. (e + CoastlineWay_getNumberOfEdges w, c + CoastlineWay_getNumberOfPoints w)) (x, y) ways =
      (x + int (\<Sum>w \<leftarrow> ways. way_size w - 1), y + int (\<Sum>w \<leftarrow> ways. way_size w))" for x y
  proof (induction ways arbitrary: x y)
    case (Cons w ways)
    have "CoastlineWay_getNumberOfEdges w = int (way_size w - 1)" "CoastlineWay_getNumberOfPoints w = int (way_size w)"
      by (auto simp: CoastlineWay_getNumberOfEdges_def CoastlineWay_getNumberOfPoints_def way_size_def)
    then show ?case using Cons.IH by simp
  qed simp
  have arr: "newArray (int n) d = Some (replicate n d)" for n and d :: 'b by (simp add: newArray_def)
  show ?thesis using addWays_filling[of ways 0 0 "[]" "[]"] by (simp add: CoastlineWays_initEdges_def sizes arr filling_def)
qed

lemma zip_upt: "map (\<lambda>p. (xs ! nat p, xs ! nat (p + 1))) (map int [k..<k + (length ps - 1)]) = zip ps (tl ps)"
  if "\<And>i. i < length ps \<Longrightarrow> xs ! (k + i) = ps ! i"
proof (intro nth_equalityI)
  fix i assume "i < length (map (\<lambda>p. (xs ! nat p, xs ! nat (p + 1))) (map int [k..<k + (length ps - 1)]))"
  then have i: "i < length ps - 1" "Suc i < length ps" by simp_all
  then have "nat (int (k + i) + 1) = k + Suc i" by simp
  then show "map (\<lambda>p. (xs ! nat p, xs ! nat (p + 1))) (map int [k..<k + (length ps - 1)]) ! i = zip ps (tl ps) ! i"
    using i that[of i] that[of "Suc i"] by (simp add: nth_tl del: of_nat_add)
qed simp

lemma way_starts_edges:
  "map (\<lambda>p. ((pre @ coast_points ways) ! nat p, (pre @ coast_points ways) ! nat (p + 1))) (way_starts (length pre) ways) = coast_edges ways"
proof (induction ways arbitrary: pre)
  case (Cons w ways)
  show ?case
  proof (cases "length (cw_points w) \<le> 1")
    case True
    then have "zip (cw_points w) (tl (cw_points w)) = []" by (cases "cw_points w") simp_all
    then show ?thesis using Cons.IH[of pre] True by (simp add: coast_points_def coast_edges_def)
  next
    case False
    let ?ps = "cw_points w" let ?xs = "pre @ ?ps @ coast_points ways"
    have c: "coast_points (w # ways) = ?ps @ coast_points ways" "coast_edges (w # ways) = zip ?ps (tl ?ps) @ coast_edges ways"
      using False by (simp_all add: coast_points_def coast_edges_def)
    have a: "map (\<lambda>p. (?xs ! nat p, ?xs ! nat (p + 1))) (map int [length pre..<length pre + (length ?ps - 1)]) = zip ?ps (tl ?ps)"
      by (rule zip_upt) (simp add: nth_append)
    have b: "map (\<lambda>p. (?xs ! nat p, ?xs ! nat (p + 1))) (way_starts (length pre + length ?ps) ways) = coast_edges ways"
      using Cons.IH[of "pre @ ?ps"] unfolding append_assoc length_append .
    have "length pre + length ?ps - 1 = length pre + (length ?ps - 1)" using False by simp
    then have "way_starts (length pre) (w # ways) = map int [length pre..<length pre + (length ?ps - 1)] @ way_starts (length pre + length ?ps) ways"
      using False by simp
    then show ?thesis unfolding c by (simp only: map_append a b)
  qed
qed (simp add: coast_edges_def)

lemma way_starts_range: "p \<in> set (way_starts k ways) \<Longrightarrow> int k \<le> p \<and> p + 1 < int (k + length (coast_points ways))"
proof (induction ways arbitrary: k)
  case (Cons w ways)
  show ?case
  proof (cases "length (cw_points w) \<le> 1")
    case True
    then show ?thesis using Cons.IH[of k] Cons.prems by (simp add: coast_points_def)
  next
    case False
    then have l: "length (coast_points (w # ways)) = length (cw_points w) + length (coast_points ways)" by (simp add: coast_points_def)
    have "p \<in> int ` {k..<k + length (cw_points w) - 1} \<or> p \<in> set (way_starts (k + length (cw_points w)) ways)"
      using Cons.prems False by simp
    then show ?thesis using Cons.IH[of "k + length (cw_points w)"] False unfolding l by auto
  qed
qed simp

text \<open>What the accessors give for an edge.\<close>

definition coast_edge :: "CoastlineWays \<Rightarrow> int \<Rightarrow> (real \<times> real \<times> real \<times> real) option" where
  "coast_edge cs e = do {
     sa \<leftarrow> CoastlineWays_getStartLatByEdgeIdx cs e; so \<leftarrow> CoastlineWays_getStartLonByEdgeIdx cs e;
     da \<leftarrow> CoastlineWays_getDestLatByEdgeIdx cs e; do' \<leftarrow> CoastlineWays_getDestLonByEdgeIdx cs e;
     Some (sa, so, da, do') }"

lemma initEdges_edges:
  obtains cs where "CoastlineWays_initEdges ways = Some cs" "CoastlineWays_getNumberOfEdges cs = int (length (coast_edges ways))"
    "\<forall>k < length (coast_edges ways). coast_edge cs (int k) =
      (case coast_edges ways ! k of (a, b) \<Rightarrow> Some (pt_lat a, pt_lon a, pt_lat b, pt_lon b))"
proof -
  let ?cs = "\<lparr>cs_edgePosStart = way_starts 0 ways, cs_pointLon = map pt_lon (coast_points ways), cs_pointLat = map pt_lat (coast_points ways)\<rparr>"
  note eq = way_starts_edges[of "[]" ways, simplified]
  have len: "length (way_starts 0 ways) = length (coast_edges ways)" using arg_cong[OF eq, of length] by simp
  have "coast_edge ?cs (int k) = (case coast_edges ways ! k of (a, b) \<Rightarrow> Some (pt_lat a, pt_lon a, pt_lat b, pt_lon b))"
    if k: "k < length (coast_edges ways)" for k
  proof -
    let ?p = "way_starts 0 ways ! k"
    have p: "0 \<le> ?p" "?p + 1 < int (length (coast_points ways))" using way_starts_range[of ?p 0 ways] k len by simp_all
    then have n: "nat ?p < length (coast_points ways)" "nat (?p + 1) < length (coast_points ways)" by (simp_all add: nat_less_iff)
    have "coast_edges ways ! k = (coast_points ways ! nat ?p, coast_points ways ! nat (?p + 1))"
      using nth_map[of k "way_starts 0 ways" "\<lambda>p. (coast_points ways ! nat p, coast_points ways ! nat (p + 1))"] k unfolding eq len by simp
    moreover have "aget (map f (coast_points ways)) ?p = Some (f (coast_points ways ! nat ?p))"
      "aget (map f (coast_points ways)) (?p + 1) = Some (f (coast_points ways ! nat (?p + 1)))" for f :: "Point \<Rightarrow> real"
      using p n by (simp_all add: aget_def)
    moreover have "aget (way_starts 0 ways) (int k) = Some ?p" using k len by (simp add: aget_def)
    ultimately show ?thesis
      by (simp add: coast_edge_def CoastlineWays_getStartLatByEdgeIdx_def CoastlineWays_getStartLonByEdgeIdx_def
          CoastlineWays_getDestLatByEdgeIdx_def CoastlineWays_getDestLonByEdgeIdx_def)
  qed
  moreover have "CoastlineWays_getNumberOfEdges ?cs = int (length (coast_edges ways))" unfolding CoastlineWays_getNumberOfEdges_def by (simp add: len)
  ultimately show thesis using that[OF initEdges_filling] by blast
qed

section \<open>The ways of a file\<close>

definition known_points :: "(real \<Rightarrow> real) \<Rightarrow> osm_node list \<Rightarrow> int \<Rightarrow> Point option" where
  "known_points fl nodes = map_of (map (\<lambda>n. (on_id n, \<lparr>pt_id = on_id n, pt_lat = fl (on_lat n), pt_lon = fl (on_lon n)\<rparr>)) (rev nodes))"

definition coast_ways :: "(real \<Rightarrow> real) \<Rightarrow> osm_node list \<Rightarrow> osm_way list \<Rightarrow> CoastlineWay list" where
  "coast_ways fl nodes ways = map (\<lambda>w. \<lparr>cw_points = List.map_filter (known_points fl nodes) (ow_nodes w)\<rparr>)
     (filter CoastlineImporter_isCoastlineEntity ways)"

lemma for_list_snoc: "for_list (xs @ ys) f s = do { s \<leftarrow> for_list xs f s; for_list ys f s }"
  by (induction xs arbitrary: s) (auto simp: bind_assoc)

lemma import_nodes:
  "for_list (map OnNode nodes) (CoastlineImporter_handle fl) \<lparr>ci_coastLineWays = ws, ci_allNodes = Some Map.empty\<rparr> =
     Some \<lparr>ci_coastLineWays = ws, ci_allNodes = Some (known_points fl nodes)\<rparr>"
  by (induction nodes rule: rev_induct)
    (simp_all add: known_points_def for_list_snoc CoastlineImporter_handle_def CoastlineImporter_processNode_def fun_upd_def)

lemma processWay_known:
  "CoastlineImporter_processWay w \<lparr>ci_coastLineWays = ws, ci_allNodes = Some m\<rparr> =
     Some \<lparr>ci_coastLineWays = ws @ (if CoastlineImporter_isCoastlineEntity w then [\<lparr>cw_points = List.map_filter m (ow_nodes w)\<rparr>] else []), ci_allNodes = Some m\<rparr>"
proof -
  have "for_list ids (\<lambda>i cWay. do { allNodes \<leftarrow> Some m; Some (case allNodes i of None \<Rightarrow> cWay | Some node \<Rightarrow> cWay\<lparr>cw_points := cw_points cWay @ [node]\<rparr>) })
      \<lparr>cw_points = ps\<rparr> = Some \<lparr>cw_points = ps @ List.map_filter m ids\<rparr>" for ids ps
    by (induction ids arbitrary: ps) (simp_all add: List.map_filter_simps split: option.split)
  then show ?thesis by (simp add: CoastlineImporter_processWay_def)
qed

lemma import_ways:
  "for_list (map OnWay ways) (CoastlineImporter_handle fl) \<lparr>ci_coastLineWays = ws, ci_allNodes = Some (known_points fl nodes)\<rparr> =
     Some \<lparr>ci_coastLineWays = ws @ coast_ways fl nodes ways, ci_allNodes = Some (known_points fl nodes)\<rparr>"
  by (induction ways arbitrary: ws) (simp_all add: coast_ways_def CoastlineImporter_handle_def processWay_known)

definition pbf_file :: "osm_node list \<Rightarrow> osm_way list \<Rightarrow> pbf_event list" where
  "pbf_file nodes ways = OnHeader # map OnNode nodes @ map OnWay ways @ [OnComplete]"

lemma importPBF_ways: "\<exists>ci. CoastlineImporter_importPBF fl (pbf_file nodes ways) CoastlineImporter_new = Some (coast_ways fl nodes ways, ci)"
proof -
  have h: "CoastlineImporter_handle fl OnHeader ci = Some ci" "CoastlineImporter_handle fl OnComplete ci = Some (CoastlineImporter_onCompletion ci)" for ci
    by (simp_all add: CoastlineImporter_handle_def)
  show ?thesis by (simp add: CoastlineImporter_importPBF_def CoastlineImporter_new_def pbf_file_def for_list_snoc import_nodes import_ways h
      CoastlineImporter_onCompletion_def)
qed

lemma stored_coast: "CoastlineWays_initCoastlineWays fl (CoastlineWays_storeData cs) pbf = Some (cs, CoastlineWays_storeData cs)"
  by (simp add: CoastlineWays_initCoastlineWays_def CoastlineWays_storeData_def CoastlineWays_getData_def)

section \<open>Properties\<close>

text \<open>
  C27. From a PBF file that lists its nodes before its ways the edges of the coast lines are the pairs of
  consecutive known nodes of each way tagged as a coast line and not as bogus, in the order of the
  file, with the coordinates the accessors return for their ids. A later run reads the same data back,
  whatever the PBF file is then.
\<close>

theorem coast_edges_imported:
  "\<exists>cs file. CoastlineWays_initCoastlineWays fl None (Some (pbf_file nodes ways)) = Some (cs, file) \<and>
     CoastlineWays_getNumberOfEdges cs = int (length (coast_edges (coast_ways fl nodes ways))) \<and>
     list_all (\<lambda>k. coast_edge cs (int k) = (case coast_edges (coast_ways fl nodes ways) ! k of (a, b) \<Rightarrow> Some (pt_lat a, pt_lon a, pt_lat b, pt_lon b)))
       [0..<length (coast_edges (coast_ways fl nodes ways))] \<and>
     CoastlineWays_initCoastlineWays fl' file pbf' = Some (cs, file)"
proof -
  obtain ci where i: "CoastlineImporter_importPBF fl (pbf_file nodes ways) CoastlineImporter_new = Some (coast_ways fl nodes ways, ci)"
    using importPBF_ways by blast
  obtain cs where cs: "CoastlineWays_initEdges (coast_ways fl nodes ways) = Some cs"
    "CoastlineWays_getNumberOfEdges cs = int (length (coast_edges (coast_ways fl nodes ways)))"
    "\<forall>k < length (coast_edges (coast_ways fl nodes ways)). coast_edge cs (int k) =
      (case coast_edges (coast_ways fl nodes ways) ! k of (a, b) \<Rightarrow> Some (pt_lat a, pt_lon a, pt_lat b, pt_lon b))"
    by (rule initEdges_edges)
  show ?thesis
    by (intro exI[of _ cs] exI[of _ "CoastlineWays_storeData cs"] conjI stored_coast cs(2))
      (use cs(3) in \<open>simp_all add: CoastlineWays_initCoastlineWays_def i cs(1) list_all_iff\<close>)
qed

end
