(* ===== verification/GridCreation.thy ===== *)
theory GridCreation
  imports RoutingSystem
begin

text \<open>
  The creation of the grid: \<open>dijkstragrid/GridNode.java\<close>, \<open>NodeCreateWorkerThread.java\<close> and
  \<open>GridCreator.java\<close>. The program lays points over the globe, 501 latitudes by 2000 longitudes, keeps
  those in water, joins each with its neighbours to the east, west, north and south, and exports the
  graph as a grid file.

  A \<open>BigDecimal\<close> is a real number, on which \<open>add\<close>, \<open>subtract\<close> and \<open>remainder\<close> are exact; the
  coordinates are multiples of a hundredth of a degree, so that the conversions between \<open>double\<close> and
  \<open>BigDecimal\<close>, which go through the shortest decimal text, do not change them. The test for water
  (\<open>PointInWaterChecker.pointInWater\<close>, with the conversion of its arguments to \<open>float\<close>) is the
  parameter \<open>water\<close>; \<open>WaterIndex\<close> supplies it. The worker threads add their nodes one by one to a shared list; the order in
  which all nodes arrive there is the parameter \<open>arrival\<close>, about which the properties assume only
  that every node arrives once. A reference to a node object is its position in that list.

  \<open>created_edges\<close> gives the edges in terms of rows and columns. The properties show that every edge
  has its opposite except those over the antimeridian, which lead from longitude 180 east but not
  back, and that the import of the file repairs exactly these.
\<close>

section \<open>GridNode\<close>

record GridNode =
  gn_latitude :: real
  gn_longitude :: real
  gn_id :: int

definition GridNode_new :: "real \<Rightarrow> real \<Rightarrow> GridNode" where
  "GridNode_new latitude longitude = \<lparr>gn_latitude = latitude, gn_longitude = longitude, gn_id = 0\<rparr>"

text \<open>\<open>BigDecimal.remainder\<close> has the sign of the dividend.\<close>

definition remainder :: "real \<Rightarrow> real \<Rightarrow> real" where
  "remainder x y = x - y * real_of_int (if 0 \<le> x / y then \<lfloor>x / y\<rfloor> else \<lceil>x / y\<rceil>)"

definition GridNode_calcNorthernNode :: "GridNode \<Rightarrow> real \<Rightarrow> GridNode option" where
  "GridNode_calcNorthernNode n latitudeOffset =
     (let nLatitude = gn_latitude n + latitudeOffset
      in if nLatitude > 90 then None else Some (GridNode_new nLatitude (gn_longitude n)))"

definition GridNode_calcSouthernNode :: "GridNode \<Rightarrow> real \<Rightarrow> GridNode option" where
  "GridNode_calcSouthernNode n latitudeOffset =
     (let nLatitude = gn_latitude n - latitudeOffset
      in if nLatitude < -90 then None else Some (GridNode_new nLatitude (gn_longitude n)))"

definition GridNode_calcEasternNode :: "GridNode \<Rightarrow> real \<Rightarrow> GridNode" where
  "GridNode_calcEasternNode n longitudeOffset =
     (let nLongitude = gn_longitude n + longitudeOffset;
          nLongitude = (if nLongitude > 180 then -180 + remainder nLongitude 180 else nLongitude)
      in GridNode_new (gn_latitude n) nLongitude)"

definition GridNode_calcWesternNode :: "GridNode \<Rightarrow> real \<Rightarrow> GridNode" where
  "GridNode_calcWesternNode n longitudeOffset =
     (let nLongitude = gn_longitude n - longitudeOffset;
          nLongitude = (if nLongitude < -180 then remainder nLongitude 180 else nLongitude)
      in GridNode_new (gn_latitude n) nLongitude)"

section \<open>Dimensions\<close>

definition DIMENSION_LATITUDE :: nat where
  "DIMENSION_LATITUDE = 500"

definition DIMENSION_LONGITUDE :: nat where
  "DIMENSION_LONGITUDE = 2000"

definition NUMBER_OF_THREADS_FOR_IN_WATER_CHECK :: nat where
  "NUMBER_OF_THREADS_FOR_IN_WATER_CHECK = 15"

definition coordinate_step_latitude :: real where
  "coordinate_step_latitude = 180 / real DIMENSION_LATITUDE"

definition coordinate_step_longitude :: real where
  "coordinate_step_longitude = 360 / real DIMENSION_LONGITUDE"

lemma steps: "coordinate_step_latitude = 9 / 25" "coordinate_step_longitude = 9 / 50"
  by (simp_all add: coordinate_step_latitude_def coordinate_step_longitude_def DIMENSION_LATITUDE_def DIMENSION_LONGITUDE_def)

section \<open>NodeCreateWorkerThread\<close>

text \<open>The loop over the longitudes of one row, and the run of a thread: the nodes it adds, in order.\<close>

function NodeCreateWorkerThread_row :: "(real \<Rightarrow> real \<Rightarrow> bool) \<Rightarrow> real \<Rightarrow> real \<Rightarrow> (real \<times> real) list" where
  "NodeCreateWorkerThread_row water lat longitude =
     (if longitude > -180
      then if \<not> water lat longitude then NodeCreateWorkerThread_row water lat (longitude - coordinate_step_longitude)
           else (lat, longitude) # NodeCreateWorkerThread_row water lat (longitude - coordinate_step_longitude)
      else [])"
  by pat_completeness auto
termination
proof (relation "measure (\<lambda>(water, lat, longitude). nat \<lceil>(longitude + 180) / coordinate_step_longitude\<rceil>)")
  have "nat \<lceil>(longitude - coordinate_step_longitude + 180) / coordinate_step_longitude\<rceil> < nat \<lceil>(longitude + 180) / coordinate_step_longitude\<rceil>"
    if "longitude > -180" for longitude :: real
  proof -
    have "(longitude - coordinate_step_longitude + 180) / coordinate_step_longitude = (longitude + 180) / coordinate_step_longitude - 1"
      by (simp add: steps field_simps)
    moreover have "0 < \<lceil>(longitude + 180) / coordinate_step_longitude\<rceil>" using that by (simp add: steps)
    ultimately show ?thesis by simp
  qed
  then show "longitude > -180 \<Longrightarrow> \<not> water lat longitude \<Longrightarrow> ((water, lat, longitude - coordinate_step_longitude), water, lat, longitude) \<in>
      measure (\<lambda>(water, lat, longitude). nat \<lceil>(longitude + 180) / coordinate_step_longitude\<rceil>)"
    "longitude > -180 \<Longrightarrow> \<not> \<not> water lat longitude \<Longrightarrow> ((water, lat, longitude - coordinate_step_longitude), water, lat, longitude) \<in>
      measure (\<lambda>(water, lat, longitude). nat \<lceil>(longitude + 180) / coordinate_step_longitude\<rceil>)" for water :: "real \<Rightarrow> real \<Rightarrow> bool" and lat longitude
    by simp_all
qed simp

declare NodeCreateWorkerThread_row.simps [simp del]

definition NodeCreateWorkerThread_addLatitude :: "real list \<Rightarrow> real \<Rightarrow> real list" where
  "NodeCreateWorkerThread_addLatitude latList lat = latList @ [lat]"

definition NodeCreateWorkerThread_run :: "(real \<Rightarrow> real \<Rightarrow> bool) \<Rightarrow> real list \<Rightarrow> (real \<times> real) list" where
  "NodeCreateWorkerThread_run water latList = concat (map (\<lambda>lat. NodeCreateWorkerThread_row water lat 180) latList)"

section \<open>GridCreator\<close>

text \<open>The list \<open>gridNodes\<close> and the map \<open>coordinateNodeStore\<close>.\<close>

type_synonym node_store = "real \<Rightarrow> (real \<Rightarrow> nat option) option"

definition GridCreator_addNode :: "real \<times> real \<Rightarrow> GridNode list \<times> node_store \<Rightarrow> GridNode list \<times> node_store" where
  "GridCreator_addNode p st = (case (p, st) of ((lat, longitude), gridNodes, store) \<Rightarrow>
     (let node = length gridNodes;
          gridNodes = gridNodes @ [GridNode_new lat longitude];
          store = (if store lat = None then store(lat \<mapsto> Map.empty) else store);
          store = store(lat \<mapsto> (the (store lat))(longitude \<mapsto> node))
      in (gridNodes, store)))"

text \<open>The loop that deals the latitudes out to the threads.\<close>

function GridCreator_assign :: "real \<Rightarrow> nat \<Rightarrow> real list list \<Rightarrow> real list list" where
  "GridCreator_assign lat nr threads =
     (if lat \<ge> -90
      then let threadToAssign = nr mod NUMBER_OF_THREADS_FOR_IN_WATER_CHECK
           in GridCreator_assign (lat - coordinate_step_latitude) (nr + 1)
                (threads[threadToAssign := NodeCreateWorkerThread_addLatitude (threads ! threadToAssign) lat])
      else threads)"
  by pat_completeness auto
termination
proof (relation "measure (\<lambda>(lat, nr, threads). nat (\<lfloor>(lat + 90) / coordinate_step_latitude\<rfloor> + 1))")
  fix lat :: real and nr :: nat and threads :: "real list list" and t
  assume "lat \<ge> -90"
  then have "0 \<le> \<lfloor>(lat + 90) / coordinate_step_latitude\<rfloor>" by (simp add: steps)
  moreover have "(lat - coordinate_step_latitude + 90) / coordinate_step_latitude = (lat + 90) / coordinate_step_latitude - 1"
    by (simp add: steps field_simps)
  ultimately show "((lat - coordinate_step_latitude, nr + 1, threads[t := NodeCreateWorkerThread_addLatitude (threads ! t) lat]), lat, nr, threads) \<in>
      measure (\<lambda>(lat, nr, threads). nat (\<lfloor>(lat + 90) / coordinate_step_latitude\<rfloor> + 1))"
    by simp
qed simp

declare GridCreator_assign.simps [simp del]

definition GridCreator_initGridCreator ::
    "(real \<Rightarrow> real \<Rightarrow> bool) \<Rightarrow> ((real \<times> real) list list \<Rightarrow> (real \<times> real) list) \<Rightarrow> GridNode list \<times> node_store" where
  "GridCreator_initGridCreator water arrival =
     (let threads = GridCreator_assign 90 0 (replicate NUMBER_OF_THREADS_FOR_IN_WATER_CHECK [])
      in fold GridCreator_addNode (arrival (map (NodeCreateWorkerThread_run water) threads)) ([], Map.empty))"

definition GridCreator_getNodeByLatLong :: "node_store \<Rightarrow> real \<Rightarrow> real \<Rightarrow> nat option" where
  "GridCreator_getNodeByLatLong store latitude longitude =
     (case store latitude of None \<Rightarrow> None | Some row \<Rightarrow> row longitude)"

definition GridCreator_neighbours :: "node_store \<Rightarrow> GridNode \<Rightarrow> nat option list" where
  "GridCreator_neighbours store currNode =
     (let eastCalcNode = GridNode_calcEasternNode currNode coordinate_step_longitude;
          westCalcNode = GridNode_calcWesternNode currNode coordinate_step_longitude;
          northCalcNode = GridNode_calcNorthernNode currNode coordinate_step_latitude;
          southCalcNode = GridNode_calcSouthernNode currNode coordinate_step_latitude;
          known = (\<lambda>n. GridCreator_getNodeByLatLong store (gn_latitude n) (gn_longitude n));
          east = known eastCalcNode;
          west = known westCalcNode;
          north = (case northCalcNode of None \<Rightarrow> None | Some n \<Rightarrow> known n);
          south = (case southCalcNode of None \<Rightarrow> None | Some n \<Rightarrow> known n)
      in [east, west, north, south])"

definition GridCreator_addEdges :: "GridNode list \<Rightarrow> node_store \<Rightarrow> nat \<Rightarrow> Edge \<Rightarrow> Edge" where
  "GridCreator_addEdges gridNodes store nodeIdx ed =
     (let currNode = gridNodes ! nodeIdx in
      fold (\<lambda>neighbour ed. case neighbour of None \<Rightarrow> ed
        | Some k \<Rightarrow> (let node = gridNodes ! k in
            ed\<lparr>ed_startNode := ed_startNode ed @ [int nodeIdx], ed_destNode := ed_destNode ed @ [gn_id node],
               ed_dist := ed_dist ed @ [to_int (getDistance (gn_latitude currNode) (gn_longitude currNode)
                 (gn_latitude node) (gn_longitude node))]\<rparr>))
        (GridCreator_neighbours store currNode) ed)"

definition GridCreator_createGrid ::
    "(real \<Rightarrow> real \<Rightarrow> bool) \<Rightarrow> ((real \<times> real) list list \<Rightarrow> (real \<times> real) list) \<Rightarrow> Grid \<Rightarrow> Grid \<times> fmi_line list option" where
  "GridCreator_createGrid water arrival g =
     (let (gridNodes, store) = GridCreator_initGridCreator water arrival;
          gridNodes = map (\<lambda>i. (gridNodes ! i)\<lparr>gn_id := int i\<rparr>) [0..<length gridNodes];
          ed = fold (GridCreator_addEdges gridNodes store) [0..<length gridNodes] \<lparr>ed_startNode = [], ed_destNode = [], ed_dist = []\<rparr>;
          g = g\<lparr>gr_node := \<lparr>nd_latitude = map gn_latitude gridNodes, nd_longitude = map gn_longitude gridNodes\<rparr>, gr_edge := ed\<rparr>
      in (g, Grid_exportToFmiFile g))"

section \<open>Rows and columns\<close>

type_synonym cell = "nat \<times> nat"

definition lat_of :: "nat \<Rightarrow> real" where
  "lat_of i = 90 - real i * (9 / 25)"

definition lon_of :: "nat \<Rightarrow> real" where
  "lon_of j = 180 - real j * (9 / 50)"

definition point :: "cell \<Rightarrow> real \<times> real" where
  "point c = (lat_of (fst c), lon_of (snd c))"

definition water_cells :: "(real \<Rightarrow> real \<Rightarrow> bool) \<Rightarrow> cell set" where
  "water_cells water = {(i, j). i \<le> 500 \<and> j < 2000 \<and> water (lat_of i) (lon_of j)}"

lemma lat_of_inj [simp]: "lat_of i = lat_of k \<longleftrightarrow> i = k"
  by (simp add: lat_of_def)

lemma lon_of_inj [simp]: "lon_of i = lon_of k \<longleftrightarrow> i = k"
  by (simp add: lon_of_def)

lemma point_inj: "point c = point d \<longleftrightarrow> c = d"
  by (cases c; cases d) (simp add: point_def)

lemma row_cells:
  "NodeCreateWorkerThread_row water (lat_of i) (lon_of j) = map (\<lambda>j. point (i, j)) (filter (\<lambda>j. water (lat_of i) (lon_of j)) [j..<2000])"
proof (induction "2000 - j" arbitrary: j)
  case 0
  then have "lon_of j \<le> -180" by (simp add: lon_of_def)
  then show ?case using 0 by (simp add: NodeCreateWorkerThread_row.simps)
next
  case (Suc k)
  then have j: "j < 2000" by simp
  then have "lon_of j > -180" by (simp add: lon_of_def)
  moreover have "lon_of j - coordinate_step_longitude = lon_of (Suc j)" by (simp add: lon_of_def steps field_simps)
  moreover have "NodeCreateWorkerThread_row water (lat_of i) (lon_of (Suc j)) =
      map (\<lambda>j. point (i, j)) (filter (\<lambda>j. water (lat_of i) (lon_of j)) [Suc j..<2000])"
    using Suc.hyps by (intro Suc.hyps(1)) simp
  ultimately show ?case using j by (subst NodeCreateWorkerThread_row.simps) (simp add: upt_conv_Cons point_def)
qed

lemma run_cells:
  "NodeCreateWorkerThread_run water (map lat_of is) =
     concat (map (\<lambda>i. map (\<lambda>j. point (i, j)) (filter (\<lambda>j. water (lat_of i) (lon_of j)) [0..<2000])) is)"
proof -
  have "lon_of 0 = 180" by (simp add: lon_of_def)
  then show ?thesis using row_cells[of water _ 0] by (simp add: NodeCreateWorkerThread_run_def comp_def)
qed

lemma mset_concat_update: "t < length xss \<Longrightarrow> mset (concat (xss[t := xss ! t @ [x]])) = add_mset x (mset (concat xss))"
  by (induction xss arbitrary: t) (auto simp: nth_Cons split: nat.splits)

lemma assign_rows:
  assumes "i \<le> 501" "length tss = NUMBER_OF_THREADS_FOR_IN_WATER_CHECK"
  shows "\<exists>tss'. GridCreator_assign (lat_of i) nr (map (map lat_of) tss) = map (map lat_of) tss' \<and>
    mset (concat tss') = mset (concat tss) + mset [i..<501]"
  using assms
proof (induction "501 - i" arbitrary: i nr tss)
  case 0
  then have "\<not> lat_of i \<ge> -90" by (simp add: lat_of_def)
  then show ?case using 0 by (intro exI[of _ tss]) (subst GridCreator_assign.simps, simp)
next
  case (Suc k)
  let ?t = "nr mod NUMBER_OF_THREADS_FOR_IN_WATER_CHECK"
  let ?tss = "tss[?t := tss ! ?t @ [i]]"
  have i: "i < 501" and t: "?t < length tss" using Suc.hyps(2) Suc.prems(2) by (simp_all add: NUMBER_OF_THREADS_FOR_IN_WATER_CHECK_def)
  have "lat_of i \<ge> -90" using i by (simp add: lat_of_def)
  moreover have "lat_of i - coordinate_step_latitude = lat_of (Suc i)" by (simp add: lat_of_def steps field_simps)
  ultimately have step: "GridCreator_assign (lat_of i) nr (map (map lat_of) tss) = GridCreator_assign (lat_of (Suc i)) (Suc nr) (map (map lat_of) ?tss)"
    using t by (subst GridCreator_assign.simps) (simp add: Let_def NodeCreateWorkerThread_addLatitude_def map_update)
  have "\<exists>tss'. GridCreator_assign (lat_of (Suc i)) (Suc nr) (map (map lat_of) ?tss) = map (map lat_of) tss' \<and>
      mset (concat tss') = mset (concat ?tss) + mset [Suc i..<501]"
    by (rule Suc.hyps(1)) (use Suc.hyps(2) i Suc.prems(2) in simp_all)
  then show ?case unfolding step mset_concat_update[OF t] using i by (simp add: upt_conv_Cons)
qed

lemma mset_map_pre:
  assumes "inj f" "mset xs = mset (map f ys)"
  obtains zs where "xs = map f zs" "mset zs = mset ys"
proof
  have "set xs = f ` set ys" using mset_eq_setD[OF assms(2)] by simp
  then have "f (inv f x) = x" if "x \<in> set xs" for x using that by (intro f_inv_into_f) blast
  then show "xs = map f (map (inv f) xs)" by (simp add: comp_def map_idI)
  show "mset (map (inv f) xs) = mset ys" using assms by (simp add: multiset.map_comp o_def)
qed

lemma arrived_cells:
  assumes "\<And>xss. mset (arrival xss) = mset (concat xss)"
  obtains cs where "arrival (map (NodeCreateWorkerThread_run water) (GridCreator_assign 90 0 (replicate NUMBER_OF_THREADS_FOR_IN_WATER_CHECK []))) = map point cs"
    "distinct cs" "set cs = water_cells water"
proof -
  have "lat_of 0 = 90" by (simp add: lat_of_def)
  then obtain tss where t: "GridCreator_assign 90 0 (replicate NUMBER_OF_THREADS_FOR_IN_WATER_CHECK []) = map (map lat_of) tss" "mset (concat tss) = mset [0..<501]"
    using assign_rows[of 0 "replicate NUMBER_OF_THREADS_FOR_IN_WATER_CHECK []" 0] by auto
  define cells where "cells = (\<lambda>i. map (Pair i) (filter (\<lambda>j. water (lat_of i) (lon_of j)) [0..<2000]))"
  have "concat (map (NodeCreateWorkerThread_run water) (map (map lat_of) tss)) = map point (concat (map cells (concat tss)))"
    by (induction tss) (simp_all add: run_cells cells_def map_concat comp_def)
  then have "mset (arrival (map (NodeCreateWorkerThread_run water) (map (map lat_of) tss))) = mset (map point (concat (map cells (concat tss))))" using assms by simp
  then obtain cs where cs: "arrival (map (NodeCreateWorkerThread_run water) (map (map lat_of) tss)) = map point cs" "mset cs = mset (concat (map cells (concat tss)))"
    using mset_map_pre[of point] point_inj by (metis injI)
  have rows: "distinct (concat tss)" "set (concat tss) = {0..<501}"
    using mset_eq_imp_distinct_iff[OF t(2)] mset_eq_setD[OF t(2)] by (simp_all del: set_concat)
  have "distinct (concat (map cells xs)) \<and> fst ` set (concat (map cells xs)) \<subseteq> set xs" if "distinct xs" for xs
    using that by (induction xs) (force simp: cells_def distinct_map inj_on_def)+
  from conjunct1[OF this[OF rows(1)]] have d: "distinct cs" using mset_eq_imp_distinct_iff[OF cs(2)] by (simp del: distinct_concat_iff)
  have "set cs = (\<Union>i \<in> set (concat tss). set (cells i))" using mset_eq_setD[OF cs(2)] by (simp del: set_concat) auto
  moreover have "c \<in> (\<Union>i \<in> {0..<501}. set (cells i)) \<longleftrightarrow> c \<in> water_cells water" for c
    by (cases c) (auto simp: cells_def water_cells_def image_iff)
  ultimately have "set cs = water_cells water" unfolding rows(2) by blast
  then show thesis using that cs(1) d unfolding t(1) by blast
qed

section \<open>The node store\<close>

definition cell_node :: "cell \<Rightarrow> GridNode" where
  "cell_node c = GridNode_new (lat_of (fst c)) (lon_of (snd c))"

definition cell_index :: "cell list \<Rightarrow> cell \<Rightarrow> nat option" where
  "cell_index cs = map_of (zip cs [0..<length cs])"

lemma cell_index_iff: "distinct cs \<Longrightarrow> cell_index cs c = Some k \<longleftrightarrow> k < length cs \<and> cs ! k = c"
  by (auto simp: cell_index_def in_set_zip)

lemma cell_index_nth: "distinct cs \<Longrightarrow> k < length cs \<Longrightarrow> cell_index cs (cs ! k) = Some k"
  by (simp add: cell_index_iff)

lemma cell_index_None: "cell_index cs c = None \<longleftrightarrow> c \<notin> set cs"
  by (simp add: cell_index_def map_of_zip_is_None)

lemma cell_index_snoc:
  assumes "distinct (cs @ [c])"
  shows "cell_index (cs @ [c]) d = (if d = c then Some (length cs) else cell_index cs d)"
proof -
  have "cell_index (cs @ [c]) d = Some k \<longleftrightarrow> (if d = c then Some (length cs) else cell_index cs d) = Some k" for k
    using assms by (auto simp: cell_index_iff nth_append less_Suc_eq dest: nth_mem)
  then show ?thesis by (metis option.exhaust)
qed

lemma getNode_addNode:
  assumes "GridCreator_addNode (la, lo) (ns, st) = (ns', st')"
  shows "GridCreator_getNodeByLatLong st' x y = (if (x, y) = (la, lo) then Some (length ns) else GridCreator_getNodeByLatLong st x y)"
    and "ns' = ns @ [GridNode_new la lo]"
  using assms by (auto simp: GridCreator_addNode_def GridCreator_getNodeByLatLong_def Let_def split: option.splits if_splits)

lemma addNodes:
  assumes "fold GridCreator_addNode (map point cs) ([], Map.empty) = (ns, st)" "distinct cs"
  shows "ns = map cell_node cs" "GridCreator_getNodeByLatLong st (lat_of i) (lon_of j) = cell_index cs (i, j)"
proof -
  have "ns = map cell_node cs \<and> (\<forall>i j. GridCreator_getNodeByLatLong st (lat_of i) (lon_of j) = cell_index cs (i, j))"
    using assms
  proof (induction cs arbitrary: ns st rule: rev_induct)
    case Nil
    then show ?case by (auto simp: GridCreator_getNodeByLatLong_def cell_index_def)
  next
    case (snoc c cs)
    obtain ns0 st0 where f: "fold GridCreator_addNode (map point cs) ([], Map.empty) = (ns0, st0)" by (meson surj_pair)
    have IH: "ns0 = map cell_node cs" "GridCreator_getNodeByLatLong st0 (lat_of i) (lon_of j) = cell_index cs (i, j)" for i j
      using snoc.IH[OF f] snoc.prems(2) by auto
    have a: "GridCreator_addNode (lat_of (fst c), lon_of (snd c)) (ns0, st0) = (ns, st)" using snoc.prems(1) f unfolding point_def[of c, symmetric] by simp
    show ?case using getNode_addNode[OF a] IH cell_index_snoc[OF snoc.prems(2)] by (cases c) (auto simp: cell_node_def)
  qed
  then show "ns = map cell_node cs" "GridCreator_getNodeByLatLong st (lat_of i) (lon_of j) = cell_index cs (i, j)" by blast+
qed

section \<open>The edges\<close>

text \<open>The cells to the east, west, north and south, as the program finds them.\<close>

definition neighbour_cells :: "cell \<Rightarrow> cell option list" where
  "neighbour_cells c = (case c of (i, j) \<Rightarrow>
     [Some (i, if j = 0 then 1999 else j - 1), if j = 1999 then None else Some (i, j + 1),
      if i = 0 then None else Some (i - 1, j), if i = 500 then None else Some (i + 1, j)])"

lemma lon_east: "j < 2000 \<Longrightarrow> gn_longitude (GridNode_calcEasternNode (cell_node (i, j)) coordinate_step_longitude) = lon_of (if j = 0 then 1999 else j - 1)"
proof (cases "j = 0")
  case True
  have "remainder (180 + 9 / 50) 180 = 9 / 50" by (simp add: remainder_def floor_unique)
  then show ?thesis using True by (simp add: GridNode_calcEasternNode_def cell_node_def GridNode_new_def steps lon_of_def)
next
  case False
  then show ?thesis by (simp add: GridNode_calcEasternNode_def cell_node_def GridNode_new_def steps lon_of_def field_simps of_nat_diff)
qed

lemma lon_west: "j < 2000 \<Longrightarrow> gn_longitude (GridNode_calcWesternNode (cell_node (i, j)) coordinate_step_longitude) = lon_of (j + 1)"
  by (simp add: GridNode_calcWesternNode_def cell_node_def GridNode_new_def steps lon_of_def field_simps)

lemma lat_north: "GridNode_calcNorthernNode (cell_node (i, j)) coordinate_step_latitude = (if i = 0 then None else Some (cell_node (i - 1, j)))"
  by (simp add: GridNode_calcNorthernNode_def cell_node_def GridNode_new_def steps lat_of_def field_simps of_nat_diff)

lemma lat_south: "i \<le> 500 \<Longrightarrow> GridNode_calcSouthernNode (cell_node (i, j)) coordinate_step_latitude = (if i = 500 then None else Some (cell_node (i + 1, j)))"
  by (auto simp: GridNode_calcSouthernNode_def cell_node_def GridNode_new_def steps lat_of_def field_simps)

lemma neighbours_cells:
  assumes look: "\<And>i j. GridCreator_getNodeByLatLong st (lat_of i) (lon_of j) = cell_index cs (i, j)"
    and cs: "set cs \<subseteq> {0..500} \<times> {0..<2000}" and c: "c \<in> set cs"
  shows "GridCreator_neighbours st (cell_node c) = map (\<lambda>d. Option.bind d (cell_index cs)) (neighbour_cells c)"
proof -
  obtain i j where ij: "c = (i, j)" "i \<le> 500" "j < 2000" using cs c by (cases c) auto
  have west: "cell_index cs (i, 2000) = None" using cs by (auto simp: cell_index_None)
  have n: "gn_latitude (cell_node (a, b)) = lat_of a" "gn_longitude (cell_node (a, b)) = lon_of b" for a b by (simp_all add: cell_node_def GridNode_new_def)
  have l: "gn_latitude (GridNode_calcEasternNode x s) = gn_latitude x" "gn_latitude (GridNode_calcWesternNode x s) = gn_latitude x" for x s
    by (simp_all add: GridNode_calcEasternNode_def GridNode_calcWesternNode_def GridNode_new_def Let_def)
  show ?thesis unfolding GridCreator_neighbours_def Let_def ij(1) lat_north lat_south[OF ij(2)] lon_east[OF ij(3)] lon_west[OF ij(3)] l n look
    using west by (simp add: neighbour_cells_def look n)
qed

definition cell_dist :: "cell \<Rightarrow> cell \<Rightarrow> int" where
  "cell_dist c d = to_int (getDistance (lat_of (fst c)) (lon_of (snd c)) (lat_of (fst d)) (lon_of (snd d)))"

definition node_edges :: "cell list \<Rightarrow> nat \<Rightarrow> TmpEdge list" where
  "node_edges cs k = map (\<lambda>v. \<lparr>te_startNode = int k, te_destNode = int v, te_dist = cell_dist (cs ! k) (cs ! v)\<rparr>)
     (concat (map (\<lambda>d. case Option.bind d (cell_index cs) of None \<Rightarrow> [] | Some v \<Rightarrow> [v]) (neighbour_cells (cs ! k))))"

definition created_edges :: "cell list \<Rightarrow> TmpEdge list" where
  "created_edges cs = concat (map (node_edges cs) [0..<length cs])"

definition created_nodes :: "cell list \<Rightarrow> TmpNode list" where
  "created_nodes cs = map (\<lambda>k. \<lparr>tn_id = int k, tn_latitude = lat_of (fst (cs ! k)), tn_longitude = lon_of (snd (cs ! k))\<rparr>) [0..<length cs]"

definition edge_arrays :: "TmpEdge list \<Rightarrow> Edge" where
  "edge_arrays E = \<lparr>ed_startNode = map te_startNode E, ed_destNode = map te_destNode E, ed_dist = map te_dist E\<rparr>"

lemma neighbours_id: "GridCreator_neighbours st (n\<lparr>gn_id := x\<rparr>) = GridCreator_neighbours st n"
  by (simp add: GridCreator_neighbours_def GridNode_calcEasternNode_def GridNode_calcWesternNode_def GridNode_calcNorthernNode_def
      GridNode_calcSouthernNode_def Let_def cong: if_cong)

lemma addEdges_cells:
  assumes ns: "ns = map (\<lambda>i. (map cell_node cs ! i)\<lparr>gn_id := int i\<rparr>) [0..<length cs]"
    and look: "\<And>i j. GridCreator_getNodeByLatLong st (lat_of i) (lon_of j) = cell_index cs (i, j)"
    and cs: "distinct cs" "set cs \<subseteq> {0..500} \<times> {0..<2000}" and k: "k < length cs"
  shows "GridCreator_addEdges ns st k (edge_arrays E) = edge_arrays (E @ node_edges cs k)"
proof -
  have at: "ns ! v = (cell_node (cs ! v))\<lparr>gn_id := int v\<rparr>" if "v < length cs" for v using that by (simp add: ns)
  have nb: "GridCreator_neighbours st (ns ! k) = map (\<lambda>d. Option.bind d (cell_index cs)) (neighbour_cells (cs ! k))"
    unfolding at[OF k] neighbours_id by (rule neighbours_cells[OF look cs(2) nth_mem[OF k]])
  have "fold (\<lambda>neighbour ed. case neighbour of None \<Rightarrow> ed
        | Some k' \<Rightarrow> (let node = ns ! k' in
            ed\<lparr>ed_startNode := ed_startNode ed @ [int k], ed_destNode := ed_destNode ed @ [gn_id node],
               ed_dist := ed_dist ed @ [to_int (getDistance (gn_latitude (ns ! k)) (gn_longitude (ns ! k)) (gn_latitude node) (gn_longitude node))]\<rparr>))
        xs (edge_arrays E) = edge_arrays (E @ map (\<lambda>v. \<lparr>te_startNode = int k, te_destNode = int v, te_dist = cell_dist (cs ! k) (cs ! v)\<rparr>)
        (concat (map (\<lambda>d. case d of None \<Rightarrow> [] | Some v \<Rightarrow> [v]) xs)))" if "\<forall>v. Some v \<in> set xs \<longrightarrow> v < length cs" for xs
    using that
  proof (induction xs arbitrary: E)
    case (Cons x xs)
    show ?case
    proof (cases x)
      case None
      then show ?thesis using Cons by simp
    next
      case (Some v)
      then have v: "v < length cs" using Cons.prems by simp
      show ?thesis using Cons.IH[of "E @ [\<lparr>te_startNode = int k, te_destNode = int v, te_dist = cell_dist (cs ! k) (cs ! v)\<rparr>]"] Cons.prems Some
        by (simp add: edge_arrays_def at[OF v] at[OF k] cell_node_def GridNode_new_def cell_dist_def)
    qed
  qed simp
  moreover have "v < length cs" if "Some v \<in> set (map (\<lambda>d. Option.bind d (cell_index cs)) (neighbour_cells (cs ! k)))" for v
    using that cell_index_iff[OF cs(1)] by (auto simp: bind_eq_Some_conv dest!: sym[of "Some v"])
  ultimately show ?thesis unfolding GridCreator_addEdges_def Let_def nb by (simp add: node_edges_def comp_def)
qed

lemma createGrid_file:
  assumes "\<And>xss. mset (arrival xss) = mset (concat xss)"
  obtains cs g' where "distinct cs" "set cs = water_cells water"
    "GridCreator_createGrid water arrival g = (g', Some (fmi_file [TextTok ''#''] [] (created_nodes cs) (created_edges cs)))"
    "gr_edge g' = edge_arrays (created_edges cs)"
proof -
  obtain cs where cs: "arrival (map (NodeCreateWorkerThread_run water) (GridCreator_assign 90 0 (replicate NUMBER_OF_THREADS_FOR_IN_WATER_CHECK []))) = map point cs"
    "distinct cs" "set cs = water_cells water" using arrived_cells[where arrival = arrival, OF assms] by blast
  obtain ns st where f: "fold GridCreator_addNode (map point cs) ([], Map.empty) = (ns, st)" by (meson surj_pair)
  have sub: "set cs \<subseteq> {0..500} \<times> {0..<2000}" unfolding cs(3) by (auto simp: water_cells_def)
  let ?ns = "map (\<lambda>i. (map cell_node cs ! i)\<lparr>gn_id := int i\<rparr>) [0..<length cs]"
  have "fold (GridCreator_addEdges ?ns st) [0..<k] (edge_arrays []) = edge_arrays (concat (map (node_edges cs) [0..<k]))" if "k \<le> length cs" for k
    using that by (induction k) (simp_all add: addEdges_cells[OF refl addNodes(2)[OF f cs(2)] cs(2) sub])
  from this[of "length cs"] have ed: "fold (GridCreator_addEdges ?ns st) [0..<length cs] \<lparr>ed_startNode = [], ed_destNode = [], ed_dist = []\<rparr> = edge_arrays (created_edges cs)"
    by (simp add: created_edges_def edge_arrays_def)
  let ?g = "g\<lparr>gr_node := \<lparr>nd_latitude = map gn_latitude ?ns, nd_longitude = map gn_longitude ?ns\<rparr>, gr_edge := edge_arrays (created_edges cs)\<rparr>"
  have "GridCreator_createGrid water arrival g = (?g, Grid_exportToFmiFile ?g)"
    by (simp add: GridCreator_createGrid_def GridCreator_initGridCreator_def cs(1) f addNodes(1)[OF f cs(2)] ed Let_def)
  moreover have "Grid_exportToFmiFile ?g = Some (fmi_file [TextTok ''#''] [] (created_nodes cs) (created_edges cs))"
  proof -
    have "map (\<lambda>i. \<lparr>te_startNode = te_startNode (created_edges cs ! i), te_destNode = te_destNode (created_edges cs ! i), te_dist = te_dist (created_edges cs ! i)\<rparr>)
        [0..<length (created_edges cs)] = created_edges cs" by (intro nth_equalityI) simp_all
    moreover have "map (\<lambda>i. \<lparr>te_startNode = map te_startNode (created_edges cs) ! i, te_destNode = map te_destNode (created_edges cs) ! i, te_dist = map te_dist (created_edges cs) ! i\<rparr>)
        [0..<length (created_edges cs)] = map (\<lambda>i. \<lparr>te_startNode = te_startNode (created_edges cs ! i), te_destNode = te_destNode (created_edges cs ! i), te_dist = te_dist (created_edges cs ! i)\<rparr>)
        [0..<length (created_edges cs)]" by simp
    moreover have "map (\<lambda>i. \<lparr>tn_id = int i, tn_latitude = map gn_latitude ?ns ! i, tn_longitude = map gn_longitude ?ns ! i\<rparr>) [0..<length cs] = created_nodes cs"
      by (simp add: created_nodes_def cell_node_def GridNode_new_def)
    ultimately show ?thesis by (subst export_lines) (simp_all add: edge_arrays_def)
  qed
  ultimately show thesis using that[of cs ?g] cs(2,3) by simp
qed

text \<open>Two cells are next to each other; the rows close at the antimeridian.\<close>

definition next_to :: "cell \<Rightarrow> cell \<Rightarrow> bool" where
  "next_to c d \<longleftrightarrow> fst c = fst d \<and> (snd d = (snd c + 1) mod 2000 \<or> snd c = (snd d + 1) mod 2000) \<or>
     snd c = snd d \<and> (fst d = fst c + 1 \<or> fst c = fst d + 1)"

definition sees :: "cell \<Rightarrow> cell \<Rightarrow> bool" where
  "sees c d \<longleftrightarrow> Some d \<in> set (neighbour_cells c)"

abbreviation globe :: "cell set" where
  "globe \<equiv> {0..500} \<times> {0..<2000}"

lemma sees_iff:
  assumes "c \<in> globe" "d \<in> globe"
  shows "sees c d \<longleftrightarrow> next_to c d \<and> \<not> (snd c = 1999 \<and> snd d = 0)"
proof -
  have succ: "(j + 1) mod 2000 = (if j = 1999 then 0 else j + 1)" if "j < 2000" for j :: nat using that by auto
  obtain i j i' j' where ij: "c = (i, j)" "d = (i', j')" "i \<le> 500" "j < 2000" "i' \<le> 500" "j' < 2000" using assms by (cases c; cases d) auto
  then have s: "sees c d \<longleftrightarrow> i' = i \<and> (if j = 0 then j' = 1999 else j = j' + 1) \<or> j \<noteq> 1999 \<and> i' = i \<and> j' = j + 1 \<or>
      i = i' + 1 \<and> j' = j \<or> i \<noteq> 500 \<and> i' = i + 1 \<and> j' = j"
    and n: "next_to c d \<longleftrightarrow> i = i' \<and> (j' = (if j = 1999 then 0 else j + 1) \<or> j = (if j' = 1999 then 0 else j' + 1)) \<or> j = j' \<and> (i' = i + 1 \<or> i = i' + 1)"
    unfolding next_to_def by (simp_all only: fst_conv snd_conv succ) (auto simp: sees_def neighbour_cells_def)
  show ?thesis unfolding s n unfolding ij(1,2) snd_conv using ij(3-6) by (cases "j = 0"; cases "j' = 0") auto
qed

lemma next_to_sym: "next_to c d \<longleftrightarrow> next_to d c"
  by (auto simp: next_to_def)

lemma getDistance_sym: "getDistance a b c d = getDistance c d a b"
proof -
  have r: "convertToRadian (x - y) / 2 = - (convertToRadian (y - x) / 2)" for x y by (simp add: convertToRadian_def field_simps)
  have "sin (convertToRadian (x - y) / 2) = - sin (convertToRadian (y - x) / 2)" for x y by (subst r) (rule sin_minus)
  from this[of c a] this[of d b] show ?thesis by (simp add: getDistance_def Let_def mult.commute[of "cos (convertToRadian a)"])
qed

lemma cell_dist_sym: "cell_dist c d = cell_dist d c"
  unfolding cell_dist_def by (subst getDistance_sym) (rule refl)

lemma cell_dist_nonneg: "0 \<le> cell_dist c d"
  using getDistance_bounds(1)[of "lat_of (fst c)" "lon_of (snd c)" "lat_of (fst d)" "lon_of (snd d)"] by (simp add: cell_dist_def to_int_def MAX_VALUE_def)

lemma cell_dist_le: "cell_dist c d \<le> 25484000"
proof -
  have "pi * EARTH_RADIUS < 25484000" using pi_less_4 by (simp add: EARTH_RADIUS_def)
  then have "getDistance (lat_of (fst c)) (lon_of (snd c)) (lat_of (fst d)) (lon_of (snd d)) < 25484000"
    using getDistance_bounds(2)[of "lat_of (fst c)" "lon_of (snd c)" "lat_of (fst d)" "lon_of (snd d)"] by simp
  then show ?thesis using getDistance_bounds(1)[of "lat_of (fst c)" "lon_of (snd c)" "lat_of (fst d)" "lon_of (snd d)"]
    unfolding cell_dist_def to_int_def by (simp add: MAX_VALUE_def)
qed

definition cell_edge :: "cell list \<Rightarrow> nat \<Rightarrow> nat \<Rightarrow> TmpEdge" where
  "cell_edge cs k v = \<lparr>te_startNode = int k, te_destNode = int v, te_dist = cell_dist (cs ! k) (cs ! v)\<rparr>"

lemma cell_edge_simps [simp]:
  "te_startNode (cell_edge cs k v) = int k" "te_destNode (cell_edge cs k v) = int v" "te_dist (cell_edge cs k v) = cell_dist (cs ! k) (cs ! v)"
  by (simp_all add: cell_edge_def)

lemma node_edges_iff:
  assumes "distinct cs"
  shows "e \<in> set (node_edges cs k) \<longleftrightarrow> (\<exists>v < length cs. sees (cs ! k) (cs ! v) \<and> e = cell_edge cs k v)"
proof -
  have "v \<in> set (concat (map (\<lambda>d. case Option.bind d (cell_index cs) of None \<Rightarrow> [] | Some v \<Rightarrow> [v]) (neighbour_cells (cs ! k)))) \<longleftrightarrow>
      v < length cs \<and> sees (cs ! k) (cs ! v)" for v
  proof -
    have "(v \<in> set (case Option.bind d (cell_index cs) of None \<Rightarrow> [] | Some v \<Rightarrow> [v])) \<longleftrightarrow> v < length cs \<and> d = Some (cs ! v)" for d
    proof -
      have "(v \<in> set (case Option.bind d (cell_index cs) of None \<Rightarrow> [] | Some v \<Rightarrow> [v])) \<longleftrightarrow> Option.bind d (cell_index cs) = Some v" by (auto split: option.splits)
      then show ?thesis unfolding bind_eq_Some_conv cell_index_iff[OF assms] by blast
    qed
    then show ?thesis unfolding sees_def by auto
  qed
  then show ?thesis unfolding node_edges_def cell_edge_def by (auto simp del: set_concat)
qed

lemma created_edges_iff:
  assumes "distinct cs"
  shows "e \<in> set (created_edges cs) \<longleftrightarrow> (\<exists>k < length cs. \<exists>v < length cs. sees (cs ! k) (cs ! v) \<and> e = cell_edge cs k v)"
  using node_edges_iff[OF assms] by (auto simp: created_edges_def)

lemma node_edges_start: "filter (\<lambda>e. te_startNode e = int k) (node_edges cs i) = (if i = k then node_edges cs k else [])"
  by (auto simp: node_edges_def filter_empty_conv)

lemma created_edges_of: "k < length cs \<Longrightarrow> filter (\<lambda>e. te_startNode e = int k) (created_edges cs) = node_edges cs k"
proof -
  have "concat (map (\<lambda>i. if i = k then node_edges cs k else []) [0..<n]) = (if k < n then node_edges cs k else [])" for n by (induction n) auto
  then show "k < length cs \<Longrightarrow> ?thesis" by (simp add: created_edges_def filter_concat comp_def node_edges_start)
qed

lemma created_edges_sorted: "sorted (map te_startNode (created_edges cs))"
proof -
  have "sorted (map te_startNode (concat (map (node_edges cs) [0..<n]))) \<and> (\<forall>e \<in> set (concat (map (node_edges cs) [0..<n])). te_startNode e < int n)" for n
  proof (induction n)
    case (Suc n)
    have "te_startNode e = int n" if "e \<in> set (node_edges cs n)" for e using that by (auto simp: node_edges_def)
    moreover have "sorted (map te_startNode (node_edges cs n))" by (simp add: node_edges_def comp_def sorted_iff_nth_mono)
    ultimately show ?case using Suc by (fastforce simp: sorted_append)
  qed simp
  then show ?thesis by (simp add: created_edges_def)
qed

section \<open>The repair of the import\<close>

definition opposite :: "TmpEdge \<Rightarrow> TmpEdge" where
  "opposite e = \<lparr>te_startNode = te_destNode e, te_destNode = te_startNode e, te_dist = te_dist e\<rparr>"

lemma checkEdge_general:
  assumes "\<exists>r \<in> set E. te_startNode r = te_destNode e"
  shows "fmi_checkEdge (fmi_adjacenceMap E) e (b, missing) =
    Some (b \<or> has_opposite E e, if b \<or> has_opposite E e then missing else missing @ [opposite e])"
proof -
  let ?es = "filter (\<lambda>r. te_startNode r = te_destNode e) E"
  have "?es \<noteq> []" using assms by (auto simp: filter_empty_conv)
  then have "map_of (fmi_adjacenceMap E) (te_destNode e) = Some ?es" using adjacenceMap_lookup[of E "te_destNode e"] by (simp add: Let_def)
  moreover have "list_ex (\<lambda>r. te_startNode r = te_destNode e \<and> te_destNode r = te_startNode e) ?es \<longleftrightarrow> has_opposite E e"
    by (auto simp: has_opposite_def list_ex_iff)
  ultimately show ?thesis by (simp add: fmi_checkEdge_def Let_def opposite_def)
qed

text \<open>When at most the first edge of each node lacks its opposite, the repair adds exactly what is missing.\<close>

lemma missingEdges_first:
  assumes out: "\<forall>e \<in> set E. \<exists>r \<in> set E. te_startNode r = te_destNode e"
    and first: "\<And>k e es. filter (\<lambda>e. te_startNode e = k) E = e # es \<Longrightarrow> \<forall>r \<in> set es. has_opposite E r"
    and ord: "\<And>m. set (entryOrder m) = set m"
  shows "\<exists>missing. fmi_missingEdges entryOrder (fmi_adjacenceMap E) = Some missing \<and> set missing = opposite ` {e \<in> set E. \<not> has_opposite E e}"
proof -
  let ?m = "fmi_adjacenceMap E" let ?h = "\<lambda>x :: int \<times> TmpEdge list. map opposite (filter (\<lambda>e. \<not> has_opposite E e) (snd x))"
  have good: "\<exists>b'. for_list es (fmi_checkEdge ?m) (b, acc) = Some (b', acc)" if "set es \<subseteq> set E" "\<forall>e \<in> set es. has_opposite E e" for es b acc
    using that by (induction es arbitrary: b) (use checkEdge_general out in auto)
  have entry: "fmi_checkEntry ?m x acc = Some (acc @ ?h x)" if x: "x \<in> set ?m" for x acc
  proof -
    have es: "snd x = filter (\<lambda>e. te_startNode e = fst x) E" using adjacenceMap_entry[of "fst x" "snd x" E] x by simp
    show ?thesis
    proof (cases "snd x")
      case Nil
      then show ?thesis by (simp add: fmi_checkEntry_def)
    next
      case (Cons e es)
      have sub: "e \<in> set E" "set es \<subseteq> set E" using Cons es by (metis filter_is_subset list.set_intros(1) subsetD, metis Cons es filter_is_subset set_subset_Cons subset_trans)
      have opp: "\<forall>r \<in> set es. has_opposite E r" using first[of "fst x" e es] Cons es by simp
      have ce: "fmi_checkEdge ?m e (False, acc) = Some (has_opposite E e, if has_opposite E e then acc else acc @ [opposite e])"
        using checkEdge_general[of E e False acc] out sub(1) by simp
      have "filter (\<lambda>e. \<not> has_opposite E e) es = []" using opp by (simp add: filter_empty_conv)
      with good[OF sub(2) opp] show ?thesis unfolding fmi_checkEntry_def Cons by (cases "has_opposite E e") (simp_all add: ce, metis (no_types, lifting) bind.bind_lunit old.prod.case, metis (no_types, lifting) bind.bind_lunit old.prod.case)
    qed
  qed
  have "fmi_missingEdges entryOrder ?m = Some ([] @ concat (map ?h (entryOrder ?m)))"
    unfolding fmi_missingEdges_def by (rule for_list_contributions) (use entry ord in blast)
  moreover have "set (concat (map ?h (entryOrder ?m))) = opposite ` {e \<in> set E. \<not> has_opposite E e}"
  proof -
    have "(\<exists>x \<in> set ?m. e \<in> set (snd x)) \<longleftrightarrow> e \<in> set E" for e
    proof
      assume "\<exists>x \<in> set ?m. e \<in> set (snd x)"
      then show "e \<in> set E" using adjacenceMap_entry[of _ _ E] by fastforce
    next
      assume e: "e \<in> set E"
      then have "map_of ?m (te_startNode e) = Some (filter (\<lambda>r. te_startNode r = te_startNode e) E)"
        using adjacenceMap_lookup[of E "te_startNode e"] by (auto simp: Let_def filter_empty_conv)
      from map_of_SomeD[OF this] show "\<exists>x \<in> set ?m. e \<in> set (snd x)" using e by force
    qed
    then show ?thesis unfolding set_concat set_map ord by fastforce
  qed
  ultimately show ?thesis by simp
qed

lemma created_ids:
  assumes "\<forall>k < length N. tn_id (N ! k) = int k"
  shows "distinct (map tn_id N)" "tn_id ` set N = {0..<int (length N)}"
proof -
  have ids: "map tn_id N = map int [0..<length N]" using assms by (intro nth_equalityI) simp_all
  show "distinct (map tn_id N)" unfolding ids by (simp add: distinct_map inj_on_def)
  show "tn_id ` set N = {0..<int (length N)}" using arg_cong[OF ids, of set] image_int_atLeastLessThan[of 0 "length N"] by simp
qed

lemma internal_sorted:
  assumes N: "\<forall>k < length N. tn_id (N ! k) = int k" and ins: "edges_inside (length N) E" and srt: "sorted (map te_startNode E)"
  shows "E = sort_key te_startNode (map (internal_edge (file_ids 0 N)) E)"
proof -
  have fid: "file_ids 0 N x = Some x" if "0 \<le> x" "x < int (length N)" for x
    using file_ids_nth[OF created_ids(1)[OF N], of "nat x" 0] N that by (simp add: nat_less_iff)
  have "map (internal_edge (file_ids 0 N)) E = E"
  proof (rule map_idI)
    fix e assume "e \<in> set E"
    then have "0 \<le> te_startNode e" "te_startNode e < int (length N)" "0 \<le> te_destNode e" "te_destNode e < int (length N)"
      using ins unfolding edges_inside_def by blast+
    then show "internal_edge (file_ids 0 N) e = e" using fid by (cases e) (simp add: internal_edge_def)
  qed
  then show ?thesis using sort_key_id_if_sorted[OF srt] by simp
qed

text \<open>
  The import of a file whose node ids count from 0 and whose edges are sorted, with edges added by
  the repair.
\<close>

lemma import_repaired:
  assumes N: "\<forall>k < length N. tn_id (N ! k) = int k" and ins: "edges_inside (length N) E" and srt: "sorted (map te_startNode E)"
    and m: "fmi_missingEdges entryOrder (fmi_adjacenceMap E) = Some missing" and insm: "edges_inside (length N) missing"
  shows "\<exists>g. Grid_importFmiFile entryOrder (fmi_file a b N E) = Some g \<and> Grid_wf g \<and>
    nd_latitude (gr_node g) = map tn_latitude N \<and> nd_longitude (gr_node g) = map tn_longitude N \<and>
    (\<forall>u < length N. Grid_adj g (int u) = map (\<lambda>e. (te_destNode e, te_dist e)) (filter (\<lambda>e. te_startNode e = int u) (E @ missing)))"
proof -
  note ids = created_ids[OF N] and E = internal_sorted[OF N ins srt]
  have ends: "\<forall>e \<in> set E. te_startNode e \<in> tn_id ` set N \<and> te_destNode e \<in> tn_id ` set N" using ins unfolding ids(2) edges_inside_def by simp
  let ?E = "sort_key te_startNode (E @ missing)"
  have "fmi_parse entryOrder (fmi_file a b N E) = Some (int (length N), N, int (length ?E), ?E)"
    unfolding fmi_parse_file[OF ids(1) ends E] m by simp
  moreover have insE: "edges_inside (length N) ?E" using ins insm by (auto simp: edges_inside_def)
  ultimately have "Grid_importFmiFile entryOrder (fmi_file a b N E) = Some (grid_of N ?E)" by (rule import_grid_of)
  moreover have "Grid_adj (grid_of N ?E) (int u) = map (\<lambda>e. (te_destNode e, te_dist e)) (filter (\<lambda>e. te_startNode e = int u) (E @ missing))"
    if "u < length N" for u
    using grid_of_adj[of ?E u N] that sort_key_stable[of te_startNode "int u" "E @ missing"] by simp
  ultimately show ?thesis using grid_of_wf[OF insE] by (intro exI[of _ "grid_of N ?E"]) (simp add: grid_of_def)
qed

section \<open>The created file\<close>

lemma created_opposite:
  assumes cs: "distinct cs" "set cs \<subseteq> globe" and kv: "k < length cs" "v < length cs"
  shows "has_opposite (created_edges cs) (cell_edge cs k v) \<longleftrightarrow> sees (cs ! v) (cs ! k)"
proof
  assume "has_opposite (created_edges cs) (cell_edge cs k v)"
  then obtain r where r: "r \<in> set (created_edges cs)" "te_startNode r = int v" "te_destNode r = int k" by (auto simp: has_opposite_def list_ex_iff cell_edge_def)
  then show "sees (cs ! v) (cs ! k)" by (auto simp: created_edges_iff[OF cs(1)] cell_edge_def)
next
  assume "sees (cs ! v) (cs ! k)"
  then have "cell_edge cs v k \<in> set (created_edges cs)" using kv created_edges_iff[OF cs(1)] by blast
  then show "has_opposite (created_edges cs) (cell_edge cs k v)" by (force simp: has_opposite_def list_ex_iff cell_edge_def)
qed

lemma cells_nth: "set cs \<subseteq> globe \<Longrightarrow> k < length cs \<Longrightarrow> cs ! k \<in> globe"
  using nth_mem by blast

text \<open>Only the edge to the east at longitude 180 has no opposite, and it is the first of its node.\<close>

lemma created_one_way:
  assumes cs: "distinct cs" "set cs \<subseteq> globe" and kv: "k < length cs" "v < length cs" "sees (cs ! k) (cs ! v)" "\<not> sees (cs ! v) (cs ! k)"
  shows "snd (cs ! k) = 0" "cs ! v = (fst (cs ! k), 1999)"
proof -
  have n: "next_to (cs ! k) (cs ! v)" "snd (cs ! k) = 0" "snd (cs ! v) = 1999"
    using kv(3,4) sees_iff[OF cells_nth[OF cs(2) kv(1)] cells_nth[OF cs(2) kv(2)]] sees_iff[OF cells_nth[OF cs(2) kv(2)] cells_nth[OF cs(2) kv(1)]] next_to_sym by auto
  then have "fst (cs ! k) = fst (cs ! v)" by (simp add: next_to_def)
  then show "snd (cs ! k) = 0" "cs ! v = (fst (cs ! k), 1999)" using n(2,3) by (simp_all add: prod_eq_iff)
qed

lemma node_edges_split:
  "node_edges cs k = (case cell_index cs (fst (cs ! k), if snd (cs ! k) = 0 then 1999 else snd (cs ! k) - 1) of None \<Rightarrow> [] | Some v \<Rightarrow> [cell_edge cs k v]) @
     map (cell_edge cs k) (concat (map (\<lambda>d. case Option.bind d (cell_index cs) of None \<Rightarrow> [] | Some v \<Rightarrow> [v]) (tl (neighbour_cells (cs ! k)))))"
  by (cases "cs ! k") (simp add: node_edges_def neighbour_cells_def cell_edge_def split: option.split)

lemma created_first:
  assumes cs: "distinct cs" "set cs \<subseteq> globe" and f: "filter (\<lambda>e. te_startNode e = x) (created_edges cs) = e # es"
  shows "\<forall>r \<in> set es. has_opposite (created_edges cs) r"
proof
  fix r assume r: "r \<in> set es"
  have "e \<in> set (filter (\<lambda>e. te_startNode e = x) (created_edges cs))" "r \<in> set (filter (\<lambda>e. te_startNode e = x) (created_edges cs))" unfolding f using r by simp_all
  then obtain k v where kv: "k < length cs" "v < length cs" "sees (cs ! k) (cs ! v)" "r = cell_edge cs k v" "x = int k"
    by (auto simp: created_edges_iff[OF cs(1)] cell_edge_def)
  have ne: "node_edges cs k = e # es" using f created_edges_of[OF kv(1)] kv(5) by simp
  show "has_opposite (created_edges cs) r"
  proof (rule ccontr)
    assume "\<not> has_opposite (created_edges cs) r"
    then have "\<not> sees (cs ! v) (cs ! k)" using created_opposite[OF cs kv(1,2)] kv(4) by simp
    note w = created_one_way[OF cs kv(1-3) this]
    have "cell_index cs (fst (cs ! k), 1999) = Some v" using cell_index_nth[OF cs(1) kv(2)] w(2) by simp
    then have "r \<in> set (map (cell_edge cs k) (concat (map (\<lambda>d. case Option.bind d (cell_index cs) of None \<Rightarrow> [] | Some v \<Rightarrow> [v]) (tl (neighbour_cells (cs ! k))))))"
      using node_edges_split[of cs k] ne r w(1) by simp
    then obtain v' d where v': "r = cell_edge cs k v'" "d \<in> set (tl (neighbour_cells (cs ! k)))" "Option.bind d (cell_index cs) = Some v'" by (auto split: option.splits)
    then have "d = Some (cs ! v)" using kv(4) cell_index_iff[OF cs(1)] unfolding bind_eq_Some_conv by (auto simp: cell_edge_def)
    then have "Some (fst (cs ! k), 1999) \<in> set (tl (neighbour_cells (cs ! k)))" using v'(2) w(2) by simp
    then show False using w(1) by (cases "cs ! k") (auto simp: neighbour_cells_def split: if_splits)
  qed
qed

text \<open>No node at the last longitude has the node over the antimeridian as its only neighbour.\<close>

definition no_dead_end :: "cell set \<Rightarrow> bool" where
  "no_dead_end W \<longleftrightarrow> (\<forall>i. (i, 0) \<in> W \<and> (i, 1999) \<in> W \<longrightarrow> (i, 1998) \<in> W \<or> (i + 1, 1999) \<in> W \<or> (0 < i \<and> (i - 1, 1999) \<in> W))"

lemma created_out:
  assumes cs: "distinct cs" "set cs \<subseteq> globe" and dead: "no_dead_end (set cs)" and e: "e \<in> set (created_edges cs)"
  shows "\<exists>r \<in> set (created_edges cs). te_startNode r = te_destNode e"
proof -
  obtain k v where kv: "k < length cs" "v < length cs" "sees (cs ! k) (cs ! v)" "e = cell_edge cs k v" using e by (auto simp: created_edges_iff[OF cs(1)])
  have "\<exists>x < length cs. sees (cs ! v) (cs ! x)"
  proof (cases "sees (cs ! v) (cs ! k)")
    case False
    note w = created_one_way[OF cs kv(1-3) False]
    let ?i = "fst (cs ! k)"
    have "(?i, 0) \<in> set cs" "(?i, 1999) \<in> set cs" using nth_mem[OF kv(1)] nth_mem[OF kv(2)] w by (metis prod.collapse)+
    then have "(?i, 1998) \<in> set cs \<or> (?i + 1, 1999) \<in> set cs \<or> (0 < ?i \<and> (?i - 1, 1999) \<in> set cs)"
      using dead[unfolded no_dead_end_def, rule_format, of ?i] by blast
    moreover have "?i + 1 \<le> 500" if "(?i + 1, 1999) \<in> set cs" using cs(2) that by auto
    moreover have "sees (?i, 1999) (?i, 1998)" "?i + 1 \<le> 500 \<Longrightarrow> sees (?i, 1999) (?i + 1, 1999)" "0 < ?i \<Longrightarrow> sees (?i, 1999) (?i - 1, 1999)"
      by (simp_all add: sees_def neighbour_cells_def)
    ultimately obtain d where "d \<in> set cs" "sees (cs ! v) d" unfolding w(2) by blast
    then show ?thesis by (metis in_set_conv_nth)
  qed (use kv(1) in blast)
  then obtain x where x: "x < length cs" "sees (cs ! v) (cs ! x)" by blast
  show ?thesis by (rule bexI[of _ "cell_edge cs v x"]) (use kv(2,4) x created_edges_iff[OF cs(1)] in \<open>auto simp: cell_edge_def[of cs k] cell_edge_def[of cs v]\<close>)
qed

lemma created_inside:
  assumes "distinct cs"
  shows "edges_inside (length cs) (created_edges cs)" "set missing \<subseteq> opposite ` set (created_edges cs) \<Longrightarrow> edges_inside (length cs) missing"
  using created_edges_iff[OF assms] by (fastforce simp: edges_inside_def cell_edge_def opposite_def cell_dist_nonneg)+

lemma import_created:
  assumes cs: "distinct cs" "set cs \<subseteq> globe" and dead: "no_dead_end (set cs)" and ord: "\<And>m. set (entryOrder m) = set m"
  shows "\<exists>g. Grid_importFmiFile entryOrder (fmi_file a b (created_nodes cs) (created_edges cs)) = Some g \<and> Grid_wf g \<and>
    nd_latitude (gr_node g) = map (\<lambda>c. lat_of (fst c)) cs \<and> nd_longitude (gr_node g) = map (\<lambda>c. lon_of (snd c)) cs \<and>
    (\<forall>u < length cs. set (Grid_adj g (int u)) = {(int v, cell_dist (cs ! u) (cs ! v)) | v. v < length cs \<and> next_to (cs ! u) (cs ! v)})"
proof -
  let ?E = "created_edges cs" let ?N = "created_nodes cs"
  have "\<exists>missing. fmi_missingEdges entryOrder (fmi_adjacenceMap ?E) = Some missing \<and> set missing = opposite ` {e \<in> set ?E. \<not> has_opposite ?E e}"
    by (rule missingEdges_first) (use created_out[OF cs dead] created_first[OF cs] ord in blast)+
  then obtain missing where m: "fmi_missingEdges entryOrder (fmi_adjacenceMap ?E) = Some missing" "set missing = opposite ` {e \<in> set ?E. \<not> has_opposite ?E e}" by blast
  have len: "length ?N = length cs" by (simp add: created_nodes_def)
  have cols: "map tn_latitude ?N = map (\<lambda>c. lat_of (fst c)) cs" "map tn_longitude ?N = map (\<lambda>c. lon_of (snd c)) cs"
    by (intro nth_equalityI; simp add: created_nodes_def)+
  have adj: "(\<lambda>e. (te_destNode e, te_dist e)) ` {e \<in> set ?E \<union> set missing. te_startNode e = int u} =
      {(int v, cell_dist (cs ! u) (cs ! v)) | v. v < length cs \<and> next_to (cs ! u) (cs ! v)}" if u: "u < length cs" for u
  proof -
    have "e \<in> set missing \<longleftrightarrow> (\<exists>k < length cs. \<exists>v < length cs. sees (cs ! v) (cs ! k) \<and> \<not> sees (cs ! k) (cs ! v) \<and> e = cell_edge cs k v)" for e
    proof -
      have "opposite (cell_edge cs v k) = cell_edge cs k v" for k v by (simp add: opposite_def cell_edge_def cell_dist_sym)
      then show ?thesis unfolding m(2) using created_opposite[OF cs] by (auto simp: created_edges_iff[OF cs(1)] image_iff) metis+
    qed
    then have "e \<in> set ?E \<union> set missing \<longleftrightarrow> (\<exists>k < length cs. \<exists>v < length cs. next_to (cs ! k) (cs ! v) \<and> e = cell_edge cs k v)" for e
      using sees_iff[OF cells_nth[OF cs(2)] cells_nth[OF cs(2)]] next_to_sym unfolding Un_iff created_edges_iff[OF cs(1)] by (metis zero_neq_numeral)
    then have "{e \<in> set ?E \<union> set missing. te_startNode e = int u} = cell_edge cs u ` {v. v < length cs \<and> next_to (cs ! u) (cs ! v)}" using u by auto
    then show ?thesis by (simp add: image_image) blast
  qed
  have ids: "\<forall>k < length ?N. tn_id (?N ! k) = int k" by (simp add: created_nodes_def)
  have "set missing \<subseteq> opposite ` set ?E" using m(2) by blast
  note ins = created_inside(1)[OF cs(1)] created_inside(2)[OF cs(1) this]
  obtain g where g: "Grid_importFmiFile entryOrder (fmi_file a b ?N ?E) = Some g" "Grid_wf g"
    "nd_latitude (gr_node g) = map tn_latitude ?N" "nd_longitude (gr_node g) = map tn_longitude ?N"
    "\<forall>u < length ?N. Grid_adj g (int u) = map (\<lambda>e. (te_destNode e, te_dist e)) (filter (\<lambda>e. te_startNode e = int u) (?E @ missing))"
    using import_repaired[OF ids ins(1)[folded len] created_edges_sorted m(1) ins(2)[folded len], of a b] by blast
  have "set (Grid_adj g (int u)) = (\<lambda>e. (te_destNode e, te_dist e)) ` {e \<in> set ?E \<union> set missing. te_startNode e = int u}" if "u < length cs" for u
    using g(5) that len by simp blast
  then show ?thesis using g(1-4) adj unfolding cols by (intro exI[of _ g]) simp
qed

text \<open>
  The nodes at the north pole are one place: the edges between them have length 0. The label
  creation is shown correct for edges of positive length only.
\<close>

lemma polar_edges: "cell_dist (0, j) (0, k) = 0"
proof -
  have "atan2 0 1 = 0" using atan2_sin_cos[of 0] by simp
  then have "getDistance 90 a 90 b = 0" for a b by (simp add: getDistance_def convertToRadian_def)
  then show ?thesis by (simp add: cell_dist_def lat_of_def to_int_def MAX_VALUE_def)
qed

section \<open>Properties\<close>

lemma for_list_fails: "x \<in> set xs \<Longrightarrow> (\<And>s. f x s = None) \<Longrightarrow> for_list xs f s = None"
proof (induction xs arbitrary: s)
  case (Cons y xs)
  then show ?case by (cases "f y s") auto
qed simp

text \<open>
  C23. A node of the created grid at longitude -179.82 is not joined with its neighbour to the west at
  longitude 180, though that one is joined with it: the program looks for the western neighbour at
  longitude -180. When the node has no other neighbour it has no edge at all, and the import throws
  on the file the program has exported, for every order of the threads and of the hash map.
\<close>

theorem dead_end_fails:
  assumes "\<And>xss. mset (arrival xss) = mset (concat xss)" and "\<And>m. set (entryOrder m) = set m"
    and "(i, 0) \<in> water_cells water" and "(i, 1999) \<in> water_cells water" and "(i, 1998) \<notin> water_cells water"
    and "(i + 1, 1999) \<notin> water_cells water" and "i = 0 \<or> (i - 1, 1999) \<notin> water_cells water"
  shows "\<exists>g' file. GridCreator_createGrid water arrival g = (g', Some file) \<and> Grid_importFmiFile entryOrder file = None"
proof -
  obtain cs g' where c: "distinct cs" "set cs = water_cells water"
    "GridCreator_createGrid water arrival g = (g', Some (fmi_file [TextTok ''#''] [] (created_nodes cs) (created_edges cs)))"
    using createGrid_file[where arrival = arrival, OF assms(1)] by blast
  let ?E = "created_edges cs" let ?m = "fmi_adjacenceMap ?E"
  have sub: "set cs \<subseteq> globe" unfolding c(2) by (auto simp: water_cells_def)
  obtain k v where kv: "k < length cs" "cs ! k = (i, 0)" "v < length cs" "cs ! v = (i, 1999)" using assms(3,4) unfolding c(2)[symmetric] by (metis in_set_conv_nth)
  have "Some (cs ! x) \<notin> set (neighbour_cells (i, 1999))" if x: "x < length cs" for x
    using nth_mem[OF x] assms(5-7) unfolding c(2) by (cases "cs ! x") (auto simp: neighbour_cells_def)
  then have "te_startNode r \<noteq> int v" if "r \<in> set ?E" for r using that kv(4) by (auto simp: created_edges_iff[OF c(1)] sees_def)
  then have none: "map_of ?m (int v) = None" using adjacenceMap_lookup[of ?E "int v"] by (auto simp: Let_def filter_empty_conv)
  have "sees (cs ! k) (cs ! v)" by (simp add: kv sees_def neighbour_cells_def)
  then have e: "cell_edge cs k v \<in> set (filter (\<lambda>e. te_startNode e = int k) ?E)" using kv(1,3) created_edges_iff[OF c(1)] by auto
  then have "filter (\<lambda>e. te_startNode e = int k) ?E \<noteq> []" by (metis empty_iff empty_set)
  then have "map_of ?m (int k) = Some (filter (\<lambda>e. te_startNode e = int k) ?E)" using adjacenceMap_lookup[of ?E "int k"] by (simp add: Let_def)
  from map_of_SomeD[OF this] have "(int k, filter (\<lambda>e. te_startNode e = int k) ?E) \<in> set ?m" .
  moreover have "fmi_checkEntry ?m (int k, filter (\<lambda>e. te_startNode e = int k) ?E) acc = None" for acc
  proof -
    have "for_list (filter (\<lambda>e. te_startNode e = int k) ?E) (fmi_checkEdge ?m) (False, acc) = None"
      by (rule for_list_fails[OF e]) (auto simp: fmi_checkEdge_def none split: prod.split)
    then show ?thesis by (simp add: fmi_checkEntry_def)
  qed
  ultimately have m: "fmi_missingEdges entryOrder ?m = None" unfolding fmi_missingEdges_def by (intro for_list_fails) (use assms(2) in blast)
  have N: "\<forall>x < length (created_nodes cs). tn_id (created_nodes cs ! x) = int x" by (simp add: created_nodes_def)
  have len: "length (created_nodes cs) = length cs" by (simp add: created_nodes_def)
  note ids = created_ids[OF N]
  have ends: "\<forall>e \<in> set ?E. te_startNode e \<in> tn_id ` set (created_nodes cs) \<and> te_destNode e \<in> tn_id ` set (created_nodes cs)"
    using created_inside(1)[OF c(1)] unfolding ids(2) len edges_inside_def by simp
  have E: "?E = sort_key te_startNode (map (internal_edge (file_ids 0 (created_nodes cs))) ?E)"
    by (rule internal_sorted[OF N created_inside(1)[OF c(1), folded len] created_edges_sorted])
  have "Grid_importFmiFile entryOrder (fmi_file [TextTok ''#''] [] (created_nodes cs) ?E) = None"
    unfolding Grid_importFmiFile_def fmi_parse_file[OF ids(1) ends E] m by simp
  then show ?thesis using c(3) by blast
qed

definition ex_strait :: "real \<Rightarrow> real \<Rightarrow> bool" where
  "ex_strait la lo \<longleftrightarrow> la = lat_of 250 \<and> (lo = lon_of 0 \<or> lo = lon_of 1999)"

lemma ex_strait_cells: "water_cells ex_strait = {(250, 0), (250, 1999)}"
  by (auto simp: water_cells_def ex_strait_def)

theorem dead_end_fails_witness:
  "\<exists>g' file. GridCreator_createGrid ex_strait concat ex_pathGrid = (g', Some file) \<and> Grid_importFmiFile rev file = None"
  by (rule dead_end_fails[where i = 250]) (simp_all add: ex_strait_cells)

end
