(* ===== verification/WaterIndex.thy ===== *)
theory WaterIndex
  imports Coastlines Sphere GridCreation
begin

text \<open>
  The index that decides whether a point is in water: \<open>coastlinegrid/GridCell.java\<close>, \<open>GridLeaf.java\<close>,
  \<open>GridParent.java\<close> and \<open>PointInWaterChecker.java\<close>. The earth is divided into 18 by 36 cells of ten
  degrees, a cell into three by three cells as long as it has a thousand edges of coast lines or more.
  Each leaf keeps its edges and a center point with its status; a point of the leaf has the other
  status for each edge between it and the center.

  A \<open>Set<Integer>\<close> is a set; the order in which its elements are visited is the parameter \<open>iter\<close>. The
  sets the methods are called with are changed by them, so they are results too. The array of the
  children has three rows of three, the type \<open>three\<close>. The recursion of the constructor need not end
  (\<open>partial_function\<close>). A \<open>float\<close> is a \<open>real\<close>.
\<close>

section \<open>Three children\<close>

datatype 'a three = Three (th0: 'a) (th1: 'a) (th2: 'a)

definition for3 :: "(nat \<Rightarrow> 'a option) \<Rightarrow> 'a three option" where
  "for3 f = do { a \<leftarrow> f 0; b \<leftarrow> f 1; c \<leftarrow> f 2; Some (Three a b c) }"

definition at3 :: "'a three \<Rightarrow> nat \<Rightarrow> 'a" where
  "at3 t i = (if i = 0 then th0 t else if i = 1 then th1 t else th2 t)"

lemma for3_mono [partial_function_mono]:
  "(\<And>i. mono_option (\<lambda>f. B f i)) \<Longrightarrow> mono_option (\<lambda>f. for3 (B f))"
  unfolding for3_def by (intro partial_function_mono)

section \<open>Cells\<close>

datatype ApproachDirection = FROM_HORIZONTAL | FROM_VERTICAL

definition EDGE_THRESHOLD :: nat where
  "EDGE_THRESHOLD = 1000"

record GridLeaf =
  gl_edgeIds :: "int list"
  gl_centerPointInWater :: bool
  gl_latCenterPoint :: real
  gl_lonCenterPoint :: real

record GridParent =
  gp_southernLatitude :: real
  gp_northernLatitude :: real
  gp_westernLongitude :: real
  gp_easternLongitude :: real
  gp_innerLatBorders :: "real \<times> real"
  gp_innerLonBorders :: "real \<times> real"
  gp_centerPointLat :: real
  gp_centerPointLon :: real

datatype GridCell = ALeaf GridLeaf | AParent GridParent "GridCell three three"

definition GridLeaf_new :: "int list \<Rightarrow> real \<Rightarrow> real \<Rightarrow> GridLeaf" where
  "GridLeaf_new edgeIds latCenterPoint lonCenterPoint =
     \<lparr>gl_edgeIds = edgeIds, gl_centerPointInWater = False, gl_latCenterPoint = latCenterPoint, gl_lonCenterPoint = lonCenterPoint\<rparr>"

text \<open>Whether an edge belongs to a cell; the constructors of \<open>GridParent\<close> and \<open>PointInWaterChecker\<close> have the same code.\<close>

definition GridParent_containsEdge :: "CoastlineWays \<Rightarrow> real \<Rightarrow> real \<Rightarrow> real \<Rightarrow> real \<Rightarrow> int \<Rightarrow> bool option" where
  "GridParent_containsEdge cs south north west east edgeId = do {
     startLat \<leftarrow> CoastlineWays_getStartLatByEdgeIdx cs edgeId;
     startLon \<leftarrow> CoastlineWays_getStartLonByEdgeIdx cs edgeId;
     let (s0, s1, s2, s3) = getPositionInfoOfPointRelativeToCell startLat startLon west east south north;
     if \<not> (s0 \<or> s1 \<or> s2 \<or> s3) then Some True
     else do {
       destLat \<leftarrow> CoastlineWays_getDestLatByEdgeIdx cs edgeId;
       destLon \<leftarrow> CoastlineWays_getDestLonByEdgeIdx cs edgeId;
       let (d0, d1, d2, d3) = getPositionInfoOfPointRelativeToCell destLat destLon west east south north;
       if \<not> (d0 \<or> d1 \<or> d2 \<or> d3) then Some True
       else if s0 \<and> d0 \<or> s1 \<and> d1 \<or> s2 \<and> d2 \<or> s3 \<and> d3 then Some False
       else Some (arcsIntersect startLat startLon destLat destLon south west north west \<or>
         arcsIntersect startLat startLon destLat destLon south east north east \<or>
         crossesLatitude startLat startLon destLat destLon south west east \<or>
         crossesLatitude startLat startLon destLat destLon north west east)
     }
   }"

definition GridParent_edgesInCell ::
    "(int set \<Rightarrow> int list) \<Rightarrow> CoastlineWays \<Rightarrow> int set \<Rightarrow> real \<Rightarrow> real \<Rightarrow> real \<Rightarrow> real \<Rightarrow> int set option" where
  "GridParent_edgesInCell iter cs edgeIDs south north west east =
     for_list (iter edgeIDs) (\<lambda>edgeId edgesInCell. do {
       c \<leftarrow> GridParent_containsEdge cs south north west east edgeId;
       Some (if c then insert edgeId edgesInCell else edgesInCell)
     }) {}"

definition lowerLevelBorders :: "real \<Rightarrow> real \<Rightarrow> nat \<Rightarrow> real" where
  "lowerLevelBorders low high i = (let separation = \<bar>high - low\<bar> / 3 in
     if i = 0 then low else if i = 1 then low + separation else if i = 2 then low + 2 * separation else high)"

partial_function (option) GridParent_new ::
    "(int set \<Rightarrow> int list) \<Rightarrow> CoastlineWays \<Rightarrow> int set \<Rightarrow> real \<Rightarrow> real \<Rightarrow> real \<Rightarrow> real \<Rightarrow> GridCell option" where
  "GridParent_new iter cs edgeIDs south north west east = do {
     let lowerLevelLat = lowerLevelBorders south north;
     let lowerLevelLon = lowerLevelBorders west east;
     lowerLevelCells \<leftarrow> for3 (\<lambda>latIdx. for3 (\<lambda>lonIdx. do {
         edgesInCell \<leftarrow> GridParent_edgesInCell iter cs edgeIDs (lowerLevelLat latIdx) (lowerLevelLat (latIdx + 1))
           (lowerLevelLon lonIdx) (lowerLevelLon (lonIdx + 1));
         if card edgesInCell \<ge> EDGE_THRESHOLD
         then GridParent_new iter cs edgesInCell (lowerLevelLat latIdx) (lowerLevelLat (latIdx + 1))
                (lowerLevelLon lonIdx) (lowerLevelLon (lonIdx + 1))
         else (let ctrLat = (lowerLevelLat latIdx + lowerLevelLat (latIdx + 1)) / 2;
                   ctrLon = (lowerLevelLon lonIdx + lowerLevelLon (lonIdx + 1)) / 2
               in Some (ALeaf (GridLeaf_new (iter edgesInCell) ctrLat ctrLon)))
       }));
     Some (AParent \<lparr>gp_southernLatitude = south, gp_northernLatitude = north, gp_westernLongitude = west, gp_easternLongitude = east,
       gp_innerLatBorders = (lowerLevelLat 1, lowerLevelLat 2), gp_innerLonBorders = (lowerLevelLon 1, lowerLevelLon 2),
       gp_centerPointLat = 0, gp_centerPointLon = 0\<rparr> lowerLevelCells)
   }"

fun GridCell_getAllContainedEdgeIDs :: "GridCell \<Rightarrow> int set" where
  "GridCell_getAllContainedEdgeIDs (ALeaf l) = set (gl_edgeIds l)"
| "GridCell_getAllContainedEdgeIDs (AParent p (Three (Three a b c) (Three d e f) (Three g h i))) =
     GridCell_getAllContainedEdgeIDs a \<union> GridCell_getAllContainedEdgeIDs b \<union> GridCell_getAllContainedEdgeIDs c \<union>
     GridCell_getAllContainedEdgeIDs d \<union> GridCell_getAllContainedEdgeIDs e \<union> GridCell_getAllContainedEdgeIDs f \<union>
     GridCell_getAllContainedEdgeIDs g \<union> GridCell_getAllContainedEdgeIDs h \<union> GridCell_getAllContainedEdgeIDs i"

fun GridCell_collectAllCenterpoints :: "GridCell \<Rightarrow> GridNode list \<Rightarrow> GridNode list" where
  "GridCell_collectAllCenterpoints (ALeaf l) pointList = pointList @ [GridNode_new (gl_latCenterPoint l) (gl_lonCenterPoint l)]"
| "GridCell_collectAllCenterpoints (AParent p (Three (Three a b c) (Three d e f) (Three g h i))) pointList =
     foldl (\<lambda>ps f. f ps) pointList (map GridCell_collectAllCenterpoints [a, b, c, d, e, f, g, h, i])"

fun GridCell_getCenterPoint :: "GridCell \<Rightarrow> GridNode" where
  "GridCell_getCenterPoint (ALeaf l) = GridNode_new (gl_latCenterPoint l) (gl_lonCenterPoint l)"
| "GridCell_getCenterPoint (AParent p _) = GridNode_new (gp_centerPointLat p) (gp_centerPointLon p)"

fun GridCell_getCtr :: "GridCell \<Rightarrow> real \<times> real" where
  "GridCell_getCtr (ALeaf l) = (gl_latCenterPoint l, gl_lonCenterPoint l)"
| "GridCell_getCtr (AParent p (Three _ (Three _ m _) _)) = GridCell_getCtr m"

section \<open>The status of the center points\<close>

text \<open>
  One pass over the edges. The test of an edge gives \<open>None\<close> for an exception that is caught, and then
  the pass is repeated with the coordinate shifted by a millionth of a degree.
\<close>

definition GridCell_pass :: "(real \<Rightarrow> int \<Rightarrow> bool option option) \<Rightarrow> int list \<Rightarrow> bool \<Rightarrow> real \<Rightarrow> bool option option" where
  "GridCell_pass crossed ids origin x = for_list ids (\<lambda>edgeId status. case status of
     None \<Rightarrow> Some None
   | Some inWater \<Rightarrow> do {
       r \<leftarrow> crossed x edgeId;
       Some (map_option (\<lambda>b. if b then \<not> inWater else inWater) r)
     }) (Some origin)"

partial_function (option) GridCell_shift ::
    "(real \<Rightarrow> int \<Rightarrow> bool option option) \<Rightarrow> int list \<Rightarrow> bool \<Rightarrow> real \<Rightarrow> (bool \<times> real) option" where
  "GridCell_shift crossed ids origin x = do {
     r \<leftarrow> GridCell_pass crossed ids origin x;
     (case r of None \<Rightarrow> GridCell_shift crossed ids origin (x + 0.000001)
      | Some inWater \<Rightarrow> Some (inWater, x))
   }"

definition crossedLatitude :: "CoastlineWays \<Rightarrow> real \<Rightarrow> real \<Rightarrow> real \<Rightarrow> int \<Rightarrow> bool option option" where
  "crossedLatitude cs lonA lonB lat edgeId = do {
     sLat \<leftarrow> CoastlineWays_getStartLatByEdgeIdx cs edgeId;
     sLon \<leftarrow> CoastlineWays_getStartLonByEdgeIdx cs edgeId;
     dLat \<leftarrow> CoastlineWays_getDestLatByEdgeIdx cs edgeId;
     dLon \<leftarrow> CoastlineWays_getDestLonByEdgeIdx cs edgeId;
     Some (crossesLatitudeWithException sLat sLon dLat dLon lat lonA lonB)
   }"

definition crossedArc :: "CoastlineWays \<Rightarrow> real \<Rightarrow> real \<Rightarrow> real \<Rightarrow> real \<Rightarrow> int \<Rightarrow> bool option option" where
  "crossedArc cs latA lonA latB lonB edgeId = do {
     sLat \<leftarrow> CoastlineWays_getStartLatByEdgeIdx cs edgeId;
     sLon \<leftarrow> CoastlineWays_getStartLonByEdgeIdx cs edgeId;
     dLat \<leftarrow> CoastlineWays_getDestLatByEdgeIdx cs edgeId;
     dLon \<leftarrow> CoastlineWays_getDestLonByEdgeIdx cs edgeId;
     Some (arcsIntersectWithException sLat sLon dLat dLon latA lonA latB lonB)
   }"

definition GridLeaf_initCenterPoint ::
    "(int set \<Rightarrow> int list) \<Rightarrow> CoastlineWays \<Rightarrow> real \<Rightarrow> real \<Rightarrow> bool \<Rightarrow> int set \<Rightarrow> ApproachDirection \<Rightarrow> GridLeaf \<Rightarrow>
     (bool \<times> int set \<times> GridLeaf) option" where
  "GridLeaf_initCenterPoint iter cs originLat originLon originInWater allEdgeIds dir l = do {
     let allEdgeIds = allEdgeIds \<union> set (gl_edgeIds l);
     (case dir of
        FROM_HORIZONTAL \<Rightarrow> do {
          (inWater, lat) \<leftarrow> GridCell_shift (crossedLatitude cs originLon (gl_lonCenterPoint l)) (iter allEdgeIds) originInWater (gl_latCenterPoint l);
          Some (inWater, allEdgeIds, l\<lparr>gl_centerPointInWater := inWater, gl_latCenterPoint := lat\<rparr>)
        }
      | FROM_VERTICAL \<Rightarrow> do {
          (inWater, lon) \<leftarrow> GridCell_shift (crossedArc cs originLat originLon (gl_latCenterPoint l)) (iter allEdgeIds) originInWater (gl_lonCenterPoint l);
          Some (inWater, allEdgeIds, l\<lparr>gl_centerPointInWater := inWater, gl_lonCenterPoint := lon\<rparr>)
        })
   }"

text \<open>The status of the center of a parent, before the centers of its children are set.\<close>

definition GridParent_center ::
    "(int set \<Rightarrow> int list) \<Rightarrow> CoastlineWays \<Rightarrow> real \<Rightarrow> real \<Rightarrow> bool \<Rightarrow> int set \<Rightarrow> ApproachDirection \<Rightarrow> GridParent \<Rightarrow>
     (bool \<times> real \<times> real) option" where
  "GridParent_center iter cs originLat originLon originInWater edgeIds dir p = do {
     let centerLat = (gp_southernLatitude p + gp_northernLatitude p) / 2;
     let centerLon = (gp_westernLongitude p + gp_easternLongitude p) / 2;
     (case dir of
        FROM_HORIZONTAL \<Rightarrow> do {
          (inWater, centerLat) \<leftarrow> GridCell_shift (crossedLatitude cs originLon centerLon) (iter edgeIds) originInWater centerLat;
          Some (inWater, centerLat, centerLon)
        }
      | FROM_VERTICAL \<Rightarrow> do {
          (inWater, originLon) \<leftarrow> GridCell_shift (crossedArc cs centerLat centerLon originLat) (iter edgeIds) originInWater originLon;
          Some (inWater, centerLat, centerLon)
        })
   }"

function (sequential) GridCell_setCenterPoint ::
    "(int set \<Rightarrow> int list) \<Rightarrow> CoastlineWays \<Rightarrow> real \<Rightarrow> real \<Rightarrow> bool \<Rightarrow> GridCell \<Rightarrow> GridCell option"
  and GridCell_initCenterPoint ::
    "(int set \<Rightarrow> int list) \<Rightarrow> CoastlineWays \<Rightarrow> real \<Rightarrow> real \<Rightarrow> bool \<Rightarrow> int set \<Rightarrow> ApproachDirection \<Rightarrow> GridCell \<Rightarrow>
     (bool \<times> int set \<times> GridCell) option" where
  "GridCell_setCenterPoint iter cs lat lon isInWater (ALeaf l) =
     Some (ALeaf (l\<lparr>gl_latCenterPoint := lat, gl_lonCenterPoint := lon, gl_centerPointInWater := isInWater\<rparr>))"
| "GridCell_setCenterPoint iter cs lat lon isInWater (AParent p (Three (Three c00 c01 c02) (Three c10 c11 c12) (Three c20 c21 c22))) = do {
     let p = p\<lparr>gp_centerPointLat := lat, gp_centerPointLon := lon\<rparr>;
     c11 \<leftarrow> GridCell_setCenterPoint iter cs lat lon isInWater c11;
     let middle0 = GridCell_getAllContainedEdgeIDs c10;
     let middle1 = GridCell_getAllContainedEdgeIDs c11;
     let middle2 = GridCell_getAllContainedEdgeIDs c12;
     (inWater0, middle1, c10) \<leftarrow> GridCell_initCenterPoint iter cs lat lon isInWater middle1 FROM_HORIZONTAL c10;
     (inWater2, middle1, c12) \<leftarrow> GridCell_initCenterPoint iter cs lat lon isInWater middle1 FROM_HORIZONTAL c12;
     let (lat, lon) = GridCell_getCtr c10;
     (_, middle0, c00) \<leftarrow> GridCell_initCenterPoint iter cs lat lon inWater0 middle0 FROM_VERTICAL c00;
     (_, middle0, c20) \<leftarrow> GridCell_initCenterPoint iter cs lat lon inWater0 middle0 FROM_VERTICAL c20;
     let (lat, lon) = GridCell_getCtr c11;
     (_, middle1, c01) \<leftarrow> GridCell_initCenterPoint iter cs lat lon isInWater middle1 FROM_VERTICAL c01;
     (_, middle1, c21) \<leftarrow> GridCell_initCenterPoint iter cs lat lon isInWater middle1 FROM_VERTICAL c21;
     let (lat, lon) = GridCell_getCtr c12;
     (_, middle2, c02) \<leftarrow> GridCell_initCenterPoint iter cs lat lon inWater2 middle2 FROM_VERTICAL c02;
     (_, middle2, c22) \<leftarrow> GridCell_initCenterPoint iter cs lat lon inWater2 middle2 FROM_VERTICAL c22;
     Some (AParent p (Three (Three c00 c01 c02) (Three c10 c11 c12) (Three c20 c21 c22)))
   }"
| "GridCell_initCenterPoint iter cs originLat originLon originInWater edgeIds dir (ALeaf l) = do {
     (inWater, edgeIds, l) \<leftarrow> GridLeaf_initCenterPoint iter cs originLat originLon originInWater edgeIds dir l;
     Some (inWater, edgeIds, ALeaf l)
   }"
| "GridCell_initCenterPoint iter cs originLat originLon originInWater edgeIds dir (AParent p cells) = do {
     let edgeIds = edgeIds \<union> (case dir of
         FROM_HORIZONTAL \<Rightarrow> GridCell_getAllContainedEdgeIDs (th0 (th1 cells)) \<union> GridCell_getAllContainedEdgeIDs (th1 (th1 cells)) \<union>
           GridCell_getAllContainedEdgeIDs (th2 (th1 cells))
       | FROM_VERTICAL \<Rightarrow> GridCell_getAllContainedEdgeIDs (th1 (th0 cells)) \<union> GridCell_getAllContainedEdgeIDs (th1 (th1 cells)) \<union>
           GridCell_getAllContainedEdgeIDs (th1 (th2 cells)));
     (centerInWater, centerLat, centerLon) \<leftarrow> GridParent_center iter cs originLat originLon originInWater edgeIds dir p;
     c \<leftarrow> GridCell_setCenterPoint iter cs centerLat centerLon centerInWater (AParent p cells);
     Some (centerInWater, edgeIds, c)
   }"
  by pat_completeness auto
termination
  by (relation "measure (\<lambda>x. case x of Inl (_, _, _, _, _, c) \<Rightarrow> 2 * size c | Inr (_, _, _, _, _, _, _, c) \<Rightarrow> 2 * size c + 1)") auto

section \<open>Queries\<close>

definition GridLeaf_isPointInWater :: "CoastlineWays \<Rightarrow> real \<Rightarrow> real \<Rightarrow> GridLeaf \<Rightarrow> bool option" where
  "GridLeaf_isPointInWater cs lat lon l = for_list (gl_edgeIds l) (\<lambda>idx pointInWater. do {
     sLat \<leftarrow> CoastlineWays_getStartLatByEdgeIdx cs idx;
     sLon \<leftarrow> CoastlineWays_getStartLonByEdgeIdx cs idx;
     dLat \<leftarrow> CoastlineWays_getDestLatByEdgeIdx cs idx;
     dLon \<leftarrow> CoastlineWays_getDestLonByEdgeIdx cs idx;
     Some (if arcsIntersect lat lon (gl_latCenterPoint l) (gl_lonCenterPoint l) sLat sLon dLat dLon then \<not> pointInWater else pointInWater)
   }) (gl_centerPointInWater l)"

definition GridParent_cellIdx :: "real \<times> real \<Rightarrow> real \<Rightarrow> nat" where
  "GridParent_cellIdx borders x = (if x < fst borders then 0 else if x < snd borders then 1 else 2)"

lemma child_size [termination_simp]:
  "row \<in> set_three cells \<Longrightarrow> c \<in> set_three row \<Longrightarrow> size c < Suc (size_three (size_three size) cells)"
  by (cases cells; cases row) auto

fun GridCell_isPointInWater :: "CoastlineWays \<Rightarrow> real \<Rightarrow> real \<Rightarrow> GridCell \<Rightarrow> bool option" where
  "GridCell_isPointInWater cs lat lon (ALeaf l) = GridLeaf_isPointInWater cs lat lon l"
| "GridCell_isPointInWater cs lat lon (AParent p cells) =
     at3 (at3 (map_three (map_three (GridCell_isPointInWater cs lat lon)) cells) (GridParent_cellIdx (gp_innerLatBorders p) lat))
       (GridParent_cellIdx (gp_innerLonBorders p) lon)"

section \<open>PointInWaterChecker\<close>

definition INITIAL_POINT_LAT :: real where "INITIAL_POINT_LAT = -83"
definition INITIAL_POINT_LON :: real where "INITIAL_POINT_LON = -170"
definition INITIAL_POINT_IN_WATER :: bool where "INITIAL_POINT_IN_WATER = False"

record PointInWaterChecker =
  pw_topLevelGrid :: "GridCell list list"

definition PointInWaterChecker_cells :: "(int set \<Rightarrow> int list) \<Rightarrow> CoastlineWays \<Rightarrow> GridCell list list option" where
  "PointInWaterChecker_cells iter cs = for_range 0 18 (\<lambda>latIdx topLevelGrid. do {
     let lowerLatBound = 10 * (real_of_int latIdx - 9);
     let upperLatBound = lowerLatBound + 10;
     row \<leftarrow> for_range 0 36 (\<lambda>lonIdx row. do {
         let leftLonBound = 10 * (real_of_int lonIdx - 18);
         let rightLonBound = leftLonBound + 10;
         edgesInCell \<leftarrow> for_range 0 (CoastlineWays_getNumberOfEdges cs) (\<lambda>edgeId edgesInCell. do {
             c \<leftarrow> GridParent_containsEdge cs lowerLatBound upperLatBound leftLonBound rightLonBound edgeId;
             Some (if c then insert edgeId edgesInCell else edgesInCell)
           }) {};
         cell \<leftarrow> GridParent_new iter cs edgesInCell lowerLatBound upperLatBound leftLonBound rightLonBound;
         Some (row @ [cell])
       }) [];
     Some (topLevelGrid @ [row])
   }) []"

definition centerLat :: "int \<Rightarrow> real" where
  "centerLat i = -85 + 10 * real_of_int i"

definition centerLon :: "int \<Rightarrow> real" where
  "centerLon i = -175 + 10 * real_of_int i"

definition getCell :: "GridCell list list \<Rightarrow> int \<Rightarrow> int \<Rightarrow> GridCell option" where
  "getCell grid latIdx lonIdx = do { row \<leftarrow> aget grid latIdx; aget row lonIdx }"

definition setCell :: "GridCell list list \<Rightarrow> int \<Rightarrow> int \<Rightarrow> GridCell \<Rightarrow> GridCell list list option" where
  "setCell grid latIdx lonIdx c = do { row \<leftarrow> aget grid latIdx; row \<leftarrow> aset row lonIdx c; aset grid latIdx row }"

definition PointInWaterChecker_firstPoint :: "CoastlineWays \<Rightarrow> bool option" where
  "PointInWaterChecker_firstPoint cs = for_range 0 (CoastlineWays_getNumberOfEdges cs) (\<lambda>edgeId firstPointInWater. do {
     sLat \<leftarrow> CoastlineWays_getStartLatByEdgeIdx cs edgeId;
     sLon \<leftarrow> CoastlineWays_getStartLonByEdgeIdx cs edgeId;
     dLat \<leftarrow> CoastlineWays_getDestLatByEdgeIdx cs edgeId;
     dLon \<leftarrow> CoastlineWays_getDestLonByEdgeIdx cs edgeId;
     Some (if arcsIntersect sLat sLon dLat dLon INITIAL_POINT_LAT INITIAL_POINT_LON (centerLat 0) (centerLon 0)
       then \<not> firstPointInWater else firstPointInWater)
   }) INITIAL_POINT_IN_WATER"

text \<open>
  The loops over the bottom row and over the columns. The arrays \<open>firstCenterPointInWater\<close> and
  \<open>firstAdditionalEdges\<close> are read at the index before the one that is written: they are the lists of
  what is written so far.
\<close>

definition PointInWaterChecker_bottomRow ::
    "(int set \<Rightarrow> int list) \<Rightarrow> CoastlineWays \<Rightarrow> int \<Rightarrow> GridCell list list \<times> bool list \<times> int set list \<Rightarrow>
     (GridCell list list \<times> bool list \<times> int set list) option" where
  "PointInWaterChecker_bottomRow iter cs lonIdx = (\<lambda>(grid, inWater, edges). do {
     c \<leftarrow> getCell grid 0 lonIdx;
     w \<leftarrow> aget inWater (lonIdx - 1);
     es \<leftarrow> aget edges (lonIdx - 1);
     (w, es, c) \<leftarrow> GridCell_initCenterPoint iter cs (centerLat 0) (centerLon (lonIdx - 1)) w es FROM_HORIZONTAL c;
     edges \<leftarrow> aset edges (lonIdx - 1) es;
     grid \<leftarrow> setCell grid 0 lonIdx c;
     Some (grid, inWater @ [w], edges @ [GridCell_getAllContainedEdgeIDs c])
   })"

definition PointInWaterChecker_column ::
    "(int set \<Rightarrow> int list) \<Rightarrow> CoastlineWays \<Rightarrow> int \<Rightarrow> int \<Rightarrow> GridCell list list \<times> bool \<times> int set \<Rightarrow>
     (GridCell list list \<times> bool \<times> int set) option" where
  "PointInWaterChecker_column iter cs lonIdx latIdx = (\<lambda>(grid, previousPointInWater, previousEdges). do {
     c \<leftarrow> getCell grid latIdx lonIdx;
     (w, es, c) \<leftarrow> GridCell_initCenterPoint iter cs (centerLat (latIdx - 1)) (centerLon lonIdx) previousPointInWater previousEdges FROM_VERTICAL c;
     grid \<leftarrow> setCell grid latIdx lonIdx c;
     Some (grid, w, GridCell_getAllContainedEdgeIDs c)
   })"

definition PointInWaterChecker_new :: "(int set \<Rightarrow> int list) \<Rightarrow> CoastlineWays \<Rightarrow> PointInWaterChecker option" where
  "PointInWaterChecker_new iter cs = do {
     grid \<leftarrow> PointInWaterChecker_cells iter cs;
     firstPointInWater \<leftarrow> PointInWaterChecker_firstPoint cs;
     c \<leftarrow> getCell grid 0 0;
     c \<leftarrow> GridCell_setCenterPoint iter cs (centerLat 0) (centerLon 0) firstPointInWater c;
     grid \<leftarrow> setCell grid 0 0 c;
     (grid, inWater, edges) \<leftarrow> for_range 1 36 (PointInWaterChecker_bottomRow iter cs)
       (grid, [firstPointInWater], [GridCell_getAllContainedEdgeIDs c]);
     grid \<leftarrow> for_range 0 36 (\<lambda>lonIdx grid. do {
         w \<leftarrow> aget inWater lonIdx;
         es \<leftarrow> aget edges lonIdx;
         (grid, _) \<leftarrow> for_range 1 18 (PointInWaterChecker_column iter cs lonIdx) (grid, w, es);
         Some grid
       }) grid;
     Some \<lparr>pw_topLevelGrid = grid\<rparr>
   }"

text \<open>The file of an earlier run or a new object; the file after the call is a result too.\<close>

definition PointInWaterChecker_initPointInWaterChecker ::
    "(int set \<Rightarrow> int list) \<Rightarrow> CoastlineWays \<Rightarrow> PointInWaterChecker option \<Rightarrow> (PointInWaterChecker \<times> PointInWaterChecker option) option" where
  "PointInWaterChecker_initPointInWaterChecker iter cs serializationFile = (case serializationFile of
     None \<Rightarrow> do { pointInWaterChecker \<leftarrow> PointInWaterChecker_new iter cs; Some (pointInWaterChecker, Some pointInWaterChecker) }
   | Some pointInWaterChecker \<Rightarrow> Some (pointInWaterChecker, serializationFile))"

text \<open>\<open>x % 10\<close> of Java has the sign of \<open>x\<close>; the cast to \<open>int\<close> cuts off the fraction.\<close>

definition PointInWaterChecker_latIdx :: "real \<Rightarrow> int" where
  "PointInWaterChecker_latIdx lat =
     (if lat = 90 then 17 else if lat = -90 then 0
      else if lat > 0 then \<lfloor>(lat - remainder lat 10) / 10\<rfloor> + 9
      else let tmpLat = lat * (-1) in \<lfloor>8 - (tmpLat - remainder tmpLat 10) / 10\<rfloor>)"

definition PointInWaterChecker_lonIdx :: "real \<Rightarrow> int" where
  "PointInWaterChecker_lonIdx lon =
     (if lon = 180 then 35 else if lon = -180 then 0
      else if lon > 0 then \<lfloor>(lon - remainder lon 10) / 10\<rfloor> + 18
      else let tmpLon = lon * (-1) in \<lfloor>17 - (tmpLon - remainder tmpLon 10) / 10\<rfloor>)"

definition PointInWaterChecker_pointInWater :: "CoastlineWays \<Rightarrow> PointInWaterChecker \<Rightarrow> real \<Rightarrow> real \<Rightarrow> bool option" where
  "PointInWaterChecker_pointInWater cs pw lat lon = do {
     c \<leftarrow> getCell (pw_topLevelGrid pw) (PointInWaterChecker_latIdx lat) (PointInWaterChecker_lonIdx lon);
     GridCell_isPointInWater cs lat lon c
   }"

section \<open>The preprocessing\<close>

text \<open>
  \<open>GridCreator.main\<close>, without the printed times. Its arguments are the files of earlier runs and the PBF
  file; its results the grid, its file and the files of the coast lines and of the index. The worker
  threads pass the coordinates as \<open>float\<close>. A test that throws would end its thread; every test of a
  point of the earth returns.
\<close>

definition GridCreator_main ::
    "(real \<Rightarrow> real) \<Rightarrow> (int set \<Rightarrow> int list) \<Rightarrow> ((real \<times> real) list list \<Rightarrow> (real \<times> real) list) \<Rightarrow> Grid \<Rightarrow>
     CoastlineWriter option \<Rightarrow> pbf_event list option \<Rightarrow> PointInWaterChecker option \<Rightarrow>
     (Grid \<times> fmi_line list option \<times> CoastlineWriter option \<times> PointInWaterChecker option) option" where
  "GridCreator_main fl iter arrival g coastFile pbf checkerFile = do {
     (cs, coastFile) \<leftarrow> CoastlineWays_initCoastlineWays fl coastFile pbf;
     (pw, checkerFile) \<leftarrow> PointInWaterChecker_initPointInWaterChecker iter cs checkerFile;
     let (g, gridFile) = GridCreator_createGrid
           (\<lambda>lat lon. PointInWaterChecker_pointInWater cs pw (fl lat) (fl lon) = Some True) arrival g;
     Some (g, gridFile, coastFile, checkerFile)
   }"


end
