(* ===== verification/WaterProperties.thy ===== *)
theory WaterProperties
  imports WaterIndex
begin

text \<open>
  What the index of the coast lines promises. The test of an edge against a line through a center
  point fails when an endpoint of the edge is closer to the line than a ten-millionth of a degree; the
  locale \<open>shifted_test\<close> states this of a test and shows that the repetition with the line shifted by a
  millionth of a degree ends, and with which status. It is interpreted for the tests in both
  directions. Then the construction of the index and the queries.
\<close>

section \<open>Shifting until no exception\<close>

text \<open>The status after crossing the given edges.\<close>

definition flips :: "(int \<Rightarrow> bool) \<Rightarrow> int list \<Rightarrow> bool \<Rightarrow> bool" where
  "flips crossing ids w \<longleftrightarrow> (w \<noteq> odd (length (filter crossing ids)))"

locale shifted_test =
  fixes crossed :: "real \<Rightarrow> int \<Rightarrow> bool option option"
    and ids :: "int list"
    and ends :: "int \<Rightarrow> real set"
  assumes runs: "e \<in> set ids \<Longrightarrow> \<exists>r. crossed x e = Some r"
    and near: "e \<in> set ids \<Longrightarrow> crossed x e = Some None \<Longrightarrow> \<exists>b \<in> ends e. \<bar>b - x\<bar> \<le> 0.0000001"
    and few: "e \<in> set ids \<Longrightarrow> finite (ends e) \<and> card (ends e) \<le> 2"
begin

lemma pass_caught: "for_list es (\<lambda>edgeId status. case status of None \<Rightarrow> Some None
    | Some inWater \<Rightarrow> do { r \<leftarrow> crossed x edgeId; Some (map_option (\<lambda>b. if b then \<not> inWater else inWater) r) }) None = Some None"
  by (induction es) simp_all

lemma pass_result:
  assumes "set es \<subseteq> set ids"
  shows "GridCell_pass crossed es w x =
    Some (if \<exists>e \<in> set es. crossed x e = Some None then None else Some (flips (\<lambda>e. crossed x e = Some (Some True)) es w))"
  using assms
proof (induction es arbitrary: w)
  case (Cons e es)
  then obtain r where r: "crossed x e = Some r" using runs[of e x] by auto
  then show ?case using Cons.IH[of "if r = Some True then \<not> w else w"] Cons.prems
    by (cases r) (auto simp: GridCell_pass_def flips_def pass_caught)
qed (simp add: GridCell_pass_def flips_def)

definition all_ends :: "real set" where
  "all_ends = (\<Union>e \<in> set ids. ends e)"

lemma all_ends: "finite all_ends" "card all_ends \<le> 2 * length ids"
proof -
  show "finite all_ends" using few by (auto simp: all_ends_def)
  have "card all_ends \<le> (\<Sum>e \<in> set ids. card (ends e))" unfolding all_ends_def by (rule card_UN_le) simp
  also have "\<dots> \<le> (\<Sum>e \<in> set ids. 2)" using few by (intro sum_mono) auto
  also have "\<dots> \<le> 2 * length ids" by (simp add: card_length)
  finally show "card all_ends \<le> 2 * length ids" .
qed

text \<open>Each failed pass leaves an endpoint behind.\<close>

lemma shift_ahead:
  "\<exists>k \<le> card {b \<in> all_ends. x \<le> b + 0.0000001}. \<exists>y. y = x + real k * 0.000001 \<and>
     GridCell_shift crossed ids w x = Some (flips (\<lambda>e. crossed y e = Some (Some True)) ids w, y) \<and>
     (\<forall>e \<in> set ids. crossed y e \<noteq> Some None)"
proof (induction "card {b \<in> all_ends. x \<le> b + 0.0000001}" arbitrary: x rule: less_induct)
  case less
  show ?case
  proof (cases "\<exists>e \<in> set ids. crossed x e = Some None")
    case False
    then show ?thesis using pass_result[of ids w x]
      by (intro exI[of _ 0]) (auto simp: GridCell_shift.simps[of crossed ids w x])
  next
    case True
    let ?A = "\<lambda>x. {b \<in> all_ends. x \<le> b + 0.0000001}"
    have s: "GridCell_shift crossed ids w x = GridCell_shift crossed ids w (x + 0.000001)"
      using True pass_result[of ids w x] by (subst GridCell_shift.simps) simp
    obtain b where b: "b \<in> all_ends" "\<bar>b - x\<bar> \<le> 0.0000001" using True near unfolding all_ends_def by blast
    then have "x \<le> b + 0.0000001" "\<not> x + 0.000001 \<le> b + 0.0000001" unfolding abs_le_iff by simp_all
    then have "b \<in> ?A x - ?A (x + 0.000001)" using b(1) by blast
    moreover have "?A (x + 0.000001) \<subseteq> ?A x" by auto
    ultimately have "?A (x + 0.000001) \<subset> ?A x" by blast
    then have c: "card (?A (x + 0.000001)) < card (?A x)" using all_ends(1) by (intro psubset_card_mono) auto
    from less.hyps[OF c] obtain k y where k: "k \<le> card (?A (x + 0.000001))" "y = x + 0.000001 + real k * 0.000001"
      "GridCell_shift crossed ids w (x + 0.000001) = Some (flips (\<lambda>e. crossed y e = Some (Some True)) ids w, y)"
      "\<forall>e \<in> set ids. crossed y e \<noteq> Some None" by blast
    have "y = x + real (Suc k) * 0.000001" using k(2) by (simp add: algebra_simps)
    moreover have "Suc k \<le> card (?A x)" using k(1) c by simp
    ultimately show ?thesis using k(3,4) unfolding s by blast
  qed
qed

lemma shift_returns:
  obtains k where "k \<le> 2 * length ids"
    "GridCell_shift crossed ids w x = Some (flips (\<lambda>e. crossed (x + real k * 0.000001) e = Some (Some True)) ids w, x + real k * 0.000001)"
    "\<forall>e \<in> set ids. crossed (x + real k * 0.000001) e \<noteq> Some None"
proof -
  obtain k where k: "k \<le> card {b \<in> all_ends. x \<le> b + 0.0000001}"
    "GridCell_shift crossed ids w x = Some (flips (\<lambda>e. crossed (x + real k * 0.000001) e = Some (Some True)) ids w, x + real k * 0.000001)"
    "\<forall>e \<in> set ids. crossed (x + real k * 0.000001) e \<noteq> Some None"
    using shift_ahead[of x w] by blast
  have "card {b \<in> all_ends. x \<le> b + 0.0000001} \<le> card all_ends" using all_ends(1) by (intro card_mono) auto
  then show thesis using k all_ends(2) by (intro that[of k]) simp_all
qed

end

section \<open>The tests of both directions\<close>

definition edge_valid :: "CoastlineWays \<Rightarrow> int \<Rightarrow> bool" where
  "edge_valid cs e \<longleftrightarrow> coast_edge cs e \<noteq> None"

lemma edge_validE:
  assumes "edge_valid cs e"
  obtains a b c d where "coast_edge cs e = Some (a, b, c, d)" "CoastlineWays_getStartLatByEdgeIdx cs e = Some a"
    "CoastlineWays_getStartLonByEdgeIdx cs e = Some b" "CoastlineWays_getDestLatByEdgeIdx cs e = Some c"
    "CoastlineWays_getDestLonByEdgeIdx cs e = Some d"
  using assms unfolding edge_valid_def coast_edge_def by (auto simp: bind_eq_Some_conv)

definition lat_ends :: "CoastlineWays \<Rightarrow> int \<Rightarrow> real set" where
  "lat_ends cs e = (case coast_edge cs e of None \<Rightarrow> {} | Some (a, b, c, d) \<Rightarrow> {a, c})"

definition lon_ends :: "CoastlineWays \<Rightarrow> int \<Rightarrow> real set" where
  "lon_ends cs e = (case coast_edge cs e of None \<Rightarrow> {} | Some (a, b, c, d) \<Rightarrow> {b, d})"

interpretation horizontal: shifted_test "crossedLatitude cs lonA lonB" "filter (edge_valid cs) ids" "lat_ends cs"
  for cs lonA lonB ids
proof unfold_locales
  fix e x assume "e \<in> set (filter (edge_valid cs) ids)"
  then have v: "edge_valid cs e" by simp
  show "\<exists>r. crossedLatitude cs lonA lonB x e = Some r" by (rule edge_validE[OF v]) (simp add: crossedLatitude_def)
  show "\<exists>b \<in> lat_ends cs e. \<bar>b - x\<bar> \<le> 0.0000001" if "crossedLatitude cs lonA lonB x e = Some None"
    by (rule edge_validE[OF v])
      (use that in \<open>auto simp: crossedLatitude_def lat_ends_def crossesLatitudeWithException_def fuzzyEquals_def split: if_splits\<close>)
  show "finite (lat_ends cs e) \<and> card (lat_ends cs e) \<le> 2"
    by (rule edge_validE[OF v]) (simp add: lat_ends_def card_insert_if)
qed

interpretation vertical: shifted_test "crossedArc cs latA lonA latB" "filter (edge_valid cs) ids" "lon_ends cs"
  for cs latA lonA latB ids
proof unfold_locales
  fix e x assume "e \<in> set (filter (edge_valid cs) ids)"
  then have v: "edge_valid cs e" by simp
  show "\<exists>r. crossedArc cs latA lonA latB x e = Some r" by (rule edge_validE[OF v]) (simp add: crossedArc_def)
  show "\<exists>b \<in> lon_ends cs e. \<bar>b - x\<bar> \<le> 0.0000001" if "crossedArc cs latA lonA latB x e = Some None"
    by (rule edge_validE[OF v])
      (use that in \<open>auto simp: crossedArc_def lon_ends_def arcsIntersectWithException_def fuzzyEquals_def split: if_splits\<close>)
  show "finite (lon_ends cs e) \<and> card (lon_ends cs e) \<le> 2"
    by (rule edge_validE[OF v]) (simp add: lon_ends_def card_insert_if)
qed

section \<open>Center points\<close>

abbreviation child :: "GridCell three three \<Rightarrow> nat \<Rightarrow> nat \<Rightarrow> GridCell" where
  "child cells i j \<equiv> at3 (at3 cells i) j"

lemma child_smaller [termination_simp]: "size (child cells i j) < Suc (size_three (size_three size) cells)"
  by (cases cells; cases "at3 cells i") (auto simp: at3_def split: if_splits)

fun cell_leaves :: "GridCell \<Rightarrow> GridLeaf set" where
  "cell_leaves (ALeaf l) = {l}"
| "cell_leaves (AParent p cells) = (\<Union>i \<in> {..<3}. \<Union>j \<in> {..<3}. cell_leaves (child cells i j))"

lemma leaves_nine: "cell_leaves (AParent p (Three (Three a b c) (Three d e f) (Three g h i))) =
    cell_leaves a \<union> cell_leaves b \<union> cell_leaves c \<union> cell_leaves d \<union> cell_leaves e \<union> cell_leaves f \<union> cell_leaves g \<union> cell_leaves h \<union> cell_leaves i"
proof -
  have "{..<3} = {0, 1, 2 :: nat}" by auto
  then show ?thesis by (simp add: at3_def Un_ac del: One_nat_def)
qed

text \<open>All centers have the same status.\<close>

definition uniform :: "bool \<Rightarrow> GridCell \<Rightarrow> bool" where
  "uniform w c \<longleftrightarrow> (\<forall>l \<in> cell_leaves c. gl_centerPointInWater l = w)"

definition iterates :: "(int set \<Rightarrow> int list) \<Rightarrow> bool" where
  "iterates iter \<longleftrightarrow> (\<forall>S. finite S \<longrightarrow> distinct (iter S) \<and> set (iter S) = S)"

lemma sorted_iterates: "iterates sorted_list_of_set"
  by (simp add: iterates_def)

text \<open>The cell without what the initialization of the center points changes.\<close>

fun shape :: "GridCell \<Rightarrow> GridCell" where
  "shape (ALeaf l) = ALeaf (l\<lparr>gl_centerPointInWater := False, gl_latCenterPoint := 0, gl_lonCenterPoint := 0\<rparr>)"
| "shape (AParent p cells) = AParent (p\<lparr>gp_centerPointLat := 0, gp_centerPointLon := 0\<rparr>) (map_three (map_three shape) cells)"

lemma shape_edges: "GridCell_getAllContainedEdgeIDs (shape c) = GridCell_getAllContainedEdgeIDs c"
  by (induction c rule: GridCell_getAllContainedEdgeIDs.induct) simp_all

lemma same_shape_edges: "shape c = shape d \<Longrightarrow> GridCell_getAllContainedEdgeIDs c = GridCell_getAllContainedEdgeIDs d"
  by (metis shape_edges)

lemma contained_finite: "finite (GridCell_getAllContainedEdgeIDs c)"
  by (induction c rule: GridCell_getAllContainedEdgeIDs.induct) simp_all

lemma iter_valid: "iterates iter \<Longrightarrow> finite S \<Longrightarrow> \<forall>e \<in> S. edge_valid cs e \<Longrightarrow> filter (edge_valid cs) (iter S) = iter S"
  unfolding iterates_def by (intro filter_True) blast

lemma horizontal_shift:
  assumes "iterates iter" "finite S" "\<forall>e \<in> S. edge_valid cs e"
  shows "\<exists>w' y. GridCell_shift (crossedLatitude cs lonA lonB) (iter S) w x = Some (w', y)"
  using horizontal.shift_returns[of cs "iter S" lonA lonB w x] unfolding iter_valid[OF assms] by blast

lemma vertical_shift:
  assumes "iterates iter" "finite S" "\<forall>e \<in> S. edge_valid cs e"
  shows "\<exists>w' y. GridCell_shift (crossedArc cs latA lonA latB) (iter S) w x = Some (w', y)"
  using vertical.shift_returns[of cs "iter S" latA lonA latB w x] unfolding iter_valid[OF assms] by blast

lemma shift_nothing: "GridCell_shift crossed [] w x = Some (w, x)"
  by (simp add: GridCell_shift.simps GridCell_pass_def)

lemma iter_nothing: "iterates iter \<Longrightarrow> iter {} = []"
  unfolding iterates_def by (metis finite.emptyI set_empty)

lemma leaf_init_nothing:
  assumes "iterates iter" "gl_edgeIds l = []" "GridLeaf_initCenterPoint iter cs lat lon b {} dir l = Some (w, E, l')"
  shows "w = b \<and> E = {} \<and> gl_centerPointInWater l' = b"
  using assms by (cases dir) (auto simp: GridLeaf_initCenterPoint_def iter_nothing shift_nothing)

lemma leaf_init:
  assumes "iterates iter" "finite E" "\<forall>e \<in> E \<union> set (gl_edgeIds l). edge_valid cs e"
  shows "\<exists>w l'. GridLeaf_initCenterPoint iter cs lat lon b E dir l = Some (w, E \<union> set (gl_edgeIds l), l') \<and> shape (ALeaf l') = shape (ALeaf l)"
proof -
  let ?E = "E \<union> set (gl_edgeIds l)"
  have E: "finite ?E" using assms(2) by simp
  show ?thesis
  proof (cases dir)
    case FROM_HORIZONTAL
    then show ?thesis using horizontal_shift[OF assms(1) E assms(3), of lon "gl_lonCenterPoint l" b "gl_latCenterPoint l"]
      by (auto simp: GridLeaf_initCenterPoint_def)
  next
    case FROM_VERTICAL
    then show ?thesis using vertical_shift[OF assms(1) E assms(3), of lat lon "gl_latCenterPoint l" b "gl_lonCenterPoint l"]
      by (auto simp: GridLeaf_initCenterPoint_def)
  qed
qed

lemma parent_center_nothing:
  assumes "iterates iter" "GridParent_center iter cs lat lon w0 {} dir p = Some (w, a, b)"
  shows "w = w0"
  using assms by (cases dir) (auto simp: GridParent_center_def iter_nothing shift_nothing)

lemma parent_center:
  assumes "iterates iter" "finite E" "\<forall>e \<in> E. edge_valid cs e"
  shows "GridParent_center iter cs lat lon w0 E dir p \<noteq> None"
proof (cases dir)
  case FROM_HORIZONTAL
  then show ?thesis using horizontal_shift[OF assms, of lon "(gp_westernLongitude p + gp_easternLongitude p) / 2" w0
      "(gp_southernLatitude p + gp_northernLatitude p) / 2"] by (auto simp: GridParent_center_def simp del: not_None_eq)
next
  case FROM_VERTICAL
  then show ?thesis using vertical_shift[OF assms, of "(gp_southernLatitude p + gp_northernLatitude p) / 2"
      "(gp_westernLongitude p + gp_easternLongitude p) / 2" lat w0 lon] by (auto simp: GridParent_center_def simp del: not_None_eq)
qed

definition set_returns :: "(int set \<Rightarrow> int list) \<Rightarrow> CoastlineWays \<Rightarrow> GridCell \<Rightarrow> bool" where
  "set_returns iter cs c \<longleftrightarrow> (\<forall>lat lon w. \<exists>c'. GridCell_setCenterPoint iter cs lat lon w c = Some c' \<and> shape c' = shape c \<and>
     (GridCell_getAllContainedEdgeIDs c = {} \<longrightarrow> uniform w c'))"

definition init_returns :: "(int set \<Rightarrow> int list) \<Rightarrow> CoastlineWays \<Rightarrow> GridCell \<Rightarrow> bool" where
  "init_returns iter cs c \<longleftrightarrow> (\<forall>lat lon w E dir. finite E \<and> (\<forall>e \<in> E. edge_valid cs e) \<longrightarrow>
     (\<exists>w' E' c'. GridCell_initCenterPoint iter cs lat lon w E dir c = Some (w', E', c') \<and> shape c' = shape c \<and>
       finite E' \<and> (\<forall>e \<in> E'. edge_valid cs e) \<and> (GridCell_getAllContainedEdgeIDs c = {} \<and> E = {} \<longrightarrow> w' = w \<and> E' = {} \<and> uniform w c')))"

lemma init_returnsE:
  assumes "init_returns iter cs c" "finite E" "\<forall>e \<in> E. edge_valid cs e"
  obtains w' E' c' where "GridCell_initCenterPoint iter cs lat lon w E dir c = Some (w', E', c')" "shape c' = shape c"
    "finite E'" "\<forall>e \<in> E'. edge_valid cs e" "GridCell_getAllContainedEdgeIDs c = {} \<and> E = {} \<longrightarrow> w' = w \<and> E' = {} \<and> uniform w c'"
proof -
  note r = assms(1)[unfolded init_returns_def, THEN spec[of _ lat], THEN spec[of _ lon], THEN spec[of _ w], THEN spec[of _ E], THEN spec[of _ dir]]
  show thesis using mp[OF r conjI[OF assms(2,3)]] that by blast
qed

lemma set_init:
  assumes "iterates iter" "set_returns iter cs c" "\<forall>e \<in> GridCell_getAllContainedEdgeIDs c. edge_valid cs e"
  shows "init_returns iter cs c"
proof (cases c)
  case (ALeaf l)
  show ?thesis unfolding init_returns_def
  proof (intro allI impI)
    fix lat lon w E dir assume E: "finite E \<and> (\<forall>e \<in> E. edge_valid cs e)"
    then have v: "\<forall>e \<in> E \<union> set (gl_edgeIds l). edge_valid cs e" using assms(3) ALeaf by auto
    show "\<exists>w' E' c'. GridCell_initCenterPoint iter cs lat lon w E dir c = Some (w', E', c') \<and> shape c' = shape c \<and>
       finite E' \<and> (\<forall>e \<in> E'. edge_valid cs e) \<and> (GridCell_getAllContainedEdgeIDs c = {} \<and> E = {} \<longrightarrow> w' = w \<and> E' = {} \<and> uniform w c')"
      using leaf_init[OF assms(1) conjunct1[OF E] v, of lat lon w dir] leaf_init_nothing[OF assms(1), of l cs lat lon w dir] E v
      by (fastforce simp: ALeaf uniform_def)
  qed
next
  case (AParent p cells)
  show ?thesis unfolding init_returns_def
  proof (intro allI impI)
    fix lat lon w E dir assume E: "finite E \<and> (\<forall>e \<in> E. edge_valid cs e)"
    obtain a00 a01 a02 a10 a11 a12 a20 a21 a22 where cells: "cells = Three (Three a00 a01 a02) (Three a10 a11 a12) (Three a20 a21 a22)"
      by (metis three.exhaust)
    define E' where "E' = E \<union> (case dir of
         FROM_HORIZONTAL \<Rightarrow> GridCell_getAllContainedEdgeIDs (th0 (th1 cells)) \<union> GridCell_getAllContainedEdgeIDs (th1 (th1 cells)) \<union>
           GridCell_getAllContainedEdgeIDs (th2 (th1 cells))
       | FROM_VERTICAL \<Rightarrow> GridCell_getAllContainedEdgeIDs (th1 (th0 cells)) \<union> GridCell_getAllContainedEdgeIDs (th1 (th1 cells)) \<union>
           GridCell_getAllContainedEdgeIDs (th1 (th2 cells)))"
    have E': "finite E'" "\<forall>e \<in> E'. edge_valid cs e" using E assms(3) by (auto simp: E'_def AParent cells contained_finite split: ApproachDirection.splits)
    obtain w' a b where c: "GridParent_center iter cs lat lon w E' dir p = Some (w', a, b)"
      using parent_center[OF assms(1) E', of lat lon w dir p] by fastforce
    obtain c' where s: "GridCell_setCenterPoint iter cs a b w' c = Some c'" "shape c' = shape c"
      "GridCell_getAllContainedEdgeIDs c = {} \<longrightarrow> uniform w' c'" using assms(2) unfolding set_returns_def by blast
    show "\<exists>w' E' c'. GridCell_initCenterPoint iter cs lat lon w E dir c = Some (w', E', c') \<and> shape c' = shape c \<and>
       finite E' \<and> (\<forall>e \<in> E'. edge_valid cs e) \<and> (GridCell_getAllContainedEdgeIDs c = {} \<and> E = {} \<longrightarrow> w' = w \<and> E' = {} \<and> uniform w c')"
    proof (intro exI[of _ w'] exI[of _ E'] exI[of _ c'] conjI impI s(2) E')
      show "GridCell_initCenterPoint iter cs lat lon w E dir c = Some (w', E', c')" using c s(1) by (simp add: AParent E'_def[symmetric] Let_def)
      assume no: "GridCell_getAllContainedEdgeIDs c = {} \<and> E = {}"
      then show e: "E' = {}" by (auto simp: E'_def AParent cells split: ApproachDirection.splits)
      show w: "w' = w" by (rule parent_center_nothing[OF assms(1) c[unfolded e]])
      show "uniform w c'" using s(3) no w by simp
    qed
  qed
qed

lemma set_leaf: "set_returns iter cs (ALeaf l)"
  by (simp add: set_returns_def uniform_def)


lemma set_parent:
  assumes valid: "\<forall>e \<in> GridCell_getAllContainedEdgeIDs (AParent p (Three (Three c00 c01 c02) (Three c10 c11 c12) (Three c20 c21 c22))). edge_valid cs e"
    and mid: "set_returns iter cs c11"
    and init: "\<forall>c \<in> {c00, c01, c02, c10, c12, c20, c21, c22}. init_returns iter cs c"
  shows "set_returns iter cs (AParent p (Three (Three c00 c01 c02) (Three c10 c11 c12) (Three c20 c21 c22)))"
  unfolding set_returns_def
proof (intro allI)
  fix lat lon w
  obtain d11 where d11: "GridCell_setCenterPoint iter cs lat lon w c11 = Some d11" "shape d11 = shape c11"
    "GridCell_getAllContainedEdgeIDs c11 = {} \<longrightarrow> uniform w d11"
    using mid unfolding set_returns_def by blast
  have i: "init_returns iter cs c00" "init_returns iter cs c01" "init_returns iter cs c02" "init_returns iter cs c10"
    "init_returns iter cs c12" "init_returns iter cs c20" "init_returns iter cs c21" "init_returns iter cs c22" using init by simp_all
  let ?E0 = "GridCell_getAllContainedEdgeIDs c10" let ?E1 = "GridCell_getAllContainedEdgeIDs d11" let ?E2 = "GridCell_getAllContainedEdgeIDs c12"
  have v: "\<forall>e \<in> ?E0. edge_valid cs e" "\<forall>e \<in> ?E1. edge_valid cs e" "\<forall>e \<in> ?E2. edge_valid cs e"
    using valid by (simp_all add: same_shape_edges[OF d11(2)])
  obtain w0 F1 d10 where d10: "GridCell_initCenterPoint iter cs lat lon w ?E1 FROM_HORIZONTAL c10 = Some (w0, F1, d10)" "shape d10 = shape c10"
    "finite F1" "\<forall>e \<in> F1. edge_valid cs e"
    "GridCell_getAllContainedEdgeIDs c10 = {} \<and> ?E1 = {} \<longrightarrow> w0 = w \<and> F1 = {} \<and> uniform w d10"
    by (rule init_returnsE[OF i(4) contained_finite v(2)])
  obtain w2 G1 d12 where d12: "GridCell_initCenterPoint iter cs lat lon w F1 FROM_HORIZONTAL c12 = Some (w2, G1, d12)" "shape d12 = shape c12"
    "finite G1" "\<forall>e \<in> G1. edge_valid cs e"
    "GridCell_getAllContainedEdgeIDs c12 = {} \<and> F1 = {} \<longrightarrow> w2 = w \<and> G1 = {} \<and> uniform w d12"
    by (rule init_returnsE[OF i(5) d10(3,4)])
  obtain a0 b0 where p0: "GridCell_getCtr d10 = (a0, b0)" by fastforce
  obtain a1 b1 where p1: "GridCell_getCtr d11 = (a1, b1)" by fastforce
  obtain a2 b2 where p2: "GridCell_getCtr d12 = (a2, b2)" by fastforce
  obtain u00 F0 d00 where d00: "GridCell_initCenterPoint iter cs a0 b0 w0 ?E0 FROM_VERTICAL c00 = Some (u00, F0, d00)" "shape d00 = shape c00"
    "finite F0" "\<forall>e \<in> F0. edge_valid cs e"
    "GridCell_getAllContainedEdgeIDs c00 = {} \<and> ?E0 = {} \<longrightarrow> u00 = w0 \<and> F0 = {} \<and> uniform w0 d00"
    by (rule init_returnsE[OF i(1) contained_finite v(1)])
  obtain u20 H0 d20 where d20: "GridCell_initCenterPoint iter cs a0 b0 w0 F0 FROM_VERTICAL c20 = Some (u20, H0, d20)" "shape d20 = shape c20"
    "GridCell_getAllContainedEdgeIDs c20 = {} \<and> F0 = {} \<longrightarrow> u20 = w0 \<and> H0 = {} \<and> uniform w0 d20"
    by (rule init_returnsE[OF i(6) d00(3,4)])
  obtain u01 H1 d01 where d01: "GridCell_initCenterPoint iter cs a1 b1 w G1 FROM_VERTICAL c01 = Some (u01, H1, d01)" "shape d01 = shape c01"
    "finite H1" "\<forall>e \<in> H1. edge_valid cs e"
    "GridCell_getAllContainedEdgeIDs c01 = {} \<and> G1 = {} \<longrightarrow> u01 = w \<and> H1 = {} \<and> uniform w d01"
    by (rule init_returnsE[OF i(2) d12(3,4)])
  obtain u21 I1 d21 where d21: "GridCell_initCenterPoint iter cs a1 b1 w H1 FROM_VERTICAL c21 = Some (u21, I1, d21)" "shape d21 = shape c21"
    "GridCell_getAllContainedEdgeIDs c21 = {} \<and> H1 = {} \<longrightarrow> u21 = w \<and> I1 = {} \<and> uniform w d21"
    by (rule init_returnsE[OF i(7) d01(3,4)])
  obtain u02 F2 d02 where d02: "GridCell_initCenterPoint iter cs a2 b2 w2 ?E2 FROM_VERTICAL c02 = Some (u02, F2, d02)" "shape d02 = shape c02"
    "finite F2" "\<forall>e \<in> F2. edge_valid cs e"
    "GridCell_getAllContainedEdgeIDs c02 = {} \<and> ?E2 = {} \<longrightarrow> u02 = w2 \<and> F2 = {} \<and> uniform w2 d02"
    by (rule init_returnsE[OF i(3) contained_finite v(3)])
  obtain u22 G2 d22 where d22: "GridCell_initCenterPoint iter cs a2 b2 w2 F2 FROM_VERTICAL c22 = Some (u22, G2, d22)" "shape d22 = shape c22"
    "GridCell_getAllContainedEdgeIDs c22 = {} \<and> F2 = {} \<longrightarrow> u22 = w2 \<and> G2 = {} \<and> uniform w2 d22"
    by (rule init_returnsE[OF i(8) d02(3,4)])
  let ?c = "AParent p (Three (Three c00 c01 c02) (Three c10 c11 c12) (Three c20 c21 c22))"
  let ?d = "AParent (p\<lparr>gp_centerPointLat := lat, gp_centerPointLon := lon\<rparr>) (Three (Three d00 d01 d02) (Three d10 d11 d12) (Three d20 d21 d22))"
  have "GridCell_setCenterPoint iter cs lat lon w ?c = Some ?d" by (simp add: Let_def d11(1) d10(1) d12(1) d00(1) d20(1) d01(1) d21(1) d02(1) d22(1) p0 p1 p2)
  moreover have "shape ?d = shape ?c" by (simp add: d11(2) d10(2) d12(2) d00(2) d20(2) d01(2) d21(2) d02(2) d22(2))
  moreover have "uniform w ?d" if no: "GridCell_getAllContainedEdgeIDs ?c = {}"
  proof -
    have e: "GridCell_getAllContainedEdgeIDs c00 = {}" "GridCell_getAllContainedEdgeIDs c01 = {}" "GridCell_getAllContainedEdgeIDs c02 = {}"
      "?E0 = {}" "?E1 = {}" "?E2 = {}"
      "GridCell_getAllContainedEdgeIDs c20 = {}" "GridCell_getAllContainedEdgeIDs c21 = {}" "GridCell_getAllContainedEdgeIDs c22 = {}"
      using no by (simp_all add: same_shape_edges[OF d11(2)])
    have "uniform w d11" "w0 = w" "F1 = {}" "uniform w d10" using d11(3) d10(5) e same_shape_edges[OF d11(2)] by simp_all
    moreover from this have "w2 = w" "G1 = {}" "uniform w d12" using d12(5) e by simp_all
    moreover from calculation have "F0 = {}" "uniform w d00" "H1 = {}" "uniform w d01" "F2 = {}" "uniform w d02" using d00(5) d01(5) d02(5) e by simp_all
    moreover from calculation have "uniform w d20" "uniform w d21" "uniform w d22" using d20(3) d21(3) d22(3) e by simp_all
    ultimately show ?thesis unfolding uniform_def leaves_nine by blast
  qed
  ultimately show "\<exists>c'. GridCell_setCenterPoint iter cs lat lon w ?c = Some c' \<and> shape c' = shape ?c \<and>
      (GridCell_getAllContainedEdgeIDs ?c = {} \<longrightarrow> uniform w c')" by blast
qed

lemma cell_induct [case_names leaf parent]:
  assumes "\<And>l. P (ALeaf l)"
    and "\<And>p c00 c01 c02 c10 c11 c12 c20 c21 c22. \<forall>c \<in> {c00, c01, c02, c10, c11, c12, c20, c21, c22}. P c \<Longrightarrow>
      P (AParent p (Three (Three c00 c01 c02) (Three c10 c11 c12) (Three c20 c21 c22)))"
  shows "P c"
  by (induction c rule: GridCell_getAllContainedEdgeIDs.induct) (use assms in auto)

text \<open>The status of the center points can always be determined; nothing else of the cells changes.\<close>

lemma center_points_set:
  assumes "iterates iter" "\<forall>e \<in> GridCell_getAllContainedEdgeIDs c. edge_valid cs e"
  shows "set_returns iter cs c"
  using assms(2)
proof (induction c rule: cell_induct)
  case (parent p c00 c01 c02 c10 c11 c12 c20 c21 c22)
  show ?case
  proof (rule set_parent[OF parent.prems])
    have s: "set_returns iter cs c" if "c \<in> {c00, c01, c02, c10, c11, c12, c20, c21, c22}" for c
      using bspec[OF parent.IH that] parent.prems that by auto
    then show "set_returns iter cs c11" by simp
    show "\<forall>c \<in> {c00, c01, c02, c10, c12, c20, c21, c22}. init_returns iter cs c"
    proof
      fix c assume c: "c \<in> {c00, c01, c02, c10, c12, c20, c21, c22}"
      then have "\<forall>e \<in> GridCell_getAllContainedEdgeIDs c. edge_valid cs e" using parent.prems by auto
      then show "init_returns iter cs c" using c by (intro set_init[OF assms(1) s]) auto
    qed
  qed
qed (rule set_leaf)


section \<open>The grid of the checker\<close>

definition earth :: "GridCell list list \<Rightarrow> bool" where
  "earth grid \<longleftrightarrow> length grid = 18 \<and> (\<forall>row \<in> set grid. length row = 36)"

definition grid_valid :: "CoastlineWays \<Rightarrow> GridCell list list \<Rightarrow> bool" where
  "grid_valid cs grid \<longleftrightarrow> (\<forall>row \<in> set grid. \<forall>c \<in> set row. \<forall>e \<in> GridCell_getAllContainedEdgeIDs c. edge_valid cs e)"

definition same_grid :: "GridCell list list \<Rightarrow> GridCell list list \<Rightarrow> bool" where
  "same_grid grid0 grid \<longleftrightarrow> map (map shape) grid = map (map shape) grid0"

lemma same_grid_earth: "same_grid grid0 grid \<Longrightarrow> earth grid0 \<Longrightarrow> earth grid"
proof -
  assume s: "same_grid grid0 grid" and e: "earth grid0"
  have "map length grid = map length grid0" using arg_cong[OF s[unfolded same_grid_def], of "map length"] by (simp add: comp_def)
  then have "length ` set grid = length ` set grid0" by (metis set_map)
  moreover have "length grid = length grid0" using arg_cong[OF s[unfolded same_grid_def], of length] by simp
  ultimately show "earth grid" using e unfolding earth_def by (metis (no_types, lifting) image_iff)
qed

lemma earth_rows: "earth grid \<Longrightarrow> i < 18 \<Longrightarrow> i < length grid" "earth grid \<Longrightarrow> i < 18 \<Longrightarrow> length (grid ! i) = 36"
  by (auto simp: earth_def)

lemma same_grid_nth:
  assumes "same_grid grid0 grid" "earth grid0" "i < 18" "j < 36"
  shows "shape (grid ! i ! j) = shape (grid0 ! i ! j)"
proof -
  note e = same_grid_earth[OF assms(1,2)]
  have "map shape (grid ! i) = map shape (grid0 ! i)"
    using arg_cong[OF assms(1)[unfolded same_grid_def], of "\<lambda>xs. xs ! i"] earth_rows(1)[OF e assms(3)] earth_rows(1)[OF assms(2,3)] by simp
  from arg_cong[OF this, of "\<lambda>xs. xs ! j"] show ?thesis using earth_rows(2)[OF e assms(3)] earth_rows(2)[OF assms(2,3)] assms(4) by simp
qed

lemma same_grid_valid:
  assumes "same_grid grid0 grid" "earth grid0" "grid_valid cs grid0" "i < 18" "j < 36"
  shows "\<forall>e \<in> GridCell_getAllContainedEdgeIDs (grid ! i ! j). edge_valid cs e"
proof -
  have "grid0 ! i \<in> set grid0" "grid0 ! i ! j \<in> set (grid0 ! i)" using earth_rows[OF assms(2,4)] assms(5) by simp_all
  then show ?thesis using assms(3) unfolding same_shape_edges[OF same_grid_nth[OF assms(1,2,4,5)]] grid_valid_def by blast
qed

lemma get_cell: "earth grid \<Longrightarrow> i < 18 \<Longrightarrow> j < 36 \<Longrightarrow> getCell grid (int i) (int j) = Some (grid ! i ! j)"
  by (simp add: getCell_def earth_def aget_def)

lemma set_cell:
  assumes "earth grid" "i < 18" "j < 36" "shape c = shape (grid ! i ! j)" "same_grid grid0 grid"
  obtains grid' where "setCell grid (int i) (int j) c = Some grid'" "same_grid grid0 grid'"
    "\<forall>a b. grid' ! a ! b = (if a = i \<and> b = j then c else grid ! a ! b)"
proof -
  let ?g = "grid[i := (grid ! i)[j := c]]"
  have l: "i < length grid" "j < length (grid ! i)" using assms(3) earth_rows[OF assms(1,2)] by simp_all
  then have "map shape ((grid ! i)[j := c]) = map shape (grid ! i)" using assms(4) by (simp add: map_update list_update_same_conv)
  then have "map (map shape) ?g = map (map shape) grid" using l by (simp only: map_update) (simp add: list_update_same_conv)
  then have s: "same_grid grid0 ?g" using assms(5) unfolding same_grid_def by simp
  have "?g ! a ! b = (if a = i \<and> b = j then c else grid ! a ! b)" for a b using l by (cases "a = i"; cases "b = j") simp_all
  moreover have "setCell grid (int i) (int j) c = Some ?g" using l by (simp add: setCell_def aget_def aset_def)
  ultimately show thesis using that s by blast
qed

definition edges_ok :: "CoastlineWays \<Rightarrow> int set \<Rightarrow> bool" where
  "edges_ok cs E \<longleftrightarrow> finite E \<and> (\<forall>e \<in> E. edge_valid cs e)"

text \<open>No cell has an edge.\<close>

definition quiet :: "GridCell list list \<Rightarrow> bool" where
  "quiet grid \<longleftrightarrow> (\<forall>i < 18. \<forall>j < 36. GridCell_getAllContainedEdgeIDs (grid ! i ! j) = {})"

text \<open>One cell of the grid.\<close>

lemma init_cell:
  assumes "iterates iter" "same_grid grid0 grid" "earth grid0" "grid_valid cs grid0" "i < 18" "j < 36" "edges_ok cs E"
  obtains w' E' c' grid' where "getCell grid (int i) (int j) = Some (grid ! i ! j)"
    "GridCell_initCenterPoint iter cs lat lon w E dir (grid ! i ! j) = Some (w', E', c')" "edges_ok cs E'"
    "setCell grid (int i) (int j) c' = Some grid'" "same_grid grid0 grid'" "edges_ok cs (GridCell_getAllContainedEdgeIDs c')"
    "\<forall>a b. grid' ! a ! b = (if a = i \<and> b = j then c' else grid ! a ! b)"
    "quiet grid0 \<and> E = {} \<longrightarrow> w' = w \<and> E' = {} \<and> GridCell_getAllContainedEdgeIDs c' = {} \<and> uniform w c'"
proof -
  note e = same_grid_earth[OF assms(2,3)] and v = same_grid_valid[OF assms(2-6)]
  have r: "init_returns iter cs (grid ! i ! j)" by (intro set_init center_points_set assms(1) v)
  have E: "finite E" "\<forall>e \<in> E. edge_valid cs e" using assms(7) by (simp_all add: edges_ok_def)
  obtain w' E' c' where c: "GridCell_initCenterPoint iter cs lat lon w E dir (grid ! i ! j) = Some (w', E', c')" "shape c' = shape (grid ! i ! j)"
    "finite E'" "\<forall>e \<in> E'. edge_valid cs e" "GridCell_getAllContainedEdgeIDs (grid ! i ! j) = {} \<and> E = {} \<longrightarrow> w' = w \<and> E' = {} \<and> uniform w c'"
    by (rule init_returnsE[OF r E])
  obtain grid' where g: "setCell grid (int i) (int j) c' = Some grid'" "same_grid grid0 grid'"
    "\<forall>a b. grid' ! a ! b = (if a = i \<and> b = j then c' else grid ! a ! b)" by (rule set_cell[OF e assms(5,6) c(2) assms(2)])
  have q: "GridCell_getAllContainedEdgeIDs (grid ! i ! j) = {}" if "quiet grid0"
    using that same_shape_edges[OF same_grid_nth[OF assms(2,3,5,6)]] assms(5,6) by (simp add: quiet_def)
  have "edges_ok cs E'" "edges_ok cs (GridCell_getAllContainedEdgeIDs c')"
    using c(3,4) v by (simp_all add: edges_ok_def contained_finite same_shape_edges[OF c(2)])
  then show thesis using that[OF get_cell[OF e assms(5,6)] c(1) _ g(1,2) _ g(3)] c(5) q same_shape_edges[OF c(2)] by blast
qed

lemma bottomRow_returns:
  assumes "iterates iter" "earth grid0" "grid_valid cs grid0" "same_grid grid0 grid" "edges_ok cs E"
    "quiet grid0 \<longrightarrow> E = {} \<and> uniform w (grid ! 0 ! 0)"
  shows "\<exists>grid' ws es. for_range 1 36 (PointInWaterChecker_bottomRow iter cs) (grid, [w], [E]) = Some (grid', ws, es) \<and>
    same_grid grid0 grid' \<and> length ws = 36 \<and> length es = 36 \<and> (\<forall>E \<in> set es. edges_ok cs E) \<and>
    (quiet grid0 \<longrightarrow> set ws = {w} \<and> set es = {{}} \<and> (\<forall>b < 36. uniform w (grid' ! 0 ! b)))"
proof -
  let ?I = "\<lambda>i (grid, ws :: bool list, es). same_grid grid0 grid \<and> int (length ws) = i \<and> int (length es) = i \<and> (\<forall>E \<in> set es. edges_ok cs E) \<and>
    (quiet grid0 \<longrightarrow> set ws = {w} \<and> set es = {{}} \<and> (\<forall>b. int b < i \<longrightarrow> uniform w (grid ! 0 ! b)))"
  have "\<exists>st. for_range 1 36 (PointInWaterChecker_bottomRow iter cs) (grid, [w], [E]) = Some st \<and> ?I 36 st"
  proof (rule for_range_rule[where I = ?I])
    fix i st assume i: "1 \<le> i" "i < 36" and st: "?I i st"
    obtain g ws es where s: "st = (g, ws, es)" by (cases st)
    define j where "j = nat (i - 1)"
    have j: "i = int (Suc j)" "Suc j < 36" using i by (simp_all add: j_def nat_less_iff)
    have l: "length ws = Suc j" "length es = Suc j" and g: "same_grid grid0 g" and v: "\<forall>E \<in> set es. edges_ok cs E"
      and q: "quiet grid0 \<Longrightarrow> set ws = {w} \<and> set es = {{}} \<and> (\<forall>b. int b < i \<longrightarrow> uniform w (g ! 0 ! b))" using st j by (auto simp: s)
    have ge: "aget ws (int (Suc j) - 1) = Some (ws ! j)" "aget es (int (Suc j) - 1) = Some (es ! j)" using l by (simp_all add: aget_def)
    have E: "edges_ok cs (es ! j)" using v l by simp
    obtain w' E' c' grid' where c: "getCell g (int 0) (int (Suc j)) = Some (g ! 0 ! Suc j)"
      "GridCell_initCenterPoint iter cs (centerLat 0) (centerLon (int (Suc j) - 1)) (ws ! j) (es ! j) FROM_HORIZONTAL (g ! 0 ! Suc j) = Some (w', E', c')"
      "edges_ok cs E'" "setCell g (int 0) (int (Suc j)) c' = Some grid'" "same_grid grid0 grid'" "edges_ok cs (GridCell_getAllContainedEdgeIDs c')"
      "\<forall>a b. grid' ! a ! b = (if a = 0 \<and> b = Suc j then c' else g ! a ! b)"
      "quiet grid0 \<and> es ! j = {} \<longrightarrow> w' = ws ! j \<and> E' = {} \<and> GridCell_getAllContainedEdgeIDs c' = {} \<and> uniform (ws ! j) c'"
      by (rule init_cell[OF assms(1) g assms(2,3) zero_less_numeral j(2) E])
    have se: "aset es (int (Suc j) - 1) E' = Some (es[j := E'])" using l by (simp add: aset_def)
    have "PointInWaterChecker_bottomRow iter cs i st = Some (grid', ws @ [w'], es[j := E'] @ [GridCell_getAllContainedEdgeIDs c'])"
      unfolding s j(1) PointInWaterChecker_bottomRow_def using c(1,2,4) ge se by simp
    moreover have "\<forall>E \<in> set (es[j := E']). edges_ok cs E" using v c(3) set_update_subset_insert[of es j E'] by blast
    moreover have "set (ws @ [w']) = {w} \<and> set (es[j := E'] @ [GridCell_getAllContainedEdgeIDs c']) = {{}} \<and> (\<forall>b. int b < i + 1 \<longrightarrow> uniform w (grid' ! 0 ! b))"
      if quiet: "quiet grid0"
    proof -
      have m: "ws ! j = w" "es ! j = {}" using q[OF quiet] nth_mem[of j ws] nth_mem[of j es] l by auto
      then have u: "w' = w" "E' = {}" "GridCell_getAllContainedEdgeIDs c' = {}" "uniform w c'" using c(8) quiet by simp_all
      have "es[j := E'] = es" using m(2) u(2) by (simp add: list_update_same_conv l)
      then show ?thesis using q[OF quiet] u j c(7) by auto
    qed
    ultimately show "\<exists>st'. PointInWaterChecker_bottomRow iter cs i st = Some st' \<and> ?I (i + 1) st'" using c(5,6) l j(1) by simp
  qed (use assms in simp_all)
  then show ?thesis by auto
qed

lemma column_returns:
  assumes "iterates iter" "earth grid0" "grid_valid cs grid0" "same_grid grid0 grid" "edges_ok cs E" "j < 36"
    "quiet grid0 \<longrightarrow> E = {} \<and> uniform w (grid ! 0 ! j)"
  shows "\<exists>grid' w' E'. for_range 1 18 (PointInWaterChecker_column iter cs (int j)) (grid, w, E) = Some (grid', w', E') \<and> same_grid grid0 grid' \<and>
    (\<forall>a b. b \<noteq> j \<longrightarrow> grid' ! a ! b = grid ! a ! b) \<and> (quiet grid0 \<longrightarrow> (\<forall>a < 18. uniform w (grid' ! a ! j)))"
proof -
  let ?I = "\<lambda>(i :: int) (grid', w' :: bool, E'). same_grid grid0 grid' \<and> edges_ok cs E' \<and> (\<forall>a b. b \<noteq> j \<longrightarrow> grid' ! a ! b = grid ! a ! b) \<and>
    (quiet grid0 \<longrightarrow> w' = w \<and> E' = {} \<and> (\<forall>a. int a < i \<longrightarrow> uniform w (grid' ! a ! j)))"
  have "\<exists>st. for_range 1 18 (PointInWaterChecker_column iter cs (int j)) (grid, w, E) = Some st \<and> ?I 18 st"
  proof (rule for_range_rule[where I = ?I])
    fix i st assume i: "1 \<le> i" "i < 18" and st: "?I i st"
    obtain g u E where s: "st = (g, u, E)" by (cases st)
    define k where "k = nat i"
    have k: "i = int k" "k < 18" using i by (simp_all add: k_def nat_less_iff)
    have g: "same_grid grid0 g" and E: "edges_ok cs E" and r: "\<forall>a b. b \<noteq> j \<longrightarrow> g ! a ! b = grid ! a ! b"
      and q: "quiet grid0 \<Longrightarrow> u = w \<and> E = {} \<and> (\<forall>a. int a < i \<longrightarrow> uniform w (g ! a ! j))" using st by (auto simp: s)
    obtain w' E' c' grid' where c: "getCell g (int k) (int j) = Some (g ! k ! j)"
      "GridCell_initCenterPoint iter cs (centerLat (int k - 1)) (centerLon (int j)) u E FROM_VERTICAL (g ! k ! j) = Some (w', E', c')"
      "setCell g (int k) (int j) c' = Some grid'" "same_grid grid0 grid'" "edges_ok cs (GridCell_getAllContainedEdgeIDs c')"
      "\<forall>a b. grid' ! a ! b = (if a = k \<and> b = j then c' else g ! a ! b)"
      "quiet grid0 \<and> E = {} \<longrightarrow> w' = u \<and> E' = {} \<and> GridCell_getAllContainedEdgeIDs c' = {} \<and> uniform u c'"
      by (rule init_cell[OF assms(1) g assms(2,3) k(2) assms(6) E])
    have "PointInWaterChecker_column iter cs (int j) i st = Some (grid', w', GridCell_getAllContainedEdgeIDs c')"
      unfolding s k(1) PointInWaterChecker_column_def using c(1-3) by simp
    then show "\<exists>st'. PointInWaterChecker_column iter cs (int j) i st = Some st' \<and> ?I (i + 1) st'" using c(4-7) r q k(1) by auto
  qed (use assms in simp_all)
  then show ?thesis by auto
qed

lemma firstPoint_returns:
  assumes "\<forall>e. 0 \<le> e \<and> e < CoastlineWays_getNumberOfEdges cs \<longrightarrow> edge_valid cs e"
  shows "\<exists>w. PointInWaterChecker_firstPoint cs = Some w"
proof -
  have "\<exists>w. PointInWaterChecker_firstPoint cs = Some w \<and> True" unfolding PointInWaterChecker_firstPoint_def
  proof (rule for_range_rule[where I = "\<lambda>_ _. True"])
    fix i s assume i: "0 \<le> i" "i < CoastlineWays_getNumberOfEdges cs"
    have v: "edge_valid cs i" using assms i by blast
    show "\<exists>s'. (do { sLat \<leftarrow> CoastlineWays_getStartLatByEdgeIdx cs i; sLon \<leftarrow> CoastlineWays_getStartLonByEdgeIdx cs i;
         dLat \<leftarrow> CoastlineWays_getDestLatByEdgeIdx cs i; dLon \<leftarrow> CoastlineWays_getDestLonByEdgeIdx cs i;
         Some (if arcsIntersect sLat sLon dLat dLon INITIAL_POINT_LAT INITIAL_POINT_LON (centerLat 0) (centerLon 0) then \<not> s else s) }) = Some s' \<and> True"
      by (rule edge_validE[OF v]) simp
  qed (simp_all add: CoastlineWays_getNumberOfEdges_def)
  then show ?thesis by simp
qed

definition coast_ok :: "CoastlineWays \<Rightarrow> bool" where
  "coast_ok cs \<longleftrightarrow> (\<forall>e. 0 \<le> e \<and> e < CoastlineWays_getNumberOfEdges cs \<longrightarrow> edge_valid cs e)"

text \<open>Once the cells are built, the constructor returns, and the cells only have got their center points.\<close>

lemma new_checker:
  assumes "iterates iter" "coast_ok cs" "PointInWaterChecker_cells iter cs = Some grid0" "earth grid0" "grid_valid cs grid0"
  shows "\<exists>pw w. PointInWaterChecker_new iter cs = Some pw \<and> PointInWaterChecker_firstPoint cs = Some w \<and> same_grid grid0 (pw_topLevelGrid pw) \<and>
    (quiet grid0 \<longrightarrow> (\<forall>i < 18. \<forall>j < 36. uniform w (pw_topLevelGrid pw ! i ! j)))"
proof -
  obtain w where w: "PointInWaterChecker_firstPoint cs = Some w" using firstPoint_returns assms(2) unfolding coast_ok_def by blast
  let ?c = "grid0 ! 0 ! 0"
  have s0: "same_grid grid0 grid0" by (simp add: same_grid_def)
  have v: "\<forall>e \<in> GridCell_getAllContainedEdgeIDs ?c. edge_valid cs e" by (rule same_grid_valid[OF s0 assms(4,5)]) simp_all
  obtain c where c: "GridCell_setCenterPoint iter cs (centerLat 0) (centerLon 0) w ?c = Some c" "shape c = shape ?c"
    "GridCell_getAllContainedEdgeIDs ?c = {} \<longrightarrow> uniform w c" using center_points_set[OF assms(1) v] unfolding set_returns_def by blast
  have g: "getCell grid0 0 0 = Some ?c" using get_cell[OF assms(4), of 0 0] by simp
  obtain grid1 where g1: "setCell grid0 (int 0) (int 0) c = Some grid1" "same_grid grid0 grid1"
    "\<forall>a b. grid1 ! a ! b = (if a = 0 \<and> b = 0 then c else grid0 ! a ! b)" by (rule set_cell[OF assms(4) zero_less_numeral zero_less_numeral c(2) s0])
  have E: "edges_ok cs (GridCell_getAllContainedEdgeIDs c)" using v by (simp add: edges_ok_def same_shape_edges[OF c(2)] contained_finite)
  have q: "quiet grid0 \<longrightarrow> GridCell_getAllContainedEdgeIDs c = {} \<and> uniform w (grid1 ! 0 ! 0)"
    using c(3) g1(3) by (simp add: quiet_def same_shape_edges[OF c(2)])
  obtain grid2 ws es where g2: "for_range 1 36 (PointInWaterChecker_bottomRow iter cs) (grid1, [w], [GridCell_getAllContainedEdgeIDs c]) = Some (grid2, ws, es)"
    "same_grid grid0 grid2" "length ws = 36" "length es = 36" "\<forall>E \<in> set es. edges_ok cs E"
    "quiet grid0 \<longrightarrow> set ws = {w} \<and> set es = {{}} \<and> (\<forall>b < 36. uniform w (grid2 ! 0 ! b))"
    using bottomRow_returns[OF assms(1,4,5) g1(2) E q] by (elim exE conjE) (rule that)
  let ?I = "\<lambda>(i :: int) grid. same_grid grid0 grid \<and> (quiet grid0 \<longrightarrow> (\<forall>b < 36. uniform w (grid ! 0 ! b)) \<and> (\<forall>a < 18. \<forall>b. int b < i \<longrightarrow> uniform w (grid ! a ! b)))"
  have "\<exists>grid. for_range 0 36 (\<lambda>lonIdx grid. do { w \<leftarrow> aget ws lonIdx; es \<leftarrow> aget es lonIdx;
        (grid, _) \<leftarrow> for_range 1 18 (PointInWaterChecker_column iter cs lonIdx) (grid, w, es); Some grid }) grid2 = Some grid \<and> ?I 36 grid"
  proof (rule for_range_rule[where I = ?I])
    fix i :: int and grid assume i: "0 \<le> i" "i < 36" and st: "?I i grid"
    define j where "j = nat i"
    have j: "i = int j" "j < 36" using i by (simp_all add: j_def nat_less_iff)
    have E: "edges_ok cs (es ! j)" using g2(4,5) j by simp
    have m: "ws ! j = w" "es ! j = {}" if "quiet grid0" using g2(6) that nth_mem[of j ws] nth_mem[of j es] g2(3,4) j(2) by auto
    have q: "quiet grid0 \<longrightarrow> es ! j = {} \<and> uniform (ws ! j) (grid ! 0 ! j)" using st m j(2) by simp
    obtain grid' w' E' where c: "for_range 1 18 (PointInWaterChecker_column iter cs (int j)) (grid, ws ! j, es ! j) = Some (grid', w', E')"
      "same_grid grid0 grid'" "\<forall>a b. b \<noteq> j \<longrightarrow> grid' ! a ! b = grid ! a ! b" "quiet grid0 \<longrightarrow> (\<forall>a < 18. uniform (ws ! j) (grid' ! a ! j))"
      using column_returns[OF assms(1,4,5) conjunct1[OF st] E j(2) q] by (elim exE conjE) (rule that)
    have "uniform w (grid' ! a ! b)" if "quiet grid0" "a < 18" "a = 0 \<and> b < 36 \<or> b < Suc j" for a b
    proof (cases "b = j")
      case True
      then show ?thesis using c(4) m(1) that by auto
    next
      case False
      then show ?thesis using c(3) st that j(1) by auto
    qed
    then have "?I (i + 1) grid'" using c(2) by (simp add: j(1))
    then show "\<exists>grid'. (do { w \<leftarrow> aget ws i; es \<leftarrow> aget es i;
        (grid, _) \<leftarrow> for_range 1 18 (PointInWaterChecker_column iter cs i) (grid, w, es); Some grid }) = Some grid' \<and> ?I (i + 1) grid'"
      using g2(3,4) j c(1) by (simp add: aget_def)
  qed (use g2 in simp_all)
  then obtain grid where "for_range 0 36 (\<lambda>lonIdx grid. do { w \<leftarrow> aget ws lonIdx; es \<leftarrow> aget es lonIdx;
        (grid, _) \<leftarrow> for_range 1 18 (PointInWaterChecker_column iter cs lonIdx) (grid, w, es); Some grid }) grid2 = Some grid" "?I 36 grid" by blast
  then show ?thesis using g1(1) by (intro exI[of _ "\<lparr>pw_topLevelGrid = grid\<rparr>"] exI[of _ w]) (simp add: PointInWaterChecker_new_def assms(3) w g c(1) g2(1))
qed

section \<open>Building the cells\<close>

text \<open>An edge touches a cell when one of its endpoints lies in it or on its border.\<close>

definition touches :: "CoastlineWays \<Rightarrow> real \<Rightarrow> real \<Rightarrow> real \<Rightarrow> real \<Rightarrow> int \<Rightarrow> bool" where
  "touches cs south north west east k \<longleftrightarrow> (case coast_edge cs k of None \<Rightarrow> False
     | Some (a, b, c, d) \<Rightarrow> south \<le> a \<and> a \<le> north \<and> west \<le> b \<and> b \<le> east \<or> south \<le> c \<and> c \<le> north \<and> west \<le> d \<and> d \<le> east)"

lemma containsEdge_runs: "edge_valid cs k \<Longrightarrow> \<exists>r. GridParent_containsEdge cs s n w e k = Some r"
  by (erule edge_validE) (auto simp: GridParent_containsEdge_def Let_def getPositionInfoOfPointRelativeToCell_def)

lemma containsEdge_touches: "touches cs s n w e k \<Longrightarrow> GridParent_containsEdge cs s n w e k = Some True"
proof -
  assume t: "touches cs s n w e k"
  then have v: "edge_valid cs k" by (auto simp: touches_def edge_valid_def split: option.splits)
  show "GridParent_containsEdge cs s n w e k = Some True"
    by (rule edge_validE[OF v])
      (use t in \<open>auto simp: touches_def GridParent_containsEdge_def Let_def getPositionInfoOfPointRelativeToCell_def\<close>)
qed

definition edges_in :: "CoastlineWays \<Rightarrow> int set \<Rightarrow> real \<Rightarrow> real \<Rightarrow> real \<Rightarrow> real \<Rightarrow> int set" where
  "edges_in cs E s n w e = {k \<in> E. GridParent_containsEdge cs s n w e k = Some True}"

lemma edges_in_list:
  assumes "\<forall>k \<in> set ids. edge_valid cs k"
  shows "for_list ids (\<lambda>edgeId edgesInCell. do { c \<leftarrow> GridParent_containsEdge cs s n w e edgeId;
     Some (if c then insert edgeId edgesInCell else edgesInCell) }) S = Some (S \<union> edges_in cs (set ids) s n w e)"
  using assms
proof (induction ids arbitrary: S)
  case (Cons k ids)
  obtain r where r: "GridParent_containsEdge cs s n w e k = Some r" using containsEdge_runs[of cs k s n w e] Cons.prems by auto
  have "edges_in cs (set (k # ids)) s n w e = (if r then {k} else {}) \<union> edges_in cs (set ids) s n w e"
    using r by (auto simp: edges_in_def)
  then show ?case using Cons.IH[of "if r then insert k S else S"] Cons.prems r by (cases r) auto
qed (simp add: edges_in_def)

lemma edgesInCell_eq:
  assumes "iterates iter" "edges_ok cs E"
  shows "GridParent_edgesInCell iter cs E s n w e = Some (edges_in cs E s n w e)"
proof -
  have "set (iter E) = E" using assms by (auto simp: iterates_def edges_ok_def)
  then show ?thesis using edges_in_list[of "iter E" cs s n w e "{}"] assms(2) by (simp add: GridParent_edgesInCell_def edges_ok_def)
qed

lemma edges_in_ok: "edges_ok cs E \<Longrightarrow> edges_ok cs (edges_in cs E s n w e)"
  by (simp add: edges_ok_def edges_in_def)

lemma for3_Some: "for3 f = Some t \<longleftrightarrow> (\<forall>i < 3. f i = Some (at3 t i))"
proof -
  have "(\<forall>i < 3. P i) \<longleftrightarrow> P 0 \<and> P 1 \<and> P (2 :: nat)" for P using less_Suc_eq by (auto simp: numeral_3_eq_3 numeral_2_eq_2)
  then show ?thesis by (cases t) (auto simp: for3_def at3_def bind_eq_Some_conv)
qed

text \<open>The invariant of a cell with its borders, among the given edges.\<close>

fun cell_ok :: "CoastlineWays \<Rightarrow> int set \<Rightarrow> real \<Rightarrow> real \<Rightarrow> real \<Rightarrow> real \<Rightarrow> GridCell \<Rightarrow> bool" where
  "cell_ok cs E s n w e (ALeaf l) \<longleftrightarrow> distinct (gl_edgeIds l) \<and> length (gl_edgeIds l) < EDGE_THRESHOLD \<and> set (gl_edgeIds l) \<subseteq> E \<and>
     {k \<in> E. touches cs s n w e k} \<subseteq> set (gl_edgeIds l)"
| "cell_ok cs E s n w e (AParent p cells) \<longleftrightarrow>
     gp_southernLatitude p = s \<and> gp_northernLatitude p = n \<and> gp_westernLongitude p = w \<and> gp_easternLongitude p = e \<and>
     gp_innerLatBorders p = (lowerLevelBorders s n 1, lowerLevelBorders s n 2) \<and>
     gp_innerLonBorders p = (lowerLevelBorders w e 1, lowerLevelBorders w e 2) \<and>
     (\<forall>i < 3. \<forall>j < 3. cell_ok cs E (lowerLevelBorders s n i) (lowerLevelBorders s n (i + 1))
        (lowerLevelBorders w e j) (lowerLevelBorders w e (j + 1)) (child cells i j))"

lemma borders_step: "a \<le> b \<Longrightarrow> i < 3 \<Longrightarrow> lowerLevelBorders a b (i + 1) - lowerLevelBorders a b i = (b - a) / 3"
  using less_Suc_eq by (auto simp: lowerLevelBorders_def Let_def numeral_3_eq_3 numeral_2_eq_2 field_simps)

lemma borders_inside: "a \<le> b \<Longrightarrow> a \<le> lowerLevelBorders a b i" "a \<le> b \<Longrightarrow> lowerLevelBorders a b i \<le> b"
  by (auto simp: lowerLevelBorders_def Let_def field_simps)

lemma borders_mono: "a \<le> b \<Longrightarrow> i < 3 \<Longrightarrow> lowerLevelBorders a b i \<le> lowerLevelBorders a b (i + 1)"
  using borders_step[of a b i] by (simp add: le_diff_eq)

lemma touches_larger: "touches cs s n w e k \<Longrightarrow> s' \<le> s \<Longrightarrow> n \<le> n' \<Longrightarrow> w' \<le> w \<Longrightarrow> e \<le> e' \<Longrightarrow> touches cs s' n' w' e' k"
  by (auto simp: touches_def split: option.splits)

lemma cell_ok_more:
  assumes "cell_ok cs E s n w e c" "E \<subseteq> F" "\<forall>k \<in> F. touches cs s n w e k \<longrightarrow> k \<in> E" "s \<le> n" "w \<le> e"
  shows "cell_ok cs F s n w e c"
  using assms
proof (induction cs E s n w e c rule: cell_ok.induct)
  case (2 cs E s n w e p cells)
  show ?case unfolding cell_ok.simps
  proof (intro conjI allI impI)
    fix i j :: nat assume i: "i < 3" and j: "j < 3"
    have "\<forall>k \<in> F. touches cs (lowerLevelBorders s n i) (lowerLevelBorders s n (i + 1)) (lowerLevelBorders w e j) (lowerLevelBorders w e (j + 1)) k \<longrightarrow> k \<in> E"
      using 2(4) touches_larger[OF _ borders_inside[OF 2(5)] borders_inside[OF 2(6)]] by blast
    then show "cell_ok cs F (lowerLevelBorders s n i) (lowerLevelBorders s n (i + 1)) (lowerLevelBorders w e j) (lowerLevelBorders w e (j + 1)) (child cells i j)"
      using 2(2) i j by (intro 2(1) 2(3) borders_mono 2(5,6)) auto
  qed (use 2(2) in auto)
qed auto


text \<open>One child, with the constructor as a parameter; the whole constructor in terms of it.\<close>

definition build_child ::
    "(int set \<Rightarrow> real \<Rightarrow> real \<Rightarrow> real \<Rightarrow> real \<Rightarrow> GridCell option) \<Rightarrow> (int set \<Rightarrow> int list) \<Rightarrow> int set \<Rightarrow> real \<Rightarrow> real \<Rightarrow> real \<Rightarrow> real \<Rightarrow> GridCell option" where
  "build_child f iter E s n w e =
     (if card E \<ge> EDGE_THRESHOLD then f E s n w e else Some (ALeaf (GridLeaf_new (iter E) ((s + n) / 2) ((w + e) / 2))))"

definition parent_of :: "real \<Rightarrow> real \<Rightarrow> real \<Rightarrow> real \<Rightarrow> GridParent" where
  "parent_of s n w e = \<lparr>gp_southernLatitude = s, gp_northernLatitude = n, gp_westernLongitude = w, gp_easternLongitude = e,
       gp_innerLatBorders = (lowerLevelBorders s n 1, lowerLevelBorders s n 2), gp_innerLonBorders = (lowerLevelBorders w e 1, lowerLevelBorders w e 2),
       gp_centerPointLat = 0, gp_centerPointLon = 0\<rparr>"

definition sub_edges :: "CoastlineWays \<Rightarrow> int set \<Rightarrow> real \<Rightarrow> real \<Rightarrow> real \<Rightarrow> real \<Rightarrow> nat \<Rightarrow> nat \<Rightarrow> int set" where
  "sub_edges cs E s n w e i j = edges_in cs E (lowerLevelBorders s n i) (lowerLevelBorders s n (i + 1)) (lowerLevelBorders w e j) (lowerLevelBorders w e (j + 1))"

definition built :: "(int set \<Rightarrow> real \<Rightarrow> real \<Rightarrow> real \<Rightarrow> real \<Rightarrow> GridCell option) \<Rightarrow> (int set \<Rightarrow> int list) \<Rightarrow> CoastlineWays \<Rightarrow>
    int set \<Rightarrow> real \<Rightarrow> real \<Rightarrow> real \<Rightarrow> real \<Rightarrow> nat \<Rightarrow> nat \<Rightarrow> GridCell option" where
  "built f iter cs E s n w e i j = build_child f iter (sub_edges cs E s n w e i j) (lowerLevelBorders s n i) (lowerLevelBorders s n (i + 1))
     (lowerLevelBorders w e j) (lowerLevelBorders w e (j + 1))"

lemma new_parent:
  assumes "iterates iter" "edges_ok cs E"
  shows "GridParent_new iter cs E s n w e = Some c \<longleftrightarrow>
    (\<exists>cells. c = AParent (parent_of s n w e) cells \<and> (\<forall>i < 3. \<forall>j < 3. built (GridParent_new iter cs) iter cs E s n w e i j = Some (child cells i j)))"
  by (subst GridParent_new.simps)
    (auto simp: Let_def edgesInCell_eq[OF assms] for3_Some bind_eq_Some_conv parent_of_def built_def build_child_def sub_edges_def)

text \<open>Induction over the cells a run of the constructor builds.\<close>

lemma new_induct:
  assumes "GridParent_new iter cs E s n w e = Some c" "iterates iter" "edges_ok cs E"
    and step: "\<And>E s n w e cells. edges_ok cs E \<Longrightarrow>
      \<forall>i < 3. \<forall>j < 3. if EDGE_THRESHOLD \<le> card (sub_edges cs E s n w e i j)
        then P (sub_edges cs E s n w e i j) (lowerLevelBorders s n i) (lowerLevelBorders s n (i + 1)) (lowerLevelBorders w e j) (lowerLevelBorders w e (j + 1)) (child cells i j)
        else \<exists>a b. child cells i j = ALeaf (GridLeaf_new (iter (sub_edges cs E s n w e i j)) a b) \<Longrightarrow>
      P E s n w e (AParent (parent_of s n w e) cells)"
  shows "P E s n w e c"
proof -
  have "iter' = iter \<longrightarrow> cs' = cs \<longrightarrow> edges_ok cs E \<longrightarrow> P E s n w e c" if "GridParent_new iter' cs' E s n w e = Some c" for iter' cs'
  proof (rule GridParent_new.raw_induct[OF _ that], intro impI, goal_cases)
    case (1 f iter' cs' E s n w e c)
    note E = edgesInCell_eq[OF assms(2) 1(5)]
    obtain cells where c: "c = AParent (parent_of s n w e) cells" and ch: "\<forall>i < 3. \<forall>j < 3. built (f iter cs) iter cs E s n w e i j = Some (child cells i j)"
      using 1(2) unfolding 1(3,4) E
      by (auto simp: Let_def for3_Some bind_eq_Some_conv parent_of_def built_def build_child_def sub_edges_def cong: if_cong)
    show ?case unfolding c
    proof (rule step[OF 1(5)], intro allI impI)
      fix i j :: nat assume "i < 3" "j < 3"
      then have "built (f iter cs) iter cs E s n w e i j = Some (child cells i j)" using ch by blast
      then show "if EDGE_THRESHOLD \<le> card (sub_edges cs E s n w e i j)
        then P (sub_edges cs E s n w e i j) (lowerLevelBorders s n i) (lowerLevelBorders s n (i + 1)) (lowerLevelBorders w e j) (lowerLevelBorders w e (j + 1)) (child cells i j)
        else \<exists>a b. child cells i j = ALeaf (GridLeaf_new (iter (sub_edges cs E s n w e i j)) a b)"
        using 1(1)[of iter cs] edges_in_ok[OF 1(5)] by (simp add: built_def build_child_def sub_edges_def split: if_splits) metis
    qed
  qed
  then show ?thesis using assms(1,3) by blast
qed

text \<open>What the constructor returns satisfies the invariant.\<close>

lemma sub_edges_subset: "sub_edges cs E s n w e i j \<subseteq> E"
  by (auto simp: sub_edges_def edges_in_def)

lemma built_ok:
  assumes "GridParent_new iter cs E s n w e = Some c" "iterates iter" "edges_ok cs E" "s \<le> n" "w \<le> e"
  shows "cell_ok cs E s n w e c"
proof -
  have "s \<le> n \<longrightarrow> w \<le> e \<longrightarrow> cell_ok cs E s n w e c"
  proof (rule new_induct[OF assms(1-3), where P = "\<lambda>E s n w e c. s \<le> n \<longrightarrow> w \<le> e \<longrightarrow> cell_ok cs E s n w e c"], intro impI)
    fix E s n w e cells
    let ?a = "lowerLevelBorders s n" and ?b = "lowerLevelBorders w e" and ?E = "sub_edges cs E s n w e"
    assume E: "edges_ok cs E" and sn: "s \<le> n" and we: "w \<le> e"
      and ch: "\<forall>i < 3. \<forall>j < 3. if EDGE_THRESHOLD \<le> card (?E i j)
        then ?a i \<le> ?a (i + 1) \<longrightarrow> ?b j \<le> ?b (j + 1) \<longrightarrow> cell_ok cs (?E i j) (?a i) (?a (i + 1)) (?b j) (?b (j + 1)) (child cells i j)
        else \<exists>a b. child cells i j = ALeaf (GridLeaf_new (iter (?E i j)) a b)"
    have "cell_ok cs E (?a i) (?a (i + 1)) (?b j) (?b (j + 1)) (child cells i j)" if ij: "i < 3" "j < 3" for i j
    proof -
      have all: "\<forall>k \<in> E. touches cs (?a i) (?a (i + 1)) (?b j) (?b (j + 1)) k \<longrightarrow> k \<in> ?E i j"
        using containsEdge_touches by (auto simp: sub_edges_def edges_in_def)
      have m: "?a i \<le> ?a (i + 1)" "?b j \<le> ?b (j + 1)" by (rule borders_mono[OF sn ij(1)], rule borders_mono[OF we ij(2)])
      have it: "distinct (iter (?E i j))" "set (iter (?E i j)) = ?E i j"
        using assms(2) edges_in_ok[OF E] by (auto simp: iterates_def edges_ok_def sub_edges_def)
      have "cell_ok cs (?E i j) (?a i) (?a (i + 1)) (?b j) (?b (j + 1)) (child cells i j)"
        using ch[rule_format, OF ij] m it distinct_card[OF it(1)] by (auto simp: GridLeaf_new_def split: if_splits)
      then show ?thesis by (rule cell_ok_more) (use all m sub_edges_subset in auto)
    qed
    then show "cell_ok cs E s n w e (AParent (parent_of s n w e) cells)" by (simp add: parent_of_def)
  qed
  then show ?thesis using assms(4,5) by blast
qed

text \<open>Too many edges at one point: one of the children always contains them all.\<close>

definition crowded :: "CoastlineWays \<Rightarrow> int set \<Rightarrow> real \<Rightarrow> real \<Rightarrow> real \<Rightarrow> real \<Rightarrow> bool" where
  "crowded cs E s n w e \<longleftrightarrow> (\<exists>lat lon. s \<le> lat \<and> lat \<le> n \<and> w \<le> lon \<and> lon \<le> e \<and> EDGE_THRESHOLD \<le> card {k \<in> E. touches cs lat lat lon lon k})"

lemma border_cell: "a \<le> x \<Longrightarrow> x \<le> b \<Longrightarrow> \<exists>i < 3. lowerLevelBorders a b i \<le> x \<and> x \<le> lowerLevelBorders a b (i + 1)"
proof -
  assume ab: "a \<le> x" "x \<le> b"
  then consider "x \<le> lowerLevelBorders a b (0 + 1)" | "lowerLevelBorders a b 1 \<le> x" "x \<le> lowerLevelBorders a b (1 + 1)" | "lowerLevelBorders a b 2 \<le> x"
    by (force simp: numeral_2_eq_2)
  then show ?thesis
  proof cases
    case 1 then show ?thesis using ab by (intro exI[of _ 0]) (simp add: lowerLevelBorders_def Let_def)
  next
    case 2 then show ?thesis by (intro exI[of _ 1]) simp
  next
    case 3 then show ?thesis using ab by (intro exI[of _ 2]) (simp add: lowerLevelBorders_def Let_def)
  qed
qed

lemma crowded_never:
  assumes "iterates iter" "edges_ok cs E" "crowded cs E s n w e"
  shows "GridParent_new iter cs E s n w e = None"
proof (rule ccontr)
  assume "GridParent_new iter cs E s n w e \<noteq> None"
  then obtain c where c: "GridParent_new iter cs E s n w e = Some c" by blast
  have "\<not> crowded cs E s n w e"
  proof (rule new_induct[OF c assms(1,2), where P = "\<lambda>E s n w e c. \<not> crowded cs E s n w e"], rule notI)
    fix E s n w e cells
    let ?a = "lowerLevelBorders s n" and ?b = "lowerLevelBorders w e" and ?E = "sub_edges cs E s n w e"
    assume E: "edges_ok cs E" and cr: "crowded cs E s n w e"
      and ch: "\<forall>i < 3. \<forall>j < 3. if EDGE_THRESHOLD \<le> card (?E i j) then \<not> crowded cs (?E i j) (?a i) (?a (i + 1)) (?b j) (?b (j + 1))
        else \<exists>a b. child cells i j = ALeaf (GridLeaf_new (iter (?E i j)) a b)"
    obtain lat lon where pt: "s \<le> lat" "lat \<le> n" "w \<le> lon" "lon \<le> e" and many: "EDGE_THRESHOLD \<le> card {k \<in> E. touches cs lat lat lon lon k}"
      using cr unfolding crowded_def by blast
    obtain i where i: "i < 3" "?a i \<le> lat" "lat \<le> ?a (i + 1)" using border_cell[OF pt(1,2)] by blast
    obtain j where j: "j < 3" "?b j \<le> lon" "lon \<le> ?b (j + 1)" using border_cell[OF pt(3,4)] by blast
    have "touches cs (?a i) (?a (i + 1)) (?b j) (?b (j + 1)) k" if "touches cs lat lat lon lon k" for k
      by (rule touches_larger[OF that i(2,3) j(2,3)])
    then have sub: "{k \<in> E. touches cs lat lat lon lon k} \<subseteq> {k \<in> ?E i j. touches cs lat lat lon lon k}"
      using containsEdge_touches by (auto simp: sub_edges_def edges_in_def)
    have fin: "finite (?E i j)" using E finite_subset[OF sub_edges_subset] by (auto simp: edges_ok_def)
    then have "EDGE_THRESHOLD \<le> card {k \<in> ?E i j. touches cs lat lat lon lon k}" using many card_mono[OF _ sub] by simp
    then have "crowded cs (?E i j) (?a i) (?a (i + 1)) (?b j) (?b (j + 1))" using i j unfolding crowded_def by blast
    moreover have "EDGE_THRESHOLD \<le> card (?E i j)" by (rule order_trans[OF many card_mono[OF fin]]) (use sub in blast)
    ultimately show False using ch[rule_format, OF i(1) j(1)] by simp
  qed
  then show False using assms(3) by blast
qed

text \<open>No crowd anywhere: with cells of a certain size on, the constructor stops.\<close>

definition sparse :: "CoastlineWays \<Rightarrow> int set \<Rightarrow> real \<Rightarrow> bool" where
  "sparse cs E d \<longleftrightarrow> 0 < d \<and> (\<forall>s n w e. s \<le> n \<and> n \<le> s + d \<and> w \<le> e \<and> e \<le> w + d \<longrightarrow> card (edges_in cs E s n w e) < EDGE_THRESHOLD)"

lemma few_sparse: "finite E \<Longrightarrow> card E < EDGE_THRESHOLD \<Longrightarrow> sparse cs E 1"
proof -
  assume E: "finite E" "card E < EDGE_THRESHOLD"
  have "card (edges_in cs E s n w e) \<le> card E" for s n w e by (rule card_mono[OF E(1)]) (auto simp: edges_in_def)
  then have "card (edges_in cs E s n w e) < EDGE_THRESHOLD" for s n w e using E(2) le_less_trans by blast
  then show ?thesis by (simp add: sparse_def)
qed

lemma built_returns:
  assumes "iterates iter" "edges_ok cs E" "\<forall>i < 3. \<forall>j < 3. \<exists>c. built (GridParent_new iter cs) iter cs E s n w e i j = Some c"
  shows "\<exists>c. GridParent_new iter cs E s n w e = Some c"
proof -
  obtain g where g: "\<forall>i < 3. \<forall>j < 3. built (GridParent_new iter cs) iter cs E s n w e i j = Some (g i j)" using assms(3) by metis
  let ?cells = "Three (Three (g 0 0) (g 0 1) (g 0 2)) (Three (g 1 0) (g 1 1) (g 1 2)) (Three (g 2 0) (g 2 1) (g 2 2))"
  have "child ?cells i j = g i j" if "i < 3" "j < 3" for i j
  proof -
    have "i \<in> {0, 1, 2}" "j \<in> {0, 1, 2}" using that by auto
    then show ?thesis by (auto simp: at3_def)
  qed
  then show ?thesis using g unfolding new_parent[OF assms(1,2)] by (intro exI[of _ "AParent (parent_of s n w e) ?cells"] exI[of _ ?cells]) simp
qed

lemma sparse_built:
  assumes "iterates iter" "sparse cs E0 d" "E \<subseteq> E0" "edges_ok cs E0" "s \<le> n" "w \<le> e" "n - s \<le> d * 3 ^ m" "e - w \<le> d * 3 ^ m"
  shows "\<exists>c. GridParent_new iter cs E s n w e = Some c"
  using assms(3,5-8)
proof (induction m arbitrary: E s n w e)
  case (0 E s n w e)
  let ?a = "lowerLevelBorders s n" and ?b = "lowerLevelBorders w e" and ?E = "sub_edges cs E s n w e"
  have E: "edges_ok cs E" using 0(1) assms(4) by (auto simp: edges_ok_def intro: finite_subset)
  have "card (?E i j) < EDGE_THRESHOLD" if ij: "i < 3" "j < 3" for i j
  proof -
    have "?a (i + 1) - ?a i \<le> d" "?b (j + 1) - ?b j \<le> d" using borders_step[OF 0(2) ij(1)] borders_step[OF 0(3) ij(2)] 0(2-5) by simp_all
    then have "card (edges_in cs E0 (?a i) (?a (i + 1)) (?b j) (?b (j + 1))) < EDGE_THRESHOLD"
      using assms(2) borders_mono[OF 0(2) ij(1)] borders_mono[OF 0(3) ij(2)] unfolding sparse_def by (simp add: algebra_simps)
    moreover have "card (?E i j) \<le> card (edges_in cs E0 (?a i) (?a (i + 1)) (?b j) (?b (j + 1)))"
      using 0(1) assms(4) by (intro card_mono) (auto simp: sub_edges_def edges_in_def edges_ok_def)
    ultimately show ?thesis by simp
  qed
  then show ?case by (intro built_returns[OF assms(1) E]) (auto simp: built_def build_child_def dest: leD)
next
  case (Suc m E s n w e)
  have E: "edges_ok cs E" using Suc(2) assms(4) by (auto simp: edges_ok_def intro: finite_subset)
  show ?case
  proof (rule built_returns[OF assms(1) E], intro allI impI)
    fix i j :: nat assume ij: "i < 3" "j < 3"
    let ?a = "lowerLevelBorders s n" and ?b = "lowerLevelBorders w e" and ?E = "sub_edges cs E s n w e"
    have "?a (i + 1) - ?a i \<le> d * 3 ^ m" "?b (j + 1) - ?b j \<le> d * 3 ^ m"
      using borders_step[OF Suc(3) ij(1)] borders_step[OF Suc(4) ij(2)] Suc(5,6) by simp_all
    then have "\<exists>c. GridParent_new iter cs (?E i j) (?a i) (?a (i + 1)) (?b j) (?b (j + 1)) = Some c"
      by (intro Suc.IH order_trans[OF sub_edges_subset Suc(2)] borders_mono Suc(3,4) ij)
    then show "\<exists>c. built (GridParent_new iter cs) iter cs E s n w e i j = Some c" by (simp add: built_def build_child_def)
  qed
qed


section \<open>The cells of the earth\<close>

lemma collect_list:
  "for_list is (\<lambda>i xs. do { y \<leftarrow> f i; Some (xs @ [y]) }) acc = Some ys \<longleftrightarrow> (\<exists>zs. ys = acc @ zs \<and> map f is = map Some zs)"
proof (induction "is" arbitrary: acc)
  case (Cons i "is")
  show ?case
  proof (cases "f i")
    case (Some y)
    have "(\<exists>zs. ys = (acc @ [y]) @ zs \<and> map f is = map Some zs) \<longleftrightarrow> (\<exists>zs. ys = acc @ zs \<and> map f (i # is) = map Some zs)"
      using Some by (auto simp: Cons_eq_map_conv)
    then show ?thesis using Cons.IH[of "acc @ [y]"] Some by simp
  qed (auto simp: Cons_eq_map_conv)
qed auto

lemma collect_range:
  "for_range 0 (int m) (\<lambda>i xs. do { y \<leftarrow> f i; Some (xs @ [y]) }) [] = Some ys \<longleftrightarrow> length ys = m \<and> (\<forall>i < m. f (int i) = Some (ys ! i))"
  (is "?L = Some ys \<longleftrightarrow> ?R")
proof -
  have "?L = Some ys \<longleftrightarrow> map f [0..int m - 1] = map Some ys" unfolding for_range_def collect_list by simp
  also have "\<dots> \<longleftrightarrow> ?R" by (auto simp: list_eq_iff_nth_eq)
  finally show ?thesis .
qed

definition all_edges :: "CoastlineWays \<Rightarrow> int set" where
  "all_edges cs = {0..<CoastlineWays_getNumberOfEdges cs}"

definition top_cell :: "(int set \<Rightarrow> int list) \<Rightarrow> CoastlineWays \<Rightarrow> int \<Rightarrow> int \<Rightarrow> GridCell option" where
  "top_cell iter cs i j = (let s = 10 * (real_of_int i - 9); w = 10 * (real_of_int j - 18) in
     GridParent_new iter cs (edges_in cs (all_edges cs) s (s + 10) w (w + 10)) s (s + 10) w (w + 10))"

lemma all_edges_ok: "coast_ok cs \<Longrightarrow> edges_ok cs (all_edges cs)"
  by (auto simp: coast_ok_def edges_ok_def all_edges_def)

lemma cells_top:
  assumes "coast_ok cs"
  shows "PointInWaterChecker_cells iter cs = Some grid \<longleftrightarrow> earth grid \<and> (\<forall>i < 18. \<forall>j < 36. top_cell iter cs (int i) (int j) = Some (grid ! i ! j))"
proof -
  have v: "\<forall>k \<in> set [0..CoastlineWays_getNumberOfEdges cs - 1]. edge_valid cs k" using assms by (auto simp: coast_ok_def)
  have all: "set [0..CoastlineWays_getNumberOfEdges cs - 1] = all_edges cs" by (auto simp: all_edges_def)
  have e: "PointInWaterChecker_cells iter cs = for_range 0 (int 18) (\<lambda>i g. do {
      row \<leftarrow> for_range 0 (int 36) (\<lambda>j row. do { c \<leftarrow> top_cell iter cs i j; Some (row @ [c]) }) []; Some (g @ [row]) }) []"
    unfolding PointInWaterChecker_cells_def top_cell_def Let_def for_range_def[of 0 "CoastlineWays_getNumberOfEdges cs"] edges_in_list[OF v] all by simp
  show ?thesis unfolding e collect_range earth_def by (auto simp: all_set_conv_all_nth)
qed

lemma shape_child: "shape (child cells i j) = child (map_three (map_three shape) cells) i j"
  by (cases cells; cases "th0 cells"; cases "th1 cells"; cases "th2 cells") (simp add: at3_def)

lemma cell_ok_shape: "cell_ok cs E s n w e (shape c) \<longleftrightarrow> cell_ok cs E s n w e c"
  by (induction cs E s n w e c rule: cell_ok.induct) (simp_all flip: shape_child)

lemma cell_ok_same: "cell_ok cs E s n w e c \<Longrightarrow> shape d = shape c \<Longrightarrow> cell_ok cs E s n w e d"
  by (metis cell_ok_shape)

lemma cell_ok_edges: "cell_ok cs E s n w e c \<Longrightarrow> GridCell_getAllContainedEdgeIDs c \<subseteq> E"
proof (induction cs E s n w e c rule: cell_ok.induct)
  case (2 cs E s n w e p cells)
  obtain a b c d f g h i k where cells: "cells = Three (Three a b c) (Three d f g) (Three h i k)" by (metis three.exhaust)
  have "GridCell_getAllContainedEdgeIDs (child cells i j) \<subseteq> E" if "i < 3" "j < 3" for i j using 2 that by simp
  from this[of 0 0] this[of 0 1] this[of 0 2] this[of 1 0] this[of 1 1] this[of 1 2] this[of 2 0] this[of 2 1] this[of 2 2]
  show ?case by (simp add: cells at3_def)
qed simp

definition cell_lat :: "nat \<Rightarrow> real" where
  "cell_lat i = 10 * (real i - 9)"

definition cell_lon :: "nat \<Rightarrow> real" where
  "cell_lon j = 10 * (real j - 18)"

lemma top_cell_ok:
  assumes "iterates iter" "coast_ok cs" "top_cell iter cs (int i) (int j) = Some c"
  shows "cell_ok cs (all_edges cs) (cell_lat i) (cell_lat i + 10) (cell_lon j) (cell_lon j + 10) c"
proof -
  let ?E = "edges_in cs (all_edges cs) (cell_lat i) (cell_lat i + 10) (cell_lon j) (cell_lon j + 10)"
  have b: "GridParent_new iter cs ?E (cell_lat i) (cell_lat i + 10) (cell_lon j) (cell_lon j + 10) = Some c"
    using assms(3) unfolding top_cell_def Let_def cell_lat_def cell_lon_def by simp
  have "cell_ok cs ?E (cell_lat i) (cell_lat i + 10) (cell_lon j) (cell_lon j + 10) c"
    by (rule built_ok[OF b assms(1) edges_in_ok[OF all_edges_ok[OF assms(2)]]]) simp_all
  then show ?thesis by (rule cell_ok_more) (auto simp: edges_in_def containsEdge_touches)
qed

lemma sparse_cells:
  assumes "iterates iter" "coast_ok cs" "sparse cs (all_edges cs) d"
  shows "\<exists>grid. PointInWaterChecker_cells iter cs = Some grid"
proof -
  obtain m :: nat where m: "10 / d \<le> real m" using real_arch_simple by blast
  have "real m \<le> real (3 ^ m)" unfolding of_nat_le_iff by (rule self_le_ge2_pow) simp
  then have p: "real m \<le> 3 ^ m" by simp
  have d: "0 < d" using assms(3) by (simp add: sparse_def)
  have "10 \<le> d * real m" using m d by (simp add: field_simps)
  then have m: "10 \<le> d * 3 ^ m" by (rule order_trans) (rule mult_left_mono[OF p less_imp_le[OF d]])
  have "\<exists>c. top_cell iter cs (int i) (int j) = Some c" for i j unfolding top_cell_def Let_def
    by (rule sparse_built[OF assms(1,3) _ all_edges_ok[OF assms(2)], where m = m]) (use m in \<open>auto simp: edges_in_def\<close>)
  then obtain g where g: "\<forall>i j. top_cell iter cs (int i) (int j) = Some (g i j)" by metis
  show ?thesis unfolding cells_top[OF assms(2)]
    by (intro exI[of _ "map (\<lambda>i. map (g i) [0..<36]) [0..<18]"]) (auto simp: earth_def g)
qed

text \<open>The index that is built, and the invariant of its cells.\<close>

lemma checker_built:
  assumes "iterates iter" "coast_ok cs" "PointInWaterChecker_cells iter cs = Some grid"
  obtains pw where "PointInWaterChecker_new iter cs = Some pw" "earth (pw_topLevelGrid pw)"
    "\<forall>i < 18. \<forall>j < 36. cell_ok cs (all_edges cs) (cell_lat i) (cell_lat i + 10) (cell_lon j) (cell_lon j + 10) (pw_topLevelGrid pw ! i ! j)"
    "all_edges cs = {} \<longrightarrow> (\<forall>i < 18. \<forall>j < 36. uniform False (pw_topLevelGrid pw ! i ! j))"
proof -
  have g: "earth grid" "\<forall>i < 18. \<forall>j < 36. cell_ok cs (all_edges cs) (cell_lat i) (cell_lat i + 10) (cell_lon j) (cell_lon j + 10) (grid ! i ! j)"
    using assms(3) top_cell_ok[OF assms(1,2)] unfolding cells_top[OF assms(2)] by blast+
  have v: "grid_valid cs grid" unfolding grid_valid_def
  proof (intro ballI)
    fix row c k assume r: "row \<in> set grid" "c \<in> set row" "k \<in> GridCell_getAllContainedEdgeIDs c"
    then obtain i j where "i < length grid" "row = grid ! i" "j < length row" "c = row ! j" by (metis in_set_conv_nth)
    then have ij: "i < 18" "j < 36" "c = grid ! i ! j" using g(1) by (auto simp: earth_def)
    then have "k \<in> all_edges cs" using cell_ok_edges[OF g(2)[rule_format, OF ij(1,2)]] r(3) by blast
    then show "edge_valid cs k" using all_edges_ok[OF assms(2)] by (simp add: edges_ok_def)
  qed
  obtain pw w where pw: "PointInWaterChecker_new iter cs = Some pw" "PointInWaterChecker_firstPoint cs = Some w"
    "same_grid grid (pw_topLevelGrid pw)" "quiet grid \<longrightarrow> (\<forall>i < 18. \<forall>j < 36. uniform w (pw_topLevelGrid pw ! i ! j))"
    using new_checker[OF assms g(1) v] by (elim exE conjE) (rule that)
  have "earth (pw_topLevelGrid pw)" by (rule same_grid_earth[OF pw(3) g(1)])
  moreover have "cell_ok cs (all_edges cs) (cell_lat i) (cell_lat i + 10) (cell_lon j) (cell_lon j + 10) (pw_topLevelGrid pw ! i ! j)"
    if "i < 18" "j < 36" for i j using cell_ok_same[OF g(2)[rule_format, OF that] same_grid_nth[OF pw(3) g(1) that]] .
  moreover have "uniform False (pw_topLevelGrid pw ! i ! j)" if no: "all_edges cs = {}" and ij: "i < 18" "j < 36" for i j
  proof -
    have "quiet grid" using cell_ok_edges[OF g(2)[rule_format]] no by (auto simp: quiet_def)
    moreover have "CoastlineWays_getNumberOfEdges cs = 0" using no by (simp add: all_edges_def CoastlineWays_getNumberOfEdges_def)
    then have "w = False" using pw(2) by (simp add: PointInWaterChecker_firstPoint_def for_range_def INITIAL_POINT_IN_WATER_def)
    ultimately show ?thesis using pw(4) ij by blast
  qed
  ultimately show thesis using that pw(1) by blast
qed


section \<open>Answers\<close>

text \<open>Whether the arc from a point to the center of a leaf crosses an edge.\<close>

definition crosses_edge :: "CoastlineWays \<Rightarrow> real \<Rightarrow> real \<Rightarrow> GridLeaf \<Rightarrow> int \<Rightarrow> bool" where
  "crosses_edge cs lat lon l k = (case coast_edge cs k of None \<Rightarrow> False
     | Some (a, b, c, d) \<Rightarrow> arcsIntersect lat lon (gl_latCenterPoint l) (gl_lonCenterPoint l) a b c d)"

lemma leaf_answer:
  assumes "\<forall>k \<in> set (gl_edgeIds l). edge_valid cs k"
  shows "GridLeaf_isPointInWater cs lat lon l = Some (flips (crosses_edge cs lat lon l) (gl_edgeIds l) (gl_centerPointInWater l))"
proof -
  have "for_list ids (\<lambda>idx pointInWater. do {
     sLat \<leftarrow> CoastlineWays_getStartLatByEdgeIdx cs idx; sLon \<leftarrow> CoastlineWays_getStartLonByEdgeIdx cs idx;
     dLat \<leftarrow> CoastlineWays_getDestLatByEdgeIdx cs idx; dLon \<leftarrow> CoastlineWays_getDestLonByEdgeIdx cs idx;
     Some (if arcsIntersect lat lon (gl_latCenterPoint l) (gl_lonCenterPoint l) sLat sLon dLat dLon then \<not> pointInWater else pointInWater)
   }) w = Some (flips (crosses_edge cs lat lon l) ids w)" if "\<forall>k \<in> set ids. edge_valid cs k" for ids w
    using that
  proof (induction ids arbitrary: w)
    case (Cons k ids)
    have v: "edge_valid cs k" using Cons.prems by simp
    show ?case by (rule edge_validE[OF v]) (use Cons in \<open>auto simp: crosses_edge_def flips_def\<close>)
  qed (simp add: flips_def)
  then show ?thesis using assms unfolding GridLeaf_isPointInWater_def by blast
qed

lemma map_child: "at3 (at3 (map_three (map_three f) cells) i) j = f (at3 (at3 cells i) j)"
  by (cases cells; cases "th0 cells"; cases "th1 cells"; cases "th2 cells") (simp add: at3_def)

lemma cellIdx_inside:
  assumes "a \<le> x" "x \<le> b"
  defines "i \<equiv> GridParent_cellIdx (lowerLevelBorders a b 1, lowerLevelBorders a b 2) x"
  shows "i < 3" "lowerLevelBorders a b i \<le> x" "x \<le> lowerLevelBorders a b (i + 1)"
  using assms(1,2) unfolding i_def by (auto simp: GridParent_cellIdx_def lowerLevelBorders_def Let_def)

text \<open>A cell answers from the leaf whose rectangle contains the point.\<close>

lemma cell_answer:
  assumes "cell_ok cs E s n w e c" "edges_ok cs E" "s \<le> lat" "lat \<le> n" "w \<le> lon" "lon \<le> e"
  shows "\<exists>l s n w e. l \<in> cell_leaves c \<and> s \<le> lat \<and> lat \<le> n \<and> w \<le> lon \<and> lon \<le> e \<and> cell_ok cs E s n w e (ALeaf l) \<and>
    GridCell_isPointInWater cs lat lon c = Some (flips (crosses_edge cs lat lon l) (gl_edgeIds l) (gl_centerPointInWater l))"
  using assms
proof (induction cs E s n w e c rule: cell_ok.induct)
  case (1 cs E s n w e l)
  then have "\<forall>k \<in> set (gl_edgeIds l). edge_valid cs k" by (auto simp: edges_ok_def)
  from leaf_answer[OF this, of lat lon] show ?case using 1 by (intro exI[of _ l] exI[of _ s] exI[of _ n] exI[of _ w] exI[of _ e]) auto
next
  case (2 cs E s n w e p cells)
  let ?i = "GridParent_cellIdx (gp_innerLatBorders p) lat" and ?j = "GridParent_cellIdx (gp_innerLonBorders p) lon"
  have i: "?i < 3" "lowerLevelBorders s n ?i \<le> lat" "lat \<le> lowerLevelBorders s n (?i + 1)" using cellIdx_inside[OF 2(4,5)] 2(2) by simp_all
  have j: "?j < 3" "lowerLevelBorders w e ?j \<le> lon" "lon \<le> lowerLevelBorders w e (?j + 1)" using cellIdx_inside[OF 2(6,7)] 2(2) by simp_all
  have ok: "cell_ok cs E (lowerLevelBorders s n ?i) (lowerLevelBorders s n (?i + 1)) (lowerLevelBorders w e ?j) (lowerLevelBorders w e (?j + 1)) (child cells ?i ?j)"
    using 2(2) i(1) j(1) by simp
  have l: "cell_leaves (child cells ?i ?j) \<subseteq> cell_leaves (AParent p cells)" using i(1) j(1) by auto
  have "GridCell_isPointInWater cs lat lon (AParent p cells) = GridCell_isPointInWater cs lat lon (child cells ?i ?j)" by (simp add: map_child)
  then show ?case using 2(1)[OF i(1) j(1) ok 2(3) i(2,3) j(2,3)] subsetD[OF l] by (simp only:) blast
qed

lemma remainder_cut: "0 \<le> x \<Longrightarrow> (x - remainder x 10) / 10 = real_of_int \<lfloor>x / 10\<rfloor>"
  by (simp add: remainder_def)

text \<open>Both indices: \<open>m\<close> cells of ten degrees on each side of zero.\<close>

definition side_idx :: "int \<Rightarrow> real \<Rightarrow> int" where
  "side_idx m x = (if x = 10 * real_of_int m then 2 * m - 1 else if x = - 10 * real_of_int m then 0
     else if x > 0 then \<lfloor>x / 10\<rfloor> + m else m - 1 - \<lfloor>- x / 10\<rfloor>)"

lemma idx_sides: "PointInWaterChecker_latIdx lat = side_idx 9 lat" "PointInWaterChecker_lonIdx lon = side_idx 18 lon"
proof -
  have f: "\<lfloor>real_of_int a - real_of_int b\<rfloor> = a - b" for a b by (metis floor_of_int of_int_diff)
  show "PointInWaterChecker_latIdx lat = side_idx 9 lat"
    using f[of 8 "\<lfloor>- lat / 10\<rfloor>"] by (simp add: PointInWaterChecker_latIdx_def side_idx_def Let_def remainder_cut)
  show "PointInWaterChecker_lonIdx lon = side_idx 18 lon"
    using f[of 17 "\<lfloor>- lon / 10\<rfloor>"] by (simp add: PointInWaterChecker_lonIdx_def side_idx_def Let_def remainder_cut)
qed

lemma side_idx_inside:
  assumes "0 < m" "- 10 * real_of_int m \<le> x" "x \<le> 10 * real_of_int m"
  shows "0 \<le> side_idx m x" "side_idx m x < 2 * m" "10 * (real_of_int (side_idx m x) - real_of_int m) \<le> x"
    "x \<le> 10 * (real_of_int (side_idx m x) - real_of_int m) + 10"
proof -
  define a where "a = \<lfloor>x / 10\<rfloor>" define b where "b = \<lfloor>- x / 10\<rfloor>"
  have a: "10 * real_of_int a \<le> x" "x < 10 * real_of_int a + 10" unfolding a_def by linarith+
  have b: "10 * real_of_int b \<le> - x" "- x < 10 * real_of_int b + 10" unfolding b_def by linarith+
  have ra: "0 \<le> a" "a < m" if "0 < x" "x \<noteq> 10 * real_of_int m" using a that assms by linarith+
  have rb: "0 \<le> b" "b < m" if "\<not> 0 < x" "x \<noteq> - 10 * real_of_int m" using b that assms by linarith+
  show "0 \<le> side_idx m x" "side_idx m x < 2 * m" "10 * (real_of_int (side_idx m x) - real_of_int m) \<le> x"
    "x \<le> 10 * (real_of_int (side_idx m x) - real_of_int m) + 10"
    using assms ra rb a b unfolding side_idx_def a_def[symmetric] b_def[symmetric] by (auto simp: algebra_simps)
qed


text \<open>A point of the earth lies in one of the cells.\<close>

lemma point_cell:
  assumes "\<bar>lat\<bar> \<le> 90" "\<bar>lon\<bar> \<le> 180"
  obtains i j where "i < 18" "j < 36" "PointInWaterChecker_latIdx lat = int i" "PointInWaterChecker_lonIdx lon = int j"
    "cell_lat i \<le> lat" "lat \<le> cell_lat i + 10" "cell_lon j \<le> lon" "lon \<le> cell_lon j + 10"
proof -
  have "nat (side_idx 9 lat) < 18" "nat (side_idx 18 lon) < 36" "side_idx 9 lat = int (nat (side_idx 9 lat))" "side_idx 18 lon = int (nat (side_idx 18 lon))"
    "cell_lat (nat (side_idx 9 lat)) \<le> lat" "lat \<le> cell_lat (nat (side_idx 9 lat)) + 10"
    "cell_lon (nat (side_idx 18 lon)) \<le> lon" "lon \<le> cell_lon (nat (side_idx 18 lon)) + 10"
    using side_idx_inside[of 9 lat] side_idx_inside[of 18 lon] assms by (simp_all add: cell_lat_def cell_lon_def nat_less_iff)
  then show thesis using that unfolding idx_sides by blast
qed

text \<open>The answer comes from a leaf whose rectangle contains the point.\<close>

definition answered :: "CoastlineWays \<Rightarrow> PointInWaterChecker \<Rightarrow> real \<Rightarrow> real \<Rightarrow> bool" where
  "answered cs pw lat lon \<longleftrightarrow> (\<exists>row c l s n w e. row \<in> set (pw_topLevelGrid pw) \<and> c \<in> set row \<and> l \<in> cell_leaves c \<and>
    s \<le> lat \<and> lat \<le> n \<and> w \<le> lon \<and> lon \<le> e \<and> cell_ok cs (all_edges cs) s n w e (ALeaf l) \<and>
    PointInWaterChecker_pointInWater cs pw lat lon = Some (flips (crosses_edge cs lat lon l) (gl_edgeIds l) (gl_centerPointInWater l)))"

lemma checker_answers:
  assumes "iterates iter" "coast_ok cs" "sparse cs (all_edges cs) d"
  obtains pw where "PointInWaterChecker_new iter cs = Some pw" "\<forall>lat lon. \<bar>lat\<bar> \<le> 90 \<and> \<bar>lon\<bar> \<le> 180 \<longrightarrow> answered cs pw lat lon"
    "all_edges cs = {} \<longrightarrow> (\<forall>lat lon. \<bar>lat\<bar> \<le> 90 \<and> \<bar>lon\<bar> \<le> 180 \<longrightarrow> PointInWaterChecker_pointInWater cs pw lat lon = Some False)"
proof -
  obtain grid where g: "PointInWaterChecker_cells iter cs = Some grid" using sparse_cells[OF assms] by blast
  obtain pw where pw: "PointInWaterChecker_new iter cs = Some pw" "earth (pw_topLevelGrid pw)"
    "\<forall>i < 18. \<forall>j < 36. cell_ok cs (all_edges cs) (cell_lat i) (cell_lat i + 10) (cell_lon j) (cell_lon j + 10) (pw_topLevelGrid pw ! i ! j)"
    "all_edges cs = {} \<longrightarrow> (\<forall>i < 18. \<forall>j < 36. uniform False (pw_topLevelGrid pw ! i ! j))"
    by (rule checker_built[OF assms(1,2) g])
  have "answered cs pw lat lon \<and> (all_edges cs = {} \<longrightarrow> PointInWaterChecker_pointInWater cs pw lat lon = Some False)"
    if p: "\<bar>lat\<bar> \<le> 90" "\<bar>lon\<bar> \<le> 180" for lat lon
  proof -
    obtain i j where ij: "i < 18" "j < 36" "PointInWaterChecker_latIdx lat = int i" "PointInWaterChecker_lonIdx lon = int j"
      "cell_lat i \<le> lat" "lat \<le> cell_lat i + 10" "cell_lon j \<le> lon" "lon \<le> cell_lon j + 10" by (rule point_cell[OF p])
    let ?c = "pw_topLevelGrid pw ! i ! j"
    have q: "PointInWaterChecker_pointInWater cs pw lat lon = GridCell_isPointInWater cs lat lon ?c"
      by (simp add: PointInWaterChecker_pointInWater_def ij(3,4) get_cell[OF pw(2) ij(1,2)])
    obtain l s n w e where l: "l \<in> cell_leaves ?c" "s \<le> lat" "lat \<le> n" "w \<le> lon" "lon \<le> e" "cell_ok cs (all_edges cs) s n w e (ALeaf l)"
      "GridCell_isPointInWater cs lat lon ?c = Some (flips (crosses_edge cs lat lon l) (gl_edgeIds l) (gl_centerPointInWater l))"
      using cell_answer[OF pw(3)[rule_format, OF ij(1,2)] all_edges_ok[OF assms(2)] ij(5-8)] by blast
    moreover have "pw_topLevelGrid pw ! i \<in> set (pw_topLevelGrid pw)" "?c \<in> set (pw_topLevelGrid pw ! i)"
      using earth_rows[OF pw(2) ij(1)] ij(2) by simp_all
    ultimately have "answered cs pw lat lon" unfolding answered_def q by metis
    moreover have "PointInWaterChecker_pointInWater cs pw lat lon = Some False" if no: "all_edges cs = {}"
    proof -
      have "gl_edgeIds l = []" using l(6) no by simp
      moreover have "gl_centerPointInWater l = False" using pw(4) no ij(1,2) l(1) by (simp add: uniform_def)
      ultimately show ?thesis using l(7) by (simp add: q flips_def)
    qed
    ultimately show ?thesis by blast
  qed
  then show thesis using that pw(1) by blast
qed

lemma initEdges_ok: "CoastlineWays_initEdges ways = Some cs \<Longrightarrow> coast_ok cs"
proof -
  assume c: "CoastlineWays_initEdges ways = Some cs"
  obtain cs' where cs': "CoastlineWays_initEdges ways = Some cs'" "CoastlineWays_getNumberOfEdges cs' = int (length (coast_edges ways))"
    "\<forall>k < length (coast_edges ways). coast_edge cs' (int k) = (case coast_edges ways ! k of (a, b) \<Rightarrow> Some (pt_lat a, pt_lon a, pt_lat b, pt_lon b))"
    by (rule initEdges_edges)
  have "edge_valid cs' k" if "0 \<le> k" "k < int (length (coast_edges ways))" for k
    using cs'(3)[rule_format, of "nat k"] that by (auto simp: edge_valid_def nat_less_iff split: prod.splits)
  then show "coast_ok cs" using c cs'(1,2) by (simp add: coast_ok_def)
qed

section \<open>Properties\<close>


text \<open>
  C24. The search for the status of a center point always ends, in both directions: when an endpoint of one of
  the edges is too close to the line, the line is shifted by a millionth of a degree and the pass over
  the edges is repeated, at most twice as often as there are edges. The status is the one of the origin,
  changed once for each edge that crosses the line where it is then, and no endpoint is too close to it.
\<close>

theorem center_search_ends:
  assumes "list_all (edge_valid cs) ids"
  shows "(\<exists>k y. k \<le> 2 * length ids \<and> y = x + real k * 0.000001 \<and>
      GridCell_shift (crossedLatitude cs lonA lonB) ids w x = Some (flips (\<lambda>e. crossedLatitude cs lonA lonB y e = Some (Some True)) ids w, y) \<and>
      list_all (\<lambda>e. crossedLatitude cs lonA lonB y e \<noteq> Some None) ids) \<and>
    (\<exists>k y. k \<le> 2 * length ids \<and> y = x + real k * 0.000001 \<and>
      GridCell_shift (crossedArc cs latA lonA latB) ids w x = Some (flips (\<lambda>e. crossedArc cs latA lonA latB y e = Some (Some True)) ids w, y) \<and>
      list_all (\<lambda>e. crossedArc cs latA lonA latB y e \<noteq> Some None) ids)"
proof (rule conjI)
  have v: "filter (edge_valid cs) ids = ids" using assms by (simp add: list_all_iff)
  from horizontal.shift_returns[of cs ids lonA lonB w x, unfolded v] obtain k where "k \<le> 2 * length ids"
    "GridCell_shift (crossedLatitude cs lonA lonB) ids w x =
      Some (flips (\<lambda>e. crossedLatitude cs lonA lonB (x + real k * 0.000001) e = Some (Some True)) ids w, x + real k * 0.000001)"
    "\<forall>e \<in> set ids. crossedLatitude cs lonA lonB (x + real k * 0.000001) e \<noteq> Some None" .
  then show "\<exists>k y. k \<le> 2 * length ids \<and> y = x + real k * 0.000001 \<and>
      GridCell_shift (crossedLatitude cs lonA lonB) ids w x = Some (flips (\<lambda>e. crossedLatitude cs lonA lonB y e = Some (Some True)) ids w, y) \<and>
      list_all (\<lambda>e. crossedLatitude cs lonA lonB y e \<noteq> Some None) ids" unfolding list_all_iff by blast
next
  have v: "filter (edge_valid cs) ids = ids" using assms by (simp add: list_all_iff)
  from vertical.shift_returns[of cs ids latA lonA latB w x, unfolded v] obtain k where "k \<le> 2 * length ids"
    "GridCell_shift (crossedArc cs latA lonA latB) ids w x =
      Some (flips (\<lambda>e. crossedArc cs latA lonA latB (x + real k * 0.000001) e = Some (Some True)) ids w, x + real k * 0.000001)"
    "\<forall>e \<in> set ids. crossedArc cs latA lonA latB (x + real k * 0.000001) e \<noteq> Some None" .
  then show "\<exists>k y. k \<le> 2 * length ids \<and> y = x + real k * 0.000001 \<and>
      GridCell_shift (crossedArc cs latA lonA latB) ids w x = Some (flips (\<lambda>e. crossedArc cs latA lonA latB y e = Some (Some True)) ids w, y) \<and>
      list_all (\<lambda>e. crossedArc cs latA lonA latB y e \<noteq> Some None) ids" unfolding list_all_iff by blast
qed

text \<open>
  C25. When 1000 edges or more meet in one point, the constructor of the index does not return: each cell with the
  point has to be divided again. The overflow of the stack is not caught.
\<close>

theorem crowded_point_never_built:
  assumes "iterates iter" "coast_ok cs" "\<bar>lat\<bar> \<le> 90" "\<bar>lon\<bar> \<le> 180"
    "EDGE_THRESHOLD \<le> card {k \<in> all_edges cs. touches cs lat lat lon lon k}"
  shows "PointInWaterChecker_new iter cs = None"
proof -
  obtain i j where ij: "i < 18" "j < 36" "PointInWaterChecker_latIdx lat = int i" "PointInWaterChecker_lonIdx lon = int j"
    "cell_lat i \<le> lat" "lat \<le> cell_lat i + 10" "cell_lon j \<le> lon" "lon \<le> cell_lon j + 10" by (rule point_cell[OF assms(3,4)])
  let ?E = "edges_in cs (all_edges cs) (cell_lat i) (cell_lat i + 10) (cell_lon j) (cell_lon j + 10)"
  have "{k \<in> all_edges cs. touches cs lat lat lon lon k} \<subseteq> {k \<in> ?E. touches cs lat lat lon lon k}"
    using containsEdge_touches[OF touches_larger[OF _ ij(5-8)]] by (auto simp: edges_in_def)
  then have "card {k \<in> all_edges cs. touches cs lat lat lon lon k} \<le> card {k \<in> ?E. touches cs lat lat lon lon k}"
    by (rule card_mono[rotated]) (auto simp: edges_in_def intro: finite_subset[of _ "all_edges cs"] simp: all_edges_def[of cs])
  then have "crowded cs ?E (cell_lat i) (cell_lat i + 10) (cell_lon j) (cell_lon j + 10)"
    unfolding crowded_def using ij assms(5) by (intro exI[of _ lat] exI[of _ lon]) simp
  from crowded_never[OF assms(1) edges_in_ok[OF all_edges_ok[OF assms(2)]] this]
  have "top_cell iter cs (int i) (int j) = None" by (simp add: top_cell_def Let_def cell_lat_def cell_lon_def)
  then have "PointInWaterChecker_cells iter cs \<noteq> Some grid" for grid using cells_top[OF assms(2), of iter grid] ij(1,2) by auto
  then have "PointInWaterChecker_cells iter cs = None" by blast
  then show ?thesis by (simp add: PointInWaterChecker_new_def)
qed


definition ex_point :: "real \<Rightarrow> real \<Rightarrow> Point" where
  "ex_point lat lon = \<lparr>pt_id = 0, pt_lat = lat, pt_lon = lon\<rparr>"

lemma ex_coast:
  obtains cs where "CoastlineWays_initEdges (replicate m \<lparr>cw_points = [ex_point 0 0, ex_point 1 1]\<rparr>) = Some cs"
    "all_edges cs = {0..<int m}" "\<forall>k < m. coast_edge cs (int k) = Some (0, 0, 1, 1)"
proof -
  let ?ways = "replicate m \<lparr>cw_points = [ex_point 0 0, ex_point 1 1]\<rparr>"
  have e: "coast_edges ?ways = replicate m (ex_point 0 0, ex_point 1 1)" by (induction m) (simp_all add: coast_edges_def)
  obtain cs where cs: "CoastlineWays_initEdges ?ways = Some cs" "CoastlineWays_getNumberOfEdges cs = int (length (coast_edges ?ways))"
    "\<forall>k < length (coast_edges ?ways). coast_edge cs (int k) = (case coast_edges ?ways ! k of (a, b) \<Rightarrow> Some (pt_lat a, pt_lon a, pt_lat b, pt_lon b))"
    by (rule initEdges_edges)
  have p: "pt_lat (ex_point a b) = a" "pt_lon (ex_point a b) = b" for a b by (simp_all add: ex_point_def)
  note cs' = cs(2,3)[unfolded e]
  show thesis by (rule that[OF cs(1)]) (use cs' in \<open>simp_all add: all_edges_def p\<close>)
qed

theorem center_search_ends_witness:
  "\<exists>cs k y. CoastlineWays_initEdges (replicate 3 \<lparr>cw_points = [ex_point 0 0, ex_point 1 1]\<rparr>) = Some cs \<and> k \<le> 2 * length [0, 1, 2 :: int] \<and>
     y = 0 + real k * 0.000001 \<and>
     GridCell_shift (crossedLatitude cs 0 10) [0, 1, 2] True 0 = Some (flips (\<lambda>e. crossedLatitude cs 0 10 y e = Some (Some True)) [0, 1, 2] True, y)"
proof -
  obtain cs where cs: "CoastlineWays_initEdges (replicate 3 \<lparr>cw_points = [ex_point 0 0, ex_point 1 1]\<rparr>) = Some cs"
    "\<forall>k < 3. coast_edge cs (int k) = Some (0, 0, 1, 1)" by (rule ex_coast)
  have "list_all (edge_valid cs) [0, 1, 2]" using cs(2)[rule_format, of 0] cs(2)[rule_format, of 1] cs(2)[rule_format, of 2] by (simp add: edge_valid_def)
  from center_search_ends[OF this, of 0 0 10 True] show ?thesis using cs(1) by blast
qed


theorem crowded_point_never_built_witness:
  "\<exists>cs. CoastlineWays_initEdges (replicate 1000 \<lparr>cw_points = [ex_point 0 0, ex_point 1 1]\<rparr>) = Some cs \<and>
     PointInWaterChecker_new sorted_list_of_set cs = None"
proof -
  obtain cs where cs: "CoastlineWays_initEdges (replicate 1000 \<lparr>cw_points = [ex_point 0 0, ex_point 1 1]\<rparr>) = Some cs" "all_edges cs = {0..<int 1000}"
    "\<forall>k < 1000. coast_edge cs (int k) = Some (0, 0, 1, 1)" by (rule ex_coast)
  have "touches cs 0 0 0 0 k" if "k \<in> all_edges cs" for k
    using cs(3)[rule_format, of "nat k"] that by (auto simp: cs(2) touches_def nat_less_iff)
  then have "{k \<in> all_edges cs. touches cs 0 0 0 0 k} = {0..<1000}" by (auto simp: cs(2))
  then have "EDGE_THRESHOLD \<le> card {k \<in> all_edges cs. touches cs 0 0 0 0 k}" by (simp add: EDGE_THRESHOLD_def)
  from crowded_point_never_built[OF sorted_iterates initEdges_ok[OF cs(1)] _ _ this] show ?thesis using cs(1) by simp
qed

text \<open>
  C4. The preprocessing from a PBF file that lists its nodes before its ways, when its coast lines are nowhere
  crowded: the coast lines are imported, the index is built, every test of a grid point returns, and the
  exported grid has as nodes exactly the points the index takes for water, with the edges of the
  neighbours. A later run with the stored files, whatever the PBF file is then, exports the same grid.
\<close>

theorem preprocessing_from_osm:
  assumes "iterates iter" "\<And>xss. mset (arrival xss) = mset (concat xss)"
    and "\<And>x. \<bar>x\<bar> \<le> 90 \<Longrightarrow> \<bar>fl x\<bar> \<le> 90" "\<And>x. \<bar>x\<bar> \<le> 180 \<Longrightarrow> \<bar>fl x\<bar> \<le> 180"
    and "CoastlineWays_initEdges (coast_ways fl nodes ways) = Some cs" "sparse cs (all_edges cs) d"
  shows "\<exists>pw cells g coast. PointInWaterChecker_new iter cs = Some pw \<and> distinct cells \<and>
    set cells = {(i, j). i \<le> 500 \<and> j < 2000 \<and> PointInWaterChecker_pointInWater cs pw (fl (lat_of i)) (fl (lon_of j)) = Some True} \<and>
    (\<forall>i j. i \<le> 500 \<and> j < 2000 \<longrightarrow> answered cs pw (fl (lat_of i)) (fl (lon_of j))) \<and>
    GridCreator_main fl iter arrival g0 None (Some (pbf_file nodes ways)) None =
      Some (g, Some (fmi_file [TextTok ''#''] [] (created_nodes cells) (created_edges cells)), coast, Some pw) \<and>
    GridCreator_main fl iter arrival g0 coast pbf' (Some pw) =
      Some (g, Some (fmi_file [TextTok ''#''] [] (created_nodes cells) (created_edges cells)), coast, Some pw)"
proof -
  obtain ci where ci: "CoastlineImporter_importPBF fl (pbf_file nodes ways) CoastlineImporter_new = Some (coast_ways fl nodes ways, ci)"
    using importPBF_ways by blast
  have init: "CoastlineWays_initCoastlineWays fl None (Some (pbf_file nodes ways)) = Some (cs, CoastlineWays_storeData cs)"
    by (simp add: CoastlineWays_initCoastlineWays_def ci assms(5))
  obtain pw where pw: "PointInWaterChecker_new iter cs = Some pw" "\<forall>lat lon. \<bar>lat\<bar> \<le> 90 \<and> \<bar>lon\<bar> \<le> 180 \<longrightarrow> answered cs pw lat lon"
    by (rule checker_answers[OF assms(1) initEdges_ok[OF assms(5)] assms(6)])
  let ?water = "\<lambda>lat lon. PointInWaterChecker_pointInWater cs pw (fl lat) (fl lon) = Some True"
  obtain cells g where c: "distinct cells" "set cells = water_cells ?water"
    "GridCreator_createGrid ?water arrival g0 = (g, Some (fmi_file [TextTok ''#''] [] (created_nodes cells) (created_edges cells)))"
    by (rule createGrid_file[where arrival = arrival, OF assms(2)])
  have "answered cs pw (fl (lat_of i)) (fl (lon_of j))" if "i \<le> 500" "j < 2000" for i j
    using pw(2) assms(3)[of "lat_of i"] assms(4)[of "lon_of j"] that by (simp add: lat_of_def lon_of_def abs_le_iff)
  moreover have "GridCreator_main fl iter arrival g0 None (Some (pbf_file nodes ways)) None =
      Some (g, Some (fmi_file [TextTok ''#''] [] (created_nodes cells) (created_edges cells)), CoastlineWays_storeData cs, Some pw)"
    by (simp add: GridCreator_main_def init PointInWaterChecker_initPointInWaterChecker_def pw(1) c(3))
  moreover have "GridCreator_main fl iter arrival g0 (CoastlineWays_storeData cs) pbf' (Some pw) =
      Some (g, Some (fmi_file [TextTok ''#''] [] (created_nodes cells) (created_edges cells)), CoastlineWays_storeData cs, Some pw)"
    by (simp add: GridCreator_main_def stored_coast PointInWaterChecker_initPointInWaterChecker_def c(3))
  ultimately show ?thesis using pw(1) c(1,2) unfolding water_cells_def by blast
qed

definition ex_osm_nodes :: "osm_node list" where
  "ex_osm_nodes = [\<lparr>on_id = 7, on_lat = 0, on_lon = 0\<rparr>, \<lparr>on_id = 8, on_lat = 1, on_lon = 1\<rparr>]"

definition ex_osm_ways :: "osm_way list" where
  "ex_osm_ways = [\<lparr>ow_tags = (\<lambda>k. if k = ''natural'' then Some ''coastline'' else None), ow_nodes = [7, 8, 9]\<rparr>]"

lemma ex_osm_edges: "length (coast_edges (coast_ways (\<lambda>x. x) ex_osm_nodes ex_osm_ways)) = 1"
  by (simp add: coast_edges_def coast_ways_def ex_osm_nodes_def ex_osm_ways_def CoastlineImporter_isCoastlineEntity_def known_points_def List.map_filter_simps)

theorem preprocessing_from_osm_witness:
  "\<exists>g file coast pw. GridCreator_main (\<lambda>x. x) sorted_list_of_set concat ex_pathGrid None (Some (pbf_file ex_osm_nodes ex_osm_ways)) None =
     Some (g, Some file, coast, Some pw)"
proof -
  obtain cs where cs: "CoastlineWays_initEdges (coast_ways (\<lambda>x. x) ex_osm_nodes ex_osm_ways) = Some cs" "CoastlineWays_getNumberOfEdges cs = int 1"
    by (rule initEdges_edges[of "coast_ways (\<lambda>x. x) ex_osm_nodes ex_osm_ways", unfolded ex_osm_edges])
  have "sparse cs (all_edges cs) 1" by (rule few_sparse) (simp_all add: all_edges_def cs(2) EDGE_THRESHOLD_def)
  from preprocessing_from_osm[where iter = sorted_list_of_set and arrival = concat and fl = "\<lambda>x. x" and ?g0.0 = ex_pathGrid,
      OF sorted_iterates refl _ _ cs(1) this] show ?thesis by blast
qed

text \<open>
  C26. When the PBF file cannot be read in the first run, the exception is only printed. The program goes on with
  no coast line, takes the whole earth for land and exports a grid without nodes. It also stores the
  empty coast lines and the index, so that every later run exports the empty grid again, though the
  PBF file may be there.
\<close>

theorem missing_coast_empty_grid:
  assumes "iterates iter" "\<And>xss. mset (arrival xss) = mset (concat xss)"
    and "\<And>x. \<bar>x\<bar> \<le> 90 \<Longrightarrow> \<bar>fl x\<bar> \<le> 90" "\<And>x. \<bar>x\<bar> \<le> 180 \<Longrightarrow> \<bar>fl x\<bar> \<le> 180"
  shows "\<exists>g coast pw. GridCreator_main fl iter arrival g0 None None None = Some (g, Some (fmi_file [TextTok ''#''] [] [] []), coast, Some pw) \<and>
    GridCreator_main fl iter arrival g0 coast (Some events) (Some pw) = Some (g, Some (fmi_file [TextTok ''#''] [] [] []), coast, Some pw)"
proof -
  obtain cs where cs: "CoastlineWays_initEdges [] = Some cs" "CoastlineWays_getNumberOfEdges cs = int (length (coast_edges []))"
    by (rule initEdges_edges)
  have init: "CoastlineWays_initCoastlineWays fl None None = Some (cs, CoastlineWays_storeData cs)"
    by (simp add: CoastlineWays_initCoastlineWays_def cs(1))
  have no: "all_edges cs = {}" using cs(2) by (simp add: all_edges_def coast_edges_def)
  have sparse: "sparse cs (all_edges cs) 1" by (rule few_sparse) (simp_all add: no EDGE_THRESHOLD_def)
  obtain pw where pw: "PointInWaterChecker_new iter cs = Some pw"
    "all_edges cs = {} \<longrightarrow> (\<forall>lat lon. \<bar>lat\<bar> \<le> 90 \<and> \<bar>lon\<bar> \<le> 180 \<longrightarrow> PointInWaterChecker_pointInWater cs pw lat lon = Some False)"
    by (rule checker_answers[OF assms(1) initEdges_ok[OF cs(1)] sparse])
  let ?water = "\<lambda>lat lon. PointInWaterChecker_pointInWater cs pw (fl lat) (fl lon) = Some True"
  have "\<not> ?water (lat_of i) (lon_of j)" if "i \<le> 500" "j < 2000" for i j
    using pw(2) no assms(3)[of "lat_of i"] assms(4)[of "lon_of j"] that by (simp add: lat_of_def lon_of_def abs_le_iff)
  then have "water_cells ?water = {}" unfolding water_cells_def by blast
  moreover obtain cells g where c: "set cells = water_cells ?water"
    "GridCreator_createGrid ?water arrival g0 = (g, Some (fmi_file [TextTok ''#''] [] (created_nodes cells) (created_edges cells)))"
    by (rule createGrid_file[where arrival = arrival, OF assms(2)])
  ultimately have "GridCreator_createGrid ?water arrival g0 = (g, Some (fmi_file [TextTok ''#''] [] [] []))"
    by (simp add: created_nodes_def created_edges_def)
  then have "GridCreator_main fl iter arrival g0 None None None = Some (g, Some (fmi_file [TextTok ''#''] [] [] []), CoastlineWays_storeData cs, Some pw)"
    "GridCreator_main fl iter arrival g0 (CoastlineWays_storeData cs) (Some events) (Some pw) =
      Some (g, Some (fmi_file [TextTok ''#''] [] [] []), CoastlineWays_storeData cs, Some pw)"
    by (simp_all add: GridCreator_main_def init stored_coast PointInWaterChecker_initPointInWaterChecker_def pw(1))
  then show ?thesis by blast
qed

theorem missing_coast_empty_grid_witness:
  "\<exists>g coast pw. GridCreator_main (\<lambda>x. x) sorted_list_of_set concat ex_pathGrid None None None = Some (g, Some (fmi_file [TextTok ''#''] [] [] []), coast, Some pw)"
  using missing_coast_empty_grid[where iter = sorted_list_of_set and arrival = concat and fl = "\<lambda>x. x" and ?g0.0 = ex_pathGrid, OF sorted_iterates refl]
  by blast


end
