(* ===== verification/Benchmark.thy ===== *)
theory Benchmark
  imports RoutingService
begin

text \<open>
  The benchmark run of \<open>SearouterApplication.java\<close>, \<open>test\<close>: random requests are routed one after the other
  and the calculation times and distances are collected. The numbers of \<open>Random.nextDouble\<close> are the
  parameter \<open>nextDouble\<close>, the readings of the clock the parameters \<open>startTime\<close> and \<open>endTime\<close>; the
  result is what is printed at the end.
\<close>

section \<open>The collected data\<close>

record test_data =
  td_calcTime :: "real list"
  td_minCalcTime :: real
  td_maxCalcTime :: real
  td_routesFound :: int
  td_noRoutePossible :: int
  td_distances :: "int list"

definition test_data_new :: test_data where
  "test_data_new = \<lparr>td_calcTime = [], td_minCalcTime = DOUBLE_MAX_VALUE, td_maxCalcTime = -1, td_routesFound = 0, td_noRoutePossible = 0, td_distances = []\<rparr>"

definition test_addTime :: "real \<Rightarrow> test_data \<Rightarrow> test_data" where
  "test_addTime time td =
     (let td = (if time < td_minCalcTime td then td\<lparr>td_minCalcTime := time\<rparr>
                else if time > td_maxCalcTime td then td\<lparr>td_maxCalcTime := time\<rparr> else td)
      in td\<lparr>td_calcTime := td_calcTime td @ [time]\<rparr>)"

definition test_addResult :: "bool \<Rightarrow> RoutingResult option \<Rightarrow> test_data \<Rightarrow> test_data" where
  "test_addResult IGNORE_RES_NO_ROUTE res td = (case res of
     None \<Rightarrow> td
   | Some res \<Rightarrow>
       if RoutingResult_getOverallDistance res = -1
       then (let td = td\<lparr>td_noRoutePossible := td_noRoutePossible td + 1\<rparr>
             in if \<not> IGNORE_RES_NO_ROUTE then test_addTime (rr_calculationTimeInMs res) td else td)
       else test_addTime (rr_calculationTimeInMs res)
              (td\<lparr>td_distances := td_distances td @ [RoutingResult_getOverallDistance res], td_routesFound := td_routesFound td + 1\<rparr>))"

definition average :: "real list \<Rightarrow> real" where
  "average xs = (if xs = [] then -1 else sum_list xs / real (length xs))"

section \<open>The run\<close>

definition test_latitudes :: "(nat \<Rightarrow> real) \<Rightarrow> nat \<Rightarrow> real list" where
  "test_latitudes nextDouble testNum = map (\<lambda>i. -90 + (90 - (-90)) * nextDouble (2 * i)) [0..<2 * testNum]"

definition test_longitudes :: "(nat \<Rightarrow> real) \<Rightarrow> nat \<Rightarrow> real list" where
  "test_longitudes nextDouble testNum = map (\<lambda>i. -180 + (180 - (-180)) * nextDouble (2 * i + 1)) [0..<2 * testNum]"

definition test_request :: "real list \<Rightarrow> real list \<Rightarrow> int \<Rightarrow> RoutingRequest option" where
  "test_request lats longs i = do {
     a \<leftarrow> aget lats (i * 2);
     b \<leftarrow> aget longs (i * 2);
     c \<leftarrow> aget lats (i * 2 + 1);
     d \<leftarrow> aget longs (i * 2 + 1);
     Some \<lparr>rq_startPoint = \<lparr>ll_latitude = a, ll_longitude = b\<rparr>, rq_endPoint = \<lparr>ll_latitude = c, ll_longitude = d\<rparr>\<rparr>
   }"

definition SearouterApplication_test ::
    "bool \<Rightarrow> (nat \<Rightarrow> real) \<Rightarrow> (int \<Rightarrow> int) \<Rightarrow> (int \<Rightarrow> int) \<Rightarrow> world \<Rightarrow> RoutingController \<Rightarrow> nat \<Rightarrow> (test_data \<times> real \<times> real) option" where
  "SearouterApplication_test IGNORE_RES_NO_ROUTE nextDouble startTime endTime w controller testNum = do {
     let lats = test_latitudes nextDouble testNum;
     let longs = test_longitudes nextDouble testNum;
     (td, controller) \<leftarrow> for_range 0 (int testNum) (\<lambda>i (td, controller). do {
         rq \<leftarrow> test_request lats longs i;
         (res, controller) \<leftarrow> RoutingController_getRoutingResult w (startTime i) (endTime i) controller rq;
         Some (test_addResult IGNORE_RES_NO_ROUTE res td, controller)
       }) (test_data_new, controller);
     Some (td, average (td_calcTime td), average (map real_of_int (td_distances td)))
   }"

definition TEST_NUM_OF_ROUTES :: nat where
  "TEST_NUM_OF_ROUTES = 100000"

text \<open>\<open>main\<close> with its last branch; \<open>None\<close> inside the result stands for the start of the web server.\<close>

definition SearouterApplication_start ::
    "bool \<Rightarrow> bool \<Rightarrow> bool \<Rightarrow> (nat \<Rightarrow> real) \<Rightarrow> (int \<Rightarrow> int) \<Rightarrow> (int \<Rightarrow> int) \<Rightarrow> (adjacence_map \<Rightarrow> adjacence_map) \<Rightarrow> HubLStore option \<Rightarrow>
     fmi_line list option \<Rightarrow> world \<Rightarrow> (world \<times> RoutingController \<times> (test_data \<times> real \<times> real) option) option" where
  "SearouterApplication_start USE_HUB_LABEL_ROUTER IS_TEST_RUN IGNORE_RES_NO_ROUTE nextDouble startTime endTime entryOrder labelFile gridFile w = do {
     (w, c) \<leftarrow> SearouterApplication_main USE_HUB_LABEL_ROUTER entryOrder labelFile gridFile w;
     if IS_TEST_RUN then do {
       printed \<leftarrow> SearouterApplication_test IGNORE_RES_NO_ROUTE nextDouble startTime endTime w c TEST_NUM_OF_ROUTES;
       Some (w, c, Some printed)
     } else Some (w, c, None)
   }"

section \<open>What the numbers mean\<close>

text \<open>
  The smallest time is right. The largest is not looked for among the times that are smaller than all
  before them, so that it is too small, or still -1, when the largest time is such a one: the first.
\<close>

definition test_times :: "real list \<Rightarrow> test_data \<Rightarrow> test_data" where
  "test_times ts td = foldl (\<lambda>td t. test_addTime t td) td ts"

lemma test_times_snoc: "test_times (ts @ [t]) td = test_addTime t (test_times ts td)"
  by (simp add: test_times_def)

lemma test_times_all: "td_calcTime (test_times ts td) = td_calcTime td @ ts"
  by (induction ts rule: rev_induct) (simp_all add: test_times_snoc test_addTime_def Let_def test_times_def)

lemma min_time: "td_minCalcTime (test_times ts td) = foldl min (td_minCalcTime td) ts"
  by (induction ts rule: rev_induct) (auto simp: test_times_snoc test_addTime_def Let_def test_times_def)

lemma foldl_min_in: "foldl min m ts \<in> insert m (set ts)" for m :: real
  by (induction ts arbitrary: m) (auto simp: min_def split: if_splits)

lemma max_time_falling:
  assumes "sorted_wrt (\<lambda>a b. b < a) ts" "\<forall>t \<in> set ts. t < DOUBLE_MAX_VALUE"
  shows "td_maxCalcTime (test_times ts test_data_new) = -1"
  using assms
proof (induction ts rule: rev_induct)
  case (snoc t ts)
  have "td_minCalcTime (test_times ts test_data_new) \<in> insert DOUBLE_MAX_VALUE (set ts)"
    using foldl_min_in[of DOUBLE_MAX_VALUE ts] by (simp add: min_time test_data_new_def)
  then have "t < td_minCalcTime (test_times ts test_data_new)" using snoc.prems by (auto simp: sorted_wrt_append)
  then show ?case using snoc by (simp add: test_times_snoc test_addTime_def Let_def sorted_wrt_append)
qed (simp add: test_times_def test_data_new_def)

text \<open>A request whose points have the same nearest node counts as one without a route, with the time -1.\<close>

lemma same_node_no_route: "test_addResult False (Some RoutingResult_empty) td = test_addTime (-1) (td\<lparr>td_noRoutePossible := td_noRoutePossible td + 1\<rparr>)"
  by (simp add: test_addResult_def RoutingResult_empty_def RoutingResult_default_def RoutingResult_getOverallDistance_def)

text \<open>A whole run: the printed values are those of the times of the results that count.\<close>

definition recorded_times :: "bool \<Rightarrow> RoutingResult option list \<Rightarrow> real list" where
  "recorded_times ignore rs = map (\<lambda>r. rr_calculationTimeInMs (the r))
     (filter (\<lambda>r. r \<noteq> None \<and> (\<not> ignore \<or> RoutingResult_getOverallDistance (the r) \<noteq> -1)) rs)"

definition same_times :: "test_data \<Rightarrow> test_data \<Rightarrow> bool" where
  "same_times a b \<longleftrightarrow> td_calcTime a = td_calcTime b \<and> td_minCalcTime a = td_minCalcTime b \<and> td_maxCalcTime a = td_maxCalcTime b"

lemma same_times_add: "same_times a b \<Longrightarrow> same_times (test_addTime t a) (test_addTime t b)"
  by (simp add: same_times_def test_addTime_def Let_def)

lemma results_times:
  "same_times (foldl (\<lambda>td r. test_addResult ignore r td) td rs) (test_times (recorded_times ignore rs) td)"
proof (induction rs rule: rev_induct)
  case Nil
  then show ?case by (simp add: recorded_times_def test_times_def same_times_def)
next
  case (snoc r rs)
  have rec: "recorded_times ignore (rs @ [r]) = recorded_times ignore rs @ recorded_times ignore [r]" by (simp add: recorded_times_def)
  have more: "test_times (ts @ ts') td = test_times ts' (test_times ts td)" for ts ts' by (simp add: test_times_def)
  have "same_times (test_addResult ignore r a) (test_times (recorded_times ignore [r]) b)" if "same_times a b" for a b
    using that by (cases r) (auto simp: test_addResult_def recorded_times_def test_times_def Let_def same_times_def test_addTime_def)
  then show ?case using snoc unfolding rec more by simp
qed

lemma test_printed:
  assumes "SearouterApplication_test ignore nextDouble startTime endTime w c n = Some (td, avgTime, avgDist)"
  shows "\<exists>rs. length rs = n \<and> td_calcTime td = recorded_times ignore rs \<and> avgTime = average (recorded_times ignore rs) \<and>
    td_minCalcTime td = foldl min DOUBLE_MAX_VALUE (recorded_times ignore rs) \<and>
    td_maxCalcTime td = td_maxCalcTime (test_times (recorded_times ignore rs) test_data_new)"
proof -
  let ?step = "\<lambda>i (td, controller). do {
         rq \<leftarrow> test_request (test_latitudes nextDouble n) (test_longitudes nextDouble n) i;
         (res, controller) \<leftarrow> RoutingController_getRoutingResult w (startTime i) (endTime i) controller rq;
         Some (test_addResult ignore res td, controller) }"
  obtain c' where run: "for_range 0 (int n) ?step (test_data_new, c) = Some (td, c')" and avg: "avgTime = average (td_calcTime td)"
    using assms by (auto simp: SearouterApplication_test_def Let_def bind_eq_Some_conv)
  have "\<exists>rs. int (length rs) = int n \<and> fst (td, c') = foldl (\<lambda>td r. test_addResult ignore r td) test_data_new rs"
  proof (rule for_range_inv[OF run, where I = "\<lambda>i st. \<exists>rs. int (length rs) = i \<and> fst st = foldl (\<lambda>td r. test_addResult ignore r td) test_data_new rs"])
    fix i s s' assume I: "\<exists>rs. int (length rs) = i \<and> fst s = foldl (\<lambda>td r. test_addResult ignore r td) test_data_new rs" and st: "?step i s = Some s'"
    obtain rs where rs: "int (length rs) = i" "fst s = foldl (\<lambda>td r. test_addResult ignore r td) test_data_new rs" using I by blast
    obtain r where "fst s' = test_addResult ignore r (fst s)" using st by (cases s) (auto simp: bind_eq_Some_conv)
    then show "\<exists>rs. int (length rs) = i + 1 \<and> fst s' = foldl (\<lambda>td r. test_addResult ignore r td) test_data_new rs"
      using rs by (intro exI[of _ "rs @ [r]"]) simp
  qed simp_all
  then obtain rs where rs: "length rs = n" "td = foldl (\<lambda>td r. test_addResult ignore r td) test_data_new rs" by auto
  have "same_times td (test_times (recorded_times ignore rs) test_data_new)" unfolding rs(2) by (rule results_times)
  then show ?thesis using rs(1) avg unfolding same_times_def test_times_all min_time by (auto simp: test_data_new_def)
qed


end
