(* ===== verification/JsValues.thy ===== *)
theory JsValues
  imports Main "HOL-Library.Monad_Syntax"
begin

text \<open>
  The part of JavaScript the browser client uses: decimal numbers, their text, \<open>parseFloat\<close>,
  the conversion of a string operand to a number, \<open>split(" ")\<close> and the remainder.

  A number is a decimal \<open>Dec m k\<close>, the value m / 10^k: the decimal a number prints as.
  Arithmetic on decimals is exact; rounding, exponents and Infinity are not modelled.
  \<open>JNaN\<close> and \<open>JUndef\<close> are NaN and undefined.
\<close>

datatype jsnum = Dec int nat

datatype jsval = JNum jsnum | JNaN | JStr string | JUndef

section \<open>Digits\<close>

definition digit_char :: "nat \<Rightarrow> char" where
  "digit_char d = char_of (48 + d)"

definition is_digit :: "char \<Rightarrow> bool" where
  "is_digit c \<longleftrightarrow> 48 \<le> (of_char c :: nat) \<and> (of_char c :: nat) \<le> 57"

definition digit_val :: "char \<Rightarrow> nat" where
  "digit_val c = of_char c - 48"

fun nat_str :: "nat \<Rightarrow> string" where
  "nat_str n = (if n < 10 then [digit_char n] else nat_str (n div 10) @ [digit_char (n mod 10)])"

declare nat_str.simps [simp del]

definition digits_val :: "string \<Rightarrow> nat" where
  "digits_val s = foldl (\<lambda>a c. 10 * a + digit_val c) 0 s"

lemma digit_char_val: "d < 10 \<Longrightarrow> is_digit (digit_char d) \<and> digit_val (digit_char d) = d"
  by (simp add: is_digit_def digit_char_def digit_val_def of_char_of)

lemma nat_str_digits: "(\<forall>c \<in> set (nat_str n). is_digit c) \<and> digits_val (nat_str n) = n \<and> nat_str n \<noteq> []"
proof (induction n rule: nat_str.induct)
  case (1 n)
  show ?case
  proof (cases "n < 10")
    case True
    then show ?thesis by (subst (1 2 3) nat_str.simps) (simp add: digits_val_def digit_char_val)
  next
    case False
    have "digit_val (digit_char (n mod 10)) = n mod 10" "is_digit (digit_char (n mod 10))"
      using digit_char_val[of "n mod 10"] by auto
    with 1 False show ?thesis by (subst (1 2 3) nat_str.simps) (auto simp: digits_val_def)
  qed
qed

lemma digits_val_zeros: "digits_val (replicate k (digit_char 0) @ s) = digits_val s"
proof -
  have "foldl (\<lambda>a c. 10 * a + digit_val c) 0 (replicate k (digit_char 0)) = 0"
    by (induction k) (simp_all add: digit_char_val)
  then show ?thesis by (simp add: digits_val_def)
qed

section \<open>Text of a number\<close>

fun dec_norm :: "int \<Rightarrow> nat \<Rightarrow> jsnum" where
  "dec_norm m 0 = Dec m 0"
| "dec_norm m (Suc k) = (if m mod 10 = 0 then dec_norm (m div 10) k else Dec m (Suc k))"

fun jsnum_norm :: "jsnum \<Rightarrow> jsnum" where
  "jsnum_norm (Dec m k) = dec_norm m k"

definition pad_left :: "nat \<Rightarrow> string \<Rightarrow> string" where
  "pad_left n s = replicate (n - length s) (digit_char 0) @ s"

fun dec_str :: "jsnum \<Rightarrow> string" where
  "dec_str (Dec m k) =
     (let s = pad_left (Suc k) (nat_str (nat \<bar>m\<bar>)); n = length s - k
      in (if m < 0 then ''-'' else []) @ take n s @ (if k = 0 then [] else CHR ''.'' # drop n s))"

text \<open>\<open>"" + x\<close> for a number \<open>x\<close>.\<close>

definition num_str :: "jsnum \<Rightarrow> string" where
  "num_str x = dec_str (jsnum_norm x)"

text \<open>The longest numeral at the front of a string, and what follows it.\<close>

definition scan_unsigned :: "string \<Rightarrow> (nat \<times> nat \<times> string) option" where
  "scan_unsigned s =
     (let ip = takeWhile is_digit s; r = dropWhile is_digit s in
      case r of
        c # r' \<Rightarrow>
          if c = CHR ''.'' \<and> (ip \<noteq> [] \<or> takeWhile is_digit r' \<noteq> [])
          then Some (digits_val (ip @ takeWhile is_digit r'), length (takeWhile is_digit r'), dropWhile is_digit r')
          else if ip = [] then None else Some (digits_val ip, 0, r)
      | [] \<Rightarrow> if ip = [] then None else Some (digits_val ip, 0, []))"

definition scan_num :: "string \<Rightarrow> (jsnum \<times> string) option" where
  "scan_num s =
     (case s of
        c # r \<Rightarrow>
          if c = CHR ''-'' then map_option (\<lambda>(v, k, rest). (Dec (- int v) k, rest)) (scan_unsigned r)
          else if c = CHR ''+'' then map_option (\<lambda>(v, k, rest). (Dec (int v) k, rest)) (scan_unsigned r)
          else map_option (\<lambda>(v, k, rest). (Dec (int v) k, rest)) (scan_unsigned s)
      | [] \<Rightarrow> None)"

definition is_space :: "char \<Rightarrow> bool" where
  "is_space c \<longleftrightarrow> c = CHR '' '' \<or> c = CHR 0x09 \<or> c = CHR 0x0A \<or> c = CHR 0x0B \<or> c = CHR 0x0C \<or> c = CHR 0x0D"

definition parseFloat :: "jsval \<Rightarrow> jsval" where
  "parseFloat v = (case v of
       JNum x \<Rightarrow> JNum x
     | JStr s \<Rightarrow> (case scan_num (dropWhile is_space s) of Some (x, _) \<Rightarrow> JNum x | None \<Rightarrow> JNaN)
     | _ \<Rightarrow> JNaN)"

text \<open>The conversion of an operand of a comparison or of the remainder; \<open>None\<close> is NaN.\<close>

definition to_number :: "jsval \<Rightarrow> jsnum option" where
  "to_number v = (case v of
       JNum x \<Rightarrow> Some x
     | JNaN \<Rightarrow> None
     | JUndef \<Rightarrow> None
     | JStr s \<Rightarrow>
         (let t = rev (dropWhile is_space (rev (dropWhile is_space s))) in
          if t = [] then Some (Dec 0 0)
          else case scan_num t of Some (x, []) \<Rightarrow> Some x | _ \<Rightarrow> None))"

section \<open>Arithmetic\<close>

fun num_less :: "jsnum \<Rightarrow> jsnum \<Rightarrow> bool" where
  "num_less (Dec m k) (Dec n l) \<longleftrightarrow> m * 10 ^ l < n * 10 ^ k"

fun num_add :: "jsnum \<Rightarrow> jsnum \<Rightarrow> jsnum" where
  "num_add (Dec m k) (Dec n l) = Dec (m * 10 ^ l + n * 10 ^ k) (k + l)"

definition int_rem :: "int \<Rightarrow> int \<Rightarrow> int" where
  "int_rem a b = sgn a * (\<bar>a\<bar> mod \<bar>b\<bar>)"

fun num_rem :: "jsnum \<Rightarrow> jsnum \<Rightarrow> jsnum" where
  "num_rem (Dec m k) (Dec n l) = Dec (int_rem (m * 10 ^ l) (n * 10 ^ k)) (k + l)"

definition js_less :: "jsval \<Rightarrow> jsval \<Rightarrow> bool" where
  "js_less a b = (case (to_number a, to_number b) of (Some x, Some y) \<Rightarrow> num_less x y | _ \<Rightarrow> False)"

definition js_rem :: "jsval \<Rightarrow> jsval \<Rightarrow> jsval" where
  "js_rem a b = (case (to_number a, to_number b) of (Some x, Some y) \<Rightarrow> JNum (num_rem x y) | _ \<Rightarrow> JNaN)"

definition js_plus :: "jsval \<Rightarrow> jsval \<Rightarrow> jsval" where
  "js_plus a b = (case (to_number a, to_number b) of (Some x, Some y) \<Rightarrow> JNum (num_add x y) | _ \<Rightarrow> JNaN)"

section \<open>Splitting\<close>

fun js_split :: "string \<Rightarrow> string list" where
  "js_split [] = [[]]"
| "js_split (c # s) = (if c = CHR '' '' then [] # js_split s
     else case js_split s of [] \<Rightarrow> [[c]] | w # ws \<Rightarrow> (c # w) # ws)"

definition js_index :: "string list \<Rightarrow> nat \<Rightarrow> jsval" where
  "js_index ws i = (if i < length ws then JStr (ws ! i) else JUndef)"

lemma js_split_nonempty: "js_split s \<noteq> []"
  by (induction s) (auto split: list.splits)

lemma js_split_word:
  assumes "CHR '' '' \<notin> set w"
  shows "js_split (w @ CHR '' '' # s) = w # js_split s" and "js_split w = [w]"
  using assms by (induction w) auto

section \<open>Printing and parsing\<close>

lemma pad_left_digits:
  "(\<forall>c \<in> set (pad_left n (nat_str v)). is_digit c) \<and> digits_val (pad_left n (nat_str v)) = v \<and>
   n \<le> length (pad_left n (nat_str v))"
  using nat_str_digits[of v] digit_char_val[of 0] by (auto simp: pad_left_def digits_val_zeros)

lemma scan_unsigned_dec:
  assumes "\<forall>c \<in> set ds. is_digit c" "k < length ds" "rest = [] \<or> \<not> is_digit (hd rest) \<and> hd rest \<noteq> CHR ''.''"
  shows "scan_unsigned (take (length ds - k) ds @ (if k = 0 then [] else CHR ''.'' # drop (length ds - k) ds) @ rest)
    = Some (digits_val ds, k, rest)"
proof -
  let ?n = "length ds - k"
  have dot: "\<not> is_digit (CHR ''.'')" by code_simp
  have ip: "\<forall>c \<in> set (take ?n ds). is_digit c" "take ?n ds \<noteq> []" and fp: "\<forall>c \<in> set (drop ?n ds). is_digit c"
    using assms(1,2) by (auto dest: in_set_takeD in_set_dropD)
  have tw: "takeWhile is_digit (xs @ rest) = xs" "dropWhile is_digit (xs @ rest) = rest"
    if "\<forall>c \<in> set xs. is_digit c" for xs
    using that assms(3) by (cases rest; simp add: takeWhile_append2 dropWhile_append2)+
  show ?thesis
  proof (cases "k = 0")
    case True
    then have t: "takeWhile is_digit (ds @ rest) = ds" "dropWhile is_digit (ds @ rest) = rest" "ds \<noteq> []"
      using tw[OF ip(1)] ip(2) by simp_all
    have "scan_unsigned (ds @ rest) = Some (digits_val ds, 0, rest)"
      unfolding scan_unsigned_def Let_def t(1,2) using assms(3) t(3) by (cases rest) simp_all
    then show ?thesis using True by simp
  next
    case False
    have "takeWhile is_digit (take ?n ds @ CHR ''.'' # drop ?n ds @ rest) = take ?n ds"
      "dropWhile is_digit (take ?n ds @ CHR ''.'' # drop ?n ds @ rest) = CHR ''.'' # drop ?n ds @ rest"
      using ip(1) dot by (simp_all add: takeWhile_append2 dropWhile_append2)
    then show ?thesis using tw[OF fp] ip(2) False assms(2) by (simp add: scan_unsigned_def)
  qed
qed

lemma scan_dec_str:
  assumes "rest = [] \<or> \<not> is_digit (hd rest) \<and> hd rest \<noteq> CHR ''.''"
  shows "scan_num (dec_str x @ rest) = Some (x, rest)"
proof (cases x)
  case (Dec m k)
  let ?ds = "pad_left (Suc k) (nat_str (nat \<bar>m\<bar>))"
  let ?u = "take (length ?ds - k) ?ds @ (if k = 0 then [] else CHR ''.'' # drop (length ?ds - k) ?ds) @ rest"
  note p = pad_left_digits[of "Suc k" "nat \<bar>m\<bar>"]
  have u: "scan_unsigned ?u = Some (nat \<bar>m\<bar>, k, rest)" using scan_unsigned_dec[of ?ds k rest] p assms by simp
  obtain c r where cr: "?u = c # r" "is_digit c" using p
    by (cases ?ds) (auto simp: Suc_le_eq take_Cons' split: if_splits)
  have nd: "\<not> is_digit (CHR ''-'')" "\<not> is_digit (CHR ''+'')" by code_simp+
  show ?thesis
  proof (cases "m < 0")
    case True
    have "dec_str x @ rest = CHR ''-'' # ?u" using True by (simp add: Dec Let_def)
    then show ?thesis using u True by (simp add: scan_num_def Dec)
  next
    case False
    have "c \<noteq> CHR ''-''" "c \<noteq> CHR ''+''" using cr(2) nd by metis+
    then have "scan_num (c # r) = Some (Dec (int (nat \<bar>m\<bar>)) k, rest)"
      using u unfolding cr(1) by (simp add: scan_num_def)
    moreover have "dec_str x @ rest = c # r" unfolding cr(1)[symmetric] using False by (simp add: Dec Let_def)
    ultimately show ?thesis using False by (simp add: Dec)
  qed
qed

lemma dec_str_chars: "c \<in> set (dec_str x) \<Longrightarrow> is_digit c \<or> c = CHR ''-'' \<or> c = CHR ''.''"
proof (cases x)
  case (Dec m k)
  moreover assume "c \<in> set (dec_str x)"
  ultimately show ?thesis using pad_left_digits[of "Suc k" "nat \<bar>m\<bar>"]
    by (auto simp: Let_def dest: in_set_takeD in_set_dropD split: if_splits)
qed

lemma num_str_no_blank: "CHR '' '' \<notin> set (num_str x)"
proof
  assume "CHR '' '' \<in> set (num_str x)"
  then have "is_digit (CHR '' '') \<or> CHR '' '' = CHR ''-'' \<or> CHR '' '' = CHR ''.''"
    unfolding num_str_def by (rule dec_str_chars)
  moreover have "\<not> is_digit (CHR '' '')" by code_simp
  ultimately show False by simp
qed

lemma num_str_no_space: "dropWhile is_space (num_str x) = num_str x \<and> dropWhile is_space (rev (num_str x)) = rev (num_str x)"
proof -
  have sp: "\<not> is_space c" if "c \<in> set (num_str x)" for c
  proof -
    have "is_digit c \<or> c = CHR ''-'' \<or> c = CHR ''.''" using that dec_str_chars by (simp add: num_str_def)
    then show ?thesis by (auto simp: is_space_def is_digit_def)
  qed
  have d: "dropWhile is_space xs = xs" if "\<forall>c \<in> set xs. \<not> is_space c" for xs using that by (cases xs) auto
  show ?thesis by (intro conjI d) (use sp in auto)
qed

text \<open>A number survives being printed and read back, as a float or as an operand.\<close>

lemma parseFloat_num_str: "parseFloat (JStr (num_str x)) = JNum (jsnum_norm x)"
  using scan_dec_str[of "[]" "jsnum_norm x"] num_str_no_space[of x] by (simp add: parseFloat_def num_str_def)

lemma to_number_num_str: "to_number (JStr (num_str x)) = Some (jsnum_norm x)"
proof -
  have "num_str x \<noteq> []" using scan_dec_str[of "[]" "jsnum_norm x"] by (auto simp: num_str_def scan_num_def)
  then show ?thesis
    using scan_dec_str[of "[]" "jsnum_norm x"] num_str_no_space[of x] by (simp add: to_number_def num_str_def)
qed

end
