(* ===== verification/Frontend.thy ===== *)
theory Frontend
  imports JsValues
begin

text \<open>
  The browser client under \<open>vue-frontend/\<close>: the routing window
  (\<open>src/components/RoutingWindow.vue\<close>).

  The component's \<open>data()\<close> is a record; its methods, the map's click handler, the two
  watchers and the two halves of \<open>calcRoute\<close> (the request it sends and what it does with
  the answer) are functions on it. A null or undefined dereference, a TypeError of the
  source, is \<open>None\<close>. The map library is a parameter: a record of its functions that add a
  layer to a map and remove it, with the documented effect as the hypothesis \<open>leaflet_ok\<close>.
  A layer carries a number that stands for the identity of the created object.

  \<open>rw_step\<close> lists what can happen to the mounted component, in any order: the user's
  clicks and edits, an answer of the server, and the run of a watcher.
\<close>

section \<open>Layers and the map library\<close>

datatype layer =
    Tile
  | Marker nat "jsval \<times> jsval" string
  | Polyline nat "jsnum list list" string

record 'm leaflet =
  lf_map :: 'm
  lf_addTo :: "layer \<Rightarrow> 'm \<Rightarrow> 'm"
  lf_remove :: "layer \<Rightarrow> 'm \<Rightarrow> 'm"

definition leaflet_ok :: "'m leaflet \<Rightarrow> ('m \<Rightarrow> layer set) \<Rightarrow> bool" where
  "leaflet_ok lf layers \<longleftrightarrow> layers (lf_map lf) = {} \<and>
     (\<forall>l m. layers (lf_addTo lf l m) = insert l (layers m)) \<and>
     (\<forall>l m. layers (lf_remove lf l m) = layers m - {l})"

section \<open>RoutingWindow\<close>

record server_answer =
  sa_routeFound :: bool
  sa_overallDistance :: jsnum
  sa_calculationTimeInMs :: jsnum
  sa_pathCoordinates :: "jsnum list list option"

datatype response = Answer server_answer | Failure string

record 'm RoutingWindow =
  rw_chooseStartPointActive :: bool
  rw_chooseTargetPointActive :: bool
  rw_startPoint :: "string option"
  rw_startMarker :: "layer option"
  rw_targetPoint :: "string option"
  rw_targetMarker :: "layer option"
  rw_route :: "layer option"
  rw_map :: "'m option"
  rw_markers :: "layer list option"
  rw_responseData :: "server_answer option"
  rw_alerts :: "string list"
  rw_created :: nat

definition RoutingWindow_data :: "'m RoutingWindow" where
  "RoutingWindow_data = \<lparr>rw_chooseStartPointActive = False, rw_chooseTargetPointActive = False,
     rw_startPoint = None, rw_startMarker = None, rw_targetPoint = None, rw_targetMarker = None,
     rw_route = None, rw_map = None, rw_markers = None, rw_responseData = None, rw_alerts = [], rw_created = 0\<rparr>"

definition RoutingWindow_setupLeafletMap :: "'m leaflet \<Rightarrow> 'm RoutingWindow \<Rightarrow> 'm RoutingWindow" where
  "RoutingWindow_setupLeafletMap lf w =
     w\<lparr>rw_map := Some (lf_addTo lf Tile (lf_map lf)), rw_markers := Some []\<rparr>"

definition RoutingWindow_onClick :: "jsnum \<Rightarrow> jsnum \<Rightarrow> 'm RoutingWindow \<Rightarrow> 'm RoutingWindow" where
  "RoutingWindow_onClick lat lng w =
     (let p = num_str lat @ '' '' @ num_str lng;
          w = (if rw_chooseStartPointActive w
               then w\<lparr>rw_startPoint := Some p, rw_chooseStartPointActive := False\<rparr> else w)
      in if rw_chooseTargetPointActive w
         then w\<lparr>rw_targetPoint := Some p, rw_chooseTargetPointActive := False\<rparr> else w)"

definition RoutingWindow_choosePointOnMap :: "bool \<Rightarrow> 'm RoutingWindow \<Rightarrow> 'm RoutingWindow" where
  "RoutingWindow_choosePointOnMap isStart w =
     (if isStart = True
      then w\<lparr>rw_chooseStartPointActive := True, rw_chooseTargetPointActive := False\<rparr>
      else w\<lparr>rw_chooseStartPointActive := False, rw_chooseTargetPointActive := True\<rparr>)"

definition RoutingWindow_sanitizeLongitude :: "jsval \<Rightarrow> jsval" where
  "RoutingWindow_sanitizeLongitude longitude =
     (if js_less longitude (JNum (Dec (-180) 0)) then js_rem longitude (JNum (Dec 180 0))
      else if js_less (JNum (Dec 180 0)) longitude
           then js_plus (JNum (Dec (-180) 0)) (js_rem longitude (JNum (Dec 180 0)))
      else longitude)"

record request =
  rq_startLatitude :: jsval
  rq_startLongitude :: jsval
  rq_endLatitude :: jsval
  rq_endLongitude :: jsval

definition RoutingWindow_calcRoute_request :: "string option \<Rightarrow> string option \<Rightarrow> request option" where
  "RoutingWindow_calcRoute_request startPoint targetPoint = do {
     s \<leftarrow> startPoint;
     let latlong = js_split s;
     let latOne = parseFloat (js_index latlong 0);
     let longOne = RoutingWindow_sanitizeLongitude (js_index latlong 1);
     t \<leftarrow> targetPoint;
     let latlong = js_split t;
     let latTwo = parseFloat (js_index latlong 0);
     let longTwo = RoutingWindow_sanitizeLongitude (parseFloat (js_index latlong 1));
     Some \<lparr>rq_startLatitude = latOne, rq_startLongitude = longOne,
           rq_endLatitude = latTwo, rq_endLongitude = longTwo\<rparr>
   }"

definition RoutingWindow_addRoute ::
    "'m leaflet \<Rightarrow> jsnum list list \<Rightarrow> jsnum \<Rightarrow> 'm RoutingWindow \<Rightarrow> 'm RoutingWindow option" where
  "RoutingWindow_addRoute lf latLongsArray distance w = do {
     m \<leftarrow> rw_map w;
     let m = (case rw_route w of Some l \<Rightarrow> lf_remove lf l m | None \<Rightarrow> m);
     let l = Polyline (rw_created w) latLongsArray (''Distance: '' @ num_str distance @ ''m'');
     Some (w\<lparr>rw_route := Some l, rw_map := Some (lf_addTo lf l m), rw_created := rw_created w + 1\<rparr>)
   }"

definition coord_str :: "jsnum list \<Rightarrow> nat \<Rightarrow> string" where
  "coord_str c i = (if i < length c then num_str (c ! i) else ''undefined'')"

definition point_str :: "jsnum list \<Rightarrow> string" where
  "point_str c = coord_str c 0 @ '' '' @ coord_str c 1"

definition found_alert :: "server_answer \<Rightarrow> string" where
  "found_alert d = ''Distance of route (m): '' @ num_str (sa_overallDistance d) @ [CHR 0x0A]
     @ ''Dijkstra calc time (ms): '' @ num_str (sa_calculationTimeInMs d)"

definition no_route_alert :: "server_answer \<Rightarrow> string" where
  "no_route_alert d = ''No route found'' @ [CHR 0x0A]
     @ ''Dijkstra calc time (ms): '' @ num_str (sa_calculationTimeInMs d)"

text \<open>
  The callback of the answer. It returns the state and whether it threw, in which case the
  \<open>catch\<close> handler runs on the state reached so far; the text of the error is an argument.
\<close>

definition RoutingWindow_onAnswer ::
    "'m leaflet \<Rightarrow> server_answer \<Rightarrow> 'm RoutingWindow \<Rightarrow> 'm RoutingWindow \<times> bool" where
  "RoutingWindow_onAnswer lf d w =
     (let w = w\<lparr>rw_responseData := Some d\<rparr> in
      if sa_routeFound d then
        (let w = w\<lparr>rw_alerts := rw_alerts w @ [found_alert d]\<rparr> in
         case sa_pathCoordinates d of
           None \<Rightarrow> (w, True)
         | Some [] \<Rightarrow> (w, True)
         | Some (c # cs) \<Rightarrow>
             (let w = w\<lparr>rw_startPoint := Some (point_str c), rw_targetPoint := Some (point_str (last (c # cs)))\<rparr> in
              case RoutingWindow_addRoute lf (c # cs) (sa_overallDistance d) w of
                None \<Rightarrow> (w, True)
              | Some w' \<Rightarrow> (w', False)))
      else
        (w\<lparr>rw_alerts := rw_alerts w @ [no_route_alert d]\<rparr>, False))"

definition RoutingWindow_onError :: "string \<Rightarrow> 'm RoutingWindow \<Rightarrow> 'm RoutingWindow" where
  "RoutingWindow_onError err w = w\<lparr>rw_alerts := rw_alerts w @
     [''Please choose only start/destination points on the ocean!'' @ [CHR 0x0A] @ err]\<rparr>"

definition RoutingWindow_calcRoute_response ::
    "'m leaflet \<Rightarrow> string \<Rightarrow> response \<Rightarrow> 'm RoutingWindow \<Rightarrow> 'm RoutingWindow" where
  "RoutingWindow_calcRoute_response lf typeError resp w =
     (case resp of
        Failure err \<Rightarrow> RoutingWindow_onError err w
      | Answer d \<Rightarrow> (case RoutingWindow_onAnswer lf d w of (w', threw) \<Rightarrow>
          if threw then RoutingWindow_onError typeError w' else w'))"

definition RoutingWindow_watch_startPoint ::
    "'m leaflet \<Rightarrow> string option \<Rightarrow> 'm RoutingWindow \<Rightarrow> 'm RoutingWindow option" where
  "RoutingWindow_watch_startPoint lf val w =
     (case val of
        None \<Rightarrow> Some w
      | Some [] \<Rightarrow> Some w
      | Some v \<Rightarrow> do {
          let latlong = js_split v;
          let lat = parseFloat (js_index latlong 0);
          let long = parseFloat (js_index latlong 1);
          m \<leftarrow> rw_map w;
          let m = (case rw_startMarker w of Some l \<Rightarrow> lf_remove lf l m | None \<Rightarrow> m);
          let l = Marker (rw_created w) (lat, long) ''Start'';
          Some (w\<lparr>rw_startMarker := Some l, rw_map := Some (lf_addTo lf l m), rw_created := rw_created w + 1\<rparr>)
        })"

definition RoutingWindow_watch_targetPoint ::
    "'m leaflet \<Rightarrow> string option \<Rightarrow> 'm RoutingWindow \<Rightarrow> 'm RoutingWindow option" where
  "RoutingWindow_watch_targetPoint lf val w =
     (case val of
        None \<Rightarrow> Some w
      | Some [] \<Rightarrow> Some w
      | Some v \<Rightarrow> do {
          let latlong = js_split v;
          let lat = parseFloat (js_index latlong 0);
          let long = parseFloat (js_index latlong 1);
          m \<leftarrow> rw_map w;
          let m = (case rw_targetMarker w of Some l \<Rightarrow> lf_remove lf l m | None \<Rightarrow> m);
          let l = Marker (rw_created w) (lat, long) ''Target'';
          Some (w\<lparr>rw_targetMarker := Some l, rw_map := Some (lf_addTo lf l m), rw_created := rw_created w + 1\<rparr>)
        })"

definition RoutingWindow_mounted :: "'m leaflet \<Rightarrow> 'm RoutingWindow" where
  "RoutingWindow_mounted lf = RoutingWindow_setupLeafletMap lf RoutingWindow_data"

section \<open>The behaviour of the mounted window\<close>

inductive rw_step :: "'m leaflet \<Rightarrow> 'm RoutingWindow \<Rightarrow> 'm RoutingWindow \<Rightarrow> bool" for lf where
  choose_start: "\<not> rw_chooseStartPointActive w \<Longrightarrow> rw_step lf w (RoutingWindow_choosePointOnMap True w)"
| choose_target: "\<not> rw_chooseTargetPointActive w \<Longrightarrow> rw_step lf w (RoutingWindow_choosePointOnMap False w)"
| click: "rw_step lf w (RoutingWindow_onClick lat lng w)"
| edit_start: "rw_step lf w (w\<lparr>rw_startPoint := Some s\<rparr>)"
| edit_target: "rw_step lf w (w\<lparr>rw_targetPoint := Some s\<rparr>)"
| response: "rw_step lf w (RoutingWindow_calcRoute_response lf err resp w)"
| watch_start: "RoutingWindow_watch_startPoint lf (rw_startPoint w) w = Some w' \<Longrightarrow> rw_step lf w w'"
| watch_target: "RoutingWindow_watch_targetPoint lf (rw_targetPoint w) w = Some w' \<Longrightarrow> rw_step lf w w'"

inductive rw_reachable :: "'m leaflet \<Rightarrow> 'm RoutingWindow \<Rightarrow> bool" for lf where
  rw_start: "rw_reachable lf (RoutingWindow_mounted lf)"
| rw_next: "rw_reachable lf w \<Longrightarrow> rw_step lf w w' \<Longrightarrow> rw_reachable lf w'"

inductive_cases rw_stepE: "rw_step lf w w'"

fun layer_id :: "layer \<Rightarrow> nat option" where
  "layer_id Tile = None"
| "layer_id (Marker i _ _) = Some i"
| "layer_id (Polyline i _ _) = Some i"

definition rw_held :: "'m RoutingWindow \<Rightarrow> layer set" where
  "rw_held w = set_option (rw_startMarker w) \<union> set_option (rw_targetMarker w) \<union> set_option (rw_route w)"

text \<open>
  At most one selection is active; the map shows the tiles and exactly the layers the
  component holds, each of them of its own kind.
\<close>

definition rw_inv :: "('m \<Rightarrow> layer set) \<Rightarrow> 'm RoutingWindow \<Rightarrow> bool" where
  "rw_inv layers w \<longleftrightarrow> \<not> (rw_chooseStartPointActive w \<and> rw_chooseTargetPointActive w) \<and>
     (\<exists>m. rw_map w = Some m \<and> layers m = insert Tile (rw_held w)) \<and>
     (\<forall>l \<in> rw_held w. \<exists>i < rw_created w. layer_id l = Some i) \<and>
     (\<forall>l. rw_startMarker w = Some l \<longrightarrow> (\<exists>i p. l = Marker i p ''Start'')) \<and>
     (\<forall>l. rw_targetMarker w = Some l \<longrightarrow> (\<exists>i p. l = Marker i p ''Target'')) \<and>
     (\<forall>l. rw_route w = Some l \<longrightarrow> (\<exists>i c d. l = Polyline i c d))"

text \<open>Replacing one of the three layers by a new one.\<close>

lemma replace_layer:
  assumes lf: "leaflet_ok lf layers" and m: "layers m = insert Tile (set_option old \<union> R)"
    and R: "\<And>l. old = Some l \<Longrightarrow> l \<notin> R \<and> l \<noteq> Tile"
  shows "layers (lf_addTo lf l (case old of Some l \<Rightarrow> lf_remove lf l m | None \<Rightarrow> m)) = insert Tile (insert l R)"
proof (cases old)
  case None
  then show ?thesis using lf m by (auto simp: leaflet_ok_def)
next
  case (Some a)
  then have "layers (lf_remove lf a m) = insert Tile R" using lf m R[OF Some] by (auto simp: leaflet_ok_def)
  then show ?thesis using lf Some by (auto simp: leaflet_ok_def)
qed

lemma rw_inv_addRoute:
  assumes lf: "leaflet_ok lf layers" and inv: "rw_inv layers w" and "RoutingWindow_addRoute lf cs d w = Some w'"
  shows "rw_inv layers w'"
proof -
  obtain m where m: "rw_map w = Some m" "layers m = insert Tile (rw_held w)" using inv by (auto simp: rw_inv_def)
  let ?R = "set_option (rw_startMarker w) \<union> set_option (rw_targetMarker w)"
  let ?l = "Polyline (rw_created w) cs (''Distance: '' @ num_str d @ ''m'')"
  have "layers (lf_addTo lf ?l (case rw_route w of Some l \<Rightarrow> lf_remove lf l m | None \<Rightarrow> m)) = insert Tile (insert ?l ?R)"
  proof (rule replace_layer[OF lf])
    show "layers m = insert Tile (set_option (rw_route w) \<union> ?R)" using m by (auto simp: rw_held_def)
    show "l \<notin> ?R \<and> l \<noteq> Tile" if "rw_route w = Some l" for l
      using inv that by (auto simp: rw_inv_def)
  qed
  moreover have "w' = w\<lparr>rw_route := Some ?l, rw_map := Some (lf_addTo lf ?l
      (case rw_route w of Some l \<Rightarrow> lf_remove lf l m | None \<Rightarrow> m)), rw_created := rw_created w + 1\<rparr>"
    using assms(3) m by (simp add: RoutingWindow_addRoute_def Let_def)
  ultimately show ?thesis using inv
    by (auto simp: rw_inv_def rw_held_def less_Suc_eq)
qed

lemma rw_inv_start:
  assumes lf: "leaflet_ok lf layers" and inv: "rw_inv layers w"
    and "RoutingWindow_watch_startPoint lf val w = Some w'"
  shows "rw_inv layers w'"
proof (cases "val = None \<or> val = Some []")
  case True
  then show ?thesis using assms(2,3) by (auto simp: RoutingWindow_watch_startPoint_def)
next
  case False
  then obtain c s where v: "val = Some (c # s)" by (cases val) (auto simp: neq_Nil_conv)
  obtain m where m: "rw_map w = Some m" "layers m = insert Tile (rw_held w)" using inv by (auto simp: rw_inv_def)
  let ?R = "set_option (rw_targetMarker w) \<union> set_option (rw_route w)"
  let ?l = "Marker (rw_created w) (parseFloat (js_index (js_split (c # s)) 0), parseFloat (js_index (js_split (c # s)) 1)) ''Start''"
  have "layers (lf_addTo lf ?l (case rw_startMarker w of Some l \<Rightarrow> lf_remove lf l m | None \<Rightarrow> m)) = insert Tile (insert ?l ?R)"
  proof (rule replace_layer[OF lf])
    show "layers m = insert Tile (set_option (rw_startMarker w) \<union> ?R)" using m by (auto simp: rw_held_def)
    show "l \<notin> ?R \<and> l \<noteq> Tile" if "rw_startMarker w = Some l" for l
      using inv that by (auto simp: rw_inv_def)
  qed
  moreover have "w' = w\<lparr>rw_startMarker := Some ?l, rw_map := Some (lf_addTo lf ?l
      (case rw_startMarker w of Some l \<Rightarrow> lf_remove lf l m | None \<Rightarrow> m)), rw_created := rw_created w + 1\<rparr>"
    using assms(3) m v by (simp add: RoutingWindow_watch_startPoint_def Let_def)
  ultimately show ?thesis using inv by (auto simp: rw_inv_def rw_held_def less_Suc_eq)
qed

lemma rw_inv_target:
  assumes lf: "leaflet_ok lf layers" and inv: "rw_inv layers w"
    and "RoutingWindow_watch_targetPoint lf val w = Some w'"
  shows "rw_inv layers w'"
proof (cases "val = None \<or> val = Some []")
  case True
  then show ?thesis using assms(2,3) by (auto simp: RoutingWindow_watch_targetPoint_def)
next
  case False
  then obtain c s where v: "val = Some (c # s)" by (cases val) (auto simp: neq_Nil_conv)
  obtain m where m: "rw_map w = Some m" "layers m = insert Tile (rw_held w)" using inv by (auto simp: rw_inv_def)
  let ?R = "set_option (rw_startMarker w) \<union> set_option (rw_route w)"
  let ?l = "Marker (rw_created w) (parseFloat (js_index (js_split (c # s)) 0), parseFloat (js_index (js_split (c # s)) 1)) ''Target''"
  have "layers (lf_addTo lf ?l (case rw_targetMarker w of Some l \<Rightarrow> lf_remove lf l m | None \<Rightarrow> m)) = insert Tile (insert ?l ?R)"
  proof (rule replace_layer[OF lf])
    show "layers m = insert Tile (set_option (rw_targetMarker w) \<union> ?R)" using m by (auto simp: rw_held_def)
    show "l \<notin> ?R \<and> l \<noteq> Tile" if "rw_targetMarker w = Some l" for l
      using inv that by (auto simp: rw_inv_def)
  qed
  moreover have "w' = w\<lparr>rw_targetMarker := Some ?l, rw_map := Some (lf_addTo lf ?l
      (case rw_targetMarker w of Some l \<Rightarrow> lf_remove lf l m | None \<Rightarrow> m)), rw_created := rw_created w + 1\<rparr>"
    using assms(3) m v by (simp add: RoutingWindow_watch_targetPoint_def Let_def)
  ultimately show ?thesis using inv by (auto simp: rw_inv_def rw_held_def less_Suc_eq)
qed

lemma rw_inv_fields [simp]:
  "rw_inv layers (w\<lparr>rw_startPoint := x\<rparr>) = rw_inv layers w"
  "rw_inv layers (w\<lparr>rw_targetPoint := x\<rparr>) = rw_inv layers w"
  "rw_inv layers (w\<lparr>rw_alerts := a\<rparr>) = rw_inv layers w"
  "rw_inv layers (w\<lparr>rw_responseData := d\<rparr>) = rw_inv layers w"
  by (simp_all add: rw_inv_def rw_held_def)

lemma rw_inv_answer:
  assumes "leaflet_ok lf layers" "rw_inv layers w"
  shows "rw_inv layers (fst (RoutingWindow_onAnswer lf d w))"
  using assms(2)
  by (auto simp: RoutingWindow_onAnswer_def Let_def split: option.splits list.splits
      elim!: rw_inv_addRoute[OF assms(1), rotated])

lemma rw_inv_response:
  assumes "leaflet_ok lf layers" "rw_inv layers w"
  shows "rw_inv layers (RoutingWindow_calcRoute_response lf err resp w)"
  using assms rw_inv_answer[OF assms]
  by (auto simp: RoutingWindow_calcRoute_response_def RoutingWindow_onError_def
      split: response.splits prod.splits) (metis fst_conv)+

lemma rw_inv_step:
  assumes lf: "leaflet_ok lf layers" and "rw_step lf w w'" "rw_inv layers w"
  shows "rw_inv layers w'"
  using assms(2,3)
proof cases
  case choose_start
  then show ?thesis using assms(3) by (auto simp: RoutingWindow_choosePointOnMap_def rw_inv_def rw_held_def)
next
  case choose_target
  then show ?thesis using assms(3) by (auto simp: RoutingWindow_choosePointOnMap_def rw_inv_def rw_held_def)
next
  case click
  then show ?thesis using assms(3) by (auto simp: RoutingWindow_onClick_def rw_inv_def rw_held_def Let_def)
next
  case response
  then show ?thesis using rw_inv_response[OF lf assms(3)] by simp
next
  case watch_start
  then show ?thesis using rw_inv_start[OF lf assms(3)] by simp
next
  case watch_target
  then show ?thesis using rw_inv_target[OF lf assms(3)] by simp
qed (use assms(3) in simp_all)

lemma rw_inv_reachable:
  assumes lf: "leaflet_ok lf layers" and "rw_reachable lf w"
  shows "rw_inv layers w"
  using assms(2)
proof induction
  case rw_start
  then show ?case using lf
    by (simp add: RoutingWindow_mounted_def RoutingWindow_setupLeafletMap_def RoutingWindow_data_def
        rw_inv_def rw_held_def leaflet_ok_def)
next
  case (rw_next w w')
  then show ?case using rw_inv_step[OF lf] by blast
qed

section \<open>Longitudes\<close>

lemma int_rem_bounds: "0 < b \<Longrightarrow> \<bar>int_rem a b\<bar> < b \<and> (0 \<le> a \<longrightarrow> 0 \<le> int_rem a b) \<and> (a \<le> 0 \<longrightarrow> int_rem a b \<le> 0)"
  by (auto simp: int_rem_def abs_mult sgn_if)

lemma sanitize_cases:
  "RoutingWindow_sanitizeLongitude (JNum (Dec m k)) =
     (if m < -180 * 10 ^ k then JNum (Dec (int_rem m (180 * 10 ^ k)) k)
      else if 180 * 10 ^ k < m then JNum (Dec (- (180 * 10 ^ k) + int_rem m (180 * 10 ^ k)) k)
      else JNum (Dec m k))"
  by (simp add: RoutingWindow_sanitizeLongitude_def js_less_def js_rem_def js_plus_def to_number_def)

lemma int_rem_once: "0 \<le> b \<Longrightarrow> b \<le> \<bar>a\<bar> \<Longrightarrow> \<bar>a\<bar> < 2 * b \<Longrightarrow> int_rem a b = sgn a * (\<bar>a\<bar> - b)"
proof -
  assume "0 \<le> b" "b \<le> \<bar>a\<bar>" "\<bar>a\<bar> < 2 * b"
  then have "(\<bar>a\<bar> - b) mod b = \<bar>a\<bar> - b" by (intro mod_pos_pos_trivial) auto
  then have "\<bar>a\<bar> mod b = \<bar>a\<bar> - b" using minus_mod_self2[of "\<bar>a\<bar>" b] by simp
  then show ?thesis using \<open>0 \<le> b\<close> by (simp add: int_rem_def)
qed

section \<open>Properties\<close>


definition ex_leaflet :: "layer set leaflet" where
  "ex_leaflet = \<lparr>lf_map = {}, lf_addTo = insert, lf_remove = (\<lambda>l m. m - {l})\<rparr>"


text \<open>
  C33. Points chosen on the map reach the request: after selecting a start and a target by
  clicks at longitudes between -180 and 180, the request holds the latitudes and the target
  longitude as the numbers clicked. The start longitude is sent as the text of the number,
  since only the target's is parsed.
\<close>

theorem clicked_points_requested:
  assumes "w' = RoutingWindow_onClick lat2 (Dec m2 k2) (RoutingWindow_choosePointOnMap False
      (RoutingWindow_onClick lat1 (Dec m1 k1) (RoutingWindow_choosePointOnMap True w)))"
    and "jsnum_norm (Dec m1 k1) = Dec m1 k1" and "\<bar>m1\<bar> \<le> 180 * 10 ^ k1"
    and "jsnum_norm (Dec m2 k2) = Dec m2 k2" and "\<bar>m2\<bar> \<le> 180 * 10 ^ k2"
  shows "RoutingWindow_calcRoute_request (rw_startPoint w') (rw_targetPoint w') =
    Some \<lparr>rq_startLatitude = JNum (jsnum_norm lat1), rq_startLongitude = JStr (num_str (Dec m1 k1)),
          rq_endLatitude = JNum (jsnum_norm lat2), rq_endLongitude = JNum (Dec m2 k2)\<rparr>"
proof -
  have sp: "rw_startPoint w' = Some (num_str lat1 @ CHR '' '' # num_str (Dec m1 k1))"
    and tp: "rw_targetPoint w' = Some (num_str lat2 @ CHR '' '' # num_str (Dec m2 k2))"
    by (simp_all add: assms(1) RoutingWindow_onClick_def RoutingWindow_choosePointOnMap_def Let_def)
  have split: "js_split (num_str a @ CHR '' '' # num_str b) = [num_str a, num_str b]" for a b
    using js_split_word[OF num_str_no_blank] by simp
  have "RoutingWindow_sanitizeLongitude (JStr (num_str (Dec m1 k1))) = JStr (num_str (Dec m1 k1))"
  proof -
    have "to_number (JStr (num_str (Dec m1 k1))) = Some (Dec m1 k1)" by (simp only: to_number_num_str assms(2))
    moreover have "to_number (JNum x) = Some x" for x by (simp add: to_number_def)
    moreover have "\<not> m1 < - (180 * 10 ^ k1)" "\<not> 180 * 10 ^ k1 < m1" using assms(3) by auto
    ultimately show ?thesis by (simp add: RoutingWindow_sanitizeLongitude_def js_less_def)
  qed
  moreover have "RoutingWindow_sanitizeLongitude (JNum (Dec m2 k2)) = JNum (Dec m2 k2)"
  proof -
    have "\<not> m2 < - (180 * 10 ^ k2)" "\<not> 180 * 10 ^ k2 < m2" using assms(5) by auto
    then show ?thesis by (simp add: sanitize_cases)
  qed
  ultimately show ?thesis
    by (simp add: RoutingWindow_calcRoute_request_def sp tp split js_index_def parseFloat_num_str assms(2,4) Let_def
        del: jsnum_norm.simps)
qed

theorem clicked_points_requested_witness:
  "RoutingWindow_calcRoute_request
     (rw_startPoint (RoutingWindow_onClick (Dec 1 0) (Dec (-25) 1) (RoutingWindow_choosePointOnMap False
       (RoutingWindow_onClick (Dec 7 0) (Dec 93 0) (RoutingWindow_choosePointOnMap True (RoutingWindow_mounted ex_leaflet))))))
     (rw_targetPoint (RoutingWindow_onClick (Dec 1 0) (Dec (-25) 1) (RoutingWindow_choosePointOnMap False
       (RoutingWindow_onClick (Dec 7 0) (Dec 93 0) (RoutingWindow_choosePointOnMap True (RoutingWindow_mounted ex_leaflet)))))) =
   Some \<lparr>rq_startLatitude = JNum (Dec 7 0), rq_startLongitude = JStr (num_str (Dec 93 0)),
         rq_endLatitude = JNum (Dec 1 0), rq_endLongitude = JNum (Dec (-25) 1)\<rparr>"
  using clicked_points_requested[OF refl, of 93 0 "-25" 1 "Dec 1 0" "Dec 7 0" "RoutingWindow_mounted ex_leaflet"]
  by simp

text \<open>
  C34. \<open>sanitizeLongitude\<close> always returns a longitude between -180 and 180, and for
  longitudes from -180 up to 360 it names the same meridian.
\<close>

theorem sanitized_longitude_in_range:
  "\<exists>n. RoutingWindow_sanitizeLongitude (JNum (Dec m k)) = JNum (Dec n k) \<and>
     - (180 * 10 ^ k) \<le> n \<and> n \<le> 180 * 10 ^ k \<and>
     (- (180 * 10 ^ k) \<le> m \<and> m < 360 * 10 ^ k \<longrightarrow> (n - m) mod (360 * 10 ^ k) = 0)"
proof -
  let ?s = "180 * 10 ^ k :: int"
  have s: "0 < ?s" by simp
  have b: "\<bar>int_rem m ?s\<bar> < ?s" "0 \<le> m \<longrightarrow> 0 \<le> int_rem m ?s" using int_rem_bounds[OF s, of m] by auto
  have e: "int_rem m ?s = m - ?s" if "?s < m" "m < 360 * 10 ^ k"
    using int_rem_once[of ?s m] that s by (simp add: sgn_if)
  consider "m < - ?s" | "?s < m" | "- ?s \<le> m" "m \<le> ?s" by linarith
  then show ?thesis
  proof cases
    case 1
    then show ?thesis using b by (auto simp: sanitize_cases)
  next
    case 2
    have "(- ?s + int_rem m ?s - m) mod (360 * 10 ^ k) = 0" if "m < 360 * 10 ^ k"
    proof -
      have "- ?s + int_rem m ?s - m = - (360 * 10 ^ k)" using e[OF 2 that] by simp
      then show ?thesis by (metis dvd_imp_mod_0 dvd_minus_iff dvd_refl)
    qed
    moreover have "RoutingWindow_sanitizeLongitude (JNum (Dec m k)) = JNum (Dec (- ?s + int_rem m ?s) k)"
    proof -
      have "\<not> m < - ?s" using 2 s by linarith
      with 2 show ?thesis by (simp add: sanitize_cases)
    qed
    ultimately show ?thesis using 2 b s by (intro exI[of _ "- ?s + int_rem m ?s"]) auto
  next
    case 3
    then show ?thesis using s by (auto simp: sanitize_cases)
  qed
qed

theorem sanitized_longitude_in_range_witness:
  "\<exists>n. RoutingWindow_sanitizeLongitude (JNum (Dec 1955 1)) = JNum (Dec n 1) \<and> (n - 1955) mod 3600 = 0"
  using sanitized_longitude_in_range[of 1955 1] by auto

text \<open>
  C35. West of the antimeridian \<open>sanitizeLongitude\<close> leaves the meridian: for a longitude
  between -360 and -180 the result is 180 degrees off (-190 becomes -10 and not 170).
\<close>

theorem sanitized_longitude_west:
  assumes "- (360 * 10 ^ k) < m" and "m < - (180 * 10 ^ k)"
  shows "RoutingWindow_sanitizeLongitude (JNum (Dec m k)) = JNum (Dec (m + 180 * 10 ^ k) k)"
  using assms int_rem_once[of "180 * 10 ^ k" m] by (simp add: sanitize_cases sgn_if)

theorem sanitized_longitude_west_witness:
  "RoutingWindow_sanitizeLongitude (JNum (Dec (-190) 0)) = JNum (Dec (-10) 0)"
  using sanitized_longitude_west[of 0 "-190"] by simp



end
