(* ===== verification/ClientApp.thy ===== *)
theory ClientApp
  imports Frontend
begin

text \<open>
  The parts of the client around the routing window: the templates of the components, the
  navigation bar (\<open>src/components/Navbar.vue\<close>), the application (\<open>src/App.vue\<close>) and the start-up
  code (\<open>src/main.js\<close>, \<open>babel.config.js\<close>).

  A template is a tree of elements with their attributes, a component its name, its template and
  the components it registers. The framework is a parameter, a record of its functions that
  install a plugin, set the production tip and mount the root component; what a plugin provides is
  a parameter too. The timer of the browser is the list of the handlers it calls.
\<close>

section \<open>Templates\<close>

datatype element = Element string "(string \<times> string) list" "element list" | Text string

record component =
  co_name :: string
  co_template :: element
  co_components :: "string list"

fun tags :: "element \<Rightarrow> string list" where
  "tags (Element t as es) = t # concat (map tags es)"
| "tags (Text s) = []"

fun attributes :: "string \<Rightarrow> element \<Rightarrow> string list" where
  "attributes a (Element t as es) = map snd (filter (\<lambda>p. fst p = a) as) @ concat (map (attributes a) es)"
| "attributes a (Text s) = []"

definition RoutingWindow_pointInput :: "string \<Rightarrow> string \<Rightarrow> string \<Rightarrow> string \<Rightarrow> element" where
  "RoutingWindow_pointInput title point handler active = Element ''td'' []
     [Element ''b-input-group'' [(''prepend'', title), (''class'', ''mt-3'')]
       [Element ''b-form-input'' [(''v-model'', point), (''placeholder'', ''Latitude (N) Longitude (E)'')] [],
        Element ''b-input-group-append'' []
          [Element ''b-button'' [(''@click'', handler), ('':disabled'', active), (''variant'', ''info'')] [Text ''Select on map'']]]]"

definition RoutingWindow_template :: element where
  "RoutingWindow_template = Element ''div'' []
     [Element ''b-card'' [(''header'', ''Routing Options'')]
       [Element ''table'' []
         [Element ''tr'' []
           [RoutingWindow_pointInput ''Start point'' ''startPoint'' ''choosePointOnMap(true)'' ''chooseStartPointActive'',
            RoutingWindow_pointInput ''Target point'' ''targetPoint'' ''choosePointOnMap(false)'' ''chooseTargetPointActive''],
          Element ''tr'' []
            [Element ''td'' []
              [Element ''b-button'' [(''@click'', ''calcRoute(startPoint, targetPoint)'')] [Text ''Calculate route'']]]]],
      Element ''b-card'' [(''header'', ''World Map'')] [Element ''div'' [(''id'', ''map'')] []]]"

definition RoutingWindow_component :: component where
  "RoutingWindow_component = \<lparr>co_name = ''RoutingWindow'', co_template = RoutingWindow_template, co_components = []\<rparr>"

section \<open>Navbar\<close>

record Navbar =
  nb_timestamp :: string

record js_date =
  jd_fullYear :: nat
  jd_month :: nat
  jd_date :: nat
  jd_hours :: nat
  jd_minutes :: nat
  jd_seconds :: nat

record timer =
  tm_handler :: "js_date \<Rightarrow> Navbar \<Rightarrow> Navbar"
  tm_period :: nat

definition Navbar_template :: element where
  "Navbar_template = Element ''b-navbar'' [(''type'', ''dark''), (''variant'', ''dark'')]
     [Element ''b-navbar-brand'' [(''href'', ''#'')] [Text ''SeaRouter'']]"

definition Navbar_component :: component where
  "Navbar_component = \<lparr>co_name = ''Navbar'', co_template = Navbar_template, co_components = []\<rparr>"

definition Navbar_data :: Navbar where
  "Navbar_data = \<lparr>nb_timestamp = []\<rparr>"

definition Navbar_getNow :: "js_date \<Rightarrow> Navbar \<Rightarrow> Navbar" where
  "Navbar_getNow today nb =
     (let date = nat_str (jd_fullYear today) @ ''-'' @ nat_str (jd_month today + 1) @ ''-'' @ nat_str (jd_date today);
          time = nat_str (jd_hours today) @ '':'' @ nat_str (jd_minutes today) @ '':'' @ nat_str (jd_seconds today);
          dateTime = date @ '' '' @ time
      in nb\<lparr>nb_timestamp := dateTime\<rparr>)"

definition Navbar_created :: "timer list \<Rightarrow> timer list" where
  "Navbar_created timers = timers @ [\<lparr>tm_handler = Navbar_getNow, tm_period = 1000\<rparr>]"

section \<open>Application and start-up\<close>

definition App :: component where
  "App = \<lparr>co_name = ''App'',
     co_template = Element ''div'' [(''id'', ''app'')] [Element ''Navbar'' [] [], Element ''RoutingWindow'' [] []],
     co_components = [''Navbar'', ''RoutingWindow'']\<rparr>"

datatype plugin = BootstrapVue | IconsPlugin

record ('v, 'app) vue =
  vue_use :: "plugin \<Rightarrow> 'v \<Rightarrow> 'v"
  vue_productionTip :: "bool \<Rightarrow> 'v \<Rightarrow> 'v"
  vue_mount :: "component \<Rightarrow> string \<Rightarrow> 'v \<Rightarrow> 'app"

definition main_js :: "('v, 'app) vue \<Rightarrow> 'v \<Rightarrow> 'app" where
  "main_js fw v =
     (let v = vue_use fw BootstrapVue v;
          v = vue_use fw IconsPlugin v;
          v = vue_productionTip fw False v
      in vue_mount fw App ''#app'' v)"

definition babel_config_presets :: "string list" where
  "babel_config_presets = [''@vue/cli-plugin-babel/preset'']"

section \<open>The mounted application\<close>

text \<open>
  An element is known when it is an element of HTML, a component registered by the owner of the
  template, or an element of an installed plugin.
\<close>

definition html_tags :: "string list" where
  "html_tags = [''div'', ''table'', ''tr'', ''td'']"

definition known_tag :: "(plugin \<Rightarrow> string set) \<Rightarrow> plugin set \<Rightarrow> component \<Rightarrow> string \<Rightarrow> bool" where
  "known_tag provides plugins c t \<longleftrightarrow> t \<in> set html_tags \<or> t \<in> set (co_components c) \<or> (\<exists>p \<in> plugins. t \<in> provides p)"

lemma client_tags:
  "set (tags (co_template App)) = {''div'', ''Navbar'', ''RoutingWindow''}"
  "set (tags (co_template Navbar_component)) = {''b-navbar'', ''b-navbar-brand''}"
  "set (tags (co_template RoutingWindow_component)) =
     {''div'', ''b-card'', ''table'', ''tr'', ''td'', ''b-input-group'', ''b-form-input'', ''b-input-group-append'', ''b-button''}"
  by (auto simp: App_def Navbar_component_def Navbar_template_def RoutingWindow_component_def RoutingWindow_template_def
      RoutingWindow_pointInput_def)

text \<open>The buttons and inputs of the window act on the state as \<open>rw_step\<close> says.\<close>

lemma window_controls:
  "attributes ''@click'' RoutingWindow_template =
     [''choosePointOnMap(true)'', ''choosePointOnMap(false)'', ''calcRoute(startPoint, targetPoint)'']"
  "attributes ''v-model'' RoutingWindow_template = [''startPoint'', ''targetPoint'']"
  "attributes '':disabled'' RoutingWindow_template = [''chooseStartPointActive'', ''chooseTargetPointActive'']"
  "attributes ''id'' RoutingWindow_template = [''map'']"
  by (simp_all add: RoutingWindow_template_def RoutingWindow_pointInput_def)

text \<open>The time the navigation bar keeps is that of the last tick of its timer.\<close>

lemma Navbar_ticks:
  assumes "t \<in> set (Navbar_created [])"
  shows "fold (tm_handler t) (ds @ [d]) Navbar_data = Navbar_getNow d Navbar_data"
  using assms by (simp add: Navbar_created_def Navbar_getNow_def Navbar_data_def Let_def)


definition ex_vue :: "(plugin set \<times> bool, string \<times> plugin set \<times> bool) vue" where
  "ex_vue = \<lparr>vue_use = (\<lambda>p v. (insert p (fst v), snd v)), vue_productionTip = (\<lambda>b v. (fst v, b)),
     vue_mount = (\<lambda>c el v. (el, v))\<rparr>"

definition ex_provides :: "plugin \<Rightarrow> string set" where
  "ex_provides p = (case p of BootstrapVue \<Rightarrow> {''b-navbar'', ''b-navbar-brand'', ''b-card'', ''b-input-group'', ''b-input-group-append'',
     ''b-form-input'', ''b-button'', ''b-modal''} | IconsPlugin \<Rightarrow> {''b-icon''})"


end
