(* ===== verification/Spec2Isabelle.thy ===== *)
theory Spec2Isabelle
  imports LabelProperties WaterProperties Benchmark ClientApp
begin

text \<open>
  A verification library for the sea router of the repository \<open>fapra-osm-routing\<close>.

  \<^bold>\<open>The program.\<close> A Java server (\<open>src/src/main/java/de/fmi/searouter/\<close>, below by package and file)
  answers route requests on the oceans. It reads a graph of ocean points from a grid file and searches
  it with Dijkstra's algorithm, or it reads hub labels that a separate program has made from the same
  grid file and answers from them. A browser client (\<open>src/vue-frontend/\<close>) lets the user pick two
  points, sends a request and draws the answer. The development follows a request and the data it
  needs through all of these parts:

    \<^item> \<open>GridCreator.main\<close>: PBF file, coast lines, index of the coast lines, points in water, grid file;
    \<^item> \<open>LabelCreator.main\<close>: grid file, contraction hierarchy, labels, label file;
    \<^item> \<open>SearouterApplication.main\<close>: grid file or label file, state of the service;
    \<^item> \<open>RoutingController.getRoute\<close>: nearest nodes of the two points, router, answer;
    \<^item> \<open>RoutingWindow.vue\<close>: clicks and inputs, request, answer on the map.

  \<^bold>\<open>The theories.\<close> A class is a record of its fields, a method a definition with the name of the class
  in front (\<open>DijkstraHeap_add\<close> is \<open>DijkstraHeap.add\<close>), its exceptions are the value \<open>None\<close>, and its
  object or the static fields it changes are an argument and a result.

    \<^item> \<open>Prelude\<close>: Java arrays, the 32-bit addition, \<open>Arrays.binarySearch\<close>, the \<open>for\<close> loops, with the
      rules that carry the component proofs (collection \<open>java\<close>).
    \<^item> \<open>IntCollections\<close>: \<open>utils/IntArrayList\<close>, \<open>IntStack\<close>, \<open>IntArraySet\<close> and \<open>OrderedIntSet\<close>. The locales
      \<open>int_store\<close>, \<open>int_deque\<close> and \<open>int_set\<close> are their contracts.
    \<^item> \<open>BinaryHeap\<close>: the sifting of a binary heap on lists and the locale \<open>array_heap\<close>, which takes it to
      the arrays of \<open>router/DijkstraHeap\<close> (\<open>DijkstraHeap\<close>, client contract \<open>id_queue\<close>) and of
      \<open>utils/DistanceHeap\<close> (\<open>DistanceHeap\<close>, client contract \<open>dist_queue\<close>).
    \<^item> \<open>Graphs\<close>: walks, shortest walks and the invariant of a best-first search (locale \<open>best_first\<close>),
      the abstract specification of the searches.
    \<^item> \<open>GridData\<close>, \<open>GridImport\<close>: \<open>dijkstragrid/Node\<close>, \<open>Edge\<close> and \<open>Grid\<close> with the offset array, the import
      and the export of \<open>.fmi\<close> files.
    \<^item> \<open>RoutingResult\<close>, \<open>DijkstraRouter\<close>: the two classes of these names under \<open>router/\<close>.
    \<^item> \<open>HubLabelData\<close>, \<open>HubLRouter\<close>, \<open>LabelRouting\<close>: the label store under \<open>hublabeldata/\<close>, the methods of
      \<open>router/HubLRouter\<close>, and their correctness.
    \<^item> \<open>Sphere\<close>: \<open>utils/IntersectionHelper\<close> over the real numbers.
    \<^item> \<open>RoutingService\<close>, \<open>RoutingSystem\<close>: the nearest node, \<open>rest/RoutingController\<close>,
      \<open>SearouterApplication.main\<close>; the locale \<open>route_service\<close> is what the controller needs of a router
      and is interpreted for both of them.
    \<^item> \<open>LabelCreationData\<close>: the static arrays of \<open>hublablecreation/Edges\<close>, \<open>Nodes\<close>, \<open>DynamicGrid\<close>,
      \<open>Labels\<close>, \<open>CHData\<close> and \<open>TmpLabelData\<close>.
    \<^item> \<open>Contraction\<close>: contraction of a graph without data structures; \<open>CHDijkstra\<close>, \<open>DynamicGraph\<close>,
      \<open>ContractionHierarchy\<close>, \<open>ContractionLevels\<close>: \<open>hublablecreation/CHDijkstra\<close>, the changes of the
      current graph, \<open>calcNextLvl\<close> and \<open>calculateCH\<close> of \<open>LabelCreator\<close>, and that the program keeps the
      invariant of \<open>Contraction\<close>.
    \<^item> \<open>HubLabelling\<close>: hub labels of a hierarchy without data structures; \<open>HLDijkstra\<close>, \<open>LabelCreator\<close>,
      \<open>LabelFormat\<close>: \<open>hublablecreation/HLDijkstra\<close>, \<open>calcLabels\<close> and \<open>serializeHubLData\<close> of
      \<open>LabelCreator\<close>, and the conversion to the arrays of the router.
    \<^item> \<open>LabelPipeline\<close>, \<open>LabelProperties\<close>: the label creation from the grid file to the label file, and
      its properties.
    \<^item> \<open>GridCreation\<close>: \<open>dijkstragrid/GridNode\<close>, \<open>NodeCreateWorkerThread\<close> and \<open>GridCreator.createGrid\<close>, with the
      edges in terms of rows and columns and the repair of the import on the exported file.
    \<^item> \<open>Coastlines\<close>: \<open>osmimport/CoastlineImporter\<close>, \<open>importdata/Point\<close> and \<open>CoastlineWay\<close>,
      \<open>coastlinegrid/CoastlineWays\<close> and \<open>CoastlineWriter\<close>: from the handlers of the PBF parser to the
      arrays of edges and the file they are stored in.
    \<^item> \<open>WaterIndex\<close>, \<open>WaterProperties\<close>: \<open>coastlinegrid/GridCell\<close>, \<open>GridLeaf\<close>, \<open>GridParent\<close> and
      \<open>PointInWaterChecker\<close>, the test for water, and \<open>GridCreator.main\<close>. The locale \<open>shifted_test\<close> is what
      the search for the status of a center point needs of the test of an edge; it is interpreted for
      both directions. \<open>cell_ok\<close> is the invariant of a cell with its borders.
    \<^item> \<open>Benchmark\<close>: \<open>SearouterApplication.test\<close>.
    \<^item> \<open>JsValues\<close>, \<open>Frontend\<close>, \<open>ClientApp\<close>: the numbers and strings of JavaScript the client uses,
      \<open>RoutingWindow.vue\<close> with its steps, and the templates, \<open>Navbar.vue\<close>, \<open>App.vue\<close>, \<open>main.js\<close> and
      \<open>babel.config.js\<close>.

  \<^bold>\<open>What is shown.\<close> The properties of this theory compose the parts: a service started on a grid
  file, on the grid file that the grid creation exports, on a label file, or on the label file
  that the label creation makes of a grid file answers every sequence of requests, on the one
  router object it keeps, with a shortest walk in the graph of the file or with the documented
  error, and the two configurations agree. Each component has its own properties: the heaps are
  priority queues, the import gives the graph of the file, the export is its inverse, the nearest
  node is the first of smallest distance in the cell of the point, the Dijkstra router and the hub
  label router return shortest walks, the contraction ends and keeps distances, the labels have
  the cover property, the window shows what its state says. The preprocessing goes from a PBF file to
  the grid file: the edges of the coast lines are those of the file, the index is built and answers for
  every point of the earth from the edges of its cell, and the grid has exactly the points it takes
  for water. Other properties show where the code does not do what it says: the paths of requests
  with temporary labels, the repair of missing edges, longitudes west of -180 degrees, files that
  only one of the two imports accepts, the edges over the antimeridian, coast lines that cannot be
  read or that meet in one point.

  \<^bold>\<open>Loops.\<close> A \<open>while\<close> loop whose end depends on the data is a \<open>partial_function (option)\<close>, in which a
  run without end has the value \<open>None\<close>. The properties show the value \<open>Some\<close>, so they include that
  the loops end: those of the heaps by the size of the heap, the searches by the number of nodes that
  are not settled, the unfolding of shortcuts by the edge ids, which decrease, the levels of the
  contraction by the number of nodes left, the search for the status of a center point by the
  endpoints of edges still ahead, the division of the cells by their size, when cells below some
  size have fewer than 1000 edges (\<open>sparse\<close>). \<open>crowded_point_never_built\<close> shows a case in which the
  division does not end.

  \<^bold>\<open>Bounds.\<close> Additions of distances wrap around at 32 bits, and \<open>MAX_VALUE\<close> marks an unknown
  distance. For the Dijkstra router it is enough that the number of nodes times the largest edge
  stays below \<open>MAX_VALUE\<close> (\<open>distances_fit_bound\<close>). The label creation needs at least two nodes, at
  most four edges at a node, edges of positive length that are shortest ways between their ends,
  and the number of nodes times the largest distance at most \<open>2\<^sup>3\<^sup>0 - 1\<close>, so that the
  sum of two labels does not wrap around. Each of these conditions is a hypothesis of the
  properties that need it, and \<open>single_node_fails\<close> and \<open>five_edges_fail\<close> show two of them
  necessary. The edges between nodes at the north pole have length 0 (\<open>polar_edges\<close>), so that the
  properties of the label creation apply to a created grid only without them. The distances of a
  created grid are not bounded by the number of its nodes within 32 bits, so that
  \<open>service_from_created_grid\<close> has the condition that they fit.

  \<^bold>\<open>Parameters.\<close> The numbers drawn by \<open>java.util.Random\<close> (between 0 and the bound), the conversion
  of a \<open>double\<close> to a \<open>float\<close>, the order in which a hash set is visited, the order in
  which the threads of a level finish and in which the worker threads of the grid creation add
  their nodes, the order of the entries of a hash map and the readings of the clock are arguments
  of the definitions, and the properties hold for all of them. Vue, its plugins and Leaflet are
  records of functions. The threads of the contraction only read shared data and write their own
  lists, so they run one after the other; the threads of the label calculation write rows of their
  own, in any order of the threads.

  \<^bold>\<open>Not modelled.\<close> Rounding: a \<open>double\<close> is a real number on the server and a decimal number in the
  client. The files: a serialized object is the record of its fields, a text file a list of lines
  of tokens, a PBF file the sequence of the calls its parser makes. Whether the index tells the real
  coast: the statuses of the center points rest on the tests of edges along a chain of points, which
  have tolerances; what is stated is how they are computed. Unused debug output:
  \<open>utils/GeoJsonConverter\<close>, which no part of the program calls and which only builds objects of a JSON
  library. The style sheets, and the files under \<open>vue-frontend/build/\<close>,
  which the build generates. Requests with temporary labels are modelled; since the label creation
  gives every node labels (\<open>NUM_OF_NO_LABEL_LVLS\<close> is 0), the service never needs them, and only
  their errors are stated.
\<close>

section \<open>Helper lemmas\<close>

text \<open>The grid of a file with symmetric edges, all distances small, is one the service can work on.\<close>

lemma file_grid_fits:
  assumes wf: "Grid_wf g" and n: "nd_latitude (gr_node g) = map tn_latitude N"
    and adj: "\<forall>u < length N. Grid_adj g (int u) =
      map (\<lambda>e. (the (file_ids 0 N (te_destNode e)), te_dist e)) (filter (\<lambda>e. te_startNode e = tn_id (N ! u)) E)"
    and W: "\<forall>e \<in> set E. te_dist e \<le> W" "0 \<le> W" "int (length N) * W < MAX_VALUE" and s: "s \<in> Grid_nodes g"
  shows "distances_fit (Grid_adj g) s"
proof (rule distances_fit_bound[where V = "Grid_nodes g" and W = W])
  have size: "Grid_nodes g = {0..<int (length N)}" by (simp add: Grid_nodes_def Node_getSize_def n)
  show "finite (Grid_nodes g)" by (simp add: Grid_nodes_def)
  show "int (card (Grid_nodes g)) * W < MAX_VALUE" using W(3) by (simp add: size)
  fix u v d assume u: "u \<in> Grid_nodes g" and e: "(v, d) \<in> set (Grid_adj g u)"
  have "nat u < length N" "int (nat u) = u" using u by (simp_all add: size nat_less_iff)
  with adj have "Grid_adj g u = map (\<lambda>e. (the (file_ids 0 N (te_destNode e)), te_dist e))
      (filter (\<lambda>e. te_startNode e = tn_id (N ! nat u)) E)" by metis
  with e W(1) have "d \<le> W" by auto
  then show "v \<in> Grid_nodes g \<and> d \<le> W" using Grid_adj_closed[OF wf u e] by simp
qed (use W s in auto)

text \<open>The distances of a graph that is fit for the label creation fit the Dijkstra router too.\<close>

lemma metric_way_ends:
  assumes "way adj s u c" and "metric_graph V adj" and "s \<in> V"
  shows "u \<in> V \<and> 0 \<le> c"
  using assms(1,3)
proof (induction rule: up_walk.induct)
  case (up_walk_step n w v h d)
  have "n \<in> V" "0 < w" using metric_graphD(2)[OF assms(2) up_walk_step.prems up_walk_step.hyps(1)] by simp_all
  with up_walk_step.IH show ?case by simp
qed simp

lemma distances_below_fit:
  assumes M: "metric_graph {0..<int n} adj" and D: "distances_below n adj D" and s: "s \<in> {0..<int n}"
  shows "distances_fit adj s"
  unfolding distances_fit_def
proof (intro allI impI)
  fix u assume "reachable adj s u"
  then obtain p c where p: "walk adj s p c" "last p = u" unfolding reachable_def by blast
  have w: "way adj s u c" using walk_way[OF p(1)] p(2) by simp
  have u: "u \<in> {0..<int n}" using metric_way_ends[OF w M s] by simp
  from w obtain d where d: "least adj s u d" by (rule least_exists) (use metric_way_ends[OF _ M s] in blast)
  obtain q where q: "walk adj s q d" "last q = u" using way_walk[OF leastD(1)[OF d]] by blast
  have "d + x < MAX_VALUE" if "(v, x) \<in> set (adj u)" for v x
  proof -
    have "least adj u v x" using metric_graphD(2)[OF M u that] by blast
    then have "x \<le> D" "d \<le> D" "2 * D < MAX_VALUE" using D d s u unfolding distances_below_def by blast+
    then show ?thesis by simp
  qed
  then show "\<exists>p c. walk adj s p c \<and> last p = u \<and> (\<forall>(v, w) \<in> set (adj u). c + w < MAX_VALUE)" using q by blast
qed

lemma distances_fit_same_edges:
  assumes "distances_fit a s" and "s \<in> V" and "\<And>u v d. u \<in> V \<Longrightarrow> (v, d) \<in> set (a u) \<Longrightarrow> v \<in> V" and "\<And>u. u \<in> V \<Longrightarrow> set (a u) = set (b u)"
  shows "distances_fit b s"
proof -
  have w: "walk b s p c \<longleftrightarrow> walk a s p c" for p c
    using walk_same_edges[of a s p c V b] walk_same_edges[of b s p c V a] assms(2-4) by blast
  have "last p \<in> V" if "walk a s p c" for p c using walk_same_edges[OF that, of V a] assms(2,3) by blast
  with assms(1,4) show ?thesis unfolding distances_fit_def reachable_def w by metis
qed

lemma file_adj_symmetric:
  assumes "metric_graph {0..<int (length N)} (file_adj N E)" "(v, d) \<in> set (file_adj N E u)"
  shows "(u, d) \<in> set (file_adj N E v)"
proof -
  have "u \<in> {0..<int (length N)}" using assms(2) by (auto simp: file_adj_def split: if_splits)
  then show ?thesis using metric_graphD(2)[OF assms(1) _ assms(2)] by blast
qed

text \<open>A label file the label creation has made is one the service can work on.\<close>

lemma created_hub_world:
  assumes "serves_routes (file_adj N E) la lo hn he" "metric_graph {0..<int (length N)} (file_adj N E)" "gr_offset (w_grid w0) = None"
  obtains src where "hub_world src (w0\<lparr>w_useHubLabelRouter := True, w_hubNodes := hn, w_hubEdges := he\<rparr>)" "HubLEdges_adj src he = file_adj N E"
proof -
  obtain src where "HubLEdges_wf src (int (length (hn_levels hn))) he" "HubLNodes_wf src hn he" "HubLEdges_adj src he = file_adj N E"
    using assms(1) unfolding serves_routes_def by blast
  with assms(1,3) file_adj_symmetric[OF assms(2)] that show thesis by (simp add: serves_routes_def hub_world_def)
qed

lemma grid_start:
  assumes "Grid_importFmiFile entryOrder file = Some g"
  shows "SearouterApplication_main False entryOrder labelFile (Some file) w0 = Some (w0\<lparr>w_useHubLabelRouter := False, w_grid := g\<rparr>, new_controller False)"
  by (simp add: SearouterApplication_main_def assms RoutingController_setHLRouterUse_def new_controller_def)

lemma hub_start: "SearouterApplication_main True entryOrder (HubLStore_storeData (hn, he)) gridFile w0 =
    Some (w0\<lparr>w_useHubLabelRouter := True, w_hubNodes := hn, w_hubEdges := he\<rparr>, new_controller True)"
  by (simp add: SearouterApplication_main_def store_read RoutingController_setHLRouterUse_def new_controller_def)

section \<open>Properties of the whole system\<close>

text \<open>
  C1. Started without hub labels on a grid file whose edges come in both directions, the service
  answers every sequence of requests on its one router object: each answer is a shortest walk
  between the nodes nearest to the two points, with its length and coordinates, in the graph of the
  file, or the documented error.
\<close>

theorem service_from_grid_file:
  assumes "distinct (map tn_id N)"
    and "\<forall>e \<in> set E. te_startNode e \<in> tn_id ` set N \<and> te_destNode e \<in> tn_id ` set N \<and> 0 \<le> te_dist e"
    and "\<forall>e \<in> set E. has_opposite E e" and "\<And>m. set (entryOrder m) = set m"
    and "\<forall>e \<in> set E. te_dist e \<le> W" and "0 \<le> W" and "int (length N) * W < MAX_VALUE"
  shows "\<exists>w c. SearouterApplication_main False entryOrder labelFile (Some (fmi_file a b N E)) w0 = Some (w, c) \<and>
    nd_latitude (gr_node (w_grid w)) = map tn_latitude N \<and> nd_longitude (gr_node (w_grid w)) = map tn_longitude N \<and>
    (\<forall>u < length N. Grid_adj (w_grid w) (int u) =
       map (\<lambda>e. (the (file_ids 0 N (te_destNode e)), te_dist e)) (filter (\<lambda>e. te_startNode e = tn_id (N ! u)) E)) \<and>
    (\<forall>rqs. \<exists>responses c'. serve w c rqs = Some (responses, c') \<and>
       session_ok w (Grid_adj (w_grid w)) (Grid_coord (w_grid w)) rqs responses)"
proof -
  obtain g where g: "Grid_importFmiFile entryOrder (fmi_file a b N E) = Some g" "Grid_wf g"
    "nd_latitude (gr_node g) = map tn_latitude N" "nd_longitude (gr_node g) = map tn_longitude N"
    "\<forall>u < length N. Grid_adj g (int u) =
       map (\<lambda>e. (the (file_ids 0 N (te_destNode e)), te_dist e)) (filter (\<lambda>e. te_startNode e = tn_id (N ! u)) E)"
    using import_symmetric_ok[OF assms(1-4)] by blast
  let ?w = "w0\<lparr>w_useHubLabelRouter := False, w_grid := g\<rparr>"
  have main: "SearouterApplication_main False entryOrder labelFile (Some (fmi_file a b N E)) w0 = Some (?w, new_controller False)"
    by (rule grid_start[OF g(1)])
  have "dijkstra_world ?w" using g(2) file_grid_fits[OF g(2,3,5) assms(5-7)] by (simp add: dijkstra_world_def)
  from dijkstra.serve_ok[OF this new_controller_inv(1)]
  have "\<exists>responses c'. serve ?w (new_controller False) rqs = Some (responses, c') \<and>
      session_ok ?w (Grid_adj g) (Grid_coord g) rqs responses" for rqs by fastforce
  with main g(3-5) show ?thesis by simp
qed

theorem service_from_grid_file_witness:
  "\<exists>w c responses c'. SearouterApplication_main False rev None (Some (fmi_file [] [] ex_fileNodes ex_fileEdges)) initial_world = Some (w, c) \<and>
     serve w c [(0, 1, \<lparr>rq_startPoint = \<lparr>ll_latitude = 1, ll_longitude = 2\<rparr>, rq_endPoint = \<lparr>ll_latitude = 4, ll_longitude = 5\<rparr>\<rparr>)] =
       Some (responses, c')"
proof -
  have a: "distinct (map tn_id ex_fileNodes)"
    "\<forall>e \<in> set ex_fileEdges. te_startNode e \<in> tn_id ` set ex_fileNodes \<and> te_destNode e \<in> tn_id ` set ex_fileNodes \<and> 0 \<le> te_dist e"
    "\<forall>e \<in> set ex_fileEdges. has_opposite ex_fileEdges e"
    "\<forall>e \<in> set ex_fileEdges. te_dist e \<le> 9" "int (length ex_fileNodes) * 9 < MAX_VALUE"
    by (simp_all add: ex_fileNodes_def ex_fileEdges_def has_opposite_def MAX_VALUE_def)
  from service_from_grid_file[OF a(1-3) set_rev a(4) zero_le_numeral a(5), of None "[]" "[]" initial_world] show ?thesis
    by blast
qed


definition ex_channel :: "real \<Rightarrow> real \<Rightarrow> bool" where
  "ex_channel la lo \<longleftrightarrow> la = lat_of 250 \<and> (lo = lon_of 0 \<or> lo = lon_of 1998 \<or> lo = lon_of 1999)"


text \<open>
  Started with hub labels on stored label data that is well-formed and has the cover property,
  the service answers every sequence of requests: each answer is a shortest walk of original edges
  between the nodes nearest to the two points, or the documented error.
\<close>

lemma service_from_label_file:
  assumes "hub_world src (w0\<lparr>w_useHubLabelRouter := True, w_hubNodes := ns, w_hubEdges := es\<rparr>)"
  shows "\<exists>w c. SearouterApplication_main True entryOrder (HubLStore_storeData (ns, es)) gridFile w0 = Some (w, c) \<and>
    w_hubNodes w = ns \<and> w_hubEdges w = es \<and>
    (\<forall>rqs. \<exists>responses c'. serve w c rqs = Some (responses, c') \<and>
       session_ok w (HubLEdges_adj src es) (HubLNodes_coord ns) rqs responses)"
proof -
  let ?w = "w0\<lparr>w_useHubLabelRouter := True, w_hubNodes := ns, w_hubEdges := es\<rparr>"
  have main: "SearouterApplication_main True entryOrder (HubLStore_storeData (ns, es)) gridFile w0 = Some (?w, new_controller True)"
    by (simp add: SearouterApplication_main_def store_read RoutingController_setHLRouterUse_def new_controller_def)
  have "\<exists>responses c'. serve ?w (new_controller True) rqs = Some (responses, c') \<and>
      session_ok ?w (HubLEdges_adj src es) (HubLNodes_coord ns) rqs responses" for rqs
    using hub.serve_ok[OF assms new_controller_inv(2), of rqs] by auto
  with main show ?thesis by auto
qed

text \<open>
  C7. The two routers are interchangeable: when the label data was made for the graph of the grid,
  a request gets the same status from both configurations of the service, and a route is found by
  both or by none, with the same length.
\<close>

theorem routers_agree:
  assumes "dijkstra_world w1" and "hub_world src w2"
    and "hn_latitudes (w_hubNodes w2) = Some (nd_latitude (gr_node (w_grid w1)))"
    and "hn_longitudes (w_hubNodes w2) = Some (nd_longitude (gr_node (w_grid w1)))"
    and "\<And>u. u \<in> Grid_nodes (w_grid w1) \<Longrightarrow> set (Grid_adj (w_grid w1) u) = set (HubLEdges_adj src (w_hubEdges w2) u)"
  shows "\<exists>a c1 b c2. RoutingController_getRoute w1 t0 t1 (new_controller False) rq = Some (a, c1) \<and>
    RoutingController_getRoute w2 t2 t3 (new_controller True) rq = Some (b, c2) \<and> same_response a b"
  by (rule routers_same_response[OF assms])

theorem routers_agree_witness:
  "\<exists>a c1 b c2. RoutingController_getRoute ex_gridWorld 0 1 (new_controller False) ex_request = Some (a, c1) \<and>
    RoutingController_getRoute ex_hubWorld 0 1 (new_controller True) ex_request = Some (b, c2) \<and> same_response a b"
proof (rule routers_agree[OF ex_gridWorld_ok ex_hubWorld_ok])
  show "hn_latitudes (w_hubNodes ex_hubWorld) = Some (nd_latitude (gr_node (w_grid ex_gridWorld)))"
    "hn_longitudes (w_hubNodes ex_hubWorld) = Some (nd_longitude (gr_node (w_grid ex_gridWorld)))"
    by (simp_all add: ex_hubWorld_def ex_gridWorld_def ex_labels_def)
  have "w_hubEdges ex_hubWorld = ex_hubEdges" by (simp add: ex_hubWorld_def)
  then show "set (Grid_adj (w_grid ex_gridWorld) u) = set (HubLEdges_adj ex_src (w_hubEdges ex_hubWorld) u)"
    if "u \<in> Grid_nodes (w_grid ex_gridWorld)" for u
    using that unfolding ex_gridWorld_nodes by (auto simp: ex_gridWorld_adj ex_labels_adj_iff)
qed

text \<open>
  C3. The label creation and the service together: from a grid file whose edges are shortest ways
  between their ends, \<open>LabelCreator.main\<close> makes a label file, in any order of the threads and with
  any random numbers, on which the service started with hub labels answers every sequence of requests
  with shortest walks in the graph of the grid file, or the documented error.
\<close>

theorem service_from_created_labels:
  assumes "grid_file_ok N E" and "metric_graph {0..<int (length N)} (file_adj N E)" and "2 \<le> length N" and "int (length N) \<le> MAX_VALUE"
    and "distances_below (length N) (file_adj N E) D" and "int (length N) * D \<le> 1073741823"
    and "\<And>b i. 0 < b \<Longrightarrow> 0 \<le> rnd b i \<and> rnd b i < b" and "\<And>m. set (entryOrder m) = set m" and "\<And>ts. mset (threadOrder ts) = mset ts"
    and "gr_offset (w_grid w0) = None"
  shows "\<exists>chFile labelFile store w c. LabelCreator_main rnd threadOrder entryOrder None None (Some (fmi_file a b N E)) s0 L0 hn0 = Some (chFile, labelFile, store) \<and>
    SearouterApplication_main True entryOrder store None w0 = Some (w, c) \<and>
    hn_latitudes (w_hubNodes w) = Some (map tn_latitude N) \<and> hn_longitudes (w_hubNodes w) = Some (map tn_longitude N) \<and>
    (\<forall>rqs. \<exists>responses c'. serve w c rqs = Some (responses, c') \<and> session_ok w (file_adj N E) (HubLNodes_coord (w_hubNodes w)) rqs responses)"
proof -
  obtain s L hn he where m: "LabelCreator_main rnd threadOrder entryOrder None None (Some (fmi_file a b N E)) s0 L0 hn0 =
      Some (CHData_storeData s, TmpLabelData_storeData L, HubLStore_storeData (hn, he))"
    "serves_routes (file_adj N E) (map tn_latitude N) (map tn_longitude N) hn he"
    using LabelCreator_main_ok[where rnd = rnd and entryOrder = entryOrder and threadOrder = threadOrder, OF assms(1-9)] by blast
  let ?w = "w0\<lparr>w_useHubLabelRouter := True, w_hubNodes := hn, w_hubEdges := he\<rparr>"
  obtain src where src: "hub_world src ?w" "HubLEdges_adj src he = file_adj N E" by (rule created_hub_world[OF m(2) assms(2,10)])
  have "\<exists>responses c'. serve ?w (new_controller True) rqs = Some (responses, c') \<and>
      session_ok ?w (file_adj N E) (HubLNodes_coord (w_hubNodes ?w)) rqs responses" for rqs
    using hub.serve_ok[OF src(1) new_controller_inv(2), of rqs] src(2) by auto
  then show ?thesis using m hub_start[of entryOrder hn he None w0] by (auto simp: serves_routes_def)
qed

theorem service_from_created_labels_witness:
  "\<exists>chFile labelFile store w c responses c'.
     LabelCreator_main (\<lambda>b i. b - 1) rev rev None None (Some (fmi_file [] [] ex_pathNodes ex_pathEdges)) ex_empty ex_rowLabels ex_labels =
       Some (chFile, labelFile, store) \<and>
     SearouterApplication_main True rev store None initial_world = Some (w, c) \<and> serve w c [(0, 1, ex_request)] = Some (responses, c')"
proof -
  have "\<exists>chFile labelFile store w c. LabelCreator_main (\<lambda>b i. b - 1) rev rev None None (Some (fmi_file [] [] ex_pathNodes ex_pathEdges)) ex_empty ex_rowLabels ex_labels =
      Some (chFile, labelFile, store) \<and> SearouterApplication_main True rev store None initial_world = Some (w, c) \<and>
    hn_latitudes (w_hubNodes w) = Some (map tn_latitude ex_pathNodes) \<and> hn_longitudes (w_hubNodes w) = Some (map tn_longitude ex_pathNodes) \<and>
    (\<forall>rqs. \<exists>responses c'. serve w c rqs = Some (responses, c') \<and>
       session_ok w (file_adj ex_pathNodes ex_pathEdges) (HubLNodes_coord (w_hubNodes w)) rqs responses)"
    by (rule service_from_created_labels[OF ex_path_ok(1) ex_path_metric _ _ ex_path_distances]) (simp_all add: ex_path_ok(2) MAX_VALUE_def initial_world_def)
  then show ?thesis by blast
qed




end
